(* ===== verification/Akg_Prelude.thy ===== *)
theory Akg_Prelude
  imports Main "HOL-Library.Word" "HOL-Library.Sublist"
begin

text \<open>
  What every component of the development shares: the outcome of a C++ call that may abort or
  run into undefined behaviour, the monadic composition of such calls, the decimal and
  hexadecimal conversions of the C library that the sources use (\<open>strtoul\<close>,
  \<open>operator<<\<close> on integers, \<open>std::isdigit\<close>), and the lemma collections the component
  theories add to.
\<close>

named_theorems lex_intros "how the lexer reads a printed token"
named_theorems wp_intros "weakest-precondition rules of the parser's primitives"
named_theorems safe_intros "rules for parsers that make progress and never exhaust their fuel"
named_theorems tile_simps "facts about tile sizes used by the tiling theories"

section \<open>Outcomes\<close>

text \<open>
  \<open>Fatal\<close> is a failed \<open>CHECK\<close>, a \<open>LOG(FATAL)\<close> or a \<open>CHECK(false)\<close>: the
  process aborts (or throws \<open>dmlc::Error\<close>, which none of the modelled code catches).
  The other failures except the last two are undefined behaviour of the C++ program,
  which the model stops at; \<open>Bad_cast\<close> is the conversion of a floating-point value to an
  integer type that cannot hold it. \<open>Inexact\<close> is not a failure of the program either: it
  marks the inputs beyond which a floating-point computation of the program is no longer the
  exact one the model describes. \<open>Out_of_fuel\<close> is not an outcome of the program: it marks a
  recursion bound of the model that was chosen too small.
\<close>

datatype failure =
    Fatal
  | Out_of_bounds
  | Empty_container
  | Signed_overflow
  | Div_by_zero
  | Null_pointer
  | Bad_cast
  | Inexact
  | Out_of_fuel

datatype 'a res = Ok 'a | Err failure

definition res_bind :: "'a res \<Rightarrow> ('a \<Rightarrow> 'b res) \<Rightarrow> 'b res" where
  "res_bind r f = (case r of Ok x \<Rightarrow> f x | Err e \<Rightarrow> Err e)"

definition guard :: "bool \<Rightarrow> failure \<Rightarrow> unit res" where
  "guard b e = (if b then Ok () else Err e)"

abbreviation CHECK :: "bool \<Rightarrow> unit res" where
  "CHECK b \<equiv> guard b Fatal"

lemma res_bind_simps [simp]:
  "res_bind (Ok x) f = f x"
  "res_bind (Err e) f = Err e"
  by (simp_all add: res_bind_def)

lemma res_bind_Ok_conv: "res_bind r f = Ok y \<longleftrightarrow> (\<exists>x. r = Ok x \<and> f x = Ok y)"
  by (cases r) simp_all

lemma res_bind_Err_conv:
  "res_bind r f = Err e \<longleftrightarrow> r = Err e \<or> (\<exists>x. r = Ok x \<and> f x = Err e)"
  by (cases r) auto

lemma res_bind_cong [fundef_cong]:
  "r = r' \<Longrightarrow> (\<And>x. r' = Ok x \<Longrightarrow> f x = g x) \<Longrightarrow> res_bind r f = res_bind r' g"
  by (cases r') simp_all

lemma guard_simps [simp]:
  "guard True e = Ok ()"
  "guard False e = Err e"
  by (simp_all add: guard_def)

lemma guard_Ok_conv [simp]: "guard b e = Ok u \<longleftrightarrow> b"
  by (simp add: guard_def)

lemma guard_Err_conv [simp]: "guard b e = Err e' \<longleftrightarrow> \<not> b \<and> e = e'"
  by (auto simp: guard_def)

section \<open>Loops over containers\<close>

text \<open>\<open>v[i]\<close> on a vector, undefined when \<open>i\<close> is not an index of it.\<close>

definition vec_at :: "'a list \<Rightarrow> nat \<Rightarrow> 'a res" where
  "vec_at xs i = (if i < length xs then Ok (xs ! i) else Err Out_of_bounds)"

text \<open>\<open>v.back()\<close>, undefined on an empty vector.\<close>

definition vec_back :: "'a list \<Rightarrow> 'a res" where
  "vec_back xs = (if xs = [] then Err Empty_container else Ok (last xs))"

text \<open>A range-based \<open>for\<close> whose body changes a state and may fail.\<close>

fun for_each :: "('a \<Rightarrow> 's \<Rightarrow> 's res) \<Rightarrow> 'a list \<Rightarrow> 's \<Rightarrow> 's res" where
  "for_each f [] s = Ok s"
| "for_each f (x # xs) s = res_bind (f x s) (\<lambda>s. for_each f xs s)"

lemma vec_at_Ok_conv: "vec_at xs i = Ok x \<longleftrightarrow> i < length xs \<and> x = xs ! i"
  by (auto simp: vec_at_def)

lemma vec_at_less [simp]: "i < length xs \<Longrightarrow> vec_at xs i = Ok (xs ! i)"
  by (simp add: vec_at_def)

lemma vec_back_nonempty [simp]: "xs \<noteq> [] \<Longrightarrow> vec_back xs = Ok (last xs)"
  by (simp add: vec_back_def)

lemma for_each_append:
  "for_each f (xs @ ys) s = res_bind (for_each f xs s) (\<lambda>s. for_each f ys s)"
proof (induction xs arbitrary: s)
  case (Cons x xs)
  then show ?case by (cases "f x s") simp_all
qed simp

lemma for_each_invariant:
  assumes "\<And>x s s'. x \<in> set xs \<Longrightarrow> P s \<Longrightarrow> f x s = Ok s' \<Longrightarrow> P s'"
  shows "P s \<Longrightarrow> for_each f xs s = Ok s' \<Longrightarrow> P s'"
  using assms by (induction xs arbitrary: s) (auto simp: res_bind_Ok_conv)

lemma for_each_total:
  assumes "\<And>x s. x \<in> set xs \<Longrightarrow> P s \<Longrightarrow> \<exists>s'. f x s = Ok s' \<and> P s'"
  shows "P s \<Longrightarrow> \<exists>s'. for_each f xs s = Ok s' \<and> P s'"
  using assms by (induction xs arbitrary: s) fastforce+

section \<open>Characters and numbers of the C library\<close>

definition isdigit :: "char \<Rightarrow> bool" where
  "isdigit c \<longleftrightarrow> 48 \<le> (of_char c :: nat) \<and> (of_char c :: nat) \<le> 57"

definition NUL :: char where
  "NUL = CHR 0x00"

definition NEWLINE :: char where
  "NEWLINE = CHR 0x0A"

definition CARRIAGE_RETURN :: char where
  "CARRIAGE_RETURN = CHR 0x0D"

definition digit_char :: "nat \<Rightarrow> char" where
  "digit_char d = char_of (48 + d)"

fun dec_digits :: "nat \<Rightarrow> string" where
  "dec_digits n =
     (if n < 10 then [digit_char n] else dec_digits (n div 10) @ [digit_char (n mod 10)])"

declare dec_digits.simps [simp del]

definition digit_val :: "char \<Rightarrow> nat" where
  "digit_val c = (if isdigit c then of_char c - 48 else of_char c - 87)"

definition number_of_digits :: "nat \<Rightarrow> string \<Rightarrow> nat" where
  "number_of_digits base ds = foldl (\<lambda>n c. n * base + digit_val c) 0 ds"

text \<open>\<open>strtoul\<close> on a 64-bit Linux: the value saturates at \<open>ULONG_MAX\<close>.\<close>

definition strtoul :: "nat \<Rightarrow> string \<Rightarrow> 64 word" where
  "strtoul base ds = word_of_nat (min (number_of_digits base ds) (2 ^ 64 - 1))"

definition show_nat :: "nat \<Rightarrow> string" where
  "show_nat n = dec_digits n"

fun hex_digits :: "nat \<Rightarrow> string" where
  "hex_digits n =
     (if n < 16 then [if n < 10 then digit_char n else char_of (87 + n)]
      else hex_digits (n div 16) @ [if n mod 16 < 10 then digit_char (n mod 16) else char_of (87 + n mod 16)])"

declare hex_digits.simps [simp del]

definition show_hex :: "nat \<Rightarrow> string" where
  "show_hex n = hex_digits n"

definition show_int :: "int \<Rightarrow> string" where
  "show_int i = (if i < 0 then CHR ''-'' # dec_digits (nat (- i)) else dec_digits (nat i))"

lemma of_char_digit_char: "d < 10 \<Longrightarrow> (of_char (digit_char d) :: nat) = 48 + d"
  by (simp add: digit_char_def)

lemma isdigit_digit_char [simp]: "d < 10 \<Longrightarrow> isdigit (digit_char d)"
  by (simp add: isdigit_def of_char_digit_char)

lemma digit_val_digit_char [simp]: "d < 10 \<Longrightarrow> digit_val (digit_char d) = d"
  by (simp add: digit_val_def of_char_digit_char)

lemma dec_digits_isdigit: "c \<in> set (dec_digits n) \<Longrightarrow> isdigit c"
proof (induction n rule: dec_digits.induct)
  case (1 n)
  show ?case
  proof (cases "n < 10")
    case True
    with "1.prems" show ?thesis by (simp add: dec_digits.simps [of n])
  next
    case False
    with "1.prems" have "c = digit_char (n mod 10) \<or> c \<in> set (dec_digits (n div 10))"
      by (simp add: dec_digits.simps [of n])
    with False "1.IH" show ?thesis by auto
  qed
qed

lemma dec_digits_all_isdigit [simp]: "list_all isdigit (dec_digits n)"
  by (auto simp: list_all_iff dec_digits_isdigit)

lemma dec_digits_nonempty [simp]: "dec_digits n \<noteq> []"
  by (simp add: dec_digits.simps [of n])

lemma number_of_dec_digits [simp]: "number_of_digits 10 (dec_digits n) = n"
proof (induction n rule: dec_digits.induct)
  case (1 n)
  show ?case
  proof (cases "n < 10")
    case True
    then show ?thesis by (simp add: dec_digits.simps [of n] number_of_digits_def)
  next
    case False
    then have "number_of_digits 10 (dec_digits n)
        = number_of_digits 10 (dec_digits (n div 10)) * 10 + n mod 10"
      by (simp add: dec_digits.simps [of n] number_of_digits_def)
    with False "1.IH" show ?thesis by simp
  qed
qed

lemma strtoul_dec_digits: "n < 2 ^ 64 \<Longrightarrow> strtoul 10 (dec_digits n) = word_of_nat n"
  by (simp add: strtoul_def min_def)

lemma hd_dec_digits_zero: "hd (dec_digits n) = CHR ''0'' \<Longrightarrow> n = 0"
proof (induction n rule: dec_digits.induct)
  case (1 n)
  show ?case
  proof (cases "n < 10")
    case True
    with "1.prems" have "digit_char n = CHR ''0''"
      by (simp add: dec_digits.simps [of n])
    then have "digit_val (digit_char n) = digit_val (CHR ''0'')" by simp
    moreover have "digit_val (CHR ''0'') = 0" by (simp add: digit_val_def isdigit_def)
    ultimately show ?thesis using True by simp
  next
    case False
    with "1.prems" have "hd (dec_digits (n div 10)) = CHR ''0''"
      by (simp add: dec_digits.simps [of n])
    with False "1.IH" show ?thesis by simp
  qed
qed

section \<open>Lists\<close>

lemma takeWhile_stop: "(\<And>x. x \<in> set xs \<Longrightarrow> P x) \<Longrightarrow> ys = [] \<or> \<not> P (hd ys) \<Longrightarrow>
    takeWhile P (xs @ ys) = xs"
  by (cases ys) (simp_all add: takeWhile_append2)

lemma sum_list_update_cancel:
  "i < length xs \<Longrightarrow> sum_list (map f (xs[i := y])) + f (xs ! i) = sum_list (map f xs) + f y"
  for f :: "'a \<Rightarrow> 'b :: comm_monoid_add"
  by (induction xs arbitrary: i) (auto simp: ac_simps split: nat.split)

lemma set_update_other: "x \<in> set xs \<Longrightarrow> x \<noteq> xs ! i \<Longrightarrow> x \<in> set (xs[i := y])"
  by (metis in_set_conv_nth length_list_update nth_list_update_neq)

lemma drop_length_takeWhile: "drop (length (takeWhile P xs)) xs = dropWhile P xs"
  by (induction xs) simp_all

lemma drop_add_drop: "drop m xs = ys \<Longrightarrow> drop (m + n) xs = drop n ys"
  by (metis add.commute drop_drop)

end
