(* ===== verification/Cxx_Float.thy ===== *)
theory Cxx_Float
  imports Akg_Prelude
begin

text \<open>
  The part of IEEE binary64 that the text front end uses: \<open>std::strtod\<close> on an unsigned
  decimal literal, negation, and \<open>operator<<(double)\<close> with the stream's default format
  (\<open>%g\<close> with six significant digits). A finite value is \<open>m * 2 ^ e\<close> with a sign bit,
  normalised to \<open>2^52 \<le> m < 2^53\<close> or, for a subnormal and for zero, \<open>e = -1074\<close>. All
  conversions are exact integer computations, rounded half to even as the C library does.
\<close>

datatype f64 = F64 bool nat int | F64_inf bool

definition f64_zero :: f64 where
  "f64_zero = F64 False 0 (- 1074)"

fun f64_neg :: "f64 \<Rightarrow> f64" where
  "f64_neg (F64 s m e) = F64 (\<not> s) m e"
| "f64_neg (F64_inf s) = F64_inf (\<not> s)"

definition round_half_even :: "nat \<Rightarrow> nat \<Rightarrow> nat" where
  "round_half_even a b =
     (let q = a div b; r = a mod b
      in if 2 * r < b then q else if b < 2 * r then Suc q else if even q then q else Suc q)"

fun bit_length :: "nat \<Rightarrow> nat" where
  "bit_length n = (if n = 0 then 0 else Suc (bit_length (n div 2)))"

declare bit_length.simps [simp del]

text \<open>The fraction \<open>a / b\<close> divided by \<open>base ^ e\<close>, as a pair.\<close>

definition scale :: "nat \<Rightarrow> nat \<Rightarrow> nat \<Rightarrow> int \<Rightarrow> nat \<times> nat" where
  "scale base a b e = (if 0 \<le> e then (a, b * base ^ nat e) else (a * base ^ nat (- e), b))"

definition f64_round :: "nat \<Rightarrow> nat \<Rightarrow> f64" where
  "f64_round a b =
     (if a = 0 then f64_zero
      else
        let e0 = int (bit_length a) - int (bit_length b) - 53;
            e1 = (case scale 2 a b e0 of (p, q) \<Rightarrow> if 2 ^ 53 * q \<le> p then e0 + 1 else e0);
            e2 = max e1 (- 1074);
            m = (case scale 2 a b e2 of (p, q) \<Rightarrow> round_half_even p q)
        in if m = 2 ^ 53
           then if e2 + 1 > 971 then F64_inf False else F64 False (2 ^ 52) (e2 + 1)
           else if e2 > 971 then F64_inf False else F64 False m e2)"

text \<open>\<open>std::strtod\<close> on \<open>digits\<close> or \<open>digits.digits\<close>.\<close>

definition strtod :: "string \<Rightarrow> f64" where
  "strtod s =
     (let ip = takeWhile isdigit s; fp = takeWhile isdigit (drop (Suc (length ip)) s)
      in f64_round (number_of_digits 10 (ip @ fp)) (10 ^ length fp))"

text \<open>The decimal exponent of \<open>a / b > 0\<close>: the \<open>x\<close> with \<open>10^x \<le> a / b < 10^(x+1)\<close>.\<close>

definition dec_exponent :: "nat \<Rightarrow> nat \<Rightarrow> int" where
  "dec_exponent a b =
     (if b \<le> a then int (length (dec_digits (a div b))) - 1
      else let n = length (dec_digits (b div a)) - 1
           in if b \<le> 10 ^ n * a then - int n else - int n - 1)"

definition strip_zeros :: "string \<Rightarrow> string" where
  "strip_zeros ds = rev (dropWhile (\<lambda>c. c = CHR ''0'') (rev ds))"

definition with_fraction :: "string \<Rightarrow> string \<Rightarrow> string" where
  "with_fraction ip fp = (if strip_zeros fp = [] then ip else ip @ CHR ''.'' # strip_zeros fp)"

definition show_exponent :: "int \<Rightarrow> string" where
  "show_exponent x =
     CHR ''e'' # (if x < 0 then CHR ''-'' else CHR ''+'')
       # (let ds = dec_digits (nat \<bar>x\<bar>) in if length ds < 2 then CHR ''0'' # ds else ds)"

text \<open>\<open>%g\<close> of the positive fraction \<open>a / b\<close>.\<close>

definition show_fraction :: "nat \<Rightarrow> nat \<Rightarrow> string" where
  "show_fraction a b =
     (let x0 = dec_exponent a b;
          d0 = (case scale 10 a b (x0 - 5) of (p, q) \<Rightarrow> round_half_even p q);
          d = (if d0 = 10 ^ 6 then 10 ^ 5 else d0);
          x = (if d0 = 10 ^ 6 then x0 + 1 else x0);
          ds = dec_digits d
      in if x < - 4 \<or> 6 \<le> x then with_fraction (take 1 ds) (drop 1 ds) @ show_exponent x
         else if 0 \<le> x then with_fraction (take (nat x + 1) ds) (drop (nat x + 1) ds)
         else with_fraction ''0'' (replicate (nat (- x) - 1) (CHR ''0'') @ ds))"

fun show_f64 :: "f64 \<Rightarrow> string" where
  "show_f64 (F64 s m e) =
     (if s then ''-'' else '''') @
     (if m = 0 then ''0''
      else if 0 \<le> e then show_fraction (m * 2 ^ nat e) 1
      else show_fraction m (2 ^ nat (- e)))"
| "show_f64 (F64_inf s) = (if s then ''-inf'' else ''inf'')"

end
