(* ===== verification/Halide_Token.thy ===== *)
theory Halide_Token
  imports Akg_Prelude Cxx_Float
begin

text \<open>
  The tokenizer of the textual Halide IR (\<open>src/contrib/parser/token.h\<close>, \<open>token.cc\<close> and
  the token tables \<open>key_word.md\<close>, \<open>meta_token.md\<close>). A tokenizer state holds the source
  text, the position \<open>cur\<close> in it and the attributes of the last token, which stay behind
  when a later token does not overwrite them. The lemmas say how far \<open>GetNextToken\<close> moves,
  that it only depends on the text from \<open>cur\<close> on, and how each printed token is read back.
\<close>

section \<open>Tokens and the tokenizer state\<close>

datatype (plugins only: code) Token =
    kIF | kELSE | kFOR | kREALIZE | kVALUE | kPRODUCE | kMAX | kMIN | kSELECT | kRAMP | kLET
   | kIN | kATTR | kASSERT | kALLOCATE | kCNEW | kCDELETE | kFREE | kPREFETCH | kEXTERN
   | kEXTERNCPP | kPUREEXTERN | kHALIDE | kINTRINSIC | kPUREINTRIN | kEND | kENDLINE | kID
   | kTYPE | kNUMBER | kSTRING | kOPSET | kCOMMENT | kERRORTOKEN | kLPAR | kRPAR | kLSQB
   | kRSQB | kCOLON | kCOMMA | kSEMI | kPLUS | kMINUS | kSTAR | kSLASH | kVBAR | kAMPER
   | kLESS | kGREATER | kEQUAL | kDOT | kPERCENT | kLBRACE | kRBRACE | kNOT | kTILDE
   | kCIRCUMFLEX | kAT | kEQEQUAL | kNOTEQUAL | kAND | kOR | kLESSEQUAL | kGREATEREQUAL
   | kLEFTSHIFT | kRIGHTSHIFT | kDOUBLESTAR | kPLUSEQUAL | kMINEQUAL | kSTAREQUAL
   | kSLASHEQUAL | kPERCENTEQUAL | kAMPEREQUAL | kVBAREQUAL | kCIRCUMFLEXEQUAL | kATEQUAL
   | kRARROW | kDOUBLESLASH | kLEFTSHIFTEQUAL | kRIGHTSHIFTEQUAL | kDOUBLESTAREQUAL
   | kDOUBLESLASHEQUAL | kELLIPSIS

datatype ImmType = kINT | kUINT | kFLOAT | kHEX | kHANDLE

text \<open>
  The attributes of a token (\<open>TokInfo\<close> of \<open>grammar.cc\<close>) are the first fields of
  \<open>TokState\<close>, so the state is a record extension of them.
\<close>

record TokInfo =
  tok :: Token
  itype :: ImmType
  bits :: "32 word"
  fval :: f64
  uval :: "64 word"
  sval :: string

record TokState = TokInfo +
  cur :: nat
  code :: string

definition g_str2key :: "(string \<times> Token) list" where
  "g_str2key =
    [(''if'', kIF), (''else'', kELSE), (''for'', kFOR), (''realize'', kREALIZE),
     (''value'', kVALUE), (''produce'', kPRODUCE), (''max'', kMAX), (''min'', kMIN),
     (''select'', kSELECT), (''ramp'', kRAMP), (''let'', kLET), (''in'', kIN),
     (''attr'', kATTR), (''assert'', kASSERT), (''allocate'', kALLOCATE),
     (''custom_new'', kCNEW), (''custom_delete'', kCDELETE), (''free'', kFREE),
     (''prefetch'', kPREFETCH), (''EX'', kEXTERN), (''ECPP'', kEXTERNCPP),
     (''PE'', kPUREEXTERN), (''H'', kHALIDE), (''I'', kINTRINSIC), (''PI'', kPUREINTRIN)]"

text \<open>The enumerator names, printed by \<open>operator<<(Token)\<close>.\<close>

definition token_names :: "(Token \<times> string) list" where
  "token_names =
    [(kIF, ''IF''), (kELSE, ''ELSE''), (kFOR, ''FOR''), (kREALIZE, ''REALIZE''),
     (kVALUE, ''VALUE''), (kPRODUCE, ''PRODUCE''), (kMAX, ''MAX''), (kMIN, ''MIN''),
     (kSELECT, ''SELECT''), (kRAMP, ''RAMP''), (kLET, ''LET''), (kIN, ''IN''),
     (kATTR, ''ATTR''), (kASSERT, ''ASSERT''), (kALLOCATE, ''ALLOCATE''), (kCNEW, ''CNEW''),
     (kCDELETE, ''CDELETE''), (kFREE, ''FREE''), (kPREFETCH, ''PREFETCH''),
     (kEXTERN, ''EXTERN''), (kEXTERNCPP, ''EXTERNCPP''), (kPUREEXTERN, ''PUREEXTERN''),
     (kHALIDE, ''HALIDE''), (kINTRINSIC, ''INTRINSIC''), (kPUREINTRIN, ''PUREINTRIN''),
     (kEND, ''END''), (kENDLINE, ''ENDLINE''), (kID, ''ID''), (kTYPE, ''TYPE''),
     (kNUMBER, ''NUMBER''), (kSTRING, ''STRING''), (kOPSET, ''OPSET''),
     (kCOMMENT, ''COMMENT''), (kERRORTOKEN, ''ERRORTOKEN''), (kLPAR, ''LPAR''),
     (kRPAR, ''RPAR''), (kLSQB, ''LSQB''), (kRSQB, ''RSQB''), (kCOLON, ''COLON''),
     (kCOMMA, ''COMMA''), (kSEMI, ''SEMI''), (kPLUS, ''PLUS''), (kMINUS, ''MINUS''),
     (kSTAR, ''STAR''), (kSLASH, ''SLASH''), (kVBAR, ''VBAR''), (kAMPER, ''AMPER''),
     (kLESS, ''LESS''), (kGREATER, ''GREATER''), (kEQUAL, ''EQUAL''), (kDOT, ''DOT''),
     (kPERCENT, ''PERCENT''), (kLBRACE, ''LBRACE''), (kRBRACE, ''RBRACE''), (kNOT, ''NOT''),
     (kTILDE, ''TILDE''), (kCIRCUMFLEX, ''CIRCUMFLEX''), (kAT, ''AT''),
     (kEQEQUAL, ''EQEQUAL''), (kNOTEQUAL, ''NOTEQUAL''), (kAND, ''AND''), (kOR, ''OR''),
     (kLESSEQUAL, ''LESSEQUAL''), (kGREATEREQUAL, ''GREATEREQUAL''),
     (kLEFTSHIFT, ''LEFTSHIFT''), (kRIGHTSHIFT, ''RIGHTSHIFT''),
     (kDOUBLESTAR, ''DOUBLESTAR''), (kPLUSEQUAL, ''PLUSEQUAL''), (kMINEQUAL, ''MINEQUAL''),
     (kSTAREQUAL, ''STAREQUAL''), (kSLASHEQUAL, ''SLASHEQUAL''),
     (kPERCENTEQUAL, ''PERCENTEQUAL''), (kAMPEREQUAL, ''AMPEREQUAL''),
     (kVBAREQUAL, ''VBAREQUAL''), (kCIRCUMFLEXEQUAL, ''CIRCUMFLEXEQUAL''),
     (kATEQUAL, ''ATEQUAL''), (kRARROW, ''RARROW''), (kDOUBLESLASH, ''DOUBLESLASH''),
     (kLEFTSHIFTEQUAL, ''LEFTSHIFTEQUAL''), (kRIGHTSHIFTEQUAL, ''RIGHTSHIFTEQUAL''),
     (kDOUBLESTAREQUAL, ''DOUBLESTAREQUAL''), (kDOUBLESLASHEQUAL, ''DOUBLESLASHEQUAL''),
     (kELLIPSIS, ''ELLIPSIS'')]"

definition ToString_Token :: "Token \<Rightarrow> string res" where
  "ToString_Token t = (case map_of token_names t of Some s \<Rightarrow> Ok s | None \<Rightarrow> Err Fatal)"

text \<open>\<open>operator<<(ImmType)\<close>: a \<open>kHANDLE\<close> fails the default branch's check.\<close>

fun ToString_ImmType :: "ImmType \<Rightarrow> string res" where
  "ToString_ImmType kUINT = Ok ''UINT''"
| "ToString_ImmType kINT = Ok ''INT''"
| "ToString_ImmType kFLOAT = Ok ''FLOAT''"
| "ToString_ImmType kHEX = Ok ''HEX''"
| "ToString_ImmType kHANDLE = Err Fatal"

section \<open>Initial states\<close>

text \<open>
  \<open>s.code.back()\<close> of an empty text is undefined behaviour. Every other text ends, after
  the initialisation, in a line end followed by a NUL character.
\<close>

definition GetTokStateFromCode :: "string \<Rightarrow> TokState res" where
  "GetTokStateFromCode src =
     (let text = map (\<lambda>c. if c = CARRIAGE_RETURN then NEWLINE else c) src
      in if text = [] then Err Empty_container
         else Ok \<lparr>tok = kENDLINE, itype = kINT, bits = 0, fval = f64_zero, uval = 0, sval = [],
           cur = 0,
           code = (if last text \<noteq> NEWLINE then text @ [NEWLINE] else text) @ [NUL]\<rparr>)"

section \<open>Character classes and fixed tokens\<close>

definition IsIdStart :: "char \<Rightarrow> bool" where
  "IsIdStart c \<longleftrightarrow>
     97 \<le> (of_char c :: nat) \<and> (of_char c :: nat) \<le> 122 \<or>
     65 \<le> (of_char c :: nat) \<and> (of_char c :: nat) \<le> 90 \<or> c = CHR ''_''"

definition IsXDigit :: "char \<Rightarrow> bool" where
  "IsXDigit c \<longleftrightarrow> isdigit c \<or> 97 \<le> (of_char c :: nat) \<and> (of_char c :: nat) \<le> 102"

definition IsIdBody :: "char \<Rightarrow> bool" where
  "IsIdBody c \<longleftrightarrow> IsIdStart c \<or> isdigit c \<or> c = CHR ''.''"

definition IsBlank :: "char \<Rightarrow> bool" where
  "IsBlank c \<longleftrightarrow> c = CHR '' '' \<or> c = CHR 0x09 \<or> c = CHR 0x0C"

definition double_char_map :: "(string \<times> Token) list" where
  "double_char_map =
    [(''=='', kEQEQUAL), (''!='', kNOTEQUAL), (''&&'', kAND), (''||'', kOR),
     (''<='', kLESSEQUAL), (''>='', kGREATEREQUAL), (''//'', kDOUBLESLASH)]"

definition ParseDoubleChar :: "char \<Rightarrow> char \<Rightarrow> Token" where
  "ParseDoubleChar c0 c1 =
     (case map_of double_char_map [c0, c1] of Some t \<Rightarrow> t | None \<Rightarrow> kOPSET)"

definition single_char_map :: "(char \<times> Token) list" where
  "single_char_map =
    [(CHR ''('', kLPAR), (CHR '')'', kRPAR), (CHR ''['', kLSQB), (CHR '']'', kRSQB),
     (CHR '':'', kCOLON), (CHR '','', kCOMMA), (CHR '';'', kSEMI), (CHR ''+'', kPLUS),
     (CHR ''-'', kMINUS), (CHR ''*'', kSTAR), (CHR ''/'', kSLASH), (CHR ''|'', kVBAR),
     (CHR ''&'', kAMPER), (CHR ''<'', kLESS), (CHR ''>'', kGREATER), (CHR ''='', kEQUAL),
     (CHR ''.'', kDOT), (CHR ''%'', kPERCENT), (CHR ''{'', kLBRACE), (CHR ''}'', kRBRACE),
     (CHR ''^'', kCIRCUMFLEX), (CHR ''~'', kTILDE), (CHR ''@'', kAT)]"

definition ParseSingleChar :: "char \<Rightarrow> Token" where
  "ParseSingleChar c = (case map_of single_char_map c of Some t \<Rightarrow> t | None \<Rightarrow> kOPSET)"

section \<open>Type names\<close>

definition IsNumberTail :: "string \<Rightarrow> nat \<Rightarrow> bool" where
  "IsNumberTail str pos = list_all isdigit (drop pos str)"

text \<open>
  The width is stored in \<open>stat.bits\<close> before its range is checked, and a type name without
  digits fails \<open>CHECK(end != tmp.data())\<close>. The cast to \<open>unsigned\<close> keeps the low 32 bits of
  the saturated \<open>strtoul\<close> value.
\<close>

definition CheckSingleType ::
    "TokState \<Rightarrow> string \<Rightarrow> string \<Rightarrow> ImmType \<Rightarrow> (TokState \<times> bool) res" where
  "CheckSingleType stat str ty kt =
     (if prefix ty str \<and> IsNumberTail str (length ty) \<and>
         (length str < length ty + 2 \<or> str ! length ty \<noteq> CHR ''0'')
      then let tmp = drop (length ty) str;
               stat' = stat\<lparr>bits := ucast (strtoul 10 tmp)\<rparr>
           in if tmp = [] then Err Fatal
              else if 64 < bits stat' \<or> bits stat' = 0 then Ok (stat', False)
              else Ok (stat'\<lparr>itype := kt\<rparr>, True)
      else Ok (stat, False))"

definition CheckHandle :: "TokState \<Rightarrow> string \<Rightarrow> TokState \<times> bool" where
  "CheckHandle stat str =
     (if str = ''handle'' then (stat\<lparr>itype := kHANDLE\<rparr>, True) else (stat, False))"

text \<open>The short-circuit \<open>||\<close> of two checks that both may change the state.\<close>

definition or_else ::
    "(TokState \<times> bool) res \<Rightarrow> (TokState \<Rightarrow> (TokState \<times> bool) res) \<Rightarrow> (TokState \<times> bool) res" where
  "or_else r k = res_bind r (\<lambda>(s, b). if b then Ok (s, True) else k s)"

definition CheckIsType :: "TokState \<Rightarrow> string \<Rightarrow> (TokState \<times> bool) res" where
  "CheckIsType stat str =
     or_else (or_else (or_else
       (CheckSingleType stat str ''int'' kINT)
       (\<lambda>s. CheckSingleType s str ''uint'' kUINT))
       (\<lambda>s. CheckSingleType s str ''float'' kFLOAT))
       (\<lambda>s. Ok (CheckHandle s str))"

section \<open>The next token\<close>

text \<open>
  \<open>std::string::operator[]\<close> may be applied to the position \<open>size()\<close>, where it reads a
  NUL. No loop below but the two that look for a closing delimiter reads further: the others
  stop at a NUL at the latest.
\<close>

definition code_at :: "TokState \<Rightarrow> nat \<Rightarrow> char" where
  "code_at s i = (if i < length (code s) then code s ! i else NUL)"

definition rest :: "TokState \<Rightarrow> string" where
  "rest s = drop (cur s) (code s)"

definition skip_blank :: "TokState \<Rightarrow> TokState" where
  "skip_blank s = s\<lparr>cur := cur s + length (takeWhile IsBlank (rest s))\<rparr>"

definition lex_word :: "TokState \<Rightarrow> TokState res" where
  "lex_word s =
     (let str = code_at s (cur s) # takeWhile IsIdBody (drop (cur s + 1) (code s));
          s' = s\<lparr>cur := cur s + length str\<rparr>
      in case map_of g_str2key str of
           Some t \<Rightarrow> Ok (s'\<lparr>tok := t\<rparr>)
         | None \<Rightarrow>
             res_bind (CheckIsType s' str) (\<lambda>(s'', is_type).
             if is_type then Ok (s''\<lparr>tok := kTYPE\<rparr>)
             else Ok (s''\<lparr>sval := str, tok := kID\<rparr>)))"

definition lex_hex :: "TokState \<Rightarrow> TokState" where
  "lex_hex s =
     (let ds = takeWhile IsXDigit (drop (cur s + 2) (code s))
      in s\<lparr>cur := cur s + 2 + length ds, uval := strtoul 16 ds, itype := kHEX, tok := kNUMBER\<rparr>)"

text \<open>
  \<open>s\<close> is the state after the integral digits \<open>ip\<close>; the character there is \<open>'.'\<close>,
  \<open>'h'\<close> or \<open>'f'\<close>.
\<close>

definition lex_float :: "TokState \<Rightarrow> string \<Rightarrow> TokState" where
  "lex_float s ip =
     (let fp = (if code_at s (cur s) = CHR ''.''
                then CHR ''.'' # takeWhile isdigit (drop (cur s + 1) (code s)) else []);
          s1 = s\<lparr>cur := cur s + length fp\<rparr>;
          c = code_at s1 (cur s1);
          s2 = (if c = CHR ''h'' then s1\<lparr>bits := 16, cur := cur s1 + 1\<rparr>
                else if c = CHR ''f'' then s1\<lparr>bits := 32, cur := cur s1 + 1\<rparr>
                else s1\<lparr>bits := 64\<rparr>)
      in s2\<lparr>fval := strtod (ip @ fp), itype := kFLOAT, tok := kNUMBER\<rparr>)"

definition lex_number :: "TokState \<Rightarrow> TokState" where
  "lex_number s =
     (if code_at s (cur s) = CHR ''0'' \<and> code_at s (cur s + 1) = CHR ''x'' then lex_hex s
      else
        let ip = takeWhile isdigit (rest s);
            s' = s\<lparr>cur := cur s + length ip\<rparr>;
            c = code_at s' (cur s')
        in if c = CHR ''.'' \<or> c = CHR ''h'' \<or> c = CHR ''f'' then lex_float s' ip
           else s'\<lparr>uval := strtoul 10 ip, itype := kUINT, tok := kNUMBER\<rparr>)"

definition lex_string :: "TokState \<Rightarrow> TokState res" where
  "lex_string s =
     (let body = drop (cur s + 1) (code s); str = takeWhile (\<lambda>c. c \<noteq> CHR 0x22) body
      in if CHR 0x22 \<in> set body
         then Ok (s\<lparr>sval := str, cur := cur s + 2 + length str, tok := kSTRING\<rparr>)
         else Err Out_of_bounds)"

definition lex_op :: "TokState \<Rightarrow> TokState" where
  "lex_op s =
     (let c = code_at s (cur s); t = ParseDoubleChar c (code_at s (cur s + 1))
      in if t \<noteq> kOPSET then s\<lparr>cur := cur s + 2, tok := t\<rparr>
         else s\<lparr>cur := cur s + 1, tok := ParseSingleChar c\<rparr>)"

definition GetNextToken :: "TokState \<Rightarrow> TokState res" where
  "GetNextToken stat =
     (if length (code stat) \<le> cur stat then Err Fatal
      else
        let s = skip_blank stat; c = code_at s (cur s)
        in if c = NUL then Ok (s\<lparr>cur := cur s + 1, tok := kEND\<rparr>)
           else if c = NEWLINE then Ok (s\<lparr>cur := cur s + 1, tok := kENDLINE\<rparr>)
           else if IsIdStart c then lex_word s
           else if c = CHR ''.'' then Ok (s\<lparr>cur := cur s + 1, tok := kDOT\<rparr>)
           else if isdigit c then Ok (lex_number s)
           else if c = CHR 0x22 then lex_string s
           else Ok (lex_op s))"

section \<open>Moving forward\<close>

lemma code_at_cur: "rest s \<noteq> [] \<Longrightarrow> code_at s (cur s) = hd (rest s)"
  by (simp add: code_at_def rest_def hd_drop_conv_nth)

lemma code_at_next: "code_at s (cur s + 1) = (if length (rest s) \<le> 1 then NUL else rest s ! 1)"
  by (auto simp: code_at_def rest_def not_le)

lemma rest_advance [simp]: "rest (s\<lparr>cur := cur s + n\<rparr>) = drop n (rest s)"
  by (simp add: rest_def add.commute)

lemma skip_blank_simps [simp]:
  "code (skip_blank s) = code s"
  "rest (skip_blank s) = dropWhile IsBlank (rest s)"
  by (simp_all add: skip_blank_def drop_length_takeWhile)

lemma skip_blank_cur: "cur s \<le> cur (skip_blank s)"
  by (simp add: skip_blank_def)

lemma CheckSingleType_frame:
  "CheckSingleType s str ty kt = Ok (s', b) \<Longrightarrow> cur s' = cur s \<and> code s' = code s"
  by (auto simp: CheckSingleType_def Let_def split: if_splits)

lemma CheckHandle_frame:
  "CheckHandle s str = (s', b) \<Longrightarrow> cur s' = cur s \<and> code s' = code s"
  by (auto simp: CheckHandle_def split: if_splits)

lemma or_else_Ok_conv:
  "or_else r k = Ok (s', b) \<longleftrightarrow>
     r = Ok (s', True) \<and> b \<or> (\<exists>s1. r = Ok (s1, False) \<and> k s1 = Ok (s', b))"
  by (cases r) (auto simp: or_else_def split: if_splits)

lemma or_else_Err_conv:
  "or_else r k = Err e \<longleftrightarrow> r = Err e \<or> (\<exists>s1. r = Ok (s1, False) \<and> k s1 = Err e)"
  by (cases r) (auto simp: or_else_def split: if_splits)

lemma CheckIsType_frame:
  assumes "CheckIsType s str = Ok (s', b)"
  shows "cur s' = cur s \<and> code s' = code s"
  using assms unfolding CheckIsType_def or_else_Ok_conv
  by (elim disjE exE conjE)
    (simp_all add: CheckSingleType_frame [THEN conjunct1] CheckSingleType_frame [THEN conjunct2]
      CheckHandle_frame [THEN conjunct1] CheckHandle_frame [THEN conjunct2])

lemma CheckSingleType_failure: "CheckSingleType s str ty kt = Err e \<Longrightarrow> e = Fatal"
  by (auto simp: CheckSingleType_def Let_def split: if_splits)

lemma CheckIsType_failure: "CheckIsType s str = Err e \<Longrightarrow> e = Fatal"
  by (auto simp: CheckIsType_def or_else_Err_conv dest: CheckSingleType_failure)

lemma lex_word_forward:
  "lex_word s = Ok s' \<Longrightarrow> cur s < cur s' \<and> code s' = code s"
  by (auto simp: lex_word_def Let_def res_bind_Ok_conv split: option.splits if_splits
      dest!: CheckIsType_frame)

lemma lex_number_forward:
  assumes "isdigit (code_at s (cur s))" and "rest s \<noteq> []"
  shows "cur s < cur (lex_number s) \<and> code (lex_number s) = code s"
proof -
  have "takeWhile isdigit (rest s) \<noteq> []"
    using assms by (cases "rest s") (auto simp: code_at_cur)
  then show ?thesis
    by (auto simp: lex_number_def lex_hex_def lex_float_def Let_def)
qed

lemma lex_string_forward: "lex_string s = Ok s' \<Longrightarrow> cur s < cur s' \<and> code s' = code s"
  by (auto simp: lex_string_def Let_def split: if_splits)

lemma lex_op_forward: "cur s < cur (lex_op s) \<and> code (lex_op s) = code s"
  by (simp add: lex_op_def Let_def)

lemma code_at_not_NUL: "code_at s i \<noteq> NUL \<Longrightarrow> i < length (code s)"
  by (auto simp: code_at_def split: if_splits)

lemma GetNextToken_forward:
  assumes "GetNextToken s = Ok s'"
  shows "cur s < cur s' \<and> code s' = code s"
proof -
  let ?s = "skip_blank s"
  have "\<not> (code_at ?s (cur ?s) \<noteq> NUL \<and> rest ?s = [])"
    by (auto simp: rest_def dest: code_at_not_NUL simp del: skip_blank_simps(2))
  then have "isdigit (code_at ?s (cur ?s)) \<Longrightarrow> code_at ?s (cur ?s) \<noteq> NUL \<Longrightarrow>
      cur ?s < cur (lex_number ?s) \<and> code (lex_number ?s) = code ?s"
    using lex_number_forward by blast
  then show ?thesis
    using assms skip_blank_cur [of s] lex_op_forward [of ?s]
    by (auto simp: GetNextToken_def Let_def split: if_splits
        dest!: lex_word_forward lex_string_forward)
qed

lemma GetNextToken_failure:
  "GetNextToken s = Err e \<Longrightarrow> e = Fatal \<or> e = Out_of_bounds"
  by (auto simp: GetNextToken_def lex_word_def lex_string_def Let_def res_bind_Err_conv
      split: if_splits option.splits dest: CheckIsType_failure)

lemma GetNextToken_advances:
  "GetNextToken s = Ok s' \<Longrightarrow> cur s < length (code s) \<and> cur s < cur s' \<and> code s' = code s"
  using GetNextToken_forward [of s s'] by (auto simp: GetNextToken_def split: if_splits)

section \<open>Staying inside the text\<close>

definition terminated :: "string \<Rightarrow> bool" where
  "terminated cs \<longleftrightarrow> cs \<noteq> [] \<and> last cs = NUL"

lemma GetTokStateFromCode_terminated:
  "GetTokStateFromCode src = Ok s \<Longrightarrow> terminated (code s) \<and> cur s = 0"
  by (auto simp: GetTokStateFromCode_def terminated_def Let_def split: if_splits)

lemma NUL_not_blank [simp]: "\<not> IsBlank NUL"
  by (simp add: IsBlank_def NUL_def)

lemma length_takeWhile_drop: "n \<le> length xs \<Longrightarrow> n + length (takeWhile P (drop n xs)) \<le> length xs"
  using length_takeWhile_le [of P "drop n xs"] by simp

lemma length_takeWhile_last:
  assumes "xs \<noteq> []" and "\<not> P (last xs)"
  shows "length (takeWhile P xs) < length xs"
proof (rule ccontr)
  assume "\<not> length (takeWhile P xs) < length xs"
  then have "takeWhile P xs = xs"
    by (metis length_takeWhile_le nat_less_le takeWhile_eq_take take_all)
  with assms show False
    by (metis last_in_set set_takeWhileD)
qed

lemma skip_blank_inside:
  assumes "terminated (code s)" and "cur s < length (code s)"
  shows "cur (skip_blank s) < length (code s)"
proof -
  have "rest s \<noteq> []" and "\<not> IsBlank (last (rest s))"
    using assms by (auto simp: rest_def terminated_def)
  from length_takeWhile_last [of "rest s" IsBlank, OF this] show ?thesis
    by (simp add: skip_blank_def rest_def less_diff_conv2)
qed

lemma lex_word_inside:
  "lex_word s = Ok s' \<Longrightarrow> cur s < length (code s) \<Longrightarrow> cur s' \<le> length (code s)"
  using length_takeWhile_drop [of "Suc (cur s)" "code s" IsIdBody]
  by (auto simp: lex_word_def Let_def res_bind_Ok_conv split: option.splits if_splits
      dest!: CheckIsType_frame)

lemma lex_float_inside:
  assumes "code_at s (cur s) \<noteq> NUL"
  shows "cur (lex_float s ip) \<le> length (code s)"
proof -
  have "cur s < length (code s)" using assms by (rule code_at_not_NUL)
  then show ?thesis
    using length_takeWhile_drop [of "Suc (cur s)" "code s" isdigit]
    by (auto simp: lex_float_def Let_def code_at_def NUL_def split: if_splits)
qed

lemma lex_number_inside:
  assumes "cur s < length (code s)"
  shows "cur (lex_number s) \<le> length (code s)"
proof (cases "code_at s (cur s) = CHR ''0'' \<and> code_at s (cur s + 1) = CHR ''x''")
  case True
  then have "cur s + 1 < length (code s)"
    by (intro code_at_not_NUL) (simp add: NUL_def)
  then show ?thesis
    using True length_takeWhile_drop [of "cur s + 2" "code s" IsXDigit]
    by (simp add: lex_number_def lex_hex_def Let_def)
next
  case False
  let ?ip = "takeWhile isdigit (rest s)"
  let ?s = "s\<lparr>cur := cur s + length ?ip\<rparr>"
  have "cur ?s \<le> length (code s)"
    using length_takeWhile_drop [of "cur s" "code s" isdigit] assms
    by (simp add: rest_def)
  moreover have "code_at ?s (cur ?s) \<in> {CHR ''.'', CHR ''h'', CHR ''f''} \<Longrightarrow>
      cur (lex_float ?s ?ip) \<le> length (code s)"
    using lex_float_inside [of ?s ?ip] by (auto simp: NUL_def)
  ultimately show ?thesis
    using False by (auto simp: lex_number_def Let_def)
qed

lemma length_takeWhile_mem: "x \<in> set xs \<Longrightarrow> \<not> P x \<Longrightarrow> length (takeWhile P xs) < length xs"
  by (induction xs) auto

lemma lex_string_inside:
  assumes "lex_string s = Ok s'"
  shows "cur s' \<le> length (code s)"
proof -
  let ?body = "drop (cur s + 1) (code s)"
  have "CHR 0x22 \<in> set ?body" and s': "cur s' = cur s + 2 + length (takeWhile (\<lambda>c. c \<noteq> CHR 0x22) ?body)"
    using assms by (auto simp: lex_string_def Let_def split: if_splits)
  from length_takeWhile_mem [OF this(1), of "\<lambda>c. c \<noteq> CHR 0x22"] s' show ?thesis by simp
qed

lemma lex_op_inside:
  assumes "cur s < length (code s)"
  shows "cur (lex_op s) \<le> length (code s)"
proof (cases "code_at s (cur s + 1) = NUL")
  case True
  then have "ParseDoubleChar (code_at s (cur s)) (code_at s (cur s + 1)) = kOPSET"
    by (simp add: ParseDoubleChar_def double_char_map_def NUL_def)
  then show ?thesis using assms by (simp add: lex_op_def Let_def)
next
  case False
  then have "cur s + 1 < length (code s)" by (rule code_at_not_NUL)
  then show ?thesis by (simp add: lex_op_def Let_def)
qed

lemma GetNextToken_inside:
  assumes "terminated (code s)" and "GetNextToken s = Ok s'"
  shows "cur s' \<le> length (code s)"
proof -
  let ?s = "skip_blank s"
  have "cur s < length (code s)"
    using assms(2) by (auto simp: GetNextToken_def split: if_splits)
  with assms(1) have in_s: "cur ?s < length (code s)" by (rule skip_blank_inside)
  then show ?thesis
    using assms(2) lex_word_inside [of ?s] lex_number_inside [of ?s] lex_string_inside [of ?s]
      lex_op_inside [of ?s]
    by (auto simp: GetNextToken_def Let_def split: if_splits)
qed

section \<open>Reading back\<close>

text \<open>
  \<open>reads r Q r'\<close>: from the text \<open>r\<close> the tokenizer returns a token with the property \<open>Q\<close>
  and stops at the text \<open>r'\<close>, whatever the other fields of its state are.
\<close>

definition reads :: "string \<Rightarrow> (TokInfo \<Rightarrow> bool) \<Rightarrow> string \<Rightarrow> bool" where
  "reads r Q r' \<longleftrightarrow>
     (\<forall>s. rest s = r \<longrightarrow>
       (\<exists>s'. GetNextToken s = Ok s' \<and> rest s' = r' \<and> code s' = code s \<and> Q (TokInfo.truncate s')))"

lemma readsI:
  assumes "r \<noteq> []"
    and "\<And>s. rest s = r \<Longrightarrow> cur s < length (code s) \<Longrightarrow> code_at s (cur s) = hd r \<Longrightarrow>
      \<exists>s'. GetNextToken s = Ok s' \<and> rest s' = r' \<and> code s' = code s \<and> Q (TokInfo.truncate s')"
  shows "reads r Q r'"
  using assms by (fastforce simp: reads_def rest_def code_at_def hd_drop_conv_nth)

lemma reads_mono: "reads r Q r' \<Longrightarrow> (\<And>i. Q i \<Longrightarrow> Q' i) \<Longrightarrow> reads r Q' r'"
  unfolding reads_def by blast

lemma reads_nonempty: "reads r Q r' \<Longrightarrow> r \<noteq> []"
proof
  assume "reads r Q r'" and "r = []"
  then have "\<exists>s'. GetNextToken (undefined\<lparr>cur := 0, code := []\<rparr>) = Ok s'"
    by (force simp: reads_def rest_def)
  then show False by (simp add: GetNextToken_def)
qed

lemma reads_blank [lex_intros]:
  assumes "IsBlank c" and "reads r Q r'"
  shows "reads (c # r) Q r'"
proof (rule readsI)
  fix s
  assume s: "rest s = c # r" "cur s < length (code s)"
  let ?s = "s\<lparr>cur := cur s + 1\<rparr>"
  have r: "rest ?s = r" using s(1) rest_advance [of s 1] by (metis drop0 drop_Suc_Cons One_nat_def)
  then have "cur ?s < length (code s)"
    using reads_nonempty [OF assms(2)] by (auto simp: rest_def)
  moreover have "skip_blank s = skip_blank ?s"
    using s assms(1) r by (simp add: skip_blank_def del: rest_advance)
  ultimately have "GetNextToken s = GetNextToken ?s"
    using s(2) by (simp add: GetNextToken_def)
  moreover have "\<exists>s'. GetNextToken ?s = Ok s' \<and> rest s' = r' \<and> code s' = code ?s
      \<and> Q (TokInfo.truncate s')"
    using assms(2) r by (simp only: reads_def)
  ultimately show "\<exists>s'. GetNextToken s = Ok s' \<and> rest s' = r' \<and> code s' = code s
      \<and> Q (TokInfo.truncate s')" by simp
qed simp

lemma truncate_simps [simp]:
  "tok (TokInfo.truncate s) = tok s"
  "itype (TokInfo.truncate s) = itype s"
  "bits (TokInfo.truncate s) = bits s"
  "uval (TokInfo.truncate s) = uval s"
  "fval (TokInfo.truncate s) = fval s"
  "sval (TokInfo.truncate s) = sval s"
  by (simp_all add: TokInfo.truncate_def)

lemma rest_fields [simp]:
  "rest (s\<lparr>tok := t\<rparr>) = rest s"
  "rest (s\<lparr>itype := it\<rparr>) = rest s"
  "rest (s\<lparr>bits := b\<rparr>) = rest s"
  "rest (s\<lparr>uval := u\<rparr>) = rest s"
  "rest (s\<lparr>sval := v\<rparr>) = rest s"
  by (simp_all add: rest_def)

lemma rest_cur: "rest (s\<lparr>cur := n\<rparr>) = drop n (code s)"
  by (simp add: rest_def)

lemma drop_cur_add: "drop (cur s + n) (code s) = drop n (rest s)"
  by (simp add: rest_def add.commute)

lemma drop_Suc_cur: "rest s = c # r \<Longrightarrow> drop (Suc (cur s)) (code s) = r"
  using drop_cur_add [of s 1] by simp

lemma reads_newline [lex_intros]: "reads (NEWLINE # r) (\<lambda>i. tok i = kENDLINE) r"
  by (rule readsI)
    (auto simp: GetNextToken_def skip_blank_def IsBlank_def NEWLINE_def NUL_def rest_cur drop_Suc_cur)

lemma reads_end [lex_intros]: "reads (NUL # r) (\<lambda>i. tok i = kEND) r"
  by (rule readsI) (auto simp: GetNextToken_def skip_blank_def rest_cur drop_Suc_cur)

definition op_start :: "char \<Rightarrow> bool" where
  "op_start c \<longleftrightarrow> \<not> IsBlank c \<and> c \<noteq> NUL \<and> c \<noteq> NEWLINE \<and> \<not> IsIdStart c \<and> c \<noteq> CHR ''.''
     \<and> \<not> isdigit c \<and> c \<noteq> CHR 0x22"

lemma reads_op1:
  assumes "op_start c" and "ParseDoubleChar c (if r = [] then NUL else hd r) = kOPSET"
    and "ParseSingleChar c = t"
  shows "reads (c # r) (\<lambda>i. tok i = t) r"
proof (rule readsI)
  fix s
  assume s: "rest s = c # r" "cur s < length (code s)" "code_at s (cur s) = hd (c # r)"
  have "code_at s (cur s + 1) = (if r = [] then NUL else hd r)"
    unfolding code_at_next s(1) by (cases r) auto
  then show "\<exists>s'. GetNextToken s = Ok s' \<and> rest s' = r \<and> code s' = code s
      \<and> tok (TokInfo.truncate s') = t"
    using s assms
    by (simp add: GetNextToken_def skip_blank_def op_start_def lex_op_def Let_def rest_cur
        drop_Suc_cur)
qed simp

lemma reads_op2:
  assumes "op_start c" and "ParseDoubleChar c d = t" and "t \<noteq> kOPSET"
  shows "reads (c # d # r) (\<lambda>i. tok i = t) r"
proof (rule readsI)
  fix s
  assume s: "rest s = c # d # r" "cur s < length (code s)" "code_at s (cur s) = hd (c # d # r)"
  have "code_at s (cur s + 1) = d"
    unfolding code_at_next s(1) by auto
  then show "\<exists>s'. GetNextToken s = Ok s' \<and> rest s' = r \<and> code s' = code s
      \<and> tok (TokInfo.truncate s') = t"
    using s assms drop_cur_add [of s 2]
    by (simp add: GetNextToken_def skip_blank_def op_start_def lex_op_def Let_def rest_cur
        numeral_2_eq_2)
qed simp

lemma reads_punct [lex_intros]:
  "reads (CHR ''('' # r) (\<lambda>i. tok i = kLPAR) r"
  "reads (CHR '')'' # r) (\<lambda>i. tok i = kRPAR) r"
  "reads (CHR ''['' # r) (\<lambda>i. tok i = kLSQB) r"
  "reads (CHR '']'' # r) (\<lambda>i. tok i = kRSQB) r"
  "reads (CHR '','' # r) (\<lambda>i. tok i = kCOMMA) r"
  "reads (CHR ''+'' # r) (\<lambda>i. tok i = kPLUS) r"
  "reads (CHR ''-'' # r) (\<lambda>i. tok i = kMINUS) r"
  "reads (CHR ''*'' # r) (\<lambda>i. tok i = kSTAR) r"
  "reads (CHR ''%'' # r) (\<lambda>i. tok i = kPERCENT) r"
  "reads (CHR ''{'' # r) (\<lambda>i. tok i = kLBRACE) r"
  "reads (CHR ''}'' # r) (\<lambda>i. tok i = kRBRACE) r"
  by (rule reads_op1; simp add: op_start_def IsBlank_def IsIdStart_def isdigit_def NUL_def
      NEWLINE_def ParseDoubleChar_def double_char_map_def ParseSingleChar_def single_char_map_def)+

lemma reads_punct_cond [lex_intros]:
  "r \<noteq> [] \<Longrightarrow> hd r \<noteq> CHR ''/'' \<Longrightarrow> reads (CHR ''/'' # r) (\<lambda>i. tok i = kSLASH) r"
  "r \<noteq> [] \<Longrightarrow> hd r \<noteq> CHR ''='' \<Longrightarrow> reads (CHR ''<'' # r) (\<lambda>i. tok i = kLESS) r"
  "r \<noteq> [] \<Longrightarrow> hd r \<noteq> CHR ''='' \<Longrightarrow> reads (CHR ''>'' # r) (\<lambda>i. tok i = kGREATER) r"
  "r \<noteq> [] \<Longrightarrow> hd r \<noteq> CHR ''='' \<Longrightarrow> reads (CHR ''='' # r) (\<lambda>i. tok i = kEQUAL) r"
  by (rule reads_op1; simp add: op_start_def IsBlank_def IsIdStart_def isdigit_def NUL_def
      NEWLINE_def ParseDoubleChar_def double_char_map_def ParseSingleChar_def single_char_map_def)+

lemma reads_double [lex_intros]:
  "reads (CHR ''='' # CHR ''='' # r) (\<lambda>i. tok i = kEQEQUAL) r"
  "reads (CHR ''!'' # CHR ''='' # r) (\<lambda>i. tok i = kNOTEQUAL) r"
  "reads (CHR ''&'' # CHR ''&'' # r) (\<lambda>i. tok i = kAND) r"
  "reads (CHR ''|'' # CHR ''|'' # r) (\<lambda>i. tok i = kOR) r"
  "reads (CHR ''<'' # CHR ''='' # r) (\<lambda>i. tok i = kLESSEQUAL) r"
  "reads (CHR ''>'' # CHR ''='' # r) (\<lambda>i. tok i = kGREATEREQUAL) r"
  "reads (CHR ''/'' # CHR ''/'' # r) (\<lambda>i. tok i = kDOUBLESLASH) r"
  by (rule reads_op2; simp add: op_start_def IsBlank_def IsIdStart_def isdigit_def NUL_def
      NEWLINE_def ParseDoubleChar_def double_char_map_def)+

lemma reads_string [lex_intros]:
  assumes "CHR 0x22 \<notin> set v"
  shows "reads (CHR 0x22 # v @ CHR 0x22 # r) (\<lambda>i. tok i = kSTRING \<and> sval i = v) r"
proof (rule readsI)
  fix s
  assume s: "rest s = CHR 0x22 # v @ CHR 0x22 # r" "cur s < length (code s)"
    "code_at s (cur s) = hd (CHR 0x22 # v @ CHR 0x22 # r)"
  have body: "drop (Suc (cur s)) (code s) = v @ CHR 0x22 # r"
    using s(1) by (rule drop_Suc_cur)
  have tw: "takeWhile (\<lambda>c. c \<noteq> CHR 0x22) (v @ CHR 0x22 # r) = v"
    using assms by (intro takeWhile_stop) auto
  show "\<exists>s'. GetNextToken s = Ok s' \<and> rest s' = r \<and> code s' = code s
      \<and> tok (TokInfo.truncate s') = kSTRING \<and> sval (TokInfo.truncate s') = v"
    using s drop_cur_add [of s "Suc (Suc (length v))"]
    by (simp add: GetNextToken_def skip_blank_def lex_string_def body tw IsBlank_def NUL_def
        NEWLINE_def IsIdStart_def isdigit_def rest_cur)
qed simp

lemma isdigit_start: "isdigit c \<Longrightarrow> \<not> IsBlank c \<and> c \<noteq> NUL \<and> c \<noteq> NEWLINE \<and> \<not> IsIdStart c \<and> c \<noteq> CHR ''.''"
  by (auto simp: isdigit_def IsBlank_def NUL_def NEWLINE_def IsIdStart_def)

lemma reads_number [lex_intros]:
  assumes n: "n < 2 ^ 64"
    and r: "r \<noteq> []" "\<not> isdigit (hd r)" "hd r \<notin> {CHR ''.'', CHR ''h'', CHR ''f'', CHR ''x''}"
  shows "reads (show_nat n @ r) (\<lambda>i. tok i = kNUMBER \<and> itype i = kUINT \<and> uval i = word_of_nat n) r"
proof (rule readsI)
  fix s
  let ?ds = "dec_digits n"
  assume s: "rest s = show_nat n @ r" "cur s < length (code s)"
    "code_at s (cur s) = hd (show_nat n @ r)"
  have start: "isdigit (hd ?ds)" by (rule dec_digits_isdigit [of _ n]) simp
  have tw: "takeWhile isdigit (?ds @ r) = ?ds"
    using r by (intro takeWhile_stop) (auto simp: dec_digits_isdigit)
  have stop: "code_at s (cur s + length ?ds) = hd r"
    using code_at_cur [of "s\<lparr>cur := cur s + length ?ds\<rparr>"] s(1) r(1)
    by (auto simp: show_nat_def code_at_def split: if_splits)
  have no_hex: "\<not> (code_at s (cur s) = CHR ''0'' \<and> code_at s (cur s + 1) = CHR ''x'')"
  proof
    assume "code_at s (cur s) = CHR ''0'' \<and> code_at s (cur s + 1) = CHR ''x''"
    moreover from this have "n = 0"
      using s(3) hd_dec_digits_zero [of n] by (simp add: show_nat_def)
    ultimately show False
      using stop r(3) by (simp add: dec_digits.simps [of 0])
  qed
  have "skip_blank s = s"
    using s isdigit_start [OF start] by (cases ?ds) (auto simp: skip_blank_def show_nat_def)
  then have "GetNextToken s = Ok (lex_number s)"
    using s isdigit_start [OF start] start by (auto simp: GetNextToken_def show_nat_def)
  moreover have "lex_number s =
      s\<lparr>cur := cur s + length ?ds, uval := word_of_nat n, itype := kUINT, tok := kNUMBER\<rparr>"
    using no_hex s(1) tw stop r(3) n
    by (auto simp: lex_number_def Let_def show_nat_def strtoul_dec_digits code_at_def)
  ultimately show "\<exists>s'. GetNextToken s = Ok s' \<and> rest s' = r \<and> code s' = code s
      \<and> tok (TokInfo.truncate s') = kNUMBER \<and> itype (TokInfo.truncate s') = kUINT
      \<and> uval (TokInfo.truncate s') = word_of_nat n"
    using s(1) drop_cur_add [of s "length ?ds"] by (simp add: show_nat_def rest_cur)
qed (simp add: show_nat_def)

section \<open>Reading words back\<close>

definition word_shaped :: "string \<Rightarrow> bool" where
  "word_shaped w \<longleftrightarrow> w \<noteq> [] \<and> IsIdStart (hd w) \<and> list_all IsIdBody (tl w)"

definition word_stop :: "string \<Rightarrow> bool" where
  "word_stop r \<longleftrightarrow> r = [] \<or> \<not> IsIdBody (hd r)"

lemma IsIdStart_start:
  "IsIdStart c \<Longrightarrow> \<not> IsBlank c \<and> c \<noteq> NUL \<and> c \<noteq> NEWLINE"
  by (auto simp: IsIdStart_def IsBlank_def NUL_def NEWLINE_def)

lemma GetNextToken_word:
  assumes "word_shaped w" and "word_stop r" and s: "rest s = w @ r"
  shows "GetNextToken s =
    (let s' = s\<lparr>cur := cur s + length w\<rparr>
     in case map_of g_str2key w of
          Some t \<Rightarrow> Ok (s'\<lparr>tok := t\<rparr>)
        | None \<Rightarrow> res_bind (CheckIsType s' w) (\<lambda>(s'', is_type).
             if is_type then Ok (s''\<lparr>tok := kTYPE\<rparr>)
             else Ok (s''\<lparr>sval := w, tok := kID\<rparr>)))"
proof -
  obtain c cs where w: "w = c # cs" "IsIdStart c" "list_all IsIdBody cs"
    using assms(1) by (cases w) (auto simp: word_shaped_def)
  have tw: "takeWhile IsIdBody (cs @ r) = cs"
    using assms(2) w(3) by (intro takeWhile_stop) (auto simp: word_stop_def list_all_iff)
  have at: "code_at s (cur s) = c" and inside: "cur s < length (code s)"
    using s w code_at_cur [of s] by (auto simp: rest_def intro: ccontr)
  have "skip_blank s = s"
    using s w IsIdStart_start [OF w(2)] by (simp add: skip_blank_def)
  moreover have "drop (Suc (cur s)) (code s) = cs @ r"
    using s w by (intro drop_Suc_cur) simp
  ultimately show ?thesis
    using at inside w(2,3) IsIdStart_start [OF w(2)]
    unfolding w(1) by (simp add: GetNextToken_def lex_word_def tw Let_def split: option.split)
qed

lemma reads_wordI:
  assumes "word_shaped w" and "word_stop r"
    and "\<And>s. \<exists>s'. (case map_of g_str2key w of
          Some t \<Rightarrow> Ok (s\<lparr>tok := t\<rparr>)
        | None \<Rightarrow> res_bind (CheckIsType s w) (\<lambda>(s'', is_type).
             if is_type then Ok (s''\<lparr>tok := kTYPE\<rparr>)
             else Ok (s''\<lparr>sval := w, tok := kID\<rparr>))) = Ok s'
          \<and> cur s' = cur s \<and> code s' = code s \<and> Q (TokInfo.truncate s')"
  shows "reads (w @ r) Q r"
proof (rule readsI)
  show "w @ r \<noteq> []" using assms(1) by (simp add: word_shaped_def)
next
  fix s
  assume s: "rest s = w @ r"
  let ?s = "s\<lparr>cur := cur s + length w\<rparr>"
  from assms(3) [of ?s] obtain s' where
    "GetNextToken s = Ok s'" "cur s' = cur ?s" "code s' = code s" "Q (TokInfo.truncate s')"
    using GetNextToken_word [OF assms(1,2) s] by (auto simp: Let_def)
  moreover from this have "rest s' = r"
    using s drop_cur_add [of s "length w"] by (simp add: rest_def)
  ultimately show "\<exists>s'. GetNextToken s = Ok s' \<and> rest s' = r \<and> code s' = code s
      \<and> Q (TokInfo.truncate s')" by blast
qed

lemma reads_keyword [lex_intros]:
  assumes "map_of g_str2key w = Some t" and "word_shaped w" and "word_stop r"
  shows "reads (w @ r) (\<lambda>i. tok i = t) r"
  using assms by (intro reads_wordI) auto

text \<open>
  A plain identifier is a word that is no keyword, not \<open>handle\<close>, and not a type name
  followed by digits only (such words are types, abort the tokenizer, or change \<open>bits\<close>).
\<close>

definition plain_ident :: "string \<Rightarrow> bool" where
  "plain_ident w \<longleftrightarrow> word_shaped w \<and> map_of g_str2key w = None \<and> w \<noteq> ''handle'' \<and>
     (\<forall>ty \<in> {''int'', ''uint'', ''float''}. \<not> (prefix ty w \<and> IsNumberTail w (length ty)))"

lemma CheckIsType_plain: "plain_ident w \<Longrightarrow> CheckIsType s w = Ok (s, False)"
  by (auto simp: plain_ident_def CheckIsType_def CheckSingleType_def CheckHandle_def or_else_def)

lemma reads_ident [lex_intros]:
  assumes "plain_ident w" and "word_stop r"
  shows "reads (w @ r) (\<lambda>i. tok i = kID \<and> sval i = w) r"
  using assms CheckIsType_plain [OF assms(1)]
  by (intro reads_wordI) (auto simp: plain_ident_def)

fun type_word :: "ImmType \<Rightarrow> string" where
  "type_word kINT = ''int''"
| "type_word kUINT = ''uint''"
| "type_word kFLOAT = ''float''"
| "type_word _ = []"

definition printable_type :: "ImmType \<Rightarrow> 32 word \<Rightarrow> bool" where
  "printable_type t b \<longleftrightarrow> t \<in> {kINT, kUINT, kFLOAT} \<and> 0 < b \<and> b \<le> 64"

lemma bits_of_digits:
  fixes b :: "32 word"
  shows "ucast (strtoul 10 (dec_digits (unat b))) = b"
proof -
  have "unat b < 2 ^ LENGTH(32)" by (rule unsigned_less)
  then have "unat b < 2 ^ 64" by simp
  then have "strtoul 10 (dec_digits (unat b)) = word_of_nat (unat b)"
    by (rule strtoul_dec_digits)
  moreover have "(ucast (word_of_nat (unat b) :: 64 word) :: 32 word) = b"
    by (rule bit_word_eqI) (simp add: bit_simps)
  ultimately show ?thesis by simp
qed

lemma CheckSingleType_match:
  assumes "0 < b" and "b \<le> 64"
  shows "CheckSingleType s (ty @ dec_digits (unat b)) ty kt = Ok (s\<lparr>bits := b, itype := kt\<rparr>, True)"
proof -
  have b0: "b \<noteq> 0" and b64: "\<not> 64 < b" using assms by auto
  then have "unat b \<noteq> 0" by (simp add: unat_eq_0)
  then have "hd (dec_digits (unat b)) \<noteq> CHR ''0''" using hd_dec_digits_zero [of "unat b"] by auto
  then have hd: "(ty @ dec_digits (unat b)) ! length ty \<noteq> CHR ''0''"
    by (simp add: hd_conv_nth nth_append)
  show ?thesis
    unfolding CheckSingleType_def Let_def
    using hd b0 b64 by (simp add: IsNumberTail_def bits_of_digits)
qed

lemma CheckSingleType_other: "\<not> prefix ty str \<Longrightarrow> CheckSingleType s str ty kt = Ok (s, False)"
  by (simp add: CheckSingleType_def)

lemma CheckIsType_match:
  assumes "printable_type t b"
  shows "CheckIsType s (type_word t @ dec_digits (unat b)) = Ok (s\<lparr>bits := b, itype := t\<rparr>, True)"
proof -
  have b: "0 < b" "b \<le> 64" and t: "t \<in> {kINT, kUINT, kFLOAT}"
    using assms by (simp_all add: printable_type_def)
  have m: "\<And>s ty kt. CheckSingleType s (ty @ dec_digits (unat b)) ty kt
      = Ok (s\<lparr>bits := b, itype := kt\<rparr>, True)"
    using b by (rule CheckSingleType_match)
  from t show ?thesis
    using m [of s "''int''" kINT] m [of s "''uint''" kUINT] m [of s "''float''" kFLOAT]
    by (auto simp: CheckIsType_def or_else_def CheckSingleType_other)
qed

lemma IsIdBody_digit: "isdigit c \<Longrightarrow> IsIdBody c"
  by (simp add: IsIdBody_def)

lemma type_word_shaped:
  "printable_type t b \<Longrightarrow> word_shaped (type_word t @ dec_digits (unat b))"
  by (auto simp: printable_type_def word_shaped_def IsIdStart_def IsIdBody_def list_all_iff
      dec_digits_isdigit)

lemma type_word_no_key:
  "printable_type t b \<Longrightarrow> map_of g_str2key (type_word t @ dec_digits (unat b)) = None"
  by (auto simp: printable_type_def g_str2key_def)

lemma reads_type [lex_intros]:
  assumes "printable_type t b" and "word_stop r"
  shows "reads ((type_word t @ dec_digits (unat b)) @ r)
    (\<lambda>i. tok i = kTYPE \<and> itype i = t \<and> bits i = b) r"
  using type_word_shaped [OF assms(1)] assms(2)
  by (rule reads_wordI) (simp add: type_word_no_key CheckIsType_match assms)

section \<open>Dumping the token stream\<close>

definition show_itype_num :: "TokState \<Rightarrow> string res" where
  "show_itype_num s =
     (if itype s = kUINT then Ok (''u_'' @ show_nat (unat (uval s)))
      else if itype s = kHEX then Ok (''0x_'' @ show_hex (unat (uval s)))
      else if itype s = kFLOAT then Ok (''f'' @ show_nat (unat (bits s)) @ ''_'' @ show_f64 (fval s))
      else Err Fatal)"

definition show_attributes :: "TokState \<Rightarrow> string res" where
  "show_attributes s =
     (if tok s = kNUMBER then res_bind (show_itype_num s) (\<lambda>n. Ok (''('' @ n @ '')''))
      else if tok s = kTYPE
      then res_bind (ToString_ImmType (itype s)) (\<lambda>n. Ok (''('' @ n @ show_nat (unat (bits s)) @ '')''))
      else if tok s = kID \<or> tok s = kSTRING then Ok (''('' @ sval s @ '')'')
      else Ok [])"

function DumpTokenFromState :: "TokState \<Rightarrow> string res" where
  "DumpTokenFromState s =
     (case GetNextToken s of
        Err e \<Rightarrow> Err e
      | Ok s' \<Rightarrow>
          res_bind (ToString_Token (tok s')) (\<lambda>name.
          if tok s' = kEND then Ok (name @ [NEWLINE])
          else res_bind (show_attributes s') (\<lambda>attrs.
            res_bind (DumpTokenFromState s') (\<lambda>more.
            Ok (name @ attrs @ (if tok s' = kENDLINE then [NEWLINE] else ''   '') @ more)))))"
  by pat_completeness auto
termination
  by (relation "measure (\<lambda>s. length (code s) - cur s)")
    (auto dest!: GetNextToken_advances)

declare DumpTokenFromState.simps [simp del]

section \<open>The tokenizer run on a whole text\<close>

inductive lexes :: "TokState \<Rightarrow> TokState \<Rightarrow> bool" where
  lexes_refl: "lexes s s"
| lexes_step: "lexes s0 s \<Longrightarrow> GetNextToken s = Ok s' \<Longrightarrow> lexes s0 s'"

definition unterminated_string :: "TokState \<Rightarrow> bool" where
  "unterminated_string s \<longleftrightarrow>
     (case dropWhile IsBlank (rest s) of c # body \<Rightarrow> c = CHR 0x22 \<and> CHR 0x22 \<notin> set body | [] \<Rightarrow> False)"

lemma lexes_inside:
  assumes "lexes s0 s" and "terminated (code s0)" and "cur s0 \<le> length (code s0)"
  shows "code s = code s0 \<and> cur s \<le> length (code s)"
  using assms
proof (induction rule: lexes.induct)
  case (lexes_step s0 s s')
  then show ?case using GetNextToken_forward GetNextToken_inside by metis
qed simp

lemma lex_word_failure: "lex_word s = Err e \<Longrightarrow> e = Fatal"
  by (auto simp: lex_word_def Let_def res_bind_Err_conv dest: CheckIsType_failure
      split: option.splits if_splits)

lemma GetNextToken_Out_of_bounds:
  assumes "GetNextToken s = Err Out_of_bounds"
  shows "unterminated_string s"
proof -
  let ?s = "skip_blank s"
  have "lex_string ?s = Err Out_of_bounds" and c: "code_at ?s (cur ?s) = CHR 0x22"
    using assms by (auto simp: GetNextToken_def Let_def dest: lex_word_failure split: if_splits)
  then have b: "CHR 0x22 \<notin> set (drop (cur ?s + 1) (code ?s))"
    by (auto simp: lex_string_def Let_def split: if_splits)
  have "rest ?s \<noteq> []"
    using c by (auto simp: code_at_def rest_def NUL_def split: if_splits)
  then obtain d body where r: "rest ?s = d # body" by (cases "rest ?s") auto
  moreover have "d = CHR 0x22" using c code_at_cur [of ?s] unfolding r by simp
  moreover have "body = drop (cur ?s + 1) (code ?s)" using drop_Suc_cur [OF r] by simp
  ultimately show ?thesis using b by (simp add: unterminated_string_def)
qed

lemma GetTokStateFromCode_start:
  "GetTokStateFromCode src = Ok s0 \<Longrightarrow> terminated (code s0) \<and> cur s0 = 0"
  using GetTokStateFromCode_terminated by (auto simp: GetTokStateFromCode_def Let_def split: if_splits)

text \<open>
  C1: on any non-empty source text, every position the tokenizer reaches lies inside the
  terminated text, the text is never changed, and the next call either returns a token and
  moves strictly forward, or aborts on a failed check, or runs over the end of the text inside
  a string literal with no closing quote; nothing else can happen.
\<close>

theorem lexer_safe:
  assumes "GetTokStateFromCode src = Ok s0" and "lexes s0 s"
  shows "code s = code s0 \<and> cur s \<le> length (code s) \<and>
    ((\<exists>s'. GetNextToken s = Ok s' \<and> cur s < cur s' \<and> cur s' \<le> length (code s)) \<or>
     GetNextToken s = Err Fatal \<or>
     GetNextToken s = Err Out_of_bounds \<and> unterminated_string s)"
proof -
  have inv: "code s = code s0" "cur s \<le> length (code s)" "terminated (code s)"
    using lexes_inside [OF assms(2)] GetTokStateFromCode_start [OF assms(1)] by auto
  show ?thesis
  proof (cases "GetNextToken s")
    case (Ok s')
    then show ?thesis using inv GetNextToken_forward [OF Ok] GetNextToken_inside [OF inv(3) Ok] by auto
  next
    case (Err e)
    then show ?thesis using inv GetNextToken_failure [OF Err] GetNextToken_Out_of_bounds by auto
  qed
qed

theorem lexer_safe_witness:
  "\<exists>s0 s. GetTokStateFromCode ''a  1'' = Ok s0 \<and> GetNextToken s0 = Ok s \<and> cur s = 1 \<and>
     cur s \<le> length (code s)"
proof -
  have "case GetTokStateFromCode ''a  1'' of Ok s0 \<Rightarrow>
      (case GetNextToken s0 of Ok s \<Rightarrow> cur s = 1 | Err e \<Rightarrow> False) | Err e \<Rightarrow> False"
    by code_simp
  then obtain s0 s where s: "GetTokStateFromCode ''a  1'' = Ok s0" "GetNextToken s0 = Ok s" "cur s = 1"
    by (auto split: res.splits)
  then have "lexes s0 s" by (blast intro: lexes.intros)
  from lexer_safe [OF s(1) this] s show ?thesis by blast
qed
end
