(* ===== verification/Halide_Ast.thy ===== *)
theory Halide_Ast
  imports Halide_Token
begin

text \<open>
  The syntax tree of the textual Halide IR and its printer (\<open>src/contrib/parser/ast.h\<close>,
  \<open>ast.cc\<close>). A list of child nodes is an Isabelle list, a child node is never null: every
  constructor call of the parser checks its children. The visitor's methods are the equations of
  \<open>PrintExpr\<close> and \<open>PrintStmt\<close>, its member \<open>indent_\<close> is their first argument, and the
  text written to \<open>os_\<close> is their result. Since \<open>unsigned\<close> indentation and the stream never
  fail on real inputs, the only failures are the printer's own checks.
\<close>

section \<open>The tree\<close>

datatype ASTExpr =
    ASTIntImm "64 word" "32 word"
  | ASTUIntImm "64 word" "32 word"
  | ASTFloatImm f64 "32 word"
  | ASTStringImm string
  | ASTCast ImmType "32 word" ASTExpr
  | ASTNot ASTExpr
  | ASTBinaryOp Token ASTExpr ASTExpr
  | ASTSelect ASTExpr ASTExpr ASTExpr
  | ASTLoad string ASTExpr ASTExpr
  | ASTLetExpr string ASTExpr ASTExpr
  | ASTCall string ImmType "32 word" Token "ASTExpr list"
  | ASTVariable string

text \<open>
  Field order as in the constructors of \<open>ast.h\<close>: \<open>ASTStore\<close> is buffer, value, index,
  predicate, and \<open>ASTProvide\<close> is function, value, arguments.
\<close>

datatype ASTStmt =
    ASTLet string ASTExpr "ASTStmt list"
  | ASTAttr string string ASTExpr "ASTStmt list"
  | ASTAssert ASTExpr ASTExpr "ASTStmt list"
  | ASTProduce string "ASTStmt list"
  | ASTStore string ASTExpr ASTExpr ASTExpr
  | ASTProvide string ASTExpr "ASTExpr list"
  | ASTAllocate string ImmType "32 word" "ASTExpr list" "ASTStmt list"
  | ASTRealize string ImmType "32 word" "ASTExpr list" "ASTExpr list" "ASTStmt list"
  | ASTIfThenElse ASTExpr "ASTStmt list" "ASTStmt list"
  | ASTEvaluate ASTExpr
  | ASTFor string ASTExpr ASTExpr "ASTStmt list"

section \<open>The printer\<close>

definition tok2sym :: "(Token \<times> string) list" where
  "tok2sym =
    [(kEND, ''EOF''), (kENDLINE, [NEWLINE]), (kID, ''id''), (kTYPE, ''type''),
     (kNUMBER, ''number''), (kSTRING, ''string''), (kOPSET, ''opset''),
     (kCOMMENT, ''comment''), (kERRORTOKEN, ''errortok''), (kLPAR, ''(''), (kRPAR, '')''),
     (kLSQB, ''[''), (kRSQB, '']''), (kCOLON, '':''), (kCOMMA, '',''), (kSEMI, '';''),
     (kPLUS, ''+''), (kMINUS, ''-''), (kSTAR, ''*''), (kSLASH, ''/''), (kVBAR, ''|''),
     (kAMPER, ''&''), (kLESS, ''<''), (kGREATER, ''>''), (kEQUAL, ''=''), (kDOT, ''.''),
     (kPERCENT, ''%''), (kLBRACE, ''{''), (kRBRACE, ''}''), (kNOT, ''!''), (kTILDE, ''~''),
     (kCIRCUMFLEX, ''^''), (kAT, ''@''), (kEQEQUAL, ''==''), (kNOTEQUAL, ''!=''),
     (kAND, ''&&''), (kOR, ''||''), (kLESSEQUAL, ''<=''), (kGREATEREQUAL, ''>=''),
     (kLEFTSHIFT, ''<<''), (kRIGHTSHIFT, ''>>''), (kDOUBLESTAR, ''**''), (kPLUSEQUAL, ''+=''),
     (kMINEQUAL, ''-=''), (kSTAREQUAL, ''*=''), (kSLASHEQUAL, ''/=''),
     (kPERCENTEQUAL, ''%=''), (kAMPEREQUAL, ''&=''), (kVBAREQUAL, ''|=''),
     (kCIRCUMFLEXEQUAL, ''^=''), (kATEQUAL, ''@=''), (kRARROW, ''->''),
     (kDOUBLESLASH, ''//''), (kLEFTSHIFTEQUAL, ''<<=''), (kRIGHTSHIFTEQUAL, ''>>=''),
     (kDOUBLESTAREQUAL, ''**=''), (kDOUBLESLASHEQUAL, ''//=''), (kELLIPSIS, ''...''),
     (kIF, ''if''), (kELSE, ''else''), (kFOR, ''for''), (kREALIZE, ''realize''),
     (kVALUE, ''value''), (kPRODUCE, ''produce''), (kMAX, ''max''), (kMIN, ''min''),
     (kSELECT, ''select''), (kRAMP, ''ramp''), (kLET, ''let''), (kIN, ''in''),
     (kATTR, ''attr''), (kASSERT, ''assert''), (kALLOCATE, ''allocate''),
     (kCNEW, ''custom_new''), (kCDELETE, ''custom_delete''), (kFREE, ''free''),
     (kPREFETCH, ''prefetch''), (kEXTERN, ''EX''), (kEXTERNCPP, ''ECPP''),
     (kPUREEXTERN, ''PE''), (kHALIDE, ''H''), (kINTRINSIC, ''I''), (kPUREINTRIN, ''PI'')]"

definition symbol_of :: "Token \<Rightarrow> string res" where
  "symbol_of t = (case map_of tok2sym t of Some s \<Rightarrow> Ok s | None \<Rightarrow> Err Fatal)"

text \<open>Output in sequence: the first failing part ends the printing.\<close>

fun out :: "string res list \<Rightarrow> string res" where
  "out [] = Ok []"
| "out (p # ps) = res_bind p (\<lambda>s. res_bind (out ps) (\<lambda>t. Ok (s @ t)))"

definition PrintIndent :: "nat \<Rightarrow> string" where
  "PrintIndent n = replicate n (CHR '' '')"

fun PrintType :: "ImmType \<Rightarrow> string res" where
  "PrintType kINT = Ok ''int''"
| "PrintType kUINT = Ok ''uint''"
| "PrintType kFLOAT = Ok ''float''"
| "PrintType kHEX = Err Fatal"
| "PrintType kHANDLE = Err Fatal"

fun IsOne :: "ASTExpr \<Rightarrow> bool" where
  "IsOne (ASTIntImm v b) = (v = 1)"
| "IsOne (ASTUIntImm v b) = (v = 1)"
| "IsOne _ = False"

definition show_bits :: "32 word \<Rightarrow> string" where
  "show_bits b = show_nat (unat b)"

definition PrintFloat :: "f64 \<Rightarrow> 32 word \<Rightarrow> string res" where
  "PrintFloat v b =
     (if b = 64 then Ok (show_f64 v)
      else if b = 32 then Ok (show_f64 v @ ''f'')
      else if b = 16 then Ok (show_f64 v @ ''h'')
      else Err Fatal)"

fun PrintExpr :: "ASTExpr \<Rightarrow> string res"
  and PrintArgs :: "ASTExpr list \<Rightarrow> string res" where
  "PrintExpr (ASTIntImm v b) =
     (if b = 32 then Ok (show_int (sint v))
      else out [Ok ''('', PrintType kINT, Ok (show_bits b @ '')'' @ show_int (sint v))])"
| "PrintExpr (ASTUIntImm v b) =
     out [Ok ''('', PrintType kUINT, Ok (show_bits b @ '')'' @ show_nat (unat v))]"
| "PrintExpr (ASTFloatImm v b) = PrintFloat v b"
| "PrintExpr (ASTStringImm v) = Ok ([CHR 0x22] @ v @ [CHR 0x22])"
| "PrintExpr (ASTCast t b e) = out [PrintType t, Ok (show_bits b @ ''(''), PrintExpr e, Ok '')'']"
| "PrintExpr (ASTNot a) = out [Ok ''!'', PrintExpr a]"
| "PrintExpr (ASTBinaryOp op a b) =
     out [Ok ''('', PrintExpr a, Ok '' '', symbol_of op, Ok '' '', PrintExpr b, Ok '')'']"
| "PrintExpr (ASTSelect c t f) =
     out [Ok ''select('', PrintExpr c, Ok '', '', PrintExpr t, Ok '', '', PrintExpr f, Ok '')'']"
| "PrintExpr (ASTLoad buf i p) =
     out [Ok (buf @ ''[''), PrintExpr i, Ok '']'',
          if IsOne p then Ok [] else out [Ok '' if '', PrintExpr p]]"
| "PrintExpr (ASTLetExpr x v b) =
     out [Ok (''(let '' @ x @ '' = ''), PrintExpr v, Ok '' in '', PrintExpr b, Ok '')'']"
| "PrintExpr (ASTCall f t b ct args) =
     out [Ok f, PrintArgs args, Ok '')'',
          if ct = kHALIDE then Ok []
          else out [Ok '':'', PrintType t, res_bind (symbol_of ct) (\<lambda>s. Ok (show_bits b @ '':'' @ s))]]"
| "PrintExpr (ASTVariable x) = Ok x"
| "PrintArgs [] = Ok []"
| "PrintArgs (e # es) = out [PrintExpr e, if es = [] then Ok [] else Ok '', '', PrintArgs es]"

fun PrintExtents :: "ASTExpr list \<Rightarrow> string res" where
  "PrintExtents [] = Ok []"
| "PrintExtents (e # es) = out [Ok '' * '', PrintExpr e, PrintExtents es]"

text \<open>The bounds of a realize node, after \<open>CHECK_EQ\<close> of the two sizes.\<close>

fun PrintBounds :: "ASTExpr list \<Rightarrow> ASTExpr list \<Rightarrow> string res" where
  "PrintBounds [] [] = Ok []"
| "PrintBounds (m # ms) (e # es) =
     out [Ok ''['', PrintExpr m, Ok '', '', PrintExpr e, Ok '']'',
          if ms = [] then Ok [] else Ok '', '', PrintBounds ms es]"
| "PrintBounds _ _ = Err Fatal"

text \<open>The test \<open>size() == 1\<close> and \<open>front()->baseType == "if_then_else"\<close>.\<close>

fun single_if :: "ASTStmt list \<Rightarrow> (ASTExpr \<times> ASTStmt list \<times> ASTStmt list) option" where
  "single_if [ASTIfThenElse c t e] = Some (c, t, e)"
| "single_if _ = None"

lemma single_if_Some: "single_if ss = Some (c, t, e) \<Longrightarrow> ss = [ASTIfThenElse c t e]"
  by (cases ss rule: single_if.cases) simp_all

text \<open>
  \<open>PrintIf\<close> is the \<open>while\<close> loop of \<open>Visit(ASTIfThenElse)\<close>: a single nested
  conditional in the else branch continues on the same line.
\<close>

function (sequential) PrintStmt :: "nat \<Rightarrow> ASTStmt \<Rightarrow> string res"
  and PrintStmtList :: "nat \<Rightarrow> ASTStmt list \<Rightarrow> string res"
  and PrintIf :: "nat \<Rightarrow> ASTExpr \<Rightarrow> ASTStmt list \<Rightarrow> ASTStmt list \<Rightarrow> string res" where
  "PrintStmt k (ASTLet x v body) =
     out [Ok (PrintIndent k @ ''let '' @ x @ '' = ''), PrintExpr v, Ok [NEWLINE],
          PrintStmtList (k + 1) body]"
| "PrintStmt k (ASTAttr node key v body) =
     out [Ok (PrintIndent k @ ''// attr ['' @ node @ ''] '' @ key @ '' = ''), PrintExpr v,
          Ok [NEWLINE], PrintStmtList (k + 1) body]"
| "PrintStmt k (ASTAssert c m body) =
     out [Ok (PrintIndent k @ ''assert(''), PrintExpr c, Ok '', '', PrintExpr m,
          Ok ('')'' @ [NEWLINE]), PrintStmtList (k + 1) body]"
| "PrintStmt k (ASTProduce f body) =
     out [Ok (PrintIndent k @ ''produce '' @ f @ '' {'' @ [NEWLINE]), PrintStmtList (k + 2) body,
          Ok (PrintIndent k @ ''}'' @ [NEWLINE])]"
| "PrintStmt k (ASTStore buf v i p) =
     out [Ok (PrintIndent k @ buf @ ''[''), PrintExpr i, Ok ''] = '', PrintExpr v,
          if IsOne p then Ok [] else out [Ok '' if '', PrintExpr p], Ok [NEWLINE]]"
| "PrintStmt k (ASTProvide f v args) =
     out [Ok (PrintIndent k @ f @ ''(''), PrintArgs args, Ok '') = '', PrintExpr v, Ok [NEWLINE]]"
| "PrintStmt k (ASTAllocate buf t b ext body) =
     out [Ok (PrintIndent k @ ''allocate '' @ buf @ ''[''), PrintType t, Ok (show_bits b),
          PrintExtents ext, Ok ('']'' @ [NEWLINE]), PrintStmtList (k + 1) body]"
| "PrintStmt k (ASTRealize f t b ms es body) =
     out [Ok (PrintIndent k @ ''realize '' @ f @ ''<''), PrintType t, Ok (show_bits b @ ''>(''),
          PrintBounds ms es, Ok ('') {'' @ [NEWLINE]), PrintStmtList (k + 2) body,
          Ok (PrintIndent k @ ''}'' @ [NEWLINE])]"
| "PrintStmt k (ASTIfThenElse c t e) = out [Ok (PrintIndent k), PrintIf k c t e]"
| "PrintStmt k (ASTEvaluate v) = out [Ok (PrintIndent k), PrintExpr v, Ok [NEWLINE]]"
| "PrintStmt k (ASTFor x m e body) =
     out [Ok (PrintIndent k @ ''for ('' @ x @ '', ''), PrintExpr m, Ok '', '', PrintExpr e,
          Ok ('') {'' @ [NEWLINE]), PrintStmtList (k + 2) body,
          Ok (PrintIndent k @ ''}'' @ [NEWLINE])]"
| "PrintStmtList k [] = Ok []"
| "PrintStmtList k (s # ss) = out [PrintStmt k s, PrintStmtList k ss]"
| "PrintIf k c t e =
     out [Ok ''if ('', PrintExpr c, Ok ('') {'' @ [NEWLINE]), PrintStmtList (k + 2) t,
       if e = [] then Ok (PrintIndent k @ ''}'' @ [NEWLINE])
       else (case single_if e of
           Some (c', t', e') \<Rightarrow> out [Ok (PrintIndent k @ ''} else ''), PrintIf k c' t' e']
         | None \<Rightarrow> out [Ok (PrintIndent k @ ''} else {'' @ [NEWLINE]), PrintStmtList (k + 2) e,
                   Ok (PrintIndent k @ ''}'' @ [NEWLINE])])]"

  by pat_completeness auto
termination
  by (relation "measure (\<lambda>x. case x of Inl (k, s) \<Rightarrow> 2 * size s
      | Inr (Inl (k, ss)) \<Rightarrow> 2 * size_list size ss
      | Inr (Inr (k, c, t, e)) \<Rightarrow> 2 * (size_list size t + size_list size e) + 1)")
    (auto dest!: single_if_Some)

definition PrintAST :: "ASTStmt list \<Rightarrow> string res" where
  "PrintAST l = PrintStmtList 0 l"

lemma out_Ok_conv:
  "out ps = Ok s \<longleftrightarrow> (\<exists>ss. ps = map Ok ss \<and> s = concat ss)"
proof (induction ps arbitrary: s)
  case (Cons p ps)
  show ?case
  proof (cases p)
    case (Ok a)
    with Cons show ?thesis by (force simp: res_bind_Ok_conv Cons_eq_map_conv)
  qed (auto simp: Cons_eq_map_conv)
qed auto

lemma out_failure: "out ps = Err e \<Longrightarrow> Err e \<in> set ps"
  by (induction ps) (auto simp: res_bind_Err_conv)

lemma symbol_of_total: "\<exists>s. symbol_of t = Ok s"
  by (cases t) (simp_all add: symbol_of_def tok2sym_def)

end
