(* ===== verification/Halide_Grammar.thy ===== *)
theory Halide_Grammar
  imports Halide_Ast
begin

text \<open>
  The parser of the textual Halide IR (\<open>src/contrib/parser/grammar.cc\<close>). A handler owns the
  tokenizer state and a queue of the tokens read ahead. A parser takes a handler and returns a
  result and the new handler, or the failure that ends the call. The two parsers that call each
  other recursively, \<open>ParseExpr\<close> and \<open>ParseStmtList\<close>, are parameters (\<open>pe\<close>,
  \<open>psl\<close>) of the parsers that the source declares before them; the recursion is tied by fuel,
  and \<open>GenAST\<close> supplies fuel that the last section proves sufficient for every text.
  A null \<open>ASTExprNode\<close> or \<open>ASTStmtNode\<close> is \<open>None\<close>.
\<close>

section \<open>The token queue\<close>

record TokHandler =
  stat :: TokState
  queue :: "TokInfo list"

type_synonym 'a parser = "TokHandler \<Rightarrow> ('a \<times> TokHandler) res"

definition ret :: "'a \<Rightarrow> 'a parser" where
  "ret x h = Ok (x, h)"

definition fail :: "failure \<Rightarrow> 'a parser" where
  "fail e h = Err e"

definition bnd :: "'a parser \<Rightarrow> ('a \<Rightarrow> 'b parser) \<Rightarrow> 'b parser" where
  "bnd p f h = (case p h of Ok (x, h') \<Rightarrow> f x h' | Err e \<Rightarrow> Err e)"

definition thn :: "'a parser \<Rightarrow> 'b parser \<Rightarrow> 'b parser" where
  "thn p q = bnd p (\<lambda>_. q)"

definition chk :: "bool \<Rightarrow> unit parser" where
  "chk b = (if b then ret () else fail Fatal)"

definition LookNextTok :: "Token parser" where
  "LookNextTok h =
     (case GetNextToken (stat h) of
        Ok s \<Rightarrow> Ok (tok s, \<lparr>stat = s, queue = queue h @ [TokInfo.truncate s]\<rparr>)
      | Err e \<Rightarrow> Err e)"

text \<open>\<open>std::queue::pop\<close>, undefined on an empty queue.\<close>

definition h_pop :: "unit parser" where
  "h_pop h = (case queue h of [] \<Rightarrow> Err Empty_container | t # ts \<Rightarrow> Ok ((), h\<lparr>queue := ts\<rparr>))"

definition h_front :: "TokInfo parser" where
  "h_front h = (case queue h of [] \<Rightarrow> Err Empty_container | t # ts \<Rightarrow> Ok (t, h))"

definition h_empty :: "bool parser" where
  "h_empty h = Ok (queue h = [], h)"

definition h_size :: "nat parser" where
  "h_size h = Ok (length (queue h), h)"

definition Pop :: "TokInfo parser" where
  "Pop =
     bnd h_empty (\<lambda>e.
     thn (if e then thn LookNextTok (ret ()) else ret ()) (
     bnd h_front (\<lambda>t.
     thn h_pop (
     ret t))))"

definition FrontTok :: "Token parser" where
  "FrontTok = bnd h_empty (\<lambda>e. if e then LookNextTok else bnd h_front (\<lambda>t. ret (tok t)))"

definition CHECK_AND_POP :: "Token \<Rightarrow> unit parser" where
  "CHECK_AND_POP tk = bnd Pop (\<lambda>t. chk (tok t = tk))"

text \<open>\<open>auto id = h.Pop(); CHECK(id.tok == tk)\<close>.\<close>

definition PopTok :: "Token \<Rightarrow> TokInfo parser" where
  "PopTok tk = bnd Pop (\<lambda>t. thn (chk (tok t = tk)) (ret t))"

text \<open>\<open>auto x = p(h); CHECK(x)\<close>.\<close>

definition checked :: "'a option parser \<Rightarrow> 'a parser" where
  "checked p = bnd p (\<lambda>r. case r of Some x \<Rightarrow> ret x | None \<Rightarrow> fail Fatal)"

section \<open>Expressions\<close>

definition ParseCast :: "ASTExpr option parser \<Rightarrow> ASTExpr parser" where
  "ParseCast pe =
     bnd (PopTok kTYPE) (\<lambda>type_info.
     thn (CHECK_AND_POP kLPAR) (
     bnd (checked pe) (\<lambda>expr.
     thn (CHECK_AND_POP kRPAR) (
     ret (ASTCast (itype type_info) (bits type_info) expr)))))"

definition ParseSelect :: "ASTExpr option parser \<Rightarrow> ASTExpr parser" where
  "ParseSelect pe =
     thn (CHECK_AND_POP kSELECT) (
     thn (CHECK_AND_POP kLPAR) (
     bnd (checked pe) (\<lambda>cond.
     thn (CHECK_AND_POP kCOMMA) (
     bnd (checked pe) (\<lambda>true_value.
     thn (CHECK_AND_POP kCOMMA) (
     bnd (checked pe) (\<lambda>false_value.
     thn (CHECK_AND_POP kRPAR) (
     ret (ASTSelect cond true_value false_value)))))))))"

definition ParseMaxMin :: "ASTExpr option parser \<Rightarrow> ASTExpr parser" where
  "ParseMaxMin pe =
     bnd Pop (\<lambda>t.
     thn (chk (tok t = kMAX \<or> tok t = kMIN)) (
     thn (CHECK_AND_POP kLPAR) (
     bnd (checked pe) (\<lambda>a.
     thn (CHECK_AND_POP kCOMMA) (
     bnd (checked pe) (\<lambda>b.
     thn (CHECK_AND_POP kRPAR) (
     ret (ASTBinaryOp (tok t) a b))))))))"

definition ParseLetExpr :: "ASTExpr option parser \<Rightarrow> ASTExpr parser" where
  "ParseLetExpr pe =
     thn (CHECK_AND_POP kLPAR) (
     thn (CHECK_AND_POP kLET) (
     bnd (PopTok kID) (\<lambda>id.
     thn (CHECK_AND_POP kEQUAL) (
     bnd (checked pe) (\<lambda>value.
     thn (CHECK_AND_POP kIN) (
     bnd (checked pe) (\<lambda>body.
     thn (CHECK_AND_POP kRPAR) (
     ret (ASTLetExpr (sval id) value body)))))))))"

definition ParseNot :: "ASTExpr option parser \<Rightarrow> ASTExpr parser" where
  "ParseNot pe =
     thn (CHECK_AND_POP kNOT) (
     bnd (checked pe) (\<lambda>a.
     ret (ASTNot a)))"

definition bin_tokens :: "Token list" where
  "bin_tokens =
     [kEQEQUAL, kNOTEQUAL, kAND, kGREATEREQUAL, kLESSEQUAL, kOR, kGREATER, kPLUS, kMINUS, kSTAR,
      kSLASH, kPERCENT, kLESS]"

definition ParseBinExpr :: "ASTExpr option parser \<Rightarrow> ASTExpr parser" where
  "ParseBinExpr pe =
     thn (CHECK_AND_POP kLPAR) (
     bnd (checked pe) (\<lambda>a.
     bnd Pop (\<lambda>t.
     thn (chk (tok t \<in> set bin_tokens)) (
     bnd (checked pe) (\<lambda>b.
     thn (CHECK_AND_POP kRPAR) (
     ret (ASTBinaryOp (tok t) a b)))))))"

definition call_tokens :: "Token list" where
  "call_tokens = [kEXTERN, kEXTERNCPP, kPUREEXTERN, kHALIDE, kINTRINSIC, kPUREINTRIN]"

definition tok_info :: "Token \<Rightarrow> TokInfo" where
  "tok_info t = \<lparr>tok = t, itype = kINT, bits = 0, fval = f64_zero, uval = 0, sval = []\<rparr>"

definition ParseCallTail :: "(TokInfo \<times> TokInfo) parser" where
  "ParseCallTail =
     bnd (bnd FrontTok (\<lambda>f.
       if f = kCOLON then
         thn h_pop (
         bnd (PopTok kTYPE) (\<lambda>t.
         thn (CHECK_AND_POP kCOLON) (
         bnd Pop (\<lambda>call_t.
         ret (t, call_t)))))
       else ret (tok_info kTYPE, tok_info kHALIDE))) (\<lambda>(t, call_t).
     thn (chk (tok call_t \<in> set call_tokens)) (
     ret (t, call_t)))"

text \<open>The \<open>while\<close> loop of \<open>ParseParamList\<close>.\<close>

primrec ParseParamTail :: "nat \<Rightarrow> ASTExpr option parser \<Rightarrow> ASTExpr list parser" where
  "ParseParamTail 0 pe = fail Out_of_fuel"
| "ParseParamTail (Suc n) pe =
     bnd FrontTok (\<lambda>f.
     if f = kCOMMA then
       thn h_pop (
       bnd (checked pe) (\<lambda>expr.
       bnd (ParseParamTail n pe) (\<lambda>list.
       ret (expr # list))))
     else ret [])"

definition ParseParamList :: "nat \<Rightarrow> ASTExpr option parser \<Rightarrow> ASTExpr list parser" where
  "ParseParamList N pe =
     bnd (checked pe) (\<lambda>expr.
     bnd (ParseParamTail N pe) (\<lambda>list.
     ret (expr # list)))"

text \<open>The optional argument list between the parentheses of a call or a provide statement.\<close>

definition ParseArgs :: "nat \<Rightarrow> ASTExpr option parser \<Rightarrow> ASTExpr list parser" where
  "ParseArgs N pe = bnd LookNextTok (\<lambda>t. if t \<noteq> kRPAR then ParseParamList N pe else ret [])"

definition ParseCall :: "nat \<Rightarrow> ASTExpr option parser \<Rightarrow> ASTExpr parser" where
  "ParseCall N pe =
     bnd h_size (\<lambda>size.
     thn (chk (size \<le> 2)) (
     bnd (PopTok kID) (\<lambda>id.
     thn (CHECK_AND_POP kLPAR) (
     bnd (ParseArgs N pe) (\<lambda>list.
     thn (CHECK_AND_POP kRPAR) (
     bnd ParseCallTail (\<lambda>(t, call_t).
     ret (ASTCall (sval id) (itype t) (bits t) (tok call_t) list))))))))"

text \<open>The loop over the minus signs of \<open>ParseImmNum\<close>.\<close>

primrec ParseSigns :: "nat \<Rightarrow> bool \<Rightarrow> TokInfo \<Rightarrow> (bool \<times> TokInfo) parser" where
  "ParseSigns 0 sign c = fail Out_of_fuel"
| "ParseSigns (Suc n) sign c =
     (if tok c = kMINUS then bnd Pop (\<lambda>c'. ParseSigns n (\<not> sign) c') else ret (sign, c))"

text \<open>\<open>-val\<close> on an \<open>int64_t\<close>.\<close>

definition int64_neg :: "64 word \<Rightarrow> 64 word parser" where
  "int64_neg v = (if sint v = - (2 ^ 63) then fail Signed_overflow else ret (- v))"

definition ParseImmNum :: "nat \<Rightarrow> ASTExpr parser" where
  "ParseImmNum N =
     bnd Pop (\<lambda>first.
     bnd (if tok first = kLPAR then
            bnd (PopTok kTYPE) (\<lambda>t.
            thn (CHECK_AND_POP kRPAR) (
            bnd Pop (\<lambda>c.
            ret (itype t, bits t, c))))
          else ret (kINT, 32, first)) (\<lambda>(it, bs, c0).
     bnd (ParseSigns N True c0) (\<lambda>(sign, c).
     thn (chk (tok c = kNUMBER)) (
     if itype c = kFLOAT then ret (ASTFloatImm (if sign then fval c else f64_neg (fval c)) (bits c))
     else if it = kUINT then thn (chk sign) (ret (ASTUIntImm (uval c) bs))
     else
       thn (chk (it = kINT)) (
       bnd (if sign then ret (uval c) else int64_neg (uval c)) (\<lambda>val.
       ret (ASTIntImm val bs)))))))"

text \<open>The optional \<open>if\<close> predicate after a token has been looked at.\<close>

definition ParseLoad :: "nat \<Rightarrow> ASTExpr option parser \<Rightarrow> ASTExpr parser" where
  "ParseLoad N pe =
     bnd (PopTok kID) (\<lambda>id.
     thn (CHECK_AND_POP kLSQB) (
     bnd (checked pe) (\<lambda>index.
     thn (CHECK_AND_POP kRSQB) (
     bnd (bnd LookNextTok (\<lambda>t. if t = kIF then thn h_pop (ParseImmNum N) else ret (ASTIntImm 1 32))) (\<lambda>pred.
     ret (ASTLoad (sval id) index pred))))))"

definition some :: "'a parser \<Rightarrow> 'a option parser" where
  "some p = bnd p (\<lambda>x. ret (Some x))"

definition ParseExprBody :: "nat \<Rightarrow> ASTExpr option parser \<Rightarrow> ASTExpr option parser" where
  "ParseExprBody N pe =
     bnd FrontTok (\<lambda>f.
     if f = kTYPE then some (ParseCast pe)
     else if f = kSELECT then some (ParseSelect pe)
     else if f = kMAX \<or> f = kMIN then some (ParseMaxMin pe)
     else if f = kLPAR then
       bnd LookNextTok (\<lambda>t.
       if t = kLET then some (ParseLetExpr pe)
       else if t = kTYPE then some (ParseImmNum N)
       else some (ParseBinExpr pe))
     else if f = kID then
       bnd LookNextTok (\<lambda>t.
       if t = kLPAR then some (ParseCall N pe)
       else if t = kLSQB then some (ParseLoad N pe)
       else bnd Pop (\<lambda>v. ret (Some (ASTVariable (sval v)))))
     else if f = kSTRING then
       bnd Pop (\<lambda>s. thn LookNextTok (ret (Some (ASTStringImm (sval s)))))
     else if f = kNOT then some (ParseNot pe)
     else if f = kMINUS \<or> f = kNUMBER then some (ParseImmNum N)
     else ret None)"

primrec ParseExpr :: "nat \<Rightarrow> nat \<Rightarrow> ASTExpr option parser" where
  "ParseExpr N 0 = fail Out_of_fuel"
| "ParseExpr N (Suc n) = ParseExprBody N (ParseExpr N n)"

section \<open>Statements\<close>

definition ParseStmtBody :: "ASTStmt list parser \<Rightarrow> ASTStmt list parser" where
  "ParseStmtBody psl =
     thn (CHECK_AND_POP kLBRACE) (
     thn (CHECK_AND_POP kENDLINE) (
     bnd psl (\<lambda>list.
     thn (CHECK_AND_POP kRBRACE) (
     ret list))))"

definition ParseLet :: "ASTExpr option parser \<Rightarrow> ASTStmt list parser \<Rightarrow> ASTStmt parser" where
  "ParseLet pe psl =
     thn (CHECK_AND_POP kLET) (
     bnd (PopTok kID) (\<lambda>id.
     thn (CHECK_AND_POP kEQUAL) (
     bnd (checked pe) (\<lambda>value.
     bnd psl (\<lambda>body.
     ret (ASTLet (sval id) value body))))))"

text \<open>
  The raw text up to the closing bracket of an attribute, with its nested brackets. A text
  without it makes \<open>stat.code[stat.cur++]\<close> run over the end.
\<close>

fun attr_node :: "nat \<Rightarrow> string \<Rightarrow> string option" where
  "attr_node cnt [] = None"
| "attr_node cnt (c # cs) =
     (if c = CHR '']'' then
        (if cnt = 0 then Some [] else map_option ((#) c) (attr_node (cnt - 1) cs))
      else if c = CHR ''['' then map_option ((#) c) (attr_node (cnt + 1) cs)
      else map_option ((#) c) (attr_node cnt cs))"

definition ReadAttrNode :: "string parser" where
  "ReadAttrNode h =
     (case attr_node 0 (rest (stat h)) of
        Some node \<Rightarrow> Ok (node, h\<lparr>stat := (stat h)\<lparr>cur := cur (stat h) + length node + 1\<rparr>\<rparr>)
      | None \<Rightarrow> Err Out_of_bounds)"

definition ParseAttr :: "ASTExpr option parser \<Rightarrow> ASTStmt list parser \<Rightarrow> ASTStmt parser" where
  "ParseAttr pe psl =
     thn (CHECK_AND_POP kDOUBLESLASH) (
     thn (CHECK_AND_POP kATTR) (
     thn (CHECK_AND_POP kLSQB) (
     bnd ReadAttrNode (\<lambda>node.
     bnd (PopTok kID) (\<lambda>id.
     thn (CHECK_AND_POP kEQUAL) (
     bnd (checked pe) (\<lambda>value.
     bnd psl (\<lambda>body.
     ret (ASTAttr node (sval id) value body)))))))))"

definition ParseAssert :: "ASTExpr option parser \<Rightarrow> ASTStmt list parser \<Rightarrow> ASTStmt parser" where
  "ParseAssert pe psl =
     thn (CHECK_AND_POP kASSERT) (
     thn (CHECK_AND_POP kLPAR) (
     bnd (checked pe) (\<lambda>cond.
     bnd (checked pe) (\<lambda>msg.
     bnd psl (\<lambda>body.
     ret (ASTAssert cond msg body))))))"

primrec ParseExtents :: "nat \<Rightarrow> nat \<Rightarrow> ASTExpr list parser" where
  "ParseExtents N 0 = fail Out_of_fuel"
| "ParseExtents N (Suc n) =
     bnd FrontTok (\<lambda>f.
     if f = kSTAR then
       thn h_pop (
       bnd (ParseImmNum N) (\<lambda>extent.
       bnd (ParseExtents N n) (\<lambda>list.
       ret (extent # list))))
     else ret [])"

definition ParseAllocate :: "nat \<Rightarrow> ASTStmt list parser \<Rightarrow> ASTStmt parser" where
  "ParseAllocate N psl =
     thn (CHECK_AND_POP kALLOCATE) (
     bnd (PopTok kID) (\<lambda>id.
     thn (CHECK_AND_POP kLSQB) (
     bnd (PopTok kTYPE) (\<lambda>type.
     bnd (ParseExtents N N) (\<lambda>list.
     thn (CHECK_AND_POP kRSQB) (
     bnd psl (\<lambda>body.
     ret (ASTAllocate (sval id) (itype type) (bits type) list body))))))))"

definition ParseProduce :: "ASTStmt list parser \<Rightarrow> ASTStmt parser" where
  "ParseProduce psl =
     thn (CHECK_AND_POP kPRODUCE) (
     bnd (PopTok kID) (\<lambda>id.
     bnd (ParseStmtBody psl) (\<lambda>body.
     ret (ASTProduce (sval id) body))))"

definition ParseBound :: "nat \<Rightarrow> (ASTExpr \<times> ASTExpr) parser" where
  "ParseBound N =
     thn (CHECK_AND_POP kLSQB) (
     bnd (ParseImmNum N) (\<lambda>m.
     thn (CHECK_AND_POP kCOMMA) (
     bnd (ParseImmNum N) (\<lambda>e.
     thn (CHECK_AND_POP kRSQB) (
     ret (m, e))))))"

primrec ParseBoundTail :: "nat \<Rightarrow> nat \<Rightarrow> (ASTExpr \<times> ASTExpr) list parser" where
  "ParseBoundTail N 0 = fail Out_of_fuel"
| "ParseBoundTail N (Suc n) =
     bnd FrontTok (\<lambda>f.
     if f = kCOMMA then
       thn h_pop (
       bnd (ParseBound N) (\<lambda>b.
       bnd (ParseBoundTail N n) (\<lambda>list.
       ret (b # list))))
     else ret [])"

definition ParseRealize :: "nat \<Rightarrow> ASTStmt list parser \<Rightarrow> ASTStmt parser" where
  "ParseRealize N psl =
     thn (CHECK_AND_POP kREALIZE) (
     bnd (PopTok kID) (\<lambda>id.
     thn (CHECK_AND_POP kLESS) (
     bnd (PopTok kTYPE) (\<lambda>t.
     thn (CHECK_AND_POP kGREATER) (
     thn (CHECK_AND_POP kLPAR) (
     bnd (bnd FrontTok (\<lambda>f.
       if f \<noteq> kRPAR then
         bnd (ParseBound N) (\<lambda>b.
         bnd (ParseBoundTail N N) (\<lambda>list.
         ret (b # list)))
       else ret [])) (\<lambda>bounds.
     thn (CHECK_AND_POP kRPAR) (
     bnd (ParseStmtBody psl) (\<lambda>body.
     ret (ASTRealize (sval id) (itype t) (bits t) (map fst bounds) (map snd bounds) body))))))))))"

primrec ParseIf :: "nat \<Rightarrow> ASTExpr option parser \<Rightarrow> ASTStmt list parser \<Rightarrow> ASTStmt parser" where
  "ParseIf 0 pe psl = fail Out_of_fuel"
| "ParseIf (Suc n) pe psl =
     thn (CHECK_AND_POP kIF) (
     thn (CHECK_AND_POP kLPAR) (
     bnd (checked pe) (\<lambda>cond.
     thn (CHECK_AND_POP kRPAR) (
     bnd (ParseStmtBody psl) (\<lambda>then_case.
     bnd (bnd FrontTok (\<lambda>f.
       if f = kELSE then
         thn h_pop (
         bnd FrontTok (\<lambda>g.
         if g = kIF then bnd (ParseIf n pe psl) (\<lambda>e. ret [e])
         else ParseStmtBody psl))
       else ret [])) (\<lambda>else_case.
     ret (ASTIfThenElse cond then_case else_case)))))))"

definition ParseFor :: "ASTExpr option parser \<Rightarrow> ASTStmt list parser \<Rightarrow> ASTStmt parser" where
  "ParseFor pe psl =
     thn (CHECK_AND_POP kFOR) (
     thn (CHECK_AND_POP kLPAR) (
     bnd (PopTok kID) (\<lambda>id.
     thn (CHECK_AND_POP kCOMMA) (
     bnd (checked pe) (\<lambda>mn.
     thn (CHECK_AND_POP kCOMMA) (
     bnd (checked pe) (\<lambda>ext.
     thn (CHECK_AND_POP kRPAR) (
     bnd (ParseStmtBody psl) (\<lambda>body.
     ret (ASTFor (sval id) mn ext body))))))))))"

definition ParseStore :: "nat \<Rightarrow> ASTExpr option parser \<Rightarrow> ASTStmt parser" where
  "ParseStore N pe =
     bnd (PopTok kID) (\<lambda>id.
     thn (CHECK_AND_POP kLSQB) (
     bnd (checked pe) (\<lambda>index.
     thn (CHECK_AND_POP kRSQB) (
     thn (CHECK_AND_POP kEQUAL) (
     bnd (checked pe) (\<lambda>value.
     bnd (bnd FrontTok (\<lambda>f. if f = kIF then thn h_pop (ParseImmNum N) else ret (ASTIntImm 1 32))) (\<lambda>pred.
     ret (ASTStore (sval id) value index pred))))))))"

definition ParseProvide :: "nat \<Rightarrow> ASTExpr option parser \<Rightarrow> ASTStmt parser" where
  "ParseProvide N pe =
     bnd (PopTok kID) (\<lambda>id.
     thn (CHECK_AND_POP kLPAR) (
     bnd (ParseArgs N pe) (\<lambda>list.
     thn (CHECK_AND_POP kRPAR) (
     bnd LookNextTok (\<lambda>f.
     if f = kEQUAL then
       thn h_pop (
       bnd (checked pe) (\<lambda>value.
       ret (ASTProvide (sval id) value list)))
     else
       bnd ParseCallTail (\<lambda>(t, call_t).
       ret (ASTEvaluate (ASTCall (sval id) (itype t) (bits t) (tok call_t) list))))))))"

definition ParseStmt ::
    "nat \<Rightarrow> ASTExpr option parser \<Rightarrow> ASTStmt list parser \<Rightarrow> ASTStmt option parser" where
  "ParseStmt N pe psl =
     bnd FrontTok (\<lambda>front.
     if front = kLET then some (ParseLet pe psl)
     else if front = kDOUBLESLASH then some (ParseAttr pe psl)
     else if front = kASSERT then some (ParseAssert pe psl)
     else if front = kALLOCATE then some (ParseAllocate N psl)
     else if front = kPRODUCE then some (ParseProduce psl)
     else if front = kREALIZE then some (ParseRealize N psl)
     else if front = kIF then some (ParseIf N pe psl)
     else if front = kFOR then some (ParseFor pe psl)
     else
       bnd (if front = kID then bnd LookNextTok (\<lambda>t. ret (Some t)) else ret None) (\<lambda>tmp.
       if tmp = Some kLSQB then some (ParseStore N pe)
       else if tmp = Some kLPAR then some (ParseProvide N pe)
       else bnd pe (\<lambda>value. ret (map_option ASTEvaluate value))))"

text \<open>The loop over line ends at the start of a statement list and after each statement.\<close>

primrec skip_endlines :: "nat \<Rightarrow> unit parser" where
  "skip_endlines 0 = fail Out_of_fuel"
| "skip_endlines (Suc n) =
     bnd FrontTok (\<lambda>f. if f = kENDLINE then thn h_pop (skip_endlines n) else ret ())"

text \<open>The \<open>while (true)\<close> loop of \<open>ParseStmtList\<close>.\<close>

primrec StmtListLoop :: "nat \<Rightarrow> nat \<Rightarrow> ASTStmt option parser \<Rightarrow> ASTStmt list parser" where
  "StmtListLoop N 0 ps = fail Out_of_fuel"
| "StmtListLoop N (Suc n) ps =
     thn (skip_endlines N) (
     bnd ps (\<lambda>node.
     case node of
       Some s \<Rightarrow> bnd (StmtListLoop N n ps) (\<lambda>list. ret (s # list))
     | None \<Rightarrow> ret []))"

definition StmtListBody :: "nat \<Rightarrow> ASTStmt option parser \<Rightarrow> ASTStmt list parser" where
  "StmtListBody N ps =
     thn (skip_endlines N) (
     bnd (checked ps) (\<lambda>node.
     bnd (StmtListLoop N N ps) (\<lambda>list.
     ret (node # list))))"

primrec ParseStmtList :: "nat \<Rightarrow> nat \<Rightarrow> ASTStmt list parser" where
  "ParseStmtList N 0 = fail Out_of_fuel"
| "ParseStmtList N (Suc n) = StmtListBody N (ParseStmt N (ParseExpr N N) (ParseStmtList N n))"

primrec GenASTLoop :: "nat \<Rightarrow> ASTStmt option parser \<Rightarrow> ASTStmt list parser" where
  "GenASTLoop 0 ps = fail Out_of_fuel"
| "GenASTLoop (Suc n) ps =
     bnd FrontTok (\<lambda>f.
     if f = kEND then ret []
     else
       bnd FrontTok (\<lambda>g.
       if g = kENDLINE then thn h_pop (GenASTLoop n ps)
       else
         bnd (checked ps) (\<lambda>s.
         bnd (GenASTLoop n ps) (\<lambda>list.
         ret (s # list)))))"

text \<open>Two units of fuel per character of the text, and one more.\<close>

definition parse_fuel :: "TokState \<Rightarrow> nat" where
  "parse_fuel s = 2 * length (code s) + 1"

definition GenAST_fuel :: "nat \<Rightarrow> TokState \<Rightarrow> ASTStmt list res" where
  "GenAST_fuel N s =
     res_bind (GenASTLoop N (ParseStmt N (ParseExpr N N) (ParseStmtList N N)) \<lparr>stat = s, queue = []\<rparr>)
       (\<lambda>(list, h). Ok list)"

definition GenAST :: "TokState \<Rightarrow> ASTStmt list res" where
  "GenAST s = GenAST_fuel (parse_fuel s) s"

end
