(* ===== verification/Cxx_Int.thy ===== *)
theory Cxx_Int
  imports Akg_Prelude "HOL-Library.Signed_Division"
begin

text \<open>
  The integer types of the C++ sources on a 64-bit Linux. A \<open>size_t\<close> is a \<open>64 word\<close>, whose
  operations wrap; an \<open>int\<close> and an \<open>int64_t\<close> are integers whose operations stop at a value
  out of range, since overflow is undefined there; the conversions between them are written
  out where the sources convert. The last section is the integer square root, for the
  \<open>sqrt\<close> of the tiling code.
\<close>

section \<open>Signed integers\<close>

definition in_int :: "int \<Rightarrow> bool" where
  "in_int x \<longleftrightarrow> - (2 ^ 31) \<le> x \<and> x < 2 ^ 31"

definition in_int64 :: "int \<Rightarrow> bool" where
  "in_int64 x \<longleftrightarrow> - (2 ^ 63) \<le> x \<and> x < 2 ^ 63"

definition int_ret :: "int \<Rightarrow> int res" where
  "int_ret x = (if in_int x then Ok x else Err Signed_overflow)"

definition int64_ret :: "int \<Rightarrow> int res" where
  "int64_ret x = (if in_int64 x then Ok x else Err Signed_overflow)"

definition int_div :: "int \<Rightarrow> int \<Rightarrow> int res" where
  "int_div a b = (if b = 0 then Err Div_by_zero else int_ret (a sdiv b))"

definition int_mod :: "int \<Rightarrow> int \<Rightarrow> int res" where
  "int_mod a b = (if b = 0 then Err Div_by_zero
                  else res_bind (int_ret (a sdiv b)) (\<lambda>_. Ok (a smod b)))"

definition int64_div :: "int \<Rightarrow> int \<Rightarrow> int res" where
  "int64_div a b = (if b = 0 then Err Div_by_zero else int64_ret (a sdiv b))"

definition INT32_MAX :: int where
  "INT32_MAX = 2 ^ 31 - 1"

section \<open>Conversions\<close>

text \<open>\<open>static_cast<int>\<close> of a \<open>size_t\<close> and of an \<open>int64_t\<close> keep the low 32 bits (the behaviour
  of the compilers the project supports; the standard left it to them before C++20).\<close>

definition int_of_size :: "64 word \<Rightarrow> int" where
  "int_of_size w = signed_take_bit 31 (uint w)"

definition int_of_int64 :: "int \<Rightarrow> int" where
  "int_of_int64 x = signed_take_bit 31 x"

definition int64_of_size :: "64 word \<Rightarrow> int" where
  "int64_of_size w = sint w"

definition size_of_int :: "int \<Rightarrow> 64 word" where
  "size_of_int x = word_of_int x"

section \<open>Unsigned division\<close>

definition size_div :: "64 word \<Rightarrow> 64 word \<Rightarrow> 64 word res" where
  "size_div a b = (if b = 0 then Err Div_by_zero else Ok (a div b))"

definition size_mod :: "64 word \<Rightarrow> 64 word \<Rightarrow> 64 word res" where
  "size_mod a b = (if b = 0 then Err Div_by_zero else Ok (a mod b))"

lemma in_int_mono: "0 \<le> y \<Longrightarrow> y \<le> x \<Longrightarrow> in_int x \<Longrightarrow> in_int y"
  by (simp add: in_int_def)

lemma int_ret_Ok [simp]: "int_ret x = Ok y \<longleftrightarrow> in_int x \<and> y = x"
  by (auto simp: int_ret_def)

lemma int64_ret_Ok [simp]: "int64_ret x = Ok y \<longleftrightarrow> in_int64 x \<and> y = x"
  by (auto simp: int64_ret_def)

lemma sdiv_nonneg: "0 \<le> a \<Longrightarrow> 0 \<le> b \<Longrightarrow> a sdiv b = a div b" for a b :: int
  by (cases "a = 0"; cases "b = 0") (simp_all add: signed_divide_int_def sgn_if)

lemma smod_nonneg: "0 \<le> a \<Longrightarrow> 0 \<le> b \<Longrightarrow> a smod b = a mod b" for a b :: int
  by (simp add: signed_modulo_int_def signed_divide_int_def sgn_if minus_div_mult_eq_mod)

lemma div_le_self: "0 \<le> a \<Longrightarrow> 0 < b \<Longrightarrow> a div b \<le> a" for a b :: int
  using zdiv_mono2 [of a 1 b] by simp

lemma div_nonneg: "0 \<le> a \<Longrightarrow> 0 < b \<Longrightarrow> 0 \<le> a div b" for a b :: int
  by (simp add: pos_imp_zdiv_nonneg_iff)

lemma int_div_pos: "0 \<le> a \<Longrightarrow> in_int a \<Longrightarrow> 0 < b \<Longrightarrow> int_div a b = Ok (a div b)"
  using div_le_self [of a b] div_nonneg [of a b]
  by (simp add: int_div_def sdiv_nonneg in_int_def)

lemma int_mod_pos: "0 \<le> a \<Longrightarrow> in_int a \<Longrightarrow> 0 < b \<Longrightarrow> int_mod a b = Ok (a mod b)"
  using div_le_self [of a b] div_nonneg [of a b]
  by (simp add: int_mod_def int_ret_def sdiv_nonneg smod_nonneg in_int_def)

lemma int64_div_pos: "0 \<le> a \<Longrightarrow> in_int64 a \<Longrightarrow> 0 < b \<Longrightarrow> int64_div a b = Ok (a div b)"
  using div_le_self [of a b] div_nonneg [of a b]
  by (simp add: int64_div_def sdiv_nonneg in_int64_def)

lemma uint_size_of_int: "0 \<le> x \<Longrightarrow> x < 2 ^ 64 \<Longrightarrow> uint (size_of_int x) = x"
  by (simp add: size_of_int_def uint_word_of_int_eq take_bit_int_eq_self_iff)

lemma int_of_size_small: "uint w < 2 ^ 31 \<Longrightarrow> int_of_size w = uint w"
  by (simp add: int_of_size_def signed_take_bit_int_eq_self_iff order_trans [OF _ uint_ge_0])

lemma int64_of_size_small: "uint w < 2 ^ 63 \<Longrightarrow> int64_of_size w = uint w"
  by (simp add: int64_of_size_def sint_uint signed_take_bit_int_eq_self_iff order_trans [OF _ uint_ge_0])

lemma int_of_int64_small: "in_int x \<Longrightarrow> int_of_int64 x = x"
  by (simp add: int_of_int64_def in_int_def signed_take_bit_int_eq_self_iff)

section \<open>Square roots\<close>

text \<open>The integer part of the square root.\<close>

fun floor_sqrt :: "nat \<Rightarrow> nat" where
  "floor_sqrt n =
     (if n = 0 then 0
      else let r = 2 * floor_sqrt (n div 4) in if (r + 1) * (r + 1) \<le> n then r + 1 else r)"

declare floor_sqrt.simps [simp del]

lemma floor_sqrt_bounds: "floor_sqrt n * floor_sqrt n \<le> n \<and> n < (floor_sqrt n + 1) * (floor_sqrt n + 1)"
proof (induction n rule: floor_sqrt.induct)
  case (1 n)
  show ?case
  proof (cases "n = 0")
    case False
    define q where "q = floor_sqrt (n div 4)"
    from 1 [OF False] have "q * q \<le> n div 4" "n div 4 < (q + 1) * (q + 1)"
      by (simp_all add: q_def)
    then have "4 * (q * q) \<le> n" "n < 4 * ((q + 1) * (q + 1))" by linarith+
    then show ?thesis using False
      by (simp add: floor_sqrt.simps [of n] q_def [symmetric] Let_def algebra_simps)
  qed (simp add: floor_sqrt.simps)
qed

lemma floor_sqrt_le: "floor_sqrt n * floor_sqrt n \<le> n"
  using floor_sqrt_bounds by blast

lemma floor_sqrt_less: "n < (floor_sqrt n + 1) * (floor_sqrt n + 1)"
  using floor_sqrt_bounds by blast

lemma floor_sqrt_greatest: "k * k \<le> n \<Longrightarrow> k \<le> floor_sqrt n"
proof (rule ccontr)
  assume "k * k \<le> n" "\<not> k \<le> floor_sqrt n"
  then have "(floor_sqrt n + 1) * (floor_sqrt n + 1) \<le> k * k" by (intro mult_le_mono) simp_all
  with \<open>k * k \<le> n\<close> floor_sqrt_less [of n] show False by linarith
qed

lemma floor_sqrt_pos: "0 < n \<Longrightarrow> 0 < floor_sqrt n"
  using floor_sqrt_greatest [of 1 n] by simp

text \<open>
  \<open>std::sqrt\<close> computes the double next to the real root, so for an argument below \<open>2 ^ 52\<close> its
  integer part is the integer part of the root: between \<open>k * k - 1\<close> and \<open>k * k\<close> the roots
  differ by more than half a unit in the last place. Beyond that the model stops.
\<close>

definition trunc_sqrt :: "int \<Rightarrow> int res" where
  "trunc_sqrt x =
     (if x < 0 then Err Bad_cast
      else if x < 2 ^ 52 then Ok (int (floor_sqrt (nat x))) else Err Inexact)"

text \<open>\<open>static_cast<int>(std::round(std::sqrt(x)))\<close> of an \<open>int\<close>: the root lies above
  \<open>s + 1/2\<close> exactly when \<open>x\<close> exceeds \<open>s * s + s\<close>, and the gap to the half is wide enough for
  a double. The root of a negative number is a NaN, whose conversion is undefined.\<close>

definition round_sqrt :: "int \<Rightarrow> int res" where
  "round_sqrt x =
     (if x < 0 then Err Bad_cast
      else let s = int (floor_sqrt (nat x)) in Ok (if x - s * s > s then s + 1 else s))"

lemma round_sqrt_bounds:
  "0 < x \<Longrightarrow> \<exists>r. round_sqrt x = Ok r \<and> 1 \<le> r \<and> r * r - r + 1 \<le> x"
proof -
  assume x: "0 < x"
  define s where "s = int (floor_sqrt (nat x))"
  have "1 \<le> s" using floor_sqrt_pos [of "nat x"] x by (simp add: s_def)
  moreover have "s * s \<le> x"
    using floor_sqrt_le [of "nat x"] x by (simp add: s_def flip: of_nat_mult)
  ultimately show ?thesis using x
    by (auto simp: round_sqrt_def Let_def s_def [symmetric] algebra_simps)
qed

end
