(* ===== verification/Hermes_Tensor.thy ===== *)
theory Hermes_Tensor
  imports Cxx_Int
begin

text \<open>
  Tensors of the Hermes model, \<open>src/src/poly/tiling/hermes/tensor.h\<close> and \<open>tensor.cc\<close>: the data
  types with the maps between their names, their sizes in bytes and the TVM types, and the
  product of a shape in the \<open>int\<close> arithmetic of the source.
\<close>

datatype DataType =
    Float16 | Float32 | Float64 | Int8 | Int16 | Int32 | Int64
  | UInt8 | UInt16 | UInt32 | UInt64 | Bool1 | Bool8

record Tensor =
  t_shape :: "int list"
  t_datatype :: DataType
  t_format :: string
  t_name :: string

text \<open>The value \<open>std::make_shared<Tensor>()\<close> starts from.\<close>

definition new_tensor :: Tensor where
  "new_tensor = \<lparr>t_shape = [], t_datatype = Float16, t_format = [], t_name = []\<rparr>"

section \<open>The maps of the class\<close>

definition kOneBytePerVal :: int where "kOneBytePerVal = 1"
definition kTwoBytesPerVal :: int where "kTwoBytesPerVal = 2"
definition kFourBytesPerVal :: int where "kFourBytesPerVal = 4"
definition kEightBytesPerVal :: int where "kEightBytesPerVal = 8"

definition bytes_datatype_map :: "(int \<times> DataType) list" where
  "bytes_datatype_map = [(1, Int8), (2, Int16), (4, Int32), (8, Int64)]"

definition string_datatype_map :: "(string \<times> DataType) list" where
  "string_datatype_map =
    [(''float64'', Float64), (''float32'', Float32), (''float16'', Float16),
     (''int64'', Int64), (''int32'', Int32), (''int16'', Int16), (''int8'', Int8),
     (''uint64'', UInt64), (''uint32'', UInt32), (''uint16'', UInt16), (''uint8'', UInt8),
     (''bool'', Bool1), (''bool8'', Bool8)]"

definition datatype_coef_map :: "(DataType \<times> int) list" where
  "datatype_coef_map =
    [(Float64, kEightBytesPerVal), (Float32, kFourBytesPerVal), (Float16, kTwoBytesPerVal),
     (Int64, kEightBytesPerVal), (Int32, kFourBytesPerVal), (Int16, kTwoBytesPerVal),
     (Int8, kOneBytePerVal), (UInt64, kEightBytesPerVal), (UInt32, kFourBytesPerVal),
     (UInt16, kTwoBytesPerVal), (UInt8, kOneBytePerVal), (Bool1, kOneBytePerVal),
     (Bool8, kFourBytesPerVal)]"

definition datatype_string_map :: "(DataType \<times> string) list" where
  "datatype_string_map =
    [(Float16, ''float16''), (Float32, ''float32''), (Float64, ''float64''),
     (Int8, ''int8''), (Int16, ''int16''), (Int32, ''int32''), (Int64, ''int64''),
     (UInt8, ''uint8''), (UInt16, ''uint16''), (UInt32, ''uint32''), (UInt64, ''uint64''),
     (Bool1, ''bool''), (Bool8, ''bool8'')]"

text \<open>\<open>map.find(key)\<close> followed by \<open>LOG(FATAL)\<close> when it is \<open>end()\<close>.\<close>

definition find_or_fatal :: "('k \<times> 'v) list \<Rightarrow> 'k \<Rightarrow> 'v res" where
  "find_or_fatal m k = (case map_of m k of None \<Rightarrow> Err Fatal | Some v \<Rightarrow> Ok v)"

definition GetDataTypeCoef :: "Tensor \<Rightarrow> int res" where
  "GetDataTypeCoef t = find_or_fatal datatype_coef_map (t_datatype t)"

definition TensorToString :: "Tensor \<Rightarrow> string res" where
  "TensorToString t = find_or_fatal datatype_string_map (t_datatype t)"

definition DataTypeFromBytes :: "int \<Rightarrow> DataType res" where
  "DataTypeFromBytes bytes = find_or_fatal bytes_datatype_map bytes"

definition DataTypeFromString :: "string \<Rightarrow> DataType res" where
  "DataTypeFromString datatype = find_or_fatal string_datatype_map datatype"

definition make_tensor :: "int list \<Rightarrow> DataType \<Rightarrow> string \<Rightarrow> Tensor" where
  "make_tensor shape datatype format =
     \<lparr>t_shape = shape, t_datatype = datatype, t_format = format, t_name = []\<rparr>"

definition make_tensor_of_string :: "int list \<Rightarrow> string \<Rightarrow> string \<Rightarrow> Tensor res" where
  "make_tensor_of_string shape datatype format =
     res_bind (DataTypeFromString datatype) (\<lambda>d. Ok (make_tensor shape d format))"

section \<open>Shapes\<close>

fun shape_product :: "int \<Rightarrow> int list \<Rightarrow> int res" where
  "shape_product product [] = Ok product"
| "shape_product product (x # xs) =
     res_bind (int_ret (product * x)) (\<lambda>product. shape_product product xs)"

definition GetShapeProduct :: "Tensor \<Rightarrow> int res" where
  "GetShapeProduct t = shape_product 1 (t_shape t)"

definition IsScalar :: "Tensor \<Rightarrow> bool" where
  "IsScalar t \<longleftrightarrow> length (t_shape t) = 1 \<and> t_shape t ! 0 = 1"

section \<open>TVM types\<close>

text \<open>\<open>air::Type\<close> (\<open>tvm/dtype.h\<close>): the code is one byte, with \<open>kDLInt\<close>, \<open>kDLUInt\<close> and
  \<open>kDLFloat\<close> its values 0, 1 and 2; the number of bits is one byte too.\<close>

record TvmType =
  ty_code :: "8 word"
  ty_bits :: "8 word"
  ty_lanes :: "16 word"

definition is_int :: "TvmType \<Rightarrow> bool" where
  "is_int ty \<longleftrightarrow> ty_code ty = 0"

definition is_uint :: "TvmType \<Rightarrow> bool" where
  "is_uint ty \<longleftrightarrow> ty_code ty = 1"

definition is_float :: "TvmType \<Rightarrow> bool" where
  "is_float ty \<longleftrightarrow> ty_code ty = 2"

definition is_bool :: "TvmType \<Rightarrow> bool" where
  "is_bool ty \<longleftrightarrow> ty_code ty = 1 \<and> ty_bits ty = 1"

definition is_float16 :: "TvmType \<Rightarrow> bool" where
  "is_float16 ty \<longleftrightarrow> is_float ty \<and> ty_bits ty = 16"

definition GetDataTypeFromTVM :: "TvmType \<Rightarrow> DataType res" where
  "GetDataTypeFromTVM ty =
    (if is_float16 ty then Ok Float16
     else if is_float ty \<and> ty_bits ty = 32 then Ok Float32
     else if is_float ty \<and> ty_bits ty = 64 then Ok Float64
     else if is_int ty \<and> ty_bits ty = 8 then Ok Int8
     else if is_int ty \<and> ty_bits ty = 16 then Ok Int16
     else if is_int ty \<and> ty_bits ty = 32 then Ok Int32
     else if is_int ty \<and> ty_bits ty = 64 then Ok Int64
     else if is_uint ty \<and> ty_bits ty = 8 then Ok UInt8
     else if is_uint ty \<and> ty_bits ty = 16 then Ok UInt16
     else if is_uint ty \<and> ty_bits ty = 32 then Ok UInt32
     else if is_uint ty \<and> ty_bits ty = 64 then Ok UInt64
     else if is_bool ty \<and> ty_bits ty = 1 then Ok Bool8
     else if is_bool ty \<and> ty_bits ty = 8 then Ok Bool8
     else Err Fatal)"

section \<open>Lemmas\<close>

definition coef :: "DataType \<Rightarrow> int" where
  "coef d = the (map_of datatype_coef_map d)"

lemmas coef_map_simps = datatype_coef_map_def kOneBytePerVal_def kTwoBytesPerVal_def
  kFourBytesPerVal_def kEightBytesPerVal_def

lemma GetDataTypeCoef_coef: "GetDataTypeCoef t = Ok (coef (t_datatype t))"
  by (cases "t_datatype t") (simp_all add: GetDataTypeCoef_def find_or_fatal_def coef_def coef_map_simps)

lemma coef_cases: "coef d \<in> {1, 2, 4, 8}"
  by (cases d) (simp_all add: coef_def coef_map_simps)

lemma shape_product_Ok: "shape_product p xs = Ok q \<Longrightarrow> q = p * prod_list xs"
  by (induction xs arbitrary: p) (fastforce simp: res_bind_Ok_conv mult.assoc [symmetric])+

end
