(* ===== verification/Tvm_Ir.thy ===== *)
theory Tvm_Ir
  imports Hermes_Tensor Cxx_Float
begin

text \<open>
  The statements and expressions the passes of AKG rewrite: the nodes of TVM
  (\<open>third_party/incubator-tvm/include/tvm/expr.h\<close> and \<open>ir.h\<close>) as trees, and the default
  traversal of \<open>IRMutator\<close> (\<open>src/pass/ir_mutator.cc\<close> there), which rebuilds a node from its
  rewritten children. Variables and functions are objects, told apart by a number; two of them
  may have the same name. Then the type of an expression and the checks of the constructors
  (\<open>src/lang/ir.cc\<close> there). The vector nodes (\<open>Ramp\<close>, \<open>Broadcast\<close>, \<open>Shuffle\<close>) and \<open>Reduce\<close>, which
  later stages introduce and earlier ones remove, are left out, and so are the device of a loop
  and the function that frees an allocation, which no modelled part reads.
\<close>

section \<open>Nodes\<close>

text \<open>The last field of a function is the element type of a placeholder, of which AKG makes the
  tensors it reads and writes; other operations have none.\<close>

datatype Var = Var (var_id: nat) (name_hint: string) (var_type: TvmType)

datatype Func = Func (func_id: nat) (func_name: string) (func_dtype: "TvmType option")

datatype BinOp =
    B_Add | B_Sub | B_Mul | B_Div | B_Mod | B_FloorDiv | B_FloorMod | B_Min | B_Max
  | B_EQ | B_NE | B_LT | B_LE | B_GT | B_GE | B_And | B_Or

datatype CallType = CT_Extern | CT_ExternCPlusPlus | CT_PureExtern | CT_Halide | CT_Intrinsic | CT_PureIntrinsic

datatype ForType = FT_Serial | FT_Parallel | FT_Vectorized | FT_Unrolled | FT_Swizzled | FT_Invariant | FT_Reduce

datatype Expr =
    Variable Var
  | IntImm TvmType int
  | UIntImm TvmType "64 word"
  | FloatImm TvmType f64
  | StringImm string
  | Cast TvmType Expr
  | Binary BinOp Expr Expr
  | NotE Expr
  | Select Expr Expr Expr
  | LoadE TvmType Var Expr Expr
  | LetE Var Expr Expr
  | CallE TvmType CallType string "Expr list" Func nat

text \<open>The node an attribute hangs on; any other object is told apart by a number.\<close>

datatype AttrNode = Node_Func Func | Node_Var Var | Node_Expr Expr | Node_Other nat

datatype Stmt =
    LetStmt Var Expr Stmt
  | AttrStmt AttrNode string Expr Stmt
  | AssertStmt Expr Expr Stmt
  | ProducerConsumer Func bool Stmt
  | For Var Expr Expr ForType Stmt
  | Store Var Expr Expr Expr
  | Provide Func nat Expr "Expr list"
  | Allocate Var TvmType "Expr list" Expr Stmt "Expr option"
  | FreeStmt Var
  | Realize Func nat TvmType "(Expr \<times> Expr) list" Expr Stmt
  | Prefetch Func nat TvmType "(Expr \<times> Expr) list"
  | Block Stmt Stmt
  | IfThenElse Expr Stmt "Stmt option"
  | Evaluate Expr

section \<open>Types\<close>

text \<open>\<open>Int\<close>, \<open>UInt\<close>, \<open>Float\<close>, \<open>Bool\<close> and \<open>Handle\<close> of \<open>tvm/dtype.h\<close>; a number of bits is cut to a byte.\<close>

definition make_type :: "8 word \<Rightarrow> 32 word \<Rightarrow> 16 word \<Rightarrow> TvmType" where
  "make_type code bits lanes = \<lparr>ty_code = code, ty_bits = ucast bits, ty_lanes = lanes\<rparr>"

definition Int_type :: "32 word \<Rightarrow> TvmType" where
  "Int_type bits = make_type 0 bits 1"

definition UInt_type :: "32 word \<Rightarrow> TvmType" where
  "UInt_type bits = make_type 1 bits 1"

definition Float_type :: "32 word \<Rightarrow> TvmType" where
  "Float_type bits = make_type 2 bits 1"

definition Handle_type :: TvmType where
  "Handle_type = make_type 3 64 1"

definition Bool_type :: "16 word \<Rightarrow> TvmType" where
  "Bool_type lanes = make_type 1 1 lanes"

definition is_scalar :: "TvmType \<Rightarrow> bool" where
  "is_scalar ty \<longleftrightarrow> ty_lanes ty = 1"

definition is_comparison :: "BinOp \<Rightarrow> bool" where
  "is_comparison p \<longleftrightarrow> p \<in> {B_EQ, B_NE, B_LT, B_LE, B_GT, B_GE}"

definition is_logical :: "BinOp \<Rightarrow> bool" where
  "is_logical p \<longleftrightarrow> p = B_And \<or> p = B_Or"

fun type_of :: "Expr \<Rightarrow> TvmType" where
  "type_of (Variable v) = var_type v"
| "type_of (IntImm ty i) = ty"
| "type_of (UIntImm ty u) = ty"
| "type_of (FloatImm ty u) = ty"
| "type_of (StringImm s) = Handle_type"
| "type_of (Cast ty e) = ty"
| "type_of (Binary p a b) =
     (if is_comparison p then Bool_type (ty_lanes (type_of a))
      else if is_logical p then (if is_bool (type_of a) then Bool_type (ty_lanes (type_of a)) else Int_type 32)
      else type_of a)"
| "type_of (NotE a) = Bool_type (ty_lanes (type_of a))"
| "type_of (Select c t e) = type_of t"
| "type_of (LoadE ty v i p) = ty"
| "type_of (LetE v e b) = type_of b"
| "type_of (CallE ty ct n args fn i) = ty"

section \<open>The checks of the constructors\<close>

definition same_or_mixed :: "TvmType \<Rightarrow> TvmType \<Rightarrow> bool" where
  "same_or_mixed a b \<longleftrightarrow>
     a = b \<or> a = Int_type 64 \<and> b = Int_type 32 \<or> a = Int_type 32 \<and> b = Int_type 64"

definition bool_or_int :: "TvmType \<Rightarrow> bool" where
  "bool_or_int ty \<longleftrightarrow> is_bool ty \<or> is_int ty"

definition binary_ok :: "BinOp \<Rightarrow> TvmType \<Rightarrow> TvmType \<Rightarrow> bool" where
  "binary_ok p a b \<longleftrightarrow>
     (if is_logical p then bool_or_int a \<and> bool_or_int b \<and> a = b else same_or_mixed a b)"

text \<open>\<open>expr_ok e\<close> and \<open>stmt_ok s\<close>: what \<open>make\<close> checks of the fields of the node at the root.\<close>

fun expr_ok :: "Expr \<Rightarrow> bool" where
  "expr_ok (IntImm ty i) \<longleftrightarrow> is_int ty \<and> is_scalar ty"
| "expr_ok (UIntImm ty u) \<longleftrightarrow> is_uint ty \<and> is_scalar ty"
| "expr_ok (FloatImm ty u) = is_scalar ty"
| "expr_ok (Cast ty e) \<longleftrightarrow> ty_lanes ty = ty_lanes (type_of e)"
| "expr_ok (Binary p a b) = binary_ok p (type_of a) (type_of b)"
| "expr_ok (NotE a) = is_bool (type_of a)"
| "expr_ok (Select c t e) \<longleftrightarrow> is_bool (type_of c) \<and> ty_lanes (type_of c) = ty_lanes (type_of t) \<and> type_of e = type_of t"
| "expr_ok (LoadE ty v i p) \<longleftrightarrow> ty_lanes ty = ty_lanes (type_of i) \<and> ty_lanes ty = ty_lanes (type_of p)"
| "expr_ok (LetE v e b) \<longleftrightarrow> type_of e = var_type v"
| "expr_ok (CallE ty ct n args fn i) \<longleftrightarrow> (ct = CT_Halide \<longrightarrow> list_all (\<lambda>a. is_int (type_of a)) args)"
| "expr_ok e = True"

definition is_string_imm :: "Expr \<Rightarrow> bool" where
  "is_string_imm e \<longleftrightarrow> (case e of StringImm s \<Rightarrow> True | _ \<Rightarrow> False)"

text \<open>\<open>Provide\<close> also checks that the function has the output; every operation has the output 0.\<close>

fun stmt_ok :: "Stmt \<Rightarrow> bool" where
  "stmt_ok (LetStmt v e b) \<longleftrightarrow> type_of e = var_type v"
| "stmt_ok (AssertStmt c m b) \<longleftrightarrow> type_of m = Int_type 32 \<or> is_string_imm m"
| "stmt_ok (For v m x t b) \<longleftrightarrow> is_scalar (type_of m) \<and> is_scalar (type_of x) \<and> is_scalar (var_type v)"
| "stmt_ok (Store v e i p) \<longleftrightarrow>
     ty_lanes (type_of e) = ty_lanes (type_of i) \<and> ty_lanes (type_of e) = ty_lanes (type_of p)"
| "stmt_ok (Allocate v t xs c b n) \<longleftrightarrow> list_all (\<lambda>x. is_scalar (type_of x)) xs \<and> is_bool (type_of c)"
| "stmt_ok (Realize fn i ty bs c b) \<longleftrightarrow>
     list_all (\<lambda>(m, x). is_scalar (type_of m) \<and> is_scalar (type_of x)) bs \<and> is_bool (type_of c)"
| "stmt_ok (Prefetch fn i ty bs) = list_all (\<lambda>(m, x). is_scalar (type_of m) \<and> is_scalar (type_of x)) bs"
| "stmt_ok s = True"

definition make_expr :: "Expr \<Rightarrow> Expr res" where
  "make_expr e = (if expr_ok e then Ok e else Err Fatal)"

definition make_stmt :: "Stmt \<Rightarrow> Stmt res" where
  "make_stmt s = (if stmt_ok s then Ok s else Err Fatal)"

text \<open>\<open>Block::make\<close> rotates a block in front to the right.\<close>

fun make_block :: "Stmt \<Rightarrow> Stmt \<Rightarrow> Stmt" where
  "make_block (Block a b) c = Block a (make_block b c)"
| "make_block a c = Block a c"

lemma make_block_assoc: "make_block (make_block a b) c = make_block a (make_block b c)"
  by (induction a b rule: make_block.induct) auto

fun make_blocks :: "Stmt list \<Rightarrow> Stmt option" where
  "make_blocks [] = None"
| "make_blocks [s] = Some s"
| "make_blocks (s # ss) = map_option (make_block s) (make_blocks ss)"

lemma make_blocks_None [simp]: "make_blocks ss = None \<longleftrightarrow> ss = []"
  by (induction ss rule: make_blocks.induct) auto

section \<open>The default traversal\<close>

text \<open>\<open>emap f e\<close> and \<open>smap fe fs s\<close>: the node with its children rewritten. A node whose children are
  the same objects is returned as it is; since \<open>make\<close> has built it, that is the node built again.\<close>

fun emap :: "(Expr \<Rightarrow> Expr) \<Rightarrow> Expr \<Rightarrow> Expr" where
  "emap f (Cast t e) = Cast t (f e)"
| "emap f (Binary p a b) = Binary p (f a) (f b)"
| "emap f (NotE a) = NotE (f a)"
| "emap f (Select c t e) = Select (f c) (f t) (f e)"
| "emap f (LoadE ty v i p) = LoadE ty v (f i) (f p)"
| "emap f (LetE v e b) = LetE v (f e) (f b)"
| "emap f (CallE ty ct n args fn i) = CallE ty ct n (map f args) fn i"
| "emap f e = e"

fun smap :: "(Expr \<Rightarrow> Expr) \<Rightarrow> (Stmt \<Rightarrow> Stmt) \<Rightarrow> Stmt \<Rightarrow> Stmt" where
  "smap fe fs (LetStmt v e b) = LetStmt v (fe e) (fs b)"
| "smap fe fs (AttrStmt n k e b) = AttrStmt n k (fe e) (fs b)"
| "smap fe fs (AssertStmt c m b) = AssertStmt (fe c) (fe m) (fs b)"
| "smap fe fs (ProducerConsumer fn p b) = ProducerConsumer fn p (fs b)"
| "smap fe fs (For v m x t b) = For v (fe m) (fe x) t (fs b)"
| "smap fe fs (Store v e i p) = Store v (fe e) (fe i) (fe p)"
| "smap fe fs (Provide fn i e args) = Provide fn i (fe e) (map fe args)"
| "smap fe fs (Allocate v t xs c b n) = Allocate v t (map fe xs) (fe c) (fs b) (map_option fe n)"
| "smap fe fs (FreeStmt v) = FreeStmt v"
| "smap fe fs (Realize fn i ty bs c b) = Realize fn i ty (map (map_prod fe fe) bs) (fe c) (fs b)"
| "smap fe fs (Prefetch fn i ty bs) = Prefetch fn i ty (map (map_prod fe fe) bs)"
| "smap fe fs (Block a b) = make_block (fs a) (fs b)"
| "smap fe fs (IfThenElse c t e) = IfThenElse (fe c) (fs t) (map_option fs e)"
| "smap fe fs (Evaluate e) = Evaluate (fe e)"

fun children :: "Expr \<Rightarrow> Expr list" where
  "children (Cast t e) = [e]"
| "children (Binary p a b) = [a, b]"
| "children (NotE a) = [a]"
| "children (Select c t e) = [c, t, e]"
| "children (LoadE ty v i p) = [i, p]"
| "children (LetE v e b) = [e, b]"
| "children (CallE ty ct n args fn i) = args"
| "children e = []"

fun substmts :: "Stmt \<Rightarrow> Stmt list" where
  "substmts (LetStmt v e b) = [b]"
| "substmts (AttrStmt n k e b) = [b]"
| "substmts (AssertStmt c m b) = [b]"
| "substmts (ProducerConsumer fn p b) = [b]"
| "substmts (For v m x t b) = [b]"
| "substmts (Allocate v t xs c b n) = [b]"
| "substmts (Realize fn i ty bs c b) = [b]"
| "substmts (Block a b) = [a, b]"
| "substmts (IfThenElse c t e) = t # (case e of Some s \<Rightarrow> [s] | None \<Rightarrow> [])"
| "substmts s = []"

lemma less_Suc_size_list [simp]: "c \<in> set es \<Longrightarrow> size c < Suc (size_list size es)" for c :: Expr
  by (induction es) auto

lemma child_size [simp, termination_simp]: "c \<in> set (children e) \<Longrightarrow> size c < size e"
  by (cases e) (auto dest: size_list_estimation' [of _ _ _ size, OF _ order_refl])

lemma substmt_size [simp, termination_simp]: "t \<in> set (substmts s) \<Longrightarrow> size t < size s"
  by (cases s) (auto split: option.splits)

lemma emap_cong [fundef_cong]:
  "e = e' \<Longrightarrow> (\<And>c. c \<in> set (children e') \<Longrightarrow> f c = g c) \<Longrightarrow> emap f e = emap g e'"
  by (cases e') auto

lemma smap_cong [fundef_cong]:
  "s = s' \<Longrightarrow> (\<And>e. fe e = ge e) \<Longrightarrow> (\<And>t. t \<in> set (substmts s') \<Longrightarrow> fs t = gs t) \<Longrightarrow>
     smap fe fs s = smap ge gs s'"
  by (cases s') (auto simp: map_prod_def split: option.splits prod.splits intro!: option.map_cong)

text \<open>The variables that occur in an expression, bound or not.\<close>

fun uses_var :: "Var \<Rightarrow> Expr \<Rightarrow> bool" where
  "uses_var v (Variable w) = (w = v)"
| "uses_var v (IntImm ty i) = False"
| "uses_var v (UIntImm ty i) = False"
| "uses_var v (FloatImm ty i) = False"
| "uses_var v (StringImm i) = False"
| "uses_var v (Cast t e) = uses_var v e"
| "uses_var v (Binary p a b) = (uses_var v a \<or> uses_var v b)"
| "uses_var v (NotE a) = uses_var v a"
| "uses_var v (Select c t e) = (uses_var v c \<or> uses_var v t \<or> uses_var v e)"
| "uses_var v (LoadE ty w i p) = (w = v \<or> uses_var v i \<or> uses_var v p)"
| "uses_var v (LetE w e b) = (w = v \<or> uses_var v e \<or> uses_var v b)"
| "uses_var v (CallE ty ct n args fn i) = list_ex (uses_var v) args"

end
