(* ===== verification/Halide_Codegen.thy ===== *)
theory Halide_Codegen
  imports Halide_Grammar Tvm_Ir
begin

text \<open>
  The generator of TVM statements from the syntax tree (\<open>src/contrib/parser/codegen.cc\<close>) and the
  two entry points of \<open>parser.cc\<close>. The visitor leaves its result in its members \<open>stmt\<close> and
  \<open>expr\<close>, which are the results here. Visiting an expression does not change the two tables of
  names, visiting a statement may. Every node is built by \<open>make\<close>, whose checks are
  \<open>expr_ok\<close> and \<open>stmt_ok\<close>. New variables and functions are told apart by a counter. The axis of
  the cube unit, \<open>GetCceAxis\<close>, is not defined in the sources: it is the object \<open>cce_axis\<close>.
\<close>

section \<open>The tables of names\<close>

text \<open>The lists are stacks whose top is the back of the list.\<close>

record CodeGen =
  normal_var :: "string \<Rightarrow> Var list option"
  buffer_collector :: "string \<Rightarrow> (Func \<times> Var) list option"
  next_id :: nat

definition list_of :: "'a list option \<Rightarrow> 'a list" where
  "list_of x = (case x of Some xs \<Rightarrow> xs | None \<Rightarrow> [])"

definition pop_list :: "'a list \<Rightarrow> 'a list option" where
  "pop_list xs = (if butlast xs = [] then None else Some (butlast xs))"

definition PushVar :: "string \<Rightarrow> TvmType \<Rightarrow> CodeGen \<Rightarrow> Var \<times> CodeGen" where
  "PushVar s ty g =
     (let v = Var (next_id g) s ty in
      (v, g\<lparr>normal_var := (normal_var g)(s := Some (list_of (normal_var g s) @ [v])), next_id := next_id g + 1\<rparr>))"

definition PopVar :: "string \<Rightarrow> CodeGen \<Rightarrow> CodeGen res" where
  "PopVar s g =
     (case normal_var g s of
        None \<Rightarrow> Err Fatal
      | Some l \<Rightarrow>
          if l = [] then Err Empty_container
          else Ok (g\<lparr>normal_var := (normal_var g)(s := pop_list l)\<rparr>))"

definition GetVar :: "string \<Rightarrow> CodeGen \<Rightarrow> Var res" where
  "GetVar s g =
     (case normal_var g s of
        None \<Rightarrow> Err Fatal
      | Some l \<Rightarrow> if l = [] then Err Fatal else Ok (last l))"

definition PushBuffer :: "string \<Rightarrow> Func \<Rightarrow> Var \<Rightarrow> CodeGen \<Rightarrow> CodeGen" where
  "PushBuffer s f v g =
     g\<lparr>buffer_collector := (buffer_collector g)(s := Some (list_of (buffer_collector g s) @ [(f, v)]))\<rparr>"

definition PopBuffer :: "string \<Rightarrow> CodeGen \<Rightarrow> CodeGen res" where
  "PopBuffer s g =
     (case buffer_collector g s of
        None \<Rightarrow> Err Fatal
      | Some l \<Rightarrow>
          if l = [] then Err Empty_container
          else Ok (g\<lparr>buffer_collector := (buffer_collector g)(s := pop_list l)\<rparr>))"

definition GetBuffer :: "string \<Rightarrow> CodeGen \<Rightarrow> (Func \<times> Var) res" where
  "GetBuffer s g = (case buffer_collector g s of None \<Rightarrow> Err Fatal | Some l \<Rightarrow> vec_back l)"

text \<open>\<open>PlaceholderOpNode::make\<close> and \<open>Var(name, type)\<close>: a new object with each call.\<close>

definition new_buffer :: "string \<Rightarrow> TvmType \<Rightarrow> TvmType \<Rightarrow> CodeGen \<Rightarrow> (Func \<times> Var) \<times> CodeGen" where
  "new_buffer s dtype var_ty g =
     ((Func (next_id g) s (Some dtype), Var (next_id g) s var_ty), g\<lparr>next_id := next_id g + 1\<rparr>)"

section \<open>Types and operators\<close>

fun GenType :: "ImmType \<Rightarrow> 32 word \<Rightarrow> TvmType res" where
  "GenType kINT b = Ok (Int_type b)"
| "GenType kUINT b = Ok (UInt_type b)"
| "GenType kFLOAT b = Ok (Float_type b)"
| "GenType kHANDLE b = Ok Handle_type"
| "GenType kHEX b = Err Fatal"

definition call_types :: "(Token \<times> CallType) list" where
  "call_types =
     [(kEXTERN, CT_Extern), (kEXTERNCPP, CT_ExternCPlusPlus), (kPUREEXTERN, CT_PureExtern),
      (kHALIDE, CT_Halide), (kINTRINSIC, CT_Intrinsic), (kPUREINTRIN, CT_PureIntrinsic)]"

definition GetCallType :: "Token \<Rightarrow> CallType res" where
  "GetCallType t = (case map_of call_types t of Some ct \<Rightarrow> Ok ct | None \<Rightarrow> Err Fatal)"

definition bin_ops :: "(Token \<times> BinOp) list" where
  "bin_ops =
     [(kMAX, B_Max), (kMIN, B_Min), (kPLUS, B_Add), (kMINUS, B_Sub), (kSTAR, B_Mul), (kSLASH, B_Div),
      (kPERCENT, B_Mod), (kLESS, B_LT), (kGREATER, B_GT), (kEQEQUAL, B_EQ), (kNOTEQUAL, B_NE),
      (kAND, B_And), (kOR, B_Or), (kGREATEREQUAL, B_GE), (kLESSEQUAL, B_LE)]"

definition const_true :: Expr where
  "const_true = UIntImm (Bool_type 1) 1"

text \<open>The function of a call that is not to a tensor is null.\<close>

definition null_func :: Func where
  "null_func = Func 0 '''' None"

section \<open>Expressions\<close>

fun gen_expr :: "CodeGen \<Rightarrow> ASTExpr \<Rightarrow> Expr res"
  and gen_args :: "CodeGen \<Rightarrow> ASTExpr list \<Rightarrow> Expr list res" where
  "gen_expr g (ASTIntImm v b) = make_expr (IntImm (Int_type b) (sint v))"
| "gen_expr g (ASTUIntImm v b) = make_expr (UIntImm (UInt_type b) v)"
| "gen_expr g (ASTFloatImm v b) = make_expr (FloatImm (Float_type b) v)"
| "gen_expr g (ASTStringImm s) = Ok (StringImm s)"
| "gen_expr g (ASTCast t b e) =
     res_bind (GenType t b) (\<lambda>ty. res_bind (gen_expr g e) (\<lambda>e. make_expr (Cast ty e)))"
| "gen_expr g (ASTNot a) = res_bind (gen_expr g a) (\<lambda>a. make_expr (NotE a))"
| "gen_expr g (ASTBinaryOp op a b) =
     res_bind (gen_expr g a) (\<lambda>a. res_bind (gen_expr g b) (\<lambda>b.
       (case map_of bin_ops op of Some p \<Rightarrow> make_expr (Binary p a b) | None \<Rightarrow> Err Fatal)))"
| "gen_expr g (ASTSelect c t e) =
     res_bind (gen_expr g c) (\<lambda>c. res_bind (gen_expr g t) (\<lambda>t. res_bind (gen_expr g e) (\<lambda>e.
       make_expr (Select c t e))))"
| "gen_expr g (ASTLoad s i p) =
     res_bind (gen_expr g i) (\<lambda>i. res_bind (gen_expr g p) (\<lambda>p. res_bind (GetBuffer s g) (\<lambda>(f, v).
       (case func_dtype f of Some ty \<Rightarrow> make_expr (LoadE ty v i p) | None \<Rightarrow> Err Fatal))))"
| "gen_expr g (ASTLetExpr v e b) = Err Fatal"
| "gen_expr g (ASTCall n t b ct args) =
     res_bind (gen_args g args) (\<lambda>args.
       if ct = kHALIDE then
         res_bind (GetBuffer n g) (\<lambda>(f, v).
           (case func_dtype f of
              Some ty \<Rightarrow> res_bind (GetCallType ct) (\<lambda>ct. make_expr (CallE ty ct n args f 0))
            | None \<Rightarrow> Err Fatal))
       else
         res_bind (GenType t b) (\<lambda>ty. res_bind (GetCallType ct) (\<lambda>ct.
           make_expr (CallE ty ct n args null_func 0))))"
| "gen_expr g (ASTVariable s) =
     (if normal_var g s \<noteq> None then res_bind (GetVar s g) (\<lambda>v. Ok (Variable v))
      else res_bind (GetBuffer s g) (\<lambda>(f, v). Ok (Variable v)))"
| "gen_args g [] = Ok []"
| "gen_args g (e # es) = res_bind (gen_expr g e) (\<lambda>e. res_bind (gen_args g es) (\<lambda>es. Ok (e # es)))"

fun gen_bounds :: "CodeGen \<Rightarrow> ASTExpr list \<Rightarrow> ASTExpr list \<Rightarrow> (Expr \<times> Expr) list res" where
  "gen_bounds g (m # ms) (x # xs) =
     res_bind (gen_expr g m) (\<lambda>m. res_bind (gen_expr g x) (\<lambda>x.
       res_bind (gen_bounds g ms xs) (\<lambda>bs. Ok ((m, x) # bs))))"
| "gen_bounds g ms xs = Ok []"

section \<open>Statements\<close>

text \<open>What an attribute hangs on: the placeholder named in its text, the text itself, or nothing if
  the attribute is dropped.\<close>

definition omitPragma :: "string list" where
  "omitPragma = [''buffer_bind_scope'', ''extern_scope'']"

definition realize_node :: "string \<Rightarrow> CodeGen \<Rightarrow> (AttrNode option \<times> CodeGen) res" where
  "realize_node node g =
     res_bind (GetTokStateFromCode node) (\<lambda>stat. res_bind (GetNextToken stat) (\<lambda>stat.
       res_bind (CHECK (tok stat = kID)) (\<lambda>_.
         if sval stat = ''placeholder'' then
           res_bind (GetNextToken stat) (\<lambda>stat. res_bind (CHECK (tok stat = kLPAR)) (\<lambda>_.
           res_bind (GetNextToken stat) (\<lambda>stat. res_bind (CHECK (tok stat = kID)) (\<lambda>_.
           res_bind (GetBuffer (sval stat) g) (\<lambda>(f, v). res_bind (CHECK (func_dtype f \<noteq> None)) (\<lambda>_.
           res_bind (PopBuffer (sval stat) g) (\<lambda>g. Ok (Some (Node_Func f), g))))))))
         else if sval stat = ''compute'' then Ok (Some (Node_Expr (StringImm node)), g)
         else if sval stat = ''hybrid'' then Ok (None, g)
         else Err Fatal)))"

definition attr_ref :: "AttrNode \<Rightarrow> string \<Rightarrow> string \<Rightarrow> CodeGen \<Rightarrow> (AttrNode option \<times> CodeGen) res" where
  "attr_ref cce_axis node key g =
     (if key = ''realize_scope'' then realize_node node g
      else if key = ''storage_scope'' then
        res_bind (GetBuffer node g) (\<lambda>(f, v). res_bind (PopBuffer node g) (\<lambda>g. Ok (Some (Node_Var v), g)))
      else if key = ''coproc_scope'' then Ok (Some cce_axis, g)
      else if key = ''isolate_range'' then
        res_bind (CHECK (node = ''0'')) (\<lambda>_. Ok (Some (Node_Expr (IntImm (Int_type 32) 0)), g))
      else if key \<in> set omitPragma then Ok (None, g)
      else Err Fatal)"

fun gen_stmt :: "AttrNode \<Rightarrow> CodeGen \<Rightarrow> ASTStmt \<Rightarrow> (Stmt \<times> CodeGen) res"
  and gen_stmts :: "AttrNode \<Rightarrow> CodeGen \<Rightarrow> ASTStmt list \<Rightarrow> (Stmt list \<times> CodeGen) res"
  and MakeBlock :: "AttrNode \<Rightarrow> CodeGen \<Rightarrow> ASTStmt list \<Rightarrow> (Stmt \<times> CodeGen) res" where
  "gen_stmt ax g (ASTLet v e b) = Err Fatal"
| "gen_stmt ax g (ASTAttr node key e b) =
     res_bind (gen_expr g e) (\<lambda>e. res_bind (MakeBlock ax g b) (\<lambda>(b, g).
       res_bind (attr_ref ax node key g) (\<lambda>(ref, g).
         Ok (case ref of Some n \<Rightarrow> AttrStmt n key e b | None \<Rightarrow> b, g))))"
| "gen_stmt ax g (ASTAssert c m b) =
     res_bind (gen_expr g c) (\<lambda>c. res_bind (gen_expr g m) (\<lambda>m. res_bind (MakeBlock ax g b) (\<lambda>(b, g).
       res_bind (make_stmt (AssertStmt c m b)) (\<lambda>s. Ok (s, g)))))"
| "gen_stmt ax g (ASTProduce f b) =
     res_bind (MakeBlock ax g b) (\<lambda>(b, g). res_bind (GetBuffer f g) (\<lambda>(fn, v).
       Ok (ProducerConsumer fn True b, g)))"
| "gen_stmt ax g (ASTStore s e i p) =
     res_bind (gen_expr g e) (\<lambda>e. res_bind (gen_expr g i) (\<lambda>i. res_bind (gen_expr g p) (\<lambda>p.
       res_bind (GetBuffer s g) (\<lambda>(f, v). res_bind (make_stmt (Store v e i p)) (\<lambda>s. Ok (s, g))))))"
| "gen_stmt ax g (ASTProvide f e args) =
     res_bind (gen_expr g e) (\<lambda>e. res_bind (gen_args g args) (\<lambda>args. res_bind (GetBuffer f g) (\<lambda>(fn, v).
       Ok (Provide fn 0 e args, g))))"
| "gen_stmt ax g (ASTAllocate s t bs xs b) =
     res_bind (GenType t bs) (\<lambda>ty.
       (case new_buffer s ty ty g of ((f, v), g) \<Rightarrow>
         let g = PushBuffer s f v g in
         res_bind (gen_args g xs) (\<lambda>xs. res_bind (MakeBlock ax g b) (\<lambda>(b, g).
           res_bind (make_stmt (Allocate v ty xs const_true b None)) (\<lambda>s. Ok (s, g))))))"
| "gen_stmt ax g (ASTRealize s t bs ms xs b) =
     res_bind (GenType t bs) (\<lambda>ty.
       (case new_buffer s ty (Int_type 32) g of ((f, v), g) \<Rightarrow>
         let g = PushBuffer s f v g in
         res_bind (CHECK (length ms = length xs)) (\<lambda>_. res_bind (gen_bounds g ms xs) (\<lambda>bounds.
           res_bind (MakeBlock ax g b) (\<lambda>(b, g).
             res_bind (make_stmt (Realize f 0 ty bounds const_true b)) (\<lambda>s. Ok (s, g)))))))"
| "gen_stmt ax g (ASTIfThenElse c t e) =
     res_bind (gen_expr g c) (\<lambda>c. res_bind (MakeBlock ax g t) (\<lambda>(t, g).
       if e = [] then Ok (IfThenElse c t None, g)
       else res_bind (MakeBlock ax g e) (\<lambda>(e, g). Ok (IfThenElse c t (Some e), g))))"
| "gen_stmt ax g (ASTEvaluate e) = res_bind (gen_expr g e) (\<lambda>e. Ok (Evaluate e, g))"
| "gen_stmt ax g (ASTFor s m x b) =
     (case PushVar s (Int_type 32) g of (v, g) \<Rightarrow>
       res_bind (gen_expr g m) (\<lambda>m. res_bind (gen_expr g x) (\<lambda>x. res_bind (MakeBlock ax g b) (\<lambda>(b, g).
         res_bind (PopVar s g) (\<lambda>g. res_bind (make_stmt (For v m x FT_Serial b)) (\<lambda>s. Ok (s, g)))))))"
| "gen_stmts ax g [] = Ok ([], g)"
| "gen_stmts ax g (s # ss) =
     res_bind (gen_stmt ax g s) (\<lambda>(s, g). res_bind (gen_stmts ax g ss) (\<lambda>(ss, g). Ok (s # ss, g)))"
| "MakeBlock ax g ss =
     res_bind (CHECK (ss \<noteq> [])) (\<lambda>_. res_bind (gen_stmts ax g ss) (\<lambda>(ss, g).
       (case make_blocks ss of Some b \<Rightarrow> Ok (b, g) | None \<Rightarrow> Err Null_pointer)))"

section \<open>Entry points\<close>

text \<open>A tensor the program is given: the name of its buffer, its operation and the buffer's data.\<close>

type_synonym Input = "string \<times> Func \<times> Var"

definition first_id :: "Input list \<Rightarrow> nat" where
  "first_id ins = Suc (fold (\<lambda>(s, f, v) n. max n (max (func_id f) (var_id v))) ins 0)"

definition ASTCodeGenerator :: "Input list \<Rightarrow> CodeGen" where
  "ASTCodeGenerator ins =
     fold (\<lambda>(s, f, v). PushBuffer s f v) ins
       \<lparr>normal_var = (\<lambda>_. None), buffer_collector = (\<lambda>_. None), next_id = first_id ins\<rparr>"

definition GenHalideIR :: "AttrNode \<Rightarrow> ASTStmt list \<Rightarrow> Input list \<Rightarrow> Stmt res" where
  "GenHalideIR cce_axis p ins = res_bind (MakeBlock cce_axis (ASTCodeGenerator ins) p) (\<lambda>(s, g). Ok s)"

definition ParseHalideIRFromCode :: "AttrNode \<Rightarrow> string \<Rightarrow> Input list \<Rightarrow> Stmt res" where
  "ParseHalideIRFromCode cce_axis src ins =
     res_bind (GetTokStateFromCode src) (\<lambda>stat. res_bind (GenAST stat) (\<lambda>p. GenHalideIR cce_axis p ins))"

end
