(* ===== verification/Tvm_Types.thy ===== *)
theory Tvm_Types
  imports Tvm_Ir
begin

text \<open>
  Trees all of whose nodes satisfy the checks of \<open>make\<close>: those the program can build. The
  default traversal keeps them so if the functions it is given do.
\<close>

fun typed_expr :: "Expr \<Rightarrow> bool" where
  "typed_expr (Cast ty e) \<longleftrightarrow> expr_ok (Cast ty e) \<and> typed_expr e"
| "typed_expr (Binary p a b) \<longleftrightarrow> expr_ok (Binary p a b) \<and> typed_expr a \<and> typed_expr b"
| "typed_expr (NotE a) \<longleftrightarrow> expr_ok (NotE a) \<and> typed_expr a"
| "typed_expr (Select c t e) \<longleftrightarrow> expr_ok (Select c t e) \<and> typed_expr c \<and> typed_expr t \<and> typed_expr e"
| "typed_expr (LoadE ty v i p) \<longleftrightarrow> expr_ok (LoadE ty v i p) \<and> typed_expr i \<and> typed_expr p"
| "typed_expr (LetE v e b) \<longleftrightarrow> expr_ok (LetE v e b) \<and> typed_expr e \<and> typed_expr b"
| "typed_expr (CallE ty ct n args fn i) \<longleftrightarrow> expr_ok (CallE ty ct n args fn i) \<and> list_all typed_expr args"
| "typed_expr e = expr_ok e"

fun typed_stmt :: "Stmt \<Rightarrow> bool" where
  "typed_stmt (LetStmt v e b) \<longleftrightarrow> stmt_ok (LetStmt v e b) \<and> typed_expr e \<and> typed_stmt b"
| "typed_stmt (AttrStmt n k e b) \<longleftrightarrow> typed_expr e \<and> typed_stmt b"
| "typed_stmt (AssertStmt c m b) \<longleftrightarrow> stmt_ok (AssertStmt c m b) \<and> typed_expr c \<and> typed_expr m \<and> typed_stmt b"
| "typed_stmt (ProducerConsumer fn p b) = typed_stmt b"
| "typed_stmt (For v m x t b) \<longleftrightarrow> stmt_ok (For v m x t b) \<and> typed_expr m \<and> typed_expr x \<and> typed_stmt b"
| "typed_stmt (Store v e i p) \<longleftrightarrow> stmt_ok (Store v e i p) \<and> typed_expr e \<and> typed_expr i \<and> typed_expr p"
| "typed_stmt (Provide fn i e args) \<longleftrightarrow> typed_expr e \<and> list_all typed_expr args"
| "typed_stmt (Allocate v t xs c b n) \<longleftrightarrow> stmt_ok (Allocate v t xs c b n) \<and> list_all typed_expr xs \<and>
     typed_expr c \<and> typed_stmt b \<and> (case n of Some e \<Rightarrow> typed_expr e | None \<Rightarrow> True)"
| "typed_stmt (FreeStmt v) = True"
| "typed_stmt (Realize fn i ty bs c b) \<longleftrightarrow> stmt_ok (Realize fn i ty bs c b) \<and>
     list_all (\<lambda>(m, x). typed_expr m \<and> typed_expr x) bs \<and> typed_expr c \<and> typed_stmt b"
| "typed_stmt (Prefetch fn i ty bs) \<longleftrightarrow> stmt_ok (Prefetch fn i ty bs) \<and>
     list_all (\<lambda>(m, x). typed_expr m \<and> typed_expr x) bs"
| "typed_stmt (Block a b) \<longleftrightarrow> typed_stmt a \<and> typed_stmt b"
| "typed_stmt (IfThenElse c t e) \<longleftrightarrow> typed_expr c \<and> typed_stmt t \<and> (case e of Some s \<Rightarrow> typed_stmt s | None \<Rightarrow> True)"
| "typed_stmt (Evaluate e) = typed_expr e"

lemma typed_make_block [simp]: "typed_stmt (make_block a b) \<longleftrightarrow> typed_stmt a \<and> typed_stmt b"
  by (induction a b rule: make_block.induct) auto

text \<open>Types agree up to the mixture of 32 and 64 bit integers when one type is kept.\<close>

lemma type_simps [simp]:
  "is_scalar (Int_type b)" "is_scalar (UInt_type b)" "is_scalar (Float_type b)" "is_scalar Handle_type"
  "is_int (Int_type b)" "is_uint (UInt_type b)" "is_bool (Bool_type l)" "\<not> is_bool (Int_type b)"
  "ty_lanes (Bool_type l) = l" "is_uint (Bool_type l)" "is_scalar (Bool_type l) \<longleftrightarrow> l = 1"
  by (simp_all add: is_scalar_def Int_type_def UInt_type_def Float_type_def Handle_type_def Bool_type_def
      make_type_def is_int_def is_uint_def is_bool_def)

text \<open>A rewriting that keeps types and typed trees.\<close>

definition keeps_types :: "(Expr \<Rightarrow> Expr) \<Rightarrow> bool" where
  "keeps_types f \<longleftrightarrow> (\<forall>e. typed_expr e \<longrightarrow> typed_expr (f e) \<and> type_of (f e) = type_of e)"

lemma list_all_map_typed:
  "(\<And>a. a \<in> set args \<Longrightarrow> typed_expr a \<Longrightarrow> typed_expr (f a) \<and> type_of (f a) = type_of a) \<Longrightarrow>
     list_all typed_expr args \<Longrightarrow>
     list_all typed_expr (map f args) \<and> list_all (\<lambda>a. is_int (type_of a)) (map f args) = list_all (\<lambda>a. is_int (type_of a)) args"
  by (auto simp: list_all_iff)

lemma emap_typed:
  assumes "\<And>c. c \<in> set (children e) \<Longrightarrow> typed_expr c \<Longrightarrow> typed_expr (f c) \<and> type_of (f c) = type_of c"
    and "typed_expr e"
  shows "typed_expr (emap f e) \<and> type_of (emap f e) = type_of e"
proof (cases e)
  case (CallE ty ct n args fn i)
  with assms list_all_map_typed [of args f] show ?thesis by simp
qed (use assms in auto)

end
