(* ===== verification/Halide_Codegen_Typed.thy ===== *)
theory Halide_Codegen_Typed
  imports Halide_Codegen Tvm_Types
begin

text \<open>
  What the generator of TVM statements guarantees: its trees satisfy every check of \<open>make\<close>, and each
  object in them is in scope: the variable of a loop around it, or a tensor that is an input or has
  been declared before.
\<close>

section \<open>Checked constructors\<close>

lemma make_expr_Ok [simp]: "make_expr e = Ok e' \<longleftrightarrow> e' = e \<and> expr_ok e"
  by (auto simp: make_expr_def)

lemma make_stmt_Ok [simp]: "make_stmt s = Ok s' \<longleftrightarrow> s' = s \<and> stmt_ok s"
  by (auto simp: make_stmt_def)

lemma gen_expr_typed:
  "gen_expr g e = Ok e' \<Longrightarrow> typed_expr e'"
  "gen_args g es = Ok es' \<Longrightarrow> list_all typed_expr es'"
proof (induction g e and g es arbitrary: e' and es' rule: gen_expr_gen_args.induct)
  case (11 g n t b ct args)
  then show ?case by (auto simp: res_bind_Ok_conv split: if_splits option.splits)
qed (auto simp: res_bind_Ok_conv split: option.splits if_splits prod.splits)

lemma gen_bounds_typed:
  "gen_bounds g ms xs = Ok bs \<Longrightarrow> list_all (\<lambda>(m, x). typed_expr m \<and> typed_expr x) bs"
  by (induction g ms xs arbitrary: bs rule: gen_bounds.induct) (auto simp: res_bind_Ok_conv gen_expr_typed)

lemma make_blocks_all:
  assumes "\<And>a b. P (make_block a b) \<longleftrightarrow> P a \<and> P b"
  shows "make_blocks ss = Some b \<Longrightarrow> P b \<longleftrightarrow> list_all P ss"
  using assms by (induction ss arbitrary: b rule: make_blocks.induct) auto

lemmas gen_conv = res_bind_Ok_conv Let_def split_paired_Ex

lemma const_true_typed [simp]: "typed_expr const_true" "is_bool (type_of const_true)"
  by (simp_all add: const_true_def)

text \<open>When the generator succeeds, statement by statement.\<close>

lemma MakeBlock_Ok:
  "MakeBlock ax g ss = Ok (s, g') \<longleftrightarrow>
     ss \<noteq> [] \<and> (\<exists>ss'. gen_stmts ax g ss = Ok (ss', g') \<and> make_blocks ss' = Some s)"
  by (auto simp: gen_conv simp del: make_blocks_None split: option.split_asm)

lemma gen_attr_Ok:
  "gen_stmt ax g (ASTAttr node key e b) = Ok (s, g') \<longleftrightarrow>
     (\<exists>e' b' g1 r. gen_expr g e = Ok e' \<and> MakeBlock ax g b = Ok (b', g1) \<and> attr_ref ax node key g1 = Ok (r, g') \<and>
        s = (case r of Some n \<Rightarrow> AttrStmt n key e' b' | None \<Rightarrow> b'))"
  by (auto simp: gen_conv simp del: MakeBlock.simps)

lemma gen_assert_Ok:
  "gen_stmt ax g (ASTAssert c m b) = Ok (s, g') \<longleftrightarrow>
     (\<exists>c' m' b'. gen_expr g c = Ok c' \<and> gen_expr g m = Ok m' \<and> MakeBlock ax g b = Ok (b', g') \<and>
        stmt_ok (AssertStmt c' m' b') \<and> s = AssertStmt c' m' b')"
  by (auto simp: gen_conv simp del: MakeBlock.simps)

lemma gen_produce_Ok:
  "gen_stmt ax g (ASTProduce f b) = Ok (s, g') \<longleftrightarrow>
     (\<exists>b' fn v. MakeBlock ax g b = Ok (b', g') \<and> GetBuffer f g' = Ok (fn, v) \<and> s = ProducerConsumer fn True b')"
  by (auto simp: gen_conv simp del: MakeBlock.simps)

lemma gen_store_Ok:
  "gen_stmt ax g (ASTStore t e i p) = Ok (s, g') \<longleftrightarrow>
     (\<exists>e' i' p' f v. gen_expr g e = Ok e' \<and> gen_expr g i = Ok i' \<and> gen_expr g p = Ok p' \<and>
        GetBuffer t g = Ok (f, v) \<and> stmt_ok (Store v e' i' p') \<and> s = Store v e' i' p' \<and> g' = g)"
  by (auto simp: gen_conv)

lemma gen_provide_Ok:
  "gen_stmt ax g (ASTProvide f e args) = Ok (s, g') \<longleftrightarrow>
     (\<exists>e' args' fn v. gen_expr g e = Ok e' \<and> gen_args g args = Ok args' \<and> GetBuffer f g = Ok (fn, v) \<and>
        s = Provide fn 0 e' args' \<and> g' = g)"
  by (auto simp: gen_conv)

definition with_buffer :: "string \<Rightarrow> TvmType \<Rightarrow> TvmType \<Rightarrow> CodeGen \<Rightarrow> CodeGen" where
  "with_buffer s ty vty g =
     PushBuffer s (Func (next_id g) s (Some ty)) (Var (next_id g) s vty) (g\<lparr>next_id := next_id g + 1\<rparr>)"

lemma gen_allocate_Ok:
  "gen_stmt ax g (ASTAllocate t it bs xs b) = Ok (s, g') \<longleftrightarrow>
     (\<exists>ty xs' b'. GenType it bs = Ok ty \<and> gen_args (with_buffer t ty ty g) xs = Ok xs' \<and>
        MakeBlock ax (with_buffer t ty ty g) b = Ok (b', g') \<and>
        stmt_ok (Allocate (Var (next_id g) t ty) ty xs' const_true b' None) \<and>
        s = Allocate (Var (next_id g) t ty) ty xs' const_true b' None)"
  by (auto simp: gen_conv new_buffer_def with_buffer_def simp del: MakeBlock.simps)

lemma gen_realize_Ok:
  "gen_stmt ax g (ASTRealize t it bs ms xs b) = Ok (s, g') \<longleftrightarrow>
     (\<exists>ty bounds b'. GenType it bs = Ok ty \<and> length ms = length xs \<and>
        gen_bounds (with_buffer t ty (Int_type 32) g) ms xs = Ok bounds \<and>
        MakeBlock ax (with_buffer t ty (Int_type 32) g) b = Ok (b', g') \<and>
        stmt_ok (Realize (Func (next_id g) t (Some ty)) 0 ty bounds const_true b') \<and>
        s = Realize (Func (next_id g) t (Some ty)) 0 ty bounds const_true b')"
  by (auto simp: gen_conv new_buffer_def with_buffer_def simp del: MakeBlock.simps)

lemma gen_if_Ok:
  "gen_stmt ax g (ASTIfThenElse c t e) = Ok (s, g') \<longleftrightarrow>
     (\<exists>c' t' g1. gen_expr g c = Ok c' \<and> MakeBlock ax g t = Ok (t', g1) \<and>
        (if e = [] then g' = g1 \<and> s = IfThenElse c' t' None
         else \<exists>e'. MakeBlock ax g1 e = Ok (e', g') \<and> s = IfThenElse c' t' (Some e')))"
  by (auto simp: gen_conv simp del: MakeBlock.simps)

lemma gen_evaluate_Ok:
  "gen_stmt ax g (ASTEvaluate e) = Ok (s, g') \<longleftrightarrow> (\<exists>e'. gen_expr g e = Ok e' \<and> s = Evaluate e' \<and> g' = g)"
  by (auto simp: gen_conv)

lemma gen_for_Ok:
  "gen_stmt ax g (ASTFor n m x b) = Ok (s, g') \<longleftrightarrow>
     (\<exists>v g1 m' x' b' g2. PushVar n (Int_type 32) g = (v, g1) \<and> gen_expr g1 m = Ok m' \<and> gen_expr g1 x = Ok x' \<and>
        MakeBlock ax g1 b = Ok (b', g2) \<and> PopVar n g2 = Ok g' \<and> stmt_ok (For v m' x' FT_Serial b') \<and>
        s = For v m' x' FT_Serial b')"
  by (auto simp: gen_conv simp del: MakeBlock.simps split: prod.split)

lemma gen_Cons_Ok:
  "gen_stmts ax g (t # ts) = Ok (ss, g') \<longleftrightarrow>
     (\<exists>s g1 ss'. gen_stmt ax g t = Ok (s, g1) \<and> gen_stmts ax g1 ts = Ok (ss', g') \<and> ss = s # ss')"
  by (auto simp: gen_conv)

lemmas gen_Ok = gen_attr_Ok gen_assert_Ok gen_produce_Ok gen_store_Ok gen_provide_Ok
  gen_allocate_Ok gen_realize_Ok gen_if_Ok gen_evaluate_Ok gen_for_Ok

declare gen_stmt.simps [simp del] gen_stmts.simps(2) [simp del] MakeBlock.simps [simp del]

text \<open>The successful runs as a relation, for proofs by rule induction.\<close>

inductive gens :: "AttrNode \<Rightarrow> CodeGen \<Rightarrow> ASTStmt \<Rightarrow> Stmt \<Rightarrow> CodeGen \<Rightarrow> bool"
  and gens_list :: "AttrNode \<Rightarrow> CodeGen \<Rightarrow> ASTStmt list \<Rightarrow> Stmt list \<Rightarrow> CodeGen \<Rightarrow> bool"
  and gens_block :: "AttrNode \<Rightarrow> CodeGen \<Rightarrow> ASTStmt list \<Rightarrow> Stmt \<Rightarrow> CodeGen \<Rightarrow> bool" for ax where
  g_attr: "gen_expr g e = Ok e' \<Longrightarrow> gens_block ax g b b' g1 \<Longrightarrow> attr_ref ax node key g1 = Ok (Some n, g') \<Longrightarrow>
    gens ax g (ASTAttr node key e b) (AttrStmt n key e' b') g'"
| g_no_attr: "gen_expr g e = Ok e' \<Longrightarrow> gens_block ax g b b' g1 \<Longrightarrow> attr_ref ax node key g1 = Ok (None, g') \<Longrightarrow>
    gens ax g (ASTAttr node key e b) b' g'"
| g_assert: "gen_expr g c = Ok c' \<Longrightarrow> gen_expr g m = Ok m' \<Longrightarrow> gens_block ax g b b' g' \<Longrightarrow>
    stmt_ok (AssertStmt c' m' b') \<Longrightarrow> gens ax g (ASTAssert c m b) (AssertStmt c' m' b') g'"
| g_produce: "gens_block ax g b b' g' \<Longrightarrow> GetBuffer f g' = Ok (fn, v) \<Longrightarrow>
    gens ax g (ASTProduce f b) (ProducerConsumer fn True b') g'"
| g_store: "gen_expr g e = Ok e' \<Longrightarrow> gen_expr g i = Ok i' \<Longrightarrow> gen_expr g p = Ok p' \<Longrightarrow>
    GetBuffer t g = Ok (f, v) \<Longrightarrow> stmt_ok (Store v e' i' p') \<Longrightarrow> gens ax g (ASTStore t e i p) (Store v e' i' p') g"
| g_provide: "gen_expr g e = Ok e' \<Longrightarrow> gen_args g args = Ok args' \<Longrightarrow> GetBuffer f g = Ok (fn, v) \<Longrightarrow>
    gens ax g (ASTProvide f e args) (Provide fn 0 e' args') g"
| g_allocate: "GenType it bs = Ok ty \<Longrightarrow> v = Var (next_id g) t ty \<Longrightarrow> gen_args (with_buffer t ty ty g) xs = Ok xs' \<Longrightarrow>
    gens_block ax (with_buffer t ty ty g) b b' g' \<Longrightarrow> stmt_ok (Allocate v ty xs' const_true b' None) \<Longrightarrow>
    gens ax g (ASTAllocate t it bs xs b) (Allocate v ty xs' const_true b' None) g'"
| g_realize: "GenType it bs = Ok ty \<Longrightarrow> fn = Func (next_id g) t (Some ty) \<Longrightarrow> length ms = length xs \<Longrightarrow>
    gen_bounds (with_buffer t ty (Int_type 32) g) ms xs = Ok bounds \<Longrightarrow>
    gens_block ax (with_buffer t ty (Int_type 32) g) b b' g' \<Longrightarrow> stmt_ok (Realize fn 0 ty bounds const_true b') \<Longrightarrow>
    gens ax g (ASTRealize t it bs ms xs b) (Realize fn 0 ty bounds const_true b') g'"
| g_if_then: "gen_expr g c = Ok c' \<Longrightarrow> gens_block ax g t t' g' \<Longrightarrow>
    gens ax g (ASTIfThenElse c t []) (IfThenElse c' t' None) g'"
| g_if_else: "gen_expr g c = Ok c' \<Longrightarrow> gens_block ax g t t' g1 \<Longrightarrow> e \<noteq> [] \<Longrightarrow> gens_block ax g1 e e' g' \<Longrightarrow>
    gens ax g (ASTIfThenElse c t e) (IfThenElse c' t' (Some e')) g'"
| g_evaluate: "gen_expr g e = Ok e' \<Longrightarrow> gens ax g (ASTEvaluate e) (Evaluate e') g"
| g_for: "PushVar n (Int_type 32) g = (v, g1) \<Longrightarrow> gen_expr g1 m = Ok m' \<Longrightarrow> gen_expr g1 x = Ok x' \<Longrightarrow>
    gens_block ax g1 b b' g2 \<Longrightarrow> PopVar n g2 = Ok g' \<Longrightarrow> stmt_ok (For v m' x' FT_Serial b') \<Longrightarrow>
    gens ax g (ASTFor n m x b) (For v m' x' FT_Serial b') g'"
| g_nil: "gens_list ax g [] [] g"
| g_cons: "gens ax g t s g1 \<Longrightarrow> gens_list ax g1 ts ss g' \<Longrightarrow> gens_list ax g (t # ts) (s # ss) g'"
| g_block: "ts \<noteq> [] \<Longrightarrow> gens_list ax g ts ss g' \<Longrightarrow> make_blocks ss = Some s \<Longrightarrow> gens_block ax g ts s g'"

lemma gens_blockI:
  assumes "\<And>t g s g'. t \<in> set ts \<Longrightarrow> gen_stmt ax g t = Ok (s, g') \<Longrightarrow> gens ax g t s g'"
    and "MakeBlock ax g ts = Ok (s, g')"
  shows "gens_block ax g ts s g'"
proof -
  have "gens_list ax g ts ss g'" if "gen_stmts ax g ts = Ok (ss, g')" for ss
    using assms(1) that by (induction ts arbitrary: g ss) (auto simp: gen_Cons_Ok intro!: g_nil g_cons)
  with assms(2) show ?thesis by (auto simp: MakeBlock_Ok intro: g_block)
qed

lemma gensI: "gen_stmt ax g t = Ok (s, g') \<Longrightarrow> gens ax g t s g'"
proof (induction t arbitrary: g s g')
  case (ASTAttr node key e b)
  then obtain e' b' g1 r where r: "gen_expr g e = Ok e'" "MakeBlock ax g b = Ok (b', g1)"
    "attr_ref ax node key g1 = Ok (r, g')" "s = (case r of Some n \<Rightarrow> AttrStmt n key e' b' | None \<Rightarrow> b')"
    by (auto simp: gen_attr_Ok)
  then have "gens_block ax g b b' g1" using ASTAttr.IH by (blast intro: gens_blockI)
  with r show ?case by (cases r) (auto intro: g_attr g_no_attr)
next
  case (ASTAssert c m b)
  then have "MakeBlock ax g b = Ok (s, g') \<Longrightarrow> gens_block ax g b s g'" for g s g'
    by (blast intro: gens_blockI)
  with ASTAssert.prems show ?case unfolding gen_assert_Ok using g_assert by blast
next
  case (ASTProduce f b)
  then have "MakeBlock ax g b = Ok (s, g') \<Longrightarrow> gens_block ax g b s g'" for g s g'
    by (blast intro: gens_blockI)
  with ASTProduce.prems show ?case unfolding gen_produce_Ok using g_produce by blast
next
  case (ASTAllocate n t bs xs b)
  then have "MakeBlock ax g b = Ok (s, g') \<Longrightarrow> gens_block ax g b s g'" for g s g'
    by (blast intro: gens_blockI)
  with ASTAllocate.prems show ?case unfolding gen_allocate_Ok using g_allocate by blast
next
  case (ASTRealize n t bs ms xs b)
  then have "MakeBlock ax g b = Ok (s, g') \<Longrightarrow> gens_block ax g b s g'" for g s g'
    by (blast intro: gens_blockI)
  with ASTRealize.prems show ?case unfolding gen_realize_Ok using g_realize by blast
next
  case (ASTFor n m x b)
  then have "MakeBlock ax g b = Ok (s, g') \<Longrightarrow> gens_block ax g b s g'" for g s g'
    by (blast intro: gens_blockI)
  with ASTFor.prems show ?case unfolding gen_for_Ok using g_for by blast
next
  case (ASTIfThenElse c t e)
  then have "MakeBlock ax g t = Ok (s, g') \<Longrightarrow> gens_block ax g t s g'" "MakeBlock ax g e = Ok (s, g') \<Longrightarrow> gens_block ax g e s g'"
    for g s g' by (blast intro: gens_blockI)+
  with ASTIfThenElse.prems show ?case unfolding gen_if_Ok
    by (cases "e = []") (auto intro: g_if_then, metis g_if_else)
qed (auto simp: gen_store_Ok gen_provide_Ok gen_evaluate_Ok gen_stmt.simps(1) intro: g_store g_provide g_evaluate)

lemma gen_typed:
  "gens ax g t s g' \<Longrightarrow> typed_stmt s"
  "gens_list ax g ts ss g' \<Longrightarrow> list_all typed_stmt ss"
  "gens_block ax g ts s g' \<Longrightarrow> typed_stmt s"
proof (induction rule: gens_gens_list_gens_block.inducts)
  case (g_block ts g ss g' s)
  then show ?case using make_blocks_all [of typed_stmt] typed_make_block by metis
qed (auto simp: gen_expr_typed gen_bounds_typed)

section \<open>Objects in scope\<close>

text \<open>The tensors a statement declares: the operation and the variable of the buffer, which an allocation or a
  realization introduces together.\<close>

fun declared :: "Stmt \<Rightarrow> (Func \<times> Var) set" where
  "declared (LetStmt v e b) = declared b"
| "declared (AttrStmt n k e b) = declared b"
| "declared (AssertStmt c m b) = declared b"
| "declared (ProducerConsumer fn p b) = declared b"
| "declared (For v m x t b) = declared b"
| "declared (Allocate v t xs c b n) = insert (Func (var_id v) (name_hint v) (Some t), v) (declared b)"
| "declared (Realize fn i ty bs c b) = insert (fn, Var (func_id fn) (func_name fn) (Int_type 32)) (declared b)"
| "declared (Block a b) = declared a \<union> declared b"
| "declared (IfThenElse c t e) = declared t \<union> (case e of Some s \<Rightarrow> declared s | None \<Rightarrow> {})"
| "declared s = {}"

text \<open>\<open>bound_expr D L e\<close>: each variable of \<open>e\<close> is the object of a loop in \<open>L\<close> or the buffer of a tensor in
  \<open>D\<close>; a load has the element type of its tensor, a call of a tensor is to an operation in \<open>D\<close>
  and has its element type, and other calls have no function.\<close>

fun bound_expr :: "(Func \<times> Var) set \<Rightarrow> Var set \<Rightarrow> Expr \<Rightarrow> bool" where
  "bound_expr D L (Variable v) \<longleftrightarrow> v \<in> L \<union> snd ` D"
| "bound_expr D L (Cast ty e) \<longleftrightarrow> bound_expr D L e"
| "bound_expr D L (Binary p a b) \<longleftrightarrow> bound_expr D L a \<and> bound_expr D L b"
| "bound_expr D L (NotE a) \<longleftrightarrow> bound_expr D L a"
| "bound_expr D L (Select c t e) \<longleftrightarrow> bound_expr D L c \<and> bound_expr D L t \<and> bound_expr D L e"
| "bound_expr D L (LoadE ty v i p) \<longleftrightarrow>
     (\<exists>f. (f, v) \<in> D \<and> func_dtype f = Some ty) \<and> bound_expr D L i \<and> bound_expr D L p"
| "bound_expr D L (LetE v e b) \<longleftrightarrow> False"
| "bound_expr D L (CallE ty ct n args fn i) \<longleftrightarrow>
     (if ct = CT_Halide then fn \<in> fst ` D \<and> func_dtype fn = Some ty else fn = null_func) \<and> i = 0 \<and>
     list_all (bound_expr D L) args"
| "bound_expr D L e \<longleftrightarrow> True"

text \<open>\<open>bound_stmt D L s\<close>: the same of all expressions, buffers and operations of \<open>s\<close>. To \<open>D\<close> belongs what was declared
  earlier in the order of the program: the tables of the generator forget a buffer only where an
  attribute says so. What a binder itself evaluates counts as inside of it, since the
  generator enters the name first.\<close>

fun bound_stmt :: "(Func \<times> Var) set \<Rightarrow> Var set \<Rightarrow> Stmt \<Rightarrow> bool" where
  "bound_stmt D L (LetStmt v e b) \<longleftrightarrow> False"
| "bound_stmt D L (AttrStmt n k e b) \<longleftrightarrow> bound_expr D L e \<and> bound_stmt D L b \<and>
     (k = ''realize_scope'' \<longrightarrow> (case n of Node_Func f \<Rightarrow> f \<in> fst ` (D \<union> declared b) | _ \<Rightarrow> True)) \<and>
     (k = ''storage_scope'' \<longrightarrow> (case n of Node_Var v \<Rightarrow> v \<in> snd ` (D \<union> declared b) | _ \<Rightarrow> False))"
| "bound_stmt D L (AssertStmt c m b) \<longleftrightarrow> bound_expr D L c \<and> bound_expr D L m \<and> bound_stmt D L b"
| "bound_stmt D L (ProducerConsumer fn p b) \<longleftrightarrow> bound_stmt D L b \<and> fn \<in> fst ` (D \<union> declared b)"
| "bound_stmt D L (For v m x t b) \<longleftrightarrow>
     bound_expr D (insert v L) m \<and> bound_expr D (insert v L) x \<and> bound_stmt D (insert v L) b"
| "bound_stmt D L (Store v e i p) \<longleftrightarrow> v \<in> snd ` D \<and> bound_expr D L e \<and> bound_expr D L i \<and> bound_expr D L p"
| "bound_stmt D L (Provide fn i e args) \<longleftrightarrow> fn \<in> fst ` D \<and> bound_expr D L e \<and> list_all (bound_expr D L) args"
| "bound_stmt D L (Allocate v t xs c b n) \<longleftrightarrow>
     (let D = insert (Func (var_id v) (name_hint v) (Some t), v) D in
      list_all (bound_expr D L) xs \<and> bound_stmt D L b)"
| "bound_stmt D L (FreeStmt v) \<longleftrightarrow> False"
| "bound_stmt D L (Realize fn i ty bs c b) \<longleftrightarrow> func_dtype fn = Some ty \<and>
     (let D = insert (fn, Var (func_id fn) (func_name fn) (Int_type 32)) D in
      list_all (\<lambda>(m, x). bound_expr D L m \<and> bound_expr D L x) bs \<and> bound_stmt D L b)"
| "bound_stmt D L (Prefetch fn i ty bs) \<longleftrightarrow> False"
| "bound_stmt D L (Block a b) \<longleftrightarrow> bound_stmt D L a \<and> bound_stmt (D \<union> declared a) L b"
| "bound_stmt D L (IfThenElse c t e) \<longleftrightarrow> bound_expr D L c \<and> bound_stmt D L t \<and>
     (case e of Some s \<Rightarrow> bound_stmt (D \<union> declared t) L s | None \<Rightarrow> True)"
| "bound_stmt D L (Evaluate e) \<longleftrightarrow> bound_expr D L e"

fun bound_stmts :: "(Func \<times> Var) set \<Rightarrow> Var set \<Rightarrow> Stmt list \<Rightarrow> bool" where
  "bound_stmts D L [] \<longleftrightarrow> True"
| "bound_stmts D L (s # ss) \<longleftrightarrow> bound_stmt D L s \<and> bound_stmts (D \<union> declared s) L ss"

lemma declared_make_block [simp]: "declared (make_block a b) = declared a \<union> declared b"
  by (induction a b rule: make_block.induct) auto

lemma bound_make_block [simp]:
  "bound_stmt D L (make_block a b) \<longleftrightarrow> bound_stmt D L a \<and> bound_stmt (D \<union> declared a) L b"
  by (induction a b arbitrary: D rule: make_block.induct) (auto simp: Un_assoc)

lemma make_blocks_bound:
  "make_blocks ss = Some s \<Longrightarrow> declared s = \<Union> (declared ` set ss) \<and> (bound_stmt D L s \<longleftrightarrow> bound_stmts D L ss)"
  by (induction ss arbitrary: s D rule: make_blocks.induct) auto

text \<open>The tables: no stack is empty, and they hold loop variables of \<open>L\<close> and tensors of \<open>D\<close>.\<close>

definition stacks_ok :: "(string \<Rightarrow> 'a \<Rightarrow> bool) \<Rightarrow> (string \<Rightarrow> 'a list option) \<Rightarrow> bool" where
  "stacks_ok Q m \<longleftrightarrow> (\<forall>s l. m s = Some l \<longrightarrow> l \<noteq> [] \<and> (\<forall>x \<in> set l. Q s x))"

definition tables_ok :: "(Func \<times> Var) set \<Rightarrow> Var set \<Rightarrow> CodeGen \<Rightarrow> bool" where
  "tables_ok D L g \<longleftrightarrow> stacks_ok (\<lambda>s v. v \<in> L) (normal_var g) \<and> stacks_ok (\<lambda>s p. p \<in> D) (buffer_collector g)"

lemma stacksD: "stacks_ok Q m \<Longrightarrow> m s = Some l \<Longrightarrow> l \<noteq> [] \<and> (\<forall>x \<in> set l. Q s x)"
  unfolding stacks_ok_def by blast

lemma stacks_upd:
  "stacks_ok Q m \<Longrightarrow> (\<And>l. r = Some l \<Longrightarrow> l \<noteq> [] \<and> (\<forall>x \<in> set l. Q s x)) \<Longrightarrow> stacks_ok Q (m(s := r))"
  unfolding stacks_ok_def by (simp add: fun_upd_apply)

lemma stacks_push: "stacks_ok Q m \<Longrightarrow> Q s x \<Longrightarrow> stacks_ok Q (m(s := Some (list_of (m s) @ [x])))"
  by (rule stacks_upd) (auto simp: list_of_def split: option.splits dest: stacksD [THEN conjunct2, THEN bspec])

lemma stacks_pop: "stacks_ok Q m \<Longrightarrow> m s = Some l \<Longrightarrow> stacks_ok Q (m(s := pop_list l))"
  by (rule stacks_upd) (auto simp: pop_list_def dest: stacksD in_set_butlastD split: if_splits)

lemma stacks_mono: "stacks_ok Q m \<Longrightarrow> (\<And>s x. Q s x \<Longrightarrow> R s x) \<Longrightarrow> stacks_ok R m"
  unfolding stacks_ok_def by blast

lemma stacks_last: "stacks_ok Q m \<Longrightarrow> m s = Some l \<Longrightarrow> l \<noteq> [] \<and> Q s (last l)"
  by (auto dest: stacksD)

lemma tables_mono: "tables_ok D L g \<Longrightarrow> D \<subseteq> D' \<Longrightarrow> L \<subseteq> L' \<Longrightarrow> tables_ok D' L' g"
  unfolding tables_ok_def by (auto elim!: stacks_mono)

lemma tables_ok_PushVar: "tables_ok D L g \<Longrightarrow> PushVar s ty g = (v, g') \<Longrightarrow> tables_ok D (insert v L) g'"
proof -
  assume g: "tables_ok D L g" and push: "PushVar s ty g = (v, g')"
  have "tables_ok D (insert v L) g" using tables_mono [OF g order_refl, of "insert v L"] by blast
  then have "stacks_ok (\<lambda>s w. w \<in> insert v L) ((normal_var g)(s := Some (list_of (normal_var g s) @ [v])))"
    by (intro stacks_push) (simp_all add: tables_ok_def)
  with g push show ?thesis by (auto simp: tables_ok_def PushVar_def Let_def)
qed

lemma tables_ok_PushBuffer: "tables_ok D L g \<Longrightarrow> (f, v) \<in> D \<Longrightarrow> tables_ok D L (PushBuffer s f v g)"
  unfolding tables_ok_def PushBuffer_def by (auto intro!: stacks_push)

lemma tables_ok_id [simp]: "tables_ok D L (g\<lparr>next_id := n\<rparr>) = tables_ok D L g"
  by (simp add: tables_ok_def)

lemma tables_ok_PopBuffer: "tables_ok D L g \<Longrightarrow> PopBuffer s g = Ok g' \<Longrightarrow> tables_ok D L g'"
  unfolding tables_ok_def PopBuffer_def by (auto intro: stacks_pop split: option.splits if_splits)

lemma GetBuffer_ok: "tables_ok D L g \<Longrightarrow> GetBuffer s g = Ok (f, v) \<Longrightarrow> (f, v) \<in> D"
  unfolding tables_ok_def GetBuffer_def
  by (auto simp: vec_back_def split: option.splits if_splits dest!: stacks_last)

lemma GetBuffer_fst: "tables_ok D L g \<Longrightarrow> GetBuffer s g = Ok (f, v) \<Longrightarrow> f \<in> fst ` D"
  using GetBuffer_ok by force

lemma GetBuffer_snd: "tables_ok D L g \<Longrightarrow> GetBuffer s g = Ok (f, v) \<Longrightarrow> v \<in> snd ` D"
  using GetBuffer_ok by force

lemma GetVar_ok: "tables_ok D L g \<Longrightarrow> GetVar s g = Ok v \<Longrightarrow> v \<in> L"
  unfolding tables_ok_def GetVar_def by (auto split: option.splits if_splits dest: stacksD)

lemma PopBuffer_normal_var: "PopBuffer s g = Ok g' \<Longrightarrow> normal_var g' = normal_var g"
  by (auto simp: PopBuffer_def split: option.splits if_splits)

lemma attr_ref_tables:
  "attr_ref ax node key g = Ok (r, g') \<Longrightarrow> normal_var g' = normal_var g \<and> (tables_ok D L g \<longrightarrow> tables_ok D L g')"
  by (auto simp: attr_ref_def realize_node_def res_bind_Ok_conv PopBuffer_normal_var tables_ok_PopBuffer split: if_splits)

lemma attr_ref_bound:
  "attr_ref ax node key g = Ok (Some n, g') \<Longrightarrow> tables_ok D L g \<Longrightarrow>
     (key = ''realize_scope'' \<longrightarrow> (case n of Node_Func f \<Rightarrow> f \<in> fst ` D | _ \<Rightarrow> True)) \<and>
     (key = ''storage_scope'' \<longrightarrow> (case n of Node_Var v \<Rightarrow> v \<in> snd ` D | _ \<Rightarrow> False))"
  by (auto simp: attr_ref_def realize_node_def res_bind_Ok_conv GetBuffer_fst GetBuffer_snd split: if_splits)

lemma call_types_Halide: "GetCallType t = Ok ct \<Longrightarrow> ct = CT_Halide \<longleftrightarrow> t = kHALIDE"
  by (auto simp: GetCallType_def call_types_def split: if_splits option.splits)

lemma gen_expr_bound:
  "gen_expr g e = Ok e' \<Longrightarrow> tables_ok D L g \<Longrightarrow> bound_expr D L e'"
  "gen_args g es = Ok es' \<Longrightarrow> tables_ok D L g \<Longrightarrow> list_all (bound_expr D L) es'"
proof (induction g e and g es arbitrary: e' and es' rule: gen_expr_gen_args.induct)
  case (9 g s i p)
  then obtain i' p' f v ty where "gen_expr g i = Ok i'" "gen_expr g p = Ok p'" "GetBuffer s g = Ok (f, v)"
    "func_dtype f = Some ty" "e' = LoadE ty v i' p'"
    by (auto simp: res_bind_Ok_conv split: option.splits)
  with 9 GetBuffer_ok [of D L g s f v] show ?case by auto
next
  case (11 g n t b ct args)
  then show ?case
    by (auto simp: res_bind_Ok_conv GetBuffer_fst call_types_Halide split: if_splits option.splits)
next
  case (12 g s)
  then show ?case by (auto simp: res_bind_Ok_conv GetVar_ok dest: GetBuffer_snd split: if_splits)
qed (auto simp: res_bind_Ok_conv split: option.splits if_splits prod.splits dest: GetBuffer_ok)

lemma gen_bounds_bound:
  "gen_bounds g ms xs = Ok bs \<Longrightarrow> tables_ok D L g \<Longrightarrow> list_all (\<lambda>(m, x). bound_expr D L m \<and> bound_expr D L x) bs"
  by (induction g ms xs arbitrary: bs rule: gen_bounds.induct) (auto simp: res_bind_Ok_conv gen_expr_bound)

lemma PopVar_PushVar:
  assumes "PushVar n ty g = (v, g1)" "normal_var g2 = normal_var g1" "PopVar n g2 = Ok g'" "normal_var g n \<noteq> Some []"
  shows "normal_var g' = normal_var g"
  using assms by (auto simp: PushVar_def PopVar_def Let_def pop_list_def list_of_def map_upd_triv split: option.splits if_splits)

lemma PopVar_buffers: "PopVar n g = Ok g' \<Longrightarrow> buffer_collector g' = buffer_collector g"
  by (auto simp: PopVar_def split: option.splits if_splits)

lemma with_buffer_normal_var [simp]: "normal_var (with_buffer s ty vty g) = normal_var g"
  by (simp add: with_buffer_def PushBuffer_def)

lemma tables_ok_with_buffer:
  "tables_ok D L g \<Longrightarrow> tables_ok (insert (Func (next_id g) s (Some ty), Var (next_id g) s vty) D) L (with_buffer s ty vty g)"
  unfolding with_buffer_def by (rule tables_ok_PushBuffer) (auto intro: tables_mono)

text \<open>The loop variables are the same after a statement as before it.\<close>

lemma gen_bound:
  "gens ax g t s g' \<Longrightarrow> tables_ok D L g \<Longrightarrow>
     normal_var g' = normal_var g \<and> tables_ok (D \<union> declared s) L g' \<and> bound_stmt D L s"
  "gens_list ax g ts ss g' \<Longrightarrow> tables_ok D L g \<Longrightarrow>
     normal_var g' = normal_var g \<and> tables_ok (D \<union> \<Union> (declared ` set ss)) L g' \<and> bound_stmts D L ss"
  "gens_block ax g ts s g' \<Longrightarrow> tables_ok D L g \<Longrightarrow>
     normal_var g' = normal_var g \<and> tables_ok (D \<union> declared s) L g' \<and> bound_stmt D L s"
proof (induction arbitrary: D L and D L and D L rule: gens_gens_list_gens_block.inducts)
  case (g_attr g e e' b b' g1 node key n g')
  from g_attr.IH(2) [OF g_attr.prems]
  have b: "normal_var g1 = normal_var g" "tables_ok (D \<union> declared b') L g1" "bound_stmt D L b'" by blast+
  have e: "bound_expr D L e'" by (rule gen_expr_bound(1) [OF g_attr.hyps(1) g_attr.prems])
  from b e attr_ref_tables [OF \<open>attr_ref ax node key g1 = Ok (Some n, g')\<close>] attr_ref_bound [OF \<open>attr_ref ax node key g1 = Ok (Some n, g')\<close> b(2)] show ?case by simp
next
  case (g_no_attr g e e' b b' g1 node key g')
  from g_no_attr.IH(2) [OF g_no_attr.prems] attr_ref_tables [OF \<open>attr_ref ax node key g1 = Ok (None, g')\<close>] show ?case by simp
next
  case (g_produce g b b' g' f fn v)
  from g_produce.IH(2) [OF g_produce.prems] GetBuffer_fst [OF _ \<open>GetBuffer f g' = Ok (fn, v)\<close>] show ?case by auto
next
  case (g_allocate it bs ty v g t xs xs' b b' g')
  let ?D = "insert (Func (next_id g) t (Some ty), v) D"
  have g1: "tables_ok ?D L (with_buffer t ty ty g)"
    using tables_ok_with_buffer [OF g_allocate.prems] g_allocate.hyps(2) by simp
  from g_allocate.IH(2) [OF g1] gen_expr_bound(2) [OF g_allocate.hyps(3) g1] g_allocate.hyps(2) show ?case by simp
next
  case (g_realize it bs ty fn g t ms xs bounds b b' g')
  let ?D = "insert (fn, Var (next_id g) t (Int_type 32)) D"
  have g1: "tables_ok ?D L (with_buffer t ty (Int_type 32) g)"
    using tables_ok_with_buffer [OF g_realize.prems] g_realize.hyps(2) by simp
  from g_realize.IH(2) [OF g1] gen_bounds_bound [OF g_realize.hyps(4) g1] g_realize.hyps(2) show ?case by simp
next
  case (g_if_else g c c' t t' g1 e e' g')
  from g_if_else.IH(2) [OF g_if_else.prems]
  have t: "normal_var g1 = normal_var g" "tables_ok (D \<union> declared t') L g1" "bound_stmt D L t'" by blast+
  from g_if_else.IH(4) [OF t(2)] t gen_expr_bound(1) [OF g_if_else.hyps(1) g_if_else.prems]
  show ?case by (simp add: Un_assoc)
next
  case (g_for n g v g1 m m' x x' b b' g2 g')
  have g1: "tables_ok D (insert v L) g1" by (rule tables_ok_PushVar [OF g_for.prems g_for.hyps(1)])
  with g_for.IH(2) [OF g1] have b: "normal_var g2 = normal_var g1" "tables_ok (D \<union> declared b') (insert v L) g2"
    "bound_stmt D (insert v L) b'" by blast+
  have "normal_var g n \<noteq> Some []" using g_for.prems by (auto simp: tables_ok_def dest: stacksD)
  with b(1) have same: "normal_var g' = normal_var g" using PopVar_PushVar g_for.hyps by blast
  moreover have "tables_ok (D \<union> declared b') L g'"
    using same g_for.prems b(2) PopVar_buffers [OF \<open>PopVar n g2 = Ok g'\<close>] by (simp add: tables_ok_def)
  ultimately show ?case using b(3) g1 g_for.hyps by (auto intro: gen_expr_bound)
next
  case (g_cons g t s g1 ts ss g')
  from g_cons.IH(2) [OF g_cons.prems]
  have s: "normal_var g1 = normal_var g" "tables_ok (D \<union> declared s) L g1" "bound_stmt D L s" by blast+
  from g_cons.IH(4) [OF s(2)] s show ?case by (simp add: Un_assoc)
next
  case (g_block ts g ss g' s)
  from g_block.IH(2) [OF g_block.prems] make_blocks_bound [OF \<open>make_blocks ss = Some s\<close>, of D L] show ?case by simp
qed (auto simp: gen_expr_bound dest: GetBuffer_snd GetBuffer_fst)

lemma stacks_ok_empty [simp]: "stacks_ok Q (\<lambda>_. None)"
  by (simp add: stacks_ok_def)

definition input_tensors :: "Input list \<Rightarrow> (Func \<times> Var) set" where
  "input_tensors ins = (\<lambda>(s, f, v). (f, v)) ` set ins"

lemma fold_tables_ok:
  "tables_ok D L g \<Longrightarrow> input_tensors ins \<subseteq> D \<Longrightarrow> tables_ok D L (fold (\<lambda>(s, f, v). PushBuffer s f v) ins g)"
proof (induction ins arbitrary: g)
  case (Cons i ins)
  obtain s f v where i: "i = (s, f, v)" by (cases i)
  from Cons.prems i have "tables_ok D L (PushBuffer s f v g)"
    by (intro tables_ok_PushBuffer) (auto simp: input_tensors_def)
  with Cons i show ?case by (simp add: input_tensors_def)
qed simp

lemma tables_ok_start: "tables_ok (input_tensors ins) {} (ASTCodeGenerator ins)"
  unfolding ASTCodeGenerator_def by (rule fold_tables_ok) (simp_all add: tables_ok_def)

lemma GenHalideIR_run:
  assumes "GenHalideIR ax p ins = Ok s"
  obtains g' where "gens_block ax (ASTCodeGenerator ins) p s g'"
proof -
  from assms obtain g' where "MakeBlock ax (ASTCodeGenerator ins) p = Ok (s, g')"
    by (auto simp: GenHalideIR_def res_bind_Ok_conv)
  then have "gens_block ax (ASTCodeGenerator ins) p s g'" by (rule gens_blockI [rotated]) (rule gensI)
  then show ?thesis using that by blast
qed

text \<open>
  C24: What the generator returns satisfies the checks of every constructor, and every object in it is in
  scope: a variable is the very variable of a loop around it, or of a buffer that is an input or that the
  statement has declared before; a tensor that is written, produced, called or given an
  attribute is an input or was declared before; and loads and calls have the element type of
  their tensor.
\<close>

theorem codegen_well_typed:
  assumes "GenHalideIR ax p ins = Ok s"
  shows "typed_stmt s \<and> bound_stmt (input_tensors ins) {} s"
proof -
  from assms obtain g' where run: "gens_block ax (ASTCodeGenerator ins) p s g'" by (rule GenHalideIR_run)
  show ?thesis using gen_typed(3) [OF run] gen_bound(3) [OF run tables_ok_start] by blast
qed

text \<open>A program that declares and uses one buffer, and the statement generated from it.\<close>

definition sample_ast :: "ASTStmt list" where
  "sample_ast =
     [ASTAttr ''placeholder(a, 0)'' ''realize_scope'' (ASTStringImm ''local.UB'')
       [ASTRealize ''a'' kFLOAT 16 [ASTIntImm 0 32] [ASTIntImm 8 32]
         [ASTFor ''i'' (ASTIntImm 0 32) (ASTIntImm 8 32)
           [ASTIfThenElse (ASTBinaryOp kLESS (ASTVariable ''i'') (ASTIntImm 5 32))
             [ASTProvide ''a'' (ASTCast kFLOAT 16 (ASTIntImm 0 32)) [ASTVariable ''i'']] [],
            ASTEvaluate (ASTBinaryOp kSTAR (ASTVariable ''i'') (ASTIntImm 2 32))]]]]"

definition sample_stmt :: Stmt where
  "sample_stmt =
     (let a = Func 1 ''a'' (Some (Float_type 16)); i = Var 2 ''i'' (Int_type 32); c = IntImm (Int_type 32) in
      AttrStmt (Node_Func a) ''realize_scope'' (StringImm ''local.UB'')
        (Realize a 0 (Float_type 16) [(c 0, c 8)] const_true
          (For i (c 0) (c 8) FT_Serial
            (Block
              (IfThenElse (Binary B_LT (Variable i) (c 5))
                (Provide a 0 (Cast (Float_type 16) (c 0)) [Variable i]) None)
              (Evaluate (Binary B_Mul (Variable i) (c 2)))))))"

lemma sample_generated: "GenHalideIR (Node_Other 0) sample_ast [] = Ok sample_stmt"
  by code_simp

theorem codegen_well_typed_witness:
  "typed_stmt sample_stmt \<and> bound_stmt {} {} sample_stmt"
  using codegen_well_typed [OF sample_generated] by (simp add: input_tensors_def)

text \<open>
  A loop variable is entered before the bounds are read: a bound that uses the name of an outer loop
  variable that the loop hides refers to the loop's own variable.
\<close>

theorem loop_bound_captured:
  assumes "gen_stmt ax g (ASTFor i (ASTVariable i) x b) = Ok (s, g')"
  shows "\<exists>v x' b'. s = For v (Variable v) x' FT_Serial b'"
  using assms by (auto simp: gen_for_Ok PushVar_def GetVar_def Let_def list_of_def res_bind_Ok_conv split: if_splits)

theorem loop_bound_captured_sample:
  "\<exists>v. GenHalideIR (Node_Other 0)
     [ASTFor ''i'' (ASTIntImm 0 32) (ASTIntImm 4 32) [ASTFor ''i'' (ASTVariable ''i'') (ASTIntImm 1 32)
        [ASTEvaluate (ASTVariable ''i'')]]] [] =
     Ok (For (Var 1 ''i'' (Int_type 32)) (IntImm (Int_type 32) 0) (IntImm (Int_type 32) 4) FT_Serial
       (For v (Variable v) (IntImm (Int_type 32) 1) FT_Serial (Evaluate (Variable v))))"
  by (rule exI [of _ "Var 2 ''i'' (Int_type 32)"]) code_simp

end
