(* ===== verification/Halide_Progress.thy ===== *)
theory Halide_Progress
  imports Halide_Grammar
begin

text \<open>
  Every parser of \<open>Halide_Grammar\<close> terminates with enough fuel. \<open>todo h\<close> bounds the work
  that a handler has left: two units per unread character and one per queued token, so that
  reading a token ahead, and removing one, both decrease it. \<open>runs S k p q\<close> says that, with
  less than \<open>k\<close> units left, the parsers \<open>p\<close> and \<open>q\<close> (the same one with two amounts of
  fuel) give the same outcome, which is a result that did not add work, strictly less when
  \<open>S\<close> holds of it, or one of the failures of the program: never \<open>Out_of_fuel\<close>, and never a
  \<open>front\<close> or \<open>pop\<close> of an empty queue. The locales state what the expression and statement
  parsers rely on; they are interpreted on \<open>ParseExpr\<close> and \<open>ParseStmtList\<close>.
\<close>

section \<open>Work left and runs\<close>

definition todo :: "TokHandler \<Rightarrow> nat" where
  "todo h = 2 * (length (code (stat h)) - cur (stat h)) + length (queue h)"

definition program_failures :: "failure set" where
  "program_failures = {Fatal, Out_of_bounds, Signed_overflow}"

definition outcome_ok :: "('a \<Rightarrow> bool) \<Rightarrow> TokHandler \<Rightarrow> ('a \<times> TokHandler) res \<Rightarrow> bool" where
  "outcome_ok S h r =
     (case r of
        Ok (x, h') \<Rightarrow> code (stat h') = code (stat h) \<and> todo h' \<le> todo h \<and> (S x \<longrightarrow> todo h' < todo h)
      | Err e \<Rightarrow> e \<in> program_failures)"

definition runs :: "('a \<Rightarrow> bool) \<Rightarrow> nat \<Rightarrow> 'a parser \<Rightarrow> 'a parser \<Rightarrow> bool" where
  "runs S k p q \<longleftrightarrow> (\<forall>h. todo h < k \<longrightarrow> q h = p h \<and> outcome_ok S h (p h))"

definition weak :: "'a \<Rightarrow> bool" where
  "weak = (\<lambda>_. False)"

definition strict :: "'a \<Rightarrow> bool" where
  "strict = (\<lambda>_. True)"

lemma outcome_ok_simps [simp]:
  "outcome_ok S h (Ok (x, h')) \<longleftrightarrow>
     code (stat h') = code (stat h) \<and> todo h' \<le> todo h \<and> (S x \<longrightarrow> todo h' < todo h)"
  "outcome_ok S h (Err e) \<longleftrightarrow> e \<in> program_failures"
  by (simp_all add: outcome_ok_def)

lemma weakE [elim!]: "weak x \<Longrightarrow> P"
  by (simp add: weak_def)

lemma strictI [intro!]: "strict x"
  by (simp add: strict_def)

lemma outcome_ok_trans:
  assumes "outcome_ok S h' r" and "todo h' \<le> todo h" and "code (stat h') = code (stat h)"
  shows "outcome_ok S h r"
  using assms by (auto simp: outcome_ok_def split: res.splits)

lemma outcome_ok_after:
  assumes "outcome_ok S' h' r" and "todo h' < todo h" and "code (stat h') = code (stat h)"
  shows "outcome_ok S h r"
  using assms by (auto simp: outcome_ok_def split: res.splits)

lemma runsD: "runs S k p q \<Longrightarrow> todo h < k \<Longrightarrow> q h = p h \<and> outcome_ok S h (p h)"
  by (simp add: runs_def)

lemma runs_mono:
  assumes "runs S k p q" and "k' \<le> k" and "\<And>x. S' x \<Longrightarrow> S x"
  shows "runs S' k' p q"
  unfolding runs_def
proof (intro allI impI)
  fix h
  assume "todo h < k'"
  then have "q h = p h" "outcome_ok S h (p h)" using assms(1,2) by (auto simp: runs_def)
  then show "q h = p h \<and> outcome_ok S' h (p h)"
    using assms(3) by (auto simp: outcome_ok_def split: res.splits)
qed

lemma runs_weaken: "runs S k p q \<Longrightarrow> runs weak k p q"
  by (rule runs_mono) (auto simp: weak_def)

lemma runs_ret_weak: "runs weak k (ret x) (ret x)"
  by (auto simp: runs_def ret_def)

lemma runs_ret: "\<not> S x \<Longrightarrow> runs S k (ret x) (ret x)"
  by (simp add: runs_def ret_def)

lemma runs_fail: "e \<in> program_failures \<Longrightarrow> runs S k (fail e) (fail e)"
  by (simp add: runs_def fail_def)

lemma runs_none: "k = 0 \<Longrightarrow> runs S k p q"
  by (simp add: runs_def)

lemma runs_chk: "runs weak k (chk b) (chk b)"
  by (simp add: chk_def runs_ret_weak runs_fail program_failures_def)

lemma runs_h_size: "runs weak k h_size h_size"
  by (auto simp: runs_def h_size_def)

lemma runs_first:
  assumes "runs strict k p q" and "\<And>x. runs weak (k - 1) (f x) (g x)"
  shows "runs S k (bnd p f) (bnd q g)"
  unfolding runs_def
proof (intro allI impI)
  fix h
  assume k: "todo h < k"
  have p: "q h = p h" "outcome_ok strict h (p h)" using runsD [OF assms(1) k] by auto
  show "bnd q g h = bnd p f h \<and> outcome_ok S h (bnd p f h)"
  proof (cases "p h")
    case (Ok xh)
    then obtain x h' where x: "p h = Ok (x, h')" by (cases xh) auto
    with p k have h': "todo h' < k - 1" "todo h' < todo h" "code (stat h') = code (stat h)"
      by (auto simp: strict_def)
    have "g x h' = f x h'" "outcome_ok weak h' (f x h')"
      using runsD [OF assms(2) h'(1)] by auto
    then show ?thesis
      using x p(1) outcome_ok_after [OF _ h'(2,3)] by (auto simp: bnd_def)
  qed (use p in \<open>auto simp: bnd_def\<close>)
qed

lemma runs_then:
  assumes "runs weak k p q" and "\<And>x. runs S k (f x) (g x)"
  shows "runs S k (bnd p f) (bnd q g)"
  unfolding runs_def
proof (intro allI impI)
  fix h
  assume k: "todo h < k"
  have p: "q h = p h" "outcome_ok weak h (p h)" using runsD [OF assms(1) k] by auto
  show "bnd q g h = bnd p f h \<and> outcome_ok S h (bnd p f h)"
  proof (cases "p h")
    case (Ok xh)
    then obtain x h' where x: "p h = Ok (x, h')" by (cases xh) auto
    with p k have h': "todo h' < k" "todo h' \<le> todo h" "code (stat h') = code (stat h)" by auto
    have "g x h' = f x h'" "outcome_ok S h' (f x h')"
      using runsD [OF assms(2) h'(1)] by auto
    then show ?thesis
      using x p(1) outcome_ok_trans [OF _ h'(2,3)] by (auto simp: bnd_def)
  qed (use p in \<open>auto simp: bnd_def\<close>)
qed

lemma runs_thn_first: "runs strict k p q \<Longrightarrow> runs weak (k - 1) p' q' \<Longrightarrow> runs S k (thn p p') (thn q q')"
  unfolding thn_def by (rule runs_first)

lemma runs_thn: "runs weak k p q \<Longrightarrow> runs S k p' q' \<Longrightarrow> runs S k (thn p p') (thn q q')"
  unfolding thn_def by (rule runs_then)

lemma runs_if:
  "(b \<Longrightarrow> runs S k p q) \<Longrightarrow> (\<not> b \<Longrightarrow> runs S k p' q') \<Longrightarrow>
   runs S k (if b then p else p') (if b then q else q')"
  by simp

lemma runs_prod:
  "(\<And>a b. runs S k (f a b) (g a b)) \<Longrightarrow>
   runs S k (case x of (a, b) \<Rightarrow> f a b) (case x of (a, b) \<Rightarrow> g a b)"
  by (cases x) simp

lemma runs_option:
  "(\<And>x. runs S k (f x) (g x)) \<Longrightarrow> runs S k p q \<Longrightarrow>
   runs S k (case r of Some x \<Rightarrow> f x | None \<Rightarrow> p) (case r of Some x \<Rightarrow> g x | None \<Rightarrow> q)"
  by (cases r) simp_all

section \<open>The queue operations\<close>

lemma LookNextTok_cases:
  obtains t s where "LookNextTok h = Ok (t, \<lparr>stat = s, queue = queue h @ [TokInfo.truncate s]\<rparr>)"
      "code s = code (stat h)" "cur (stat h) < cur s" "cur (stat h) < length (code (stat h))"
  | e where "LookNextTok h = Err e" "e \<in> program_failures"
proof (cases "GetNextToken (stat h)")
  case (Ok s)
  then show ?thesis
    using that(1) GetNextToken_forward [OF Ok] GetNextToken_advances [OF Ok]
    by (auto simp: LookNextTok_def)
next
  case (Err e)
  then show ?thesis
    using that(2) GetNextToken_failure [OF Err] by (auto simp: LookNextTok_def program_failures_def)
qed

lemma runs_LookNextTok: "runs strict k LookNextTok LookNextTok"
  unfolding runs_def
proof (intro allI impI conjI refl)
  fix h
  show "outcome_ok strict h (LookNextTok h)"
    by (rule LookNextTok_cases [of h]) (auto simp: todo_def)
qed

lemma Pop_eq:
  "Pop h = (case queue h of
     t # ts \<Rightarrow> Ok (t, h\<lparr>queue := ts\<rparr>)
   | [] \<Rightarrow> (case GetNextToken (stat h) of
         Ok s \<Rightarrow> Ok (TokInfo.truncate s, \<lparr>stat = s, queue = []\<rparr>) | Err e \<Rightarrow> Err e))"
  by (cases "queue h")
    (simp_all add: Pop_def bnd_def thn_def h_empty_def LookNextTok_def ret_def h_front_def h_pop_def
      split: res.split)

lemma GetNextToken_outcome:
  "queue h = [] \<Longrightarrow>
   outcome_ok strict h (case GetNextToken (stat h) of
       Ok s \<Rightarrow> Ok (TokInfo.truncate s, \<lparr>stat = s, queue = []\<rparr>) | Err e \<Rightarrow> Err e)"
proof (cases "GetNextToken (stat h)")
  case (Ok s)
  then show ?thesis
    using GetNextToken_forward [OF Ok] GetNextToken_advances [OF Ok]
    by (auto simp: todo_def)
next
  case (Err e)
  then show ?thesis
    using GetNextToken_failure [OF Err] by (auto simp: program_failures_def)
qed

lemma runs_Pop: "runs strict k Pop Pop"
  unfolding runs_def
proof (intro allI impI conjI refl)
  fix h
  show "outcome_ok strict h (Pop h)"
    using GetNextToken_outcome [of h] by (cases "queue h") (simp_all add: Pop_eq todo_def)
qed

lemma FrontTok_eq:
  "FrontTok h = (case queue h of t # ts \<Rightarrow> Ok (tok t, h) | [] \<Rightarrow> LookNextTok h)"
  by (cases "queue h") (simp_all add: FrontTok_def bnd_def h_empty_def h_front_def ret_def)

lemma runs_FrontTok: "runs weak k FrontTok FrontTok"
  unfolding runs_def
proof (intro allI impI conjI refl)
  fix h
  show "outcome_ok weak h (FrontTok h)"
  proof (cases "queue h")
    case Nil
    then show ?thesis
      using runsD [OF runs_weaken [OF runs_LookNextTok], of h "Suc (todo h)"] by (simp add: FrontTok_eq)
  qed (auto simp: FrontTok_eq)
qed

text \<open>A token that is looked at can be removed: \<open>pop\<close> never meets an empty queue.\<close>

definition feeds :: "Token parser \<Rightarrow> bool" where
  "feeds p \<longleftrightarrow> (\<forall>h t h'. p h = Ok (t, h') \<longrightarrow>
     (\<exists>h''. h_pop h' = Ok ((), h'') \<and> todo h'' < todo h \<and> code (stat h'') = code (stat h)))"

lemma feeds_LookNextTok: "feeds LookNextTok"
  unfolding feeds_def
proof (intro allI impI)
  fix h t h'
  assume "LookNextTok h = Ok (t, h')"
  then show "\<exists>h''. h_pop h' = Ok ((), h'') \<and> todo h'' < todo h \<and> code (stat h'') = code (stat h)"
    by (cases rule: LookNextTok_cases [of h]; cases "queue h") (auto simp: h_pop_def todo_def)
qed

lemma feeds_FrontTok: "feeds FrontTok"
  unfolding feeds_def
proof (intro allI impI)
  fix h t h'
  assume "FrontTok h = Ok (t, h')"
  then show "\<exists>h''. h_pop h' = Ok ((), h'') \<and> todo h'' < todo h \<and> code (stat h'') = code (stat h)"
  proof (cases "queue h")
    case Nil
    with \<open>FrontTok h = Ok (t, h')\<close> show ?thesis
      using feeds_LookNextTok unfolding feeds_def FrontTok_eq by simp
  next
    case (Cons t' ts)
    with \<open>FrontTok h = Ok (t, h')\<close> show ?thesis by (auto simp: FrontTok_eq h_pop_def todo_def)
  qed
qed

lemma runs_feed_pop:
  assumes "feeds p" and "runs weak k p p"
    and "\<And>t. C t \<Longrightarrow> runs weak (k - 1) q q'" and "\<And>t. \<not> C t \<Longrightarrow> runs S k (r t) (r' t)"
  shows "runs S k (bnd p (\<lambda>t. if C t then thn h_pop q else r t))
    (bnd p (\<lambda>t. if C t then thn h_pop q' else r' t))"
  unfolding runs_def
proof (intro allI impI)
  fix h
  assume k: "todo h < k"
  have p: "outcome_ok weak h (p h)" using runsD [OF assms(2) k] by simp
  show "bnd p (\<lambda>t. if C t then thn h_pop q' else r' t) h = bnd p (\<lambda>t. if C t then thn h_pop q else r t) h
    \<and> outcome_ok S h (bnd p (\<lambda>t. if C t then thn h_pop q else r t) h)"
  proof (cases "p h")
    case (Ok th)
    then obtain t h' where t: "p h = Ok (t, h')" by (cases th) auto
    with p have h': "todo h' \<le> todo h" "code (stat h') = code (stat h)" by auto
    show ?thesis
    proof (cases "C t")
      case True
      obtain h'' where h'': "h_pop h' = Ok ((), h'')" "todo h'' < todo h" "code (stat h'') = code (stat h)"
        using assms(1) t unfolding feeds_def by blast
      then have "q' h'' = q h''" "outcome_ok weak h'' (q h'')"
        using runsD [OF assms(3) [OF True], of h''] k by auto
      then show ?thesis
        using t True h'' outcome_ok_after [OF _ h''(2,3)] by (auto simp: bnd_def thn_def)
    next
      case False
      then have "r' t h' = r t h'" "outcome_ok S h' (r t h')"
        using runsD [OF assms(4) [OF False], of h'] k h' by auto
      then show ?thesis
        using t False outcome_ok_trans [OF _ h'] by (auto simp: bnd_def)
    qed
  qed (use p in \<open>auto simp: bnd_def\<close>)
qed

lemmas runs_front_pop = runs_feed_pop [OF feeds_FrontTok runs_FrontTok]

lemma runs_look_pop:
  "(\<And>t. C t \<Longrightarrow> runs weak (k - 1) q q') \<Longrightarrow> (\<And>t. \<not> C t \<Longrightarrow> runs S k (r t) (r' t)) \<Longrightarrow>
   runs S k (bnd LookNextTok (\<lambda>t. if C t then thn h_pop q else r t))
     (bnd LookNextTok (\<lambda>t. if C t then thn h_pop q' else r' t))"
  by (rule runs_feed_pop [OF feeds_LookNextTok runs_weaken [OF runs_LookNextTok]])

lemma runs_less: "runs weak k p q \<Longrightarrow> runs weak (k - 1) p q"
  by (rule runs_mono [where S = weak]) auto

lemma runs_front_pop_weak:
  "(\<And>t. C t \<Longrightarrow> runs weak k q q') \<Longrightarrow> (\<And>t. \<not> C t \<Longrightarrow> runs S k (r t) (r' t)) \<Longrightarrow>
   runs S k (bnd FrontTok (\<lambda>t. if C t then thn h_pop q else r t))
     (bnd FrontTok (\<lambda>t. if C t then thn h_pop q' else r' t))"
  by (rule runs_front_pop) (auto intro!: runs_less [simplified])

lemma runs_look_pop_weak:
  "(\<And>t. C t \<Longrightarrow> runs weak k q q') \<Longrightarrow> (\<And>t. \<not> C t \<Longrightarrow> runs S k (r t) (r' t)) \<Longrightarrow>
   runs S k (bnd LookNextTok (\<lambda>t. if C t then thn h_pop q else r t))
     (bnd LookNextTok (\<lambda>t. if C t then thn h_pop q' else r' t))"
  by (rule runs_look_pop) (auto intro!: runs_less [simplified])

lemma runs_CHECK_AND_POP: "runs strict k (CHECK_AND_POP t) (CHECK_AND_POP t)"
  unfolding CHECK_AND_POP_def by (rule runs_first [OF runs_Pop runs_chk])

lemma runs_PopTok: "runs strict k (PopTok t) (PopTok t)"
  unfolding PopTok_def
  by (rule runs_first [OF runs_Pop]) (intro runs_thn runs_chk runs_ret_weak)

lemma runs_ReadAttrNode: "runs weak k ReadAttrNode ReadAttrNode"
  by (auto simp: runs_def ReadAttrNode_def todo_def program_failures_def split: option.split)

lemma runs_checked: "runs (\<lambda>r. r \<noteq> None) k p q \<Longrightarrow> runs strict k (checked p) (checked q)"
  unfolding runs_def checked_def bnd_def
  by (auto simp: outcome_ok_def ret_def fail_def program_failures_def strict_def split: res.splits option.splits)

lemma runs_some: "runs strict k p q \<Longrightarrow> runs (\<lambda>r. r \<noteq> None) k (some p) (some q)"
  unfolding runs_def some_def bnd_def
  by (auto simp: outcome_ok_def ret_def strict_def split: res.splits)

lemma runs_int64_neg: "runs weak k (int64_neg v) (int64_neg v)"
  by (simp add: int64_neg_def runs_ret_weak runs_fail program_failures_def)


section \<open>Parsers without parameters\<close>

lemma after_first: "runs weak n p q \<Longrightarrow> runs weak (Suc n - 1) p q"
  by simp

lemmas runs_leaves =
  runs_weaken [OF runs_CHECK_AND_POP] runs_weaken [OF runs_PopTok] runs_weaken [OF runs_Pop]
  runs_weaken [OF runs_LookNextTok] runs_FrontTok runs_chk runs_h_size runs_ReadAttrNode
  runs_int64_neg

declare runs_leaves [safe_intros] runs_front_pop_weak [safe_intros] runs_look_pop_weak [safe_intros]
  runs_then [safe_intros] runs_thn [safe_intros] runs_if [safe_intros] runs_prod [safe_intros]
  runs_option [safe_intros] runs_ret_weak [safe_intros]

lemma runs_ParseCallTail [safe_intros]: "runs weak k ParseCallTail ParseCallTail"
  unfolding ParseCallTail_def by (intro safe_intros)

lemma runs_ParseSigns:
  "k \<le> N \<Longrightarrow> k \<le> N' \<Longrightarrow> 0 < N \<Longrightarrow> 0 < N' \<Longrightarrow> runs weak k (ParseSigns N sign c) (ParseSigns N' sign c)"
proof (induction k arbitrary: N N' sign c)
  case 0
  then show ?case by (simp add: runs_none)
next
  case (Suc k)
  then obtain M M' where "N = Suc M" "N' = Suc M'" by (metis gr0_conv_Suc)
  have "runs weak k (ParseSigns M sign c) (ParseSigns M' sign c)" for sign c
    using Suc \<open>N = Suc M\<close> \<open>N' = Suc M'\<close> by (cases "k = 0") (auto intro: runs_none)
  with \<open>N = Suc M\<close> \<open>N' = Suc M'\<close> show ?case
    by (auto intro!: runs_first [OF runs_Pop] runs_ret_weak)
qed

lemma runs_ParseImmNum:
  assumes "k \<le> N" and "k \<le> N'"
  shows "runs strict k (ParseImmNum N) (ParseImmNum N')"
proof (cases "k = 0")
  case False
  then have "runs weak (k - 1) (ParseSigns N sign c) (ParseSigns N' sign c)" for sign c
    using assms by (intro runs_ParseSigns) auto
  then show ?thesis
    unfolding ParseImmNum_def by (intro runs_first [OF runs_Pop] safe_intros)
qed (simp add: runs_none)


lemmas runs_ImmNum_weak = runs_weaken [OF runs_ParseImmNum]

lemma runs_ParseBound:
  "k \<le> N \<Longrightarrow> k \<le> N' \<Longrightarrow> runs strict k (ParseBound N) (ParseBound N')"
  unfolding ParseBound_def
  by (intro runs_thn_first [OF runs_CHECK_AND_POP] safe_intros runs_ImmNum_weak) auto

lemma runs_ParseExtents:
  "k \<le> n \<Longrightarrow> k \<le> n' \<Longrightarrow> 0 < n \<Longrightarrow> 0 < n' \<Longrightarrow> k \<le> N \<Longrightarrow> k \<le> N' \<Longrightarrow>
   runs weak k (ParseExtents N n) (ParseExtents N' n')"
proof (induction k arbitrary: n n')
  case 0
  then show ?case by (simp add: runs_none)
next
  case (Suc k)
  then obtain m m' where n: "n = Suc m" "n' = Suc m'" by (metis gr0_conv_Suc)
  have "runs weak k (ParseExtents N m) (ParseExtents N' m')"
    using Suc n by (cases "k = 0") (auto intro: runs_none)
  moreover have "k \<le> N" "k \<le> N'" using Suc.prems by auto
  ultimately show ?case
    unfolding n ParseExtents.simps
    by (intro runs_front_pop safe_intros runs_ImmNum_weak) simp_all
qed

lemma runs_ParseBoundTail:
  "k \<le> n \<Longrightarrow> k \<le> n' \<Longrightarrow> 0 < n \<Longrightarrow> 0 < n' \<Longrightarrow> k \<le> N \<Longrightarrow> k \<le> N' \<Longrightarrow>
   runs weak k (ParseBoundTail N n) (ParseBoundTail N' n')"
proof (induction k arbitrary: n n')
  case 0
  then show ?case by (simp add: runs_none)
next
  case (Suc k)
  then obtain m m' where n: "n = Suc m" "n' = Suc m'" by (metis gr0_conv_Suc)
  have "runs weak k (ParseBoundTail N m) (ParseBoundTail N' m')"
    using Suc n by (cases "k = 0") (auto intro: runs_none)
  moreover have "k \<le> N" "k \<le> N'" using Suc.prems by auto
  ultimately show ?case
    unfolding n ParseBoundTail.simps
    by (intro runs_front_pop safe_intros runs_weaken [OF runs_ParseBound]) simp_all
qed

lemma runs_skip_endlines:
  "k \<le> n \<Longrightarrow> k \<le> n' \<Longrightarrow> 0 < n \<Longrightarrow> 0 < n' \<Longrightarrow> runs weak k (skip_endlines n) (skip_endlines n')"
proof (induction k arbitrary: n n')
  case 0
  then show ?case by (simp add: runs_none)
next
  case (Suc k)
  then obtain m m' where n: "n = Suc m" "n' = Suc m'" by (metis gr0_conv_Suc)
  have "runs weak k (skip_endlines m) (skip_endlines m')"
    using Suc n by (cases "k = 0") (auto intro: runs_none)
  then show ?case
    unfolding n skip_endlines.simps by (intro runs_front_pop safe_intros) simp_all
qed

section \<open>Expressions\<close>

locale expression_parser =
  fixes pe pe' :: "ASTExpr option parser" and n N N' :: nat
  assumes expr_runs: "runs (\<lambda>r. r \<noteq> None) n pe pe'"
    and enough: "n \<le> N" "n \<le> N'"
begin

lemma expr_checked: "runs weak n (checked pe) (checked pe')"
  by (rule runs_weaken [OF runs_checked [OF expr_runs]])

lemma imm_num: "runs weak n (ParseImmNum N) (ParseImmNum N')"
  by (rule runs_ImmNum_weak) (fact enough)+

lemma param_tail:
  "k \<le> n \<Longrightarrow> k \<le> m \<Longrightarrow> k \<le> m' \<Longrightarrow> 0 < m \<Longrightarrow> 0 < m' \<Longrightarrow>
   runs weak k (ParseParamTail m pe) (ParseParamTail m' pe')"
proof (induction k arbitrary: m m')
  case 0
  then show ?case by (simp add: runs_none)
next
  case (Suc k)
  then obtain l l' where m: "m = Suc l" "m' = Suc l'" by (metis gr0_conv_Suc)
  have "runs weak k (ParseParamTail l pe) (ParseParamTail l' pe')"
    using Suc m by (cases "k = 0") (auto intro: runs_none)
  moreover have "runs weak k (checked pe) (checked pe')"
    using expr_checked Suc.prems by (auto intro: runs_mono)
  ultimately show ?case
    unfolding m ParseParamTail.simps by (intro runs_front_pop safe_intros) simp_all
qed

lemma param_list: "runs weak n (ParseParamList N pe) (ParseParamList N' pe')"
proof (cases "n = 0")
  case False
  then have "runs weak n (ParseParamTail N pe) (ParseParamTail N' pe')"
    using enough by (intro param_tail) auto
  then show ?thesis
    unfolding ParseParamList_def by (intro safe_intros expr_checked)
qed (simp add: runs_none)

lemma args: "runs weak n (ParseArgs N pe) (ParseArgs N' pe')"
  unfolding ParseArgs_def by (intro safe_intros param_list)

lemmas expr_intros = runs_thn_first [OF runs_CHECK_AND_POP after_first]
  runs_first [OF runs_PopTok after_first] runs_first [OF runs_Pop after_first]
  safe_intros expr_checked imm_num args param_list

lemma cast: "runs strict (Suc n) (ParseCast pe) (ParseCast pe')"
  unfolding ParseCast_def by (intro expr_intros)

lemma select: "runs strict (Suc n) (ParseSelect pe) (ParseSelect pe')"
  unfolding ParseSelect_def by (intro expr_intros)

lemma max_min: "runs strict (Suc n) (ParseMaxMin pe) (ParseMaxMin pe')"
  unfolding ParseMaxMin_def by (intro expr_intros)

lemma let_expr: "runs strict (Suc n) (ParseLetExpr pe) (ParseLetExpr pe')"
  unfolding ParseLetExpr_def by (intro expr_intros)

lemma not_expr: "runs strict (Suc n) (ParseNot pe) (ParseNot pe')"
  unfolding ParseNot_def by (intro expr_intros)

lemma bin_expr: "runs strict (Suc n) (ParseBinExpr pe) (ParseBinExpr pe')"
  unfolding ParseBinExpr_def by (intro expr_intros)

lemma call: "runs strict (Suc n) (ParseCall N pe) (ParseCall N' pe')"
  unfolding ParseCall_def by (intro runs_then [OF runs_h_size] runs_thn [OF runs_chk] expr_intros)

lemma load: "runs strict (Suc n) (ParseLoad N pe) (ParseLoad N' pe')"
  unfolding ParseLoad_def by (intro expr_intros)

lemmas expr_parsers = cast select max_min let_expr not_expr bin_expr call load

lemma expr_body:
  assumes "Suc n \<le> N" and "Suc n \<le> N'"
  shows "runs (\<lambda>r. r \<noteq> None) (Suc n) (ParseExprBody N pe) (ParseExprBody N' pe')"
  unfolding ParseExprBody_def
  by (intro runs_then [OF runs_FrontTok] runs_then [OF runs_weaken [OF runs_LookNextTok]]
      runs_if runs_some expr_parsers runs_ParseImmNum runs_first [OF runs_Pop]
      runs_leaves runs_thn runs_ret_weak assms) (auto intro: runs_ret)

end

lemma ParseExpr_runs:
  "runs (\<lambda>r. r \<noteq> None) (min (min n N) (min n' N')) (ParseExpr N n) (ParseExpr N' n')"
proof (induction n arbitrary: n')
  case 0
  then show ?case by (simp add: runs_none)
next
  case (Suc n)
  let ?k = "min (min (Suc n) N) (min n' N')"
  show ?case
  proof (cases "?k = 0")
    case True
    then show ?thesis by (rule runs_none)
  next
    case False
    then obtain m' where n': "n' = Suc m'" by (cases n') auto
    define m where "m = ?k - 1"
    with False n' have k: "?k = Suc m" "m \<le> n" "m \<le> m'" "Suc m \<le> N" "Suc m \<le> N'" by auto
    have "runs (\<lambda>r. r \<noteq> None) m (ParseExpr N n) (ParseExpr N' m')"
      by (rule runs_mono [OF Suc.IH]) (use k in auto)
    then have "expression_parser (ParseExpr N n) (ParseExpr N' m') m N N'"
      using k by unfold_locales auto
    then show ?thesis
      unfolding n' ParseExpr.simps k(1) [unfolded n'] using k by (intro expression_parser.expr_body) auto
  qed
qed

interpretation expr: expression_parser "ParseExpr N n" "ParseExpr N' n'"
    "min (min n N) (min n' N')" N N' for N n N' n'
  by unfold_locales (rule ParseExpr_runs, auto)

section \<open>Statements\<close>

text \<open>The statement parsers, whose nested lists have one unit of fuel less.\<close>

locale statement_parser =
  fixes pe pe' :: "ASTExpr option parser" and psl psl' :: "ASTStmt list parser" and n N N' :: nat
  assumes exprs_run: "runs (\<lambda>r. r \<noteq> None) (Suc n) pe pe'"
    and stmts_run: "runs weak n psl psl'"
    and more: "Suc n \<le> N" "Suc n \<le> N'"

sublocale statement_parser \<subseteq> expression_parser pe pe' n N N'
  by unfold_locales (use exprs_run more in \<open>auto intro: runs_mono\<close>)

context statement_parser begin

lemma stmt_body: "runs weak n (ParseStmtBody psl) (ParseStmtBody psl')"
  unfolding ParseStmtBody_def by (intro safe_intros stmts_run)

lemma extents: "runs weak n (ParseExtents N N) (ParseExtents N' N')"
  using more by (intro runs_ParseExtents) auto

lemma bound_tail: "runs weak n (ParseBoundTail N N) (ParseBoundTail N' N')"
  using more by (intro runs_ParseBoundTail) auto

lemma bound: "runs weak n (ParseBound N) (ParseBound N')"
  using enough by (intro runs_weaken [OF runs_ParseBound])

lemmas stmt_intros = expr_intros stmts_run stmt_body extents bound_tail bound

lemma let_stmt: "runs strict (Suc n) (ParseLet pe psl) (ParseLet pe' psl')"
  unfolding ParseLet_def by (intro stmt_intros)

lemma attr_stmt: "runs strict (Suc n) (ParseAttr pe psl) (ParseAttr pe' psl')"
  unfolding ParseAttr_def by (intro stmt_intros)

lemma assert_stmt: "runs strict (Suc n) (ParseAssert pe psl) (ParseAssert pe' psl')"
  unfolding ParseAssert_def by (intro stmt_intros)

lemma allocate_stmt: "runs strict (Suc n) (ParseAllocate N psl) (ParseAllocate N' psl')"
  unfolding ParseAllocate_def by (intro stmt_intros)

lemma produce_stmt: "runs strict (Suc n) (ParseProduce psl) (ParseProduce psl')"
  unfolding ParseProduce_def by (intro stmt_intros)

lemma realize_stmt: "runs strict (Suc n) (ParseRealize N psl) (ParseRealize N' psl')"
  unfolding ParseRealize_def by (intro stmt_intros)

lemma for_stmt: "runs strict (Suc n) (ParseFor pe psl) (ParseFor pe' psl')"
  unfolding ParseFor_def by (intro stmt_intros)

lemma store_stmt: "runs strict (Suc n) (ParseStore N pe) (ParseStore N' pe')"
  unfolding ParseStore_def by (intro stmt_intros)

lemma provide_stmt: "runs strict (Suc n) (ParseProvide N pe) (ParseProvide N' pe')"
  unfolding ParseProvide_def by (intro stmt_intros)

lemma if_stmt:
  "k \<le> Suc n \<Longrightarrow> k \<le> m \<Longrightarrow> k \<le> m' \<Longrightarrow> runs strict k (ParseIf m pe psl) (ParseIf m' pe' psl')"
proof (induction k arbitrary: m m')
  case 0
  then show ?case by (simp add: runs_none)
next
  case (Suc k)
  then obtain l l' where m: "m = Suc l" "m' = Suc l'" "k \<le> l" "k \<le> l'"
    by (metis Suc_le_D Suc_le_mono)
  have "runs weak k (ParseIf l pe psl) (ParseIf l' pe' psl')"
    using Suc m by (intro runs_weaken [OF Suc.IH]) auto
  moreover have "runs weak k (checked pe) (checked pe')"
    using expr_checked Suc.prems(1) by (auto intro: runs_mono)
  moreover have "runs weak k (ParseStmtBody psl) (ParseStmtBody psl')"
    using stmt_body Suc.prems(1) by (auto intro: runs_mono)
  ultimately show ?case
    unfolding m ParseIf.simps
    by (intro runs_thn_first [OF runs_CHECK_AND_POP after_first] safe_intros)
qed

lemmas stmt_parsers = let_stmt attr_stmt assert_stmt allocate_stmt produce_stmt realize_stmt
  for_stmt store_stmt provide_stmt

lemma stmt: "runs (\<lambda>r. r \<noteq> None) (Suc n) (ParseStmt N pe psl) (ParseStmt N' pe' psl')"
proof -
  have look: "runs weak (Suc n) (if f = kID then bnd LookNextTok (\<lambda>t. ret (Some t)) else ret None)
      (if f = kID then bnd LookNextTok (\<lambda>t. ret (Some t)) else ret None)" for f
    by (intro safe_intros)
  have expr: "runs (\<lambda>r. r \<noteq> None) (Suc n) (bnd pe (\<lambda>value. ret (map_option ASTEvaluate value)))
      (bnd pe' (\<lambda>value. ret (map_option ASTEvaluate value)))"
    using exprs_run unfolding runs_def bnd_def
    by (auto simp: outcome_ok_def ret_def split: res.splits)
  show ?thesis
    unfolding ParseStmt_def
    by (intro runs_then [OF runs_FrontTok] runs_if runs_some stmt_parsers if_stmt more le_refl
        runs_then [OF look] expr)
qed

end

lemma runs_list_step:
  assumes "runs (\<lambda>r. r \<noteq> None) k p q" and "\<And>x. runs weak (k - 1) (f x) (g x)"
    and "runs weak k r r'"
  shows "runs weak k (bnd p (\<lambda>node. case node of Some x \<Rightarrow> f x | None \<Rightarrow> r))
    (bnd q (\<lambda>node. case node of Some x \<Rightarrow> g x | None \<Rightarrow> r'))"
  unfolding runs_def
proof (intro allI impI)
  fix h
  let ?P = "bnd p (\<lambda>node. case node of Some x \<Rightarrow> f x | None \<Rightarrow> r) h"
  let ?Q = "bnd q (\<lambda>node. case node of Some x \<Rightarrow> g x | None \<Rightarrow> r') h"
  assume k: "todo h < k"
  have p: "q h = p h" "outcome_ok (\<lambda>r. r \<noteq> None) h (p h)" using runsD [OF assms(1) k] by auto
  show "?Q = ?P \<and> outcome_ok weak h ?P"
  proof (cases "p h")
    case (Ok xh)
    then obtain y h' where y: "p h = Ok (y, h')" by (cases xh) auto
    with p have h': "todo h' \<le> todo h" "code (stat h') = code (stat h)" by auto
    show ?thesis
    proof (cases y)
      case None
      have "r' h' = r h'" "outcome_ok weak h' (r h')"
        using runsD [OF assms(3), of h'] k h' by auto
      then show ?thesis
        using y p(1) None outcome_ok_trans [OF _ h'] by (auto simp: bnd_def)
    next
      case (Some x)
      with y p have less: "todo h' < todo h" by auto
      then have "g x h' = f x h'" "outcome_ok weak h' (f x h')"
        using runsD [OF assms(2), of h'] k by auto
      then show ?thesis
        using y p(1) Some outcome_ok_after [OF _ less h'(2)] by (auto simp: bnd_def)
    qed
  qed (use p in \<open>auto simp: bnd_def\<close>)
qed

lemma runs_StmtListLoop:
  assumes "runs (\<lambda>r. r \<noteq> None) K ps ps'" and "K \<le> N" and "K \<le> N'"
  shows "k \<le> K \<Longrightarrow> k \<le> n \<Longrightarrow> k \<le> n' \<Longrightarrow> runs weak k (StmtListLoop N n ps) (StmtListLoop N' n' ps')"
proof (induction k arbitrary: n n')
  case 0
  then show ?case by (simp add: runs_none)
next
  case (Suc k)
  then obtain m m' where n: "n = Suc m" "n' = Suc m'" "k \<le> m" "k \<le> m'"
    by (metis Suc_le_D Suc_le_mono)
  have "runs weak (Suc k - 1) (StmtListLoop N m ps) (StmtListLoop N' m' ps')"
    using Suc n by simp
  moreover have "runs (\<lambda>r. r \<noteq> None) (Suc k) ps ps'"
    using assms(1) Suc.prems(1) by (auto intro: runs_mono)
  moreover have "runs weak (Suc k) (skip_endlines N) (skip_endlines N')"
    using assms Suc.prems by (intro runs_skip_endlines) auto
  ultimately show ?case
    unfolding n StmtListLoop.simps by (intro runs_thn runs_list_step runs_then runs_ret_weak)
qed

lemma runs_StmtListBody:
  assumes "runs (\<lambda>r. r \<noteq> None) K ps ps'" and "K \<le> N" and "K \<le> N'"
  shows "runs weak K (StmtListBody N ps) (StmtListBody N' ps')"
proof (cases "K = 0")
  case False
  then have "runs weak K (skip_endlines N) (skip_endlines N')"
    using assms by (intro runs_skip_endlines) auto
  then show ?thesis
    unfolding StmtListBody_def
    by (intro runs_thn runs_then runs_ret_weak runs_weaken [OF runs_checked]
        runs_StmtListLoop [OF assms] assms) (use False in auto)
qed (simp add: runs_none)

lemma ParseStmtList_runs:
  "runs weak (min (min n N) (min n' N')) (ParseStmtList N n) (ParseStmtList N' n')"
proof (induction n arbitrary: n')
  case 0
  then show ?case by (simp add: runs_none)
next
  case (Suc n)
  let ?k = "min (min (Suc n) N) (min n' N')"
  show ?case
  proof (cases "?k = 0")
    case True
    then show ?thesis by (rule runs_none)
  next
    case False
    then obtain m' where n': "n' = Suc m'" by (cases n') auto
    define m where "m = ?k - 1"
    with False n' have k: "?k = Suc m" "m \<le> n" "m \<le> m'" "Suc m \<le> N" "Suc m \<le> N'" by auto
    have "runs weak m (ParseStmtList N n) (ParseStmtList N' m')"
      by (rule runs_mono [OF Suc.IH]) (use k in auto)
    moreover have "runs (\<lambda>r. r \<noteq> None) (Suc m) (ParseExpr N N) (ParseExpr N' N')"
      by (rule runs_mono [OF ParseExpr_runs]) (use k in auto)
    ultimately have "statement_parser (ParseExpr N N) (ParseExpr N' N') (ParseStmtList N n)
        (ParseStmtList N' m') m N N'"
      using k by unfold_locales
    then show ?thesis
      unfolding n' ParseStmtList.simps k(1) [unfolded n']
      using k by (intro runs_StmtListBody statement_parser.stmt) auto
  qed
qed

interpretation stmts: statement_parser "ParseExpr (Suc N) (Suc N)" "ParseExpr (Suc N') (Suc N')"
    "ParseStmtList (Suc N) n" "ParseStmtList (Suc N') n'" "min (min n N) (min n' N')" "Suc N" "Suc N'"
    for N n N' n'
proof unfold_locales
  show "runs (\<lambda>r. r \<noteq> None) (Suc (min (min n N) (min n' N'))) (ParseExpr (Suc N) (Suc N))
      (ParseExpr (Suc N') (Suc N'))"
    by (rule runs_mono [OF ParseExpr_runs]) auto
  show "runs weak (min (min n N) (min n' N')) (ParseStmtList (Suc N) n) (ParseStmtList (Suc N') n')"
    by (rule runs_mono [OF ParseStmtList_runs]) auto
qed auto

section \<open>The whole text\<close>

lemma runs_GenASTLoop:
  assumes "runs (\<lambda>r. r \<noteq> None) K ps ps'"
  shows "k \<le> K \<Longrightarrow> k \<le> n \<Longrightarrow> k \<le> n' \<Longrightarrow> runs weak k (GenASTLoop n ps) (GenASTLoop n' ps')"
proof (induction k arbitrary: n n')
  case 0
  then show ?case by (simp add: runs_none)
next
  case (Suc k)
  then obtain m m' where n: "n = Suc m" "n' = Suc m'" "k \<le> m" "k \<le> m'"
    by (metis Suc_le_D Suc_le_mono)
  have "runs weak (Suc k - 1) (GenASTLoop m ps) (GenASTLoop m' ps')"
    using Suc n by simp
  moreover have "runs strict (Suc k) (checked ps) (checked ps')"
    using assms Suc.prems(1) by (intro runs_checked) (auto intro: runs_mono)
  ultimately show ?case
    unfolding n GenASTLoop.simps
    by (intro runs_then [OF runs_FrontTok] runs_front_pop runs_if runs_ret_weak
        runs_first [of _ "checked ps"] runs_then [of _ "GenASTLoop m ps"])
qed

lemma GenAST_runs:
  assumes "2 * (length (code s) - cur s) < N" and "2 * (length (code s) - cur s) < N'"
  shows "GenAST_fuel N' s = GenAST_fuel N s"
    and "case GenAST_fuel N s of Ok l \<Rightarrow> True | Err e \<Rightarrow> e \<in> program_failures"
proof -
  obtain M M' where N: "N = Suc M" "N' = Suc M'" using assms by (metis gr0_conv_Suc not_less0 zero_less_iff_neq_zero)
  let ?h = "\<lparr>stat = s, queue = []\<rparr>"
  let ?p = "\<lambda>N. GenASTLoop N (ParseStmt N (ParseExpr N N) (ParseStmtList N N))"
  have "runs weak (min N N') (?p N) (?p N')"
    unfolding N by (rule runs_GenASTLoop [OF stmts.stmt]) auto
  moreover have "todo ?h < min N N'" using assms by (simp add: todo_def)
  ultimately have r: "?p N' ?h = ?p N ?h" "outcome_ok weak ?h (?p N ?h)"
    using runsD by blast+
  show "GenAST_fuel N' s = GenAST_fuel N s"
    using r(1) by (simp add: GenAST_fuel_def)
  show "case GenAST_fuel N s of Ok l \<Rightarrow> True | Err e \<Rightarrow> e \<in> program_failures"
    using r(2) by (cases "?p N ?h") (auto simp: GenAST_fuel_def)
qed

text \<open>
  C2: the parser is total: on every non-empty source text it ends, with a list of statements
  or with a failure of the program (a failed check, an unterminated string or attribute read
  out of bounds, the negation of the smallest 64-bit integer). It never runs out of the fuel that
  \<open>GenAST\<close> gives it, and never takes the front of an empty token queue.
\<close>

theorem GenAST_total:
  assumes "GetTokStateFromCode src = Ok s"
  shows "(\<exists>list. GenAST s = Ok list) \<or> (\<exists>e \<in> {Fatal, Out_of_bounds, Signed_overflow}. GenAST s = Err e)"
  using GenAST_runs(2) [of s "parse_fuel s" "parse_fuel s"]
  by (cases "GenAST s") (auto simp: GenAST_def parse_fuel_def program_failures_def)

theorem GenAST_total_witness:
  "\<exists>s. GetTokStateFromCode ''a[0] = 1'' = Ok s \<and>
    ((\<exists>list. GenAST s = Ok list) \<or> (\<exists>e \<in> {Fatal, Out_of_bounds, Signed_overflow}. GenAST s = Err e))"
proof -
  have "GetTokStateFromCode ''a[0] = 1'' \<noteq> Err e" for e
    by (simp add: GetTokStateFromCode_def Let_def)
  then obtain s where s: "GetTokStateFromCode ''a[0] = 1'' = Ok s"
    by (cases "GetTokStateFromCode ''a[0] = 1''") auto
  with GenAST_total [OF s] show ?thesis by blast
qed

text \<open>
  The fuel of the model is immaterial: with any fuel above twice the length of the text the
  parser computes exactly the tree or failure that \<open>GenAST\<close> computes, so \<open>GenAST\<close> is the
  source's unbounded recursion.
\<close>

theorem GenAST_fuel_irrelevant: "GenAST_fuel (parse_fuel s + n) s = GenAST s"
  unfolding GenAST_def by (rule GenAST_runs(1)) (auto simp: parse_fuel_def)

end
