(* ===== verification/Halide_Reads.thy ===== *)
theory Halide_Reads
  imports Halide_Progress
begin

text \<open>
  What the printer of \<open>Halide_Ast\<close> writes, the parser of \<open>Halide_Grammar\<close> reads back, on
  the fragment of trees for which the two agree. \<open>ahead h n r\<close> describes a handler by the
  text \<open>r\<close> it still has to parse, \<open>n\<close> tokens of which are already in its queue, and
  \<open>wp p h \<Phi>\<close> says that the parser \<open>p\<close> succeeds on \<open>h\<close> and ends with \<open>\<Phi>\<close>. The rules of
  \<open>wp_intros\<close> run a parser symbolically over a printed text.
\<close>

section \<open>Handlers seen as text\<close>

definition lexed :: "string \<Rightarrow> TokInfo \<Rightarrow> string \<Rightarrow> bool" where
  "lexed r i r' \<longleftrightarrow>
     (\<exists>s s'. rest s = r \<and> GetNextToken s = Ok s' \<and> i = TokInfo.truncate s' \<and> r' = rest s')"

fun ahead :: "TokHandler \<Rightarrow> nat \<Rightarrow> string \<Rightarrow> bool" where
  "ahead h 0 r \<longleftrightarrow> queue h = [] \<and> rest (stat h) = r"
| "ahead h (Suc n) r \<longleftrightarrow>
     (\<exists>i q r'. queue h = i # q \<and> lexed r i r' \<and> ahead (h\<lparr>queue := q\<rparr>) n r')"

definition wp :: "'a parser \<Rightarrow> TokHandler \<Rightarrow> ('a \<Rightarrow> TokHandler \<Rightarrow> bool) \<Rightarrow> bool" where
  "wp p h \<Phi> \<longleftrightarrow> (\<exists>x h'. p h = Ok (x, h') \<and> \<Phi> x h')"

lemma lexed_reads: "reads r Q r' \<Longrightarrow> lexed r i r'' \<Longrightarrow> Q i \<and> r'' = r'"
  unfolding reads_def lexed_def by (metis res.inject(1))

lemma reads_lexes:
  assumes "reads r Q r'" and "rest s = r"
  obtains s' where "GetNextToken s = Ok s'" "rest s' = r'" "Q (TokInfo.truncate s')"
    "lexed r (TokInfo.truncate s') r'"
proof -
  obtain s' where "GetNextToken s = Ok s'" "rest s' = r'" "Q (TokInfo.truncate s')"
    using assms unfolding reads_def by blast
  with assms(2) that show ?thesis unfolding lexed_def by blast
qed

lemma wp_ret: "\<Phi> x h \<Longrightarrow> wp (ret x) h \<Phi>"
  by (simp add: wp_def ret_def)

lemma wp_bnd: "wp (bnd p f) h \<Phi> \<longleftrightarrow> wp p h (\<lambda>x h'. wp (f x) h' \<Phi>)"
  by (auto simp: wp_def bnd_def split: res.splits)

lemma wp_thn: "wp (thn p q) h \<Phi> \<longleftrightarrow> wp p h (\<lambda>x h'. wp q h' \<Phi>)"
  by (simp add: thn_def wp_bnd)

lemma wp_chk [simp]: "wp (chk b) h \<Phi> \<longleftrightarrow> b \<and> \<Phi> () h"
  by (simp add: wp_def chk_def ret_def fail_def)

lemma wp_mono: "wp p h \<Phi> \<Longrightarrow> (\<And>x h'. \<Phi> x h' \<Longrightarrow> \<Psi> x h') \<Longrightarrow> wp p h \<Psi>"
  unfolding wp_def by blast

lemma wp_Pop:
  assumes "ahead h n r" and "reads r Q r'" and "\<And>i h'. Q i \<Longrightarrow> ahead h' (n - 1) r' \<Longrightarrow> \<Phi> i h'"
  shows "wp Pop h \<Phi>"
proof (cases n)
  case 0
  with assms(1) have h: "queue h = []" "rest (stat h) = r" by simp_all
  from reads_lexes [OF assms(2) h(2)] obtain s' where
    "GetNextToken (stat h) = Ok s'" "rest s' = r'" "Q (TokInfo.truncate s')" .
  with h 0 assms(3) [of "TokInfo.truncate s'" "\<lparr>stat = s', queue = []\<rparr>"] show ?thesis
    by (simp add: wp_def Pop_eq)
next
  case (Suc m)
  with assms(1) obtain i q r'' where
    h: "queue h = i # q" "lexed r i r''" "ahead (h\<lparr>queue := q\<rparr>) m r''" by auto
  with assms(2) lexed_reads have "Q i" "r'' = r'" by blast+
  with h Suc assms(3) [of i "h\<lparr>queue := q\<rparr>"] show ?thesis by (simp add: wp_def Pop_eq)
qed

lemma wp_h_pop:
  assumes "ahead h n r" and "0 < n" and "reads r Q r'" and "\<And>h'. ahead h' (n - 1) r' \<Longrightarrow> \<Phi> () h'"
  shows "wp h_pop h \<Phi>"
proof -
  obtain m where n: "n = Suc m" using assms(2) by (cases n) auto
  with assms(1) obtain i q r'' where
    h: "queue h = i # q" "lexed r i r''" "ahead (h\<lparr>queue := q\<rparr>) m r''" by auto
  with assms(3) lexed_reads have "r'' = r'" by blast
  with h n assms(4) [of "h\<lparr>queue := q\<rparr>"] show ?thesis by (simp add: wp_def h_pop_def)
qed

lemma wp_Look0:
  assumes "ahead h n r" and "n = 0" and "reads r (\<lambda>i. tok i = t) r'"
    and "\<And>h'. ahead h' 1 r \<Longrightarrow> \<Phi> t h'"
  shows "wp LookNextTok h \<Phi>"
proof -
  from assms have h: "queue h = []" "rest (stat h) = r" by simp_all
  from reads_lexes [OF assms(3) h(2)] obtain s' where
    s': "GetNextToken (stat h) = Ok s'" "rest s' = r'" "tok (TokInfo.truncate s') = t"
      "lexed r (TokInfo.truncate s') r'" .
  then have "ahead \<lparr>stat = s', queue = [TokInfo.truncate s']\<rparr> 1 r" by simp
  with h s' assms(4) show ?thesis by (simp add: wp_def LookNextTok_def)
qed

lemma wp_Look1:
  assumes "ahead h n r" and "n = 1" and "reads r Q r'" and "reads r' (\<lambda>i. tok i = t) r''"
    and "\<And>h'. ahead h' 2 r \<Longrightarrow> \<Phi> t h'"
  shows "wp LookNextTok h \<Phi>"
proof -
  from assms(1,2) obtain i r1 where
    h: "queue h = [i]" "lexed r i r1" "rest (stat h) = r1" by auto
  with assms(3) lexed_reads have r1: "r1 = r'" by blast
  with h have "rest (stat h) = r'" by simp
  from reads_lexes [OF assms(4) this] obtain s' where
    s': "GetNextToken (stat h) = Ok s'" "rest s' = r''" "tok (TokInfo.truncate s') = t"
      "lexed r' (TokInfo.truncate s') r''" .
  with h r1 have "ahead \<lparr>stat = s', queue = [i, TokInfo.truncate s']\<rparr> 2 r"
    by (auto simp: numeral_2_eq_2)
  with h s' assms(5) show ?thesis by (simp add: wp_def LookNextTok_def)
qed

lemma wp_FrontTok:
  assumes "ahead h n r" and "reads r (\<lambda>i. tok i = t) r'" and "\<And>h'. ahead h' (max 1 n) r \<Longrightarrow> \<Phi> t h'"
  shows "wp FrontTok h \<Phi>"
proof (cases n)
  case 0
  have "wp LookNextTok h \<Phi>"
    by (rule wp_Look0 [OF assms(1) 0 assms(2)]) (rule assms(3), simp add: 0)
  with 0 assms(1) show ?thesis by (simp add: wp_def FrontTok_eq)
next
  case (Suc m)
  with assms(1) obtain i q r'' where h: "queue h = i # q" "lexed r i r''" by auto
  with assms(2) lexed_reads have "tok i = t" by blast
  with h Suc assms(1,3) show ?thesis by (simp add: wp_def FrontTok_eq)
qed

text \<open>The same rules for a parser followed by the rest of the program, as eliminations.\<close>

lemma run_Pop:
  "ahead h n r \<Longrightarrow> reads r Q r' \<Longrightarrow> (\<And>i h'. Q i \<Longrightarrow> ahead h' (n - 1) r' \<Longrightarrow> wp (f i) h' \<Phi>) \<Longrightarrow>
   wp (bnd Pop f) h \<Phi>"
  unfolding wp_bnd by (rule wp_Pop)

lemma run_check:
  "ahead h n r \<Longrightarrow> reads r (\<lambda>i. tok i = t) r' \<Longrightarrow> (\<And>h'. ahead h' (n - 1) r' \<Longrightarrow> wp p h' \<Phi>) \<Longrightarrow>
   wp (thn (CHECK_AND_POP t) p) h \<Phi>"
  unfolding wp_thn CHECK_AND_POP_def wp_bnd by (erule (1) wp_Pop) simp

lemma run_PopTok:
  "ahead h n r \<Longrightarrow> reads r (\<lambda>i. tok i = t \<and> P i) r' \<Longrightarrow>
   (\<And>i h'. tok i = t \<Longrightarrow> P i \<Longrightarrow> ahead h' (n - 1) r' \<Longrightarrow> wp (f i) h' \<Phi>) \<Longrightarrow>
   wp (bnd (PopTok t) f) h \<Phi>"
  unfolding wp_bnd PopTok_def wp_thn by (erule (1) wp_Pop) (simp add: wp_ret)

lemma run_h_pop:
  "ahead h n r \<Longrightarrow> 0 < n \<Longrightarrow> reads r Q r' \<Longrightarrow> (\<And>h'. ahead h' (n - 1) r' \<Longrightarrow> wp p h' \<Phi>) \<Longrightarrow>
   wp (thn h_pop p) h \<Phi>"
  unfolding wp_thn by (rule wp_h_pop)

lemma run_front:
  "ahead h n r \<Longrightarrow> reads r (\<lambda>i. tok i = t) r' \<Longrightarrow> (\<And>h'. ahead h' (max 1 n) r \<Longrightarrow> wp (f t) h' \<Phi>) \<Longrightarrow>
   wp (bnd FrontTok f) h \<Phi>"
  unfolding wp_bnd by (rule wp_FrontTok)

lemma run_look0:
  "ahead h n r \<Longrightarrow> n = 0 \<Longrightarrow> reads r (\<lambda>i. tok i = t) r' \<Longrightarrow>
   (\<And>h'. ahead h' 1 r \<Longrightarrow> wp (f t) h' \<Phi>) \<Longrightarrow> wp (bnd LookNextTok f) h \<Phi>"
  unfolding wp_bnd by (rule wp_Look0)

lemma run_look1:
  "ahead h n r \<Longrightarrow> n = 1 \<Longrightarrow> reads r Q r' \<Longrightarrow> reads r' (\<lambda>i. tok i = t) r'' \<Longrightarrow>
   (\<And>h'. ahead h' 2 r \<Longrightarrow> wp (f t) h' \<Phi>) \<Longrightarrow> wp (bnd LookNextTok f) h \<Phi>"
  unfolding wp_bnd by (rule wp_Look1)

lemma run_chk: "b \<Longrightarrow> wp p h \<Phi> \<Longrightarrow> wp (thn (chk b) p) h \<Phi>"
  by (simp add: wp_thn)

lemma bnd_assoc [simp]: "bnd (bnd p f) g = bnd p (\<lambda>x. bnd (f x) g)"
  by (rule ext) (simp add: bnd_def split: res.split)

lemma bnd_thn [simp]: "bnd (thn p q) g = thn p (bnd q g)"
  by (simp add: thn_def)

lemma thn_assoc [simp]: "thn (thn p q) g = thn p (thn q g)"
  by (simp add: thn_def)

lemma bnd_ret [simp]: "bnd (ret x) f = f x"
  by (rule ext) (simp add: bnd_def ret_def)

lemma thn_bnd [simp]: "thn (bnd p f) q = bnd p (\<lambda>x. thn (f x) q)"
  by (simp add: thn_def)

lemma thn_ret [simp]: "thn (ret x) q = q"
  by (simp add: thn_def)

section \<open>Tokens of the printed text\<close>

lemma reads_tok: "reads r (\<lambda>i. tok i = t \<and> P i) r' \<Longrightarrow> reads r (\<lambda>i. tok i = t) r'"
  by (erule reads_mono) simp

lemma reads_keywords [lex_intros]:
  "word_stop r \<Longrightarrow> reads (''select'' @ r) (\<lambda>i. tok i = kSELECT) r"
  "word_stop r \<Longrightarrow> reads (''let'' @ r) (\<lambda>i. tok i = kLET) r"
  "word_stop r \<Longrightarrow> reads (''in'' @ r) (\<lambda>i. tok i = kIN) r"
  "word_stop r \<Longrightarrow> reads (''if'' @ r) (\<lambda>i. tok i = kIF) r"
  "word_stop r \<Longrightarrow> reads (''else'' @ r) (\<lambda>i. tok i = kELSE) r"
  "word_stop r \<Longrightarrow> reads (''for'' @ r) (\<lambda>i. tok i = kFOR) r"
  "word_stop r \<Longrightarrow> reads (''attr'' @ r) (\<lambda>i. tok i = kATTR) r"
  "word_stop r \<Longrightarrow> reads (''produce'' @ r) (\<lambda>i. tok i = kPRODUCE) r"
  "word_stop r \<Longrightarrow> reads (''realize'' @ r) (\<lambda>i. tok i = kREALIZE) r"
  "word_stop r \<Longrightarrow> reads (''allocate'' @ r) (\<lambda>i. tok i = kALLOCATE) r"
  by (rule reads_keyword; simp add: g_str2key_def word_shaped_def IsIdStart_def IsIdBody_def)+

lemma word_stop_Cons [simp]: "word_stop (c # r) \<longleftrightarrow> \<not> IsIdBody c"
  by (simp add: word_stop_def)

lemma not_IsIdBody [simp]:
  "\<not> IsIdBody CHR 0x20" "\<not> IsIdBody CHR 0x28" "\<not> IsIdBody CHR 0x29" "\<not> IsIdBody CHR 0x5B"
  "\<not> IsIdBody CHR 0x5D" "\<not> IsIdBody CHR 0x2C" "\<not> IsIdBody CHR 0x3C" "\<not> IsIdBody CHR 0x3E" "\<not> IsIdBody NEWLINE"
  by (simp_all add: IsIdBody_def IsIdStart_def isdigit_def NEWLINE_def)

lemma IsBlank_space [simp]: "IsBlank CHR 0x20"
  by (simp add: IsBlank_def)

lemma reads_space [lex_intros]: "reads r Q r' \<Longrightarrow> reads (CHR 0x20 # r) Q r'"
  by (rule reads_blank) simp_all

lemma reads_spaces [lex_intros]: "reads r Q r' \<Longrightarrow> reads (PrintIndent k @ r) Q r'"
  by (induction k) (simp_all add: PrintIndent_def reads_space)

definition delim :: "string \<Rightarrow> bool" where
  "delim r \<longleftrightarrow> r \<noteq> [] \<and> hd r \<in> {CHR '','', CHR '')'', CHR '']'', CHR '' '', NEWLINE}"

lemma delim_number: "delim r \<Longrightarrow> r \<noteq> [] \<and> \<not> isdigit (hd r) \<and> hd r \<notin> {CHR ''.'', CHR ''h'', CHR ''f'', CHR ''x''}"
  by (auto simp: delim_def isdigit_def NEWLINE_def)

lemma delim_word: "delim r \<Longrightarrow> word_stop r"
  by (auto simp: delim_def word_stop_def)

lemma delim_Cons [simp]: "delim (c # r) \<longleftrightarrow> c \<in> {CHR '','', CHR '')'', CHR '']'', CHR '' '', NEWLINE}"
  by (simp add: delim_def)

lemma reads_num:
  "n < 2 ^ 64 \<Longrightarrow> delim r \<Longrightarrow>
   reads (show_nat n @ r) (\<lambda>i. tok i = kNUMBER \<and> itype i = kUINT \<and> uval i = word_of_nat n) r"
  by (rule reads_number) (use delim_number in blast)+

section \<open>Immediate numbers\<close>

fun plain_imm :: "ASTExpr \<Rightarrow> bool" where
  "plain_imm (ASTIntImm v b) \<longleftrightarrow> sint v \<noteq> - (2 ^ 63) \<and> printable_type kINT b"
| "plain_imm (ASTUIntImm v b) \<longleftrightarrow> printable_type kUINT b"
| "plain_imm _ \<longleftrightarrow> False"

lemma word_of_nonneg: "0 \<le> sint v \<Longrightarrow> word_of_nat (nat (sint v)) = (v :: 64 word)"
  by simp

lemma sint64_range: "- (2 ^ 63) \<le> sint (v :: 64 word) \<and> sint v < 2 ^ 63"
  using sint_ge [of v] sint_lt [of v] by simp

lemma int64_neg_back:
  assumes "sint v < 0" and "sint v \<noteq> - (2 ^ 63)"
  shows "int64_neg (word_of_nat (nat (- sint v))) = ret (v :: 64 word)"
proof -
  have w: "word_of_nat (nat (- sint v)) = - v" using assms(1) by simp
  have "sint (- v) \<noteq> - (2 ^ 63)"
  proof
    assume "sint (- v) = - (2 ^ 63)"
    moreover have "word_of_int (sint (- v)) = - v" by simp
    ultimately have "- v = word_of_int (- (2 ^ 63))" by simp
    then have "v = word_of_int (2 ^ 63)" by (metis minus_minus of_int_minus)
    then have "sint v = - (2 ^ 63)" by simp
    with assms(2) show False by simp
  qed
  with w show ?thesis by (simp add: int64_neg_def)
qed

lemma run_signed:
  assumes h: "ahead h n (show_int (sint v) @ r)" and n: "n \<le> 1" and r: "delim r"
    and v: "sint v \<noteq> - (2 ^ 63)"
    and g: "\<And>c. tok c \<in> {kNUMBER, kMINUS} \<Longrightarrow> g c = bnd (ParseSigns (Suc (Suc N)) True c) f"
    and k: "\<And>i h' sign. tok i = kNUMBER \<Longrightarrow> itype i = kUINT \<Longrightarrow> ahead h' 0 r \<Longrightarrow>
      (if sign then ret (uval i) else int64_neg (uval i)) = ret (v :: 64 word) \<Longrightarrow> wp (f (sign, i)) h' \<Phi>"
  shows "wp (bnd Pop g) h \<Phi>"
proof (cases "0 \<le> sint v")
  case True
  have "show_int (sint v) = show_nat (nat (sint v))"
    using True by (simp add: show_int_def show_nat_def)
  moreover have "nat (sint v) < 2 ^ 64"
    using True sint64_range [of v] by (simp add: nat_less_iff)
  ultimately have reads: "reads (show_int (sint v) @ r)
      (\<lambda>i. tok i = kNUMBER \<and> itype i = kUINT \<and> uval i = word_of_nat (nat (sint v))) r"
    using reads_num [OF _ r] by simp
  show ?thesis
  proof (rule run_Pop [OF h reads])
    fix i :: TokInfo and h'
    assume i: "tok i = kNUMBER \<and> itype i = kUINT \<and> uval i = word_of_nat (nat (sint v))"
      and h': "ahead h' (n - 1) r"
    have "ahead h' 0 r" using h' n by simp
    then have "wp (f (True, i)) h' \<Phi>" using i True by (intro k) simp_all
    with i show "wp (g i) h' \<Phi>" by (simp add: g)
  qed
next
  case False
  let ?d = "show_nat (nat (- sint v))"
  have r1: "reads (CHR ''-'' # ?d @ r) (\<lambda>i. tok i = kMINUS) (?d @ r)"
    by (rule reads_punct)
  have "nat (- sint v) < 2 ^ 64"
    using False sint64_range [of v] by (simp add: nat_less_iff)
  then have r2: "reads (?d @ r)
      (\<lambda>i. tok i = kNUMBER \<and> itype i = kUINT \<and> uval i = word_of_nat (nat (- sint v))) r"
    by (rule reads_num [OF _ r])
  have h1: "ahead h n (CHR ''-'' # ?d @ r)"
    using h False by (simp add: show_int_def show_nat_def)
  show ?thesis
  proof (rule run_Pop [OF h1 r1])
    fix i :: TokInfo and h'
    assume i: "tok i = kMINUS" and h': "ahead h' (n - 1) (?d @ r)"
    have "wp (bnd Pop (\<lambda>c. bnd (ParseSigns (Suc N) False c) f)) h' \<Phi>"
    proof (rule run_Pop [OF h' r2])
      fix i :: TokInfo and h''
      assume i: "tok i = kNUMBER \<and> itype i = kUINT \<and> uval i = word_of_nat (nat (- sint v))"
        and h'': "ahead h'' (n - 1 - 1) r"
      have "ahead h'' 0 r" using h'' n by simp
      moreover have "int64_neg (uval i) = ret v" using i int64_neg_back [of v] False v by simp
      ultimately have "wp (f (False, i)) h'' \<Phi>" using i by (intro k) simp_all
      with i show "wp (bnd (ParseSigns (Suc N) False i) f) h'' \<Phi>" by simp
    qed
    with i show "wp (g i) h' \<Phi>" by (simp add: g)
  qed
qed

lemma reads_type_Cons [lex_intros]:
  assumes "printable_type t b" and "word_stop r"
  shows "reads (type_word t @ show_bits b @ r) (\<lambda>i. tok i = kTYPE \<and> itype i = t \<and> bits i = b) r"
  using reads_type [OF assms] by (simp add: show_bits_def show_nat_def)

lemma PrintType_word: "printable_type t b \<Longrightarrow> PrintType t = Ok (type_word t)"
  by (auto simp: printable_type_def)

definition imm_rest :: "nat \<Rightarrow> ImmType \<Rightarrow> 32 word \<Rightarrow> bool \<times> TokInfo \<Rightarrow> ASTExpr parser" where
  "imm_rest N it bs = (\<lambda>(sign, c).
     thn (chk (tok c = kNUMBER)) (
     if itype c = kFLOAT then ret (ASTFloatImm (if sign then fval c else f64_neg (fval c)) (bits c))
     else if it = kUINT then thn (chk sign) (ret (ASTUIntImm (uval c) bs))
     else
       thn (chk (it = kINT)) (
       bnd (if sign then ret (uval c) else int64_neg (uval c)) (\<lambda>val.
       ret (ASTIntImm val bs)))))"

lemma ParseImmNum_alt:
  "ParseImmNum N = bnd Pop (\<lambda>first.
     if tok first = kLPAR then
       bnd (PopTok kTYPE) (\<lambda>t. thn (CHECK_AND_POP kRPAR) (
       bnd Pop (\<lambda>c. bnd (ParseSigns N True c) (imm_rest N (itype t) (bits t)))))
     else bnd (ParseSigns N True first) (imm_rest N kINT 32))"
  unfolding ParseImmNum_def imm_rest_def
  by (rule arg_cong [where f = "bnd Pop"]) (rule ext, simp)

lemma run_int_imm:
  assumes h: "ahead h n (show_int (sint v) @ r)" and "n \<le> 1" and "delim r"
    and "sint v \<noteq> - (2 ^ 63)"
    and "\<And>c. tok c \<in> {kNUMBER, kMINUS} \<Longrightarrow> g c = bnd (ParseSigns (Suc (Suc N)) True c) (\<lambda>x. bnd (imm_rest M kINT bs x) f)"
    and k: "\<And>h'. ahead h' 0 r \<Longrightarrow> wp (f (ASTIntImm v bs)) h' \<Phi>"
  shows "wp (bnd Pop g) h \<Phi>"
  by (rule run_signed [OF assms(1-5)], assumption) (simp add: imm_rest_def wp_thn k)

lemma run_typed_imm:
  assumes t: "printable_type t b" and h: "ahead h n (CHR ''('' # type_word t @ show_bits b @ CHR '')'' # d)"
    and k: "\<And>h' (i :: TokInfo). itype i = t \<Longrightarrow> bits i = b \<Longrightarrow> ahead h' (n - 1 - 1 - 1) d \<Longrightarrow>
      wp (bnd Pop (\<lambda>c. bnd (ParseSigns N True c) (\<lambda>x. bnd (imm_rest N (itype i) (bits i) x) f))) h' \<Phi>"
  shows "wp (bnd (ParseImmNum N) f) h \<Phi>"
  unfolding ParseImmNum_alt bnd_assoc
proof (rule run_Pop [OF h reads_punct(1)])
  fix i :: TokInfo and h'
  assume i: "tok i = kLPAR" and h': "ahead h' (n - 1) (type_word t @ show_bits b @ CHR '')'' # d)"
  have "wp (bnd (PopTok kTYPE) (\<lambda>t. thn (CHECK_AND_POP kRPAR) (
       bnd Pop (\<lambda>c. bnd (ParseSigns N True c) (\<lambda>x. bnd (imm_rest N (itype t) (bits t) x) f))))) h' \<Phi>"
    by (rule run_PopTok [OF h' reads_type_Cons [OF t]], simp, erule run_check, rule reads_punct(2))
      (rule k, simp_all)
  with i show "wp (bnd (if tok i = kLPAR then bnd (PopTok kTYPE) (\<lambda>t. thn (CHECK_AND_POP kRPAR) (
       bnd Pop (\<lambda>c. bnd (ParseSigns N True c) (imm_rest N (itype t) (bits t)))))
     else bnd (ParseSigns N True i) (imm_rest N kINT 32)) f) h' \<Phi>"
    by simp
qed

text \<open>An immediate number is read back; \<open>imm_queue\<close> is how many tokens may be queued.\<close>

definition imm_queue :: "ASTExpr \<Rightarrow> nat" where
  "imm_queue e = (case e of ASTIntImm v b \<Rightarrow> if b = 32 then 1 else 2 | _ \<Rightarrow> 2)"

lemma run_ImmNum:
  assumes e: "plain_imm e" and s: "PrintExpr e = Ok s" and h: "ahead h n (s @ r)" and r: "delim r"
    and n: "n \<le> imm_queue e"
    and k: "\<And>h'. ahead h' 0 r \<Longrightarrow> wp (f e) h' \<Phi>"
  shows "wp (bnd (ParseImmNum (Suc (Suc N))) f) h \<Phi>"
proof (cases e)
  case (ASTIntImm v b)
  with e have v: "sint v \<noteq> - (2 ^ 63)" "printable_type kINT b" by simp_all
  show ?thesis
  proof (cases "b = 32")
    case True
    with ASTIntImm s h have h': "ahead h n (show_int (sint v) @ r)" by simp
    have n': "n \<le> 1" using n True ASTIntImm by (simp add: imm_queue_def)
    show ?thesis
      unfolding ParseImmNum_alt bnd_assoc
      by (rule run_int_imm [OF h' n' r v(1)]) (auto simp: True [symmetric] ASTIntImm [symmetric] k)
  next
    case False
    with ASTIntImm s h have h': "ahead h n (CHR ''('' # type_word kINT @ show_bits b @ CHR '')'' # show_int (sint v) @ r)"
      by auto
    have n': "n - 1 - 1 - 1 \<le> 1" using n False ASTIntImm by (simp add: imm_queue_def)
    show ?thesis
    proof (rule run_typed_imm [OF v(2) h'])
      fix h' and i :: TokInfo
      assume i: "itype i = kINT" "bits i = b" and "ahead h' (n - 1 - 1 - 1) (show_int (sint v) @ r)"
      then show "wp (bnd Pop (\<lambda>c. bnd (ParseSigns (Suc (Suc N)) True c)
          (\<lambda>x. bnd (imm_rest (Suc (Suc N)) (itype i) (bits i) x) f))) h' \<Phi>"
        unfolding i by (intro run_int_imm [OF _ n' r v(1) refl]) (use ASTIntImm k in auto)
    qed
  qed
next
  case (ASTUIntImm v b)
  with e have t: "printable_type kUINT b" by simp
  from ASTUIntImm s h have h': "ahead h n (CHR ''('' # type_word kUINT @ show_bits b @ CHR '')'' # show_nat (unat v) @ r)"
    by auto
  have reads: "reads (show_nat (unat v) @ r) (\<lambda>i. tok i = kNUMBER \<and> itype i = kUINT \<and> uval i = v) r"
    using reads_num [of "unat v", OF _ r] unsigned_less [of v] by simp
  have n': "n - 1 - 1 - 1 - 1 = 0" using n ASTUIntImm by (simp add: imm_queue_def)
  show ?thesis
  proof (rule run_typed_imm [OF t h'], rule run_Pop [OF _ reads], assumption)
    fix h' and i j :: TokInfo
    assume "itype j = kUINT" "bits j = b" and "tok i = kNUMBER \<and> itype i = kUINT \<and> uval i = v" "ahead h' (n - 1 - 1 - 1 - 1) r"
    then show "wp (bnd (ParseSigns (Suc (Suc N)) True i)
        (\<lambda>x. bnd (imm_rest (Suc (Suc N)) (itype j) (bits j) x) f)) h' \<Phi>"
      using n' k ASTUIntImm by (simp add: imm_rest_def wp_thn)
  qed
qed (use e in simp_all)
end
