(* ===== verification/Halide_Expr_Roundtrip.thy ===== *)
theory Halide_Expr_Roundtrip
  imports Halide_Reads
begin

text \<open>
  The round trip of expressions: on the fragment \<open>plain_expr\<close>, what \<open>PrintExpr\<close> writes is
  what \<open>ParseExpr\<close> reads back as the same tree, in every context the printer puts an
  expression in (\<open>follow\<close>). Outside the fragment the two disagree: calls are printed without
  their opening parenthesis, \<open>!\<close> is no token, \<open>max\<close> and \<open>min\<close> are printed infix, a cast as
  the left operand is taken for a typed number, floating-point literals are rounded to six
  digits, and the smallest 64-bit integer has no literal.
\<close>

section \<open>Leading blanks\<close>

lemma GetNextToken_blank:
  assumes "rest s = CHR 0x20 # r" and "r \<noteq> []"
  shows "GetNextToken s = GetNextToken (s\<lparr>cur := cur s + 1\<rparr>)" and "rest (s\<lparr>cur := cur s + 1\<rparr>) = r"
proof -
  let ?s = "s\<lparr>cur := cur s + 1\<rparr>"
  show r: "rest ?s = r" using assms(1) rest_advance [of s 1] by simp
  have in1: "cur s < length (code s)" using assms(1) by (auto simp: rest_def intro: ccontr)
  have in2: "cur ?s < length (code s)" using r assms(2) by (auto simp: rest_def)
  have "skip_blank s = skip_blank ?s"
    using assms(1) r by (simp add: skip_blank_def del: rest_advance)
  then show "GetNextToken s = GetNextToken ?s"
    using in1 in2 by (simp add: GetNextToken_def)
qed

lemma lexed_blank: "lexed (CHR 0x20 # r) i r' \<Longrightarrow> r \<noteq> [] \<Longrightarrow> lexed r i r'"
  unfolding lexed_def using GetNextToken_blank by metis

lemma PrintIndent_simps [simp]:
  "PrintIndent 0 = []"
  "PrintIndent (Suc k) = CHR 0x20 # PrintIndent k"
  by (simp_all add: PrintIndent_def)

lemma lexed_blanks: "lexed (PrintIndent k @ r) i r' \<Longrightarrow> r \<noteq> [] \<Longrightarrow> lexed r i r'"
  by (induction k) (auto dest: lexed_blank)

lemma ahead_blanks: "ahead h n (PrintIndent k @ r) \<Longrightarrow> 0 < n \<Longrightarrow> r \<noteq> [] \<Longrightarrow> ahead h n r"
  by (cases n) (auto dest: lexed_blanks)

lemma Pop_blanks:
  assumes "ahead h 0 (PrintIndent k @ r)" and "r \<noteq> []"
  shows "\<exists>h'. ahead h' 0 r \<and> Pop h = Pop h'"
  using assms(1)
proof (induction k arbitrary: h)
  case (Suc k)
  then have h: "queue h = []" "rest (stat h) = CHR 0x20 # PrintIndent k @ r" by simp_all
  let ?h = "h\<lparr>stat := (stat h)\<lparr>cur := cur (stat h) + 1\<rparr>\<rparr>"
  have "ahead ?h 0 (PrintIndent k @ r)" "Pop h = Pop ?h"
    using h GetNextToken_blank [OF h(2)] assms(2) by (simp_all add: Pop_eq)
  with Suc.IH show ?case by metis
qed auto

lemma run_Pop_blanks:
  assumes "ahead h n (PrintIndent k @ r)" and "r \<noteq> []"
    and "\<And>h'. ahead h' n r \<Longrightarrow> wp (bnd Pop f) h' \<Phi>"
  shows "wp (bnd Pop f) h \<Phi>"
proof (cases n)
  case 0
  with Pop_blanks assms obtain h' where "ahead h' 0 r" "Pop h = Pop h'" by blast
  with assms(3) 0 show ?thesis by (auto simp: wp_def bnd_def)
next
  case (Suc m)
  then show ?thesis using assms ahead_blanks by blast
qed

lemma run_ImmNum_blank:
  assumes "plain_imm e" and "PrintExpr e = Ok s" and h: "ahead h n (CHR 0x20 # s @ r)" and "delim r"
    and "n \<le> imm_queue e"
    and "\<And>h'. ahead h' 0 r \<Longrightarrow> wp (f e) h' \<Phi>"
  shows "wp (bnd (ParseImmNum (Suc (Suc N))) f) h \<Phi>"
proof -
  have h1: "ahead h n (PrintIndent 1 @ s @ r)" using h by simp
  have ne: "s @ r \<noteq> []" using assms(4) by (simp add: delim_def)
  show ?thesis
    unfolding ParseImmNum_alt bnd_assoc
  proof (rule run_Pop_blanks [OF h1 ne])
    fix h'
    assume "ahead h' n (s @ r)"
    with run_ImmNum [OF assms(1,2) _ assms(4,5), where f = f and N = N] assms(6)
    have "wp (bnd (ParseImmNum (Suc (Suc N))) f) h' \<Phi>" by blast
    then show "wp (bnd Pop (\<lambda>x. bnd (if tok x = kLPAR then bnd (PopTok kTYPE) (\<lambda>t.
        thn (CHECK_AND_POP kRPAR) (bnd Pop (\<lambda>c. bnd (ParseSigns (Suc (Suc N)) True c)
          (imm_rest (Suc (Suc N)) (itype t) (bits t)))))
        else bnd (ParseSigns (Suc (Suc N)) True x) (imm_rest (Suc (Suc N)) kINT 32)) f)) h' \<Phi>"
      unfolding ParseImmNum_alt bnd_assoc by simp
  qed
qed

section \<open>Expressions\<close>

text \<open>The conditions that need not be written: the integer constants one.\<close>

fun unit_pred :: "ASTExpr \<Rightarrow> bool" where
  "unit_pred (ASTIntImm v b) \<longleftrightarrow> v = 1"
| "unit_pred (ASTUIntImm v b) \<longleftrightarrow> v = 1"
| "unit_pred _ \<longleftrightarrow> False"

lemma IsOne_unit [simp]: "IsOne p = unit_pred p"
  by (cases p) simp_all

fun default_load :: "ASTExpr \<Rightarrow> bool" where
  "default_load (ASTLoad b i p) \<longleftrightarrow> unit_pred p"
| "default_load _ \<longleftrightarrow> False"

fun is_cast :: "ASTExpr \<Rightarrow> bool" where
  "is_cast (ASTCast t b e) \<longleftrightarrow> True"
| "is_cast _ \<longleftrightarrow> False"

definition plain_pred :: "ASTExpr \<Rightarrow> bool" where
  "plain_pred p \<longleftrightarrow> p = ASTIntImm 1 32 \<or> plain_imm p \<and> \<not> unit_pred p"

fun plain_expr :: "ASTExpr \<Rightarrow> bool" where
  "plain_expr (ASTIntImm v b) \<longleftrightarrow> plain_imm (ASTIntImm v b)"
| "plain_expr (ASTUIntImm v b) \<longleftrightarrow> plain_imm (ASTUIntImm v b)"
| "plain_expr (ASTFloatImm v b) \<longleftrightarrow> False"
| "plain_expr (ASTStringImm v) \<longleftrightarrow> CHR 0x22 \<notin> set v"
| "plain_expr (ASTCast t b e) \<longleftrightarrow> printable_type t b \<and> plain_expr e"
| "plain_expr (ASTNot e) \<longleftrightarrow> False"
| "plain_expr (ASTBinaryOp op a b) \<longleftrightarrow>
     op \<in> set bin_tokens \<and> plain_expr a \<and> \<not> is_cast a \<and> plain_expr b"
| "plain_expr (ASTSelect c t f) \<longleftrightarrow> plain_expr c \<and> plain_expr t \<and> plain_expr f"
| "plain_expr (ASTLoad buf i p) \<longleftrightarrow> plain_ident buf \<and> plain_expr i \<and> plain_pred p"
| "plain_expr (ASTLetExpr x v b) \<longleftrightarrow> plain_ident x \<and> plain_expr v \<and> plain_expr b"
| "plain_expr (ASTCall f t b c args) \<longleftrightarrow> False"
| "plain_expr (ASTVariable x) \<longleftrightarrow> plain_ident x"

text \<open>The text after an expression, up to its next token.\<close>

definition follow :: "ASTExpr \<Rightarrow> string \<Rightarrow> bool" where
  "follow e r \<longleftrightarrow> delim r \<and>
     (\<exists>t r'. reads r (\<lambda>i. tok i = t) r' \<and> t \<noteq> kLPAR \<and> t \<noteq> kLSQB \<and> (t = kIF \<longrightarrow> \<not> default_load e))"

definition finished :: "'a \<Rightarrow> string \<Rightarrow> 'a \<Rightarrow> TokHandler \<Rightarrow> bool" where
  "finished e r = (\<lambda>x h. x = e \<and> (\<exists>m \<le> 1. ahead h m r))"

definition expr_reads :: "ASTExpr \<Rightarrow> string \<Rightarrow> bool" where
  "expr_reads e s \<longleftrightarrow>
     (\<forall>N n m h j r. size e < n \<longrightarrow> ahead h m (PrintIndent j @ s @ r) \<longrightarrow> m \<le> 1 \<longrightarrow> follow e r \<longrightarrow>
        wp (ParseExpr (Suc (Suc N)) n) h (finished (Some e) r))"

lemma finishedI: "m \<le> 1 \<Longrightarrow> ahead h m r \<Longrightarrow> finished e r e h"
  by (auto simp: finished_def)

lemma run_expr:
  assumes "expr_reads e s" and "size e < n"
    and "ahead h m (s @ r) \<or> ahead h m (CHR 0x20 # s @ r)" and "m \<le> 1" and "follow e r"
    and "\<And>h' m'. ahead h' m' r \<Longrightarrow> m' \<le> 1 \<Longrightarrow> wp (f e) h' \<Phi>"
  shows "wp (bnd (checked (ParseExpr (Suc (Suc N)) n)) f) h \<Phi>"
proof -
  have "wp (ParseExpr (Suc (Suc N)) n) h (finished (Some e) r)"
    using assms(1,2,4,5) assms(3) [folded PrintIndent_simps(1) append_Nil]
    unfolding expr_reads_def by (metis PrintIndent_simps append.simps)
  then show ?thesis
    unfolding wp_bnd checked_def by (rule wp_mono) (auto simp: finished_def intro!: wp_ret assms(6))
qed

lemmas run_expr0 = run_expr [OF _ _ disjI1]
lemmas run_expr1 = run_expr [OF _ _ disjI2]

text \<open>
  The first step of \<open>ParseExpr\<close> looks at a token, after which blanks before it are gone.
\<close>

lemma ParseExpr_front:
  assumes "ahead h m (PrintIndent j @ r)" and "m \<le> 1" and r: "reads r (\<lambda>i. tok i = t) r'"
  shows "\<exists>h'. ahead h' 1 r \<and> ParseExpr N (Suc n) h = ParseExpr N (Suc n) h'"
proof -
  have "wp FrontTok h (\<lambda>t' h'. t' = t \<and> ahead h' (max 1 m) (PrintIndent j @ r))"
    by (rule wp_FrontTok [OF assms(1) reads_spaces [OF r]]) simp
  then obtain h' where h': "FrontTok h = Ok (t, h')" "ahead h' (max 1 m) (PrintIndent j @ r)"
    by (auto simp: wp_def)
  moreover have "max 1 m = 1" using assms(2) by simp
  ultimately have a: "ahead h' 1 r" using ahead_blanks reads_nonempty [OF r] by (metis zero_less_one)
  have "wp FrontTok h' (\<lambda>t' h''. t' = t \<and> h'' = h')"
    using a lexed_reads [OF r] by (auto simp: wp_def FrontTok_eq)
  then have "FrontTok h' = Ok (t, h')" by (simp add: wp_def)
  with h'(1) have "ParseExpr N (Suc n) h = ParseExpr N (Suc n) h'"
    by (simp add: ParseExprBody_def bnd_def)
  with a show ?thesis by blast
qed

lemma expr_readsI:
  assumes "\<And>r. follow e r \<Longrightarrow> \<exists>t r'. reads (s @ r) (\<lambda>i. tok i = t) r'"
    and "\<And>N n h r. size e \<le> n \<Longrightarrow> ahead h 1 (s @ r) \<Longrightarrow> follow e r \<Longrightarrow>
      wp (ParseExpr (Suc (Suc N)) (Suc n)) h (finished (Some e) r)"
  shows "expr_reads e s"
  unfolding expr_reads_def
proof (intro allI impI)
  fix N n m h j r
  assume n: "size e < n" and h: "ahead h m (PrintIndent j @ s @ r)" "m \<le> 1" and r: "follow e r"
  then obtain k where k: "n = Suc k" by (cases n) auto
  obtain t r' where "reads (s @ r) (\<lambda>i. tok i = t) r'" using assms(1) [OF r] by blast
  from ParseExpr_front [OF h this] obtain h' where
    "ahead h' 1 (s @ r)" "ParseExpr (Suc (Suc N)) n h = ParseExpr (Suc (Suc N)) n h'"
    unfolding k by blast
  then show "wp (ParseExpr (Suc (Suc N)) n) h (finished (Some e) r)"
    using assms(2) [of k h' r N] n r k by (simp add: wp_def)
qed

lemma reads_ident_Cons:
  "plain_ident x \<Longrightarrow> word_stop r \<Longrightarrow> reads (x @ r) (\<lambda>i. tok i = kID \<and> sval i = x) r"
  by (rule reads_ident)

lemma wp_some: "wp p h (finished e r) \<Longrightarrow> wp (some p) h (finished (Some e) r)"
  unfolding some_def wp_bnd by (erule wp_mono) (auto simp: finished_def intro: wp_ret)

lemma expr_cast:
  assumes "ahead h 1 r" and "reads r (\<lambda>i. tok i = kTYPE) r'"
    and "\<And>h'. ahead h' 1 r \<Longrightarrow> wp (ParseCast (ParseExpr N n)) h' (finished e r'')"
  shows "wp (ParseExpr N (Suc n)) h (finished (Some e) r'')"
  unfolding ParseExpr.simps ParseExprBody_def
  by (rule run_front [OF assms(1,2)]) (simp add: assms(3) wp_some del: ahead.simps One_nat_def)

lemma expr_select:
  assumes "ahead h 1 r" and "reads r (\<lambda>i. tok i = kSELECT) r'"
    and "\<And>h'. ahead h' 1 r \<Longrightarrow> wp (ParseSelect (ParseExpr N n)) h' (finished e r'')"
  shows "wp (ParseExpr N (Suc n)) h (finished (Some e) r'')"
  unfolding ParseExpr.simps ParseExprBody_def
  by (rule run_front [OF assms(1,2)]) (simp add: assms(3) wp_some del: ahead.simps One_nat_def)

lemma expr_number:
  assumes "ahead h 1 r" and "reads r (\<lambda>i. tok i = kNUMBER) r'"
    and "\<And>h'. ahead h' 1 r \<Longrightarrow> wp (ParseImmNum N) h' (finished e r'')"
  shows "wp (ParseExpr N (Suc n)) h (finished (Some e) r'')"
  unfolding ParseExpr.simps ParseExprBody_def
  by (rule run_front [OF assms(1,2)]) (simp add: assms(3) wp_some del: ahead.simps One_nat_def)

lemma expr_minus:
  assumes "ahead h 1 r" and "reads r (\<lambda>i. tok i = kMINUS) r'"
    and "\<And>h'. ahead h' 1 r \<Longrightarrow> wp (ParseImmNum N) h' (finished e r'')"
  shows "wp (ParseExpr N (Suc n)) h (finished (Some e) r'')"
  unfolding ParseExpr.simps ParseExprBody_def
  by (rule run_front [OF assms(1,2)]) (simp add: assms(3) wp_some del: ahead.simps One_nat_def)

lemma expr_paren:
  assumes "ahead h 1 r" and "reads r (\<lambda>i. tok i = kLPAR) r1" and "reads r1 (\<lambda>i. tok i = t) r2"
    and "\<And>h'. ahead h' 2 r \<Longrightarrow>
      wp (if t = kLET then ParseLetExpr (ParseExpr N n) else if t = kTYPE then ParseImmNum N
        else ParseBinExpr (ParseExpr N n)) h' (finished e r'')"
  shows "wp (ParseExpr N (Suc n)) h (finished (Some e) r'')"
  unfolding ParseExpr.simps ParseExprBody_def
  by (rule run_front [OF assms(1,2)]) (use assms(4) in \<open>auto intro!: run_look1 [OF _ _ assms(2,3)] wp_some simp del: ahead.simps split: if_splits\<close>)

lemma expr_word:
  assumes "ahead h 1 r" and "reads r (\<lambda>i. tok i = kID \<and> sval i = x) r1"
    and "reads r1 (\<lambda>i. tok i = t) r2" and "t \<noteq> kLPAR"
    and "\<And>h'. ahead h' 2 r \<Longrightarrow>
      wp (if t = kLSQB then some (ParseLoad N (ParseExpr N n)) else bnd Pop (\<lambda>v. ret (Some (ASTVariable (sval v))))) h'
        (finished e r'')"
  shows "wp (ParseExpr N (Suc n)) h (finished e r'')"
  unfolding ParseExpr.simps ParseExprBody_def
  by (rule run_front [OF assms(1) reads_tok [OF assms(2)]]) (use assms(4,5) in \<open>auto intro!: run_look1 [OF _ _ assms(2,3)]  simp del: ahead.simps split: if_splits\<close>)


lemma follow_delims [simp]:
  "follow e (CHR '','' # r)" "follow e (CHR '')'' # r)" "follow e (CHR '']'' # r)" "follow e (NEWLINE # r)"
proof -
  show "follow e (CHR '','' # r)" unfolding follow_def
    by (intro conjI exI) (simp, rule reads_punct, simp_all)
  show "follow e (CHR '')'' # r)" unfolding follow_def
    by (intro conjI exI) (simp, rule reads_punct, simp_all)
  show "follow e (CHR '']'' # r)" unfolding follow_def
    by (intro conjI exI) (simp, rule reads_punct, simp_all)
  show "follow e (NEWLINE # r)" unfolding follow_def
    by (intro conjI exI) (simp, rule reads_newline, simp_all)
qed

lemma follow_space:
  "reads r (\<lambda>i. tok i = t) r' \<Longrightarrow> t \<notin> {kLPAR, kLSQB, kIF} \<Longrightarrow> follow e (CHR 0x20 # r)"
  unfolding follow_def by (intro conjI exI) (simp, erule reads_space, simp_all)

lemma follow_delim: "follow e r \<Longrightarrow> delim r"
  by (simp add: follow_def)

lemma finish: "ahead h m r \<Longrightarrow> m \<le> 1 \<Longrightarrow> x = e \<Longrightarrow> wp (ret x) h (finished e r)"
  by (rule wp_ret) (auto simp: finished_def)


lemma cast_reads:
  assumes ty: "printable_type t b" and e: "expr_reads e s"
  shows "expr_reads (ASTCast t b e) (type_word t @ show_bits b @ CHR ''('' # s @ '')'')"
proof (rule expr_readsI)
  fix r
  show "\<exists>u r'. reads ((type_word t @ show_bits b @ CHR ''('' # s @ '')'') @ r) (\<lambda>i. tok i = u) r'"
    using reads_tok [OF reads_type_Cons [OF ty]] by (auto simp del: not_IsIdBody) (metis not_IsIdBody(2) word_stop_Cons)
next
  fix N n h r
  let ?s = "type_word t @ show_bits b @ CHR ''('' # s @ CHR '')'' # r"
  assume "size (ASTCast t b e) \<le> n" and "ahead h 1 ((type_word t @ show_bits b @ CHR ''('' # s @ '')'') @ r)"
  then have n: "size e < n" and h: "ahead h 1 ?s" by simp_all
  have ty: "reads ?s (\<lambda>i. tok i = kTYPE \<and> itype i = t \<and> bits i = b) (CHR ''('' # s @ CHR '')'' # r)"
    by (rule reads_type_Cons [OF assms(1)]) simp
  show "wp (ParseExpr (Suc (Suc N)) (Suc n)) h (finished (Some (ASTCast t b e)) r)"
    by (rule expr_cast [OF h reads_tok [OF ty]], unfold ParseCast_def, erule run_PopTok [OF _ ty])
      ((erule run_check | erule run_expr0 [OF e n] | rule reads_punct | erule finish | (simp; fail))+)
qed

lemma select_reads:
  assumes c: "expr_reads c sc" and t: "expr_reads t st" and f: "expr_reads f sf"
  shows "expr_reads (ASTSelect c t f) (''select('' @ sc @ '', '' @ st @ '', '' @ sf @ '')'')"
proof (rule expr_readsI)
  fix r
  let ?s = "CHR ''('' # sc @ CHR '','' # CHR 0x20 # st @ CHR '','' # CHR 0x20 # sf @ CHR '')'' # r"
  have kw: "reads (''select'' @ ?s) (\<lambda>i. tok i = kSELECT) ?s" by (rule reads_keywords) simp
  then show "\<exists>u r'. reads ((''select('' @ sc @ '', '' @ st @ '', '' @ sf @ '')'') @ r) (\<lambda>i. tok i = u) r'"
    by auto
  fix N n h
  assume "size (ASTSelect c t f) \<le> n"
    and "ahead h 1 ((''select('' @ sc @ '', '' @ st @ '', '' @ sf @ '')'') @ r)"
  then have n: "size c < n" "size t < n" "size f < n" and h: "ahead h 1 (''select'' @ ?s)" by simp_all
  show "wp (ParseExpr (Suc (Suc N)) (Suc n)) h (finished (Some (ASTSelect c t f)) r)"
    by (rule expr_select [OF h kw], unfold ParseSelect_def)
      ((erule run_check | erule run_expr0 [OF c n(1)] | erule run_expr1 [OF t n(2)]
        | erule run_expr1 [OF f n(3)] | rule kw | rule reads_punct | erule finish | (simp; fail))+)
qed

lemma let_reads:
  assumes x: "plain_ident x" and v: "expr_reads v sv" and b: "expr_reads b sb"
  shows "expr_reads (ASTLetExpr x v b) (''(let '' @ x @ '' = '' @ sv @ '' in '' @ sb @ '')'')"
proof (rule expr_readsI)
  fix r
  let ?u = "CHR 0x20 # x @ CHR 0x20 # CHR ''='' # CHR 0x20 # sv @ CHR 0x20 # ''in'' @ CHR 0x20 # sb @ CHR '')'' # r"
  have kw: "reads (''let'' @ ?u) (\<lambda>i. tok i = kLET) ?u" by (rule reads_keywords) simp
  show "\<exists>u r'. reads ((''(let '' @ x @ '' = '' @ sv @ '' in '' @ sb @ '')'') @ r) (\<lambda>i. tok i = u) r'"
    using reads_punct(1) by auto
  fix N n h
  assume "size (ASTLetExpr x v b) \<le> n"
    and "ahead h 1 ((''(let '' @ x @ '' = '' @ sv @ '' in '' @ sb @ '')'') @ r)"
  then have n: "size v < n" "size b < n" and h: "ahead h 1 (CHR ''('' # ''let'' @ ?u)" by simp_all
  have fo: "follow v (CHR 0x20 # ''in'' @ CHR 0x20 # sb @ CHR '')'' # r)"
    by (rule follow_space [OF reads_keywords(3)]) simp_all
  have "ahead h' 2 (CHR ''('' # ''let'' @ ?u) \<Longrightarrow>
      wp (ParseLetExpr (ParseExpr (Suc (Suc N)) n)) h' (finished (ASTLetExpr x v b) r)" for h'
    unfolding ParseLetExpr_def
    by ((erule run_check | erule run_PopTok | erule run_expr1 [OF v n(1) _ _ fo] | erule run_expr1 [OF b n(2)]
        | rule kw | rule reads_keywords | rule reads_punct | rule reads_punct_cond
        | rule reads_ident_Cons [OF x] | rule reads_space | erule finish | (simp; fail))+)
  then show "wp (ParseExpr (Suc (Suc N)) (Suc n)) h (finished (Some (ASTLetExpr x v b)) r)"
    by (intro expr_paren [OF h reads_punct(1) kw]) simp
qed

lemma symbol_of_bin:
  "map symbol_of bin_tokens = map Ok [''=='', ''!='', ''&&'', ''>='', ''<='', ''||'', ''>'', ''+'',
     ''-'', ''*'', ''/'', ''%'', ''<'']"
  by code_simp

lemma zip_map_mem: "x \<in> set xs \<Longrightarrow> (x, f x) \<in> set (zip xs (map f xs))"
  by (induction xs) auto

lemma symbol_reads:
  assumes "op \<in> set bin_tokens" and "symbol_of op = Ok sy"
  shows "reads (sy @ CHR 0x20 # r) (\<lambda>i. tok i = op) (CHR 0x20 # r)"
    and "follow e (CHR 0x20 # sy @ CHR 0x20 # r)"
proof -
  show 1: "reads (sy @ CHR 0x20 # r) (\<lambda>i. tok i = op) (CHR 0x20 # r)"
    using zip_map_mem [OF assms(1), of symbol_of] unfolding symbol_of_bin assms(2)
    by (simp add: bin_tokens_def)
      (elim disjE conjE; hypsubst; simp only: append.simps; (rule reads_punct | rule reads_double | rule reads_punct_cond; simp))
  show "follow e (CHR 0x20 # sy @ CHR 0x20 # r)"
    by (rule follow_space [OF 1]) (use assms(1) in \<open>auto simp: bin_tokens_def\<close>)
qed

lemma imm_first:
  assumes "plain_imm e" and "PrintExpr e = Ok s" and "delim r"
  shows "\<exists>t r'. reads (s @ r) (\<lambda>i. tok i = t) r' \<and> t \<in> {kLPAR, kNUMBER, kMINUS} \<and>
    (t = kLPAR \<longrightarrow> imm_queue e = 2 \<and> (\<exists>r''. reads r' (\<lambda>i. tok i = kTYPE) r''))"
proof -
  have num: "n < 2 ^ 64 \<Longrightarrow> reads (show_nat n @ r) (\<lambda>i. tok i = kNUMBER) r" for n
    by (rule reads_tok [OF reads_num]) (use assms(3) in auto)
  have paren: "\<exists>t r'. reads (s @ r) (\<lambda>i. tok i = t) r' \<and> t \<in> {kLPAR, kNUMBER, kMINUS} \<and>
      (t = kLPAR \<longrightarrow> imm_queue e = 2 \<and> (\<exists>r''. reads r' (\<lambda>i. tok i = kTYPE) r''))"
    if s: "s = CHR ''('' # type_word ty @ show_bits b @ CHR '')'' # d" "printable_type ty b" "imm_queue e = 2"
    for ty b d
  proof -
    have "reads (s @ r) (\<lambda>i. tok i = kLPAR) (type_word ty @ show_bits b @ CHR '')'' # d @ r)"
      unfolding s(1) by (simp, rule reads_punct)
    moreover have "reads (type_word ty @ show_bits b @ CHR '')'' # d @ r) (\<lambda>i. tok i = kTYPE) (CHR '')'' # d @ r)"
      by (rule reads_tok [OF reads_type_Cons [OF s(2)]]) simp
    ultimately show ?thesis using s(3) by blast
  qed
  show ?thesis
  proof (cases e)
    case (ASTIntImm v b)
    show ?thesis
    proof (cases "b = 32")
      case False
      then show ?thesis
        using assms(1,2) ASTIntImm paren [of kINT b "show_int (sint v)"] by (auto simp: imm_queue_def)
    next
      case True
      with assms(2) ASTIntImm have s: "s = show_int (sint v)" by simp
      show ?thesis
      proof (cases "sint v < 0")
        case True
        then have "reads (s @ r) (\<lambda>i. tok i = kMINUS) (dec_digits (nat (- sint v)) @ r)"
          unfolding s show_int_def by (simp, intro reads_punct)
        then show ?thesis by blast
      next
        case False
        then have "nat (sint v) < 2 ^ 64" using sint64_range [of v] by (simp add: nat_less_iff)
        with False have "reads (s @ r) (\<lambda>i. tok i = kNUMBER) r"
          using num unfolding s show_int_def by (simp add: show_nat_def)
        then show ?thesis by blast
      qed
    qed
  next
    case (ASTUIntImm v b)
    then show ?thesis
      using assms(1,2) paren [of kUINT b "show_nat (unat v)"] by (auto simp: imm_queue_def)
  qed (use assms(1) in simp_all)
qed

fun starts_with_word :: "ASTExpr \<Rightarrow> bool" where
  "starts_with_word (ASTVariable x) \<longleftrightarrow> True"
| "starts_with_word (ASTLoad buf i p) \<longleftrightarrow> True"
| "starts_with_word _ \<longleftrightarrow> False"

lemma expr_first:
  assumes "plain_expr e" and "PrintExpr e = Ok s" and "follow e r"
  shows "\<exists>t r'. reads (s @ r) (\<lambda>i. tok i = t) r' \<and>
    t \<in> {kLPAR, kNUMBER, kMINUS, kSTRING, kTYPE, kSELECT, kID} \<and>
    (\<not> is_cast e \<longrightarrow> t \<noteq> kTYPE) \<and> (\<not> starts_with_word e \<longrightarrow> t \<noteq> kID)"
proof (cases "plain_imm e")
  case True
  from imm_first [OF this assms(2) follow_delim [OF assms(3)]] show ?thesis by auto
next
  case False
  have word: "plain_ident x \<Longrightarrow> word_stop r' \<Longrightarrow> reads (x @ r') (\<lambda>i. tok i = kID) r'" for x r'
    by (rule reads_tok [OF reads_ident_Cons])
  have r: "word_stop r" using assms(3) by (simp add: follow_delim delim_word)
  show ?thesis
  proof (cases e)
    case (ASTStringImm v)
    then show ?thesis using assms reads_tok [OF reads_string [of v r]] by (auto intro!: exI [of _ kSTRING])
  next
    case (ASTCast t b a)
    then obtain sa where "s = type_word t @ show_bits b @ CHR ''('' # sa @ '')''"
      using assms by (auto simp: PrintType_word res_bind_Ok_conv)
    then show ?thesis
      using reads_tok [OF reads_type_Cons [of t b "CHR ''('' # sa @ CHR '')'' # r"]] ASTCast assms(1) by auto
  next
    case (ASTBinaryOp op a b)
    then obtain sa where "s = CHR ''('' # sa" using assms by (auto simp: res_bind_Ok_conv)
    then show ?thesis using reads_punct(1) by auto
  next
    case (ASTSelect c t f)
    then obtain sa where "s = ''select('' @ sa" using assms by (auto simp: res_bind_Ok_conv)
    then show ?thesis using reads_keywords(1) [of "CHR ''('' # sa @ r"] by auto
  next
    case (ASTLetExpr x v b)
    then obtain sa where "s = CHR ''('' # sa" using assms by (auto simp: res_bind_Ok_conv)
    then show ?thesis using reads_punct(1) by auto
  next
    case (ASTLoad x i p)
    then obtain sa where "s = x @ CHR ''['' # sa" using assms by (auto simp: res_bind_Ok_conv)
    then show ?thesis using word [of x "CHR ''['' # sa @ r"] ASTLoad assms(1) by auto
  next
    case (ASTVariable x)
    then show ?thesis using word [of x r] r assms by auto
  qed (use assms False in simp_all)
qed

lemma bin_reads:
  assumes op: "op \<in> set bin_tokens" "symbol_of op = Ok sy"
    and a: "expr_reads a sa" "\<And>r. follow a r \<Longrightarrow> \<exists>t r'. reads (sa @ r) (\<lambda>i. tok i = t) r' \<and> t \<noteq> kLET \<and> t \<noteq> kTYPE"
    and b: "expr_reads b sb"
  shows "expr_reads (ASTBinaryOp op a b) (''('' @ sa @ '' '' @ sy @ '' '' @ sb @ '')'')"
proof (rule expr_readsI)
  fix r
  let ?u = "sa @ CHR 0x20 # sy @ CHR 0x20 # sb @ CHR '')'' # r"
  show "\<exists>u r'. reads ((''('' @ sa @ '' '' @ sy @ '' '' @ sb @ '')'') @ r) (\<lambda>i. tok i = u) r'"
    using reads_punct(1) by auto
  fix N n h
  assume "size (ASTBinaryOp op a b) \<le> n"
    and "ahead h 1 ((''('' @ sa @ '' '' @ sy @ '' '' @ sb @ '')'') @ r)"
  then have n: "size a < n" "size b < n" and h: "ahead h 1 (CHR ''('' # ?u)" by simp_all
  obtain t r' where t: "reads ?u (\<lambda>i. tok i = t) r'" "t \<noteq> kLET" "t \<noteq> kTYPE"
    using a(2) [OF symbol_reads(2) [OF op]] by blast
  have "ahead h' 2 (CHR ''('' # ?u) \<Longrightarrow>
      wp (ParseBinExpr (ParseExpr (Suc (Suc N)) n)) h' (finished (ASTBinaryOp op a b) r)" for h'
    unfolding ParseBinExpr_def
    by ((erule run_check | erule run_Pop | erule run_expr0 [OF a(1) n(1) _ _ symbol_reads(2) [OF op]]
        | erule run_expr1 [OF b n(2)] | rule reads_space [OF symbol_reads(1) [OF op]]
        | rule reads_punct | rule run_chk | erule finish | (simp add: op; fail))+)
  then show "wp (ParseExpr (Suc (Suc N)) (Suc n)) h (finished (Some (ASTBinaryOp op a b)) r)"
    using t by (intro expr_paren [OF h reads_punct(1) t(1)]) simp
qed

lemma plain_pred_text:
  assumes "plain_pred p" and "PrintExpr p = Ok sp"
  shows "(if IsOne p then Ok [] else out [Ok '' if '', PrintExpr p])
    = Ok (if unit_pred p then [] else CHR 0x20 # ''if'' @ CHR 0x20 # sp)"
  using assms by simp

lemma load_reads:
  assumes x: "plain_ident x" and e: "expr_reads e s" and p: "plain_pred p" "PrintExpr p = Ok sp"
  shows "expr_reads (ASTLoad x e p)
    (x @ ''['' @ s @ '']'' @ (if unit_pred p then [] else CHR 0x20 # ''if'' @ CHR 0x20 # sp))"
    (is "expr_reads _ ?t")
proof (rule expr_readsI)
  fix r
  let ?q = "(if unit_pred p then [] else CHR 0x20 # ''if'' @ CHR 0x20 # sp) @ r"
  let ?u = "CHR ''['' # s @ CHR '']'' # ?q"
  have id: "reads (x @ ?u) (\<lambda>i. tok i = kID \<and> sval i = x) ?u"
    by (rule reads_ident_Cons [OF x]) simp
  have "?t @ r = x @ ?u" by simp
  then show "\<exists>u r'. reads (?t @ r) (\<lambda>i. tok i = u) r'"
    using reads_tok [OF id] by metis
  fix N n h
  assume "size (ASTLoad x e p) \<le> n" and h: "ahead h 1 (?t @ r)" and r: "follow (ASTLoad x e p) r"
  then have n: "size e < n" and h: "ahead h 1 (x @ ?u)" by simp_all
  have pred: "ahead h' m ?q \<Longrightarrow> m = 0 \<Longrightarrow>
      wp (bnd LookNextTok (\<lambda>t. bnd (if t = kIF then thn h_pop (ParseImmNum (Suc (Suc N)))
        else ret (ASTIntImm 1 32)) (\<lambda>pred. ret (ASTLoad x e pred)))) h' (finished (ASTLoad x e p) r)" for h' m
  proof (cases "unit_pred p")
    case True
    then have p1: "p = ASTIntImm 1 32" using p(1) by (auto simp: plain_pred_def)
    assume a: "ahead h' m ?q" "m = 0"
    from True have q: "?q = r" by simp
    obtain t r' where t: "reads r (\<lambda>i. tok i = t) r'" "t \<noteq> kIF"
      using r True unfolding follow_def by auto
    show ?thesis
      by (rule run_look0 [OF a(1) [unfolded q] a(2) t(1)]) (use t p1 in \<open>auto intro!: finish simp del: ahead.simps\<close>)
  next
    case False
    then have imm: "plain_imm p" using p(1) by (auto simp: plain_pred_def)
    assume a: "ahead h' m ?q" "m = 0"
    from False have q: "?q = CHR 0x20 # ''if'' @ CHR 0x20 # sp @ r" by simp
    have kw: "reads (CHR 0x20 # ''if'' @ CHR 0x20 # sp @ r) (\<lambda>i. tok i = kIF) (CHR 0x20 # sp @ r)"
      by (intro reads_space reads_keywords) simp
    show ?thesis
      by (rule run_look0 [OF a(1) [unfolded q] a(2) kw], simp only: if_True simp_thms bnd_thn)
        (erule run_h_pop, simp, rule kw, erule run_ImmNum_blank [OF imm p(2) _ follow_delim [OF r]], simp, erule finish, simp_all)
  qed
  have "ahead h' 2 (x @ ?u) \<Longrightarrow>
      wp (ParseLoad (Suc (Suc N)) (ParseExpr (Suc (Suc N)) n)) h' (finished (ASTLoad x e p) r)" for h'
    unfolding ParseLoad_def bnd_assoc
    by (erule run_PopTok [OF _ id])
     ((erule run_check | erule run_expr0 [OF e n] | rule reads_punct | (simp only:, erule pred) | (simp; fail))+)
  then show "wp (ParseExpr (Suc (Suc N)) (Suc n)) h (finished (Some (ASTLoad x e p)) r)"
    by (intro expr_word [OF h id reads_punct(3)]) (auto intro: wp_some)
qed
lemma bnd_ret_right [simp]: "bnd p ret = p"
  by (rule ext) (simp add: bnd_def ret_def split: res.split)

lemma imm_reads:
  assumes e: "plain_imm e" "PrintExpr e = Ok s"
  shows "expr_reads e s"
proof (rule expr_readsI)
  fix r
  assume "follow e r"
  then have d: "delim r" by (rule follow_delim)
  then obtain t r' where t: "reads (s @ r) (\<lambda>i. tok i = t) r'" "t \<in> {kLPAR, kNUMBER, kMINUS}"
      "t = kLPAR \<longrightarrow> imm_queue e = 2 \<and> (\<exists>r''. reads r' (\<lambda>i. tok i = kTYPE) r'')"
    using imm_first [OF e] by blast
  then show "\<exists>t r'. reads (s @ r) (\<lambda>i. tok i = t) r'" by blast
  have imm: "wp (ParseImmNum (Suc (Suc N))) h (finished e r)"
    if "ahead h m (s @ r)" "m \<le> imm_queue e" for N h m
  proof -
    have "wp (bnd (ParseImmNum (Suc (Suc N))) ret) h (finished e r)"
      by (rule run_ImmNum [OF e that(1) d that(2)]) (erule finish, simp_all)
    then show ?thesis by simp
  qed
  have q: "1 \<le> imm_queue e" by (simp add: imm_queue_def split: ASTExpr.split)
  fix N n h
  assume h: "ahead h 1 (s @ r)"
  show "wp (ParseExpr (Suc (Suc N)) (Suc n)) h (finished (Some e) r)"
  proof (cases "t = kLPAR")
    case True
    then obtain r'' where "reads r' (\<lambda>i. tok i = kTYPE) r''" "imm_queue e = 2" using t by blast
    with True show ?thesis
      using expr_paren [OF h t(1) [unfolded True]] imm by simp
  next
    case False
    then have "t = kNUMBER \<or> t = kMINUS" using t(2) by blast
    then show ?thesis
      using expr_number [OF h] expr_minus [OF h] t(1) imm [OF _ q] by blast
  qed
qed

lemma string_reads:
  assumes "CHR 0x22 \<notin> set v"
  shows "expr_reads (ASTStringImm v) ([CHR 0x22] @ v @ [CHR 0x22])"
proof (rule expr_readsI)
  fix r
  let ?s = "CHR 0x22 # v @ CHR 0x22 # r"
  have st: "reads ?s (\<lambda>i. tok i = kSTRING \<and> sval i = v) r" by (rule reads_string [OF assms])
  show "\<exists>t r'. reads (([CHR 0x22] @ v @ [CHR 0x22]) @ r) (\<lambda>i. tok i = t) r'"
    using reads_tok [OF st] by auto
  fix N n h
  assume "ahead h 1 (([CHR 0x22] @ v @ [CHR 0x22]) @ r)" and r: "follow (ASTStringImm v) r"
  then have h: "ahead h 1 ?s" by simp
  obtain t r' where t: "reads r (\<lambda>i. tok i = t) r'" using r unfolding follow_def by blast
  have "ahead h' (max 1 1) ?s \<Longrightarrow> wp (bnd Pop (\<lambda>s. thn LookNextTok (ret (Some (ASTStringImm (sval s)))))) h'
      (finished (Some (ASTStringImm v)) r)" for h'
    unfolding thn_def by (erule run_Pop [OF _ st], erule run_look0 [OF _ _ t], simp, erule finish, simp_all)
  then show "wp (ParseExpr (Suc (Suc N)) (Suc n)) h (finished (Some (ASTStringImm v)) r)"
    unfolding ParseExpr.simps ParseExprBody_def
    by (intro run_front [OF h reads_tok [OF st]]) (simp del: ahead.simps)
qed

lemma variable_reads:
  assumes "plain_ident x"
  shows "expr_reads (ASTVariable x) x"
proof (rule expr_readsI)
  fix r
  assume r: "follow (ASTVariable x) r"
  then have id: "reads (x @ r) (\<lambda>i. tok i = kID \<and> sval i = x) r"
    using assms by (intro reads_ident_Cons delim_word follow_delim)
  from reads_tok [OF id] show "\<exists>t r'. reads (x @ r) (\<lambda>i. tok i = t) r'" by blast
  obtain t r' where t: "reads r (\<lambda>i. tok i = t) r'" "t \<noteq> kLPAR" "t \<noteq> kLSQB"
    using r unfolding follow_def by blast
  fix N n h
  assume h: "ahead h 1 (x @ r)"
  have "ahead h' 2 (x @ r) \<Longrightarrow>
      wp (bnd Pop (\<lambda>v. ret (Some (ASTVariable (sval v))))) h' (finished (Some (ASTVariable x)) r)" for h'
    by (erule run_Pop [OF _ id], erule finish) simp_all
  then show "wp (ParseExpr (Suc (Suc N)) (Suc n)) h (finished (Some (ASTVariable x)) r)"
    using t by (intro expr_word [OF h id t(1,2)]) simp
qed

lemma plain_expr_reads: "plain_expr e \<Longrightarrow> PrintExpr e = Ok s \<Longrightarrow> expr_reads e s"
proof (induction e arbitrary: s)
  case (ASTCast t b e)
  then obtain se where "PrintExpr e = Ok se" "s = type_word t @ show_bits b @ CHR ''('' # se @ '')''"
    by (auto simp: PrintType_word res_bind_Ok_conv)
  with ASTCast show ?case by (simp add: cast_reads)
next
  case (ASTBinaryOp op a b)
  then obtain sa sy sb where *: "PrintExpr a = Ok sa" "symbol_of op = Ok sy" "PrintExpr b = Ok sb"
      "s = ''('' @ sa @ '' '' @ sy @ '' '' @ sb @ '')''"
    by (auto simp: res_bind_Ok_conv)
  have "\<exists>t r'. reads (sa @ r) (\<lambda>i. tok i = t) r' \<and> t \<noteq> kLET \<and> t \<noteq> kTYPE" if "follow a r" for r
    using expr_first [of a sa r] ASTBinaryOp.prems(1) * that by fastforce
  with ASTBinaryOp * show ?case
    unfolding *(4) by (intro bin_reads) auto
next
  case (ASTSelect c t f)
  then obtain sc st sf where "PrintExpr c = Ok sc" "PrintExpr t = Ok st" "PrintExpr f = Ok sf"
      and s: "s = ''select('' @ sc @ '', '' @ st @ '', '' @ sf @ '')''"
    by (auto simp: res_bind_Ok_conv)
  with ASTSelect show ?case unfolding s by (intro select_reads) auto
next
  case (ASTLoad x i p)
  then obtain si where si: "PrintExpr i = Ok si" by (auto simp: res_bind_Ok_conv)
  obtain sp where sp: "PrintExpr p = Ok sp"
    using ASTLoad.prems by (cases p) (auto simp: plain_pred_def PrintType_word split: if_splits)
  have s: "s = x @ ''['' @ si @ '']'' @ (if unit_pred p then [] else CHR 0x20 # ''if'' @ CHR 0x20 # sp)"
    using ASTLoad.prems(2) si sp by (auto split: if_splits)
  show ?case
    unfolding s using ASTLoad.prems(1) ASTLoad.IH(1) si sp by (intro load_reads) auto
next
  case (ASTLetExpr x v b)
  then obtain sv sb where "PrintExpr v = Ok sv" "PrintExpr b = Ok sb"
      and s: "s = ''(let '' @ x @ '' = '' @ sv @ '' in '' @ sb @ '')''"
    by (auto simp: res_bind_Ok_conv)
  with ASTLetExpr show ?case unfolding s by (intro let_reads) auto
qed (auto intro: imm_reads variable_reads dest: string_reads)

end
