(* ===== verification/Halide_Stmt_Reads.thy ===== *)
theory Halide_Stmt_Reads
  imports Halide_Expr_Roundtrip
begin

text \<open>
  Reading back what \<open>PrintStmt\<close> writes, one lemma per statement form. \<open>plain_stmt\<close> is the
  fragment, \<open>stmt_reads s t\<close> says that \<open>ParseStmt\<close> reads the text \<open>t\<close> as the statement
  \<open>s\<close>, and \<open>stmts_read\<close> the same for a list, up to a closing brace or the end of the text.
  A container statement (let, attribute, allocation) takes the rest of its list as its body, so it
  is the last of its list.
\<close>

section \<open>Lists of expressions\<close>

lemma run_ParseParamList:
  assumes "list_all plain_expr args" and "args \<noteq> []" and "PrintArgs args = Ok s"
    and "length args \<le> l" and "\<forall>e \<in> set args. size e < k" and "m \<le> 1"
    and "ahead h m (s @ CHR '')'' # r) \<or> ahead h m (CHR 0x20 # s @ CHR '')'' # r)"
    and "\<And>h'. ahead h' 1 (CHR '')'' # r) \<Longrightarrow> wp (f args) h' \<Phi>"
  shows "wp (bnd (ParseParamList l (ParseExpr (Suc (Suc N)) k)) f) h \<Phi>"
  using assms
proof (induction args arbitrary: s l m h f)
  case (Cons e es)
  obtain se where se: "PrintExpr e = Ok se" using Cons.prems(3) by (auto simp: res_bind_Ok_conv)
  have e: "expr_reads e se" using plain_expr_reads se Cons.prems(1) by simp
  have k: "size e < k" using Cons.prems(5) by simp
  obtain l' where l: "l = Suc l'" using Cons.prems(4) by (cases l) auto
  show ?case
  proof (cases "es = []")
    case True
    then have "s = se" using Cons.prems(3) se by simp
    then have h: "ahead h m (se @ CHR '')'' # r) \<or> ahead h m (CHR 0x20 # se @ CHR '')'' # r)"
      using Cons.prems(7) by simp
    show ?thesis
      unfolding ParseParamList_def bnd_assoc l ParseParamTail.simps
      by (rule run_expr [OF e k h Cons.prems(6) follow_delims(2)], erule run_front, rule reads_punct)
        (use Cons.prems(8) True in \<open>auto simp: max_def le_Suc_eq simp del: ahead.simps\<close>)
  next
    case False
    then obtain ss where ss: "PrintArgs es = Ok ss" "s = se @ CHR '','' # CHR 0x20 # ss"
      using Cons.prems(3) se by (auto simp: res_bind_Ok_conv)
    then have h: "ahead h m (se @ CHR '','' # CHR 0x20 # ss @ CHR '')'' # r) \<or>
        ahead h m (CHR 0x20 # se @ CHR '','' # CHR 0x20 # ss @ CHR '')'' # r)"
      using Cons.prems(7) by simp
    have rec: "ahead h' 0 (CHR 0x20 # ss @ CHR '')'' # r) \<Longrightarrow>
        wp (bnd (ParseParamList l' (ParseExpr (Suc (Suc N)) k)) (\<lambda>es. f (e # es))) h' \<Phi>" for h'
      using Cons.prems False ss(1) l by (intro Cons.IH [of ss l' 0]) auto
    show ?thesis
      unfolding ParseParamList_def bnd_assoc l ParseParamTail.simps
    proof (rule run_expr [OF e k h Cons.prems(6) follow_delims(1)])
      fix h' m'
      assume h': "ahead h' m' (CHR '','' # CHR 0x20 # ss @ CHR '')'' # r)" "m' \<le> 1"
      show "wp (bnd FrontTok (\<lambda>x. bnd (if x = kCOMMA
              then thn h_pop (bnd (checked (ParseExpr (Suc (Suc N)) k))
                (\<lambda>expr. bnd (ParseParamTail l' (ParseExpr (Suc (Suc N)) k)) (\<lambda>list. ret (expr # list))))
              else ret []) (\<lambda>x. bnd (ret (e # x)) f))) h' \<Phi>"
      proof (rule run_front [OF h'(1) reads_punct(5)])
        fix h''
        assume "ahead h'' (max 1 m') (CHR '','' # CHR 0x20 # ss @ CHR '')'' # r)"
        then have "ahead h'' 1 (CHR '','' # CHR 0x20 # ss @ CHR '')'' # r)"
          using h'(2) by (simp add: max_def le_Suc_eq split: if_splits)
        then have "wp (thn h_pop (bnd (ParseParamList l' (ParseExpr (Suc (Suc N)) k)) (\<lambda>es. f (e # es)))) h'' \<Phi>"
          by (rule run_h_pop [OF _ _ reads_punct(5)]) (use rec in simp_all)
        then show "wp (bnd (if kCOMMA = kCOMMA
              then thn h_pop (bnd (checked (ParseExpr (Suc (Suc N)) k))
                (\<lambda>expr. bnd (ParseParamTail l' (ParseExpr (Suc (Suc N)) k)) (\<lambda>list. ret (expr # list))))
              else ret []) (\<lambda>x. bnd (ret (e # x)) f)) h'' \<Phi>"
          by (simp add: ParseParamList_def)
      qed
    qed
  qed
qed simp

lemma run_ParseExtents:
  assumes "list_all plain_imm ext" and "PrintExtents ext = Ok s" and "length ext < l" and "m \<le> 1"
    and "ahead h m (s @ CHR '']'' # r)"
    and "\<And>h'. ahead h' 1 (CHR '']'' # r) \<Longrightarrow> wp (f ext) h' \<Phi>"
  shows "wp (bnd (ParseExtents (Suc (Suc N)) l) f) h \<Phi>"
  using assms
proof (induction ext arbitrary: s l m h f)
  case Nil
  then obtain l' where l: "l = Suc l'" by (cases l) auto
  have h: "ahead h m (CHR '']'' # r)" using Nil by simp
  show ?case
    unfolding l ParseExtents.simps bnd_assoc
    by (rule run_front [OF h reads_punct(4)])
      (use Nil.prems(4,6) in \<open>auto simp: max_def le_Suc_eq simp del: ahead.simps\<close>)
next
  case (Cons e es)
  then obtain l' where l: "l = Suc l'" by (cases l) auto
  obtain se ss where se: "PrintExpr e = Ok se" "PrintExtents es = Ok ss"
      and s: "s = CHR 0x20 # CHR ''*'' # CHR 0x20 # se @ ss"
    using Cons.prems(2) by (auto simp: res_bind_Ok_conv)
  have h: "ahead h m (CHR 0x20 # CHR ''*'' # CHR 0x20 # se @ ss @ CHR '']'' # r)"
    using Cons.prems(5) s by simp
  have e: "plain_imm e" using Cons.prems(1) by simp
  have d: "delim (ss @ CHR '']'' # r)"
    using se(2) by (cases es) (auto simp: res_bind_Ok_conv)
  have star: "reads (CHR 0x20 # CHR ''*'' # CHR 0x20 # se @ ss @ CHR '']'' # r) (\<lambda>i. tok i = kSTAR)
      (CHR 0x20 # se @ ss @ CHR '']'' # r)"
    by (intro reads_space reads_punct)
  have rec: "ahead h' 0 (ss @ CHR '']'' # r) \<Longrightarrow>
      wp (bnd (ParseExtents (Suc (Suc N)) l') (\<lambda>es. f (e # es))) h' \<Phi>" for h'
    using Cons.prems l se(2) by (intro Cons.IH [of ss l' 0]) auto
  have "ahead h' (max 1 m) (CHR 0x20 # CHR ''*'' # CHR 0x20 # se @ ss @ CHR '']'' # r) \<Longrightarrow>
      wp (thn h_pop (bnd (ParseImmNum (Suc (Suc N))) (\<lambda>extent.
        bnd (ParseExtents (Suc (Suc N)) l') (\<lambda>list. f (extent # list))))) h' \<Phi>" for h'
    by (erule run_h_pop [OF _ _ star], simp, erule run_ImmNum_blank [OF e se(1) _ d])
      (use Cons.prems(4) in \<open>auto intro: rec\<close>)
  then show ?case
    unfolding l ParseExtents.simps bnd_assoc
    by (intro run_front [OF h star]) simp
qed

lemma run_ParseBound:
  assumes "plain_imm a" and "plain_imm b" and "PrintExpr a = Ok sa" and "PrintExpr b = Ok sb"
    and "ahead h m (CHR ''['' # sa @ CHR '','' # CHR 0x20 # sb @ CHR '']'' # r) \<or>
      ahead h m (CHR 0x20 # CHR ''['' # sa @ CHR '','' # CHR 0x20 # sb @ CHR '']'' # r)"
    and "m \<le> 1" and k: "\<And>h'. ahead h' 0 r \<Longrightarrow> wp (f (a, b)) h' \<Phi>"
  shows "wp (bnd (ParseBound (Suc (Suc N))) f) h \<Phi>"
proof -
  let ?u = "sa @ CHR '','' # CHR 0x20 # sb @ CHR '']'' # r"
  have open1: "reads (CHR ''['' # ?u) (\<lambda>i. tok i = kLSQB) ?u" by (rule reads_punct)
  have step: "ahead h' m' ?u \<Longrightarrow> m' = 0 \<Longrightarrow> wp (bnd (ParseImmNum (Suc (Suc N))) (\<lambda>m.
      thn (CHECK_AND_POP kCOMMA) (bnd (ParseImmNum (Suc (Suc N))) (\<lambda>e.
      thn (CHECK_AND_POP kRSQB) (f (m, e)))))) h' \<Phi>" for h' m'
    by ((erule run_ImmNum [OF assms(1,3)] | erule run_check | erule run_ImmNum_blank [OF assms(2,4)]
        | rule reads_punct | (rule k, simp; fail) | (simp; fail))+)
  show ?thesis
    unfolding ParseBound_def bnd_thn bnd_assoc bnd_ret
    using assms(5)
  proof
    assume h: "ahead h m (CHR ''['' # ?u)"
    show "wp (thn (CHECK_AND_POP kLSQB) (bnd (ParseImmNum (Suc (Suc N))) (\<lambda>m.
      thn (CHECK_AND_POP kCOMMA) (bnd (ParseImmNum (Suc (Suc N))) (\<lambda>e.
      thn (CHECK_AND_POP kRSQB) (f (m, e))))))) h \<Phi>"
      by (rule run_check [OF h open1], erule step) (use assms(6) in simp)
  next
    assume h: "ahead h m (CHR 0x20 # CHR ''['' # ?u)"
    show "wp (thn (CHECK_AND_POP kLSQB) (bnd (ParseImmNum (Suc (Suc N))) (\<lambda>m.
      thn (CHECK_AND_POP kCOMMA) (bnd (ParseImmNum (Suc (Suc N))) (\<lambda>e.
      thn (CHECK_AND_POP kRSQB) (f (m, e))))))) h \<Phi>"
      by (rule run_check [OF h reads_space [OF open1]], erule step) (use assms(6) in simp)
  qed
qed

lemma run_ParseBoundTail:
  assumes "list_all plain_imm ms" and "list_all plain_imm es" and "PrintBounds ms es = Ok s"
    and "ms \<noteq> []" and "length ms \<le> l" and "m \<le> 1"
    and "ahead h m (s @ CHR '')'' # r) \<or> ahead h m (CHR 0x20 # s @ CHR '')'' # r)"
    and "\<And>h'. ahead h' 1 (CHR '')'' # r) \<Longrightarrow> wp (f (zip ms es)) h' \<Phi>"
  shows "wp (bnd (ParseBound (Suc (Suc N))) (\<lambda>b. bnd (ParseBoundTail (Suc (Suc N)) l) (\<lambda>bs. f (b # bs)))) h \<Phi>"
  using assms
proof (induction ms es arbitrary: s l m h f rule: PrintBounds.induct)
  case (2 a ms e es)
  obtain sa se where sa: "PrintExpr a = Ok sa" "PrintExpr e = Ok se"
    using "2.prems"(3) by (auto simp: res_bind_Ok_conv)
  have ae: "plain_imm a" "plain_imm e" using "2.prems" by simp_all
  obtain l' where l: "l = Suc l'" using "2.prems"(5) by (cases l) auto
  show ?case
  proof (cases "ms = []")
    case True
    then have es: "es = []" using "2.prems"(3) by (cases es) (auto simp: res_bind_Ok_conv)
    have "s = CHR ''['' # sa @ CHR '','' # CHR 0x20 # se @ '']''" using True es "2.prems"(3) sa by simp
    then have h: "ahead h m (CHR ''['' # sa @ CHR '','' # CHR 0x20 # se @ CHR '']'' # CHR '')'' # r) \<or>
        ahead h m (CHR 0x20 # CHR ''['' # sa @ CHR '','' # CHR 0x20 # se @ CHR '']'' # CHR '')'' # r)"
      using "2.prems"(7) by simp
    show ?thesis
      unfolding l ParseBoundTail.simps bnd_assoc
      by (rule run_ParseBound [OF ae sa h "2.prems"(6)], erule run_front, rule reads_punct)
        (use "2.prems"(8) True es in \<open>simp del: ahead.simps\<close>)
  next
    case False
    then obtain ss where ss: "PrintBounds ms es = Ok ss"
        "s = CHR ''['' # sa @ CHR '','' # CHR 0x20 # se @ CHR '']'' # CHR '','' # CHR 0x20 # ss"
      using "2.prems"(3) sa by (auto simp: res_bind_Ok_conv)
    then have h: "ahead h m (CHR ''['' # sa @ CHR '','' # CHR 0x20 # se @ CHR '']'' # CHR '','' # CHR 0x20 # ss @ CHR '')'' # r) \<or>
        ahead h m (CHR 0x20 # CHR ''['' # sa @ CHR '','' # CHR 0x20 # se @ CHR '']'' # CHR '','' # CHR 0x20 # ss @ CHR '')'' # r)"
      using "2.prems"(7) by simp
    have rec: "ahead h' 0 (CHR 0x20 # ss @ CHR '')'' # r) \<Longrightarrow>
        wp (bnd (ParseBound (Suc (Suc N))) (\<lambda>b. bnd (ParseBoundTail (Suc (Suc N)) l') (\<lambda>bs. f ((a, e) # b # bs)))) h' \<Phi>" for h'
      using "2.prems" False ss(1) l by (intro "2.IH" [of ss l' 0 _ "\<lambda>bs. f ((a, e) # bs)"]) auto
    show ?thesis
      unfolding l ParseBoundTail.simps bnd_assoc
      by (rule run_ParseBound [OF ae sa h "2.prems"(6)], erule run_front, rule reads_punct,
          simp only: if_True simp_thms bnd_thn bnd_assoc bnd_ret, erule run_h_pop [OF _ _ reads_punct(5)])
        (simp_all add: rec del: ahead.simps)
  qed
qed simp_all

section \<open>The fragment of statements\<close>

fun container :: "ASTStmt \<Rightarrow> bool" where
  "container (ASTLet x v b) \<longleftrightarrow> True"
| "container (ASTAttr n key v b) \<longleftrightarrow> True"
| "container (ASTAssert c m b) \<longleftrightarrow> True"
| "container (ASTAllocate buf t bs ext b) \<longleftrightarrow> True"
| "container _ \<longleftrightarrow> False"

fun plain_stmt :: "ASTStmt \<Rightarrow> bool" and plain_stmts :: "ASTStmt list \<Rightarrow> bool" where
  "plain_stmt (ASTLet x v b) \<longleftrightarrow> plain_ident x \<and> plain_expr v \<and> b \<noteq> [] \<and> plain_stmts b"
| "plain_stmt (ASTAttr node key v b) \<longleftrightarrow>
     attr_node 0 (node @ '']'') = Some node \<and> plain_ident key \<and> plain_expr v \<and> b \<noteq> [] \<and> plain_stmts b"
| "plain_stmt (ASTAssert c m b) \<longleftrightarrow> False"
| "plain_stmt (ASTProduce f b) \<longleftrightarrow> plain_ident f \<and> b \<noteq> [] \<and> plain_stmts b"
| "plain_stmt (ASTStore buf v i p) \<longleftrightarrow>
     plain_ident buf \<and> plain_expr v \<and> plain_expr i \<and> plain_pred p \<and> (\<not> unit_pred p \<longrightarrow> \<not> default_load v)"
| "plain_stmt (ASTProvide f v args) \<longleftrightarrow> plain_ident f \<and> plain_expr v \<and> list_all plain_expr args"
| "plain_stmt (ASTAllocate buf t bs ext b) \<longleftrightarrow>
     plain_ident buf \<and> printable_type t bs \<and> list_all plain_imm ext \<and> b \<noteq> [] \<and> plain_stmts b"
| "plain_stmt (ASTRealize f t bs ms es b) \<longleftrightarrow>
     plain_ident f \<and> printable_type t bs \<and> list_all plain_imm ms \<and> list_all plain_imm es \<and>
     b \<noteq> [] \<and> plain_stmts b"
| "plain_stmt (ASTIfThenElse c t e) \<longleftrightarrow> plain_expr c \<and> t \<noteq> [] \<and> plain_stmts t \<and> plain_stmts e"
| "plain_stmt (ASTEvaluate v) \<longleftrightarrow> plain_expr v \<and> \<not> starts_with_word v"
| "plain_stmt (ASTFor x m e b) \<longleftrightarrow>
     plain_ident x \<and> plain_expr m \<and> plain_expr e \<and> b \<noteq> [] \<and> plain_stmts b"
| "plain_stmts [] \<longleftrightarrow> True"
| "plain_stmts (s # ss) \<longleftrightarrow> plain_stmt s \<and> plain_stmts ss \<and> (container s \<longrightarrow> ss = [])"

text \<open>Fuel that suffices to read a statement back.\<close>

definition expr_weights :: "ASTExpr list \<Rightarrow> nat" where
  "expr_weights es = sum_list (map size es) + length es + 1"

fun weight :: "ASTStmt \<Rightarrow> nat" and weights :: "ASTStmt list \<Rightarrow> nat" where
  "weight (ASTLet x v b) = size v + weights b + 1"
| "weight (ASTAttr n key v b) = size v + weights b + 1"
| "weight (ASTAssert c m b) = 1"
| "weight (ASTProduce f b) = weights b + 1"
| "weight (ASTStore buf v i p) = size v + size i + 1"
| "weight (ASTProvide f v args) = size v + expr_weights args + 1"
| "weight (ASTAllocate buf t bs ext b) = expr_weights ext + weights b + 1"
| "weight (ASTRealize f t bs ms es b) = expr_weights ms + weights b + 1"
| "weight (ASTIfThenElse c t e) = size c + weights t + weights e + 1"
| "weight (ASTEvaluate v) = size v + 1"
| "weight (ASTFor x m e b) = size m + size e + weights b + 1"
| "weights [] = 1"
| "weights (s # ss) = weight s + weights ss + 1"

lemma expr_weights_bounds:
  "length es < expr_weights es"
  "e \<in> set es \<Longrightarrow> size e < expr_weights es"
proof -
  show "length es < expr_weights es" by (simp add: expr_weights_def)
  assume "e \<in> set es"
  then have "size e \<le> sum_list (map size es)" by (induction es) auto
  then show "size e < expr_weights es" by (simp add: expr_weights_def)
qed

section \<open>Reading statements\<close>

text \<open>The end of a statement list: a closing brace or the end of the text.\<close>

definition list_end :: "string \<Rightarrow> bool" where
  "list_end r \<longleftrightarrow> (\<exists>t r'. reads r (\<lambda>i. tok i = t) r' \<and> t \<in> {kEND, kRBRACE})"

definition after :: "'a \<Rightarrow> string \<Rightarrow> 'a \<Rightarrow> TokHandler \<Rightarrow> bool" where
  "after s r = (\<lambda>x h. x = s \<and> (\<exists>m \<le> 1. ahead h m r \<or> ahead h m (NEWLINE # r)))"

abbreviation PE :: "nat \<Rightarrow> ASTExpr option parser" where
  "PE M \<equiv> ParseExpr (Suc (Suc M)) (Suc (Suc M))"

abbreviation PSL :: "nat \<Rightarrow> nat \<Rightarrow> ASTStmt list parser" where
  "PSL M n \<equiv> ParseStmtList (Suc (Suc M)) n"

abbreviation PS :: "nat \<Rightarrow> nat \<Rightarrow> ASTStmt option parser" where
  "PS M n \<equiv> ParseStmt (Suc (Suc M)) (PE M) (PSL M n)"

definition stmt_reads :: "ASTStmt \<Rightarrow> string \<Rightarrow> bool" where
  "stmt_reads s t \<longleftrightarrow>
     (\<forall>M n h r. weight s \<le> n \<longrightarrow> weight s \<le> M \<longrightarrow> ahead h 1 (t @ r) \<longrightarrow>
        (container s \<longrightarrow> list_end r) \<longrightarrow> wp (PS M n) h (after (Some s) r))"

definition stmts_read :: "ASTStmt list \<Rightarrow> string \<Rightarrow> bool" where
  "stmts_read ss t \<longleftrightarrow>
     (\<forall>M n l m h r. weights ss \<le> Suc n \<longrightarrow> weights ss \<le> M \<longrightarrow> weights ss \<le> l \<longrightarrow> m \<le> 1 \<longrightarrow>
        ahead h m (t @ r) \<or> ahead h m (NEWLINE # t @ r) \<longrightarrow> list_end r \<longrightarrow>
        wp (StmtListLoop (Suc (Suc M)) l (PS M n)) h (\<lambda>x h'. x = ss \<and> ahead h' 1 r))"

lemma wp_some_after: "wp p h (after s r) \<Longrightarrow> wp (some p) h (after (Some s) r)"
  unfolding some_def wp_bnd by (erule wp_mono) (auto simp: after_def intro: wp_ret)

lemma StmtListBody_loop:
  "StmtListLoop N (Suc N) ps h = Ok (ss, h') \<Longrightarrow> ss \<noteq> [] \<Longrightarrow> StmtListBody N ps h = Ok (ss, h')"
  by (auto simp: StmtListBody_def thn_def bnd_def checked_def ret_def fail_def
      split: res.splits option.splits)

lemma run_list:
  assumes "stmts_read ss t" and "ss \<noteq> []" and "weights ss \<le> n" and "weights ss \<le> M"
    and "ahead h m (t @ r) \<or> ahead h m (NEWLINE # t @ r)" and "m \<le> 1" and "list_end r"
    and k: "\<And>h'. ahead h' 1 r \<Longrightarrow> wp (f ss) h' \<Phi>"
  shows "wp (bnd (PSL M n) f) h \<Phi>"
proof -
  obtain n' where n: "n = Suc n'" using assms(2,3) by (cases n; cases ss) auto
  have "wp (StmtListLoop (Suc (Suc M)) (Suc (Suc (Suc M))) (PS M n')) h (\<lambda>x h'. x = ss \<and> ahead h' 1 r)"
    using assms n unfolding stmts_read_def by (metis le_SucI)
  then have "wp (StmtListBody (Suc (Suc M)) (PS M n')) h (\<lambda>x h'. x = ss \<and> ahead h' 1 r)"
    using StmtListBody_loop assms(2) unfolding wp_def by metis
  then show ?thesis
    unfolding wp_bnd n ParseStmtList.simps by (rule wp_mono) (auto intro: k)
qed

lemma run_body:
  assumes "stmts_read ss t" and "ss \<noteq> []" and "weights ss \<le> n" and "weights ss \<le> M" and "m \<le> 1"
    and h: "ahead h m (CHR 0x20 # CHR ''{'' # NEWLINE # t @ PrintIndent j @ CHR ''}'' # r)"
    and k: "\<And>h'. ahead h' 0 r \<Longrightarrow> wp (f ss) h' \<Phi>"
  shows "wp (bnd (ParseStmtBody (PSL M n)) f) h \<Phi>"
proof -
  have rb: "reads (PrintIndent j @ CHR ''}'' # r) (\<lambda>i. tok i = kRBRACE) r"
    by (intro reads_spaces reads_punct)
  then have e: "list_end (PrintIndent j @ CHR ''}'' # r)" by (auto simp: list_end_def)
  show ?thesis
    unfolding ParseStmtBody_def bnd_thn bnd_assoc bnd_ret
    by (rule run_check [OF h]) 
      ((erule run_check | erule run_list [OF assms(1-4) disjI1 _ e] | rule reads_space reads_punct reads_newline rb
        | (rule k, simp; fail) | (use assms(5) in simp; fail))+)
qed

lemma stmt_front:
  assumes "ahead h m (PrintIndent j @ r)" and "m \<le> 1" and r: "reads r (\<lambda>i. tok i = t) r'"
  shows "\<exists>h'. ahead h' 1 r \<and> ParseStmt N pe psl h = ParseStmt N pe psl h'"
proof -
  have "wp FrontTok h (\<lambda>t' h'. t' = t \<and> ahead h' (max 1 m) (PrintIndent j @ r))"
    by (rule wp_FrontTok [OF assms(1) reads_spaces [OF r]]) simp
  then obtain h' where h': "FrontTok h = Ok (t, h')" "ahead h' (max 1 m) (PrintIndent j @ r)"
    by (auto simp: wp_def)
  moreover have "max 1 m = 1" using assms(2) by simp
  ultimately have a: "ahead h' 1 r" using ahead_blanks reads_nonempty [OF r] by (metis zero_less_one)
  have "wp FrontTok h' (\<lambda>t' h''. t' = t \<and> h'' = h')"
    using a lexed_reads [OF r] by (auto simp: wp_def FrontTok_eq)
  then have "FrontTok h' = Ok (t, h')" by (simp add: wp_def)
  with h'(1) have "ParseStmt N pe psl h = ParseStmt N pe psl h'"
    by (simp add: ParseStmt_def bnd_def)
  with a show ?thesis by blast
qed

lemma fin0: "ahead h m r \<Longrightarrow> m \<le> 1 \<Longrightarrow> x = s \<Longrightarrow> wp (ret x) h (after s r)"
  by (rule wp_ret) (auto simp: after_def)

lemma fin1: "ahead h m (NEWLINE # r) \<Longrightarrow> m \<le> 1 \<Longrightarrow> x = s \<Longrightarrow> wp (ret x) h (after s r)"
  by (rule wp_ret) (auto simp: after_def)

lemmas token_reads = reads_keywords reads_punct reads_punct_cond reads_newline reads_space

lemma for_reads:
  assumes x: "plain_ident x" and m: "expr_reads m sm" and e: "expr_reads e se"
    and b: "stmts_read b sb" "b \<noteq> []"
  shows "stmt_reads (ASTFor x m e b) (''for ('' @ x @ '', '' @ sm @ '', '' @ se @ '') {'' @ [NEWLINE] @ sb @
    PrintIndent j @ ''}'' @ [NEWLINE])" (is "stmt_reads ?s ?t")
  unfolding stmt_reads_def
proof (intro allI impI)
  fix M n h r
  let ?u = "CHR 0x20 # CHR ''('' # x @ CHR '','' # CHR 0x20 # sm @ CHR '','' # CHR 0x20 # se @ CHR '')'' #
    CHR 0x20 # CHR ''{'' # NEWLINE # sb @ PrintIndent j @ CHR ''}'' # NEWLINE # r"
  assume w: "weight ?s \<le> n" "weight ?s \<le> M" and "ahead h 1 (?t @ r)"
  then have h: "ahead h 1 (''for'' @ ?u)"
    and k: "size m < Suc (Suc M)" "size e < Suc (Suc M)" "weights b \<le> n" "weights b \<le> M"
    by simp_all
  have kw: "reads (''for'' @ ?u) (\<lambda>i. tok i = kFOR) ?u" by (rule reads_keywords) simp
  have "wp (ParseFor (PE M) (PSL M n)) h' (after ?s r)" if "ahead h' (max 1 1) (''for'' @ ?u)" for h'
    using that unfolding ParseFor_def
    by - ((erule run_check | erule run_PopTok | erule run_expr1 [OF m k(1)] | erule run_expr1 [OF e k(2)]
        | erule run_body [OF b k(3,4), rotated] | rule kw | rule token_reads | rule reads_ident_Cons [OF x]
        | erule fin1 | (simp; fail))+)
  then show "wp (PS M n) h (after (Some ?s) r)"
    unfolding ParseStmt_def by (intro run_front [OF h kw]) (simp add: wp_some_after del: ahead.simps)
qed

lemma produce_reads:
  assumes f: "plain_ident f" and b: "stmts_read b sb" "b \<noteq> []"
  shows "stmt_reads (ASTProduce f b) (''produce '' @ f @ '' {'' @ [NEWLINE] @ sb @
    PrintIndent j @ ''}'' @ [NEWLINE])" (is "stmt_reads ?s ?t")
  unfolding stmt_reads_def
proof (intro allI impI)
  fix M n h r
  let ?u = "CHR 0x20 # f @ CHR 0x20 # CHR ''{'' # NEWLINE # sb @ PrintIndent j @ CHR ''}'' # NEWLINE # r"
  assume w: "weight ?s \<le> n" "weight ?s \<le> M" and "ahead h 1 (?t @ r)"
  then have h: "ahead h 1 (''produce'' @ ?u)" and k: "weights b \<le> n" "weights b \<le> M" by simp_all
  have kw: "reads (''produce'' @ ?u) (\<lambda>i. tok i = kPRODUCE) ?u" by (rule reads_keywords) simp
  have "wp (ParseProduce (PSL M n)) h' (after ?s r)" if "ahead h' (max 1 1) (''produce'' @ ?u)" for h'
    using that unfolding ParseProduce_def
    by - ((erule run_check | erule run_PopTok | erule run_body [OF b k, rotated] | rule kw | rule token_reads
        | rule reads_ident_Cons [OF f] | erule fin1 | (simp; fail))+)
  then show "wp (PS M n) h (after (Some ?s) r)"
    unfolding ParseStmt_def by (intro run_front [OF h kw]) (simp add: wp_some_after del: ahead.simps)
qed

lemma let_stmt_reads:
  assumes x: "plain_ident x" and v: "expr_reads v sv" and b: "stmts_read b sb" "b \<noteq> []"
  shows "stmt_reads (ASTLet x v b) (''let '' @ x @ '' = '' @ sv @ [NEWLINE] @ sb)" (is "stmt_reads ?s ?t")
  unfolding stmt_reads_def
proof (intro allI impI)
  fix M n h r
  let ?u = "CHR 0x20 # x @ CHR 0x20 # CHR ''='' # CHR 0x20 # sv @ NEWLINE # sb @ r"
  assume w: "weight ?s \<le> n" "weight ?s \<le> M" and "ahead h 1 (?t @ r)" and "container ?s \<longrightarrow> list_end r"
  then have h: "ahead h 1 (''let'' @ ?u)" and e: "list_end r"
    and k: "size v < Suc (Suc M)" "weights b \<le> n" "weights b \<le> M" by simp_all
  have kw: "reads (''let'' @ ?u) (\<lambda>i. tok i = kLET) ?u" by (rule reads_keywords) simp
  have "wp (ParseLet (PE M) (PSL M n)) h' (after ?s r)" if "ahead h' (max 1 1) (''let'' @ ?u)" for h'
    using that unfolding ParseLet_def
    by - ((erule run_check | erule run_PopTok | erule run_expr1 [OF v k(1)]
        | erule run_list [OF b k(2,3) disjI2 _ e] | rule kw | rule token_reads
        | rule reads_ident_Cons [OF x] | erule fin0 | (simp; fail))+)
  then show "wp (PS M n) h (after (Some ?s) r)"
    unfolding ParseStmt_def by (intro run_front [OF h kw]) (simp add: wp_some_after del: ahead.simps)
qed

lemma attr_node_append: "attr_node k xs = Some n \<Longrightarrow> attr_node k (xs @ ys) = Some n"
  by (induction k xs arbitrary: n rule: attr_node.induct) (auto split: if_splits)

lemma attr_node_length: "attr_node k xs = Some n \<Longrightarrow> \<exists>ys. xs = n @ CHR '']'' # ys"
  by (induction k xs arbitrary: n rule: attr_node.induct) (auto split: if_splits)

lemma run_ReadAttrNode:
  assumes h: "ahead h m (node @ CHR '']'' # r)" and "m = 0" and node: "attr_node 0 (node @ '']'') = Some node"
    and k: "\<And>h'. ahead h' 0 r \<Longrightarrow> wp (f node) h' \<Phi>"
  shows "wp (bnd ReadAttrNode f) h \<Phi>"
proof -
  have "attr_node 0 (node @ CHR '']'' # r) = Some node"
    using attr_node_append [OF node, of r] by simp
  moreover have "rest (stat h) = node @ CHR '']'' # r" "queue h = []" using h assms(2) by simp_all
  moreover from this have "rest ((stat h)\<lparr>cur := cur (stat h) + (length node + 1)\<rparr>) = r"
    unfolding rest_advance by simp
  ultimately show ?thesis
    using k [of "h\<lparr>stat := (stat h)\<lparr>cur := cur (stat h) + length node + 1\<rparr>\<rparr>"]
    by (simp add: wp_def bnd_def ReadAttrNode_def)
qed

lemma attr_reads:
  assumes node: "attr_node 0 (node @ '']'') = Some node" and x: "plain_ident key"
    and v: "expr_reads v sv" and b: "stmts_read b sb" "b \<noteq> []"
  shows "stmt_reads (ASTAttr node key v b)
    (''// attr ['' @ node @ ''] '' @ key @ '' = '' @ sv @ [NEWLINE] @ sb)" (is "stmt_reads ?s ?t")
  unfolding stmt_reads_def
proof (intro allI impI)
  fix M n h r
  let ?w = "CHR 0x20 # CHR ''['' # node @ CHR '']'' # CHR 0x20 # key @ CHR 0x20 # CHR ''='' # CHR 0x20 # sv @ NEWLINE # sb @ r"
  let ?u = "CHR 0x20 # ''attr'' @ ?w"
  assume w: "weight ?s \<le> n" "weight ?s \<le> M" and "ahead h 1 (?t @ r)" and "container ?s \<longrightarrow> list_end r"
  then have h: "ahead h 1 (CHR ''/'' # CHR ''/'' # ?u)" and e: "list_end r"
    and k: "size v < Suc (Suc M)" "weights b \<le> n" "weights b \<le> M" by simp_all
  have kw: "reads (CHR ''/'' # CHR ''/'' # ?u) (\<lambda>i. tok i = kDOUBLESLASH) ?u" by (rule reads_double)
  have attr: "reads ?u (\<lambda>i. tok i = kATTR) ?w" by (rule reads_space, rule reads_keywords) simp
  have "wp (ParseAttr (PE M) (PSL M n)) h' (after ?s r)" if "ahead h' (max 1 1) (CHR ''/'' # CHR ''/'' # ?u)" for h'
    using that unfolding ParseAttr_def
    by - ((erule run_check | erule run_PopTok | erule run_ReadAttrNode [OF _ _ node] | erule run_expr1 [OF v k(1)]
        | erule run_list [OF b k(2,3) disjI2 _ e] | rule kw | rule attr | rule token_reads
        | rule reads_ident_Cons [OF x] | erule fin0 | (simp; fail))+)
  then show "wp (PS M n) h (after (Some ?s) r)"
    unfolding ParseStmt_def by (intro run_front [OF h kw]) (simp add: wp_some_after del: ahead.simps)
qed

lemma allocate_reads:
  assumes x: "plain_ident x" and t: "printable_type t bs" and ext: "list_all plain_imm ext" "PrintExtents ext = Ok se"
    and b: "stmts_read b sb" "b \<noteq> []"
  shows "stmt_reads (ASTAllocate x t bs ext b)
    (''allocate '' @ x @ ''['' @ type_word t @ show_bits bs @ se @ '']'' @ [NEWLINE] @ sb)" (is "stmt_reads ?s ?t")
  unfolding stmt_reads_def
proof (intro allI impI)
  fix M n h r
  let ?v = "se @ CHR '']'' # NEWLINE # sb @ r"
  let ?u = "CHR 0x20 # x @ CHR ''['' # type_word t @ show_bits bs @ ?v"
  assume w: "weight ?s \<le> n" "weight ?s \<le> M" and "ahead h 1 (?t @ r)" and "container ?s \<longrightarrow> list_end r"
  then have h: "ahead h 1 (''allocate'' @ ?u)" and e: "list_end r"
    and k: "weights b \<le> n" "weights b \<le> M" and l: "length ext < Suc (Suc M)"
    using expr_weights_bounds(1) [of ext] by simp_all
  have kw: "reads (''allocate'' @ ?u) (\<lambda>i. tok i = kALLOCATE) ?u" by (rule reads_keywords) simp
  have "word_stop ?v" using ext(2) by (cases ext) (auto simp: res_bind_Ok_conv)
  with t have ty: "reads (type_word t @ show_bits bs @ ?v) (\<lambda>i. tok i = kTYPE \<and> itype i = t \<and> bits i = bs) ?v"
    by (rule reads_type_Cons)
  have "wp (ParseAllocate (Suc (Suc M)) (PSL M n)) h' (after ?s r)" if "ahead h' (max 1 1) (''allocate'' @ ?u)" for h'
    using that unfolding ParseAllocate_def
    by - ((erule run_check | erule run_PopTok | erule run_ParseExtents [OF ext l, rotated]
        | erule run_list [OF b k disjI2 _ e] | rule kw | rule ty | rule token_reads
        | rule reads_ident_Cons [OF x] | erule fin0 | (simp; fail))+)
  then show "wp (PS M n) h (after (Some ?s) r)"
    unfolding ParseStmt_def by (intro run_front [OF h kw]) (simp add: wp_some_after del: ahead.simps)
qed

lemma stmt_word:
  assumes h: "ahead h 1 r" and id: "reads r (\<lambda>i. tok i = kID \<and> sval i = x) r1"
    and t: "reads r1 (\<lambda>i. tok i = t) r2" "t \<in> {kLSQB, kLPAR}"
    and k: "\<And>h'. ahead h' 2 r \<Longrightarrow>
      wp (if t = kLSQB then ParseStore N pe else ParseProvide N pe) h' (after s r')"
  shows "wp (ParseStmt N pe psl) h (after (Some s) r')"
  unfolding ParseStmt_def
proof (rule run_front [OF h reads_tok [OF id]])
  fix h'
  assume h': "ahead h' (max 1 1) r"
  have "wp (bnd LookNextTok (\<lambda>t. if t = kLSQB then some (ParseStore N pe)
      else if t = kLPAR then some (ParseProvide N pe)
      else bnd pe (\<lambda>value. ret (map_option ASTEvaluate value)))) h' (after (Some s) r')"
    by (rule run_look1 [OF h' _ id t(1)])
      (use t(2) k in \<open>auto intro!: wp_some_after simp del: ahead.simps split: if_splits\<close>)
  then show "wp (if kID = kLET then some (ParseLet pe psl)
     else if kID = kDOUBLESLASH then some (ParseAttr pe psl)
     else if kID = kASSERT then some (ParseAssert pe psl)
     else if kID = kALLOCATE then some (ParseAllocate N psl)
     else if kID = kPRODUCE then some (ParseProduce psl)
     else if kID = kREALIZE then some (ParseRealize N psl)
     else if kID = kIF then some (ParseIf N pe psl)
     else if kID = kFOR then some (ParseFor pe psl)
     else
       bnd (if kID = kID then bnd LookNextTok (\<lambda>t. ret (Some t)) else ret None) (\<lambda>tmp.
       if tmp = Some kLSQB then some (ParseStore N pe)
       else if tmp = Some kLPAR then some (ParseProvide N pe)
       else bnd pe (\<lambda>value. ret (map_option ASTEvaluate value)))) h' (after (Some s) r')"
    by (simp cong: if_cong)
qed

lemma store_reads:
  assumes x: "plain_ident x" and v: "expr_reads v sv" and i: "expr_reads i si"
    and p: "plain_pred p" "PrintExpr p = Ok sp" and d: "\<not> unit_pred p \<longrightarrow> \<not> default_load v"
  shows "stmt_reads (ASTStore x v i p) (x @ ''['' @ si @ ''] = '' @ sv @
    (if unit_pred p then [] else CHR 0x20 # ''if'' @ CHR 0x20 # sp) @ [NEWLINE])" (is "stmt_reads ?s ?t")
  unfolding stmt_reads_def
proof (intro allI impI)
  fix M n h r
  let ?q = "(if unit_pred p then [] else CHR 0x20 # ''if'' @ CHR 0x20 # sp) @ NEWLINE # r"
  let ?u = "CHR ''['' # si @ CHR '']'' # CHR 0x20 # CHR ''='' # CHR 0x20 # sv @ ?q"
  assume w: "weight ?s \<le> n" "weight ?s \<le> M" and "ahead h 1 (?t @ r)"
  then have h: "ahead h 1 (x @ ?u)" and k: "size v < Suc (Suc M)" "size i < Suc (Suc M)" by simp_all
  have id: "reads (x @ ?u) (\<lambda>i. tok i = kID \<and> sval i = x) ?u"
    by (rule reads_ident_Cons [OF x]) simp
  have kw: "\<not> unit_pred p \<Longrightarrow> reads ?q (\<lambda>i. tok i = kIF) (CHR 0x20 # sp @ NEWLINE # r)"
    using reads_space [OF reads_keywords(4) [of "CHR 0x20 # sp @ NEWLINE # r"]] by simp
  have fo: "follow v ?q"
  proof (cases "unit_pred p")
    case False
    then show ?thesis
      using kw d unfolding follow_def by auto
  qed simp
  have pred: "ahead h' m ?q \<Longrightarrow> m \<le> 1 \<Longrightarrow> wp (bnd FrontTok (\<lambda>f. bnd (if f = kIF then thn h_pop (ParseImmNum (Suc (Suc M)))
      else ret (ASTIntImm 1 32)) (\<lambda>pred. ret (ASTStore x v i pred)))) h' (after ?s r)" for h' m
  proof (cases "unit_pred p")
    case True
    then have p1: "p = ASTIntImm 1 32" using p(1) by (auto simp: plain_pred_def)
    assume a: "ahead h' m ?q" "m \<le> 1"
    have "ahead h' m (NEWLINE # r)" using a True by simp
    then show ?thesis
      by (rule run_front [OF _ reads_newline]) (use a p1 in \<open>auto intro!: fin1 simp del: ahead.simps\<close>)
  next
    case False
    then have imm: "plain_imm p" using p(1) by (auto simp: plain_pred_def)
    have q: "?q = CHR 0x20 # ''if'' @ CHR 0x20 # sp @ NEWLINE # r" using False by simp
    assume a: "ahead h' m ?q" "m \<le> 1"
    show ?thesis
      by (rule run_front [OF a(1) kw [OF False]], simp only: if_True simp_thms bnd_thn,
          rule run_h_pop [OF _ _ kw [OF False]], assumption)
        ((erule run_ImmNum_blank [OF imm p(2)] | erule fin1 | (use a(2) in simp; fail))+)
  qed
  have "wp (ParseStore (Suc (Suc M)) (PE M)) h' (after ?s r)" if "ahead h' 2 (x @ ?u)" for h'
    using that unfolding ParseStore_def bnd_assoc
    by - ((erule run_check | erule run_PopTok [OF _ id] | erule run_expr0 [OF i k(2)] | erule run_expr1 [OF v k(1) _ _ fo]
        | (simp only:, erule pred) | rule token_reads | (simp; fail))+)
  then show "wp (PS M n) h (after (Some ?s) r)"
    by (intro stmt_word [OF h id reads_punct(3)]) simp_all
qed

lemma run_ParseArgs:
  assumes "list_all plain_expr args" and "PrintArgs args = Ok s"
    and l: "expr_weights args \<le> l" and k: "expr_weights args \<le> k" and h: "ahead h m (s @ CHR '')'' # r)" and m: "m = 0"
    and f: "\<And>h'. ahead h' 1 (CHR '')'' # r) \<Longrightarrow> wp (f args) h' \<Phi>"
  shows "wp (bnd (ParseArgs l (ParseExpr (Suc (Suc N)) k)) f) h \<Phi>"
proof (cases args)
  case Nil
  with assms(2) h have "ahead h m (CHR '')'' # r)" by simp
  then show ?thesis
    unfolding ParseArgs_def bnd_assoc
    by (rule run_look0 [OF _ m reads_punct(2)]) (use f Nil in \<open>simp del: ahead.simps\<close>)
next
  case (Cons e es)
  obtain se ss where se: "PrintExpr e = Ok se" "s = se @ ss" "delim (ss @ CHR '')'' # r)"
      "follow e (ss @ CHR '')'' # r)"
    using assms(2) Cons by (auto simp: res_bind_Ok_conv split: if_splits)
  obtain t r' where t: "reads (s @ CHR '')'' # r) (\<lambda>i. tok i = t) r'" and ne: "t \<noteq> kRPAR"
    using expr_first [OF _ se(1,4)] assms(1) Cons se(2) by fastforce
  have len: "length args \<le> l" using expr_weights_bounds(1) [of args] l by simp
  have sz: "\<forall>e \<in> set args. size e < k" using expr_weights_bounds(2) [of _ args] k by fastforce
  show ?thesis
    unfolding ParseArgs_def bnd_assoc
  proof (rule run_look0 [OF h m t])
    fix h'
    assume h': "ahead h' 1 (s @ CHR '')'' # r)"
    have "wp (bnd (ParseParamList l (ParseExpr (Suc (Suc N)) k)) f) h' \<Phi>"
      by (rule run_ParseParamList [OF assms(1) _ assms(2) len sz _ disjI1 [OF h']])
        (use Cons f in simp_all)
    with ne show "wp (bnd (if t \<noteq> kRPAR then ParseParamList l (ParseExpr (Suc (Suc N)) k) else ret []) f) h' \<Phi>"
      by simp
  qed
qed

lemma provide_reads:
  assumes x: "plain_ident x" and v: "expr_reads v sv" and args: "list_all plain_expr args" "PrintArgs args = Ok sa"
  shows "stmt_reads (ASTProvide x v args) (x @ ''('' @ sa @ '') = '' @ sv @ [NEWLINE])" (is "stmt_reads ?s ?t")
  unfolding stmt_reads_def
proof (intro allI impI)
  fix M n h r
  let ?u = "CHR ''('' # sa @ CHR '')'' # CHR 0x20 # CHR ''='' # CHR 0x20 # sv @ NEWLINE # r"
  assume w: "weight ?s \<le> n" "weight ?s \<le> M" and "ahead h 1 (?t @ r)"
  then have h: "ahead h 1 (x @ ?u)" and k: "size v < Suc (Suc M)" "expr_weights args \<le> Suc (Suc M)" by simp_all
  have id: "reads (x @ ?u) (\<lambda>i. tok i = kID \<and> sval i = x) ?u"
    by (rule reads_ident_Cons [OF x]) simp
  have eq: "reads (CHR 0x20 # CHR ''='' # CHR 0x20 # sv @ NEWLINE # r) (\<lambda>i. tok i = kEQUAL)
      (CHR 0x20 # sv @ NEWLINE # r)"
    by (rule reads_space, rule reads_punct_cond) simp_all
  have tail: "ahead h' m (CHR 0x20 # CHR ''='' # CHR 0x20 # sv @ NEWLINE # r) \<Longrightarrow> m = 0 \<Longrightarrow>
      wp (bnd LookNextTok (\<lambda>f. if f = kEQUAL
        then thn h_pop (bnd (checked (PE M)) (\<lambda>value. ret (ASTProvide x value args)))
        else bnd ParseCallTail (\<lambda>(t, call_t).
          ret (ASTEvaluate (ASTCall x (itype t) (bits t) (tok call_t) args))))) h' (after ?s r)" for h' m
    by (rule run_look0 [OF _ _ eq], assumption, assumption, simp only: if_True simp_thms,
        erule run_h_pop [OF _ _ eq])
      ((erule run_expr1 [OF v k(1)] | erule fin1 | (simp; fail))+)
  have "wp (ParseProvide (Suc (Suc M)) (PE M)) h' (after ?s r)" if "ahead h' 2 (x @ ?u)" for h'
    using that unfolding ParseProvide_def bnd_assoc
    by - ((erule run_check | erule run_PopTok [OF _ id] | erule run_ParseArgs [OF args k(2) k(2)]
        | (simp only:, erule tail) | rule token_reads | (simp; fail))+)
  then show "wp (PS M n) h (after (Some ?s) r)"
    by (intro stmt_word [OF h id reads_punct(1)]) simp_all
qed

lemma realize_reads:
  assumes x: "plain_ident x" and t: "printable_type t bs"
    and ms: "list_all plain_imm ms" "list_all plain_imm es" "PrintBounds ms es = Ok sm"
    and b: "stmts_read b sb" "b \<noteq> []"
  shows "stmt_reads (ASTRealize x t bs ms es b)
    (''realize '' @ x @ ''<'' @ type_word t @ show_bits bs @ ''>('' @ sm @ '') {'' @ [NEWLINE] @ sb @
     PrintIndent j @ ''}'' @ [NEWLINE])" (is "stmt_reads ?s ?t")
  unfolding stmt_reads_def
proof (intro allI impI)
  fix M n h r
  let ?w = "sm @ CHR '')'' # CHR 0x20 # CHR ''{'' # NEWLINE # sb @ PrintIndent j @ CHR ''}'' # NEWLINE # r"
  let ?v = "CHR ''>'' # CHR ''('' # ?w"
  let ?u = "CHR 0x20 # x @ CHR ''<'' # type_word t @ show_bits bs @ ?v"
  assume w: "weight ?s \<le> n" "weight ?s \<le> M" and "ahead h 1 (?t @ r)"
  then have h: "ahead h 1 (''realize'' @ ?u)"
    and k: "weights b \<le> n" "weights b \<le> M" and l: "length ms \<le> Suc (Suc M)"
    using expr_weights_bounds(1) [of ms] by simp_all
  have kw: "reads (''realize'' @ ?u) (\<lambda>i. tok i = kREALIZE) ?u" by (rule reads_keywords) simp
  have ty: "reads (type_word t @ show_bits bs @ ?v) (\<lambda>i. tok i = kTYPE \<and> itype i = t \<and> bits i = bs) ?v"
    by (rule reads_type_Cons [OF t]) simp
  have lt: "reads (CHR ''<'' # type_word t @ show_bits bs @ ?v) (\<lambda>i. tok i = kLESS) (type_word t @ show_bits bs @ ?v)"
    using t by (intro reads_punct_cond) (auto simp: printable_type_def)
  have len: "length es = length ms" using ms(3)
    by (induction ms es arbitrary: sm rule: PrintBounds.induct) (auto simp: res_bind_Ok_conv)
  have bounds: "wp (bnd FrontTok (\<lambda>f. bnd (if f \<noteq> kRPAR
        then bnd (ParseBound (Suc (Suc M))) (\<lambda>b. bnd (ParseBoundTail (Suc (Suc M)) (Suc (Suc M))) (\<lambda>list. ret (b # list)))
        else ret []) g)) h' \<Phi>"
    if h': "ahead h' m ?w" "m = 0"
      and g: "\<And>h'. ahead h' 1 (CHR '')'' # CHR 0x20 # CHR ''{'' # NEWLINE # sb @ PrintIndent j @ CHR ''}'' # NEWLINE # r) \<Longrightarrow>
        wp (g (zip ms es)) h' \<Phi>" for h' m g \<Phi>
  proof (cases "ms = []")
    case True
    then have "es = []" "sm = []" using ms(3) len by simp_all
    have rp: "reads ?w (\<lambda>i. tok i = kRPAR) (CHR 0x20 # CHR ''{'' # NEWLINE # sb @ PrintIndent j @ CHR ''}'' # NEWLINE # r)"
      unfolding \<open>sm = []\<close> append_Nil by (rule reads_punct)
    show ?thesis
      by (rule run_front [OF h'(1) rp], simp only: if_False simp_thms bnd_ret)
        (use g True \<open>sm = []\<close> h'(2) in \<open>simp del: ahead.simps One_nat_def\<close>)
  next
    case False
    then obtain sm' where sm: "sm = CHR ''['' # sm'"
      using ms(3) len by (cases ms; cases es) (auto simp: res_bind_Ok_conv)
    have lsq: "reads ?w (\<lambda>i. tok i = kLSQB) (tl ?w)" unfolding sm by (simp, rule reads_punct)
    have g': "wp (bnd (ParseBound (Suc (Suc M))) (\<lambda>b. bnd (ParseBoundTail (Suc (Suc M)) (Suc (Suc M))) (\<lambda>list. g (b # list)))) h'' \<Phi>"
      if "ahead h'' 1 ?w" for h''
      by (rule run_ParseBoundTail [OF ms False l _ disjI1 [OF that], where f = g]) (use g in simp_all)
    show ?thesis
      by (rule run_front [OF h'(1) lsq]) (use h'(2) g' in \<open>simp del: ahead.simps\<close>)
  qed
  have "wp (ParseRealize (Suc (Suc M)) (PSL M n)) h' (after ?s r)" if "ahead h' (max 1 1) (''realize'' @ ?u)" for h'
    using that unfolding ParseRealize_def bnd_assoc
    by - ((erule run_check | erule run_PopTok | erule bounds
        | erule run_body [OF b k, rotated] | rule kw | rule ty | rule lt | rule token_reads
        | rule reads_ident_Cons [OF x] | erule fin1 | (simp add: len; fail))+)
  then show "wp (PS M n) h (after (Some ?s) r)"
    unfolding ParseStmt_def by (intro run_front [OF h kw]) (simp add: wp_some_after del: ahead.simps)
qed

lemma evaluate_reads:
  assumes e: "plain_expr e" "PrintExpr e = Ok s" "\<not> starts_with_word e"
  shows "stmt_reads (ASTEvaluate e) (s @ [NEWLINE])" (is "stmt_reads ?s ?t")
  unfolding stmt_reads_def
proof (intro allI impI)
  fix M n h r
  assume w: "weight ?s \<le> n" "weight ?s \<le> M" and "ahead h 1 (?t @ r)"
  then have h: "ahead h 1 (s @ NEWLINE # r)" and k: "size e < Suc (Suc M)" by simp_all
  obtain t r' where t: "reads (s @ NEWLINE # r) (\<lambda>i. tok i = t) r'"
      "t \<in> {kLPAR, kNUMBER, kMINUS, kSTRING, kTYPE, kSELECT}"
    using expr_first [OF e(1,2) follow_delims(4) [of e r]] e(3) by auto
  have "wp (bnd (PE M) (\<lambda>value. ret (map_option ASTEvaluate value))) h' (after (Some ?s) r)"
    if h': "ahead h' (max 1 1) (s @ NEWLINE # r)" for h'
  proof -
    have "wp (PE M) h' (finished (Some e) (NEWLINE # r))"
      using plain_expr_reads [OF e(1,2)] k h' unfolding expr_reads_def
      by (metis PrintIndent_simps(1) append_Nil max.idem order_refl follow_delims(4))
    then show ?thesis
      unfolding wp_bnd by (rule wp_mono) (auto simp: finished_def after_def intro!: wp_ret)
  qed
  then show "wp (PS M n) h (after (Some ?s) r)"
    unfolding ParseStmt_def using t(2) by (intro run_front [OF h t(1)]) (auto simp del: ahead.simps)
qed

end
