(* ===== verification/Halide_Roundtrip.thy ===== *)
theory Halide_Roundtrip
  imports Halide_Stmt_Reads
begin

text \<open>
  The round trip of whole programs: conditionals with their else chains, statement lists, and the
  loop of \<open>GenAST\<close>, put together by induction along \<open>PrintStmt\<close>.
\<close>

section \<open>Conditionals\<close>

definition if_reads :: "ASTExpr \<Rightarrow> ASTStmt list \<Rightarrow> ASTStmt list \<Rightarrow> string \<Rightarrow> bool" where
  "if_reads c t e u \<longleftrightarrow>
     (\<forall>M n l h r. weight (ASTIfThenElse c t e) \<le> n \<longrightarrow> weight (ASTIfThenElse c t e) \<le> M \<longrightarrow>
        weight (ASTIfThenElse c t e) \<le> l \<longrightarrow> ahead h 1 (u @ r) \<longrightarrow>
        wp (ParseIf l (PE M) (PSL M n)) h (after (ASTIfThenElse c t e) r))"

text \<open>The common part: what follows the first body decides the else branch.\<close>

lemma if_readsI:
  assumes c: "expr_reads c sc" and t: "stmts_read t st" "t \<noteq> []"
    and rest: "\<And>M n l h r. weights e + 1 \<le> n \<Longrightarrow> weights e + 1 \<le> M \<Longrightarrow> weights e + 1 \<le> l \<Longrightarrow> ahead h 0 (w @ r) \<Longrightarrow>
      wp (bnd FrontTok (\<lambda>f. bnd (if f = kELSE then
          thn h_pop (bnd FrontTok (\<lambda>g. if g = kIF then bnd (ParseIf l (PE M) (PSL M n)) (\<lambda>e. ret [e])
            else ParseStmtBody (PSL M n)))
        else ret []) (\<lambda>else_case. ret (ASTIfThenElse c t else_case)))) h (after (ASTIfThenElse c t e) r)"
  shows "if_reads c t e (''if ('' @ sc @ '') {'' @ [NEWLINE] @ st @ PrintIndent j @ ''}'' @ w)"
  unfolding if_reads_def
proof (intro allI impI)
  fix M n l h r
  let ?s = "ASTIfThenElse c t e"
  let ?u = "CHR 0x20 # CHR ''('' # sc @ CHR '')'' # CHR 0x20 # CHR ''{'' # NEWLINE # st @ PrintIndent j @ CHR ''}'' # w @ r"
  assume k: "weight ?s \<le> n" "weight ?s \<le> M" "weight ?s \<le> l"
    and "ahead h 1 ((''if ('' @ sc @ '') {'' @ [NEWLINE] @ st @ PrintIndent j @ ''}'' @ w) @ r)"
  then have h: "ahead h 1 (''if'' @ ?u)" by simp
  obtain l' where l: "l = Suc l'" using k(3) by (cases l) auto
  have "1 \<le> weights t" by (cases t) auto
  then have k': "size c < Suc (Suc M)" "weights t \<le> n" "weights t \<le> M" "weights e + 1 \<le> n" "weights e + 1 \<le> M"
      "weights e + 1 \<le> l'" using k l by simp_all
  show "wp (ParseIf l (PE M) (PSL M n)) h (after ?s r)"
    using h unfolding l ParseIf.simps bnd_assoc
    by - ((erule run_check | erule run_expr0 [OF c k'(1)] | erule run_body [OF t k'(2,3), rotated]
        | erule rest [OF k'(4-6)] | rule token_reads | (simp; fail))+)
qed

lemma if_none_reads:
  assumes "expr_reads c sc" and "stmts_read t st" "t \<noteq> []"
  shows "if_reads c t [] (''if ('' @ sc @ '') {'' @ [NEWLINE] @ st @ PrintIndent j @ ''}'' @ [NEWLINE])"
proof (rule if_readsI [OF assms])
  fix M n l h r
  assume "ahead h 0 ([NEWLINE] @ r)"
  then have h: "ahead h 0 (NEWLINE # r)" by simp
  show "wp (bnd FrontTok (\<lambda>f. bnd (if f = kELSE then
          thn h_pop (bnd FrontTok (\<lambda>g. if g = kIF then bnd (ParseIf l (PE M) (PSL M n)) (\<lambda>e. ret [e])
            else ParseStmtBody (PSL M n)))
        else ret []) (\<lambda>else_case. ret (ASTIfThenElse c t else_case)))) h (after (ASTIfThenElse c t []) r)"
    by (rule run_front [OF h reads_newline]) (auto intro!: fin1 simp del: ahead.simps)
qed

lemma if_else_reads:
  assumes "expr_reads c sc" and "stmts_read t st" "t \<noteq> []" and e: "stmts_read e se" "e \<noteq> []"
  shows "if_reads c t e (''if ('' @ sc @ '') {'' @ [NEWLINE] @ st @ PrintIndent j @ ''}'' @
    ('' else {'' @ [NEWLINE] @ se @ PrintIndent j @ ''}'' @ [NEWLINE]))"
proof (rule if_readsI [OF assms(1-3)])
  fix M n l h r
  let ?v = "CHR 0x20 # CHR ''{'' # NEWLINE # se @ PrintIndent j @ CHR ''}'' # NEWLINE # r"
  let ?u = "CHR 0x20 # ''else'' @ ?v"
  assume k: "weights e + 1 \<le> n" "weights e + 1 \<le> M"
    and "ahead h 0 (('' else {'' @ [NEWLINE] @ se @ PrintIndent j @ ''}'' @ [NEWLINE]) @ r)"
  then have h: "ahead h 0 ?u" and k: "weights e \<le> n" "weights e \<le> M" by simp_all
  have el: "reads ?u (\<lambda>i. tok i = kELSE) ?v" by (rule reads_space, rule reads_keywords) simp
  have br: "reads ?v (\<lambda>i. tok i = kLBRACE) (tl (tl ?v))" by (simp, rule reads_space, rule reads_punct)
  have "ahead h' 1 ?v \<Longrightarrow> wp (bnd (ParseStmtBody (PSL M n)) (\<lambda>else_case. ret (ASTIfThenElse c t else_case))) h'
      (after (ASTIfThenElse c t e) r)" for h'
    by (erule run_body [OF e k, rotated]) (auto intro!: fin1 simp del: ahead.simps)
  note body0 = this
  have body: "wp (bnd FrontTok (\<lambda>x. bnd (if x = kIF then bnd (ParseIf l (PE M) (PSL M n)) (\<lambda>e. ret [e])
            else ParseStmtBody (PSL M n)) (\<lambda>else_case. ret (ASTIfThenElse c t else_case)))) h'
      (after (ASTIfThenElse c t e) r)" if "ahead h' 0 ?v" for h'
    by (rule run_front [OF that br]) (use body0 in \<open>simp del: ahead.simps\<close>)
  show "wp (bnd FrontTok (\<lambda>f. bnd (if f = kELSE then
          thn h_pop (bnd FrontTok (\<lambda>g. if g = kIF then bnd (ParseIf l (PE M) (PSL M n)) (\<lambda>e. ret [e])
            else ParseStmtBody (PSL M n)))
        else ret []) (\<lambda>else_case. ret (ASTIfThenElse c t else_case)))) h (after (ASTIfThenElse c t e) r)"
    by (rule run_front [OF h el], simp only: if_True simp_thms bnd_thn bnd_assoc, erule run_h_pop [OF _ _ el])
      (simp, rule body [unfolded bnd_assoc], simp)
qed

lemma if_elif_reads:
  assumes "expr_reads c sc" and "stmts_read t st" "t \<noteq> []" and e: "if_reads c' t' e' (''if '' @ u)"
  shows "if_reads c t [ASTIfThenElse c' t' e'] (''if ('' @ sc @ '') {'' @ [NEWLINE] @ st @ PrintIndent j @ ''}'' @
    ('' else '' @ ''if '' @ u))"
proof (rule if_readsI [OF assms(1-3)])
  fix M n l h r
  let ?i = "ASTIfThenElse c' t' e'"
  let ?w = "''if'' @ CHR 0x20 # u @ r"
  let ?v = "CHR 0x20 # ?w"
  let ?u = "CHR 0x20 # ''else'' @ ?v"
  assume "weights [?i] + 1 \<le> n" "weights [?i] + 1 \<le> M" "weights [?i] + 1 \<le> l"
    and "ahead h 0 (('' else '' @ ''if '' @ u) @ r)"
  then have h: "ahead h 0 ?u" and k: "weight ?i \<le> n" "weight ?i \<le> M" "weight ?i \<le> l"
    by simp_all
  have el: "reads ?u (\<lambda>i. tok i = kELSE) ?v" by (rule reads_space, rule reads_keywords) simp
  have kw: "reads ?v (\<lambda>i. tok i = kIF) (CHR 0x20 # u @ r)" by (rule reads_space, rule reads_keywords) simp
  have inner: "wp (ParseIf l (PE M) (PSL M n)) h' (after ?i r)" if h': "ahead h' (max 1 0) ?v" for h'
  proof -
    have "ahead h' 1 (PrintIndent 1 @ ?w)" using h' by simp
    from ahead_blanks [OF this] have "ahead h' 1 ((''if '' @ u) @ r)" by simp
    with e k show ?thesis unfolding if_reads_def by blast
  qed
  have branch: "wp (bnd FrontTok (\<lambda>x. bnd (if x = kIF then bnd (ParseIf l (PE M) (PSL M n)) (\<lambda>e. ret [e])
            else ParseStmtBody (PSL M n)) (\<lambda>else_case. ret (ASTIfThenElse c t else_case)))) h'
      (after (ASTIfThenElse c t [?i]) r)" if h': "ahead h' 0 ?v" for h'
  proof (rule run_front [OF h' kw])
    fix h''
    assume "ahead h'' (max 1 0) ?v"
    from inner [OF this] have "wp (bnd (ParseIf l (PE M) (PSL M n)) (\<lambda>e. ret (ASTIfThenElse c t [e]))) h''
        (after (ASTIfThenElse c t [?i]) r)"
      unfolding wp_bnd by (rule wp_mono) (auto simp: after_def intro!: wp_ret)
    then show "wp (bnd (if kIF = kIF then bnd (ParseIf l (PE M) (PSL M n)) (\<lambda>e. ret [e])
            else ParseStmtBody (PSL M n)) (\<lambda>else_case. ret (ASTIfThenElse c t else_case))) h''
      (after (ASTIfThenElse c t [?i]) r)" by simp
  qed
  show "wp (bnd FrontTok (\<lambda>f. bnd (if f = kELSE then
          thn h_pop (bnd FrontTok (\<lambda>g. if g = kIF then bnd (ParseIf l (PE M) (PSL M n)) (\<lambda>e. ret [e])
            else ParseStmtBody (PSL M n)))
        else ret []) (\<lambda>else_case. ret (ASTIfThenElse c t else_case)))) h (after (ASTIfThenElse c t [?i]) r)"
    by (rule run_front [OF h el], simp only: if_True simp_thms bnd_thn bnd_assoc, erule run_h_pop [OF _ _ el])
      (simp, rule branch [unfolded bnd_assoc], simp)
qed

lemma if_stmt_reads:
  assumes "if_reads c t e u" and "u = ''if '' @ u'"
  shows "stmt_reads (ASTIfThenElse c t e) u"
  unfolding stmt_reads_def
proof (intro allI impI)
  fix M n h r
  let ?s = "ASTIfThenElse c t e"
  assume w: "weight ?s \<le> n" "weight ?s \<le> M" and h: "ahead h 1 (u @ r)"
  then have h': "ahead h 1 (''if'' @ CHR 0x20 # u' @ r)" using assms(2) by simp
  have kw: "reads (''if'' @ CHR 0x20 # u' @ r) (\<lambda>i. tok i = kIF) (CHR 0x20 # u' @ r)"
    by (rule reads_keywords) simp
  have "wp (ParseIf (Suc (Suc M)) (PE M) (PSL M n)) h'' (after ?s r)"
    if "ahead h'' (max 1 1) (''if'' @ CHR 0x20 # u' @ r)" for h''
  proof (rule assms(1) [unfolded if_reads_def, rule_format])
    show "ahead h'' 1 (u @ r)" using that assms(2) by (simp del: ahead.simps)
  qed (use w in simp_all)
  then show "wp (PS M n) h (after (Some ?s) r)"
    unfolding ParseStmt_def by (intro run_front [OF h' kw]) (simp add: wp_some_after del: ahead.simps)
qed

section \<open>Statement lists\<close>

lemma stmt_first:
  assumes "plain_stmt s" and "PrintStmt k s = Ok t"
  shows "\<exists>tk r'. reads (t @ r) (\<lambda>i. tok i = tk) r' \<and> tk \<notin> {kENDLINE, kEND}"
proof -
  have kw: "\<exists>tk r'. reads (t @ r) (\<lambda>i. tok i = tk) r' \<and> tk \<notin> {kENDLINE, kEND}"
    if "t @ r = PrintIndent k @ w @ CHR 0x20 # u" "map_of g_str2key w = Some tk" "word_shaped w" "tk \<notin> {kENDLINE, kEND}"
    for w u tk
    using reads_spaces [OF reads_keyword [OF that(2,3), of "CHR 0x20 # u"], of k] that(1,4) by auto
  have id: "\<exists>tk r'. reads (t @ r) (\<lambda>i. tok i = tk) r' \<and> tk \<notin> {kENDLINE, kEND}"
    if "t @ r = PrintIndent k @ x @ c # u" "plain_ident x" "\<not> IsIdBody c" for x c u
    using reads_spaces [OF reads_tok [OF reads_ident_Cons [OF that(2), of "c # u"]], of k] that(1,3)
    by (auto intro!: exI [of _ kID])
  note kws = g_str2key_def word_shaped_def IsIdStart_def IsIdBody_def
  show ?thesis
  proof (cases s)
    case (ASTLet x v b)
    then obtain u where "t = PrintIndent k @ ''let'' @ CHR 0x20 # u" using assms by (auto simp: res_bind_Ok_conv)
    then show ?thesis by (intro kw [of "''let''" "u @ r" kLET]) (simp_all add: kws)
  next
    case (ASTAttr node key v b)
    then obtain u where "t = PrintIndent k @ CHR ''/'' # CHR ''/'' # u" using assms by (auto simp: res_bind_Ok_conv)
    then show ?thesis
      using reads_spaces [OF reads_double(7) [of "u @ r"], of k] by (auto intro!: exI [of _ kDOUBLESLASH])
  next
    case (ASTProduce f b)
    then obtain u where "t = PrintIndent k @ ''produce'' @ CHR 0x20 # u" using assms by (auto simp: res_bind_Ok_conv)
    then show ?thesis by (intro kw [of "''produce''" "u @ r" kPRODUCE]) (simp_all add: kws)
  next
    case (ASTStore buf v i p)
    then obtain u where "t = PrintIndent k @ buf @ CHR ''['' # u" using assms by (auto simp: res_bind_Ok_conv)
    then show ?thesis using ASTStore assms(1) by (intro id [of buf "CHR ''[''" "u @ r"]) simp_all
  next
    case (ASTProvide f v args)
    then obtain u where "t = PrintIndent k @ f @ CHR ''('' # u" using assms by (auto simp: res_bind_Ok_conv)
    then show ?thesis using ASTProvide assms(1) by (intro id [of f "CHR ''(''" "u @ r"]) simp_all
  next
    case (ASTAllocate x ty bs ext b)
    then obtain u where "t = PrintIndent k @ ''allocate'' @ CHR 0x20 # u" using assms by (auto simp: res_bind_Ok_conv)
    then show ?thesis by (intro kw [of "''allocate''" "u @ r" kALLOCATE]) (simp_all add: kws)
  next
    case (ASTRealize x ty bs ms es b)
    then obtain u where "t = PrintIndent k @ ''realize'' @ CHR 0x20 # u" using assms by (auto simp: res_bind_Ok_conv)
    then show ?thesis by (intro kw [of "''realize''" "u @ r" kREALIZE]) (simp_all add: kws)
  next
    case (ASTIfThenElse c th e)
    then obtain u where "t = PrintIndent k @ ''if'' @ CHR 0x20 # u" using assms by (auto simp: res_bind_Ok_conv)
    then show ?thesis by (intro kw [of "''if''" "u @ r" kIF]) (simp_all add: kws)
  next
    case (ASTEvaluate v)
    then obtain sv where sv: "PrintExpr v = Ok sv" "t = PrintIndent k @ sv @ [NEWLINE]" "plain_expr v"
      using assms by (auto simp: res_bind_Ok_conv)
    then obtain tk r' where "reads (sv @ NEWLINE # r) (\<lambda>i. tok i = tk) r'"
        "tk \<in> {kLPAR, kNUMBER, kMINUS, kSTRING, kTYPE, kSELECT, kID}"
      using expr_first [OF sv(3,1) follow_delims(4) [of v r]] by blast
    then show ?thesis
      using reads_spaces [of "sv @ NEWLINE # r" "\<lambda>i. tok i = tk" r' k] sv(2) by (auto intro!: exI [of _ tk])
  next
    case (ASTFor x m e b)
    then obtain u where "t = PrintIndent k @ ''for'' @ CHR 0x20 # u" using assms by (auto simp: res_bind_Ok_conv)
    then show ?thesis by (intro kw [of "''for''" "u @ r" kFOR]) (simp_all add: kws)
  qed (use assms(1) in simp)
qed

lemma run_skip_endlines:
  assumes "ahead h m r \<or> ahead h m (NEWLINE # r)" and m: "m \<le> 1"
    and r: "reads r (\<lambda>i. tok i = t) r'" "t \<noteq> kENDLINE"
    and k: "\<And>h'. ahead h' 1 r \<Longrightarrow> wp p h' \<Phi>"
  shows "wp (thn (skip_endlines (Suc (Suc N))) p) h \<Phi>"
proof -
  have stop: "wp (thn (skip_endlines (Suc N)) p) h \<Phi>" if "ahead h m r" "m \<le> 1" for h m N
    unfolding skip_endlines.simps thn_bnd
    by (rule run_front [OF that(1) r(1)]) (use r(2) that(2) k in \<open>auto simp: max_def le_Suc_eq simp del: ahead.simps\<close>)
  from assms(1) show ?thesis
  proof
    assume "ahead h m r"
    then show ?thesis using m by (rule stop)
  next
    assume h: "ahead h m (NEWLINE # r)"
    show ?thesis
      unfolding skip_endlines.simps(2) [of "Suc N"] thn_bnd
      by (rule run_front [OF h reads_newline], simp only: if_True simp_thms thn_assoc,
          erule run_h_pop [OF _ _ reads_newline]) (simp, erule stop, use m in simp)
  qed
qed

lemma nil_read: "stmts_read [] []"
  unfolding stmts_read_def
proof (intro allI impI)
  fix M n l m h r
  assume k: "weights [] \<le> l" and m: "m \<le> 1" and "ahead h m ([] @ r) \<or> ahead h m (NEWLINE # [] @ r)"
    and e: "list_end r"
  then have h: "ahead h m r \<or> ahead h m (NEWLINE # r)" by simp
  obtain t r' where t: "reads r (\<lambda>i. tok i = t) r'" "t \<in> {kEND, kRBRACE}" using e by (auto simp: list_end_def)
  have t': "t \<noteq> kENDLINE" using t(2) by auto
  obtain l' where l: "l = Suc l'" using k by (cases l) auto
  have none: "wp (PE M) h' (\<lambda>x h''. x = None \<and> ahead h'' 1 r)" if "ahead h' 1 r" for h'
    unfolding ParseExpr.simps(2) [of _ "Suc M"] ParseExprBody_def
    by (rule run_front [OF that t(1)]) (use t(2) in \<open>auto intro!: wp_ret simp del: ahead.simps\<close>)
  have ev: "wp (bnd (PE M) (\<lambda>value. ret (map_option ASTEvaluate value))) h' (\<lambda>x h''. x = None \<and> ahead h'' 1 r)"
    if "ahead h' 1 r" for h'
    unfolding wp_bnd by (rule wp_mono [OF none [OF that]]) (auto intro!: wp_ret simp del: ahead.simps)
  have ps: "wp (PS M n) h' (\<lambda>x h''. x = None \<and> ahead h'' 1 r)" if "ahead h' 1 r" for h'
    unfolding ParseStmt_def
    by (rule run_front [OF that t(1)])
      (use t(2) ev in \<open>auto simp del: ahead.simps ParseExpr.simps\<close>)
  show "wp (StmtListLoop (Suc (Suc M)) l (PS M n)) h (\<lambda>x h'. x = [] \<and> ahead h' 1 r)"
    unfolding l StmtListLoop.simps
  proof (rule run_skip_endlines [OF h m t(1) t'])
    fix h'
    assume "ahead h' 1 r"
    from ps [OF this]
    show "wp (bnd (PS M n) (\<lambda>node. case node of None \<Rightarrow> ret [] | Some s \<Rightarrow>
        bnd (StmtListLoop (Suc (Suc M)) l' (PS M n)) (\<lambda>list. ret (s # list)))) h' (\<lambda>x h'. x = [] \<and> ahead h' 1 r)"
      unfolding wp_bnd by (rule wp_mono) (auto intro!: wp_ret simp del: ahead.simps)
  qed
qed

lemma cons_read:
  assumes s: "stmt_reads s t" "t \<noteq> []"
    and first: "\<And>r. \<exists>tk r'. reads ((PrintIndent k @ t) @ r) (\<lambda>i. tok i = tk) r' \<and> tk \<noteq> kENDLINE"
    and ss: "stmts_read ss ts" and c: "container s \<longrightarrow> ss = []" "ss = [] \<longrightarrow> ts = []"
  shows "stmts_read (s # ss) (PrintIndent k @ t @ ts)"
  unfolding stmts_read_def
proof (intro allI impI)
  fix M n l m h r
  assume k: "weights (s # ss) \<le> Suc n" "weights (s # ss) \<le> M" "weights (s # ss) \<le> l" and m: "m \<le> 1"
    and "ahead h m ((PrintIndent k @ t @ ts) @ r) \<or> ahead h m (NEWLINE # (PrintIndent k @ t @ ts) @ r)"
    and e: "list_end r"
  then have h: "ahead h m (PrintIndent k @ t @ ts @ r) \<or> ahead h m (NEWLINE # PrintIndent k @ t @ ts @ r)" by simp
  obtain l' where l: "l = Suc l'" using k by (cases l) auto
  obtain tk r' where tk: "reads (PrintIndent k @ t @ ts @ r) (\<lambda>i. tok i = tk) r'" "tk \<noteq> kENDLINE"
    using first [of "ts @ r"] by auto
  have "1 \<le> weights ss" by (cases ss) auto
  then have w: "weight s \<le> n" "weight s \<le> M" "weights ss \<le> Suc n" "weights ss \<le> M" "weights ss \<le> l'"
    using k l by simp_all
  have tail: "wp (StmtListLoop (Suc (Suc M)) l' (PS M n)) h' (\<lambda>x h''. x = ss \<and> ahead h'' 1 r)"
    if "m' \<le> 1" "ahead h' m' (ts @ r) \<or> ahead h' m' (NEWLINE # ts @ r)" for h' m'
    using ss w(3-5) that e unfolding stmts_read_def by blast
  have head: "wp (PS M n) h' (after (Some s) (ts @ r))" if "ahead h' 1 (t @ ts @ r)" for h'
    using s(1) w(1,2) that c e unfolding stmt_reads_def by simp
  show "wp (StmtListLoop (Suc (Suc M)) l (PS M n)) h (\<lambda>x h'. x = s # ss \<and> ahead h' 1 r)"
    unfolding l StmtListLoop.simps
  proof (rule run_skip_endlines [OF h m tk])
    fix h'
    assume "ahead h' 1 (PrintIndent k @ t @ ts @ r)"
    then have "ahead h' 1 (t @ ts @ r)" by (rule ahead_blanks) (use s(2) in simp_all)
    from head [OF this]
    show "wp (bnd (PS M n) (\<lambda>node. case node of None \<Rightarrow> ret [] | Some s \<Rightarrow>
        bnd (StmtListLoop (Suc (Suc M)) l' (PS M n)) (\<lambda>list. ret (s # list)))) h' (\<lambda>x h'. x = s # ss \<and> ahead h' 1 r)"
      unfolding wp_bnd
    proof (rule wp_mono)
      fix x h''
      assume "after (Some s) (ts @ r) x h''"
      then obtain m' where x: "x = Some s" and "m' \<le> 1" "ahead h'' m' (ts @ r) \<or> ahead h'' m' (NEWLINE # ts @ r)"
        by (auto simp: after_def)
      from tail [OF this(2,3)] have "wp (bnd (StmtListLoop (Suc (Suc M)) l' (PS M n)) (\<lambda>list. ret (s # list))) h''
          (\<lambda>x h'. x = s # ss \<and> ahead h' 1 r)"
        unfolding wp_bnd by (rule wp_mono) (auto intro!: wp_ret simp del: ahead.simps)
      then show "wp (case x of None \<Rightarrow> ret [] | Some s \<Rightarrow>
          bnd (StmtListLoop (Suc (Suc M)) l' (PS M n)) (\<lambda>list. ret (s # list))) h'' (\<lambda>x h'. x = s # ss \<and> ahead h' 1 r)"
        using x by simp
    qed
  qed
qed

lemma plain_pred_prints: "plain_pred p \<Longrightarrow> \<exists>sp. PrintExpr p = Ok sp"
  by (cases p) (auto simp: plain_pred_def PrintType_word)

lemma indentedI:
  "t = PrintIndent k @ u \<Longrightarrow> stmt_reads s u \<Longrightarrow> u \<noteq> [] \<Longrightarrow>
   \<exists>u. t = PrintIndent k @ u \<and> u \<noteq> [] \<and> stmt_reads s u"
  by blast

lemma PrintIf_word: "PrintIf k c t e = Ok u \<Longrightarrow> \<exists>u'. u = ''if '' @ u'"
  by (auto simp: res_bind_Ok_conv)

lemma print_reads:
  "plain_stmt s \<Longrightarrow> PrintStmt k s = Ok t \<Longrightarrow> \<exists>u. t = PrintIndent k @ u \<and> u \<noteq> [] \<and> stmt_reads s u"
  "plain_stmts ss \<Longrightarrow> PrintStmtList k ss = Ok t \<Longrightarrow> stmts_read ss t"
  "plain_expr c \<Longrightarrow> th \<noteq> [] \<Longrightarrow> plain_stmts th \<Longrightarrow> plain_stmts el \<Longrightarrow> PrintIf k c th el = Ok t \<Longrightarrow>
   if_reads c th el t"
proof (induction k s and k ss and k c th el arbitrary: t and t and t rule: PrintStmt_PrintStmtList_PrintIf.induct)
  case (1 k x v body)
  then obtain sv sb where "PrintExpr v = Ok sv" "PrintStmtList (k + 1) body = Ok sb"
      and t: "t = PrintIndent k @ ''let '' @ x @ '' = '' @ sv @ [NEWLINE] @ sb"
    by (auto simp: res_bind_Ok_conv)
  with 1 show ?case
    by (intro indentedI [OF t]) (intro let_stmt_reads plain_expr_reads, auto)
next
  case (2 k node key v body)
  then obtain sv sb where "PrintExpr v = Ok sv" "PrintStmtList (k + 1) body = Ok sb"
      and t: "t = PrintIndent k @ ''// attr ['' @ node @ ''] '' @ key @ '' = '' @ sv @ [NEWLINE] @ sb"
    by (auto simp: res_bind_Ok_conv)
  with 2 show ?case
    by (intro indentedI [OF t]) (intro attr_reads plain_expr_reads, auto)
next
  case (3 k c m body)
  then show ?case by simp
next
  case (4 k f body)
  then obtain sb where "PrintStmtList (k + 2) body = Ok sb"
      and t: "t = PrintIndent k @ ''produce '' @ f @ '' {'' @ [NEWLINE] @ sb @ PrintIndent k @ ''}'' @ [NEWLINE]"
    by (auto simp: res_bind_Ok_conv)
  with 4 show ?case
    by (intro indentedI [OF t]) (intro produce_reads, auto)
next
  case (5 k buf v i p)
  then obtain sv si where "PrintExpr v = Ok sv" "PrintExpr i = Ok si" by (auto simp: res_bind_Ok_conv)
  moreover obtain sp where "PrintExpr p = Ok sp"
    using 5(1) plain_pred_prints by auto
  moreover from calculation have t: "t = PrintIndent k @ buf @ ''['' @ si @ ''] = '' @ sv @
      (if unit_pred p then [] else CHR 0x20 # ''if'' @ CHR 0x20 # sp) @ [NEWLINE]"
    using 5(2) by (auto split: if_splits)
  ultimately show ?case using 5(1)
    by (intro indentedI [OF t]) (intro store_reads plain_expr_reads, auto)
next
  case (6 k f v args)
  then obtain sv sa where "PrintExpr v = Ok sv" "PrintArgs args = Ok sa"
      and t: "t = PrintIndent k @ f @ ''('' @ sa @ '') = '' @ sv @ [NEWLINE]"
    by (auto simp: res_bind_Ok_conv)
  with 6 show ?case
    by (intro indentedI [OF t]) (intro provide_reads plain_expr_reads, auto)
next
  case (7 k buf ty b ext body)
  then obtain se sb where "PrintExtents ext = Ok se" "PrintStmtList (k + 1) body = Ok sb"
      and t: "t = PrintIndent k @ ''allocate '' @ buf @ ''['' @ type_word ty @ show_bits b @ se @ '']'' @ [NEWLINE] @ sb"
    by (auto simp: res_bind_Ok_conv PrintType_word)
  with 7 show ?case
    by (intro indentedI [OF t]) (intro allocate_reads, auto)
next
  case (8 k f ty b ms es body)
  then obtain sm sb where "PrintBounds ms es = Ok sm" "PrintStmtList (k + 2) body = Ok sb"
      and t: "t = PrintIndent k @ ''realize '' @ f @ ''<'' @ type_word ty @ show_bits b @ ''>('' @ sm @ '') {'' @ [NEWLINE] @ sb @
     PrintIndent k @ ''}'' @ [NEWLINE]"
    by (auto simp: res_bind_Ok_conv PrintType_word)
  with 8 show ?case
    by (intro indentedI [OF t]) (intro realize_reads, auto)
next
  case (9 k c th el)
  then obtain u where u: "PrintIf k c th el = Ok u" "t = PrintIndent k @ u"
    by (auto simp: res_bind_Ok_conv simp del: PrintIf.simps)
  then obtain u' where "u = ''if '' @ u'" using PrintIf_word by blast
  moreover have "if_reads c th el u" using 9 u by auto
  ultimately show ?case using u if_stmt_reads by auto
next
  case (10 k v)
  then obtain sv where "PrintExpr v = Ok sv" and t: "t = PrintIndent k @ sv @ [NEWLINE]"
    by (auto simp: res_bind_Ok_conv)
  with 10 show ?case
    by (intro indentedI [OF t]) (intro evaluate_reads, auto)
next
  case (11 k x m e body)
  then obtain sm se sb where "PrintExpr m = Ok sm" "PrintExpr e = Ok se" "PrintStmtList (k + 2) body = Ok sb"
      and t: "t = PrintIndent k @ ''for ('' @ x @ '', '' @ sm @ '', '' @ se @ '') {'' @ [NEWLINE] @ sb @
    PrintIndent k @ ''}'' @ [NEWLINE]"
    by (auto simp: res_bind_Ok_conv)
  with 11 show ?case
    by (intro indentedI [OF t]) (intro for_reads plain_expr_reads, auto)
next
  case (12 k)
  then show ?case using nil_read by simp
next
  case (13 k s ss)
  then obtain t1 t2 where t: "PrintStmt k s = Ok t1" "PrintStmtList k ss = Ok t2" "t = t1 @ t2"
    by (auto simp: res_bind_Ok_conv)
  then obtain u where u: "t1 = PrintIndent k @ u" "u \<noteq> []" "stmt_reads s u" using 13 by auto
  have "stmts_read (s # ss) (PrintIndent k @ u @ t2)"
  proof (rule cons_read [OF u(3,2)])
    show "\<exists>tk r'. reads ((PrintIndent k @ u) @ r) (\<lambda>i. tok i = tk) r' \<and> tk \<noteq> kENDLINE" for r
      using stmt_first [OF _ t(1), of r] 13(3) u(1) by auto
  qed (use 13 t in auto)
  then show ?case using t u by simp
next
  case (14 k c th el)
  then obtain sc st where st: "PrintExpr c = Ok sc" "PrintStmtList (k + 2) th = Ok st"
    by (auto simp: res_bind_Ok_conv)
  have c: "expr_reads c sc" using 14(4) st(1) by (rule plain_expr_reads)
  have th: "stmts_read th st" "th \<noteq> []" using 14(1,5,6) st by simp_all
  consider "el = []" | c' t' e' where "single_if el = Some (c', t', e')" "el = [ASTIfThenElse c' t' e']"
    | "el \<noteq> []" "single_if el = None"
    using single_if_Some by (cases "single_if el") fastforce+
  then show ?case
  proof cases
    case 1
    then have "t = ''if ('' @ sc @ '') {'' @ [NEWLINE] @ st @ PrintIndent k @ ''}'' @ [NEWLINE]"
      using 14(8) st by simp
    then show ?thesis using if_none_reads [OF c th] 1 by simp
  next
    case (2 c' t' e')
    then obtain u where u: "PrintIf k c' t' e' = Ok u"
        "t = ''if ('' @ sc @ '') {'' @ [NEWLINE] @ st @ PrintIndent k @ ''}'' @ ('' else '' @ u)"
      using 14(8) st unfolding PrintIf.simps [of k c th el] by (auto simp: res_bind_Ok_conv simp del: PrintIf.simps)
    then obtain u' where u': "u = ''if '' @ u'" using PrintIf_word by blast
    have "if_reads c' t' e' u" using 14(3) [OF _ 2(1)] 14(7) 2 u(1) by simp
    then show ?thesis using if_elif_reads [OF c th] 2(2) u(2) unfolding u' by blast
  next
    case 3
    then obtain se where "PrintStmtList (k + 2) el = Ok se"
        "t = ''if ('' @ sc @ '') {'' @ [NEWLINE] @ st @ PrintIndent k @ ''}'' @
          ('' else {'' @ [NEWLINE] @ se @ PrintIndent k @ ''}'' @ [NEWLINE])"
      using 14(8) st by (auto simp: res_bind_Ok_conv)
    then show ?thesis using if_else_reads [OF c th _ 3(1)] 14(2) 14(7) 3 by auto
  qed
qed

section \<open>Whole programs\<close>

definition ends_line :: "string \<Rightarrow> bool" where
  "ends_line t \<longleftrightarrow> (\<exists>a. t = a @ [NEWLINE])"

lemma ends_line_append: "ends_line b \<Longrightarrow> ends_line (a @ b)"
  by (auto simp: ends_line_def)

lemma ends_line_NEWLINE [simp]: "ends_line (a @ [NEWLINE])" "ends_line [NEWLINE]"
  by (auto simp: ends_line_def)

lemma ends_line_Cons [simp]: "ends_line (c # a @ [NEWLINE])"
  by (rule ends_line_append [of "a @ [NEWLINE]" "[c]", simplified])

lemma ends_line_two [simp]: "ends_line (a @ [c, NEWLINE])"
  using ends_line_append [of "[c, NEWLINE]" a] ends_line_Cons [of c "[]"] by simp

lemma out_last: "out ps = Ok t \<Longrightarrow> ps \<noteq> [] \<Longrightarrow> last ps = Ok b \<Longrightarrow> ends_line b \<Longrightarrow> ends_line t"
proof (induction ps arbitrary: t)
  case (Cons p ps)
  then obtain a u where t: "p = Ok a" "out ps = Ok u" "t = a @ u" by (auto simp: res_bind_Ok_conv)
  show ?case
  proof (cases "ps = []")
    case True
    then show ?thesis using Cons.prems t by simp
  next
    case False
    then have "ends_line u" using Cons t by simp
    then show ?thesis unfolding t(3) by (rule ends_line_append)
  qed
qed simp

lemma out_fails: "out ps = Ok t \<Longrightarrow> p \<in> set ps \<Longrightarrow> \<exists>b. p = Ok b"
  by (auto simp: out_Ok_conv)

lemma out_ends: "out ps = Ok t \<Longrightarrow> ps \<noteq> [] \<Longrightarrow> (\<And>b. last ps = Ok b \<Longrightarrow> ends_line b) \<Longrightarrow> ends_line t"
  using out_fails [of ps t "last ps"] out_last by fastforce

lemma print_ends_line:
  "plain_stmt s \<Longrightarrow> PrintStmt k s = Ok t \<Longrightarrow> ends_line t"
  "ss \<noteq> [] \<Longrightarrow> plain_stmts ss \<Longrightarrow> PrintStmtList k ss = Ok t \<Longrightarrow> ends_line t"
  "plain_stmts el \<Longrightarrow> PrintIf k c th el = Ok t \<Longrightarrow> ends_line t"
proof (induction k s and k ss and k c th el arbitrary: t and t and t rule: PrintStmt_PrintStmtList_PrintIf.induct)
  case (13 k s ss)
  then show ?case
    by (cases "ss = []") (auto simp: res_bind_Ok_conv intro: ends_line_append)
next
  case (14 k c th el)
  show ?case
    using 14(5) unfolding PrintIf.simps [of k c th el]
  proof (rule out_ends)
    fix b
    assume b: "last [Ok ''if ('', PrintExpr c, Ok ('') {'' @ [NEWLINE]), PrintStmtList (k + 2) th,
       if el = [] then Ok (PrintIndent k @ ''}'' @ [NEWLINE])
       else (case single_if el of
           Some (c', t', e') \<Rightarrow> out [Ok (PrintIndent k @ ''} else ''), PrintIf k c' t' e']
         | None \<Rightarrow> out [Ok (PrintIndent k @ ''} else {'' @ [NEWLINE]), PrintStmtList (k + 2) el,
                   Ok (PrintIndent k @ ''}'' @ [NEWLINE])])] = Ok b"
    show "ends_line b"
    proof (cases "single_if el")
      case None
      then show ?thesis using b
        by (auto split: if_splits intro: ends_line_append elim!: out_ends simp del: out.simps)
    next
      case (Some cte)
      obtain c' t' e' where cte: "cte = (c', t', e')" by (cases cte)
      then have el: "el = [ASTIfThenElse c' t' e']" using Some single_if_Some by simp
      have "\<And>u. PrintIf k c' t' e' = Ok u \<Longrightarrow> ends_line u"
        using 14(3) [OF _ Some [unfolded cte] refl refl] 14(4) el by simp
      then show ?thesis using b Some cte el
        by (auto elim!: out_ends simp del: out.simps PrintIf.simps)
    qed
  qed simp
qed (auto elim!: out_ends intro: ends_line_append simp del: out.simps PrintIf.simps)

lemma list_end_NUL: "list_end [NUL]"
  unfolding list_end_def using reads_end by blast

lemma gen_skip:
  assumes h: "ahead h m (NEWLINE # r)" and m: "m \<le> 1"
    and k: "\<And>h'. ahead h' 0 r \<Longrightarrow> wp (GenASTLoop l ps) h' \<Phi>"
  shows "wp (GenASTLoop (Suc l) ps) h \<Phi>"
proof -
  have "wp (thn h_pop (GenASTLoop l ps)) h' \<Phi>" if "ahead h' 1 (NEWLINE # r)" for h'
    by (rule run_h_pop [OF that _ reads_newline]) (use k in simp_all)
  then have "wp (bnd FrontTok (\<lambda>g. if g = kENDLINE then thn h_pop (GenASTLoop l ps)
      else bnd (checked ps) (\<lambda>s. bnd (GenASTLoop l ps) (\<lambda>list. ret (s # list))))) h' \<Phi>"
    if "ahead h' 1 (NEWLINE # r)" for h'
    by (intro run_front [OF that reads_newline]) (simp del: ahead.simps)
  then show ?thesis
    unfolding GenASTLoop.simps
    by (intro run_front [OF h reads_newline]) (use m in \<open>simp add: max_def le_Suc_eq del: ahead.simps ParseExpr.simps ParseStmtList.simps split: if_splits\<close>)
qed

lemma gen_reads:
  "plain_stmts ss \<Longrightarrow> PrintStmtList 0 ss = Ok t \<Longrightarrow> weights ss \<le> M \<Longrightarrow> 2 * weights ss \<le> l \<Longrightarrow> m \<le> 1 \<Longrightarrow>
   ahead h m (t @ [NUL]) \<or> ahead h m (NEWLINE # t @ [NUL]) \<Longrightarrow>
   wp (GenASTLoop l (PS M (Suc (Suc M)))) h (\<lambda>x h'. x = ss)"
proof (induction ss arbitrary: t l m h)
  case Nil
  obtain l' where l: "l = Suc (Suc l')" using Nil.prems(4) by (cases l; cases "l - 1") auto
  have stop: "wp (GenASTLoop (Suc l'') (PS M (Suc (Suc M)))) h' (\<lambda>x h'. x = [])" if "ahead h' m' [NUL]" for l'' h' m'
    unfolding GenASTLoop.simps by (rule run_front [OF that reads_end]) (simp add: wp_ret)
  have "ahead h m [NUL] \<or> ahead h m (NEWLINE # [NUL])" using Nil.prems(2,6) by simp
  then show ?case
    unfolding l using stop gen_skip [OF _ Nil.prems(5)] by blast
next
  case (Cons s ss)
  obtain t1 t2 where t: "PrintStmt 0 s = Ok t1" "PrintStmtList 0 ss = Ok t2" "t = t1 @ t2"
    using Cons.prems(2) by (auto simp: res_bind_Ok_conv)
  have s: "stmt_reads s t1" using print_reads(1) [OF _ t(1)] Cons.prems(1) by auto
  obtain tk r' where tk: "reads (t1 @ t2 @ [NUL]) (\<lambda>i. tok i = tk) r'" "tk \<noteq> kENDLINE" "tk \<noteq> kEND"
    using stmt_first [OF _ t(1), of "t2 @ [NUL]"] Cons.prems(1) by auto
  have "1 \<le> weights ss" by (cases ss) auto
  then obtain l' where l: "l = Suc (Suc l')" and w: "weight s \<le> Suc (Suc M)" "weight s \<le> M" "weights ss \<le> M" "2 * weights ss \<le> l'"
    using Cons.prems(3,4) by (cases l; cases "l - 1") auto
  have c: "container s \<longrightarrow> list_end (t2 @ [NUL])" using Cons.prems(1) t(2) list_end_NUL by auto
  have ih: "wp (bnd (GenASTLoop l'' (PS M (Suc (Suc M)))) (\<lambda>list. ret (s # list))) h' (\<lambda>x h'. x = s # ss)"
    if "m' \<le> 1" "ahead h' m' (t2 @ [NUL]) \<or> ahead h' m' (NEWLINE # t2 @ [NUL])" "2 * weights ss \<le> l''" for h' m' l''
    unfolding wp_bnd using Cons.IH [OF _ t(2) w(3) that(3,1,2)] Cons.prems(1)
    by (auto intro!: wp_ret elim!: wp_mono simp del: ahead.simps ParseExpr.simps ParseStmtList.simps)
  have one: "wp (GenASTLoop (Suc l'') (PS M (Suc (Suc M)))) h' (\<lambda>x h'. x = s # ss)"
    if h': "ahead h' m' (t1 @ t2 @ [NUL])" "m' \<le> 1" "2 * weights ss \<le> l''" for h' m' l''
  proof -
    have "wp (PS M (Suc (Suc M))) h'' (after (Some s) (t2 @ [NUL]))" if "ahead h'' 1 (t1 @ t2 @ [NUL])" for h''
      using s w(1,2) that c unfolding stmt_reads_def by blast
    note ps = this
    have "wp (bnd (checked (PS M (Suc (Suc M)))) (\<lambda>s. bnd (GenASTLoop l'' (PS M (Suc (Suc M)))) (\<lambda>list. ret (s # list)))) h''
        (\<lambda>x h'. x = s # ss)" if "ahead h'' 1 (t1 @ t2 @ [NUL])" for h''
      unfolding checked_def bnd_assoc wp_bnd [of "PS M (Suc (Suc M))"]
      by (rule wp_mono [OF ps [OF that]]) (auto simp: after_def simp del: ahead.simps ParseExpr.simps ParseStmtList.simps intro: ih [OF _ _ h'(3)])
    note stmt = this
    have "wp (bnd FrontTok (\<lambda>g. if g = kENDLINE then thn h_pop (GenASTLoop l'' (PS M (Suc (Suc M))))
      else bnd (checked (PS M (Suc (Suc M)))) (\<lambda>s. bnd (GenASTLoop l'' (PS M (Suc (Suc M)))) (\<lambda>list. ret (s # list))))) h''
        (\<lambda>x h'. x = s # ss)" if "ahead h'' 1 (t1 @ t2 @ [NUL])" for h''
      by (rule run_front [OF that tk(1)]) (use stmt tk(2) in \<open>simp del: ahead.simps ParseExpr.simps ParseStmtList.simps\<close>)
    then show ?thesis
      unfolding GenASTLoop.simps
      by (intro run_front [OF h'(1) tk(1)]) (use tk(3) h'(2) in \<open>simp add: max_def le_Suc_eq del: ahead.simps ParseExpr.simps ParseStmtList.simps split: if_splits\<close>)
  qed
  have "ahead h m (t1 @ t2 @ [NUL]) \<or> ahead h m (NEWLINE # t1 @ t2 @ [NUL])" using Cons.prems(6) t(3) by simp
  then show ?case
    unfolding l
  proof
    assume "ahead h m (t1 @ t2 @ [NUL])"
    then show "wp (GenASTLoop (Suc (Suc l')) (PS M (Suc (Suc M)))) h (\<lambda>x h'. x = s # ss)"
      by (rule one) (use Cons.prems(5) w in simp_all)
  next
    assume "ahead h m (NEWLINE # t1 @ t2 @ [NUL])"
    then show "wp (GenASTLoop (Suc (Suc l')) (PS M (Suc (Suc M)))) h (\<lambda>x h'. x = s # ss)"
      by (rule gen_skip [OF _ Cons.prems(5)]) (rule one [where m' = 0], assumption, use w in simp_all)
  qed
qed

lemma GenAST_reads:
  assumes "plain_stmts p" and "PrintAST p = Ok s" and "rest st = s @ [NUL]"
  shows "GenAST st = Ok p"
proof -
  define M where "M = parse_fuel st + 2 * weights p"
  have "ahead \<lparr>stat = st, queue = []\<rparr> 0 (s @ [NUL])" using assms(3) by simp
  then have "wp (GenASTLoop (Suc (Suc M)) (PS M (Suc (Suc M)))) \<lparr>stat = st, queue = []\<rparr> (\<lambda>x h'. x = p)"
    using assms(1,2) unfolding PrintAST_def by (intro gen_reads) (auto simp: M_def)
  then have "GenAST_fuel (Suc (Suc M)) st = Ok p"
    by (auto simp: wp_def GenAST_fuel_def simp del: GenASTLoop.simps)
  moreover have "GenAST_fuel (Suc (Suc M)) st = GenAST st"
    unfolding GenAST_def by (rule GenAST_runs(1)) (auto simp: M_def parse_fuel_def)
  ultimately show ?thesis by simp
qed

lemma printed_parses:
  assumes "plain_stmts p" and "p \<noteq> []" and "PrintAST p = Ok s" and "CARRIAGE_RETURN \<notin> set s"
  shows "res_bind (GetTokStateFromCode s) GenAST = Ok p"
proof -
  obtain a where s: "s = a @ [NEWLINE]"
    using print_ends_line(2) [OF assms(2,1)] assms(3) unfolding PrintAST_def ends_line_def by blast
  have "map (\<lambda>c. if c = CARRIAGE_RETURN then NEWLINE else c) s = s"
    using assms(4) by (auto intro: map_idI)
  then obtain st where st: "GetTokStateFromCode s = Ok st" "rest st = s @ [NUL]"
    unfolding GetTokStateFromCode_def using s by (auto simp: Let_def rest_def)
  have "GenAST st = Ok p" by (rule GenAST_reads [OF assms(1,3) st(2)])
  then show ?thesis using st(1) by simp
qed

text \<open>
  C3: printing and parsing are inverse on the fragment \<open>plain_stmts\<close>: the text that
  \<open>PrintAST\<close> writes for such a program, when it has no carriage return in a string or an
  attribute, is a source text whose parse tree is the program itself. The fragment has every
  statement form but \<open>assert\<close> (for which parser and printer disagree), all nesting, all thirteen
  infix operators, typed immediates and predicated loads and stores. A condition of a load or store is
  written out unless it is the default, the 32-bit constant 1; a constant 1 of another type is outside
  the fragment, since the printer drops it and the parser takes the default for it.
\<close>

theorem print_parse_roundtrip:
  assumes "plain_stmts p" and "p \<noteq> []" and "PrintAST p = Ok s" and "CARRIAGE_RETURN \<notin> set s"
  shows "res_bind (GetTokStateFromCode s) GenAST = Ok p"
  by (rule printed_parses [OF assms])

definition sample_program :: "ASTStmt list" where
  "sample_program =
     [ASTProduce ''c''
       [ASTFor ''i'' (ASTIntImm 0 32) (ASTVariable ''n'')
         [ASTIfThenElse (ASTBinaryOp kLESS (ASTVariable ''i'') (ASTIntImm 7 64))
           [ASTStore ''a'' (ASTBinaryOp kPLUS (ASTLoad ''b'' (ASTVariable ''i'') (ASTIntImm 1 32))
               (ASTIntImm (- 5) 32)) (ASTVariable ''i'') (ASTUIntImm 0 1)]
           [ASTProvide ''d'' (ASTStringImm ''x y'') [ASTVariable ''i'', ASTIntImm 3 32]]]]]"

theorem print_parse_roundtrip_witness:
  "\<exists>s. PrintAST sample_program = Ok s \<and> res_bind (GetTokStateFromCode s) GenAST = Ok sample_program"
proof -
  have "case PrintAST sample_program of Ok s \<Rightarrow> CARRIAGE_RETURN \<notin> set s | Err e \<Rightarrow> False" by code_simp
  then obtain s where s: "PrintAST sample_program = Ok s" "CARRIAGE_RETURN \<notin> set s"
    by (auto split: res.splits)
  have "plain_stmts sample_program" "sample_program \<noteq> []" by code_simp+
  from print_parse_roundtrip [OF this s] s(1) show ?thesis by blast
qed

end
