(* ===== verification/Halide_Codegen_Names.thy ===== *)
theory Halide_Codegen_Names
  imports Halide_Codegen_Typed Halide_Roundtrip
begin

text \<open>
  The generator loses nothing of a program and confuses no names: read back by the names of its
  variables and functions, the generated statement is the program, up to what the code drops on
  purpose. Every binder is a new object, as TVM requires. Together with the round trip of
  printer and parser this covers the way from text to statement.
\<close>

section \<open>Binders\<close>

text \<open>The objects a statement binds.\<close>

fun binders :: "Stmt \<Rightarrow> nat list" where
  "binders (LetStmt v e b) = var_id v # binders b"
| "binders (AttrStmt n k e b) = binders b"
| "binders (AssertStmt c m b) = binders b"
| "binders (ProducerConsumer fn p b) = binders b"
| "binders (For v m x t b) = var_id v # binders b"
| "binders (Allocate v t xs c b n) = var_id v # binders b"
| "binders (Realize fn i ty bs c b) = func_id fn # binders b"
| "binders (Block a b) = binders a @ binders b"
| "binders (IfThenElse c t e) = binders t @ (case e of Some s \<Rightarrow> binders s | None \<Rightarrow> [])"
| "binders s = []"

lemma binders_make_block [simp]: "binders (make_block a b) = binders a @ binders b"
  by (induction a b rule: make_block.induct) auto

lemma binders_make_blocks: "make_blocks ss = Some b \<Longrightarrow> binders b = concat (map binders ss)"
  by (induction ss arbitrary: b rule: make_blocks.induct) auto

text \<open>The identifiers from \<open>a\<close> on and below \<open>b\<close>.\<close>

definition fresh_in :: "nat \<Rightarrow> nat \<Rightarrow> nat list \<Rightarrow> bool" where
  "fresh_in a b ids \<longleftrightarrow> a \<le> b \<and> distinct ids \<and> set ids \<subseteq> {a ..< b}"

lemma fresh_in_append: "fresh_in a b xs \<Longrightarrow> fresh_in b c ys \<Longrightarrow> fresh_in a c (xs @ ys)"
  unfolding fresh_in_def by fastforce

lemma fresh_in_Cons: "fresh_in (Suc a) b xs \<Longrightarrow> fresh_in a b (a # xs)"
  unfolding fresh_in_def by auto

lemma fresh_in_Nil [simp]: "fresh_in a a []"
  by (simp add: fresh_in_def)

lemma attr_ref_next_id: "attr_ref ax node key g = Ok (r, g') \<Longrightarrow> next_id g' = next_id g"
  by (auto simp: attr_ref_def realize_node_def res_bind_Ok_conv PopBuffer_def split: if_splits option.splits)

lemma next_id_simps [simp]:
  "next_id (with_buffer s ty vty g) = Suc (next_id g)"
  "PopVar n g = Ok g' \<Longrightarrow> next_id g' = next_id g"
  "PushVar n ty g = (v, g') \<Longrightarrow> next_id g' = Suc (next_id g) \<and> var_id v = next_id g"
  by (auto simp: with_buffer_def PushBuffer_def PopVar_def PushVar_def Let_def split: option.splits if_splits)

lemma gen_fresh:
  "gens ax g t s g' \<Longrightarrow> fresh_in (next_id g) (next_id g') (binders s)"
  "gens_list ax g ts ss g' \<Longrightarrow> fresh_in (next_id g) (next_id g') (concat (map binders ss))"
  "gens_block ax g ts s g' \<Longrightarrow> fresh_in (next_id g) (next_id g') (binders s)"
proof (induction rule: gens_gens_list_gens_block.inducts)
  case (g_block ts g ss g' s)
  then show ?case by (simp add: binders_make_blocks)
qed (auto simp: attr_ref_next_id fresh_in_append fresh_in_Cons)

section \<open>Reading a statement back\<close>

text \<open>A type keeps the last eight bits of its width; a handle has no width of its own.\<close>

definition imm_type :: "TvmType \<Rightarrow> ImmType" where
  "imm_type ty = (if is_int ty then kINT else if is_uint ty then kUINT else if is_float ty then kFLOAT else kHANDLE)"

definition type_bits :: "TvmType \<Rightarrow> 32 word" where
  "type_bits ty = ucast (ty_bits ty)"

definition kept_bits :: "32 word \<Rightarrow> 32 word" where
  "kept_bits b = ucast (ucast b :: 8 word)"

definition kept_type_bits :: "ImmType \<Rightarrow> 32 word \<Rightarrow> 32 word" where
  "kept_type_bits t b = (if t = kHANDLE then 64 else kept_bits b)"

fun op_token :: "BinOp \<Rightarrow> Token" where
  "op_token B_Max = kMAX" | "op_token B_Min = kMIN" | "op_token B_Add = kPLUS" | "op_token B_Sub = kMINUS"
| "op_token B_Mul = kSTAR" | "op_token B_Div = kSLASH" | "op_token B_Mod = kPERCENT" | "op_token B_LT = kLESS"
| "op_token B_GT = kGREATER" | "op_token B_EQ = kEQEQUAL" | "op_token B_NE = kNOTEQUAL" | "op_token B_And = kAND"
| "op_token B_Or = kOR" | "op_token B_GE = kGREATEREQUAL" | "op_token B_LE = kLESSEQUAL"
| "op_token B_FloorDiv = kDOUBLESLASH" | "op_token B_FloorMod = kPERCENTEQUAL"

fun call_token :: "CallType \<Rightarrow> Token" where
  "call_token CT_Extern = kEXTERN" | "call_token CT_ExternCPlusPlus = kEXTERNCPP"
| "call_token CT_PureExtern = kPUREEXTERN" | "call_token CT_Halide = kHALIDE"
| "call_token CT_Intrinsic = kINTRINSIC" | "call_token CT_PureIntrinsic = kPUREINTRIN"

text \<open>A call to a tensor is read if the operation has the name that is called and its element type, any other
  call if it has no operation; what cannot be read is no expression of a program.\<close>

definition unreadable :: ASTExpr where
  "unreadable = ASTLetExpr [] (ASTStringImm []) (ASTStringImm [])"

fun read_expr :: "Expr \<Rightarrow> ASTExpr" where
  "read_expr (Variable v) = ASTVariable (name_hint v)"
| "read_expr (IntImm ty i) = ASTIntImm (word_of_int i) (type_bits ty)"
| "read_expr (UIntImm ty u) = ASTUIntImm u (type_bits ty)"
| "read_expr (FloatImm ty f) = ASTFloatImm f (type_bits ty)"
| "read_expr (StringImm s) = ASTStringImm s"
| "read_expr (Cast ty e) = ASTCast (imm_type ty) (type_bits ty) (read_expr e)"
| "read_expr (Binary p a b) = ASTBinaryOp (op_token p) (read_expr a) (read_expr b)"
| "read_expr (NotE a) = ASTNot (read_expr a)"
| "read_expr (Select c t e) = ASTSelect (read_expr c) (read_expr t) (read_expr e)"
| "read_expr (LoadE ty v i p) = ASTLoad (name_hint v) (read_expr i) (read_expr p)"
| "read_expr (LetE v e b) = ASTLetExpr (name_hint v) (read_expr e) (read_expr b)"
| "read_expr (CallE ty ct n args fn i) =
     (if ct = CT_Halide then
        if func_name fn = n \<and> func_dtype fn = Some ty \<and> i = 0 then ASTCall n kINT 0 kHALIDE (map read_expr args)
        else unreadable
      else if fn = null_func \<and> i = 0 then ASTCall n (imm_type ty) (type_bits ty) (call_token ct) (map read_expr args)
      else unreadable)"

text \<open>The program as far as it is kept: for a call to a tensor the generator takes the type of the tensor and
  not the one that is written.\<close>

fun kept_expr :: "ASTExpr \<Rightarrow> ASTExpr" where
  "kept_expr (ASTIntImm v b) = ASTIntImm v (kept_bits b)"
| "kept_expr (ASTUIntImm v b) = ASTUIntImm v (kept_bits b)"
| "kept_expr (ASTFloatImm v b) = ASTFloatImm v (kept_bits b)"
| "kept_expr (ASTCast t b e) = ASTCast t (kept_type_bits t b) (kept_expr e)"
| "kept_expr (ASTNot a) = ASTNot (kept_expr a)"
| "kept_expr (ASTBinaryOp op a b) = ASTBinaryOp op (kept_expr a) (kept_expr b)"
| "kept_expr (ASTSelect c t e) = ASTSelect (kept_expr c) (kept_expr t) (kept_expr e)"
| "kept_expr (ASTLoad s i p) = ASTLoad s (kept_expr i) (kept_expr p)"
| "kept_expr (ASTLetExpr v e b) = ASTLetExpr v (kept_expr e) (kept_expr b)"
| "kept_expr (ASTCall n t b ct args) =
     (if ct = kHALIDE then ASTCall n kINT 0 kHALIDE (map kept_expr args)
      else ASTCall n t (kept_type_bits t b) ct (map kept_expr args))"
| "kept_expr e = e"

definition named_tables :: "CodeGen \<Rightarrow> bool" where
  "named_tables g \<longleftrightarrow>
     stacks_ok (\<lambda>s v. name_hint v = s) (normal_var g) \<and>
     stacks_ok (\<lambda>s (f, v). name_hint v = s \<and> func_name f = s) (buffer_collector g)"

lemma GetBuffer_named: "named_tables g \<Longrightarrow> GetBuffer s g = Ok (f, v) \<Longrightarrow> name_hint v = s \<and> func_name f = s"
  unfolding named_tables_def GetBuffer_def
  by (auto simp: vec_back_def split: option.splits if_splits dest!: stacks_last)

lemma GetVar_named: "named_tables g \<Longrightarrow> GetVar s g = Ok v \<Longrightarrow> name_hint v = s"
  unfolding named_tables_def GetVar_def by (auto split: option.splits if_splits dest: stacks_last)

lemma GenType_kept:
  "GenType t b = Ok ty \<Longrightarrow> imm_type ty = t \<and> type_bits ty = kept_type_bits t b"
  by (cases t) (auto simp: imm_type_def type_bits_def kept_type_bits_def kept_bits_def is_int_def is_uint_def is_float_def
      Int_type_def UInt_type_def Float_type_def Handle_type_def make_type_def)

lemma type_bits_simps [simp]:
  "type_bits (Int_type b) = kept_bits b" "type_bits (UInt_type b) = kept_bits b" "type_bits (Float_type b) = kept_bits b"
  by (simp_all add: type_bits_def kept_bits_def Int_type_def UInt_type_def Float_type_def make_type_def)

lemma bin_ops_token: "map_of bin_ops t = Some p \<Longrightarrow> op_token p = t"
  by (auto simp: bin_ops_def split: if_splits)

lemma call_types_token: "GetCallType t = Ok ct \<Longrightarrow> call_token ct = t \<and> (ct = CT_Halide \<longleftrightarrow> t = kHALIDE)"
  by (auto simp: GetCallType_def call_types_def split: if_splits option.splits)

lemma GetCallType_Halide [simp]: "GetCallType kHALIDE = Ok CT_Halide"
  by (simp add: GetCallType_def call_types_def)

lemma gen_expr_read:
  "gen_expr g e = Ok e' \<Longrightarrow> named_tables g \<Longrightarrow> read_expr e' = kept_expr e"
  "gen_args g es = Ok es' \<Longrightarrow> named_tables g \<Longrightarrow> map read_expr es' = map kept_expr es"
proof (induction g e and g es arbitrary: e' and es' rule: gen_expr_gen_args.induct)
  case (7 g op a b)
  then obtain a' b' p where "gen_expr g a = Ok a'" "gen_expr g b = Ok b'" "map_of bin_ops op = Some p"
    "e' = Binary p a' b'"
    by (auto simp: res_bind_Ok_conv split: option.split_asm)
  with 7 bin_ops_token show ?case by simp
next
  case (11 g n t b ct args)
  show ?case
  proof (cases "ct = kHALIDE")
    case True
    from 11(2) True obtain args' f v ty where f: "gen_args g args = Ok args'" "GetBuffer n g = Ok (f, v)"
      "func_dtype f = Some ty" "e' = CallE ty CT_Halide n args' f 0"
      by (auto simp: res_bind_Ok_conv split: if_splits option.splits)
    with 11(1) 11(3) GetBuffer_named [OF 11(3) f(2)] True show ?thesis by auto
  next
    case False
    from 11(2) False obtain args' ty c where f: "gen_args g args = Ok args'" "GenType t b = Ok ty" "GetCallType ct = Ok c"
      "e' = CallE ty c n args' null_func 0"
      by (auto simp: res_bind_Ok_conv make_expr_def split: if_splits option.splits)
    with 11(1) 11(3) False GenType_kept [OF f(2)] call_types_token [OF f(3)] show ?thesis by auto
  qed
next
  case (12 g s)
  then show ?case by (auto simp: res_bind_Ok_conv GetVar_named GetBuffer_named split: if_splits)
qed (auto simp: res_bind_Ok_conv split: option.splits if_splits prod.splits
      dest!: GetBuffer_named dest: GenType_kept)

lemma gen_bounds_read:
  "gen_bounds g ms xs = Ok bs \<Longrightarrow> named_tables g \<Longrightarrow> length ms = length xs \<Longrightarrow>
     map (read_expr \<circ> fst) bs = map kept_expr ms \<and> map (read_expr \<circ> snd) bs = map kept_expr xs"
  by (induction g ms xs arbitrary: bs rule: gen_bounds.induct) (auto simp: res_bind_Ok_conv gen_expr_read)

text \<open>What an attribute hangs on, by its key: the name of a tensor, the text of an operation, the name of a
  buffer, the axis of the cube unit or the zero.\<close>

definition read_node :: "AttrNode \<Rightarrow> string \<Rightarrow> AttrNode \<Rightarrow> string" where
  "read_node ax key n =
     (if key = ''coproc_scope'' then (if n = ax then ''cce axis'' else [])
      else
        (case n of
           Node_Func f \<Rightarrow> if key = ''realize_scope'' then ''placeholder '' @ func_name f else []
         | Node_Var v \<Rightarrow> if key = ''storage_scope'' then name_hint v else []
         | Node_Expr (StringImm t) \<Rightarrow> if key = ''realize_scope'' then t else []
         | Node_Expr (IntImm ty i) \<Rightarrow> if key = ''isolate_range'' \<and> ty = Int_type 32 \<and> i = 0 then ''0'' else []
         | _ \<Rightarrow> []))"

text \<open>A statement with parts that no program has is not read.\<close>

fun read_stmt :: "AttrNode \<Rightarrow> Stmt \<Rightarrow> ASTStmt list" where
  "read_stmt ax (LetStmt v e b) = [ASTLet (name_hint v) (read_expr e) (read_stmt ax b)]"
| "read_stmt ax (AttrStmt n k e b) = [ASTAttr (read_node ax k n) k (read_expr e) (read_stmt ax b)]"
| "read_stmt ax (AssertStmt c m b) = [ASTAssert (read_expr c) (read_expr m) (read_stmt ax b)]"
| "read_stmt ax (ProducerConsumer fn p b) = (if p then [ASTProduce (func_name fn) (read_stmt ax b)] else [])"
| "read_stmt ax (For v m x t b) =
     (if t = FT_Serial \<and> var_type v = Int_type 32 then [ASTFor (name_hint v) (read_expr m) (read_expr x) (read_stmt ax b)] else [])"
| "read_stmt ax (Store v e i p) = [ASTStore (name_hint v) (read_expr e) (read_expr i) (read_expr p)]"
| "read_stmt ax (Provide fn i e args) = (if i = 0 then [ASTProvide (func_name fn) (read_expr e) (map read_expr args)] else [])"
| "read_stmt ax (Allocate v t xs c b n) =
     (if var_type v = t \<and> c = const_true \<and> n = None then
        [ASTAllocate (name_hint v) (imm_type t) (type_bits t) (map read_expr xs) (read_stmt ax b)]
      else [])"
| "read_stmt ax (Realize fn i ty bs c b) =
     (if i = 0 \<and> c = const_true \<and> func_dtype fn = Some ty then
        [ASTRealize (func_name fn) (imm_type ty) (type_bits ty)
           (map (read_expr \<circ> fst) bs) (map (read_expr \<circ> snd) bs) (read_stmt ax b)]
      else [])"
| "read_stmt ax (Block a b) = read_stmt ax a @ read_stmt ax b"
| "read_stmt ax (IfThenElse c t e) =
     [ASTIfThenElse (read_expr c) (read_stmt ax t) (case e of Some s \<Rightarrow> read_stmt ax s | None \<Rightarrow> [])]"
| "read_stmt ax (Evaluate e) = [ASTEvaluate (read_expr e)]"
| "read_stmt ax s = []"

lemma read_make_block [simp]: "read_stmt ax (make_block a b) = read_stmt ax a @ read_stmt ax b"
  by (induction a b rule: make_block.induct) auto

lemma read_make_blocks: "make_blocks ss = Some b \<Longrightarrow> read_stmt ax b = concat (map (read_stmt ax) ss)"
  by (induction ss arbitrary: b rule: make_blocks.induct) auto

text \<open>The attributes whose body takes their place.\<close>

definition dropped :: "string \<Rightarrow> string \<Rightarrow> bool" where
  "dropped node key \<longleftrightarrow> key \<in> set omitPragma \<or>
     key = ''realize_scope'' \<and>
       (case res_bind (GetTokStateFromCode node) GetNextToken of Ok st \<Rightarrow> sval st = ''hybrid'' | Err e \<Rightarrow> False)"

text \<open>The tensor that the text of an attribute names: what follows \<open>placeholder\<close> and a parenthesis.\<close>

definition placeholder_of :: "string \<Rightarrow> string option" where
  "placeholder_of node =
     (case res_bind (GetTokStateFromCode node) (\<lambda>st. res_bind (GetNextToken st) (\<lambda>st.
         if sval st = ''placeholder'' then
           res_bind (GetNextToken st) (\<lambda>st. res_bind (GetNextToken st) (\<lambda>st. Ok (Some (sval st))))
         else Ok None)) of
        Ok x \<Rightarrow> x | Err e \<Rightarrow> None)"

text \<open>Of the other arguments of a \<open>placeholder\<close> nothing is left; \<open>coproc_scope\<close> always hangs on the axis.\<close>

definition kept_node :: "string \<Rightarrow> string \<Rightarrow> string" where
  "kept_node node key =
     (if key = ''coproc_scope'' then ''cce axis''
      else if key = ''realize_scope'' then (case placeholder_of node of Some t \<Rightarrow> ''placeholder '' @ t | None \<Rightarrow> node)
      else node)"

fun kept_stmt :: "ASTStmt \<Rightarrow> ASTStmt list" where
  "kept_stmt (ASTLet v e b) = [ASTLet v (kept_expr e) (concat (map kept_stmt b))]"
| "kept_stmt (ASTAttr n k e b) =
     (if dropped n k then concat (map kept_stmt b) else [ASTAttr (kept_node n k) k (kept_expr e) (concat (map kept_stmt b))])"
| "kept_stmt (ASTAssert c m b) = [ASTAssert (kept_expr c) (kept_expr m) (concat (map kept_stmt b))]"
| "kept_stmt (ASTProduce f b) = [ASTProduce f (concat (map kept_stmt b))]"
| "kept_stmt (ASTStore s e i p) = [ASTStore s (kept_expr e) (kept_expr i) (kept_expr p)]"
| "kept_stmt (ASTProvide f e args) = [ASTProvide f (kept_expr e) (map kept_expr args)]"
| "kept_stmt (ASTAllocate s t bs xs b) =
     [ASTAllocate s t (kept_type_bits t bs) (map kept_expr xs) (concat (map kept_stmt b))]"
| "kept_stmt (ASTRealize s t bs ms xs b) =
     [ASTRealize s t (kept_type_bits t bs) (map kept_expr ms) (map kept_expr xs) (concat (map kept_stmt b))]"
| "kept_stmt (ASTIfThenElse c t e) =
     [ASTIfThenElse (kept_expr c) (concat (map kept_stmt t)) (concat (map kept_stmt e))]"
| "kept_stmt (ASTEvaluate e) = [ASTEvaluate (kept_expr e)]"
| "kept_stmt (ASTFor s m x b) = [ASTFor s (kept_expr m) (kept_expr x) (concat (map kept_stmt b))]"

lemma realize_node_dropped:
  "realize_node node g = Ok (r, g') \<Longrightarrow> (r = None) = dropped node ''realize_scope''"
  unfolding dropped_def realize_node_def
  by (cases "GetTokStateFromCode node") (auto simp: omitPragma_def res_bind_Ok_conv split: if_splits)

lemma attr_ref_dropped:
  assumes "attr_ref ax node key g = Ok (r, g')"
  shows "(r = None) = dropped node key"
proof (cases "key = ''realize_scope''")
  case True
  with assms show ?thesis by (simp add: attr_ref_def realize_node_dropped)
next
  case False
  with assms show ?thesis by (auto simp: attr_ref_def dropped_def omitPragma_def res_bind_Ok_conv split: if_splits)
qed

lemma realize_node_node:
  assumes "realize_node node g = Ok (Some n, g')" "named_tables g"
  shows "read_node ax ''realize_scope'' n = kept_node node ''realize_scope''"
proof -
  from assms(1) consider (placeholder) st st1 st2 st3 f v where
      "GetTokStateFromCode node = Ok st" "GetNextToken st = Ok st1" "sval st1 = ''placeholder''"
      "GetNextToken st1 = Ok st2" "GetNextToken st2 = Ok st3" "GetBuffer (sval st3) g = Ok (f, v)" "n = Node_Func f"
    | (compute) st st1 where "GetTokStateFromCode node = Ok st" "GetNextToken st = Ok st1" "sval st1 \<noteq> ''placeholder''"
      "n = Node_Expr (StringImm node)"
    unfolding realize_node_def res_bind_Ok_conv by (auto simp: res_bind_Ok_conv split: if_splits)
  then show ?thesis
  proof cases
    case placeholder
    with GetBuffer_named [OF assms(2) placeholder(6)] show ?thesis
      by (simp add: read_node_def kept_node_def placeholder_of_def)
  next
    case compute
    then show ?thesis by (simp add: read_node_def kept_node_def placeholder_of_def)
  qed
qed

lemma attr_ref_node:
  assumes "attr_ref ax node key g = Ok (Some n, g')" "named_tables g"
  shows "read_node ax key n = kept_node node key"
proof (cases "key = ''realize_scope''")
  case True
  with assms show ?thesis by (simp add: attr_ref_def realize_node_node)
next
  case False
  from assms(1) False consider (storage) f v where "key = ''storage_scope''" "GetBuffer node g = Ok (f, v)" "n = Node_Var v"
    | (coproc) "key = ''coproc_scope''" "n = ax"
    | (isolate) "key = ''isolate_range''" "node = ''0''" "n = Node_Expr (IntImm (Int_type 32) 0)"
    unfolding attr_ref_def by (auto simp: res_bind_Ok_conv split: if_splits)
  then show ?thesis
  proof cases
    case storage
    with GetBuffer_named [OF assms(2) storage(2)] show ?thesis by (simp add: read_node_def kept_node_def)
  qed (simp_all add: read_node_def kept_node_def)
qed

lemma named_PopBuffer: "named_tables g \<Longrightarrow> PopBuffer s g = Ok g' \<Longrightarrow> named_tables g'"
  unfolding named_tables_def PopBuffer_def by (auto intro: stacks_pop split: option.splits if_splits)

lemma named_attr_ref: "attr_ref ax node key g = Ok (r, g') \<Longrightarrow> named_tables g \<Longrightarrow> named_tables g'"
  by (auto simp: attr_ref_def realize_node_def res_bind_Ok_conv named_PopBuffer split: if_splits)

lemma named_with_buffer: "named_tables g \<Longrightarrow> named_tables (with_buffer s ty vty g)"
  unfolding named_tables_def with_buffer_def PushBuffer_def by (auto intro!: stacks_push)

lemma named_PushVar: "named_tables g \<Longrightarrow> PushVar s ty g = (v, g') \<Longrightarrow> named_tables g' \<and> name_hint v = s \<and> var_type v = ty"
  unfolding named_tables_def PushVar_def Let_def by (auto intro!: stacks_push)

lemma named_PopVar: "named_tables g \<Longrightarrow> PopVar s g = Ok g' \<Longrightarrow> named_tables g'"
  unfolding named_tables_def PopVar_def by (auto intro: stacks_pop split: option.splits if_splits)

lemma gen_read:
  "gens ax g t s g' \<Longrightarrow> named_tables g \<Longrightarrow> named_tables g' \<and> read_stmt ax s = kept_stmt t"
  "gens_list ax g ts ss g' \<Longrightarrow> named_tables g \<Longrightarrow>
     named_tables g' \<and> concat (map (read_stmt ax) ss) = concat (map kept_stmt ts)"
  "gens_block ax g ts s g' \<Longrightarrow> named_tables g \<Longrightarrow> named_tables g' \<and> read_stmt ax s = concat (map kept_stmt ts)"
proof (induction rule: gens_gens_list_gens_block.inducts)
  case (g_attr g e e' b b' g1 node key n g')
  then have g1: "named_tables g1" "read_stmt ax b' = concat (map kept_stmt b)" by simp_all
  have ref: "attr_ref ax node key g1 = Ok (Some n, g')" by fact
  from attr_ref_dropped [OF ref] have "\<not> dropped node key" by simp
  with g1 attr_ref_node [OF ref g1(1)] named_attr_ref [OF ref g1(1)] g_attr.prems
    \<open>gen_expr g e = Ok e'\<close> show ?case by (simp add: gen_expr_read)
next
  case (g_no_attr g e e' b b' g1 node key g')
  then have g1: "named_tables g1" "read_stmt ax b' = concat (map kept_stmt b)" by simp_all
  have ref: "attr_ref ax node key g1 = Ok (None, g')" by fact
  from attr_ref_dropped [OF ref] have "dropped node key" by simp
  with g1 named_attr_ref [OF ref g1(1)] show ?case by simp
next
  case (g_block ts g ss g' s)
  then show ?case by (simp add: read_make_blocks)
next
  case (g_for n g v g1 m m' x x' b b' g2 g')
  have v: "named_tables g1" "name_hint v = n" "var_type v = Int_type 32" using named_PushVar [OF g_for.prems g_for.hyps(1)] by simp_all
  with g_for.IH(2) have b: "named_tables g2" "read_stmt ax b' = concat (map kept_stmt b)" by simp_all
  then have "named_tables g'" using named_PopVar g_for.hyps by blast
  with v b g_for.hyps show ?case by (simp add: gen_expr_read)
next
  case (g_allocate it bs ty v g t xs xs' b b' g')
  then show ?case by (auto simp: gen_expr_read named_with_buffer dest!: GenType_kept)
next
  case (g_realize it bs ty fn g t ms xs bounds b b' g')
  then show ?case using gen_bounds_read [OF g_realize.hyps(4)]
    by (auto simp: named_with_buffer dest!: GenType_kept)
qed (auto simp: gen_expr_read dest: GetBuffer_named)

section \<open>The generator\<close>

definition inputs_named :: "Input list \<Rightarrow> bool" where
  "inputs_named ins \<longleftrightarrow> list_all (\<lambda>(s, f, v). name_hint v = s \<and> func_name f = s) ins"

lemma named_fold:
  "named_tables g \<Longrightarrow> inputs_named ins \<Longrightarrow> named_tables (fold (\<lambda>(s, f, v). PushBuffer s f v) ins g)"
proof (induction ins arbitrary: g)
  case (Cons i ins)
  obtain s f v where i: "i = (s, f, v)" by (cases i)
  from Cons.prems i have "named_tables (PushBuffer s f v g)"
    by (auto simp: named_tables_def PushBuffer_def inputs_named_def intro!: stacks_push)
  with Cons i show ?case by (simp add: inputs_named_def)
qed simp

lemma next_id_fold: "next_id (fold (\<lambda>(s, f, v). PushBuffer s f v) ins g) = next_id g"
  by (induction ins arbitrary: g) (auto simp: PushBuffer_def)

text \<open>
  C25: The generated statement, read back by the names of its variables and functions, is the program: every
  statement and expression of it is there, in order, a call to a tensor names the operation and has its
  element type, and an attribute hangs on the tensor, buffer, text or axis that the program gives. What is
  not kept is listed by \<open>kept_stmt\<close>: the bits of a width beyond a byte (a handle has none), the
  type that is written at a call to a tensor, the attributes whose body takes their place
  (\<open>omitPragma\<close>, and a \<open>realize_scope\<close> of a hybrid operation), the further arguments of a
  \<open>placeholder\<close>, and the node of \<open>coproc_scope\<close>, which is always the axis. The inputs have to be
  given under the names of their buffers (\<open>inputs_named\<close>).
\<close>

theorem codegen_reads_back:
  assumes "GenHalideIR ax p ins = Ok s" "inputs_named ins"
  shows "read_stmt ax s = concat (map kept_stmt p)"
proof -
  from assms(1) obtain g' where run: "gens_block ax (ASTCodeGenerator ins) p s g'" by (rule GenHalideIR_run)
  have "named_tables (ASTCodeGenerator ins)"
    unfolding ASTCodeGenerator_def by (rule named_fold) (use assms(2) in \<open>simp_all add: named_tables_def\<close>)
  with gen_read(3) [OF run] show ?thesis by simp
qed

theorem codegen_reads_back_witness:
  "read_stmt (Node_Other 0) sample_stmt = concat (map kept_stmt sample_ast)"
  using codegen_reads_back [OF sample_generated] by (simp add: inputs_named_def)

text \<open>
  C26: No two binders of a generated statement are the same object, and none is an object of the inputs.
\<close>

theorem codegen_binders_distinct:
  assumes "GenHalideIR ax p ins = Ok s"
  shows "distinct (binders s) \<and> list_all (\<lambda>i. first_id ins \<le> i) (binders s) \<and>
    list_all (\<lambda>(n, f, v). func_id f < first_id ins \<and> var_id v < first_id ins) ins"
proof -
  from assms obtain g' where run: "gens_block ax (ASTCodeGenerator ins) p s g'" by (rule GenHalideIR_run)
  have "next_id (ASTCodeGenerator ins) = first_id ins" by (simp add: ASTCodeGenerator_def next_id_fold)
  with gen_fresh(3) [OF run] have "distinct (binders s)" "list_all (\<lambda>i. first_id ins \<le> i) (binders s)"
    by (auto simp: fresh_in_def list_all_iff)
  moreover have "m \<le> fold (\<lambda>(s, f, v) n. max n (max (func_id f) (var_id v))) ins m \<and>
      list_all (\<lambda>(n, f, v). func_id f \<le> fold (\<lambda>(s, f, v) n. max n (max (func_id f) (var_id v))) ins m \<and>
        var_id v \<le> fold (\<lambda>(s, f, v) n. max n (max (func_id f) (var_id v))) ins m) ins" for m
  proof (induction ins arbitrary: m)
    case (Cons i ins)
    obtain s f v where i: "i = (s, f, v)" by (cases i)
    from Cons [of "max m (max (func_id f) (var_id v))"] i show ?case by (auto simp: list_all_iff)
  qed simp
  then have "list_all (\<lambda>(n, f, v). func_id f < first_id ins \<and> var_id v < first_id ins) ins"
    unfolding first_id_def by (auto simp: list_all_iff less_Suc_eq_le)
  ultimately show ?thesis by simp
qed

theorem codegen_binders_distinct_witness: "distinct (binders sample_stmt) \<and> binders sample_stmt = [1, 2]"
  using codegen_binders_distinct [OF sample_generated] by (simp add: sample_stmt_def Let_def)

text \<open>
  From the text that the printer writes for a program, the front end generates what the generator makes of
  the program itself.
\<close>

lemma parse_generates:
  assumes "plain_stmts p" "p \<noteq> []" "PrintAST p = Ok text" "CARRIAGE_RETURN \<notin> set text"
  shows "ParseHalideIRFromCode ax text ins = GenHalideIR ax p ins"
  using printed_parses [OF assms] by (auto simp: ParseHalideIRFromCode_def res_bind_Ok_conv)

lemma parse_generates_sample:
  "\<exists>text. PrintAST sample_ast = Ok text \<and> ParseHalideIRFromCode (Node_Other 0) text [] = Ok sample_stmt"
proof -
  have "case PrintAST sample_ast of Ok s \<Rightarrow> CARRIAGE_RETURN \<notin> set s | Err e \<Rightarrow> False" by code_simp
  then obtain s where s: "PrintAST sample_ast = Ok s" "CARRIAGE_RETURN \<notin> set s"
    by (auto split: res.splits)
  have "plain_stmts sample_ast" "sample_ast \<noteq> []" by code_simp+
  from parse_generates [OF this s] s(1) sample_generated show ?thesis by metis
qed

end
