(* ===== verification/Hermes_Op.thy ===== *)
theory Hermes_Op
  imports Akg_Prelude
begin

text \<open>
  The primitive operators of the Hermes auto-tiling model,
  \<open>src/src/poly/tiling/hermes/op.h\<close> and \<open>op.cc\<close>: the operator enumeration, its table of
  names, the classification switches, the fitting of buffer names and the categories with
  their dominance order.
\<close>

section \<open>Strings of the C++ library\<close>

text \<open>\<open>s.find(pat, pos)\<close>: the first index from \<open>pos\<close> on where \<open>pat\<close> occurs, \<open>None\<close> for
  \<open>std::string::npos\<close>. A position behind the end finds nothing.\<close>

definition str_find :: "string \<Rightarrow> string \<Rightarrow> nat \<Rightarrow> nat option" where
  "str_find s pat pos = List.find (\<lambda>i. prefix pat (drop i s)) [pos ..< length s + 1]"

text \<open>\<open>s.rfind(pat)\<close>: the last index where \<open>pat\<close> occurs.\<close>

definition str_rfind :: "string \<Rightarrow> string \<Rightarrow> nat option" where
  "str_rfind s pat = List.find (\<lambda>i. prefix pat (drop i s)) (rev [0 ..< length s + 1])"

text \<open>\<open>std::string::size\<close> as the \<open>size_t\<close> it is, for the places that subtract from it.\<close>

definition str_size :: "string \<Rightarrow> 64 word" where
  "str_size s = word_of_nat (length s)"

section \<open>Operators and categories\<close>

datatype (plugins only: code) OpType =
    Op_Add | Op_TensorAdd | Op_AddN | Op_Cast | Op_Round | Op_Trunc | Op_Floor | Op_Ceil
  | Op_Exp | Op_Fabs | Op_Log | Op_Pow | Op_Mul | Op_Maximum | Op_Minimum | Op_FArgMax
  | Op_FArgMin | Op_Relu | Op_Neg | Op_RealDiv | Op_Reciprocal | Op_Sub | Op_Sqrt | Op_Rsqrt
  | Op_Tanh | Op_Equal | Op_Greater | Op_Lower | Op_Select | Op_BitwiseAnd | Op_BitwiseOr
  | Op_BitwiseNot | Op_BroadcastTo | Op_TransData | Op_InplaceAssign | Op_Reshape
  | Op_FourToFiveNCHW | Op_Input | Op_Constant | Op_MatMul | Op_BatchMatMul | Op_ReduceSum
  | Op_ReduceMax | Op_ReduceMin | Op_ReduceProd | Op_ReduceDST | Op_ReduceSRC | Op_ReduceY
  | Op_ReduceX | Op_AllReduce | Op_VMAdd | Op_VMLA | Op_IoU | Op_IuF | Op_NMS | Op_LHS
  | Op_RHS | Op_Dropout | Op_Orig | Op_With | Op_Assignment

datatype (plugins only: code) OpCategory =
    Cat_Input | Cat_Injective | Cat_Broadcast | Cat_Reshape | Cat_Transpose | Cat_ReduceX
  | Cat_ReduceY | Cat_AllReduce | Cat_MatMul | Cat_Assignment

text \<open>The switches of \<open>Op\<close>. They test membership the way the C++ switches list their cases;
  a reduction by product is not one of the cases of \<open>IsReduce\<close>.\<close>

definition IsReduce :: "OpType \<Rightarrow> bool" where
  "IsReduce op \<longleftrightarrow> op \<in> {Op_ReduceSum, Op_ReduceMax, Op_ReduceMin, Op_AllReduce, Op_ReduceX, Op_ReduceY}"

definition IsConstant :: "OpType \<Rightarrow> bool" where
  "IsConstant op \<longleftrightarrow> op \<in> {Op_Constant}"

definition IsNameless :: "OpType \<Rightarrow> bool" where
  "IsNameless op \<longleftrightarrow> op \<in> {Op_Constant, Op_Reshape}"

definition RemoveUselessInput :: "OpType \<Rightarrow> bool" where
  "RemoveUselessInput op \<longleftrightarrow> op \<in> {Op_InplaceAssign}"

definition IsInput :: "OpType \<Rightarrow> bool" where
  "IsInput op \<longleftrightarrow> op \<in> {Op_Input, Op_Constant}"

definition IsLonely :: "OpType \<Rightarrow> bool" where
  "IsLonely op \<longleftrightarrow> op \<in> {Op_Exp, Op_Fabs, Op_Ceil, Op_Sqrt, Op_Log, Op_BroadcastTo, Op_TransData, Op_AddN}"

section \<open>The table of names\<close>

text \<open>\<open>Op::ops_\<close>: the operator, the name the graph description uses and the name of the
  buffer the IR uses. The row of \<open>Floor\<close> carries the operator \<open>Trunc\<close>, as in the source.\<close>

definition ops_table :: "(OpType \<times> string \<times> string) list" where
  "ops_table =
  [(Op_Add, ''Add'', ''add''),
   (Op_TensorAdd, ''TensorAdd'', ''add''),
   (Op_AddN, ''AddN'', ''elemwise_sum''),
   (Op_Cast, ''Cast'', ''cast''),
   (Op_Round, ''Round'', ''round''),
   (Op_Trunc, ''Trunc'', ''trunc''),
   (Op_Trunc, ''Floor'', ''floor''),
   (Op_Ceil, ''Ceil'', ''ceil''),
   (Op_Exp, ''Exp'', ''exp''),
   (Op_Fabs, ''Fabs'', ''fabs''),
   (Op_Log, ''Log'', ''log''),
   (Op_Pow, ''Pow'', ''pow''),
   (Op_Mul, ''Mul'', ''multiply''),
   (Op_Maximum, ''Maximum'', ''maximum''),
   (Op_Minimum, ''Minimum'', ''minimum''),
   (Op_FArgMax, ''FArgMax'', ''fargmax''),
   (Op_FArgMin, ''FArgMin'', ''fargmin''),
   (Op_Relu, ''Relu'', ''relu''),
   (Op_Neg, ''Neg'', ''negative''),
   (Op_RealDiv, ''RealDiv'', ''divide''),
   (Op_Reciprocal, ''Reciprocal'', ''divide''),
   (Op_Sub, ''Sub'', ''subtract''),
   (Op_Sqrt, ''Sqrt'', ''sqrt''),
   (Op_Rsqrt, ''Rsqrt'', ''rsqrt''),
   (Op_Tanh, ''Tanh'', ''tanh''),
   (Op_Equal, ''Equal'', ''equal''),
   (Op_Greater, ''Greater'', ''greater''),
   (Op_Lower, ''Lower'', ''lower''),
   (Op_Select, ''Select'', ''select''),
   (Op_BitwiseAnd, ''BitwiseAnd'', ''bitwise_and''),
   (Op_BitwiseOr, ''BitwiseOr'', ''bitwise_or''),
   (Op_BitwiseNot, ''BitwiseNot'', ''bitwise_not''),
   (Op_BroadcastTo, ''BroadCastTo'', ''broadcast''),
   (Op_TransData, ''TransData'', ''transpose''),
   (Op_InplaceAssign, ''InplaceAssign'', ''inplace_assign''),
   (Op_Reshape, ''Reshape'', ''reshape''),
   (Op_FourToFiveNCHW, ''FourToFiveNCHW'', ''four2five_nchw''),
   (Op_Input, ''input'', ''''),
   (Op_Constant, ''constant'', ''''),
   (Op_BatchMatMul, ''BatchMatMul'', ''batchmatmul''),
   (Op_MatMul, ''MatMul'', ''batchmatmul''),
   (Op_ReduceSum, ''ReduceSum'', ''''),
   (Op_ReduceMin, ''ReduceMin'', ''''),
   (Op_ReduceMax, ''ReduceMax'', ''''),
   (Op_ReduceProd, ''ReduceProd'', ''''),
   (Op_ReduceSRC, ''ReduceSRC'', ''''),
   (Op_ReduceDST, ''ReduceDST'', ''''),
   (Op_ReduceY, ''ReduceY'', ''''),
   (Op_ReduceX, ''ReduceX'', ''''),
   (Op_AllReduce, ''AllReduce'', ''''),
   (Op_VMAdd, ''VMAdd'', ''vmadd''),
   (Op_VMLA, ''VMLA'', ''vmla''),
   (Op_IoU, ''IoU'', ''iou''),
   (Op_IuF, ''IuF'', ''iuf''),
   (Op_NMS, ''NMS'', ''nms''),
   (Op_LHS, ''LHS'', ''lhs''),
   (Op_RHS, ''RHS'', ''rhs''),
   (Op_Dropout, ''Dropout'', ''dropout''),
   (Op_Orig, ''Orig'', ''orig''),
   (Op_With, ''With'', ''with''),
   (Op_Assignment, ''Assignment'', '''')]"

definition op_enum :: "OpType \<times> string \<times> string \<Rightarrow> OpType" where
  "op_enum row = fst row"

definition op_info :: "OpType \<times> string \<times> string \<Rightarrow> string" where
  "op_info row = fst (snd row)"

definition op_ir :: "OpType \<times> string \<times> string \<Rightarrow> string" where
  "op_ir row = snd (snd row)"

definition the_row :: "(OpType \<times> string \<times> string) option \<Rightarrow> (OpType \<times> string \<times> string) res" where
  "the_row it = (case it of None \<Rightarrow> Err Fatal | Some row \<Rightarrow> Ok row)"

definition OpTypeFromString :: "string \<Rightarrow> OpType res" where
  "OpTypeFromString op_type =
     res_bind (the_row (List.find (\<lambda>op. op_info op = op_type) ops_table)) (\<lambda>row. Ok (op_enum row))"

definition OpToString :: "OpType \<Rightarrow> string res" where
  "OpToString op_type =
     res_bind (the_row (List.find (\<lambda>op. op_enum op = op_type) ops_table)) (\<lambda>row. Ok (op_info row))"

definition BufferName :: "OpType \<Rightarrow> string res" where
  "BufferName op_type =
     res_bind (the_row (List.find (\<lambda>op. op_enum op = op_type) ops_table)) (\<lambda>row. Ok (op_ir row))"

definition OpTypeFromBufferName :: "string \<Rightarrow> OpType res" where
  "OpTypeFromBufferName op_type =
     res_bind (the_row (List.find (\<lambda>op. op_ir op = op_type) ops_table)) (\<lambda>row. Ok (op_enum row))"

section \<open>Fitting a buffer name\<close>

text \<open>\<open>name.size() - 4\<close> is an unsigned subtraction: for a name of fewer than four characters
  the position is behind the end and nothing is found.\<close>

definition hasReduceName :: "string \<Rightarrow> bool" where
  "hasReduceName name \<longleftrightarrow> str_find name ''red'' (unat (str_size name - 4)) \<noteq> None"

definition hasName :: "string \<Rightarrow> string \<Rightarrow> bool" where
  "hasName name opBuffName \<longleftrightarrow> prefix opBuffName name"

definition hasOpName :: "string \<Rightarrow> string \<Rightarrow> bool" where
  "hasOpName name opBuffName \<longleftrightarrow> hasName name (''T_'' @ opBuffName)"

definition FitBufferName :: "OpType \<Rightarrow> string \<Rightarrow> bool \<Rightarrow> bool res" where
  "FitBufferName op name cstInput =
     res_bind (BufferName op) (\<lambda>bufName.
       if IsReduce op then Ok (hasReduceName name)
       else if IsLonely op \<and> cstInput then Ok (hasName name bufName)
       else if IsInput op \<or> IsConstant op then Ok True
       else Ok (hasOpName name bufName))"

section \<open>Categories\<close>

fun Category :: "OpType \<Rightarrow> OpCategory" where
  "Category Op_Add = Cat_Injective"
| "Category Op_AddN = Cat_Injective"
| "Category Op_TensorAdd = Cat_Injective"
| "Category Op_Cast = Cat_Injective"
| "Category Op_Round = Cat_Injective"
| "Category Op_Trunc = Cat_Injective"
| "Category Op_Floor = Cat_Injective"
| "Category Op_Exp = Cat_Injective"
| "Category Op_Fabs = Cat_Injective"
| "Category Op_Ceil = Cat_Injective"
| "Category Op_Pow = Cat_Injective"
| "Category Op_Equal = Cat_Injective"
| "Category Op_Greater = Cat_Injective"
| "Category Op_Lower = Cat_Injective"
| "Category Op_Select = Cat_Injective"
| "Category Op_BitwiseAnd = Cat_Injective"
| "Category Op_BitwiseOr = Cat_Injective"
| "Category Op_BitwiseNot = Cat_Injective"
| "Category Op_Log = Cat_Injective"
| "Category Op_Mul = Cat_Injective"
| "Category Op_Maximum = Cat_Injective"
| "Category Op_Minimum = Cat_Injective"
| "Category Op_Neg = Cat_Injective"
| "Category Op_FArgMax = Cat_Injective"
| "Category Op_FArgMin = Cat_Injective"
| "Category Op_Relu = Cat_Injective"
| "Category Op_RealDiv = Cat_Injective"
| "Category Op_Reciprocal = Cat_Injective"
| "Category Op_Sub = Cat_Injective"
| "Category Op_Sqrt = Cat_Injective"
| "Category Op_Rsqrt = Cat_Injective"
| "Category Op_Tanh = Cat_Injective"
| "Category Op_InplaceAssign = Cat_Injective"
| "Category Op_VMAdd = Cat_Injective"
| "Category Op_VMLA = Cat_Injective"
| "Category Op_IoU = Cat_Injective"
| "Category Op_IuF = Cat_Injective"
| "Category Op_NMS = Cat_Injective"
| "Category Op_LHS = Cat_Injective"
| "Category Op_RHS = Cat_Injective"
| "Category Op_Dropout = Cat_Injective"
| "Category Op_Orig = Cat_Injective"
| "Category Op_With = Cat_Injective"
| "Category Op_BroadcastTo = Cat_Broadcast"
| "Category Op_TransData = Cat_Transpose"
| "Category Op_Reshape = Cat_Reshape"
| "Category Op_FourToFiveNCHW = Cat_Reshape"
| "Category Op_Input = Cat_Input"
| "Category Op_Constant = Cat_Input"
| "Category Op_ReduceSum = Cat_AllReduce"
| "Category Op_ReduceMax = Cat_AllReduce"
| "Category Op_ReduceMin = Cat_AllReduce"
| "Category Op_ReduceProd = Cat_AllReduce"
| "Category Op_ReduceDST = Cat_AllReduce"
| "Category Op_ReduceSRC = Cat_AllReduce"
| "Category Op_AllReduce = Cat_AllReduce"
| "Category Op_ReduceY = Cat_ReduceY"
| "Category Op_ReduceX = Cat_ReduceX"
| "Category Op_MatMul = Cat_MatMul"
| "Category Op_BatchMatMul = Cat_MatMul"
| "Category Op_Assignment = Cat_Assignment"

fun Priority :: "OpCategory \<Rightarrow> int" where
  "Priority Cat_Input = 0"
| "Priority Cat_Assignment = 1"
| "Priority Cat_Injective = 2"
| "Priority Cat_Broadcast = 3"
| "Priority Cat_Reshape = 4"
| "Priority Cat_Transpose = 5"
| "Priority Cat_AllReduce = 6"
| "Priority Cat_ReduceX = 7"
| "Priority Cat_ReduceY = 8"
| "Priority Cat_MatMul = 9"

definition DominantCategory :: "OpCategory \<Rightarrow> OpCategory \<Rightarrow> OpCategory" where
  "DominantCategory cat_1 cat_2 = (if Priority cat_1 > Priority cat_2 then cat_1 else cat_2)"

fun StringOfCategory :: "OpCategory \<Rightarrow> string" where
  "StringOfCategory Cat_Input = ''Input''"
| "StringOfCategory Cat_Assignment = ''Assignment''"
| "StringOfCategory Cat_Injective = ''Injective''"
| "StringOfCategory Cat_Broadcast = ''Broadcast''"
| "StringOfCategory Cat_Reshape = ''Reshape''"
| "StringOfCategory Cat_Transpose = ''Transpose''"
| "StringOfCategory Cat_AllReduce = ''AllReduce''"
| "StringOfCategory Cat_ReduceX = ''ReduceX''"
| "StringOfCategory Cat_ReduceY = ''ReduceY''"
| "StringOfCategory Cat_MatMul = ''MatMul''"

lemmas op_table_simps = ops_table_def op_enum_def op_info_def op_ir_def the_row_def

lemma op_enum_covers: "op \<in> set (map op_enum ops_table) \<longleftrightarrow> op \<noteq> Op_Floor"
  by (cases op) (simp_all add: op_table_simps)

lemma op_info_distinct: "distinct (map op_info ops_table)"
  by (simp add: op_table_simps)

lemma the_row_find_Err:
  "res_bind (the_row (List.find P rows)) (\<lambda>row. Ok (f row)) = Err e \<longleftrightarrow> (\<forall>row \<in> set rows. \<not> P row) \<and> e = Fatal"
  by (auto simp: the_row_def find_None_iff split: option.splits) (metis find_Some_iff nth_mem option.distinct(1))

lemma BufferName_Err: "BufferName op = Err e \<longleftrightarrow> op = Op_Floor \<and> e = Fatal"
  using op_enum_covers [of op] unfolding BufferName_def the_row_find_Err set_map by blast

lemma OpToString_Err: "OpToString op = Err e \<longleftrightarrow> op = Op_Floor \<and> e = Fatal"
  using op_enum_covers [of op] unfolding OpToString_def the_row_find_Err set_map by blast

lemma find_distinct_key:
  "distinct (map key rows) \<Longrightarrow> row \<in> set rows \<Longrightarrow> List.find (\<lambda>r. key r = key row) rows = Some row"
  by (induction rows) (auto simp: rev_image_eqI)

lemma Priority_inject [simp]: "Priority c = Priority d \<longleftrightarrow> c = d"
  by (cases c; cases d) simp_all

lemma Priority_Input [simp]: "Priority Cat_Input \<le> Priority c"
  by (cases c) simp_all

lemma Priority_Dominant: "Priority (DominantCategory c d) = max (Priority c) (Priority d)"
  by (simp add: DominantCategory_def)

text \<open>The categories with \<open>DominantCategory\<close> are a semilattice whose neutral element is the
  category of inputs, so a graph's dominant category does not depend on the order of its nodes.\<close>

interpretation dominant: semilattice_neutr DominantCategory Cat_Input
proof
  fix a b c
  show "DominantCategory (DominantCategory a b) c = DominantCategory a (DominantCategory b c)"
    by (simp add: DominantCategory_def)
  show "DominantCategory a b = DominantCategory b a"
    using Priority_inject [of a b] by (auto simp: DominantCategory_def simp del: Priority_inject)
  show "DominantCategory a a = a" by (simp add: DominantCategory_def)
  show "DominantCategory a Cat_Input = a"
    using Priority_inject [of a Cat_Input] Priority_Input [of a]
    by (auto simp: DominantCategory_def simp del: Priority_inject Priority_Input)
qed

text \<open>
  The names of the operator table identify the operators: what \<open>Op::ToString\<close> prints for
  an operator is read back by \<open>Op::OpTypeFromString\<close> as the same operator.
\<close>

theorem op_string_roundtrip: "OpToString op = Ok s \<Longrightarrow> OpTypeFromString s = Ok op"
proof -
  assume "OpToString op = Ok s"
  then obtain row where row: "List.find (\<lambda>r. op_enum r = op) ops_table = Some row" "op_info row = s"
    by (auto simp: OpToString_def the_row_def res_bind_Ok_conv split: option.splits)
  then have "row \<in> set ops_table" "op_enum row = op"
    by (auto simp: find_Some_iff)
  with row(2) show ?thesis
    using find_distinct_key [OF op_info_distinct, of row] by (simp add: OpTypeFromString_def the_row_def)
qed

theorem op_string_roundtrip_witness:
  "OpToString Op_BroadcastTo = Ok ''BroadCastTo'' \<and> OpTypeFromString ''BroadCastTo'' = Ok Op_BroadcastTo"
proof -
  have "OpToString Op_BroadcastTo = Ok ''BroadCastTo''"
    by (simp add: OpToString_def op_table_simps)
  then show ?thesis using op_string_roundtrip by blast
qed

text \<open>
  The printing of operators is defective for exactly one of them: \<open>Op::ToString\<close> and
  \<open>Op::BufferName\<close> abort on \<open>Floor\<close> and on no other operator, because the row the table
  has for \<open>Floor\<close> carries \<open>Trunc\<close>; reading \<open>Floor\<close> yields \<open>Trunc\<close>.
\<close>

theorem op_floor_unprintable:
  "((\<exists>e. OpToString op = Err e) = (op = Op_Floor)) \<and> ((\<exists>e. BufferName op = Err e) = (op = Op_Floor)) \<and>
   OpTypeFromString ''Floor'' = Ok Op_Trunc"
  by (auto simp: OpToString_Err BufferName_Err) (simp add: OpTypeFromString_def op_table_simps)

end
