(* ===== verification/Hermes_Graph.thy ===== *)
theory Hermes_Graph
  imports Hermes_Op Hermes_Tensor
begin

text \<open>
  The operator graph of the Hermes model: axes (\<open>hermes/axis.h\<close>), nodes (\<open>node.h\<close>,
  \<open>node.cc\<close>), the initial graph (\<open>init_graph.h\<close>, \<open>init_graph.cc\<close>) and the graph the tiling
  works on (\<open>model_graph.h\<close>, \<open>model_graph.cc\<close>).

  Nodes and tensors are shared objects: a \<open>shared_ptr\<close> is a natural number, the address of
  its object in the heap, and equality of pointers is equality of addresses. The heap is
  passed explicitly, since the code changes objects that several graphs and nodes refer to.
  The static vector \<open>ModelGraph::global_axis_vec_\<close> is passed explicitly too.
\<close>

section \<open>Axes and nodes\<close>

datatype AxisLabel =
    kMatMulAxisBatch | kMatMulAxisN | kMatMulAxisM | kMatMulAxis16 | kMatMulAxisK
  | kMultiCore | kVectorization

record Axis =
  ax_name :: string
  gemm_axis :: string
  dim_axis :: "64 word"
  ax_range :: "64 word"
  tile :: int
  c1_tiling :: int
  ax_index :: int
  ax_type :: "AxisLabel set"
  is_inner :: bool
  is_innermost :: bool
  is_reduce_axis :: bool
  is_reduce_src_last :: bool

definition new_axis :: Axis where
  "new_axis = \<lparr>ax_name = [], gemm_axis = [], dim_axis = 0, ax_range = 0, tile = 1, c1_tiling = 0,
     ax_index = 0, ax_type = {}, is_inner = False, is_innermost = False,
     is_reduce_axis = False, is_reduce_src_last = False\<rparr>"

datatype attributes = Transpose_A | Transpose_B

type_synonym tensor_ptr = nat
type_synonym node_ptr = nat

text \<open>\<open>axis_to_tensor_to_shape_id_map_\<close> maps an axis name to a map from tensors; since
  \<open>Tensor::operator<\<close> is constantly false, such a map holds at most one tensor.\<close>

record Node =
  n_name :: string
  n_op :: OpType
  output_tensors :: "tensor_ptr list"
  input_tensors :: "tensor_ptr list"
  succ :: "node_ptr list"
  pred :: "node_ptr list"
  axis_of_node :: "Axis list"
  transformed_output_shape :: "Tensor list"
  axis_to_tensor_to_shape_id_map :: "(string \<times> (Tensor \<times> int) option) list"
  n_attrs :: "attributes list"

definition new_node :: Node where
  "new_node = \<lparr>n_name = [], n_op = Op_Add, output_tensors = [], input_tensors = [], succ = [], pred = [],
     axis_of_node = [], transformed_output_shape = [], axis_to_tensor_to_shape_id_map = [], n_attrs = []\<rparr>"

record Heap =
  nodes_at :: "node_ptr \<Rightarrow> Node"
  tensors_at :: "tensor_ptr \<Rightarrow> Tensor"
  next_node :: node_ptr
  next_tensor :: tensor_ptr

definition update_node :: "node_ptr \<Rightarrow> (Node \<Rightarrow> Node) \<Rightarrow> Heap \<Rightarrow> Heap" where
  "update_node n f h = h\<lparr>nodes_at := (nodes_at h)(n := f (nodes_at h n))\<rparr>"

definition update_tensor :: "tensor_ptr \<Rightarrow> (Tensor \<Rightarrow> Tensor) \<Rightarrow> Heap \<Rightarrow> Heap" where
  "update_tensor t f h = h\<lparr>tensors_at := (tensors_at h)(t := f (tensors_at h t))\<rparr>"

definition alloc_node :: "Node \<Rightarrow> Heap \<Rightarrow> node_ptr \<times> Heap" where
  "alloc_node v h = (next_node h, h\<lparr>nodes_at := (nodes_at h)(next_node h := v), next_node := next_node h + 1\<rparr>)"

definition alloc_tensor :: "Tensor \<Rightarrow> Heap \<Rightarrow> tensor_ptr \<times> Heap" where
  "alloc_tensor v h =
     (next_tensor h, h\<lparr>tensors_at := (tensors_at h)(next_tensor h := v), next_tensor := next_tensor h + 1\<rparr>)"

abbreviation op_of :: "Heap \<Rightarrow> node_ptr \<Rightarrow> OpType" where
  "op_of h n \<equiv> n_op (nodes_at h n)"

abbreviation name_of :: "Heap \<Rightarrow> node_ptr \<Rightarrow> string" where
  "name_of h n \<equiv> n_name (nodes_at h n)"

definition HasName :: "Node \<Rightarrow> bool" where
  "HasName node \<longleftrightarrow> n_name node \<noteq> []"

definition HasAxis :: "Node \<Rightarrow> Axis \<Rightarrow> bool" where
  "HasAxis node axis \<longleftrightarrow> list_ex (\<lambda>a. dim_axis axis = dim_axis a) (axis_of_node node)"

fun AttrToString :: "attributes \<Rightarrow> string" where
  "AttrToString Transpose_A = ''transpose_a''"
| "AttrToString Transpose_B = ''transpose_b''"

definition in_quotes :: "string \<Rightarrow> string" where
  "in_quotes s = CHR 0x27 # s @ [CHR 0x27]"

text \<open>\<open>str.find(to_find, npos)\<close> is \<open>npos\<close>, so a failed first search fails the second.\<close>

definition AttrIsTrue :: "string \<Rightarrow> string \<Rightarrow> nat \<Rightarrow> bool" where
  "AttrIsTrue to_find str pos =
     (case str_find str to_find pos of None \<Rightarrow> False
      | Some pos \<Rightarrow> str_find str (in_quotes ''value'' @ '': True'') pos \<noteq> None)"

text \<open>Each attribute found is pushed to the front of the list.\<close>

definition push_if :: "bool \<Rightarrow> attributes \<Rightarrow> attributes list \<Rightarrow> attributes list" where
  "push_if b a l = (if b then a # l else l)"

fun FindAttributes_from :: "attributes list \<Rightarrow> string list \<Rightarrow> attributes list" where
  "FindAttributes_from att_l [] = att_l"
| "FindAttributes_from att_l (str # attrs) =
     (let name = in_quotes ''name'' @ '':'' in
      case str_find str name 0 of
        None \<Rightarrow> FindAttributes_from att_l attrs
      | Some pos \<Rightarrow>
         (let pos = pos + length name;
              att_l = push_if (AttrIsTrue (AttrToString Transpose_A) str pos) Transpose_A att_l;
              att_l = push_if (AttrIsTrue (AttrToString Transpose_B) str pos) Transpose_B att_l
          in FindAttributes_from att_l attrs))"

definition FindAttributes :: "string list \<Rightarrow> attributes list" where
  "FindAttributes attrs = FindAttributes_from [] attrs"

definition HasAttr :: "Node \<Rightarrow> string \<Rightarrow> bool" where
  "HasAttr node attr \<longleftrightarrow> list_ex (\<lambda>a.
     attr = ''transpose_a'' \<and> a = Transpose_A \<or> attr = ''transpose_b'' \<and> a = Transpose_B) (n_attrs node)"

end
