(* ===== verification/Hermes_Init_Graph.thy ===== *)
theory Hermes_Init_Graph
  imports Hermes_Graph
begin

text \<open>
  \<open>InitGraph\<close> (\<open>src/src/poly/tiling/hermes/init_graph.h\<close>, \<open>init_graph.cc\<close>): the graph the visitor's
  nodes are put into, with its inputs, its outputs, the removal of nodes that have no name,
  and the category of operator that dominates it.
\<close>

record InitGraph =
  g_name :: string
  g_nodes :: "node_ptr list"
  g_inputs :: "node_ptr list"
  g_outputs :: "node_ptr list"

section \<open>Construction\<close>

definition SetInputNodes :: "Heap \<Rightarrow> InitGraph \<Rightarrow> InitGraph" where
  "SetInputNodes h g =
     g\<lparr>g_inputs := g_inputs g @ filter (\<lambda>n. IsInput (op_of h n)) (g_nodes g)\<rparr>"

definition SetConstantNodes :: "node_ptr list \<Rightarrow> node_ptr list \<Rightarrow> Heap \<Rightarrow> Heap" where
  "SetConstantNodes nodes inputs h =
     fold (\<lambda>n h. if IsInput (op_of h n) \<and> n \<notin> set inputs
                 then update_node n (\<lambda>v. v\<lparr>n_op := Op_Constant\<rparr>) h else h) nodes h"

definition predecessor_names :: "Heap \<Rightarrow> node_ptr list \<Rightarrow> string list" where
  "predecessor_names h nodes = concat (map (\<lambda>n. map (name_of h) (pred (nodes_at h n))) nodes)"

fun add_outputs :: "Heap \<Rightarrow> string list \<Rightarrow> node_ptr list \<Rightarrow> node_ptr list \<Rightarrow> node_ptr list" where
  "add_outputs h names outputs [] = outputs"
| "add_outputs h names outputs (s # succs) =
     (if s \<in> set outputs then add_outputs h names outputs succs
      else if name_of h s \<in> set names then add_outputs h names outputs succs
      else add_outputs h names (outputs @ [s]) succs)"

definition SetOutputNodes :: "Heap \<Rightarrow> InitGraph \<Rightarrow> InitGraph res" where
  "SetOutputNodes h g =
     (let outputs = add_outputs h (predecessor_names h (g_nodes g)) (g_outputs g)
                      (concat (map (\<lambda>n. succ (nodes_at h n)) (g_nodes g)))
      in if outputs = []
         then res_bind (vec_back (g_nodes g)) (\<lambda>n. Ok (g\<lparr>g_outputs := [n]\<rparr>))
         else Ok (g\<lparr>g_outputs := outputs\<rparr>))"

definition make_init_graph :: "Heap \<Rightarrow> node_ptr list \<Rightarrow> (InitGraph \<times> Heap) res" where
  "make_init_graph h check_visitor_nodes =
     (let g = \<lparr>g_name = [], g_nodes = check_visitor_nodes, g_inputs = [], g_outputs = []\<rparr>;
          g = SetInputNodes h g
      in res_bind (SetOutputNodes h g) (\<lambda>g.
         let h = SetConstantNodes (g_nodes g) (g_inputs g) h
         in if g_outputs g \<noteq> [] then Ok (g\<lparr>g_name := name_of h (last (g_outputs g))\<rparr>, h)
            else Ok (g, h)))"

section \<open>Removal of the nodes without a name\<close>

definition IdOfNodeName :: "Heap \<Rightarrow> string \<Rightarrow> node_ptr list \<Rightarrow> nat res" where
  "IdOfNodeName h name nodes =
     (case List.find (\<lambda>i. name_of h (nodes ! i) = name) [0 ..< length nodes] of
        None \<Rightarrow> Err Fatal | Some i \<Rightarrow> Ok i)"

definition UselessInput :: "Heap \<Rightarrow> node_ptr list \<Rightarrow> node_ptr list \<Rightarrow> nat set \<Rightarrow> nat set res" where
  "UselessInput h inputs nodes to_remove =
     for_each (\<lambda>n to_remove.
        if length (succ (nodes_at h n)) = 1 \<and> pred (nodes_at h n) = []
        then res_bind (IdOfNodeName h (name_of h n) nodes) (\<lambda>i. Ok (insert i to_remove))
        else Ok to_remove) inputs to_remove"

text \<open>The two loops run over the vectors of the removed node; the pushes would invalidate
  their iterators if that node were its own neighbour, which is undefined.\<close>

definition relink :: "node_ptr \<Rightarrow> node_ptr \<Rightarrow> node_ptr \<Rightarrow> Heap \<Rightarrow> Heap" where
  "relink zombie inp out h =
     (let h = update_node inp (\<lambda>v. v\<lparr>succ := succ v @ [out]\<rparr>) h;
          h = update_node out (\<lambda>v. v\<lparr>pred := pred v @ [inp]\<rparr>) h;
          h = fold (\<lambda>t h. update_node out (\<lambda>v. v\<lparr>input_tensors := remove1 t (input_tensors v)\<rparr>) h)
                (output_tensors (nodes_at h zombie)) h
      in update_node out (\<lambda>v. v\<lparr>input_tensors := input_tensors v @ output_tensors (nodes_at h inp)\<rparr>) h)"

definition FixGraph :: "node_ptr list \<Rightarrow> nat \<Rightarrow> Heap \<Rightarrow> Heap res" where
  "FixGraph nodes zombie_id h =
     res_bind (vec_at nodes zombie_id) (\<lambda>zombie.
       let ins = pred (nodes_at h zombie); outs = succ (nodes_at h zombie)
       in if zombie \<in> set ins \<and> outs \<noteq> [] \<or> zombie \<in> set outs \<and> ins \<noteq> [] then Err Out_of_bounds
          else Ok (fold (\<lambda>inp. fold (relink zombie inp) outs) ins h))"

definition nameless_step ::
    "node_ptr list \<Rightarrow> nat \<Rightarrow> Heap \<times> nat set \<Rightarrow> (Heap \<times> nat set) res" where
  "nameless_step nodes i s =
     (case s of (h, to_remove) \<Rightarrow>
        if HasName (nodes_at h (nodes ! i)) then Ok (h, to_remove)
        else if RemoveUselessInput (op_of h (nodes ! i))
        then res_bind (UselessInput h (pred (nodes_at h (nodes ! i))) nodes to_remove) (\<lambda>to_remove.
               Ok (h, insert i to_remove))
        else res_bind (FixGraph nodes i h) (\<lambda>h. Ok (h, insert i to_remove)))"

definition erase_at :: "nat \<Rightarrow> 'a list \<Rightarrow> 'a list" where
  "erase_at i xs = take i xs @ drop (Suc i) xs"

definition RemoveNameless :: "Heap \<Rightarrow> InitGraph \<Rightarrow> (InitGraph \<times> Heap) res" where
  "RemoveNameless h g =
     res_bind (for_each (nameless_step (g_nodes g)) [0 ..< length (g_nodes g)] (h, {})) (\<lambda>(h, to_remove).
       Ok (g\<lparr>g_nodes := fold erase_at (rev (sorted_list_of_set to_remove)) (g_nodes g)\<rparr>, h))"

section \<open>The category of the graph\<close>

definition OperatorCategory :: "Heap \<Rightarrow> InitGraph \<Rightarrow> OpCategory" where
  "OperatorCategory h g =
     fold (\<lambda>n result. DominantCategory result (Category (op_of h n))) (g_nodes g) Cat_Input"

section \<open>Lemmas\<close>

lemma update_node_other [simp]: "m \<noteq> n \<Longrightarrow> nodes_at (update_node n f h) m = nodes_at h m"
  by (simp add: update_node_def)

lemma update_node_same [simp]: "nodes_at (update_node n f h) n = f (nodes_at h n)"
  by (simp add: update_node_def)

lemma add_outputs_spec:
  "distinct outs \<Longrightarrow>
     distinct (add_outputs h names outs ss) \<and>
     set (add_outputs h names outs ss) = set outs \<union> {s \<in> set ss. name_of h s \<notin> set names}"
  by (induction ss arbitrary: outs) auto

lemma SetConstantNodes_noop:
  "(\<And>n. n \<in> set nodes \<Longrightarrow> IsInput (op_of h n) \<Longrightarrow> n \<in> set inputs) \<Longrightarrow> SetConstantNodes nodes inputs h = h"
  by (induction nodes) (auto simp: SetConstantNodes_def)

subsection \<open>Erasing by index\<close>

lemma nths_split:
  "i < length xs \<Longrightarrow>
     nths xs A = nths (take i xs) A @ (if i \<in> A then [xs ! i] else []) @ nths (drop (Suc i) xs) {j. j + Suc i \<in> A}"
proof -
  assume i: "i < length xs"
  then have "nths xs A = nths (take i xs @ xs ! i # drop (Suc i) xs) A"
    by (simp add: id_take_nth_drop [symmetric])
  with i show ?thesis by (simp add: nths_append nths_Cons min_def)
qed

lemma nths_all_indices: "(\<And>i. i < length xs \<Longrightarrow> i \<in> A) \<Longrightarrow> nths xs A = xs"
  by (induction xs arbitrary: A) (auto simp: nths_Cons)

lemma nths_cong_indices: "(\<And>i. i < length xs \<Longrightarrow> i \<in> A \<longleftrightarrow> i \<in> B) \<Longrightarrow> nths xs A = nths xs B"
proof (induction xs arbitrary: A B)
  case (Cons x xs)
  have "nths xs {j. Suc j \<in> A} = nths xs {j. Suc j \<in> B}"
    using Cons.prems by (intro Cons.IH) auto
  moreover have "0 \<in> A \<longleftrightarrow> 0 \<in> B" using Cons.prems by auto
  ultimately show ?case by (simp add: nths_Cons)
qed simp

lemma fold_erase_at:
  "sorted_wrt (>) ds \<Longrightarrow> (\<And>d. d \<in> set ds \<Longrightarrow> d < length xs) \<Longrightarrow> fold erase_at ds xs = nths xs (- set ds)"
proof (induction ds arbitrary: xs)
  case Nil
  show ?case by (simp add: nths_all_indices)
next
  case (Cons d ds)
  let ?ys = "erase_at d xs"
  have d: "d < length xs" and below: "\<And>e. e \<in> set ds \<Longrightarrow> e < d"
    using Cons.prems by auto
  have "\<And>e. e \<in> set ds \<Longrightarrow> e < length ?ys"
    using below d by (fastforce simp: erase_at_def)
  then have "fold erase_at ds ?ys = nths ?ys (- set ds)"
    using Cons by simp
  also have "\<dots> = nths (take d xs) (- set ds) @ nths (drop (Suc d) xs) {j. j + d \<in> - set ds}"
    using d by (simp add: erase_at_def nths_append min_def)
  also have "nths (drop (Suc d) xs) {j. j + d \<in> - set ds} = drop (Suc d) xs"
    using below by (intro nths_all_indices) force
  also have "\<dots> = nths (drop (Suc d) xs) {j. j + Suc d \<in> - set (d # ds)}"
    using below by (intro nths_all_indices [symmetric]) force
  also have "nths (take d xs) (- set ds) = nths (take d xs) (- set (d # ds))"
    by (intro nths_cong_indices) auto
  finally show ?case using nths_split [OF d, of "- set (d # ds)"] by simp
qed

lemma erase_indices:
  "R \<subseteq> {..<length xs} \<Longrightarrow> fold erase_at (rev (sorted_list_of_set R)) xs = nths xs (- R)"
  using fold_erase_at [of "rev (sorted_list_of_set R)" xs] finite_subset [of R "{..<length xs}"]
  by (auto simp: sorted_wrt_rev)

subsection \<open>The loop over the nodes\<close>

text \<open>What the loops may change of a node: its links and tensors, not its name or operator.\<close>

definition same_labels :: "Heap \<Rightarrow> Heap \<Rightarrow> bool" where
  "same_labels h h' \<longleftrightarrow> (\<forall>n. name_of h' n = name_of h n \<and> op_of h' n = op_of h n)"

lemma same_labels_refl [simp]: "same_labels h h"
  by (simp add: same_labels_def)

lemma same_labels_trans: "same_labels a b \<Longrightarrow> same_labels b c \<Longrightarrow> same_labels a c"
  by (simp add: same_labels_def)

lemma same_labels_update:
  "(\<And>v. n_name (f v) = n_name v \<and> n_op (f v) = n_op v) \<Longrightarrow> same_labels h (update_node n f h)"
  by (simp add: same_labels_def update_node_def)

lemma same_labels_fold: "(\<And>x h. same_labels h (f x h)) \<Longrightarrow> same_labels h (fold f xs h)"
  by (induction xs arbitrary: h) (auto intro: same_labels_trans)

lemma same_labels_relink: "same_labels h (relink z i k h)"
  unfolding relink_def Let_def
  by (intro same_labels_trans [OF _ same_labels_update] same_labels_trans [OF _ same_labels_fold]
        same_labels_update same_labels_refl) simp_all

lemma same_labels_FixGraph: "FixGraph nodes i h = Ok h' \<Longrightarrow> same_labels h h'"
  by (auto simp: FixGraph_def res_bind_Ok_conv Let_def split: if_splits
      intro!: same_labels_fold same_labels_relink)

lemma IdOfNodeName_bound: "IdOfNodeName h name nodes = Ok i \<Longrightarrow> i < length nodes"
  by (auto simp: IdOfNodeName_def find_Some_iff split: option.splits)

lemma UselessInput_bound:
  assumes "UselessInput h inputs nodes R = Ok R'" "R \<subseteq> {..<length nodes}"
  shows "R \<subseteq> R' \<and> R' \<subseteq> {..<length nodes}"
proof (rule for_each_invariant [OF _ _ assms(1) [unfolded UselessInput_def]])
  fix n S S'
  assume "R \<subseteq> S \<and> S \<subseteq> {..<length nodes}" and
    "(if length (succ (nodes_at h n)) = 1 \<and> pred (nodes_at h n) = []
      then res_bind (IdOfNodeName h (name_of h n) nodes) (\<lambda>i. Ok (insert i S)) else Ok S) = Ok S'"
  then show "R \<subseteq> S' \<and> S' \<subseteq> {..<length nodes}"
    by (auto simp: res_bind_Ok_conv split: if_splits dest: IdOfNodeName_bound)
qed (use assms(2) in simp)

definition nameless :: "Heap \<Rightarrow> node_ptr list \<Rightarrow> nat \<Rightarrow> nat set" where
  "nameless h nodes k = {i. i < k \<and> \<not> HasName (nodes_at h (nodes ! i))}"

lemma HasName_same: "same_labels h h' \<Longrightarrow> HasName (nodes_at h' n) = HasName (nodes_at h n)"
  by (simp add: same_labels_def HasName_def)

lemma nameless_loop:
  assumes "for_each (nameless_step nodes) [0 ..< k] (h, {}) = Ok (h', R)" "k \<le> length nodes"
  shows "same_labels h h' \<and> R \<subseteq> {..<length nodes} \<and> nameless h nodes k \<subseteq> R \<and>
    ((\<forall>n \<in> set nodes. HasName (nodes_at h n) \<or> \<not> RemoveUselessInput (op_of h n)) \<longrightarrow> R = nameless h nodes k)"
  using assms
proof (induction k arbitrary: h' R)
  case 0
  then show ?case by (simp add: nameless_def)
next
  case (Suc k)
  from Suc.prems(1) obtain h1 R1 where before: "for_each (nameless_step nodes) [0 ..< k] (h, {}) = Ok (h1, R1)"
    and step: "nameless_step nodes k (h1, R1) = Ok (h', R)"
    by (auto simp: for_each_append res_bind_Ok_conv)
  note IH = Suc.IH [OF before] and k = Suc.prems(2)
  have same: "same_labels h h1" using IH k by simp
  then have name: "HasName (nodes_at h1 (nodes ! k)) = HasName (nodes_at h (nodes ! k))"
    and op: "op_of h1 (nodes ! k) = op_of h (nodes ! k)"
    by (simp_all add: HasName_same) (simp add: same_labels_def)
  have next_set: "nameless h nodes (Suc k) =
      (if HasName (nodes_at h (nodes ! k)) then nameless h nodes k else insert k (nameless h nodes k))"
    by (auto simp: nameless_def less_Suc_eq)
  consider (named) "HasName (nodes_at h (nodes ! k))"
    | (useless) "\<not> HasName (nodes_at h (nodes ! k))" "RemoveUselessInput (op_of h (nodes ! k))"
    | (relinked) "\<not> HasName (nodes_at h (nodes ! k))" "\<not> RemoveUselessInput (op_of h (nodes ! k))"
    by blast
  then show ?case
  proof cases
    case named
    with step name IH k next_set show ?thesis by (simp add: nameless_step_def)
  next
    case useless
    with step name op obtain R2 where R2: "UselessInput h1 (pred (nodes_at h1 (nodes ! k))) nodes R1 = Ok R2"
      and R: "R = insert k R2" and h': "h' = h1"
      by (auto simp: nameless_step_def res_bind_Ok_conv)
    have "R1 \<subseteq> R2 \<and> R2 \<subseteq> {..<length nodes}"
      using UselessInput_bound [OF R2] IH k by simp
    moreover have "nodes ! k \<in> set nodes" using k by simp
    ultimately show ?thesis using IH k next_set useless R h' by auto
  next
    case relinked
    with step name op obtain h2 where "FixGraph nodes k h1 = Ok h2" "R = insert k R1" "h' = h2"
      by (auto simp: nameless_step_def res_bind_Ok_conv)
    with IH k next_set relinked show ?thesis
      using same_labels_trans [OF same same_labels_FixGraph] by auto
  qed
qed

lemma RemoveNameless_Ok:
  assumes "RemoveNameless h g = Ok (g', h')"
  obtains R where "same_labels h h'" "R \<subseteq> {..<length (g_nodes g)}"
    "nameless h (g_nodes g) (length (g_nodes g)) \<subseteq> R" "g_nodes g' = nths (g_nodes g) (- R)"
    "(\<forall>n \<in> set (g_nodes g). HasName (nodes_at h n) \<or> \<not> RemoveUselessInput (op_of h n)) \<longrightarrow>
       R = nameless h (g_nodes g) (length (g_nodes g))"
proof -
  from assms obtain R where "for_each (nameless_step (g_nodes g)) [0 ..< length (g_nodes g)] (h, {}) = Ok (h', R)"
    and "g_nodes g' = fold erase_at (rev (sorted_list_of_set R)) (g_nodes g)"
    by (auto simp: RemoveNameless_def res_bind_Ok_conv)
  with nameless_loop [OF this(1)] show ?thesis
    using that [of R] erase_indices by auto
qed

subsection \<open>The dominant category\<close>

lemma Priority_fold_Dominant:
  "Priority (fold (\<lambda>n r. DominantCategory r (f n)) ns c) = Max (insert (Priority c) ((\<lambda>n. Priority (f n)) ` set ns))"
proof (induction ns arbitrary: c)
  case (Cons n ns)
  let ?S = "(\<lambda>n. Priority (f n)) ` set ns"
  have "Max (insert (max (Priority c) (Priority (f n))) ?S) = Max (insert (Priority c) (insert (Priority (f n)) ?S))"
    by (cases "?S = {}") (simp_all add: max.assoc)
  with Cons show ?case by (simp add: Priority_Dominant)
qed simp

section \<open>Properties\<close>

text \<open>
  C4: The constructor of the initial graph classifies the nodes: on a non-empty node vector it
  succeeds and leaves every node as it is (the rewriting of inputs into constants never
  applies), the inputs are the input nodes in order, the outputs are without repetition and
  are the successors whose name no node has as a predecessor, or the last node where there is
  no such successor.
\<close>

theorem init_graph_classifies:
  assumes "nodes \<noteq> []"
  shows "\<exists>g. make_init_graph h nodes = Ok (g, h) \<and> g_nodes g = nodes \<and>
    g_inputs g = filter (\<lambda>n. IsInput (op_of h n)) nodes \<and> distinct (g_outputs g) \<and>
    g_name g = name_of h (last (g_outputs g)) \<and>
    (let free = {s. \<exists>n \<in> set nodes. s \<in> set (succ (nodes_at h n)) \<and>
                    (\<forall>m \<in> set nodes. \<forall>p \<in> set (pred (nodes_at h m)). name_of h p \<noteq> name_of h s)}
     in if free = {} then g_outputs g = [last nodes] else set (g_outputs g) = free)"
proof -
  define inputs where "inputs = filter (\<lambda>n. IsInput (op_of h n)) nodes"
  define outs where "outs = add_outputs h (predecessor_names h nodes) [] (concat (map (\<lambda>n. succ (nodes_at h n)) nodes))"
  have "distinct outs" and outs: "set outs = {s. \<exists>n \<in> set nodes. s \<in> set (succ (nodes_at h n)) \<and>
      (\<forall>m \<in> set nodes. \<forall>p \<in> set (pred (nodes_at h m)). name_of h p \<noteq> name_of h s)}"
    using add_outputs_spec [of "[]" h "predecessor_names h nodes" "concat (map (\<lambda>n. succ (nodes_at h n)) nodes)"]
    by (simp_all add: outs_def predecessor_names_def image_iff) (metis (no_types))+
  moreover have "SetConstantNodes nodes inputs h = h"
    by (rule SetConstantNodes_noop) (simp add: inputs_def)
  ultimately show ?thesis using assms
    unfolding Let_def outs [symmetric]
    by (cases "outs = []") (simp_all add: make_init_graph_def SetInputNodes_def SetOutputNodes_def
        outs_def [symmetric] inputs_def [symmetric])
qed

definition sample_heap :: Heap where
  "sample_heap = \<lparr>nodes_at = (\<lambda>_. new_node)(
     0 := new_node\<lparr>n_name := ''x'', n_op := Op_Input, succ := [1]\<rparr>,
     1 := new_node\<lparr>n_name := ''y'', n_op := Op_Exp, pred := [0], succ := [2]\<rparr>,
     2 := new_node\<lparr>n_name := [], n_op := Op_Cast, pred := [1], succ := [3]\<rparr>,
     3 := new_node\<lparr>n_name := ''z'', n_op := Op_ReduceY, pred := [2]\<rparr>),
   tensors_at = (\<lambda>_. new_tensor), next_node = 4, next_tensor = 0\<rparr>"

theorem init_graph_classifies_witness:
  "\<exists>g. make_init_graph sample_heap [0, 1, 2, 3] = Ok (g, sample_heap) \<and> g_inputs g = [0]"
proof -
  obtain g where "make_init_graph sample_heap [0, 1, 2, 3] = Ok (g, sample_heap)"
    and "g_inputs g = filter (\<lambda>n. IsInput (op_of sample_heap n)) [0, 1, 2, 3]"
    using init_graph_classifies [of "[0, 1, 2, 3]" sample_heap] by blast
  then show ?thesis by (simp add: sample_heap_def new_node_def IsInput_def)
qed

text \<open>
  Removing the nameless nodes leaves only nodes that have a name, in their order, and
  changes no name and no operator; where no nameless node is an in-place assignment, exactly
  the nodes with a name remain.
\<close>

theorem remove_nameless_names:
  assumes "RemoveNameless h g = Ok (g', h')"
  shows "(\<forall>n \<in> set (g_nodes g'). HasName (nodes_at h' n)) \<and> subseq (g_nodes g') (g_nodes g) \<and>
    (\<forall>n. name_of h' n = name_of h n \<and> op_of h' n = op_of h n) \<and>
    ((\<forall>n \<in> set (g_nodes g). HasName (nodes_at h n) \<or> op_of h n \<noteq> Op_InplaceAssign) \<longrightarrow>
       g_nodes g' = filter (\<lambda>n. HasName (nodes_at h n)) (g_nodes g))"
proof -
  from assms obtain R where R: "same_labels h h'" "R \<subseteq> {..<length (g_nodes g)}"
      "nameless h (g_nodes g) (length (g_nodes g)) \<subseteq> R" "g_nodes g' = nths (g_nodes g) (- R)"
      "(\<forall>n \<in> set (g_nodes g). HasName (nodes_at h n) \<or> \<not> RemoveUselessInput (op_of h n)) \<longrightarrow>
         R = nameless h (g_nodes g) (length (g_nodes g))"
    by (rule RemoveNameless_Ok)
  have "\<forall>n \<in> set (g_nodes g'). HasName (nodes_at h' n)"
    using R(3,4) HasName_same [OF R(1)] by (auto simp: set_nths nameless_def)
  moreover have "subseq (g_nodes g') (g_nodes g)"
    using R(4) by (auto simp: subseq_conv_nths)
  moreover have "nths (g_nodes g) (- nameless h (g_nodes g) (length (g_nodes g)))
      = filter (\<lambda>n. HasName (nodes_at h n)) (g_nodes g)"
    unfolding filter_eq_nths by (rule nths_cong_indices) (auto simp: nameless_def)
  ultimately show ?thesis
    using R(1,4,5) by (auto simp: same_labels_def RemoveUselessInput_def)
qed

theorem remove_nameless_names_witness:
  "\<exists>g' h'. RemoveNameless sample_heap
      \<lparr>g_name = ''z'', g_nodes = [0, 1, 2, 3], g_inputs = [0], g_outputs = [3]\<rparr> = Ok (g', h') \<and> g_nodes g' = [0, 1, 3]"
proof -
  let ?g = "\<lparr>g_name = ''z'', g_nodes = [0, 1, 2, 3], g_inputs = [0], g_outputs = [3]\<rparr>"
  have "\<exists>r. RemoveNameless sample_heap ?g = Ok r"
    by (simp add: RemoveNameless_def nameless_step_def FixGraph_def sample_heap_def new_node_def
        HasName_def RemoveUselessInput_def Let_def relink_def update_node_def numeral_eq_Suc)
  then obtain g' h' where Ok: "RemoveNameless sample_heap ?g = Ok (g', h')" by auto
  from remove_nameless_names [OF Ok] have "g_nodes g' = [0, 1, 3]"
    by (simp add: sample_heap_def new_node_def HasName_def)
  with Ok show ?thesis by blast
qed

text \<open>
  The category of the graph is the one of highest priority among its operators, so it does
  not depend on the order or the repetition of the nodes.
\<close>

theorem operator_category_dominates:
  "Priority (OperatorCategory h g) =
     Max (insert (Priority Cat_Input) ((\<lambda>n. Priority (Category (op_of h n))) ` set (g_nodes g)))"
  by (simp only: OperatorCategory_def Priority_fold_Dominant)

end
