(* ===== verification/Hermes_Model_Graph.thy ===== *)
theory Hermes_Model_Graph
  imports Hermes_Init_Graph
begin

text \<open>
  \<open>ModelGraph\<close> (\<open>src/src/poly/tiling/hermes/model_graph.h\<close>, \<open>model_graph.cc\<close>): the graph with the
  two scratch nodes a reduction needs, and the critical nodes, whose buffers the vector tiling
  counts. The vector of global axes is the parameter \<open>gav\<close>.
\<close>

record ModelGraph = InitGraph +
  critical_nodes :: "node_ptr list"
  is_activated_double_buffer :: bool

datatype ReduceDirection = RD_UNKNOWN | RD_X | RD_Y | RD_ALL

definition kExtraMemoryCoeffRequiredByAllReduce :: int where
  "kExtraMemoryCoeffRequiredByAllReduce = 16"

definition kExtraMemoryCoeffRequiredByReduceDst :: int where
  "kExtraMemoryCoeffRequiredByReduceDst = 8"

definition kExtraMemoryCoeffRequiredByReduceSrc :: int where
  "kExtraMemoryCoeffRequiredByReduceSrc = 64"

definition kMinShapeSize :: int where
  "kMinShapeSize = 1"

section \<open>Reductions\<close>

fun axes_direction :: "ReduceDirection \<Rightarrow> Axis list \<Rightarrow> ReduceDirection" where
  "axes_direction reduce_type [] = reduce_type"
| "axes_direction reduce_type (axis # axes) =
     axes_direction
       (if \<not> is_inner axis \<and> is_reduce_axis axis
        then (if is_reduce_src_last axis then RD_X else RD_Y) else reduce_type) axes"

definition GetReduceDirection :: "Axis list \<Rightarrow> Heap \<Rightarrow> node_ptr \<Rightarrow> ReduceDirection res" where
  "GetReduceDirection gav h reduce_node =
     (let outs = output_tensors (nodes_at h reduce_node)
      in if length outs = 1 \<and> length (t_shape (tensors_at h (outs ! 0))) = 1 \<and>
            t_shape (tensors_at h (outs ! 0)) ! 0 = 1
         then Ok RD_ALL
         else (let reduce_type = axes_direction RD_UNKNOWN gav
               in if reduce_type = RD_UNKNOWN then Err Fatal else Ok reduce_type))"

definition SetReduceSrcDstNodes ::
    "node_ptr \<Rightarrow> string \<Rightarrow> OpType \<Rightarrow> int \<Rightarrow> Heap \<Rightarrow> (node_ptr \<times> Heap) res" where
  "SetReduceSrcDstNodes reduce_node ending op_type shape_size h =
     (let r = nodes_at h reduce_node in
      res_bind (vec_at (output_tensors r) 0) (\<lambda>t.
        let out = new_tensor\<lparr>t_shape := [shape_size], t_datatype := t_datatype (tensors_at h t),
                             t_format := t_format (tensors_at h t)\<rparr>;
            (out_ptr, h) = alloc_tensor out h;
            transformed = make_tensor [shape_size] (t_datatype (tensors_at h t)) (t_format (tensors_at h t));
            node = new_node\<lparr>n_name := n_name r @ ending, n_op := op_type, output_tensors := [out_ptr],
                            transformed_output_shape := [transformed], input_tensors := input_tensors r,
                            succ := succ r, pred := pred r\<rparr>
        in Ok (alloc_node node h)))"

text \<open>The last node of the vector that is a reduction.\<close>

definition last_reduce :: "Heap \<Rightarrow> node_ptr list \<Rightarrow> node_ptr option" where
  "last_reduce h nodes = List.find (\<lambda>n. IsReduce (op_of h n)) (rev nodes)"

text \<open>The ranges of the axes of dimension 0 and 1, the last one of each.\<close>

fun first_two_ranges :: "int \<times> int \<Rightarrow> Axis list \<Rightarrow> int \<times> int" where
  "first_two_ranges (ax0, ax1) [] = (ax0, ax1)"
| "first_two_ranges (ax0, ax1) (axis # axes) =
     first_two_ranges
       (if dim_axis axis = 0 then (int_of_size (ax_range axis), ax1)
        else if dim_axis axis = 1 then (ax0, int_of_size (ax_range axis)) else (ax0, ax1)) axes"

definition set_first_shape :: "int \<Rightarrow> tensor_ptr \<Rightarrow> Heap \<Rightarrow> Heap" where
  "set_first_shape x = (\<lambda>t. update_tensor t (\<lambda>v. v\<lparr>t_shape := (t_shape v)[0 := x]\<rparr>))"

text \<open>What the branch on the direction does to the reduction node, and the sizes of the two
  scratch buffers.\<close>

definition shape_reduce_node ::
    "ReduceDirection \<Rightarrow> node_ptr \<Rightarrow> int \<times> int \<Rightarrow> Heap \<Rightarrow> (int \<times> int \<times> Heap) res" where
  "shape_reduce_node reduce_type reduce_node ranges h =
     (case ranges of (ax0, ax1) \<Rightarrow>
      if reduce_type = RD_ALL then
        (let h = update_node reduce_node (\<lambda>v. v\<lparr>n_op := Op_AllReduce\<rparr>) h in
         res_bind (vec_at (output_tensors (nodes_at h reduce_node)) 0) (\<lambda>t.
         res_bind (vec_at (t_shape (tensors_at h t)) 0) (\<lambda>_.
         let h = set_first_shape kExtraMemoryCoeffRequiredByReduceDst t h in
         res_bind (vec_at (transformed_output_shape (nodes_at h reduce_node)) 0) (\<lambda>tos.
         let tos = tos\<lparr>t_shape := t_shape tos @ [kExtraMemoryCoeffRequiredByReduceDst]\<rparr>;
             h = update_node reduce_node (\<lambda>v. v\<lparr>transformed_output_shape := (transformed_output_shape v)[0 := tos]\<rparr>) h
         in Ok (kExtraMemoryCoeffRequiredByReduceDst, kExtraMemoryCoeffRequiredByAllReduce, h)))))
      else
        (let op = (if reduce_type = RD_Y then Op_ReduceY else Op_ReduceX);
             h = update_node reduce_node (\<lambda>v. v\<lparr>n_op := op\<rparr>) h in
         res_bind (int_ret (ax0 * kExtraMemoryCoeffRequiredByReduceDst)) (\<lambda>dst_shape_size.
         res_bind (int_ret (ax0 * ax1)) (\<lambda>product.
         res_bind (int_div product kExtraMemoryCoeffRequiredByReduceSrc) (\<lambda>src_shape_size.
           Ok (dst_shape_size, src_shape_size, h))))))"

definition CompleteNodesGeneratedByReduce ::
    "Axis list \<Rightarrow> Heap \<Rightarrow> node_ptr list \<Rightarrow> (node_ptr list \<times> Heap) res" where
  "CompleteNodesGeneratedByReduce gav h nodes =
     (case last_reduce h nodes of
        None \<Rightarrow> Ok (nodes, h)
      | Some reduce_node \<Rightarrow>
         res_bind (GetReduceDirection gav h reduce_node) (\<lambda>reduce_type.
         res_bind (shape_reduce_node reduce_type reduce_node (first_two_ranges (0, 0) gav) h) (\<lambda>(dst_size, src_size, h).
         res_bind (SetReduceSrcDstNodes reduce_node ''_dst_tmp'' Op_ReduceDST dst_size h) (\<lambda>(dst_node, h).
         res_bind (SetReduceSrcDstNodes reduce_node ''_src_tmp'' Op_ReduceSRC src_size h) (\<lambda>(src_node, h).
           let r = nodes_at h reduce_node;
               h = update_node dst_node (\<lambda>v. v\<lparr>axis_of_node := axis_of_node r,
                     axis_to_tensor_to_shape_id_map := axis_to_tensor_to_shape_id_map r\<rparr>) h in
           res_bind (vec_at (pred r) 0) (\<lambda>p.
           let from = (if reduce_type = RD_ALL then r else nodes_at h p);
               h = update_node src_node (\<lambda>v. v\<lparr>axis_of_node := axis_of_node (nodes_at h p),
                     axis_to_tensor_to_shape_id_map := axis_to_tensor_to_shape_id_map from\<rparr>) h
           in Ok (nodes @ [dst_node, src_node], h)))))))"

section \<open>Critical nodes\<close>

definition IsInVector :: "Heap \<Rightarrow> string \<Rightarrow> node_ptr list \<Rightarrow> bool" where
  "IsInVector h name node_vec \<longleftrightarrow> list_ex (\<lambda>n. name = name_of h n) node_vec"

text \<open>\<open>name_.find("input") == 0\<close>.\<close>

definition named_input :: "Heap \<Rightarrow> node_ptr \<Rightarrow> bool" where
  "named_input h n \<longleftrightarrow> prefix ''input'' (name_of h n)"

definition always_critical :: "Heap \<Rightarrow> node_ptr list \<Rightarrow> node_ptr \<Rightarrow> bool" where
  "always_critical h outputs n \<longleftrightarrow>
     op_of h n \<in> {Op_AllReduce, Op_ReduceX, Op_ReduceY, Op_ReduceDST, Op_ReduceSRC} \<or>
     IsInVector h (name_of h n) outputs \<or> length (succ (nodes_at h n)) > 1"

definition prod_out_shape :: "Heap \<Rightarrow> node_ptr \<Rightarrow> int res" where
  "prod_out_shape h n =
     for_each (\<lambda>t prod.
        res_bind (GetShapeProduct (tensors_at h t)) (\<lambda>shape.
        res_bind (GetDataTypeCoef (tensors_at h t)) (\<lambda>coef.
        res_bind (int_ret (shape * coef)) (\<lambda>bytes. int_ret (prod * bytes)))))
       (output_tensors (nodes_at h n)) kMinShapeSize"

text \<open>The critical nodes found so far are kept in reverse, so that \<open>back()\<close> is the head; it is
  never empty, since the first node of the graph is on it from the start.\<close>

definition critical_step :: "Heap \<Rightarrow> node_ptr list \<Rightarrow> node_ptr \<Rightarrow> node_ptr list \<Rightarrow> node_ptr list res" where
  "critical_step h outputs n critical =
     (case critical of
        [] \<Rightarrow> Err Empty_container
      | c # rest \<Rightarrow>
         if named_input h n \<or> named_input h c then Ok (n # critical)
         else if always_critical h outputs n then Ok (n # critical)
         else res_bind (prod_out_shape h n) (\<lambda>curr.
              res_bind (prod_out_shape h c) (\<lambda>last.
                if curr \<ge> last then Ok (n # rest) else Ok critical)))"

definition GetCriticalNodes :: "Heap \<Rightarrow> InitGraph \<Rightarrow> node_ptr list res" where
  "GetCriticalNodes h g =
     (case g_nodes g of
        [] \<Rightarrow> Ok []
      | n # ns \<Rightarrow> res_bind (for_each (critical_step h (g_outputs g)) ns [n]) (\<lambda>critical. Ok (rev critical)))"

definition make_model_graph :: "Axis list \<Rightarrow> Heap \<Rightarrow> InitGraph \<Rightarrow> (ModelGraph \<times> InitGraph \<times> Heap) res" where
  "make_model_graph gav h g =
     res_bind (CompleteNodesGeneratedByReduce gav h (g_nodes g)) (\<lambda>(nodes, h).
       let g = g\<lparr>g_nodes := nodes\<rparr> in
       res_bind (GetCriticalNodes h g) (\<lambda>critical.
         Ok (\<lparr>g_name = g_name g, g_nodes = g_nodes g, g_inputs = g_inputs g, g_outputs = g_outputs g,
              critical_nodes = critical, is_activated_double_buffer = False\<rparr>, g, h)))"

section \<open>The smallest extent of an axis\<close>

text \<open>The inner loop stops at the first axis of a node that improves on the minimum.\<close>

definition min_shape_step ::
    "Heap \<Rightarrow> Axis \<Rightarrow> node_ptr \<Rightarrow> int \<times> int \<Rightarrow> (int \<times> int) res" where
  "min_shape_step h axis n best =
     (case List.find (\<lambda>a. dim_axis a = dim_axis axis \<and> int_of_size (ax_range a) < fst best)
             (axis_of_node (nodes_at h n)) of
        None \<Rightarrow> Ok best
      | Some a \<Rightarrow>
         res_bind (vec_at (output_tensors (nodes_at h n)) 0) (\<lambda>t.
         res_bind (GetDataTypeCoef (tensors_at h t)) (\<lambda>coef. Ok (int_of_size (ax_range a), coef))))"

definition GetMinShapeAndDataCoef :: "Heap \<Rightarrow> node_ptr list \<Rightarrow> Axis \<Rightarrow> (int \<times> int) res" where
  "GetMinShapeAndDataCoef h nodes axis =
     for_each (min_shape_step h axis) nodes (INT32_MAX, INT32_MAX)"

end
