(* ===== verification/Hermes_Cube.thy ===== *)
theory Hermes_Cube
  imports Hermes_Model_Graph
begin

text \<open>
  The tiling of matrix multiplications: \<open>hermes/hardware.h\<close>, \<open>hardware.cc\<close>,
  \<open>hermes/cube_tiling.h\<close>, \<open>cube_tiling.cc\<close> and \<open>TilingAnalyzer::GetLargestDivisor\<close> of
  \<open>tiling/tiling_analyzer.cc\<close>.
\<close>

section \<open>Hardware\<close>

record Hardware =
  num_core :: int
  mem_VC_size :: int
  mem_C1_size :: int
  mem_C0_size :: int
  mem_VC_align :: int
  mem_C1_align :: int
  vblocknum :: int
  vblocksize :: int

definition kNumCore :: int where "kNumCore = 32"
definition kMemVCSize :: int where "kMemVCSize = 262144"
definition kMemC1Size :: int where "kMemC1Size = 1048576"
definition kMemC0Size :: int where "kMemC0Size = 65536"
definition kMemVCAlign :: int where "kMemVCAlign = 32"
definition kMemC1Align :: int where "kMemC1Align = 512"
definition kVBlockNum :: int where "kVBlockNum = 8"
definition kVBlockSize :: int where "kVBlockSize = 32"

text \<open>The constructor. The counter of failed allocations is a static member; shifting 1 by 32
  or more places, or into the sign bit, is undefined.\<close>

definition make_hardware ::
    "int \<Rightarrow> int \<Rightarrow> int \<Rightarrow> int \<Rightarrow> int \<Rightarrow> int \<Rightarrow> int \<Rightarrow> int \<Rightarrow> int \<Rightarrow> Hardware res" where
  "make_hardware mem_VC_alloc_failed nc vc c1 c0 vc_align c1_align bnum bsize =
     res_bind (if 0 \<le> mem_VC_alloc_failed \<and> mem_VC_alloc_failed < 31 then Ok () else Err Signed_overflow) (\<lambda>_.
     res_bind (int_div vc (2 ^ nat mem_VC_alloc_failed)) (\<lambda>vc.
       Ok \<lparr>num_core = nc, mem_VC_size = vc, mem_C1_size = c1, mem_C0_size = c0,
           mem_VC_align = vc_align, mem_C1_align = c1_align, vblocknum = bnum, vblocksize = bsize\<rparr>))"

definition HasVCFail :: "string \<Rightarrow> bool" where
  "HasVCFail allocation_error_buf \<longleftrightarrow> allocation_error_buf = ''local.UB''"

definition AddVCFailCounter :: "int \<Rightarrow> int res" where
  "AddVCFailCounter mem_VC_alloc_failed = int_ret (mem_VC_alloc_failed + 1)"

definition ResetVCFailCounter :: int where
  "ResetVCFailCounter = 0"

section \<open>The largest divisor\<close>

text \<open>\<open>for (auto div = init; div <= end; ++div)\<close>: the first divisor in the interval.\<close>

definition first_divisor :: "int \<Rightarrow> int \<Rightarrow> int \<Rightarrow> int option" where
  "first_divisor rng start stop = List.find (\<lambda>d. rng mod d = 0) [start .. stop]"

definition GetLargestDivisor :: "int \<Rightarrow> int \<Rightarrow> int res" where
  "GetLargestDivisor limit rng =
     res_bind (CHECK (rng > 0 \<and> limit > 0)) (\<lambda>_.
     if rng \<le> limit then Ok rng
     else res_bind (int64_ret (rng - 1 + limit)) (\<lambda>sum.
          res_bind (int64_div sum limit) (\<lambda>exp.
          let start = (if exp > 2 then exp else 2) in
          res_bind (trunc_sqrt rng) (\<lambda>root.
          let stop = (if root \<le> start then rng else root) in
          case first_divisor rng start stop of
            Some d \<Rightarrow> int64_div rng d
          | None \<Rightarrow> Ok 1))))"

section \<open>Memory for the vector unit\<close>

definition kC1DataSizePerBatch :: int where "kC1DataSizePerBatch = 512"
definition kC0DataSizePerBatch :: int where "kC0DataSizePerBatch = 512"
definition kVCDataSizePerBatch :: int where "kVCDataSizePerBatch = 1024"
definition kLargeTensorSize :: int where "kLargeTensorSize = 219360"
definition kCubeDefaultTiling :: int where "kCubeDefaultTiling = 16"
definition kMinNumOfUsedCores :: int where "kMinNumOfUsedCores = 32"
definition kByTwo :: int where "kByTwo = 2"

definition is_matmul :: "OpType \<Rightarrow> bool" where
  "is_matmul op \<longleftrightarrow> op = Op_MatMul \<or> op = Op_BatchMatMul"

definition HasElemwiseMultiPredInputOps :: "Heap \<Rightarrow> node_ptr list \<Rightarrow> bool" where
  "HasElemwiseMultiPredInputOps h nodes \<longleftrightarrow>
     list_ex (\<lambda>n. \<not> is_matmul (op_of h n) \<and> op_of h n \<noteq> Op_Input \<and> length (pred (nodes_at h n)) > 1 \<and>
       length (filter (\<lambda>p. op_of h p = Op_Input) (pred (nodes_at h n))) > 1) nodes"

text \<open>One predecessor of a node that is no matrix multiplication: \<open>Some True\<close> when the function
  returns at it. The shapes are compared only when the numbers of axes agree.\<close>

definition pred_not_reused :: "Heap \<Rightarrow> node_ptr \<Rightarrow> node_ptr \<Rightarrow> bool res" where
  "pred_not_reused h n p =
     (if length (axis_of_node (nodes_at h p)) = length (axis_of_node (nodes_at h n))
      then res_bind (vec_at (output_tensors (nodes_at h p)) 0) (\<lambda>tp.
           res_bind (vec_at (output_tensors (nodes_at h n)) 0) (\<lambda>tn.
             Ok (t_shape (tensors_at h tp) \<noteq> t_shape (tensors_at h tn))))
      else Ok (op_of h n \<noteq> Op_Input \<and> op_of h p \<noteq> Op_Input))"

fun any_res :: "('a \<Rightarrow> bool res) \<Rightarrow> 'a list \<Rightarrow> bool res" where
  "any_res f [] = Ok False"
| "any_res f (x # xs) = res_bind (f x) (\<lambda>b. if b then Ok True else any_res f xs)"

definition node_not_reused :: "Heap \<Rightarrow> node_ptr \<Rightarrow> bool res" where
  "node_not_reused h n =
     res_bind (if is_matmul (op_of h n) then Ok False
               else any_res (pred_not_reused h n) (pred (nodes_at h n))) (\<lambda>b.
     Ok (b \<or> op_of h n = Op_TransData \<or> length (succ (nodes_at h n)) > 1 \<or>
         op_of h n = Op_Cast \<and> succ (nodes_at h n) \<noteq> []))"

definition IsNotReused :: "Heap \<Rightarrow> node_ptr list \<Rightarrow> bool res" where
  "IsNotReused h nodes =
     (let is_not_reused = HasElemwiseMultiPredInputOps h nodes
      in res_bind (any_res (node_not_reused h) nodes) (\<lambda>b. Ok (b \<or> is_not_reused)))"

definition halve_if :: "bool \<Rightarrow> int \<Rightarrow> int res" where
  "halve_if b avail = (if b then int_div avail kByTwo else Ok avail)"

definition GetAvailableMemVCSize :: "Heap \<Rightarrow> node_ptr list \<Rightarrow> int \<Rightarrow> int res" where
  "GetAvailableMemVCSize h nodes mem_VC =
     res_bind (IsNotReused h nodes) (\<lambda>is_not_reused.
     let is_elementwise_op = list_ex (\<lambda>n. \<not> is_matmul (op_of h n) \<and> length (pred (nodes_at h n)) > 1) nodes;
         is_select_op = list_ex (\<lambda>n. op_of h n = Op_Select) nodes
     in res_bind (int_div mem_VC kVCDataSizePerBatch) (\<lambda>avail.
        res_bind (halve_if is_elementwise_op avail) (\<lambda>avail.
        res_bind (halve_if is_not_reused avail) (\<lambda>avail.
        halve_if is_select_op avail))))"

section \<open>Tiles of the axes of a matrix multiplication\<close>

text \<open>\<open>while (power_of_two < first_tiling) power_of_two *= kByTwo;\<close> started at a positive value.\<close>

function pow2_at_least :: "int \<Rightarrow> int \<Rightarrow> int res" where
  "pow2_at_least power_of_two first_tiling =
     (if power_of_two \<le> 0 then Err Out_of_fuel
      else if power_of_two < first_tiling
      then res_bind (int_ret (power_of_two * kByTwo)) (\<lambda>p. pow2_at_least p first_tiling)
      else Ok power_of_two)"
  by pat_completeness auto
termination
  by (relation "measure (\<lambda>(p, n). nat (n - p))") (auto simp: kByTwo_def)

declare pow2_at_least.simps [simp del]

definition GetMatmulAxisNTiling :: "Heap \<Rightarrow> Axis \<Rightarrow> node_ptr list \<Rightarrow> int \<Rightarrow> int res" where
  "GetMatmulAxisNTiling h axis nodes mem_VC =
     res_bind (GetAvailableMemVCSize h nodes mem_VC) (\<lambda>available_mem_VC_size.
     res_bind (round_sqrt available_mem_VC_size) (\<lambda>first_tiling.
     res_bind (pow2_at_least 1 first_tiling) (\<lambda>first_tiling.
     res_bind (size_mod (ax_range axis) (size_of_int first_tiling)) (\<lambda>r.
     if r = 0 then Ok first_tiling
     else res_bind (GetLargestDivisor first_tiling (int64_of_size (ax_range axis))) (\<lambda>d.
            Ok (int_of_int64 d))))))"

text \<open>\<open>remaining_core % axis_size\<close> converts \<open>remaining_core\<close> to \<open>size_t\<close>, and so does
  \<open>axis_size % i\<close> with \<open>i\<close>.\<close>

definition GetMulticoreFromAxis :: "int \<Rightarrow> 64 word \<Rightarrow> int" where
  "GetMulticoreFromAxis remaining_core axis_size =
     (if axis_size > 0 \<and> size_of_int remaining_core mod axis_size = 0 then int_of_size axis_size
      else case List.find (\<lambda>i. remaining_core mod i = 0 \<and> axis_size mod size_of_int i = 0)
                  (rev [1 .. remaining_core]) of
             Some i \<Rightarrow> i
           | None \<Rightarrow> 1)"

definition has_type :: "AxisLabel \<Rightarrow> Axis \<Rightarrow> bool" where
  "has_type label axis \<longleftrightarrow> label \<in> ax_type axis"

text \<open>The cores used on the batch axes, and then on the N axis.\<close>

definition batch_cores :: "int \<Rightarrow> Axis list \<Rightarrow> int \<Rightarrow> int res" where
  "batch_cores nc = for_each (\<lambda>axis core_used.
     if has_type kMatMulAxisBatch axis
     then res_bind (int_div nc core_used) (\<lambda>rest. int_ret (core_used * GetMulticoreFromAxis rest (ax_range axis)))
     else Ok core_used)"

definition GetMatmulAxisMTiling :: "Axis list \<Rightarrow> Heap \<Rightarrow> Axis \<Rightarrow> ModelGraph \<Rightarrow> Hardware \<Rightarrow> int res" where
  "GetMatmulAxisMTiling gav h axis model_graph hardware =
     res_bind (GetAvailableMemVCSize h (g_nodes model_graph) (mem_VC_size hardware)) (\<lambda>available_mem_VC_size.
     let (N_axis_range, N_axis_tiling) =
           (case List.find (has_type kMatMulAxisN) gav of
              None \<Rightarrow> (1, 1) | Some a \<Rightarrow> (ax_range a, tile a))
     in res_bind (batch_cores (num_core hardware) gav 1) (\<lambda>core_used.
     res_bind (if core_used < kMinNumOfUsedCores
               then res_bind (int_div (num_core hardware) core_used) (\<lambda>rest.
                    res_bind (size_div N_axis_range (size_of_int N_axis_tiling)) (\<lambda>n.
                      int_ret (core_used * GetMulticoreFromAxis rest n)))
               else Ok core_used) (\<lambda>core_used.
     res_bind (int_div available_mem_VC_size N_axis_tiling) (\<lambda>available_M_axis_tiling.
     res_bind (int_div (num_core hardware) core_used) (\<lambda>rest.
     res_bind (size_mod (ax_range axis) (size_of_int rest)) (\<lambda>r.
     res_bind (if r = 0
               then res_bind (size_div (ax_range axis) (size_of_int rest)) (\<lambda>q.
                      GetLargestDivisor available_M_axis_tiling (int64_of_size q))
               else GetLargestDivisor available_M_axis_tiling (int64_of_size (ax_range axis))) (\<lambda>d.
       Ok (int_of_int64 d))))))))"

text \<open>The tile and the range of the last N axis and of the last M axis.\<close>

fun N_and_M_axis :: "(int \<times> 64 word) \<times> (int \<times> 64 word) \<Rightarrow> Axis list \<Rightarrow> (int \<times> 64 word) \<times> (int \<times> 64 word)" where
  "N_and_M_axis (n, m) [] = (n, m)"
| "N_and_M_axis (n, m) (a # as) =
     N_and_M_axis (if has_type kMatMulAxisN a then (tile a, ax_range a) else n,
                   if has_type kMatMulAxisM a then (tile a, ax_range a) else m) as"

text \<open>The largest tile the memory of the cube unit allows along the larger of the two.\<close>

definition K_limit :: "Hardware \<Rightarrow> int \<Rightarrow> int \<Rightarrow> int res" where
  "K_limit hardware N_axis_tiling M_axis_tiling =
     res_bind (int_div (mem_C0_size hardware) kC0DataSizePerBatch) (\<lambda>available_mem_C0_size.
     if N_axis_tiling \<ge> M_axis_tiling then int_div available_mem_C0_size N_axis_tiling
     else int_div available_mem_C0_size M_axis_tiling)"

text \<open>Half the tile, for double buffering of tensors that are not large.\<close>

definition double_buffer_tile :: "ModelGraph \<Rightarrow> 64 word \<Rightarrow> int \<Rightarrow> int res" where
  "double_buffer_tile model_graph largest_tensor_size K_axis_tiling =
     (if is_activated_double_buffer model_graph \<and> largest_tensor_size < size_of_int kLargeTensorSize \<and>
         K_axis_tiling mod kByTwo = 0
      then int_div K_axis_tiling kByTwo else Ok K_axis_tiling)"

text \<open>The second-level tile of the axis, for large tensors.\<close>

definition second_level_tile :: "Hardware \<Rightarrow> int \<Rightarrow> int \<Rightarrow> Axis \<Rightarrow> int res" where
  "second_level_tile hardware N_axis_tiling M_axis_tiling axis =
     res_bind (int_div (mem_C1_size hardware) kC1DataSizePerBatch) (\<lambda>avail.
     res_bind (int_ret (N_axis_tiling + M_axis_tiling)) (\<lambda>sum.
     res_bind (int_div avail sum) (\<lambda>available_mem_C1_size.
     res_bind (GetLargestDivisor available_mem_C1_size (int64_of_size (ax_range axis))) (\<lambda>d.
       Ok (int_of_int64 d)))))"

definition GetMatmulAxisKTiling :: "Axis list \<Rightarrow> Axis \<Rightarrow> ModelGraph \<Rightarrow> Hardware \<Rightarrow> (int \<times> Axis) res" where
  "GetMatmulAxisKTiling gav axis model_graph hardware =
     (case N_and_M_axis ((1, 1), (1, 1)) gav of ((N_axis_tiling, N_axis_range), (M_axis_tiling, M_axis_range)) \<Rightarrow>
      res_bind (K_limit hardware N_axis_tiling M_axis_tiling) (\<lambda>limit.
      res_bind (GetLargestDivisor limit (int64_of_size (ax_range axis))) (\<lambda>d.
      res_bind (double_buffer_tile model_graph
                 (if N_axis_range \<ge> M_axis_range then N_axis_range * ax_range axis else M_axis_range * ax_range axis)
                 (int_of_int64 d)) (\<lambda>K_axis_tiling.
         if N_axis_range * M_axis_range \<ge> size_of_int kLargeTensorSize
         then res_bind (second_level_tile hardware N_axis_tiling M_axis_tiling axis) (\<lambda>c1.
                Ok (K_axis_tiling, axis\<lparr>c1_tiling := c1\<rparr>))
         else Ok (K_axis_tiling, axis)))))"

end
