(* ===== verification/Cxx_Float32.thy ===== *)
theory Cxx_Float32
  imports Cxx_Int Complex_Main "HOL-Library.Log_Nat"
begin

text \<open>
  The \<open>float\<close> arithmetic of the vector tiling. A finite binary32 value is the rational number
  it denotes; every operation rounds the exact result to a significand of 24 bits, ties to
  even. Results that overflow the format, or fall below its normal range, are \<open>Inexact\<close>: the
  model stops there. Expressions are evaluated in \<open>float\<close>, one rounding per operation, as on
  x86-64 without contraction of products and sums.
\<close>

type_synonym float32 = rat

definition round_half_even :: "rat \<Rightarrow> int" where
  "round_half_even y =
     (let f = \<lfloor>y\<rfloor>; d = y - of_int f
      in if d < 1 / 2 then f else if d > 1 / 2 then f + 1 else if even f then f else f + 1)"

definition pow2 :: "int \<Rightarrow> rat" where
  "pow2 e = (if 0 \<le> e then 2 ^ nat e else 1 / 2 ^ nat (- e))"

text \<open>The exponent of the unit in the last place of a positive rational \<open>p / q\<close>.\<close>

definition ulp_exponent :: "int \<Rightarrow> int \<Rightarrow> int" where
  "ulp_exponent p q =
     (let e = int (floorlog 2 (nat p)) - int (floorlog 2 (nat q)) - 24
      in if pow2 24 \<le> of_int p / of_int q / pow2 e then e + 1 else e)"

definition round_pos :: "rat \<Rightarrow> rat res" where
  "round_pos x =
     (case quotient_of x of (p, q) \<Rightarrow>
        let e = ulp_exponent p q; y = of_int (round_half_even (x / pow2 e)) * pow2 e
        in if x < pow2 (- 126) \<or> y \<ge> pow2 128 then Err Inexact else Ok y)"

definition round32 :: "rat \<Rightarrow> float32 res" where
  "round32 x =
     (if x = 0 then Ok 0
      else if 0 < x then round_pos x else res_bind (round_pos (- x)) (\<lambda>y. Ok (- y)))"

definition f_of_int :: "int \<Rightarrow> float32 res" where
  "f_of_int i = round32 (of_int i)"

definition f_mul :: "float32 \<Rightarrow> float32 \<Rightarrow> float32 res" where
  "f_mul a b = round32 (a * b)"

definition f_add :: "float32 \<Rightarrow> float32 \<Rightarrow> float32 res" where
  "f_add a b = round32 (a + b)"

text \<open>Division by zero yields an infinity or a NaN, which the conversions that follow it in the
  sources cannot represent.\<close>

definition f_div :: "float32 \<Rightarrow> float32 \<Rightarrow> float32 res" where
  "f_div a b = (if b = 0 then Err Bad_cast else round32 (a / b))"

text \<open>\<open>static_cast<int>\<close> truncates; \<open>std::round\<close> rounds halves away from zero.\<close>

definition int_of_f :: "float32 \<Rightarrow> int res" where
  "int_of_f x =
     (let t = (if 0 \<le> x then \<lfloor>x\<rfloor> else - \<lfloor>- x\<rfloor>) in if in_int t then Ok t else Err Bad_cast)"

definition round_to_int :: "float32 \<Rightarrow> int res" where
  "round_to_int x =
     (let t = (if 0 \<le> x then \<lfloor>x + 1 / 2\<rfloor> else - \<lfloor>- x + 1 / 2\<rfloor>) in if in_int t then Ok t else Err Bad_cast)"

end
