(* ===== verification/Hermes_Vector.thy ===== *)
theory Hermes_Vector
  imports Hermes_Cube Cxx_Float32
begin

text \<open>
  The tiling of the axes that are vectorised (\<open>src/src/poly/tiling/hermes/vec_tiling.h\<close>,
  \<open>vec_tiling.cc\<close>, and \<open>Get2PowerBelow\<close> of \<open>utils.cc\<close>). The functions read the vector of
  global axes \<open>gav\<close>, and some change tiles of other axes in it; they return the new vector.
\<close>

section \<open>Powers of two\<close>

text \<open>\<open>for (int i = 1; i < n; i *= twice) result = i;\<close>, where the last product overflows when
  \<open>n\<close> exceeds \<open>2 ^ 30\<close>.\<close>

function pow2_below :: "int \<Rightarrow> int \<Rightarrow> int \<Rightarrow> int res" where
  "pow2_below i n result =
     (if i \<le> 0 then Err Out_of_fuel
      else if i < n then res_bind (int_ret (i * kByTwo)) (\<lambda>i'. pow2_below i' n i) else Ok result)"
  by pat_completeness auto
termination
  by (relation "measure (\<lambda>(i, n, r). nat (n - i))") (auto simp: kByTwo_def)

declare pow2_below.simps [simp del]

definition Get2PowerBelow :: "int \<Rightarrow> int res" where
  "Get2PowerBelow n = pow2_below 1 n n"

definition is_pow2_or_0 :: "int \<Rightarrow> bool res" where
  "is_pow2_or_0 x = res_bind (int_ret (x - 1)) (\<lambda>y. Ok (and x y = 0))"

definition to_pow2 :: "int \<Rightarrow> int res" where
  "to_pow2 x = res_bind (is_pow2_or_0 x) (\<lambda>b. if b then Ok x else Get2PowerBelow x)"

section \<open>Buffers\<close>

definition kExtraMemoryCoeffForAllReduce :: int where "kExtraMemoryCoeffForAllReduce = 16"
definition kExtraMemoryCoeffForReduceDst :: int where "kExtraMemoryCoeffForReduceDst = 8"
definition kExtraMemoryCoeffForReduceSrc :: int where "kExtraMemoryCoeffForReduceSrc = 64"
definition kVectorizationGranularity :: int where "kVectorizationGranularity = 128"
definition kSecondAxis :: int where "kSecondAxis = 2"

text \<open>The \<open>float\<close> next to 0.9.\<close>

definition kMaxAllowedAllocPercentage :: float32 where
  "kMaxAllowedAllocPercentage = 15099494 / 16777216"

fun last_dim_from :: "64 word \<Rightarrow> Axis list \<Rightarrow> 64 word" where
  "last_dim_from last_dim_axis (a # b # axes) =
     (if is_inner a then last_dim_from (dim_axis b) (b # axes) else last_dim_axis)"
| "last_dim_from last_dim_axis axes = last_dim_axis"

definition GetLastDimAxis :: "Axis list \<Rightarrow> 64 word res" where
  "GetLastDimAxis gav = res_bind (vec_back gav) (\<lambda>a. Ok (last_dim_from (dim_axis a) (rev gav)))"

definition GetNewAlignMissFactor :: "64 word \<Rightarrow> Axis \<Rightarrow> Axis list \<Rightarrow> int \<Rightarrow> 64 word res" where
  "GetNewAlignMissFactor curr_align_miss_factor critical_node_axis gav min_to_align =
     for_each (\<lambda>axis align_miss_factor.
        if dim_axis critical_node_axis = dim_axis axis \<and> ax_range critical_node_axis = ax_range axis \<and> is_inner axis
        then res_bind (size_div (size_of_int min_to_align) (ax_range critical_node_axis)) (\<lambda>q.
               Ok (max align_miss_factor q))
        else Ok align_miss_factor) gav curr_align_miss_factor"

definition GetTileAndMulticoreAxisSizes ::
    "Axis \<Rightarrow> Axis \<Rightarrow> Axis list \<Rightarrow> float32 \<times> float32 \<Rightarrow> (float32 \<times> float32) res" where
  "GetTileAndMulticoreAxisSizes current_axis critical_node_axis gav =
     for_each (\<lambda>axis (tile_size, tile_multicore_axis_size).
        if dim_axis critical_node_axis = dim_axis axis
        then res_bind (f_of_int (tile axis)) (\<lambda>t.
             res_bind (f_mul tile_size t) (\<lambda>tile_size.
             res_bind (if dim_axis axis > dim_axis current_axis then round32 (of_int (uint (ax_range axis))) else Ok t) (\<lambda>f.
             res_bind (f_mul tile_multicore_axis_size f) (\<lambda>tile_multicore_axis_size.
               Ok (tile_size, tile_multicore_axis_size)))))
        else Ok (tile_size, tile_multicore_axis_size)) gav"

record Buffers =
  avail :: int
  min_avail :: int
  buffer_coef :: float32
  max_buf_coef :: float32

definition scale_pair :: "(float32 \<Rightarrow> float32 res) \<Rightarrow> float32 \<times> float32 \<Rightarrow> (float32 \<times> float32) res" where
  "scale_pair f p = (case p of (a, b) \<Rightarrow> res_bind (f a) (\<lambda>a. res_bind (f b) (\<lambda>b. Ok (a, b))))"

text \<open>A critical node that has the axis adds to the coefficients of the buffer.\<close>

definition count_axis_node ::
    "Axis list \<Rightarrow> Heap \<Rightarrow> Axis \<Rightarrow> float32 \<Rightarrow> int \<Rightarrow> node_ptr \<Rightarrow> Buffers \<Rightarrow> Buffers res" where
  "count_axis_node gav h axis coeff min_to_align c_node b =
     res_bind (for_each (\<lambda>c_axis (align_miss_factor, sizes).
         res_bind (GetNewAlignMissFactor align_miss_factor c_axis gav min_to_align) (\<lambda>align_miss_factor.
         res_bind (if dim_axis c_axis \<noteq> dim_axis axis
                   then GetTileAndMulticoreAxisSizes axis c_axis gav sizes else Ok sizes) (\<lambda>sizes.
           Ok (align_miss_factor, sizes))))
       (axis_of_node (nodes_at h c_node)) (1, (1, 1))) (\<lambda>(align_miss_factor, sizes).
     res_bind (if op_of h c_node = Op_ReduceSRC
               then scale_pair (\<lambda>x. f_div x (of_int kExtraMemoryCoeffForReduceSrc)) sizes else Ok sizes) (\<lambda>sizes.
     res_bind (round32 (of_int (uint align_miss_factor))) (\<lambda>align.
     res_bind (scale_pair (\<lambda>x. res_bind (f_mul x coeff) (\<lambda>y. f_mul y align)) sizes) (\<lambda>(dx, dm).
     res_bind (f_add (buffer_coef b) dx) (\<lambda>bc.
     res_bind (f_add (max_buf_coef b) dm) (\<lambda>mc.
       Ok (b\<lparr>buffer_coef := bc, max_buf_coef := mc\<rparr>)))))))"

text \<open>One that does not have it takes its buffer away from the memory.\<close>

definition count_other_node ::
    "Axis list \<Rightarrow> Heap \<Rightarrow> Axis \<Rightarrow> float32 \<Rightarrow> node_ptr \<Rightarrow> Buffers \<Rightarrow> Buffers res" where
  "count_other_node gav h axis coeff c_node b =
     res_bind (for_each (\<lambda>c_axis. GetTileAndMulticoreAxisSizes axis c_axis gav)
       (axis_of_node (nodes_at h c_node)) (1, 1)) (\<lambda>sizes.
     res_bind (if op_of h c_node = Op_ReduceDST
               then scale_pair (\<lambda>x. f_mul x (of_int kExtraMemoryCoeffForReduceDst)) sizes else Ok sizes) (\<lambda>sizes.
     res_bind (scale_pair (\<lambda>x. f_mul x coeff) sizes) (\<lambda>(dx, dm).
     res_bind (round_to_int dm) (\<lambda>m.
     res_bind (int_ret (min_avail b - m)) (\<lambda>min_av.
     res_bind (round_to_int dx) (\<lambda>a.
     res_bind (int_ret (avail b - a)) (\<lambda>av.
       Ok (b\<lparr>avail := av, min_avail := min_av\<rparr>))))))))"

definition count_node ::
    "Axis list \<Rightarrow> Heap \<Rightarrow> Axis \<Rightarrow> int \<Rightarrow> node_ptr \<Rightarrow> Buffers \<Rightarrow> Buffers res" where
  "count_node gav h axis vc_align c_node b =
     (if op_of h c_node = Op_AllReduce
      then res_bind (int_ret (avail b - (kByTwo * kExtraMemoryCoeffForReduceDst - kExtraMemoryCoeffForAllReduce))) (\<lambda>av.
             Ok (b\<lparr>avail := av\<rparr>))
      else res_bind (vec_at (transformed_output_shape (nodes_at h c_node)) 0) (\<lambda>t.
           res_bind (GetDataTypeCoef t) (\<lambda>c.
           res_bind (f_of_int c) (\<lambda>coeff.
           res_bind (f_of_int vc_align) (\<lambda>al.
           res_bind (f_div al coeff) (\<lambda>quot.
           res_bind (int_of_f quot) (\<lambda>min_to_align.
             if HasAxis (nodes_at h c_node) axis
             then count_axis_node gav h axis coeff min_to_align c_node b
             else count_other_node gav h axis coeff c_node b)))))))"

definition GetMaxAllocAndUpperBoundBuffer ::
    "Axis list \<Rightarrow> Heap \<Rightarrow> int \<Rightarrow> int \<Rightarrow> Axis \<Rightarrow> node_ptr list \<Rightarrow> (int \<times> int) res" where
  "GetMaxAllocAndUpperBoundBuffer gav h vc_size vc_align axis critical =
     res_bind (for_each (count_node gav h axis vc_align) critical
        \<lparr>avail = vc_size, min_avail = vc_size, buffer_coef = 0, max_buf_coef = 0\<rparr>) (\<lambda>b.
     let (bc, mc) = (if buffer_coef b \<le> 0 then (1, 1) else (buffer_coef b, max_buf_coef b)) in
     res_bind (f_of_int (avail b)) (\<lambda>fa.
     res_bind (f_div fa bc) (\<lambda>qa.
     res_bind (int_of_f qa) (\<lambda>alloc.
     res_bind (f_of_int (min_avail b)) (\<lambda>fm.
     res_bind (f_div fm mc) (\<lambda>qm.
     res_bind (int_of_f qm) (\<lambda>upper.
       Ok (max 1 alloc, max 1 upper))))))))"

section \<open>Tiles of the multicore axes\<close>

definition GetTileFromRemainingVecGranularity :: "Axis \<Rightarrow> int \<Rightarrow> int \<Rightarrow> int res" where
  "GetTileFromRemainingVecGranularity global_axis data_coef axis_result =
     res_bind (if data_coef > 0 \<and> axis_result > 0
               then res_bind (int_div kVectorizationGranularity data_coef) (\<lambda>q. int_div q axis_result)
               else Ok 0) (\<lambda>rem.
     res_bind (to_pow2 rem) (\<lambda>rem.
     let rem = (if rem < 1 then 1 else rem) in
     res_bind (size_div (ax_range global_axis) (size_of_int (tile global_axis))) (\<lambda>q.
     res_bind (size_div q (size_of_int kNumCore)) (\<lambda>q.
     res_bind (size_div q (size_of_int rem)) (\<lambda>q.
       if q > 1 then int_ret (tile global_axis * rem) else Ok (tile global_axis))))))"

text \<open>The condition under which the loop over \<open>i\<close> passes on to the next candidate.\<close>

definition skip_factor :: "Axis \<Rightarrow> int \<Rightarrow> int \<Rightarrow> int \<Rightarrow> bool res" where
  "skip_factor axis available_tiling nc i =
     (if available_tiling > nc
      then res_bind (if has_type kMultiCore axis
                     then res_bind (int_div available_tiling nc) (\<lambda>q. Ok (q < i)) else Ok False) (\<lambda>a.
           if a then Ok True
           else res_bind (int_ret (i * tile axis)) (\<lambda>t.
                res_bind (size_mod (ax_range axis) (size_of_int t)) (\<lambda>r.
                if r \<noteq> 0 then Ok True
                else res_bind (int_mod t nc) (\<lambda>r. Ok (r \<noteq> 0)))))
      else Ok False)"

text \<open>The loop over the factors \<open>i\<close> of one axis, the axis at index \<open>k\<close> of the vector; it returns the
  vector and the tiling that remains. \<open>alloc\<close> is the largest buffer for a vector of axes.\<close>

fun grow_tile ::
    "(Axis list \<Rightarrow> int res) \<Rightarrow> int \<Rightarrow> int \<Rightarrow> nat \<Rightarrow> int \<Rightarrow> int list \<Rightarrow> Axis list \<times> int \<Rightarrow> (Axis list \<times> int) res" where
  "grow_tile alloc nc axis_result k available_tiling [] s = Ok s"
| "grow_tile alloc nc axis_result k available_tiling (i # is) s =
     (case s of (gav, remaining_tiling) \<Rightarrow>
      res_bind (int_mod available_tiling i) (\<lambda>r.
      if r \<noteq> 0 then grow_tile alloc nc axis_result k available_tiling is s
      else
      res_bind (skip_factor (gav ! k) available_tiling nc i) (\<lambda>skip.
      if skip then grow_tile alloc nc axis_result k available_tiling is s
      else
      res_bind (int_ret (tile (gav ! k) * i)) (\<lambda>t.
      let gav' = gav[k := (gav ! k)\<lparr>tile := t\<rparr>] in
      res_bind (alloc gav') (\<lambda>max_alloc_buffer.
      res_bind (f_of_int max_alloc_buffer) (\<lambda>f.
      res_bind (f_mul f kMaxAllowedAllocPercentage) (\<lambda>f.
      res_bind (f_of_int axis_result) (\<lambda>a.
      if f < a then grow_tile alloc nc axis_result k available_tiling is s
      else res_bind (int_div remaining_tiling i) (\<lambda>q. Ok (gav', q))))))))))"

definition extend_axis ::
    "(Axis list \<Rightarrow> int res) \<Rightarrow> int \<Rightarrow> int \<Rightarrow> int \<Rightarrow> nat \<Rightarrow> Axis list \<times> int \<Rightarrow> (Axis list \<times> int) res" where
  "extend_axis alloc nc axis_result data_coef k s =
     (case s of (gav, remaining_tiling) \<Rightarrow>
      res_bind (int_div (int_of_size (ax_range (gav ! k))) (tile (gav ! k))) (\<lambda>available_tiling.
      if available_tiling > 1
      then res_bind (grow_tile alloc nc axis_result k available_tiling (rev [1 .. remaining_tiling]) s) (\<lambda>(gav, rem).
           if has_type kMultiCore (gav ! k) \<and> \<not> has_type kVectorization (gav ! k)
           then res_bind (GetTileFromRemainingVecGranularity (gav ! k) data_coef axis_result) (\<lambda>t.
                  Ok (gav[k := (gav ! k)\<lparr>tile := t\<rparr>], rem))
           else Ok (gav, rem))
      else Ok s))"

text \<open>The reverse iteration starts at the axis before the last one.\<close>

definition ExtendMulticoreAxisTile ::
    "(Axis list \<Rightarrow> int res) \<Rightarrow> int \<Rightarrow> int \<Rightarrow> int \<Rightarrow> int \<Rightarrow> Axis list \<Rightarrow> Axis list res" where
  "ExtendMulticoreAxisTile alloc curr_max_alloc_buffer nc axis_result data_coef gav =
     (if axis_result = 0 then Ok gav
      else res_bind (int_div curr_max_alloc_buffer axis_result) (\<lambda>remaining_tiling.
        if remaining_tiling \<le> 1 then Ok gav
        else if nc = 0 then Ok gav
        else res_bind (for_each (extend_axis alloc nc axis_result data_coef)
               (rev [0 ..< length gav - 1]) (gav, remaining_tiling)) (\<lambda>(gav, _). Ok gav)))"

section \<open>Vectorised axes\<close>

text \<open>The index of the second of the axes that are not inner, counted from the back; 0 when there
  is none.\<close>

definition second_last_global_axis :: "Axis list \<Rightarrow> nat" where
  "second_last_global_axis gav =
     (let outer = filter (\<lambda>i. \<not> is_inner (gav ! i)) (rev [0 ..< length gav])
      in if nat kSecondAxis \<le> length outer then outer ! (nat kSecondAxis - 1) else 0)"

text \<open>The size of the tile before the other axes are looked at. \<open>libm_root x n\<close> stands for
  \<open>static_cast<int>(std::pow(x, 1.0 / static_cast<double>(n)))\<close>, whose last bits depend on the
  mathematical library.\<close>

definition initial_vec_tile ::
    "(int \<Rightarrow> 64 word \<Rightarrow> int res) \<Rightarrow> Axis \<Rightarrow> 64 word \<Rightarrow> int \<Rightarrow> int \<Rightarrow> int \<Rightarrow> int res" where
  "initial_vec_tile libm_root axis last_dim_axis min_shape max_alloc_buffer upper_bound_buffer =
     (let axis_result = min max_alloc_buffer min_shape in
      res_bind (if axis_result \<noteq> min_shape then to_pow2 axis_result else Ok axis_result) (\<lambda>axis_result.
      let axis_result = (if dim_axis axis \<noteq> last_dim_axis then min min_shape axis_result else axis_result) in
      if last_dim_axis - dim_axis axis > 1
      then res_bind (if upper_bound_buffer \<noteq> min_shape then to_pow2 upper_bound_buffer
                     else Ok upper_bound_buffer) (\<lambda>upper_bound_buffer.
           if is_innermost axis
           then res_bind (libm_root max_alloc_buffer (last_dim_axis - dim_axis axis + 1)) (\<lambda>avg_tiling.
                res_bind (to_pow2 avg_tiling) (\<lambda>avg_tiling.
                  Ok (min axis_result (max avg_tiling upper_bound_buffer))))
           else Ok (min upper_bound_buffer axis_result))
      else Ok axis_result))"

text \<open>Whether the penultimate axis gives up half of its tile so that this axis can have more.\<close>

definition shrink_penultimate :: "Axis \<Rightarrow> Axis \<Rightarrow> int \<Rightarrow> int \<Rightarrow> int \<Rightarrow> bool" where
  "shrink_penultimate penultimate_axis axis vbnum axis_result min_shape \<longleftrightarrow>
     has_type kVectorization penultimate_axis \<and>
     (axis_result < tile penultimate_axis \<or>
      \<not> is_innermost penultimate_axis \<and>
      size_of_int (tile penultimate_axis) * ax_range axis > size_of_int axis_result * ax_range penultimate_axis \<and>
      tile penultimate_axis > vbnum) \<and>
     axis_result < min_shape \<and> ucast (word_of_int axis_result :: 32 word) < ax_range axis"

text \<open>The body of \<open>GetVecAxis\<close> up to its recursive call: \<open>Inl\<close> is the result it returns with,
  \<open>Inr\<close> the global axes it calls itself again with.\<close>

definition vec_round ::
    "(int \<Rightarrow> 64 word \<Rightarrow> int res) \<Rightarrow> Heap \<Rightarrow> Axis \<Rightarrow> ModelGraph \<Rightarrow> Hardware \<Rightarrow> Axis list \<Rightarrow>
     (int \<times> Axis list + Axis list) res" where
  "vec_round libm_root h axis model_graph hardware gav =
     (let min_shape = int_of_size (ax_range axis);
          alloc = (\<lambda>gav. GetMaxAllocAndUpperBoundBuffer gav h (mem_VC_size hardware) (mem_VC_align hardware)
                           axis (critical_nodes model_graph))
      in res_bind (GetMinShapeAndDataCoef h (g_nodes model_graph) axis) (\<lambda>(_, data_coef).
         res_bind (alloc gav) (\<lambda>(max_alloc_buffer, upper_bound_buffer).
         res_bind (GetLastDimAxis gav) (\<lambda>last_dim_axis.
         res_bind (initial_vec_tile libm_root axis last_dim_axis min_shape max_alloc_buffer upper_bound_buffer) (\<lambda>axis_result.
         if dim_axis axis = last_dim_axis
         then res_bind (ExtendMulticoreAxisTile (\<lambda>gav. res_bind (alloc gav) (\<lambda>(m, _). Ok m))
                 max_alloc_buffer (num_core hardware) axis_result data_coef gav) (\<lambda>gav.
              let k = second_last_global_axis gav in
              res_bind (vec_at gav k) (\<lambda>penultimate_axis.
              if shrink_penultimate penultimate_axis axis (vblocknum hardware) axis_result min_shape
              then res_bind (Get2PowerBelow (tile penultimate_axis)) (\<lambda>t.
                     Ok (Inr (gav[k := penultimate_axis\<lparr>tile := t\<rparr>])))
              else Ok (Inl (axis_result, gav))))
         else Ok (Inl (axis_result, gav)))))))"

fun GetVecAxis ::
    "nat \<Rightarrow> (int \<Rightarrow> 64 word \<Rightarrow> int res) \<Rightarrow> Heap \<Rightarrow> Axis \<Rightarrow> ModelGraph \<Rightarrow> Hardware \<Rightarrow> Axis list \<Rightarrow> (int \<times> Axis list) res" where
  "GetVecAxis 0 libm_root h axis model_graph hardware gav = Err Out_of_fuel"
| "GetVecAxis (Suc fuel) libm_root h axis model_graph hardware gav =
     res_bind (vec_round libm_root h axis model_graph hardware gav) (\<lambda>r.
       case r of
         Inl result \<Rightarrow> Ok result
       | Inr gav \<Rightarrow> GetVecAxis fuel libm_root h axis model_graph hardware gav)"

section \<open>Axes that are both\<close>

definition PrioAxis :: "Heap \<Rightarrow> Axis \<Rightarrow> ModelGraph \<Rightarrow> Axis list \<Rightarrow> bool res" where
  "PrioAxis h axis model_graph gav =
     res_bind (vec_at gav 0) (\<lambda>_.
       Ok (list_ex (\<lambda>n. op_of h n = Op_ReduceY \<and> HasAxis (nodes_at h n) axis \<and>
                          length (axis_of_node (nodes_at h n)) = 1) (g_nodes model_graph)))"

text \<open>\<open>while (multi_core_size > axis_result + vec_granularity) axis_result += vec_granularity;\<close>: with
  a granularity that is not positive the sum runs out of range.\<close>

function grow_by ::
    "int \<Rightarrow> int \<Rightarrow> int \<Rightarrow> int res" where
  "grow_by multi_core_size vec_granularity axis_result =
     res_bind (int_ret (axis_result + vec_granularity)) (\<lambda>sum.
       if multi_core_size > sum
       then if vec_granularity \<le> 0 then Err Signed_overflow else grow_by multi_core_size vec_granularity sum
       else Ok axis_result)"
  by pat_completeness auto
termination
  by (relation "measure (\<lambda>(m, g, r). nat (m - r))") auto

declare grow_by.simps [simp del]

definition multi_axis_tile :: "int \<Rightarrow> int \<Rightarrow> int \<Rightarrow> int \<Rightarrow> int res" where
  "multi_axis_tile multi_core_size vec_granularity vec_cal_size min_shape =
     (if multi_core_size > vec_granularity
      then res_bind (int_mod multi_core_size vec_granularity) (\<lambda>r.
           if r = 0 then Ok multi_core_size else grow_by multi_core_size vec_granularity vec_granularity)
      else res_bind (int_div min_shape vec_granularity) (\<lambda>_. Ok (min vec_granularity vec_cal_size)))"

definition second_axis_tile ::
    "Axis list \<Rightarrow> Axis \<Rightarrow> Hardware \<Rightarrow> int \<Rightarrow> int \<Rightarrow> int res" where
  "second_axis_tile gav axis hardware data_coef vec_cal_size =
     res_bind (vec_at gav 0) (\<lambda>first.
     res_bind (if ax_name axis \<noteq> ax_name first
               then res_bind (int_div (int_of_size (ax_range first)) (tile first)) (\<lambda>q. Ok (q \<ge> num_core hardware))
               else Ok False) (\<lambda>enough.
     if enough then Ok vec_cal_size
     else res_bind (int_div (vblocksize hardware) data_coef) (\<lambda>m. Ok (min m vec_cal_size))))"

definition GetMixTypeAxis ::
    "nat \<Rightarrow> (int \<Rightarrow> 64 word \<Rightarrow> int res) \<Rightarrow> Heap \<Rightarrow> Axis \<Rightarrow> ModelGraph \<Rightarrow> Hardware \<Rightarrow> Axis list \<Rightarrow> (int \<times> Axis list) res" where
  "GetMixTypeAxis fuel libm_root h axis model_graph hardware gav =
     (let min_shape = int_of_size (ax_range axis) in
      res_bind (GetMinShapeAndDataCoef h (g_nodes model_graph) axis) (\<lambda>(_, data_coef).
      res_bind (if num_core hardware > 0 then int_div min_shape (num_core hardware) else Ok min_shape) (\<lambda>multi_core_size.
      res_bind (GetVecAxis fuel libm_root h axis model_graph hardware gav) (\<lambda>(vec_cal_size, gav).
      res_bind (if data_coef > 0
                then res_bind (int_ret (vblocknum hardware * vblocksize hardware)) (\<lambda>p. int_div p data_coef)
                else Ok 0) (\<lambda>vec_granularity.
      let vec_granularity = (if vec_granularity = 0 then 1 else vec_granularity);
          global_axis_nb = length (filter (\<lambda>a. ax_index a = 0) gav)
      in res_bind
          (if global_axis_nb \<le> 1
           then if vec_cal_size > 0
                then res_bind (int_ret (vec_granularity * vblocknum hardware)) (\<lambda>bound.
                     if multi_core_size < bound
                     then res_bind (int_div min_shape vec_cal_size) (\<lambda>_. Ok vec_cal_size)
                     else Ok (min multi_core_size vec_cal_size))
                else Ok 1
           else res_bind (PrioAxis h axis model_graph gav) (\<lambda>prio.
                if prio then multi_axis_tile multi_core_size vec_granularity vec_cal_size min_shape
                else second_axis_tile gav axis hardware data_coef vec_cal_size)) (\<lambda>axis_result.
         res_bind (if axis_result \<noteq> min_shape then to_pow2 axis_result else Ok axis_result) (\<lambda>axis_result.
           Ok (axis_result, gav))))))))"

end
