(* ===== verification/Hermes_Tiling.thy ===== *)
theory Hermes_Tiling
  imports Hermes_Vector
begin

text \<open>
  The classification of axes (\<open>hermes/classify_axis.cc\<close>), the tiling of multicore axes
  (\<open>hermes/multicore_tiling.cc\<close>), the choice of a tile for every axis
  (\<open>hermes/tiling_algo.cc\<close>), and the part of \<open>tiling/tiling.cc\<close> that runs them and copies the
  tiles into the dimensions of the schedule.
\<close>

section \<open>Classification of axes\<close>

definition add_types :: "AxisLabel set \<Rightarrow> 64 word \<Rightarrow> Axis list \<Rightarrow> Axis list" where
  "add_types labels dim_ax = map (\<lambda>a. if dim_axis a = dim_ax then a\<lparr>ax_type := labels \<union> ax_type a\<rparr> else a)"

definition SetAxisTypeAsMultiCore :: "64 word \<Rightarrow> Axis list \<Rightarrow> Axis list" where
  "SetAxisTypeAsMultiCore = add_types {kMultiCore}"

definition SetAxisTypeAsVectorization :: "64 word \<Rightarrow> Axis list \<Rightarrow> Axis list" where
  "SetAxisTypeAsVectorization = add_types {kVectorization}"

definition SetAxisTypeAsMultiCoreAndVectorization :: "64 word \<Rightarrow> Axis list \<Rightarrow> Axis list" where
  "SetAxisTypeAsMultiCoreAndVectorization = add_types {kMultiCore, kVectorization}"

definition gemm_label :: "string \<Rightarrow> AxisLabel" where
  "gemm_label g =
     (if g = ''mi'' \<or> g = ''ni'' \<or> g = ''ki'' then kMatMulAxis16
      else if g = ''no'' then kMatMulAxisN
      else if g = ''mo'' then kMatMulAxisM
      else if g = ''ko'' then kMatMulAxisK
      else kMatMulAxisBatch)"

definition ClassifyMatmulAxis :: "Axis list \<Rightarrow> Axis list" where
  "ClassifyMatmulAxis =
     map (\<lambda>a. if is_inner a then a else a\<lparr>ax_type := insert (gemm_label (gemm_axis a)) (ax_type a)\<rparr>)"

definition DefineAxisType :: "64 word \<Rightarrow> Axis list \<Rightarrow> Axis list" where
  "DefineAxisType dim_ax gav =
     (if gav \<noteq> [] \<and> dim_axis (gav ! 0) = dim_ax then SetAxisTypeAsMultiCore dim_ax gav
      else SetAxisTypeAsVectorization dim_ax gav)"

text \<open>The body of the loop over the axes of a node; \<open>shape_.size() - 1 - 1\<close> is an unsigned
  subtraction.\<close>

definition classify_step :: "Heap \<Rightarrow> Node \<Rightarrow> Axis \<Rightarrow> Axis list \<Rightarrow> Axis list res" where
  "classify_step h node a gav =
     (let gav = DefineAxisType (dim_axis a) gav in
      if str_find (n_name node) ''batchmatmul'' 0 \<noteq> None
      then res_bind (vec_at (output_tensors node) 0) (\<lambda>t.
           let last_idx = (word_of_nat (length (t_shape (tensors_at h t))) :: 64 word) - 1
           in res_bind (vec_at (axis_of_node node) (unat (last_idx - 1))) (\<lambda>b.
                Ok (SetAxisTypeAsMultiCore (dim_axis b) gav)))
      else Ok gav)"

definition ClassifyAxis :: "Heap \<Rightarrow> Node \<Rightarrow> Axis list \<Rightarrow> Axis list res" where
  "ClassifyAxis h node gav =
     (let axes = axis_of_node node; axis_total = length axes; op = n_op node in
      if axis_total = 1
      then if op \<in> {Op_ReduceX, Op_ReduceY, Op_ReduceDST} then Ok gav
           else Ok (SetAxisTypeAsMultiCoreAndVectorization (dim_axis (axes ! 0)) gav)
      else if axis_total > 1
      then if op = Op_MatMul \<or> op = Op_BatchMatMul then Ok (ClassifyMatmulAxis gav)
           else for_each (classify_step h node) axes gav
      else Ok gav)"

section \<open>Multicore axes\<close>

definition kSmallAxisSize :: int where "kSmallAxisSize = 300"
definition kFloat16LoadGranularity :: int where "kFloat16LoadGranularity = 128"
definition kFloat32LoadGranularity :: int where "kFloat32LoadGranularity = 64"
definition kReduceMinShapeThreshold :: int where "kReduceMinShapeThreshold = 64"

definition SafeDivisor :: "int \<Rightarrow> int res" where
  "SafeDivisor x = res_bind (CHECK (x \<noteq> 0)) (\<lambda>_. Ok (max x 1))"

definition GetMcReduceYAxisSize :: "Hardware \<Rightarrow> int \<Rightarrow> bool \<Rightarrow> int \<Rightarrow> int res" where
  "GetMcReduceYAxisSize hardware min_shape input_fp16 model_graph_out_size =
     res_bind (if num_core hardware > 0
               then res_bind (int_mod min_shape (num_core hardware)) (\<lambda>r.
                    if r = 0 then int_div min_shape (num_core hardware) else Ok 1)
               else Ok 1) (\<lambda>multicore_axis_size.
     res_bind (if model_graph_out_size > 1 then Get2PowerBelow multicore_axis_size
               else Ok multicore_axis_size) (\<lambda>multicore_axis_size.
     let granularity = (if input_fp16 then kFloat16LoadGranularity else kFloat32LoadGranularity) in
     res_bind (int_mod multicore_axis_size granularity) (\<lambda>r.
     let multicore_axis_size =
           (if r \<noteq> 0 \<and> min_shape \<ge> granularity then granularity else multicore_axis_size)
     in Ok (if min_shape < kReduceMinShapeThreshold then min_shape else multicore_axis_size))))"

definition GetMcAxisSize :: "Hardware \<Rightarrow> int \<Rightarrow> int \<Rightarrow> int res" where
  "GetMcAxisSize hardware min_shape data_coef =
     (if data_coef > 0
      then res_bind (int_div (vblocksize hardware) data_coef) (\<lambda>q.
           res_bind (int_ret (num_core hardware * q)) (\<lambda>bound.
           if min_shape \<ge> bound \<and> min_shape > kSmallAxisSize
           then res_bind (SafeDivisor data_coef) (\<lambda>d. int_div (vblocksize hardware) d)
           else Ok 1))
      else Ok 1)"

text \<open>The flag of the inputs stops looking at tensors once it is set.\<close>

definition fp16_step :: "Heap \<Rightarrow> node_ptr \<Rightarrow> bool \<Rightarrow> bool res" where
  "fp16_step h n input_fp16 =
     (if \<not> input_fp16 \<and> IsInput (op_of h n)
      then res_bind (vec_at (output_tensors (nodes_at h n)) 0) (\<lambda>t.
           res_bind (GetDataTypeCoef (tensors_at h t)) (\<lambda>c. Ok (c = kTwoBytesPerVal)))
      else Ok input_fp16)"

definition GetMcAxis :: "Heap \<Rightarrow> Axis \<Rightarrow> ModelGraph \<Rightarrow> Hardware \<Rightarrow> int res" where
  "GetMcAxis h axis model_graph hardware =
     (let min_shape = int_of_size (ax_range axis) in
      res_bind (GetMinShapeAndDataCoef h (g_nodes model_graph) axis) (\<lambda>(_, data_coef).
      res_bind (for_each (fp16_step h) (g_nodes model_graph) False) (\<lambda>input_fp16.
      if list_ex (\<lambda>n. op_of h n = Op_ReduceY) (g_nodes model_graph)
      then GetMcReduceYAxisSize hardware min_shape input_fp16 (int (length (g_outputs model_graph)))
      else GetMcAxisSize hardware min_shape data_coef)))"

section \<open>A tile for every axis\<close>

text \<open>The axis is passed by its index, since it is a reference into the vector. The vector
  functions need a bound \<open>fuel\<close> on their recursion and the root \<open>libm_root\<close> of the library.\<close>

definition GetAxis ::
    "nat \<Rightarrow> (int \<Rightarrow> 64 word \<Rightarrow> int res) \<Rightarrow> Heap \<Rightarrow> nat \<Rightarrow> ModelGraph \<Rightarrow> Hardware \<Rightarrow> Axis list \<Rightarrow> (int \<times> Axis list) res" where
  "GetAxis fuel libm_root h k model_graph hardware gav =
     (let axis = gav ! k in
      if has_type kMatMulAxisBatch axis then Ok (1, gav)
      else if has_type kMatMulAxisN axis
      then res_bind (GetMatmulAxisNTiling h axis (g_nodes model_graph) (mem_VC_size hardware)) (\<lambda>t. Ok (t, gav))
      else if has_type kMatMulAxisM axis
      then res_bind (GetMatmulAxisMTiling gav h axis model_graph hardware) (\<lambda>t. Ok (t, gav))
      else if has_type kMatMulAxis16 axis then Ok (kCubeDefaultTiling, gav)
      else if has_type kMatMulAxisK axis
      then res_bind (GetMatmulAxisKTiling gav axis model_graph hardware) (\<lambda>(t, axis). Ok (t, gav[k := axis]))
      else if has_type kMultiCore axis \<and> \<not> has_type kVectorization axis
      then res_bind (GetMcAxis h axis model_graph hardware) (\<lambda>t. Ok (t, gav))
      else if has_type kVectorization axis \<and> \<not> has_type kMultiCore axis
      then GetVecAxis fuel libm_root h axis model_graph hardware gav
      else GetMixTypeAxis fuel libm_root h axis model_graph hardware gav)"

definition set_tile :: "nat \<Rightarrow> int \<Rightarrow> Axis list \<Rightarrow> Axis list" where
  "set_tile k t gav = gav[k := (gav ! k)\<lparr>tile := t\<rparr>]"

definition classify_nodes :: "Heap \<Rightarrow> node_ptr list \<Rightarrow> Axis list \<Rightarrow> Axis list res" where
  "classify_nodes h = for_each (\<lambda>n gav.
     if IsInput (op_of h n) then Ok gav else ClassifyAxis h (nodes_at h n) gav)"

definition tile_inner :: "Axis list \<Rightarrow> Axis list" where
  "tile_inner = map (\<lambda>a. if is_inner a then a\<lparr>tile := int_of_size (ax_range a)\<rparr> else a)"

definition tile_outer ::
    "nat \<Rightarrow> (int \<Rightarrow> 64 word \<Rightarrow> int res) \<Rightarrow> Heap \<Rightarrow> ModelGraph \<Rightarrow> Hardware \<Rightarrow> nat \<Rightarrow> Axis list \<Rightarrow> Axis list res" where
  "tile_outer fuel libm_root h model_graph hardware k gav =
     (if is_inner (gav ! k) then Ok gav
      else res_bind (GetAxis fuel libm_root h k model_graph hardware gav) (\<lambda>(t, gav). Ok (set_tile k t gav)))"

definition GetTilingSize ::
    "nat \<Rightarrow> (int \<Rightarrow> 64 word \<Rightarrow> int res) \<Rightarrow> Heap \<Rightarrow> ModelGraph \<Rightarrow> Hardware \<Rightarrow> Axis list \<Rightarrow> Axis list res" where
  "GetTilingSize fuel libm_root h model_graph hardware gav =
     res_bind (classify_nodes h (g_nodes model_graph) gav) (\<lambda>gav.
     for_each (tile_outer fuel libm_root h model_graph hardware) [0 ..< length gav] (tile_inner gav))"

section \<open>The dimensions of the schedule\<close>

record TileSize =
  c0_tiling_size :: int
  c1_tiling_size :: int

text \<open>\<open>GetAxisDimFromGlobal\<close> for one axis: the first global axis of that name, or the first entry of
  \<open>name_dim_set_\<close>, a list in the order of the set, whose dimension indexes a global axis.\<close>

definition axis_dim_from_global :: "Axis list \<Rightarrow> (string \<times> 64 word) list \<Rightarrow> Axis \<Rightarrow> Axis" where
  "axis_dim_from_global gav name_dim_set axis =
     (case List.find (\<lambda>g. ax_name axis = ax_name g) gav of
        Some g \<Rightarrow> axis\<lparr>dim_axis := dim_axis g\<rparr>
      | None \<Rightarrow>
         (case List.find (\<lambda>(name, d). ax_name axis = name \<and> length gav > unat d) name_dim_set of
            Some (_, d) \<Rightarrow> axis\<lparr>ax_name := ax_name (gav ! unat d), dim_axis := dim_axis (gav ! unat d)\<rparr>
          | None \<Rightarrow> axis))"

definition GetAxisDimFromGlobal :: "Axis list \<Rightarrow> (string \<times> 64 word) list \<Rightarrow> Axis list \<Rightarrow> Axis list" where
  "GetAxisDimFromGlobal gav name_dim_set = map (axis_dim_from_global gav name_dim_set)"

text \<open>For every node of the visitor and every node of the graph with its name.\<close>

definition bind_axes :: "Axis list \<Rightarrow> (string \<times> 64 word) list \<Rightarrow> node_ptr list \<Rightarrow> node_ptr list \<Rightarrow> Heap \<Rightarrow> Heap" where
  "bind_axes gav name_dim_set visitor_nodes graph_nodes h =
     fold (\<lambda>n. fold (\<lambda>m h.
       if name_of h m = name_of h n
       then (let h = update_node n (\<lambda>v. v\<lparr>axis_of_node := GetAxisDimFromGlobal gav name_dim_set (axis_of_node v)\<rparr>) h
             in update_node m (\<lambda>v. v\<lparr>axis_of_node := axis_of_node (nodes_at h n)\<rparr>) h)
       else h) graph_nodes) visitor_nodes h"

definition tile_size_of :: "Axis \<Rightarrow> TileSize \<Rightarrow> TileSize" where
  "tile_size_of a d = d\<lparr>c0_tiling_size := tile a, c1_tiling_size := (if c1_tiling a = 0 then tile a else c1_tiling a)\<rparr>"

text \<open>The loop that copies tiles into \<open>dims\<close>: \<open>i\<close> counts dimensions, \<open>idx\<close> global axes. An inner
  axis is passed over without using a dimension (\<open>i--\<close> undone by the loop's \<open>++i\<close>), so \<open>idx\<close> may
  run past the axes, which is undefined.\<close>

function copy_dims :: "Axis list \<Rightarrow> nat \<Rightarrow> nat \<Rightarrow> TileSize list \<Rightarrow> TileSize list res" where
  "copy_dims gav i idx dims =
     (if i < min (length dims) (length gav)
      then if idx < length gav
           then let a = gav ! idx in
                if is_inner a then copy_dims gav i (idx + 1) dims
                else copy_dims gav (i + 1) (idx + 1)
                       (dims[i := tile_size_of a (dims ! i)])
           else Err Out_of_bounds
      else Ok dims)"
  by pat_completeness auto
termination
  by (relation "measure (\<lambda>(gav, i, idx, dims). length gav - idx)") auto

declare copy_dims.simps [simp del]

text \<open>\<open>HermesTiling\<close>; \<open>db\<close> is the attribute \<open>kEnableDoubleBuffer\<close> (true by default), which is set to false
  for graphs without a matrix multiplication. The result has the dimensions and the tiled axes.\<close>

definition HermesTiling ::
    "nat \<Rightarrow> (int \<Rightarrow> 64 word \<Rightarrow> int res) \<Rightarrow> Heap \<Rightarrow> node_ptr list \<Rightarrow> (string \<times> 64 word) list \<Rightarrow> bool \<Rightarrow> int \<Rightarrow>
     Axis list \<Rightarrow> TileSize list \<Rightarrow> (TileSize list \<times> Axis list) res" where
  "HermesTiling fuel libm_root h visitor_nodes name_dim_set db mem_VC_alloc_failed gav dims =
     res_bind (make_init_graph h visitor_nodes) (\<lambda>(init_graph, h).
     let h = bind_axes gav name_dim_set visitor_nodes (g_nodes init_graph) h;
         disable_db_and_bo = \<not> list_ex (\<lambda>n. is_matmul (op_of h n)) (g_nodes init_graph)
     in res_bind (make_model_graph gav h init_graph) (\<lambda>(model_graph, init_graph, h).
        let model_graph = model_graph\<lparr>is_activated_double_buffer := (if disable_db_and_bo then False else db)\<rparr> in
        res_bind (make_hardware mem_VC_alloc_failed kNumCore kMemVCSize kMemC1Size kMemC0Size kMemVCAlign kMemC1Align
                    kVBlockNum kVBlockSize) (\<lambda>hardware.
        res_bind (GetTilingSize fuel libm_root h model_graph hardware gav) (\<lambda>gav.
        res_bind (copy_dims gav 0 0 dims) (\<lambda>dims.
        res_bind (vec_at gav 0) (\<lambda>_. Ok (dims, gav)))))))"

end
