(* ===== verification/Hermes_Cube_Bounds.thy ===== *)
theory Hermes_Cube_Bounds
  imports Hermes_Cube
begin

text \<open>
  What the tiling of matrix multiplications guarantees: the divisor it searches for, the cores it
  hands out, and tiles that divide their axes and fit the memories of the hardware.
\<close>

section \<open>The divisor that is found\<close>

lemma find_upto_Some:
  "List.find P [a .. b] = Some x \<longleftrightarrow> a \<le> x \<and> x \<le> b \<and> P x \<and> (\<forall>y. a \<le> y \<longrightarrow> y < x \<longrightarrow> \<not> P y)"
proof (induction a b rule: upto.induct)
  case (1 a b)
  show ?case
  proof (cases "a \<le> b")
    case True
    then have "List.find P [a .. b] = (if P a then Some a else List.find P [a + 1 .. b])"
      by (simp add: upto_rec1)
    moreover have "(\<forall>y. a \<le> y \<longrightarrow> y < x \<longrightarrow> \<not> P y) \<longleftrightarrow> (a < x \<longrightarrow> \<not> P a) \<and> (\<forall>y. a + 1 \<le> y \<longrightarrow> y < x \<longrightarrow> \<not> P y)"
      unfolding add1_zle_eq by (metis order_le_less)
    ultimately show ?thesis using 1 [OF True] True
      by (cases "P a") (auto simp: add1_zle_eq order_le_less)
  qed (auto simp: upto_rec1)
qed

lemma find_upto_None: "List.find P [a .. b] = None \<longleftrightarrow> (\<forall>x. a \<le> x \<longrightarrow> x \<le> b \<longrightarrow> \<not> P x)"
  by (auto simp: find_None_iff)

lemma le_div_iff: "0 < l \<Longrightarrow> c \<le> x div l \<longleftrightarrow> c * l \<le> x" for c l x :: int
proof
  assume l: "0 < l" and "c \<le> x div l"
  then have "c * l \<le> x div l * l" by (simp add: mult_right_mono)
  also have "\<dots> \<le> x" using l by (simp add: minus_mod_eq_div_mult [symmetric])
  finally show "c * l \<le> x" .
next
  assume l: "0 < l" and "c * l \<le> x"
  then show "c \<le> x div l" using zdiv_mono1 [of "c * l" x l] by simp
qed

text \<open>The intervals of the search: \<open>exp\<close> is the least codivisor whose divisor fits the limit.\<close>

lemma ceil_div_le_iff:
  "0 < limit \<Longrightarrow> 0 < e \<Longrightarrow> e * c = rng \<Longrightarrow> 0 < c \<Longrightarrow> (rng - 1 + limit) div limit \<le> c \<longleftrightarrow> e \<le> limit"
  for rng :: int
proof -
  assume limit: "0 < limit" and e: "0 < e" and c: "e * c = rng" "0 < c"
  have "(rng - 1 + limit) div limit \<le> c \<longleftrightarrow> rng - 1 + limit < (c + 1) * limit"
    using le_div_iff [OF limit, of "c + 1" "rng - 1 + limit"] by linarith
  also have "\<dots> \<longleftrightarrow> rng \<le> limit * c" by (auto simp: algebra_simps)
  also have "\<dots> \<longleftrightarrow> e * c \<le> limit * c" using c by simp
  also have "\<dots> \<longleftrightarrow> e \<le> limit" using c(2) by simp
  finally show ?thesis .
qed

definition search_start :: "int \<Rightarrow> int \<Rightarrow> int" where
  "search_start limit rng = max ((rng - 1 + limit) div limit) 2"

definition search_stop :: "int \<Rightarrow> int \<Rightarrow> int" where
  "search_stop limit rng =
     (if int (floor_sqrt (nat rng)) \<le> search_start limit rng then rng else int (floor_sqrt (nat rng)))"

lemma GetLargestDivisor_eq:
  assumes "0 < limit" "0 < rng" "rng < 2 ^ 52"
  shows "GetLargestDivisor limit rng = Ok
    (if rng \<le> limit then rng
     else case first_divisor rng (search_start limit rng) (search_stop limit rng) of Some d \<Rightarrow> rng div d | None \<Rightarrow> 1)"
proof (cases "rng \<le> limit")
  case False
  have sum: "in_int64 (rng - 1 + limit)" "0 \<le> rng - 1 + limit" using False assms by (auto simp: in_int64_def)
  have start: "max ((rng - 1 + limit) div limit) 2 = (if (rng - 1 + limit) div limit > 2 then (rng - 1 + limit) div limit else 2)"
    by simp
  have "first_divisor rng (search_start limit rng) stop = Some d \<Longrightarrow> int64_div rng d = Ok (rng div d)" for stop d
    using assms by (intro int64_div_pos) (auto simp: first_divisor_def find_upto_Some search_start_def in_int64_def)
  then show ?thesis using assms False sum
    by (simp add: GetLargestDivisor_def int64_ret_def int64_div_pos trunc_sqrt_def Let_def start [symmetric]
        search_start_def [symmetric] search_stop_def [symmetric] split: option.split)
qed (use assms in \<open>simp add: GetLargestDivisor_def\<close>)


lemma search_start_ge: "2 \<le> search_start limit rng"
  by (simp add: search_start_def)

lemma divides_pair: "0 < e \<Longrightarrow> e dvd rng \<Longrightarrow> 0 < rng \<Longrightarrow> e * (rng div e) = rng \<and> 0 < rng div e" for e rng :: int
  by (auto elim!: dvdE simp: zero_less_mult_iff)

lemma first_divisor_Some:
  assumes "first_divisor rng (search_start limit rng) stop = Some d" "0 < limit" "0 < rng"
  shows "0 < rng div d \<and> rng div d \<le> limit \<and> rng div d dvd rng \<and>
    (limit < rng \<longrightarrow> (\<forall>e. 0 < e \<longrightarrow> e dvd rng \<longrightarrow> e \<le> limit \<longrightarrow> e \<le> rng div d))"
proof -
  from assms(1) have d: "search_start limit rng \<le> d" "d dvd rng" and
    least: "\<And>y. search_start limit rng \<le> y \<Longrightarrow> y < d \<Longrightarrow> \<not> y dvd rng"
    by (auto simp: first_divisor_def find_upto_Some dvd_eq_mod_eq_0)
  have pos: "0 < d" using d(1) search_start_ge [of limit rng] by linarith
  note pair = divides_pair [OF pos d(2) assms(3)]
  have "rng div d \<le> limit"
  proof (rule ceil_div_le_iff [THEN iffD1])
    show "rng div d * d = rng" using pair by (metis mult.commute)
    show "(rng - 1 + limit) div limit \<le> d" using d(1) by (simp add: search_start_def)
  qed (use assms(2) pos pair in blast)+
  moreover have "e \<le> rng div d" if "limit < rng" and e: "0 < e" "e dvd rng" "e \<le> limit" for e
  proof (rule ccontr)
    assume "\<not> e \<le> rng div d"
    then have "rng div d < e" by simp
    note pe = divides_pair [OF e(1,2) assms(3)]
    have "rng div e < d"
    proof (rule ccontr)
      assume "\<not> rng div e < d"
      then have "(rng div d) * d < e * (rng div e)"
        using \<open>rng div d < e\<close> pair pos e(1) by (intro mult_less_le_imp_less) auto
      with pair pe show False by (simp add: mult.commute)
    qed
    moreover have "search_start limit rng \<le> rng div e"
    proof -
      have "(rng - 1 + limit) div limit \<le> rng div e"
        by (rule ceil_div_le_iff [THEN iffD2]) (use assms(2) e pe in blast)+
      moreover have "2 \<le> rng div e"
      proof -
        have "rng div e \<noteq> 1" using pe that(1) e(3) by (metis mult.right_neutral not_le)
        then show ?thesis using conjunct2 [OF pe] by linarith
      qed
      ultimately show ?thesis by (simp add: search_start_def)
    qed
    moreover have "rng div e dvd rng" using pe by (metis dvd_triv_right)
    ultimately show False using least by blast
  qed
  moreover have "rng div d dvd rng" using pair by (metis dvd_triv_right)
  ultimately show ?thesis using pair by blast
qed

lemma divisor_divides:
  assumes "0 < limit" "0 < rng" "rng < 2 ^ 52"
  shows "\<exists>d. GetLargestDivisor limit rng = Ok d \<and> 0 < d \<and> d \<le> limit \<and> d dvd rng \<and>
    (d \<noteq> 1 \<longrightarrow> (\<forall>e. e dvd rng \<longrightarrow> e \<le> limit \<longrightarrow> e \<le> d))"
proof -
  consider "rng \<le> limit"
    | "limit < rng" "first_divisor rng (search_start limit rng) (search_stop limit rng) = None"
    | d where "limit < rng" "first_divisor rng (search_start limit rng) (search_stop limit rng) = Some d"
    by fastforce
  then show ?thesis
  proof cases
    case 1
    with assms show ?thesis by (auto simp: GetLargestDivisor_eq dest: zdvd_imp_le)
  next
    case 2
    with assms show ?thesis by (simp add: GetLargestDivisor_eq)
  next
    case (3 d)
    note found = first_divisor_Some [OF 3(2) assms(1,2)]
    have "e \<le> rng div d" if "e dvd rng" "e \<le> limit" for e
      using found 3(1) that by (cases "0 < e") auto
    with found 3 assms show ?thesis by (simp add: GetLargestDivisor_eq)
  qed
qed

text \<open>
  For a positive limit and a positive range below \<open>2 ^ 52\<close>, \<open>GetLargestDivisor\<close> returns a divisor
  of the range that does not exceed the limit, and whenever the divisor it returns is not 1 it
  is the largest one.
\<close>

theorem largest_divisor_divides:
  assumes "0 < limit" "0 < rng" "rng < 2 ^ 52"
  shows "\<exists>d. GetLargestDivisor limit rng = Ok d \<and> 0 < d \<and> d \<le> limit \<and> d dvd rng \<and>
    (d \<noteq> 1 \<longrightarrow> (\<forall>e. e dvd rng \<longrightarrow> e \<le> limit \<longrightarrow> e \<le> d))"
  using assms by (rule divisor_divides)

theorem largest_divisor_divides_witness:
  "\<exists>d. GetLargestDivisor 8 20 = Ok d \<and> d dvd 20 \<and> d \<le> 8"
  using largest_divisor_divides [of 8 20] by auto

lemma whole_range_searched:
  assumes "0 < limit" "limit < rng" "limit * limit \<le> rng"
  shows "search_stop limit rng = rng \<and> (\<exists>d. first_divisor rng (search_start limit rng) rng = Some d)"
proof -
  define r where "r = int (floor_sqrt (nat rng))"
  have "r * r \<le> rng"
    using floor_sqrt_le [of "nat rng"] assms by (simp add: r_def flip: of_nat_mult)
  have "r * limit \<le> max r limit * max r limit"
    using assms(1) by (intro mult_mono) (auto simp: r_def)
  also have "\<dots> \<le> rng" using \<open>r * r \<le> rng\<close> assms(3) by (simp add: max_def)
  finally have "r \<le> (rng - 1 + limit) div limit"
    using assms(1) by (subst le_div_iff) simp_all
  moreover have "(rng - 1 + limit) div limit \<le> rng"
    by (rule ceil_div_le_iff [where e = 1, THEN iffD2]) (use assms in simp_all)
  ultimately show ?thesis
    using assms find_upto_None [of "\<lambda>d. rng mod d = 0" "search_start limit rng" rng]
    by (auto simp: search_stop_def search_start_def first_divisor_def r_def [symmetric] not_None_eq [symmetric]
        simp del: not_None_eq intro!: exI [of _ rng])
qed

text \<open>
  C5: Where the range fits the limit, or is at least its square, the result is the largest divisor
  of the range that does not exceed the limit.
\<close>

theorem largest_divisor_exact:
  assumes "0 < limit" "0 < rng" "rng < 2 ^ 52" "rng \<le> limit \<or> limit * limit \<le> rng"
  shows "GetLargestDivisor limit rng = Ok (Max {e. 0 < e \<and> e dvd rng \<and> e \<le> limit})"
proof -
  have fin: "finite {e. 0 < e \<and> e dvd rng \<and> e \<le> limit}"
    by (rule finite_subset [of _ "{0 .. limit}"]) auto
  show ?thesis
  proof (cases "rng \<le> limit")
    case True
    have "Max {e. 0 < e \<and> e dvd rng \<and> e \<le> limit} = rng"
      using assms True by (intro Max_eqI [OF fin]) (auto dest: zdvd_imp_le)
    with assms True show ?thesis by (simp add: GetLargestDivisor_eq)
  next
    case False
    then obtain d where "search_stop limit rng = rng" and d: "first_divisor rng (search_start limit rng) rng = Some d"
      using whole_range_searched [of limit rng] assms by auto
    moreover have "Max {e. 0 < e \<and> e dvd rng \<and> e \<le> limit} = rng div d"
      using first_divisor_Some [OF d assms(1,2)] False by (intro Max_eqI [OF fin]) auto
    ultimately show ?thesis using assms False by (simp add: GetLargestDivisor_eq)
  qed
qed

theorem largest_divisor_exact_witness:
  "GetLargestDivisor 3 20 = Ok (Max {e. 0 < e \<and> e dvd 20 \<and> e \<le> (3 :: int)})"
  using largest_divisor_exact [of 3 20] by simp

text \<open>
  Between those cases the search stops at the square root and misses divisors: of 34, with
  limit 10, it returns 1 although 2 divides 34.
\<close>

theorem largest_divisor_missed:
  "GetLargestDivisor 10 34 = Ok 1 \<and> (2 :: int) dvd 34 \<and> (2 :: int) \<le> 10"
proof -
  have "floor_sqrt 34 = 5" by (simp add: floor_sqrt.simps)
  then show ?thesis
    by (simp add: GetLargestDivisor_eq first_divisor_def search_start_def search_stop_def upto_rec1)
qed

section \<open>Cores\<close>

lemma find_SomeD: "List.find P xs = Some x \<Longrightarrow> x \<in> set xs \<and> P x"
  by (auto simp: find_Some_iff)

lemma multicore_divides:
  assumes "0 < rest" "in_int rest"
  shows "0 < GetMulticoreFromAxis rest axis_size \<and> GetMulticoreFromAxis rest axis_size dvd rest"
proof (cases "axis_size > 0 \<and> size_of_int rest mod axis_size = 0")
  case True
  have rest: "uint (size_of_int rest) = rest"
    using assms by (simp add: uint_size_of_int in_int_def)
  have dvd: "uint axis_size dvd rest"
    using True rest by (metis uint_mod unsigned_0 dvd_eq_mod_eq_0)
  have pos: "0 < uint axis_size" using True by (simp add: word_less_def)
  have "uint axis_size \<le> rest" using dvd assms(1) by (rule zdvd_imp_le)
  with dvd pos assms True show ?thesis
    by (simp add: GetMulticoreFromAxis_def int_of_size_small in_int_def)
next
  case False
  show ?thesis
  proof (cases "List.find (\<lambda>i. rest mod i = 0 \<and> axis_size mod size_of_int i = 0) (rev [1 .. rest])")
    case None
    with False show ?thesis by (auto simp: GetMulticoreFromAxis_def)
  next
    case (Some i)
    then have "1 \<le> i" "i dvd rest"
      using find_SomeD [OF Some] by (simp_all add: dvd_eq_mod_eq_0)
    moreover have "GetMulticoreFromAxis rest axis_size = i"
      unfolding GetMulticoreFromAxis_def if_not_P [OF False] Some by simp
    ultimately show ?thesis by simp
  qed
qed
section \<open>Tiles that fit\<close>

lemma pow2_at_least_Ok:
  "0 < p \<Longrightarrow> r \<le> 2 ^ 30 \<Longrightarrow> p < 2 ^ 31 \<Longrightarrow>
     \<exists>q. pow2_at_least p r = Ok q \<and> p \<le> q \<and> (q = p \<or> q \<le> 2 * r - 2)"
proof (induction p r rule: pow2_at_least.induct)
  case (1 p r)
  show ?case
  proof (cases "p < r")
    case True
    have Ok2: "int_ret (p * kByTwo) = Ok (p * 2)"
      unfolding int_ret_def using 1 True by (simp add: kByTwo_def in_int_def)
    have "\<exists>q. pow2_at_least (p * 2) r = Ok q \<and> p * 2 \<le> q \<and> (q = p * 2 \<or> q \<le> 2 * r - 2)"
      by (rule "1.IH" [OF _ True Ok2]) (use 1 True in simp_all)
    moreover have "pow2_at_least p r = pow2_at_least (p * 2) r"
      unfolding pow2_at_least.simps [of p r] Ok2 using 1 True by simp
    ultimately show ?thesis using 1 True by auto
  qed (use 1 in \<open>simp add: pow2_at_least.simps [of p r]\<close>)
qed

lemma tile_in_int: "0 < d \<Longrightarrow> d \<le> a \<Longrightarrow> in_int a \<Longrightarrow> int_of_int64 d = d"
  by (simp add: int_of_int64_small in_int_def)

lemma uint_size_of_pos: "0 < t \<Longrightarrow> in_int t \<Longrightarrow> uint (size_of_int t) = t \<and> size_of_int t \<noteq> 0"
proof -
  assume t: "0 < t" "in_int t"
  then have "uint (size_of_int t) = t" by (simp add: uint_size_of_int in_int_def)
  with t show ?thesis by (metis unsigned_0 less_irrefl)
qed

lemma size_mod_pos:
  "0 < t \<Longrightarrow> in_int t \<Longrightarrow> \<exists>r. size_mod w (size_of_int t) = Ok r \<and> (r = 0 \<longleftrightarrow> t dvd uint w)"
proof -
  assume "0 < t" "in_int t"
  then have u: "uint (size_of_int t) = t" and "size_of_int t \<noteq> 0"
    using uint_size_of_pos by blast+
  moreover have "w mod size_of_int t = 0 \<longleftrightarrow> t dvd uint w"
  proof -
    have "uint (w mod size_of_int t) = uint w mod t" by (simp add: uint_mod u)
    moreover have "w mod size_of_int t = 0 \<longleftrightarrow> uint (w mod size_of_int t) = 0" by (simp add: uint_0_iff)
    ultimately show ?thesis by (simp only: dvd_eq_mod_eq_0)
  qed
  ultimately show ?thesis by (simp add: size_mod_def)
qed

lemma size_div_pos:
  "0 < t \<Longrightarrow> in_int t \<Longrightarrow> \<exists>q. size_div w (size_of_int t) = Ok q \<and> uint q = uint w div t"
proof -
  assume "0 < t" "in_int t"
  then have u: "uint (size_of_int t) = t" and "size_of_int t \<noteq> 0"
    using uint_size_of_pos by blast+
  then show ?thesis using u by (simp add: size_div_def uint_div)
qed

text \<open>The range of an axis in the domain of the theorems about divisors.\<close>

definition small_range :: "64 word \<Rightarrow> bool" where
  "small_range w \<longleftrightarrow> 0 < uint w \<and> uint w < 2 ^ 52"

lemma divisor_of_range:
  assumes "0 < limit" "small_range w"
  obtains d where "GetLargestDivisor limit (int64_of_size w) = Ok d" "0 < d" "d \<le> limit" "d dvd uint w"
proof -
  have "int64_of_size w = uint w" using assms(2) by (simp add: small_range_def int64_of_size_small)
  then show ?thesis
    using that divisor_divides [of limit "uint w"] assms by (auto simp: small_range_def)
qed
text \<open>
  C6: The tile of the N axis of a matrix multiplication divides the range of the axis and does not
  exceed the available memory of the vector unit, whenever some of it is available.
\<close>

theorem N_tile_fits:
  assumes "GetAvailableMemVCSize h nodes vc = Ok a" "0 < a" "in_int a" "small_range (ax_range axis)"
  shows "\<exists>t. GetMatmulAxisNTiling h axis nodes vc = Ok t \<and> 0 < t \<and> t \<le> a \<and> t dvd uint (ax_range axis)"
proof -
  obtain r where r: "round_sqrt a = Ok r" "1 \<le> r" "r * r - r + 1 \<le> a"
    using round_sqrt_bounds [OF assms(2)] by auto
  have sq: "2 * r - 2 \<le> r * r - r + 1"
  proof -
    have "0 \<le> (r - 1) * (r - 2)" using r(2) by (cases "r = 1") simp_all
    then show ?thesis by (simp add: algebra_simps)
  qed
  then have "r \<le> 2 ^ 30" using r(3) assms(3) by (simp add: in_int_def)
  then obtain q where q: "pow2_at_least 1 r = Ok q" "1 \<le> q" "q = 1 \<or> q \<le> 2 * r - 2"
    using pow2_at_least_Ok [of 1 r] by auto
  have fits: "0 < q" "q \<le> a" using q(2,3) sq r(3) assms(2) by auto
  then have "in_int q" using assms(3) by (simp add: in_int_def)
  then obtain m where m: "size_mod (ax_range axis) (size_of_int q) = Ok m" "m = 0 \<longleftrightarrow> q dvd uint (ax_range axis)"
    using size_mod_pos [OF fits(1)] by blast
  obtain d where d: "GetLargestDivisor q (int64_of_size (ax_range axis)) = Ok d" "0 < d" "d \<le> q" "d dvd uint (ax_range axis)"
    using divisor_of_range [OF fits(1) assms(4)] .
  have "int_of_int64 d = d" using d fits \<open>in_int q\<close> by (intro tile_in_int [of _ q]) simp_all
  with assms(1) r q m d fits show ?thesis
    by (auto simp: GetMatmulAxisNTiling_def)
qed

text \<open>The tile of the N axis, or 1 where there is none.\<close>

definition N_tile :: "Axis list \<Rightarrow> int" where
  "N_tile gav = (case List.find (has_type kMatMulAxisN) gav of None \<Rightarrow> 1 | Some a \<Rightarrow> tile a)"

lemma int_ret_below: "0 < x \<Longrightarrow> x \<le> n \<Longrightarrow> in_int n \<Longrightarrow> int_ret x = Ok x"
  by (simp add: int_ret_def in_int_def)

lemma core_step:
  assumes "0 < nc" "in_int nc" "0 < c" "c dvd nc"
  shows "int_div nc c = Ok (nc div c) \<and> 0 < nc div c \<and> in_int (nc div c) \<and>
    0 < c * GetMulticoreFromAxis (nc div c) w \<and> c * GetMulticoreFromAxis (nc div c) w dvd nc \<and>
    int_ret (c * GetMulticoreFromAxis (nc div c) w) = Ok (c * GetMulticoreFromAxis (nc div c) w)"
proof -
  have rest: "nc div c * c = nc" "0 < nc div c"
    using assms by (auto elim!: dvdE simp: zero_less_mult_iff)
  have small: "in_int (nc div c)" using assms rest(2) div_le_self [of nc c] by (simp add: in_int_def)
  note g = multicore_divides [OF rest(2) small, of w]
  have "c * GetMulticoreFromAxis (nc div c) w dvd nc"
    using mult_dvd_mono [OF conjunct2 [OF g] dvd_refl [of c]] rest(1) by (metis mult.commute)
  moreover from this have "c * GetMulticoreFromAxis (nc div c) w \<le> nc" using assms(1) by (rule zdvd_imp_le)
  moreover have "0 < c * GetMulticoreFromAxis (nc div c) w" using assms(3) g by simp
  ultimately show ?thesis using assms g small rest(2) int_ret_below
    by (metis int_div_pos less_imp_le)
qed

lemma batch_cores_Ok:
  assumes "0 < nc" "in_int nc"
  shows "\<exists>c. batch_cores nc gav 1 = Ok c \<and> 0 < c \<and> c dvd nc"
  unfolding batch_cores_def
  by (rule for_each_total [where P = "\<lambda>c. 0 < c \<and> c dvd nc"])
     (use assms core_step in \<open>auto\<close>)


lemma divisor_tile:
  assumes "0 < limit" "in_int limit" "small_range w"
  obtains d where "GetLargestDivisor limit (int64_of_size w) = Ok d" "0 < d" "d \<le> limit" "d dvd uint w"
    "int_of_int64 d = d"
proof -
  obtain d where d: "GetLargestDivisor limit (int64_of_size w) = Ok d" "0 < d" "d \<le> limit" "d dvd uint w"
    using divisor_of_range [OF assms(1,3)] .
  then show ?thesis using that tile_in_int [of d limit] assms(2) by blast
qed

text \<open>
  C7: The tile of the M axis divides the range of the axis, and together with the tile of the N axis
  it fits the available memory of the vector unit; the computation of the cores that are left
  never divides by zero.
\<close>

theorem M_tile_fits:
  assumes "GetAvailableMemVCSize h (g_nodes mg) (mem_VC_size hw) = Ok a" "in_int a"
    and "0 < N_tile gav" "N_tile gav \<le> a" "0 < num_core hw" "in_int (num_core hw)"
    and "small_range (ax_range axis)"
  shows "\<exists>m. GetMatmulAxisMTiling gav h axis mg hw = Ok m \<and> 0 < m \<and> m * N_tile gav \<le> a \<and> m dvd uint (ax_range axis)"
proof -
  define n where "n = (case List.find (has_type kMatMulAxisN) gav of None \<Rightarrow> (1, 1) | Some a \<Rightarrow> (ax_range a, tile a))"
  have tile_n: "snd n = N_tile gav" by (simp add: n_def N_tile_def split: option.split)
  have small_N: "in_int (N_tile gav)" using assms(2-4) by (simp add: in_int_def)
  obtain b where b: "batch_cores (num_core hw) gav 1 = Ok b" "0 < b" "b dvd num_core hw"
    using batch_cores_Ok [OF assms(5,6)] by blast
  obtain q where q: "size_div (fst n) (size_of_int (N_tile gav)) = Ok q"
    using size_div_pos [OF assms(3) small_N] by blast
  note step = core_step [OF assms(5,6) b(2,3), of q]
  define c where "c = (if b < kMinNumOfUsedCores then b * GetMulticoreFromAxis (num_core hw div b) q else b)"
  have c: "0 < c" "c dvd num_core hw" using b step by (simp_all add: c_def)
  note rest = core_step [OF assms(5,6) c]
  obtain r where r: "size_mod (ax_range axis) (size_of_int (num_core hw div c)) = Ok r"
      "r = 0 \<longleftrightarrow> num_core hw div c dvd uint (ax_range axis)"
    using size_mod_pos [of "num_core hw div c"] rest by blast
  have limit: "int_div a (N_tile gav) = Ok (a div N_tile gav)" "0 < a div N_tile gav" "in_int (a div N_tile gav)"
    using assms(2-4) in_int_mono [OF div_nonneg div_le_self, of a "N_tile gav"]
    by (simp_all add: int_div_pos pos_imp_zdiv_pos_iff)
  define w where "w = (if r = 0 then ax_range axis div size_of_int (num_core hw div c) else ax_range axis)"
  have w: "small_range w \<and> uint w dvd uint (ax_range axis)"
  proof (cases "r = 0")
    case True
    have u: "uint (size_of_int (num_core hw div c)) = num_core hw div c"
      using rest uint_size_of_pos by blast
    have "num_core hw div c dvd uint (ax_range axis)" using r(2) True by simp
    then have pair: "uint w * (num_core hw div c) = uint (ax_range axis)"
      using True by (simp add: w_def uint_div u)
    then have "uint w \<noteq> 0" using assms(7) by (metis small_range_def mult_zero_left less_irrefl)
    then have "0 < uint w" using uint_ge_0 [of w] by linarith
    moreover have "uint w dvd uint (ax_range axis)" using pair by (metis dvd_triv_left)
    ultimately show ?thesis
      using assms(7) zdvd_imp_le [of "uint w" "uint (ax_range axis)"] by (auto simp: small_range_def)
  qed (use assms(7) in \<open>simp add: w_def\<close>)
  then obtain m where m: "GetLargestDivisor (a div N_tile gav) (int64_of_size w) = Ok m" "0 < m"
      "m \<le> a div N_tile gav" "m dvd uint w" "int_of_int64 m = m"
    using divisor_tile [OF limit(2,3), of w] by blast
  have nonzero: "size_of_int (num_core hw div c) \<noteq> 0"
    using rest uint_size_of_pos by blast
  have cores: "(if b < kMinNumOfUsedCores
       then res_bind (int_div (num_core hw) b) (\<lambda>rest. res_bind (size_div (fst n) (size_of_int (N_tile gav))) (\<lambda>n.
              int_ret (b * GetMulticoreFromAxis rest n))) else Ok b) = Ok c"
    using step q by (simp add: c_def)
  have divisor: "(if r = 0
       then res_bind (size_div (ax_range axis) (size_of_int (num_core hw div c))) (\<lambda>q.
              GetLargestDivisor (a div N_tile gav) (int64_of_size q))
       else GetLargestDivisor (a div N_tile gav) (int64_of_size (ax_range axis))) = Ok m"
    using m(1) nonzero by (auto simp: w_def size_div_def tile_n)
  have "GetMatmulAxisMTiling gav h axis mg hw = Ok m"
    unfolding GetMatmulAxisMTiling_def n_def [symmetric] Let_def case_prod_beta assms(1) b(1) cores res_bind_simps
      tile_n limit(1) conjunct1 [OF rest] r(1) divisor m(5) ..
  moreover have "m * N_tile gav \<le> a"
    using m(3) le_div_iff [OF assms(3)] by simp
  ultimately show ?thesis using m(2,4) w dvd_trans by blast
qed


lemma even_half: "2 dvd t \<Longrightarrow> 0 < t \<Longrightarrow> 0 < t div 2 \<and> t div 2 dvd t \<and> t div 2 \<le> t" for t :: int
  by (auto elim!: dvdE)

text \<open>
  C8: The tile of the K axis divides the range of the axis, and one block of it along the larger of
  the N and M tiles fits the memory of the cube unit, also after the tile is halved for double
  buffering; the second-level tile, where there is one, divides the range too and fits its memory.
\<close>

theorem K_tile_fits:
  assumes "N_and_M_axis ((1, 1), (1, 1)) gav = ((nt, nr), (mt, mr))"
    and "0 < nt" "0 < mt" "0 \<le> mem_C0_size hw" "in_int (mem_C0_size hw)"
    and "max nt mt \<le> mem_C0_size hw div 512" "0 \<le> mem_C1_size hw" "in_int (mem_C1_size hw)"
    and "nt + mt \<le> mem_C1_size hw div 512" "small_range (ax_range axis)"
  shows "\<exists>t axis'. GetMatmulAxisKTiling gav axis mg hw = Ok (t, axis') \<and> 0 < t \<and>
    t * max nt mt \<le> mem_C0_size hw div 512 \<and> t dvd uint (ax_range axis) \<and>
    (axis' = axis \<or> (\<exists>c. axis' = axis\<lparr>c1_tiling := c\<rparr> \<and> 0 < c \<and>
       c * (nt + mt) \<le> mem_C1_size hw div 512 \<and> c dvd uint (ax_range axis)))"
proof -
  define C0 C1 where "C0 = mem_C0_size hw div 512" and "C1 = mem_C1_size hw div 512"
  have C: "int_div (mem_C0_size hw) kC0DataSizePerBatch = Ok C0" "int_div (mem_C1_size hw) kC1DataSizePerBatch = Ok C1"
      "in_int C0" "in_int C1"
    using assms in_int_mono [OF div_nonneg div_le_self]
    by (simp_all add: C0_def C1_def int_div_pos kC0DataSizePerBatch_def kC1DataSizePerBatch_def)
  have quot: "int_div x y = Ok (x div y) \<and> 0 < x div y \<and> in_int (x div y)" if "0 < y" "y \<le> x" "in_int x" for x y
    using that in_int_mono [OF div_nonneg div_le_self, of x y] by (simp add: int_div_pos pos_imp_zdiv_pos_iff)
  have fit0: "0 < max nt mt" "max nt mt \<le> C0" and fit1: "0 < nt + mt" "nt + mt \<le> C1"
    using assms by (simp_all add: C0_def C1_def)
  note q0 = quot [OF fit0 C(3)] and q1 = quot [OF fit1 C(4)]
  have limit: "K_limit hw nt mt = Ok (C0 div max nt mt)"
    unfolding K_limit_def C res_bind_simps
    using q0 by (cases "mt = nt") (auto simp: max_def split: if_splits)
  obtain k where k: "GetLargestDivisor (C0 div max nt mt) (int64_of_size (ax_range axis)) = Ok k" "0 < k"
      "k \<le> C0 div max nt mt" "k dvd uint (ax_range axis)" "int_of_int64 k = k"
    using divisor_tile q0 assms(10) by blast
  obtain c where c: "GetLargestDivisor (C1 div (nt + mt)) (int64_of_size (ax_range axis)) = Ok c" "0 < c"
      "c \<le> C1 div (nt + mt)" "c dvd uint (ax_range axis)" "int_of_int64 c = c"
    using divisor_tile q1 assms(10) by blast
  have sum: "int_ret (nt + mt) = Ok (nt + mt)"
    using fit1 C(4) by (rule int_ret_below)
  have in_k: "in_int k" using k(2,3) q0 by (simp add: in_int_def)
  define largest where "largest = (if nr \<ge> mr then nr * ax_range axis else mr * ax_range axis)"
  define halve where "halve \<longleftrightarrow> is_activated_double_buffer mg \<and> largest < size_of_int kLargeTensorSize \<and> k mod kByTwo = 0"
  define t where "t = (if halve then k div 2 else k)"
  have halved: "double_buffer_tile mg largest k = Ok t"
    using k(2) in_k unfolding double_buffer_tile_def halve_def [symmetric]
    by (simp add: t_def int_div_pos kByTwo_def)
  have second: "second_level_tile hw nt mt axis = Ok c"
    unfolding second_level_tile_def C sum conjunct1 [OF q1] c(1,5) res_bind_simps ..
  have t: "0 < t" "t dvd uint (ax_range axis)" "t \<le> C0 div max nt mt"
    using even_half [of k] k(2-4) dvd_trans
    by (auto simp: t_def halve_def kByTwo_def dvd_eq_mod_eq_0 [symmetric])
  have eval: "GetMatmulAxisKTiling gav axis mg hw =
      (if nr * mr \<ge> size_of_int kLargeTensorSize then Ok (t, axis\<lparr>c1_tiling := c\<rparr>) else Ok (t, axis))"
    unfolding GetMatmulAxisKTiling_def assms(1) prod.case limit k(1,5) res_bind_simps
      largest_def [symmetric] halved second ..
  have "t * max nt mt \<le> C0" "c * (nt + mt) \<le> C1"
    using t(3) c(3) le_div_iff fit0 fit1 by blast+
  with t(1,2) c(2,4) show ?thesis unfolding eval C0_def C1_def by auto
qed

section \<open>Witnesses\<close>

definition cube_heap :: Heap where
  "cube_heap = \<lparr>nodes_at = (\<lambda>_. new_node\<lparr>n_op := Op_Input\<rparr>)(0 := new_node\<lparr>n_op := Op_BatchMatMul, pred := [1, 2]\<rparr>),
     tensors_at = (\<lambda>_. new_tensor), next_node = 3, next_tensor = 0\<rparr>"

definition cube_graph :: ModelGraph where
  "cube_graph = \<lparr>g_name = ''mm'', g_nodes = [0], g_inputs = [1, 2], g_outputs = [0], critical_nodes = [0],
     is_activated_double_buffer = True\<rparr>"

definition cube_hardware :: Hardware where
  "cube_hardware = \<lparr>num_core = 32, mem_VC_size = 262144, mem_C1_size = 1048576, mem_C0_size = 65536,
     mem_VC_align = 32, mem_C1_align = 512, vblocknum = 8, vblocksize = 32\<rparr>"

definition axis_N :: Axis where
  "axis_N = new_axis\<lparr>ax_range := 128, ax_type := {kMatMulAxisN}, tile := 16\<rparr>"

definition axis_M :: Axis where
  "axis_M = new_axis\<lparr>ax_range := 96, ax_type := {kMatMulAxisM}, tile := 3\<rparr>"

definition axis_K :: Axis where
  "axis_K = new_axis\<lparr>ax_range := 20, ax_type := {kMatMulAxisK}\<rparr>"

lemmas cube_sample_simps = cube_heap_def cube_graph_def cube_hardware_def axis_N_def axis_M_def axis_K_def
  new_axis_def new_node_def has_type_def small_range_def in_int_def

lemma cube_memory: "GetAvailableMemVCSize cube_heap [0] 262144 = Ok 256"
  by (simp add: GetAvailableMemVCSize_def IsNotReused_def HasElemwiseMultiPredInputOps_def node_not_reused_def
      is_matmul_def halve_if_def int_div_pos kVCDataSizePerBatch_def cube_sample_simps)

theorem N_tile_fits_witness:
  "\<exists>t. GetMatmulAxisNTiling cube_heap axis_N [0] 262144 = Ok t \<and> t \<le> 256 \<and> t dvd 128"
  using N_tile_fits [OF cube_memory, of axis_N] by (auto simp: cube_sample_simps)

theorem M_tile_fits_witness:
  "\<exists>m. GetMatmulAxisMTiling [axis_N, axis_M] cube_heap axis_M cube_graph cube_hardware = Ok m \<and> m * 16 \<le> 256 \<and> m dvd 96"
proof -
  have mem: "GetAvailableMemVCSize cube_heap (g_nodes cube_graph) (mem_VC_size cube_hardware) = Ok 256"
    using cube_memory by (simp add: cube_graph_def cube_hardware_def)
  have "N_tile [axis_N, axis_M] = 16" by (simp add: N_tile_def cube_sample_simps)
  then show ?thesis
    using M_tile_fits [OF mem, of "[axis_N, axis_M]" axis_M] by (auto simp: cube_sample_simps)
qed

theorem K_tile_fits_witness:
  "\<exists>t a. GetMatmulAxisKTiling [axis_N, axis_M, axis_K] axis_K cube_graph cube_hardware = Ok (t, a) \<and> t * 16 \<le> 128 \<and> t dvd 20"
proof -
  have "N_and_M_axis ((1, 1), (1, 1)) [axis_N, axis_M, axis_K] = ((16, 128), (3, 96))"
    by (simp add: cube_sample_simps)
  from K_tile_fits [OF this, of cube_hardware axis_K cube_graph] show ?thesis
    by (auto simp: cube_sample_simps)
qed

end
