(* ===== verification/Hermes_Tiling_Bounds.thy ===== *)
theory Hermes_Tiling_Bounds
  imports Hermes_Tiling Hermes_Cube_Bounds
begin

text \<open>
  What the tiling guarantees beyond single tiles of a matrix multiplication: powers of two, the end
  of the recursion of the vector tiling, the bounds of multicore tiles, the copying of tiles into
  the dimensions, and the tiles of a whole graph with a matrix multiplication.
\<close>

section \<open>Powers of two\<close>

lemma pow2_below_Ok:
  "i = 2 ^ j \<Longrightarrow> i < n \<Longrightarrow> n \<le> 2 ^ 30 \<Longrightarrow> \<exists>k. pow2_below i n r = Ok (2 ^ k) \<and> 2 ^ k < n \<and> n \<le> 2 * 2 ^ k"
proof (induction i n r arbitrary: j rule: pow2_below.induct)
  case (1 i n r)
  have pos: "0 < i" using 1 by simp
  have Ok2: "int_ret (i * kByTwo) = Ok (i * 2)"
    unfolding int_ret_def using "1.prems"(2,3) pos by (simp add: kByTwo_def in_int_def)
  have step: "pow2_below i n r = pow2_below (i * 2) n i"
    unfolding pow2_below.simps [of i n r] Ok2 using 1 pos by simp
  show ?case
  proof (cases "i * 2 < n")
    case True
    have "\<exists>k. pow2_below (i * 2) n i = Ok (2 ^ k) \<and> 2 ^ k < n \<and> n \<le> 2 * 2 ^ k"
      by (rule "1.IH" [OF _ "1.prems"(2) Ok2, of "Suc j"]) (use 1 True pos in simp_all)
    then show ?thesis unfolding step .
  next
    case False
    then have "pow2_below (i * 2) n i = Ok i" using pos by (simp add: pow2_below.simps [of "i * 2"])
    then show ?thesis using 1 False step by auto
  qed
qed

lemma pow2_below_overflow:
  "i = 2 ^ j \<Longrightarrow> i \<le> 2 ^ 30 \<Longrightarrow> 2 ^ 30 < n \<Longrightarrow> pow2_below i n r = Err Signed_overflow"
proof (induction i n r arbitrary: j rule: pow2_below.induct)
  case (1 i n r)
  have pos: "0 < i" using 1 by simp
  show ?case
  proof (cases "i = 2 ^ 30")
    case True
    then show ?thesis using "1.prems"(3)
      unfolding pow2_below.simps [of i n r] by (simp add: int_ret_def in_int_def kByTwo_def)
  next
    case False
    with 1 have "j < 30"
      by (metis le_less_trans less_le nat_neq_iff not_less one_less_numeral_iff power_strict_increasing_iff semiring_norm(76) power_inject_exp)
    then have le: "i * 2 \<le> 2 ^ 30" using 1(2) power_increasing [of "Suc j" 30 "2 :: int"] by simp
    have Ok2: "int_ret (i * kByTwo) = Ok (i * 2)"
      unfolding int_ret_def using le pos by (simp add: kByTwo_def in_int_def)
    have "pow2_below (i * 2) n i = Err Signed_overflow"
      by (rule "1.IH" [OF _ _ Ok2, of "Suc j"]) (use 1 le pos in simp_all)
    then show ?thesis unfolding pow2_below.simps [of i n r] Ok2 using 1 pos by simp
  qed
qed

lemma Get2PowerBelow_small: "n \<le> 1 \<Longrightarrow> Get2PowerBelow n = Ok n"
  by (simp add: Get2PowerBelow_def pow2_below.simps [of 1])

lemma Get2PowerBelow_mid:
  "1 < n \<Longrightarrow> n \<le> 2 ^ 30 \<Longrightarrow> \<exists>k. Get2PowerBelow n = Ok (2 ^ k) \<and> 2 ^ k < n \<and> n \<le> 2 * 2 ^ k"
  using pow2_below_Ok [of 1 0 n n] by (simp add: Get2PowerBelow_def)

lemma Get2PowerBelow_big: "2 ^ 30 < n \<Longrightarrow> Get2PowerBelow n = Err Signed_overflow"
  using pow2_below_overflow [of 1 0 n n] by (simp add: Get2PowerBelow_def)

lemma Get2PowerBelow_Ok: "Get2PowerBelow n = Ok m \<Longrightarrow> 1 < n \<Longrightarrow> \<exists>k. m = 2 ^ k \<and> m < n \<and> n \<le> 2 * m"
  using Get2PowerBelow_mid [of n] Get2PowerBelow_big [of n] by fastforce

lemma and_pow2_pred: "and (2 ^ k) (2 ^ k - 1 :: int) = 0"
  by (simp add: mask_eq_exp_minus_1 [symmetric] take_bit_eq_mask [symmetric])

text \<open>A positive value is replaced by a power of two of which it has less than two.\<close>

lemma to_pow2_Ok: "to_pow2 a = Ok b \<Longrightarrow> 1 \<le> a \<Longrightarrow> 1 \<le> b \<and> b \<le> a \<and> a < 2 * b"
proof -
  assume b: "to_pow2 a = Ok b" and a: "1 \<le> a"
  show ?thesis
  proof (cases "and a (a - 1) = 0")
    case True
    with a b show ?thesis by (auto simp: to_pow2_def is_pow2_or_0_def res_bind_Ok_conv)
  next
    case False
    with b have "Get2PowerBelow a = Ok b" by (auto simp: to_pow2_def is_pow2_or_0_def res_bind_Ok_conv)
    moreover have "1 < a" using a False by (cases "a = 1") simp_all
    ultimately obtain k where k: "b = 2 ^ k" "b < a" "a \<le> 2 * b" using Get2PowerBelow_Ok by blast
    have "a \<noteq> 2 * b" using False k(1) and_pow2_pred [of "Suc k"] by auto
    with k show ?thesis by auto
  qed
qed


lemma Get2PowerBelow_eq:
  "Get2PowerBelow n =
     (if n \<le> 1 then Ok n
      else if n \<le> 2 ^ 30 then Ok (Max {x. x < n \<and> (\<exists>k. x = 2 ^ k)})
      else Err Signed_overflow)"
proof (cases "1 < n \<and> n \<le> 2 ^ 30")
  case True
  then obtain k where k: "Get2PowerBelow n = Ok (2 ^ k)" "2 ^ k < n" "n \<le> 2 * 2 ^ k"
    using Get2PowerBelow_mid by blast
  have "finite {x. x < n \<and> (\<exists>k. x = 2 ^ k)}"
    by (rule finite_subset [of _ "{0 .. n}"]) auto
  moreover have "x \<le> 2 ^ k" if "x < n" "x = 2 ^ j" for x j
  proof -
    have "(2 :: int) ^ j < 2 ^ Suc k" using that k(3) by simp
    then have "j < Suc k" by (simp only: power_strict_increasing_iff)
    then show ?thesis using that by simp
  qed
  ultimately have "Max {x. x < n \<and> (\<exists>k. x = 2 ^ k)} = 2 ^ k"
    using k(2) by (intro Max_eqI) auto
  with True k(1) show ?thesis by simp
qed (use Get2PowerBelow_small Get2PowerBelow_big in auto)

text \<open>
  \<open>Get2PowerBelow\<close> is the largest power of two below its argument, the argument itself up to 1,
  and signed overflow (undefined behaviour) above \<open>2 ^ 30\<close>.
\<close>

theorem power_of_two_below:
  "Get2PowerBelow n =
     (if n \<le> 1 then Ok n
      else if n \<le> 2 ^ 30 then Ok (Max {x. x < n \<and> (\<exists>k. x = 2 ^ k)})
      else Err Signed_overflow)"
  by (rule Get2PowerBelow_eq)

section \<open>No bound on a loop is exhausted\<close>

definition fuel_ok :: "'a res \<Rightarrow> bool" where
  "fuel_ok r \<longleftrightarrow> r \<noteq> Err Out_of_fuel"

named_theorems fuel_intros "how a computation avoids running out of fuel"

lemma fuel_Ok [fuel_intros]: "fuel_ok (Ok x)"
  by (simp add: fuel_ok_def)

lemma fuel_bind [fuel_intros]:
  "fuel_ok r \<Longrightarrow> (\<And>x. r = Ok x \<Longrightarrow> fuel_ok (f x)) \<Longrightarrow> fuel_ok (res_bind r f)"
  by (cases r) (simp_all add: fuel_ok_def)

lemma fuel_if [fuel_intros]: "(b \<Longrightarrow> fuel_ok r) \<Longrightarrow> (\<not> b \<Longrightarrow> fuel_ok s) \<Longrightarrow> fuel_ok (if b then r else s)"
  by simp

lemma fuel_prod [fuel_intros]: "(\<And>a b. p = (a, b) \<Longrightarrow> fuel_ok (f a b)) \<Longrightarrow> fuel_ok (case p of (a, b) \<Rightarrow> f a b)"
  by (cases p) simp

lemma fuel_Let [fuel_intros]: "(\<And>y. y = x \<Longrightarrow> fuel_ok (f y)) \<Longrightarrow> fuel_ok (let y = x in f y)"
  by simp

lemma fuel_for_each [fuel_intros]:
  "(\<And>x s. x \<in> set xs \<Longrightarrow> fuel_ok (f x s)) \<Longrightarrow> fuel_ok (for_each f xs s)"
  by (induction xs arbitrary: s) (auto intro!: fuel_Ok fuel_bind)

lemma fuel_Err [simp]: "fuel_ok (Err e) \<longleftrightarrow> e \<noteq> Out_of_fuel"
  by (simp add: fuel_ok_def)

lemma fuel_arith [fuel_intros]:
  "fuel_ok (int_ret x)" "fuel_ok (int64_ret x)" "fuel_ok (int_div x y)" "fuel_ok (int_mod x y)"
  "fuel_ok (size_div u v)" "fuel_ok (size_mod u v)" "fuel_ok (vec_at xs i)" "fuel_ok (vec_back xs)"
  by (auto simp: int_ret_def int64_ret_def int_div_def int_mod_def size_div_def size_mod_def vec_at_def vec_back_def
      intro!: fuel_intros)

lemma fuel_round_pos: "fuel_ok (round_pos x)"
  unfolding round_pos_def by (intro fuel_intros) simp_all

lemma fuel_round32: "fuel_ok (round32 x)"
  unfolding round32_def by (intro fuel_intros fuel_round_pos)

lemma fuel_floats [fuel_intros]:
  "fuel_ok (round32 x)" "fuel_ok (f_of_int i)" "fuel_ok (f_mul x y)" "fuel_ok (f_add x y)" "fuel_ok (f_div x y)"
  "fuel_ok (int_of_f x)" "fuel_ok (round_to_int x)"
  by (auto simp: f_of_int_def f_mul_def f_add_def f_div_def int_of_f_def round_to_int_def Let_def fuel_round32
      intro!: fuel_intros)

lemma fuel_coef [fuel_intros]: "fuel_ok (GetDataTypeCoef t)"
  by (simp add: GetDataTypeCoef_coef fuel_Ok)

lemma fuel_pow2 [fuel_intros]: "fuel_ok (Get2PowerBelow n)" "fuel_ok (to_pow2 n)"
  by (auto simp: Get2PowerBelow_eq to_pow2_def is_pow2_or_0_def intro!: fuel_intros)

lemma fuel_min_shape [fuel_intros]: "fuel_ok (GetMinShapeAndDataCoef h nodes axis)"
  unfolding GetMinShapeAndDataCoef_def min_shape_step_def
  by (intro fuel_intros) (auto split: option.split intro!: fuel_intros)

lemma fuel_scale_pair [fuel_intros]: "(\<And>x. fuel_ok (f x)) \<Longrightarrow> fuel_ok (scale_pair f p)"
  unfolding scale_pair_def by (intro fuel_intros) simp_all

lemma fuel_axis_sizes [fuel_intros]: "fuel_ok (GetTileAndMulticoreAxisSizes axis c gav s)"
  unfolding GetTileAndMulticoreAxisSizes_def by (intro fuel_intros)

lemma fuel_align [fuel_intros]: "fuel_ok (GetNewAlignMissFactor m c gav a)"
  unfolding GetNewAlignMissFactor_def by (intro fuel_intros)

lemma fuel_count [fuel_intros]: "fuel_ok (count_node gav h axis al c b)"
  unfolding count_node_def count_axis_node_def count_other_node_def by (intro fuel_intros)

lemma fuel_alloc [fuel_intros]: "fuel_ok (GetMaxAllocAndUpperBoundBuffer gav h vc al axis critical)"
  unfolding GetMaxAllocAndUpperBoundBuffer_def by (intro fuel_intros)

lemma fuel_last_dim [fuel_intros]: "fuel_ok (GetLastDimAxis gav)"
  unfolding GetLastDimAxis_def by (intro fuel_intros)

lemma fuel_granularity [fuel_intros]: "fuel_ok (GetTileFromRemainingVecGranularity a d r)"
  unfolding GetTileFromRemainingVecGranularity_def by (intro fuel_intros)

lemma fuel_skip [fuel_intros]: "fuel_ok (skip_factor a t nc i)"
  unfolding skip_factor_def by (intro fuel_intros)

lemma fuel_grow [fuel_intros]:
  "(\<And>g. fuel_ok (alloc g)) \<Longrightarrow> fuel_ok (grow_tile alloc nc r k t is s)"
proof (induction "is" arbitrary: s)
  case (Cons i "is")
  show ?case unfolding grow_tile.simps by (intro fuel_intros Cons)
qed (simp add: fuel_Ok)

lemma fuel_extend [fuel_intros]:
  "(\<And>g. fuel_ok (alloc g)) \<Longrightarrow> fuel_ok (ExtendMulticoreAxisTile alloc m nc r d gav)"
  unfolding ExtendMulticoreAxisTile_def extend_axis_def by (intro fuel_intros)

lemma fuel_initial [fuel_intros]:
  "(\<And>x n. fuel_ok (libm_root x n)) \<Longrightarrow> fuel_ok (initial_vec_tile libm_root axis l s m u)"
  unfolding initial_vec_tile_def by (intro fuel_intros)

lemma fuel_vec_round:
  "(\<And>x n. fuel_ok (libm_root x n)) \<Longrightarrow> fuel_ok (vec_round libm_root h axis mg hw gav)"
  unfolding vec_round_def Let_def by (intro fuel_intros)

section \<open>The recursion of the vector tiling\<close>

lemma remaining_at_most_one:
  assumes "int_div m r = Ok q" "1 \<le> r" "m < 2 * r" "0 \<le> m"
  shows "q \<le> 1"
proof -
  have "q = m div r" using assms by (auto simp: int_div_def sdiv_nonneg split: if_splits)
  moreover have "m div r < 2"
    using le_div_iff [of r 2 m] assms(2,3) by linarith
  ultimately show ?thesis by simp
qed

lemma Extend_unchanged:
  "1 \<le> r \<Longrightarrow> m < 2 * r \<Longrightarrow> 0 \<le> m \<Longrightarrow> ExtendMulticoreAxisTile alloc m nc r d gav = Ok gav' \<Longrightarrow> gav' = gav"
  using remaining_at_most_one
  by (auto simp: ExtendMulticoreAxisTile_def res_bind_Ok_conv split: if_splits)

lemma second_last_update [simp]:
  "second_last_global_axis (gav[k := (gav ! k)\<lparr>tile := t\<rparr>]) = second_last_global_axis gav"
proof -
  have "is_inner (gav[k := (gav ! k)\<lparr>tile := t\<rparr>] ! i) = is_inner (gav ! i)" if "i < length gav" for i
    using that by (cases "i = k") simp_all
  then have "filter (\<lambda>i. \<not> is_inner (gav[k := (gav ! k)\<lparr>tile := t\<rparr>] ! i)) (rev [0 ..< length gav])
      = filter (\<lambda>i. \<not> is_inner (gav ! i)) (rev [0 ..< length gav])"
    by (intro filter_cong) auto
  then show ?thesis by (simp add: second_last_global_axis_def)
qed

text \<open>The tile of the penultimate axis, which every recursive call makes smaller.\<close>

definition penultimate_tile :: "Axis list \<Rightarrow> int" where
  "penultimate_tile gav = tile (gav ! second_last_global_axis gav)"

lemma vec_round_shrinks:
  assumes "vec_round libm_root h axis mg hw gav = Ok (Inr gav')" "1 \<le> vblocknum hw"
  shows "0 < penultimate_tile gav' \<and> penultimate_tile gav' < penultimate_tile gav"
proof -
  define s where "s = int_of_size (ax_range axis)"
  from assms(1) obtain m u r d g t where
    alloc: "GetMaxAllocAndUpperBoundBuffer gav h (mem_VC_size hw) (mem_VC_align hw) axis (critical_nodes mg) = Ok (m, u)"
    and init: "initial_vec_tile libm_root axis (dim_axis axis) s m u = Ok r"
    and ext: "ExtendMulticoreAxisTile (\<lambda>gav. res_bind (GetMaxAllocAndUpperBoundBuffer gav h (mem_VC_size hw)
        (mem_VC_align hw) axis (critical_nodes mg)) (\<lambda>(m, _). Ok m)) m (num_core hw) r d gav = Ok g"
    and k: "second_last_global_axis g < length g"
    and shrink: "shrink_penultimate (g ! second_last_global_axis g) axis (vblocknum hw) r s"
    and t: "Get2PowerBelow (tile (g ! second_last_global_axis g)) = Ok t"
    and gav': "gav' = g[second_last_global_axis g := (g ! second_last_global_axis g)\<lparr>tile := t\<rparr>]"
    by (auto simp: vec_round_def Let_def res_bind_Ok_conv vec_at_def s_def split: if_splits)
  have m: "1 \<le> m" using alloc by (auto simp: GetMaxAllocAndUpperBoundBuffer_def Let_def res_bind_Ok_conv case_prod_beta)
  have "r < s" using shrink by (simp add: shrink_penultimate_def)
  with init have "min m s \<noteq> s" and "to_pow2 (min m s) = Ok r"
    by (auto simp: initial_vec_tile_def Let_def res_bind_Ok_conv split: if_splits)
  then have r: "1 \<le> r" "m < 2 * r" using to_pow2_Ok [of m r] m by (auto simp: min_def split: if_splits)
  have g: "g = gav" using Extend_unchanged [OF r _ ext] m by simp
  have "1 < tile (g ! second_last_global_axis g)"
    using shrink r(1) assms(2) by (auto simp: shrink_penultimate_def)
  with t have "0 < t" "t < tile (g ! second_last_global_axis g)"
    using Get2PowerBelow_Ok by fastforce+
  with k show ?thesis by (simp add: gav' g penultimate_tile_def)
qed

text \<open>
  C9: The recursion of \<open>GetVecAxis\<close> ends: every call makes the tile of the penultimate axis smaller,
  so a bound above that tile is never exhausted and no larger bound changes the result.
\<close>

theorem vec_axis_terminates:
  assumes "1 \<le> vblocknum hw" "\<And>x n. libm_root x n \<noteq> Err Out_of_fuel" "nat (penultimate_tile gav) < fuel"
  shows "GetVecAxis fuel libm_root h axis mg hw gav \<noteq> Err Out_of_fuel \<and>
    GetVecAxis (fuel + extra) libm_root h axis mg hw gav = GetVecAxis fuel libm_root h axis mg hw gav"
  using assms(3)
proof (induction fuel arbitrary: gav)
  case (Suc fuel)
  have round: "fuel_ok (vec_round libm_root h axis mg hw gav)"
    by (rule fuel_vec_round) (simp add: fuel_ok_def assms(2))
  show ?case
  proof (cases "vec_round libm_root h axis mg hw gav")
    case (Ok r)
    show ?thesis
    proof (cases r)
      case (Inr gav')
      have "nat (penultimate_tile gav') < fuel"
        using vec_round_shrinks [OF _ assms(1), of libm_root h axis mg gav gav'] Ok Inr Suc.prems by auto
      with Ok Inr Suc.IH show ?thesis by simp
    qed (simp add: Ok)
  qed (use round in \<open>simp add: fuel_ok_def\<close>)
qed simp

theorem vec_axis_terminates_witness:
  "GetVecAxis 17 (\<lambda>x n. Ok x) cube_heap axis_M cube_graph cube_hardware [axis_N, axis_M] \<noteq> Err Out_of_fuel"
proof -
  have "penultimate_tile [axis_N, axis_M] = 16"
    by (simp add: penultimate_tile_def second_last_global_axis_def kSecondAxis_def axis_N_def axis_M_def new_axis_def)
  then show ?thesis
    using vec_axis_terminates [of cube_hardware "\<lambda>x n. Ok x" "[axis_N, axis_M]" 17 cube_heap axis_M cube_graph 0]
    by (simp add: cube_hardware_def)
qed

section \<open>Multicore axes\<close>

text \<open>
  On an axis with at least one element, for a machine with at least two cores, the tile chosen
  next to a reduction along Y lies between 1 and the length of the axis, and short axes are not
  split.
\<close>

theorem reduce_y_tile_bounds:
  assumes "1 \<le> s" "in_int s" "2 \<le> num_core hw"
  shows "\<exists>t. GetMcReduceYAxisSize hw s fp16 outs = Ok t \<and> 1 \<le> t \<and> t \<le> s \<and> (s < 64 \<longrightarrow> t = s)"
proof -
  have half: "s div num_core hw \<le> s div 2" using assms by (intro zdiv_mono2) simp_all
  have small: "s div 2 \<le> 2 ^ 30" using assms(2) by (simp add: in_int_def) presburger
  have mod_nc: "int_mod s (num_core hw) = Ok (s mod num_core hw)" and div_nc: "int_div s (num_core hw) = Ok (s div num_core hw)"
    using assms by (simp_all add: int_mod_pos int_div_pos)
  have pos: "1 \<le> s div num_core hw" if "s mod num_core hw = 0"
  proof -
    have "num_core hw dvd s" using that by (simp add: dvd_eq_mod_eq_0)
    then have "num_core hw \<le> s" using assms(1) by (intro zdvd_imp_le) simp_all
    then show ?thesis using assms by (simp add: pos_imp_zdiv_pos_iff int_one_le_iff_zero_less)
  qed
  define m where "m = (if s mod num_core hw = 0 then s div num_core hw else 1)"
  have m: "1 \<le> m" "m \<le> s" "m \<le> 2 ^ 30"
    using pos half small assms(1) by (auto simp: m_def)
  obtain p where p: "(if outs > 1 then Get2PowerBelow m else Ok m) = Ok p" "1 \<le> p" "p \<le> s"
  proof (cases "outs > 1 \<and> 1 < m")
    case True
    then obtain k where "Get2PowerBelow m = Ok (2 ^ k)" "2 ^ k < m" using Get2PowerBelow_mid m(3) by blast
    with True m(2) show ?thesis by (intro that [of "2 ^ k"]) simp_all
  next
    case False
    with m show ?thesis by (intro that [of m]) (auto simp: Get2PowerBelow_small)
  qed
  define g where "g = (if fp16 then kFloat16LoadGranularity else kFloat32LoadGranularity)"
  have g: "1 \<le> g" by (simp add: g_def kFloat16LoadGranularity_def kFloat32LoadGranularity_def)
  have mod_g: "int_mod p g = Ok (p mod g)"
    using p g assms(2) by (intro int_mod_pos) (simp_all add: in_int_def)
  have first: "(if num_core hw > 0
       then res_bind (int_mod s (num_core hw)) (\<lambda>r. if r = 0 then int_div s (num_core hw) else Ok 1) else Ok 1) = Ok m"
    using assms(3) by (simp add: mod_nc div_nc m_def)
  have "GetMcReduceYAxisSize hw s fp16 outs =
      Ok (if s < 64 then s else if p mod g \<noteq> 0 \<and> s \<ge> g then g else p)"
    unfolding GetMcReduceYAxisSize_def first res_bind_simps p(1) Let_def g_def [symmetric] mod_g
    by (simp add: kReduceMinShapeThreshold_def)
  then show ?thesis using p g assms(1) by auto
qed

theorem reduce_y_tile_bounds_witness:
  "\<exists>t. GetMcReduceYAxisSize cube_hardware 4096 True 2 = Ok t \<and> 1 \<le> t \<and> t \<le> 4096"
  using reduce_y_tile_bounds [of 4096 cube_hardware True 2] by (auto simp: cube_hardware_def in_int_def)

text \<open>
  On the hardware the tiling is written for, the tile of any other multicore axis lies between 1
  and the length of the axis for every size of data type.
\<close>

theorem mc_tile_bounds:
  assumes "1 \<le> s" "num_core hw = kNumCore" "vblocksize hw = kVBlockSize"
  shows "\<exists>t. GetMcAxisSize hw s (coef d) = Ok t \<and> 1 \<le> t \<and> t \<le> s"
proof -
  have "coef d = 1 \<or> coef d = 2 \<or> coef d = 4 \<or> coef d = 8" using coef_cases [of d] by blast
  then show ?thesis using assms
    by (elim disjE) (simp_all add: GetMcAxisSize_def kNumCore_def kVBlockSize_def kSmallAxisSize_def int_div_pos
        in_int_def int_ret_def SafeDivisor_def)
qed

theorem mc_tile_bounds_witness:
  "\<exists>t. GetMcAxisSize cube_hardware 1000 (coef Float16) = Ok t \<and> 1 \<le> t \<and> t \<le> 1000"
  using mc_tile_bounds [of 1000 cube_hardware Float16] by (simp add: cube_hardware_def kNumCore_def kVBlockSize_def)

lemma min_shape_absent:
  "(\<And>n. n \<in> set nodes \<Longrightarrow> \<not> HasAxis (nodes_at h n) axis) \<Longrightarrow>
     GetMinShapeAndDataCoef h nodes axis = Ok (INT32_MAX, INT32_MAX)"
proof (induction nodes)
  case (Cons n ns)
  have "List.find (\<lambda>a. dim_axis a = dim_axis axis \<and> int_of_size (ax_range a) < INT32_MAX) (axis_of_node (nodes_at h n)) = None"
    using Cons.prems [of n] by (auto simp: find_None_iff HasAxis_def list_ex_iff)
  with Cons show ?case by (simp add: GetMinShapeAndDataCoef_def min_shape_step_def)
qed (simp add: GetMinShapeAndDataCoef_def)

lemma fp16_Ok:
  "(\<And>n. n \<in> set nodes \<Longrightarrow> output_tensors (nodes_at h n) \<noteq> []) \<Longrightarrow> \<exists>b. for_each (fp16_step h) nodes f = Ok b"
  using for_each_total [of nodes "\<lambda>_. True" "fp16_step h" f]
  by (auto simp: fp16_step_def GetDataTypeCoef_coef)

text \<open>
  A multicore axis that no node of the graph has keeps the initial coefficient \<open>INT32_MAX\<close> of the
  search for the smallest shape, and when it is long the tile it is given is 0.
\<close>

theorem mc_tile_absent_axis:
  assumes "\<And>n. n \<in> set (g_nodes mg) \<Longrightarrow>
      \<not> HasAxis (nodes_at h n) axis \<and> op_of h n \<noteq> Op_ReduceY \<and> output_tensors (nodes_at h n) \<noteq> []"
    and "300 < int_of_size (ax_range axis)" "num_core hw = kNumCore" "vblocksize hw = kVBlockSize"
  shows "GetMcAxis h axis mg hw = Ok 0"
proof -
  obtain b where "for_each (fp16_step h) (g_nodes mg) False = Ok b"
    using fp16_Ok [of "g_nodes mg" h False] assms(1) by blast
  moreover have "\<not> list_ex (\<lambda>n. op_of h n = Op_ReduceY) (g_nodes mg)"
    using assms(1) by (auto simp: list_ex_iff)
  moreover have "GetMinShapeAndDataCoef h (g_nodes mg) axis = Ok (INT32_MAX, INT32_MAX)"
    using assms(1) by (intro min_shape_absent) blast
  ultimately show ?thesis using assms(2-)
    by (simp add: GetMcAxis_def GetMcAxisSize_def Let_def INT32_MAX_def int_div_pos in_int_def int_ret_def
        kSmallAxisSize_def SafeDivisor_def kNumCore_def kVBlockSize_def)
qed

definition absent_heap :: Heap where
  "absent_heap = \<lparr>nodes_at = (\<lambda>_. new_node\<lparr>n_op := Op_Exp, output_tensors := [0], axis_of_node := [new_axis]\<rparr>),
     tensors_at = (\<lambda>_. new_tensor), next_node = 1, next_tensor = 1\<rparr>"

theorem mc_tile_absent_axis_witness:
  "GetMcAxis absent_heap (new_axis\<lparr>dim_axis := 1, ax_range := 1000\<rparr>) cube_graph cube_hardware = Ok 0"
  by (rule mc_tile_absent_axis)
     (simp_all add: absent_heap_def cube_graph_def cube_hardware_def new_node_def new_axis_def HasAxis_def
        int_of_size_def kNumCore_def kVBlockSize_def signed_take_bit_int_eq_self_iff)

section \<open>Copying the tiles\<close>

definition outer_axes :: "Axis list \<Rightarrow> Axis list" where
  "outer_axes = filter (\<lambda>a. \<not> is_inner a)"

lemma copy_dims_from:
  assumes "i \<le> min (length dims) (length gav)" "idx \<le> length gav" "i \<le> idx"
  shows "copy_dims gav i idx dims =
    (let rest = outer_axes (drop idx gav); n = min (length dims) (length gav) - i
     in if n \<le> length rest
        then Ok (take i dims @ map (\<lambda>(a, d). tile_size_of a d) (zip (take n rest) (drop i dims)) @ drop (i + n) dims)
        else Err Out_of_bounds)"
  using assms
proof (induction gav i idx dims rule: copy_dims.induct)
  case (1 gav i idx dims)
  let ?n = "min (length dims) (length gav)"
  consider (stop) "i = ?n" | (past) "i < ?n" "idx = length gav" | (inner) "i < ?n" "idx < length gav" "is_inner (gav ! idx)"
    | (outer) "i < ?n" "idx < length gav" "\<not> is_inner (gav ! idx)"
    using "1.prems" by linarith
  then show ?case
  proof cases
    case stop
    then show ?thesis unfolding copy_dims.simps [of gav i idx dims] by simp
  next
    case past
    then show ?thesis by (simp add: copy_dims.simps [of gav i] outer_axes_def Let_def not_le)
  next
    case inner
    then have "outer_axes (drop idx gav) = outer_axes (drop (idx + 1) gav)"
      by (simp add: outer_axes_def Cons_nth_drop_Suc [symmetric])
    moreover have "copy_dims gav i idx dims = copy_dims gav i (idx + 1) dims"
      using inner by (simp add: copy_dims.simps [of gav i idx])
    ultimately show ?thesis using inner "1.IH"(1) [of "gav ! idx"] "1.prems" by simp
  next
    case outer
    define dims' where "dims' = dims[i := tile_size_of (gav ! idx) (dims ! i)]"
    have rest: "outer_axes (drop idx gav) = gav ! idx # outer_axes (drop (idx + 1) gav)"
      using outer by (simp add: outer_axes_def Cons_nth_drop_Suc [symmetric])
    have step: "copy_dims gav i idx dims = copy_dims gav (i + 1) (idx + 1) dims'"
      using outer by (simp add: copy_dims.simps [of gav i idx] dims'_def Let_def)
    have IH: "copy_dims gav (i + 1) (idx + 1) dims' =
        (let rest = outer_axes (drop (idx + 1) gav); n = min (length dims') (length gav) - (i + 1)
         in if n \<le> length rest
            then Ok (take (i + 1) dims' @ map (\<lambda>(a, d). tile_size_of a d) (zip (take n rest) (drop (i + 1) dims')) @ drop (i + 1 + n) dims')
            else Err Out_of_bounds)"
      using "1.IH"(2) [of "gav ! idx"] outer "1.prems" by (simp add: dims'_def Let_def)
    have n: "?n - i = Suc (?n - (i + 1))" using outer(1) by linarith
    have "take (i + 1) dims' = take i dims @ [tile_size_of (gav ! idx) (dims ! i)]"
      using outer by (simp add: dims'_def take_Suc_conv_app_nth)
    moreover have "drop i dims = dims ! i # drop (i + 1) dims"
      using outer by (simp add: Cons_nth_drop_Suc)
    ultimately show ?thesis unfolding step IH rest
      by (simp add: Let_def n dims'_def)
  qed
qed

text \<open>
  \<open>HermesTiling\<close> copies the tiles of the axes that are not inner, in their order, into the
  dimensions of the schedule, as many as there are both dimensions and axes; if there are fewer
  such axes than that, it reads past the end of the vector of axes.
\<close>

theorem copy_dims_outer:
  "copy_dims gav 0 0 dims =
     (let n = min (length dims) (length gav)
      in if n \<le> length (outer_axes gav)
         then Ok (map (\<lambda>(a, d). tile_size_of a d) (zip (take n (outer_axes gav)) dims) @ drop n dims)
         else Err Out_of_bounds)"
  using copy_dims_from [of 0 dims gav 0] by (simp add: Let_def)

section \<open>Graphs of matrix multiplications\<close>

definition cube_labels :: "AxisLabel set" where
  "cube_labels = {kMatMulAxisBatch, kMatMulAxisN, kMatMulAxisM, kMatMulAxis16, kMatMulAxisK}"

text \<open>Classification only adds labels.\<close>

definition grown :: "Axis list \<Rightarrow> Axis list \<Rightarrow> bool" where
  "grown gav gav' \<longleftrightarrow> list_all2 (\<lambda>a b. \<exists>T. b = a\<lparr>ax_type := T \<union> ax_type a\<rparr>) gav gav'"

lemma grown_refl [simp]: "grown gav gav"
  unfolding grown_def by (rule list.rel_refl) (metis Axis.surjective Axis.update_convs(8) Un_empty_left)

lemma grown_trans: "grown a b \<Longrightarrow> grown b c \<Longrightarrow> grown a c"
proof (unfold grown_def, erule (1) list_all2_trans [rotated])
  fix x y z :: Axis
  assume "\<exists>T. y = x\<lparr>ax_type := T \<union> ax_type x\<rparr>" "\<exists>T. z = y\<lparr>ax_type := T \<union> ax_type y\<rparr>"
  then show "\<exists>T. z = x\<lparr>ax_type := T \<union> ax_type x\<rparr>"
    by (auto simp: Un_assoc [symmetric])
qed

lemma grown_map: "(\<And>a. \<exists>T. f a = a\<lparr>ax_type := T \<union> ax_type a\<rparr>) \<Longrightarrow> grown gav (map f gav)"
  by (simp add: grown_def list_all2_conv_all_nth)

lemma same_type: "\<exists>T. a = a\<lparr>ax_type := T \<union> ax_type a\<rparr>" for a :: Axis
  by (rule exI [of _ "{}"]) simp

lemma grown_add: "grown gav (add_types labels d gav)"
  unfolding add_types_def by (rule grown_map) (auto simp: same_type)

lemma grown_define: "grown gav (DefineAxisType d gav)"
  by (simp add: DefineAxisType_def SetAxisTypeAsMultiCore_def SetAxisTypeAsVectorization_def grown_add)

lemma grown_matmul: "grown gav (ClassifyMatmulAxis gav)"
  unfolding ClassifyMatmulAxis_def
  by (rule grown_map) (auto simp: same_type intro!: exI [of _ "{gemm_label (gemm_axis _)}"])

lemma grown_step: "classify_step h node a gav = Ok gav' \<Longrightarrow> grown gav gav'"
  by (auto simp: classify_step_def Let_def res_bind_Ok_conv SetAxisTypeAsMultiCore_def grown_define split: if_splits
      intro: grown_trans [OF grown_define grown_add])

lemma grown_classify: "ClassifyAxis h node gav = Ok gav' \<Longrightarrow> grown gav gav'"
  using for_each_invariant [of "axis_of_node node" "grown gav" "classify_step h node" gav gav']
  by (auto simp: ClassifyAxis_def Let_def SetAxisTypeAsMultiCoreAndVectorization_def grown_add grown_matmul
      split: if_splits intro: grown_trans grown_step)

lemma grown_nodes: "classify_nodes h nodes gav = Ok gav' \<Longrightarrow> grown gav gav'"
  unfolding classify_nodes_def
  by (erule for_each_invariant [where P = "grown gav", rotated 2])
     (auto split: if_splits intro: grown_trans grown_classify)

definition cube_axes :: "Axis list \<Rightarrow> bool" where
  "cube_axes gav \<longleftrightarrow> (\<forall>a \<in> set gav. is_inner a \<or> ax_type a \<inter> cube_labels \<noteq> {})"

lemma cube_axes_grown: "cube_axes gav \<Longrightarrow> grown gav gav' \<Longrightarrow> cube_axes gav'"
  by (fastforce simp: cube_axes_def grown_def list_all2_conv_all_nth in_set_conv_nth)

lemma gemm_label_cube: "gemm_label g \<in> cube_labels"
  by (simp add: gemm_label_def cube_labels_def)

lemma cube_axes_classified:
  assumes "classify_nodes h nodes gav = Ok gav'" "n \<in> set nodes" "is_matmul (op_of h n)"
    "length (axis_of_node (nodes_at h n)) > 1"
  shows "cube_axes gav'"
proof -
  from assms(2) obtain xs ys where "nodes = xs @ n # ys" by (auto simp: in_set_conv_decomp)
  with assms(1) obtain g where g: "classify_nodes h ys (ClassifyMatmulAxis g) = Ok gav'"
    using assms(3,4)
    by (auto simp: classify_nodes_def for_each_append res_bind_Ok_conv is_matmul_def IsInput_def ClassifyAxis_def)
  have "cube_axes (ClassifyMatmulAxis g)"
    using gemm_label_cube by (fastforce simp: cube_axes_def ClassifyMatmulAxis_def)
  then show ?thesis using grown_nodes [OF g] by (rule cube_axes_grown)
qed

section \<open>Tiles that divide\<close>

lemma divisor_Ok:
  assumes "GetLargestDivisor limit (int64_of_size w) = Ok d"
  shows "0 < d \<and> d \<le> limit \<and> d dvd uint w"
proof -
  define rng where "rng = int64_of_size w"
  have pos: "0 < rng" "0 < limit"
    using assms by (auto simp: GetLargestDivisor_def rng_def res_bind_Ok_conv)
  have rng: "rng = uint w"
    using pos(1) sint_lt [of w] unfolding rng_def int64_of_size_def
    by (simp add: uint_sint [of w] take_bit_int_eq_self_iff [THEN iffD2])
  show ?thesis
  proof (cases "rng \<le> limit")
    case True
    with assms pos rng show ?thesis by (simp add: GetLargestDivisor_def rng_def [symmetric])
  next
    case False
    with assms have "rng < 2 ^ 52"
      by (auto simp: GetLargestDivisor_def rng_def [symmetric] res_bind_Ok_conv trunc_sqrt_def Let_def split: if_splits)
    with pos rng have "small_range w" by (simp add: small_range_def)
    with assms pos(2) show ?thesis by (metis divisor_of_range res.inject(1))
  qed
qed

lemma pow2_at_least_result:
  "pow2_at_least p r = Ok q \<Longrightarrow> 0 < p \<Longrightarrow> in_int p \<Longrightarrow> 0 < q \<and> in_int q"
proof (induction p r rule: pow2_at_least.induct)
  case (1 p r)
  show ?case
  proof (cases "p < r")
    case True
    with "1.prems" obtain x where x: "int_ret (p * kByTwo) = Ok x" and q: "pow2_at_least x r = Ok q"
      by (auto simp: pow2_at_least.simps [of p r] res_bind_Ok_conv)
    have "0 < x" "in_int x" using x "1.prems"(2) by (auto simp: kByTwo_def)
    with "1.IH" [OF _ True x q] "1.prems"(2) show ?thesis by simp
  qed (use "1.prems" in \<open>simp add: pow2_at_least.simps [of p r]\<close>)
qed

text \<open>A tile that cuts its axis into whole pieces, or the fixed tile of the axes of 16.\<close>

definition good_tile :: "Axis \<Rightarrow> bool" where
  "good_tile a \<longleftrightarrow> 0 < tile a \<and> (tile a dvd uint (ax_range a) \<or> tile a = 16 \<and> has_type kMatMulAxis16 a)"

lemma divisor_cast:
  assumes "GetLargestDivisor limit (int64_of_size w) = Ok d" "in_int limit"
  shows "0 < int_of_int64 d \<and> int_of_int64 d dvd uint w"
  using divisor_Ok [OF assms(1)] tile_in_int [of d limit] assms(2) by auto

lemma N_tile_divides:
  assumes "GetMatmulAxisNTiling h axis nodes vc = Ok t"
  shows "0 < t \<and> t dvd uint (ax_range axis)"
proof -
  from assms obtain a r q m where q: "pow2_at_least 1 r = Ok q"
    and m: "size_mod (ax_range axis) (size_of_int q) = Ok m"
    and t: "(if m = 0 then Ok q else res_bind (GetLargestDivisor q (int64_of_size (ax_range axis))) (\<lambda>d. Ok (int_of_int64 d))) = Ok t"
    by (auto simp: GetMatmulAxisNTiling_def res_bind_Ok_conv)
  have "0 < q \<and> in_int q" using pow2_at_least_result [OF q] by (simp add: in_int_def)
  with size_mod_pos [of q "ax_range axis"] m t divisor_cast [of q "ax_range axis"] show ?thesis
    by (auto simp: res_bind_Ok_conv split: if_splits)
qed

lemma int_div_in_int: "int_div a b = Ok q \<Longrightarrow> in_int q"
  by (auto simp: int_div_def split: if_splits)

lemma size_quotient_dvd:
  assumes "size_mod w v = Ok 0" "size_div w v = Ok q"
  shows "uint q dvd uint w"
proof -
  have "w mod v = 0" "q = w div v" using assms by (auto simp: size_mod_def size_div_def split: if_splits)
  then have "w = q * v" by (metis add.right_neutral div_mult_mod_eq)
  moreover have "uint w mod uint v = 0" using \<open>w mod v = 0\<close> by (metis uint_mod unsigned_0)
  then have "uint w = uint q * uint v" using \<open>q = w div v\<close> by (metis uint_div add.right_neutral div_mult_mod_eq)
  ultimately show ?thesis by (metis dvd_triv_left)
qed

lemma M_tile_divides:
  assumes "GetMatmulAxisMTiling gav h axis mg hw = Ok t"
  shows "0 < t \<and> t dvd uint (ax_range axis)"
proof -
  from assms obtain l a b s r d where l: "int_div a b = Ok l" and r: "size_mod (ax_range axis) s = Ok r"
    and d: "(if r = 0 then res_bind (size_div (ax_range axis) s) (\<lambda>q. GetLargestDivisor l (int64_of_size q))
             else GetLargestDivisor l (int64_of_size (ax_range axis))) = Ok d"
    and t: "t = int_of_int64 d"
    by (auto simp: GetMatmulAxisMTiling_def Let_def res_bind_Ok_conv case_prod_beta)
  note cast = divisor_cast [OF _ int_div_in_int [OF l]]
  show ?thesis
  proof (cases "r = 0")
    case True
    with d obtain q where "size_div (ax_range axis) s = Ok q" "GetLargestDivisor l (int64_of_size q) = Ok d"
      by (auto simp: res_bind_Ok_conv)
    with True r cast [of q d] size_quotient_dvd [of "ax_range axis" s q] show ?thesis
      unfolding t by (auto intro: dvd_trans)
  qed (use d cast t in auto)
qed

lemma axis_c1_id: "\<exists>c. a = a\<lparr>c1_tiling := c\<rparr>" for a :: Axis
  by (rule exI [of _ "c1_tiling a"]) simp

lemma double_buffer_divides:
  assumes "double_buffer_tile mg l k = Ok t" "0 < k" "k dvd x"
  shows "0 < t \<and> t dvd x"
proof (cases "k mod kByTwo = 0 \<and> int_div k kByTwo = Ok t")
  case True
  then have "2 dvd k" "t = k div 2"
    using assms(2) by (auto simp: kByTwo_def int_div_def sdiv_nonneg dvd_eq_mod_eq_0)
  with even_half [of k] assms(2,3) show ?thesis by (auto intro: dvd_trans)
next
  case False
  with assms show ?thesis by (auto simp: double_buffer_tile_def split: if_splits)
qed

lemma K_limit_in_int: "K_limit hw nt mt = Ok l \<Longrightarrow> in_int l"
  by (auto simp: K_limit_def res_bind_Ok_conv split: if_splits intro: int_div_in_int)

lemma K_tile_divides:
  assumes "GetMatmulAxisKTiling gav axis mg hw = Ok (t, axis')"
  shows "0 < t \<and> t dvd uint (ax_range axis) \<and> (\<exists>c. axis' = axis\<lparr>c1_tiling := c\<rparr>)"
proof -
  obtain nt nr mt mr where nm: "N_and_M_axis ((1, 1), (1, 1)) gav = ((nt, nr), (mt, mr))"
    by (metis prod.exhaust)
  from assms obtain l d s where l: "K_limit hw nt mt = Ok l"
    and d: "GetLargestDivisor l (int64_of_size (ax_range axis)) = Ok d"
    and t: "double_buffer_tile mg s (int_of_int64 d) = Ok t"
    and axis': "\<exists>c. axis' = axis\<lparr>c1_tiling := c\<rparr>"
    unfolding GetMatmulAxisKTiling_def nm prod.case
    by (auto simp: res_bind_Ok_conv split: if_split_asm intro: axis_c1_id)
  show ?thesis
    using double_buffer_divides [OF t] divisor_cast [OF d K_limit_in_int [OF l]] axis' by blast
qed

text \<open>One turn of the loop over the axes, for an axis of a matrix multiplication.\<close>

lemma tile_outer_cube:
  assumes "tile_outer fuel libm_root h mg hw k gav = Ok gav'" "k < length gav"
    "is_inner (gav ! k) \<or> ax_type (gav ! k) \<inter> cube_labels \<noteq> {}"
  shows "\<exists>t c. gav' = gav[k := (gav ! k)\<lparr>c1_tiling := c, tile := t\<rparr>] \<and>
    (if is_inner (gav ! k) then gav' = gav else good_tile (gav' ! k))"
proof (cases "is_inner (gav ! k)")
  case True
  with assms have "gav' = gav[k := (gav ! k)\<lparr>c1_tiling := c1_tiling (gav ! k), tile := tile (gav ! k)\<rparr>]"
    by (simp add: tile_outer_def)
  moreover have "gav' = gav" using True assms(1) by (simp add: tile_outer_def)
  ultimately show ?thesis using True by metis
next
  case False
  with assms(1) obtain t g where get: "GetAxis fuel libm_root h k mg hw gav = Ok (t, g)" and gav': "gav' = set_tile k t g"
    by (auto simp: tile_outer_def res_bind_Ok_conv)
  have "\<exists>c. g = gav[k := (gav ! k)\<lparr>c1_tiling := c\<rparr>] \<and>
      0 < t \<and> (t dvd uint (ax_range (gav ! k)) \<or> t = 16 \<and> has_type kMatMulAxis16 (gav ! k))"
  proof -
    have labels: "has_type kMatMulAxisBatch (gav ! k) \<or> has_type kMatMulAxisN (gav ! k) \<or> has_type kMatMulAxisM (gav ! k) \<or>
        has_type kMatMulAxis16 (gav ! k) \<or> has_type kMatMulAxisK (gav ! k)"
      using assms(3) False by (auto simp: cube_labels_def has_type_def)
    have self: "\<exists>c. gav = gav[k := (gav ! k)\<lparr>c1_tiling := c\<rparr>]"
      by (rule exI [of _ "c1_tiling (gav ! k)"]) simp
    consider (batch) "has_type kMatMulAxisBatch (gav ! k)"
      | (N) "\<not> has_type kMatMulAxisBatch (gav ! k)" "has_type kMatMulAxisN (gav ! k)"
      | (M) "\<not> has_type kMatMulAxisBatch (gav ! k)" "\<not> has_type kMatMulAxisN (gav ! k)" "has_type kMatMulAxisM (gav ! k)"
      | (sixteen) "\<not> has_type kMatMulAxisBatch (gav ! k)" "\<not> has_type kMatMulAxisN (gav ! k)"
          "\<not> has_type kMatMulAxisM (gav ! k)" "has_type kMatMulAxis16 (gav ! k)"
      | (K) "\<not> has_type kMatMulAxisBatch (gav ! k)" "\<not> has_type kMatMulAxisN (gav ! k)"
          "\<not> has_type kMatMulAxisM (gav ! k)" "\<not> has_type kMatMulAxis16 (gav ! k)" "has_type kMatMulAxisK (gav ! k)"
      using labels by blast
    then show ?thesis
    proof cases
      case batch
      with get have "g = gav" "t = 1" by (simp_all add: GetAxis_def)
      with self show ?thesis by simp
    next
      case N
      with get have "g = gav" "GetMatmulAxisNTiling h (gav ! k) (g_nodes mg) (mem_VC_size hw) = Ok t"
        by (auto simp: GetAxis_def res_bind_Ok_conv)
      with self N_tile_divides show ?thesis by blast
    next
      case M
      with get have "g = gav" "GetMatmulAxisMTiling gav h (gav ! k) mg hw = Ok t"
        by (auto simp: GetAxis_def res_bind_Ok_conv)
      with self M_tile_divides show ?thesis by blast
    next
      case sixteen
      with get have "g = gav" "t = 16" by (simp_all add: GetAxis_def kCubeDefaultTiling_def)
      with self sixteen show ?thesis by simp
    next
      case K
      with get obtain a where "GetMatmulAxisKTiling gav (gav ! k) mg hw = Ok (t, a)" "g = gav[k := a]"
        by (auto simp: GetAxis_def res_bind_Ok_conv)
      with K_tile_divides show ?thesis by blast
    qed
  qed
  then obtain c where "g = gav[k := (gav ! k)\<lparr>c1_tiling := c\<rparr>]"
      "0 < t" "t dvd uint (ax_range (gav ! k)) \<or> t = 16 \<and> has_type kMatMulAxis16 (gav ! k)" by blast
  with assms(2) gav' have "gav' = gav[k := (gav ! k)\<lparr>c1_tiling := c, tile := t\<rparr>] \<and> good_tile (gav' ! k)"
    by (auto simp: set_tile_def good_tile_def has_type_def)
  with False show ?thesis by auto
qed


lemma tile_loop_cube:
  assumes "cube_axes gav" "m \<le> length gav"
    "for_each (tile_outer fuel libm_root h mg hw) [0 ..< m] gav = Ok gav'"
  shows "length gav' = length gav \<and>
    (\<forall>k < length gav. \<exists>t c. gav' ! k = (gav ! k)\<lparr>c1_tiling := c, tile := t\<rparr>) \<and>
    (\<forall>k < m. if is_inner (gav ! k) then gav' ! k = gav ! k else good_tile (gav' ! k)) \<and>
    (\<forall>k. m \<le> k \<longrightarrow> gav' ! k = gav ! k)"
  using assms(2,3)
proof (induction m arbitrary: gav')
  case 0
  have "\<exists>t c. a = a\<lparr>c1_tiling := c, tile := t\<rparr>" for a :: Axis
    by (rule exI [of _ "tile a"], rule exI [of _ "c1_tiling a"]) simp
  with 0 show ?case by simp
next
  case (Suc m)
  then obtain g where g: "for_each (tile_outer fuel libm_root h mg hw) [0 ..< m] gav = Ok g"
    and step: "tile_outer fuel libm_root h mg hw m g = Ok gav'"
    by (auto simp: for_each_append res_bind_Ok_conv)
  note IH = Suc.IH [OF _ g]
  have m: "m < length gav" and gm: "g ! m = gav ! m" using IH Suc.prems(1) by simp_all
  have "is_inner (gav ! m) \<or> ax_type (gav ! m) \<inter> cube_labels \<noteq> {}"
    using assms(1) m by (simp add: cube_axes_def)
  then have "\<exists>t c. gav' = g[m := (g ! m)\<lparr>c1_tiling := c, tile := t\<rparr>] \<and>
      (if is_inner (g ! m) then gav' = g else good_tile (gav' ! m))"
    using tile_outer_cube [OF step] IH Suc.prems(1) gm by simp
  then obtain t c where gav': "gav' = g[m := (g ! m)\<lparr>c1_tiling := c, tile := t\<rparr>]"
      "if is_inner (g ! m) then gav' = g else good_tile (gav' ! m)"
    by blast
  show ?case
  proof (intro conjI allI impI)
    fix k
    show "length gav' = length gav" using IH Suc.prems(1) gav'(1) by simp
    show "\<exists>t c. gav' ! k = (gav ! k)\<lparr>c1_tiling := c, tile := t\<rparr>" if "k < length gav"
    proof (cases "k = m")
      case True
      then have "gav' ! k = (gav ! k)\<lparr>c1_tiling := c, tile := t\<rparr>" using gav'(1) gm IH Suc.prems(1) by simp
      then show ?thesis by blast
    next
      case False
      then have "gav' ! k = g ! k" using gav'(1) by simp
      then show ?thesis using IH Suc.prems(1) that by simp
    qed
    show "if is_inner (gav ! k) then gav' ! k = gav ! k else good_tile (gav' ! k)" if "k < Suc m"
    proof (cases "k = m")
      case True
      then show ?thesis using gav'(2) gm by auto
    next
      case False
      then have "gav' ! k = g ! k" "k < m" using gav'(1) that by simp_all
      then show ?thesis using IH Suc.prems(1) by simp
    qed
    show "gav' ! k = gav ! k" if "Suc m \<le> k" using gav'(1) IH Suc.prems(1) that by simp
  qed
qed

lemma tile_inner_axes:
  "cube_axes gav \<Longrightarrow> cube_axes (tile_inner gav)"
  by (auto simp: cube_axes_def tile_inner_def)

text \<open>
  C10: In a graph with a matrix multiplication over several axes, the tiling, when it succeeds, gives
  every axis that is not inner a positive tile that cuts the axis into whole pieces (or the fixed
  tile 16 of the axes of blocks of 16), gives every inner axis the tile of its length, and changes
  nothing else of an axis but its labels and its second-level tile.
\<close>

theorem matmul_tiles_divide:
  assumes "GetTilingSize fuel libm_root h mg hw gav = Ok gav'"
    and "n \<in> set (g_nodes mg)" "is_matmul (op_of h n)" "length (axis_of_node (nodes_at h n)) > 1"
  shows "length gav' = length gav \<and> (\<forall>k < length gav.
    (if is_inner (gav ! k) then tile (gav' ! k) = int_of_size (ax_range (gav ! k)) else good_tile (gav' ! k)) \<and>
    (\<exists>t c T. gav' ! k = (gav ! k)\<lparr>tile := t, c1_tiling := c, ax_type := T \<union> ax_type (gav ! k)\<rparr>))"
proof -
  from assms(1) obtain g where classified: "classify_nodes h (g_nodes mg) gav = Ok g"
    and loop: "for_each (tile_outer fuel libm_root h mg hw) [0 ..< length g] (tile_inner g) = Ok gav'"
    by (auto simp: GetTilingSize_def res_bind_Ok_conv)
  have grown: "grown gav g" using grown_nodes [OF classified] .
  then have len: "length g = length gav" and labels: "\<And>k. k < length gav \<Longrightarrow> \<exists>T. g ! k = (gav ! k)\<lparr>ax_type := T \<union> ax_type (gav ! k)\<rparr>"
    by (auto simp: grown_def list_all2_conv_all_nth)
  have "cube_axes (tile_inner g)"
    using cube_axes_classified [OF classified assms(2-4)] by (rule tile_inner_axes)
  from tile_loop_cube [OF this _ loop] have len': "length gav' = length g"
    and tiled: "\<And>k. k < length g \<Longrightarrow> \<exists>t c. gav' ! k = (tile_inner g ! k)\<lparr>c1_tiling := c, tile := t\<rparr>"
      "\<And>k. k < length g \<Longrightarrow>
         if is_inner (tile_inner g ! k) then gav' ! k = tile_inner g ! k else good_tile (gav' ! k)"
    by (simp_all add: tile_inner_def)
  show ?thesis
  proof (intro conjI allI impI)
    show "length gav' = length gav" using len len' by simp
    fix k assume k: "k < length gav"
    obtain T where T: "g ! k = (gav ! k)\<lparr>ax_type := T \<union> ax_type (gav ! k)\<rparr>" using labels [OF k] by blast
    have inner: "tile_inner g ! k = (if is_inner (gav ! k) then (g ! k)\<lparr>tile := int_of_size (ax_range (gav ! k))\<rparr> else g ! k)"
      using k len T by (simp add: tile_inner_def)
    then have "is_inner (tile_inner g ! k) = is_inner (gav ! k)" using T by simp
    then show "if is_inner (gav ! k) then tile (gav' ! k) = int_of_size (ax_range (gav ! k)) else good_tile (gav' ! k)"
      using tiled(2) [of k] k len inner by (auto split: if_splits)
    obtain t c where "gav' ! k = (tile_inner g ! k)\<lparr>c1_tiling := c, tile := t\<rparr>" using tiled(1) [of k] k len by auto
    then have "gav' ! k = (gav ! k)\<lparr>tile := t, c1_tiling := c, ax_type := T \<union> ax_type (gav ! k)\<rparr>"
      using inner T by simp
    then show "\<exists>t c T. gav' ! k = (gav ! k)\<lparr>tile := t, c1_tiling := c, ax_type := T \<union> ax_type (gav ! k)\<rparr>" by blast
  qed
qed

definition batch_axis :: Axis where
  "batch_axis = new_axis\<lparr>ax_range := 4, gemm_axis := ''b''\<rparr>"

definition no_axis :: Axis where
  "no_axis = new_axis\<lparr>ax_range := 128, gemm_axis := ''no'', dim_axis := 1\<rparr>"

definition ni_axis :: Axis where
  "ni_axis = new_axis\<lparr>ax_range := 16, gemm_axis := ''ni'', dim_axis := 1, is_inner := True\<rparr>"

definition matmul_heap :: Heap where
  "matmul_heap = update_node 0 (\<lambda>v. v\<lparr>axis_of_node := [batch_axis, no_axis, ni_axis]\<rparr>) cube_heap"

lemma matmul_memory: "GetAvailableMemVCSize matmul_heap [0] 262144 = Ok 256"
  by (simp add: GetAvailableMemVCSize_def IsNotReused_def HasElemwiseMultiPredInputOps_def node_not_reused_def
      is_matmul_def halve_if_def int_div_pos kVCDataSizePerBatch_def cube_sample_simps matmul_heap_def)

theorem matmul_tiles_divide_witness:
  "\<exists>gav. GetTilingSize 1 (\<lambda>x n. Ok x) matmul_heap cube_graph cube_hardware [batch_axis, no_axis, ni_axis] = Ok gav \<and>
     length gav = 3 \<and> good_tile (gav ! 1) \<and> tile (gav ! 2) = 16"
proof -
  let ?gav = "[batch_axis, no_axis, ni_axis]"
  have sqrt: "round_sqrt 256 = Ok 16"
    by (simp add: round_sqrt_def floor_sqrt.simps Let_def)
  have pow: "pow2_at_least 1 16 = Ok 16"
    by (simp add: pow2_at_least.simps kByTwo_def int_ret_def in_int_def)
  have N: "GetMatmulAxisNTiling matmul_heap a [0] 262144 = Ok 16" if "ax_range a = 128" for a
    using that by (simp add: GetMatmulAxisNTiling_def matmul_memory sqrt pow size_mod_def size_of_int_def)
  have node0: "op_of matmul_heap 0 = Op_BatchMatMul" "axis_of_node (nodes_at matmul_heap 0) = ?gav"
    by (simp_all add: matmul_heap_def cube_heap_def new_node_def)
  have "classify_nodes matmul_heap [0] ?gav = Ok (ClassifyMatmulAxis ?gav)"
    by (simp add: classify_nodes_def ClassifyAxis_def node0 IsInput_def)
  then have start: "GetTilingSize 1 (\<lambda>x n. Ok x) matmul_heap cube_graph cube_hardware ?gav =
      for_each (tile_outer 1 (\<lambda>x n. Ok x) matmul_heap cube_graph cube_hardware) [0, 1, 2] (tile_inner (ClassifyMatmulAxis ?gav))"
    by (simp add: GetTilingSize_def cube_graph_def ClassifyMatmulAxis_def upt_rec numeral_2_eq_2)
  have graph: "g_nodes cube_graph = [0]" "mem_VC_size cube_hardware = 262144"
    by (simp_all add: cube_graph_def cube_hardware_def)
  have "\<exists>gav. GetTilingSize 1 (\<lambda>x n. Ok x) matmul_heap cube_graph cube_hardware ?gav = Ok gav"
    unfolding start
    by (simp add: tile_inner_def ClassifyMatmulAxis_def gemm_label_def tile_outer_def GetAxis_def graph N
        has_type_def set_tile_def batch_axis_def no_axis_def ni_axis_def new_axis_def)
  then obtain gav where Ok: "GetTilingSize 1 (\<lambda>x n. Ok x) matmul_heap cube_graph cube_hardware ?gav = Ok gav" ..
  have node: "0 \<in> set (g_nodes cube_graph)" "is_matmul (op_of matmul_heap 0)" "length (axis_of_node (nodes_at matmul_heap 0)) > 1"
    by (simp_all add: cube_graph_def matmul_heap_def cube_heap_def is_matmul_def new_node_def)
  have "length gav = 3" "good_tile (gav ! 1)" "tile (gav ! 2) = int_of_size 16"
    using matmul_tiles_divide [OF Ok node]
    by (auto simp: batch_axis_def no_axis_def ni_axis_def new_axis_def dest: spec [of _ 1] spec [of _ 2])
  with Ok show ?thesis by (simp add: int_of_size_def signed_take_bit_int_eq_self_iff)
qed

end
