(* ===== verification/Ascend_Memory.thy ===== *)
theory Ascend_Memory
  imports Cxx_Int
begin

text \<open>
  The memory manager of the Ascend runtime (\<open>src/runtime/ascend/ascend_memory_manager.h\<close> and
  \<open>.cc\<close>): one block of device memory is obtained from the driver, and allocations are carved
  from its upper end. Addresses and sizes are \<open>64 word\<close>s that wrap, as in the code. The
  driver (\<open>rtMemGetInfoEx\<close>, \<open>rtMalloc\<close>, \<open>rtFree\<close>) is a parameter: the answer to each call.
\<close>

section \<open>State and constants\<close>

definition kMemAlignSize :: "64 word" where
  "kMemAlignSize = 512"

definition kAlignBytes :: "64 word" where
  "kAlignBytes = 32"

definition RT_ERROR_NONE :: int where
  "RT_ERROR_NONE = 0"

definition ACL_ERROR_RT_MEMORY_ALLOCATION :: int where
  "ACL_ERROR_RT_MEMORY_ALLOCATION = 207001"

record AscendMemoryManager =
  device_mem_base :: "64 word"
  device_mem_offset :: "64 word"
  device_mem_size :: "64 word"

definition new_memory_manager :: AscendMemoryManager where
  "new_memory_manager = \<lparr>device_mem_base = 0, device_mem_offset = 0, device_mem_size = 0\<rparr>"

section \<open>The block of the driver\<close>

text \<open>\<open>mem_info\<close> is the answer of \<open>rtMemGetInfoEx\<close>: its error code and the total it wrote.\<close>

definition GetDeviceHBMSize :: "int \<times> 64 word \<Rightarrow> 64 word res" where
  "GetDeviceHBMSize mem_info =
     (case mem_info of (ret, hbm) \<Rightarrow>
        if ret \<noteq> RT_ERROR_NONE \<or> hbm = 0 then Err Fatal else Ok hbm)"

definition GetDefaultDeviceMemSize :: "int \<times> 64 word \<Rightarrow> 64 word res" where
  "GetDefaultDeviceMemSize mem_info =
     res_bind (GetDeviceHBMSize mem_info) (\<lambda>hbm. Ok (hbm * 15 div 16))"

text \<open>\<open>rtMalloc i nbytes\<close> is the answer of the driver to attempt \<open>i\<close>: its error code and the
  address it stored. The loop leaves with the last code when all attempts failed.\<close>

fun malloc_retry :: "(nat \<Rightarrow> 64 word \<Rightarrow> int \<times> 64 word) \<Rightarrow> 64 word \<Rightarrow> nat \<Rightarrow> nat \<Rightarrow> int \<Rightarrow> 64 word \<Rightarrow> int \<times> 64 word"
where
  "malloc_retry rtMalloc nbytes i 0 ret base = (ret, base)"
| "malloc_retry rtMalloc nbytes i (Suc k) ret base =
     (case rtMalloc i nbytes of (ret, base) \<Rightarrow>
        if ret = ACL_ERROR_RT_MEMORY_ALLOCATION
        then malloc_retry rtMalloc nbytes (Suc i) k ret 0 else (ret, base))"

definition MallocDeviceMemory ::
  "int \<times> 64 word \<Rightarrow> (nat \<Rightarrow> 64 word \<Rightarrow> int \<times> 64 word) \<Rightarrow> AscendMemoryManager \<Rightarrow> AscendMemoryManager res"
where
  "MallocDeviceMemory mem_info rtMalloc m =
     res_bind (GetDefaultDeviceMemSize mem_info) (\<lambda>nbytes.
     case malloc_retry rtMalloc nbytes 0 3 0 (device_mem_base m) of (ret, base) \<Rightarrow>
       if ret \<noteq> RT_ERROR_NONE then Err Fatal
       else Ok \<lparr>device_mem_base = base, device_mem_offset = nbytes, device_mem_size = nbytes\<rparr>)"

text \<open>\<open>rtFree\<close> is called on the base and answers with an error code.\<close>

definition FreeDeviceMemory :: "(64 word \<Rightarrow> int) \<Rightarrow> AscendMemoryManager \<Rightarrow> AscendMemoryManager res" where
  "FreeDeviceMemory rtFree m =
     (if device_mem_base m = 0 then Ok m
      else if rtFree (device_mem_base m) \<noteq> RT_ERROR_NONE then Err Fatal
      else Ok (m\<lparr>device_mem_base := 0\<rparr>))"

section \<open>Allocation from the pool\<close>

definition GetCommonAlignSize :: "64 word \<Rightarrow> 64 word" where
  "GetCommonAlignSize input_size =
     (input_size + kMemAlignSize + kAlignBytes - 1) div kMemAlignSize * kMemAlignSize"

text \<open>The check that the size fits compares an unsigned difference with 0, so it never fires.\<close>

definition PoolAllocDeviceMem :: "64 word \<Rightarrow> AscendMemoryManager \<Rightarrow> (64 word \<times> AscendMemoryManager) res" where
  "PoolAllocDeviceMem nbytes m =
     (if nbytes = 0 then Err Fatal
      else if device_mem_offset m - nbytes < 0 then Err Fatal
      else
        let m' = m\<lparr>device_mem_offset := device_mem_offset m - nbytes\<rparr>;
            addr = device_mem_base m' + device_mem_offset m'
        in if addr = 0 then Err Fatal else Ok (addr, m'))"

definition MallocMemFromMemPool :: "64 word \<Rightarrow> AscendMemoryManager \<Rightarrow> (64 word \<times> AscendMemoryManager) res" where
  "MallocMemFromMemPool nbytes m = PoolAllocDeviceMem (GetCommonAlignSize nbytes) m"

section \<open>The contract of an allocator that counts down\<close>

text \<open>A client that makes several allocations, for any allocator.\<close>

fun alloc_all :: "('n \<Rightarrow> 's \<Rightarrow> ('a \<times> 's) res) \<Rightarrow> 'n list \<Rightarrow> 's \<Rightarrow> ('a list \<times> 's) res" where
  "alloc_all alloc [] s = Ok ([], s)"
| "alloc_all alloc (n # ns) s =
     res_bind (alloc n s) (\<lambda>(a, s). res_bind (alloc_all alloc ns s) (\<lambda>(as, s). Ok (a # as, s)))"

text \<open>\<open>blocks_in lo hi bs\<close>: the blocks \<open>(address, length)\<close> lie one below the other between
  \<open>lo\<close> and \<open>hi\<close>.\<close>

fun blocks_in :: "int \<Rightarrow> int \<Rightarrow> (int \<times> int) list \<Rightarrow> bool" where
  "blocks_in lo hi [] = (lo \<le> hi)"
| "blocks_in lo hi ((a, n) # bs) = (a + n \<le> hi \<and> 0 < n \<and> blocks_in lo a bs)"

lemma blocks_in_lower: "blocks_in lo hi bs \<Longrightarrow> lo \<le> hi"
  by (induction lo hi bs rule: blocks_in.induct) auto

lemma blocks_in_member: "blocks_in lo hi bs \<Longrightarrow> (a, n) \<in> set bs \<Longrightarrow> lo \<le> a \<and> a + n \<le> hi \<and> 0 < n"
proof (induction lo hi bs rule: blocks_in.induct)
  case (2 lo hi b m bs)
  then show ?case using blocks_in_lower [of lo b bs] by auto
qed simp

lemma blocks_in_disjoint:
  "blocks_in lo hi bs \<Longrightarrow> i < j \<Longrightarrow> j < length bs \<Longrightarrow> fst (bs ! j) + snd (bs ! j) \<le> fst (bs ! i)"
proof (induction lo hi bs arbitrary: i j rule: blocks_in.induct)
  case (2 lo hi b m bs)
  show ?case
  proof (cases i)
    case 0
    with 2 obtain j' where "j = Suc j'" "j' < length bs" by (cases j) auto
    with 0 2 blocks_in_member [of lo b bs "fst (bs ! j')" "snd (bs ! j')"] show ?thesis by simp
  next
    case (Suc i')
    with 2 show ?thesis by (cases j) auto
  qed
qed simp

text \<open>\<open>room\<close> is what is left, \<open>need\<close> what a request takes of it.\<close>

locale counting_allocator =
  fixes alloc :: "'n \<Rightarrow> 's \<Rightarrow> ('a \<times> 's) res"
    and valid :: "'s \<Rightarrow> bool"
    and bottom room :: "'s \<Rightarrow> int"
    and need :: "'n \<Rightarrow> int"
    and address :: "'a \<Rightarrow> int"
  assumes need_pos: "0 < need n"
    and room_nonneg: "valid s \<Longrightarrow> 0 \<le> room s"
    and alloc_fits: "valid s \<Longrightarrow> need n \<le> room s \<Longrightarrow>
      \<exists>a s'. alloc n s = Ok (a, s') \<and> valid s' \<and> bottom s' = bottom s \<and>
        room s' = room s - need n \<and> address a = bottom s + room s'"
begin

lemma alloc_all_blocks:
  "valid s \<Longrightarrow> sum_list (map need ns) \<le> room s \<Longrightarrow>
     \<exists>as s'. alloc_all alloc ns s = Ok (as, s') \<and> valid s' \<and> length as = length ns \<and>
       bottom s' = bottom s \<and> room s' = room s - sum_list (map need ns) \<and>
       blocks_in (bottom s) (bottom s + room s) (zip (map address as) (map need ns))"
proof (induction ns arbitrary: s)
  case Nil
  then show ?case using room_nonneg by simp
next
  case (Cons n ns)
  have rest: "0 \<le> sum_list (map need ns)"
    by (rule sum_list_nonneg) (use need_pos less_imp_le in auto)
  with Cons.prems(2) have "need n \<le> room s" by simp
  from alloc_fits [OF Cons.prems(1) this] obtain a s1 where a: "alloc n s = Ok (a, s1)" "valid s1"
    "bottom s1 = bottom s" "room s1 = room s - need n" "address a = bottom s + room s1" by blast
  moreover have "sum_list (map need ns) \<le> room s1" using Cons.prems a by simp
  from Cons.IH [OF a(2) this] obtain as s' where "alloc_all alloc ns s1 = Ok (as, s')" "valid s'"
    "length as = length ns" "bottom s' = bottom s1" "room s' = room s1 - sum_list (map need ns)"
    "blocks_in (bottom s1) (bottom s1 + room s1) (zip (map address as) (map need ns))" by blast
  ultimately show ?case using need_pos [of n] by simp
qed

end

section \<open>Alignment\<close>

definition padded :: "64 word \<Rightarrow> int" where
  "padded n = (uint n + 543) div 512 * 512"

lemma round_down: "x - 511 \<le> x div 512 * 512" "x div 512 * 512 \<le> x" for x :: int
  using pos_mod_bound [of 512 x] pos_mod_sign [of 512 x] by (simp_all add: minus_mod_eq_div_mult [symmetric])

lemma padded_bounds: "uint n + 32 \<le> padded n" "padded n \<le> uint n + 543" "512 dvd padded n"
  using round_down [of "uint n + 543"] by (simp_all add: padded_def)

lemma align_value: "uint (GetCommonAlignSize n) = (uint n + 543) mod 2 ^ 64 div 512 * 512"
proof -
  have "n + kMemAlignSize + kAlignBytes - 1 = n + 543"
    unfolding kMemAlignSize_def kAlignBytes_def by (simp add: add.assoc flip: add_diff_eq)
  then have sum: "uint (n + kMemAlignSize + kAlignBytes - 1) = (uint n + 543) mod 2 ^ 64" (is "_ = ?x")
    by (simp only: uint_word_ariths) simp
  have "?x div 512 * 512 \<le> ?x" by (rule round_down)
  also have "?x < 2 ^ 64" by simp
  finally have "?x div 512 * 512 < 2 ^ 64" .
  moreover have "0 \<le> ?x div 512 * 512" by (simp add: pos_imp_zdiv_nonneg_iff)
  moreover have "uint ((n + kMemAlignSize + kAlignBytes - 1) div kMemAlignSize) = ?x div 512"
    by (simp only: uint_div sum) (simp add: kMemAlignSize_def)
  ultimately show ?thesis
    unfolding GetCommonAlignSize_def
    by (simp only: uint_word_ariths) (simp add: kMemAlignSize_def)
qed

lemma padded_pos: "0 < padded n"
  using padded_bounds(1) [of n] uint_ge_0 [of n] by linarith

lemma uint_align: "padded n < 2 ^ 64 \<Longrightarrow> uint (GetCommonAlignSize n) = padded n"
proof -
  assume "padded n < 2 ^ 64"
  then have "(uint n + 543) div 512 < 2 ^ 55" by (simp add: padded_def)
  then have "uint n + 543 < 2 ^ 64" by (simp add: div_less_iff_less_mult)
  then show ?thesis by (simp add: align_value padded_def)
qed

text \<open>
  Whatever size a client asks for, up to 543 below \<open>2 ^ 64\<close>, the size taken from the pool is a multiple of
  512 that leaves at least 32 bytes and less than 544 bytes after the requested ones; beyond that
  the sum wraps and the size taken is smaller than the request.
\<close>

theorem align_size_bounds:
  "if uint n + 543 < 2 ^ 64
   then 512 dvd uint (GetCommonAlignSize n) \<and> uint n + 32 \<le> uint (GetCommonAlignSize n) \<and>
     uint (GetCommonAlignSize n) < uint n + 544
   else GetCommonAlignSize n < n"
proof (cases "uint n + 543 < 2 ^ 64")
  case True
  then have "uint (GetCommonAlignSize n) = padded n" by (simp add: align_value padded_def)
  with True padded_bounds [of n] show ?thesis by simp
next
  case False
  then have big: "uint n + 543 - 2 ^ 64 < 543" "0 \<le> uint n + 543 - 2 ^ 64"
    using uint_lt2p [of n] by simp_all
  have "(uint n + 543) mod 2 ^ 64 = (uint n + 543 - 2 ^ 64) mod 2 ^ 64" by (simp only: minus_mod_self2)
  also have "\<dots> = uint n + 543 - 2 ^ 64" using big by (intro mod_pos_pos_trivial) simp_all
  finally have "uint (GetCommonAlignSize n) \<le> uint n + 543 - 2 ^ 64"
    by (simp add: align_value round_down)
  with False big show ?thesis by (simp add: word_less_def)
qed

section \<open>The pool\<close>

definition pool_valid :: "AscendMemoryManager \<Rightarrow> bool" where
  "pool_valid m \<longleftrightarrow> device_mem_base m \<noteq> 0 \<and>
     uint (device_mem_base m) + uint (device_mem_offset m) \<le> 2 ^ 64"

lemma MallocMemFromMemPool_eq:
  assumes "padded n < 2 ^ 64"
  shows "MallocMemFromMemPool n m =
    (let off = device_mem_offset m - GetCommonAlignSize n
     in if device_mem_base m + off = 0 then Err Fatal
        else Ok (device_mem_base m + off, m\<lparr>device_mem_offset := off\<rparr>))"
proof -
  have "GetCommonAlignSize n \<noteq> 0"
    using uint_align [OF assms] padded_pos [of n] by auto
  then show ?thesis by (simp add: MallocMemFromMemPool_def PoolAllocDeviceMem_def Let_def)
qed

interpretation pool: counting_allocator MallocMemFromMemPool pool_valid
  "\<lambda>m. uint (device_mem_base m)" "\<lambda>m. uint (device_mem_offset m)" padded uint
proof
  show "0 < padded n" for n by (rule padded_pos)
next
  show "0 \<le> uint (device_mem_offset s)" for s by simp
next
  fix m :: AscendMemoryManager and n
  assume m: "pool_valid m" and fits: "padded n \<le> uint (device_mem_offset m)"
  then have small: "padded n < 2 ^ 64" using uint_lt2p [of "device_mem_offset m"] by simp
  define off where "off = device_mem_offset m - GetCommonAlignSize n"
  have "GetCommonAlignSize n \<le> device_mem_offset m"
    using fits uint_align [OF small] by (simp add: word_le_def)
  then have off: "uint off = uint (device_mem_offset m) - padded n"
    unfolding off_def using uint_align [OF small] uint_sub_lem [THEN iffD1, of "GetCommonAlignSize n" "device_mem_offset m"]
    by (simp add: word_le_def)
  have base: "0 < uint (device_mem_base m)" using m by (simp add: pool_valid_def word_neq_0_conv word_less_def)
  note pos = padded_pos [of n]
  then have addr: "uint (device_mem_base m + off) = uint (device_mem_base m) + uint off"
    using m off uint_add_lem [THEN iffD1, of "device_mem_base m" off] by (simp add: pool_valid_def)
  with base uint_ge_0 [of off] have "uint (device_mem_base m + off) \<noteq> 0" by linarith
  then have "device_mem_base m + off \<noteq> 0" by auto
  moreover have "pool_valid (m\<lparr>device_mem_offset := off\<rparr>)" using m off pos by (simp add: pool_valid_def)
  ultimately show "\<exists>a s'. MallocMemFromMemPool n m = Ok (a, s') \<and> pool_valid s' \<and>
      uint (device_mem_base s') = uint (device_mem_base m) \<and>
      uint (device_mem_offset s') = uint (device_mem_offset m) - padded n \<and>
      uint a = uint (device_mem_base m) + uint (device_mem_offset s')"
    using addr off by (simp add: MallocMemFromMemPool_eq [OF small] off_def [symmetric])
qed

text \<open>
  C11: As long as the padded sizes of the requests fit what is left of the pool, every allocation succeeds, and
  the padded blocks lie in the block of the driver, each one ending before the one allocated
  before it begins.
\<close>

theorem pool_blocks_disjoint:
  assumes "device_mem_base m \<noteq> 0" "uint (device_mem_base m) + uint (device_mem_offset m) \<le> 2 ^ 64"
    and "sum_list (map padded ns) \<le> uint (device_mem_offset m)"
  shows "\<exists>as m'. alloc_all MallocMemFromMemPool ns m = Ok (as, m') \<and> length as = length ns \<and>
    uint (device_mem_offset m') = uint (device_mem_offset m) - sum_list (map padded ns) \<and>
    (\<forall>i < length ns. uint (device_mem_base m) \<le> uint (as ! i) \<and>
       uint (as ! i) + padded (ns ! i) \<le> uint (device_mem_base m) + uint (device_mem_offset m)) \<and>
    (\<forall>j < length ns. \<forall>i < j. uint (as ! j) + padded (ns ! j) \<le> uint (as ! i))"
proof -
  have "pool_valid m" using assms by (simp add: pool_valid_def)
  from pool.alloc_all_blocks [OF this assms(3)] obtain as m' where
    run: "alloc_all MallocMemFromMemPool ns m = Ok (as, m')" "length as = length ns"
      "uint (device_mem_offset m') = uint (device_mem_offset m) - sum_list (map padded ns)"
    and blocks: "blocks_in (uint (device_mem_base m)) (uint (device_mem_base m) + uint (device_mem_offset m))
      (zip (map uint as) (map padded ns))" (is "blocks_in _ _ ?bs") by blast
  have nth: "?bs ! i = (uint (as ! i), padded (ns ! i))" "?bs ! i \<in> set ?bs" if "i < length ns" for i
    using that run(2) by (simp_all add: in_set_conv_nth) (metis length_map length_zip min.idem nth_zip nth_map)+
  have "\<forall>i < length ns. uint (device_mem_base m) \<le> uint (as ! i) \<and>
       uint (as ! i) + padded (ns ! i) \<le> uint (device_mem_base m) + uint (device_mem_offset m)"
    using blocks_in_member [OF blocks] nth by metis
  moreover have "\<forall>j < length ns. \<forall>i < j. uint (as ! j) + padded (ns ! j) \<le> uint (as ! i)"
  proof (intro allI impI)
    fix j i assume "j < length ns" "i < j"
    with blocks_in_disjoint [OF blocks \<open>i < j\<close>] run(2) nth(1) [of i] nth(1) [of j]
    show "uint (as ! j) + padded (ns ! j) \<le> uint (as ! i)" by simp
  qed
  ultimately show ?thesis using run by blast
qed

theorem pool_blocks_disjoint_witness:
  "\<exists>as m'. alloc_all MallocMemFromMemPool [100, 1000]
     \<lparr>device_mem_base = 4096, device_mem_offset = 8192, device_mem_size = 8192\<rparr> = Ok (as, m') \<and>
   length as = 2 \<and> uint (device_mem_offset m') = 6144 \<and> uint (as ! 1) + 1536 \<le> uint (as ! 0)"
proof -
  define m :: AscendMemoryManager where "m = \<lparr>device_mem_base = 4096, device_mem_offset = 8192, device_mem_size = 8192\<rparr>"
  have m: "device_mem_base m \<noteq> 0" "uint (device_mem_base m) + uint (device_mem_offset m) \<le> 2 ^ 64"
    "uint (device_mem_offset m) = 8192" by (simp_all add: m_def)
  have "padded 100 = 512" "padded 1000 = 1536" by (simp_all add: padded_def)
  with pool_blocks_disjoint [OF m(1,2), of "[100, 1000]"] m(3) show ?thesis
    unfolding m_def [symmetric] by (auto simp: numeral_2_eq_2 less_Suc_eq simp del: alloc_all.simps)
qed

text \<open>
  C12: Exhaustion of the pool is not detected: a request whose padded size exceeds what is left succeeds, and the
  block it is given begins below the block of the driver.
\<close>

theorem pool_exhaustion_unchecked:
  assumes "uint (device_mem_offset m) < padded n" "padded n < uint (device_mem_base m) + uint (device_mem_offset m)"
    and "uint (device_mem_base m) + uint (device_mem_offset m) \<le> 2 ^ 64"
  shows "\<exists>a m'. MallocMemFromMemPool n m = Ok (a, m') \<and>
    uint a = uint (device_mem_base m) + uint (device_mem_offset m) - padded n \<and> a < device_mem_base m"
proof -
  have small: "padded n < 2 ^ 64" using assms by simp
  define a where "a = device_mem_base m + (device_mem_offset m - GetCommonAlignSize n)"
  have "uint a = (uint (device_mem_base m) + uint (device_mem_offset m) - padded n) mod 2 ^ 64"
    unfolding a_def by (simp add: uint_word_ariths uint_align [OF small] mod_simps add_diff_eq)
  also have "\<dots> = uint (device_mem_base m) + uint (device_mem_offset m) - padded n"
    using assms padded_pos [of n] by (intro mod_pos_pos_trivial) simp_all
  finally have a: "uint a = uint (device_mem_base m) + uint (device_mem_offset m) - padded n" .
  then have "a \<noteq> 0" "a < device_mem_base m" using assms by (auto simp: word_less_def)
  with a show ?thesis by (simp add: MallocMemFromMemPool_eq [OF small] Let_def a_def [symmetric])
qed

theorem pool_exhaustion_unchecked_witness:
  "\<exists>a m'. MallocMemFromMemPool 600 \<lparr>device_mem_base = 4096, device_mem_offset = 512, device_mem_size = 8192\<rparr> = Ok (a, m') \<and>
     uint a = 3584 \<and> a < 4096"
proof -
  have "padded 600 = 1024" by (simp add: padded_def)
  then show ?thesis
    using pool_exhaustion_unchecked [of "\<lparr>device_mem_base = 4096, device_mem_offset = 512, device_mem_size = 8192\<rparr>" 600]
    by simp
qed

section \<open>The block of the driver is asked for three times\<close>

lemma malloc_retry_spec:
  "malloc_retry rtMalloc n i k ret base =
     (case List.find (\<lambda>j. fst (rtMalloc j n) \<noteq> ACL_ERROR_RT_MEMORY_ALLOCATION) [i ..< i + k] of
        Some j \<Rightarrow> rtMalloc j n
      | None \<Rightarrow> (if k = 0 then (ret, base) else (ACL_ERROR_RT_MEMORY_ALLOCATION, 0)))"
proof (induction k arbitrary: i ret base)
  case (Suc k)
  then show ?case
    by (auto simp: upt_conv_Cons Suc.IH split: prod.split option.split simp del: upt_Suc)
qed simp

text \<open>
  Acquiring the device memory takes fifteen sixteenths of what the driver reports, and the answer of the
  first of three attempts that does not report exhaustion; every other outcome aborts.
\<close>

theorem device_memory_acquired:
  "MallocDeviceMemory (ret, hbm) rtMalloc m =
     (let bytes = hbm * 15 div 16;
          answered = [j \<leftarrow> [0, 1, 2]. fst (rtMalloc j bytes) \<noteq> ACL_ERROR_RT_MEMORY_ALLOCATION]
      in if ret = RT_ERROR_NONE \<and> hbm \<noteq> 0 \<and> answered \<noteq> [] \<and> fst (rtMalloc (hd answered) bytes) = RT_ERROR_NONE
         then Ok \<lparr>device_mem_base = snd (rtMalloc (hd answered) bytes), device_mem_offset = bytes, device_mem_size = bytes\<rparr>
         else Err Fatal)"
proof -
  have "[0 ..< 0 + 3] = [0, 1, 2 :: nat]" by (simp add: upt_rec)
  then show ?thesis
    by (auto simp: MallocDeviceMemory_def GetDefaultDeviceMemSize_def GetDeviceHBMSize_def malloc_retry_spec Let_def
        ACL_ERROR_RT_MEMORY_ALLOCATION_def RT_ERROR_NONE_def split: prod.split)
qed

end
