(* ===== verification/Thread_Pool.thy ===== *)
theory Thread_Pool
  imports Cxx_Int "HOL-Library.Multiset"
begin

text \<open>
  The thread pool of the runtime (\<open>src/runtime/thread_pool.h\<close> and \<open>.cc\<close>) as a step relation on
  an explicit state. A worker runs \<open>ThreadPool::SyncRunLoop\<close>; the client is the thread that
  holds \<open>pool_mtx_\<close> inside \<open>SyncRun\<close> or \<open>ClearThreadPool\<close> (idle when nobody holds it). A
  region guarded by \<open>task_mutex_\<close> is one step where it touches only what that mutex guards;
  the wait of a worker reads \<open>exit_run_\<close>, which the mutex does not guard, so its acquisition
  of the mutex, its test and its falling asleep are steps of their own. A task is known by a
  number; it returns or throws a \<open>std::exception\<close>, which the loop catches.
\<close>

section \<open>State\<close>

type_synonym task = nat

text \<open>
  \<open>W_Lock\<close>: before the mutex, at the head of the loop or woken; \<open>W_Check\<close>: before the test of
  the wait; \<open>W_Block\<close>: the test was false, about to release the mutex and sleep; \<open>W_Wait\<close>:
  asleep on \<open>task_cond_var_\<close>; \<open>W_Take\<close>: the wait is over; \<open>W_Run\<close>: in the task; \<open>W_Count\<close>:
  before the counter; \<open>W_Notify\<close>: before \<open>finished_cond_var_.notify_one\<close>; \<open>W_Exit\<close>: returned;
  \<open>W_Undef\<close>: \<open>front\<close> was called on an empty queue.
\<close>

datatype worker =
  W_Lock | W_Check | W_Block | W_Wait | W_Take | W_Run task | W_Count | W_Notify | W_Exit | W_Undef

text \<open>
  \<open>C_Spawn k ts\<close>: in \<open>SyncRun ts\<close> with \<open>k\<close> threads to start; \<open>C_Push ts n\<close>: with \<open>ts\<close> of the
  \<open>n\<close> tasks to push; \<open>C_Wait n\<close>: before the test of the wait for \<open>n\<close> finished tasks; \<open>C_Sleep n\<close>:
  asleep on \<open>finished_cond_var_\<close>; \<open>C_Notify_All\<close>, \<open>C_Join i\<close>: in \<open>ClearThreadPool\<close>.
\<close>

datatype client =
    C_Idle
  | C_Spawn nat "task list"
  | C_Push "task list" nat
  | C_Wait nat
  | C_Sleep nat
  | C_Notify_All
  | C_Join nat

text \<open>\<open>task_mutex\<close> is the worker that holds it. The last two fields are for the statements only:
  the tasks of the last \<open>SyncRun\<close> and those of them that have been run.\<close>

record ThreadPool =
  max_thread_num :: nat
  exit_run :: bool
  task_queue :: "task list"
  task_mutex :: "nat option"
  task_finished_count :: nat
  sync_run_threads :: "worker list"
  client_at :: client
  asked :: "task list"
  ran :: "task list"

section \<open>The number of threads\<close>

text \<open>\<open>cores\<close> is \<open>std::thread::hardware_concurrency()\<close>, \<open>env\<close> what \<open>atoi\<close> reads of the variable
  \<open>AKG_NUM_THREADS\<close> when it is set; x86, without \<open>ENABLE_D\<close> and \<open>ENABLE_GPU\<close>.\<close>

definition MaxThreadNumber :: "64 word \<Rightarrow> int option \<Rightarrow> 64 word" where
  "MaxThreadNumber cores env =
     (let process_core_num = cores div 2;
          process_core_num = (if process_core_num < 1 then 1 else process_core_num);
          thread_num = (case env of Some v \<Rightarrow> min (size_of_int v) process_core_num
                                  | None \<Rightarrow> process_core_num)
      in if thread_num < 1 then 1 else thread_num)"

text \<open>The constructor.\<close>

definition new_pool :: "64 word \<Rightarrow> int option \<Rightarrow> ThreadPool" where
  "new_pool cores env = \<lparr>max_thread_num = unat (MaxThreadNumber cores env), exit_run = False,
     task_queue = [], task_mutex = None, task_finished_count = 0, sync_run_threads = [],
     client_at = C_Idle, asked = [], ran = []\<rparr>"

section \<open>Steps of a worker\<close>

definition set_worker :: "nat \<Rightarrow> worker \<Rightarrow> ThreadPool \<Rightarrow> ThreadPool" where
  "set_worker i w s = s\<lparr>sync_run_threads := (sync_run_threads s)[i := w]\<rparr>"

text \<open>\<open>finished_cond_var_.notify_one\<close>: only the client waits on it.\<close>

fun notified :: "client \<Rightarrow> client" where
  "notified (C_Sleep n) = C_Wait n"
| "notified c = c"

definition worker_step :: "nat \<Rightarrow> ThreadPool \<Rightarrow> ThreadPool option" where
  "worker_step i s =
     (if \<not> i < length (sync_run_threads s) then None
      else case sync_run_threads s ! i of
        W_Lock \<Rightarrow>
          if task_mutex s = None then Some ((set_worker i W_Check s)\<lparr>task_mutex := Some i\<rparr>) else None
      | W_Check \<Rightarrow>
          if task_queue s \<noteq> [] \<or> exit_run s then Some (set_worker i W_Take s)
          else Some (set_worker i W_Block s)
      | W_Block \<Rightarrow> Some ((set_worker i W_Wait s)\<lparr>task_mutex := None\<rparr>)
      | W_Wait \<Rightarrow> None
      | W_Take \<Rightarrow>
          if exit_run s then Some ((set_worker i W_Exit s)\<lparr>task_mutex := None\<rparr>)
          else (case task_queue s of
                  [] \<Rightarrow> Some (set_worker i W_Undef s)
                | t # q \<Rightarrow> Some ((set_worker i (W_Run t) s)\<lparr>task_queue := q, task_mutex := None\<rparr>))
      | W_Run t \<Rightarrow> Some ((set_worker i W_Count s)\<lparr>ran := ran s @ [t]\<rparr>)
      | W_Count \<Rightarrow>
          if task_mutex s = None
          then Some ((set_worker i W_Notify s)\<lparr>task_finished_count := task_finished_count s + 1\<rparr>)
          else None
      | W_Notify \<Rightarrow> Some ((set_worker i W_Lock s)\<lparr>client_at := notified (client_at s)\<rparr>)
      | W_Exit \<Rightarrow> None
      | W_Undef \<Rightarrow> None)"

section \<open>Steps of the client\<close>

text \<open>\<open>SyncRun\<close> up to the threads to start. One task alone is run by the caller, outside the
  pool.\<close>

definition SyncRun :: "task list \<Rightarrow> ThreadPool \<Rightarrow> ThreadPool option" where
  "SyncRun tasks s =
     (if client_at s \<noteq> C_Idle then None
      else if length tasks = 1 then Some (s\<lparr>asked := tasks, ran := tasks\<rparr>)
      else
        let task_num = length tasks; thread_num = length (sync_run_threads s);
            new_threads =
              (if thread_num < max_thread_num s \<and> thread_num < task_num
               then (if task_num < max_thread_num s then task_num else max_thread_num s) - thread_num
               else 0)
        in Some (s\<lparr>exit_run := False, client_at := C_Spawn new_threads tasks, asked := tasks, ran := []\<rparr>))"

definition ClearThreadPool :: "ThreadPool \<Rightarrow> ThreadPool option" where
  "ClearThreadPool s =
     (if client_at s \<noteq> C_Idle then None
      else if exit_run s then Some s
      else Some (s\<lparr>exit_run := True, client_at := C_Notify_All\<rparr>))"

text \<open>\<open>task_cond_var_.notify_one\<close> wakes one sleeping worker if there is any: \<open>j\<close> is its choice.\<close>

definition notify_one :: "nat \<Rightarrow> worker list \<Rightarrow> worker list option" where
  "notify_one j ws =
     (if W_Wait \<notin> set ws then Some ws
      else if j < length ws \<and> ws ! j = W_Wait then Some (ws[j := W_Lock]) else None)"

definition wake :: "worker \<Rightarrow> worker" where
  "wake w = (if w = W_Wait then W_Lock else w)"

text \<open>\<open>ClearThreadPool\<close> after the flag: wake everybody, join the threads in order, forget them.\<close>

definition clear_step :: "ThreadPool \<Rightarrow> ThreadPool option" where
  "clear_step s =
     (case client_at s of
        C_Notify_All \<Rightarrow>
          Some (s\<lparr>sync_run_threads := map wake (sync_run_threads s), client_at := C_Join 0\<rparr>)
      | C_Join i \<Rightarrow>
          if i < length (sync_run_threads s)
          then (if sync_run_threads s ! i = W_Exit then Some (s\<lparr>client_at := C_Join (Suc i)\<rparr>) else None)
          else Some (s\<lparr>sync_run_threads := [], client_at := C_Idle\<rparr>)
      | _ \<Rightarrow> None)"

definition client_step :: "nat \<Rightarrow> ThreadPool \<Rightarrow> ThreadPool option" where
  "client_step j s =
     (case client_at s of
        C_Idle \<Rightarrow> None
      | C_Spawn k ts \<Rightarrow>
          (case k of
             Suc k \<Rightarrow> Some (s\<lparr>sync_run_threads := sync_run_threads s @ [W_Lock], client_at := C_Spawn k ts\<rparr>)
           | 0 \<Rightarrow> Some (s\<lparr>client_at := C_Push ts (length ts)\<rparr>))
      | C_Push ts n \<Rightarrow>
          (case ts of
             [] \<Rightarrow> Some (s\<lparr>client_at := C_Wait n\<rparr>)
           | t # ts \<Rightarrow>
               if task_mutex s \<noteq> None then None
               else map_option (\<lambda>ws. s\<lparr>task_queue := task_queue s @ [t], sync_run_threads := ws,
                                        client_at := C_Push ts n\<rparr>)
                      (notify_one j (sync_run_threads s)))
      | C_Wait n \<Rightarrow>
          if task_mutex s \<noteq> None then None
          else if task_finished_count s = n then Some (s\<lparr>task_finished_count := 0, client_at := C_Idle\<rparr>)
          else Some (s\<lparr>client_at := C_Sleep n\<rparr>)
      | C_Sleep n \<Rightarrow> None
      | _ \<Rightarrow> clear_step s)"

text \<open>\<open>AKGBackendParallelLaunch\<close>: one task for each number below the number of threads, which
  it also passes as the number of tasks.\<close>

definition launch_tasks :: "ThreadPool \<Rightarrow> int \<Rightarrow> task list" where
  "launch_tasks s num_task = [0 ..< nat (min num_task (int_of_size (word_of_nat (max_thread_num s))))]"

definition AKGBackendParallelLaunch :: "int \<Rightarrow> ThreadPool \<Rightarrow> ThreadPool option" where
  "AKGBackendParallelLaunch num_task s = SyncRun (launch_tasks s num_task) s"

section \<open>Runs\<close>

text \<open>\<open>step\<close>: a step of the code of some thread; \<open>spurious\<close>: a wake-up of a condition variable
  that nobody notified; \<open>called\<close>: the client enters one of the two functions.\<close>

inductive step :: "ThreadPool \<Rightarrow> ThreadPool \<Rightarrow> bool" where
  by_worker: "worker_step i s = Some s' \<Longrightarrow> step s s'"
| by_client: "client_step j s = Some s' \<Longrightarrow> step s s'"

inductive spurious :: "ThreadPool \<Rightarrow> ThreadPool \<Rightarrow> bool" where
  "i < length (sync_run_threads s) \<Longrightarrow> sync_run_threads s ! i = W_Wait \<Longrightarrow> spurious s (set_worker i W_Lock s)"
| "client_at s = C_Sleep n \<Longrightarrow> spurious s (s\<lparr>client_at := C_Wait n\<rparr>)"

inductive called :: "ThreadPool \<Rightarrow> ThreadPool \<Rightarrow> bool" where
  "SyncRun tasks s = Some s' \<Longrightarrow> called s s'"
| "ClearThreadPool s = Some s' \<Longrightarrow> called s s'"

inductive reachable :: "ThreadPool \<Rightarrow> bool" where
  start: "reachable (new_pool cores env)"
| more_step: "reachable s \<Longrightarrow> step s s' \<Longrightarrow> reachable s'"
| more_spurious: "reachable s \<Longrightarrow> spurious s s' \<Longrightarrow> reachable s'"
| more_called: "reachable s \<Longrightarrow> called s s' \<Longrightarrow> reachable s'"

code_pred step .

inductive_cases step_cases: "step s s'"
inductive_cases spurious_cases: "spurious s s'"
inductive_cases called_cases: "called s s'"

end
