(* ===== verification/Thread_Pool_Invariant.thy ===== *)
theory Thread_Pool_Invariant
  imports Thread_Pool
begin

text \<open>
  The invariant of the thread pool of theory \<open>Thread_Pool\<close>: one worker at most is in a region
  guarded by \<open>task_mutex_\<close>, what a worker saw in its test still holds when it acts on it,
  every task that was asked for is in exactly one place, and while a task waits in the queue
  some worker is awake.
\<close>

section \<open>Bookkeeping\<close>

definition holds_mutex :: "worker \<Rightarrow> bool" where
  "holds_mutex w \<longleftrightarrow> w = W_Check \<or> w = W_Block \<or> w = W_Take \<or> w = W_Undef"

definition alert :: "worker \<Rightarrow> bool" where
  "alert w \<longleftrightarrow> w \<noteq> W_Block \<and> w \<noteq> W_Wait \<and> w \<noteq> W_Exit \<and> w \<noteq> W_Undef"

fun running_of :: "worker \<Rightarrow> task multiset" where
  "running_of (W_Run t) = {#t#}"
| "running_of w = {#}"

definition running :: "ThreadPool \<Rightarrow> task multiset" where
  "running s = sum_list (map running_of (sync_run_threads s))"

definition to_count :: "worker \<Rightarrow> nat" where
  "to_count w = (if w = W_Count then 1 else 0)"

definition uncounted :: "ThreadPool \<Rightarrow> nat" where
  "uncounted s = sum_list (map to_count (sync_run_threads s))"

fun pending :: "client \<Rightarrow> task list" where
  "pending (C_Spawn k ts) = ts"
| "pending (C_Push ts n) = ts"
| "pending c = []"

fun in_sync :: "client \<Rightarrow> bool" where
  "in_sync C_Idle = False"
| "in_sync C_Notify_All = False"
| "in_sync (C_Join i) = False"
| "in_sync c = True"

fun goal_of :: "client \<Rightarrow> nat option" where
  "goal_of (C_Spawn k ts) = Some (length ts)"
| "goal_of (C_Push ts n) = Some n"
| "goal_of (C_Wait n) = Some n"
| "goal_of (C_Sleep n) = Some n"
| "goal_of c = None"

fun to_start :: "client \<Rightarrow> nat" where
  "to_start (C_Spawn k ts) = k"
| "to_start c = 0"

section \<open>Case analysis of the steps\<close>

lemma worker_step_cases [consumes 1, case_names Lock Check_take Check_block Block Take_exit Take_undef Take Run Count Notify]:
  assumes "worker_step i s = Some s'"
  obtains "i < length (sync_run_threads s)" "sync_run_threads s ! i = W_Lock" "task_mutex s = None"
      "s' = (set_worker i W_Check s)\<lparr>task_mutex := Some i\<rparr>"
    | "i < length (sync_run_threads s)" "sync_run_threads s ! i = W_Check" "task_queue s \<noteq> [] \<or> exit_run s"
      "s' = set_worker i W_Take s"
    | "i < length (sync_run_threads s)" "sync_run_threads s ! i = W_Check" "task_queue s = []" "\<not> exit_run s"
      "s' = set_worker i W_Block s"
    | "i < length (sync_run_threads s)" "sync_run_threads s ! i = W_Block"
      "s' = (set_worker i W_Wait s)\<lparr>task_mutex := None\<rparr>"
    | "i < length (sync_run_threads s)" "sync_run_threads s ! i = W_Take" "exit_run s"
      "s' = (set_worker i W_Exit s)\<lparr>task_mutex := None\<rparr>"
    | "i < length (sync_run_threads s)" "sync_run_threads s ! i = W_Take" "\<not> exit_run s" "task_queue s = []"
      "s' = set_worker i W_Undef s"
    | t q where "i < length (sync_run_threads s)" "sync_run_threads s ! i = W_Take" "\<not> exit_run s" "task_queue s = t # q"
      "s' = (set_worker i (W_Run t) s)\<lparr>task_queue := q, task_mutex := None\<rparr>"
    | t where "i < length (sync_run_threads s)" "sync_run_threads s ! i = W_Run t"
      "s' = (set_worker i W_Count s)\<lparr>ran := ran s @ [t]\<rparr>"
    | "i < length (sync_run_threads s)" "sync_run_threads s ! i = W_Count" "task_mutex s = None"
      "s' = (set_worker i W_Notify s)\<lparr>task_finished_count := task_finished_count s + 1\<rparr>"
    | "i < length (sync_run_threads s)" "sync_run_threads s ! i = W_Notify"
      "s' = (set_worker i W_Lock s)\<lparr>client_at := notified (client_at s)\<rparr>"
proof -
  have i: "i < length (sync_run_threads s)" using assms by (simp add: worker_step_def split: if_splits)
  note step = assms [unfolded worker_step_def] and if_splits [split] list.splits [split]
  show thesis
  proof (cases "sync_run_threads s ! i")
    case W_Lock with i step that(1) show ?thesis by simp
  next
    case W_Check with i step that(2,3) show ?thesis by simp
  next
    case W_Block with i step that(4) show ?thesis by simp
  next
    case W_Take with i step that(5,6,7) show ?thesis by simp
  next
    case (W_Run t) with i step that(8) show ?thesis by simp
  next
    case W_Count with i step that(9) show ?thesis by simp
  next
    case W_Notify with i step that(10) show ?thesis by simp
  qed (use i step in simp_all)
qed

lemma notify_one_cases [consumes 1, case_names Nobody Woken]:
  assumes "notify_one j ws = Some ws'"
  obtains "W_Wait \<notin> set ws" "ws' = ws"
    | "j < length ws" "ws ! j = W_Wait" "ws' = ws[j := W_Lock]"
proof (cases "W_Wait \<in> set ws")
  case True
  with assms that(2) show ?thesis by (simp add: notify_one_def split: if_splits)
next
  case False
  with assms show ?thesis by (intro that(1)) (simp_all add: notify_one_def)
qed

lemma client_step_cases [consumes 1, case_names Spawn Spawned Push Push_wake Pushed Return Sleep Notify_All Join Joined]:
  assumes "client_step j s = Some s'"
  obtains k ts where "client_at s = C_Spawn (Suc k) ts"
      "s' = s\<lparr>sync_run_threads := sync_run_threads s @ [W_Lock], client_at := C_Spawn k ts\<rparr>"
    | ts where "client_at s = C_Spawn 0 ts" "s' = s\<lparr>client_at := C_Push ts (length ts)\<rparr>"
    | t ts n where "client_at s = C_Push (t # ts) n" "task_mutex s = None" "W_Wait \<notin> set (sync_run_threads s)"
      "s' = s\<lparr>task_queue := task_queue s @ [t], client_at := C_Push ts n\<rparr>"
    | t ts n where "client_at s = C_Push (t # ts) n" "task_mutex s = None" "j < length (sync_run_threads s)"
      "sync_run_threads s ! j = W_Wait"
      "s' = (set_worker j W_Lock s)\<lparr>task_queue := task_queue s @ [t], client_at := C_Push ts n\<rparr>"
    | n where "client_at s = C_Push [] n" "s' = s\<lparr>client_at := C_Wait n\<rparr>"
    | n where "client_at s = C_Wait n" "task_mutex s = None" "task_finished_count s = n"
      "s' = s\<lparr>task_finished_count := 0, client_at := C_Idle\<rparr>"
    | n where "client_at s = C_Wait n" "task_mutex s = None" "task_finished_count s \<noteq> n" "s' = s\<lparr>client_at := C_Sleep n\<rparr>"
    | "client_at s = C_Notify_All"
      "s' = s\<lparr>sync_run_threads := map wake (sync_run_threads s), client_at := C_Join 0\<rparr>"
    | i where "client_at s = C_Join i" "i < length (sync_run_threads s)" "sync_run_threads s ! i = W_Exit"
      "s' = s\<lparr>client_at := C_Join (Suc i)\<rparr>"
    | i where "client_at s = C_Join i" "length (sync_run_threads s) \<le> i" "s' = s\<lparr>sync_run_threads := [], client_at := C_Idle\<rparr>"
proof (cases "client_at s")
  case (C_Spawn k ts)
  with assms that(1,2) show ?thesis by (cases k) (simp_all add: client_step_def clear_step_def)
next
  case (C_Push ts n)
  show ?thesis
  proof (cases ts)
    case (Cons t ts')
    with assms C_Push obtain ws where "task_mutex s = None" "notify_one j (sync_run_threads s) = Some ws"
      "s' = s\<lparr>task_queue := task_queue s @ [t], sync_run_threads := ws, client_at := C_Push ts' n\<rparr>"
      by (auto simp: client_step_def clear_step_def split: if_splits)
    note step = this(1,3) and at = C_Push [unfolded Cons]
    from \<open>notify_one j _ = _\<close> show ?thesis
    proof (cases rule: notify_one_cases)
      case Nobody
      with step show ?thesis by (intro that(3) [OF at]) simp_all
    next
      case Woken
      with step show ?thesis by (intro that(4) [OF at]) (simp_all add: set_worker_def)
    qed
  qed (use assms C_Push that(5) in \<open>simp add: client_step_def clear_step_def\<close>)
next
  case (C_Wait n)
  with assms that(6,7) show ?thesis by (simp add: client_step_def clear_step_def split: if_splits)
next
  case C_Notify_All
  with assms that(8) show ?thesis by (simp add: client_step_def clear_step_def)
next
  case (C_Join i)
  with assms that(9,10) show ?thesis by (simp add: client_step_def clear_step_def split: if_splits)
next
  case C_Idle
  with assms show ?thesis by (simp add: client_step_def clear_step_def)
next
  case (C_Sleep n)
  with assms show ?thesis by (simp add: client_step_def clear_step_def)
qed


definition new_threads :: "task list \<Rightarrow> ThreadPool \<Rightarrow> nat" where
  "new_threads ts s =
     (if length (sync_run_threads s) < max_thread_num s \<and> length (sync_run_threads s) < length ts
      then min (length ts) (max_thread_num s) - length (sync_run_threads s) else 0)"

lemma called_shape [consumes 1, case_names Alone Sync Again Clear]:
  assumes "called s s'"
  obtains t where "client_at s = C_Idle" "s' = s\<lparr>asked := [t], ran := [t]\<rparr>"
    | ts where "client_at s = C_Idle" "length ts \<noteq> 1"
      "s' = s\<lparr>exit_run := False, client_at := C_Spawn (new_threads ts s) ts, asked := ts, ran := []\<rparr>"
    | "client_at s = C_Idle" "exit_run s" "s' = s"
    | "client_at s = C_Idle" "\<not> exit_run s" "s' = s\<lparr>exit_run := True, client_at := C_Notify_All\<rparr>"
  using assms
proof (cases rule: called.cases)
  case (1 ts)
  then have idle: "client_at s = C_Idle" by (simp add: SyncRun_def split: if_splits)
  show ?thesis
  proof (cases "length ts = 1")
    case True
    then obtain t where "ts = [t]" by (auto simp: length_Suc_conv)
    with 1 idle show ?thesis by (intro that(1) [of t]) (simp_all add: SyncRun_def)
  next
    case False
    with idle have "SyncRun ts s = Some (s\<lparr>exit_run := False, client_at := C_Spawn (new_threads ts s) ts,
        asked := ts, ran := []\<rparr>)"
      by (auto simp: SyncRun_def new_threads_def Let_def min_def)
    with 1 idle False show ?thesis by (intro that(2) [of ts]) simp_all
  qed
next
  case 2
  with that(3,4) show ?thesis by (simp add: ClearThreadPool_def split: if_splits)
qed

lemma set_worker_simps [simp]:
  "sync_run_threads (set_worker i w s) = (sync_run_threads s)[i := w]"
  "task_mutex (set_worker i w s) = task_mutex s"
  "task_queue (set_worker i w s) = task_queue s"
  "exit_run (set_worker i w s) = exit_run s"
  "task_finished_count (set_worker i w s) = task_finished_count s"
  "client_at (set_worker i w s) = client_at s"
  "asked (set_worker i w s) = asked s"
  "ran (set_worker i w s) = ran s"
  "max_thread_num (set_worker i w s) = max_thread_num s"
  by (simp_all add: set_worker_def)

lemma notified_simps [simp]:
  "pending (notified c) = pending c" "in_sync (notified c) = in_sync c"
  "goal_of (notified c) = goal_of c" "to_start (notified c) = to_start c"
  "notified c = C_Idle \<longleftrightarrow> c = C_Idle" "notified c \<noteq> C_Sleep n"
  "notified c = C_Notify_All \<longleftrightarrow> c = C_Notify_All" "notified c = C_Join i \<longleftrightarrow> c = C_Join i"
  by (cases c; simp)+


section \<open>Who holds the mutex\<close>

definition mutex_ok :: "nat option \<Rightarrow> worker list \<Rightarrow> bool" where
  "mutex_ok m ws \<longleftrightarrow> (\<forall>i. m = Some i \<longleftrightarrow> i < length ws \<and> holds_mutex (ws ! i))"

lemma holds_mutex_simps [simp]:
  "holds_mutex W_Check" "holds_mutex W_Undef" "holds_mutex W_Block" "holds_mutex W_Take" "\<not> holds_mutex W_Lock"
  "\<not> holds_mutex W_Wait" "\<not> holds_mutex (W_Run t)" "\<not> holds_mutex W_Count" "\<not> holds_mutex W_Notify"
  "\<not> holds_mutex W_Exit" "holds_mutex (wake w) = holds_mutex w"
  by (simp_all add: holds_mutex_def wake_def)

lemma mutex_free: "mutex_ok None ws \<Longrightarrow> w \<in> set ws \<Longrightarrow> \<not> holds_mutex w"
  unfolding mutex_ok_def in_set_conv_nth by auto

lemma mutex_one: "mutex_ok m ws \<Longrightarrow> i < length ws \<Longrightarrow> holds_mutex (ws ! i) \<Longrightarrow>
    j < length ws \<Longrightarrow> holds_mutex (ws ! j) \<Longrightarrow> i = j"
  unfolding mutex_ok_def by (metis option.inject)

lemma mutex_same: "mutex_ok m ws \<Longrightarrow> holds_mutex w = holds_mutex (ws ! i) \<Longrightarrow> mutex_ok m (ws[i := w])"
  unfolding mutex_ok_def by (metis length_list_update nth_list_update_eq nth_list_update_neq)

lemma mutex_acquire: "mutex_ok None ws \<Longrightarrow> i < length ws \<Longrightarrow> holds_mutex w \<Longrightarrow> mutex_ok (Some i) (ws[i := w])"
  unfolding mutex_ok_def by (auto simp: nth_list_update)

lemma mutex_release:
  assumes "mutex_ok m ws" "i < length ws" "holds_mutex (ws ! i)" "\<not> holds_mutex w"
  shows "mutex_ok None (ws[i := w])"
proof -
  have "\<not> holds_mutex (ws[i := w] ! k)" if "k < length ws" for k
    using that assms(4) mutex_one [OF assms(1-3), of k] by (cases "k = i") (auto simp: nth_list_update)
  then show ?thesis by (auto simp: mutex_ok_def)
qed

lemma mutex_append: "mutex_ok m ws \<Longrightarrow> \<not> holds_mutex w \<Longrightarrow> mutex_ok m (ws @ [w])"
  unfolding mutex_ok_def by (auto simp: nth_append less_Suc_eq)

lemma mutex_wake: "mutex_ok m ws \<Longrightarrow> mutex_ok m (map wake ws)"
  unfolding mutex_ok_def by (metis holds_mutex_simps(11) length_map nth_map)

text \<open>The threads that are gone: none while the pool runs, all when it is idle again.\<close>

definition inv_exit :: "ThreadPool \<Rightarrow> bool" where
  "inv_exit s \<longleftrightarrow> mutex_ok (task_mutex s) (sync_run_threads s) \<and>
     (W_Exit \<in> set (sync_run_threads s) \<longrightarrow> exit_run s) \<and>
     (in_sync (client_at s) \<longrightarrow> \<not> exit_run s) \<and>
     (\<not> in_sync (client_at s) \<longrightarrow> client_at s \<noteq> C_Idle \<longrightarrow> exit_run s) \<and>
     (client_at s = C_Idle \<longrightarrow> exit_run s \<longrightarrow> sync_run_threads s = []) \<and>
     (\<forall>i. client_at s = C_Join i \<longrightarrow> (\<forall>j < i. j < length (sync_run_threads s) \<longrightarrow> sync_run_threads s ! j = W_Exit))"


lemmas mutex_rules = mutex_acquire mutex_release mutex_same mutex_append mutex_wake
lemmas in_updated = set_update_subset_insert [THEN subsetD]

lemma wake_simps [simp]: "wake w = W_Exit \<longleftrightarrow> w = W_Exit" "W_Exit = wake w \<longleftrightarrow> w = W_Exit"
  "wake w = W_Wait \<longleftrightarrow> False" "wake w = W_Undef \<longleftrightarrow> w = W_Undef" "W_Undef = wake w \<longleftrightarrow> w = W_Undef"
  "wake w = W_Block \<longleftrightarrow> w = W_Block" "W_Block = wake w \<longleftrightarrow> w = W_Block"
  "wake w = W_Take \<longleftrightarrow> w = W_Take" "W_Take = wake w \<longleftrightarrow> w = W_Take"
  by (auto simp: wake_def)

lemma exit_worker_step: "worker_step i s = Some s' \<Longrightarrow> inv_exit s \<Longrightarrow> inv_exit s'"
  by (erule worker_step_cases;
      auto simp: inv_exit_def nth_list_update intro: mutex_rules dest!: in_updated)

lemma exit_client_step: "client_step j s = Some s' \<Longrightarrow> inv_exit s \<Longrightarrow> inv_exit s'"
proof (erule client_step_cases, goal_cases)
  case (10 i)
  then have "holds_mutex w \<Longrightarrow> w \<notin> set (sync_run_threads s)" for w
    by (auto simp: inv_exit_def in_set_conv_nth)
  with 10 show ?case by (auto simp: inv_exit_def mutex_ok_def)
qed (auto simp: inv_exit_def less_Suc_eq intro: mutex_rules dest!: in_updated)

lemma exit_spurious: "spurious s s' \<Longrightarrow> inv_exit s \<Longrightarrow> inv_exit s'"
  by (erule spurious_cases) (auto simp: inv_exit_def nth_list_update intro: mutex_rules dest!: in_updated)

lemma exit_called: "called s s' \<Longrightarrow> inv_exit s \<Longrightarrow> inv_exit s'"
proof (erule called_shape, goal_cases)
  case 1 then show ?case by (auto simp: inv_exit_def)
next
  case 2 then show ?case by (auto simp: inv_exit_def)
next
  case 3 then show ?case by simp
next
  case 4 then show ?case by (auto simp: inv_exit_def)
qed

section \<open>What the tests of the workers saw\<close>

definition inv_tests :: "ThreadPool \<Rightarrow> bool" where
  "inv_tests s \<longleftrightarrow> W_Undef \<notin> set (sync_run_threads s) \<and>
     (W_Block \<in> set (sync_run_threads s) \<longrightarrow> task_queue s = []) \<and>
     (W_Take \<in> set (sync_run_threads s) \<longrightarrow> task_queue s \<noteq> [] \<or> exit_run s)"

text \<open>The mutex lets one worker at most be between the test and what follows it.\<close>

lemma mutex_only:
  assumes "mutex_ok m ws" "i < length ws" "holds_mutex (ws ! i)" "\<not> holds_mutex w" "holds_mutex v"
  shows "v \<notin> set (ws[i := w])"
  using mutex_free [OF mutex_release [OF assms(1-4)]] assms(5) by blast

lemma tests_worker_step: "worker_step i s = Some s' \<Longrightarrow> inv_exit s \<Longrightarrow> inv_tests s \<Longrightarrow> inv_tests s'"
proof (erule worker_step_cases, goal_cases)
  case (7 t q)
  then have "mutex_ok (task_mutex s) (sync_run_threads s)" by (simp add: inv_exit_def)
  with 7 mutex_only [OF this, of i "W_Run t"] show ?case by (auto simp: inv_tests_def dest!: in_updated)
next
  case 6
  then have "W_Take \<in> set (sync_run_threads s)" by (metis nth_mem)
  with 6 show ?case by (simp add: inv_tests_def)
qed (auto simp: inv_tests_def dest!: in_updated)

lemma tests_client_step: "client_step j s = Some s' \<Longrightarrow> inv_exit s \<Longrightarrow> inv_tests s \<Longrightarrow> inv_tests s'"
proof (erule client_step_cases, goal_cases)
  case (3 t ts n)
  then show ?case using mutex_free [of "sync_run_threads s" W_Block] by (auto simp: inv_tests_def inv_exit_def)
next
  case (4 t ts n)
  then show ?case using mutex_free [of "sync_run_threads s" W_Block]
    by (auto simp: inv_tests_def inv_exit_def dest!: in_updated)
qed (auto simp: inv_tests_def)

lemma tests_spurious: "spurious s s' \<Longrightarrow> inv_tests s \<Longrightarrow> inv_tests s'"
  by (erule spurious_cases) (auto simp: inv_tests_def dest!: in_updated)

lemma tests_called: "called s s' \<Longrightarrow> inv_exit s \<Longrightarrow> inv_tests s \<Longrightarrow> inv_tests s'"
proof (erule called_shape, goal_cases)
  case 1 then show ?case by (simp add: inv_tests_def)
next
  case 2 then show ?case by (cases "exit_run s") (simp_all add: inv_exit_def inv_tests_def)
next
  case 3 then show ?case by simp
next
  case 4 then show ?case by (auto simp: inv_tests_def)
qed

section \<open>Where the tasks are\<close>

lemma running_worker:
  "i < length (sync_run_threads s) \<Longrightarrow>
     running (set_worker i w s) + running_of (sync_run_threads s ! i) = running s + running_of w"
  "i < length (sync_run_threads s) \<Longrightarrow>
     uncounted (set_worker i w s) + to_count (sync_run_threads s ! i) = uncounted s + to_count w"
  by (simp_all only: running_def uncounted_def set_worker_simps sum_list_update_cancel)

definition inv_tasks :: "ThreadPool \<Rightarrow> bool" where
  "inv_tasks s \<longleftrightarrow>
     mset (asked s) = mset (pending (client_at s)) + mset (task_queue s) + running s + mset (ran s) \<and>
     (\<forall>n. goal_of (client_at s) = Some n \<longrightarrow> n = length (asked s)) \<and>
     (if in_sync (client_at s) then task_finished_count s + uncounted s = length (ran s)
      else task_finished_count s = 0 \<and> uncounted s = 0 \<and> task_queue s = [] \<and> running s = {#})"

lemma idle_no_tasks:
  "inv_tasks s \<Longrightarrow> \<not> in_sync (client_at s) \<Longrightarrow>
     task_queue s = [] \<and> running s = {#} \<and> (\<forall>t. W_Run t \<notin> set (sync_run_threads s)) \<and> W_Count \<notin> set (sync_run_threads s)"
proof -
  assume "inv_tasks s" and idle: "\<not> in_sync (client_at s)"
  then have none: "task_queue s = []" "running s = {#}" "uncounted s = 0"
    by (auto simp: inv_tasks_def)
  have run: "sum_list (map running_of ws) = {#} \<Longrightarrow> \<forall>t. W_Run t \<notin> set ws" for ws
    by (induction ws) auto
  have count: "sum_list (map to_count ws) = 0 \<Longrightarrow> W_Count \<notin> set ws" for ws
    using member_le_sum_list [of "to_count W_Count" "map to_count ws"] by (auto simp: to_count_def)
  from none run [OF none(2) [unfolded running_def]] count [OF none(3) [unfolded uncounted_def]]
  show ?thesis by blast
qed


lemma running_fields [simp]:
  "running (s\<lparr>task_mutex := m\<rparr>) = running s" "running (s\<lparr>task_queue := q\<rparr>) = running s"
  "running (s\<lparr>ran := r\<rparr>) = running s" "running (s\<lparr>task_finished_count := n\<rparr>) = running s"
  "running (s\<lparr>client_at := c\<rparr>) = running s" "running (s\<lparr>asked := r\<rparr>) = running s"
  "running (s\<lparr>exit_run := b\<rparr>) = running s"
  "running (s\<lparr>sync_run_threads := ws\<rparr>) = sum_list (map running_of ws)"
  by (simp_all add: running_def)

lemma uncounted_fields [simp]:
  "uncounted (s\<lparr>task_mutex := m\<rparr>) = uncounted s" "uncounted (s\<lparr>task_queue := q\<rparr>) = uncounted s"
  "uncounted (s\<lparr>ran := r\<rparr>) = uncounted s" "uncounted (s\<lparr>task_finished_count := n\<rparr>) = uncounted s"
  "uncounted (s\<lparr>client_at := c\<rparr>) = uncounted s" "uncounted (s\<lparr>asked := r\<rparr>) = uncounted s"
  "uncounted (s\<lparr>exit_run := b\<rparr>) = uncounted s"
  "uncounted (s\<lparr>sync_run_threads := ws\<rparr>) = sum_list (map to_count ws)"
  by (simp_all add: uncounted_def)

lemma to_count_simps [simp]:
  "to_count W_Lock = 0" "to_count W_Check = 0" "to_count W_Block = 0" "to_count W_Wait = 0" "to_count W_Take = 0"
  "to_count (W_Run t) = 0" "to_count W_Count = 1" "to_count W_Notify = 0" "to_count W_Exit = 0" "to_count W_Undef = 0"
  by (simp_all add: to_count_def)

text \<open>A worker that neither runs nor has run a task moves no task.\<close>

lemma no_task_moved:
  assumes "i < length (sync_run_threads s)" "running_of (sync_run_threads s ! i) = running_of w"
    "to_count (sync_run_threads s ! i) = to_count w"
  shows "running (set_worker i w s) = running s" "uncounted (set_worker i w s) = uncounted s"
  using running_worker [OF assms(1), of w] assms(2,3) by simp_all

lemma tasks_worker_step: "worker_step i s = Some s' \<Longrightarrow> inv_tasks s \<Longrightarrow> inv_tasks s'"
proof (erule worker_step_cases, goal_cases)
  case 1 then show ?case by (simp add: inv_tasks_def no_task_moved [of i s W_Check])
next
  case 2 then show ?case by (simp add: inv_tasks_def no_task_moved [of i s W_Take])
next
  case 3 then show ?case by (simp add: inv_tasks_def no_task_moved [of i s W_Block])
next
  case 4 then show ?case by (simp add: inv_tasks_def no_task_moved [of i s W_Wait])
next
  case 5 then show ?case by (simp add: inv_tasks_def no_task_moved [of i s W_Exit])
next
  case 6 then show ?case by (simp add: inv_tasks_def no_task_moved [of i s W_Undef])
next
  case 10 then show ?case by (simp add: inv_tasks_def no_task_moved [of i s W_Lock])
next
  case (7 t q)
  then have "in_sync (client_at s)" using idle_no_tasks by fastforce
  with 7 running_worker [of i s "W_Run t"] show ?case by (auto simp: inv_tasks_def)
next
  case (8 t)
  then have "in_sync (client_at s)" using idle_no_tasks nth_mem by metis
  with 8 running_worker [of i s W_Count] show ?case by (simp add: inv_tasks_def flip: add_mset_add_single)
next
  case 9
  then have "in_sync (client_at s)" using idle_no_tasks nth_mem by metis
  with 9 running_worker [of i s W_Notify] show ?case by (simp add: inv_tasks_def)
qed

text \<open>When as many tasks are counted as were asked for, none is left anywhere.\<close>

lemma all_counted:
  assumes "inv_tasks s" "client_at s = C_Wait n \<or> client_at s = C_Sleep n" "task_finished_count s = n"
  shows "task_queue s = [] \<and> running s = {#} \<and> uncounted s = 0 \<and> mset (ran s) = mset (asked s)"
proof -
  from assms have n: "n = length (asked s)" "n + uncounted s = length (ran s)"
    and tasks: "mset (asked s) = mset (task_queue s) + running s + mset (ran s)"
    by (auto simp: inv_tasks_def)
  have "length (asked s) = length (task_queue s) + size (running s) + length (ran s)"
    using arg_cong [OF tasks, of size] by simp
  with n have "length (task_queue s) = 0" "size (running s) = 0" "uncounted s = 0" by linarith+
  with tasks show ?thesis by simp
qed

lemma wake_counts: "sum_list (map (running_of \<circ> wake) ws) = sum_list (map running_of ws)"
    "sum_list (map (to_count \<circ> wake) ws) = sum_list (map to_count ws)"
proof -
  have "running_of \<circ> wake = running_of" "to_count \<circ> wake = to_count"
    by (auto simp: wake_def)
  then show "sum_list (map (running_of \<circ> wake) ws) = sum_list (map running_of ws)"
    "sum_list (map (to_count \<circ> wake) ws) = sum_list (map to_count ws)" by simp_all
qed

lemma tasks_client_step: "client_step j s = Some s' \<Longrightarrow> inv_tasks s \<Longrightarrow> inv_tasks s'"
proof (erule client_step_cases, goal_cases)
  case 1 then show ?case by (simp add: inv_tasks_def running_def uncounted_def)
next
  case 2 then show ?case by (simp add: inv_tasks_def)
next
  case 3 then show ?case by (simp add: inv_tasks_def)
next
  case 4 then show ?case by (simp add: inv_tasks_def no_task_moved)
next
  case 5 then show ?case by (simp add: inv_tasks_def)
next
  case (6 n)
  with all_counted [of s n] show ?case by (auto simp: inv_tasks_def)
next
  case 7 then show ?case by (simp add: inv_tasks_def)
next
  case 8 then show ?case by (simp add: inv_tasks_def wake_counts running_def uncounted_def)
next
  case 9 then show ?case by (simp add: inv_tasks_def)
next
  case 10 then show ?case by (simp add: inv_tasks_def)
qed

lemma tasks_spurious: "spurious s s' \<Longrightarrow> inv_tasks s \<Longrightarrow> inv_tasks s'"
  by (erule spurious_cases) (simp_all add: inv_tasks_def no_task_moved)

lemma tasks_called: "called s s' \<Longrightarrow> inv_tasks s \<Longrightarrow> inv_tasks s'"
proof (erule called_shape, goal_cases)
qed (simp_all add: inv_tasks_def)

section \<open>Somebody is awake\<close>

definition inv_alert :: "ThreadPool \<Rightarrow> bool" where
  "inv_alert s \<longleftrightarrow> 1 \<le> max_thread_num s \<and>
     (task_queue s \<noteq> [] \<longrightarrow> \<not> exit_run s \<longrightarrow> list_ex alert (sync_run_threads s)) \<and>
     (\<forall>n. client_at s = C_Sleep n \<longrightarrow> task_finished_count s = n \<longrightarrow> W_Notify \<in> set (sync_run_threads s)) \<and>
     (in_sync (client_at s) \<longrightarrow> asked s \<noteq> [] \<longrightarrow> 0 < length (sync_run_threads s) + to_start (client_at s))"

lemma alert_simps [simp]:
  "alert W_Lock" "alert W_Check" "alert W_Take" "alert (W_Run t)" "alert W_Count" "alert W_Notify"
  "\<not> alert W_Block" "\<not> alert W_Wait" "\<not> alert W_Exit" "\<not> alert W_Undef" "alert w \<Longrightarrow> alert (wake w)"
  by (simp_all add: alert_def wake_def)

lemma alert_update:
  "i < length ws \<Longrightarrow> alert w \<Longrightarrow> list_ex alert (ws[i := w])"
  "list_ex alert ws \<Longrightarrow> \<not> alert (ws ! i) \<Longrightarrow> list_ex alert (ws[i := w])"
  using set_update_memI [of i ws w] set_update_other [of _ ws i w] by (auto simp: list_ex_iff)

text \<open>Where no worker sleeps and none has left, any worker is awake.\<close>

lemma all_alert: "ws \<noteq> [] \<Longrightarrow> W_Wait \<notin> set ws \<Longrightarrow> W_Block \<notin> set ws \<Longrightarrow> W_Exit \<notin> set ws \<Longrightarrow> W_Undef \<notin> set ws \<Longrightarrow>
    list_ex alert ws"
  by (cases ws) (auto simp: alert_def)

lemma alert_worker_step: "worker_step i s = Some s' \<Longrightarrow> inv_alert s \<Longrightarrow> inv_alert s'"
proof (erule worker_step_cases, goal_cases)
  case 1 then show ?case by (auto simp: inv_alert_def alert_update intro: set_update_other)
next
  case 2 then show ?case by (auto simp: inv_alert_def alert_update intro: set_update_other)
next
  case 3 then show ?case by (auto simp: inv_alert_def alert_update intro: set_update_other)
next
  case 4 then show ?case by (auto simp: inv_alert_def alert_update intro: set_update_other)
next
  case 5 then show ?case by (auto simp: inv_alert_def alert_update intro: set_update_other)
next
  case 6 then show ?case by (auto simp: inv_alert_def alert_update intro: set_update_other)
next
  case 7 then show ?case by (auto simp: inv_alert_def alert_update intro: set_update_other)
next
  case 8 then show ?case by (auto simp: inv_alert_def alert_update intro: set_update_other)
next
  case 9 then show ?case by (auto simp: inv_alert_def alert_update intro: set_update_other set_update_memI)
next
  case 10 then show ?case by (cases "client_at s") (auto simp: inv_alert_def alert_update)
qed

lemma alert_client_step:
  "client_step j s = Some s' \<Longrightarrow> inv_exit s \<Longrightarrow> inv_tests s \<Longrightarrow> inv_tasks s \<Longrightarrow> inv_alert s \<Longrightarrow> inv_alert s'"
proof (erule client_step_cases, goal_cases)
  case 1 then show ?case by (auto simp: inv_alert_def)
next
  case 2 then show ?case by (auto simp: inv_alert_def)
next
  case (3 t ts n)
  then have "asked s \<noteq> []" by (auto simp: inv_tasks_def)
  with 3 have "sync_run_threads s \<noteq> []" by (simp add: inv_alert_def)
  moreover have "W_Block \<notin> set (sync_run_threads s)" "W_Exit \<notin> set (sync_run_threads s)" "W_Undef \<notin> set (sync_run_threads s)"
    using 3 mutex_free [of "sync_run_threads s" W_Block] by (auto simp: inv_exit_def inv_tests_def)
  ultimately have "list_ex alert (sync_run_threads s)" using 3 all_alert by blast
  with 3 show ?case by (auto simp: inv_alert_def)
next
  case 4 then show ?case by (auto simp: inv_alert_def alert_update)
next
  case 5 then show ?case by (auto simp: inv_alert_def)
next
  case 6 then show ?case by (auto simp: inv_alert_def)
next
  case 7 then show ?case by (auto simp: inv_alert_def)
next
  case 8 then show ?case by (auto simp: inv_alert_def inv_tasks_def)
next
  case 9 then show ?case by (auto simp: inv_alert_def)
next
  case 10 then show ?case by (auto simp: inv_alert_def inv_tasks_def)
qed

lemma alert_spurious: "spurious s s' \<Longrightarrow> inv_alert s \<Longrightarrow> inv_alert s'"
  by (erule spurious_cases) (auto simp: inv_alert_def alert_update intro: set_update_other)

lemma alert_called: "called s s' \<Longrightarrow> inv_tasks s \<Longrightarrow> inv_alert s \<Longrightarrow> inv_alert s'"
proof (erule called_shape, goal_cases)
  case (2 ts)
  then have "ts \<noteq> [] \<Longrightarrow> 0 < length (sync_run_threads s) + new_threads ts s"
    by (cases "sync_run_threads s") (auto simp: new_threads_def inv_alert_def)
  with 2 show ?case by (simp add: inv_alert_def inv_tasks_def)
qed (simp_all add: inv_alert_def inv_tasks_def)

section \<open>The invariant\<close>

definition pool_inv :: "ThreadPool \<Rightarrow> bool" where
  "pool_inv s \<longleftrightarrow> inv_exit s \<and> inv_tests s \<and> inv_tasks s \<and> inv_alert s"

lemma max_threads_pos: "1 \<le> unat (MaxThreadNumber cores env)"
proof -
  have "MaxThreadNumber cores env \<noteq> 0" by (auto simp: MaxThreadNumber_def Let_def)
  then have "0 < unat (MaxThreadNumber cores env)" by (simp add: unat_gt_0)
  then show ?thesis by simp
qed

lemma step_pool_inv: "step s s' \<Longrightarrow> pool_inv s \<Longrightarrow> pool_inv s'"
  unfolding pool_inv_def
  by (erule step_cases)
     (blast intro: exit_worker_step tests_worker_step tasks_worker_step alert_worker_step
       exit_client_step tests_client_step tasks_client_step alert_client_step)+

lemma reachable_pool_inv: "reachable s \<Longrightarrow> pool_inv s"
proof (induction rule: reachable.induct)
  case (start cores env)
  then show ?case using max_threads_pos [of cores env]
    by (simp add: pool_inv_def new_pool_def inv_exit_def inv_tests_def inv_tasks_def inv_alert_def
        mutex_ok_def running_def uncounted_def)
next
  case more_step then show ?case by (blast intro: step_pool_inv)
next
  case more_spurious then show ?case unfolding pool_inv_def
    by (blast intro: exit_spurious tests_spurious tasks_spurious alert_spurious)
next
  case more_called then show ?case unfolding pool_inv_def
    by (blast intro: exit_called tests_called tasks_called alert_called)
qed

end
