(* ===== verification/Thread_Pool_Progress.thy ===== *)
theory Thread_Pool_Progress
  imports Thread_Pool_Invariant
begin

text \<open>
  What the thread pool promises: safety in every reachable state, the return of every
  \<open>SyncRun\<close> with each task run once, and when \<open>ClearThreadPool\<close> returns and when it does not.
\<close>

section \<open>Progress\<close>

text \<open>While the client is in \<open>SyncRun\<close> some thread can make a step.\<close>

lemma worker_can_step:
  assumes "i < length (sync_run_threads s)" "alert (sync_run_threads s ! i) \<or> sync_run_threads s ! i = W_Block"
    and "task_mutex s = None \<or> holds_mutex (sync_run_threads s ! i) \<or> (\<exists>t. sync_run_threads s ! i = W_Run t) \<or> sync_run_threads s ! i = W_Notify"
  shows "\<exists>s'. step s s'"
proof -
  have "\<exists>s'. worker_step i s = Some s'"
    using assms by (cases "sync_run_threads s ! i") (auto simp: worker_step_def split: list.splits)
  then show ?thesis by (blast intro: by_worker)
qed

lemma holder_can_step: "pool_inv s \<Longrightarrow> task_mutex s \<noteq> None \<Longrightarrow> \<exists>s'. step s s'"
proof -
  assume inv: "pool_inv s" and "task_mutex s \<noteq> None"
  then obtain i where i: "i < length (sync_run_threads s)" "holds_mutex (sync_run_threads s ! i)"
    unfolding pool_inv_def inv_exit_def mutex_ok_def by (metis option.exhaust)
  have "sync_run_threads s ! i \<noteq> W_Undef" using inv i(1) nth_mem by (metis inv_tests_def pool_inv_def)
  with i show ?thesis by (intro worker_can_step [OF i(1)]) (auto simp: holds_mutex_def)
qed

lemma alert_can_step:
  assumes "pool_inv s" "w \<in> set (sync_run_threads s)" "alert w"
  shows "\<exists>s'. step s s'"
proof (cases "task_mutex s = None")
  case True
  with assms show ?thesis by (auto simp: in_set_conv_nth intro: worker_can_step)
next
  case False
  with assms(1) show ?thesis by (rule holder_can_step)
qed

lemma sync_can_step:
  assumes "pool_inv s" "in_sync (client_at s)"
  shows "\<exists>s'. step s s'"
proof (cases "task_mutex s = None")
  case True
  note free = this
  show ?thesis
  proof (cases "client_at s")
    case (C_Spawn k ts)
    then have "\<exists>s'. client_step 0 s = Some s'" by (cases k) (simp_all add: client_step_def clear_step_def)
    then show ?thesis by (blast intro: by_client)
  next
    case (C_Push ts n)
    have "\<exists>j ws. notify_one j (sync_run_threads s) = Some ws"
      by (cases "W_Wait \<in> set (sync_run_threads s)") (auto simp: notify_one_def in_set_conv_nth)
    with C_Push free have "\<exists>j s'. client_step j s = Some s'" by (cases ts) (auto simp: client_step_def clear_step_def)
    then show ?thesis by (blast intro: by_client)
  next
    case (C_Wait n)
    with free have "\<exists>s'. client_step 0 s = Some s'" by (simp add: client_step_def clear_step_def)
    then show ?thesis by (blast intro: by_client)
  next
    case (C_Sleep n)
    have inv: "inv_exit s" "inv_tasks s" "inv_alert s" using assms by (simp_all add: pool_inv_def)
    have "\<exists>w \<in> set (sync_run_threads s). alert w"
    proof (cases "task_finished_count s = n")
      case True
      with inv(3) C_Sleep have "W_Notify \<in> set (sync_run_threads s)" by (simp add: inv_alert_def)
      then show ?thesis by (intro bexI) auto
    next
      case False
      from inv(2) C_Sleep have n: "n = length (asked s)" "task_finished_count s + uncounted s = length (ran s)"
        and tasks: "mset (asked s) = mset (task_queue s) + running s + mset (ran s)"
        by (auto simp: inv_tasks_def)
      have "length (asked s) = length (task_queue s) + size (running s) + length (ran s)"
        using arg_cong [OF tasks, of size] by simp
      with n False consider "task_queue s \<noteq> []" | "running s \<noteq> {#}" | "uncounted s \<noteq> 0" by fastforce
      then show ?thesis
      proof cases
        case 1
        with inv(1,3) assms(2) show ?thesis by (simp add: inv_alert_def inv_exit_def list_ex_iff)
      next
        case 2
        have "sum_list (map running_of ws) \<noteq> {#} \<Longrightarrow> \<exists>w \<in> set ws. running_of w \<noteq> {#}" for ws
          by (induction ws) auto
        with 2 obtain w where "w \<in> set (sync_run_threads s)" "running_of w \<noteq> {#}"
          unfolding running_def by blast
        moreover from this(2) have "alert w" by (cases w) simp_all
        ultimately show ?thesis by blast
      next
        case 3
        have "sum_list (map to_count ws) \<noteq> 0 \<Longrightarrow> W_Count \<in> set ws" for ws
        proof (induction ws)
          case (Cons w ws)
          then show ?case by (cases w) simp_all
        qed simp
        with 3 show ?thesis unfolding uncounted_def by (meson alert_simps(5))
      qed
    qed
    with assms(1) show ?thesis using alert_can_step by blast
  qed (use assms in auto)
next
  case False
  with assms(1) show ?thesis by (rule holder_can_step)
qed

section \<open>Every run is finite\<close>

fun worker_weight :: "worker \<Rightarrow> nat" where
  "worker_weight W_Lock = 3"
| "worker_weight W_Check = 2"
| "worker_weight W_Block = 1"
| "worker_weight W_Wait = 0"
| "worker_weight W_Take = 1"
| "worker_weight (W_Run t) = 7"
| "worker_weight W_Count = 6"
| "worker_weight W_Notify = 5"
| "worker_weight W_Exit = 0"
| "worker_weight W_Undef = 0"

fun client_weight :: "nat \<Rightarrow> client \<Rightarrow> nat" where
  "client_weight k C_Idle = 0"
| "client_weight k (C_Spawn m ts) = 12 * length ts + 4 * m + 3"
| "client_weight k (C_Push ts n) = 12 * length ts + 2"
| "client_weight k (C_Wait n) = 1"
| "client_weight k (C_Sleep n) = 0"
| "client_weight k C_Notify_All = 4 * k + 2"
| "client_weight k (C_Join i) = k - i + 1"

definition pool_measure :: "ThreadPool \<Rightarrow> nat" where
  "pool_measure s = sum_list (map worker_weight (sync_run_threads s)) + 8 * length (task_queue s) +
     client_weight (length (sync_run_threads s)) (client_at s)"

lemma weight_notified: "client_weight k (notified c) \<le> client_weight k c + 1"
  by (cases c) simp_all

lemma weight_worker: "i < length ws \<Longrightarrow>
    sum_list (map worker_weight (ws[i := w])) + worker_weight (ws ! i) = sum_list (map worker_weight ws) + worker_weight w"
  by (rule sum_list_update_cancel)

lemma worker_step_measure: "worker_step i s = Some s' \<Longrightarrow> pool_measure s' < pool_measure s"
proof (erule worker_step_cases, goal_cases)
  case 1 with weight_worker [of i "sync_run_threads s" W_Check] show ?case by (simp add: pool_measure_def)
next
  case 2 with weight_worker [of i "sync_run_threads s" W_Take] show ?case by (simp add: pool_measure_def)
next
  case 3 with weight_worker [of i "sync_run_threads s" W_Block] show ?case by (simp add: pool_measure_def)
next
  case 4 with weight_worker [of i "sync_run_threads s" W_Wait] show ?case by (simp add: pool_measure_def)
next
  case 5 with weight_worker [of i "sync_run_threads s" W_Exit] show ?case by (simp add: pool_measure_def)
next
  case 6 with weight_worker [of i "sync_run_threads s" W_Undef] show ?case by (simp add: pool_measure_def)
next
  case (7 t q) with weight_worker [of i "sync_run_threads s" "W_Run t"] show ?case by (simp add: pool_measure_def)
next
  case (8 t) with weight_worker [of i "sync_run_threads s" W_Count] show ?case by (simp add: pool_measure_def)
next
  case 9 with weight_worker [of i "sync_run_threads s" W_Notify] show ?case by (simp add: pool_measure_def)
next
  case 10 with weight_worker [of i "sync_run_threads s" W_Lock]
    weight_notified [of "length (sync_run_threads s)" "client_at s"] show ?case by (simp add: pool_measure_def)
qed

lemma wake_weight: "sum_list (map (worker_weight \<circ> wake) ws) \<le> sum_list (map worker_weight ws) + 3 * length ws"
  by (induction ws) (auto simp: wake_def)

lemma client_step_measure: "client_step j s = Some s' \<Longrightarrow> pool_measure s' < pool_measure s"
proof (erule client_step_cases, goal_cases)
  case (4 t ts n) with weight_worker [of j "sync_run_threads s" W_Lock] show ?case by (simp add: pool_measure_def)
next
  case 8 with wake_weight [of "sync_run_threads s"] show ?case by (simp add: pool_measure_def)
qed (simp_all add: pool_measure_def)

lemma step_measure: "step s s' \<Longrightarrow> pool_measure s' < pool_measure s"
  by (erule step_cases) (blast intro: worker_step_measure client_step_measure)+

lemma steps_measure: "(step ^^ n) s s' \<Longrightarrow> n + pool_measure s' \<le> pool_measure s"
proof (induction n arbitrary: s')
  case (Suc n)
  then obtain u where "(step ^^ n) s u" "step u s'" by auto
  with Suc.IH [of u] step_measure [of u s'] show ?case by simp
qed simp

section \<open>Running a schedule\<close>

text \<open>A schedule names the calls and which thread moves next; running it gives a reachable state.\<close>

datatype act = Work nat | Move nat | Call_sync "task list" | Call_clear

fun run_act :: "act \<Rightarrow> ThreadPool \<Rightarrow> ThreadPool option" where
  "run_act (Work i) s = worker_step i s"
| "run_act (Move j) s = client_step j s"
| "run_act (Call_sync ts) s = SyncRun ts s"
| "run_act Call_clear s = ClearThreadPool s"

fun run_acts :: "act list \<Rightarrow> ThreadPool \<Rightarrow> ThreadPool option" where
  "run_acts [] s = Some s"
| "run_acts (a # as) s = (case run_act a s of None \<Rightarrow> None | Some s' \<Rightarrow> run_acts as s')"

lemma run_act_reachable: "reachable s \<Longrightarrow> run_act a s = Some s' \<Longrightarrow> reachable s'"
  by (cases a) (auto intro: more_step more_called step.intros called.intros)

lemma run_acts_reachable: "reachable s \<Longrightarrow> run_acts as s = Some s' \<Longrightarrow> reachable s'"
proof (induction as arbitrary: s)
  case (Cons a as)
  then show ?case by (auto split: option.splits intro: run_act_reachable)
qed simp

section \<open>Properties\<close>

text \<open>
  C13: In every reachable state at most one worker is in a region guarded by the mutex of the queue, no
  worker has taken a task from an empty queue, and whenever the pool is not inside \<open>SyncRun\<close> the queue
  is empty, the counter is reset and exactly the tasks of the last \<open>SyncRun\<close> have been run, each
  as often as it was asked for.
\<close>

theorem pool_safe:
  assumes "reachable s"
  shows "W_Undef \<notin> set (sync_run_threads s) \<and>
    (\<forall>i < length (sync_run_threads s). holds_mutex (sync_run_threads s ! i) \<longrightarrow> task_mutex s = Some i) \<and>
    (\<not> in_sync (client_at s) \<longrightarrow>
       task_queue s = [] \<and> task_finished_count s = 0 \<and> mset (ran s) = mset (asked s))"
proof -
  have inv: "inv_exit s" "inv_tests s" "inv_tasks s"
    using reachable_pool_inv [OF assms] by (simp_all add: pool_inv_def)
  have "pending (client_at s) = []" if "\<not> in_sync (client_at s)" using that by (cases "client_at s") simp_all
  with inv show ?thesis by (auto simp: inv_exit_def mutex_ok_def inv_tests_def inv_tasks_def)
qed

theorem pool_safe_witness:
  "reachable (new_pool 4 None) \<and> W_Undef \<notin> set (sync_run_threads (new_pool 4 None)) \<and>
   task_queue (new_pool 4 None) = []"
  using pool_safe [OF start, of 4 None] start [of 4 None] by (simp add: new_pool_def)

lemma step_keeps:
  assumes "step s s'"
  shows "asked s' = asked s" "max_thread_num s' = max_thread_num s"
    and "in_sync (client_at s) \<or> client_at s = C_Idle \<Longrightarrow> in_sync (client_at s') \<or> client_at s' = C_Idle"
  using assms
  by (auto elim!: step_cases worker_step_cases client_step_cases)

lemma steps_keep:
  assumes "(step ^^ n) s s'" "in_sync (client_at s) \<or> client_at s = C_Idle" "reachable s"
  shows "asked s' = asked s \<and> (in_sync (client_at s') \<or> client_at s' = C_Idle) \<and> reachable s'"
  using assms(1)
proof (induction n arbitrary: s')
  case 0
  then show ?case using assms by simp
next
  case (Suc n)
  then obtain u where "(step ^^ n) s u" "step u s'" by auto
  with Suc.IH [of u] step_keeps [of u s'] more_step [of u s'] show ?case by simp
qed

lemma stuck_idle:
  assumes "(step ^^ n) s s'" "in_sync (client_at s) \<or> client_at s = C_Idle" "reachable s" "\<nexists>s''. step s' s''"
  shows "client_at s' = C_Idle \<and> mset (ran s') = mset (asked s)"
proof -
  note keep = steps_keep [OF assms(1-3)]
  then have inv: "pool_inv s'" by (blast intro: reachable_pool_inv)
  with keep assms(4) have idle: "client_at s' = C_Idle" using sync_can_step by blast
  from inv have "inv_tasks s'" by (simp add: pool_inv_def)
  with keep idle show ?thesis by (simp add: inv_tasks_def)
qed

text \<open>
  C14: \<open>SyncRun\<close> returns: from any reachable state inside it, no run of the threads is longer than a bound, and a
  run that cannot go on has returned to the caller, with every task run exactly as often as it
  was asked for (as long as no wake-up is spurious; spurious wake-ups may precede the state).
\<close>

theorem sync_run_returns:
  assumes "reachable s" "in_sync (client_at s)" "(step ^^ n) s s'"
  shows "n \<le> pool_measure s \<and>
    ((\<exists>s''. step s' s'') \<or> (client_at s' = C_Idle \<and> mset (ran s') = mset (asked s)))"
  using steps_measure [OF assms(3)] stuck_idle [OF assms(3) _ assms(1)] assms(2) by auto

theorem sync_run_returns_witness:
  "\<exists>s s'. reachable s \<and> (step ^^ 1) s s' \<and> (\<exists>s''. step s' s'')"
proof -
  define s where "s = the (SyncRun [] (new_pool 4 None))"
  have call: "SyncRun [] (new_pool 4 None) = Some s" and at: "client_at s = C_Spawn 0 []"
    by (simp_all add: s_def SyncRun_def new_pool_def)
  then have reach: "reachable s" by (blast intro: reachable.intros called.intros)
  have "(step ^^ 1) s (s\<lparr>client_at := C_Push [] 0\<rparr>)" (is "(step ^^ 1) s ?s'")
    using at by_client [of 0 s] by (simp add: client_step_def clear_step_def relpowp_1 del: relpowp.simps)
  moreover from sync_run_returns [OF reach _ this] at have "\<exists>s''. step ?s' s''" by auto
  ultimately show ?thesis using reach by blast
qed

text \<open>
  C15: A launch on the pool runs the closure once for each number below the smaller of the number of
  tasks and the number of threads, for no other number, whatever the order in which the threads move.
\<close>

theorem launch_runs_each_once:
  assumes "reachable s" "max_thread_num s < 2 ^ 31" "AKGBackendParallelLaunch num_task s = Some s0"
    and "(step ^^ n) s0 s'" "\<nexists>s''. step s' s''"
  shows "client_at s' = C_Idle \<and> distinct (ran s') \<and>
    set (ran s') = {..< nat (min num_task (int (max_thread_num s)))}"
proof -
  have call: "called s s0" using assms(3) by (auto simp: AKGBackendParallelLaunch_def intro: called.intros)
  with assms(1) have reach: "reachable s0" by (rule more_called)
  have "uint (word_of_nat (max_thread_num s) :: 64 word) = int (max_thread_num s)"
    using uint_size_of_int [of "int (max_thread_num s)"] assms(2) by (simp add: size_of_int_def)
  then have threads: "int_of_size (word_of_nat (max_thread_num s)) = int (max_thread_num s)"
    using assms(2) by (simp add: int_of_size_small)
  have "in_sync (client_at s0) \<or> client_at s0 = C_Idle" and "asked s0 = launch_tasks s num_task"
    using assms(3) by (auto simp: AKGBackendParallelLaunch_def SyncRun_def Let_def split: if_splits)
  with stuck_idle [OF assms(4) _ reach assms(5)]
  have fin: "client_at s' = C_Idle" "mset (ran s') = mset (launch_tasks s num_task)" by simp_all
  from fin(2) have "distinct (ran s') = distinct (launch_tasks s num_task)" "set (ran s') = set (launch_tasks s num_task)"
    by (metis mset_eq_imp_distinct_iff, metis set_mset_mset)
  with fin(1) threads show ?thesis by (simp add: launch_tasks_def lessThan_atLeast0)
qed

theorem launch_runs_each_once_witness:
  "\<exists>s' :: ThreadPool. client_at s' = C_Idle \<and> distinct (ran s') \<and> set (ran s') = {..< 1}"
proof -
  define s where "s = new_pool 4 None"
  have max: "max_thread_num s = 2" by (simp add: s_def new_pool_def MaxThreadNumber_def)
  have idle: "AKGBackendParallelLaunch 1 s = Some (s\<lparr>asked := [0], ran := [0]\<rparr>)" (is "_ = Some ?s'")
    by (simp add: AKGBackendParallelLaunch_def SyncRun_def launch_tasks_def max int_of_size_def)
       (simp add: s_def new_pool_def)
  have "\<nexists>s''. step ?s' s''"
    by (auto simp: s_def new_pool_def worker_step_def client_step_def clear_step_def elim!: step_cases)
  moreover have "reachable s" unfolding s_def by (rule start)
  ultimately have "client_at ?s' = C_Idle \<and> distinct (ran ?s') \<and> set (ran ?s') = {..< nat (min 1 (int (max_thread_num s)))}"
    using idle max by (intro launch_runs_each_once [of s 1 ?s' 0]) simp_all
  moreover have "nat (min 1 (int (max_thread_num s))) = 1" using max by simp
  ultimately show ?thesis by metis
qed

section \<open>Clearing the pool\<close>

definition clearing :: "ThreadPool \<Rightarrow> bool" where
  "clearing s \<longleftrightarrow> exit_run s \<and> W_Block \<notin> set (sync_run_threads s) \<and>
     (case client_at s of
        C_Notify_All \<Rightarrow> True
      | C_Join i \<Rightarrow> W_Wait \<notin> set (sync_run_threads s)
      | C_Idle \<Rightarrow> sync_run_threads s = []
      | _ \<Rightarrow> False)"

lemma clearing_step: "step s s' \<Longrightarrow> clearing s \<Longrightarrow> clearing s'"
proof (erule step_cases)
  fix i assume "worker_step i s = Some s'" "clearing s"
  then show "clearing s'"
    using nth_mem [of i "sync_run_threads s"]
    by (cases rule: worker_step_cases; cases "client_at s")
       (auto simp: clearing_def dest!: in_updated)
next
  fix j assume "client_step j s = Some s'" "clearing s"
  then show "clearing s'"
    by (cases rule: client_step_cases) (auto simp: clearing_def dest: wake_simps(3) [THEN iffD1, OF sym])
qed

lemma clearing_can_step:
  assumes "clearing s" "pool_inv s" "client_at s \<noteq> C_Idle"
  shows "\<exists>s'. step s s'"
proof (cases "client_at s")
  case C_Notify_All
  then have "\<exists>s'. client_step 0 s = Some s'" by (simp add: client_step_def clear_step_def)
  then show ?thesis by (blast intro: by_client)
next
  case (C_Join i)
  show ?thesis
  proof (cases "i < length (sync_run_threads s) \<and> sync_run_threads s ! i \<noteq> W_Exit")
    case True
    then have w: "sync_run_threads s ! i \<in> set (sync_run_threads s)" by simp
    from assms C_Join have "W_Block \<notin> set (sync_run_threads s)" "W_Wait \<notin> set (sync_run_threads s)"
      "W_Undef \<notin> set (sync_run_threads s)"
      by (simp_all add: clearing_def pool_inv_def inv_tests_def)
    with True w have "alert (sync_run_threads s ! i)" unfolding alert_def by metis
    with assms(2) w show ?thesis by (rule alert_can_step)
  next
    case False
    with C_Join have "\<exists>s'. client_step 0 s = Some s'" by (auto simp: client_step_def clear_step_def)
    then show ?thesis by (blast intro: by_client)
  qed
qed (use assms in \<open>auto simp: clearing_def\<close>)

text \<open>
  C16: \<open>ClearThreadPool\<close> returns with every thread joined, if no worker is between its test and its sleep when
  it is called.
\<close>

theorem clear_returns:
  assumes "reachable s" "\<not> exit_run s" "W_Block \<notin> set (sync_run_threads s)" "ClearThreadPool s = Some s0"
    and "(step ^^ n) s0 s'"
  shows "n \<le> pool_measure s0 \<and>
    ((\<exists>s''. step s' s'') \<or> (client_at s' = C_Idle \<and> sync_run_threads s' = []))"
proof -
  have "reachable s0" using assms by (blast intro: more_called called.intros)
  moreover have "clearing s0"
    using assms by (auto simp: ClearThreadPool_def clearing_def split: if_splits)
  ultimately have "reachable s' \<and> clearing s'"
    using assms(5)
  proof (induction n arbitrary: s')
    case (Suc n)
    then show ?case by (auto intro: clearing_step more_step)
  qed simp
  then show ?thesis
    using steps_measure [OF assms(5)] clearing_can_step [of s'] reachable_pool_inv [of s']
    by (cases "client_at s' = C_Idle") (auto simp: clearing_def)
qed

theorem clear_returns_witness:
  "\<exists>s0. ClearThreadPool (new_pool 4 None) = Some s0 \<and> (\<exists>s''. step s0 s'')"
proof -
  have at: "ClearThreadPool (new_pool 4 None) = Some ((new_pool 4 None)\<lparr>exit_run := True, client_at := C_Notify_All\<rparr>)"
    (is "_ = Some ?s0") by (simp add: ClearThreadPool_def new_pool_def)
  with clear_returns [OF start _ _ at, of 0 ?s0] show ?thesis by (auto simp: new_pool_def)
qed

text \<open>
  C17: It may also never return: since \<open>exit_run_\<close> is set without the mutex, a worker that has tested
  it before and sleeps after the notification is never woken, and the join waits for it for ever.
\<close>

theorem clear_lost_wakeup:
  "\<exists>s. reachable s \<and> client_at s = C_Join 0 \<and> sync_run_threads s = [W_Wait] \<and> (\<nexists>s'. step s s')"
proof -
  have start: "new_pool 2 None = \<lparr>max_thread_num = 1, exit_run = False, task_queue = [], task_mutex = None,
      task_finished_count = 0, sync_run_threads = [], client_at = C_Idle, asked = [], ran = []\<rparr>"
    by (simp add: new_pool_def MaxThreadNumber_def)
  define s where "s = \<lparr>max_thread_num = 1, exit_run = True, task_queue = [], task_mutex = None,
      task_finished_count = 0, sync_run_threads = [W_Wait], client_at = C_Join 0, asked = [0, 1], ran = [0, 1]\<rparr>"
  have "run_acts (Call_sync [0, 1] # replicate 5 (Move 0) @ replicate 12 (Work 0) @
      [Move 0, Work 0, Work 0, Call_clear, Move 0, Work 0]) (new_pool 2 None) = Some s"
    unfolding start s_def
    by (simp add: eval_nat_numeral SyncRun_def ClearThreadPool_def worker_step_def client_step_def clear_step_def set_worker_def
        notify_one_def wake_def)
  then have "reachable s" by (rule run_acts_reachable [OF reachable.start])
  moreover have "\<nexists>s'. step s s'"
    by (auto simp: s_def worker_step_def client_step_def clear_step_def split: if_splits elim!: step_cases)
  ultimately show ?thesis by (intro exI [of _ s]) (simp add: s_def)
qed

text \<open>
  The number of threads is at least 1 and at most half the number of hardware threads (or 1); within
  that it is what \<open>AKG_NUM_THREADS\<close> asks for, and a negative value of the variable is as good as none.
\<close>

theorem max_thread_number_bounds:
  "(let cores' = max 1 (uint cores div 2); t = uint (MaxThreadNumber cores env)
    in 1 \<le> t \<and> t \<le> cores' \<and>
       (case env of
          None \<Rightarrow> t = cores'
        | Some v \<Rightarrow> if \<not> in_int v then True
                    else if v < 0 then t = cores' else t = max 1 (min v cores')))"
proof -
  define c where "c = (if cores div 2 < 1 then 1 else cores div 2)"
  have half: "uint (cores div 2) = uint cores div 2" by (simp add: uint_div)
  have c: "uint c = max 1 (uint cores div 2)" "uint c < 2 ^ 63" "1 \<le> uint c"
    using half uint_lt2p [of cores] by (auto simp: c_def word_less_def)
  have mini: "uint (min x y) = min (uint x) (uint y)" for x y :: "64 word"
    by (simp add: min_def word_le_def)
  have at_least: "uint (if x < 1 then 1 else x) = max 1 (uint x)" for x :: "64 word"
    using uint_ge_0 [of x] by (auto simp: word_less_def max_def)
  have num: "uint (MaxThreadNumber cores env) =
      max 1 (case env of None \<Rightarrow> uint c | Some v \<Rightarrow> min (uint (size_of_int v)) (uint c))"
    unfolding MaxThreadNumber_def Let_def c_def [symmetric] at_least by (simp add: mini split: option.split)
  have neg: "uint c \<le> uint (size_of_int v)" if "in_int v" "v < 0" for v
  proof -
    have "uint (size_of_int v) = (v + 2 ^ 64) mod 2 ^ 64" by (simp add: size_of_int_def uint_word_of_int)
    also have "\<dots> = v + 2 ^ 64" using that by (intro mod_pos_pos_trivial) (simp_all add: in_int_def)
    finally show ?thesis using that c(2) by (simp add: in_int_def)
  qed
  show ?thesis
  proof (cases env)
    case None
    then show ?thesis using num c(1,3) by (simp add: Let_def)
  next
    case (Some v)
    have pos: "uint (size_of_int v) = v" if "in_int v" "0 \<le> v"
      using that by (intro uint_size_of_int) (simp_all add: in_int_def)
    have "uint (MaxThreadNumber cores (Some v)) = max 1 (min (uint (size_of_int v)) (uint c))"
      using num by (simp add: Some)
    then show ?thesis unfolding Some Let_def c(1) [symmetric] using c(3) neg [of v] pos
      by (cases "in_int v"; cases "v < 0") (simp_all add: min_def max_def)
  qed
qed

end
