(* ===== verification/Tvm_Semantics.thy ===== *)
theory Tvm_Semantics
  imports Tvm_Ir "HOL-Library.Signed_Division"
begin

unbundle bit_operations_syntax

text \<open>
  What a TVM statement does, as the specification the passes are measured against. Values are
  integers without a width (the simplifiers of TVM reason about indices in the same way);
  truth is any value but 0; \<open>Div\<close> and \<open>Mod\<close> truncate and \<open>FloorDiv\<close> and \<open>FloorMod\<close> round down.
  Every kind of loop is executed in order. What the statements call, casts and constants that
  are not integers are interpreted by a parameter, except for the two operators on bits that
  the passes introduce. A failing assertion ends the execution (\<open>None\<close>); nothing else does.
\<close>

section \<open>State\<close>

text \<open>The contents of tensors, by function, output and indices, and of flat buffers.\<close>

record Memory =
  tensor_val :: "Func \<Rightarrow> nat \<Rightarrow> int list \<Rightarrow> int"
  buffer_val :: "Var \<Rightarrow> int \<Rightarrow> int"

record Interp =
  call_val :: "CallType \<Rightarrow> string \<Rightarrow> int list \<Rightarrow> int"
  call_effect :: "CallType \<Rightarrow> string \<Rightarrow> int list \<Rightarrow> Memory \<Rightarrow> Memory"
  cast_val :: "TvmType \<Rightarrow> int \<Rightarrow> int"
  float_val :: "f64 \<Rightarrow> int"
  string_val :: "string \<Rightarrow> int"

type_synonym env = "Var \<Rightarrow> int"

section \<open>Expressions\<close>

fun binop_val :: "BinOp \<Rightarrow> int \<Rightarrow> int \<Rightarrow> int" where
  "binop_val B_Add a b = a + b"
| "binop_val B_Sub a b = a - b"
| "binop_val B_Mul a b = a * b"
| "binop_val B_Div a b = a sdiv b"
| "binop_val B_Mod a b = a smod b"
| "binop_val B_FloorDiv a b = a div b"
| "binop_val B_FloorMod a b = a mod b"
| "binop_val B_Min a b = min a b"
| "binop_val B_Max a b = max a b"
| "binop_val B_EQ a b = of_bool (a = b)"
| "binop_val B_NE a b = of_bool (a \<noteq> b)"
| "binop_val B_LT a b = of_bool (a < b)"
| "binop_val B_LE a b = of_bool (a \<le> b)"
| "binop_val B_GT a b = of_bool (a > b)"
| "binop_val B_GE a b = of_bool (a \<ge> b)"
| "binop_val B_And a b = of_bool (a \<noteq> 0 \<and> b \<noteq> 0)"
| "binop_val B_Or a b = of_bool (a \<noteq> 0 \<or> b \<noteq> 0)"

definition intrinsic_val :: "Interp \<Rightarrow> CallType \<Rightarrow> string \<Rightarrow> int list \<Rightarrow> int" where
  "intrinsic_val I ct n vs =
     (if n = ''shift_right'' \<and> length vs = 2 then drop_bit (nat (vs ! 1)) (vs ! 0)
      else if n = ''bitwise_and'' \<and> length vs = 2 then vs ! 0 AND vs ! 1
      else call_val I ct n vs)"

fun eval :: "Interp \<Rightarrow> Expr \<Rightarrow> env \<Rightarrow> Memory \<Rightarrow> int" where
  "eval I (Variable v) \<rho> \<sigma> = \<rho> v"
| "eval I (IntImm ty i) \<rho> \<sigma> = i"
| "eval I (UIntImm ty u) \<rho> \<sigma> = uint u"
| "eval I (FloatImm ty u) \<rho> \<sigma> = float_val I u"
| "eval I (StringImm s) \<rho> \<sigma> = string_val I s"
| "eval I (Cast t e) \<rho> \<sigma> = cast_val I t (eval I e \<rho> \<sigma>)"
| "eval I (Binary p a b) \<rho> \<sigma> = binop_val p (eval I a \<rho> \<sigma>) (eval I b \<rho> \<sigma>)"
| "eval I (NotE a) \<rho> \<sigma> = of_bool (eval I a \<rho> \<sigma> = 0)"
| "eval I (Select c t e) \<rho> \<sigma> = (if eval I c \<rho> \<sigma> \<noteq> 0 then eval I t \<rho> \<sigma> else eval I e \<rho> \<sigma>)"
| "eval I (LoadE ty v i p) \<rho> \<sigma> = (if eval I p \<rho> \<sigma> \<noteq> 0 then buffer_val \<sigma> v (eval I i \<rho> \<sigma>) else 0)"
| "eval I (LetE v e b) \<rho> \<sigma> = eval I b (\<rho>(v := eval I e \<rho> \<sigma>)) \<sigma>"
| "eval I (CallE ty ct n args fn i) \<rho> \<sigma> =
     (if ct = CT_Halide then tensor_val \<sigma> fn i (map (\<lambda>e. eval I e \<rho> \<sigma>) args)
      else intrinsic_val I ct n (map (\<lambda>e. eval I e \<rho> \<sigma>) args))"

definition is_true :: "Interp \<Rightarrow> Expr \<Rightarrow> env \<Rightarrow> Memory \<Rightarrow> bool" where
  "is_true I c \<rho> \<sigma> \<longleftrightarrow> eval I c \<rho> \<sigma> \<noteq> 0"

section \<open>Statements\<close>

definition write_tensor :: "Func \<Rightarrow> nat \<Rightarrow> int list \<Rightarrow> int \<Rightarrow> Memory \<Rightarrow> Memory" where
  "write_tensor fn i as v \<sigma> =
     \<sigma>\<lparr>tensor_val := (tensor_val \<sigma>)(fn := (tensor_val \<sigma> fn)(i := (tensor_val \<sigma> fn i)(as := v)))\<rparr>"

definition write_buffer :: "Var \<Rightarrow> int \<Rightarrow> int \<Rightarrow> Memory \<Rightarrow> Memory" where
  "write_buffer b i v \<sigma> = \<sigma>\<lparr>buffer_val := (buffer_val \<sigma>)(b := (buffer_val \<sigma> b)(i := v))\<rparr>"

text \<open>Only a call that is not pure has an effect as a statement.\<close>

definition is_pure :: "CallType \<Rightarrow> bool" where
  "is_pure ct \<longleftrightarrow> ct = CT_PureExtern \<or> ct = CT_PureIntrinsic \<or> ct = CT_Halide"

fun evaluate :: "Interp \<Rightarrow> Expr \<Rightarrow> env \<Rightarrow> Memory \<Rightarrow> Memory" where
  "evaluate I (CallE ty ct n args fn i) \<rho> \<sigma> =
     (if is_pure ct then \<sigma> else call_effect I ct n (map (\<lambda>e. eval I e \<rho> \<sigma>) args) \<sigma>)"
| "evaluate I e \<rho> \<sigma> = \<sigma>"

fun iterate :: "('a \<Rightarrow> 's \<Rightarrow> 's option) \<Rightarrow> 'a list \<Rightarrow> 's \<Rightarrow> 's option" where
  "iterate f [] s = Some s"
| "iterate f (x # xs) s = (case f x s of None \<Rightarrow> None | Some s \<Rightarrow> iterate f xs s)"

fun exec :: "Interp \<Rightarrow> Stmt \<Rightarrow> env \<Rightarrow> Memory \<Rightarrow> Memory option" where
  "exec I (LetStmt v e b) \<rho> \<sigma> = exec I b (\<rho>(v := eval I e \<rho> \<sigma>)) \<sigma>"
| "exec I (AttrStmt n k e b) \<rho> \<sigma> = exec I b \<rho> \<sigma>"
| "exec I (AssertStmt c m b) \<rho> \<sigma> = (if is_true I c \<rho> \<sigma> then exec I b \<rho> \<sigma> else None)"
| "exec I (ProducerConsumer fn p b) \<rho> \<sigma> = exec I b \<rho> \<sigma>"
| "exec I (For v m x t b) \<rho> \<sigma> =
     iterate (\<lambda>i \<sigma>. exec I b (\<rho>(v := i)) \<sigma>) [eval I m \<rho> \<sigma> .. eval I m \<rho> \<sigma> + eval I x \<rho> \<sigma> - 1] \<sigma>"
| "exec I (Store v e i p) \<rho> \<sigma> =
     Some (if is_true I p \<rho> \<sigma> then write_buffer v (eval I i \<rho> \<sigma>) (eval I e \<rho> \<sigma>) \<sigma> else \<sigma>)"
| "exec I (Provide fn i e args) \<rho> \<sigma> =
     Some (write_tensor fn i (map (\<lambda>a. eval I a \<rho> \<sigma>) args) (eval I e \<rho> \<sigma>) \<sigma>)"
| "exec I (Allocate v t xs c b n) \<rho> \<sigma> = exec I b \<rho> \<sigma>"
| "exec I (FreeStmt v) \<rho> \<sigma> = Some \<sigma>"
| "exec I (Realize fn i ty bs c b) \<rho> \<sigma> = exec I b \<rho> \<sigma>"
| "exec I (Prefetch fn i ty bs) \<rho> \<sigma> = Some \<sigma>"
| "exec I (Block a b) \<rho> \<sigma> = (case exec I a \<rho> \<sigma> of None \<Rightarrow> None | Some \<sigma> \<Rightarrow> exec I b \<rho> \<sigma>)"
| "exec I (IfThenElse c t e) \<rho> \<sigma> =
     (if is_true I c \<rho> \<sigma> then exec I t \<rho> \<sigma>
      else (case e of Some s \<Rightarrow> exec I s \<rho> \<sigma> | None \<Rightarrow> Some \<sigma>))"
| "exec I (Evaluate e) \<rho> \<sigma> = Some (evaluate I e \<rho> \<sigma>)"

lemma exec_make_block [simp]: "exec I (make_block a b) \<rho> \<sigma> = exec I (Block a b) \<rho> \<sigma>"
  by (induction a b arbitrary: \<sigma> rule: make_block.induct) (auto split: option.split)

section \<open>Loops\<close>

lemma iterate_cong:
  "xs = ys \<Longrightarrow> (\<And>x s. x \<in> set ys \<Longrightarrow> f x s = g x s) \<Longrightarrow> iterate f xs s = iterate g ys s"
  by (induction ys arbitrary: xs s) (auto split: option.split)

lemma iterate_append:
  "iterate f (xs @ ys) s = (case iterate f xs s of None \<Rightarrow> None | Some s \<Rightarrow> iterate f ys s)"
  by (induction xs arbitrary: s) (auto split: option.split)

lemma iterate_invariant:
  assumes "\<And>x s s'. P s \<Longrightarrow> f x s = Some s' \<Longrightarrow> P s'"
  shows "P s \<Longrightarrow> iterate f xs s = Some s' \<Longrightarrow> P s'"
  using assms by (induction xs arbitrary: s) (auto split: option.splits)

text \<open>Two loops agree when their bodies do on the states the first one reaches.\<close>

lemma iterate_cong_inv:
  assumes "\<And>x s. x \<in> set xs \<Longrightarrow> P s \<Longrightarrow> f x s = g x s"
    and "\<And>x s s'. x \<in> set xs \<Longrightarrow> P s \<Longrightarrow> f x s = Some s' \<Longrightarrow> P s'"
  shows "P s \<Longrightarrow> iterate f xs s = iterate g xs s"
  using assms
proof (induction xs arbitrary: s)
  case (Cons x xs)
  have eq: "f x s = g x s" using Cons.prems by simp
  show ?case
  proof (cases "f x s")
    case (Some s')
    have "P s'" using Cons.prems(1) Some by (rule Cons.prems(3) [rotated]) simp
    moreover have "iterate f xs s' = iterate g xs s'"
    proof (rule Cons.IH [OF \<open>P s'\<close>])
      show "f y t = g y t" if "y \<in> set xs" "P t" for y t using that Cons.prems(2) by simp
      show "P t'" if "y \<in> set xs" "P t" "f y t = Some t'" for y t t'
        using Cons.prems(3) [OF _ that(2,3)] that(1) by simp
    qed
    ultimately show ?thesis using Some eq by simp
  qed (use eq in simp)
qed simp

lemma iterate_skip: "(\<And>x. x \<in> set xs \<Longrightarrow> f x s = Some s) \<Longrightarrow> iterate f xs s = Some s"
  by (induction xs) simp_all

section \<open>What an expression depends on\<close>

fun reads_tensor :: "Func \<Rightarrow> Expr \<Rightarrow> bool" where
  "reads_tensor fn (CallE ty ct n args g i) \<longleftrightarrow> (ct = CT_Halide \<and> g = fn) \<or> list_ex (reads_tensor fn) args"
| "reads_tensor fn (Cast t e) = reads_tensor fn e"
| "reads_tensor fn (Binary p a b) = (reads_tensor fn a \<or> reads_tensor fn b)"
| "reads_tensor fn (NotE a) = reads_tensor fn a"
| "reads_tensor fn (Select c t e) = (reads_tensor fn c \<or> reads_tensor fn t \<or> reads_tensor fn e)"
| "reads_tensor fn (LoadE ty w i p) = (reads_tensor fn i \<or> reads_tensor fn p)"
| "reads_tensor fn (LetE w e b) = (reads_tensor fn e \<or> reads_tensor fn b)"
| "reads_tensor fn e = False"

fun reads_buffer :: "Var \<Rightarrow> Expr \<Rightarrow> bool" where
  "reads_buffer v (CallE ty ct n args g i) \<longleftrightarrow> list_ex (reads_buffer v) args"
| "reads_buffer v (Cast t e) = reads_buffer v e"
| "reads_buffer v (Binary p a b) = (reads_buffer v a \<or> reads_buffer v b)"
| "reads_buffer v (NotE a) = reads_buffer v a"
| "reads_buffer v (Select c t e) = (reads_buffer v c \<or> reads_buffer v t \<or> reads_buffer v e)"
| "reads_buffer v (LoadE ty w i p) = (w = v \<or> reads_buffer v i \<or> reads_buffer v p)"
| "reads_buffer v (LetE w e b) = (reads_buffer v e \<or> reads_buffer v b)"
| "reads_buffer v e = False"

lemma eval_env: "\<not> uses_var v e \<Longrightarrow> eval I e (\<rho>(v := x)) \<sigma> = eval I e \<rho> \<sigma>"
proof (induction e arbitrary: \<rho>)
  case (LetE w e b)
  then have "w \<noteq> v" by simp
  then have "(\<rho>(v := x))(w := y) = (\<rho>(w := y))(v := x)" for y by (rule fun_upd_twist [symmetric])
  with LetE show ?case by (simp del: fun_upd_apply)
next
  case (CallE ty ct n args fn i)
  then have "\<And>a. a \<in> set args \<Longrightarrow> eval I a (\<rho>(v := x)) \<sigma> = eval I a \<rho> \<sigma>"
    by (metis list_ex_iff uses_var.simps(12))
  then have "map (\<lambda>e. eval I e (\<rho>(v := x)) \<sigma>) args = map (\<lambda>e. eval I e \<rho> \<sigma>) args"
    by (rule map_cong [OF refl])
  then show ?case by (simp only: eval.simps)
qed simp_all

lemma write_simps [simp]:
  "buffer_val (write_tensor fn i as v \<sigma>) = buffer_val \<sigma>"
  "tensor_val (write_buffer b j v \<sigma>) = tensor_val \<sigma>"
  "g \<noteq> fn \<Longrightarrow> tensor_val (write_tensor fn i as v \<sigma>) g = tensor_val \<sigma> g"
  "w \<noteq> b \<Longrightarrow> buffer_val (write_buffer b j v \<sigma>) w = buffer_val \<sigma> w"
  by (simp_all add: write_tensor_def write_buffer_def)

lemma eval_write_tensor: "\<not> reads_tensor fn e \<Longrightarrow> eval I e \<rho> (write_tensor fn i as v \<sigma>) = eval I e \<rho> \<sigma>"
proof (induction e arbitrary: \<rho>)
  case (CallE ty ct n args g j)
  then have "map (\<lambda>e. eval I e \<rho> (write_tensor fn i as v \<sigma>)) args = map (\<lambda>e. eval I e \<rho> \<sigma>) args"
    by (auto simp: list_ex_iff)
  moreover have "ct = CT_Halide \<Longrightarrow> g \<noteq> fn" using CallE.prems by auto
  ultimately show ?case by (simp del: list.map map_eq_conv)
qed simp_all

lemma eval_write_buffer: "\<not> reads_buffer b e \<Longrightarrow> eval I e \<rho> (write_buffer b i v \<sigma>) = eval I e \<rho> \<sigma>"
proof (induction e arbitrary: \<rho>)
  case (CallE ty ct n args g j)
  then have "map (\<lambda>e. eval I e \<rho> (write_buffer b i v \<sigma>)) args = map (\<lambda>e. eval I e \<rho> \<sigma>) args"
    by (auto simp: list_ex_iff)
  then show ?case by (simp del: list.map map_eq_conv)
qed simp_all

text \<open>\<open>keeps e s\<close>: no statement of \<open>s\<close> writes what \<open>e\<close> reads; calls with an effect may write
  anything.\<close>

fun keeps :: "Expr \<Rightarrow> Stmt \<Rightarrow> bool" where
  "keeps e (LetStmt v x b) = keeps e b"
| "keeps e (AttrStmt n k x b) = keeps e b"
| "keeps e (AssertStmt c m b) = keeps e b"
| "keeps e (ProducerConsumer fn p b) = keeps e b"
| "keeps e (For v m x t b) = keeps e b"
| "keeps e (Store v x i p) \<longleftrightarrow> \<not> reads_buffer v e"
| "keeps e (Provide fn i x args) \<longleftrightarrow> \<not> reads_tensor fn e"
| "keeps e (Allocate v t xs c b n) = keeps e b"
| "keeps e (FreeStmt v) = True"
| "keeps e (Realize fn i ty bs c b) = keeps e b"
| "keeps e (Prefetch fn i ty bs) = True"
| "keeps e (Block a b) \<longleftrightarrow> keeps e a \<and> keeps e b"
| "keeps e (IfThenElse c t el) \<longleftrightarrow> keeps e t \<and> (case el of Some s \<Rightarrow> keeps e s | None \<Rightarrow> True)"
| "keeps e (Evaluate x) \<longleftrightarrow> (case x of CallE ty ct n args fn i \<Rightarrow> is_pure ct | _ \<Rightarrow> True)"

lemma keeps_eval: "keeps e s \<Longrightarrow> exec I s \<rho> \<sigma> = Some \<sigma>' \<Longrightarrow> eval I e \<rho>' \<sigma>' = eval I e \<rho>' \<sigma>"
proof (induction s arbitrary: \<rho> \<sigma> \<sigma>')
  case (For v m x t b)
  have "iterate (\<lambda>i \<sigma>. exec I b (\<rho>(v := i)) \<sigma>) xs \<sigma> = Some \<sigma>' \<Longrightarrow> eval I e \<rho>' \<sigma>' = eval I e \<rho>' \<sigma>" for xs
  proof (rule iterate_invariant [of "\<lambda>\<tau>. eval I e \<rho>' \<tau> = eval I e \<rho>' \<sigma>" "\<lambda>i \<sigma>. exec I b (\<rho>(v := i)) \<sigma>" \<sigma> xs \<sigma>'])
    fix i \<tau> \<tau>' assume "eval I e \<rho>' \<tau> = eval I e \<rho>' \<sigma>" "exec I b (\<rho>(v := i)) \<tau> = Some \<tau>'"
    moreover have "keeps e b" using For.prems(1) by simp
    ultimately show "eval I e \<rho>' \<tau>' = eval I e \<rho>' \<sigma>" using For.IH by metis
  qed simp_all
  then show ?case using For.prems(2) by simp
next
  case (Block a b)
  then show ?case by (auto split: option.splits)
next
  case (IfThenElse c t el)
  then show ?case by (auto split: option.splits if_splits)
next
  case (Evaluate x)
  then show ?case by (cases x) auto
qed (auto simp: eval_write_tensor eval_write_buffer split: if_splits)

text \<open>\<open>frozen e s\<close>: moreover, no statement of \<open>s\<close> binds a variable of \<open>e\<close>.\<close>

fun frozen :: "Expr \<Rightarrow> Stmt \<Rightarrow> bool" where
  "frozen e (LetStmt v x b) \<longleftrightarrow> \<not> uses_var v e \<and> frozen e b"
| "frozen e (AttrStmt n k x b) = frozen e b"
| "frozen e (AssertStmt c m b) = frozen e b"
| "frozen e (ProducerConsumer fn p b) = frozen e b"
| "frozen e (For v m x t b) \<longleftrightarrow> \<not> uses_var v e \<and> frozen e b"
| "frozen e (Store v x i p) \<longleftrightarrow> \<not> reads_buffer v e"
| "frozen e (Provide fn i x args) \<longleftrightarrow> \<not> reads_tensor fn e"
| "frozen e (Allocate v t xs c b n) = frozen e b"
| "frozen e (FreeStmt v) = True"
| "frozen e (Realize fn i ty bs c b) = frozen e b"
| "frozen e (Prefetch fn i ty bs) = True"
| "frozen e (Block a b) \<longleftrightarrow> frozen e a \<and> frozen e b"
| "frozen e (IfThenElse c t el) \<longleftrightarrow> frozen e t \<and> (case el of Some s \<Rightarrow> frozen e s | None \<Rightarrow> True)"
| "frozen e (Evaluate x) \<longleftrightarrow> (case x of CallE ty ct n args fn i \<Rightarrow> is_pure ct | _ \<Rightarrow> True)"

lemma frozen_keeps: "frozen e s \<Longrightarrow> keeps e s"
  by (induction s) (auto split: option.splits)

lemmas frozen_eval = keeps_eval [OF frozen_keeps]

section \<open>Guards\<close>

definition holds :: "Interp \<Rightarrow> Expr list \<Rightarrow> env \<Rightarrow> Memory \<Rightarrow> bool" where
  "holds I conds \<rho> \<sigma> \<longleftrightarrow> (\<forall>c \<in> set conds. is_true I c \<rho> \<sigma>)"

lemma holds_simps [simp]:
  "holds I [] \<rho> \<sigma>"
  "holds I (conds @ [c]) \<rho> \<sigma> \<longleftrightarrow> holds I conds \<rho> \<sigma> \<and> is_true I c \<rho> \<sigma>"
  "is_true I (NotE c) \<rho> \<sigma> \<longleftrightarrow> \<not> is_true I c \<rho> \<sigma>"
  by (auto simp: holds_def is_true_def)

lemma exec_guarded:
  "exec I (foldr (\<lambda>c r. IfThenElse c r None) conds s) \<rho> \<sigma> = (if holds I conds \<rho> \<sigma> then exec I s \<rho> \<sigma> else Some \<sigma>)"
  by (induction conds) (auto simp: holds_def)

section \<open>Rewriting expressions\<close>

text \<open>A rewriting that keeps the value of every child keeps that of the node.\<close>

lemma emap_eval:
  assumes "\<And>c \<rho>. c \<in> set (children e) \<Longrightarrow> eval I (f c) \<rho> \<sigma> = eval I c \<rho> \<sigma>"
  shows "eval I (emap f e) \<rho> \<sigma> = eval I e \<rho> \<sigma>"
proof (cases e)
  case (CallE ty ct n args fn i)
  then have "map (\<lambda>e. eval I e \<rho> \<sigma>) (map f args) = map (\<lambda>e. eval I e \<rho> \<sigma>) args"
    using assms by simp
  with CallE show ?thesis by (simp only: emap.simps eval.simps)
qed (use assms in simp_all)

end
