(* ===== verification/Pass_Rewriting.thy ===== *)
theory Pass_Rewriting
  imports Tvm_Semantics
begin

text \<open>
  What the passes that rewrite the expressions of a statement share. \<open>checked P\<close> says that a
  condition on expressions holds of every expression an execution evaluates, where it
  evaluates it. \<open>rewritten P s s'\<close> says that \<open>s'\<close> differs from \<open>s\<close> in expressions only, and that the
  new ones have the values of the old ones wherever \<open>P\<close> holds. Then both do the same.
\<close>

fun iterate_all :: "('a \<Rightarrow> 's \<Rightarrow> bool) \<Rightarrow> ('a \<Rightarrow> 's \<Rightarrow> 's option) \<Rightarrow> 'a list \<Rightarrow> 's \<Rightarrow> bool" where
  "iterate_all p f [] s = True"
| "iterate_all p f (x # xs) s \<longleftrightarrow> p x s \<and> (case f x s of None \<Rightarrow> True | Some s \<Rightarrow> iterate_all p f xs s)"

fun checked :: "(Expr \<Rightarrow> env \<Rightarrow> Memory \<Rightarrow> bool) \<Rightarrow> Interp \<Rightarrow> Stmt \<Rightarrow> env \<Rightarrow> Memory \<Rightarrow> bool" where
  "checked P I (LetStmt v e b) \<rho> \<sigma> \<longleftrightarrow> P e \<rho> \<sigma> \<and> checked P I b (\<rho>(v := eval I e \<rho> \<sigma>)) \<sigma>"
| "checked P I (AttrStmt n k e b) \<rho> \<sigma> = checked P I b \<rho> \<sigma>"
| "checked P I (AssertStmt c m b) \<rho> \<sigma> \<longleftrightarrow> P c \<rho> \<sigma> \<and> (is_true I c \<rho> \<sigma> \<longrightarrow> checked P I b \<rho> \<sigma>)"
| "checked P I (ProducerConsumer fn p b) \<rho> \<sigma> = checked P I b \<rho> \<sigma>"
| "checked P I (For v m x t b) \<rho> \<sigma> \<longleftrightarrow> P m \<rho> \<sigma> \<and> P x \<rho> \<sigma> \<and>
     iterate_all (\<lambda>i \<sigma>. checked P I b (\<rho>(v := i)) \<sigma>) (\<lambda>i \<sigma>. exec I b (\<rho>(v := i)) \<sigma>)
       [eval I m \<rho> \<sigma> .. eval I m \<rho> \<sigma> + eval I x \<rho> \<sigma> - 1] \<sigma>"
| "checked P I (Store v e i p) \<rho> \<sigma> \<longleftrightarrow> P e \<rho> \<sigma> \<and> P i \<rho> \<sigma> \<and> P p \<rho> \<sigma>"
| "checked P I (Provide fn i e args) \<rho> \<sigma> \<longleftrightarrow> P e \<rho> \<sigma> \<and> list_all (\<lambda>a. P a \<rho> \<sigma>) args"
| "checked P I (Allocate v t xs c b n) \<rho> \<sigma> = checked P I b \<rho> \<sigma>"
| "checked P I (FreeStmt v) \<rho> \<sigma> = True"
| "checked P I (Realize fn i ty bs c b) \<rho> \<sigma> = checked P I b \<rho> \<sigma>"
| "checked P I (Prefetch fn i ty bs) \<rho> \<sigma> = True"
| "checked P I (Block a b) \<rho> \<sigma> \<longleftrightarrow> checked P I a \<rho> \<sigma> \<and>
     (case exec I a \<rho> \<sigma> of None \<Rightarrow> True | Some \<sigma> \<Rightarrow> checked P I b \<rho> \<sigma>)"
| "checked P I (IfThenElse c t e) \<rho> \<sigma> \<longleftrightarrow> P c \<rho> \<sigma> \<and>
     (if is_true I c \<rho> \<sigma> then checked P I t \<rho> \<sigma>
      else (case e of Some s \<Rightarrow> checked P I s \<rho> \<sigma> | None \<Rightarrow> True))"
| "checked P I (Evaluate e) \<rho> \<sigma> =
     (case e of CallE ty ct n args fn i \<Rightarrow> list_all (\<lambda>a. P a \<rho> \<sigma>) args | _ \<Rightarrow> True)"

definition same_value :: "(Expr \<Rightarrow> env \<Rightarrow> Memory \<Rightarrow> bool) \<Rightarrow> Interp \<Rightarrow> Expr \<Rightarrow> Expr \<Rightarrow> bool" where
  "same_value P I e e' \<longleftrightarrow> (\<forall>\<rho> \<sigma>. P e \<rho> \<sigma> \<longrightarrow> eval I e' \<rho> \<sigma> = eval I e \<rho> \<sigma>)"

text \<open>A call for its effect keeps its name and its arguments their values.\<close>

definition same_effect :: "(Expr \<Rightarrow> env \<Rightarrow> Memory \<Rightarrow> bool) \<Rightarrow> Interp \<Rightarrow> Expr \<Rightarrow> Expr \<Rightarrow> bool" where
  "same_effect P I e e' \<longleftrightarrow>
     (case e of
        CallE ty ct n args fn i \<Rightarrow> \<exists>args'. e' = CallE ty ct n args' fn i \<and> list_all2 (same_value P I) args args'
      | _ \<Rightarrow> evaluate I e' = (\<lambda>\<rho> \<sigma>. \<sigma>))"

inductive rewritten :: "(Expr \<Rightarrow> env \<Rightarrow> Memory \<Rightarrow> bool) \<Rightarrow> Interp \<Rightarrow> Stmt \<Rightarrow> Stmt \<Rightarrow> bool" for P I where
  "same_value P I e e' \<Longrightarrow> rewritten P I b b' \<Longrightarrow> rewritten P I (LetStmt v e b) (LetStmt v e' b')"
| "rewritten P I b b' \<Longrightarrow> rewritten P I (AttrStmt n k e b) (AttrStmt n k e' b')"
| "same_value P I c c' \<Longrightarrow> rewritten P I b b' \<Longrightarrow> rewritten P I (AssertStmt c m b) (AssertStmt c' m' b')"
| "rewritten P I b b' \<Longrightarrow> rewritten P I (ProducerConsumer fn p b) (ProducerConsumer fn p b')"
| "same_value P I m m' \<Longrightarrow> same_value P I x x' \<Longrightarrow> rewritten P I b b' \<Longrightarrow>
     rewritten P I (For v m x t b) (For v m' x' t b')"
| "same_value P I e e' \<Longrightarrow> same_value P I i i' \<Longrightarrow> same_value P I p p' \<Longrightarrow>
     rewritten P I (Store v e i p) (Store v e' i' p')"
| "same_value P I e e' \<Longrightarrow> list_all2 (same_value P I) args args' \<Longrightarrow>
     rewritten P I (Provide fn i e args) (Provide fn i e' args')"
| "rewritten P I b b' \<Longrightarrow> rewritten P I (Allocate v t xs c b n) (Allocate v t xs' c' b' n')"
| "rewritten P I (FreeStmt v) (FreeStmt v)"
| "rewritten P I b b' \<Longrightarrow> rewritten P I (Realize fn i ty bs c b) (Realize fn i ty bs' c' b')"
| "rewritten P I (Prefetch fn i ty bs) (Prefetch fn i ty bs')"
| "rewritten P I a a' \<Longrightarrow> rewritten P I b b' \<Longrightarrow> rewritten P I (Block a b) (make_block a' b')"
| "same_value P I c c' \<Longrightarrow> rewritten P I t t' \<Longrightarrow> rewritten P I (IfThenElse c t None) (IfThenElse c' t' None)"
| "same_value P I c c' \<Longrightarrow> rewritten P I t t' \<Longrightarrow> rewritten P I e e' \<Longrightarrow>
     rewritten P I (IfThenElse c t (Some e)) (IfThenElse c' t' (Some e'))"
| "same_effect P I e e' \<Longrightarrow> rewritten P I (Evaluate e) (Evaluate e')"

lemma same_valueD: "same_value P I e e' \<Longrightarrow> P e \<rho> \<sigma> \<Longrightarrow> eval I e' \<rho> \<sigma> = eval I e \<rho> \<sigma>"
  by (simp add: same_value_def)

lemma same_values:
  "list_all2 (same_value P I) es es' \<Longrightarrow> list_all (\<lambda>a. P a \<rho> \<sigma>) es \<Longrightarrow>
     map (\<lambda>e. eval I e \<rho> \<sigma>) es' = map (\<lambda>e. eval I e \<rho> \<sigma>) es"
  by (induction rule: list_all2_induct) (simp_all add: same_valueD)

lemma iterate_checked:
  assumes "\<And>x s. p x s \<Longrightarrow> f x s = g x s"
  shows "iterate_all p g xs s \<Longrightarrow> iterate f xs s = iterate g xs s"
  by (induction xs arbitrary: s) (auto simp: assms split: option.splits)

lemma same_effectD:
  assumes "same_effect P I e e'" "checked P I (Evaluate e) \<rho> \<sigma>"
  shows "evaluate I e' \<rho> \<sigma> = evaluate I e \<rho> \<sigma>"
proof (cases e)
  case (CallE ty ct n args fn i)
  with assms obtain args' where "e' = CallE ty ct n args' fn i"
    "map (\<lambda>e. eval I e \<rho> \<sigma>) args' = map (\<lambda>e. eval I e \<rho> \<sigma>) args"
    using same_values [of P I args _ \<rho> \<sigma>] by (auto simp: same_effect_def)
  with CallE show ?thesis by (simp del: map_eq_conv)
qed (use assms in \<open>simp_all add: same_effect_def\<close>)

theorem rewritten_exec: "rewritten P I s s' \<Longrightarrow> checked P I s \<rho> \<sigma> \<Longrightarrow> exec I s' \<rho> \<sigma> = exec I s \<rho> \<sigma>"
proof (induction arbitrary: \<rho> \<sigma> rule: rewritten.induct)
  case (1 e e' b b' v)
  then show ?case by (simp add: same_valueD del: fun_upd_apply)
next
  case (5 m m' x x' b b' v t)
  have "iterate (\<lambda>i \<sigma>. exec I b' (\<rho>(v := i)) \<sigma>) xs \<sigma> = iterate (\<lambda>i \<sigma>. exec I b (\<rho>(v := i)) \<sigma>) xs \<sigma>"
    if "iterate_all (\<lambda>i \<sigma>. checked P I b (\<rho>(v := i)) \<sigma>) (\<lambda>i \<sigma>. exec I b (\<rho>(v := i)) \<sigma>) xs \<sigma>" for xs
    using that by (rule iterate_checked [rotated]) (rule 5)
  with 5 show ?case by (simp add: same_valueD)
next
  case (7 e e' args args' fn i)
  with same_values [OF 7(2)] show ?case by (simp add: same_valueD del: map_eq_conv)
next
  case 15
  then show ?case using same_effectD by simp
qed (auto simp: same_valueD is_true_def split: option.split)

text \<open>\<open>everywhere C\<close>: a condition on every operator of an expression, where it is evaluated.\<close>

fun everywhere :: "Interp \<Rightarrow> (BinOp \<Rightarrow> Expr \<Rightarrow> Expr \<Rightarrow> env \<Rightarrow> Memory \<Rightarrow> bool) \<Rightarrow> Expr \<Rightarrow> env \<Rightarrow> Memory \<Rightarrow> bool" where
  "everywhere I C (Cast t e) \<rho> \<sigma> = everywhere I C e \<rho> \<sigma>"
| "everywhere I C (Binary p a b) \<rho> \<sigma> \<longleftrightarrow> C p a b \<rho> \<sigma> \<and> everywhere I C a \<rho> \<sigma> \<and> everywhere I C b \<rho> \<sigma>"
| "everywhere I C (NotE a) \<rho> \<sigma> = everywhere I C a \<rho> \<sigma>"
| "everywhere I C (Select c t e) \<rho> \<sigma> \<longleftrightarrow> everywhere I C c \<rho> \<sigma> \<and> everywhere I C t \<rho> \<sigma> \<and> everywhere I C e \<rho> \<sigma>"
| "everywhere I C (LoadE ty v i p) \<rho> \<sigma> \<longleftrightarrow> everywhere I C i \<rho> \<sigma> \<and> everywhere I C p \<rho> \<sigma>"
| "everywhere I C (LetE v e b) \<rho> \<sigma> \<longleftrightarrow> everywhere I C e \<rho> \<sigma> \<and> everywhere I C b (\<rho>(v := eval I e \<rho> \<sigma>)) \<sigma>"
| "everywhere I C (CallE ty ct n args fn i) \<rho> \<sigma> = list_all (\<lambda>a. everywhere I C a \<rho> \<sigma>) args"
| "everywhere I C e \<rho> \<sigma> = True"

text \<open>A traversal that keeps the values of the children keeps the value of the node, whatever
  the children are bound to.\<close>

lemma emap_everywhere:
  assumes "\<And>c \<rho>. c \<in> set (children e) \<Longrightarrow> everywhere I C c \<rho> \<sigma> \<Longrightarrow> eval I (f c) \<rho> \<sigma> = eval I c \<rho> \<sigma>"
    and "everywhere I C e \<rho> \<sigma>"
  shows "eval I (emap f e) \<rho> \<sigma> = eval I e \<rho> \<sigma>"
proof (cases e)
  case (CallE ty ct n args fn i)
  then have "map (\<lambda>e. eval I e \<rho> \<sigma>) (map f args) = map (\<lambda>e. eval I e \<rho> \<sigma>) args"
    using assms by (simp add: list_all_iff)
  with CallE show ?thesis by (simp only: emap.simps eval.simps)
next
  case (LetE v x b)
  with assms show ?thesis by (simp del: fun_upd_apply)
qed (use assms in simp_all)

end
