(* ===== verification/Pass_Index.thy ===== *)
theory Pass_Index
  imports Pass_Rewriting
begin

text \<open>
  Passes on the arithmetic of indices: \<open>pass/rewrite_floordiv.cc\<close>, which turns the division that
  rounds down into the one that truncates, \<open>pass/convert_div_mod_to_shift.cc\<close>, which turns
  divisions by powers of two into shifts, and \<open>pass/remove_assert.cc\<close>.
\<close>

section \<open>RewriteFloorDiv\<close>

function rewrite_floordiv :: "Expr \<Rightarrow> Expr" where
  "rewrite_floordiv e =
     (case e of
        Binary p a b \<Rightarrow>
          if p = B_FloorDiv then Binary B_Div (rewrite_floordiv a) (rewrite_floordiv b)
          else if p = B_FloorMod then Binary B_Mod (rewrite_floordiv a) (rewrite_floordiv b)
          else emap rewrite_floordiv e
      | _ \<Rightarrow> emap rewrite_floordiv e)"
  by pat_completeness auto
termination by (relation "measure size") auto

declare rewrite_floordiv.simps [simp del]

function RewriteFloorDiv :: "Stmt \<Rightarrow> Stmt" where
  "RewriteFloorDiv s = smap rewrite_floordiv RewriteFloorDiv s"
  by pat_completeness auto
termination by (relation "measure size") auto

declare RewriteFloorDiv.simps [simp del]

section \<open>ConvertDivModToShift\<close>

fun Log2 :: "nat \<Rightarrow> nat" where
  "Log2 v = (if v > 1 then Log2 (v div 2) + 1 else 0)"

declare Log2.simps [simp del]

definition no_func :: Func where
  "no_func = Func 0 '''' None"

text \<open>\<open>operator>>\<close> and \<open>operator&\<close> of TVM on an expression and a constant, which is given the type of
  the expression; that is an integer type, because the divisor is an \<open>IntImm\<close> and the division has
  been checked by \<open>make\<close>. Two constants are folded if their type is one of an index.\<close>

definition IsIndexType :: "TvmType \<Rightarrow> bool" where
  "IsIndexType ty \<longleftrightarrow> is_int ty \<and> is_scalar ty \<and> (ty_bits ty = 32 \<or> ty_bits ty = 64)"

definition shift_right :: "Expr \<Rightarrow> int \<Rightarrow> Expr" where
  "shift_right a k =
     (let ty = type_of a; shift = CallE ty CT_PureIntrinsic ''shift_right'' [a, IntImm ty k] no_func 0 in
      if IsIndexType ty then
        (case a of IntImm t i \<Rightarrow> IntImm ty (drop_bit (nat k) i) | _ \<Rightarrow> if k = 0 then a else shift)
      else shift)"

definition bitwise_and :: "Expr \<Rightarrow> int \<Rightarrow> Expr" where
  "bitwise_and a k =
     (let ty = type_of a; masked = CallE ty CT_PureIntrinsic ''bitwise_and'' [a, IntImm ty k] no_func 0 in
      if IsIndexType ty then (case a of IntImm t i \<Rightarrow> IntImm ty (i AND k) | _ \<Rightarrow> masked) else masked)"

text \<open>The test of the four overrides: \<open>value\<close> is the constant in 16 bits.\<close>

definition shift_amount :: "Expr \<Rightarrow> 16 word option" where
  "shift_amount b =
     (case b of
        IntImm ty k \<Rightarrow>
          if k > 1 then
            let v = word_of_int k in if v AND (v - 1) = 0 then Some v else None
          else None
      | _ \<Rightarrow> None)"

function DivModMutator :: "Expr \<Rightarrow> Expr" where
  "DivModMutator e =
     (case e of
        Binary p a b \<Rightarrow>
          if p = B_Div \<or> p = B_FloorDiv then
            (case shift_amount b of Some v \<Rightarrow> shift_right a (int (Log2 (unat v))) | None \<Rightarrow> e)
          else if p = B_Mod \<or> p = B_FloorMod then
            (case shift_amount b of Some v \<Rightarrow> bitwise_and a (uint v - 1) | None \<Rightarrow> e)
          else emap DivModMutator e
      | _ \<Rightarrow> emap DivModMutator e)"
  by pat_completeness auto
termination by (relation "measure size") auto

declare DivModMutator.simps [simp del]

function convert_shift_expr :: "Expr \<Rightarrow> Expr" where
  "convert_shift_expr e =
     (case e of
        CallE ty ct n args fn i \<Rightarrow> CallE ty ct n (map DivModMutator args) fn i
      | LoadE ty v i p \<Rightarrow> LoadE ty v (DivModMutator i) p
      | _ \<Rightarrow> emap convert_shift_expr e)"
  by pat_completeness auto
termination by (relation "measure size") auto

declare convert_shift_expr.simps [simp del]

function ConvertDivModToShift :: "Stmt \<Rightarrow> Stmt" where
  "ConvertDivModToShift s =
     (case s of
        For v m x t b \<Rightarrow> For v (DivModMutator m) (DivModMutator x) t (ConvertDivModToShift b)
      | Provide fn i e args \<Rightarrow> Provide fn i (convert_shift_expr e) (map DivModMutator args)
      | Store v e i p \<Rightarrow> Store v (convert_shift_expr e) (DivModMutator i) p
      | Allocate v t xs c b n \<Rightarrow>
          Allocate v t (map DivModMutator xs) c (ConvertDivModToShift b) (map_option DivModMutator n)
      | _ \<Rightarrow> smap convert_shift_expr ConvertDivModToShift s)"
  by pat_completeness auto
termination by (relation "measure size") auto

declare ConvertDivModToShift.simps [simp del]

section \<open>RemoveAssert\<close>

function RemoveAssert :: "Stmt \<Rightarrow> Stmt" where
  "RemoveAssert s =
     (case s of AssertStmt c m b \<Rightarrow> RemoveAssert b | _ \<Rightarrow> smap (\<lambda>e. e) RemoveAssert s)"
  by pat_completeness auto
termination by (relation "measure size") auto

declare RemoveAssert.simps [simp del]

section \<open>Values of the rewritten expressions\<close>

definition nonneg_floor :: "Interp \<Rightarrow> BinOp \<Rightarrow> Expr \<Rightarrow> Expr \<Rightarrow> env \<Rightarrow> Memory \<Rightarrow> bool" where
  "nonneg_floor I p a b \<rho> \<sigma> \<longleftrightarrow>
     (p = B_FloorDiv \<or> p = B_FloorMod \<longrightarrow> 0 \<le> eval I a \<rho> \<sigma> \<and> 0 \<le> eval I b \<rho> \<sigma>)"

lemma rewrite_floordiv_eval:
  "everywhere I (nonneg_floor I) e \<rho> \<sigma> \<Longrightarrow> eval I (rewrite_floordiv e) \<rho> \<sigma> = eval I e \<rho> \<sigma>"
proof (induction e arbitrary: \<rho> rule: rewrite_floordiv.induct)
  case (1 e)
  show ?case
  proof (cases "\<exists>p a b. e = Binary p a b \<and> (p = B_FloorDiv \<or> p = B_FloorMod)")
    case True
    then obtain p a b where e: "e = Binary p a b" "p = B_FloorDiv \<or> p = B_FloorMod" by blast
    then have "eval I (rewrite_floordiv a) \<rho> \<sigma> = eval I a \<rho> \<sigma>" "eval I (rewrite_floordiv b) \<rho> \<sigma> = eval I b \<rho> \<sigma>"
      "0 \<le> eval I a \<rho> \<sigma>" "0 \<le> eval I b \<rho> \<sigma>"
      using 1 by (auto simp: nonneg_floor_def)
    with e show ?thesis unfolding rewrite_floordiv.simps [of e] by (auto simp: sdiv_nonneg smod_nonneg)
  next
    case False
    then have "rewrite_floordiv e = emap rewrite_floordiv e"
      by (auto simp: rewrite_floordiv.simps [of e] split: Expr.split)
    moreover have "eval I (emap rewrite_floordiv e) \<rho> \<sigma> = eval I e \<rho> \<sigma>"
      using 1 False by (intro emap_everywhere) (cases e; auto)+
    ultimately show ?thesis by simp
  qed
qed

lemma rewrite_floordiv_call:
  "rewrite_floordiv (CallE ty ct n args fn i) = CallE ty ct n (map rewrite_floordiv args) fn i"
  by (simp add: rewrite_floordiv.simps [of "CallE ty ct n args fn i"])

fun is_call :: "Expr \<Rightarrow> bool" where
  "is_call (CallE ty ct n args fn i) = True"
| "is_call e = False"

lemma evaluate_other: "\<not> is_call e \<Longrightarrow> evaluate I e = (\<lambda>\<rho> \<sigma>. \<sigma>)"
  by (cases e) (auto intro!: ext)

text \<open>What a rewriting has to do with calls, for the statements made of one.\<close>

lemma same_effectI:
  assumes "\<And>ty ct n args fn i. e = CallE ty ct n args fn i \<Longrightarrow> f e = CallE ty ct n (map g args) fn i"
    and "\<And>a. same_value P I a (g a)" "\<not> is_call e \<Longrightarrow> \<not> is_call (f e)"
  shows "same_effect P I e (f e)"
proof (cases e)
  case (CallE ty ct n args fn i)
  with assms(1) [OF this] assms(2) show ?thesis by (simp add: same_effect_def list_all2_conv_all_nth)
qed (use assms(3) in \<open>auto simp: same_effect_def intro!: evaluate_other\<close>)

lemma rewritten_smap:
  assumes "\<And>e. same_value P I e (fe e)" "\<And>e. same_effect P I e (fe e)"
    and "\<And>t. t \<in> set (substmts s) \<Longrightarrow> rewritten P I t (fs t)"
  shows "rewritten P I s (smap fe fs s)"
proof (cases s)
  case (IfThenElse c t el)
  with assms show ?thesis by (cases el) (auto intro!: rewritten.intros)
qed (use assms in \<open>auto intro!: rewritten.intros simp: list_all2_conv_all_nth\<close>)

text \<open>
  C18: Replacing the division that rounds down by the one that truncates does not change what a statement
  does, if no division of its execution has a negative operand.
\<close>

theorem floordiv_rewrite_correct:
  assumes "checked (everywhere I (nonneg_floor I)) I s \<rho> \<sigma>"
  shows "exec I (RewriteFloorDiv s) \<rho> \<sigma> = exec I s \<rho> \<sigma>"
proof (rule rewritten_exec [OF _ assms])
  let ?P = "everywhere I (nonneg_floor I)"
  have val: "same_value ?P I e (rewrite_floordiv e)" for e
    by (simp add: same_value_def rewrite_floordiv_eval)
  have "\<not> is_call e \<Longrightarrow> \<not> is_call (rewrite_floordiv e)" for e
    by (subst rewrite_floordiv.simps) (cases e; simp)
  then have eff: "same_effect ?P I e (rewrite_floordiv e)" for e
    by (intro same_effectI [where g = rewrite_floordiv] val) (simp_all add: rewrite_floordiv_call)
  show "rewritten ?P I s (RewriteFloorDiv s)"
  proof (induction s rule: RewriteFloorDiv.induct)
    case (1 s)
    then show ?case unfolding RewriteFloorDiv.simps [of s] by (intro rewritten_smap val eff)
  qed
qed

theorem floordiv_rewrite_correct_witness:
  "\<forall>I fn v \<sigma>. exec I (RewriteFloorDiv
     (For v (IntImm (Int_type 32) 8) (IntImm (Int_type 32) 1) FT_Serial (Provide fn 0 (IntImm (Int_type 32) 1) [Binary B_FloorDiv (Variable v) (IntImm (Int_type 32) 4)])))
       (\<lambda>_. 0) \<sigma> = Some (write_tensor fn 0 [2] 1 \<sigma>)"
  by (intro allI, subst floordiv_rewrite_correct) (simp_all add: nonneg_floor_def)

section \<open>Shifts\<close>

lemma pow2_test: "0 < x \<Longrightarrow> x AND (x - 1) = 0 \<Longrightarrow> x = 2 ^ Log2 x" for x :: nat
proof (induction x rule: Log2.induct)
  case (1 x)
  show ?case
  proof (cases "x = 1")
    case True
    then show ?thesis by (simp add: Log2.simps [of "Suc 0"])
  next
    case False
    with 1 have x: "x > 1" by simp
    have rec: "x AND (x - 1) = of_bool (odd x \<and> odd (x - 1)) + 2 * ((x div 2) AND ((x - 1) div 2))"
      by (rule and_rec)
    have "even x"
    proof (rule ccontr)
      assume odd: "odd x"
      with x have "(x - 1) div 2 = x div 2" by presburger
      with rec 1(3) have "x div 2 = 0" by simp
      with x show False by simp
    qed
    then have "(x - 1) div 2 = x div 2 - 1" by presburger
    with rec 1(3) have "(x div 2) AND (x div 2 - 1) = 0" by simp
    with 1(1) x have "x div 2 = 2 ^ Log2 (x div 2)" by simp
    moreover have "x = 2 * (x div 2)" using \<open>even x\<close> by simp
    moreover have "Log2 x = Log2 (x div 2) + 1" using x by (simp add: Log2.simps [of x])
    ultimately show ?thesis by (metis power_Suc Suc_eq_plus1)
  qed
qed

lemma shift_amount_value:
  assumes "shift_amount (IntImm ty k) = Some v" "k < 2 ^ 16"
  shows "k = 2 ^ Log2 (unat v)" "uint v = k"
proof -
  have k: "1 < k" "v = word_of_int k" "v AND (v - 1) = 0"
    using assms(1) by (auto simp: shift_amount_def Let_def split: if_splits)
  then show uint: "uint v = k" using assms(2) by (simp add: uint_word_of_int_eq take_bit_int_eq_self_iff)
  then have unat: "unat v = nat k" by (simp add: unat_eq_nat_uint)
  have "unat (v - 1) = nat k - 1" 
  proof -
    have "1 \<le> v" using k(1) uint by (simp add: word_le_def)
    then show ?thesis using unat by (simp add: unat_sub)
  qed
  moreover have "unat (v AND (v - 1)) = unat v AND unat (v - 1)"
    by (simp add: unsigned_and_eq)
  ultimately have "nat k AND (nat k - 1) = 0" using k(3) unat by simp
  then have "nat k = 2 ^ Log2 (nat k)" using k(1) by (intro pow2_test) simp_all
  then have "int (nat k) = int (2 ^ Log2 (nat k))" by (rule arg_cong)
  then show "k = 2 ^ Log2 (unat v)" using k(1) unat by simp
qed

lemma eval_shift_right: "0 \<le> k \<Longrightarrow> eval I (shift_right a k) \<rho> \<sigma> = drop_bit (nat k) (eval I a \<rho> \<sigma>)"
  by (auto simp: shift_right_def Let_def intrinsic_val_def simp del: type_of.simps split: Expr.split)

lemma eval_bitwise_and: "eval I (bitwise_and a k) \<rho> \<sigma> = eval I a \<rho> \<sigma> AND k"
  by (auto simp: bitwise_and_def Let_def intrinsic_val_def simp del: type_of.simps split: Expr.split)

definition shift_safe :: "Interp \<Rightarrow> BinOp \<Rightarrow> Expr \<Rightarrow> Expr \<Rightarrow> env \<Rightarrow> Memory \<Rightarrow> bool" where
  "shift_safe I p a b \<rho> \<sigma> \<longleftrightarrow>
     (case b of
        IntImm ty k \<Rightarrow>
          (p \<in> {B_Div, B_FloorDiv, B_Mod, B_FloorMod} \<longrightarrow> k < 2 ^ 16) \<and>
          (p \<in> {B_Div, B_Mod} \<longrightarrow> 0 \<le> eval I a \<rho> \<sigma>)
      | _ \<Rightarrow> True)"

lemma DivModMutator_eval:
  "everywhere I (shift_safe I) e \<rho> \<sigma> \<Longrightarrow> eval I (DivModMutator e) \<rho> \<sigma> = eval I e \<rho> \<sigma>"
proof (induction e arbitrary: \<rho> rule: DivModMutator.induct)
  case (1 e)
  show ?case
  proof (cases "\<exists>p a b. e = Binary p a b \<and> p \<in> {B_Div, B_FloorDiv, B_Mod, B_FloorMod}")
    case True
    then obtain p a b where e: "e = Binary p a b" "p \<in> {B_Div, B_FloorDiv, B_Mod, B_FloorMod}" by blast
    show ?thesis
    proof (cases "shift_amount b")
      case None
      with e show ?thesis unfolding DivModMutator.simps [of e] by auto
    next
      case (Some v)
      then obtain ty k where b: "b = IntImm ty k" "1 < k" by (auto simp: shift_amount_def split: Expr.splits if_splits)
      with e "1.prems" have small: "k < 2 ^ 16" and nonneg: "p \<in> {B_Div, B_Mod} \<Longrightarrow> 0 \<le> eval I a \<rho> \<sigma>"
        by (auto simp: shift_safe_def)
      note v = shift_amount_value [OF Some [unfolded b(1)] small]
      have "eval I (DivModMutator e) \<rho> \<sigma> =
          (if p = B_Div \<or> p = B_FloorDiv then drop_bit (Log2 (unat v)) (eval I a \<rho> \<sigma>) else eval I a \<rho> \<sigma> AND (k - 1))"
        using e Some v(2) unfolding DivModMutator.simps [of e]
        by (auto simp: eval_shift_right eval_bitwise_and)
      also have "\<dots> = (if p = B_Div \<or> p = B_FloorDiv then eval I a \<rho> \<sigma> div k else eval I a \<rho> \<sigma> mod k)"
        using v(1) take_bit_eq_mask [of "Log2 (unat v)" "eval I a \<rho> \<sigma>"]
        by (simp add: drop_bit_eq_div take_bit_eq_mod mask_eq_exp_minus_1)
      also have "\<dots> = eval I e \<rho> \<sigma>"
        using e nonneg b by (auto simp: sdiv_nonneg smod_nonneg)
      finally show ?thesis .
    qed
  next
    case False
    then have "DivModMutator e = emap DivModMutator e"
      unfolding DivModMutator.simps [of e] by (auto split: Expr.split)
    moreover have "eval I (emap DivModMutator e) \<rho> \<sigma> = eval I e \<rho> \<sigma>"
      using 1 False by (intro emap_everywhere) (cases e; auto)+
    ultimately show ?thesis by simp
  qed
qed

lemma convert_shift_call:
  "convert_shift_expr (CallE ty ct n args fn i) = CallE ty ct n (map DivModMutator args) fn i"
  by (simp add: convert_shift_expr.simps [of "CallE ty ct n args fn i"])

lemma convert_shift_eval:
  "everywhere I (shift_safe I) e \<rho> \<sigma> \<Longrightarrow> eval I (convert_shift_expr e) \<rho> \<sigma> = eval I e \<rho> \<sigma>"
proof (induction e arbitrary: \<rho> rule: convert_shift_expr.induct)
  case (1 e)
  show ?case
  proof (cases "is_call e \<or> (\<exists>ty v i p. e = LoadE ty v i p)")
    case True
    then consider ty ct n args fn i where "e = CallE ty ct n args fn i" | ty v i p where "e = LoadE ty v i p"
      by (cases e) auto
    then show ?thesis
    proof cases
      case (1 ty ct n args fn i)
      with "1.prems" have "map (\<lambda>e. eval I e \<rho> \<sigma>) (map DivModMutator args) = map (\<lambda>e. eval I e \<rho> \<sigma>) args"
        by (auto simp: list_all_iff DivModMutator_eval)
      then show ?thesis unfolding 1 convert_shift_call by (simp only: eval.simps)
    next
      case 2
      with "1.prems" show ?thesis
        by (simp add: convert_shift_expr.simps [of "LoadE ty v i p" for ty v i p] DivModMutator_eval)
    qed
  next
    case False
    then have "convert_shift_expr e = emap convert_shift_expr e"
      unfolding convert_shift_expr.simps [of e] by (cases e) auto
    moreover have "eval I (emap convert_shift_expr e) \<rho> \<sigma> = eval I e \<rho> \<sigma>"
      using 1 False by (intro emap_everywhere) (cases e; auto)+
    ultimately show ?thesis by simp
  qed
qed

text \<open>
  C19: Replacing divisions by powers of two by shifts does not change what a statement does, if every constant divisor of
  its execution is below \<open>2 ^ 16\<close> and no division that truncates has a negative dividend.
\<close>

theorem shift_conversion_correct:
  assumes "checked (everywhere I (shift_safe I)) I s \<rho> \<sigma>"
  shows "exec I (ConvertDivModToShift s) \<rho> \<sigma> = exec I s \<rho> \<sigma>"
proof (rule rewritten_exec [OF _ assms])
  let ?P = "everywhere I (shift_safe I)"
  have index: "same_value ?P I e (DivModMutator e)" for e
    by (simp add: same_value_def DivModMutator_eval)
  have val: "same_value ?P I e (convert_shift_expr e)" for e
    by (simp add: same_value_def convert_shift_eval)
  have self: "same_value ?P I e e" for e by (simp add: same_value_def)
  have "\<not> is_call e \<Longrightarrow> \<not> is_call (convert_shift_expr e)" for e
    by (subst convert_shift_expr.simps) (cases e; simp)
  then have eff: "same_effect ?P I e (convert_shift_expr e)" for e
    by (intro same_effectI [where g = DivModMutator] index) (simp_all add: convert_shift_call)
  show "rewritten ?P I s (ConvertDivModToShift s)"
  proof (induction s rule: ConvertDivModToShift.induct)
    case (1 s)
    show ?case
    proof (cases "(\<exists>v m x t b. s = For v m x t b) \<or> (\<exists>fn i e as. s = Provide fn i e as) \<or>
        (\<exists>v e i p. s = Store v e i p) \<or> (\<exists>v t xs c b n. s = Allocate v t xs c b n)")
      case True
      then show ?thesis
        using 1 by (subst ConvertDivModToShift.simps)
          (auto intro!: rewritten.intros index val self simp: list_all2_conv_all_nth)
    next
      case False
      then have "ConvertDivModToShift s = smap convert_shift_expr ConvertDivModToShift s"
        by (subst ConvertDivModToShift.simps) (cases s; simp)
      moreover have "rewritten ?P I s (smap convert_shift_expr ConvertDivModToShift s)"
        using 1 False by (intro rewritten_smap val eff) (cases s; auto)
      ultimately show ?thesis by simp
    qed
  qed
qed

theorem shift_conversion_correct_witness:
  "\<forall>I fn v \<sigma>. exec I (ConvertDivModToShift
     (For v (IntImm (Int_type 32) 9) (IntImm (Int_type 32) 1) FT_Serial (Provide fn 0 (IntImm (Int_type 32) 1)
        [Binary B_Div (Variable v) (IntImm (Int_type 32) 4), Binary B_FloorMod (Variable v) (IntImm (Int_type 32) 4)])))
       (\<lambda>_. 0) \<sigma> = Some (write_tensor fn 0 [2, 1] 1 \<sigma>)"
  by (intro allI, subst shift_conversion_correct) (simp_all add: shift_safe_def sdiv_nonneg)

text \<open>
  The constant is tested in 16 bits: a division by a multiple of \<open>2 ^ 16\<close> is dropped and a remainder is replaced by
  the dividend, whatever the dividend is.
\<close>

theorem shift_drops_large_divisor:
  assumes "0 < m"
  shows "eval I (DivModMutator (Binary B_FloorDiv (Variable v) (IntImm (Int_type 32) (m * 2 ^ 16)))) \<rho> \<sigma> = \<rho> v \<and>
    eval I (DivModMutator (Binary B_FloorMod (Variable v) (IntImm (Int_type 32) (m * 2 ^ 16)))) \<rho> \<sigma> = \<rho> v"
proof -
  have "uint (word_of_int (m * 2 ^ 16) :: 16 word) = 0"
    by (simp only: uint_word_of_int_eq take_bit_eq_mod) simp
  then have "(word_of_int (m * 2 ^ 16) :: 16 word) = 0" by (simp only: uint_0_iff)
  then have "shift_amount (IntImm (Int_type 32) (m * 2 ^ 16)) = Some 0"
    using assms by (simp add: shift_amount_def)
  then show ?thesis
    by (simp add: DivModMutator.simps [of "Binary p a b" for p a b] eval_shift_right eval_bitwise_and Log2.simps [of 0])
qed

theorem shift_drops_large_divisor_witness:
  "\<forall>I v \<sigma>. eval I (DivModMutator (Binary B_FloorDiv (Variable v) (IntImm (Int_type 32) 65536))) (\<lambda>_. 200000) \<sigma> = 200000 \<and>
     (200000 :: int) div 65536 = 3"
  using shift_drops_large_divisor [of 1] by simp

section \<open>Assertions\<close>

lemma iterate_refines:
  assumes "\<And>x s s'. f x s = Some s' \<Longrightarrow> g x s = Some s'"
  shows "iterate f xs s = Some s' \<Longrightarrow> iterate g xs s = Some s'"
proof (induction xs arbitrary: s)
  case (Cons x xs)
  then obtain t where "f x s = Some t" "iterate f xs t = Some s'" by (auto split: option.splits)
  with Cons.IH assms show ?case by simp
qed simp

fun asserts_nothing :: "Stmt \<Rightarrow> bool" where
  "asserts_nothing (AssertStmt c m b) = False"
| "asserts_nothing (IfThenElse c t e) \<longleftrightarrow> asserts_nothing t \<and> (case e of Some s \<Rightarrow> asserts_nothing s | None \<Rightarrow> True)"
| "asserts_nothing (Block a b) \<longleftrightarrow> asserts_nothing a \<and> asserts_nothing b"
| "asserts_nothing (LetStmt v e b) = asserts_nothing b"
| "asserts_nothing (AttrStmt n k e b) = asserts_nothing b"
| "asserts_nothing (ProducerConsumer fn p b) = asserts_nothing b"
| "asserts_nothing (For v m x t b) = asserts_nothing b"
| "asserts_nothing (Allocate v t xs c b n) = asserts_nothing b"
| "asserts_nothing (Realize fn i ty bs c b) = asserts_nothing b"
| "asserts_nothing s = True"

lemma asserts_nothing_make_block [simp]: "asserts_nothing (make_block a b) = asserts_nothing (Block a b)"
  by (induction a b rule: make_block.induct) auto

lemma RemoveAssert_assert: "RemoveAssert (AssertStmt c m b) = RemoveAssert b"
  by (subst RemoveAssert.simps) simp

lemma RemoveAssert_other:
  "(case s of AssertStmt c m b \<Rightarrow> False | _ \<Rightarrow> True) \<Longrightarrow> RemoveAssert s = smap (\<lambda>e. e) RemoveAssert s"
  by (subst RemoveAssert.simps) (cases s; simp)

lemmas RemoveAssert_nodes = RemoveAssert_assert
  RemoveAssert_other [of "LetStmt v e b" for v e b, simplified]
  RemoveAssert_other [of "AttrStmt n k e b" for n k e b, simplified]
  RemoveAssert_other [of "ProducerConsumer fn p b" for fn p b, simplified]
  RemoveAssert_other [of "For v m x t b" for v m x t b, simplified]
  RemoveAssert_other [of "Store v e i p" for v e i p, simplified]
  RemoveAssert_other [of "Provide fn i e as" for fn i e as, simplified]
  RemoveAssert_other [of "Allocate v t xs c b n" for v t xs c b n, simplified]
  RemoveAssert_other [of "FreeStmt v" for v, simplified]
  RemoveAssert_other [of "Realize fn i ty bs c b" for fn i ty bs c b, simplified]
  RemoveAssert_other [of "Prefetch fn i ty bs" for fn i ty bs, simplified]
  RemoveAssert_other [of "Block a b" for a b, simplified]
  RemoveAssert_other [of "IfThenElse c t e" for c t e, simplified]
  RemoveAssert_other [of "Evaluate e" for e, simplified]

text \<open>
  C20: Removing the assertions leaves none, and a statement whose assertions hold does the same without them.
\<close>

theorem remove_assert_refines:
  "asserts_nothing (RemoveAssert s) \<and>
   (exec I s \<rho> \<sigma> = Some \<sigma>' \<longrightarrow> exec I (RemoveAssert s) \<rho> \<sigma> = Some \<sigma>')"
proof (induction s arbitrary: \<rho> \<sigma> \<sigma>')
  case (For v m x t b)
  then have "exec I b (\<rho>(v := i)) \<tau> = Some \<tau>' \<Longrightarrow> exec I (RemoveAssert b) (\<rho>(v := i)) \<tau> = Some \<tau>'" for i \<tau> \<tau>'
    by blast
  with iterate_refines [of "\<lambda>i \<sigma>. exec I b (\<rho>(v := i)) \<sigma>" "\<lambda>i \<sigma>. exec I (RemoveAssert b) (\<rho>(v := i)) \<sigma>"] For
  show ?case by (simp add: RemoveAssert_nodes del: fun_upd_apply)
next
  case (Block a b)
  then show ?case by (auto simp: RemoveAssert_nodes split: option.splits) 
next
  case (IfThenElse c t e)
  then show ?case by (cases e) (auto simp: RemoveAssert_nodes)
qed (auto simp: RemoveAssert_nodes simp del: fun_upd_apply split: if_splits)

theorem remove_assert_refines_witness:
  "\<forall>I fn \<sigma>. exec I (RemoveAssert (AssertStmt (IntImm (Int_type 32) 1) (IntImm (Int_type 32) 0) (Provide fn 0 (IntImm (Int_type 32) 5) [IntImm (Int_type 32) 3])))
     (\<lambda>_. 0) \<sigma> = Some (write_tensor fn 0 [3] 5 \<sigma>)"
  by (intro allI remove_assert_refines [THEN conjunct2, THEN mp]) (simp add: is_true_def)

end
