(* ===== verification/Pass_Sink_If.thy ===== *)
theory Pass_Sink_If
  imports Tvm_Semantics
begin

text \<open>
  \<open>pass/sink_if.cc\<close>: conditions are moved inwards to the statements that write a tensor. The
  mutator keeps the conditions on the path as a stack, \<open>cond_\<close>, and wraps every \<open>Provide\<close> in
  them. The second component of a result says that the mutator returned the node it was given
  (\<open>same_as\<close>), on which the treatment of a branch depends.
\<close>

section \<open>The mutator\<close>

definition Encapsulate :: "Expr list \<Rightarrow> Stmt \<Rightarrow> Stmt \<times> bool" where
  "Encapsulate conds s =
     (if conds = [] then (s, True) else (foldr (\<lambda>c r. IfThenElse c r None) conds s, False))"

text \<open>\<open>same\<close> is \<open>same_as\<close> on the arguments: whether two equal expressions are one object.\<close>

fun IsSimpleSelect :: "(Expr \<Rightarrow> Expr \<Rightarrow> bool) \<Rightarrow> Stmt \<Rightarrow> Stmt option \<Rightarrow> bool" where
  "IsSimpleSelect same (Provide fn i e args) (Some (Provide fn' i' e' args')) =
     (fn = fn' \<and> length args = length args' \<and> list_all2 same args args')"
| "IsSimpleSelect same t e = False"

fun sink :: "(Expr \<Rightarrow> Expr \<Rightarrow> bool) \<Rightarrow> Expr list \<Rightarrow> Stmt \<Rightarrow> Stmt \<times> bool" where
  "sink same conds (IfThenElse c t e) =
     (if IsSimpleSelect same t e then Encapsulate conds (IfThenElse c t e)
      else
        case sink same (conds @ [c]) t of (if_then, then_same) \<Rightarrow>
        (case e of
           None \<Rightarrow> if then_same then (IfThenElse c t e, True) else (if_then, False)
         | Some s \<Rightarrow>
             (case sink same (conds @ [NotE c]) s of (if_else, else_same) \<Rightarrow>
                if then_same \<and> else_same then (IfThenElse c t e, True)
                else if then_same then (make_block (IfThenElse c if_then None) if_else, False)
                else (make_block if_then if_else, False))))"
| "sink same conds (Provide fn i e args) = Encapsulate conds (Provide fn i e args)"
| "sink same conds (LetStmt v e b) =
     (case sink same conds b of (b', eq) \<Rightarrow> if eq then (LetStmt v e b, True) else (LetStmt v e b', False))"
| "sink same conds (AttrStmt n k e b) =
     (case sink same conds b of (b', eq) \<Rightarrow> if eq then (AttrStmt n k e b, True) else (AttrStmt n k e b', False))"
| "sink same conds (AssertStmt c m b) =
     (case sink same conds b of (b', eq) \<Rightarrow> if eq then (AssertStmt c m b, True) else (AssertStmt c m b', False))"
| "sink same conds (ProducerConsumer fn p b) =
     (case sink same conds b of (b', eq) \<Rightarrow>
        if eq then (ProducerConsumer fn p b, True) else (ProducerConsumer fn p b', False))"
| "sink same conds (For v m x t b) =
     (case sink same conds b of (b', eq) \<Rightarrow> if eq then (For v m x t b, True) else (For v m x t b', False))"
| "sink same conds (Allocate v t xs c b n) =
     (case sink same conds b of (b', eq) \<Rightarrow>
        if eq then (Allocate v t xs c b n, True) else (Allocate v t xs c b' n, False))"
| "sink same conds (Realize fn i ty bs c b) =
     (case sink same conds b of (b', eq) \<Rightarrow>
        if eq then (Realize fn i ty bs c b, True) else (Realize fn i ty bs c b', False))"
| "sink same conds (Block a b) =
     (case sink same conds a of (a', eqa) \<Rightarrow> case sink same conds b of (b', eqb) \<Rightarrow>
        if eqa \<and> eqb then (Block a b, True) else (make_block a' b', False))"
| "sink same conds s = (s, True)"

definition SinkIfStmt :: "(Expr \<Rightarrow> Expr \<Rightarrow> bool) \<Rightarrow> Stmt \<Rightarrow> Stmt" where
  "SinkIfStmt same s = fst (sink same [] s)"

section \<open>What it does to a guarded statement\<close>

text \<open>Below a condition the pass handles statements whose leaves write tensors; a condition must
  not depend on what its branches do.\<close>

fun sinkable :: "bool \<Rightarrow> Stmt \<Rightarrow> bool" where
  "sinkable g (IfThenElse c t e) \<longleftrightarrow> frozen c t \<and> sinkable True t \<and>
     (case e of Some s \<Rightarrow> frozen c s \<and> sinkable True s | None \<Rightarrow> True)"
| "sinkable g (Provide fn i e args) = True"
| "sinkable g (LetStmt v e b) = sinkable g b"
| "sinkable g (AttrStmt n k e b) = sinkable g b"
| "sinkable g (AssertStmt c m b) \<longleftrightarrow> \<not> g \<and> sinkable g b"
| "sinkable g (ProducerConsumer fn p b) = sinkable g b"
| "sinkable g (For v m x t b) = sinkable g b"
| "sinkable g (Allocate v t xs c b n) = sinkable g b"
| "sinkable g (Realize fn i ty bs c b) = sinkable g b"
| "sinkable g (Block a b) \<longleftrightarrow> sinkable g a \<and> sinkable g b"
| "sinkable g s \<longleftrightarrow> \<not> g"

definition all_frozen :: "Expr list \<Rightarrow> Stmt \<Rightarrow> bool" where
  "all_frozen conds s \<longleftrightarrow> (\<forall>c \<in> set conds. frozen c s)"

lemma holds_env: "(\<And>c. c \<in> set conds \<Longrightarrow> \<not> uses_var v c) \<Longrightarrow> holds I conds (\<rho>(v := x)) \<sigma> = holds I conds \<rho> \<sigma>"
  by (auto simp: holds_def is_true_def eval_env)

lemma holds_frozen: "all_frozen conds s \<Longrightarrow> exec I s \<rho> \<sigma> = Some \<sigma>' \<Longrightarrow> holds I conds \<rho>' \<sigma>' = holds I conds \<rho>' \<sigma>"
  unfolding holds_def is_true_def all_frozen_def using frozen_eval by metis

lemma frozen_NotE [simp]: "frozen (NotE c) s = frozen c s"
  by (induction s) (auto split: option.split Expr.split)

lemma guarded_loop:
  assumes "all_frozen conds b" "\<And>c. c \<in> set conds \<Longrightarrow> \<not> uses_var v c"
    and "\<And>\<rho> \<sigma>. exec I b' \<rho> \<sigma> = (if holds I conds \<rho> \<sigma> then exec I b \<rho> \<sigma> else Some \<sigma>)"
  shows "iterate (\<lambda>i \<sigma>. exec I b' (\<rho>(v := i)) \<sigma>) xs \<sigma> =
    (if holds I conds \<rho> \<sigma> then iterate (\<lambda>i \<sigma>. exec I b (\<rho>(v := i)) \<sigma>) xs \<sigma> else Some \<sigma>)"
proof (cases "holds I conds \<rho> \<sigma>")
  case True
  have env: "holds I conds (\<rho>(v := i)) \<tau> = holds I conds \<rho> \<tau>" for i \<tau> by (rule holds_env) (rule assms(2))
  have "iterate (\<lambda>i \<sigma>. exec I b (\<rho>(v := i)) \<sigma>) xs \<sigma> = iterate (\<lambda>i \<sigma>. exec I b' (\<rho>(v := i)) \<sigma>) xs \<sigma>"
    by (rule iterate_cong_inv [where P = "holds I conds \<rho>"])
       (use True in \<open>auto simp: assms(3) env holds_frozen [OF assms(1)]\<close>)
  with True show ?thesis by simp
next
  case False
  then have "exec I b' (\<rho>(v := i)) \<sigma> = Some \<sigma>" for i
    using holds_env [of conds v I \<rho> i \<sigma>] assms(2) by (simp add: assms(3))
  with False show ?thesis by (simp add: iterate_skip)
qed

text \<open>The result of the mutator on \<open>s\<close> under \<open>conds\<close>.\<close>

definition sunk :: "Interp \<Rightarrow> Expr list \<Rightarrow> Stmt \<Rightarrow> Stmt \<times> bool \<Rightarrow> bool" where
  "sunk I conds s r \<longleftrightarrow>
     (\<forall>\<rho> \<sigma>. exec I (fst r) \<rho> \<sigma> = (if holds I conds \<rho> \<sigma> then exec I s \<rho> \<sigma> else Some \<sigma>)) \<and>
     (conds \<noteq> [] \<longrightarrow> \<not> snd r) \<and> (snd r \<longrightarrow> fst r = s)"

text \<open>A node with one statement below it, executed in another environment.\<close>

lemma sunk_wrap:
  assumes "sunk I conds b (b', eq)" "\<And>x \<rho> \<sigma>. exec I (C x) \<rho> \<sigma> = exec I x (f \<rho> \<sigma>) \<sigma>"
    and "\<And>\<rho> \<sigma>. holds I conds (f \<rho> \<sigma>) \<sigma> = holds I conds \<rho> \<sigma>"
  shows "sunk I conds (C b) (if eq then (C b, True) else (C b', False))"
  using assms by (auto simp: sunk_def)

lemma sunk_Encapsulate: "sunk I conds s (Encapsulate conds s)"
  by (auto simp: sunk_def Encapsulate_def exec_guarded)

lemma sunk_For:
  assumes "sunk I conds b (b', eq)" "all_frozen conds b" "\<And>c. c \<in> set conds \<Longrightarrow> \<not> uses_var v c"
  shows "sunk I conds (For v m x t b) (if eq then (For v m x t b, True) else (For v m x t b', False))"
proof (cases eq)
  case False
  have "exec I b' \<rho> \<sigma> = (if holds I conds \<rho> \<sigma> then exec I b \<rho> \<sigma> else Some \<sigma>)" for \<rho> \<sigma>
    using assms(1) by (simp add: sunk_def)
  from guarded_loop [OF assms(2,3) this] False show ?thesis by (simp add: sunk_def)
qed (use assms(1) in \<open>auto simp: sunk_def\<close>)

lemma sunk_Block:
  assumes "sunk I conds a (a', eqa)" "sunk I conds b (b', eqb)" "all_frozen conds a"
  shows "sunk I conds (Block a b) (if eqa \<and> eqb then (Block a b, True) else (make_block a' b', False))"
proof -
  have "exec I (Block a' b') \<rho> \<sigma> = (if holds I conds \<rho> \<sigma> then exec I (Block a b) \<rho> \<sigma> else Some \<sigma>)" for \<rho> \<sigma>
  proof (cases "exec I a \<rho> \<sigma>")
    case None
    then show ?thesis using assms by (simp add: sunk_def)
  next
    case (Some \<tau>)
    with holds_frozen [OF assms(3) Some, of \<rho>] assms show ?thesis by (simp add: sunk_def)
  qed
  with assms show ?thesis by (cases "conds = []") (auto simp: sunk_def)
qed

lemma sunk_If:
  assumes "sunk I (conds @ [c]) t (t', False)"
  shows "sunk I conds (IfThenElse c t None) (t', False)"
  using assms by (auto simp: sunk_def)

lemma sunk_IfElse:
  assumes "sunk I (conds @ [c]) t (t', False)" "sunk I (conds @ [NotE c]) s (s', False)"
    and "frozen c t" "all_frozen conds t"
  shows "sunk I conds (IfThenElse c t (Some s)) (make_block t' s', False)"
proof -
  have "exec I (Block t' s') \<rho> \<sigma> = (if holds I conds \<rho> \<sigma> then exec I (IfThenElse c t (Some s)) \<rho> \<sigma> else Some \<sigma>)" for \<rho> \<sigma>
  proof (cases "holds I conds \<rho> \<sigma> \<and> is_true I c \<rho> \<sigma>")
    case True
    show ?thesis
    proof (cases "exec I t \<rho> \<sigma>")
      case None
      with True assms(1) show ?thesis by (simp add: sunk_def)
    next
      case (Some \<tau>)
      have "is_true I c \<rho> \<tau>" using True frozen_eval [OF assms(3) Some, of \<rho>] by (simp add: is_true_def)
      with True Some assms(1,2) show ?thesis by (simp add: sunk_def)
    qed
  next
    case False
    with assms(1,2) show ?thesis by (auto simp: sunk_def)
  qed
  then show ?thesis by (simp add: sunk_def)
qed

lemma sink_sunk:
  assumes "sinkable (conds \<noteq> []) s" "all_frozen conds s"
  shows "sunk I conds s (sink same conds s)"
  using assms
proof (induction s arbitrary: conds)
  case (LetStmt v e b)
  obtain b' eq where b: "sink same conds b = (b', eq)" by fastforce
  from LetStmt.prems have frozen: "all_frozen conds b" "\<And>c. c \<in> set conds \<Longrightarrow> \<not> uses_var v c"
    by (auto simp: all_frozen_def)
  with LetStmt b have "sunk I conds b (b', eq)" by (metis sinkable.simps(3))
  from sunk_wrap [OF this, of "LetStmt v e" "\<lambda>\<rho> \<sigma>. \<rho>(v := eval I e \<rho> \<sigma>)"] b show ?case
    using holds_env [OF frozen(2)] by (simp del: fun_upd_apply)
next
  case (For v m x t b)
  obtain b' eq where b: "sink same conds b = (b', eq)" by fastforce
  from For.prems have frozen: "all_frozen conds b" "\<And>c. c \<in> set conds \<Longrightarrow> \<not> uses_var v c"
    by (auto simp: all_frozen_def)
  with For b have "sunk I conds b (b', eq)" by (metis sinkable.simps(7))
  from sunk_For [OF this frozen] b show ?case by simp
next
  case (Block a b)
  obtain a' eqa b' eqb where r: "sink same conds a = (a', eqa)" "sink same conds b = (b', eqb)" by fastforce
  from Block.prems have "all_frozen conds a" "all_frozen conds b" by (auto simp: all_frozen_def)
  moreover from this Block r have "sunk I conds a (a', eqa)" "sunk I conds b (b', eqb)"
    by (metis sinkable.simps(10))+
  ultimately show ?case using r sunk_Block by simp
next
  case (IfThenElse c t e)
  show ?case
  proof (cases "IsSimpleSelect same t e")
    case True
    then show ?thesis by (simp add: sunk_Encapsulate)
  next
    case False
    obtain t' eqt where t: "sink same (conds @ [c]) t = (t', eqt)" by fastforce
    have "all_frozen (conds @ [c]) t" using IfThenElse.prems by (auto simp: all_frozen_def)
    then have st: "sunk I (conds @ [c]) t (t', eqt)" using IfThenElse.IH(1) [of "conds @ [c]"] IfThenElse.prems(1) t by simp
    then have eqt: "\<not> eqt" by (simp add: sunk_def)
    show ?thesis
    proof (cases e)
      case None
      with False t eqt st sunk_If [of I conds c t t'] show ?thesis by simp
    next
      case (Some s)
      obtain s' eqs where s: "sink same (conds @ [NotE c]) s = (s', eqs)" by fastforce
      have "all_frozen (conds @ [NotE c]) s" using IfThenElse.prems Some by (auto simp: all_frozen_def)
      then have ss: "sunk I (conds @ [NotE c]) s (s', eqs)"
        using IfThenElse.IH(2) [of s "conds @ [NotE c]"] IfThenElse.prems(1) s Some by simp
      then have "\<not> eqs" by (simp add: sunk_def)
      moreover have "frozen c t" "all_frozen conds t" using IfThenElse.prems by (auto simp: all_frozen_def)
      ultimately show ?thesis using False t s eqt st ss Some sunk_IfElse [of I conds c t t' s s'] by simp
    qed
  qed
next
  case (Provide fn i e args)
  then show ?case by (simp add: sunk_Encapsulate)
next
  case (AttrStmt n k e b)
  obtain b' eq where b: "sink same conds b = (b', eq)" by fastforce
  with AttrStmt have "sunk I conds b (b', eq)" by (fastforce simp: all_frozen_def)
  from sunk_wrap [OF this, of "AttrStmt n k e" "\<lambda>\<rho> \<sigma>. \<rho>"] b show ?case by simp
next
  case (ProducerConsumer fn p b)
  obtain b' eq where b: "sink same conds b = (b', eq)" by fastforce
  with ProducerConsumer have "sunk I conds b (b', eq)" by (fastforce simp: all_frozen_def)
  from sunk_wrap [OF this, of "ProducerConsumer fn p" "\<lambda>\<rho> \<sigma>. \<rho>"] b show ?case by simp
next
  case (Allocate v t xs c b n)
  obtain b' eq where b: "sink same conds b = (b', eq)" by fastforce
  with Allocate have "sunk I conds b (b', eq)" by (fastforce simp: all_frozen_def)
  from sunk_wrap [OF this, of "\<lambda>b. Allocate v t xs c b n" "\<lambda>\<rho> \<sigma>. \<rho>"] b show ?case by simp
next
  case (Realize fn i ty bs c b)
  obtain b' eq where b: "sink same conds b = (b', eq)" by fastforce
  with Realize have "sunk I conds b (b', eq)" by (fastforce simp: all_frozen_def)
  from sunk_wrap [OF this, of "Realize fn i ty bs c" "\<lambda>\<rho> \<sigma>. \<rho>"] b show ?case by simp
next
  case (AssertStmt c m b)
  then have "conds = []" by simp
  obtain b' eq where b: "sink same [] b = (b', eq)" by fastforce
  with AssertStmt have "sunk I [] b (b', eq)" by (fastforce simp: all_frozen_def)
  with b \<open>conds = []\<close> show ?case by (auto simp: sunk_def)
qed (auto simp: sunk_def)

text \<open>
  C21: Moving the conditions inwards does not change what a statement does, if below a condition only tensors are
  written and no branch changes what its condition depends on.
\<close>

theorem sink_if_correct:
  assumes "sinkable False s"
  shows "exec I (SinkIfStmt same s) \<rho> \<sigma> = exec I s \<rho> \<sigma>"
  using sink_sunk [of "[]" s I same] assms by (simp add: SinkIfStmt_def sunk_def all_frozen_def)

theorem sink_if_correct_witness:
  "\<forall>same I fn ty \<sigma>. exec I (SinkIfStmt same
     (IfThenElse (Binary B_LT (Variable (Var 1 ''n'' ty)) (IntImm ty 3))
       (For (Var 2 ''i'' ty) (IntImm ty 5) (IntImm ty 1) FT_Serial
         (Provide fn 0 (IntImm ty 7) [Variable (Var 2 ''i'' ty)])) None))
       (\<lambda>_. 2) \<sigma> = Some (write_tensor fn 0 [5] 7 \<sigma>)"
  by (intro allI, subst sink_if_correct) (simp_all add: is_true_def)

text \<open>
  A statement below a condition that writes no tensor loses the condition: beside a write of a tensor it is executed
  whether the condition holds or not.
\<close>

theorem sink_if_drops_guard:
  "SinkIfStmt same (IfThenElse c (Block (Provide fn i e args) (Evaluate x)) None) =
     Block (IfThenElse c (Provide fn i e args) None) (Evaluate x)"
  by (simp add: SinkIfStmt_def Encapsulate_def)

end
