(* ===== verification/Pass_Unify_Vars.thy ===== *)
theory Pass_Unify_Vars
  imports Tvm_Types "HOL-Library.Sublist"
begin

text \<open>
  \<open>pass/unify_loop_vars.cc\<close>: variables are resolved by their names. Each occurrence of a variable
  is replaced by the object that the enclosing binder of that name introduced; a name that is
  bound twice at once or not at all is an error.
\<close>

section \<open>The mutator\<close>

text \<open>\<open>var_map_\<close> and \<open>keep_vars_\<close>.\<close>

record Unify =
  var_map :: "string \<Rightarrow> Var option"
  keep_vars :: "Var list"

definition define_var :: "Var \<Rightarrow> Unify \<Rightarrow> Unify res" where
  "define_var v u =
     (if var_map u (name_hint v) \<noteq> None then Err Fatal
      else Ok (u\<lparr>var_map := (var_map u)(name_hint v := Some v)\<rparr>))"

definition undefine_var :: "Var \<Rightarrow> Unify \<Rightarrow> Unify res" where
  "undefine_var v u =
     (if var_map u (name_hint v) = None then Err Fatal
      else Ok (u\<lparr>var_map := (var_map u)(name_hint v := None)\<rparr>))"

definition unify_var :: "Unify \<Rightarrow> Var \<Rightarrow> Expr res" where
  "unify_var u v =
     (if v \<in> set (keep_vars u) then Ok (Variable v)
      else
        (case var_map u (name_hint v) of
           None \<Rightarrow>
             if name_hint v \<noteq> ''blockIdx.x'' \<and> \<not> sublist ''.db'' (name_hint v) then Err Fatal
             else Ok (Variable v)
         | Some w \<Rightarrow> Ok (Variable w)))"

text \<open>Below an expression the two members are as above it: a \<open>Let\<close> removes the name that it entered.\<close>

fun unify_expr :: "Unify \<Rightarrow> Expr \<Rightarrow> Expr res"
  and unify_exprs :: "Unify \<Rightarrow> Expr list \<Rightarrow> Expr list res" where
  "unify_expr u (Variable v) = unify_var u v"
| "unify_expr u (Cast ty e) = res_bind (unify_expr u e) (\<lambda>e. Ok (Cast ty e))"
| "unify_expr u (Binary p a b) =
     res_bind (unify_expr u a) (\<lambda>a. res_bind (unify_expr u b) (\<lambda>b. Ok (Binary p a b)))"
| "unify_expr u (NotE a) = res_bind (unify_expr u a) (\<lambda>a. Ok (NotE a))"
| "unify_expr u (Select c t e) =
     res_bind (unify_expr u c) (\<lambda>c. res_bind (unify_expr u t) (\<lambda>t. res_bind (unify_expr u e) (\<lambda>e.
       Ok (Select c t e))))"
| "unify_expr u (LoadE ty v i p) =
     res_bind (unify_expr u i) (\<lambda>i. res_bind (unify_expr u p) (\<lambda>p. Ok (LoadE ty v i p)))"
| "unify_expr u (LetE v e b) =
     res_bind (define_var v u) (\<lambda>u. res_bind (unify_expr u e) (\<lambda>e. res_bind (unify_expr u b) (\<lambda>b.
       res_bind (undefine_var v u) (\<lambda>u. Ok (LetE v e b)))))"
| "unify_expr u (CallE ty ct n args fn i) =
     (if ct \<noteq> CT_Halide \<and> n = ''cce_img2col_ub'' then Ok (CallE ty ct n args fn i)
      else res_bind (unify_exprs u args) (\<lambda>args. Ok (CallE ty ct n args fn i)))"
| "unify_expr u e = Ok e"
| "unify_exprs u [] = Ok []"
| "unify_exprs u (e # es) = res_bind (unify_expr u e) (\<lambda>e. res_bind (unify_exprs u es) (\<lambda>es. Ok (e # es)))"

fun unify_bounds :: "Unify \<Rightarrow> (Expr \<times> Expr) list \<Rightarrow> (Expr \<times> Expr) list res" where
  "unify_bounds u [] = Ok []"
| "unify_bounds u ((m, x) # bs) =
     res_bind (unify_expr u m) (\<lambda>m. res_bind (unify_expr u x) (\<lambda>x.
       res_bind (unify_bounds u bs) (\<lambda>bs. Ok ((m, x) # bs))))"

definition unify_option :: "Unify \<Rightarrow> Expr option \<Rightarrow> Expr option res" where
  "unify_option u n = (case n of None \<Rightarrow> Ok None | Some e \<Rightarrow> res_bind (unify_expr u e) (\<lambda>e. Ok (Some e)))"

fun unify_stmt :: "Unify \<Rightarrow> Stmt \<Rightarrow> (Stmt \<times> Unify) res" where
  "unify_stmt u (For v m x t b) =
     res_bind (define_var v u) (\<lambda>u. res_bind (unify_expr u m) (\<lambda>m. res_bind (unify_expr u x) (\<lambda>x.
       res_bind (unify_stmt u b) (\<lambda>(b, u). res_bind (undefine_var v u) (\<lambda>u. Ok (For v m x t b, u))))))"
| "unify_stmt u (LetStmt v e b) =
     res_bind (define_var v u) (\<lambda>u. res_bind (unify_expr u e) (\<lambda>e.
       res_bind (unify_stmt u b) (\<lambda>(b, u). res_bind (undefine_var v u) (\<lambda>u. Ok (LetStmt v e b, u)))))"
| "unify_stmt u (Allocate v t xs c b n) =
     (let u = u\<lparr>keep_vars := v # keep_vars u\<rparr> in
      res_bind (unify_exprs u xs) (\<lambda>xs. res_bind (unify_stmt u b) (\<lambda>(b, u). res_bind (unify_expr u c) (\<lambda>c.
        res_bind (unify_option u n) (\<lambda>n.
          Ok (Allocate v t xs c b n, u\<lparr>keep_vars := removeAll v (keep_vars u)\<rparr>))))))"
| "unify_stmt u (AttrStmt n k e b) =
     res_bind (unify_expr u e) (\<lambda>e. res_bind (unify_stmt u b) (\<lambda>(b, u). Ok (AttrStmt n k e b, u)))"
| "unify_stmt u (AssertStmt c m b) =
     res_bind (unify_expr u c) (\<lambda>c. res_bind (unify_expr u m) (\<lambda>m.
       res_bind (unify_stmt u b) (\<lambda>(b, u). Ok (AssertStmt c m b, u))))"
| "unify_stmt u (ProducerConsumer fn p b) =
     res_bind (unify_stmt u b) (\<lambda>(b, u). Ok (ProducerConsumer fn p b, u))"
| "unify_stmt u (Store v e i p) =
     res_bind (unify_expr u e) (\<lambda>e. res_bind (unify_expr u i) (\<lambda>i. res_bind (unify_expr u p) (\<lambda>p.
       Ok (Store v e i p, u))))"
| "unify_stmt u (Provide fn i e args) =
     res_bind (unify_exprs u args) (\<lambda>args. res_bind (unify_expr u e) (\<lambda>e. Ok (Provide fn i e args, u)))"
| "unify_stmt u (FreeStmt v) = Ok (FreeStmt v, u)"
| "unify_stmt u (Realize fn i ty bs c b) =
     res_bind (unify_bounds u bs) (\<lambda>bs. res_bind (unify_stmt u b) (\<lambda>(b, u). res_bind (unify_expr u c) (\<lambda>c.
       Ok (Realize fn i ty bs c b, u))))"
| "unify_stmt u (Prefetch fn i ty bs) = res_bind (unify_bounds u bs) (\<lambda>bs. Ok (Prefetch fn i ty bs, u))"
| "unify_stmt u (Block a b) =
     res_bind (unify_stmt u a) (\<lambda>(a, u). res_bind (unify_stmt u b) (\<lambda>(b, u). Ok (make_block a b, u)))"
| "unify_stmt u (IfThenElse c t e) =
     res_bind (unify_expr u c) (\<lambda>c. res_bind (unify_stmt u t) (\<lambda>(t, u).
       (case e of
          None \<Rightarrow> Ok (IfThenElse c t None, u)
        | Some s \<Rightarrow> res_bind (unify_stmt u s) (\<lambda>(s, u). Ok (IfThenElse c t (Some s), u)))))"
| "unify_stmt u (Evaluate e) = res_bind (unify_expr u e) (\<lambda>e. Ok (Evaluate e, u))"

section \<open>The pass\<close>

text \<open>A tensor of the program with the shapes of tensor and buffer and the buffer's data; an argument
  counts if it is a variable.\<close>

type_synonym ExternBuffer = "Expr list \<times> Expr list \<times> Var"

fun gather_vars :: "Expr \<Rightarrow> Var list" where
  "gather_vars (Variable v) = [v]"
| "gather_vars (Cast ty e) = gather_vars e"
| "gather_vars (Binary p a b) = gather_vars a @ gather_vars b"
| "gather_vars (NotE a) = gather_vars a"
| "gather_vars (Select c t e) = gather_vars c @ gather_vars t @ gather_vars e"
| "gather_vars (LoadE ty v i p) = gather_vars i @ gather_vars p"
| "gather_vars (LetE v e b) = gather_vars e @ gather_vars b"
| "gather_vars (CallE ty ct n args fn i) = concat (map gather_vars args)"
| "gather_vars e = []"

definition start_vars :: "ExternBuffer list \<Rightarrow> Expr list \<Rightarrow> Var list" where
  "start_vars bufs args =
     remdups (concat (map (\<lambda>(ts, bs, d). concat (map gather_vars (ts @ bs))) bufs) @
       concat (map (\<lambda>a. case a of Variable v \<Rightarrow> [v] | _ \<Rightarrow> []) args))"

definition UnifyLoopVarsMutator :: "ExternBuffer list \<Rightarrow> Expr list \<Rightarrow> Unify res" where
  "UnifyLoopVarsMutator bufs args =
     for_each define_var (start_vars bufs args) \<lparr>var_map = (\<lambda>_. None), keep_vars = map (\<lambda>(ts, bs, d). d) bufs\<rparr>"

definition UnifyLoopVars :: "Stmt \<Rightarrow> ExternBuffer list \<Rightarrow> Expr list \<Rightarrow> Stmt res" where
  "UnifyLoopVars s bufs args =
     res_bind (UnifyLoopVarsMutator bufs args) (\<lambda>u. res_bind (unify_stmt u s) (\<lambda>(s, u). Ok s))"

section \<open>Resolved statements\<close>

text \<open>Every occurrence of a variable satisfies \<open>P\<close> or is the object of a binder around it; the
  arguments of one intrinsic are left alone.\<close>

fun resolved_expr :: "(Var \<Rightarrow> bool) \<Rightarrow> Expr \<Rightarrow> bool" where
  "resolved_expr P (Variable v) = P v"
| "resolved_expr P (Cast ty e) = resolved_expr P e"
| "resolved_expr P (Binary p a b) \<longleftrightarrow> resolved_expr P a \<and> resolved_expr P b"
| "resolved_expr P (NotE a) = resolved_expr P a"
| "resolved_expr P (Select c t e) \<longleftrightarrow> resolved_expr P c \<and> resolved_expr P t \<and> resolved_expr P e"
| "resolved_expr P (LoadE ty v i p) \<longleftrightarrow> resolved_expr P i \<and> resolved_expr P p"
| "resolved_expr P (LetE v e b) \<longleftrightarrow>
     resolved_expr (\<lambda>w. w = v \<or> P w) e \<and> resolved_expr (\<lambda>w. w = v \<or> P w) b"
| "resolved_expr P (CallE ty ct n args fn i) \<longleftrightarrow>
     ct \<noteq> CT_Halide \<and> n = ''cce_img2col_ub'' \<or> list_all (resolved_expr P) args"
| "resolved_expr P e = True"

fun resolved_stmt :: "(Var \<Rightarrow> bool) \<Rightarrow> Stmt \<Rightarrow> bool" where
  "resolved_stmt P (LetStmt v e b) \<longleftrightarrow>
     resolved_expr (\<lambda>w. w = v \<or> P w) e \<and> resolved_stmt (\<lambda>w. w = v \<or> P w) b"
| "resolved_stmt P (AttrStmt n k e b) \<longleftrightarrow> resolved_expr P e \<and> resolved_stmt P b"
| "resolved_stmt P (AssertStmt c m b) \<longleftrightarrow> resolved_expr P c \<and> resolved_expr P m \<and> resolved_stmt P b"
| "resolved_stmt P (ProducerConsumer fn p b) = resolved_stmt P b"
| "resolved_stmt P (For v m x t b) \<longleftrightarrow> resolved_expr (\<lambda>w. w = v \<or> P w) m \<and>
     resolved_expr (\<lambda>w. w = v \<or> P w) x \<and> resolved_stmt (\<lambda>w. w = v \<or> P w) b"
| "resolved_stmt P (Store v e i p) \<longleftrightarrow> resolved_expr P e \<and> resolved_expr P i \<and> resolved_expr P p"
| "resolved_stmt P (Provide fn i e args) \<longleftrightarrow> resolved_expr P e \<and> list_all (resolved_expr P) args"
| "resolved_stmt P (Allocate v t xs c b n) \<longleftrightarrow> list_all (resolved_expr (\<lambda>w. w = v \<or> P w)) xs \<and>
     resolved_expr (\<lambda>w. w = v \<or> P w) c \<and> resolved_stmt (\<lambda>w. w = v \<or> P w) b \<and>
     (case n of Some e \<Rightarrow> resolved_expr (\<lambda>w. w = v \<or> P w) e | None \<Rightarrow> True)"
| "resolved_stmt P (FreeStmt v) = True"
| "resolved_stmt P (Realize fn i ty bs c b) \<longleftrightarrow>
     list_all (\<lambda>(m, x). resolved_expr P m \<and> resolved_expr P x) bs \<and> resolved_expr P c \<and> resolved_stmt P b"
| "resolved_stmt P (Prefetch fn i ty bs) = list_all (\<lambda>(m, x). resolved_expr P m \<and> resolved_expr P x) bs"
| "resolved_stmt P (Block a b) \<longleftrightarrow> resolved_stmt P a \<and> resolved_stmt P b"
| "resolved_stmt P (IfThenElse c t e) \<longleftrightarrow>
     resolved_expr P c \<and> resolved_stmt P t \<and> (case e of Some s \<Rightarrow> resolved_stmt P s | None \<Rightarrow> True)"
| "resolved_stmt P (Evaluate e) = resolved_expr P e"

lemma resolved_make_block [simp]: "resolved_stmt P (make_block a b) \<longleftrightarrow> resolved_stmt P a \<and> resolved_stmt P b"
  by (induction a b rule: make_block.induct) auto

text \<open>Names that may stay unbound, and the objects in scope.\<close>

definition exempt :: "Var \<Rightarrow> bool" where
  "exempt v \<longleftrightarrow> name_hint v = ''blockIdx.x'' \<or> sublist ''.db'' (name_hint v)"

definition scope_within :: "Unify \<Rightarrow> (Var \<Rightarrow> bool) \<Rightarrow> bool" where
  "scope_within u P \<longleftrightarrow>
     (\<forall>v. v \<in> set (keep_vars u) \<or> exempt v \<longrightarrow> P v) \<and> (\<forall>n v. var_map u n = Some v \<longrightarrow> P v)"

lemma define_var_Ok:
  "define_var v u = Ok u' \<longleftrightarrow>
     var_map u (name_hint v) = None \<and> u' = u\<lparr>var_map := (var_map u)(name_hint v := Some v)\<rparr>"
  by (auto simp: define_var_def)

lemma undefine_var_Ok:
  "undefine_var v u = Ok u' \<longleftrightarrow>
     var_map u (name_hint v) \<noteq> None \<and> u' = u\<lparr>var_map := (var_map u)(name_hint v := None)\<rparr>"
  by (auto simp: undefine_var_def)

lemma scope_define:
  "scope_within u P \<Longrightarrow> define_var v u = Ok u' \<Longrightarrow> scope_within u' (\<lambda>w. w = v \<or> P w)"
  by (auto simp: scope_within_def define_var_Ok split: if_splits)

lemma unify_var_scope: "unify_var u v = Ok e \<Longrightarrow> scope_within u P \<Longrightarrow> resolved_expr P e"
  by (auto simp: unify_var_def scope_within_def exempt_def split: if_splits option.splits)

lemma unify_expr_resolved:
  "unify_expr u e = Ok e' \<Longrightarrow> scope_within u P \<Longrightarrow> resolved_expr P e'"
  "unify_exprs u es = Ok es' \<Longrightarrow> scope_within u P \<Longrightarrow> list_all (resolved_expr P) es'"
proof (induction u e and u es arbitrary: P e' and P es' rule: unify_expr_unify_exprs.induct)
  case (7 u v e b)
  then show ?case by (auto simp: res_bind_Ok_conv dest: scope_define)
qed (auto simp: res_bind_Ok_conv unify_var_scope split: if_splits)

lemma unify_bounds_resolved:
  "unify_bounds u bs = Ok bs' \<Longrightarrow> scope_within u P \<Longrightarrow>
     list_all (\<lambda>(m, x). resolved_expr P m \<and> resolved_expr P x) bs'"
  by (induction u bs arbitrary: bs' rule: unify_bounds.induct) (auto simp: res_bind_Ok_conv unify_expr_resolved)

definition restored :: "Unify \<Rightarrow> Unify \<Rightarrow> bool" where
  "restored u u' \<longleftrightarrow> var_map u' = var_map u \<and> set (keep_vars u') \<subseteq> set (keep_vars u)"

lemma restored_refl [simp]: "restored u u"
  by (simp add: restored_def)

lemma restored_trans: "restored u u1 \<Longrightarrow> restored u1 u2 \<Longrightarrow> restored u u2"
  by (auto simp: restored_def)

lemma restored_scope: "restored u u' \<Longrightarrow> scope_within u P \<Longrightarrow> scope_within u' P"
  unfolding restored_def scope_within_def by auto

lemma restored_bind:
  assumes "define_var v u = Ok u1" "restored u1 u2" "undefine_var v u2 = Ok u3"
  shows "restored u u3"
  using assms by (auto simp: restored_def define_var_Ok undefine_var_Ok intro!: ext)

lemma unify_stmt_resolved:
  "unify_stmt u s = Ok (s', u') \<Longrightarrow> scope_within u P \<Longrightarrow> resolved_stmt P s' \<and> restored u u'"
proof (induction s arbitrary: u s' u' P)
  case (For v m x t b)
  then obtain u1 m' x' b' u2 where r: "define_var v u = Ok u1" "unify_expr u1 m = Ok m'" "unify_expr u1 x = Ok x'"
    "unify_stmt u1 b = Ok (b', u2)" "undefine_var v u2 = Ok u'" "s' = For v m' x' t b'"
    by (auto simp: res_bind_Ok_conv)
  have scope: "scope_within u1 (\<lambda>w. w = v \<or> P w)" using For.prems(2) r(1) by (rule scope_define)
  from For.IH [OF r(4) scope] r scope show ?case by (auto simp: unify_expr_resolved restored_bind)
next
  case (LetStmt v e b)
  then obtain u1 e' b' u2 where r: "define_var v u = Ok u1" "unify_expr u1 e = Ok e'"
    "unify_stmt u1 b = Ok (b', u2)" "undefine_var v u2 = Ok u'" "s' = LetStmt v e' b'"
    by (auto simp: res_bind_Ok_conv)
  have scope: "scope_within u1 (\<lambda>w. w = v \<or> P w)" using LetStmt.prems(2) r(1) by (rule scope_define)
  from LetStmt.IH [OF r(3) scope] r scope show ?case by (auto simp: unify_expr_resolved restored_bind)
next
  case (Block a b)
  then obtain a' u1 b' where r: "unify_stmt u a = Ok (a', u1)" "unify_stmt u1 b = Ok (b', u')" "s' = make_block a' b'"
    by (auto simp: res_bind_Ok_conv)
  from Block.IH(1) [OF r(1)] Block.IH(2) [OF r(2)] Block.prems(2) r(3) show ?case
    by (auto intro: restored_trans restored_scope)
next
  case (IfThenElse c t e)
  then obtain c' t' u1 where r: "unify_expr u c = Ok c'" "unify_stmt u t = Ok (t', u1)"
    by (auto simp: res_bind_Ok_conv)
  note t = IfThenElse.IH(1) [OF r(2)]
  show ?case
  proof (cases e)
    case None
    with r t IfThenElse.prems show ?thesis by (auto simp: unify_expr_resolved)
  next
    case (Some s)
    with r IfThenElse.prems obtain s'' where e: "unify_stmt u1 s = Ok (s'', u')" "s' = IfThenElse c' t' (Some s'')"
      by (auto simp: res_bind_Ok_conv)
    have t': "resolved_stmt P t'" "restored u u1" using t IfThenElse.prems(2) by blast+
    then have "scope_within u1 P" using IfThenElse.prems(2) by (blast intro: restored_scope)
    with IfThenElse.IH(2) [OF _ e(1)] Some have "resolved_stmt P s''" "restored u1 u'" by auto
    with t' Some e(2) r(1) IfThenElse.prems(2) show ?thesis by (auto simp: unify_expr_resolved intro: restored_trans)
  qed
next
  case (Allocate v t xs c b n)
  let ?u = "u\<lparr>keep_vars := v # keep_vars u\<rparr>" and ?P = "\<lambda>w. w = v \<or> P w"
  have scope: "scope_within ?u ?P" using Allocate.prems(2) by (auto simp: scope_within_def)
  from Allocate.prems obtain xs' b' u1 c' n' where r: "unify_exprs ?u xs = Ok xs'" "unify_stmt ?u b = Ok (b', u1)"
    "unify_expr u1 c = Ok c'" "unify_option u1 n = Ok n'" "s' = Allocate v t xs' c' b' n'"
    "u' = u1\<lparr>keep_vars := removeAll v (keep_vars u1)\<rparr>"
    by (auto simp: res_bind_Ok_conv Let_def)
  from Allocate.IH [OF r(2) scope] have b: "resolved_stmt ?P b'" "restored ?u u1" by auto
  then have "scope_within u1 ?P" using scope by (blast intro: restored_scope)
  with r scope b show ?case
    by (auto simp: unify_expr_resolved unify_option_def restored_def res_bind_Ok_conv split: option.splits)
next
  case (Realize fn i ty bs c b)
  then obtain bs' b' c' where r: "unify_bounds u bs = Ok bs'" "unify_stmt u b = Ok (b', u')"
    "unify_expr u' c = Ok c'" "s' = Realize fn i ty bs' c' b'"
    by (auto simp: res_bind_Ok_conv)
  from Realize.IH [OF r(2) Realize.prems(2)] have b: "resolved_stmt P b'" "restored u u'" by auto
  then have "scope_within u' P" using Realize.prems(2) by (blast intro: restored_scope)
  with r b Realize.prems(2) show ?case by (auto simp: unify_expr_resolved dest: unify_bounds_resolved)
qed (auto simp: res_bind_Ok_conv unify_expr_resolved unify_bounds_resolved intro: restored_scope)

section \<open>Running the pass again, and what it leaves alone\<close>

definition names_match :: "Unify \<Rightarrow> bool" where
  "names_match u \<longleftrightarrow> (\<forall>n v. var_map u n = Some v \<longrightarrow> name_hint v = n)"

lemma names_define: "names_match u \<Longrightarrow> define_var v u = Ok u' \<Longrightarrow> names_match u'"
  by (auto simp: names_match_def define_var_Ok split: if_splits)

lemma names_undefine: "names_match u \<Longrightarrow> undefine_var v u = Ok u' \<Longrightarrow> names_match u'"
  by (auto simp: names_match_def undefine_var_Ok split: if_splits)

lemma names_restored: "restored u u' \<Longrightarrow> names_match u \<Longrightarrow> names_match u'"
  by (simp add: names_match_def restored_def)

definition stable_expr :: "Unify \<Rightarrow> Expr \<Rightarrow> bool" where
  "stable_expr u e \<longleftrightarrow> unify_expr u e = Ok e"

definition stable_stmt :: "Unify \<Rightarrow> Stmt \<Rightarrow> Unify \<Rightarrow> bool" where
  "stable_stmt u s u' \<longleftrightarrow> unify_stmt u s = Ok (s, u')"

lemma unify_exprs_stable: "unify_exprs u es = Ok es \<longleftrightarrow> list_all (stable_expr u) es"
  by (induction es) (auto simp: stable_expr_def res_bind_Ok_conv)

lemma stable_expr_simps [simp]:
  "stable_expr u (Cast ty e) = stable_expr u e"
  "stable_expr u (Binary p a b) \<longleftrightarrow> stable_expr u a \<and> stable_expr u b"
  "stable_expr u (NotE a) = stable_expr u a"
  "stable_expr u (Select c t e) \<longleftrightarrow> stable_expr u c \<and> stable_expr u t \<and> stable_expr u e"
  "stable_expr u (LoadE ty v i q) \<longleftrightarrow> stable_expr u i \<and> stable_expr u q"
  "stable_expr u (LetE v e b) \<longleftrightarrow>
     (\<exists>u1 u2. define_var v u = Ok u1 \<and> stable_expr u1 e \<and> stable_expr u1 b \<and> undefine_var v u1 = Ok u2)"
  "stable_expr u (CallE ty ct n args fn k) \<longleftrightarrow>
     ct \<noteq> CT_Halide \<and> n = ''cce_img2col_ub'' \<or> list_all (stable_expr u) args"
  "stable_expr u (IntImm ty z)" "stable_expr u (UIntImm ty w)" "stable_expr u (FloatImm ty f)" "stable_expr u (StringImm str)"
  by (auto simp: stable_expr_def res_bind_Ok_conv unify_exprs_stable [symmetric])

lemma unify_var_again: "unify_var u v = Ok e \<Longrightarrow> names_match u \<Longrightarrow> stable_expr u e"
  by (auto simp: stable_expr_def unify_var_def names_match_def split: if_splits option.splits)

lemma unify_expr_again:
  "unify_expr u e = Ok e' \<Longrightarrow> names_match u \<Longrightarrow> stable_expr u e'"
  "unify_exprs u es = Ok es' \<Longrightarrow> names_match u \<Longrightarrow> list_all (stable_expr u) es'"
proof (induction u e and u es arbitrary: e' and es' rule: unify_expr_unify_exprs.induct)
  case (7 u v e b)
  then obtain u1 e1 b1 u2 where r: "define_var v u = Ok u1" "unify_expr u1 e = Ok e1" "unify_expr u1 b = Ok b1"
    "undefine_var v u1 = Ok u2" "e' = LetE v e1 b1"
    by (auto simp: res_bind_Ok_conv)
  moreover have "names_match u1" using 7(4) r(1) by (rule names_define)
  ultimately show ?case using 7(1,2) by auto
qed (auto simp: res_bind_Ok_conv unify_var_again split: if_splits)

lemma unify_bounds_stable:
  "unify_bounds u bs = Ok bs \<longleftrightarrow> list_all (\<lambda>(m, x). stable_expr u m \<and> stable_expr u x) bs"
  by (induction bs) (auto simp: stable_expr_def res_bind_Ok_conv)

lemma unify_bounds_again:
  "unify_bounds u bs = Ok bs' \<Longrightarrow> names_match u \<Longrightarrow> list_all (\<lambda>(m, x). stable_expr u m \<and> stable_expr u x) bs'"
  by (induction u bs arbitrary: bs' rule: unify_bounds.induct) (auto simp: res_bind_Ok_conv unify_expr_again)

lemma unify_make_block: "unify_stmt u (make_block a b) = unify_stmt u (Block a b)"
proof (induction a b arbitrary: u rule: make_block.induct)
  case (1 a b c)
  then show ?case
    by (simp add: res_bind_def make_block_assoc split: res.split prod.split)
qed simp_all

lemma stable_stmt_simps [simp]:
  "stable_stmt u (LetStmt v e b) u' \<longleftrightarrow>
     (\<exists>u1 u2. define_var v u = Ok u1 \<and> stable_expr u1 e \<and> stable_stmt u1 b u2 \<and> undefine_var v u2 = Ok u')"
  "stable_stmt u (AttrStmt nd key e b) u' \<longleftrightarrow> stable_expr u e \<and> stable_stmt u b u'"
  "stable_stmt u (AssertStmt c m b) u' \<longleftrightarrow> stable_expr u c \<and> stable_expr u m \<and> stable_stmt u b u'"
  "stable_stmt u (ProducerConsumer fn p b) u' \<longleftrightarrow> stable_stmt u b u'"
  "stable_stmt u (For v m x ft b) u' \<longleftrightarrow>
     (\<exists>u1 u2. define_var v u = Ok u1 \<and> stable_expr u1 m \<and> stable_expr u1 x \<and> stable_stmt u1 b u2 \<and>
        undefine_var v u2 = Ok u')"
  "stable_stmt u (Store v e i q) u' \<longleftrightarrow> stable_expr u e \<and> stable_expr u i \<and> stable_expr u q \<and> u' = u"
  "stable_stmt u (Provide fn k e args) u' \<longleftrightarrow> stable_expr u e \<and> list_all (stable_expr u) args \<and> u' = u"
  "stable_stmt u (FreeStmt v) u' \<longleftrightarrow> u' = u"
  "stable_stmt u (Realize fn k ty bs c b) u' \<longleftrightarrow>
     list_all (\<lambda>(m, x). stable_expr u m \<and> stable_expr u x) bs \<and> stable_stmt u b u' \<and> stable_expr u' c"
  "stable_stmt u (Prefetch fn k ty bs) u' \<longleftrightarrow> list_all (\<lambda>(m, x). stable_expr u m \<and> stable_expr u x) bs \<and> u' = u"
  "stable_stmt u (IfThenElse c t None) u' \<longleftrightarrow> stable_expr u c \<and> stable_stmt u t u'"
  "stable_stmt u (IfThenElse c t (Some s)) u' \<longleftrightarrow>
     stable_expr u c \<and> (\<exists>u1. stable_stmt u t u1 \<and> stable_stmt u1 s u')"
  "stable_stmt u (Evaluate e) u' \<longleftrightarrow> stable_expr u e \<and> u' = u"
  by (auto simp: stable_stmt_def stable_expr_def res_bind_Ok_conv unify_exprs_stable unify_bounds_stable)

lemma stable_Allocate [simp]:
  "stable_stmt u (Allocate v t xs c b n) u' \<longleftrightarrow>
     (\<exists>u1. list_all (stable_expr (u\<lparr>keep_vars := v # keep_vars u\<rparr>)) xs \<and>
        stable_stmt (u\<lparr>keep_vars := v # keep_vars u\<rparr>) b u1 \<and> stable_expr u1 c \<and>
        (case n of Some e \<Rightarrow> stable_expr u1 e | None \<Rightarrow> True) \<and> u' = u1\<lparr>keep_vars := removeAll v (keep_vars u1)\<rparr>)"
  by (cases n) (auto simp: stable_stmt_def stable_expr_def res_bind_Ok_conv unify_exprs_stable [symmetric]
      unify_option_def Let_def)

lemma stable_make_block:
  "stable_stmt u a u1 \<Longrightarrow> stable_stmt u1 b u' \<Longrightarrow> stable_stmt u (make_block a b) u'"
  by (simp add: stable_stmt_def unify_make_block)

text \<open>A tree in which the occurrences of variables are told apart by their names only.\<close>

fun forget_expr :: "Expr \<Rightarrow> Expr" where
  "forget_expr (Variable v) = Variable (Var 0 (name_hint v) (Int_type 32))"
| "forget_expr (Cast ty e) = Cast ty (forget_expr e)"
| "forget_expr (Binary p a b) = Binary p (forget_expr a) (forget_expr b)"
| "forget_expr (NotE a) = NotE (forget_expr a)"
| "forget_expr (Select c t e) = Select (forget_expr c) (forget_expr t) (forget_expr e)"
| "forget_expr (LoadE ty v i p) = LoadE ty v (forget_expr i) (forget_expr p)"
| "forget_expr (LetE v e b) = LetE v (forget_expr e) (forget_expr b)"
| "forget_expr (CallE ty ct n args fn i) = CallE ty ct n (map forget_expr args) fn i"
| "forget_expr e = e"

fun forget_stmt :: "Stmt \<Rightarrow> Stmt" where
  "forget_stmt (LetStmt v e b) = LetStmt v (forget_expr e) (forget_stmt b)"
| "forget_stmt (AttrStmt n k e b) = AttrStmt n k (forget_expr e) (forget_stmt b)"
| "forget_stmt (AssertStmt c m b) = AssertStmt (forget_expr c) (forget_expr m) (forget_stmt b)"
| "forget_stmt (ProducerConsumer fn p b) = ProducerConsumer fn p (forget_stmt b)"
| "forget_stmt (For v m x t b) = For v (forget_expr m) (forget_expr x) t (forget_stmt b)"
| "forget_stmt (Store v e i p) = Store v (forget_expr e) (forget_expr i) (forget_expr p)"
| "forget_stmt (Provide fn i e args) = Provide fn i (forget_expr e) (map forget_expr args)"
| "forget_stmt (Allocate v t xs c b n) =
     Allocate v t (map forget_expr xs) (forget_expr c) (forget_stmt b) (map_option forget_expr n)"
| "forget_stmt (FreeStmt v) = FreeStmt v"
| "forget_stmt (Realize fn i ty bs c b) =
     Realize fn i ty (map (map_prod forget_expr forget_expr) bs) (forget_expr c) (forget_stmt b)"
| "forget_stmt (Prefetch fn i ty bs) = Prefetch fn i ty (map (map_prod forget_expr forget_expr) bs)"
| "forget_stmt (Block a b) = make_block (forget_stmt a) (forget_stmt b)"
| "forget_stmt (IfThenElse c t e) = IfThenElse (forget_expr c) (forget_stmt t) (map_option forget_stmt e)"
| "forget_stmt (Evaluate e) = Evaluate (forget_expr e)"

lemma forget_make_block [simp]: "forget_stmt (make_block a b) = make_block (forget_stmt a) (forget_stmt b)"
  by (induction a b rule: make_block.induct) (auto simp: make_block_assoc)

lemma unify_var_name: "unify_var u v = Ok e \<Longrightarrow> names_match u \<Longrightarrow> forget_expr e = forget_expr (Variable v)"
  by (auto simp: unify_var_def names_match_def split: if_splits option.splits)

lemma unify_expr_names:
  "unify_expr u e = Ok e' \<Longrightarrow> names_match u \<Longrightarrow> forget_expr e' = forget_expr e"
  "unify_exprs u es = Ok es' \<Longrightarrow> names_match u \<Longrightarrow> map forget_expr es' = map forget_expr es"
proof (induction u e and u es arbitrary: e' and es' rule: unify_expr_unify_exprs.induct)
  case (1 u v)
  then show ?case using unify_var_name by simp
next
  case (7 u v e b)
  then obtain u1 e1 b1 u2 where r: "define_var v u = Ok u1" "unify_expr u1 e = Ok e1" "unify_expr u1 b = Ok b1"
    "undefine_var v u1 = Ok u2" "e' = LetE v e1 b1"
    by (auto simp: res_bind_Ok_conv)
  moreover have "names_match u1" using 7(4) r(1) by (rule names_define)
  ultimately show ?case using 7(1,2) by simp
qed (auto simp: res_bind_Ok_conv split: if_splits)

lemma unify_bounds_names:
  "unify_bounds u bs = Ok bs' \<Longrightarrow> names_match u \<Longrightarrow>
     map (map_prod forget_expr forget_expr) bs' = map (map_prod forget_expr forget_expr) bs"
  by (induction u bs arbitrary: bs' rule: unify_bounds.induct) (auto simp: res_bind_Ok_conv unify_expr_names)

lemma unify_again:
  "unify_expr u e = Ok e' \<Longrightarrow> names_match u \<Longrightarrow> stable_expr u e' \<and> forget_expr e' = forget_expr e"
  "unify_exprs u es = Ok es' \<Longrightarrow> names_match u \<Longrightarrow>
     list_all (stable_expr u) es' \<and> map forget_expr es' = map forget_expr es"
  using unify_expr_again unify_expr_names by blast+

lemma unify_stmt_again:
  "unify_stmt u s = Ok (s', u') \<Longrightarrow> names_match u \<Longrightarrow>
     stable_stmt u s' u' \<and> names_match u' \<and> forget_stmt s' = forget_stmt s"
proof (induction s arbitrary: u s' u')
  case (Block a b)
  then obtain a' u1 b' where r: "unify_stmt u a = Ok (a', u1)" "unify_stmt u1 b = Ok (b', u')" "s' = make_block a' b'"
    by (auto simp: res_bind_Ok_conv)
  from Block.IH(1) [OF r(1) Block.prems(2)] Block.IH(2) [OF r(2)] r(3) show ?case
    by (auto intro: stable_make_block)
next
  case (IfThenElse c t e)
  then obtain c' t' u1 where r: "unify_expr u c = Ok c'" "unify_stmt u t = Ok (t', u1)"
    by (auto simp: res_bind_Ok_conv)
  note t = IfThenElse.IH(1) [OF r(2) IfThenElse.prems(2)]
  show ?case
  proof (cases e)
    case None
    with r t IfThenElse.prems show ?thesis by (auto simp: unify_again)
  next
    case (Some s)
    with r IfThenElse.prems obtain s'' where e: "unify_stmt u1 s = Ok (s'', u')" "s' = IfThenElse c' t' (Some s'')"
      by (auto simp: res_bind_Ok_conv)
    from IfThenElse.IH(2) [OF _ e(1)] Some t e(2) r(1) IfThenElse.prems(2) show ?thesis
      by (auto simp: unify_again)
  qed
next
  case (For v m x t b)
  then obtain u1 m' x' b' u2 where r: "define_var v u = Ok u1" "unify_expr u1 m = Ok m'" "unify_expr u1 x = Ok x'"
    "unify_stmt u1 b = Ok (b', u2)" "undefine_var v u2 = Ok u'" "s' = For v m' x' t b'"
    by (auto simp: res_bind_Ok_conv)
  have "names_match u1" using For.prems(2) r(1) by (rule names_define)
  with For.IH [OF r(4)] r show ?case using unify_again(1) names_undefine by auto
next
  case (LetStmt v e b)
  then obtain u1 e' b' u2 where r: "define_var v u = Ok u1" "unify_expr u1 e = Ok e'"
    "unify_stmt u1 b = Ok (b', u2)" "undefine_var v u2 = Ok u'" "s' = LetStmt v e' b'"
    by (auto simp: res_bind_Ok_conv)
  have "names_match u1" using LetStmt.prems(2) r(1) by (rule names_define)
  with LetStmt.IH [OF r(3)] r show ?case using unify_again(1) names_undefine by auto
next
  case (Allocate v t xs c b n)
  let ?u = "u\<lparr>keep_vars := v # keep_vars u\<rparr>"
  have names: "names_match ?u" using Allocate.prems(2) by (simp add: names_match_def)
  from Allocate.prems obtain xs' b' u1 c' n' where r: "unify_exprs ?u xs = Ok xs'" "unify_stmt ?u b = Ok (b', u1)"
    "unify_expr u1 c = Ok c'" "unify_option u1 n = Ok n'" "s' = Allocate v t xs' c' b' n'"
    "u' = u1\<lparr>keep_vars := removeAll v (keep_vars u1)\<rparr>"
    by (auto simp: res_bind_Ok_conv Let_def)
  from Allocate.IH [OF r(2) names] r names show ?case
    by (auto simp: unify_again unify_option_def names_match_def res_bind_Ok_conv split: option.splits)
qed (auto simp: res_bind_Ok_conv unify_again unify_bounds_again unify_bounds_names)

section \<open>The pass\<close>

lemma for_each_define:
  assumes "for_each define_var vs u = Ok u'"
  shows "(names_match u \<longrightarrow> names_match u') \<and> keep_vars u' = keep_vars u \<and>
    (\<forall>n v. var_map u' n = Some v \<longrightarrow> var_map u n = Some v \<or> v \<in> set vs)"
  using assms
proof (induction vs arbitrary: u)
  case (Cons v vs)
  then obtain u1 where u1: "define_var v u = Ok u1" "for_each define_var vs u1 = Ok u'"
    by (auto simp: res_bind_Ok_conv)
  have "w = v \<or> var_map u n = Some w" if "var_map u1 n = Some w" for n w
    using that u1(1) by (auto simp: define_var_Ok split: if_splits)
  moreover have "keep_vars u1 = keep_vars u" using u1(1) by (auto simp: define_var_Ok)
  ultimately show ?case using Cons.IH [OF u1(2)] names_define [OF _ u1(1)] by fastforce
qed simp

text \<open>The objects that a statement may mention without binding them.\<close>

definition known_var :: "ExternBuffer list \<Rightarrow> Expr list \<Rightarrow> Var \<Rightarrow> bool" where
  "known_var bufs args v \<longleftrightarrow>
     v \<in> set (start_vars bufs args) \<or> v \<in> set (map (\<lambda>(ts, bs, d). d) bufs) \<or> exempt v"

text \<open>
  C27: When the pass succeeds, it has changed nothing but which object an occurrence of a variable refers to
  (\<open>forget_stmt\<close>: names, binders, buffers, functions, operators, immediates and the nesting stay), a second
  run changes nothing, and every occurrence is resolved: it is the object of a binder around it or
  a variable of the program's arguments and shapes. Three kinds of occurrence the pass leaves as they are,
  and they are excepted: the data variable of a buffer of the program, a variable whose name is
  \<open>blockIdx.x\<close> or contains \<open>.db\<close> (\<open>exempt\<close>), and whatever stands below a call of
  \<open>cce_img2col_ub\<close>.
\<close>

theorem unify_loop_vars_resolves:
  assumes "UnifyLoopVars s bufs args = Ok s'"
  shows "resolved_stmt (known_var bufs args) s' \<and> forget_stmt s' = forget_stmt s \<and> UnifyLoopVars s' bufs args = Ok s'"
proof -
  from assms obtain u u' where u: "UnifyLoopVarsMutator bufs args = Ok u" and run: "unify_stmt u s = Ok (s', u')"
    by (auto simp: UnifyLoopVars_def res_bind_Ok_conv)
  note start = for_each_define [OF u [unfolded UnifyLoopVarsMutator_def]]
  then have "scope_within u (known_var bufs args)" by (auto simp: scope_within_def known_var_def)
  then have "resolved_stmt (known_var bufs args) s'" using unify_stmt_resolved [OF run] by simp
  moreover have "names_match u" using start by (simp add: names_match_def)
  then have "unify_stmt u s' = Ok (s', u') \<and> forget_stmt s' = forget_stmt s"
    using unify_stmt_again [OF run] by (simp add: stable_stmt_def)
  ultimately show ?thesis using u by (simp add: UnifyLoopVars_def)
qed

text \<open>A loop whose body mentions another object of the name of its variable.\<close>

definition stray_loop :: "Var \<Rightarrow> Stmt" where
  "stray_loop w =
     For (Var 1 ''i'' (Int_type 32)) (IntImm (Int_type 32) 0) (IntImm (Int_type 32) 4) FT_Serial (Evaluate (Variable w))"

lemma stray_resolved:
  "UnifyLoopVars (stray_loop (Var 7 ''i'' (Int_type 32))) [] [] = Ok (stray_loop (Var 1 ''i'' (Int_type 32)))"
  by code_simp

theorem unify_loop_vars_resolves_witness:
  "resolved_stmt (\<lambda>v. exempt v) (stray_loop (Var 1 ''i'' (Int_type 32))) \<and>
   forget_stmt (stray_loop (Var 1 ''i'' (Int_type 32))) = forget_stmt (stray_loop (Var 7 ''i'' (Int_type 32))) \<and>
   UnifyLoopVars (stray_loop (Var 1 ''i'' (Int_type 32))) [] [] = Ok (stray_loop (Var 1 ''i'' (Int_type 32)))"
  using unify_loop_vars_resolves [OF stray_resolved] by (simp add: known_var_def [abs_def] start_vars_def)

end
