(* ===== verification/Pass_Promote_If.thy ===== *)
theory Pass_Promote_If
  imports Tvm_Semantics
begin

text \<open>
  \<open>pass/promote_if.cc\<close>: conditions are moved outwards. \<open>StmtSinker\<close> takes a condition out of a loop
  or another node around it, \<open>IFPromoter\<close> applies that from the inside out, takes the conditions
  that two branches or two neighbours share out of both, and merges neighbours with the same or
  opposite conditions. \<open>Equal\<close> is equality of trees. The simplifier of TVM, which prepares the
  negated condition, and the cleaning of the whole statement before the pass are parameters. A
  statement that is not defined is \<open>None\<close>.
\<close>

section \<open>StmtSinker\<close>

definition AddIfStmt :: "Stmt \<Rightarrow> Expr list \<Rightarrow> Stmt" where
  "AddIfStmt s conds = foldr (\<lambda>c r. IfThenElse c r None) conds s"

text \<open>The visitor does not look into the arguments of a call.\<close>

fun HasCallName :: "Expr \<Rightarrow> string \<Rightarrow> bool" where
  "HasCallName (CallE ty ct n args fn i) s = (n = s)"
| "HasCallName (Cast ty e) s = HasCallName e s"
| "HasCallName (Binary p a b) s = (HasCallName a s \<or> HasCallName b s)"
| "HasCallName (NotE a) s = HasCallName a s"
| "HasCallName (Select c t e) s = (HasCallName c s \<or> HasCallName t s \<or> HasCallName e s)"
| "HasCallName (LoadE ty v i p) s = (HasCallName i s \<or> HasCallName p s)"
| "HasCallName (LetE v e b) s = (HasCallName e s \<or> HasCallName b s)"
| "HasCallName e s = False"

text \<open>The members \<open>judge_func_\<close>, \<open>pack_func_\<close> and \<open>support_else_case_\<close>, which the node around
  the conditions has set.\<close>

record Sinker =
  judge :: "Expr \<Rightarrow> bool"
  pack :: "Stmt \<Rightarrow> Stmt"
  support_else :: bool

fun is_if :: "Stmt \<Rightarrow> bool" where
  "is_if (IfThenElse c t e) = True"
| "is_if s = False"

text \<open>\<open>sink_cond k root viol sats s\<close>: the result for an \<open>IfThenElse\<close> and the new contents of the top of
  \<open>satisfactions_\<close>, which is \<open>sats\<close>; a root has a top of its own and leaves the one below it.\<close>

fun sink_cond :: "Sinker \<Rightarrow> bool \<Rightarrow> Expr list \<Rightarrow> Expr list \<Rightarrow> Stmt \<Rightarrow> Stmt \<times> Expr list" where
  "sink_cond k root viol sats (IfThenElse c t None) =
     (let top = (if root then [] else sats);
          top1 = (if judge k c then top @ [c] else top);
          viol1 = (if judge k c then viol else viol @ [c]);
          (rst, top2) =
            (if is_if t then sink_cond k False viol1 top1 t else (pack k (AddIfStmt t viol1), top1))
      in if root then (AddIfStmt rst top2, sats) else (rst, top2))"
| "sink_cond k root viol sats (IfThenElse c t (Some e)) =
     (let top = (if root then [] else sats);
          rst =
            (if \<not> judge k c \<or> \<not> support_else k then pack k (AddIfStmt (IfThenElse c t (Some e)) viol)
             else IfThenElse c
               (if is_if t then fst (sink_cond k True viol top t) else pack k (AddIfStmt t viol))
               (Some (if is_if e then fst (sink_cond k True viol top e) else pack k (AddIfStmt e viol))))
      in if root then (AddIfStmt rst top, sats) else (rst, top))"
| "sink_cond k root viol sats s = (s, sats)"

definition start_sink :: "Sinker \<Rightarrow> Stmt \<Rightarrow> Stmt" where
  "start_sink k b = fst (sink_cond k True [] [] b)"

fun StmtSinker :: "Stmt \<Rightarrow> Stmt" where
  "StmtSinker (For v m x t b) =
     (if is_if b then
        start_sink \<lparr>judge = (\<lambda>e. \<not> uses_var v e), pack = For v m x t, support_else = True\<rparr> b
      else For v m x t b)"
| "StmtSinker (AttrStmt n k e b) =
     (case n of
        Node_Func f \<Rightarrow>
          if k = ''realize_scope'' \<and> func_dtype f \<noteq> None \<and> is_if b then
            start_sink \<lparr>judge = (\<lambda>c. \<not> HasCallName c (func_name f)), pack = AttrStmt n k e, support_else = True\<rparr> b
          else AttrStmt n k e b
      | _ \<Rightarrow> AttrStmt n k e b)"
| "StmtSinker (Realize fn i ty bs c b) =
     (if is_if b then
        start_sink \<lparr>judge = (\<lambda>e. \<not> HasCallName e (func_name fn)), pack = Realize fn i ty bs c, support_else = False\<rparr> b
      else Realize fn i ty bs c b)"
| "StmtSinker (ProducerConsumer fn p b) =
     (if is_if b then
        start_sink \<lparr>judge = (\<lambda>e. True), pack = ProducerConsumer fn p, support_else = True\<rparr> b
      else ProducerConsumer fn p b)"
| "StmtSinker s = s"

section \<open>Shared conditions\<close>

fun SearchStmts :: "Stmt \<Rightarrow> Stmt list" where
  "SearchStmts (Block a b) = SearchStmts a @ SearchStmts b"
| "SearchStmts s = [s]"

fun extract_cond :: "Stmt \<Rightarrow> Expr list \<times> Stmt" where
  "extract_cond (IfThenElse c t None) = (case extract_cond t of (cs, leaf) \<Rightarrow> (c # cs, leaf))"
| "extract_cond s = ([], s)"

text \<open>The common conditions and what is left of each list.\<close>

fun split_common :: "Expr list \<Rightarrow> Expr list \<Rightarrow> Expr list \<times> Expr list \<times> Expr list" where
  "split_common [] cs1 = ([], [], cs1)"
| "split_common (c # cs0) cs1 =
     (if c \<in> set cs1 then (case split_common cs0 (remove1 c cs1) of (cm, r0, r1) \<Rightarrow> (c # cm, r0, r1))
      else (case split_common cs0 cs1 of (cm, r0, r1) \<Rightarrow> (cm, c # r0, r1)))"

text \<open>The result is the new \<open>first\<close> and the boolean; a leaf function has the same form. \<open>None\<close> is a
  recursion bound of the model that was too small, as in the functions below.\<close>

definition ExtractCommonIf ::
    "(Stmt \<Rightarrow> Stmt \<Rightarrow> bool \<Rightarrow> (Stmt \<times> bool) option) \<Rightarrow> Stmt \<Rightarrow> Stmt \<Rightarrow> (Stmt \<times> bool) option" where
  "ExtractCommonIf process_leaves first second =
     (case (extract_cond first, extract_cond second) of ((cond0, leaf0), (cond1, leaf1)) \<Rightarrow>
      case split_common cond0 cond1 of (common, rest0, rest1) \<Rightarrow>
        Option.bind (process_leaves (AddIfStmt leaf0 rest0) (AddIfStmt leaf1 rest1) (common \<noteq> []))
          (\<lambda>(leaf, rst). Some (if rst then (AddIfStmt leaf common, True) else (first, False))))"

section \<open>Merging neighbours\<close>

text \<open>An empty block is not defined, and \<open>ProcessBlock\<close> returns it as it is.\<close>

definition process_opt :: "(Stmt \<Rightarrow> Stmt option) \<Rightarrow> Stmt list \<Rightarrow> Stmt option option" where
  "process_opt process ss =
     (case make_blocks ss of None \<Rightarrow> Some None | Some s \<Rightarrow> map_option Some (process s))"

definition else_list :: "Stmt option \<Rightarrow> Stmt list" where
  "else_list e = (case e of Some s \<Rightarrow> [s] | None \<Rightarrow> [])"

text \<open>\<open>Merge\<close>: \<open>Some None\<close> is the result false.\<close>

fun Merge :: "(Expr \<Rightarrow> Expr) \<Rightarrow> (Stmt \<Rightarrow> Stmt option) \<Rightarrow> Stmt \<Rightarrow> Stmt \<Rightarrow> Stmt option option" where
  "Merge simplify process (IfThenElse c0 t0 e0) (IfThenElse c1 t1 e1) =
     (if c0 = c1 then
        Option.bind (process (make_block t0 t1)) (\<lambda>t.
        Option.bind (process_opt process (else_list e0 @ else_list e1)) (\<lambda>e.
          Some (Some (IfThenElse c0 t e))))
      else if c0 = simplify (NotE c1) then
        Option.bind (process_opt process (t0 # else_list e1)) (\<lambda>t.
        Option.bind (process_opt process (else_list e0 @ [t1])) (\<lambda>e.
          Some (map_option (\<lambda>t. IfThenElse c0 t e) t)))
      else Some None)"
| "Merge simplify process first second = Some None"

text \<open>The loop that both callers have: \<open>last_stmt\<close>, the statements to come, \<open>new_stmts\<close>.\<close>

fun merge_loop :: "(Stmt \<Rightarrow> Stmt \<Rightarrow> Stmt option option) \<Rightarrow> Stmt \<Rightarrow> Stmt list \<Rightarrow> Stmt list \<Rightarrow> bool \<Rightarrow>
    (Stmt list \<times> Stmt \<times> bool) option" where
  "merge_loop merge lst [] new changed = Some (new, lst, changed)"
| "merge_loop merge lst (e # es) new changed =
     Option.bind (merge lst e) (\<lambda>r.
       (case r of
          None \<Rightarrow> merge_loop merge e es (new @ [lst]) changed
        | Some s \<Rightarrow> merge_loop merge s es new True))"

definition no_stmt :: Stmt where
  "no_stmt = Evaluate (IntImm (Int_type 32) 0)"

definition TryToMergeIf ::
    "(Expr \<Rightarrow> Expr) \<Rightarrow> (Stmt \<Rightarrow> Stmt option) \<Rightarrow> Stmt \<Rightarrow> Stmt \<Rightarrow> bool \<Rightarrow> (Stmt \<times> bool) option" where
  "TryToMergeIf simplify process first second changed =
     Option.bind (merge_loop (Merge simplify process) no_stmt (SearchStmts first @ SearchStmts second) [] changed)
       (\<lambda>(new, lst, changed).
          if changed then Option.bind (make_blocks (tl new @ [lst])) (\<lambda>s. Some (s, True)) else Some (first, False))"

definition extract_merge ::
    "(Expr \<Rightarrow> Expr) \<Rightarrow> (Stmt \<Rightarrow> Stmt option) \<Rightarrow> Stmt \<Rightarrow> Stmt \<Rightarrow> Stmt option option" where
  "extract_merge simplify process lst e =
     Option.bind (ExtractCommonIf (TryToMergeIf simplify process) lst e) (\<lambda>(s, rst). Some (if rst then Some s else None))"

text \<open>\<open>ProcessBlock\<close> with a bound on the nesting of the merges.\<close>

fun process_block :: "(Expr \<Rightarrow> Expr) \<Rightarrow> nat \<Rightarrow> Stmt \<Rightarrow> Stmt option" where
  "process_block simplify 0 s = None"
| "process_block simplify (Suc n) s =
     Option.bind (merge_loop (extract_merge simplify (process_block simplify n)) no_stmt (SearchStmts s) [] False)
       (\<lambda>(new, lst, _). make_blocks (tl new @ [lst]))"

text \<open>How deep conditions are nested in each other is enough of a bound.\<close>

fun if_depth :: "Stmt \<Rightarrow> nat" where
  "if_depth (Block a b) = max (if_depth a) (if_depth b)"
| "if_depth (IfThenElse c t e) = Suc (max (if_depth t) (case e of Some s \<Rightarrow> if_depth s | None \<Rightarrow> 0))"
| "if_depth s = 0"

definition ProcessBlock :: "(Expr \<Rightarrow> Expr) \<Rightarrow> Stmt \<Rightarrow> Stmt option" where
  "ProcessBlock simplify s = process_block simplify (Suc (if_depth s)) s"

section \<open>IFPromoter\<close>

text \<open>The leaf function that puts the two branches below their condition again.\<close>

definition rebuild_if :: "Expr \<Rightarrow> Stmt \<Rightarrow> Stmt \<Rightarrow> bool \<Rightarrow> (Stmt \<times> bool) option" where
  "rebuild_if c first second changed = Some (IfThenElse c first (Some second), True)"

text \<open>Only the outermost of nested blocks is processed: \<open>inner\<close> says that the node's parent is a block.\<close>

fun promote :: "(Expr \<Rightarrow> Expr) \<Rightarrow> bool \<Rightarrow> Stmt \<Rightarrow> Stmt option" where
  "promote simplify inner (IfThenElse c t None) =
     Option.bind (promote simplify False t) (\<lambda>t. Some (IfThenElse c t None))"
| "promote simplify inner (IfThenElse c t (Some e)) =
     Option.bind (promote simplify False t) (\<lambda>t. Option.bind (promote simplify False e) (\<lambda>e.
       map_option fst (ExtractCommonIf (rebuild_if c) t e)))"
| "promote simplify inner (Block a b) =
     Option.bind (promote simplify True a) (\<lambda>a. Option.bind (promote simplify True b) (\<lambda>b.
       if inner then Some (make_block a b) else ProcessBlock simplify (make_block a b)))"
| "promote simplify inner (For v m x t b) =
     map_option (\<lambda>b. StmtSinker (For v m x t b)) (promote simplify False b)"
| "promote simplify inner (AttrStmt n k e b) =
     map_option (\<lambda>b. StmtSinker (AttrStmt n k e b)) (promote simplify False b)"
| "promote simplify inner (Realize fn i ty bs c b) =
     map_option (\<lambda>b. StmtSinker (Realize fn i ty bs c b)) (promote simplify False b)"
| "promote simplify inner (ProducerConsumer fn p b) =
     map_option (\<lambda>b. StmtSinker (ProducerConsumer fn p b)) (promote simplify False b)"
| "promote simplify inner (LetStmt v e b) = map_option (LetStmt v e) (promote simplify False b)"
| "promote simplify inner (AssertStmt c m b) = map_option (AssertStmt c m) (promote simplify False b)"
| "promote simplify inner (Allocate v t xs c b n) =
     map_option (\<lambda>b. Allocate v t xs c b n) (promote simplify False b)"
| "promote simplify inner s = Some s"

definition PromoteIfStmt :: "(Stmt \<Rightarrow> Stmt) \<Rightarrow> (Expr \<Rightarrow> Expr) \<Rightarrow> Stmt \<Rightarrow> Stmt option" where
  "PromoteIfStmt clean simplify s = promote simplify False (clean s)"

section \<open>Lists of conditions and statements\<close>

lemma AddIfStmt_simps [simp]:
  "AddIfStmt s [] = s"
  "AddIfStmt s (c # cs) = IfThenElse c (AddIfStmt s cs) None"
  "AddIfStmt s (cs @ [c]) = AddIfStmt (IfThenElse c s None) cs"
  by (simp_all add: AddIfStmt_def)

lemma extract_cond_eq: "extract_cond s = (cs, leaf) \<Longrightarrow> s = AddIfStmt leaf cs"
  by (induction s arbitrary: cs leaf rule: extract_cond.induct) (auto split: prod.splits)

lemma split_common_sets:
  "split_common cs0 cs1 = (cm, r0, r1) \<Longrightarrow>
     set cs0 = set cm \<union> set r0 \<and> set cs1 = set cm \<union> set r1 \<and>
     length cs0 = length cm + length r0 \<and> length cs1 = length cm + length r1"
proof (induction cs0 arbitrary: cs1 cm r0 r1)
  case (Cons c cs0)
  show ?case
  proof (cases "c \<in> set cs1")
    case True
    then obtain cm' where cm': "split_common cs0 (remove1 c cs1) = (cm', r0, r1)" "cm = c # cm'"
      using Cons.prems by (auto split: prod.splits)
    have "set cs1 = insert c (set (remove1 c cs1))"
      using True in_set_remove1 [of _ c cs1] set_remove1_subset [of c cs1] by blast
    moreover have "length cs1 = Suc (length (remove1 c cs1))"
      using True length_pos_if_in_set [OF True] by (simp add: length_remove1)
    ultimately show ?thesis using Cons.IH [OF cm'(1)] cm'(2) by auto
  next
    case False
    with Cons obtain r0' where "split_common cs0 cs1 = (cm, r0', r1)" "r0 = c # r0'" by (auto split: prod.splits)
    with Cons.IH [of cs1 cm r0' r1] show ?thesis by auto
  qed
qed auto

text \<open>What \<open>ExtractCommonIf\<close> gives to the leaf function and makes of its result.\<close>

lemma ExtractCommonIf_E:
  assumes "ExtractCommonIf f first second = Some (s, rst)"
  obtains leaf0 leaf1 common rest0 rest1 cond0 cond1 leaf
  where "first = AddIfStmt leaf0 cond0" "second = AddIfStmt leaf1 cond1"
    "split_common cond0 cond1 = (common, rest0, rest1)"
    "f (AddIfStmt leaf0 rest0) (AddIfStmt leaf1 rest1) (common \<noteq> []) = Some (leaf, rst)"
    "rst \<Longrightarrow> s = AddIfStmt leaf common"
proof -
  obtain cond0 leaf0 cond1 leaf1 where e: "extract_cond first = (cond0, leaf0)" "extract_cond second = (cond1, leaf1)"
    by fastforce
  moreover obtain common rest0 rest1 where c: "split_common cond0 cond1 = (common, rest0, rest1)"
    by (cases "split_common cond0 cond1") auto
  moreover obtain leaf where "f (AddIfStmt leaf0 rest0) (AddIfStmt leaf1 rest1) (common \<noteq> []) = Some (leaf, rst)"
    "rst \<Longrightarrow> s = AddIfStmt leaf common"
    using assms e c by (auto simp: ExtractCommonIf_def bind_eq_Some_conv split: if_splits)
  ultimately show ?thesis using that extract_cond_eq by blast
qed

lemma SearchStmts_Cons: "\<exists>e es. SearchStmts s = e # es \<and> \<not> (\<exists>a b. e = Block a b)"
  by (induction s) auto

lemma SearchStmts_no_Block: "e \<in> set (SearchStmts s) \<Longrightarrow> SearchStmts e = [e]"
  by (induction s) auto

section \<open>The recursion ends\<close>

definition shallow :: "nat \<Rightarrow> Stmt \<Rightarrow> bool" where
  "shallow d s \<longleftrightarrow> if_depth s \<le> d"

lemma if_depth_make_block [simp]: "if_depth (make_block a b) = max (if_depth a) (if_depth b)"
  by (induction a b rule: make_block.induct) auto

lemma if_depth_AddIfStmt [simp]: "if_depth (AddIfStmt s cs) = length cs + if_depth s"
  by (induction cs) auto

lemma shallow_make_blocks: "make_blocks ss = Some s \<Longrightarrow> shallow d s \<longleftrightarrow> (\<forall>e \<in> set ss. shallow d e)"
  by (induction ss arbitrary: s rule: make_blocks.induct) (auto simp: shallow_def)

lemma shallow_SearchStmts: "shallow d s \<Longrightarrow> e \<in> set (SearchStmts s) \<Longrightarrow> shallow d e"
  by (induction s) (auto simp: shallow_def)

lemma shallow_If:
  "shallow d (IfThenElse c t e) \<longleftrightarrow>
     (\<exists>d'. d = Suc d' \<and> shallow d' t \<and> (\<forall>s \<in> set (else_list e). shallow d' s))"
  by (cases d; cases e) (auto simp: shallow_def else_list_def)

definition total_below :: "nat \<Rightarrow> (Stmt \<Rightarrow> Stmt option) \<Rightarrow> bool" where
  "total_below d f \<longleftrightarrow> (\<forall>d' s. d' < d \<longrightarrow> shallow d' s \<longrightarrow> (\<exists>s'. f s = Some s' \<and> shallow d' s'))"

lemma total_belowD:
  "total_below d f \<Longrightarrow> d' < d \<Longrightarrow> shallow d' s \<Longrightarrow> \<exists>s'. f s = Some s' \<and> shallow d' s'"
  by (auto simp: total_below_def)

lemma process_opt_total:
  assumes "total_below d process" "d' < d" "\<forall>s \<in> set ss. shallow d' s"
  shows "\<exists>r. process_opt process ss = Some r \<and> (\<forall>s \<in> set (else_list r). shallow d' s) \<and> (ss \<noteq> [] \<longrightarrow> r \<noteq> None)"
proof (cases "make_blocks ss")
  case None
  then show ?thesis by (simp add: process_opt_def else_list_def)
next
  case (Some s)
  with total_belowD [OF assms(1,2), of s] shallow_make_blocks [OF Some] assms(3) show ?thesis
    by (auto simp: process_opt_def else_list_def)
qed

text \<open>A merge has a result, and the statement it makes is no deeper than the two it is made of.\<close>

definition merge_total :: "nat \<Rightarrow> (Stmt \<Rightarrow> Stmt \<Rightarrow> Stmt option option) \<Rightarrow> bool" where
  "merge_total d merge \<longleftrightarrow> (\<forall>a b. shallow d a \<longrightarrow> shallow d b \<longrightarrow>
     (\<exists>r. merge a b = Some r \<and> (\<forall>s. r = Some s \<longrightarrow> shallow d s)))"

lemma Merge_total:
  assumes "total_below d process"
  shows "merge_total d (Merge simplify process)"
  unfolding merge_total_def
proof (intro allI impI)
  fix a b assume ab: "shallow d a" "shallow d b"
  show "\<exists>r. Merge simplify process a b = Some r \<and> (\<forall>s. r = Some s \<longrightarrow> shallow d s)"
  proof (cases "(simplify, process, a, b)" rule: Merge.cases)
    case (1 simplify' process' c0 t0 e0 c1 t1 e1)
    then obtain d' where d: "d = Suc d'" and
      sh: "shallow d' t0" "shallow d' t1" "\<forall>s \<in> set (else_list e0). shallow d' s" "\<forall>s \<in> set (else_list e1). shallow d' s"
      using ab by (auto simp: shallow_If)
    have opt: "\<exists>r. process_opt process ss = Some r \<and> (\<forall>s \<in> set (else_list r). shallow d' s) \<and> (ss \<noteq> [] \<longrightarrow> r \<noteq> None)"
      if "\<forall>s \<in> set ss. shallow d' s" for ss
      by (rule process_opt_total [OF assms _ that]) (simp add: d)
    have "\<exists>t. process (make_block t0 t1) = Some t \<and> shallow d' t"
      by (rule total_belowD [OF assms]) (use sh d in \<open>auto simp: shallow_def\<close>)
    then obtain t where "process (make_block t0 t1) = Some t" "shallow d' t" by blast
    moreover obtain r1 where "process_opt process (else_list e0 @ else_list e1) = Some r1" "\<forall>s \<in> set (else_list r1). shallow d' s"
      using opt [of "else_list e0 @ else_list e1"] sh by auto
    moreover obtain t2 where "process_opt process (t0 # else_list e1) = Some (Some t2)" "shallow d' t2"
      using opt [of "t0 # else_list e1"] sh by (auto simp: else_list_def)
    moreover obtain r2 where "process_opt process (else_list e0 @ [t1]) = Some r2" "\<forall>s \<in> set (else_list r2). shallow d' s"
      using opt [of "else_list e0 @ [t1]"] sh by auto
    ultimately show ?thesis using 1 by (simp add: d shallow_If)
  qed auto
qed

lemma merge_loop_total:
  assumes "merge_total d merge"
  shows "\<forall>e \<in> set (new @ lst # es). shallow d e \<Longrightarrow>
    \<exists>new' lst' ch'. merge_loop merge lst es new ch = Some (new', lst', ch') \<and> (\<forall>e \<in> set (new' @ [lst']). shallow d e)"
proof (induction es arbitrary: lst new ch)
  case (Cons e es)
  then have "shallow d lst" "shallow d e" by auto
  then obtain r where "merge lst e = Some r" "\<forall>s. r = Some s \<longrightarrow> shallow d s"
    using assms unfolding merge_total_def by blast
  with Cons.IH [of "new @ [lst]" e ch] Cons.IH [of new "the r" True] Cons.prems show ?case by (cases r) auto
qed simp

lemma shallow_no_stmt: "shallow d no_stmt"
  by (simp add: shallow_def no_stmt_def)

text \<open>The loop of both callers, with the block that is made of its result.\<close>

lemma merge_block_total:
  assumes "merge_total d merge" "\<forall>e \<in> set es. shallow d e"
  shows "\<exists>new lst ch' s. merge_loop merge no_stmt es [] ch = Some (new, lst, ch') \<and>
    make_blocks (tl new @ [lst]) = Some s \<and> shallow d s"
proof -
  obtain new lst ch' where m: "merge_loop merge no_stmt es [] ch = Some (new, lst, ch')" "\<forall>e \<in> set (new @ [lst]). shallow d e"
    using merge_loop_total [OF assms(1), of "[]" no_stmt es ch] assms(2) shallow_no_stmt by auto
  obtain s where s: "make_blocks (tl new @ [lst]) = Some s"
    by (cases "make_blocks (tl new @ [lst])") auto
  moreover have "shallow d s"
    using shallow_make_blocks [OF s] m(2) by (cases new) auto
  ultimately show ?thesis using m(1) by blast
qed

lemma TryToMergeIf_total:
  assumes "total_below d process" "shallow d a" "shallow d b"
  shows "\<exists>s rst. TryToMergeIf simplify process a b ch = Some (s, rst) \<and> (rst \<longrightarrow> shallow d s)"
proof -
  have "\<forall>e \<in> set (SearchStmts a @ SearchStmts b). shallow d e"
    using assms(2,3) shallow_SearchStmts by auto
  from merge_block_total [OF Merge_total [OF assms(1)] this, of simplify ch] show ?thesis
    by (auto simp: TryToMergeIf_def)
qed

lemma extract_merge_total:
  assumes "total_below d process"
  shows "merge_total d (extract_merge simplify process)"
  unfolding merge_total_def
proof (intro allI impI)
  fix a b assume ab: "shallow d a" "shallow d b"
  obtain cond0 leaf0 cond1 leaf1 where e: "extract_cond a = (cond0, leaf0)" "extract_cond b = (cond1, leaf1)"
    by fastforce
  obtain common rest0 rest1 where c: "split_common cond0 cond1 = (common, rest0, rest1)"
    by (cases "split_common cond0 cond1") auto
  note len = split_common_sets [OF c]
  define d' where "d' = d - length common"
  have "length cond0 + if_depth leaf0 \<le> d" "length cond1 + if_depth leaf1 \<le> d"
    using ab extract_cond_eq [OF e(1)] extract_cond_eq [OF e(2)] by (auto simp: shallow_def)
  then have d': "shallow d' (AddIfStmt leaf0 rest0)" "shallow d' (AddIfStmt leaf1 rest1)" "d = length common + d'"
    using len by (auto simp: shallow_def d'_def)
  have "total_below d' process" using assms by (auto simp: total_below_def d'_def)
  from TryToMergeIf_total [OF this d'(1,2), of simplify "common \<noteq> []"] obtain s rst
    where "TryToMergeIf simplify process (AddIfStmt leaf0 rest0) (AddIfStmt leaf1 rest1) (common \<noteq> []) = Some (s, rst)"
      "rst \<longrightarrow> shallow d' s" by blast
  then show "\<exists>r. extract_merge simplify process a b = Some r \<and> (\<forall>s. r = Some s \<longrightarrow> shallow d s)"
    using d'(3) by (auto simp: extract_merge_def ExtractCommonIf_def e c shallow_def)
qed

lemma process_block_total: "total_below n (process_block simplify n)"
proof (induction n)
  case (Suc n)
  show ?case unfolding total_below_def
  proof (intro allI impI)
    fix d s assume d: "d < Suc n" and s: "shallow d s"
    have "total_below d (process_block simplify n)" using Suc d by (auto simp: total_below_def)
    from merge_block_total [OF extract_merge_total [OF this], of "SearchStmts s" simplify False] s shallow_SearchStmts
    show "\<exists>s'. process_block simplify (Suc n) s = Some s' \<and> shallow d s'" by fastforce
  qed
qed (simp add: total_below_def)

lemma ProcessBlock_total: "\<exists>s'. ProcessBlock simplify s = Some s' \<and> if_depth s' \<le> if_depth s"
  using total_belowD [OF process_block_total, of "if_depth s" "Suc (if_depth s)" s simplify]
  by (auto simp: ProcessBlock_def shallow_def simp del: process_block.simps)

lemma rebuild_total: "\<exists>p. ExtractCommonIf (rebuild_if c) t e = Some p"
  by (auto simp: ExtractCommonIf_def rebuild_if_def split: prod.split)

lemma promote_total: "\<exists>s'. promote simplify inner s = Some s'"
proof (induction simplify inner s rule: promote.induct)
  case (2 simplify inner c t e)
  then show ?case using rebuild_total by fastforce
next
  case (3 simplify inner a b)
  then show ?case using ProcessBlock_total by fastforce
qed auto

text \<open>
  C23: The pass always returns, whatever the simplifier does: the merging of the blocks that merging makes ends,
  since a merged condition is nested no deeper than the two it is made of.
\<close>

theorem promote_if_terminates:
  "(\<exists>s'. PromoteIfStmt clean simplify s = Some s') \<and>
   (\<exists>b'. ProcessBlock simplify b = Some b' \<and> if_depth b' \<le> if_depth b)"
  using promote_total ProcessBlock_total by (simp add: PromoteIfStmt_def)

end
