(* ===== verification/Pass_Promote_If_Correct.thy ===== *)
theory Pass_Promote_If_Correct
  imports Pass_Promote_If
begin

text \<open>
  The pass of \<open>Pass_Promote_If\<close> does not change what a statement does. A list \<open>C\<close> holds the
  conditions; a statement is \<open>calm\<close> if it writes nothing that one of them reads, and every step
  of the pass keeps that. Conditions then keep their value over a loop and over the statement
  before them, which is all that taking them out and merging them needs.
\<close>

section \<open>Conditions that no statement changes\<close>

lemma exec_AddIfStmt:
  "exec I (AddIfStmt s conds) \<rho> \<sigma> = (if holds I conds \<rho> \<sigma> then exec I s \<rho> \<sigma> else Some \<sigma>)"
  by (simp add: AddIfStmt_def exec_guarded)

text \<open>\<open>calm C s\<close>: the conditions of \<open>s\<close> are among \<open>C\<close>, and no write of \<open>s\<close> changes one of \<open>C\<close>.\<close>

fun conditions :: "Stmt \<Rightarrow> Expr list" where
  "conditions (LetStmt v x b) = conditions b"
| "conditions (AttrStmt n k x b) = conditions b"
| "conditions (AssertStmt c m b) = conditions b"
| "conditions (ProducerConsumer fn p b) = conditions b"
| "conditions (For v m x t b) = conditions b"
| "conditions (Allocate v t xs c b n) = conditions b"
| "conditions (Realize fn i ty bs c b) = conditions b"
| "conditions (Block a b) = conditions a @ conditions b"
| "conditions (IfThenElse c t e) = c # conditions t @ (case e of Some s \<Rightarrow> conditions s | None \<Rightarrow> [])"
| "conditions s = []"

definition calm :: "Expr list \<Rightarrow> Stmt \<Rightarrow> bool" where
  "calm C s \<longleftrightarrow> list_all (\<lambda>c. keeps c s) C \<and> set (conditions s) \<subseteq> set C"

lemma calm_simps [simp]:
  "calm C (Block a b) \<longleftrightarrow> calm C a \<and> calm C b"
  "calm C (IfThenElse c t None) \<longleftrightarrow> c \<in> set C \<and> calm C t"
  "calm C (IfThenElse c t (Some e)) \<longleftrightarrow> c \<in> set C \<and> calm C t \<and> calm C e"
  "calm C (For v m x ft t) = calm C t"
  "calm C (LetStmt v x t) = calm C t"
  "calm C (AttrStmt n k x t) = calm C t"
  "calm C (AssertStmt c msg t) = calm C t"
  "calm C (ProducerConsumer fn p t) = calm C t"
  "calm C (Realize fn i ty bs c t) = calm C t"
  "calm C (Allocate v ty xs c t nw) = calm C t"
  by (auto simp: calm_def list_all_iff)

lemma calm_make_block [simp]: "calm C (make_block a b) \<longleftrightarrow> calm C a \<and> calm C b"
  by (induction a b rule: make_block.induct) auto

lemma calm_AddIfStmt [simp]: "calm C (AddIfStmt s conds) \<longleftrightarrow> set conds \<subseteq> set C \<and> calm C s"
  unfolding AddIfStmt_def by (induction conds) auto

lemma calm_eval:
  "calm C s \<Longrightarrow> c \<in> set C \<Longrightarrow> exec I s \<rho> \<sigma> = Some \<sigma>' \<Longrightarrow> is_true I c \<rho>' \<sigma>' = is_true I c \<rho>' \<sigma>"
  unfolding calm_def is_true_def list_all_iff by (metis keeps_eval)

lemma calm_holds:
  "calm C s \<Longrightarrow> set cs \<subseteq> set C \<Longrightarrow> exec I s \<rho> \<sigma> = Some \<sigma>' \<Longrightarrow> holds I cs \<rho>' \<sigma>' = holds I cs \<rho>' \<sigma>"
  unfolding holds_def using calm_eval by blast

section \<open>Taking conditions out of a node\<close>

definition same_exec :: "Interp \<Rightarrow> Stmt \<Rightarrow> Stmt \<Rightarrow> bool" where
  "same_exec I s s' \<longleftrightarrow> (\<forall>\<rho> \<sigma>. exec I s \<rho> \<sigma> = exec I s' \<rho> \<sigma>)"

lemma same_execD: "same_exec I s s' \<Longrightarrow> exec I s \<rho> \<sigma> = exec I s' \<rho> \<sigma>"
  by (simp add: same_exec_def)

lemma same_refl [simp]: "same_exec I s s"
  by (simp add: same_exec_def)

lemma same_trans: "same_exec I a b \<Longrightarrow> same_exec I b c \<Longrightarrow> same_exec I a c"
  by (simp add: same_exec_def)

lemma same_sym: "same_exec I a b \<Longrightarrow> same_exec I b a"
  by (simp add: same_exec_def)

text \<open>What the node around the conditions has to satisfy.\<close>

definition pack_ok :: "Interp \<Rightarrow> Expr list \<Rightarrow> Sinker \<Rightarrow> bool" where
  "pack_ok I C k \<longleftrightarrow>
     (\<forall>s. calm C (pack k s) = calm C s) \<and>
     (\<forall>s s'. same_exec I s s' \<longrightarrow> same_exec I (pack k s) (pack k s')) \<and>
     (\<forall>c t e. judge k c \<longrightarrow> calm C (IfThenElse c t e) \<longrightarrow>
        same_exec I (pack k (IfThenElse c t e)) (IfThenElse c (pack k t) (map_option (pack k) e)))"

lemma same_If:
  "same_exec I t t' \<Longrightarrow> same_exec I e e' \<Longrightarrow> same_exec I (IfThenElse c t (Some e)) (IfThenElse c t' (Some e'))"
  "same_exec I t t' \<Longrightarrow> same_exec I (IfThenElse c t None) (IfThenElse c t' None)"
  by (auto simp: same_exec_def)

lemma same_AddIf_If:
  "same_exec I (AddIfStmt (IfThenElse c t None) cs) (IfThenElse c (AddIfStmt t cs) None)"
  "same_exec I (AddIfStmt (IfThenElse c t (Some e)) cs) (IfThenElse c (AddIfStmt t cs) (Some (AddIfStmt e cs)))"
  by (auto simp: same_exec_def exec_AddIfStmt)

text \<open>The result \<open>r\<close> of \<open>sink_cond\<close> on \<open>s\<close>, as a statement.\<close>

definition sunk_from :: "Interp \<Rightarrow> Expr list \<Rightarrow> Sinker \<Rightarrow> bool \<Rightarrow> Expr list \<Rightarrow> Expr list \<Rightarrow> Stmt \<Rightarrow> Stmt \<times> Expr list \<Rightarrow> bool" where
  "sunk_from I C k root viol sats s r \<longleftrightarrow>
     calm C (fst r) \<and>
     (\<exists>new. snd r = sats @ new \<and> set new \<subseteq> set C \<and> (root \<longrightarrow> new = []) \<and>
        same_exec I (AddIfStmt (fst r) new) (pack k (AddIfStmt s viol)))"

lemma sunk_root:
  "sunk_from I C k False viol [] s (r, sats') \<Longrightarrow> sunk_from I C k True viol sats s (AddIfStmt r sats', sats)"
  by (auto simp: sunk_from_def)

lemma sunk_pack:
  assumes "pack_ok I C k" "calm C s" "set viol \<subseteq> set C"
  shows "sunk_from I C k root viol sats s (pack k (AddIfStmt s viol), sats)"
  using assms by (auto simp: sunk_from_def pack_ok_def)

lemma pack_okD:
  assumes "pack_ok I C k"
  shows "calm C (pack k s) = calm C s"
    and "same_exec I s s' \<Longrightarrow> same_exec I (pack k s) (pack k s')"
    and "judge k c \<Longrightarrow> calm C (IfThenElse c s e) \<Longrightarrow>
      same_exec I (IfThenElse c (pack k s) (map_option (pack k) e)) (pack k (IfThenElse c s e))"
  using assms by (auto simp: pack_ok_def intro: same_sym)

lemma sunk_then:
  assumes "pack_ok I C k" "judge k c" "calm C (IfThenElse c t None)" "set viol \<subseteq> set C"
    and "sunk_from I C k False viol (sats @ [c]) t (r, sats')"
  shows "sunk_from I C k False viol sats (IfThenElse c t None) (r, sats')"
proof -
  obtain new where new: "sats' = sats @ c # new" "set new \<subseteq> set C" "calm C r"
    "same_exec I (AddIfStmt r new) (pack k (AddIfStmt t viol))"
    using assms(5) by (auto simp: sunk_from_def)
  have "same_exec I (AddIfStmt r (c # new)) (IfThenElse c (pack k (AddIfStmt t viol)) None)"
    using same_If(2) [OF new(4)] by simp
  moreover have "same_exec I (IfThenElse c (pack k (AddIfStmt t viol)) None) (pack k (IfThenElse c (AddIfStmt t viol) None))"
    using pack_okD(3) [OF assms(1,2), of "AddIfStmt t viol" None] assms(3,4) by simp
  moreover have "same_exec I (pack k (IfThenElse c (AddIfStmt t viol) None)) (pack k (AddIfStmt (IfThenElse c t None) viol))"
    by (rule pack_okD(2) [OF assms(1)]) (rule same_sym, rule same_AddIf_If)
  ultimately have "same_exec I (AddIfStmt r (c # new)) (pack k (AddIfStmt (IfThenElse c t None) viol))"
    by (blast intro: same_trans)
  moreover have "c \<in> set C" using assms(3) by simp
  ultimately show ?thesis using new(1-3) unfolding sunk_from_def by (intro conjI exI [of _ "c # new"]) auto
qed

lemma sunk_else:
  assumes "pack_ok I C k" "judge k c" "calm C (IfThenElse c t (Some e))" "set viol \<subseteq> set C"
    and "sunk_from I C k True viol sats t (t', sats)" "sunk_from I C k True viol sats e (e', sats)"
  shows "sunk_from I C k False viol sats (IfThenElse c t (Some e)) (IfThenElse c t' (Some e'), sats)"
proof -
  have sub: "same_exec I t' (pack k (AddIfStmt t viol))" "same_exec I e' (pack k (AddIfStmt e viol))" "calm C t'" "calm C e'"
    using assms(5,6) by (auto simp: sunk_from_def)
  have "same_exec I (IfThenElse c t' (Some e')) (IfThenElse c (pack k (AddIfStmt t viol)) (Some (pack k (AddIfStmt e viol))))"
    by (rule same_If) (rule sub)+
  moreover have "same_exec I \<dots> (pack k (IfThenElse c (AddIfStmt t viol) (Some (AddIfStmt e viol))))"
    using pack_okD(3) [OF assms(1,2), of "AddIfStmt t viol" "Some (AddIfStmt e viol)"] assms(3,4) by simp
  moreover have "same_exec I \<dots> (pack k (AddIfStmt (IfThenElse c t (Some e)) viol))"
    by (rule pack_okD(2) [OF assms(1)]) (rule same_sym, rule same_AddIf_If)
  ultimately have "same_exec I (IfThenElse c t' (Some e')) (pack k (AddIfStmt (IfThenElse c t (Some e)) viol))"
    by (blast intro: same_trans)
  then show ?thesis using sub assms(3) by (auto simp: sunk_from_def)
qed

text \<open>A branch that is no condition is packed as it is.\<close>

lemma sunk_sub:
  assumes "pack_ok I C k" "calm C t" "set viol \<subseteq> set C"
    and "is_if t \<Longrightarrow> sunk_from I C k root viol sats t (sink_cond k root viol sats t)"
  shows "sunk_from I C k root viol sats t (if is_if t then sink_cond k root viol sats t else (pack k (AddIfStmt t viol), sats))"
  using assms sunk_pack by simp

lemma sunk_any_root:
  assumes "sunk_from I C k False viol (if root then [] else sats) s (r, sats')"
  shows "sunk_from I C k root viol sats s (if root then (AddIfStmt r sats', sats) else (r, sats'))"
  using assms sunk_root by (cases root) auto

lemma sink_root_snd: "snd (sink_cond k True viol sats s) = sats"
  by (cases "(k, True, viol, sats, s)" rule: sink_cond.cases) (auto simp: Let_def split: prod.split)

lemma sunk_branch:
  assumes "pack_ok I C k" "calm C t" "set viol \<subseteq> set C"
    and "is_if t \<Longrightarrow> sunk_from I C k True viol sats t (sink_cond k True viol sats t)"
  shows "sunk_from I C k True viol sats t
    (if is_if t then fst (sink_cond k True viol sats t) else pack k (AddIfStmt t viol), sats)"
  using sunk_sub [OF assms] sink_root_snd [of k viol sats t] by (cases "sink_cond k True viol sats t") (auto split: if_splits)

lemma sink_cond_sunk:
  assumes "pack_ok I C k"
  shows "is_if s \<Longrightarrow> calm C s \<Longrightarrow> set viol \<subseteq> set C \<Longrightarrow> sunk_from I C k root viol sats s (sink_cond k root viol sats s)"
  using assms
proof (induction k root viol sats s rule: sink_cond.induct)
  case (1 k root viol sats c t)
  define sats0 where "sats0 = (if root then [] else sats)"
  define sats1 where "sats1 = (if judge k c then sats0 @ [c] else sats0)"
  define viol1 where "viol1 = (if judge k c then viol else viol @ [c])"
  obtain r sats' where r: "(if is_if t then sink_cond k False viol1 sats1 t else (pack k (AddIfStmt t viol1), sats1)) = (r, sats')"
    by fastforce
  have ct: "calm C t" "c \<in> set C" using "1.prems" by auto
  have viol1: "set viol1 \<subseteq> set C" using "1.prems" ct by (auto simp: viol1_def)
  have "sunk_from I C k False viol1 sats1 t (r, sats')"
    unfolding r [symmetric]
  proof (rule sunk_sub [OF "1.prems"(4) ct(1) viol1])
    assume "is_if t"
    then show "sunk_from I C k False viol1 sats1 t (sink_cond k False viol1 sats1 t)"
      using "1.IH" [OF sats0_def sats1_def viol1_def] ct viol1 "1.prems" by simp
  qed
  then have "sunk_from I C k False viol sats0 (IfThenElse c t None) (r, sats')"
    using sunk_then [OF "1.prems"(4), of c t viol sats0 r sats'] "1.prems"
    by (auto simp: sats1_def viol1_def sunk_from_def)
  moreover have "sink_cond k root viol sats (IfThenElse c t None) = (if root then (AddIfStmt r sats', sats) else (r, sats'))"
    unfolding sink_cond.simps Let_def sats0_def [symmetric] sats1_def [symmetric] viol1_def [symmetric] r by simp
  ultimately show ?case using sunk_any_root unfolding sats0_def by simp
next
  case (2 k root viol sats c t e)
  define sats0 where "sats0 = (if root then [] else sats)"
  have C: "calm C t" "calm C e" "c \<in> set C" using "2.prems" by auto
  show ?case
  proof (cases "\<not> judge k c \<or> \<not> support_else k")
    case True
    then show ?thesis using sunk_any_root [OF sunk_pack [OF "2.prems"(4,2,3)]] by (simp add: Let_def)
  next
    case False
    define t' where "t' = (if is_if t then fst (sink_cond k True viol sats0 t) else pack k (AddIfStmt t viol))"
    define e' where "e' = (if is_if e then fst (sink_cond k True viol sats0 e) else pack k (AddIfStmt e viol))"
    have "sunk_from I C k True viol sats0 t (t', sats0)"
      unfolding t'_def by (rule sunk_branch [OF "2.prems"(4) C(1) "2.prems"(3)])
        (use "2.IH"(1) [OF sats0_def False] C "2.prems" in simp)
    moreover have "sunk_from I C k True viol sats0 e (e', sats0)"
      unfolding e'_def by (rule sunk_branch [OF "2.prems"(4) C(2) "2.prems"(3)])
        (use "2.IH"(2) [OF sats0_def False] C "2.prems" in simp)
    ultimately have "sunk_from I C k False viol sats0 (IfThenElse c t (Some e)) (IfThenElse c t' (Some e'), sats0)"
      using False by (intro sunk_else [OF "2.prems"(4) _ "2.prems"(2,3)]) auto
    moreover have "sink_cond k root viol sats (IfThenElse c t (Some e)) =
        (if root then (AddIfStmt (IfThenElse c t' (Some e')) sats0, sats) else (IfThenElse c t' (Some e'), sats0))"
      unfolding sink_cond.simps Let_def sats0_def [symmetric] t'_def [symmetric] e'_def [symmetric] using False by simp
    ultimately show ?thesis using sunk_any_root unfolding sats0_def by simp
  qed
qed simp_all

lemma start_sink_same:
  assumes "pack_ok I C k" "is_if b" "calm C b"
  shows "calm C (start_sink k b)" "same_exec I (start_sink k b) (pack k b)"
  using sink_cond_sunk [OF assms, of "[]" True "[]"]
  by (auto simp: sunk_from_def start_sink_def)

text \<open>A node that executes its body as it is.\<close>

lemma transparent_pack_ok:
  assumes "\<And>s. calm C (f s) = calm C s" "\<And>s \<rho> \<sigma>. exec I (f s) \<rho> \<sigma> = exec I s \<rho> \<sigma>"
  shows "pack_ok I C \<lparr>judge = p, pack = f, support_else = x\<rparr>"
  using assms by (auto simp: pack_ok_def same_exec_def split: option.splits)

lemma loop_pack_ok: "pack_ok I C \<lparr>judge = (\<lambda>e. \<not> uses_var v e), pack = For v m x t, support_else = u\<rparr>"
proof -
  have loop: "same_exec I (For v m x t (IfThenElse c th e)) (IfThenElse c (For v m x t th) (map_option (For v m x t) e))"
    if v: "\<not> uses_var v c" and calm: "calm C (IfThenElse c th e)" for c th e
  proof -
    have body: "calm C th" "c \<in> set C" "\<And>s. e = Some s \<Longrightarrow> calm C s" using calm by (cases e; simp)+
    have c: "is_true I c (\<rho>(v := i)) \<sigma> = is_true I c \<rho> \<sigma>" for i \<rho> \<sigma> using eval_env [OF v] by (simp add: is_true_def)
    have "iterate (\<lambda>i \<sigma>. exec I (IfThenElse c th e) (\<rho>(v := i)) \<sigma>) xs \<sigma> =
        (if is_true I c \<rho> \<sigma> then iterate (\<lambda>i \<sigma>. exec I th (\<rho>(v := i)) \<sigma>) xs \<sigma>
         else (case e of Some s \<Rightarrow> iterate (\<lambda>i \<sigma>. exec I s (\<rho>(v := i)) \<sigma>) xs \<sigma> | None \<Rightarrow> Some \<sigma>))" for xs \<rho> \<sigma>
    proof (cases "is_true I c \<rho> \<sigma>")
      case True
      have "iterate (\<lambda>i \<sigma>. exec I (IfThenElse c th e) (\<rho>(v := i)) \<sigma>) xs \<sigma> = iterate (\<lambda>i \<sigma>. exec I th (\<rho>(v := i)) \<sigma>) xs \<sigma>"
        by (rule iterate_cong_inv [of xs "is_true I c \<rho>"])
          (use True c body(1,2) calm_eval in \<open>auto simp: c\<close>)
      with True show ?thesis by simp
    next
      case False
      show ?thesis
      proof (cases e)
        case None
        with False show ?thesis by (simp add: iterate_skip c)
      next
        case (Some s)
        have "iterate (\<lambda>i \<sigma>. exec I (IfThenElse c th e) (\<rho>(v := i)) \<sigma>) xs \<sigma> = iterate (\<lambda>i \<sigma>. exec I s (\<rho>(v := i)) \<sigma>) xs \<sigma>"
          by (rule iterate_cong_inv [of xs "\<lambda>\<sigma>. \<not> is_true I c \<rho> \<sigma>"])
            (use False c body(2) body(3) [OF Some] Some calm_eval in \<open>auto simp: c\<close>)
        with False Some show ?thesis by simp
      qed
    qed
    then have "exec I (For v m x t (IfThenElse c th e)) \<rho> \<sigma> =
        exec I (IfThenElse c (For v m x t th) (map_option (For v m x t) e)) \<rho> \<sigma>" for \<rho> \<sigma>
      by (simp only: exec.simps(5)) (simp split: option.split)
    then show ?thesis by (simp only: same_exec_def simp_thms)
  qed
  moreover have "same_exec I (For v m x t s) (For v m x t s')" if "same_exec I s s'" for s s'
  proof -
    have "exec I s = exec I s'" by (intro ext) (rule same_execD [OF that])
    then show ?thesis by (simp add: same_exec_def)
  qed
  ultimately show ?thesis by (simp add: pack_ok_def)
qed

lemma StmtSinker_same:
  assumes "calm C s"
  shows "calm C (StmtSinker s) \<and> same_exec I (StmtSinker s) s"
proof (cases "(s)" rule: StmtSinker.cases)
  case (1 v m x t b)
  with assms start_sink_same [OF loop_pack_ok [of I C v m x t True], of b] show ?thesis by simp
next
  case (2 n k e b)
  with assms start_sink_same [OF transparent_pack_ok [where f = "AttrStmt n k e"], of C I b] show ?thesis
    by (auto split: AttrNode.split)
next
  case (3 fn i ty bs c b)
  with assms start_sink_same [OF transparent_pack_ok [where f = "Realize fn i ty bs c"], of C I b] show ?thesis by simp
next
  case (4 fn p b)
  with assms start_sink_same [OF transparent_pack_ok [where f = "ProducerConsumer fn p"], of C I b] show ?thesis by simp
qed (use assms in simp_all)

section \<open>Shared conditions\<close>

lemma holds_Un: "set cs = set as \<union> set bs \<Longrightarrow> holds I cs \<rho> \<sigma> \<longleftrightarrow> holds I as \<rho> \<sigma> \<and> holds I bs \<rho> \<sigma>"
  by (auto simp: holds_def)

definition merges :: "Interp \<Rightarrow> Expr list \<Rightarrow> Stmt \<Rightarrow> Stmt \<Rightarrow> Stmt \<Rightarrow> bool" where
  "merges I C a b s \<longleftrightarrow> calm C s \<and> same_exec I s (Block a b)"

lemma ExtractCommonIf_merges:
  assumes "ExtractCommonIf f first second = Some (s, True)" "calm C first" "calm C second"
    and f: "\<And>a b ch leaf. calm C a \<Longrightarrow> calm C b \<Longrightarrow> f a b ch = Some (leaf, True) \<Longrightarrow> merges I C a b leaf"
  shows "merges I C first second s"
proof -
  from assms(1) obtain leaf0 leaf1 common rest0 rest1 cond0 cond1 leaf
    where e: "first = AddIfStmt leaf0 cond0" "second = AddIfStmt leaf1 cond1"
      "split_common cond0 cond1 = (common, rest0, rest1)"
      "f (AddIfStmt leaf0 rest0) (AddIfStmt leaf1 rest1) (common \<noteq> []) = Some (leaf, True)"
      "s = AddIfStmt leaf common"
    by (rule ExtractCommonIf_E) simp
  note sets = split_common_sets [OF e(3)]
  have calm: "calm C (AddIfStmt leaf0 rest0)" "calm C (AddIfStmt leaf1 rest1)" "set common \<subseteq> set C" "calm C leaf0"
    using assms(2,3) e(1,2) sets by auto
  have leaf: "calm C leaf" "same_exec I leaf (Block (AddIfStmt leaf0 rest0) (AddIfStmt leaf1 rest1))"
    using f [OF calm(1,2) e(4)] by (auto simp: merges_def)
  have "exec I s \<rho> \<sigma> = exec I (Block first second) \<rho> \<sigma>" for \<rho> \<sigma>
    using sets holds_Un [of cond0 common rest0] holds_Un [of cond1 common rest1] calm_holds [OF calm(4,3)]
    by (auto simp: e(1,2,5) exec_AddIfStmt same_execD [OF leaf(2)] split: option.split)
  with leaf(1) calm(3) e(5) show ?thesis by (simp add: merges_def same_exec_def)
qed

lemma ExtractCommonIf_rebuild:
  assumes "ExtractCommonIf (rebuild_if c) t e = Some (s, rst)" "calm C (IfThenElse c t (Some e))"
  shows "calm C s \<and> same_exec I s (IfThenElse c t (Some e))"
proof -
  from assms(1) obtain leaf0 leaf1 common rest0 rest1 cond0 cond1
    where e: "t = AddIfStmt leaf0 cond0" "e = AddIfStmt leaf1 cond1"
      "split_common cond0 cond1 = (common, rest0, rest1)"
      "s = AddIfStmt (IfThenElse c (AddIfStmt leaf0 rest0) (Some (AddIfStmt leaf1 rest1))) common"
    by (rule ExtractCommonIf_E) (auto simp: rebuild_if_def)
  note sets = split_common_sets [OF e(3)]
  have "exec I s \<rho> \<sigma> = exec I (IfThenElse c t (Some e)) \<rho> \<sigma>" for \<rho> \<sigma>
    using sets holds_Un [of cond0 common rest0] holds_Un [of cond1 common rest1]
    by (auto simp: e exec_AddIfStmt)
  with assms(2) sets show ?thesis by (auto simp: e same_exec_def)
qed

section \<open>Merging neighbours\<close>

fun exec_list :: "Interp \<Rightarrow> Stmt list \<Rightarrow> env \<Rightarrow> Memory \<Rightarrow> Memory option" where
  "exec_list I [] \<rho> \<sigma> = Some \<sigma>"
| "exec_list I (s # ss) \<rho> \<sigma> = (case exec I s \<rho> \<sigma> of None \<Rightarrow> None | Some \<sigma> \<Rightarrow> exec_list I ss \<rho> \<sigma>)"

lemma exec_list_append:
  "exec_list I (ss @ ts) \<rho> \<sigma> = (case exec_list I ss \<rho> \<sigma> of None \<Rightarrow> None | Some \<sigma> \<Rightarrow> exec_list I ts \<rho> \<sigma>)"
  by (induction ss arbitrary: \<sigma>) (auto split: option.split)

lemma exec_SearchStmts: "exec_list I (SearchStmts s) \<rho> \<sigma> = exec I s \<rho> \<sigma>"
  by (induction s arbitrary: \<sigma>) (auto simp: exec_list_append split: option.split)

lemma calm_SearchStmts: "calm C s \<Longrightarrow> e \<in> set (SearchStmts s) \<Longrightarrow> calm C e"
  by (induction s) auto

lemma make_blocks_exec: "make_blocks ss = Some s \<Longrightarrow> exec I s \<rho> \<sigma> = exec_list I ss \<rho> \<sigma>"
proof (induction ss arbitrary: s \<sigma> rule: make_blocks.induct)
  case (3 a b ss)
  then obtain r where r: "make_blocks (b # ss) = Some r" "s = make_block a r" by auto
  have "exec I r \<rho> \<tau> = exec_list I (b # ss) \<rho> \<tau>" for \<tau> by (rule "3.IH" [OF r(1)])
  then show ?case by (simp add: r(2) split: option.split)
qed (auto split: option.split)

lemma calm_make_blocks: "make_blocks ss = Some s \<Longrightarrow> calm C s \<longleftrightarrow> (\<forall>e \<in> set ss. calm C e)"
  by (induction ss arbitrary: s rule: make_blocks.induct) auto

text \<open>A function that processes a statement and keeps what it does.\<close>

definition preserves :: "Interp \<Rightarrow> Expr list \<Rightarrow> (Stmt \<Rightarrow> Stmt option) \<Rightarrow> bool" where
  "preserves I C f \<longleftrightarrow> (\<forall>s s'. calm C s \<longrightarrow> f s = Some s' \<longrightarrow> calm C s' \<and> same_exec I s' s)"

lemma preservesD:
  "preserves I C f \<Longrightarrow> calm C s \<Longrightarrow> f s = Some s' \<Longrightarrow> calm C s' \<and> exec I s' \<rho> \<sigma> = exec I s \<rho> \<sigma>"
  by (simp add: preserves_def same_exec_def)

text \<open>A statement that may be undefined does what a list of statements does.\<close>

definition stands_for :: "Interp \<Rightarrow> Expr list \<Rightarrow> Stmt option \<Rightarrow> Stmt list \<Rightarrow> bool" where
  "stands_for I C r ss \<longleftrightarrow>
     (case r of None \<Rightarrow> ss = [] | Some s \<Rightarrow> calm C s \<and> (\<forall>\<rho> \<sigma>. exec I s \<rho> \<sigma> = exec_list I ss \<rho> \<sigma>))"

lemma stands_for_simps [simp]:
  "stands_for I C None ss \<longleftrightarrow> ss = []"
  "stands_for I C (Some s) ss \<longleftrightarrow> calm C s \<and> (\<forall>\<rho> \<sigma>. exec I s \<rho> \<sigma> = exec_list I ss \<rho> \<sigma>)"
  by (simp_all add: stands_for_def)

lemma process_opt_stands_for:
  assumes "preserves I C process" "process_opt process ss = Some r" "\<forall>e \<in> set ss. calm C e"
  shows "stands_for I C r ss"
proof (cases "make_blocks ss")
  case None
  then show ?thesis using assms(2) by (simp add: process_opt_def)
next
  case (Some s)
  then obtain s' where s': "process s = Some s'" "r = Some s'" using assms(2) by (auto simp: process_opt_def)
  have "calm C s" using calm_make_blocks [OF Some] assms(3) by blast
  from preservesD [OF assms(1) this s'(1)] show ?thesis using make_blocks_exec [OF Some] s'(2) by simp
qed

lemma calm_If_opt:
  "calm C (IfThenElse c t e) \<longleftrightarrow> c \<in> set C \<and> calm C t \<and> (\<forall>s \<in> set (else_list e). calm C s)"
  by (cases e) (auto simp: else_list_def)

lemma exec_If_else_list:
  "exec I (IfThenElse c t e) \<rho> \<sigma> = (if is_true I c \<rho> \<sigma> then exec I t \<rho> \<sigma> else exec_list I (else_list e) \<rho> \<sigma>)"
  by (cases e) (auto simp: else_list_def split: option.split)

text \<open>The second statement does \<open>ts\<close> or \<open>es\<close>, as the condition of the first one holds or not.\<close>

lemma merge_If:
  assumes a: "a = IfThenElse c t0 e0" "calm C a"
    and t: "stands_for I C (Some t) (t0 # ts)" and e: "stands_for I C e (else_list e0 @ es)"
    and b: "\<And>\<rho> \<sigma>. exec I b \<rho> \<sigma> = (if is_true I c \<rho> \<sigma> then exec_list I ts \<rho> \<sigma> else exec_list I es \<rho> \<sigma>)"
  shows "merges I C a b (IfThenElse c t e)"
proof -
  have c: "c \<in> set C" using a by (simp add: calm_If_opt)
  have if_a: "exec I a \<rho> \<sigma> = (if is_true I c \<rho> \<sigma> then exec I t0 \<rho> \<sigma> else exec_list I (else_list e0) \<rho> \<sigma>)" for \<rho> \<sigma>
    unfolding a(1) by (rule exec_If_else_list)
  have "exec I (IfThenElse c t e) \<rho> \<sigma> = exec I (Block a b) \<rho> \<sigma>" for \<rho> \<sigma>
  proof -
    have "exec I (IfThenElse c t e) \<rho> \<sigma> =
        (if is_true I c \<rho> \<sigma> then exec_list I (t0 # ts) \<rho> \<sigma> else exec_list I (else_list e0 @ es) \<rho> \<sigma>)"
      using t e by (cases e) auto
    also have "\<dots> = (case exec I a \<rho> \<sigma> of None \<Rightarrow> None
        | Some \<sigma>' \<Rightarrow> if is_true I c \<rho> \<sigma> then exec_list I ts \<rho> \<sigma>' else exec_list I es \<rho> \<sigma>')"
      by (simp add: if_a exec_list_append split: option.split)
    also have "\<dots> = exec I (Block a b) \<rho> \<sigma>"
    proof (cases "exec I a \<rho> \<sigma>")
      case (Some \<sigma>')
      then show ?thesis using calm_eval [OF a(2) c Some, of \<rho>] by (simp add: b)
    qed simp
    finally show ?thesis .
  qed
  moreover have "calm C (IfThenElse c t e)" using t e c by (cases e) auto
  ultimately show ?thesis by (simp add: merges_def same_exec_def)
qed

definition negates :: "Interp \<Rightarrow> (Expr \<Rightarrow> Expr) \<Rightarrow> bool" where
  "negates I simplify \<longleftrightarrow> (\<forall>c \<rho> \<sigma>. is_true I (simplify (NotE c)) \<rho> \<sigma> \<longleftrightarrow> \<not> is_true I c \<rho> \<sigma>)"

lemma Merge_merges:
  assumes "preserves I C process" "negates I simplify" "calm C a" "calm C b"
    and m: "Merge simplify process a b = Some (Some s)"
  shows "merges I C a b s"
  using m
proof (cases "(simplify, process, a, b)" rule: Merge.cases)
  case (1 simplify' process' c0 t0 e0 c1 t1 e1)
  then have ab: "a = IfThenElse c0 t0 e0" "b = IfThenElse c1 t1 e1" by simp_all
  have calm: "calm C t0" "calm C t1" "\<forall>s \<in> set (else_list e0). calm C s" "\<forall>s \<in> set (else_list e1). calm C s"
    using assms(3,4) by (auto simp: ab calm_If_opt)
  show ?thesis
  proof (cases "c0 = c1")
    case True
    then obtain t e where t: "process (make_block t0 t1) = Some t"
      and e: "process_opt process (else_list e0 @ else_list e1) = Some e" and s: "s = IfThenElse c0 t e"
      using m by (auto simp: ab bind_eq_Some_conv)
    have "stands_for I C (Some t) [t0, t1]"
      using preservesD [OF assms(1) _ t] calm by (auto split: option.split)
    moreover have "stands_for I C e (else_list e0 @ else_list e1)"
      by (rule process_opt_stands_for [OF assms(1) e]) (use calm in auto)
    moreover have "exec I b \<rho> \<sigma> = (if is_true I c0 \<rho> \<sigma> then exec_list I [t1] \<rho> \<sigma> else exec_list I (else_list e1) \<rho> \<sigma>)" for \<rho> \<sigma>
      by (simp add: ab True exec_If_else_list del: exec.simps split: option.split)
    ultimately show ?thesis unfolding s by (rule merge_If [OF ab(1) assms(3)])
  next
    case False
    then have c: "c0 = simplify (NotE c1)" using m by (auto simp: ab split: if_splits)
    with False m obtain t e where t: "process_opt process (t0 # else_list e1) = Some (Some t)"
      and e: "process_opt process (else_list e0 @ [t1]) = Some e" and s: "s = IfThenElse c0 t e"
      by (auto simp: ab bind_eq_Some_conv)
    have "stands_for I C (Some t) (t0 # else_list e1)"
      by (rule process_opt_stands_for [OF assms(1) t]) (use calm in auto)
    moreover have "stands_for I C e (else_list e0 @ [t1])"
      by (rule process_opt_stands_for [OF assms(1) e]) (use calm in auto)
    moreover have "exec I b \<rho> \<sigma> = (if is_true I c0 \<rho> \<sigma> then exec_list I (else_list e1) \<rho> \<sigma> else exec_list I [t1] \<rho> \<sigma>)" for \<rho> \<sigma>
    proof -
      have "is_true I c0 \<rho> \<sigma> \<longleftrightarrow> \<not> is_true I c1 \<rho> \<sigma>" using assms(2) unfolding c by (simp add: negates_def)
      then show ?thesis by (simp add: ab exec_If_else_list del: exec.simps split: option.split)
    qed
    ultimately show ?thesis unfolding s by (rule merge_If [OF ab(1) assms(3)])
  qed
qed auto

section \<open>The loop over a block\<close>

lemma merge_loop_exec:
  assumes merge: "\<And>a b s. calm C a \<Longrightarrow> calm C b \<Longrightarrow> merge a b = Some (Some s) \<Longrightarrow> merges I C a b s"
  shows "merge_loop merge lst es new ch = Some (new', lst', ch') \<Longrightarrow> \<forall>e \<in> set (new @ lst # es). calm C e \<Longrightarrow>
     (\<forall>e \<in> set (new' @ [lst']). calm C e) \<and> (\<exists>zs. new' = new @ zs) \<and>
     exec_list I (new' @ [lst']) \<rho> \<sigma> = exec_list I (new @ lst # es) \<rho> \<sigma>"
proof (induction es arbitrary: lst new ch)
  case (Cons e es)
  then obtain r where r: "merge lst e = Some r" by (auto simp: bind_eq_Some_conv)
  show ?case
  proof (cases r)
    case None
    with r Cons.prems have "merge_loop merge e es (new @ [lst]) ch = Some (new', lst', ch')" by simp
    from Cons.IH [OF this] Cons.prems(2) show ?thesis by auto
  next
    case (Some s)
    with r Cons.prems(2) have s: "calm C s" "same_exec I s (Block lst e)"
      using merge [of lst e s] by (auto simp: merges_def)
    from Some r Cons.prems have "merge_loop merge s es new True = Some (new', lst', ch')" by simp
    from Cons.IH [OF this] Cons.prems(2) s(1)
    have "(\<forall>e \<in> set (new' @ [lst']). calm C e) \<and> (\<exists>zs. new' = new @ zs) \<and>
      exec_list I (new' @ [lst']) \<rho> \<sigma> = exec_list I (new @ s # es) \<rho> \<sigma>" by auto
    moreover have "exec_list I (new @ s # es) \<rho> \<sigma> = exec_list I (new @ lst # e # es) \<rho> \<sigma>"
      using same_execD [OF s(2)] by (auto simp: exec_list_append split: option.split)
    ultimately show ?thesis by simp
  qed
qed auto

text \<open>The first statement of the loop is the dummy, which nothing is merged with.\<close>

lemma merge_loop_start:
  assumes loop: "merge_loop merge no_stmt (e # es) [] ch = Some (new, lst, ch')" and start: "merge no_stmt e = Some None"
    and merge: "\<And>a b s. calm C a \<Longrightarrow> calm C b \<Longrightarrow> merge a b = Some (Some s) \<Longrightarrow> merges I C a b s"
    and "\<forall>e \<in> set (e # es). calm C e"
    and s: "make_blocks (tl new @ [lst]) = Some s"
  shows "calm C s \<and> exec I s \<rho> \<sigma> = exec_list I (e # es) \<rho> \<sigma>"
proof -
  have no: "calm C no_stmt" "exec I no_stmt \<rho> \<sigma> = Some \<sigma>" for \<sigma>
    by (simp_all add: no_stmt_def calm_def list_all_iff)
  have loop': "merge_loop merge e es [no_stmt] ch = Some (new, lst, ch')" using loop start by simp
  have "(\<forall>e \<in> set (new @ [lst]). calm C e) \<and> (\<exists>zs. new = [no_stmt] @ zs) \<and>
      exec_list I (new @ [lst]) \<rho> \<sigma> = exec_list I ([no_stmt] @ e # es) \<rho> \<sigma>"
    by (rule merge_loop_exec [OF merge loop']) (use no(1) assms(4) in auto)
  then obtain zs where zs: "new = no_stmt # zs" "\<forall>e \<in> set (zs @ [lst]). calm C e"
    "exec_list I (zs @ [lst]) \<rho> \<sigma> = exec_list I (e # es) \<rho> \<sigma>"
    using no(2) by auto
  then show ?thesis using make_blocks_exec [OF s] calm_make_blocks [OF s] by simp
qed

lemma TryToMergeIf_merges:
  assumes "preserves I C process" "negates I simplify" "calm C a" "calm C b"
    and "TryToMergeIf simplify process a b ch = Some (s, True)"
  shows "merges I C a b s"
proof -
  obtain e es where e: "SearchStmts a = e # es" using SearchStmts_Cons by blast
  obtain new lst ch' where loop: "merge_loop (Merge simplify process) no_stmt (SearchStmts a @ SearchStmts b) [] ch = Some (new, lst, ch')"
    and s: "make_blocks (tl new @ [lst]) = Some s"
    using assms(5) by (auto simp: TryToMergeIf_def bind_eq_Some_conv split: if_splits)
  have "calm C s \<and> exec I s \<rho> \<sigma> = exec_list I (e # es @ SearchStmts b) \<rho> \<sigma>" for \<rho> \<sigma>
    by (rule merge_loop_start [OF loop [unfolded e append_Cons] _ _ _ s])
      (use assms(3,4) calm_SearchStmts e in \<open>auto simp: no_stmt_def intro: Merge_merges [OF assms(1,2)]\<close>)
  moreover have "exec_list I (e # es @ SearchStmts b) \<rho> \<sigma> = exec I (Block a b) \<rho> \<sigma>" for \<rho> \<sigma>
    using exec_SearchStmts [of I a \<rho> \<sigma>] exec_SearchStmts [of I b \<rho>] unfolding e
    by (simp add: exec_list_append del: exec_list.simps(2) flip: append_Cons split: option.split)
  ultimately show ?thesis by (simp add: merges_def same_exec_def)
qed

lemma extract_merge_merges:
  assumes "preserves I C process" "negates I simplify" "calm C a" "calm C b"
    and "extract_merge simplify process a b = Some (Some s)"
  shows "merges I C a b s"
proof -
  have "ExtractCommonIf (TryToMergeIf simplify process) a b = Some (s, True)"
    using assms(5) by (auto simp: extract_merge_def bind_eq_Some_conv split: if_splits)
  then show ?thesis
    by (rule ExtractCommonIf_merges) (use assms TryToMergeIf_merges in blast)+
qed

lemma extract_cond_other: "\<not> is_if s \<Longrightarrow> extract_cond s = ([], s)"
  by (cases s) auto

lemma extract_merge_start:
  assumes "SearchStmts e = [e]"
  shows "extract_merge simplify process no_stmt e = Some None"
proof -
  obtain cs leaf where e: "extract_cond e = (cs, leaf)" by fastforce
  have "TryToMergeIf simplify process no_stmt e False = Some (no_stmt, False)"
    using assms by (simp add: TryToMergeIf_def no_stmt_def)
  moreover have "extract_cond no_stmt = ([], no_stmt)" by (simp add: no_stmt_def)
  ultimately show ?thesis using extract_cond_eq [OF e] e by (simp add: extract_merge_def ExtractCommonIf_def)
qed

lemma process_block_preserves: "negates I simplify \<Longrightarrow> preserves I C (process_block simplify n)"
proof (induction n)
  case (Suc n)
  show ?case unfolding preserves_def
  proof (intro allI impI)
    fix s s' assume "calm C s" and s': "process_block simplify (Suc n) s = Some s'"
    obtain e es where e: "SearchStmts s = e # es" using SearchStmts_Cons by blast
    obtain new lst ch' where
      loop: "merge_loop (extract_merge simplify (process_block simplify n)) no_stmt (SearchStmts s) [] False = Some (new, lst, ch')"
      and b: "make_blocks (tl new @ [lst]) = Some s'"
      using s' by (auto simp: bind_eq_Some_conv)
    have "calm C s' \<and> exec I s' \<rho> \<sigma> = exec_list I (e # es) \<rho> \<sigma>" for \<rho> \<sigma>
    proof (rule merge_loop_start [OF loop [unfolded e] _ _ _ b])
      show "extract_merge simplify (process_block simplify n) no_stmt e = Some None"
        by (intro extract_merge_start SearchStmts_no_Block [of e s]) (simp add: e)
    qed (use Suc extract_merge_merges \<open>calm C s\<close> calm_SearchStmts e in auto)
    then show "calm C s' \<and> same_exec I s' s"
      unfolding same_exec_def e [symmetric] exec_SearchStmts by blast
  qed
qed (simp add: preserves_def)

lemma ProcessBlock_same:
  "negates I simplify \<Longrightarrow> ProcessBlock simplify s = Some s' \<Longrightarrow> calm C s \<Longrightarrow> calm C s' \<and> same_exec I s' s"
  using process_block_preserves [of I simplify C "Suc (if_depth s)"] unfolding preserves_def ProcessBlock_def by blast

section \<open>The pass\<close>

lemma same_exec_eq: "same_exec I s s' \<longleftrightarrow> exec I s = exec I s'"
  by (auto simp: same_exec_def)

text \<open>A node whose body is processed before conditions are taken out of it.\<close>

lemma promote_node:
  assumes "pack_ok I C \<lparr>judge = j, pack = f, support_else = u\<rparr>" "calm C b' \<and> same_exec I b' b"
  shows "calm C (StmtSinker (f b')) \<and> same_exec I (StmtSinker (f b')) (f b)"
proof -
  have "calm C (f b')" "same_exec I (f b') (f b)"
    using pack_okD(1,2) [OF assms(1)] assms(2) by simp_all
  with StmtSinker_same [of C "f b'" I] show ?thesis using same_trans by blast
qed

lemma promote_same:
  assumes "negates I simplify"
  shows "promote simplify inner s = Some s' \<Longrightarrow> calm C s \<Longrightarrow> calm C s' \<and> same_exec I s' s"
  using assms
proof (induction simplify inner s arbitrary: s' rule: promote.induct)
  case (2 simplify inner c t e)
  then obtain t' e' r where e: "promote simplify False t = Some t'" "promote simplify False e = Some e'"
    "ExtractCommonIf (rebuild_if c) t' e' = Some (s', r)"
    by (auto simp: bind_eq_Some_conv)
  have "calm C t' \<and> same_exec I t' t" "calm C e' \<and> same_exec I e' e"
    using "2.IH"(1) [OF e(1)] "2.IH"(2) [OF e(1,2)] "2.prems" by auto
  then have "same_exec I (IfThenElse c t' (Some e')) (IfThenElse c t (Some e))" "calm C (IfThenElse c t' (Some e'))"
    using same_If(1) "2.prems"(2) by simp_all
  with ExtractCommonIf_rebuild [OF e(3), of C I] show ?case using same_trans by blast
next
  case (3 simplify inner a b)
  then obtain a' b' where e: "promote simplify True a = Some a'" "promote simplify True b = Some b'"
    "s' = make_block a' b' \<or> ProcessBlock simplify (make_block a' b') = Some s'"
    by (auto simp: bind_eq_Some_conv split: if_splits)
  have ab: "calm C a' \<and> same_exec I a' a" "calm C b' \<and> same_exec I b' b"
    using "3.IH"(1) [OF e(1)] "3.IH"(2) [OF e(1,2)] "3.prems" by auto
  then have "same_exec I (make_block a' b') (Block a b)" by (auto simp: same_exec_def split: option.split)
  moreover have "calm C s' \<and> same_exec I s' (make_block a' b')"
    using e(3) ProcessBlock_same [OF "3.prems"(3)] ab by auto
  ultimately show ?case using same_trans by blast
next
  case (4 simplify inner v m x t b)
  then show ?case using promote_node [OF loop_pack_ok [of I C v m x t True]] by auto
next
  case (5 simplify inner n k e b)
  then show ?case using promote_node [OF transparent_pack_ok [where f = "AttrStmt n k e"], of C I] by auto
next
  case (6 simplify inner fn i ty bs c b)
  then show ?case using promote_node [OF transparent_pack_ok [where f = "Realize fn i ty bs c"], of C I] by auto
next
  case (7 simplify inner fn p b)
  then show ?case using promote_node [OF transparent_pack_ok [where f = "ProducerConsumer fn p"], of C I] by auto
qed (auto simp: bind_eq_Some_conv same_exec_def)

text \<open>No write of the statement changes what a condition of it reads.\<close>

definition steady :: "Stmt \<Rightarrow> bool" where
  "steady s \<longleftrightarrow> calm (conditions s) s"

definition flip_less :: "Expr \<Rightarrow> Expr" where
  "flip_less e = (case e of NotE (Binary B_LT a b) \<Rightarrow> Binary B_GE a b | _ \<Rightarrow> e)"

lemma negates_flip_less: "negates I flip_less"
proof -
  have "is_true I (flip_less (NotE c)) \<rho> \<sigma> \<longleftrightarrow> \<not> is_true I c \<rho> \<sigma>" for c \<rho> \<sigma>
    by (auto simp: flip_less_def is_true_def split: Expr.split BinOp.split)
  then show ?thesis by (simp add: negates_def)
qed

text \<open>Two opposite conditions in a loop: the pass makes one of them, with two loops below it.\<close>

definition opposite_ifs :: Stmt where
  "opposite_ifs =
     (let i32 = Int_type 32; n = Variable (Var 1 ''n'' i32); i = Var 2 ''i'' i32; T = Func 3 ''T'' None;
          write = (\<lambda>k. Provide T 0 (IntImm i32 k) [Variable i])
      in For i (IntImm i32 5) (IntImm i32 1) FT_Serial
           (Block (IfThenElse (Binary B_GE n (IntImm i32 3)) (write 7) None)
                  (IfThenElse (Binary B_LT n (IntImm i32 3)) (write 8) None)))"

lemma opposite_ifs_merged:
  "\<exists>a b. PromoteIfStmt (\<lambda>s. s) flip_less opposite_ifs =
     Some (IfThenElse (Binary B_GE (Variable (Var 1 ''n'' (Int_type 32))) (IntImm (Int_type 32) 3)) a (Some b))"
  by (simp add: PromoteIfStmt_def opposite_ifs_def Let_def ProcessBlock_def no_stmt_def extract_merge_def
      ExtractCommonIf_def TryToMergeIf_def flip_less_def process_opt_def else_list_def start_sink_def numeral_2_eq_2)

text \<open>
  C22: The statement that the pass returns does the same, if nothing that the statement writes is read by its
  conditions and the simplifier and the cleaning before the pass do not change the meaning either.
\<close>

theorem promote_if_correct:
  assumes "steady (clean s)" "negates I simplify" "\<forall>\<rho> \<sigma>. exec I (clean s) \<rho> \<sigma> = exec I s \<rho> \<sigma>"
  shows "\<exists>s'. PromoteIfStmt clean simplify s = Some s' \<and> exec I s' \<rho> \<sigma> = exec I s \<rho> \<sigma>"
proof -
  obtain s' where s': "promote simplify False (clean s) = Some s'" using promote_total by blast
  with promote_same [OF assms(2) s', of "conditions (clean s)"] assms(1,3) show ?thesis
    by (simp add: PromoteIfStmt_def steady_def same_exec_def)
qed

theorem promote_if_correct_witness:
  "\<forall>I \<sigma>. \<exists>s'. PromoteIfStmt (\<lambda>s. s) flip_less opposite_ifs = Some s' \<and>
     exec I s' (\<lambda>_. 2) \<sigma> = Some (write_tensor (Func 3 ''T'' None) 0 [5] 8 \<sigma>)"
proof (intro allI)
  fix I \<sigma>
  have "steady opposite_ifs"
    by (simp add: steady_def calm_def opposite_ifs_def Let_def)
  from promote_if_correct [of "\<lambda>s. s", OF this negates_flip_less, of I "\<lambda>_. 2" \<sigma>]
  show "\<exists>s'. PromoteIfStmt (\<lambda>s. s) flip_less opposite_ifs = Some s' \<and>
     exec I s' (\<lambda>_. 2) \<sigma> = Some (write_tensor (Func 3 ''T'' None) 0 [5] 8 \<sigma>)"
    by (simp add: opposite_ifs_def Let_def is_true_def)
qed

end
