(* ===== verification/Composite_Util.thy ===== *)
theory Composite_Util
  imports Tvm_Types Cxx_Int
begin

text \<open>
  What the front end of composite operators shares (\<open>composite/utils/util.cc\<close>): the kinds of its
  operators, told apart by their names, and the constants of a shape. Then the functions of the
  C library that read and write its strings: \<open>operator>>\<close> of a stream, which splits at blanks,
  and \<open>strtol\<close>.
\<close>

section \<open>Operators\<close>

definition IsReduce_op :: "string \<Rightarrow> bool" where
  "IsReduce_op n \<longleftrightarrow> n \<in> {''ReduceSum'', ''ReduceProd'', ''ReduceMax'', ''ReduceMin'', ''Argmax'', ''Argmin''}"

definition IsTransform :: "string \<Rightarrow> bool" where
  "IsTransform n \<longleftrightarrow> n \<in> {''Reshape'', ''ExpandDims'', ''Squeeze'', ''Flatten''}"

definition IsOtherOp :: "string \<Rightarrow> bool" where
  "IsOtherOp n \<longleftrightarrow> n \<in>
     {''MatMul'', ''BatchMatMul'', ''Conv'', ''Transpose'', ''Tile'', ''Assign'', ''InplaceAssign'', ''EquivFormat'',
      ''TransData'', ''AddMinValue'', ''BroadcastTo'', ''PadAkg'', ''UnPadAkg'', ''Conv2D'', ''CumSum'', ''CumProd'',
      ''StridedSlice'', ''Custom'', ''GatherNd'', ''TensorScatterAdd'', ''UnsortedSegmentSum'', ''Gather'', ''OneHot'',
      ''tuple_getitem'', ''CSRMV'', ''CSRReduceSum'', ''CSRMul'', ''CSRDiv'', ''CSRGather'', ''CSR2COO'', ''COO2CSR'',
      ''ElemAny'', ''CSRMM'', ''Pool2D'', ''LayoutTransform''}"

definition IsElemwise :: "string \<Rightarrow> bool" where
  "IsElemwise n \<longleftrightarrow> \<not> IsReduce_op n \<and> \<not> IsTransform n \<and> \<not> IsOtherOp n"

section \<open>Shapes\<close>

text \<open>The \<open>uint64_t\<close> of a \<open>UIntImm\<close> becomes an \<open>int64_t\<close>.\<close>

definition const_value :: "Expr \<Rightarrow> int option" where
  "const_value e = (case e of IntImm ty i \<Rightarrow> Some i | UIntImm ty u \<Rightarrow> Some (sint u) | _ \<Rightarrow> None)"

fun ExtractIntVector :: "Expr list \<Rightarrow> int list res" where
  "ExtractIntVector [] = Ok []"
| "ExtractIntVector (e # es) =
     (case const_value e of
        None \<Rightarrow> Err Fatal
      | Some i \<Rightarrow> res_bind (ExtractIntVector es) (\<lambda>is. Ok (i # is)))"

lemma ExtractIntVector_iff: "ExtractIntVector sh = Ok is \<longleftrightarrow> map const_value sh = map Some is"
proof (induction sh arbitrary: "is")
  case (Cons e sh)
  then show ?case by (cases "is") (auto simp: res_bind_Ok_conv split: option.splits)
qed auto

text \<open>Dimensions are compared as expressions, from the last one on.\<close>

definition ShapeCanBroadcast :: "Expr list \<Rightarrow> Expr list \<Rightarrow> bool" where
  "ShapeCanBroadcast shape1 shape2 \<longleftrightarrow>
     length shape1 \<le> length shape2 \<and>
     list_all (\<lambda>i. shape1 ! i = shape2 ! (length shape2 - length shape1 + i) \<or> shape1 ! i = IntImm (Int_type 32) 1)
       [0..<length shape1]"

section \<open>The tensors of a statement\<close>

text \<open>What an attribute maps names to.\<close>

type_synonym Attrs = "string \<Rightarrow> Expr list option"

text \<open>The tensors a statement uses, each time with its shape.\<close>

fun arg_uses :: "Expr \<Rightarrow> (Func \<times> Expr list) list" where
  "arg_uses (CallE ty ct n shape fn i) = [(fn, shape)]"
| "arg_uses e = []"

fun provide_uses :: "Expr \<Rightarrow> (Func \<times> Expr list) list" where
  "provide_uses (CallE ty ct op args f i) = concat (map arg_uses args)"
| "provide_uses e = []"

fun tensor_uses :: "Stmt \<Rightarrow> (Func \<times> Expr list) list" where
  "tensor_uses (Provide fn i v shape) = provide_uses v @ [(fn, shape)]"
| "tensor_uses (LetStmt v e b) = tensor_uses b"
| "tensor_uses (AttrStmt n k e b) = tensor_uses b"
| "tensor_uses (AssertStmt c m b) = tensor_uses b"
| "tensor_uses (ProducerConsumer fn p b) = tensor_uses b"
| "tensor_uses (For v m x t b) = tensor_uses b"
| "tensor_uses (Allocate v t xs c b n) = tensor_uses b"
| "tensor_uses (Realize fn i ty bs c b) = tensor_uses b"
| "tensor_uses (Block a b) = tensor_uses a @ tensor_uses b"
| "tensor_uses (IfThenElse c t e) = tensor_uses t @ (case e of Some s \<Rightarrow> tensor_uses s | None \<Rightarrow> [])"
| "tensor_uses s = []"

lemma tensor_uses_make_block [simp]: "tensor_uses (make_block a b) = tensor_uses a @ tensor_uses b"
  by (induction a b rule: make_block.induct) simp_all

text \<open>What it stores where: the function, the value and the indices of every \<open>Provide\<close>.\<close>

fun provides :: "Stmt \<Rightarrow> (Func \<times> Expr \<times> Expr list) list" where
  "provides (Provide fn i v shape) = [(fn, v, shape)]"
| "provides (LetStmt v e b) = provides b"
| "provides (AttrStmt n k e b) = provides b"
| "provides (AssertStmt c m b) = provides b"
| "provides (ProducerConsumer fn p b) = provides b"
| "provides (For v m x t b) = provides b"
| "provides (Allocate v t xs c b n) = provides b"
| "provides (Realize fn i ty bs c b) = provides b"
| "provides (Block a b) = provides a @ provides b"
| "provides (IfThenElse c t e) = provides t @ (case e of Some s \<Rightarrow> provides s | None \<Rightarrow> [])"
| "provides s = []"

text \<open>A dimension that is a constant.\<close>

definition index_const :: "Expr \<Rightarrow> bool" where
  "index_const e \<longleftrightarrow> is_int (type_of e) \<and> (case const_value e of Some n \<Rightarrow> in_int64 n | None \<Rightarrow> False)"

text \<open>All shapes are constant, and tensors of one name have one shape.\<close>

definition uniform_shapes :: "Stmt \<Rightarrow> bool" where
  "uniform_shapes s \<longleftrightarrow>
     list_all (\<lambda>(fn, sh). list_all index_const sh \<and>
       list_all (\<lambda>(fn', sh'). func_name fn' = func_name fn \<longrightarrow> map const_value sh' = map const_value sh) (tensor_uses s))
     (tensor_uses s)"

lemma uniform_shapesD:
  assumes "uniform_shapes s" "(fn, sh) \<in> set (tensor_uses s)"
  shows "list_all index_const sh"
    and "(fn', sh') \<in> set (tensor_uses s) \<Longrightarrow> func_name fn' = func_name fn \<Longrightarrow> map const_value sh' = map const_value sh"
  using assms unfolding uniform_shapes_def list_all_iff by blast+

text \<open>Operators, their operands and the statements that store what they compute, for examples.\<close>

definition op_call :: "string \<Rightarrow> Expr list \<Rightarrow> Expr" where
  "op_call op args = CallE (Float_type 32) CT_PureIntrinsic op args (Func 0 op None) 0"

definition op_tensor :: "string \<Rightarrow> int list \<Rightarrow> Expr" where
  "op_tensor name shape = CallE (Float_type 32) CT_Halide name (map (IntImm (Int_type 32)) shape) (Func 0 name None) 0"

definition op_out :: "string \<Rightarrow> Expr \<Rightarrow> int list \<Rightarrow> Stmt" where
  "op_out name e shape = Provide (Func 0 name None) 0 e (map (IntImm (Int_type 32)) shape)"

section \<open>Strings\<close>

definition isspace :: "char \<Rightarrow> bool" where
  "isspace c \<longleftrightarrow> c = CHR 0x20 \<or> 9 \<le> (of_char c :: nat) \<and> (of_char c :: nat) \<le> 13"

text \<open>The words that \<open>iss >> s\<close> reads one after the other.\<close>

function stream_words :: "string \<Rightarrow> string list" where
  "stream_words s =
     (case dropWhile isspace s of
        [] \<Rightarrow> []
      | c # cs \<Rightarrow> (c # takeWhile (\<lambda>c. \<not> isspace c) cs) # stream_words (dropWhile (\<lambda>c. \<not> isspace c) cs))"
  by pat_completeness auto

termination stream_words
proof (relation "measure length")
  fix s c cs assume "dropWhile isspace s = c # cs"
  then have "length (c # cs) \<le> length s" by (metis length_dropWhile_le)
  moreover have "length (dropWhile (\<lambda>c. \<not> isspace c) cs) \<le> length cs" by (rule length_dropWhile_le)
  ultimately show "(dropWhile (\<lambda>c. \<not> isspace c) cs, s) \<in> measure length" by simp
qed simp

declare stream_words.simps [simp del]

text \<open>\<open>strtol\<close> with base 10 on a 64-bit Linux: the value saturates, and the rest of the string is
  what \<open>endptr\<close> points to, the whole string if there are no digits.\<close>

definition LONG_MAX :: int where
  "LONG_MAX = 2 ^ 63 - 1"

definition LONG_MIN :: int where
  "LONG_MIN = - (2 ^ 63)"

definition strtol :: "string \<Rightarrow> int \<times> string" where
  "strtol s =
     (let t = dropWhile isspace s;
          negative = (t \<noteq> [] \<and> hd t = CHR ''-'');
          u = (if t \<noteq> [] \<and> (hd t = CHR ''-'' \<or> hd t = CHR ''+'') then tl t else t);
          ds = takeWhile isdigit u;
          n = int (number_of_digits 10 ds)
      in if ds = [] then (0, s)
         else (if negative then max LONG_MIN (- n) else min LONG_MAX n, dropWhile isdigit u))"

text \<open>\<open>c_str()\<close>: the characters up to the first \<open>NUL\<close>.\<close>

definition c_str :: "string \<Rightarrow> string" where
  "c_str s = takeWhile (\<lambda>c. c \<noteq> NUL) s"

lemma isspace_simps [simp]: "isspace (CHR 0x20)"
  by (simp add: isspace_def)

lemma isdigit_not_space: "isdigit c \<Longrightarrow> \<not> isspace c"
  by (auto simp: isdigit_def isspace_def)

lemma show_int_chars: "c \<in> set (show_int i) \<Longrightarrow> isdigit c \<or> c = CHR ''-''"
  by (auto simp: show_int_def dec_digits_isdigit split: if_splits)

lemma show_int_nonempty [simp]: "show_int i \<noteq> []"
  by (simp add: show_int_def)

lemma show_int_plain: "c \<in> set (show_int i) \<Longrightarrow> \<not> isspace c \<and> c \<noteq> NUL"
  using show_int_chars [of c i] isdigit_not_space by (fastforce simp: isdigit_def NUL_def isspace_def)

lemma c_str_show_int [simp]: "c_str (show_int i) = show_int i"
  unfolding c_str_def by (rule takeWhile_eq_all_conv [THEN iffD2]) (use show_int_plain in blast)

lemma strtol_digits:
  assumes "ds \<noteq> []" "\<forall>c \<in> set ds. isdigit c"
  shows "strtol ds = (min LONG_MAX (int (number_of_digits 10 ds)), [])"
    and "strtol (CHR ''-'' # ds) = (max LONG_MIN (- int (number_of_digits 10 ds)), [])"
proof -
  obtain c cs where ds: "ds = c # cs" using assms(1) by (cases ds) auto
  have "isdigit c" using assms(2) ds by simp
  then have c: "\<not> isspace c" "c \<noteq> CHR ''-''" "c \<noteq> CHR ''+''" by (auto simp: isdigit_def isspace_def)
  have digits: "takeWhile isdigit ds = ds" "dropWhile isdigit ds = []" "dropWhile isspace ds = ds"
    using assms c ds by (simp_all add: takeWhile_eq_all_conv dropWhile_eq_Nil_conv)
  have "\<not> isspace (CHR ''-'')" by (simp add: isspace_def)
  with digits c ds show "strtol (CHR ''-'' # ds) = (max LONG_MIN (- int (number_of_digits 10 ds)), [])"
    by (simp add: strtol_def Let_def)
  from digits c ds show "strtol ds = (min LONG_MAX (int (number_of_digits 10 ds)), [])"
    by (simp add: strtol_def Let_def)
qed

lemma strtol_show_int: "in_int64 i \<Longrightarrow> strtol (show_int i) = (i, [])"
  using strtol_digits [of "dec_digits (nat (- i))"] strtol_digits [of "dec_digits (nat i)"]
  by (auto simp: show_int_def dec_digits_isdigit LONG_MAX_def LONG_MIN_def in_int64_def)

lemma stream_words_space: "isspace c \<Longrightarrow> stream_words (c # s) = stream_words s"
  by (simp add: stream_words.simps [of "c # s"] stream_words.simps [of s])

lemma stream_words_word:
  assumes "w \<noteq> []" "\<forall>c \<in> set w. \<not> isspace c" "s = [] \<or> isspace (hd s)"
  shows "stream_words (w @ s) = w # stream_words s"
proof -
  obtain c cs where w: "w = c # cs" using assms(1) by (cases w) auto
  have "takeWhile (\<lambda>c. \<not> isspace c) (cs @ s) = cs" "dropWhile (\<lambda>c. \<not> isspace c) (cs @ s) = s"
    using assms(2,3) w by (cases s; simp)+
  with assms(2) w show ?thesis by (simp add: stream_words.simps [of "c # cs @ s"])
qed

end
