(* ===== verification/Composite_Peel.thy ===== *)
theory Composite_Peel
  imports Composite_Util
begin

text \<open>
  \<open>composite/utils/dimension_peeling.cc\<close>: which dimensions of a composite operator can be split off.
  \<open>AffinityAnalyzer\<close> relates the dimensions of the inputs of each operator to those of its output;
  \<open>DimensionPeeler\<close> takes the dimensions of one dominating tensor as axes, follows the relations to
  the dimensions of the other tensors that go with an axis, lists the ways to split the axes and
  divides the shapes in a statement accordingly.

  Tensors and their dimensions refer to each other; they are numbered, a tensor by its place in
  \<open>tensors_\<close> and a dimension by its tensor and its place there, and a null pointer is \<open>None\<close>. In
  the statements of composite operators a \<open>Provide\<close> has the operator as its value and shapes
  where other statements have indices. What an attribute maps names to is the parameter
  \<open>map_node\<close>; reading a name that is not there is an exception.
\<close>

section \<open>AffinityAnalyzer\<close>

datatype Affinity = AF_NONE | AF_ELEMWISE | AF_BROADCAST | AF_REDUCE | AF_RESHAPE

type_synonym dim_ref = "nat \<times> nat"

record Dim =
  dim_size :: int
  dim_prod :: "(dim_ref \<times> Affinity) list"
  dim_cons :: "(dim_ref option \<times> Affinity) list"

record AffTensor =
  aff_ref :: Func
  aff_op :: string
  aff_prod :: "nat list"
  aff_cons :: "nat list"
  aff_dims :: "Dim list"

record AffinityAnalyzer =
  tensors :: "AffTensor list"
  tensor_map :: "Func \<Rightarrow> nat option"
  attrs :: Attrs

definition dims_of :: "AffinityAnalyzer \<Rightarrow> nat \<Rightarrow> Dim list" where
  "dims_of an t = aff_dims (tensors an ! t)"

definition get_dim :: "AffinityAnalyzer \<Rightarrow> dim_ref \<Rightarrow> Dim" where
  "get_dim an d = dims_of an (fst d) ! snd d"

definition upd_tensor :: "nat \<Rightarrow> (AffTensor \<Rightarrow> AffTensor) \<Rightarrow> AffinityAnalyzer \<Rightarrow> AffinityAnalyzer" where
  "upd_tensor t f an = an\<lparr>tensors := (tensors an)[t := f (tensors an ! t)]\<rparr>"

definition upd_dim :: "dim_ref \<Rightarrow> (Dim \<Rightarrow> Dim) \<Rightarrow> AffinityAnalyzer \<Rightarrow> AffinityAnalyzer" where
  "upd_dim d f an = upd_tensor (fst d) (\<lambda>t. t\<lparr>aff_dims := (aff_dims t)[snd d := f (aff_dims t ! snd d)]\<rparr>) an"

text \<open>The pair of \<open>emplace_back\<close>s that records a relation.\<close>

definition relate :: "dim_ref \<Rightarrow> dim_ref \<Rightarrow> Affinity \<Rightarrow> AffinityAnalyzer \<Rightarrow> AffinityAnalyzer" where
  "relate p c af an =
     upd_dim p (\<lambda>d. d\<lparr>dim_cons := dim_cons d @ [(Some c, af)]\<rparr>)
       (upd_dim c (\<lambda>d. d\<lparr>dim_prod := dim_prod d @ [(p, af)]\<rparr>) an)"

definition NewTensor :: "Func \<Rightarrow> string \<Rightarrow> Expr list \<Rightarrow> AffinityAnalyzer \<Rightarrow> (nat \<times> AffinityAnalyzer) res" where
  "NewTensor fn op shape an =
     res_bind (ExtractIntVector shape) (\<lambda>dims.
       let t = \<lparr>aff_ref = fn, aff_op = op, aff_prod = [], aff_cons = [],
                aff_dims = map (\<lambda>n. \<lparr>dim_size = n, dim_prod = [], dim_cons = []\<rparr>) dims\<rparr>
       in Ok (length (tensors an),
            an\<lparr>tensors := tensors an @ [t], tensor_map := (tensor_map an)(fn := Some (length (tensors an)))\<rparr>))"

definition AddElemBroadRelation :: "nat \<Rightarrow> nat \<Rightarrow> AffinityAnalyzer \<Rightarrow> AffinityAnalyzer res" where
  "AddElemBroadRelation input output an =
     (let n = length (dims_of an input); m = length (dims_of an output); dim_offset = m - n in
      res_bind (CHECK (n \<le> m)) (\<lambda>_.
        Ok (fold (\<lambda>i an.
              let prod_dim = (input, i - dim_offset); cons_dim = (output, i) in
              relate prod_dim cons_dim
                (if dim_size (get_dim an prod_dim) = dim_size (get_dim an cons_dim) then AF_ELEMWISE else AF_BROADCAST) an)
            [dim_offset..<m] an)))"

text \<open>The next dimension of the output is read for every dimension of the input, whether it is
  needed or not.\<close>

definition reduce_dim :: "nat \<Rightarrow> nat \<Rightarrow> int list \<Rightarrow> bool \<Rightarrow> nat \<Rightarrow> AffinityAnalyzer \<times> nat \<Rightarrow> (AffinityAnalyzer \<times> nat) res" where
  "reduce_dim input output axis keep_dim i r =
     (case r of (an, output_idx) \<Rightarrow>
      res_bind (guard (output_idx < length (dims_of an output)) Out_of_bounds) (\<lambda>_.
        let prod_dim = (input, i); cons_dim = (output, output_idx) in
        if int i \<in> set axis then
          if keep_dim then Ok (relate prod_dim cons_dim AF_REDUCE an, output_idx + 1)
          else Ok (upd_dim prod_dim (\<lambda>d. d\<lparr>dim_cons := dim_cons d @ [(None, AF_REDUCE)]\<rparr>) an, output_idx)
        else Ok (relate prod_dim cons_dim AF_ELEMWISE an, output_idx + 1)))"

definition AddReduceRelation :: "nat \<Rightarrow> nat \<Rightarrow> AffinityAnalyzer \<Rightarrow> AffinityAnalyzer res" where
  "AddReduceRelation input output an =
     (case attrs an ''axis'' of
        None \<Rightarrow> Err Fatal
      | Some axis \<Rightarrow>
          res_bind (ExtractIntVector axis) (\<lambda>axis_vec.
            let keep_dim = (length (dims_of an input) = length (dims_of an output)) in
            res_bind (for_each (reduce_dim input output axis_vec keep_dim) [0..<length (dims_of an input)] (an, 0))
              (\<lambda>(an, output_idx). Ok an)))"

definition AddTransposeRelation :: "nat \<Rightarrow> nat \<Rightarrow> AffinityAnalyzer \<Rightarrow> AffinityAnalyzer res" where
  "AddTransposeRelation input output an =
     (case attrs an ''perm'' of
        None \<Rightarrow> Err Fatal
      | Some axis \<Rightarrow> res_bind (ExtractIntVector axis) (\<lambda>perm. Ok an))"

fun collect_inputs :: "Expr list \<Rightarrow> AffinityAnalyzer \<Rightarrow> (nat list \<times> AffinityAnalyzer) res" where
  "collect_inputs [] an = Ok ([], an)"
| "collect_inputs (CallE ty ct n args fn i # es) an =
     res_bind (case tensor_map an fn of Some t \<Rightarrow> Ok (t, an) | None \<Rightarrow> NewTensor fn ''Para'' args an) (\<lambda>(t, an).
     res_bind (collect_inputs es an) (\<lambda>(ts, an). Ok (t # ts, an)))"
| "collect_inputs (e # es) an = collect_inputs es an"

definition add_relations :: "string \<Rightarrow> nat list \<Rightarrow> nat \<Rightarrow> AffinityAnalyzer \<Rightarrow> AffinityAnalyzer res" where
  "add_relations op inputs output an =
     (if IsElemwise op \<or> op = ''BroadcastTo'' then for_each (\<lambda>input. AddElemBroadRelation input output) inputs an
      else if IsReduce_op op then
        res_bind (CHECK (length inputs = 1)) (\<lambda>_. AddReduceRelation (inputs ! 0) output an)
      else if op = ''InplaceAssign'' then
        res_bind (CHECK (length inputs = 3)) (\<lambda>_.
        res_bind (AddElemBroadRelation (inputs ! 1) (inputs ! 0) an) (AddElemBroadRelation (inputs ! 2) output))
      else if op = ''Transpose'' then res_bind (vec_at inputs 0) (\<lambda>input. AddTransposeRelation input output an)
      else Err Fatal)"

text \<open>\<open>t->cons\<close> gets \<open>t\<close> itself; nothing reads it.\<close>

definition link_tensor :: "nat \<Rightarrow> nat \<Rightarrow> AffinityAnalyzer \<Rightarrow> AffinityAnalyzer" where
  "link_tensor output t an =
     upd_tensor t (\<lambda>x. x\<lparr>aff_cons := aff_cons x @ [t]\<rparr>)
       (upd_tensor output (\<lambda>x. x\<lparr>aff_prod := aff_prod x @ [t]\<rparr>) an)"

definition visit_provide :: "Func \<Rightarrow> Expr \<Rightarrow> Expr list \<Rightarrow> AffinityAnalyzer \<Rightarrow> AffinityAnalyzer res" where
  "visit_provide fn v shape an =
     (case v of
        CallE ty ct op args f i \<Rightarrow>
          res_bind (collect_inputs args an) (\<lambda>(inputs, an).
          res_bind (NewTensor fn op shape an) (\<lambda>(output, an).
            add_relations op inputs output (fold (link_tensor output) inputs an)))
      | _ \<Rightarrow> Err Null_pointer)"

fun visit_stmt :: "(AttrNode \<Rightarrow> Attrs option) \<Rightarrow> Stmt \<Rightarrow> AffinityAnalyzer \<Rightarrow> AffinityAnalyzer res" where
  "visit_stmt map_node (AttrStmt n k e b) an =
     (if k = ''attrs'' then
        (case map_node n of None \<Rightarrow> Err Fatal | Some m \<Rightarrow> visit_stmt map_node b (an\<lparr>attrs := m\<rparr>))
      else visit_stmt map_node b an)"
| "visit_stmt map_node (Provide fn i v shape) an = visit_provide fn v shape an"
| "visit_stmt map_node (LetStmt v e b) an = visit_stmt map_node b an"
| "visit_stmt map_node (AssertStmt c m b) an = visit_stmt map_node b an"
| "visit_stmt map_node (ProducerConsumer fn p b) an = visit_stmt map_node b an"
| "visit_stmt map_node (For v m x t b) an = visit_stmt map_node b an"
| "visit_stmt map_node (Allocate v t xs c b n) an = visit_stmt map_node b an"
| "visit_stmt map_node (Realize fn i ty bs c b) an = visit_stmt map_node b an"
| "visit_stmt map_node (Block a b) an = res_bind (visit_stmt map_node a an) (visit_stmt map_node b)"
| "visit_stmt map_node (IfThenElse c t e) an =
     res_bind (visit_stmt map_node t an) (\<lambda>an. case e of Some s \<Rightarrow> visit_stmt map_node s an | None \<Rightarrow> Ok an)"
| "visit_stmt map_node s an = Ok an"

definition AffinityAnalyzer_Analyze :: "(AttrNode \<Rightarrow> Attrs option) \<Rightarrow> Stmt \<Rightarrow> AffinityAnalyzer res" where
  "AffinityAnalyzer_Analyze map_node s =
     visit_stmt map_node s \<lparr>tensors = [], tensor_map = (\<lambda>_. None), attrs = (\<lambda>_. None)\<rparr>"

section \<open>DimensionPeeler\<close>

type_synonym Peeling = "(int \<times> int) list"

record PeelAxis =
  axis_size :: int
  peel_val :: "int list"

record DimensionPeeler =
  axis_space :: "PeelAxis list"
  dim_map :: "string \<Rightarrow> int list option"

definition GetDivisors :: "int \<Rightarrow> int list" where
  "GetDivisors n = filter (\<lambda>d. n mod d = 0) (rev [2..n])"

definition DomLevel :: "string \<Rightarrow> int" where
  "DomLevel op =
     (if IsElemwise op \<or> op = ''InplaceAssign'' \<or> op = ''Assign'' \<or> op = ''BroadcastTo'' then 1
      else if IsTransform op then 2
      else if IsReduce_op op then 3
      else if IsOtherOp op then 4
      else 0)"

definition dom_tensor :: "AffinityAnalyzer \<Rightarrow> nat option" where
  "dom_tensor an =
     fst (fold (\<lambda>t (domt, dom_level).
            let l = DomLevel (aff_op (tensors an ! t)) in if l > dom_level then (Some t, l) else (domt, dom_level))
          (rev [0..<length (tensors an)]) (None, -1))"

definition BuildAxisSpace :: "AffinityAnalyzer \<Rightarrow> (nat \<times> PeelAxis list) res" where
  "BuildAxisSpace an =
     (case dom_tensor an of
        None \<Rightarrow> Err Null_pointer
      | Some domt \<Rightarrow>
          res_bind (if IsReduce_op (aff_op (tensors an ! domt)) then vec_at (aff_prod (tensors an ! domt)) 0 else Ok domt) (\<lambda>domt.
            Ok (domt, map (\<lambda>d. \<lparr>axis_size = int_of_int64 (dim_size d), peel_val = GetDivisors (dim_size d)\<rparr>) (dims_of an domt))))"

definition AddDimMap :: "AffinityAnalyzer \<Rightarrow> dim_ref \<Rightarrow> nat \<Rightarrow> DimensionPeeler \<Rightarrow> DimensionPeeler" where
  "AddDimMap an d axis_idx pr =
     (let name = func_name (aff_ref (tensors an ! fst d));
          m = (case dim_map pr name of Some m \<Rightarrow> m | None \<Rightarrow> replicate (length (axis_space pr)) (- 1))
      in pr\<lparr>dim_map := (dim_map pr)(name := Some (m[axis_idx := int (snd d)]))\<rparr>)"

definition Propagation ::
    "AffinityAnalyzer \<Rightarrow> nat \<Rightarrow> dim_ref option \<Rightarrow> Affinity \<Rightarrow> DimensionPeeler \<Rightarrow> (bool \<times> DimensionPeeler) res" where
  "Propagation an axis_idx to af pr =
     (case af of
        AF_ELEMWISE \<Rightarrow> (case to of None \<Rightarrow> Err Null_pointer | Some d \<Rightarrow> Ok (True, AddDimMap an d axis_idx pr))
      | AF_BROADCAST \<Rightarrow> Ok (False, pr)
      | AF_REDUCE \<Rightarrow>
          Ok (False, pr\<lparr>axis_space := (axis_space pr)[axis_idx := (axis_space pr ! axis_idx)\<lparr>peel_val := []\<rparr>]\<rparr>)
      | _ \<Rightarrow> Err Fatal)"

text \<open>What the two visitors of \<open>MapDimToSpace\<close> share.\<close>

record Walk =
  peeler :: DimensionPeeler
  visited :: "dim_ref set"
  prod_visit :: "dim_ref list"
  cons_visit :: "dim_ref list"

definition is_visited :: "dim_ref option \<Rightarrow> Walk \<Rightarrow> bool" where
  "is_visited d w \<longleftrightarrow> (case d of None \<Rightarrow> False | Some d \<Rightarrow> d \<in> visited w)"

text \<open>\<open>back\<close> are the dimensions on the other side of the one visited; if one of them has not been
  visited, \<open>keep\<close> keeps the dimension for the search in that direction.\<close>

definition visit_dim :: "AffinityAnalyzer \<Rightarrow> nat \<Rightarrow> (Dim \<Rightarrow> dim_ref option list) \<Rightarrow> (dim_ref \<Rightarrow> Walk \<Rightarrow> Walk) \<Rightarrow>
    dim_ref option \<Rightarrow> Affinity \<Rightarrow> Walk \<Rightarrow> (bool \<times> Walk) res" where
  "visit_dim an axis_idx back keep d af w =
     (if is_visited d w then Ok (False, w)
      else
        let w = (case d of Some d \<Rightarrow> w\<lparr>visited := insert d (visited w)\<rparr> | None \<Rightarrow> w) in
        res_bind (Propagation an axis_idx d af (peeler w)) (\<lambda>(propagate, pr).
          let w = w\<lparr>peeler := pr\<rparr> in
          if \<not> propagate then Ok (False, w)
          else case d of
            None \<Rightarrow> Err Null_pointer
          | Some d \<Rightarrow> Ok (True, if \<exists>c \<in> set (back (get_dim an d)). \<not> is_visited c w then keep d w else w)))"

definition prods_of :: "Dim \<Rightarrow> (dim_ref option \<times> Affinity) list" where
  "prods_of d = map (\<lambda>(p, af). (Some p, af)) (dim_prod d)"

definition ProdVisitor :: "AffinityAnalyzer \<Rightarrow> nat \<Rightarrow> dim_ref option \<Rightarrow> Affinity \<Rightarrow> Walk \<Rightarrow> (bool \<times> Walk) res" where
  "ProdVisitor an axis_idx =
     visit_dim an axis_idx (\<lambda>d. map fst (dim_cons d)) (\<lambda>d w. w\<lparr>cons_visit := cons_visit w @ [d]\<rparr>)"

definition ConsVisitor :: "AffinityAnalyzer \<Rightarrow> nat \<Rightarrow> dim_ref option \<Rightarrow> Affinity \<Rightarrow> Walk \<Rightarrow> (bool \<times> Walk) res" where
  "ConsVisitor an axis_idx =
     visit_dim an axis_idx (\<lambda>d. map fst (prods_of d)) (\<lambda>d w. w\<lparr>prod_visit := prod_visit w @ [d]\<rparr>)"

text \<open>The loop of \<open>VisitProd\<close> and of \<open>VisitCons\<close>, with a bound on its iterations.\<close>

definition visit_edge :: "(dim_ref option \<Rightarrow> Affinity \<Rightarrow> Walk \<Rightarrow> (bool \<times> Walk) res) \<Rightarrow>
    dim_ref option \<times> Affinity \<Rightarrow> dim_ref list \<times> Walk \<Rightarrow> (dim_ref list \<times> Walk) res" where
  "visit_edge fn e r =
     (case r of (stack, w) \<Rightarrow>
      res_bind (fn (fst e) (snd e) w) (\<lambda>(b, w).
        if \<not> b then Ok (stack, w)
        else case fst e of None \<Rightarrow> Err Null_pointer | Some d \<Rightarrow> Ok (stack @ [d], w)))"

fun visit_loop :: "(dim_ref \<Rightarrow> (dim_ref option \<times> Affinity) list) \<Rightarrow>
    (dim_ref option \<Rightarrow> Affinity \<Rightarrow> Walk \<Rightarrow> (bool \<times> Walk) res) \<Rightarrow> nat \<Rightarrow> dim_ref list \<Rightarrow> Walk \<Rightarrow> Walk res" where
  "visit_loop edges fn n stack w =
     (if stack = [] then Ok w
      else case n of
        0 \<Rightarrow> Err Out_of_fuel
      | Suc n \<Rightarrow>
          res_bind (for_each (visit_edge fn) (edges (last stack)) (butlast stack, w)) (\<lambda>(stack, w).
            visit_loop edges fn n stack w))"

declare visit_loop.simps [simp del]

definition VisitProd where
  "VisitProd an fn n d w = visit_loop (\<lambda>d. prods_of (get_dim an d)) fn n [d] w"

definition VisitCons where
  "VisitCons an fn n d w = visit_loop (\<lambda>d. dim_cons (get_dim an d)) fn n [d] w"

text \<open>The two inner loops of \<open>MapDimToSpace\<close> and the outer one, all with the bound \<open>bd\<close>.\<close>

fun prod_loop :: "AffinityAnalyzer \<Rightarrow> nat \<Rightarrow> nat \<Rightarrow> nat \<Rightarrow> Walk \<Rightarrow> Walk res" where
  "prod_loop an axis_idx bd n w =
     (if prod_visit w = [] then Ok w
      else case n of
        0 \<Rightarrow> Err Out_of_fuel
      | Suc n \<Rightarrow>
          res_bind (VisitProd an (ProdVisitor an axis_idx) bd (last (prod_visit w)) (w\<lparr>prod_visit := butlast (prod_visit w)\<rparr>))
            (prod_loop an axis_idx bd n))"

fun cons_loop :: "AffinityAnalyzer \<Rightarrow> nat \<Rightarrow> nat \<Rightarrow> nat \<Rightarrow> Walk \<Rightarrow> Walk res" where
  "cons_loop an axis_idx bd n w =
     (if cons_visit w = [] then Ok w
      else case n of
        0 \<Rightarrow> Err Out_of_fuel
      | Suc n \<Rightarrow>
          res_bind (VisitCons an (ConsVisitor an axis_idx) bd (last (cons_visit w)) (w\<lparr>cons_visit := butlast (cons_visit w)\<rparr>))
            (cons_loop an axis_idx bd n))"

fun map_loop :: "AffinityAnalyzer \<Rightarrow> nat \<Rightarrow> nat \<Rightarrow> nat \<Rightarrow> Walk \<Rightarrow> Walk res" where
  "map_loop an axis_idx bd n w =
     (if prod_visit w = [] \<and> cons_visit w = [] then Ok w
      else case n of
        0 \<Rightarrow> Err Out_of_fuel
      | Suc n \<Rightarrow>
          res_bind (prod_loop an axis_idx bd bd w) (\<lambda>w.
          res_bind (cons_loop an axis_idx bd bd w) (map_loop an axis_idx bd n)))"

declare prod_loop.simps [simp del] cons_loop.simps [simp del] map_loop.simps [simp del]

definition dim_count :: "AffinityAnalyzer \<Rightarrow> nat" where
  "dim_count an = sum_list (map (\<lambda>t. length (aff_dims t)) (tensors an))"

definition MapDimToSpace :: "AffinityAnalyzer \<Rightarrow> dim_ref \<Rightarrow> nat \<Rightarrow> DimensionPeeler \<Rightarrow> DimensionPeeler res" where
  "MapDimToSpace an dom_dim axis_idx pr =
     (let bd = Suc (dim_count an);
          w = \<lparr>peeler = AddDimMap an dom_dim axis_idx pr, visited = {dom_dim},
               prod_visit = (if dim_prod (get_dim an dom_dim) \<noteq> [] then [dom_dim] else []),
               cons_visit = (if dim_cons (get_dim an dom_dim) \<noteq> [] then [dom_dim] else [])\<rparr>
      in res_bind (map_loop an axis_idx bd bd w) (\<lambda>w. Ok (peeler w)))"

definition DimensionPeeler_Analyze :: "(AttrNode \<Rightarrow> Attrs option) \<Rightarrow> Stmt \<Rightarrow> DimensionPeeler res" where
  "DimensionPeeler_Analyze map_node s =
     res_bind (AffinityAnalyzer_Analyze map_node s) (\<lambda>an.
     res_bind (BuildAxisSpace an) (\<lambda>(domt, axes).
       for_each (\<lambda>i. MapDimToSpace an (domt, i) i) [0..<length axes] \<lparr>axis_space = axes, dim_map = (\<lambda>_. None)\<rparr>))"

definition GetAxisSpace :: "DimensionPeeler \<Rightarrow> int list" where
  "GetAxisSpace pr = map axis_size (axis_space pr)"

section \<open>The ways to split\<close>

text \<open>\<open>CollectDepth\<close>, with the candidates from \<open>index\<close> on in place of the index; the result is
  what it appends to \<open>peelings\<close>.\<close>

fun CollectDepth :: "int \<Rightarrow> Peeling \<Rightarrow> (PeelAxis \<times> int) list \<Rightarrow> Peeling list" where
  "CollectDepth limit_depth seed [] = []"
| "CollectDepth limit_depth seed ((a, d) # rest) =
     (if rest \<noteq> [] then CollectDepth limit_depth seed rest else []) @
     concat (map (\<lambda>v.
       let peel = seed @ [(d, v)] in
       (if int (length peel) < limit_depth \<and> rest \<noteq> [] then CollectDepth limit_depth peel rest else []) @ [peel])
       (peel_val a))"

definition cand_axis :: "DimensionPeeler \<Rightarrow> int set option \<Rightarrow> (PeelAxis \<times> int) list" where
  "cand_axis pr limit_range =
     map (\<lambda>i. (axis_space pr ! i, int i))
       (filter (\<lambda>i. (case limit_range of None \<Rightarrow> True | Some r \<Rightarrow> int i \<in> r) \<and> peel_val (axis_space pr ! i) \<noteq> [])
         [0..<length (axis_space pr)])"

definition GetPeelSpace :: "DimensionPeeler \<Rightarrow> int \<Rightarrow> int set option \<Rightarrow> Peeling list" where
  "GetPeelSpace pr limit_depth limit_range =
     (let limit_depth = (if limit_depth \<le> 0 then int (length (axis_space pr)) else limit_depth);
          cand = cand_axis pr limit_range
      in if cand \<noteq> [] then CollectDepth limit_depth [] cand else [])"

section \<open>The split statement\<close>

text \<open>\<open>v[i]\<close> on a vector with an \<open>int\<close> that may be negative.\<close>

definition vec_at_int :: "'a list \<Rightarrow> int \<Rightarrow> 'a res" where
  "vec_at_int xs i = (if i < 0 then Err Out_of_bounds else vec_at xs (nat i))"

definition GetPeelDims :: "DimensionPeeler \<Rightarrow> string \<Rightarrow> Peeling \<Rightarrow> Peeling res" where
  "GetPeelDims pr name peeling =
     (case dim_map pr name of
        None \<Rightarrow> Ok (map (\<lambda>_. (- 1, 1)) peeling)
      | Some m \<Rightarrow>
          for_each (\<lambda>(a, v) dims. res_bind (vec_at_int m a) (\<lambda>d. Ok (dims @ [if d \<noteq> - 1 then (d, v) else (- 1, 1)]))) peeling [])"

definition GetPeelTensors :: "DimensionPeeler \<Rightarrow> Peeling \<Rightarrow> string \<Rightarrow> Peeling option res" where
  "GetPeelTensors pr peeling name =
     (if dim_map pr name = None then Ok None
      else res_bind (GetPeelDims pr name peeling) (\<lambda>dim.
        Ok (if dim \<noteq> [] \<and> \<not> list_all (\<lambda>i. fst i = - 1) dim then Some dim else None)))"

definition UpdateNewShape :: "int \<Rightarrow> int \<Rightarrow> Expr list \<Rightarrow> Expr list res" where
  "UpdateNewShape dim_idx split_var new_shape =
     (if dim_idx = - 1 then Ok new_shape
      else res_bind (vec_at_int new_shape dim_idx) (\<lambda>e.
        case const_value e of
          None \<Rightarrow> Err Fatal
        | Some dim_val \<Rightarrow>
            if dim_val \<noteq> 1 then
              res_bind (CHECK (split_var \<noteq> 0)) (\<lambda>_.
              res_bind (int64_div dim_val split_var) (\<lambda>q.
              res_bind (CHECK (dim_val smod split_var = 0)) (\<lambda>_.
                Ok (new_shape[nat dim_idx := IntImm (Int_type 32) q]))))
            else Ok new_shape))"

definition peel_shape :: "DimensionPeeler \<Rightarrow> Peeling \<Rightarrow> Func \<Rightarrow> Expr list \<Rightarrow> Expr list res" where
  "peel_shape pr peeling fn shape =
     (case dim_map pr (func_name fn) of
        None \<Rightarrow> Ok shape
      | Some m \<Rightarrow> for_each (\<lambda>(a, v) shape. res_bind (vec_at_int m a) (\<lambda>d. UpdateNewShape d v shape)) peeling shape)"

definition config_shape :: "(string \<Rightarrow> Peeling option) \<Rightarrow> Func \<Rightarrow> Expr list \<Rightarrow> Expr list res" where
  "config_shape config fn shape =
     (case config (func_name fn) of
        None \<Rightarrow> Ok shape
      | Some p \<Rightarrow> for_each (\<lambda>(d, v) shape. UpdateNewShape d v shape) p shape)"

subsection \<open>PeelMutator\<close>

type_synonym Shapes = "Func \<Rightarrow> Expr list option"

definition ReplaceShape :: "(Func \<Rightarrow> Expr list \<Rightarrow> Expr list res) \<Rightarrow> Func \<Rightarrow> Expr list \<Rightarrow> Shapes \<Rightarrow> (Expr list \<times> Shapes) res" where
  "ReplaceShape peel_func fn shape replaced =
     (case replaced fn of
        Some shape' \<Rightarrow> Ok (shape', replaced)
      | None \<Rightarrow> res_bind (peel_func fn shape) (\<lambda>shape'. Ok (shape', replaced(fn := Some shape'))))"

fun peel_args :: "(Func \<Rightarrow> Expr list \<Rightarrow> Expr list res) \<Rightarrow> Expr list \<Rightarrow> Shapes \<Rightarrow> (Expr list \<times> Shapes) res" where
  "peel_args pf [] r = Ok ([], r)"
| "peel_args pf (CallE ty ct n shape fn i # es) r =
     res_bind (ReplaceShape pf fn shape r) (\<lambda>(shape, r).
     res_bind (make_expr (CallE ty ct n shape fn 0)) (\<lambda>e.
     res_bind (peel_args pf es r) (\<lambda>(es, r). Ok (e # es, r))))"
| "peel_args pf (e # es) r = res_bind (peel_args pf es r) (\<lambda>(es, r). Ok (e # es, r))"

definition peel_provide :: "(Func \<Rightarrow> Expr list \<Rightarrow> Expr list res) \<Rightarrow> Func \<Rightarrow> nat \<Rightarrow> Expr \<Rightarrow> Expr list \<Rightarrow> Shapes \<Rightarrow> (Stmt \<times> Shapes) res" where
  "peel_provide pf fn i v shape r =
     (case v of
        CallE ty ct op args f j \<Rightarrow>
          res_bind (peel_args pf args r) (\<lambda>(args, r).
          res_bind (make_expr (CallE ty ct op args f 0)) (\<lambda>v.
          res_bind (ReplaceShape pf fn shape r) (\<lambda>(shape, r).
            Ok (Provide fn i v shape, r))))
      | _ \<Rightarrow> Err Null_pointer)"

text \<open>The default traversal around it.\<close>

fun peel_stmt :: "(Func \<Rightarrow> Expr list \<Rightarrow> Expr list res) \<Rightarrow> Stmt \<Rightarrow> Shapes \<Rightarrow> (Stmt \<times> Shapes) res" where
  "peel_stmt pf (Provide fn i v shape) r = peel_provide pf fn i v shape r"
| "peel_stmt pf (LetStmt v e b) r = res_bind (peel_stmt pf b r) (\<lambda>(b, r). Ok (LetStmt v e b, r))"
| "peel_stmt pf (AttrStmt n k e b) r = res_bind (peel_stmt pf b r) (\<lambda>(b, r). Ok (AttrStmt n k e b, r))"
| "peel_stmt pf (AssertStmt c m b) r = res_bind (peel_stmt pf b r) (\<lambda>(b, r). Ok (AssertStmt c m b, r))"
| "peel_stmt pf (ProducerConsumer fn p b) r = res_bind (peel_stmt pf b r) (\<lambda>(b, r). Ok (ProducerConsumer fn p b, r))"
| "peel_stmt pf (For v m x t b) r = res_bind (peel_stmt pf b r) (\<lambda>(b, r). Ok (For v m x t b, r))"
| "peel_stmt pf (Allocate v t xs c b n) r = res_bind (peel_stmt pf b r) (\<lambda>(b, r). Ok (Allocate v t xs c b n, r))"
| "peel_stmt pf (Realize fn i ty bs c b) r = res_bind (peel_stmt pf b r) (\<lambda>(b, r). Ok (Realize fn i ty bs c b, r))"
| "peel_stmt pf (Block a b) r =
     res_bind (peel_stmt pf a r) (\<lambda>(a, r). res_bind (peel_stmt pf b r) (\<lambda>(b, r). Ok (make_block a b, r)))"
| "peel_stmt pf (IfThenElse c t e) r =
     res_bind (peel_stmt pf t r) (\<lambda>(t, r).
       case e of
         None \<Rightarrow> Ok (IfThenElse c t None, r)
       | Some s \<Rightarrow> res_bind (peel_stmt pf s r) (\<lambda>(s, r). Ok (IfThenElse c t (Some s), r)))"
| "peel_stmt pf s r = Ok (s, r)"

definition GetPeelBody :: "DimensionPeeler \<Rightarrow> Peeling \<Rightarrow> Stmt \<Rightarrow> Stmt res" where
  "GetPeelBody pr peeling s = res_bind (peel_stmt (peel_shape pr peeling) s (\<lambda>_. None)) (\<lambda>(s, r). Ok s)"

definition GetPeelBody_config :: "(string \<Rightarrow> Peeling option) \<Rightarrow> Stmt \<Rightarrow> Stmt res" where
  "GetPeelBody_config config s = res_bind (peel_stmt (config_shape config) s (\<lambda>_. None)) (\<lambda>(s, r). Ok s)"

section \<open>Splits as strings\<close>

fun parse_peeling :: "string list \<Rightarrow> Peeling res" where
  "parse_peeling (a # v # ws) =
     res_bind (CHECK (snd (strtol (c_str a)) = [])) (\<lambda>_.
     res_bind (CHECK (snd (strtol (c_str v)) = [])) (\<lambda>_.
     res_bind (parse_peeling ws) (\<lambda>ret.
       Ok ((int_of_int64 (fst (strtol (c_str a))), fst (strtol (c_str v))) # ret))))"
| "parse_peeling ws = Ok []"

definition Str2Peeling :: "string \<Rightarrow> Peeling res" where
  "Str2Peeling peeling =
     (let vec = stream_words peeling in res_bind (CHECK (length vec mod 2 = 0)) (\<lambda>_. parse_peeling vec))"

fun Peeling2Str :: "Peeling \<Rightarrow> string" where
  "Peeling2Str [] = []"
| "Peeling2Str [(a, v)] = show_int a @ '' '' @ show_int v"
| "Peeling2Str ((a, v) # p) = show_int a @ '' '' @ show_int v @ '' '' @ Peeling2Str p"

section \<open>The entry points\<close>

definition GetPeeledBody :: "(AttrNode \<Rightarrow> Attrs option) \<Rightarrow> Stmt \<Rightarrow> string \<Rightarrow> Stmt res" where
  "GetPeeledBody map_node stmt peeling =
     res_bind (DimensionPeeler_Analyze map_node stmt) (\<lambda>peeler.
     res_bind (Str2Peeling peeling) (\<lambda>parsed_peeling. GetPeelBody peeler parsed_peeling stmt))"

text \<open>The strings that \<open>CompositePeelAnalyze\<close> returns for the statement it has built.\<close>

definition peeling_space :: "(AttrNode \<Rightarrow> Attrs option) \<Rightarrow> Stmt \<Rightarrow> string list res" where
  "peeling_space map_node stmt =
     res_bind (DimensionPeeler_Analyze map_node stmt) (\<lambda>peeler. Ok (map Peeling2Str (GetPeelSpace peeler 0 None)))"

end
