(* ===== verification/Composite_Peel_Map.thy ===== *)
theory Composite_Peel_Map
  imports Composite_Peel
begin

text \<open>
  The searches of \<open>MapDimToSpace\<close> end, and a dimension is mapped to an axis only if relations
  between equal dimensions lead to it. \<open>R\<close> is a set of dimensions that these relations do not
  leave. Every round of a search takes a dimension off a stack or visits one that had not been
  visited, so the number of the dimensions not visited bounds them all.
\<close>

section \<open>Dimensions\<close>

definition valid_dim :: "AffinityAnalyzer \<Rightarrow> dim_ref \<Rightarrow> bool" where
  "valid_dim an d \<longleftrightarrow> fst d < length (tensors an) \<and> snd d < length (dims_of an (fst d))"

definition all_dims :: "AffinityAnalyzer \<Rightarrow> dim_ref set" where
  "all_dims an = {d. valid_dim an d}"

lemma all_dims_Sigma: "all_dims an = (SIGMA t: {..<length (tensors an)}. {..<length (dims_of an t)})"
  by (auto simp: all_dims_def valid_dim_def)

lemma finite_all_dims [simp]: "finite (all_dims an)"
  unfolding all_dims_Sigma by simp

lemma card_all_dims: "card (all_dims an) = dim_count an"
  unfolding all_dims_Sigma by (simp add: dim_count_def dims_of_def sum_list_sum_nth atLeast0LessThan)

definition plain_affinity :: "Affinity \<Rightarrow> bool" where
  "plain_affinity af \<longleftrightarrow> af = AF_ELEMWISE \<or> af = AF_BROADCAST \<or> af = AF_REDUCE"

text \<open>The other end of a relation exists, except for a dimension that is reduced away.\<close>

definition edge_ok :: "AffinityAnalyzer \<Rightarrow> dim_ref option \<times> Affinity \<Rightarrow> bool" where
  "edge_ok an e \<longleftrightarrow> plain_affinity (snd e) \<and>
     (case fst e of None \<Rightarrow> snd e = AF_REDUCE | Some d \<Rightarrow> valid_dim an d)"

definition edges_ok :: "AffinityAnalyzer \<Rightarrow> bool" where
  "edges_ok an \<longleftrightarrow> (\<forall>d. valid_dim an d \<longrightarrow>
     list_all (edge_ok an) (prods_of (get_dim an d)) \<and> list_all (edge_ok an) (dim_cons (get_dim an d)))"

definition closed_edges :: "AffinityAnalyzer \<Rightarrow> dim_ref set \<Rightarrow> (dim_ref option \<times> Affinity) list \<Rightarrow> bool" where
  "closed_edges an R es \<longleftrightarrow>
     list_all (\<lambda>e. edge_ok an e \<and> (snd e = AF_ELEMWISE \<longrightarrow> (\<exists>d \<in> R. fst e = Some d))) es"

section \<open>The map of the dimensions\<close>

text \<open>\<open>K a\<close> are the dimensions that may be mapped to the axis \<open>a\<close>.\<close>

definition mapped :: "AffinityAnalyzer \<Rightarrow> (nat \<Rightarrow> dim_ref set) \<Rightarrow> PeelAxis list \<Rightarrow> DimensionPeeler \<Rightarrow> bool" where
  "mapped an K axes pr \<longleftrightarrow>
     list_all2 (\<lambda>x y. axis_size x = axis_size y \<and> (peel_val x = peel_val y \<or> peel_val x = [])) (axis_space pr) axes \<and>
     (\<forall>name m. dim_map pr name = Some m \<longrightarrow> length m = length axes \<and>
       (\<forall>a < length axes. m ! a = - 1 \<or>
          (\<exists>d \<in> K a. m ! a = int (snd d) \<and> func_name (aff_ref (tensors an ! fst d)) = name)))"

lemma mapped_length: "mapped an K axes pr \<Longrightarrow> length (axis_space pr) = length axes"
  by (auto simp: mapped_def dest: list_all2_lengthD)

lemma mapped_AddDimMap:
  assumes "mapped an K axes pr" "d \<in> K axis" "axis < length axes"
  shows "mapped an K axes (AddDimMap an d axis pr)"
  unfolding mapped_def
proof (intro conjI allI impI)
  fix name m assume m: "dim_map (AddDimMap an d axis pr) name = Some m"
  define name0 where "name0 = func_name (aff_ref (tensors an ! fst d))"
  define m0 where "m0 = (case dim_map pr name0 of Some m \<Rightarrow> m | None \<Rightarrow> replicate (length (axis_space pr)) (- 1))"
  have m0: "length m0 = length axes" "\<And>a. a < length axes \<Longrightarrow> m0 ! a = - 1 \<or>
      (\<exists>d \<in> K a. m0 ! a = int (snd d) \<and> func_name (aff_ref (tensors an ! fst d)) = name0)"
    using assms(1) mapped_length [OF assms(1)] by (auto simp: m0_def mapped_def split: option.splits)
  have "dim_map (AddDimMap an d axis pr) = (dim_map pr)(name0 := Some (m0[axis := int (snd d)]))"
    by (simp add: AddDimMap_def Let_def name0_def m0_def)
  then have cases: "name = name0 \<and> m = m0[axis := int (snd d)] \<or> name \<noteq> name0 \<and> dim_map pr name = Some m"
    using m by (auto split: if_splits)
  from cases m0(1) assms(1) show "length m = length axes" by (auto simp: mapped_def)
  fix a assume a: "a < length axes"
  from cases show "m ! a = - 1 \<or> (\<exists>d \<in> K a. m ! a = int (snd d) \<and> func_name (aff_ref (tensors an ! fst d)) = name)"
  proof
    assume "name = name0 \<and> m = m0[axis := int (snd d)]"
    with m0 a assms(2) show ?thesis by (cases "a = axis") (auto simp: name0_def)
  qed (use assms(1) a in \<open>auto simp: mapped_def\<close>)
qed (use assms(1) in \<open>simp add: mapped_def AddDimMap_def Let_def\<close>)

lemma mapped_clear:
  assumes "mapped an K axes pr" "axis < length axes"
  shows "mapped an K axes (pr\<lparr>axis_space := (axis_space pr)[axis := (axis_space pr ! axis)\<lparr>peel_val := []\<rparr>]\<rparr>)"
proof -
  let ?P = "\<lambda>x y. axis_size x = axis_size y \<and> (peel_val x = peel_val y \<or> peel_val x = [])"
  have all: "list_all2 ?P (axis_space pr) axes" using assms(1) by (simp add: mapped_def)
  have "?P (axis_space pr ! axis) (axes ! axis)"
    using list_all2_nthD2 [OF all assms(2)] by blast
  then have "?P ((axis_space pr ! axis)\<lparr>peel_val := []\<rparr>) (axes ! axis)" by simp
  from list_all2_update_cong [OF all this, of axis] assms show ?thesis by (simp add: mapped_def)
qed

lemma mapped_Propagation:
  assumes "mapped an K axes pr" "axis < length axes" "edge_ok an (d, af)"
    and "af = AF_ELEMWISE \<Longrightarrow> \<exists>x \<in> K axis. d = Some x"
  shows "\<exists>pr'. Propagation an axis d af pr = Ok (af = AF_ELEMWISE, pr') \<and> mapped an K axes pr'"
proof (cases af)
  case AF_ELEMWISE
  with assms mapped_AddDimMap [OF assms(1)] show ?thesis by (auto simp: Propagation_def)
next
  case AF_REDUCE
  have "mapped an K axes (pr\<lparr>axis_space := (axis_space pr)[axis := (axis_space pr ! axis)\<lparr>peel_val := []\<rparr>]\<rparr>)"
    by (rule mapped_clear) (rule assms)+
  with AF_REDUCE show ?thesis by (simp add: Propagation_def)
qed (use assms in \<open>auto simp: Propagation_def edge_ok_def plain_affinity_def\<close>)

section \<open>The searches\<close>

definition left :: "AffinityAnalyzer \<Rightarrow> Walk \<Rightarrow> nat" where
  "left an w = card (all_dims an - visited w)"

lemma left_insert: "d \<notin> visited w \<Longrightarrow> valid_dim an d \<Longrightarrow> left an (w\<lparr>visited := insert d (visited w)\<rparr>) < left an w"
  unfolding left_def by (rule psubset_card_mono, simp) (auto simp: all_dims_def)

lemma left_simps [simp]:
  "left an (w\<lparr>peeler := pr\<rparr>) = left an w"
  "left an (w\<lparr>prod_visit := ds\<rparr>) = left an w"
  "left an (w\<lparr>cons_visit := ds\<rparr>) = left an w"
  by (simp_all add: left_def)

text \<open>The two lists of a walk: a search in one direction adds to \<open>acc\<close> and leaves \<open>oth\<close> alone.\<close>

locale walk_lists =
  fixes keep :: "dim_ref \<Rightarrow> Walk \<Rightarrow> Walk"
    and acc :: "Walk \<Rightarrow> dim_ref list"
    and oth :: "Walk \<Rightarrow> dim_ref list"
  assumes acc_keep: "acc (keep d w) = acc w @ [d]"
    and oth_keep: "oth (keep d w) = oth w"
    and keep_fields: "peeler (keep d w) = peeler w" "visited (keep d w) = visited w"
    and lists_visited: "acc (w\<lparr>visited := vs\<rparr>) = acc w" "oth (w\<lparr>visited := vs\<rparr>) = oth w"
    and lists_peeler: "acc (w\<lparr>peeler := pr\<rparr>) = acc w" "oth (w\<lparr>peeler := pr\<rparr>) = oth w"
begin

text \<open>From \<open>w\<close> to \<open>w'\<close> the search has visited at least \<open>k\<close> dimensions.\<close>

definition walked :: "AffinityAnalyzer \<Rightarrow> (nat \<Rightarrow> dim_ref set) \<Rightarrow> PeelAxis list \<Rightarrow> dim_ref set \<Rightarrow> nat \<Rightarrow> Walk \<Rightarrow> Walk \<Rightarrow> bool" where
  "walked an K axes R k w w' \<longleftrightarrow>
     mapped an K axes (peeler w') \<and> oth w' = oth w \<and> left an w' + k \<le> left an w \<and>
     length (acc w') + left an w' \<le> length (acc w) + left an w \<and> (set (acc w) \<subseteq> R \<longrightarrow> set (acc w') \<subseteq> R)"

lemma walked_refl: "mapped an K axes (peeler w) \<Longrightarrow> walked an K axes R 0 w w"
  by (simp add: walked_def)

lemma walked_trans: "walked an K axes R k w w' \<Longrightarrow> walked an K axes R l w' w'' \<Longrightarrow> walked an K axes R (k + l) w w''"
  by (auto simp: walked_def)

lemma visit_dim_walks:
  assumes "mapped an K axes (peeler w)" "axis < length axes" "R \<subseteq> K axis" "closed_edges an R [(d, af)]"
  shows "\<exists>b w'. visit_dim an axis back keep d af w = Ok (b, w') \<and>
    walked an K axes R (if b then 1 else 0) w w' \<and> (b \<longrightarrow> (\<exists>x \<in> R. d = Some x))"
proof (cases "is_visited d w")
  case True
  with assms(1) have "visit_dim an axis back keep d af w = Ok (False, w) \<and> walked an K axes R 0 w w"
    by (simp add: visit_dim_def walked_refl)
  then show ?thesis by auto
next
  case False
  define w1 where "w1 = (case d of Some d \<Rightarrow> w\<lparr>visited := insert d (visited w)\<rparr> | None \<Rightarrow> w)"
  have edge: "edge_ok an (d, af)" "af = AF_ELEMWISE \<Longrightarrow> \<exists>x \<in> R. d = Some x"
    using assms(4) by (auto simp: closed_edges_def)
  have "mapped an K axes (peeler w1)" using assms(1) by (auto simp: w1_def split: option.split)
  then obtain pr where pr: "Propagation an axis d af (peeler w1) = Ok (af = AF_ELEMWISE, pr)" "mapped an K axes pr"
    using mapped_Propagation [OF _ assms(2) edge(1)] edge(2) assms(3) by blast
  define w2 where "w2 = w1\<lparr>peeler := pr\<rparr>"
  have eq: "visit_dim an axis back keep d af w =
      (if af \<noteq> AF_ELEMWISE then Ok (False, w2)
       else case d of None \<Rightarrow> Err Null_pointer
         | Some x \<Rightarrow> Ok (True, if \<exists>c \<in> set (back (get_dim an x)). \<not> is_visited c w2 then keep x w2 else w2))"
    unfolding visit_dim_def w1_def [symmetric] Let_def w2_def using False pr(1) by simp
  have w1: "acc w2 = acc w" "oth w2 = oth w" "left an w2 \<le> left an w" "\<And>x. d = Some x \<Longrightarrow> left an w2 < left an w"
    using False edge(1) left_insert [of _ w an]
    by (auto simp: w1_def w2_def lists_visited lists_peeler is_visited_def edge_ok_def less_imp_le split: option.splits)
  show ?thesis
  proof (cases "af = AF_ELEMWISE")
    case False
    then have "visit_dim an axis back keep d af w = Ok (False, w2)" by (simp add: eq)
    moreover have "walked an K axes R 0 w w2" using w1 pr(2) by (simp add: walked_def w2_def)
    ultimately show ?thesis by auto
  next
    case True
    then obtain x where x: "d = Some x" "x \<in> R" using edge(2) by blast
    define w3 where "w3 = (if \<exists>c \<in> set (back (get_dim an x)). \<not> is_visited c w2 then keep x w2 else w2)"
    have "visit_dim an axis back keep d af w = Ok (True, w3)"
      unfolding eq using True x(1) by (simp add: w3_def)
    moreover have "left an w2 < left an w" by (rule w1(4) [OF x(1)])
    then have "walked an K axes R 1 w w3"
      using w1 pr(2) x(2) by (auto simp: walked_def w2_def w3_def left_def acc_keep oth_keep keep_fields)
    ultimately show ?thesis using x by auto
  qed
qed

lemma visit_edges_walk:
  assumes "axis < length axes" "R \<subseteq> K axis"
  shows "mapped an K axes (peeler w) \<Longrightarrow> closed_edges an R es \<Longrightarrow> set stack \<subseteq> R \<Longrightarrow>
    \<exists>stack' w'. for_each (visit_edge (visit_dim an axis back keep)) es (stack, w) = Ok (stack', w') \<and>
      set stack' \<subseteq> R \<and> walked an K axes R 0 w w' \<and> length stack' + left an w' \<le> length stack + left an w"
proof (induction es arbitrary: stack w)
  case (Cons e es)
  obtain b w1 where w1: "visit_dim an axis back keep (fst e) (snd e) w = Ok (b, w1)"
    "walked an K axes R (if b then 1 else 0) w w1" "b \<longrightarrow> (\<exists>x \<in> R. fst e = Some x)"
    using visit_dim_walks [OF Cons.prems(1) assms, of "fst e" "snd e" "back"] Cons.prems(2) by (auto simp: closed_edges_def)
  define stack1 where "stack1 = (if b then stack @ [the (fst e)] else stack)"
  have step: "visit_edge (visit_dim an axis back keep) e (stack, w) = Ok (stack1, w1)"
    using w1(1,3) by (auto simp: visit_edge_def stack1_def)
  have stack1: "set stack1 \<subseteq> R" "length stack1 + left an w1 \<le> length stack + left an w"
    using Cons.prems(3) w1(2,3) by (auto simp: stack1_def walked_def)
  have "mapped an K axes (peeler w1)" using w1(2) by (simp add: walked_def)
  from Cons.IH [OF this _ stack1(1)] Cons.prems(2) obtain stack' w' where
    "for_each (visit_edge (visit_dim an axis back keep)) es (stack1, w1) = Ok (stack', w')" "set stack' \<subseteq> R"
    "walked an K axes R 0 w1 w'" "length stack' + left an w' \<le> length stack1 + left an w1"
    by (auto simp: closed_edges_def)
  moreover from this(3) w1(2) have "walked an K axes R 0 w w'" by (auto simp: walked_def split: if_splits)
  ultimately show ?case using step stack1(2) by auto
qed (simp add: walked_refl)

lemma visit_loop_walks:
  assumes "axis < length axes" "R \<subseteq> K axis" "\<And>d. d \<in> R \<Longrightarrow> closed_edges an R (edges d)"
  shows "mapped an K axes (peeler w) \<Longrightarrow> set stack \<subseteq> R \<Longrightarrow> length stack + left an w \<le> n \<Longrightarrow>
    \<exists>w'. visit_loop edges (visit_dim an axis back keep) n stack w = Ok w' \<and> walked an K axes R 0 w w'"
proof (induction n arbitrary: stack w)
  case 0
  then show ?case by (simp add: visit_loop.simps walked_refl)
next
  case (Suc n)
  show ?case
  proof (cases "stack = []")
    case True
    with Suc.prems(1) show ?thesis by (simp add: visit_loop.simps walked_refl)
  next
    case False
    then have "last stack \<in> R" "set (butlast stack) \<subseteq> R" using Suc.prems(2) by (auto dest: in_set_butlastD)
    then obtain stack' w' where step:
      "for_each (visit_edge (visit_dim an axis back keep)) (edges (last stack)) (butlast stack, w) = Ok (stack', w')"
      "set stack' \<subseteq> R" "walked an K axes R 0 w w'" "length stack' + left an w' \<le> length (butlast stack) + left an w"
      using visit_edges_walk [OF assms(1,2) Suc.prems(1) assms(3)] by blast
    have "mapped an K axes (peeler w')" using step(3) by (simp add: walked_def)
    moreover have "length stack' + left an w' \<le> n" using step(4) Suc.prems(3) False by (cases "length stack") auto
    ultimately obtain w'' where "visit_loop edges (visit_dim an axis back keep) n stack' w' = Ok w''" "walked an K axes R 0 w' w''"
      using Suc.IH step(2) by blast
    with step(1,3) False walked_trans [of an K axes R 0 w w' 0] show ?thesis
      by (auto simp: visit_loop.simps [of _ _ "Suc n"])
  qed
qed

end

interpretation to_cons: walk_lists "\<lambda>d w. w\<lparr>cons_visit := cons_visit w @ [d]\<rparr>" cons_visit prod_visit
  by unfold_locales simp_all

interpretation to_prod: walk_lists "\<lambda>d w. w\<lparr>prod_visit := prod_visit w @ [d]\<rparr>" prod_visit cons_visit
  by unfold_locales simp_all

lemmas prod_loop_simps = prod_loop.simps [of _ _ _ "Suc n" for n]
lemmas cons_loop_simps = cons_loop.simps [of _ _ _ "Suc n" for n]

text \<open>What both searches need of the relations: \<open>R\<close> is closed under those between equal dimensions.\<close>

definition closed_dims :: "AffinityAnalyzer \<Rightarrow> dim_ref set \<Rightarrow> bool" where
  "closed_dims an R \<longleftrightarrow> (\<forall>d \<in> R. closed_edges an R (prods_of (get_dim an d)) \<and> closed_edges an R (dim_cons (get_dim an d)))"

text \<open>\<open>bd\<close> bounds what is left together with either list.\<close>

definition walk_ok :: "AffinityAnalyzer \<Rightarrow> (nat \<Rightarrow> dim_ref set) \<Rightarrow> PeelAxis list \<Rightarrow> dim_ref set \<Rightarrow> nat \<Rightarrow> Walk \<Rightarrow> bool" where
  "walk_ok an K axes R bd w \<longleftrightarrow>
     mapped an K axes (peeler w) \<and> set (prod_visit w) \<subseteq> R \<and> set (cons_visit w) \<subseteq> R \<and>
     length (prod_visit w) + left an w \<le> bd \<and> length (cons_visit w) + left an w \<le> bd \<and> left an w < bd"

lemma VisitProd_ok:
  assumes "axis < length axes" "R \<subseteq> K axis" "closed_dims an R" "mapped an K axes (peeler w)" "d \<in> R" "left an w < bd"
  shows "\<exists>w'. VisitProd an (ProdVisitor an axis) bd d w = Ok w' \<and> to_cons.walked an K axes R 0 w w'"
  unfolding VisitProd_def ProdVisitor_def
  by (rule to_cons.visit_loop_walks) (use assms in \<open>auto simp: closed_dims_def\<close>)

lemma VisitCons_ok:
  assumes "axis < length axes" "R \<subseteq> K axis" "closed_dims an R" "mapped an K axes (peeler w)" "d \<in> R" "left an w < bd"
  shows "\<exists>w'. VisitCons an (ConsVisitor an axis) bd d w = Ok w' \<and> to_prod.walked an K axes R 0 w w'"
  unfolding VisitCons_def ConsVisitor_def
  by (rule to_prod.visit_loop_walks) (use assms in \<open>auto simp: closed_dims_def\<close>)

lemma last_butlast_in: "xs \<noteq> [] \<Longrightarrow> set xs \<subseteq> R \<Longrightarrow> last xs \<in> R \<and> set (butlast xs) \<subseteq> R"
  by (auto dest: in_set_butlastD)

lemma prod_loop_ok:
  assumes "axis < length axes" "R \<subseteq> K axis" "closed_dims an R"
  shows "walk_ok an K axes R bd w \<Longrightarrow> length (prod_visit w) \<le> n \<Longrightarrow>
    \<exists>w'. prod_loop an axis bd n w = Ok w' \<and> walk_ok an K axes R bd w' \<and> prod_visit w' = [] \<and> left an w' \<le> left an w"
proof (induction n arbitrary: w)
  case 0
  then show ?case by (simp add: prod_loop.simps)
next
  case (Suc n)
  show ?case
  proof (cases "prod_visit w = []")
    case True
    with Suc.prems(1) show ?thesis by (simp add: prod_loop.simps)
  next
    case False
    define v where "v = w\<lparr>prod_visit := butlast (prod_visit w)\<rparr>"
    have d: "last (prod_visit w) \<in> R" "set (butlast (prod_visit w)) \<subseteq> R"
      using last_butlast_in [OF False, of R] Suc.prems(1) by (auto simp: walk_ok_def)
    have v: "mapped an K axes (peeler v)" "left an v = left an w" "left an v < bd"
      using Suc.prems(1) by (simp_all add: v_def walk_ok_def)
    from VisitProd_ok [OF assms v(1) d(1) v(3)] obtain w1 where
      w1: "VisitProd an (ProdVisitor an axis) bd (last (prod_visit w)) v = Ok w1" "to_cons.walked an K axes R 0 v w1"
      by blast
    then have "walk_ok an K axes R bd w1" "length (prod_visit w1) \<le> n" "left an w1 \<le> left an w"
      using Suc.prems d(2) v(2) False by (auto simp: to_cons.walked_def walk_ok_def v_def)
    with Suc.IH [of w1] w1(1) False show ?thesis
      unfolding v_def by (fastforce simp: prod_loop_simps)
  qed
qed

lemma cons_loop_ok:
  assumes "axis < length axes" "R \<subseteq> K axis" "closed_dims an R"
  shows "walk_ok an K axes R bd w \<Longrightarrow> length (cons_visit w) \<le> n \<Longrightarrow>
    \<exists>w'. cons_loop an axis bd n w = Ok w' \<and> walk_ok an K axes R bd w' \<and> cons_visit w' = [] \<and> left an w' \<le> left an w \<and>
      length (prod_visit w') + left an w' \<le> length (prod_visit w) + left an w"
proof (induction n arbitrary: w)
  case 0
  then show ?case by (simp add: cons_loop.simps)
next
  case (Suc n)
  show ?case
  proof (cases "cons_visit w = []")
    case True
    with Suc.prems(1) show ?thesis by (simp add: cons_loop.simps)
  next
    case False
    define v where "v = w\<lparr>cons_visit := butlast (cons_visit w)\<rparr>"
    have d: "last (cons_visit w) \<in> R" "set (butlast (cons_visit w)) \<subseteq> R"
      using last_butlast_in [OF False, of R] Suc.prems(1) by (auto simp: walk_ok_def)
    have v: "mapped an K axes (peeler v)" "left an v = left an w" "left an v < bd"
      using Suc.prems(1) by (simp_all add: v_def walk_ok_def)
    from VisitCons_ok [OF assms v(1) d(1) v(3)] obtain w1 where
      w1: "VisitCons an (ConsVisitor an axis) bd (last (cons_visit w)) v = Ok w1" "to_prod.walked an K axes R 0 v w1"
      by blast
    then have "walk_ok an K axes R bd w1" "length (cons_visit w1) \<le> n" "left an w1 \<le> left an w"
      "length (prod_visit w1) + left an w1 \<le> length (prod_visit w) + left an w"
      using Suc.prems d(2) v(2) False by (auto simp: to_prod.walked_def walk_ok_def v_def)
    with Suc.IH [of w1] w1(1) False show ?thesis
      unfolding v_def by (fastforce simp: cons_loop_simps)
  qed
qed

lemma map_loop_ok:
  assumes "axis < length axes" "R \<subseteq> K axis" "closed_dims an R"
  shows "walk_ok an K axes R bd w \<Longrightarrow> left an w < n \<Longrightarrow>
    \<exists>w'. map_loop an axis bd n w = Ok w' \<and> mapped an K axes (peeler w')"
proof (induction n arbitrary: w)
  case (Suc n)
  show ?case
  proof (cases "prod_visit w = [] \<and> cons_visit w = []")
    case True
    with Suc.prems(1) show ?thesis by (simp add: map_loop.simps walk_ok_def)
  next
    case False
    have "length (prod_visit w) \<le> bd" using Suc.prems(1) by (auto simp: walk_ok_def)
    from prod_loop_ok [OF assms Suc.prems(1) this] obtain w1 where
      w1: "prod_loop an axis bd bd w = Ok w1" "walk_ok an K axes R bd w1" "prod_visit w1 = []" "left an w1 \<le> left an w" by blast
    have "length (cons_visit w1) \<le> bd" using w1(2) by (auto simp: walk_ok_def)
    from cons_loop_ok [OF assms w1(2) this] w1(3) obtain w2 where
      w2: "cons_loop an axis bd bd w1 = Ok w2" "walk_ok an K axes R bd w2" "cons_visit w2 = []"
        "length (prod_visit w2) + left an w2 \<le> left an w1" by auto
    have step: "map_loop an axis bd (Suc n) w = map_loop an axis bd n w2"
      unfolding map_loop.simps [of an axis bd "Suc n"] using False w1(1) w2(1) by auto
    show ?thesis
    proof (cases "prod_visit w2 = []")
      case True
      with w2(2,3) show ?thesis unfolding step by (simp add: map_loop.simps [of _ _ _ n] walk_ok_def)
    next
      case False
      then have "left an w2 < n" using w1(4) w2(4) Suc.prems(2) by (cases "prod_visit w2") auto
      with Suc.IH [OF w2(2)] show ?thesis unfolding step by blast
    qed
  qed
qed simp

lemma MapDimToSpace_ok:
  assumes "axis < length axes" "R \<subseteq> K axis" "closed_dims an R" "d \<in> R" "valid_dim an d" "mapped an K axes pr"
  shows "\<exists>pr'. MapDimToSpace an d axis pr = Ok pr' \<and> mapped an K axes pr'"
proof -
  define w where "w = \<lparr>peeler = AddDimMap an d axis pr, visited = {d},
     prod_visit = (if dim_prod (get_dim an d) \<noteq> [] then [d] else []),
     cons_visit = (if dim_cons (get_dim an d) \<noteq> [] then [d] else [])\<rparr>"
  have left: "left an w < dim_count an"
    unfolding left_def card_all_dims [symmetric] by (rule psubset_card_mono, simp) (use assms(5) in \<open>auto simp: w_def all_dims_def\<close>)
  have "mapped an K axes (peeler w)"
    using mapped_AddDimMap [OF assms(6) subsetD [OF assms(2,4)] assms(1)] by (simp add: w_def)
  moreover have "length (prod_visit w) \<le> 1" "length (cons_visit w) \<le> 1" "set (prod_visit w) \<subseteq> R" "set (cons_visit w) \<subseteq> R"
    using assms(4) by (auto simp: w_def)
  ultimately have "walk_ok an K axes R (Suc (dim_count an)) w"
    using left by (auto simp: walk_ok_def)
  from map_loop_ok [OF assms(1-3) this, of "Suc (dim_count an)"] left show ?thesis
    by (auto simp: MapDimToSpace_def Let_def w_def)
qed

end
