(* ===== verification/Composite_Peel_Relations.thy ===== *)
theory Composite_Peel_Relations
  imports Composite_Peel_Map
begin

text \<open>
  What the analyzer makes: relations lead to dimensions that exist, tensors refer to tensors that
  exist, a reduction has an input, and the sizes of a tensor are those of one of its uses in the
  statement. On that the analysis of the peeler always returns.
\<close>

section \<open>Updates\<close>

lemma upd_dim_simps [simp]:
  "length (tensors (upd_dim d f an)) = length (tensors an)"
  "tensor_map (upd_dim d f an) = tensor_map an"
  "attrs (upd_dim d f an) = attrs an"
  by (simp_all add: upd_dim_def upd_tensor_def)

lemma upd_dim_tensor:
  "t < length (tensors an) \<Longrightarrow> tensors (upd_dim d f an) ! t =
     (if t = fst d then (tensors an ! t)\<lparr>aff_dims := (aff_dims (tensors an ! t))[snd d := f (aff_dims (tensors an ! t) ! snd d)]\<rparr>
      else tensors an ! t)"
  by (auto simp: upd_dim_def upd_tensor_def)

lemma length_dims_upd [simp]: "length (dims_of (upd_dim d f an) t) = length (dims_of an t)"
  by (cases "t = fst d"; cases "t < length (tensors an)") (auto simp: dims_of_def upd_dim_def upd_tensor_def list_update_beyond)

lemma valid_dim_upd [simp]: "valid_dim (upd_dim d f an) = valid_dim an"
  by (simp add: valid_dim_def fun_eq_iff)

lemma edge_ok_upd [simp]: "edge_ok (upd_dim d f an) = edge_ok an"
  by (auto simp: edge_ok_def fun_eq_iff split: option.split)

lemma get_dim_upd:
  assumes "valid_dim an d"
  shows "get_dim (upd_dim d f an) e = (if e = d then f (get_dim an d) else get_dim an e)"
proof (cases "fst e = fst d")
  case True
  then have "dims_of (upd_dim d f an) (fst e) = (dims_of an (fst d))[snd d := f (dims_of an (fst d) ! snd d)]"
    using assms by (simp add: dims_of_def valid_dim_def upd_dim_tensor)
  with True assms show ?thesis
    by (cases d; cases e) (auto simp: get_dim_def valid_dim_def)
next
  case False
  then have "dims_of (upd_dim d f an) (fst e) = dims_of an (fst e)"
    by (simp add: dims_of_def upd_dim_def upd_tensor_def)
  with False show ?thesis by (auto simp: get_dim_def)
qed

lemma edges_okD:
  "edges_ok an \<Longrightarrow> valid_dim an d \<Longrightarrow>
     list_all (edge_ok an) (prods_of (get_dim an d)) \<and> list_all (edge_ok an) (dim_cons (get_dim an d))"
  unfolding edges_ok_def by blast

lemma edges_ok_upd:
  assumes "edges_ok an" "valid_dim an d"
    and "list_all (edge_ok an) (prods_of (f (get_dim an d)))" "list_all (edge_ok an) (dim_cons (f (get_dim an d)))"
  shows "edges_ok (upd_dim d f an)"
  using assms by (auto simp: edges_ok_def get_dim_upd)

section \<open>What the analyzer keeps\<close>

text \<open>The data of a tensor that recording a relation does not change.\<close>

definition face :: "AffTensor \<Rightarrow> Func \<times> string \<times> nat list \<times> int list" where
  "face t = (aff_ref t, aff_op t, aff_prod t, map dim_size (aff_dims t))"

definition same_faces :: "AffinityAnalyzer \<Rightarrow> AffinityAnalyzer \<Rightarrow> bool" where
  "same_faces an an' \<longleftrightarrow> tensor_map an' = tensor_map an \<and> map face (tensors an') = map face (tensors an)"

lemma same_faces_length: "same_faces an an' \<Longrightarrow> length (tensors an') = length (tensors an)"
  unfolding same_faces_def by (metis length_map)

lemma same_faces_nth: "same_faces an an' \<Longrightarrow> t < length (tensors an) \<Longrightarrow> face (tensors an' ! t) = face (tensors an ! t)"
  unfolding same_faces_def by (metis length_map nth_map)

lemma same_faces_trans: "same_faces a b \<Longrightarrow> same_faces b c \<Longrightarrow> same_faces a c"
  by (simp add: same_faces_def)

lemma same_faces_refl [simp]: "same_faces a a"
  by (simp add: same_faces_def)

lemma same_faces_dims:
  assumes "same_faces an an'" "t < length (tensors an)"
  shows "length (dims_of an' t) = length (dims_of an t)"
proof -
  have "map dim_size (aff_dims (tensors an' ! t)) = map dim_size (aff_dims (tensors an ! t))"
    using same_faces_nth [OF assms] by (simp add: face_def)
  then show ?thesis unfolding dims_of_def by (metis length_map)
qed

lemma same_faces_upd:
  assumes "\<And>x. dim_size (f x) = dim_size x"
  shows "same_faces an (upd_dim d f an)"
  unfolding same_faces_def
proof (intro conjI nth_equalityI)
  fix t assume "t < length (map face (tensors (upd_dim d f an)))"
  then have t: "t < length (tensors an)" by simp
  have "map dim_size (xs[i := f (xs ! i)]) = map dim_size xs" for xs i
  proof (rule nth_equalityI)
    fix k assume "k < length (map dim_size (xs[i := f (xs ! i)]))"
    then show "map dim_size (xs[i := f (xs ! i)]) ! k = map dim_size xs ! k"
      using assms by (cases "k = i") simp_all
  qed simp
  with t show "map face (tensors (upd_dim d f an)) ! t = map face (tensors an) ! t"
    by (simp add: upd_dim_tensor face_def)
qed simp_all

definition refs_ok :: "AffinityAnalyzer \<Rightarrow> bool" where
  "refs_ok an \<longleftrightarrow> edges_ok an \<and> (\<forall>fn t. tensor_map an fn = Some t \<longrightarrow> t < length (tensors an)) \<and>
     (\<forall>t < length (tensors an). list_all (\<lambda>p. p < length (tensors an)) (aff_prod (tensors an ! t)))"

lemma refs_ok_faces:
  assumes "refs_ok an" "same_faces an an'" "edges_ok an'"
  shows "refs_ok an'"
proof -
  have "aff_prod (tensors an' ! t) = aff_prod (tensors an ! t)" if "t < length (tensors an)" for t
    using same_faces_nth [OF assms(2) that] by (simp add: face_def)
  with assms same_faces_length [OF assms(2)] show ?thesis by (auto simp: refs_ok_def same_faces_def)
qed

lemma relate_ok:
  assumes "edges_ok an" "valid_dim an p" "valid_dim an c" "plain_affinity af"
  shows "edges_ok (relate p c af an) \<and> same_faces an (relate p c af an)"
proof -
  define an1 where "an1 = upd_dim c (\<lambda>d. d\<lparr>dim_prod := dim_prod d @ [(p, af)]\<rparr>) an"
  have dims: "list_all (edge_ok an) (prods_of (get_dim an c))" "list_all (edge_ok an) (dim_cons (get_dim an c))"
    using edges_okD [OF assms(1,3)] by blast+
  have an1: "edges_ok an1" unfolding an1_def
    by (rule edges_ok_upd) (use assms dims in \<open>auto simp: prods_of_def edge_ok_def\<close>)
  moreover have "valid_dim an1 p" "valid_dim an1 c" using assms by (simp_all add: an1_def)
  ultimately have "edges_ok (upd_dim p (\<lambda>d. d\<lparr>dim_cons := dim_cons d @ [(Some c, af)]\<rparr>) an1)"
    using assms(4) edges_okD [of an1 p] by (intro edges_ok_upd) (auto simp: edge_ok_def prods_of_def)
  moreover have "same_faces an an1" "same_faces an1 (upd_dim p (\<lambda>d. d\<lparr>dim_cons := dim_cons d @ [(Some c, af)]\<rparr>) an1)"
    unfolding an1_def by (rule same_faces_upd, simp)+
  ultimately show ?thesis using same_faces_trans by (auto simp: relate_def an1_def)
qed

text \<open>\<open>kept an an'\<close>: relations have been recorded, and nothing else.\<close>

definition kept :: "AffinityAnalyzer \<Rightarrow> AffinityAnalyzer \<Rightarrow> bool" where
  "kept an an' \<longleftrightarrow> (edges_ok an \<longrightarrow> edges_ok an') \<and> same_faces an an'"

lemma kept_refl [simp]: "kept an an"
  by (simp add: kept_def)

lemma kept_trans: "kept a b \<Longrightarrow> kept b c \<Longrightarrow> kept a c"
  by (auto simp: kept_def intro: same_faces_trans)

lemma kept_length: "kept an an' \<Longrightarrow> length (tensors an') = length (tensors an)"
  by (simp add: kept_def same_faces_length)

lemma kept_dims: "kept an an' \<Longrightarrow> t < length (tensors an) \<Longrightarrow> length (dims_of an' t) = length (dims_of an t)"
  by (simp add: kept_def same_faces_dims)

lemma kept_relate:
  assumes "valid_dim an p" "valid_dim an c" "plain_affinity af"
  shows "kept an (relate p c af an)"
  unfolding kept_def
proof (intro conjI impI)
  show "same_faces an (relate p c af an)"
    unfolding relate_def by (rule same_faces_trans; rule same_faces_upd) simp_all
qed (use relate_ok assms in blast)

lemma kept_fold:
  assumes "\<And>x an'. x \<in> set xs \<Longrightarrow> kept an an' \<Longrightarrow> kept an' (f x an')"
  shows "kept an (fold f xs an)"
proof -
  have "(\<And>x an'. x \<in> set ys \<Longrightarrow> kept an an' \<Longrightarrow> kept an' (f x an')) \<Longrightarrow> kept an b \<Longrightarrow> kept an (fold f ys b)" for ys b
  proof (induction ys arbitrary: b)
    case (Cons y ys)
    from Cons.prems(2) Cons.prems(1) [of y b] have "kept an (f y b)" by (auto intro: kept_trans)
    with Cons show ?case by simp
  qed simp
  from this [OF assms kept_refl] show ?thesis by blast
qed

lemma AddElemBroadRelation_kept:
  assumes "AddElemBroadRelation input output an = Ok an'" "input < length (tensors an)" "output < length (tensors an)"
  shows "kept an an'"
proof -
  let ?n = "length (dims_of an input)" and ?m = "length (dims_of an output)"
  have nm: "?n \<le> ?m" using assms(1) by (simp add: AddElemBroadRelation_def Let_def res_bind_Ok_conv)
  define f where "f i an = relate (input, i - (?m - ?n)) (output, i)
    (if dim_size (get_dim an (input, i - (?m - ?n))) = dim_size (get_dim an (output, i)) then AF_ELEMWISE else AF_BROADCAST) an"
    for i an
  have "kept an (fold f [?m - ?n..<?m] an)"
  proof (rule kept_fold)
    fix i b assume i: "i \<in> set [?m - ?n..<?m]" and b: "kept an b"
    show "kept b (f i b)" unfolding f_def
      by (rule kept_relate) (use i nm assms(2,3) kept_length [OF b] kept_dims [OF b] in
        \<open>auto simp: valid_dim_def plain_affinity_def\<close>)
  qed
  with assms(1) nm show ?thesis by (simp add: AddElemBroadRelation_def Let_def f_def [abs_def] res_bind_Ok_conv)
qed

lemma reduce_dim_kept:
  assumes "reduce_dim input output axis keep i (an, k) = Ok (an', k')" "i < length (dims_of an input)"
    "input < length (tensors an)" "output < length (tensors an)"
  shows "kept an an'"
proof -
  have valid: "valid_dim an (input, i)" "valid_dim an (output, k)"
    using assms by (auto simp: valid_dim_def reduce_dim_def res_bind_Ok_conv)
  have "kept an (upd_dim (input, i) (\<lambda>d. d\<lparr>dim_cons := dim_cons d @ [(None, AF_REDUCE)]\<rparr>) an)"
    unfolding kept_def
  proof (intro conjI impI)
    assume "edges_ok an"
    then show "edges_ok (upd_dim (input, i) (\<lambda>d. d\<lparr>dim_cons := dim_cons d @ [(None, AF_REDUCE)]\<rparr>) an)"
      using valid(1) edges_okD [OF _ valid(1)] by (intro edges_ok_upd) (auto simp: prods_of_def edge_ok_def plain_affinity_def)
  qed (rule same_faces_upd, simp)
  moreover have "kept an (relate (input, i) (output, k) AF_REDUCE an)" "kept an (relate (input, i) (output, k) AF_ELEMWISE an)"
    by (rule kept_relate, rule valid, rule valid, simp add: plain_affinity_def)+
  ultimately show ?thesis using assms(1) by (auto simp: reduce_dim_def Let_def res_bind_Ok_conv split: if_splits)
qed

lemma AddReduceRelation_kept:
  assumes "AddReduceRelation input output an = Ok an'" "input < length (tensors an)" "output < length (tensors an)"
  shows "kept an an'"
proof -
  obtain axis keep k where
    run: "for_each (reduce_dim input output axis keep) [0..<length (dims_of an input)] (an, 0) = Ok (an', k)"
    using assms(1) by (auto simp: AddReduceRelation_def Let_def res_bind_Ok_conv split: option.splits)
  have "kept an (fst (an', k))"
  proof (rule for_each_invariant [OF _ _ run])
    fix i r r' assume i: "i \<in> set [0..<length (dims_of an input)]" and r: "kept an (fst r)"
      and "reduce_dim input output axis keep i r = Ok r'"
    then have "kept (fst r) (fst r')"
      using kept_length [OF r] kept_dims [OF r assms(2)] assms(2,3)
      by (intro reduce_dim_kept [of input "output" axis keep i "fst r" "snd r" _ "snd r'"]) simp_all
    with r show "kept an (fst r')" by (rule kept_trans)
  qed simp
  then show ?thesis by simp
qed

lemma add_relations_kept:
  assumes "add_relations op inputs output an = Ok an'" "list_all (\<lambda>t. t < length (tensors an)) inputs" "output < length (tensors an)"
  shows "kept an an'"
proof -
  have elem: "kept an b" if "for_each (\<lambda>input. AddElemBroadRelation input output) inputs an = Ok b" for b
  proof (rule for_each_invariant [OF _ _ that])
    fix t c c' assume "t \<in> set inputs" "kept an c" "AddElemBroadRelation t output c = Ok c'"
    then show "kept an c'"
      using AddElemBroadRelation_kept [of t "output" c c'] kept_length [of an c] assms(2,3)
      by (auto simp: list_all_iff intro: kept_trans)
  qed simp
  have inplace: "kept an b" if "AddElemBroadRelation (inputs ! 1) (inputs ! 0) an = Ok c"
    "AddElemBroadRelation (inputs ! 2) output c = Ok b" "length inputs = 3" for b c
  proof -
    have "kept an c" using that assms(2) by (intro AddElemBroadRelation_kept [OF that(1)]) (auto simp: list_all_length)
    moreover have "kept c b"
      using that assms(2,3) kept_length [OF calculation] by (intro AddElemBroadRelation_kept [OF that(2)]) (auto simp: list_all_length)
    ultimately show ?thesis by (rule kept_trans)
  qed
  from assms(1) show ?thesis
    using elem inplace AddReduceRelation_kept [of "inputs ! 0" "output" an an'] assms(2,3)
    by (auto simp: add_relations_def res_bind_Ok_conv AddTransposeRelation_def list_all_length split: if_splits option.splits)
qed

section \<open>The whole analysis\<close>

text \<open>Of a tensor: its sizes are those of a use, and a reduction has an input.\<close>

definition face_ok :: "(Func \<times> Expr list) set \<Rightarrow> Func \<times> string \<times> nat list \<times> int list \<Rightarrow> bool" where
  "face_ok U x = (case x of (fn, op, ps, sizes) \<Rightarrow>
     (\<exists>sh. (fn, sh) \<in> U \<and> ExtractIntVector sh = Ok sizes) \<and> (IsReduce_op op \<longrightarrow> ps \<noteq> []))"

definition analyzed :: "(Func \<times> Expr list) set \<Rightarrow> AffinityAnalyzer \<Rightarrow> bool" where
  "analyzed U an \<longleftrightarrow> refs_ok an \<and> list_all (face_ok U) (map face (tensors an))"

lemma analyzed_kept: "analyzed U an \<Longrightarrow> kept an an' \<Longrightarrow> analyzed U an'"
  unfolding analyzed_def kept_def same_faces_def
  using refs_ok_faces [of an an'] by (auto simp: refs_ok_def same_faces_def)

lemma NewTensor_Ok:
  assumes "NewTensor fn op shape an = Ok (t, an')" "refs_ok an"
  shows "t = length (tensors an) \<and> length (tensors an') = Suc (length (tensors an)) \<and> refs_ok an' \<and>
    map face (tensors an') = map face (tensors an) @ [(fn, op, [], map dim_size (aff_dims (tensors an' ! t)))] \<and>
    ExtractIntVector shape = Ok (map dim_size (aff_dims (tensors an' ! t)))"
proof -
  obtain dims where dims: "ExtractIntVector shape = Ok dims" using assms(1) by (auto simp: NewTensor_def res_bind_Ok_conv)
  define x where "x = \<lparr>aff_ref = fn, aff_op = op, aff_prod = [], aff_cons = [],
    aff_dims = map (\<lambda>n. \<lparr>dim_size = n, dim_prod = [], dim_cons = []\<rparr>) dims\<rparr>"
  have an': "t = length (tensors an)" "tensors an' = tensors an @ [x]" "tensor_map an' = (tensor_map an)(fn := Some t)"
    using assms(1) dims by (auto simp: NewTensor_def Let_def x_def)
  have old: "valid_dim an d \<Longrightarrow> valid_dim an' d \<and> get_dim an' d = get_dim an d" for d
    by (auto simp: valid_dim_def get_dim_def dims_of_def an'(2) nth_append)
  have edges: "edge_ok an e \<Longrightarrow> edge_ok an' e" for e using old by (auto simp: edge_ok_def split: option.splits)
  have new: "valid_dim an' d \<Longrightarrow> valid_dim an d \<or> prods_of (get_dim an' d) = [] \<and> dim_cons (get_dim an' d) = []" for d
    by (auto simp: valid_dim_def get_dim_def dims_of_def an'(2) nth_append x_def prods_of_def split: if_splits)
  have "edges_ok an'"
    unfolding edges_ok_def
  proof (intro allI impI)
    fix d assume "valid_dim an' d"
    with new [OF this] old [of d] edges assms(2) edges_okD [of an d] show
      "list_all (edge_ok an') (prods_of (get_dim an' d)) \<and> list_all (edge_ok an') (dim_cons (get_dim an' d))"
      by (auto simp: list_all_iff refs_ok_def)
  qed
  then have "refs_ok an'" using assms(2) an' by (auto simp: refs_ok_def nth_append x_def list_all_iff less_Suc_eq)
  moreover have "map dim_size (aff_dims x) = dims" by (simp add: x_def comp_def)
  ultimately show ?thesis using dims an' by (simp add: face_def x_def)
qed

lemma collect_inputs_analyzed:
  "collect_inputs args an = Ok (ts, an') \<Longrightarrow> analyzed U an \<Longrightarrow> set (concat (map arg_uses args)) \<subseteq> U \<Longrightarrow>
     analyzed U an' \<and> list_all (\<lambda>t. t < length (tensors an')) ts \<and> length (tensors an) \<le> length (tensors an')"
proof (induction args an arbitrary: ts an' rule: collect_inputs.induct)
  case (2 ty ct n shape fn i es an)
  from "2.prems"(1) obtain t an1 ts' where
    t: "(case tensor_map an fn of Some t \<Rightarrow> Ok (t, an) | None \<Rightarrow> NewTensor fn ''Para'' shape an) = Ok (t, an1)"
    and rest: "collect_inputs es an1 = Ok (ts', an')" and ts: "ts = t # ts'"
    by (auto simp: res_bind_Ok_conv)
  have "analyzed U an1 \<and> t < length (tensors an1) \<and> length (tensors an) \<le> length (tensors an1)"
  proof (cases "tensor_map an fn")
    case None
    with t have new: "NewTensor fn ''Para'' shape an = Ok (t, an1)" by simp
    have "refs_ok an" using "2.prems"(2) by (simp add: analyzed_def)
    from NewTensor_Ok [OF new this] "2.prems"(2,3) show ?thesis
      by (auto simp: analyzed_def face_ok_def IsReduce_op_def)
  next
    case (Some u)
    with t "2.prems"(2) show ?thesis by (auto simp: analyzed_def refs_ok_def)
  qed
  with "2.IH" [OF t refl rest] "2.prems"(3) ts show ?case by auto
qed auto

lemma link_tensor_simps [simp]:
  "length (tensors (link_tensor out t an)) = length (tensors an)"
  "tensor_map (link_tensor out t an) = tensor_map an"
  by (simp_all add: link_tensor_def upd_tensor_def)

lemma link_tensor_nth:
  assumes "t < length (tensors an)" "out < length (tensors an)" "u < length (tensors an)"
  shows "aff_dims (tensors (link_tensor out t an) ! u) = aff_dims (tensors an ! u)"
    and "aff_prod (tensors (link_tensor out t an) ! u) = aff_prod (tensors an ! u) @ (if u = out then [t] else [])"
    and "aff_ref (tensors (link_tensor out t an) ! u) = aff_ref (tensors an ! u)"
    and "aff_op (tensors (link_tensor out t an) ! u) = aff_op (tensors an ! u)"
  using assms by (cases "u = t"; cases "u = out"; simp add: link_tensor_def upd_tensor_def)+

lemma link_tensor_edges:
  assumes "t < length (tensors an)" "out < length (tensors an)"
  shows "edges_ok (link_tensor out t an) = edges_ok an"
proof -
  have dims: "dims_of (link_tensor out t an) u = dims_of an u" if "u < length (tensors an)" for u
    using link_tensor_nth(1) [OF assms that] by (simp add: dims_of_def)
  then have valid: "valid_dim (link_tensor out t an) = valid_dim an" by (auto simp: valid_dim_def fun_eq_iff)
  moreover have "edge_ok (link_tensor out t an) = edge_ok an" unfolding edge_ok_def [abs_def] valid by (rule refl)
  moreover have "valid_dim an d \<Longrightarrow> get_dim (link_tensor out t an) d = get_dim an d" for d
    using dims by (auto simp: valid_dim_def get_dim_def)
  ultimately show ?thesis by (auto simp: edges_ok_def)
qed

text \<open>Linking an output to its inputs keeps all but the list of its producers.\<close>

definition linked :: "nat \<Rightarrow> AffinityAnalyzer \<Rightarrow> AffinityAnalyzer \<Rightarrow> bool" where
  "linked out an an' \<longleftrightarrow> refs_ok an' \<and> length (tensors an') = length (tensors an) \<and>
     (\<forall>u < length (tensors an). aff_ref (tensors an' ! u) = aff_ref (tensors an ! u) \<and>
        aff_op (tensors an' ! u) = aff_op (tensors an ! u) \<and> aff_dims (tensors an' ! u) = aff_dims (tensors an ! u) \<and>
        (u \<noteq> out \<longrightarrow> aff_prod (tensors an' ! u) = aff_prod (tensors an ! u)))"

lemma fold_link:
  assumes "out < length (tensors an)" "refs_ok an" "list_all (\<lambda>t. t < length (tensors an)) ts"
  shows "linked out an (fold (link_tensor out) ts an) \<and>
    aff_prod (tensors (fold (link_tensor out) ts an) ! out) = aff_prod (tensors an ! out) @ ts"
  using assms
proof (induction ts arbitrary: an)
  case (Cons t ts)
  let ?an = "link_tensor out t an"
  have t: "t < length (tensors an)" using Cons.prems by simp
  note nth = link_tensor_nth [OF t Cons.prems(1)]
  have "refs_ok ?an"
    using Cons.prems t link_tensor_edges [OF t Cons.prems(1)] by (auto simp: refs_ok_def nth)
  with Cons.IH [of ?an] Cons.prems nth show ?case by (auto simp: linked_def)
qed (simp add: linked_def)

lemma visit_provide_analyzed:
  assumes run: "visit_provide fn v shape an = Ok an'" and "analyzed U an"
    and U: "set (provide_uses v @ [(fn, shape)]) \<subseteq> U"
  shows "analyzed U an'"
proof -
  from run obtain ty ct op args f i where v: "v = CallE ty ct op args f i"
    by (cases v) (simp_all add: visit_provide_def)
  with run obtain ts an1 out an2 where
    inputs: "collect_inputs args an = Ok (ts, an1)" and new: "NewTensor fn op shape an1 = Ok (out, an2)"
    and rel: "add_relations op ts out (fold (link_tensor out) ts an2) = Ok an'"
    by (auto simp: visit_provide_def res_bind_Ok_conv)
  define an3 where "an3 = fold (link_tensor out) ts an2"
  have an1: "analyzed U an1" "list_all (\<lambda>t. t < length (tensors an1)) ts"
    using collect_inputs_analyzed [OF inputs assms(2)] U v by auto
  then have "refs_ok an1" by (simp add: analyzed_def)
  note an2 = NewTensor_Ok [OF new this]
  have len: "out < length (tensors an2)" "list_all (\<lambda>t. t < length (tensors an2)) ts"
    using an2 an1(2) by (auto simp: list_all_iff)
  have an3: "linked out an2 an3" "aff_prod (tensors an3 ! out) = aff_prod (tensors an2 ! out) @ ts"
    using fold_link [OF len(1) _ len(2)] an2 by (auto simp: an3_def)
  have kept: "kept an3 an'"
    using add_relations_kept [OF rel] len an3(1) by (auto simp: an3_def [symmetric] linked_def)
  have reduce: "IsReduce_op op \<Longrightarrow> ts \<noteq> []"
    using rel by (auto simp: add_relations_def IsElemwise_def IsReduce_op_def res_bind_Ok_conv split: if_splits)
  have faces: "face_ok U (face (tensors an3 ! u))" if u: "u < length (tensors an3)" for u
  proof -
    have u2: "u < length (tensors an2)" using u an3(1) by (simp add: linked_def)
    have face2: "face (tensors an2 ! u) = (map face (tensors an1) @ [(fn, op, [], map dim_size (aff_dims (tensors an2 ! out)))]) ! u"
      using an2 u2 by (metis nth_map)
    show ?thesis
    proof (cases "u = out")
      case True
      with face2 an2 an3 u2 reduce U show ?thesis by (auto simp: face_ok_def face_def linked_def nth_append)
    next
      case False
      then have "u < length (tensors an1)" using u2 an2 by simp
      with face2 have "face (tensors an2 ! u) = face (tensors an1 ! u)" by (simp add: nth_append)
      with an1(1) \<open>u < length (tensors an1)\<close> have "face_ok U (face (tensors an2 ! u))"
        by (simp add: analyzed_def list_all_length)
      with False an3(1) u2 show ?thesis by (auto simp: face_def linked_def)
    qed
  qed
  have "analyzed U an3" using faces an3(1) by (simp add: analyzed_def linked_def list_all_length)
  from analyzed_kept [OF this kept] show ?thesis .
qed

lemma kept_attrs: "kept an (an\<lparr>attrs := m\<rparr>)"
proof -
  have valid: "valid_dim (an\<lparr>attrs := m\<rparr>) = valid_dim an" "get_dim (an\<lparr>attrs := m\<rparr>) = get_dim an"
    by (simp_all add: valid_dim_def get_dim_def dims_of_def fun_eq_iff)
  have "edge_ok (an\<lparr>attrs := m\<rparr>) = edge_ok an" unfolding edge_ok_def [abs_def] valid by (rule refl)
  with valid show ?thesis by (simp add: kept_def same_faces_def edges_ok_def)
qed

lemma visit_stmt_analyzed:
  "visit_stmt map_node s an = Ok an' \<Longrightarrow> analyzed U an \<Longrightarrow> set (tensor_uses s) \<subseteq> U \<Longrightarrow> analyzed U an'"
proof (induction map_node s an arbitrary: an' rule: visit_stmt.induct)
  case (1 map_node n k e b an)
  have "analyzed U (an\<lparr>attrs := m\<rparr>)" for m
    by (rule analyzed_kept [OF "1.prems"(2) kept_attrs])
  with 1 show ?case by (auto split: if_splits option.splits)
next
  case (2 map_node fn i v shape an)
  then show ?case using visit_provide_analyzed [of fn v shape an an' U] by simp
next
  case (9 map_node a b an)
  then show ?case by (auto simp: res_bind_Ok_conv)
next
  case (10 map_node c t e an)
  then show ?case by (auto simp: res_bind_Ok_conv split: option.splits)
qed auto

lemma AffinityAnalyzer_analyzed:
  "AffinityAnalyzer_Analyze map_node s = Ok an \<Longrightarrow> analyzed (set (tensor_uses s)) an"
  unfolding AffinityAnalyzer_Analyze_def
  by (erule visit_stmt_analyzed) (simp_all add: analyzed_def refs_ok_def edges_ok_def valid_dim_def)

section \<open>The analysis of the peeler returns\<close>

lemma DomLevel_pos: "1 \<le> DomLevel op"
  by (auto simp: DomLevel_def IsElemwise_def)

lemma dom_tensor_valid:
  "case dom_tensor an of None \<Rightarrow> tensors an = [] | Some t \<Rightarrow> t < length (tensors an)"
proof -
  define f where "f t r = (case r of (d, dom_level) \<Rightarrow>
    let l = DomLevel (aff_op (tensors an ! t)) in if l > dom_level then (Some t, l) else (d, dom_level))" for t r
  have some: "\<exists>t l. fold f ts (Some u, k) = (Some t, l) \<and> t \<in> insert u (set ts)" for ts u k
    by (induction ts arbitrary: u k) (fastforce simp: f_def Let_def)+
  have "case fst (fold f ts (None, -1)) of None \<Rightarrow> ts = [] | Some t \<Rightarrow> t \<in> set ts" for ts
  proof (cases ts)
    case (Cons t ts')
    then have "fold f ts (None, -1) = fold f ts' (Some t, DomLevel (aff_op (tensors an ! t)))"
      using DomLevel_pos [of "aff_op (tensors an ! t)"] by (simp add: f_def Let_def)
    with some [of ts' t] Cons show ?thesis by (metis fst_conv list.set(2) option.simps(5))
  qed simp
  from this [of "rev [0..<length (tensors an)]"] show ?thesis
    by (simp add: dom_tensor_def f_def [abs_def] split: option.splits)
qed

lemma BuildAxisSpace_Ok:
  assumes "analyzed U an" "tensors an \<noteq> []"
  obtains d axes where "BuildAxisSpace an = Ok (d, axes)" "d < length (tensors an)"
    "axes = map (\<lambda>x. \<lparr>axis_size = int_of_int64 (dim_size x), peel_val = GetDivisors (dim_size x)\<rparr>) (dims_of an d)"
proof -
  obtain t where t: "dom_tensor an = Some t" "t < length (tensors an)"
    using dom_tensor_valid [of an] assms(2) by (cases "dom_tensor an") auto
  define d where "d = (if IsReduce_op (aff_op (tensors an ! t)) then aff_prod (tensors an ! t) ! 0 else t)"
  have "face_ok U (face (tensors an ! t))" "list_all (\<lambda>p. p < length (tensors an)) (aff_prod (tensors an ! t))"
    using assms(1) t(2) by (auto simp: analyzed_def refs_ok_def list_all_length)
  then have "IsReduce_op (aff_op (tensors an ! t)) \<Longrightarrow> 0 < length (aff_prod (tensors an ! t))" "d < length (tensors an)"
    using t(2) by (auto simp: face_ok_def face_def d_def list_all_length)
  with t(1) that [of d] show ?thesis by (auto simp: BuildAxisSpace_def d_def)
qed

text \<open>The relations of \<open>an\<close> stay within the dimensions that may be mapped to an axis.\<close>

lemma axes_mapped:
  assumes "\<And>a. a < length axes \<Longrightarrow> closed_dims an (K a) \<and> (d, a) \<in> K a \<and> valid_dim an (d, a)"
  shows "\<exists>pr. for_each (\<lambda>i. MapDimToSpace an (d, i) i) [0..<length axes] \<lparr>axis_space = axes, dim_map = (\<lambda>_. None)\<rparr> = Ok pr \<and>
    mapped an K axes pr"
proof (rule for_each_total)
  show "mapped an K axes \<lparr>axis_space = axes, dim_map = (\<lambda>_. None)\<rparr>"
    by (simp add: mapped_def list_all2_conv_all_nth)
  fix i pr assume "i \<in> set [0..<length axes]" and pr: "mapped an K axes pr"
  then have i: "i < length axes" by simp
  from MapDimToSpace_ok [OF i order_refl _ _ _ pr] assms [OF i]
  show "\<exists>pr'. MapDimToSpace an (d, i) i pr = Ok pr' \<and> mapped an K axes pr'" by blast
qed

lemma closed_all_dims: "edges_ok an \<Longrightarrow> closed_dims an (all_dims an)"
proof -
  have "edge_ok an e \<Longrightarrow> snd e = AF_ELEMWISE \<Longrightarrow> \<exists>d \<in> all_dims an. fst e = Some d" for e
    by (auto simp: edge_ok_def all_dims_def split: option.splits)
  then show "edges_ok an \<Longrightarrow> closed_dims an (all_dims an)"
    using edges_okD [of an] by (auto simp: closed_dims_def closed_edges_def all_dims_def list_all_iff)
qed

lemma peeler_Analyze_total:
  assumes "AffinityAnalyzer_Analyze map_node s = Ok an" "tensors an \<noteq> []"
  shows "\<exists>pr. DimensionPeeler_Analyze map_node s = Ok pr"
proof -
  note an = AffinityAnalyzer_analyzed [OF assms(1)]
  then have edges: "edges_ok an" by (simp add: analyzed_def refs_ok_def)
  from BuildAxisSpace_Ok [OF an assms(2)] obtain d axes where
    d: "BuildAxisSpace an = Ok (d, axes)" "d < length (tensors an)"
      "axes = map (\<lambda>x. \<lparr>axis_size = int_of_int64 (dim_size x), peel_val = GetDivisors (dim_size x)\<rparr>) (dims_of an d)" .
  have "closed_dims an (all_dims an) \<and> (d, a) \<in> all_dims an \<and> valid_dim an (d, a)" if "a < length axes" for a
    using closed_all_dims [OF edges] d(2,3) that by (simp add: all_dims_def valid_dim_def)
  from axes_mapped [of axes an "\<lambda>_. all_dims an" d, OF this] show ?thesis
    by (auto simp: DimensionPeeler_Analyze_def assms(1) d(1))
qed

end
