(* ===== verification/Composite_Peel_Space.thy ===== *)
theory Composite_Peel_Space
  imports Composite_Peel
begin

text \<open>
  The ways to split that \<open>GetPeelSpace\<close> lists, and their form as strings, in which they leave the
  compiler and come back to it.
\<close>

section \<open>Strings\<close>

lemma stream_words_pair:
  assumes "s = [] \<or> isspace (hd s)"
  shows "stream_words (show_int a @ '' '' @ show_int v @ s) = show_int a # show_int v # stream_words s"
proof -
  have plain: "\<forall>c \<in> set (show_int i). \<not> isspace c" for i using show_int_plain by blast
  have "stream_words (show_int a @ '' '' @ show_int v @ s) = show_int a # stream_words ('' '' @ show_int v @ s)"
    by (rule stream_words_word) (use plain in simp_all)
  also have "stream_words ('' '' @ show_int v @ s) = stream_words (show_int v @ s)"
    by (simp add: stream_words_space)
  also have "\<dots> = show_int v # stream_words s"
    by (rule stream_words_word) (use plain assms in simp_all)
  finally show ?thesis .
qed

lemma stream_words_Nil [simp]: "stream_words [] = []"
  by (simp add: stream_words.simps)

lemma stream_words_Peeling2Str:
  "stream_words (Peeling2Str p) = concat (map (\<lambda>(a, v). [show_int a, show_int v]) p)"
proof (induction p rule: Peeling2Str.induct)
  case (2 a v)
  then show ?case using stream_words_pair [of "[]" a v] by simp
next
  case (3 a v x p)
  then show ?case using stream_words_pair [of "'' '' @ Peeling2Str (x # p)" a v]
    by (simp add: stream_words_space)
qed simp

definition peeling_in_range :: "Peeling \<Rightarrow> bool" where
  "peeling_in_range p \<longleftrightarrow> list_all (\<lambda>(a, v). in_int a \<and> in_int64 v) p"

lemma in_int_int64: "in_int i \<Longrightarrow> in_int64 i"
  by (simp add: in_int_def in_int64_def)

lemma parse_show_peeling:
  "peeling_in_range p \<Longrightarrow> parse_peeling (concat (map (\<lambda>(a, v). [show_int a, show_int v]) p)) = Ok p"
  by (induction p) (auto simp: peeling_in_range_def strtol_show_int in_int_int64 int_of_int64_small)

lemma length_pairs: "length (concat (map (\<lambda>(a, v). [f a, g v]) p)) = 2 * length p"
  by (induction p) auto

lemma Str2Peeling_back: "peeling_in_range p \<Longrightarrow> Str2Peeling (Peeling2Str p) = Ok p"
  by (simp add: Str2Peeling_def stream_words_Peeling2Str parse_show_peeling length_pairs)

section \<open>The enumeration\<close>

text \<open>\<open>q\<close> takes a value for some of the candidates, in their order.\<close>

fun picks :: "(PeelAxis \<times> int) list \<Rightarrow> Peeling \<Rightarrow> bool" where
  "picks cand [] = True"
| "picks [] (x # q) = False"
| "picks ((a, d) # rest) ((e, v) # q) \<longleftrightarrow>
     e = d \<and> v \<in> set (peel_val a) \<and> picks rest q \<or> picks rest ((e, v) # q)"

lemma CollectDepth_Cons:
  "CollectDepth l seed ((a, d) # rest) =
     CollectDepth l seed rest @
     concat (map (\<lambda>v. (if int (length seed) + 1 < l then CollectDepth l (seed @ [(d, v)]) rest else []) @ [seed @ [(d, v)]])
       (peel_val a))"
proof (cases rest)
  case Nil
  have "concat (map (\<lambda>v. [seed @ [(d, v)]]) vs) = map (\<lambda>v. seed @ [(d, v)]) vs" for vs by (induction vs) auto
  with Nil show ?thesis by (simp add: Let_def cong: if_cong)
qed (simp add: Let_def ac_simps cong: if_cong)

declare CollectDepth.simps(2) [simp del]

lemma CollectDepth_picks:
  "int (length seed) < l \<Longrightarrow>
     p \<in> set (CollectDepth l seed cand) \<longleftrightarrow>
     (\<exists>q. p = seed @ q \<and> q \<noteq> [] \<and> picks cand q \<and> int (length seed + length q) \<le> l)"
proof (induction cand arbitrary: seed)
  case Nil
  then show ?case by (auto simp: neq_Nil_conv)
next
  case (Cons c rest)
  obtain a d where c: "c = (a, d)" by fastforce
  have deeper: "p \<in> set (if int (length seed) + 1 < l then CollectDepth l (seed @ [(d, v)]) rest else []) \<longleftrightarrow>
      (\<exists>q. p = seed @ (d, v) # q \<and> q \<noteq> [] \<and> picks rest q \<and> int (length seed) + 1 + int (length q) \<le> l)" for v
  proof (cases "int (length seed) + 1 < l")
    case True
    then show ?thesis using Cons.IH [of "seed @ [(d, v)]"] by (simp add: ac_simps)
  next
    case False
    then show ?thesis by (auto simp: neq_Nil_conv)
  qed
  have "p \<in> set (CollectDepth l seed (c # rest)) \<longleftrightarrow>
      p \<in> set (CollectDepth l seed rest) \<or>
      (\<exists>v \<in> set (peel_val a). \<exists>q. p = seed @ (d, v) # q \<and> picks rest q \<and> int (length seed) + 1 + int (length q) \<le> l)"
    using deeper Cons.prems unfolding c CollectDepth_Cons
    by (auto simp del: if_split)
  also have "\<dots> \<longleftrightarrow> (\<exists>q. p = seed @ q \<and> q \<noteq> [] \<and> picks (c # rest) q \<and> int (length seed + length q) \<le> l)"
    unfolding Cons.IH [OF Cons.prems] c
    by (auto simp: neq_Nil_conv add.assoc)
  finally show ?case .
qed

lemma CollectDepth_prefix:
  "p \<in> set (CollectDepth l seed cand) \<Longrightarrow> int (length seed) < l \<Longrightarrow> \<exists>e v q. p = seed @ (e, v) # q \<and> e \<in> snd ` set cand"
proof -
  have "picks cand ((e, v) # q) \<Longrightarrow> e \<in> snd ` set cand" for e v q
    by (induction cand) (auto split: prod.splits)
  then show "p \<in> set (CollectDepth l seed cand) \<Longrightarrow> int (length seed) < l \<Longrightarrow>
      \<exists>e v q. p = seed @ (e, v) # q \<and> e \<in> snd ` set cand"
    unfolding CollectDepth_picks by (fastforce simp: neq_Nil_conv)
qed

lemma distinct_concat_map:
  assumes "distinct xs" "\<And>x. x \<in> set xs \<Longrightarrow> distinct (f x)"
    and "\<And>x y. x \<in> set xs \<Longrightarrow> y \<in> set xs \<Longrightarrow> x \<noteq> y \<Longrightarrow> set (f x) \<inter> set (f y) = {}"
  shows "distinct (concat (map f xs))"
  using assms
proof (induction xs)
  case (Cons x xs)
  have "set (f x) \<inter> set (concat (map f xs)) = {}"
    using Cons.prems(1) Cons.prems(3) [of x] by (auto simp: disjoint_iff)
  with Cons show ?case by simp
qed simp

lemma distinct_CollectDepth:
  assumes "distinct (map snd cand)" "\<forall>c \<in> set cand. distinct (peel_val (fst c))"
  shows "int (length seed) < l \<Longrightarrow> distinct (CollectDepth l seed cand)"
  using assms
proof (induction cand arbitrary: seed)
  case (Cons c rest)
  obtain a d where c: "c = (a, d)" by fastforce
  define branch where
    "branch v = (if int (length seed) + 1 < l then CollectDepth l (seed @ [(d, v)]) rest else []) @ [seed @ [(d, v)]]" for v
  have in_branch: "\<exists>q. p = seed @ (d, v) # q" if "p \<in> set (branch v)" for p v
    using that CollectDepth_prefix [of p l "seed @ [(d, v)]" rest] by (auto simp: branch_def split: if_splits)
  have "distinct (branch v)" for v
    using Cons.IH [of "seed @ [(d, v)]"] CollectDepth_prefix [of "seed @ [(d, v)]" l "seed @ [(d, v)]" rest] Cons.prems
    by (auto simp: branch_def)
  moreover have "set (branch v) \<inter> set (branch w) = {}" if "v \<noteq> w" for v w
    using in_branch [of _ v] in_branch [of _ w] that by (auto simp: disjoint_iff)
  ultimately have "distinct (concat (map branch (peel_val a)))"
    using Cons.prems(3) c by (intro distinct_concat_map) auto
  moreover have "distinct (CollectDepth l seed rest)"
    using Cons by simp
  moreover have "set (CollectDepth l seed rest) \<inter> set (concat (map branch (peel_val a))) = {}"
    using CollectDepth_prefix [of _ l seed rest] in_branch Cons.prems(1,2) c by fastforce
  ultimately show ?case unfolding c CollectDepth_Cons branch_def [symmetric] by simp
qed simp

lemma picks_sorted:
  "sorted_wrt (<) (map snd cand) \<Longrightarrow>
     picks cand q \<longleftrightarrow> sorted_wrt (<) (map fst q) \<and> (\<forall>(e, v) \<in> set q. \<exists>a. (a, e) \<in> set cand \<and> v \<in> set (peel_val a))"
proof (induction cand q rule: picks.induct)
  case (3 a d rest e v q)
  have above: "d < d'" if "(a', d') \<in> set rest" for a' d' using "3.prems" that by auto
  show ?case
  proof (cases "e = d")
    case True
    have no: "\<not> picks rest ((e, v) # q)" using "3.IH"(2) "3.prems" above True by auto
    have "(\<exists>a'. (a', x) \<in> set ((a, d) # rest) \<and> w \<in> set (peel_val a')) \<longleftrightarrow> (\<exists>a'. (a', x) \<in> set rest \<and> w \<in> set (peel_val a'))"
      if "d < x" for x w using that by auto
    with True no "3.IH"(1) "3.prems" above show ?thesis by (auto simp: split_beta)
  next
    case False
    have "d < fst x" if "picks rest ((e, v) # q) \<or> (\<exists>a'. (a', e) \<in> set rest) \<and> sorted_wrt (<) (e # map fst q)" "x \<in> set ((e, v) # q)" for x
      using that "3.IH"(2) "3.prems" above by fastforce
    with False "3.IH"(2) "3.prems" above show ?thesis by (auto simp: split_beta) fastforce+
  qed
qed auto

lemma GetPeelSpace_eq:
  "GetPeelSpace pr limit r =
     CollectDepth (if limit \<le> 0 then int (length (axis_space pr)) else limit) [] (cand_axis pr r)"
  by (simp add: GetPeelSpace_def Let_def)

lemma sorted_cand_axis: "sorted_wrt (<) (map snd (cand_axis pr r))"
  by (simp add: cand_axis_def sorted_wrt_map comp_def sorted_wrt_filter)

lemma in_cand_axis:
  "(a, d) \<in> set (cand_axis pr r) \<longleftrightarrow>
     0 \<le> d \<and> d < int (length (axis_space pr)) \<and> a = axis_space pr ! nat d \<and> peel_val a \<noteq> [] \<and>
     (case r of None \<Rightarrow> True | Some r \<Rightarrow> d \<in> r)"
  by (auto simp: cand_axis_def image_iff intro!: exI [of _ "nat d"] split: option.splits)

lemma sorted_length:
  assumes "sorted_wrt (<) (map fst p)" "\<forall>(e, v) \<in> set p. 0 \<le> e \<and> e < int n"
  shows "length p \<le> n"
proof -
  have "distinct (map fst p)" using assms(1) strict_sorted_iff by blast
  then have "length p = card (set (map fst p))" using distinct_card by fastforce
  also have "\<dots> \<le> card {0..<int n}" using assms(2) by (intro card_mono) fastforce+
  finally show ?thesis by simp
qed

text \<open>What a split of the space looks like.\<close>

definition valid_peeling :: "DimensionPeeler \<Rightarrow> int set option \<Rightarrow> Peeling \<Rightarrow> bool" where
  "valid_peeling pr limit_range p \<longleftrightarrow>
     p \<noteq> [] \<and> sorted_wrt (<) (map fst p) \<and>
     list_all (\<lambda>(a, v). 0 \<le> a \<and> a < int (length (axis_space pr)) \<and> v \<in> set (peel_val (axis_space pr ! nat a)) \<and>
       (case limit_range of None \<Rightarrow> True | Some r \<Rightarrow> a \<in> r)) p"

lemma picks_valid:
  "p \<noteq> [] \<Longrightarrow> picks (cand_axis pr r) p \<longleftrightarrow> valid_peeling pr r p"
  unfolding picks_sorted [OF sorted_cand_axis] valid_peeling_def list_all_iff
  by (auto simp: in_cand_axis split: option.splits)

lemma valid_peeling_length: "valid_peeling pr r p \<Longrightarrow> length p \<le> length (axis_space pr)"
  unfolding valid_peeling_def by (elim conjE, rule sorted_length) (auto simp: list_all_iff)

lemma in_GetPeelSpace:
  "p \<in> set (GetPeelSpace pr limit r) \<longleftrightarrow> valid_peeling pr r p \<and> (0 < limit \<longrightarrow> int (length p) \<le> limit)"
proof (cases "axis_space pr = [] \<and> limit \<le> 0")
  case True
  then show ?thesis by (cases p) (auto simp: GetPeelSpace_def cand_axis_def valid_peeling_def)
next
  case False
  define l where "l = (if limit \<le> 0 then int (length (axis_space pr)) else limit)"
  have "0 < l" using False by (auto simp: l_def)
  then have "p \<in> set (GetPeelSpace pr limit r) \<longleftrightarrow> p \<noteq> [] \<and> picks (cand_axis pr r) p \<and> int (length p) \<le> l"
    unfolding GetPeelSpace_eq l_def [symmetric] using CollectDepth_picks [of "[]" l p] by simp
  then show ?thesis
    using picks_valid [of p pr r] valid_peeling_length [of pr r p] by (auto simp: l_def valid_peeling_def)
qed

lemma distinct_GetPeelSpace:
  assumes "\<forall>a \<in> set (axis_space pr). distinct (peel_val a)"
  shows "distinct (GetPeelSpace pr limit r)"
proof (cases "axis_space pr = [] \<and> limit \<le> 0")
  case True
  then show ?thesis by (simp add: GetPeelSpace_def cand_axis_def)
next
  case False
  have "distinct (map snd (cand_axis pr r))" using sorted_cand_axis strict_sorted_iff by blast
  moreover have "\<forall>c \<in> set (cand_axis pr r). distinct (peel_val (fst c))"
    using assms by (auto simp: cand_axis_def)
  ultimately show ?thesis unfolding GetPeelSpace_eq using False by (intro distinct_CollectDepth) auto
qed

end
