(* ===== verification/Composite_Peel_Apply.thy ===== *)
theory Composite_Peel_Apply
  imports Composite_Peel_Relations Composite_Peel_Space
begin

text \<open>
  Splitting a statement along a way from its own space: the sizes that a dimension of an axis has
  are the size of the axis, so no check fails and every shape is divided.
\<close>

section \<open>Sizes along an axis\<close>

lemma GetDivisors_iff: "v \<in> set (GetDivisors n) \<longleftrightarrow> 2 \<le> v \<and> v \<le> n \<and> n mod v = 0"
  by (auto simp: GetDivisors_def)

lemma distinct_GetDivisors: "distinct (GetDivisors n)"
  by (simp add: GetDivisors_def)

text \<open>The relations called elementwise are between dimensions of one size. For elementwise
  operators the analyzer compares the sizes; for a reduction it takes this for granted.\<close>

definition same_size :: "AffinityAnalyzer \<Rightarrow> dim_ref \<Rightarrow> dim_ref option \<times> Affinity \<Rightarrow> bool" where
  "same_size an d e \<longleftrightarrow>
     (snd e = AF_ELEMWISE \<longrightarrow> (case fst e of None \<Rightarrow> False | Some c \<Rightarrow> dim_size (get_dim an c) = dim_size (get_dim an d)))"

definition elementwise_agree :: "AffinityAnalyzer \<Rightarrow> bool" where
  "elementwise_agree an \<longleftrightarrow>
     list_all (\<lambda>t. list_all (\<lambda>i. let d = (t, i); x = get_dim an d in
         list_all (same_size an d) (prods_of x) \<and> list_all (same_size an d) (dim_cons x))
       [0..<length (dims_of an t)]) [0..<length (tensors an)]"

definition sizes_agree :: "(AttrNode \<Rightarrow> Attrs option) \<Rightarrow> Stmt \<Rightarrow> bool" where
  "sizes_agree map_node s \<longleftrightarrow>
     (case AffinityAnalyzer_Analyze map_node s of Ok an \<Rightarrow> elementwise_agree an | Err e \<Rightarrow> False)"

lemma elementwise_agreeD:
  "elementwise_agree an \<Longrightarrow> valid_dim an d \<Longrightarrow>
     list_all (same_size an d) (prods_of (get_dim an d)) \<and> list_all (same_size an d) (dim_cons (get_dim an d))"
  by (cases d) (auto simp: elementwise_agree_def list_all_iff valid_dim_def Let_def)

definition dims_of_size :: "AffinityAnalyzer \<Rightarrow> int \<Rightarrow> dim_ref set" where
  "dims_of_size an n = {d \<in> all_dims an. dim_size (get_dim an d) = n}"

lemma closed_dims_of_size:
  assumes "edges_ok an" "elementwise_agree an"
  shows "closed_dims an (dims_of_size an n)"
proof -
  have step: "closed_edges an (dims_of_size an n) es"
    if "list_all (edge_ok an) es" "list_all (same_size an d) es" "dim_size (get_dim an d) = n" for d es
    using that by (auto simp: closed_edges_def list_all_iff same_size_def edge_ok_def dims_of_size_def all_dims_def split: option.splits)
  show ?thesis
    unfolding closed_dims_def
  proof (intro ballI conjI)
    fix d assume "d \<in> dims_of_size an n"
    then have d: "valid_dim an d" "dim_size (get_dim an d) = n" by (auto simp: dims_of_size_def all_dims_def)
    show "closed_edges an (dims_of_size an n) (prods_of (get_dim an d))"
      "closed_edges an (dims_of_size an n) (dim_cons (get_dim an d))"
      using step [of _ d] edges_okD [OF assms(1) d(1)] elementwise_agreeD [OF assms(2) d(1)] d(2) by blast+
  qed
qed

text \<open>What the analysis says of the axes of a dominating tensor: their \<open>sizes\<close> are those of a shape
  in the statement, and the dimensions mapped to an axis are in any set of dimensions that has
  all dimensions of its size and that elementwise relations do not leave.\<close>

definition axes_of :: "int list \<Rightarrow> PeelAxis list" where
  "axes_of sizes = map (\<lambda>n. \<lparr>axis_size = int_of_int64 n, peel_val = GetDivisors n\<rparr>) sizes"

lemma length_axes_of [simp]: "length (axes_of sizes) = length sizes"
  by (simp add: axes_of_def)

lemma Analyze_axes:
  assumes "DimensionPeeler_Analyze map_node s = Ok pr" "AffinityAnalyzer_Analyze map_node s = Ok an"
    and K: "\<And>n. dims_of_size an n \<subseteq> K n" "\<And>n. closed_dims an (K n)"
  obtains fn sh sizes where "(fn, sh) \<in> set (tensor_uses s)" "ExtractIntVector sh = Ok sizes"
    "mapped an (\<lambda>a. K (sizes ! a)) (axes_of sizes) pr"
proof -
  note ok = AffinityAnalyzer_analyzed [OF assms(2)]
  have "tensors an \<noteq> []"
  proof
    assume "tensors an = []"
    then have "BuildAxisSpace an = Err Null_pointer" by (simp add: BuildAxisSpace_def dom_tensor_def)
    with assms(1,2) show False by (simp add: DimensionPeeler_Analyze_def)
  qed
  from BuildAxisSpace_Ok [OF ok this] obtain d axes where
    d: "BuildAxisSpace an = Ok (d, axes)" "d < length (tensors an)"
      "axes = map (\<lambda>x. \<lparr>axis_size = int_of_int64 (dim_size x), peel_val = GetDivisors (dim_size x)\<rparr>) (dims_of an d)" .
  define sizes where "sizes = map dim_size (dims_of an d)"
  have axes: "axes = axes_of sizes" by (simp add: d(3) sizes_def axes_of_def)
  have "closed_dims an (K (sizes ! a)) \<and> (d, a) \<in> K (sizes ! a) \<and> valid_dim an (d, a)"
    if "a < length axes" for a
  proof -
    have "valid_dim an (d, a)" "(d, a) \<in> dims_of_size an (sizes ! a)"
      using that d(2) by (simp_all add: axes sizes_def dims_of_size_def all_dims_def valid_dim_def get_dim_def)
    with K show ?thesis by blast
  qed
  from axes_mapped [of axes an "\<lambda>a. K (sizes ! a)" d, OF this] assms(1,2) d(1)
  have "mapped an (\<lambda>a. K (sizes ! a)) (axes_of sizes) pr" by (auto simp: DimensionPeeler_Analyze_def axes)
  moreover have "face_ok (set (tensor_uses s)) (face (tensors an ! d))"
    using ok d(2) by (simp add: analyzed_def list_all_length)
  then obtain sh where "(aff_ref (tensors an ! d), sh) \<in> set (tensor_uses s)" "ExtractIntVector sh = Ok sizes"
    by (auto simp: face_ok_def face_def sizes_def dims_of_def)
  ultimately show ?thesis using that by blast
qed

section \<open>One shape\<close>

lemma UpdateNewShape_divides:
  assumes "0 \<le> j" "nat j < length sh" "const_value (sh ! nat j) = Some n" "v \<in> set (GetDivisors n)" "in_int64 n"
  shows "UpdateNewShape j v sh = Ok (sh[nat j := IntImm (Int_type 32) (n div v)])"
proof -
  have v: "2 \<le> v" "v \<le> n" "n mod v = 0" using assms(4) by (auto simp: GetDivisors_iff)
  then have "int64_div n v = Ok (n div v)" "n smod v = 0"
    using assms(5) by (simp_all add: int64_div_pos smod_nonneg)
  with v assms(1-3) show ?thesis by (simp add: UpdateNewShape_def vec_at_int_def)
qed

text \<open>By what a peeling divides a dimension.\<close>

definition split_factor :: "int list \<Rightarrow> Peeling \<Rightarrow> nat \<Rightarrow> int" where
  "split_factor m p j = prod_list (map snd (filter (\<lambda>(a, v). m ! nat a = int j) p))"

definition divided :: "(nat \<Rightarrow> int) \<Rightarrow> Expr list \<Rightarrow> Expr list \<Rightarrow> bool" where
  "divided k sh sh' \<longleftrightarrow> length sh' = length sh \<and> list_all (\<lambda>e. is_int (type_of e)) sh' \<and>
     (\<forall>j < length sh. \<exists>n. const_value (sh' ! j) = Some n \<and> const_value (sh ! j) = Some (n * k j))"

lemma is_int_Int_type [simp]: "is_int (type_of (IntImm (Int_type 32) n))"
  by simp

text \<open>\<open>m\<close> maps the axes of \<open>p\<close> to dimensions of \<open>sh\<close>, at most one axis to each, and the values of \<open>p\<close>
  divide their sizes.\<close>

definition fits :: "int list \<Rightarrow> Expr list \<Rightarrow> Peeling \<Rightarrow> bool" where
  "fits m sh p \<longleftrightarrow> distinct (filter (\<lambda>j. j \<noteq> - 1) (map (\<lambda>(a, v). m ! nat a) p)) \<and>
     list_all (\<lambda>(a, v). 0 \<le> a \<and> nat a < length m \<and> (m ! nat a = - 1 \<or>
       0 \<le> m ! nat a \<and> nat (m ! nat a) < length sh \<and>
       (\<exists>n. const_value (sh ! nat (m ! nat a)) = Some n \<and> v \<in> set (GetDivisors n)))) p"

lemma peel_shape_divides:
  "fits m sh p \<Longrightarrow> list_all index_const sh \<Longrightarrow>
   \<exists>sh'. for_each (\<lambda>(a, v) sh. res_bind (vec_at_int m a) (\<lambda>d. UpdateNewShape d v sh)) p sh = Ok sh' \<and>
     divided (split_factor m p) sh sh'"
proof (induction p arbitrary: sh)
  case Nil
  then show ?case
    by (auto simp: divided_def split_factor_def list_all_length index_const_def split: option.splits)
next
  case (Cons x p)
  obtain a v where x: "x = (a, v)" by fastforce
  have a: "0 \<le> a" "nat a < length m" using Cons.prems(1) x by (auto simp: fits_def)
  show ?case
  proof (cases "m ! nat a = - 1")
    case True
    have "fits m sh p" using Cons.prems(1) x True by (simp add: fits_def)
    moreover have "split_factor m (x # p) = split_factor m p" using x True by (auto simp: split_factor_def fun_eq_iff)
    ultimately show ?thesis using Cons.IH [OF _ Cons.prems(2)] a True
      by (simp add: x vec_at_int_def UpdateNewShape_def)
  next
    case False
    define j where "j = m ! nat a"
    from Cons.prems(1) x False obtain n where n: "0 \<le> j" "nat j < length sh" "const_value (sh ! nat j) = Some n"
      "v \<in> set (GetDivisors n)" by (auto simp: fits_def j_def)
    define sh1 where "sh1 = sh[nat j := IntImm (Int_type 32) (n div v)]"
    have "in_int64 n" using Cons.prems(2) n by (auto simp: list_all_length index_const_def)
    then have step: "UpdateNewShape j v sh = Ok sh1" unfolding sh1_def by (intro UpdateNewShape_divides n)
    have v: "2 \<le> v" "v \<le> n" "n mod v = 0" using n(4) by (auto simp: GetDivisors_iff)
    have other: "m ! nat b \<noteq> j" if "(b, w) \<in> set p" for b w
      using Cons.prems(1) that n(1) by (auto simp: fits_def x j_def image_iff split: if_splits)
    have "fits m sh1 p"
      unfolding fits_def
    proof
      show "distinct (filter (\<lambda>j. j \<noteq> - 1) (map (\<lambda>(a, v). m ! nat a) p))"
        using Cons.prems(1) by (auto simp: fits_def x split: if_splits)
      have same: "sh1 ! nat (m ! nat b) = sh ! nat (m ! nat b)" if "(b, w) \<in> set p" "0 \<le> m ! nat b" for b w
        using other [OF that(1)] that(2) n(1) by (simp add: sh1_def nat_eq_iff)
      show "list_all (\<lambda>(a, v). 0 \<le> a \<and> nat a < length m \<and> (m ! nat a = - 1 \<or> 0 \<le> m ! nat a \<and> nat (m ! nat a) < length sh1 \<and>
          (\<exists>n. const_value (sh1 ! nat (m ! nat a)) = Some n \<and> v \<in> set (GetDivisors n)))) p"
        unfolding list_all_iff
      proof (clarify)
        fix b w assume b: "(b, w) \<in> set p"
        with Cons.prems(1) have "0 \<le> b \<and> nat b < length m \<and> (m ! nat b = - 1 \<or> 0 \<le> m ! nat b \<and> nat (m ! nat b) < length sh \<and>
          (\<exists>n. const_value (sh ! nat (m ! nat b)) = Some n \<and> w \<in> set (GetDivisors n)))"
          by (auto simp: fits_def list_all_iff)
        with same [OF b] show "0 \<le> b \<and> nat b < length m \<and> (m ! nat b = - 1 \<or> 0 \<le> m ! nat b \<and> nat (m ! nat b) < length sh1 \<and>
          (\<exists>n. const_value (sh1 ! nat (m ! nat b)) = Some n \<and> w \<in> set (GetDivisors n)))"
          by (auto simp: sh1_def)
      qed
    qed
    moreover have "in_int64 (n div v)"
      using v \<open>in_int64 n\<close> div_le_self [of n v] div_nonneg [of n v] by (simp add: in_int64_def)
    then have "list_all index_const sh1"
      using Cons.prems(2) n(2) by (auto simp: sh1_def list_all_length nth_list_update index_const_def const_value_def)
    ultimately obtain sh' where sh': "divided (split_factor m p) sh1 sh'"
      "for_each (\<lambda>(a, v) sh. res_bind (vec_at_int m a) (\<lambda>d. UpdateNewShape d v sh)) p sh1 = Ok sh'"
      using Cons.IH by blast
    have "divided (split_factor m (x # p)) sh sh'"
      unfolding divided_def
    proof (intro conjI allI impI)
      fix k assume k: "k < length sh"
      then obtain i where i: "const_value (sh' ! k) = Some i" "const_value (sh1 ! k) = Some (i * split_factor m p k)"
        using sh'(1) by (auto simp: divided_def sh1_def)
      show "\<exists>i. const_value (sh' ! k) = Some i \<and> const_value (sh ! k) = Some (i * split_factor m (x # p) k)"
      proof (cases "k = nat j")
        case True
        have "split_factor m p k = 1"
          using other n(1) True unfolding split_factor_def by (subst filter_False) auto
        moreover have "split_factor m (x # p) k = v * split_factor m p k"
          using True n(1) by (simp add: split_factor_def x j_def)
        ultimately show ?thesis using i n v True k by (auto simp: sh1_def const_value_def)
      next
        case False
        then have "split_factor m (x # p) k = split_factor m p k"
          using n(1) by (auto simp: split_factor_def x j_def)
        with i False show ?thesis by (simp add: sh1_def)
      qed
    qed (use sh'(1) in \<open>auto simp: divided_def sh1_def\<close>)
    moreover have "vec_at_int m a = Ok j" using a by (simp add: vec_at_int_def j_def)
    ultimately show ?thesis using step sh'(2) by (auto simp: x)
  qed
qed

section \<open>A statement\<close>

text \<open>The statement without its shapes.\<close>

fun blank_arg :: "Expr \<Rightarrow> Expr" where
  "blank_arg (CallE ty ct n shape fn i) = CallE ty ct n [] fn 0"
| "blank_arg e = e"

fun blank_value :: "Expr \<Rightarrow> Expr" where
  "blank_value (CallE ty ct op args f i) = CallE ty ct op (map blank_arg args) f 0"
| "blank_value e = e"

fun blank :: "Stmt \<Rightarrow> Stmt" where
  "blank (Provide fn i v shape) = Provide fn i (blank_value v) []"
| "blank (LetStmt v e b) = LetStmt v e (blank b)"
| "blank (AttrStmt n k e b) = AttrStmt n k e (blank b)"
| "blank (AssertStmt c m b) = AssertStmt c m (blank b)"
| "blank (ProducerConsumer fn p b) = ProducerConsumer fn p (blank b)"
| "blank (For v m x t b) = For v m x t (blank b)"
| "blank (Allocate v t xs c b n) = Allocate v t xs c (blank b) n"
| "blank (Realize fn i ty bs c b) = Realize fn i ty bs c (blank b)"
| "blank (Block a b) = make_block (blank a) (blank b)"
| "blank (IfThenElse c t e) = IfThenElse c (blank t) (case e of Some s \<Rightarrow> Some (blank s) | None \<Rightarrow> None)"
| "blank s = s"

lemma blank_make_block [simp]: "blank (make_block a b) = make_block (blank a) (blank b)"
  by (induction a b rule: make_block.induct) (simp_all add: make_block_assoc)

text \<open>Every use of a tensor gets a shape that is related to its own by \<open>G\<close>; \<open>r\<close> holds the shapes
  that have been replaced before.\<close>

definition replaced_ok :: "(Func \<times> Expr list) set \<Rightarrow> (Func \<times> Expr list \<Rightarrow> Func \<times> Expr list \<Rightarrow> bool) \<Rightarrow> Shapes \<Rightarrow> bool" where
  "replaced_ok U G r \<longleftrightarrow> (\<forall>fn sh' sh. r fn = Some sh' \<longrightarrow> (fn, sh) \<in> U \<longrightarrow> G (fn, sh) (fn, sh'))"

definition peels_uses ::
    "(Func \<Rightarrow> Expr list \<Rightarrow> Expr list res) \<Rightarrow> (Func \<times> Expr list) set \<Rightarrow> (Func \<times> Expr list \<Rightarrow> Func \<times> Expr list \<Rightarrow> bool) \<Rightarrow> bool" where
  "peels_uses pf U G \<longleftrightarrow>
     (\<forall>fn sh. (fn, sh) \<in> U \<longrightarrow> (\<exists>sh'. pf fn sh = Ok sh' \<and> (\<forall>sh2. (fn, sh2) \<in> U \<longrightarrow> G (fn, sh2) (fn, sh')))) \<and>
     (\<forall>x fn sh'. G x (fn, sh') \<longrightarrow> list_all (\<lambda>e. is_int (type_of e)) sh')"

lemma ReplaceShape_ok:
  assumes "peels_uses pf U G" "replaced_ok U G r" "(fn, sh) \<in> U"
  shows "\<exists>sh' r'. ReplaceShape pf fn sh r = Ok (sh', r') \<and> replaced_ok U G r' \<and> G (fn, sh) (fn, sh')"
proof (cases "r fn")
  case None
  from assms(1,3) obtain sh' where "pf fn sh = Ok sh'" "\<forall>sh2. (fn, sh2) \<in> U \<longrightarrow> G (fn, sh2) (fn, sh')"
    unfolding peels_uses_def by blast
  with None assms(2,3) show ?thesis by (auto simp: ReplaceShape_def replaced_ok_def)
qed (use assms(2,3) in \<open>auto simp: ReplaceShape_def replaced_ok_def\<close>)

lemma peel_args_ok:
  assumes "peels_uses pf U G"
  shows "replaced_ok U G r \<Longrightarrow> set (concat (map arg_uses es)) \<subseteq> U \<Longrightarrow>
    \<exists>es' r'. peel_args pf es r = Ok (es', r') \<and> replaced_ok U G r' \<and> map type_of es' = map type_of es \<and>
      map blank_arg es' = map blank_arg es \<and> list_all2 G (concat (map arg_uses es)) (concat (map arg_uses es'))"
proof (induction es arbitrary: r)
  case (Cons e es)
  have "\<exists>e' r1. replaced_ok U G r1 \<and> type_of e' = type_of e \<and> blank_arg e' = blank_arg e \<and>
      list_all2 G (arg_uses e) (arg_uses e') \<and>
      peel_args pf (e # es) r = res_bind (peel_args pf es r1) (\<lambda>(es, r). Ok (e' # es, r))"
  proof (cases e)
    case (CallE ty ct n shape fn i)
    then have "(fn, shape) \<in> U" using Cons.prems(2) by simp
    from ReplaceShape_ok [OF assms Cons.prems(1) this] obtain shape' r1 where
      s: "ReplaceShape pf fn shape r = Ok (shape', r1)" "replaced_ok U G r1" "G (fn, shape) (fn, shape')" by blast
    then have "make_expr (CallE ty ct n shape' fn 0) = Ok (CallE ty ct n shape' fn 0)"
      using assms by (auto simp: make_expr_def peels_uses_def)
    with s CallE show ?thesis by (intro exI [of _ "CallE ty ct n shape' fn 0"] exI [of _ r1]) simp
  qed (use Cons.prems(1) in \<open>intro exI [of _ e] exI [of _ r], simp\<close>)+
  then obtain e' r1 where e': "replaced_ok U G r1" "type_of e' = type_of e" "blank_arg e' = blank_arg e"
    "list_all2 G (arg_uses e) (arg_uses e')"
    "peel_args pf (e # es) r = res_bind (peel_args pf es r1) (\<lambda>(es, r). Ok (e' # es, r))" by blast
  from Cons.IH [OF e'(1)] Cons.prems(2) obtain es' r' where
    "peel_args pf es r1 = Ok (es', r')" "replaced_ok U G r'" "map type_of es' = map type_of es"
    "map blank_arg es' = map blank_arg es" "list_all2 G (concat (map arg_uses es)) (concat (map arg_uses es'))" by auto
  with e' show ?case by (auto intro: list_all2_appendI)
qed simp

lemma peel_provide_ok:
  assumes "peels_uses pf U G" "replaced_ok U G r" "set (tensor_uses (Provide fn i v shape)) \<subseteq> U" "expr_ok v"
    and "v = CallE ty ct op args f k"
  shows "\<exists>s' r'. peel_provide pf fn i v shape r = Ok (s', r') \<and> replaced_ok U G r' \<and>
    blank s' = blank (Provide fn i v shape) \<and> list_all2 G (tensor_uses (Provide fn i v shape)) (tensor_uses s')"
proof -
  have U: "set (concat (map arg_uses args)) \<subseteq> U" "(fn, shape) \<in> U" using assms(3,5) by auto
  from peel_args_ok [OF assms(1,2) U(1)] obtain args' r1 where
    args: "peel_args pf args r = Ok (args', r1)" "replaced_ok U G r1" "map type_of args' = map type_of args"
      "map blank_arg args' = map blank_arg args" "list_all2 G (concat (map arg_uses args)) (concat (map arg_uses args'))"
    by blast
  from ReplaceShape_ok [OF assms(1) args(2) U(2)] obtain shape' r2 where
    shape: "ReplaceShape pf fn shape r1 = Ok (shape', r2)" "replaced_ok U G r2" "G (fn, shape) (fn, shape')" by blast
  have "list_all (\<lambda>ty. is_int ty) (map type_of args') = list_all (\<lambda>ty. is_int ty) (map type_of args)"
    by (simp only: args(3))
  then have "expr_ok (CallE ty ct op args' f 0)" using assms(4,5) by (simp add: list_all_length)
  then have "make_expr (CallE ty ct op args' f 0) = Ok (CallE ty ct op args' f 0)" by (simp add: make_expr_def)
  with args shape assms(5) show ?thesis by (auto simp: peel_provide_def intro: list_all2_appendI)
qed

lemma typed_expr_ok: "typed_expr e \<Longrightarrow> expr_ok e"
  by (cases e) auto

lemma peel_stmt_ok:
  assumes "peels_uses pf U G"
  shows "visit_stmt map_node s an = Ok an' \<Longrightarrow> typed_stmt s \<Longrightarrow> set (tensor_uses s) \<subseteq> U \<Longrightarrow> replaced_ok U G r \<Longrightarrow>
    \<exists>s' r'. peel_stmt pf s r = Ok (s', r') \<and> replaced_ok U G r' \<and> blank s' = blank s \<and>
      list_all2 G (tensor_uses s) (tensor_uses s')"
proof (induction s arbitrary: an an' r)
  case (Provide fn i v shape)
  then obtain ty ct op args f k where v: "v = CallE ty ct op args f k"
    by (cases v) (simp_all add: visit_provide_def)
  from peel_provide_ok [OF assms Provide(4) Provide(3) typed_expr_ok v] Provide(2) show ?case by simp
next
  case (AttrStmt n k e b)
  then obtain an1 where "visit_stmt map_node b an1 = Ok an'" by (auto split: if_splits option.splits)
  from AttrStmt.IH [OF this] AttrStmt.prems show ?case by fastforce
next
  case (Block a b)
  then obtain an1 where run: "visit_stmt map_node a an = Ok an1" "visit_stmt map_node b an1 = Ok an'"
    by (auto simp: res_bind_Ok_conv)
  from Block.IH(1) [OF run(1) _ _ Block.prems(4)] Block.prems obtain a' r1 where
    a: "peel_stmt pf a r = Ok (a', r1)" "replaced_ok U G r1" "blank a' = blank a" "list_all2 G (tensor_uses a) (tensor_uses a')"
    by auto
  from Block.IH(2) [OF run(2) _ _ a(2)] Block.prems obtain b' r2 where
    "peel_stmt pf b r1 = Ok (b', r2)" "replaced_ok U G r2" "blank b' = blank b" "list_all2 G (tensor_uses b) (tensor_uses b')"
    by auto
  with a show ?case by (auto intro: list_all2_appendI)
next
  case (IfThenElse c t e)
  then obtain an1 where run: "visit_stmt map_node t an = Ok an1"
    "case e of Some s \<Rightarrow> visit_stmt map_node s an1 = Ok an' | None \<Rightarrow> True"
    by (auto simp: res_bind_Ok_conv split: option.splits)
  from IfThenElse.IH(1) [OF run(1) _ _ IfThenElse.prems(4)] IfThenElse.prems obtain t' r1 where
    t: "peel_stmt pf t r = Ok (t', r1)" "replaced_ok U G r1" "blank t' = blank t" "list_all2 G (tensor_uses t) (tensor_uses t')"
    by auto
  show ?case
  proof (cases e)
    case None
    with t show ?thesis by auto
  next
    case (Some s)
    with IfThenElse.IH(2) [of s an1 an' r1] run(2) IfThenElse.prems t(2) obtain s' r2 where
      "peel_stmt pf s r1 = Ok (s', r2)" "replaced_ok U G r2" "blank s' = blank s" "list_all2 G (tensor_uses s) (tensor_uses s')"
      by auto
    with Some t show ?thesis by (auto intro: list_all2_appendI)
  qed
qed fastforce+

end
