(* ===== verification/Composite_Peel_Correct.thy ===== *)
theory Composite_Peel_Correct
  imports Composite_Peel_Apply
begin

text \<open>
  The properties of the peeling as the rest of the compiler sees it: the analysis returns, its space
  is complete, a split survives its form as a string, and every split of the space can be applied.
\<close>

section \<open>The shapes in a statement\<close>

text \<open>The axes that \<open>p\<close> splits are different dimensions of every tensor.\<close>

definition apart :: "DimensionPeeler \<Rightarrow> Peeling \<Rightarrow> Stmt \<Rightarrow> bool" where
  "apart pr p s \<longleftrightarrow>
     list_all (\<lambda>(fn, sh). case dim_map pr (func_name fn) of None \<Rightarrow> True
       | Some m \<Rightarrow> distinct (filter (\<lambda>j. j \<noteq> - 1) (map (\<lambda>(a, v). m ! nat a) p))) (tensor_uses s)"

lemma apart_single: "length p \<le> 1 \<Longrightarrow> apart pr p s"
  by (cases p) (auto simp: apart_def list_all_iff split: option.splits)

text \<open>By what \<open>p\<close> divides the dimensions of the tensors with a name.\<close>

definition split_of :: "DimensionPeeler \<Rightarrow> Peeling \<Rightarrow> string \<Rightarrow> nat \<Rightarrow> int" where
  "split_of pr p name = (case dim_map pr name of None \<Rightarrow> (\<lambda>_. 1) | Some m \<Rightarrow> split_factor m p)"

fun split_use :: "DimensionPeeler \<Rightarrow> Peeling \<Rightarrow> Func \<times> Expr list \<Rightarrow> Func \<times> Expr list \<Rightarrow> bool" where
  "split_use pr p (fn, sh) (fn', sh') \<longleftrightarrow> fn' = fn \<and> divided (split_of pr p (func_name fn)) sh sh'"

lemma divided_cong: "map const_value sh2 = map const_value sh \<Longrightarrow> divided k sh sh' \<Longrightarrow> divided k sh2 sh'"
  unfolding divided_def by (metis length_map nth_map)

lemma divided_self: "list_all index_const sh \<Longrightarrow> divided (\<lambda>_. 1) sh sh"
  by (auto simp: divided_def list_all_length index_const_def split: option.splits)

text \<open>A dimension mapped to an axis has the size of the axis wherever its tensor is used.\<close>

lemma mapped_fits:
  assumes an: "analyzed (set (tensor_uses s)) an"
    and mp: "mapped an (\<lambda>a. dims_of_size an (sizes ! a)) (axes_of sizes) pr"
    and s: "uniform_shapes s" "(fn, sh) \<in> set (tensor_uses s)" "apart pr p s"
    and p: "valid_peeling pr r p" and m: "dim_map pr (func_name fn) = Some m"
  shows "fits m sh p"
  unfolding fits_def
proof
  show "distinct (filter (\<lambda>j. j \<noteq> - 1) (map (\<lambda>(a, v). m ! nat a) p))"
    using s(2,3) m unfolding apart_def list_all_iff by fastforce
  show "list_all (\<lambda>(a, v). 0 \<le> a \<and> nat a < length m \<and> (m ! nat a = - 1 \<or>
    0 \<le> m ! nat a \<and> nat (m ! nat a) < length sh \<and>
    (\<exists>n. const_value (sh ! nat (m ! nat a)) = Some n \<and> v \<in> set (GetDivisors n)))) p"
    unfolding list_all_iff
  proof (clarify)
    fix a v assume "(a, v) \<in> set p"
    with p have a: "0 \<le> a" "nat a < length (axis_space pr)" "v \<in> set (peel_val (axis_space pr ! nat a))"
      by (auto simp: valid_peeling_def list_all_iff nat_less_iff)
    have len: "length (axis_space pr) = length sizes" using mapped_length [OF mp] by simp
    have v: "v \<in> set (GetDivisors (sizes ! nat a))"
      using mp a len by (auto simp: mapped_def axes_of_def dest: list_all2_nthD2 [where p = "nat a"])
    have m': "length m = length sizes" "m ! nat a = - 1 \<or>
        (\<exists>d \<in> dims_of_size an (sizes ! nat a). m ! nat a = int (snd d) \<and> func_name (aff_ref (tensors an ! fst d)) = func_name fn)"
      using mp m a(2) len by (auto simp: mapped_def)
    have "0 \<le> m ! nat a \<and> nat (m ! nat a) < length sh \<and> const_value (sh ! nat (m ! nat a)) = Some (sizes ! nat a)"
      if "m ! nat a \<noteq> - 1"
    proof -
      from that m'(2) obtain t i where t: "(t, i) \<in> dims_of_size an (sizes ! nat a)" "m ! nat a = int i"
        "func_name (aff_ref (tensors an ! t)) = func_name fn" by auto
      then have t': "t < length (tensors an)" "i < length (dims_of an t)" "dim_size (dims_of an t ! i) = sizes ! nat a"
        by (auto simp: dims_of_size_def all_dims_def valid_dim_def get_dim_def)
      then have "face_ok (set (tensor_uses s)) (face (tensors an ! t))"
        using an by (simp add: analyzed_def list_all_length)
      then obtain sh0 where sh0: "(aff_ref (tensors an ! t), sh0) \<in> set (tensor_uses s)"
        "map const_value sh0 = map Some (map dim_size (dims_of an t))"
        by (auto simp: face_ok_def face_def ExtractIntVector_iff dims_of_def)
      with uniform_shapesD(2) [OF s(1,2) sh0(1) t(3)]
      have sh: "map const_value sh = map Some (map dim_size (dims_of an t))" by simp
      then have "length sh = length (dims_of an t)" by (metis length_map)
      moreover from this sh t'(2,3) have "const_value (sh ! i) = Some (sizes ! nat a)"
        using nth_map [of i sh const_value] by simp
      ultimately show ?thesis using t(2) t'(2) by simp
    qed
    with a m' len v show "0 \<le> a \<and> nat a < length m \<and> (m ! nat a = - 1 \<or> 0 \<le> m ! nat a \<and> nat (m ! nat a) < length sh \<and>
        (\<exists>n. const_value (sh ! nat (m ! nat a)) = Some n \<and> v \<in> set (GetDivisors n)))" by auto
  qed
qed

lemma peel_shape_use:
  assumes "analyzed (set (tensor_uses s)) an"
    and "mapped an (\<lambda>a. dims_of_size an (sizes ! a)) (axes_of sizes) pr"
    and "uniform_shapes s" "(fn, sh) \<in> set (tensor_uses s)" "apart pr p s" "valid_peeling pr r p"
  shows "\<exists>sh'. peel_shape pr p fn sh = Ok sh' \<and> divided (split_of pr p (func_name fn)) sh sh'"
proof (cases "dim_map pr (func_name fn)")
  case None
  with uniform_shapesD(1) [OF assms(3,4)] show ?thesis by (simp add: peel_shape_def split_of_def divided_self)
next
  case (Some m)
  from peel_shape_divides [OF mapped_fits [OF assms Some] uniform_shapesD(1) [OF assms(3,4)]] Some
  show ?thesis by (simp add: peel_shape_def split_of_def)
qed

lemma peel_shape_uses:
  assumes "analyzed (set (tensor_uses s)) an"
    and "mapped an (\<lambda>a. dims_of_size an (sizes ! a)) (axes_of sizes) pr"
    and "uniform_shapes s" "apart pr p s" "valid_peeling pr r p"
  shows "peels_uses (peel_shape pr p) (set (tensor_uses s)) (split_use pr p)"
  unfolding peels_uses_def
proof (intro conjI allI impI)
  fix fn sh assume use: "(fn, sh) \<in> set (tensor_uses s)"
  from peel_shape_use [OF assms(1-3) use assms(4,5)] obtain sh' where
    sh': "peel_shape pr p fn sh = Ok sh'" "divided (split_of pr p (func_name fn)) sh sh'" by blast
  have "split_use pr p (fn, sh2) (fn, sh')" if "(fn, sh2) \<in> set (tensor_uses s)" for sh2
    using divided_cong [OF uniform_shapesD(2) [OF assms(3) use that refl] sh'(2)] by simp
  with sh'(1) show "\<exists>sh'. peel_shape pr p fn sh = Ok sh' \<and>
      (\<forall>sh2. (fn, sh2) \<in> set (tensor_uses s) \<longrightarrow> split_use pr p (fn, sh2) (fn, sh'))" by blast
next
  fix x :: "Func \<times> Expr list" and fn sh' assume "split_use pr p x (fn, sh')"
  then show "list_all (\<lambda>e. is_int (type_of e)) sh'" by (cases x) (simp add: divided_def)
qed

lemma valid_peeling_in_range:
  assumes "valid_peeling pr r p" "length (axis_space pr) < 2 ^ 31" "\<forall>x \<in> set (axis_space pr). \<forall>v \<in> set (peel_val x). in_int64 v"
  shows "peeling_in_range p"
  unfolding peeling_in_range_def list_all_iff
proof (clarify)
  fix a v assume "(a, v) \<in> set p"
  with assms(1) have "0 \<le> a" "nat a < length (axis_space pr)" "v \<in> set (peel_val (axis_space pr ! nat a))"
    by (auto simp: valid_peeling_def list_all_iff nat_less_iff)
  with assms(2,3) show "in_int a \<and> in_int64 v" by (auto simp: in_int_def)
qed

lemma mapped_peel_val:
  assumes "mapped an K (axes_of sizes) pr" "x \<in> set (axis_space pr)"
  obtains n where "n \<in> set sizes" "peel_val x = GetDivisors n \<or> peel_val x = []"
proof -
  from assms(2) obtain a where a: "a < length (axis_space pr)" "x = axis_space pr ! a" by (auto simp: in_set_conv_nth)
  moreover have "length (axis_space pr) = length sizes" using mapped_length [OF assms(1)] by simp
  ultimately show ?thesis
    using assms(1) that [of "sizes ! a"] by (auto simp: mapped_def axes_of_def dest: list_all2_nthD [where p = a])
qed

section \<open>The space\<close>

text \<open>All values that an axis can take are divisors of a size in the statement.\<close>

lemma Analyze_peel_val:
  assumes "DimensionPeeler_Analyze map_node s = Ok pr" "x \<in> set (axis_space pr)"
  obtains fn sh n where "(fn, sh) \<in> set (tensor_uses s)" "Some n \<in> const_value ` set sh"
    "peel_val x = GetDivisors n \<or> peel_val x = []"
proof -
  obtain an where an: "AffinityAnalyzer_Analyze map_node s = Ok an"
    using assms(1) by (auto simp: DimensionPeeler_Analyze_def res_bind_Ok_conv)
  then have "edges_ok an" using AffinityAnalyzer_analyzed [OF an] by (simp add: analyzed_def refs_ok_def)
  then have "closed_dims an (all_dims an)" by (rule closed_all_dims)
  moreover have "dims_of_size an n \<subseteq> all_dims an" for n by (auto simp: dims_of_size_def)
  ultimately obtain fn sh sizes where sizes: "(fn, sh) \<in> set (tensor_uses s)" "ExtractIntVector sh = Ok sizes"
    "mapped an (\<lambda>_. all_dims an) (axes_of sizes) pr"
    using Analyze_axes [OF assms(1) an, of "\<lambda>_. all_dims an"] by blast
  from mapped_peel_val [OF sizes(3) assms(2)] obtain n where
    n: "n \<in> set sizes" "peel_val x = GetDivisors n \<or> peel_val x = []" .
  have "Some n \<in> set (map Some sizes)" using n(1) by simp
  then have "Some n \<in> const_value ` set sh"
    using sizes(2) unfolding ExtractIntVector_iff by (metis list.set_map)
  with sizes(1) n(2) that show ?thesis by blast
qed

lemma Analyze_valid_in_range:
  assumes "DimensionPeeler_Analyze map_node s = Ok pr" "uniform_shapes s" "valid_peeling pr r p" "length (axis_space pr) < 2 ^ 31"
  shows "peeling_in_range p"
proof (rule valid_peeling_in_range [OF assms(3,4)], intro ballI)
  fix x v assume x: "x \<in> set (axis_space pr)" "v \<in> set (peel_val x)"
  from Analyze_peel_val [OF assms(1) x(1)] obtain fn sh n where
    n: "(fn, sh) \<in> set (tensor_uses s)" "Some n \<in> const_value ` set sh" "peel_val x = GetDivisors n \<or> peel_val x = []" .
  then obtain e where "e \<in> set sh" "const_value e = Some n" by (metis imageE)
  with uniform_shapesD(1) [OF assms(2) n(1)] have "in_int64 n" by (auto simp: list_all_iff index_const_def)
  moreover have "2 \<le> v" "v \<le> n" using x(2) n(3) by (auto simp: GetDivisors_iff)
  ultimately show "in_int64 v" by (simp add: in_int64_def)
qed

section \<open>An example\<close>

text \<open>\<open>c = a + b\<close> with a \<open>b\<close> that is broadcast, and the sums \<open>d\<close> of the rows of \<open>c\<close>.\<close>

definition sum_stmt :: Stmt where
  "sum_stmt =
     Block (op_out ''c'' (op_call ''Add'' [op_tensor ''a'' [6, 4], op_tensor ''b'' [4]]) [6, 4])
       (AttrStmt (Node_Other 0) ''attrs'' (IntImm (Int_type 32) 1)
          (op_out ''d'' (op_call ''ReduceSum'' [op_tensor ''c'' [6, 4]]) [6, 1]))"

definition sum_attrs :: "AttrNode \<Rightarrow> Attrs option" where
  "sum_attrs n = Some [''axis'' \<mapsto> [IntImm (Int_type 32) 1]]"

definition sum_peeler :: DimensionPeeler where
  "sum_peeler = (case DimensionPeeler_Analyze sum_attrs sum_stmt of Ok pr \<Rightarrow> pr | Err _ \<Rightarrow> \<lparr>axis_space = [], dim_map = (\<lambda>_. None)\<rparr>)"

lemma sum_analysis:
  obtains an where "AffinityAnalyzer_Analyze sum_attrs sum_stmt = Ok an" "tensors an \<noteq> []"
proof -
  have "case AffinityAnalyzer_Analyze sum_attrs sum_stmt of Ok an \<Rightarrow> length (tensors an) = 4 | Err _ \<Rightarrow> False"
    by code_simp
  then obtain an where "AffinityAnalyzer_Analyze sum_attrs sum_stmt = Ok an" "length (tensors an) = 4"
    by (auto split: res.splits)
  with that [of an] show ?thesis by (cases "tensors an") auto
qed

lemma sum_peeler_facts:
  "DimensionPeeler_Analyze sum_attrs sum_stmt = Ok sum_peeler" "length (axis_space sum_peeler) = 2"
  "GetPeelSpace sum_peeler 0 None = [[(0, 6)], [(0, 3)], [(0, 2)]]" "apart sum_peeler [(0, 3)] sum_stmt"
proof -
  have "case DimensionPeeler_Analyze sum_attrs sum_stmt of
      Ok pr \<Rightarrow> length (axis_space pr) = 2 \<and> GetPeelSpace pr 0 None = [[(0, 6)], [(0, 3)], [(0, 2)]] \<and> apart pr [(0, 3)] sum_stmt
    | Err _ \<Rightarrow> False"
    by code_simp
  then show "DimensionPeeler_Analyze sum_attrs sum_stmt = Ok sum_peeler" "length (axis_space sum_peeler) = 2"
    "GetPeelSpace sum_peeler 0 None = [[(0, 6)], [(0, 3)], [(0, 2)]]" "apart sum_peeler [(0, 3)] sum_stmt"
    by (auto simp: sum_peeler_def split: res.splits)
qed

lemma sum_stmt_facts: "sizes_agree sum_attrs sum_stmt" "uniform_shapes sum_stmt" "typed_stmt sum_stmt"
  by code_simp+

lemma Peeling2Str_03: "Peeling2Str [(0, 3)] = ''0 3''"
  by code_simp

section \<open>Properties\<close>

text \<open>C29: the analysis of a statement returns whenever the relations can be read off it and it has a
  tensor: the searches of \<open>MapDimToSpace\<close> end although relations may form cycles, and they never
  follow a null pointer, meet an affinity they do not know or leave the axes.\<close>

theorem peel_analysis_total:
  assumes "AffinityAnalyzer_Analyze map_node s = Ok an" "tensors an \<noteq> []"
  shows "\<exists>pr. DimensionPeeler_Analyze map_node s = Ok pr"
  using assms by (rule peeler_Analyze_total)

theorem peel_analysis_total_witness: "\<exists>pr. DimensionPeeler_Analyze sum_attrs sum_stmt = Ok pr"
  by (rule sum_analysis, rule peel_analysis_total)

text \<open>C30: \<open>GetPeelSpace\<close> lists every way to split the axes and no other, each of them once: some axes
  in their order, within the range if one is given, each with one of its values, and no more of
  them than the limit.\<close>

theorem peel_space_complete:
  assumes "DimensionPeeler_Analyze map_node s = Ok pr"
  shows "distinct (GetPeelSpace pr limit r) \<and>
    set (GetPeelSpace pr limit r) = {p. valid_peeling pr r p \<and> (0 < limit \<longrightarrow> int (length p) \<le> limit)}"
proof
  have "distinct (peel_val x)" if "x \<in> set (axis_space pr)" for x
    using Analyze_peel_val [OF assms that] distinct_GetDivisors by (metis distinct.simps(1))
  then show "distinct (GetPeelSpace pr limit r)" by (simp add: distinct_GetPeelSpace)
qed (use in_GetPeelSpace in blast)

theorem peel_space_complete_witness: "{p. valid_peeling sum_peeler None p} = {[(0, 6)], [(0, 3)], [(0, 2)]}"
  using peel_space_complete [OF sum_peeler_facts(1), of 0 None] by (simp add: sum_peeler_facts(3))

text \<open>C31: a split whose axes are \<open>int\<close>s and whose values are \<open>int64_t\<close>s is read back from its string.\<close>

theorem peeling_string_roundtrip:
  assumes "peeling_in_range p"
  shows "Str2Peeling (Peeling2Str p) = Ok p"
  using assms by (rule Str2Peeling_back)

theorem peeling_string_roundtrip_witness: "Str2Peeling ''0 3 -1 64'' = Ok [(0, 3), (- 1, 64)]"
proof -
  have "peeling_in_range [(0, 3), (- 1, 64)]" "Peeling2Str [(0, 3), (- 1, 64)] = ''0 3 -1 64''" by code_simp+
  with peeling_string_roundtrip [of "[(0, 3), (- 1, 64)]"] show ?thesis by simp
qed

text \<open>C28: a split of the space, sent through its string, applies to the statement it was made for: no
  check fails, only shapes change, and in every shape each dimension is the old one divided by
  the values of the axes mapped to it, without remainder. It holds for a statement with constant
  shapes, one for each tensor (\<open>uniform_shapes\<close>), where dimensions that an operator relates element by element
  have the same size (\<open>sizes_agree\<close>), and for a split of one axis (\<open>apart_single\<close>) or of axes that
  are different dimensions of every tensor (\<open>apart\<close>). Without the last the code fails:
  \<open>split_twice_fails\<close> below.\<close>

theorem peel_space_applies:
  assumes "DimensionPeeler_Analyze map_node s = Ok pr" "p \<in> set (GetPeelSpace pr limit r)"
    and "sizes_agree map_node s" "uniform_shapes s" "apart pr p s" "typed_stmt s" "length (axis_space pr) < 2 ^ 31"
  shows "\<exists>s'. GetPeeledBody map_node s (Peeling2Str p) = Ok s' \<and> blank s' = blank s \<and>
    list_all2 (split_use pr p) (tensor_uses s) (tensor_uses s')"
proof -
  obtain an where an: "AffinityAnalyzer_Analyze map_node s = Ok an" "elementwise_agree an"
    using assms(3) by (auto simp: sizes_agree_def split: res.splits)
  note ok = AffinityAnalyzer_analyzed [OF an(1)]
  have valid: "valid_peeling pr r p" using assms(2) by (simp add: in_GetPeelSpace)
  have "edges_ok an" using ok by (simp add: analyzed_def refs_ok_def)
  from Analyze_axes [OF assms(1) an(1) order_refl closed_dims_of_size [OF this an(2)]]
  obtain sizes where "mapped an (\<lambda>a. dims_of_size an (sizes ! a)) (axes_of sizes) pr" by blast
  from peel_shape_uses [OF ok this assms(4,5) valid]
  have "peels_uses (peel_shape pr p) (set (tensor_uses s)) (split_use pr p)" .
  from peel_stmt_ok [OF this an(1) [unfolded AffinityAnalyzer_Analyze_def] assms(6) order_refl, of "\<lambda>_. None"]
  obtain s' where "GetPeelBody pr p s = Ok s'" "blank s' = blank s" "list_all2 (split_use pr p) (tensor_uses s) (tensor_uses s')"
    by (auto simp: replaced_ok_def GetPeelBody_def)
  moreover have "Str2Peeling (Peeling2Str p) = Ok p"
    using Analyze_valid_in_range [OF assms(1,4) valid assms(7)] by (rule Str2Peeling_back)
  ultimately show ?thesis using assms(1) by (simp add: GetPeeledBody_def)
qed

theorem peel_space_applies_witness:
  "\<exists>s'. GetPeeledBody sum_attrs sum_stmt ''0 3'' = Ok s' \<and> blank s' = blank sum_stmt \<and>
    list_all2 (split_use sum_peeler [(0, 3)]) (tensor_uses sum_stmt) (tensor_uses s')"
proof -
  have "[(0, 3)] \<in> set (GetPeelSpace sum_peeler 0 None)" "length (axis_space sum_peeler) < 2 ^ 31"
    by (simp_all add: sum_peeler_facts)
  from peel_space_applies [OF sum_peeler_facts(1) this(1) sum_stmt_facts(1,2) sum_peeler_facts(4) sum_stmt_facts(3) this(2)]
  show ?thesis by (simp only: Peeling2Str_03)
qed

section \<open>Two axes in one dimension\<close>

text \<open>
  Two axes of the space may be one dimension of a tensor: \<open>r\<close> is the sum of \<open>c\<close> without the summed dimension,
  so the first dimension of \<open>c\<close> is related to the first dimension of \<open>z\<close> directly and to its second
  one through \<open>r\<close>. The space lists the split of one axis by 2 and the other by 4, but the dimension
  of size 4 cannot be divided by both.
\<close>

definition twice_sum :: "nat \<Rightarrow> string \<Rightarrow> Expr \<Rightarrow> int list \<Rightarrow> Stmt" where
  "twice_sum k out e shape =
     AttrStmt (Node_Other k) ''attrs'' (IntImm (Int_type 32) 1) (op_out out (op_call ''ReduceSum'' [e]) shape)"

definition twice_stmt :: Stmt where
  "twice_stmt =
     Block (twice_sum 0 ''r'' (op_tensor ''c'' [4, 1, 3]) [4, 3])
     (Block (op_out ''z'' (op_call ''Add'' [op_tensor ''r'' [4, 3], op_tensor ''c'' [4, 1, 3]]) [4, 4, 3])
       (twice_sum 1 ''e'' (op_tensor ''z'' [4, 4, 3]) [4, 4, 1]))"

definition twice_attrs :: "AttrNode \<Rightarrow> Attrs option" where
  "twice_attrs n = Some [''axis'' \<mapsto> [IntImm (Int_type 32) (if n = Node_Other 0 then 1 else 2)]]"

lemma twice_stmt_facts: "sizes_agree twice_attrs twice_stmt" "uniform_shapes twice_stmt" "typed_stmt twice_stmt"
  by code_simp+

lemma twice_peeler:
  "case DimensionPeeler_Analyze twice_attrs twice_stmt of
     Ok pr \<Rightarrow> axis_space pr = [\<lparr>axis_size = 4, peel_val = [4, 2]\<rparr>, \<lparr>axis_size = 4, peel_val = [4, 2]\<rparr>, \<lparr>axis_size = 3, peel_val = []\<rparr>] \<and>
       dim_map pr ''c'' = Some [0, 0, 2]
   | Err e \<Rightarrow> False"
  by code_simp

lemma twice_split: "Peeling2Str [(0, 2), (1, 4)] = ''0 2 1 4''" "Str2Peeling ''0 2 1 4'' = Ok [(0, 2), (1, 4)]"
  by code_simp+

lemma split_twice_fails:
  "\<exists>pr. DimensionPeeler_Analyze twice_attrs twice_stmt = Ok pr \<and> [(0, 2), (1, 4)] \<in> set (GetPeelSpace pr 0 None) \<and>
     \<not> apart pr [(0, 2), (1, 4)] twice_stmt \<and>
     GetPeeledBody twice_attrs twice_stmt ''0 2 1 4'' = Err Fatal"
proof -
  obtain pr where pr: "DimensionPeeler_Analyze twice_attrs twice_stmt = Ok pr"
    "axis_space pr = [\<lparr>axis_size = 4, peel_val = [4, 2]\<rparr>, \<lparr>axis_size = 4, peel_val = [4, 2]\<rparr>, \<lparr>axis_size = 3, peel_val = []\<rparr>]"
    "dim_map pr ''c'' = Some [0, 0, 2]"
    using twice_peeler by (auto split: res.splits)
  have "valid_peeling pr None [(0, 2), (1, 4)]" by (simp add: valid_peeling_def pr(2))
  then have space: "[(0, 2), (1, 4)] \<in> set (GetPeelSpace pr 0 None)" by (simp add: in_GetPeelSpace)
  have "(Func 0 ''c'' None, map (IntImm (Int_type 32)) [4, 1, 3]) \<in> set (tensor_uses twice_stmt)"
    by (simp add: twice_stmt_def twice_sum_def op_out_def op_call_def op_tensor_def)
  then have "\<not> apart pr [(0, 2), (1, 4)] twice_stmt" unfolding apart_def list_all_iff using pr(3) by fastforce
  moreover have "for_each (\<lambda>(a, v) shape. res_bind (vec_at_int [0, 0, 2] a) (\<lambda>d. UpdateNewShape d v shape))
      [(0, 2), (1, 4)] (map (IntImm (Int_type 32)) [4, 1, 3]) = Err Fatal"
    by code_simp
  then have "peel_shape pr [(0, 2), (1, 4)] (Func 0 ''c'' None) (map (IntImm (Int_type 32)) [4, 1, 3]) = Err Fatal"
    unfolding peel_shape_def Func.sel pr(3) option.case .
  then have "GetPeelBody pr [(0, 2), (1, 4)] twice_stmt = Err Fatal"
    by (simp add: GetPeelBody_def twice_stmt_def twice_sum_def op_out_def op_call_def op_tensor_def peel_provide_def ReplaceShape_def)
  ultimately show ?thesis using pr(1) space by (simp add: GetPeeledBody_def twice_split(2))
qed

end
