(* ===== verification/Composite_Fold.thy ===== *)
theory Composite_Fold
  imports Composite_Util
begin

text \<open>
  \<open>composite/optimize/fold_dimension.cc\<close>: adjacent dimensions of tensors are folded into one, and the
  shapes and axes in a statement follow. \<open>DimensionFolderPlan\<close> starts with every tensor folded to
  one dimension, and separates dimensions until the operators can work on what is left. The
  plan gives up where it meets an operator it does not know or nothing can be folded.

  Tensors are numbered in the order in which the plan meets them, a relation by its tensor and its
  place in \<open>succ\<close>. \<open>fold_dims\<close> maps a dimension to the first one of its block. What an attribute maps
  names to is the parameter \<open>map_node\<close>.
\<close>

section \<open>The plan\<close>

record Relation =
  rel_to :: nat
  forward_commit :: int
  backward_commit :: int
  forward_mapping :: "int list"
  backward_mapping :: "int list"

record FoldTensor =
  fold_update :: int
  fold_shape :: "int list"
  fold_dims :: "nat list"
  fold_succ :: "Relation list"

record DimensionFolderPlan =
  fold_tensors :: "FoldTensor list"
  fold_map :: "Func \<Rightarrow> nat option"
  give_up :: bool
  reduce_axis :: "int list"
  transpose_perm :: "int list"
  fold_inputs :: "Func list"
  total_dims :: int
  folded_dims :: int
  forward_visited :: "nat set"
  backward_visited :: "nat set"

definition new_relation :: "nat \<Rightarrow> Relation" where
  "new_relation t = \<lparr>rel_to = t, forward_commit = - 1, backward_commit = - 1, forward_mapping = [], backward_mapping = []\<rparr>"

definition fold_tensor :: "DimensionFolderPlan \<Rightarrow> nat \<Rightarrow> FoldTensor" where
  "fold_tensor pl t = fold_tensors pl ! t"

definition set_tensor :: "nat \<Rightarrow> FoldTensor \<Rightarrow> DimensionFolderPlan \<Rightarrow> DimensionFolderPlan" where
  "set_tensor t x pl = pl\<lparr>fold_tensors := (fold_tensors pl)[t := x]\<rparr>"

definition add_succ :: "nat \<Rightarrow> Relation \<Rightarrow> DimensionFolderPlan \<Rightarrow> DimensionFolderPlan" where
  "add_succ t rel pl = set_tensor t (fold_tensor pl t\<lparr>fold_succ := fold_succ (fold_tensor pl t) @ [rel]\<rparr>) pl"

definition GetTensor :: "Func \<Rightarrow> Expr list \<Rightarrow> bool \<Rightarrow> DimensionFolderPlan \<Rightarrow> (nat \<times> DimensionFolderPlan) res" where
  "GetTensor fn shape is_input pl =
     (case fold_map pl fn of
        Some t \<Rightarrow> Ok (t, pl)
      | None \<Rightarrow>
          res_bind (ExtractIntVector shape) (\<lambda>dims.
            let t = \<lparr>fold_update = 0, fold_shape = dims, fold_dims = replicate (length dims) 0, fold_succ = []\<rparr>;
                n = length (fold_tensors pl)
            in Ok (n, pl\<lparr>fold_tensors := fold_tensors pl @ [t], fold_map := (fold_map pl)(fn := Some n),
                        total_dims := total_dims pl + int (length dims), folded_dims := folded_dims pl + 1,
                        fold_inputs := fold_inputs pl @ (if is_input then [fn] else [])\<rparr>)))"

subsection \<open>Separating dimensions\<close>

text \<open>The loops of \<open>UpdateFoldDim\<close>: \<open>x\<close> is written from \<open>i\<close> on as long as there is \<open>v\<close>, below \<open>lim\<close>; and
  from \<open>i\<close> the start of a run of \<open>v\<close> is searched, not below \<open>low\<close>.\<close>

function fill_run :: "nat \<Rightarrow> nat \<Rightarrow> nat \<Rightarrow> nat \<Rightarrow> nat list \<Rightarrow> nat \<times> nat list" where
  "fill_run v x lim i fd =
     (if i < lim \<and> fd ! i = v then fill_run v x lim (i + 1) (fd[i := x]) else (i, fd))"
  by pat_completeness auto
termination by (relation "measure (\<lambda>(v, x, lim, i, fd). lim - i)") auto

fun run_start :: "nat \<Rightarrow> nat \<Rightarrow> nat \<Rightarrow> nat list \<Rightarrow> nat" where
  "run_start v low 0 fd = 0"
| "run_start v low (Suc i) fd = (if low \<le> i \<and> fd ! i = v then run_start v low i fd else Suc i)"

declare fill_run.simps [simp del]

text \<open>The new blocks and the number of separations, for the dimensions from \<open>a\<close> to \<open>b\<close>.\<close>

definition split_fold :: "nat \<Rightarrow> nat \<Rightarrow> nat list \<Rightarrow> nat list \<times> nat" where
  "split_fold a b fd =
     (let (i_start, fd, split_num) =
            (if fd ! a \<noteq> a then (case fill_run (fd ! a) a (b + 1) a fd of (i, fd) \<Rightarrow> (i, fd, 1)) else (a, fd, 0));
          fd =
            (if i_start \<le> b then
               (let i_end = run_start (fd ! b) i_start b fd
                in if fd ! i_end \<noteq> i_end then fold (\<lambda>i fd. fd[i := i_end]) [i_end..<b + 1] fd else fd)
             else fd)
      in if b + 1 < length fd \<and> fd ! (b + 1) \<noteq> b + 1 then
           (snd (fill_run (fd ! (b + 1)) (b + 1) (length fd) (b + 1) fd), split_num + 1)
         else (fd, split_num))"

text \<open>Every call has \<open>start \<le> end\<close>, except that with \<open>start = 0\<close> and \<open>end = - 1\<close> for a tensor without
  dimensions; that reads \<open>fold[0]\<close>.\<close>

definition UpdateFoldDim :: "nat \<Rightarrow> int \<Rightarrow> int \<Rightarrow> DimensionFolderPlan \<Rightarrow> DimensionFolderPlan res" where
  "UpdateFoldDim t start last_dim pl =
     (let x = fold_tensor pl t; n = int (length (fold_dims x)) in
      res_bind (guard (0 \<le> start \<and> start \<le> last_dim \<and> last_dim < n) Out_of_bounds) (\<lambda>_.
        case split_fold (nat start) (nat last_dim) (fold_dims x) of (fd, split_num) \<Rightarrow>
          Ok (set_tensor t
                (x\<lparr>fold_dims := fd, fold_update := fold_update x + (if split_num > 0 then 1 else 0)\<rparr>)
                (pl\<lparr>folded_dims := folded_dims pl + int split_num\<rparr>))))"

text \<open>\<open>fold_domain\<close> lists where the groups of dimensions begin that are folded together, and the end.\<close>

fun fold_groups :: "nat \<Rightarrow> Relation \<Rightarrow> int \<Rightarrow> int list \<Rightarrow> DimensionFolderPlan \<Rightarrow> DimensionFolderPlan res" where
  "fold_groups t r start [] pl = Ok pl"
| "fold_groups t r start (next_start # ns) pl =
     (let last_dim = next_start - 1 in
      res_bind (UpdateFoldDim t start last_dim pl) (\<lambda>pl.
      res_bind (vec_at (forward_mapping r) (nat start)) (\<lambda>out_start.
      res_bind (vec_at (forward_mapping r) (nat last_dim)) (\<lambda>out_end.
      res_bind (if out_start \<noteq> - 1 \<and> out_end \<noteq> - 1 then UpdateFoldDim (rel_to r) out_start out_end pl else Ok pl)
        (fold_groups t r next_start ns)))))"

definition FoldRelation :: "nat \<Rightarrow> Relation \<Rightarrow> nat list \<Rightarrow> DimensionFolderPlan \<Rightarrow> DimensionFolderPlan res" where
  "FoldRelation t r fold_domain pl =
     res_bind (CHECK (length fold_domain \<ge> 2)) (\<lambda>_.
       fold_groups t r (int (hd fold_domain)) (map int (tl fold_domain)) pl)"

subsection \<open>Relations\<close>

text \<open>Where a group of dimensions with the same value of \<open>f\<close> begins, from \<open>0\<close> to \<open>n\<close>; the end is added.\<close>

definition group_starts :: "(nat \<Rightarrow> bool) \<Rightarrow> nat \<Rightarrow> nat list" where
  "group_starts f n = filter (\<lambda>i. i = 0 \<or> f i \<noteq> f (i - 1)) [0..<n] @ [n]"

text \<open>\<open>shape_broadcasting\<close>: the dimensions before the first one of equal size.\<close>

definition broadcast_prefix :: "int list \<Rightarrow> int list \<Rightarrow> nat" where
  "broadcast_prefix ish osh = length (takeWhile (\<lambda>(x, y). x \<noteq> y) (zip ish (drop (length osh - length ish) osh)))"

definition elem_relation :: "nat \<Rightarrow> int list \<Rightarrow> int list \<Rightarrow> Relation" where
  "elem_relation out ish osh =
     (let n = length ish; dim_offset = length osh - n; p = broadcast_prefix ish osh in
      (new_relation out)\<lparr>
        forward_mapping := map (\<lambda>i. if i < p then - 1 else int (i + dim_offset)) [0..<n],
        backward_mapping := replicate dim_offset (- 1) @ map (\<lambda>i. if i < p then - 1 else int i) [0..<n]\<rparr>)"

definition elem_groups :: "int list \<Rightarrow> int list \<Rightarrow> nat list" where
  "elem_groups ish osh = group_starts (\<lambda>i. ish ! i = osh ! (i + (length osh - length ish))) (length ish)"

definition Fold_AddElemBroadRelation :: "nat \<Rightarrow> nat \<Rightarrow> DimensionFolderPlan \<Rightarrow> DimensionFolderPlan res" where
  "Fold_AddElemBroadRelation input out pl =
     (let ish = fold_shape (fold_tensor pl input); osh = fold_shape (fold_tensor pl out) in
      if length osh < length ish \<or> length osh = 0 \<or> length ish = 0 then Ok (pl\<lparr>give_up := True\<rparr>)
      else
        let rel = elem_relation out ish osh in
        res_bind (FoldRelation input rel (elem_groups ish osh) pl) (\<lambda>pl. Ok (add_succ input rel pl)))"

text \<open>A dimension that is reduced and not kept has no dimension of the output.\<close>

fun reduce_forward :: "(nat \<Rightarrow> bool) \<Rightarrow> nat list \<Rightarrow> int \<Rightarrow> int list" where
  "reduce_forward kept [] output_idx = []"
| "reduce_forward kept (i # ns) output_idx =
     (if kept i then output_idx # reduce_forward kept ns (output_idx + 1) else - 1 # reduce_forward kept ns output_idx)"

definition reduce_relation :: "nat \<Rightarrow> nat \<Rightarrow> bool \<Rightarrow> int list \<Rightarrow> Relation" where
  "reduce_relation out n keep_dim axis =
     (let kept = (\<lambda>i. int i \<notin> set axis \<or> keep_dim);
          backward = map int (filter kept [0..<n])
      in (new_relation out)\<lparr>forward_mapping := reduce_forward kept [0..<n] 0,
            backward_mapping := (if backward = [] then [- 1] else backward)\<rparr>)"

definition Fold_AddReduceRelation :: "nat \<Rightarrow> nat \<Rightarrow> int list \<Rightarrow> DimensionFolderPlan \<Rightarrow> DimensionFolderPlan res" where
  "Fold_AddReduceRelation input out axis pl =
     (let n = length (fold_shape (fold_tensor pl input));
          keep_dim = (n = length (fold_shape (fold_tensor pl out)));
          rel = reduce_relation out n keep_dim axis
      in res_bind (FoldRelation input rel (group_starts (\<lambda>i. int i \<in> set axis) n) pl) (\<lambda>pl. Ok (add_succ input rel pl)))"

text \<open>\<open>forward_mapping\<close> is filled with zeros first.\<close>

definition Fold_AddTransposeRelation :: "nat \<Rightarrow> nat \<Rightarrow> int list \<Rightarrow> DimensionFolderPlan \<Rightarrow> DimensionFolderPlan res" where
  "Fold_AddTransposeRelation input out perm pl =
     res_bind (for_each (\<lambda>i fm. let p = perm ! i in
         res_bind (guard (0 \<le> p \<and> p < int (length perm)) Out_of_bounds) (\<lambda>_. Ok (fm[nat p := int i])))
       [0..<length perm] (replicate (length perm) 0)) (\<lambda>fm.
     let rel = (new_relation out)\<lparr>forward_mapping := fm, backward_mapping := perm\<rparr>;
         domain = [0] @ filter (\<lambda>i. fm ! i \<noteq> fm ! (i - 1) + 1) [1..<length fm] @ [length (fold_shape (fold_tensor pl input))]
     in res_bind (FoldRelation input rel domain pl) (\<lambda>pl. Ok (add_succ input rel pl)))"

subsection \<open>The visit of a statement\<close>

fun fold_call_inputs :: "Expr list \<Rightarrow> DimensionFolderPlan \<Rightarrow> (nat list \<times> DimensionFolderPlan) res" where
  "fold_call_inputs [] pl = Ok ([], pl)"
| "fold_call_inputs (CallE ty ct n args fn i # es) pl =
     res_bind (GetTensor fn args True pl) (\<lambda>(t, pl).
     res_bind (fold_call_inputs es pl) (\<lambda>(ts, pl). Ok (t # ts, pl)))"
| "fold_call_inputs (e # es) pl = fold_call_inputs es pl"

definition fold_relations :: "string \<Rightarrow> nat list \<Rightarrow> nat \<Rightarrow> DimensionFolderPlan \<Rightarrow> DimensionFolderPlan res" where
  "fold_relations op inputs out pl =
     (if IsElemwise op \<or> op = ''BroadcastTo'' then for_each (\<lambda>input. Fold_AddElemBroadRelation input out) inputs pl
      else if IsReduce_op op then
        res_bind (CHECK (length inputs = 1 \<and> reduce_axis pl \<noteq> [])) (\<lambda>_. Fold_AddReduceRelation (inputs ! 0) out (reduce_axis pl) pl)
      else if op = ''InplaceAssign'' then
        res_bind (CHECK (length inputs = 3)) (\<lambda>_.
        res_bind (Fold_AddElemBroadRelation (inputs ! 1) (inputs ! 0) pl) (Fold_AddElemBroadRelation (inputs ! 2) out))
      else if op = ''Transpose'' then
        res_bind (vec_at inputs 0) (\<lambda>input.
        res_bind (CHECK (length (transpose_perm pl) = length (fold_shape (fold_tensor pl input)))) (\<lambda>_.
        res_bind (Fold_AddTransposeRelation input out (transpose_perm pl) pl) (\<lambda>pl. Ok (pl\<lparr>transpose_perm := []\<rparr>))))
      else if op = ''ElemAny'' then
        res_bind (vec_at inputs 0) (\<lambda>input.
          Fold_AddReduceRelation input out (map int [0..<length (fold_shape (fold_tensor pl input))]) pl)
      else Ok ((fold (\<lambda>input. add_succ input (new_relation out)) inputs pl)\<lparr>give_up := True\<rparr>))"

definition fold_visit_provide :: "Func \<Rightarrow> Expr \<Rightarrow> Expr list \<Rightarrow> DimensionFolderPlan \<Rightarrow> DimensionFolderPlan res" where
  "fold_visit_provide fn v shape pl =
     res_bind (GetTensor fn shape False pl) (\<lambda>(out, pl).
       case v of
         CallE ty ct op args f i \<Rightarrow>
           res_bind (fold_call_inputs args pl) (\<lambda>(inputs, pl).
             fold_relations op inputs out (if inputs = [] then pl\<lparr>fold_inputs := fold_inputs pl @ [fn]\<rparr> else pl))
       | _ \<Rightarrow> Err Null_pointer)"

definition fold_visit_attrs :: "Attrs \<Rightarrow> DimensionFolderPlan \<Rightarrow> DimensionFolderPlan res" where
  "fold_visit_attrs m pl =
     (case m ''axis'' of
        Some axis \<Rightarrow> res_bind (ExtractIntVector axis) (\<lambda>axis_vec. Ok (pl\<lparr>reduce_axis := if axis_vec = [] then [0] else axis_vec\<rparr>))
      | None \<Rightarrow>
          (case m ''perm'' of
             Some axis \<Rightarrow> res_bind (ExtractIntVector axis) (\<lambda>perm. Ok (pl\<lparr>transpose_perm := perm\<rparr>))
           | None \<Rightarrow> Ok pl))"

fun fold_visit :: "(AttrNode \<Rightarrow> Attrs option) \<Rightarrow> Stmt \<Rightarrow> DimensionFolderPlan \<Rightarrow> DimensionFolderPlan res" where
  "fold_visit map_node (AttrStmt n k e b) pl =
     (if k = ''attrs'' then
        (case map_node n of None \<Rightarrow> Err Fatal | Some m \<Rightarrow> res_bind (fold_visit_attrs m pl) (fold_visit map_node b))
      else fold_visit map_node b pl)"
| "fold_visit map_node (Provide fn i v shape) pl = fold_visit_provide fn v shape pl"
| "fold_visit map_node (LetStmt v e b) pl = fold_visit map_node b pl"
| "fold_visit map_node (AssertStmt c m b) pl = fold_visit map_node b pl"
| "fold_visit map_node (ProducerConsumer fn p b) pl = fold_visit map_node b pl"
| "fold_visit map_node (For v m x t b) pl = fold_visit map_node b pl"
| "fold_visit map_node (Allocate v t xs c b n) pl = fold_visit map_node b pl"
| "fold_visit map_node (Realize fn i ty bs c b) pl = fold_visit map_node b pl"
| "fold_visit map_node (Block a b) pl = res_bind (fold_visit map_node a pl) (fold_visit map_node b)"
| "fold_visit map_node (IfThenElse c t e) pl =
     res_bind (fold_visit map_node t pl) (\<lambda>pl. case e of Some s \<Rightarrow> fold_visit map_node s pl | None \<Rightarrow> Ok pl)"
| "fold_visit map_node s pl = Ok pl"

subsection \<open>Propagation\<close>

text \<open>The loop of \<open>DoPropagate\<close> over the dimensions of \<open>to\<close>. Dimensions with the same place in the map are
  skipped together: \<open>block_num\<close> begins with 1, so that what the code does where it is 0, with the map in the
  other direction, is never done.
  \<open>cur\<close> has \<open>cur_dim\<close> and \<open>cur_from_dim\<close>, \<open>None\<close> for the initial \<open>-1\<close>.\<close>

fun same_run :: "int list \<Rightarrow> int \<Rightarrow> nat \<Rightarrow> nat \<Rightarrow> nat res" where
  "same_run bm x i 0 = Ok i"
| "same_run bm x i (Suc k) = res_bind (vec_at bm i) (\<lambda>y. if y \<noteq> x then Ok i else same_run bm x (i + 1) k)"

text \<open>The first of the dimensions that \<open>from\<close> folds together with the one that \<open>x\<close> is.\<close>

definition from_block :: "nat list \<Rightarrow> int \<Rightarrow> int res" where
  "from_block fd x = (if x \<ge> 0 then res_bind (vec_at fd (nat x)) (\<lambda>d. Ok (int d)) else Ok x)"

fun propagate_dims ::
    "nat \<Rightarrow> nat \<Rightarrow> int list \<Rightarrow> nat \<Rightarrow> nat \<Rightarrow> (nat \<times> int) option \<Rightarrow> DimensionFolderPlan \<Rightarrow> DimensionFolderPlan res" where
  "propagate_dims from to bm 0 to_idx cur pl = Ok pl"
| "propagate_dims from to bm (Suc k) to_idx cur pl =
     (let fd = fold_dims (fold_tensor pl to) in
      if to_idx < length fd then
        res_bind (vec_at bm to_idx) (\<lambda>x.
        res_bind (from_block (fold_dims (fold_tensor pl from)) x) (\<lambda>from_idx.
        res_bind (same_run bm x (to_idx + 1) (length fd - (to_idx + 1))) (\<lambda>next_idx.
          if next_idx = to_idx + 1 then
            (case cur of
               None \<Rightarrow> propagate_dims from to bm k next_idx (Some (to_idx, from_idx)) pl
             | Some (cur_dim, cur_from_dim) \<Rightarrow>
                 if fd ! to_idx \<noteq> fd ! cur_dim then propagate_dims from to bm k next_idx (Some (to_idx, from_idx)) pl
                 else if from_idx \<noteq> cur_from_dim then
                   res_bind (UpdateFoldDim to (int cur_dim) (int to_idx - 1) pl)
                     (propagate_dims from to bm k next_idx (Some (to_idx, from_idx)))
                 else propagate_dims from to bm k next_idx cur pl)
          else propagate_dims from to bm k next_idx cur pl)))
      else Ok pl)"

definition DoPropagate :: "nat \<Rightarrow> nat \<Rightarrow> int list \<Rightarrow> DimensionFolderPlan \<Rightarrow> DimensionFolderPlan res" where
  "DoPropagate from to bm pl = propagate_dims from to bm (length (fold_dims (fold_tensor pl to))) 0 None pl"

text \<open>The relation at place \<open>k\<close> of \<open>succ\<close>.\<close>

definition relation_at :: "DimensionFolderPlan \<Rightarrow> nat \<Rightarrow> nat \<Rightarrow> Relation" where
  "relation_at pl t k = fold_succ (fold_tensor pl t) ! k"

definition set_relation :: "nat \<Rightarrow> nat \<Rightarrow> (Relation \<Rightarrow> Relation) \<Rightarrow> DimensionFolderPlan \<Rightarrow> DimensionFolderPlan" where
  "set_relation t k f pl =
     set_tensor t (fold_tensor pl t\<lparr>fold_succ := (fold_succ (fold_tensor pl t))[k := f (relation_at pl t k)]\<rparr>) pl"

definition propagate_forward :: "nat \<Rightarrow> nat \<Rightarrow> DimensionFolderPlan \<Rightarrow> DimensionFolderPlan res" where
  "propagate_forward t k pl =
     (let r = relation_at pl t k in
      if fold_update (fold_tensor pl t) > forward_commit r then
        res_bind (DoPropagate t (rel_to r) (backward_mapping r) pl) (\<lambda>pl.
          Ok (set_relation t k (\<lambda>r. r\<lparr>forward_commit := fold_update (fold_tensor pl t)\<rparr>) pl))
      else Ok pl)"

definition propagate_backward :: "nat \<Rightarrow> nat \<Rightarrow> DimensionFolderPlan \<Rightarrow> DimensionFolderPlan res" where
  "propagate_backward t k pl =
     (let r = relation_at pl t k in
      if fold_update (fold_tensor pl (rel_to r)) > backward_commit r then
        res_bind (DoPropagate (rel_to r) t (forward_mapping r) pl) (\<lambda>pl.
          Ok (set_relation t k (\<lambda>r. r\<lparr>backward_commit := fold_update (fold_tensor pl (rel_to r))\<rparr>) pl))
      else Ok pl)"

text \<open>\<open>PropagationForward\<close> and \<open>Propagation\<close>, which call each other, with a bound on the depth of the
  calls; \<open>propagation\<close> stands for the inner call.\<close>

definition PropagationForward ::
    "(nat \<Rightarrow> DimensionFolderPlan \<Rightarrow> DimensionFolderPlan res) \<Rightarrow> nat \<Rightarrow> nat \<Rightarrow> DimensionFolderPlan \<Rightarrow> DimensionFolderPlan res" where
  "PropagationForward propagation top_t k pl =
     (let t = rel_to (relation_at pl top_t k) in
      if t \<in> forward_visited pl then Ok pl
      else
        res_bind (propagate_forward top_t k pl) (\<lambda>pl.
        res_bind (propagation t pl) (\<lambda>pl. Ok (pl\<lparr>backward_visited := insert t (backward_visited pl)\<rparr>))))"

fun Propagation_fuel :: "nat \<Rightarrow> nat \<Rightarrow> DimensionFolderPlan \<Rightarrow> DimensionFolderPlan res" where
  "Propagation_fuel 0 t pl = Err Out_of_fuel"
| "Propagation_fuel (Suc n) t pl =
     (if t \<in> backward_visited pl then Ok pl
      else
        res_bind (for_each (\<lambda>k pl.
            res_bind (PropagationForward (\<lambda>u pl. Propagation_fuel n u pl) t k pl) (propagate_backward t k))
          [0..<length (fold_succ (fold_tensor pl t))] (pl\<lparr>forward_visited := insert t (forward_visited pl)\<rparr>)) (\<lambda>pl.
        Ok (pl\<lparr>forward_visited := forward_visited pl - {t}\<rparr>)))"

definition Fold_Propagation :: "nat \<Rightarrow> DimensionFolderPlan \<Rightarrow> DimensionFolderPlan res" where
  "Fold_Propagation t pl = Propagation_fuel (Suc (length (fold_tensors pl))) t pl"

definition propagate_all :: "nat list \<Rightarrow> DimensionFolderPlan \<Rightarrow> DimensionFolderPlan res" where
  "propagate_all inputs pl = for_each (\<lambda>t pl. Fold_Propagation t (pl\<lparr>backward_visited := {}\<rparr>)) inputs pl"

fun plan_loop :: "nat list \<Rightarrow> nat \<Rightarrow> DimensionFolderPlan \<Rightarrow> DimensionFolderPlan res" where
  "plan_loop inputs 0 pl = Err Out_of_fuel"
| "plan_loop inputs (Suc n) pl =
     res_bind (propagate_all inputs pl) (\<lambda>pl'.
       if folded_dims pl' \<noteq> folded_dims pl \<and> folded_dims pl' < total_dims pl' then plan_loop inputs n pl' else Ok pl')"

definition empty_plan :: DimensionFolderPlan where
  "empty_plan =
     \<lparr>fold_tensors = [], fold_map = (\<lambda>_. None), give_up = False, reduce_axis = [], transpose_perm = [], fold_inputs = [],
      total_dims = 0, folded_dims = 0, forward_visited = {}, backward_visited = {}\<rparr>"

definition Plan :: "(AttrNode \<Rightarrow> Attrs option) \<Rightarrow> Stmt \<Rightarrow> DimensionFolderPlan res" where
  "Plan map_node s =
     res_bind (fold_visit map_node s empty_plan) (\<lambda>pl.
       if give_up pl then Ok pl
       else
         res_bind (for_each (\<lambda>fn ts. case fold_map pl fn of None \<Rightarrow> Err Fatal | Some t \<Rightarrow> Ok (ts @ [t])) (fold_inputs pl) []) (\<lambda>inputs.
         res_bind (plan_loop inputs (Suc (nat (total_dims pl))) pl) (\<lambda>pl.
           Ok (if folded_dims pl = total_dims pl then pl\<lparr>give_up := True\<rparr> else pl))))"

section \<open>The folded statement\<close>

text \<open>What \<open>operator*\<close> makes of other operands than constants of one type, and \<open>Simplify\<close>, are
  parameters, and so is the node of a map of attributes.\<close>

record Folding =
  mul_other :: "Expr \<Rightarrow> Expr \<Rightarrow> Expr"
  simplify_dim :: "Expr \<Rightarrow> Expr"
  attrs_node :: "Attrs \<Rightarrow> AttrNode"

definition dim_mul :: "(Expr \<Rightarrow> Expr \<Rightarrow> Expr) \<Rightarrow> Expr \<Rightarrow> Expr \<Rightarrow> Expr res" where
  "dim_mul other a b =
     (case (a, b) of
        (IntImm ty i, IntImm ty' j) \<Rightarrow> if ty = ty' then res_bind (int64_ret (i * j)) (\<lambda>k. Ok (IntImm ty k)) else Ok (other a b)
      | _ \<Rightarrow> Ok (other a b))"

type_synonym FoldDims = "Func \<Rightarrow> nat list option"

fun fold_shape_loop :: "Folding \<Rightarrow> nat list \<Rightarrow> Expr list \<Rightarrow> nat list \<Rightarrow> Expr \<Rightarrow> Expr list res" where
  "fold_shape_loop c fd shape [] val = Ok [simplify_dim c val]"
| "fold_shape_loop c fd shape (i # ns) val =
     (if i = fd ! i then res_bind (fold_shape_loop c fd shape ns (shape ! i)) (\<lambda>es. Ok (simplify_dim c val # es))
      else res_bind (dim_mul (mul_other c) val (shape ! i)) (fold_shape_loop c fd shape ns))"

definition FoldShape :: "Folding \<Rightarrow> FoldDims \<Rightarrow> Func \<Rightarrow> Expr list \<Rightarrow> Expr list res" where
  "FoldShape c dims fn shape =
     (let fd = (case dims fn of None \<Rightarrow> [] | Some fd \<Rightarrow> fd) in
      res_bind (CHECK (length shape = length fd)) (\<lambda>_.
      res_bind (vec_at shape 0) (fold_shape_loop c fd shape [1..<length fd])))"

text \<open>\<open>axis_map\<close>: the number of the block of each dimension.\<close>

definition axis_map :: "nat list \<Rightarrow> int list" where
  "axis_map fd = map (\<lambda>i. int (length (filter (\<lambda>j. fd ! j = j) [0..<Suc i])) - 1) [0..<length fd]"

definition FoldShapeIndex :: "FoldDims \<Rightarrow> Func \<Rightarrow> Expr list \<Rightarrow> Expr list res" where
  "FoldShapeIndex dims fn axis =
     (let am = axis_map (case dims fn of None \<Rightarrow> [] | Some fd \<Rightarrow> fd) in
      res_bind (for_each (\<lambda>a included.
          case a of
            IntImm ty v \<Rightarrow>
              res_bind (guard (0 \<le> v) Out_of_bounds) (\<lambda>_.
              res_bind (vec_at am (nat v)) (\<lambda>d. Ok (if d \<in> set included then included else included @ [d])))
          | _ \<Rightarrow> Err Fatal) axis []) (\<lambda>new_axis. Ok (map (IntImm (Int_type 32)) new_axis)))"

text \<open>\<open>update_attr_\<close> and \<open>attr_func_\<close>, which are set together; \<open>None\<close> when \<open>update_attr_\<close> is empty.\<close>

type_synonym FoldAttr = "(string \<times> Func) option"

fun fold_args :: "Folding \<Rightarrow> FoldDims \<Rightarrow> string option \<Rightarrow> Expr list \<Rightarrow> FoldAttr \<Rightarrow> (Expr list \<times> FoldAttr) res" where
  "fold_args c dims upd [] u = Ok ([], u)"
| "fold_args c dims upd (CallE ty ct n shape fn i # es) u =
     res_bind (FoldShape c dims fn shape) (\<lambda>shape.
     res_bind (make_expr (CallE ty ct n shape fn 0)) (\<lambda>e.
     res_bind (fold_args c dims upd es (case upd of Some a \<Rightarrow> Some (a, fn) | None \<Rightarrow> u)) (\<lambda>(es, u). Ok (e # es, u))))"
| "fold_args c dims upd (e # es) u = res_bind (fold_args c dims upd es u) (\<lambda>(es, u). Ok (e # es, u))"

definition fold_provide :: "Folding \<Rightarrow> FoldDims \<Rightarrow> Func \<Rightarrow> nat \<Rightarrow> Expr \<Rightarrow> Expr list \<Rightarrow> FoldAttr \<Rightarrow> (Stmt \<times> FoldAttr) res" where
  "fold_provide c dims fn i v shape u =
     (case v of
        CallE ty ct op args f j \<Rightarrow>
          res_bind (fold_args c dims (if IsReduce_op op then Some ''axis'' else if op = ''Transpose'' then Some ''perm'' else None) args u) (\<lambda>(args, u).
          res_bind (make_expr (CallE ty ct op args f 0)) (\<lambda>v.
          res_bind (FoldShape c dims fn shape) (\<lambda>shape.
            Ok (Provide fn i v shape, if op = ''BroadcastTo'' \<or> op = ''Reshape'' then Some (''shape'', fn) else u))))
      | _ \<Rightarrow> Err Fatal)"

definition fold_attrs :: "Folding \<Rightarrow> FoldDims \<Rightarrow> string \<Rightarrow> Func \<Rightarrow> Attrs \<Rightarrow> Attrs res" where
  "fold_attrs c dims key fn m =
     (case m key of
        None \<Rightarrow> Err Fatal
      | Some val \<Rightarrow>
          res_bind (if key = ''axis'' \<or> key = ''perm'' then FoldShapeIndex dims fn val else FoldShape c dims fn val) (\<lambda>new.
            Ok (m(key := Some new))))"

fun fold_stmt :: "(AttrNode \<Rightarrow> Attrs option) \<Rightarrow> Folding \<Rightarrow> FoldDims \<Rightarrow> Stmt \<Rightarrow> FoldAttr \<Rightarrow> (Stmt \<times> FoldAttr) res" where
  "fold_stmt map_node c dims (AttrStmt n k e b) u =
     (if k = ''attrs'' then
        res_bind (fold_stmt map_node c dims b None) (\<lambda>(b, u).
          case u of
            None \<Rightarrow> Ok (AttrStmt n k e b, u)
          | Some (key, fn) \<Rightarrow>
              (case map_node n of
                 None \<Rightarrow> Err Fatal
               | Some m \<Rightarrow> res_bind (fold_attrs c dims key fn m) (\<lambda>m. Ok (AttrStmt (attrs_node c m) k e b, u))))
      else res_bind (fold_stmt map_node c dims b u) (\<lambda>(b, u). Ok (AttrStmt n k e b, u)))"
| "fold_stmt map_node c dims (Provide fn i v shape) u = fold_provide c dims fn i v shape u"
| "fold_stmt map_node c dims (LetStmt v e b) u = res_bind (fold_stmt map_node c dims b u) (\<lambda>(b, u). Ok (LetStmt v e b, u))"
| "fold_stmt map_node c dims (AssertStmt p m b) u = res_bind (fold_stmt map_node c dims b u) (\<lambda>(b, u). Ok (AssertStmt p m b, u))"
| "fold_stmt map_node c dims (ProducerConsumer fn p b) u =
     res_bind (fold_stmt map_node c dims b u) (\<lambda>(b, u). Ok (ProducerConsumer fn p b, u))"
| "fold_stmt map_node c dims (For v m x t b) u = res_bind (fold_stmt map_node c dims b u) (\<lambda>(b, u). Ok (For v m x t b, u))"
| "fold_stmt map_node c dims (Allocate v t xs p b n) u =
     res_bind (fold_stmt map_node c dims b u) (\<lambda>(b, u). Ok (Allocate v t xs p b n, u))"
| "fold_stmt map_node c dims (Realize fn i ty bs p b) u =
     res_bind (fold_stmt map_node c dims b u) (\<lambda>(b, u). Ok (Realize fn i ty bs p b, u))"
| "fold_stmt map_node c dims (Block a b) u =
     res_bind (fold_stmt map_node c dims a u) (\<lambda>(a, u).
     res_bind (fold_stmt map_node c dims b u) (\<lambda>(b, u). Ok (make_block a b, u)))"
| "fold_stmt map_node c dims (IfThenElse p t e) u =
     res_bind (fold_stmt map_node c dims t u) (\<lambda>(t, u).
       case e of
         None \<Rightarrow> Ok (IfThenElse p t None, u)
       | Some s \<Rightarrow> res_bind (fold_stmt map_node c dims s u) (\<lambda>(s, u). Ok (IfThenElse p t (Some s), u)))"
| "fold_stmt map_node c dims s u = Ok (s, u)"

definition plan_dims :: "DimensionFolderPlan \<Rightarrow> FoldDims" where
  "plan_dims pl fn = (case fold_map pl fn of None \<Rightarrow> None | Some t \<Rightarrow> Some (fold_dims (fold_tensor pl t)))"

text \<open>The pass; the second result is what it leaves in the build information, if it folds.\<close>

definition FoldDimension :: "(AttrNode \<Rightarrow> Attrs option) \<Rightarrow> Folding \<Rightarrow> Stmt \<Rightarrow> (Stmt \<times> FoldDims option) res" where
  "FoldDimension map_node c s =
     res_bind (Plan map_node s) (\<lambda>pl.
       if give_up pl then Ok (s, None)
       else res_bind (fold_stmt map_node c (plan_dims pl) s None) (\<lambda>(s, u). Ok (s, Some (plan_dims pl))))"

end
