(* ===== verification/Composite_Fold_Blocks.thy ===== *)
theory Composite_Fold_Blocks
  imports Composite_Fold
begin

text \<open>
  What \<open>fold_dims\<close> stands for: a set of dimensions at which blocks begin. \<open>UpdateFoldDim\<close> adds the two
  ends of a range to this set; \<open>DoPropagate\<close> adds to the blocks of one tensor what separates the
  dimensions they are mapped to.
\<close>

section \<open>Blocks\<close>

definition blocks :: "nat list \<Rightarrow> bool" where
  "blocks fd \<longleftrightarrow> (\<forall>i < length fd. fd ! i = i \<or> 0 < i \<and> fd ! i = fd ! (i - 1))"

definition starts :: "nat list \<Rightarrow> nat set" where
  "starts fd = {i. i < length fd \<and> fd ! i = i}"

lemma finite_starts [simp]: "finite (starts fd)"
  by (simp add: starts_def)

lemma blocksD: "blocks fd \<Longrightarrow> i < length fd \<Longrightarrow> fd ! i \<noteq> i \<Longrightarrow> 0 < i \<and> fd ! i = fd ! (i - 1)"
  by (auto simp: blocks_def)

lemma blocks_le: "blocks fd \<Longrightarrow> i < length fd \<Longrightarrow> fd ! i \<le> i"
proof (induction i)
  case (Suc i)
  then show ?case using blocksD [of fd "Suc i"] by fastforce
qed (use blocksD in fastforce)

lemma blocks_mono: "blocks fd \<Longrightarrow> j < length fd \<Longrightarrow> i \<le> j \<Longrightarrow> fd ! i \<le> fd ! j"
proof (induction j)
  case (Suc j)
  show ?case
  proof (cases "i = Suc j")
    case False
    then have "fd ! i \<le> fd ! j" using Suc by simp
    also have "\<dots> \<le> fd ! Suc j"
      using blocksD [OF Suc.prems(1,2)] blocks_le [OF Suc.prems(1), of j] Suc.prems(2) by (cases "fd ! Suc j = Suc j") auto
    finally show ?thesis .
  qed simp
qed simp

lemma blocks_in_starts: "blocks fd \<Longrightarrow> i < length fd \<Longrightarrow> fd ! i \<in> starts fd"
proof (induction i)
  case (Suc i)
  then show ?case using blocksD [of fd "Suc i"] by (cases "fd ! Suc i = Suc i") (auto simp: starts_def)
qed (use blocksD in \<open>fastforce simp: starts_def\<close>)

text \<open>Two dimensions are in one block if no block begins behind the first and up to the second.\<close>

lemma same_block:
  assumes "blocks fd" "i \<le> j" "j < length fd"
  shows "fd ! i = fd ! j \<longleftrightarrow> (\<forall>k \<in> starts fd. \<not> (i < k \<and> k \<le> j))"
proof
  assume eq: "fd ! i = fd ! j"
  show "\<forall>k \<in> starts fd. \<not> (i < k \<and> k \<le> j)"
  proof (intro ballI notI)
    fix k assume k: "k \<in> starts fd" "i < k \<and> k \<le> j"
    have "fd ! i \<le> i" using blocks_le [OF assms(1)] assms(2,3) by simp
    also have "\<dots> < fd ! k" using k by (simp add: starts_def)
    also have "\<dots> \<le> fd ! j" using blocks_mono [OF assms(1,3)] k(2) by simp
    finally show False using eq by simp
  qed
next
  assume none: "\<forall>k \<in> starts fd. \<not> (i < k \<and> k \<le> j)"
  have "fd ! j \<in> starts fd" "fd ! j \<le> j" using blocks_in_starts blocks_le assms(1,3) by blast+
  with none have "fd ! j \<le> i" by (meson leI)
  then have "fd ! (fd ! j) \<le> fd ! i" using blocks_mono [OF assms(1), of i "fd ! j"] assms(2,3) by simp
  moreover have "fd ! i \<le> fd ! j" by (rule blocks_mono [OF assms(1,3,2)])
  ultimately show "fd ! i = fd ! j" using \<open>fd ! j \<in> starts fd\<close> by (simp add: starts_def)
qed

lemma same_block_finer:
  assumes "blocks f" "blocks g" "length g = length f" "starts f \<subseteq> starts g" "i < length f" "j < length f" "g ! i = g ! j"
  shows "f ! i = f ! j"
proof (cases "i \<le> j")
  case True
  with assms same_block [of g i j] same_block [of f i j] show ?thesis by auto
next
  case False
  with assms same_block [of g j i] same_block [of f j i] show ?thesis by force
qed

lemma starts_eq: "blocks f \<Longrightarrow> blocks g \<Longrightarrow> length g = length f \<Longrightarrow> starts g = starts f \<Longrightarrow> g = f"
proof (rule nth_equalityI)
  fix i assume *: "blocks f" "blocks g" "length g = length f" "starts g = starts f" "i < length g"
  have "f ! i \<in> starts g" "g ! i \<in> starts f" using blocks_in_starts * by metis+
  then have "g ! (f ! i) = f ! i" "f ! (g ! i) = g ! i" by (simp_all add: starts_def)
  moreover have "f ! i \<le> i" "g ! i \<le> i" using blocks_le * by auto
  then have "g ! (f ! i) \<le> g ! i" "f ! (g ! i) \<le> f ! i"
    using blocks_mono [OF *(2), of i "f ! i"] blocks_mono [OF *(1), of i "g ! i"] * by auto
  ultimately show "g ! i = f ! i" by simp
qed

lemma blocks_replicate [simp]: "blocks (replicate n 0)"
  by (auto simp: blocks_def)

lemma starts_replicate: "starts (replicate n 0) = (if n = 0 then {} else {0})"
  by (auto simp: starts_def)

lemma card_starts_le: "card (starts fd) \<le> length fd"
proof -
  have "starts fd \<subseteq> {..<length fd}" by (auto simp: starts_def)
  then show ?thesis using card_mono [of "{..<length fd}" "starts fd"] by simp
qed

lemma zero_start: "blocks fd \<Longrightarrow> fd \<noteq> [] \<Longrightarrow> 0 \<in> starts fd"
  using blocks_in_starts [of fd 0] blocks_le [of fd 0] by (auto simp: starts_def)

section \<open>Separations\<close>

text \<open>A block begins at \<open>c\<close>, and what came before \<open>c\<close> ends there.\<close>

definition cut :: "nat \<Rightarrow> nat list \<Rightarrow> nat list" where
  "cut c fd = map (\<lambda>j. if j < c then fd ! j else max c (fd ! j)) [0..<length fd]"

lemma length_cut [simp]: "length (cut c fd) = length fd"
  by (simp add: cut_def)

lemma nth_cut [simp]: "j < length fd \<Longrightarrow> cut c fd ! j = (if j < c then fd ! j else max c (fd ! j))"
  by (simp add: cut_def)

lemma blocks_cut:
  assumes "blocks fd"
  shows "blocks (cut c fd)"
  unfolding blocks_def
proof (intro allI impI)
  fix i assume i: "i < length (cut c fd)"
  show "cut c fd ! i = i \<or> 0 < i \<and> cut c fd ! i = cut c fd ! (i - 1)"
  proof (cases "fd ! i = i")
    case True
    with i show ?thesis by simp
  next
    case False
    with blocksD [OF assms, of i] i have "0 < i \<and> fd ! i = fd ! (i - 1)" by simp
    with i show ?thesis by (cases "i = c") (auto simp: max_def)
  qed
qed

lemma starts_cut:
  assumes "blocks fd"
  shows "starts (cut c fd) = starts fd \<union> ({c} \<inter> {..<length fd})"
proof (rule set_eqI)
  fix i
  have "i < length fd \<Longrightarrow> fd ! i \<le> i" by (rule blocks_le [OF assms])
  then show "i \<in> starts (cut c fd) \<longleftrightarrow> i \<in> starts fd \<union> ({c} \<inter> {..<length fd})"
    by (cases "i < length fd"; cases "i < c"; cases "i = c") (auto simp: starts_def max_def)
qed

lemma cut_id: "blocks fd \<Longrightarrow> c \<in> starts fd \<or> length fd \<le> c \<Longrightarrow> cut c fd = fd"
  by (rule starts_eq) (auto simp: blocks_cut starts_cut)

lemma fill_run_spec:
  assumes "fill_run v x lim i fd = (i', fd')" "lim \<le> length fd"
  shows "i \<le> i'" and "i \<le> lim \<Longrightarrow> i' \<le> lim" and "length fd' = length fd"
    and "\<And>j. fd' ! j = (if i \<le> j \<and> j < i' then x else fd ! j)"
    and "\<And>j. i \<le> j \<Longrightarrow> j < i' \<Longrightarrow> fd ! j = v" and "i' < lim \<Longrightarrow> fd ! i' \<noteq> v"
proof -
  have "i \<le> i' \<and> (i \<le> lim \<longrightarrow> i' \<le> lim) \<and> length fd' = length fd \<and> (\<forall>j. fd' ! j = (if i \<le> j \<and> j < i' then x else fd ! j)) \<and>
    (\<forall>j. i \<le> j \<longrightarrow> j < i' \<longrightarrow> fd ! j = v) \<and> (i' < lim \<longrightarrow> fd ! i' \<noteq> v)"
    using assms
  proof (induction v x lim i fd rule: fill_run.induct)
    case (1 v x lim i fd)
    show ?case
    proof (cases "i < lim \<and> fd ! i = v")
      case True
      with "1.prems" have run: "fill_run v x lim (i + 1) (fd[i := x]) = (i', fd')" by (simp add: fill_run.simps [of v x lim i])
      have "lim \<le> length (fd[i := x])" using "1.prems"(2) by simp
      note IH = "1.IH" [OF True run this]
      from IH have "i + 1 \<le> i'" "i' \<le> lim" "length fd' = length fd" using True by simp_all
      moreover have "\<forall>j. fd' ! j = (if i \<le> j \<and> j < i' then x else fd ! j)"
      proof
        fix j
        have "fd' ! j = (if i + 1 \<le> j \<and> j < i' then x else fd[i := x] ! j)" using IH by blast
        with True "1.prems"(2) calculation(1) show "fd' ! j = (if i \<le> j \<and> j < i' then x else fd ! j)"
          by (cases "j = i") simp_all
      qed
      moreover have "\<forall>j. i \<le> j \<longrightarrow> j < i' \<longrightarrow> fd ! j = v"
      proof (intro allI impI)
        fix j assume j: "i \<le> j" "j < i'"
        have "i + 1 \<le> j \<longrightarrow> j < i' \<longrightarrow> fd[i := x] ! j = v" using IH by blast
        with True j show "fd ! j = v" by (cases "j = i") simp_all
      qed
      moreover from IH have "i' < lim \<longrightarrow> fd ! i' \<noteq> v" using calculation(1) by (metis Suc_eq_plus1 Suc_n_not_le_n nth_list_update_neq)
      ultimately show ?thesis by simp
    next
      case False
      with "1.prems" have "i' = i" "fd' = fd" unfolding fill_run.simps [of v x lim i fd] by simp_all
      with False show ?thesis by auto
    qed
  qed
  then show "i \<le> i'" "i \<le> lim \<Longrightarrow> i' \<le> lim" "length fd' = length fd" "\<And>j. fd' ! j = (if i \<le> j \<and> j < i' then x else fd ! j)"
    "\<And>j. i \<le> j \<Longrightarrow> j < i' \<Longrightarrow> fd ! j = v" "i' < lim \<Longrightarrow> fd ! i' \<noteq> v" by blast+
qed

lemma run_start_spec:
  assumes "low \<le> i"
  shows "low \<le> run_start (fd ! i) low i fd \<and> run_start (fd ! i) low i fd \<le> i \<and>
    (\<forall>j. run_start (fd ! i) low i fd \<le> j \<and> j \<le> i \<longrightarrow> fd ! j = fd ! i) \<and>
    (run_start (fd ! i) low i fd = low \<or> fd ! (run_start (fd ! i) low i fd - 1) \<noteq> fd ! i)"
proof -
  have "low \<le> i \<Longrightarrow> low \<le> run_start v low i fd \<and> run_start v low i fd \<le> i \<and>
    (\<forall>j. run_start v low i fd \<le> j \<and> j < i \<longrightarrow> fd ! j = v) \<and> (run_start v low i fd = low \<or> fd ! (run_start v low i fd - 1) \<noteq> v)" for v
  proof (induction i)
    case (Suc i)
    then show ?case by (auto simp: less_Suc_eq le_Suc_eq)
  qed simp
  from this [OF assms, of "fd ! i"] show ?thesis by (metis le_neq_implies_less)
qed

text \<open>Writing \<open>a\<close> to the rest of the block of \<open>a\<close>, below \<open>lim\<close>, is a cut of what is below \<open>lim\<close>.\<close>

lemma fill_run_cut:
  assumes "blocks fd" "fd ! a \<noteq> a" "a < lim" "lim \<le> length fd"
    and same: "\<forall>j. a \<le> j \<and> j < length fd \<longrightarrow> gd ! j = fd ! j" "length gd = length fd"
    and run: "fill_run (fd ! a) a lim a gd = (i, gd')"
  shows "a \<le> i" "i \<le> lim" "length gd' = length fd" "i < lim \<Longrightarrow> fd ! i = i"
    and "\<And>j. j < length fd \<Longrightarrow> gd' ! j = (if a \<le> j \<and> j < lim then max a (fd ! j) else gd ! j)"
proof -
  have lim: "lim \<le> length gd" using assms(4) same(2) by simp
  note spec = fill_run_spec [OF run lim]
  show i: "a \<le> i" "i \<le> lim" "length gd' = length fd" using spec(1-3) assms(3) same(2) by simp_all
  have a: "fd ! a < a" using assms(2-4) blocks_le [OF assms(1), of a] by simp
  have block: "fd ! j = fd ! a" if "a \<le> j" "j < i" for j
    using spec(5) [OF that] same(1) that i(2) assms(4) by simp
  show start: "fd ! i = i" if "i < lim"
  proof -
    have ne: "fd ! i \<noteq> fd ! a" using spec(6) [OF that] same(1) i(1) that assms(4) by simp
    then have "i \<noteq> a" by auto
    then have "fd ! (i - 1) = fd ! a" using block [of "i - 1"] i(1) by simp
    then show "fd ! i = i" using blocksD [OF assms(1), of i] ne that assms(4) by force
  qed
  fix j assume j: "j < length fd"
  show "gd' ! j = (if a \<le> j \<and> j < lim then max a (fd ! j) else gd ! j)"
  proof (cases "a \<le> j \<and> j < lim")
    case True
    show ?thesis
    proof (cases "j < i")
      case True
      then have "gd' ! j = a" "fd ! j = fd ! a" using spec(4) [of j] block [of j] \<open>a \<le> j \<and> j < lim\<close> by simp_all
      with a \<open>a \<le> j \<and> j < lim\<close> show ?thesis by simp
    next
      case False
      then have "fd ! i \<le> fd ! j" using blocks_mono [OF assms(1) j, of i] by simp
      moreover have "fd ! i = i" using start False True by simp
      moreover have "gd' ! j = fd ! j" using spec(4) [of j] same(1) j False True by simp
      ultimately show ?thesis using True i(1) by simp
    qed
  next
    case False
    then have "\<not> (a \<le> j \<and> j < i)" using i(2) by auto
    with False spec(4) [of j] show ?thesis by auto
  qed
qed

text \<open>The run that ends at \<open>end\<close> begins where a block begins, so that the second part of
  \<open>UpdateFoldDim\<close> has nothing to do.\<close>

lemma split_fold_cut:
  assumes "blocks fd" "a \<le> b" "b < length fd"
  shows "split_fold a b fd = (cut (b + 1) (cut a fd), (if fd ! a = a then 0 else 1) + (if b + 1 < length fd \<and> fd ! (b + 1) \<noteq> b + 1 then 1 else 0))"
proof -
  define k :: nat where "k = (if fd ! a = a then 0 else 1)"
  obtain i fd1 where first: "(if fd ! a \<noteq> a then (case fill_run (fd ! a) a (b + 1) a fd of (i, fd) \<Rightarrow> (i, fd, 1)) else (a, fd, 0 :: nat)) = (i, fd1, k)"
    by (cases "fill_run (fd ! a) a (b + 1) a fd"; cases "fd ! a = a") (simp_all add: k_def)
  have fd1: "length fd1 = length fd \<and> a \<le> i \<and> (i \<le> b \<longrightarrow> fd ! i = i) \<and>
      (\<forall>j < length fd. fd1 ! j = (if a \<le> j \<and> j \<le> b then max a (fd ! j) else fd ! j))"
  proof (cases "fd ! a = a")
    case True
    then have "max a (fd ! j) = fd ! j" if "a \<le> j" "j < length fd" for j
      using blocks_mono [OF assms(1) that(2,1)] by simp
    with True first show ?thesis by simp
  next
    case False
    then have run: "fill_run (fd ! a) a (b + 1) a fd = (i, fd1)" using first by (auto split: prod.splits)
    have "a < b + 1" "b + 1 \<le> length fd" using assms by simp_all
    note spec = fill_run_cut [OF assms(1) False this _ refl run, simplified]
    show ?thesis using spec(1,3) spec(4) spec(5) by (auto simp: less_Suc_eq_le)
  qed
  have second: "fd1 ! (run_start (fd1 ! b) i b fd1) = run_start (fd1 ! b) i b fd1" if i: "i \<le> b"
  proof -
    define r where "r = run_start (fd1 ! b) i b fd1"
    have r: "i \<le> r" "r \<le> b" "r = i \<or> fd1 ! (r - 1) \<noteq> fd1 ! r"
    proof -
      note run = run_start_spec [OF i, of fd1, folded r_def]
      then show "i \<le> r" "r \<le> b" by blast+
      from run have "fd1 ! r = fd1 ! b" by blast
      with run show "r = i \<or> fd1 ! (r - 1) \<noteq> fd1 ! r" by presburger
    qed
    have val: "fd1 ! j = max a (fd ! j)" if "i \<le> j" "j \<le> b" for j
      using fd1 that assms(3) by auto
    have "fd ! r = r"
    proof (cases "r = i")
      case False
      then have "fd ! (r - 1) \<noteq> fd ! r" using r val [of r] val [of "r - 1"] by auto
      then show ?thesis using blocksD [OF assms(1), of r] r assms(3) by auto
    qed (use fd1 i in simp)
    moreover have "a \<le> r" using fd1 r(1) by linarith
    ultimately show ?thesis unfolding r_def [symmetric] using val [OF r(1,2)] by (simp only: max_absorb2)
  qed
  define third where "third = (if b + 1 < length fd \<and> fd ! (b + 1) \<noteq> b + 1
    then snd (fill_run (fd ! (b + 1)) (b + 1) (length fd) (b + 1) fd1) else fd1)"
  have max': "max (Suc b) (max a x) = max (Suc b) x" for x using assms(2) by simp
  have "third = cut (b + 1) (cut a fd)"
  proof (cases "b + 1 < length fd \<and> fd ! (b + 1) \<noteq> b + 1")
    case True
    obtain i' fd2 where run: "fill_run (fd ! (b + 1)) (b + 1) (length fd) (b + 1) fd1 = (i', fd2)" by fastforce
    have above: "\<forall>j. b + 1 \<le> j \<and> j < length fd \<longrightarrow> fd1 ! j = fd ! j" using fd1 by simp
    note spec = fill_run_cut [OF assms(1) conjunct2 [OF True] conjunct1 [OF True] order_refl above conjunct1 [OF fd1] run]
    show ?thesis
    proof (rule nth_equalityI)
      show "length third = length (cut (b + 1) (cut a fd))" using True run spec(3) by (simp add: third_def)
      fix j assume "j < length third"
      then have j: "j < length fd" using True run spec(3) by (simp add: third_def)
      with spec(5) [OF j] fd1 True run show "third ! j = cut (b + 1) (cut a fd) ! j"
        by (simp add: third_def max')
    qed
  next
    case False
    have third: "third = fd1" unfolding third_def using False by (simp only: if_False)
    have "third ! j = cut (b + 1) (cut a fd) ! j" if j: "j < length fd" for j
    proof (cases "j \<le> b")
      case True
      with j fd1 show ?thesis by (simp add: third)
    next
      case jb: False
      then have "fd ! (b + 1) = b + 1" using False j by auto
      then have "b + 1 \<le> fd ! j" using blocks_mono [OF assms(1) j, of "b + 1"] jb by simp
      moreover have "third ! j = fd ! j" using fd1 j jb by (simp add: third)
      ultimately show ?thesis using j jb assms(2) by simp
    qed
    moreover have "length third = length fd" using fd1 by (simp add: third)
    ultimately show ?thesis by (simp add: nth_equalityI)
  qed
  moreover have same: "b + 1 < length fd \<Longrightarrow> fd1 ! (b + 1) = fd ! (b + 1)" "length fd1 = length fd" using fd1 by simp_all
  have mid: "(if i \<le> b then (if fd1 ! run_start (fd1 ! b) i b fd1 \<noteq> run_start (fd1 ! b) i b fd1 then gd else fd1) else fd1) = fd1" for gd
    using second by auto
  have "split_fold a b fd = (if b + 1 < length fd1 \<and> fd1 ! (b + 1) \<noteq> b + 1
      then (snd (fill_run (fd1 ! (b + 1)) (b + 1) (length fd1) (b + 1) fd1), k + 1) else (fd1, k))"
    unfolding split_fold_def first by (simp only: Let_def prod.case mid)
  then have "split_fold a b fd = (third, k + (if b + 1 < length fd \<and> fd ! (b + 1) \<noteq> b + 1 then 1 else 0))"
    unfolding third_def using same by (cases "b + 1 < length fd") simp_all
  ultimately show ?thesis by (simp add: k_def)
qed

text \<open>\<open>UpdateFoldDim\<close> on the set of starts.\<close>

lemma split_fold_starts:
  assumes "blocks fd" "a \<le> b" "b < length fd" "split_fold a b fd = (fd', n)"
  shows "blocks fd'" "length fd' = length fd" "starts fd' = starts fd \<union> ({a, b + 1} \<inter> {..<length fd})"
    "card (starts fd') = card (starts fd) + n"
proof -
  have fd': "fd' = cut (b + 1) (cut a fd)" using split_fold_cut [OF assms(1-3)] assms(4) by simp
  show "blocks fd'" "length fd' = length fd" by (simp_all add: fd' blocks_cut assms(1))
  show s: "starts fd' = starts fd \<union> ({a, b + 1} \<inter> {..<length fd})"
    using assms by (auto simp: fd' starts_cut blocks_cut)
  have n: "n = (if a \<in> starts fd then 0 else 1) + (if b + 1 \<in> starts fd \<or> length fd \<le> b + 1 then 0 else 1)"
    using split_fold_cut [OF assms(1-3)] assms(2-4) by (cases "b + 1 < length fd") (simp_all add: starts_def)
  have new: "starts fd' = starts (cut a fd) \<union> ({b + 1} \<inter> {..<length fd})"
    by (simp add: fd' starts_cut blocks_cut assms(1))
  have one: "card (S \<union> ({c} \<inter> {..<length fd})) = card S + (if c \<in> S \<or> length fd \<le> c then 0 else 1)" if "finite S" for S c
    using that by (cases "c \<in> S"; cases "c < length fd") (simp_all add: insert_absorb)
  have cut: "starts (cut a fd) = starts fd \<union> ({a} \<inter> {..<length fd})" by (simp add: starts_cut assms(1))
  have "b + 1 \<in> starts (cut a fd) \<longleftrightarrow> b + 1 \<in> starts fd" using assms(2) by (simp add: cut)
  then show "card (starts fd') = card (starts fd) + n"
    unfolding new one [OF finite_starts] n using one [of "starts fd" a] assms(2,3) by (simp add: cut)
qed

end
