(* ===== verification/Composite_Fold_Propagate.thy ===== *)
theory Composite_Fold_Propagate
  imports Composite_Fold_Blocks
begin

text \<open>
  How the state of the plan changes while it propagates: blocks only get smaller, \<open>folded_dims\<close> and
  \<open>update\<close> tell whether they did, and what a relation has committed stays true until the tensor it
  was read from changes.
\<close>

section \<open>States of the plan\<close>

abbreviation tensor_count :: "DimensionFolderPlan \<Rightarrow> nat" where
  "tensor_count pl \<equiv> length (fold_tensors pl)"

abbreviation dims_at :: "DimensionFolderPlan \<Rightarrow> nat \<Rightarrow> nat list" where
  "dims_at pl t \<equiv> fold_dims (fold_tensor pl t)"

abbreviation update_at :: "DimensionFolderPlan \<Rightarrow> nat \<Rightarrow> int" where
  "update_at pl t \<equiv> fold_update (fold_tensor pl t)"

abbreviation succ_at :: "DimensionFolderPlan \<Rightarrow> nat \<Rightarrow> Relation list" where
  "succ_at pl t \<equiv> fold_succ (fold_tensor pl t)"

definition plan_ok :: "DimensionFolderPlan \<Rightarrow> bool" where
  "plan_ok pl \<longleftrightarrow> (\<forall>t < tensor_count pl. blocks (dims_at pl t) \<and> length (dims_at pl t) = length (fold_shape (fold_tensor pl t)) \<and>
     list_all (\<lambda>r. rel_to r < tensor_count pl) (succ_at pl t))"

lemma plan_okD:
  assumes "plan_ok pl" "t < tensor_count pl"
  shows "blocks (dims_at pl t)" "length (dims_at pl t) = length (fold_shape (fold_tensor pl t))"
    "k < length (succ_at pl t) \<Longrightarrow> rel_to (relation_at pl t k) < tensor_count pl"
  using assms by (auto simp: plan_ok_def list_all_length relation_at_def)

lemma fold_tensor_simps [simp]:
  "fold_tensor (pl\<lparr>give_up := b\<rparr>) t = fold_tensor pl t"
  "fold_tensor (pl\<lparr>folded_dims := n\<rparr>) t = fold_tensor pl t"
  "fold_tensor (pl\<lparr>forward_visited := V\<rparr>) t = fold_tensor pl t"
  "fold_tensor (pl\<lparr>backward_visited := V\<rparr>) t = fold_tensor pl t"
  "fold_tensor (pl\<lparr>fold_inputs := fs\<rparr>) t = fold_tensor pl t"
  "fold_tensor (pl\<lparr>reduce_axis := xs\<rparr>) t = fold_tensor pl t"
  "fold_tensor (pl\<lparr>transpose_perm := xs\<rparr>) t = fold_tensor pl t"
  by (simp_all add: fold_tensor_def)

lemma set_tensor_simps [simp]:
  "tensor_count (set_tensor t x pl) = tensor_count pl"
  "fold_map (set_tensor t x pl) = fold_map pl"
  "give_up (set_tensor t x pl) = give_up pl"
  "reduce_axis (set_tensor t x pl) = reduce_axis pl"
  "transpose_perm (set_tensor t x pl) = transpose_perm pl"
  "fold_inputs (set_tensor t x pl) = fold_inputs pl"
  "total_dims (set_tensor t x pl) = total_dims pl"
  "folded_dims (set_tensor t x pl) = folded_dims pl"
  "forward_visited (set_tensor t x pl) = forward_visited pl"
  "backward_visited (set_tensor t x pl) = backward_visited pl"
  by (simp_all add: set_tensor_def)

lemma fold_tensor_set:
  "u < tensor_count pl \<Longrightarrow> fold_tensor (set_tensor t x pl) u = (if u = t then x else fold_tensor pl u)"
  by (auto simp: fold_tensor_def set_tensor_def)

text \<open>A relation without its commits.\<close>

definition bare :: "Relation \<Rightarrow> nat \<times> int list \<times> int list" where
  "bare r = (rel_to r, forward_mapping r, backward_mapping r)"

definition same_frame :: "DimensionFolderPlan \<Rightarrow> DimensionFolderPlan \<Rightarrow> bool" where
  "same_frame pl pl' \<longleftrightarrow> tensor_count pl' = tensor_count pl \<and> fold_map pl' = fold_map pl \<and> give_up pl' = give_up pl \<and>
     fold_inputs pl' = fold_inputs pl \<and> total_dims pl' = total_dims pl \<and>
     (\<forall>t < tensor_count pl. fold_shape (fold_tensor pl' t) = fold_shape (fold_tensor pl t) \<and>
        length (dims_at pl' t) = length (dims_at pl t) \<and> map bare (succ_at pl' t) = map bare (succ_at pl t))"

text \<open>If the count of the blocks is the same, nothing has changed but commits.\<close>

definition same_tensor :: "DimensionFolderPlan \<Rightarrow> DimensionFolderPlan \<Rightarrow> nat \<Rightarrow> bool" where
  "same_tensor pl pl' t \<longleftrightarrow> update_at pl' t = update_at pl t \<and>
     (\<forall>k < length (succ_at pl t).
        forward_commit (relation_at pl' t k) \<in> {forward_commit (relation_at pl t k), update_at pl t} \<and>
        backward_commit (relation_at pl' t k) \<in> {backward_commit (relation_at pl t k), update_at pl (rel_to (relation_at pl t k))})"

text \<open>The number of blocks of all tensors.\<close>

definition block_count :: "DimensionFolderPlan \<Rightarrow> int" where
  "block_count pl = (\<Sum>t < tensor_count pl. int (card (starts (dims_at pl t))))"

definition refined :: "DimensionFolderPlan \<Rightarrow> DimensionFolderPlan \<Rightarrow> bool" where
  "refined pl pl' \<longleftrightarrow> same_frame pl pl' \<and> folded_dims pl \<le> folded_dims pl' \<and>
     folded_dims pl' - folded_dims pl = block_count pl' - block_count pl \<and>
     (\<forall>t < tensor_count pl. starts (dims_at pl t) \<subseteq> starts (dims_at pl' t) \<and> update_at pl t \<le> update_at pl' t \<and>
        (update_at pl' t = update_at pl t \<longrightarrow> dims_at pl' t = dims_at pl t)) \<and>
     (folded_dims pl' = folded_dims pl \<longrightarrow> (\<forall>t < tensor_count pl. same_tensor pl pl' t))"

lemma refinedD:
  assumes "refined pl pl'"
  shows "tensor_count pl' = tensor_count pl" "fold_map pl' = fold_map pl" "give_up pl' = give_up pl" "fold_inputs pl' = fold_inputs pl"
    "total_dims pl' = total_dims pl" "folded_dims pl \<le> folded_dims pl'"
    and "folded_dims pl' - folded_dims pl = block_count pl' - block_count pl"
    and "t < tensor_count pl \<Longrightarrow> fold_shape (fold_tensor pl' t) = fold_shape (fold_tensor pl t)"
    "t < tensor_count pl \<Longrightarrow> length (dims_at pl' t) = length (dims_at pl t)"
    "t < tensor_count pl \<Longrightarrow> map bare (succ_at pl' t) = map bare (succ_at pl t)"
    "t < tensor_count pl \<Longrightarrow> starts (dims_at pl t) \<subseteq> starts (dims_at pl' t)"
    "t < tensor_count pl \<Longrightarrow> update_at pl t \<le> update_at pl' t"
    "t < tensor_count pl \<Longrightarrow> update_at pl' t = update_at pl t \<Longrightarrow> dims_at pl' t = dims_at pl t"
    "t < tensor_count pl \<Longrightarrow> folded_dims pl' = folded_dims pl \<Longrightarrow> same_tensor pl pl' t"
  using assms by (simp_all add: refined_def same_frame_def)

lemma refined_relation:
  assumes "refined pl pl'" "t < tensor_count pl"
  shows "length (succ_at pl' t) = length (succ_at pl t)"
    and "k < length (succ_at pl t) \<Longrightarrow> bare (relation_at pl' t k) = bare (relation_at pl t k)"
proof -
  note eq = refinedD(10) [OF assms]
  then show len: "length (succ_at pl' t) = length (succ_at pl t)" by (metis length_map)
  show "k < length (succ_at pl t) \<Longrightarrow> bare (relation_at pl' t k) = bare (relation_at pl t k)"
    using len eq unfolding relation_at_def by (metis nth_map)
qed

lemma bare_simps: "bare r = bare r' \<longleftrightarrow> rel_to r = rel_to r' \<and> forward_mapping r = forward_mapping r' \<and> backward_mapping r = backward_mapping r'"
  by (simp add: bare_def)

lemma refined_refl [simp]: "refined pl pl"
  by (auto simp: refined_def same_frame_def same_tensor_def)

lemma same_tensor_trans:
  assumes "refined a b" "t < tensor_count a" "same_tensor a b t" "same_tensor b c t"
    and "\<And>u. u < tensor_count a \<Longrightarrow> update_at b u = update_at a u" "list_all (\<lambda>r. rel_to r < tensor_count a) (succ_at a t)"
  shows "same_tensor a c t"
  unfolding same_tensor_def
proof (intro conjI allI impI)
  show "update_at c t = update_at a t" using assms(3,4) by (simp add: same_tensor_def)
  fix k assume k: "k < length (succ_at a t)"
  then have kb: "k < length (succ_at b t)" using refined_relation(1) [OF assms(1,2)] by simp
  have u: "rel_to (relation_at b t k) = rel_to (relation_at a t k)" "rel_to (relation_at a t k) < tensor_count a"
    using refined_relation(2) [OF assms(1,2) k] assms(6) k by (simp_all add: bare_simps list_all_length relation_at_def)
  have ab: "forward_commit (relation_at b t k) \<in> {forward_commit (relation_at a t k), update_at a t}"
    "backward_commit (relation_at b t k) \<in> {backward_commit (relation_at a t k), update_at a (rel_to (relation_at a t k))}"
    using assms(3) k unfolding same_tensor_def by blast+
  have bc: "forward_commit (relation_at c t k) \<in> {forward_commit (relation_at b t k), update_at a t}"
    "backward_commit (relation_at c t k) \<in> {backward_commit (relation_at b t k), update_at a (rel_to (relation_at a t k))}"
    using assms(4) kb assms(5) [OF assms(2)] assms(5) [OF u(2)] u(1) unfolding same_tensor_def by metis+
  from ab(1) bc(1) show "forward_commit (relation_at c t k) \<in> {forward_commit (relation_at a t k), update_at a t}" by auto
  from ab(2) bc(2) show "backward_commit (relation_at c t k) \<in> {backward_commit (relation_at a t k), update_at a (rel_to (relation_at a t k))}"
    by auto
qed

lemma refined_trans:
  assumes "refined a b" "refined b c" "plan_ok a"
  shows "refined a c"
proof -
  note ab = refinedD [OF assms(1)] and bc = refinedD [OF assms(2)]
  have "same_frame a c" using ab bc by (simp add: same_frame_def)
  moreover have "folded_dims c - folded_dims a = block_count c - block_count a" using ab(7) bc(7) by simp
  moreover have "folded_dims a \<le> folded_dims c" using ab(6) bc(6) by simp
  moreover have "starts (dims_at a t) \<subseteq> starts (dims_at c t) \<and> update_at a t \<le> update_at c t \<and>
      (update_at c t = update_at a t \<longrightarrow> dims_at c t = dims_at a t)" if "t < tensor_count a" for t
    using that ab(1) ab(11,12,13) [OF that] bc(11,12,13) [of t] by auto
  moreover have "same_tensor a c t" if "folded_dims c = folded_dims a" "t < tensor_count a" for t
  proof -
    have "folded_dims b = folded_dims a" "folded_dims c = folded_dims b" using that(1) ab(6) bc(6) by simp_all
    with ab(1,14) bc(14) have same: "\<And>u. u < tensor_count a \<Longrightarrow> same_tensor a b u" "same_tensor b c t" using that(2) by simp_all
    moreover have "list_all (\<lambda>r. rel_to r < tensor_count a) (succ_at a t)" using assms(3) that(2) by (simp add: plan_ok_def)
    ultimately show ?thesis
      using same_tensor_trans [OF assms(1) that(2)] that(2) by (simp add: same_tensor_def)
  qed
  ultimately show ?thesis by (simp add: refined_def)
qed

text \<open>Changes that leave relations and what has been visited alone.\<close>

definition updated :: "DimensionFolderPlan \<Rightarrow> DimensionFolderPlan \<Rightarrow> bool" where
  "updated pl pl' \<longleftrightarrow> refined pl pl' \<and> plan_ok pl' \<and> forward_visited pl' = forward_visited pl \<and>
     backward_visited pl' = backward_visited pl \<and> reduce_axis pl' = reduce_axis pl \<and> transpose_perm pl' = transpose_perm pl \<and>
     (\<forall>t < tensor_count pl. succ_at pl' t = succ_at pl t)"

lemma updated_refl [simp]: "plan_ok pl \<Longrightarrow> updated pl pl"
  by (simp add: updated_def)

lemma updated_trans: "updated a b \<Longrightarrow> updated b c \<Longrightarrow> plan_ok a \<Longrightarrow> updated a c"
  using refined_trans [of a b c] refinedD(1) [of a b] by (auto simp: updated_def)

section \<open>UpdateFoldDim\<close>

lemma UpdateFoldDim_Err: "UpdateFoldDim t a b pl = Err e \<Longrightarrow> e = Out_of_bounds"
  by (auto simp: UpdateFoldDim_def Let_def res_bind_Err_conv split: prod.splits)

lemma UpdateFoldDim_Ok:
  assumes "UpdateFoldDim t a b pl = Ok pl'" "plan_ok pl" "t < tensor_count pl"
  shows "updated pl pl'" "0 \<le> a" "a \<le> b" "b < int (length (dims_at pl t))"
    and "starts (dims_at pl' t) = starts (dims_at pl t) \<union> ({nat a, nat b + 1} \<inter> {..<length (dims_at pl t)})"
    and "\<And>u. u < tensor_count pl \<Longrightarrow> u \<noteq> t \<Longrightarrow> fold_tensor pl' u = fold_tensor pl u"
    and "folded_dims pl' - folded_dims pl = int (card (starts (dims_at pl' t))) - int (card (starts (dims_at pl t)))"
proof -
  let ?x = "fold_tensor pl t"
  obtain fd n where ab: "0 \<le> a" "a \<le> b" "b < int (length (fold_dims ?x))"
    and split: "split_fold (nat a) (nat b) (fold_dims ?x) = (fd, n)"
    and pl': "pl' = set_tensor t (?x\<lparr>fold_dims := fd, fold_update := fold_update ?x + (if n > 0 then 1 else 0)\<rparr>)
      (pl\<lparr>folded_dims := folded_dims pl + int n\<rparr>)"
    using assms(1) by (auto simp: UpdateFoldDim_def Let_def res_bind_Ok_conv split: prod.splits)
  have "nat a \<le> nat b" "nat b < length (fold_dims ?x)" using ab by auto
  note new = split_fold_starts [OF plan_okD(1) [OF assms(2,3)] this split]
  have same: "n = 0 \<Longrightarrow> fd = fold_dims ?x"
  proof -
    assume "n = 0"
    then have "starts fd = starts (fold_dims ?x)" using new(3,4) card_subset_eq [of "starts fd" "starts (fold_dims ?x)"] by auto
    with new(1,2) plan_okD(1) [OF assms(2,3)] show "fd = fold_dims ?x" by (intro starts_eq) auto
  qed
  have tensor: "fold_tensor pl' u = (if u = t then ?x\<lparr>fold_dims := fd, fold_update := fold_update ?x + (if n > 0 then 1 else 0)\<rparr> else fold_tensor pl u)"
    if "u < tensor_count pl" for u using that by (simp add: pl' fold_tensor_set)
  show "0 \<le> a" "a \<le> b" "b < int (length (fold_dims ?x))" by (rule ab)+
  show "starts (dims_at pl' t) = starts (dims_at pl t) \<union> ({nat a, nat b + 1} \<inter> {..<length (dims_at pl t)})"
    using tensor [OF assms(3)] new(3) by simp
  show "u < tensor_count pl \<Longrightarrow> u \<noteq> t \<Longrightarrow> fold_tensor pl' u = fold_tensor pl u" for u by (simp add: tensor)
  show "folded_dims pl' - folded_dims pl = int (card (starts (dims_at pl' t))) - int (card (starts (dims_at pl t)))"
    using tensor [OF assms(3)] new(4) by (simp add: pl')
  have "same_frame pl pl'"
    unfolding same_frame_def using tensor new(2) by (simp add: pl')
  moreover have "\<forall>u < tensor_count pl. starts (dims_at pl u) \<subseteq> starts (dims_at pl' u) \<and> update_at pl u \<le> update_at pl' u \<and>
        (update_at pl' u = update_at pl u \<longrightarrow> dims_at pl' u = dims_at pl u)"
    using tensor new(3) same by auto
  moreover have "same_tensor pl pl' u" if "folded_dims pl' = folded_dims pl" "u < tensor_count pl" for u
    using that tensor by (auto simp: pl' same_tensor_def relation_at_def)
  moreover have "block_count pl' - block_count pl = int n"
  proof -
    define d where "d = (\<lambda>u. int (card (starts (dims_at pl' u))) - int (card (starts (dims_at pl u))))"
    have "d u = (if u = t then int n else 0)" if "u < tensor_count pl" for u
      using tensor [OF that] new(4) by (simp add: d_def)
    then have "(\<Sum>u < tensor_count pl. d u) = (\<Sum>u < tensor_count pl. if u = t then int n else 0)" by simp
    also have "\<dots> = int n" using assms(3) by simp
    finally show ?thesis by (simp add: block_count_def d_def sum_subtractf pl')
  qed
  ultimately have "refined pl pl'" by (simp add: refined_def pl')
  moreover have "plan_ok pl'"
    using assms(2) tensor new(1,2) by (simp add: plan_ok_def pl')
  ultimately show "updated pl pl'" using tensor by (simp add: updated_def pl')
qed

section \<open>DoPropagate\<close>

text \<open>Dimensions in one block of \<open>g\<close> are mapped into one block of \<open>f\<close>.\<close>

definition maps_blocks :: "nat list \<Rightarrow> nat list \<Rightarrow> int list \<Rightarrow> bool" where
  "maps_blocks f g bm \<longleftrightarrow>
     (\<forall>i j. i < j \<and> j < length g \<and> g ! i = g ! j \<and> 0 \<le> bm ! i \<and> 0 \<le> bm ! j \<longrightarrow> f ! nat (bm ! i) = f ! nat (bm ! j))"

definition inj_map :: "int list \<Rightarrow> bool" where
  "inj_map m \<longleftrightarrow> (\<forall>i j. i < j \<and> j < length m \<and> m ! i = m ! j \<longrightarrow> m ! i < 0)"

lemma maps_blocks_finer:
  assumes "maps_blocks f g bm" "blocks g" "blocks h" "length h = length g" "starts g \<subseteq> starts h"
  shows "maps_blocks f h bm"
  unfolding maps_blocks_def
proof (intro allI impI)
  fix i j assume *: "i < j \<and> j < length h \<and> h ! i = h ! j \<and> 0 \<le> bm ! i \<and> 0 \<le> bm ! j"
  with same_block_finer [OF assms(2-5), of i j] assms(4) have "g ! i = g ! j" by simp
  with * assms(1,4) show "f ! nat (bm ! i) = f ! nat (bm ! j)" unfolding maps_blocks_def by metis
qed

lemma same_run_Ok:
  "same_run bm x i k = Ok n \<Longrightarrow> i \<le> n \<and> n \<le> i + k \<and> (\<forall>j. i \<le> j \<and> j < n \<longrightarrow> j < length bm \<and> bm ! j = x)"
proof (induction k arbitrary: i)
  case (Suc k)
  then obtain "i < length bm" by (auto simp: res_bind_Ok_conv vec_at_Ok_conv)
  show ?case
  proof (cases "bm ! i = x")
    case True
    with Suc.prems \<open>i < length bm\<close> have run: "same_run bm x (i + 1) k = Ok n" by simp
    note IH = Suc.IH [OF run]
    have "j < length bm \<and> bm ! j = x" if "i \<le> j \<and> j < n" for j
      using IH that True \<open>i < length bm\<close> by (cases "j = i") simp_all
    with IH show ?thesis by auto
  next
    case False
    with Suc.prems \<open>i < length bm\<close> show ?thesis by simp
  qed
qed simp

lemma same_run_Err: "same_run bm x i k = Err e \<Longrightarrow> e = Out_of_bounds"
  by (induction bm x i k rule: same_run.induct) (auto simp: res_bind_Err_conv vec_at_def split: if_splits)

lemma from_block_Ok: "from_block fd x = Ok y \<Longrightarrow> 0 \<le> x \<Longrightarrow> nat x < length fd \<and> y = int (fd ! nat x)"
  by (auto simp: from_block_def res_bind_Ok_conv vec_at_Ok_conv)

text \<open>The loop: the mapped dimensions before \<open>to_idx\<close> are separated, and those in the block of \<open>cur_dim\<close>
  are mapped into one block.\<close>

definition separated :: "nat list \<Rightarrow> nat list \<Rightarrow> int list \<Rightarrow> nat \<Rightarrow> bool" where
  "separated f g bm p \<longleftrightarrow> (\<forall>i j. i < j \<and> j < p \<and> g ! i = g ! j \<and> 0 \<le> bm ! i \<and> 0 \<le> bm ! j \<longrightarrow> f ! nat (bm ! i) = f ! nat (bm ! j))"

definition current :: "nat list \<Rightarrow> nat list \<Rightarrow> int list \<Rightarrow> nat \<Rightarrow> (nat \<times> int) option \<Rightarrow> bool" where
  "current f g bm p cur \<longleftrightarrow>
     (case cur of
        None \<Rightarrow> \<forall>i < p. bm ! i < 0
      | Some (c, y) \<Rightarrow> c < p \<and>
          (\<forall>i < p. 0 \<le> bm ! i \<longrightarrow> (g ! i = g ! c \<longrightarrow> y = int (f ! nat (bm ! i))) \<and> (c \<le> i \<longrightarrow> g ! i = g ! c)))"

lemma separated_Suc:
  assumes "separated f g bm p" "0 \<le> bm ! p \<Longrightarrow> \<forall>i < p. 0 \<le> bm ! i \<longrightarrow> g ! i = g ! p \<longrightarrow> f ! nat (bm ! i) = f ! nat (bm ! p)"
  shows "separated f g bm (Suc p)"
  unfolding separated_def
proof (intro allI impI)
  fix i j assume ij: "i < j \<and> j < Suc p \<and> g ! i = g ! j \<and> 0 \<le> bm ! i \<and> 0 \<le> bm ! j"
  show "f ! nat (bm ! i) = f ! nat (bm ! j)"
  proof (cases "j = p")
    case False
    with ij have "j < p" by simp
    with assms(1) ij show ?thesis unfolding separated_def by blast
  qed (use assms(2) ij in auto)
qed

lemma separated_skip: "separated f g bm p \<Longrightarrow> \<forall>i. p \<le> i \<and> i < q \<longrightarrow> bm ! i < 0 \<Longrightarrow> separated f g bm q"
  unfolding separated_def by (metis leD leI order_less_trans)

lemma separated_finer:
  assumes "separated f g bm p" "blocks g" "blocks h" "length h = length g" "starts g \<subseteq> starts h" "p \<le> length g"
  shows "separated f h bm p"
  unfolding separated_def
proof (intro allI impI)
  fix i j assume *: "i < j \<and> j < p \<and> h ! i = h ! j \<and> 0 \<le> bm ! i \<and> 0 \<le> bm ! j"
  with same_block_finer [OF assms(2-5), of i j] assms(6) have "g ! i = g ! j" by simp
  with * assms(1) show "f ! nat (bm ! i) = f ! nat (bm ! j)" unfolding separated_def by blast
qed

lemma current_skip:
  assumes "current f g bm p cur" "p \<le> q" "\<forall>i. p \<le> i \<and> i < q \<longrightarrow> bm ! i < 0"
  shows "current f g bm q cur"
proof -
  have "i < p" if "i < q" "0 \<le> bm ! i" for i using assms(3) that by (meson leI not_less)
  moreover have "bm ! i < 0" if "i < q" "\<forall>i < p. bm ! i < 0" for i using assms(3) that by (meson leI)
  ultimately show ?thesis using assms(1,2) by (auto simp: current_def split: option.splits)
qed

text \<open>A dimension begins a block of its own, or is compared with the current one.\<close>

lemma current_new:
  assumes "blocks g" "p < length g" "0 \<le> bm ! p \<Longrightarrow> y = int (f ! nat (bm ! p))" "\<forall>i < p. 0 \<le> bm ! i \<longrightarrow> g ! i \<noteq> g ! p"
  shows "current f g bm (Suc p) (Some (p, y))"
  using assms(3,4) by (auto simp: current_def less_Suc_eq)

lemma current_apart:
  assumes "blocks g" "p < length g" "current f g bm p (Some (c, y))" "g ! p \<noteq> g ! c" "i < p" "0 \<le> bm ! i"
  shows "g ! i \<noteq> g ! p"
proof (cases "c \<le> i")
  case True
  with assms(3-6) show ?thesis by (simp add: current_def)
next
  case False
  then have "g ! i \<le> g ! c" "g ! c \<le> g ! p"
    using blocks_mono [OF assms(1), of c i] blocks_mono [OF assms(1,2), of c] assms(2,3) by (auto simp: current_def)
  with assms(4) show ?thesis by auto
qed

definition separates :: "nat list \<Rightarrow> int list \<Rightarrow> nat \<Rightarrow> nat \<Rightarrow> (nat \<times> int) option \<Rightarrow> DimensionFolderPlan \<Rightarrow> bool" where
  "separates f bm to p cur pl \<longleftrightarrow> p \<le> length (dims_at pl to) \<and> separated f (dims_at pl to) bm p \<and> current f (dims_at pl to) bm p cur"

text \<open>One round of the loop, for a dimension that is not skipped.\<close>

lemma separates_step:
  assumes "plan_ok pl" "to < tensor_count pl" "inj_map bm" "separates f bm to p cur pl" "p < length (dims_at pl to)"
    and y: "0 \<le> bm ! p \<Longrightarrow> y = int (f ! nat (bm ! p))"
  shows "cur = None \<or> dims_at pl to ! p \<noteq> dims_at pl to ! fst (the cur) \<Longrightarrow> separates f bm to (Suc p) (Some (p, y)) pl"
    and "cur = Some (c, y) \<Longrightarrow> dims_at pl to ! p = dims_at pl to ! c \<Longrightarrow> separates f bm to (Suc p) cur pl"
    and "cur = Some (c, z) \<Longrightarrow> updated pl pl' \<Longrightarrow> p \<in> starts (dims_at pl' to) \<Longrightarrow> separates f bm to (Suc p) (Some (p, y)) pl'"
proof -
  define g where "g = dims_at pl to"
  have g: "blocks g" "p < length g" "separated f g bm p" "current f g bm p cur"
    using assms plan_okD(1) [OF assms(1,2)] by (simp_all add: g_def separates_def)
  {
    assume new: "cur = None \<or> dims_at pl to ! p \<noteq> dims_at pl to ! fst (the cur)"
    have apart: "g ! i \<noteq> g ! p" if "i < p" "0 \<le> bm ! i" for i
    proof (cases cur)
      case None
      with g(4) that show ?thesis by (auto simp: current_def)
    next
      case (Some a)
      with new current_apart [OF g(1,2), of f bm "fst a" "snd a" i] g(4) that show ?thesis by (simp add: g_def)
    qed
    then have "separated f g bm (Suc p)" by (intro separated_Suc g(3)) auto
    moreover have "current f g bm (Suc p) (Some (p, y))" using apart y by (intro current_new g) auto
    ultimately show "separates f bm to (Suc p) (Some (p, y)) pl" using g(2) by (simp add: separates_def g_def)
  next
    assume cur: "cur = Some (c, y)" "dims_at pl to ! p = dims_at pl to ! c"
    then have "\<forall>i < p. 0 \<le> bm ! i \<longrightarrow> g ! i = g ! p \<longrightarrow> y = int (f ! nat (bm ! i))" using g(4) by (auto simp: current_def g_def)
    then have "separated f g bm (Suc p)" using y by (intro separated_Suc g(3)) (metis of_nat_eq_iff)
    moreover have "current f g bm (Suc p) cur" using g(4) cur y by (auto simp: current_def g_def less_Suc_eq)
    ultimately show "separates f bm to (Suc p) cur pl" using g(2) by (simp add: separates_def g_def)
  next
    assume "cur = Some (c, z)" and upd: "updated pl pl'" and start: "p \<in> starts (dims_at pl' to)"
    define h where "h = dims_at pl' to"
    have ref: "refined pl pl'" "plan_ok pl'" using upd by (simp_all add: updated_def)
    have h: "blocks h" "length h = length g" "starts g \<subseteq> starts h" "h ! p = p"
      using refinedD(1,9,11) [OF ref(1)] plan_okD(1) [OF ref(2)] assms(2) start by (simp_all add: h_def g_def starts_def)
    have apart: "h ! i \<noteq> h ! p" if "i < p" for i
      using blocks_le [OF h(1), of i] that h(2,4) g(2) by auto
    have "separated f h bm p" using separated_finer [OF g(3,1) h(1-3)] g(2) by simp
    then have "separated f h bm (Suc p)" using apart by (intro separated_Suc) auto
    moreover have "current f h bm (Suc p) (Some (p, y))" using apart y h(2) g(2) by (intro current_new h(1)) auto
    ultimately show "separates f bm to (Suc p) (Some (p, y)) pl'" using g(2) h(2) by (simp add: separates_def h_def [symmetric])
  }
qed

declare propagate_dims.simps(2) [simp del]

lemma propagate_dims_ok:
  "propagate_dims from to bm k p cur pl = Ok pl' \<Longrightarrow> plan_ok pl \<Longrightarrow> to < tensor_count pl \<Longrightarrow>
     length (dims_at pl to) \<le> p + k \<Longrightarrow> p \<le> length (dims_at pl to) \<Longrightarrow> (case cur of None \<Rightarrow> True | Some (c, y) \<Rightarrow> c < p) \<Longrightarrow>
     updated pl pl' \<and> (\<forall>u < tensor_count pl. u \<noteq> to \<longrightarrow> fold_tensor pl' u = fold_tensor pl u) \<and>
     (from < tensor_count pl \<and> from \<noteq> to \<and> inj_map bm \<and> separates (dims_at pl from) bm to p cur pl \<longrightarrow>
        maps_blocks (dims_at pl from) (dims_at pl' to) bm)"
proof (induction k arbitrary: p cur pl)
  case 0
  then show ?case by (auto simp: separates_def separated_def maps_blocks_def Let_def)
next
  case (Suc k)
  define g where "g = dims_at pl to"
  show ?case
  proof (cases "p < length g")
    case False
    then have "p = length g" using Suc.prems(5) by (simp add: g_def)
    with Suc.prems(1,2) False show ?thesis
      by (auto simp: g_def separates_def separated_def maps_blocks_def propagate_dims.simps(2) Let_def)
  next
    case True
    with Suc.prems(1) obtain y q where bm: "p < length bm" and y: "from_block (dims_at pl from) (bm ! p) = Ok y"
      and q: "same_run bm (bm ! p) (p + 1) (length g - (p + 1)) = Ok q"
      by (auto simp: propagate_dims.simps(2) Let_def g_def res_bind_Ok_conv vec_at_Ok_conv)
    note run = same_run_Ok [OF q]
    have q': "p + 1 \<le> q" "q \<le> length (dims_at pl to)" using run True unfolding g_def by linarith+
    have y': "0 \<le> bm ! p \<Longrightarrow> y = int (dims_at pl from ! nat (bm ! p))" using from_block_Ok [OF y] by simp
    define rest where "rest = propagate_dims from to bm k q"
    have eq: "propagate_dims from to bm (Suc k) p cur pl =
        (if q = p + 1 then
           (case cur of None \<Rightarrow> rest (Some (p, y)) pl
            | Some (c, z) \<Rightarrow>
                if g ! p \<noteq> g ! c then rest (Some (p, y)) pl
                else if y \<noteq> z then res_bind (UpdateFoldDim to (int c) (int p - 1) pl) (rest (Some (p, y)))
                else rest cur pl)
         else rest cur pl)"
      using True bm y q by (simp add: rest_def propagate_dims.simps(2) g_def [symmetric] Let_def cong: if_cong option.case_cong)
    have len: "length (dims_at pl to) \<le> q + k" using Suc.prems(4) q'(1) by simp
    have step: ?thesis if cur': "rest cur' pl = Ok pl'" "case cur' of None \<Rightarrow> True | Some (c, y) \<Rightarrow> c < q"
        "inj_map bm \<Longrightarrow> separates (dims_at pl from) bm to p cur pl \<Longrightarrow> separates (dims_at pl from) bm to q cur' pl" for cur'
      using Suc.IH [OF cur'(1) [unfolded rest_def] Suc.prems(2,3) len q'(2) cur'(2)] cur'(3) by blast
    have cur_q: "case cur of None \<Rightarrow> True | Some (c, y) \<Rightarrow> c < q" using Suc.prems(6) q'(1) by (auto split: option.splits)
    show ?thesis
    proof (cases "q = p + 1")
      case False
      then have "rest cur pl = Ok pl'" using Suc.prems(1) by (simp add: eq)
      moreover have "separates (dims_at pl from) bm to q cur pl"
        if inj: "inj_map bm" and sep: "separates (dims_at pl from) bm to p cur pl"
      proof -
        have same: "p + 1 < length bm" "bm ! (p + 1) = bm ! p" using run False q'(1) by (simp_all add: le_less)
        then have "bm ! p < 0" using inj unfolding inj_map_def by (metis less_add_one)
        then have "\<forall>i. p \<le> i \<and> i < q \<longrightarrow> bm ! i < 0" using run by (metis Suc_eq_plus1 Suc_leI le_neq_implies_less)
        with sep q' show ?thesis by (auto simp: separates_def Let_def intro: separated_skip current_skip)
      qed
      ultimately show ?thesis by (rule step [OF _ cur_q])
    next
      case nx: True
      show ?thesis
      proof (cases "case cur of None \<Rightarrow> False | Some (c, z) \<Rightarrow> g ! p = g ! c \<and> y \<noteq> z")
        case False
        show ?thesis
        proof (cases "cur = None \<or> g ! p \<noteq> g ! fst (the cur)")
          case new: True
          then have "rest (Some (p, y)) pl = Ok pl'" using Suc.prems(1) nx by (auto simp: eq split: option.splits)
          moreover have "separates (dims_at pl from) bm to q (Some (p, y)) pl"
            if "inj_map bm" "separates (dims_at pl from) bm to p cur pl"
            using separates_step(1) [OF Suc.prems(2,3) that True [unfolded g_def] y'] new nx by (simp add: g_def)
          ultimately show ?thesis by (intro step [of "Some (p, y)"]) (simp_all add: nx)
        next
          case same: False
          then obtain c where c: "cur = Some (c, y)" "g ! p = g ! c" using False by auto
          then have "rest cur pl = Ok pl'" using Suc.prems(1) [unfolded eq] nx by simp
          moreover have "separates (dims_at pl from) bm to q cur pl"
            if "inj_map bm" "separates (dims_at pl from) bm to p cur pl"
            using separates_step(2) [OF Suc.prems(2,3) that True [unfolded g_def] y'] c nx by (simp add: g_def)
          ultimately show ?thesis by (rule step [OF _ cur_q])
        qed
      next
        case upd: True
        then obtain c z where c: "cur = Some (c, z)" "g ! p = g ! c" "y \<noteq> z" by (auto split: option.splits)
        then obtain pl1 where pl1: "UpdateFoldDim to (int c) (int p - 1) pl = Ok pl1" and rest: "rest (Some (p, y)) pl1 = Ok pl'"
          using Suc.prems(1) [unfolded eq] nx by (auto simp: res_bind_Ok_conv)
        note U = UpdateFoldDim_Ok [OF pl1 Suc.prems(2,3)]
        have ref: "refined pl pl1" "plan_ok pl1" using U(1) by (simp_all add: updated_def)
        have pl1': "tensor_count pl1 = tensor_count pl" "length (dims_at pl1 to) = length (dims_at pl to)"
          using refinedD(1,9) [OF ref(1)] Suc.prems(3) by simp_all
        have start: "p \<in> starts (dims_at pl1 to)" using U(5) True c(1) Suc.prems(6) by (simp add: g_def nat_diff_distrib')
        have "to < tensor_count pl1" "length (dims_at pl1 to) \<le> q + k" "q \<le> length (dims_at pl1 to)"
          using pl1' Suc.prems(3) len q'(2) by simp_all
        from Suc.IH [OF rest [unfolded rest_def] ref(2) this, simplified] nx
        have IH: "updated pl1 pl'" "\<forall>u < tensor_count pl. u \<noteq> to \<longrightarrow> fold_tensor pl' u = fold_tensor pl1 u"
          "from < tensor_count pl \<and> from \<noteq> to \<and> inj_map bm \<and> separates (dims_at pl1 from) bm to q (Some (p, y)) pl1 \<longrightarrow>
             maps_blocks (dims_at pl1 from) (dims_at pl' to) bm"
          by (simp_all add: pl1')
        have "updated pl pl'" using updated_trans [OF U(1) IH(1) Suc.prems(2)] .
        moreover have "maps_blocks (dims_at pl from) (dims_at pl' to) bm"
          if "from < tensor_count pl" "from \<noteq> to" "inj_map bm" "separates (dims_at pl from) bm to p cur pl"
        proof -
          have "dims_at pl1 from = dims_at pl from" using U(6) [OF that(1,2)] by simp
          with separates_step(3) [OF Suc.prems(2,3) that(3,4) True [unfolded g_def] y' c(1) U(1) start] IH(3) that nx
          show ?thesis by simp
        qed
        ultimately show ?thesis using IH(2) U(6) by simp
      qed
    qed
  qed
qed

lemma propagate_dims_Err: "propagate_dims from to bm k p cur pl = Err e \<Longrightarrow> e = Out_of_bounds"
proof (induction k arbitrary: p cur pl)
  case (Suc k)
  have bl: "from_block fd x = Err e \<Longrightarrow> e = Out_of_bounds" for fd x
    by (auto simp: from_block_def res_bind_Err_conv vec_at_def split: if_splits)
  show ?case
  proof (cases cur)
    case None
    with Suc.prems show ?thesis
      by (auto simp: propagate_dims.simps(2) Let_def res_bind_Err_conv vec_at_def
          dest: Suc.IH same_run_Err UpdateFoldDim_Err bl split: if_split_asm)
  next
    case (Some c)
    with Suc.prems show ?thesis
      by (cases c) (auto simp: propagate_dims.simps(2) Let_def res_bind_Err_conv vec_at_def
          dest: Suc.IH same_run_Err UpdateFoldDim_Err bl split: if_split_asm)
  qed
qed simp

lemma DoPropagate_Err: "DoPropagate from to bm pl = Err e \<Longrightarrow> e = Out_of_bounds"
  unfolding DoPropagate_def by (rule propagate_dims_Err)

lemma DoPropagate_Ok:
  assumes "DoPropagate from to bm pl = Ok pl'" "plan_ok pl" "to < tensor_count pl"
  shows "updated pl pl'" "\<And>u. u < tensor_count pl \<Longrightarrow> u \<noteq> to \<Longrightarrow> fold_tensor pl' u = fold_tensor pl u"
    and "from < tensor_count pl \<Longrightarrow> from \<noteq> to \<Longrightarrow> inj_map bm \<Longrightarrow> maps_blocks (dims_at pl from) (dims_at pl' to) bm"
proof -
  have "separates (dims_at pl from) bm to 0 None pl" by (simp add: separates_def separated_def current_def)
  with propagate_dims_ok [OF assms(1) [unfolded DoPropagate_def] assms(2,3)]
  show "updated pl pl'" "\<And>u. u < tensor_count pl \<Longrightarrow> u \<noteq> to \<Longrightarrow> fold_tensor pl' u = fold_tensor pl u"
    "from < tensor_count pl \<Longrightarrow> from \<noteq> to \<Longrightarrow> inj_map bm \<Longrightarrow> maps_blocks (dims_at pl from) (dims_at pl' to) bm" by simp_all
qed

end
