(* ===== verification/Composite_Fold_Plan.thy ===== *)
theory Composite_Fold_Plan
  imports Composite_Fold_Propagate
begin

text \<open>
  The propagation ends and leaves a plan in which the blocks of related tensors agree. A call of
  \<open>Propagation\<close> is for a tensor that none of the calls around it is for, so that the number of
  tensors bounds their depth; every round of \<open>Plan\<close> but the last separates dimensions, so that
  the number of dimensions bounds the rounds. What the last round has left unchanged is settled.
\<close>

section \<open>Commits\<close>

definition commit_ok :: "DimensionFolderPlan \<Rightarrow> nat \<Rightarrow> Relation \<Rightarrow> bool" where
  "commit_ok pl t r \<longleftrightarrow>
     forward_commit r \<le> update_at pl t \<and> backward_commit r \<le> update_at pl (rel_to r) \<and>
     (inj_map (backward_mapping r) \<and> forward_commit r = update_at pl t \<longrightarrow>
        maps_blocks (dims_at pl t) (dims_at pl (rel_to r)) (backward_mapping r)) \<and>
     (inj_map (forward_mapping r) \<and> backward_commit r = update_at pl (rel_to r) \<longrightarrow>
        maps_blocks (dims_at pl (rel_to r)) (dims_at pl t) (forward_mapping r))"

definition commits_ok :: "DimensionFolderPlan \<Rightarrow> bool" where
  "commits_ok pl \<longleftrightarrow> (\<forall>t < tensor_count pl. \<forall>k < length (succ_at pl t). commit_ok pl t (relation_at pl t k))"

lemma maps_blocks_refined:
  assumes "maps_blocks (dims_at pl a) (dims_at pl b) m" "refined pl pl'" "plan_ok pl" "plan_ok pl'"
    "a < tensor_count pl" "b < tensor_count pl" "update_at pl' a = update_at pl a"
  shows "maps_blocks (dims_at pl' a) (dims_at pl' b) m"
proof -
  have "dims_at pl' a = dims_at pl a" using refinedD(13) [OF assms(2,5,7)] .
  then show ?thesis
    using maps_blocks_finer [OF assms(1), of "dims_at pl' b"] plan_okD(1) [OF assms(3,6)] plan_okD(1) [OF assms(4), of b]
      refinedD(1,9,11) [OF assms(2)] assms(6) by simp
qed

lemma commit_ok_refined:
  assumes "commit_ok pl t r" "refined pl pl'" "plan_ok pl" "plan_ok pl'" "t < tensor_count pl" "rel_to r < tensor_count pl"
  shows "commit_ok pl' t r"
proof -
  have grow: "update_at pl t \<le> update_at pl' t" "update_at pl (rel_to r) \<le> update_at pl' (rel_to r)"
    using refinedD(12) [OF assms(2,5)] refinedD(12) [OF assms(2,6)] .
  show ?thesis
    unfolding commit_ok_def
  proof (intro conjI impI)
    show "forward_commit r \<le> update_at pl' t" "backward_commit r \<le> update_at pl' (rel_to r)"
      using assms(1) grow by (simp_all add: commit_ok_def)
    assume inj: "inj_map (backward_mapping r) \<and> forward_commit r = update_at pl' t"
    then have same: "forward_commit r = update_at pl t" "update_at pl' t = update_at pl t"
      using assms(1) grow(1) by (simp_all add: commit_ok_def)
    show "maps_blocks (dims_at pl' t) (dims_at pl' (rel_to r)) (backward_mapping r)"
      by (rule maps_blocks_refined [OF _ assms(2-6)]) (use assms(1) inj same in \<open>simp_all add: commit_ok_def\<close>)
  next
    assume inj: "inj_map (forward_mapping r) \<and> backward_commit r = update_at pl' (rel_to r)"
    then have same: "backward_commit r = update_at pl (rel_to r)" "update_at pl' (rel_to r) = update_at pl (rel_to r)"
      using assms(1) grow(2) by (simp_all add: commit_ok_def)
    show "maps_blocks (dims_at pl' (rel_to r)) (dims_at pl' t) (forward_mapping r)"
      by (rule maps_blocks_refined [OF _ assms(2-4,6,5)]) (use assms(1) inj same in \<open>simp_all add: commit_ok_def\<close>)
  qed
qed

lemma commits_ok_updated:
  assumes "commits_ok pl" "updated pl pl'" "plan_ok pl"
  shows "commits_ok pl'"
  unfolding commits_ok_def
proof (intro allI impI)
  fix t k assume t': "t < tensor_count pl'" and k': "k < length (succ_at pl' t)"
  have ref: "refined pl pl'" "plan_ok pl'" using assms(2) by (simp_all add: updated_def)
  have t: "t < tensor_count pl" using t' refinedD(1) [OF ref(1)] by simp
  have succ: "succ_at pl' t = succ_at pl t" using assms(2) t by (simp add: updated_def)
  then have k: "k < length (succ_at pl t)" and r: "relation_at pl' t k = relation_at pl t k" using k' by (simp_all add: relation_at_def)
  have "commit_ok pl t (relation_at pl t k)" using assms(1) t k by (simp add: commits_ok_def)
  from commit_ok_refined [OF this ref(1) assms(3) ref(2) t plan_okD(3) [OF assms(3) t k]]
  show "commit_ok pl' t (relation_at pl' t k)" by (simp add: r)
qed

section \<open>One relation\<close>

lemma set_relation_simps [simp]:
  "tensor_count (set_relation t k f pl) = tensor_count pl"
  "forward_visited (set_relation t k f pl) = forward_visited pl"
  "backward_visited (set_relation t k f pl) = backward_visited pl"
  "folded_dims (set_relation t k f pl) = folded_dims pl"
  "total_dims (set_relation t k f pl) = total_dims pl"
  by (simp_all add: set_relation_def)

lemma set_relation_tensor:
  assumes "u < tensor_count pl"
  shows "dims_at (set_relation t k f pl) u = dims_at pl u" "update_at (set_relation t k f pl) u = update_at pl u"
    "fold_shape (fold_tensor (set_relation t k f pl) u) = fold_shape (fold_tensor pl u)"
    "length (succ_at (set_relation t k f pl) u) = length (succ_at pl u)"
    "j < length (succ_at pl u) \<Longrightarrow> relation_at (set_relation t k f pl) u j = (if u = t \<and> j = k then f (relation_at pl t k) else relation_at pl u j)"
  using assms by (auto simp: set_relation_def fold_tensor_set relation_at_def)

lemma relation_at_in: "k < length (succ_at pl t) \<Longrightarrow> succ_at pl t ! k = relation_at pl t k"
  by (simp add: relation_at_def)

lemma set_relation_ok:
  assumes "plan_ok pl" "t < tensor_count pl" "k < length (succ_at pl t)" "\<And>r. bare (f r) = bare r"
    and "forward_commit (f (relation_at pl t k)) \<in> {forward_commit (relation_at pl t k), update_at pl t}"
      "backward_commit (f (relation_at pl t k)) \<in> {backward_commit (relation_at pl t k), update_at pl (rel_to (relation_at pl t k))}"
  shows "plan_ok (set_relation t k f pl)" "refined pl (set_relation t k f pl)"
proof -
  note simps = set_relation_tensor [where pl = pl and t = t and k = k and f = f]
  have bare_at: "bare (relation_at (set_relation t k f pl) u j) = bare (relation_at pl u j)" if "u < tensor_count pl" "j < length (succ_at pl u)" for u j
    using simps(5) [OF that] assms(4) by simp
  have "rel_to (relation_at (set_relation t k f pl) u j) < tensor_count pl" if "u < tensor_count pl" "j < length (succ_at pl u)" for u j
    using bare_at [OF that] plan_okD(3) [OF assms(1) that] by (simp add: bare_simps)
  then show "plan_ok (set_relation t k f pl)"
    using plan_okD [OF assms(1)] simps by (simp add: plan_ok_def list_all_length relation_at_in)
  have "map bare (succ_at (set_relation t k f pl) u) = map bare (succ_at pl u)" if "u < tensor_count pl" for u
    by (rule nth_equalityI) (use bare_at [OF that] simps(4) [OF that] in \<open>simp_all add: relation_at_in\<close>)
  then have "same_frame pl (set_relation t k f pl)" using simps by (simp add: same_frame_def set_relation_def)
  moreover have "same_tensor pl (set_relation t k f pl) u" if "u < tensor_count pl" for u
    using that assms(5,6) simps by (auto simp: same_tensor_def)
  moreover have "block_count (set_relation t k f pl) = block_count pl" using simps by (simp add: block_count_def)
  ultimately show "refined pl (set_relation t k f pl)" using simps by (simp add: refined_def)
qed

lemma commits_ok_set:
  assumes "commits_ok pl" "plan_ok pl" "t < tensor_count pl" "k < length (succ_at pl t)" "\<And>r. bare (f r) = bare r"
    and "commit_ok pl t (f (relation_at pl t k))"
  shows "commits_ok (set_relation t k f pl)"
  unfolding commits_ok_def
proof (intro allI impI)
  fix s j assume "s < tensor_count (set_relation t k f pl)" "j < length (succ_at (set_relation t k f pl) s)"
  then have s: "s < tensor_count pl" and j: "j < length (succ_at pl s)" by (simp_all add: set_relation_tensor)
  define r where "r = relation_at (set_relation t k f pl) s j"
  have r: "r = (if s = t \<and> j = k then f (relation_at pl t k) else relation_at pl s j)"
    by (simp add: r_def set_relation_tensor s j)
  have "bare r = bare (relation_at pl s j)" using assms(5) by (simp add: r)
  then have to: "rel_to r < tensor_count pl" using plan_okD(3) [OF assms(2) s j] by (simp add: bare_simps)
  have "commit_ok pl s r" using assms(1,6) s j by (auto simp: r commits_ok_def)
  then show "commit_ok (set_relation t k f pl) s (relation_at (set_relation t k f pl) s j)"
    unfolding r_def [symmetric] by (simp add: commit_ok_def set_relation_tensor s to)
qed

lemma propagate_forward_Err: "propagate_forward t k pl = Err e \<Longrightarrow> e = Out_of_bounds"
  by (auto simp: propagate_forward_def Let_def res_bind_Err_conv dest: DoPropagate_Err split: if_splits)

lemma propagate_backward_Err: "propagate_backward t k pl = Err e \<Longrightarrow> e = Out_of_bounds"
  by (auto simp: propagate_backward_def Let_def res_bind_Err_conv dest: DoPropagate_Err split: if_splits)

lemma updatedD:
  "updated pl pl' \<Longrightarrow> refined pl pl'" "updated pl pl' \<Longrightarrow> plan_ok pl'"
  "updated pl pl' \<Longrightarrow> forward_visited pl' = forward_visited pl" "updated pl pl' \<Longrightarrow> backward_visited pl' = backward_visited pl"
  "updated pl pl' \<Longrightarrow> t < tensor_count pl \<Longrightarrow> succ_at pl' t = succ_at pl t"
  by (simp_all add: updated_def)

text \<open>What a step with the relation at \<open>k\<close> keeps.\<close>

definition steps_to :: "DimensionFolderPlan \<Rightarrow> DimensionFolderPlan \<Rightarrow> bool" where
  "steps_to pl pl' \<longleftrightarrow> refined pl pl' \<and> plan_ok pl' \<and> forward_visited pl' = forward_visited pl \<and> backward_visited pl' = backward_visited pl"

lemma propagate_forward_Ok:
  assumes "propagate_forward t k pl = Ok pl'" "plan_ok pl" "t < tensor_count pl" "k < length (succ_at pl t)"
  shows "steps_to pl pl'"
    and "commits_ok pl \<Longrightarrow> rel_to (relation_at pl t k) \<noteq> t \<Longrightarrow> commits_ok pl' \<and> forward_commit (relation_at pl' t k) = update_at pl' t"
proof -
  define r where "r = relation_at pl t k"
  have to: "rel_to r < tensor_count pl" using plan_okD(3) [OF assms(2-4)] by (simp add: r_def)
  have "steps_to pl pl' \<and> (commits_ok pl \<longrightarrow> rel_to r \<noteq> t \<longrightarrow> commits_ok pl' \<and> forward_commit (relation_at pl' t k) = update_at pl' t)"
  proof (cases "update_at pl t > forward_commit r")
    case True
    define f where "f pl r = r\<lparr>forward_commit := update_at pl t\<rparr>" for pl and r :: Relation
    obtain pl1 where run: "DoPropagate t (rel_to r) (backward_mapping r) pl = Ok pl1" and pl': "pl' = set_relation t k (f pl1) pl1"
      using assms(1) True by (auto simp: propagate_forward_def Let_def r_def f_def [abs_def] res_bind_Ok_conv)
    note D = DoPropagate_Ok [OF run assms(2) to]
    note up = updatedD [OF D(1)]
    have len: "t < tensor_count pl1" "k < length (succ_at pl1 t)" and rel: "relation_at pl1 t k = r"
      using refinedD(1) [OF up(1)] assms(3,4) up(5) by (simp_all add: relation_at_def r_def)
    have bare: "bare (f pl1 r') = bare r'" for r' by (simp add: f_def bare_simps)
    have "plan_ok pl'" "refined pl1 pl'" unfolding pl' by (rule set_relation_ok [OF up(2) len bare]; simp add: f_def)+
    with refined_trans [OF up(1) _ assms(2)] up(3,4) have "steps_to pl pl'" by (simp add: steps_to_def pl')
    moreover have "commits_ok pl' \<and> forward_commit (relation_at pl' t k) = update_at pl' t" if ok: "commits_ok pl" and ne: "rel_to r \<noteq> t"
    proof -
      have ok1: "commits_ok pl1" by (rule commits_ok_updated [OF ok D(1) assms(2)])
      then have old: "commit_ok pl1 t r" using len rel by (auto simp: commits_ok_def)
      have "dims_at pl1 t = dims_at pl t" using D(2) [OF assms(3)] ne by simp
      then have "inj_map (backward_mapping r) \<Longrightarrow> maps_blocks (dims_at pl1 t) (dims_at pl1 (rel_to r)) (backward_mapping r)"
        using D(3) [OF assms(3)] ne by simp
      with old have "commit_ok pl1 t (f pl1 r)" by (simp add: commit_ok_def f_def)
      with commits_ok_set [OF ok1 up(2) len bare] have "commits_ok pl'" by (simp add: pl' rel)
      then show ?thesis using len by (simp add: pl' set_relation_tensor f_def)
    qed
    ultimately show ?thesis by blast
  next
    case False
    then have "pl' = pl" using assms(1) by (simp add: propagate_forward_def Let_def r_def)
    moreover have "commits_ok pl \<Longrightarrow> forward_commit r \<le> update_at pl t"
      using assms(3,4) by (simp add: commits_ok_def commit_ok_def r_def)
    ultimately show ?thesis using False assms(2) by (auto simp: steps_to_def r_def)
  qed
  then show "steps_to pl pl'"
    "commits_ok pl \<Longrightarrow> rel_to (relation_at pl t k) \<noteq> t \<Longrightarrow> commits_ok pl' \<and> forward_commit (relation_at pl' t k) = update_at pl' t"
    by (simp_all add: r_def)
qed

lemma propagate_backward_Ok:
  assumes "propagate_backward t k pl = Ok pl'" "plan_ok pl" "t < tensor_count pl" "k < length (succ_at pl t)"
  shows "steps_to pl pl'"
    and "commits_ok pl \<Longrightarrow> rel_to (relation_at pl t k) \<noteq> t \<Longrightarrow>
      commits_ok pl' \<and> backward_commit (relation_at pl' t k) = update_at pl' (rel_to (relation_at pl t k))"
proof -
  define r where "r = relation_at pl t k"
  have to: "rel_to r < tensor_count pl" using plan_okD(3) [OF assms(2-4)] by (simp add: r_def)
  have "steps_to pl pl' \<and> (commits_ok pl \<longrightarrow> rel_to r \<noteq> t \<longrightarrow> commits_ok pl' \<and> backward_commit (relation_at pl' t k) = update_at pl' (rel_to r))"
  proof (cases "update_at pl (rel_to r) > backward_commit r")
    case True
    obtain pl1 where run: "DoPropagate (rel_to r) t (forward_mapping r) pl = Ok pl1"
      and pl'0: "pl' = set_relation t k (\<lambda>r. r\<lparr>backward_commit := update_at pl1 (rel_to r)\<rparr>) pl1"
      using assms(1) True by (auto simp: propagate_backward_def Let_def r_def res_bind_Ok_conv)
    note D = DoPropagate_Ok [OF run assms(2,3)]
    note up = updatedD [OF D(1)]
    have len: "t < tensor_count pl1" "k < length (succ_at pl1 t)" "rel_to r < tensor_count pl1" and rel: "relation_at pl1 t k = r"
      using refinedD(1) [OF up(1)] assms(3,4) up(5) to by (simp_all add: relation_at_def r_def)
    define g where "g r' = r'\<lparr>backward_commit := update_at pl1 (rel_to r')\<rparr>" for r' :: Relation
    have pl': "pl' = set_relation t k g pl1" by (simp add: pl'0 g_def [abs_def])
    have bare: "bare (g r') = bare r'" for r' by (simp add: g_def bare_simps)
    have "plan_ok pl'" "refined pl1 pl'" unfolding pl' by (rule set_relation_ok [OF up(2) len(1,2) bare]; simp add: g_def rel)+
    with refined_trans [OF up(1) _ assms(2)] up(3,4) have "steps_to pl pl'" by (simp add: steps_to_def pl')
    moreover have "commits_ok pl' \<and> backward_commit (relation_at pl' t k) = update_at pl' (rel_to r)" if ok: "commits_ok pl" and ne: "rel_to r \<noteq> t"
    proof -
      have ok1: "commits_ok pl1" by (rule commits_ok_updated [OF ok D(1) assms(2)])
      then have old: "commit_ok pl1 t r" using len rel by (auto simp: commits_ok_def)
      have "dims_at pl1 (rel_to r) = dims_at pl (rel_to r)" using D(2) [OF to] ne by simp
      then have "inj_map (forward_mapping r) \<Longrightarrow> maps_blocks (dims_at pl1 (rel_to r)) (dims_at pl1 t) (forward_mapping r)"
        using D(3) [OF to] ne by simp
      with old have "commit_ok pl1 t (g r)" by (simp add: commit_ok_def g_def)
      with commits_ok_set [OF ok1 up(2) len(1,2) bare] have "commits_ok pl'" by (simp add: pl' rel)
      then show ?thesis using len by (simp add: pl' set_relation_tensor g_def rel)
    qed
    ultimately show ?thesis by blast
  next
    case False
    then have "pl' = pl" using assms(1) by (simp add: propagate_backward_def Let_def r_def)
    moreover have "commits_ok pl \<Longrightarrow> backward_commit r \<le> update_at pl (rel_to r)"
      using assms(3,4) by (simp add: commits_ok_def commit_ok_def r_def)
    ultimately show ?thesis using False assms(2) by (auto simp: steps_to_def r_def)
  qed
  then show "steps_to pl pl'"
    "commits_ok pl \<Longrightarrow> rel_to (relation_at pl t k) \<noteq> t \<Longrightarrow>
      commits_ok pl' \<and> backward_commit (relation_at pl' t k) = update_at pl' (rel_to (relation_at pl t k))"
    by (simp_all add: r_def)
qed

section \<open>Propagation\<close>

text \<open>A relation whose commits are up to date, and tensors all of whose relations are, with all that they lead to.\<close>

definition settled :: "DimensionFolderPlan \<Rightarrow> nat \<Rightarrow> nat \<Rightarrow> bool" where
  "settled pl t k \<longleftrightarrow> (let r = relation_at pl t k in
     forward_commit r = update_at pl t \<and> backward_commit r = update_at pl (rel_to r))"

definition all_settled :: "DimensionFolderPlan \<Rightarrow> nat set \<Rightarrow> bool" where
  "all_settled pl V \<longleftrightarrow> (\<forall>t \<in> V. t < tensor_count pl \<and> (\<forall>k < length (succ_at pl t). settled pl t k \<and> rel_to (relation_at pl t k) \<in> V))"

definition ranked :: "(nat \<Rightarrow> nat) \<Rightarrow> DimensionFolderPlan \<Rightarrow> bool" where
  "ranked rk pl \<longleftrightarrow> (\<forall>t < tensor_count pl. \<forall>k < length (succ_at pl t). rk t < rk (rel_to (relation_at pl t k)))"

lemma ranked_refined: "refined pl pl' \<Longrightarrow> ranked rk pl \<Longrightarrow> ranked rk pl'"
  using refinedD(1) [of pl pl'] refined_relation [of pl pl'] by (auto simp: ranked_def bare_simps)

lemma settled_refined:
  assumes "refined pl pl'" "folded_dims pl' = folded_dims pl" "plan_ok pl" "t < tensor_count pl" "k < length (succ_at pl t)" "settled pl t k"
  shows "settled pl' t k"
proof -
  let ?u = "rel_to (relation_at pl t k)"
  have u: "?u < tensor_count pl" by (rule plan_okD(3) [OF assms(3-5)])
  have "same_tensor pl pl' t" "same_tensor pl pl' ?u"
    using refinedD(14) [OF assms(1) assms(4) assms(2)] refinedD(14) [OF assms(1) u assms(2)] .
  moreover have "rel_to (relation_at pl' t k) = ?u" using refined_relation(2) [OF assms(1,4,5)] by (simp add: bare_simps)
  ultimately show ?thesis using assms(5,6) by (auto simp: settled_def same_tensor_def Let_def)
qed

lemma all_settled_refined:
  assumes "refined pl pl'" "folded_dims pl' = folded_dims pl" "plan_ok pl" "all_settled pl V"
  shows "all_settled pl' V"
  unfolding all_settled_def
proof (intro ballI conjI allI impI)
  fix t assume "t \<in> V"
  then have t: "t < tensor_count pl" "\<And>k. k < length (succ_at pl t) \<Longrightarrow> settled pl t k \<and> rel_to (relation_at pl t k) \<in> V"
    using assms(4) by (auto simp: all_settled_def)
  then show "t < tensor_count pl'" using refinedD(1) [OF assms(1)] by simp
  fix k assume "k < length (succ_at pl' t)"
  then have k: "k < length (succ_at pl t)" using refined_relation(1) [OF assms(1) t(1)] by simp
  show "settled pl' t k" using settled_refined [OF assms(1-3) t(1) k] t(2) [OF k] by blast
  show "rel_to (relation_at pl' t k) \<in> V"
    using refined_relation(2) [OF assms(1) t(1) k] t(2) [OF k] by (simp add: bare_simps)
qed

text \<open>An outcome that is either a failure of the program or satisfies \<open>P\<close>.\<close>

definition ends_in :: "('a \<Rightarrow> bool) \<Rightarrow> 'a res \<Rightarrow> bool" where
  "ends_in P r \<longleftrightarrow> (case r of Ok x \<Rightarrow> P x | Err e \<Rightarrow> e \<noteq> Out_of_fuel)"

lemma ends_in_simps [simp]: "ends_in P (Ok x) = P x" "ends_in P (Err e) \<longleftrightarrow> e \<noteq> Out_of_fuel"
  by (simp_all add: ends_in_def)

lemma ends_in_bind:
  assumes "ends_in P r" "\<And>x. r = Ok x \<Longrightarrow> P x \<Longrightarrow> ends_in Q (f x)"
  shows "ends_in Q (res_bind r f)"
  using assms by (cases r) simp_all

lemma ends_in_for_each:
  assumes "P 0 s" "\<And>i s. i < n \<Longrightarrow> P i s \<Longrightarrow> ends_in (P (Suc i)) (f i s)"
  shows "ends_in (P n) (for_each f [0..<n] s)"
proof -
  have "i \<le> n \<Longrightarrow> P i s \<Longrightarrow> ends_in (P n) (for_each f [i..<n] s)" for i s
  proof (induction "n - i" arbitrary: i s)
    case (Suc m)
    then have "ends_in (P n) (res_bind (f i s) (for_each f [Suc i..<n]))"
      by (intro ends_in_bind [OF assms(2)]) simp_all
    with Suc.hyps(2) show ?case by (simp add: upt_conv_Cons)
  qed simp
  from this [of 0] assms(1) show ?thesis by simp
qed

text \<open>What a call of \<open>Propagation\<close> for \<open>t\<close> does. If it separates nothing, it settles \<open>t\<close> and all that \<open>t\<close>
  leads to; \<open>rk\<close> shows that it does not come back to a tensor on the way to it.\<close>

definition propagated :: "(nat \<Rightarrow> nat) \<Rightarrow> nat \<Rightarrow> DimensionFolderPlan \<Rightarrow> DimensionFolderPlan \<Rightarrow> bool" where
  "propagated rk t pl pl' \<longleftrightarrow>
     refined pl pl' \<and> plan_ok pl' \<and> forward_visited pl' = forward_visited pl \<and> backward_visited pl \<subseteq> backward_visited pl' \<and>
     (ranked rk pl \<and> commits_ok pl \<longrightarrow> commits_ok pl' \<and>
        (folded_dims pl' = folded_dims pl \<and> (\<forall>x \<in> forward_visited pl. rk x < rk t) \<and> all_settled pl (backward_visited pl) \<longrightarrow>
           all_settled pl' (insert t (backward_visited pl'))))"

text \<open>The loop over \<open>succ\<close>, before the relation at \<open>i\<close>.\<close>

definition in_loop :: "(nat \<Rightarrow> nat) \<Rightarrow> nat \<Rightarrow> DimensionFolderPlan \<Rightarrow> nat \<Rightarrow> DimensionFolderPlan \<Rightarrow> bool" where
  "in_loop rk t pl i s \<longleftrightarrow>
     refined pl s \<and> plan_ok s \<and> forward_visited s = insert t (forward_visited pl) \<and> backward_visited pl \<subseteq> backward_visited s \<and>
     (ranked rk pl \<and> commits_ok pl \<longrightarrow> commits_ok s \<and>
        (folded_dims s = folded_dims pl \<and> (\<forall>x \<in> forward_visited pl. rk x < rk t) \<and> all_settled pl (backward_visited pl) \<longrightarrow>
           all_settled s (backward_visited s) \<and> (\<forall>j < i. settled s t j \<and> rel_to (relation_at s t j) \<in> backward_visited s)))"

lemma refined_visited [simp]:
  "refined pl (pl'\<lparr>forward_visited := V\<rparr>) = refined pl pl'" "refined pl (pl'\<lparr>backward_visited := V\<rparr>) = refined pl pl'"
  "refined (pl\<lparr>forward_visited := V\<rparr>) pl' = refined pl pl'" "refined (pl\<lparr>backward_visited := V\<rparr>) pl' = refined pl pl'"
  by (simp_all add: refined_def same_frame_def same_tensor_def relation_at_def block_count_def)

lemma plan_ok_visited [simp]:
  "plan_ok (pl\<lparr>forward_visited := V\<rparr>) = plan_ok pl" "plan_ok (pl\<lparr>backward_visited := V\<rparr>) = plan_ok pl"
  by (simp_all add: plan_ok_def)

lemma commits_ok_visited [simp]:
  "commits_ok (pl\<lparr>forward_visited := V\<rparr>) = commits_ok pl" "commits_ok (pl\<lparr>backward_visited := V\<rparr>) = commits_ok pl"
  by (simp_all add: commits_ok_def commit_ok_def relation_at_def)

lemma ranked_visited [simp]:
  "ranked rk (pl\<lparr>forward_visited := V\<rparr>) = ranked rk pl" "ranked rk (pl\<lparr>backward_visited := V\<rparr>) = ranked rk pl"
  by (simp_all add: ranked_def relation_at_def)

lemma settled_visited [simp]:
  "settled (pl\<lparr>forward_visited := V\<rparr>) = settled pl" "settled (pl\<lparr>backward_visited := V\<rparr>) = settled pl"
  by (simp_all add: settled_def relation_at_def fun_eq_iff)

lemma relation_at_visited [simp]:
  "relation_at (pl\<lparr>forward_visited := V\<rparr>) = relation_at pl" "relation_at (pl\<lparr>backward_visited := V\<rparr>) = relation_at pl"
  by (simp_all add: relation_at_def fun_eq_iff)

lemma all_settled_visited [simp]:
  "all_settled (pl\<lparr>forward_visited := V\<rparr>) = all_settled pl" "all_settled (pl\<lparr>backward_visited := V\<rparr>) = all_settled pl"
  by (simp_all add: all_settled_def relation_at_def fun_eq_iff)

lemma steps_toD:
  "steps_to pl pl' \<Longrightarrow> refined pl pl'" "steps_to pl pl' \<Longrightarrow> plan_ok pl'"
  "steps_to pl pl' \<Longrightarrow> forward_visited pl' = forward_visited pl" "steps_to pl pl' \<Longrightarrow> backward_visited pl' = backward_visited pl"
  by (simp_all add: steps_to_def)

lemma refined_folded: "refined a b \<Longrightarrow> refined b c \<Longrightarrow> folded_dims c = folded_dims a \<Longrightarrow> folded_dims b = folded_dims a \<and> folded_dims c = folded_dims b"
  using refinedD(6) [of a b] refinedD(6) [of b c] by simp

text \<open>The relation at \<open>i\<close>: first forward, to \<open>s1\<close>, then from its other end, to \<open>s2\<close>, then backward, to \<open>s'\<close>.\<close>

definition forwarded :: "(nat \<Rightarrow> nat) \<Rightarrow> nat \<Rightarrow> nat \<Rightarrow> DimensionFolderPlan \<Rightarrow> DimensionFolderPlan \<Rightarrow> bool" where
  "forwarded rk t i s s2 \<longleftrightarrow>
     refined s s2 \<and> plan_ok s2 \<and> forward_visited s2 = forward_visited s \<and> backward_visited s \<subseteq> backward_visited s2 \<and>
     (ranked rk s \<and> commits_ok s \<longrightarrow> commits_ok s2 \<and>
        (folded_dims s2 = folded_dims s \<and> (\<forall>x \<in> forward_visited s. rk x \<le> rk t) \<and> all_settled s (backward_visited s) \<longrightarrow>
           all_settled s2 (backward_visited s2) \<and> forward_commit (relation_at s2 t i) = update_at s2 t \<and>
           rel_to (relation_at s t i) \<in> backward_visited s2))"

lemma PropagationForward_ends:
  assumes rec: "\<And>s1. plan_ok s1 \<Longrightarrow> tensor_count s1 = tensor_count s \<Longrightarrow> forward_visited s1 = forward_visited s \<Longrightarrow>
      rel_to (relation_at s t i) \<notin> forward_visited s \<Longrightarrow>
      ends_in (propagated rk (rel_to (relation_at s t i)) s1) (propagation (rel_to (relation_at s t i)) s1)"
    and s: "plan_ok s" "t < tensor_count s" "i < length (succ_at s t)" "t \<in> forward_visited s"
  shows "ends_in (forwarded rk t i s)
    (PropagationForward propagation t i s)"
proof -
  define u where "u = rel_to (relation_at s t i)"
  have ranks: "rk t < rk u" if "ranked rk s" using that s(2,3) by (simp add: ranked_def u_def)
  show ?thesis
  proof (cases "u \<in> forward_visited s")
    case True
    then have "PropagationForward propagation t i s = Ok s" by (simp add: PropagationForward_def u_def)
    moreover have "\<not> (ranked rk s \<and> (\<forall>x \<in> forward_visited s. rk x \<le> rk t))" using ranks True by (meson leD)
    ultimately show ?thesis using s(1) by (auto simp: forwarded_def)
  next
    case False
    have eq: "PropagationForward propagation t i s = res_bind (propagate_forward t i s) (\<lambda>pl.
        res_bind (propagation u pl) (\<lambda>pl. Ok (pl\<lparr>backward_visited := insert u (backward_visited pl)\<rparr>)))"
      using False by (simp add: PropagationForward_def u_def Let_def)
    show ?thesis
    proof (cases "propagate_forward t i s")
      case (Err e)
      then show ?thesis using propagate_forward_Err [OF Err] by (simp add: eq)
    next
      case (Ok s1)
      note fwd = propagate_forward_Ok [OF Ok s(1-3), folded u_def]
      note st = steps_toD [OF fwd(1)]
      have "ends_in (propagated rk u s1) (propagation u s1)"
        unfolding u_def by (rule rec) (use st refinedD(1) [OF st(1)] False in \<open>simp_all add: u_def\<close>)
      then show ?thesis
        unfolding eq Ok res_bind_simps
      proof (rule ends_in_bind)
        fix s2 assume s2: "propagated rk u s1 s2"
        then have ref: "refined s1 s2" "plan_ok s2" "forward_visited s2 = forward_visited s1" "backward_visited s1 \<subseteq> backward_visited s2"
          by (simp_all add: propagated_def)
        have ref2: "refined s s2" by (rule refined_trans [OF st(1) ref(1) s(1)])
        have "commits_ok s2 \<and>
         (folded_dims s2 = folded_dims s \<and> (\<forall>x \<in> forward_visited s. rk x \<le> rk t) \<and> all_settled s (backward_visited s) \<longrightarrow>
            all_settled s2 (insert u (backward_visited s2)) \<and> forward_commit (relation_at s2 t i) = update_at s2 t)"
          if rk: "ranked rk s" and ok: "commits_ok s"
        proof -
          have "u \<noteq> t" using ranks [OF rk] by auto
          then have ok1: "commits_ok s1" "forward_commit (relation_at s1 t i) = update_at s1 t" using fwd(2) ok by blast+
          have rk1: "ranked rk s1" by (rule ranked_refined [OF st(1) rk])
          have "all_settled s2 (insert u (backward_visited s2)) \<and> forward_commit (relation_at s2 t i) = update_at s2 t"
            if same: "folded_dims s2 = folded_dims s" and below: "\<forall>x \<in> forward_visited s. rk x \<le> rk t" and all: "all_settled s (backward_visited s)"
          proof -
            note same' = refined_folded [OF st(1) ref(1) same]
            have "all_settled s1 (backward_visited s1)" using all_settled_refined [OF st(1) _ s(1) all] same' st(4) by simp
            moreover have "\<forall>x \<in> forward_visited s1. rk x < rk u" using below ranks [OF rk] st(3) order_le_less_trans by fastforce
            ultimately have "all_settled s2 (insert u (backward_visited s2))" using s2 rk1 ok1(1) same' by (simp add: propagated_def)
            moreover have t1: "t < tensor_count s1" "i < length (succ_at s1 t)"
              using refinedD(1) [OF st(1)] refined_relation(1) [OF st(1) s(2)] s(2,3) by simp_all
            then have "same_tensor s1 s2 t" using refinedD(14) [OF ref(1)] same' by simp
            with t1 ok1(2) have "forward_commit (relation_at s2 t i) = update_at s2 t" by (auto simp: same_tensor_def)
            ultimately show ?thesis by blast
          qed
          moreover have "commits_ok s2" using s2 rk1 ok1(1) by (simp add: propagated_def)
          ultimately show ?thesis by blast
        qed
        with ref ref2 st show "ends_in (forwarded rk t i s) (Ok (s2\<lparr>backward_visited := insert u (backward_visited s2)\<rparr>))"
          by (auto simp: u_def forwarded_def)
      qed
    qed
  qed
qed

lemma in_loop_step:
  assumes loop: "in_loop rk t pl i s" and t: "plan_ok pl" "t < tensor_count pl" "i < length (succ_at pl t)"
    and fwd: "ends_in (forwarded rk t i s) r"
  shows "ends_in (in_loop rk t pl (Suc i)) (res_bind r (propagate_backward t i))"
proof (rule ends_in_bind [OF fwd])
  fix s2 assume s2: "forwarded rk t i s s2"
  have s: "refined pl s" "plan_ok s" "forward_visited s = insert t (forward_visited pl)" "backward_visited pl \<subseteq> backward_visited s"
    using loop by (simp_all add: in_loop_def)
  have ref: "refined s s2" "plan_ok s2" "forward_visited s2 = forward_visited s" "backward_visited s \<subseteq> backward_visited s2"
    using s2 by (simp_all add: forwarded_def)
  have ts: "t < tensor_count s" "i < length (succ_at s t)"
    using refinedD(1) [OF s(1)] refined_relation(1) [OF s(1) t(2)] t by simp_all
  have ts2: "t < tensor_count s2" "i < length (succ_at s2 t)" "rel_to (relation_at s2 t i) = rel_to (relation_at s t i)"
    using refinedD(1) [OF ref(1)] refined_relation [OF ref(1) ts(1)] ts by (simp_all add: bare_simps)
  show "ends_in (in_loop rk t pl (Suc i)) (propagate_backward t i s2)"
  proof (cases "propagate_backward t i s2")
    case (Err e)
    then show ?thesis using propagate_backward_Err [OF Err] by simp
  next
    case (Ok s')
    note bwd = propagate_backward_Ok [OF Ok ref(2) ts2(1,2)]
    note st = steps_toD [OF bwd(1)]
    have ss': "refined s s'" by (rule refined_trans [OF ref(1) st(1) s(2)])
    have pls': "refined pl s'" by (rule refined_trans [OF s(1) ss' t(1)])
    have "commits_ok s' \<and>
        (folded_dims s' = folded_dims pl \<and> (\<forall>x \<in> forward_visited pl. rk x < rk t) \<and> all_settled pl (backward_visited pl) \<longrightarrow>
           all_settled s' (backward_visited s') \<and> (\<forall>j < Suc i. settled s' t j \<and> rel_to (relation_at s' t j) \<in> backward_visited s'))"
      if rk: "ranked rk pl" and ok: "commits_ok pl"
    proof -
      have rks: "ranked rk s" by (rule ranked_refined [OF s(1) rk])
      have oks: "commits_ok s" using loop rk ok by (simp add: in_loop_def)
      then have ok2: "commits_ok s2" using s2 rks by (simp add: forwarded_def)
      have "rel_to (relation_at s2 t i) \<noteq> t" using rks ts ts2(3) unfolding ranked_def by (metis less_irrefl)
      with bwd(2) [OF ok2] have ok': "commits_ok s'" "backward_commit (relation_at s' t i) = update_at s' (rel_to (relation_at s2 t i))" by blast+
      moreover have "all_settled s' (backward_visited s') \<and> (\<forall>j < Suc i. settled s' t j \<and> rel_to (relation_at s' t j) \<in> backward_visited s')"
        if same: "folded_dims s' = folded_dims pl" and below: "\<forall>x \<in> forward_visited pl. rk x < rk t" and all: "all_settled pl (backward_visited pl)"
      proof -
        note f1 = refined_folded [OF s(1) ss' same]
        note f2 = refined_folded [OF ref(1) st(1) conjunct2 [OF f1]]
        have in_s: "all_settled s (backward_visited s)" "\<forall>j < i. settled s t j \<and> rel_to (relation_at s t j) \<in> backward_visited s"
          using loop rk ok below all f1 by (simp_all add: in_loop_def)
        have "\<forall>x \<in> forward_visited s. rk x \<le> rk t" using below s(3) by (simp add: less_imp_le)
        then have in_s2: "all_settled s2 (backward_visited s2)" "forward_commit (relation_at s2 t i) = update_at s2 t"
          "rel_to (relation_at s t i) \<in> backward_visited s2"
          using s2 rks oks in_s(1) f2 by (simp_all add: forwarded_def)
        have "all_settled s' (backward_visited s')" using all_settled_refined [OF st(1) _ ref(2) in_s2(1)] f2 st(4) by simp
        moreover have "settled s' t j \<and> rel_to (relation_at s' t j) \<in> backward_visited s'" if j: "j < Suc i" for j
        proof (cases "j = i")
          case True
          have "same_tensor s2 s' t" using refinedD(14) [OF st(1) ts2(1)] f2 by simp
          then have "forward_commit (relation_at s' t i) = update_at s' t" using in_s2(2) ts2(2) by (auto simp: same_tensor_def)
          moreover have "rel_to (relation_at s' t i) = rel_to (relation_at s2 t i)"
            using refined_relation(2) [OF st(1) ts2(1,2)] by (simp add: bare_simps)
          ultimately show ?thesis using True ok'(2) in_s2(3) ts2(3) st(4) by (simp add: settled_def)
        next
          case False
          then have j: "j < i" "j < length (succ_at s t)" using j ts(2) by simp_all
          have "rel_to (relation_at s' t j) = rel_to (relation_at s t j)"
            using refined_relation(2) [OF ss' ts(1) j(2)] by (simp add: bare_simps)
          moreover have "settled s' t j" using settled_refined [OF ss' _ s(2) ts(1) j(2)] f1 in_s(2) j(1) by simp
          ultimately show ?thesis using in_s(2) j(1) ref(4) st(4) by auto
        qed
        ultimately show ?thesis by blast
      qed
      ultimately show ?thesis by blast
    qed
    then show ?thesis using pls' st ref(3,4) s(3,4) Ok by (auto simp: in_loop_def)
  qed
qed

lemma Propagation_ends:
  "plan_ok pl \<Longrightarrow> t < tensor_count pl \<Longrightarrow> forward_visited pl \<subseteq> {..<tensor_count pl} \<Longrightarrow> t \<notin> forward_visited pl \<Longrightarrow>
   tensor_count pl \<le> n + card (forward_visited pl) \<Longrightarrow> ends_in (propagated rk t pl) (Propagation_fuel n t pl)"
proof (induction n arbitrary: t pl)
  case 0
  have "card (insert t (forward_visited pl)) \<le> card {..<tensor_count pl}" using "0.prems" by (intro card_mono) auto
  moreover have "finite (forward_visited pl)" using "0.prems"(3) finite_subset by blast
  ultimately show ?case using "0.prems"(4,5) by simp
next
  case (Suc n)
  show ?case
  proof (cases "t \<in> backward_visited pl")
    case True
    with Suc.prems(1) show ?thesis by (auto simp: propagated_def insert_absorb)
  next
    case False
    define pl0 where "pl0 = pl\<lparr>forward_visited := insert t (forward_visited pl)\<rparr>"
    have "in_loop rk t pl 0 pl0" using Suc.prems(1) by (simp add: in_loop_def pl0_def)
    then have "ends_in (in_loop rk t pl (length (succ_at pl t)))
      (for_each (\<lambda>k pl. res_bind (PropagationForward (\<lambda>u pl. Propagation_fuel n u pl) t k pl) (propagate_backward t k)) [0..<length (succ_at pl t)] pl0)"
    proof (rule ends_in_for_each)
      fix i s assume i: "i < length (succ_at pl t)" and s: "in_loop rk t pl i s"
      then have s': "refined pl s" "plan_ok s" "forward_visited s = insert t (forward_visited pl)" by (simp_all add: in_loop_def)
      have N: "tensor_count s = tensor_count pl" by (rule refinedD(1) [OF s'(1)])
      have i_s: "i < length (succ_at s t)" using refined_relation(1) [OF s'(1) Suc.prems(2)] i by simp
      have "finite (forward_visited pl)" using Suc.prems(3) finite_subset by blast
      then have card: "card (forward_visited s) = Suc (card (forward_visited pl))" using Suc.prems(4) s'(3) by simp
      have "ends_in (forwarded rk t i s) (PropagationForward (\<lambda>u pl. Propagation_fuel n u pl) t i s)"
      proof (rule PropagationForward_ends)
        fix s1 assume "plan_ok s1" "tensor_count s1 = tensor_count s" "forward_visited s1 = forward_visited s"
          "rel_to (relation_at s t i) \<notin> forward_visited s"
        moreover have "rel_to (relation_at s t i) < tensor_count s" using plan_okD(3) [OF s'(2) _ i_s] Suc.prems(2) N by simp
        ultimately show "ends_in (propagated rk (rel_to (relation_at s t i)) s1) (Propagation_fuel n (rel_to (relation_at s t i)) s1)"
          using Suc.prems(2,3,5) N s'(3) card by (intro Suc.IH) simp_all
      qed (use s' i_s N Suc.prems(2) in simp_all)
      from in_loop_step [OF s Suc.prems(1,2) i this]
      show "ends_in (in_loop rk t pl (Suc i)) (res_bind (PropagationForward (\<lambda>u pl. Propagation_fuel n u pl) t i s) (propagate_backward t i))" .
    qed
    then have "ends_in (propagated rk t pl) (res_bind
      (for_each (\<lambda>k pl. res_bind (PropagationForward (\<lambda>u pl. Propagation_fuel n u pl) t k pl) (propagate_backward t k)) [0..<length (succ_at pl t)] pl0)
      (\<lambda>pl. Ok (pl\<lparr>forward_visited := forward_visited pl - {t}\<rparr>)))"
    proof (rule ends_in_bind)
      fix s assume s: "in_loop rk t pl (length (succ_at pl t)) s"
      then have s': "refined pl s" "plan_ok s" "forward_visited s = insert t (forward_visited pl)" "backward_visited pl \<subseteq> backward_visited s"
        by (simp_all add: in_loop_def)
      have "all_settled s (insert t (backward_visited s))"
        if "all_settled s (backward_visited s)" "\<forall>j < length (succ_at pl t). settled s t j \<and> rel_to (relation_at s t j) \<in> backward_visited s"
        using that refined_relation(1) [OF s'(1) Suc.prems(2)] refinedD(1) [OF s'(1)] Suc.prems(2) by (auto simp: all_settled_def)
      with s s' Suc.prems(4) show "ends_in (propagated rk t pl) (Ok (s\<lparr>forward_visited := forward_visited s - {t}\<rparr>))"
        by (auto simp: propagated_def in_loop_def)
    qed
    with False show ?thesis by (simp add: pl0_def)
  qed
qed

section \<open>The rounds of the plan\<close>

definition reaches_settled :: "DimensionFolderPlan \<Rightarrow> nat \<Rightarrow> bool" where
  "reaches_settled pl t \<longleftrightarrow> (\<exists>V. t \<in> V \<and> all_settled pl V)"

definition round_done :: "(nat \<Rightarrow> nat) \<Rightarrow> nat list \<Rightarrow> DimensionFolderPlan \<Rightarrow> DimensionFolderPlan \<Rightarrow> bool" where
  "round_done rk inputs pl s \<longleftrightarrow> refined pl s \<and> plan_ok s \<and> forward_visited s = {} \<and>
     (ranked rk pl \<and> commits_ok pl \<longrightarrow> commits_ok s \<and>
        (folded_dims s = folded_dims pl \<longrightarrow> (\<forall>t \<in> set inputs. reaches_settled s t)))"

lemma reaches_settled_refined:
  "reaches_settled pl t \<Longrightarrow> refined pl s \<Longrightarrow> folded_dims s = folded_dims pl \<Longrightarrow> plan_ok pl \<Longrightarrow> reaches_settled s t"
  unfolding reaches_settled_def using all_settled_refined by blast

lemma propagate_all_ends:
  "plan_ok pl \<Longrightarrow> forward_visited pl = {} \<Longrightarrow> set inputs \<subseteq> {..<tensor_count pl} \<Longrightarrow>
     ends_in (round_done rk inputs pl) (propagate_all inputs pl)"
proof (induction inputs arbitrary: pl)
  case Nil
  then show ?case by (simp add: propagate_all_def round_done_def)
next
  case (Cons t inputs)
  define pl0 where "pl0 = pl\<lparr>backward_visited := {}\<rparr>"
  have "ends_in (propagated rk t pl0) (Fold_Propagation t pl0)"
    unfolding Fold_Propagation_def using Cons.prems by (intro Propagation_ends) (simp_all add: pl0_def)
  moreover have "ends_in (round_done rk (t # inputs) pl) (propagate_all inputs s)" if s: "propagated rk t pl0 s" for s
  proof -
    have ref: "refined pl s" "plan_ok s" "forward_visited s = {}" using s Cons.prems(2) by (simp_all add: propagated_def pl0_def)
    have "set inputs \<subseteq> {..<tensor_count s}" using Cons.prems(3) refinedD(1) [OF ref(1)] by simp
    note IH = Cons.IH [OF ref(2,3) this]
    have "ranked rk pl \<and> commits_ok pl \<Longrightarrow> folded_dims s = folded_dims pl \<Longrightarrow> reaches_settled s t"
      using s Cons.prems(2) by (auto simp: propagated_def pl0_def all_settled_def [of _ "{}"] reaches_settled_def)
    moreover have "ranked rk pl \<and> commits_ok pl \<Longrightarrow> ranked rk s \<and> commits_ok s"
      using s ranked_refined [OF ref(1)] by (auto simp: propagated_def pl0_def)
    ultimately have "round_done rk (t # inputs) pl s'" if s': "round_done rk inputs s s'" for s'
    proof -
      have ref': "refined s s'" using s' by (simp add: round_done_def)
      have "refined pl s'" by (rule refined_trans [OF ref(1) ref' Cons.prems(1)])
      with s' show ?thesis
        using \<open>_ \<Longrightarrow> _ \<Longrightarrow> reaches_settled s t\<close> \<open>_ \<Longrightarrow> ranked rk s \<and> commits_ok s\<close>
          refined_folded [OF ref(1) ref'] reaches_settled_refined [OF _ ref' _ ref(2)]
        by (auto simp: round_done_def)
    qed
    with IH show ?thesis by (cases "propagate_all inputs s") simp_all
  qed
  ultimately show ?case
    unfolding propagate_all_def for_each.simps pl0_def [symmetric] by (rule ends_in_bind)
qed

definition loop_done :: "(nat \<Rightarrow> nat) \<Rightarrow> nat list \<Rightarrow> DimensionFolderPlan \<Rightarrow> DimensionFolderPlan \<Rightarrow> bool" where
  "loop_done rk inputs pl s \<longleftrightarrow> refined pl s \<and> plan_ok s \<and> forward_visited s = {} \<and>
     (ranked rk pl \<and> commits_ok pl \<longrightarrow> commits_ok s \<and>
        (folded_dims s < total_dims s \<longrightarrow> (\<forall>t \<in> set inputs. reaches_settled s t)))"

lemma plan_loop_ends:
  "plan_ok pl \<Longrightarrow> forward_visited pl = {} \<Longrightarrow> set inputs \<subseteq> {..<tensor_count pl} \<Longrightarrow>
     nat (total_dims pl - folded_dims pl) < n \<Longrightarrow> ends_in (loop_done rk inputs pl) (plan_loop inputs n pl)"
proof (induction n arbitrary: pl)
  case (Suc n)
  have "ends_in (round_done rk inputs pl) (propagate_all inputs pl)" using Suc.prems by (intro propagate_all_ends)
  then show ?case
    unfolding plan_loop.simps
  proof (rule ends_in_bind)
    fix s assume s: "round_done rk inputs pl s"
    then have ref: "refined pl s" "plan_ok s" "forward_visited s = {}" by (simp_all add: round_done_def)
    show "ends_in (loop_done rk inputs pl) (if folded_dims s \<noteq> folded_dims pl \<and> folded_dims s < total_dims s then plan_loop inputs n s else Ok s)"
    proof (cases "folded_dims s \<noteq> folded_dims pl \<and> folded_dims s < total_dims s")
      case True
      have "total_dims s = total_dims pl" "folded_dims pl \<le> folded_dims s" using refinedD(5,6) [OF ref(1)] .
      then have "nat (total_dims s - folded_dims s) < n" using True Suc.prems(4) by linarith
      moreover have "set inputs \<subseteq> {..<tensor_count s}" using Suc.prems(3) refinedD(1) [OF ref(1)] by simp
      ultimately have "ends_in (loop_done rk inputs s) (plan_loop inputs n s)" using Suc.IH [OF ref(2,3)] by blast
      moreover have "loop_done rk inputs pl s'" if "loop_done rk inputs s s'" for s'
        using that s ranked_refined [OF ref(1)] refined_trans [OF ref(1) _ Suc.prems(1)] by (auto simp: loop_done_def round_done_def)
      ultimately show ?thesis using True by (cases "plan_loop inputs n s") auto
    next
      case False
      with s show ?thesis by (auto simp: loop_done_def round_done_def)
    qed
  qed
qed simp

section \<open>Agreement\<close>

text \<open>The two maps of a relation are inverse to each other.\<close>

definition inverse_maps :: "int list \<Rightarrow> int list \<Rightarrow> bool" where
  "inverse_maps fm bm \<longleftrightarrow>
     list_all (\<lambda>i. 0 \<le> fm ! i \<longrightarrow> nat (fm ! i) < length bm \<and> bm ! nat (fm ! i) = int i) [0..<length fm] \<and>
     list_all (\<lambda>j. 0 \<le> bm ! j \<longrightarrow> nat (bm ! j) < length fm \<and> fm ! nat (bm ! j) = int j) [0..<length bm]"

lemma inverse_mapsD:
  "inverse_maps fm bm \<Longrightarrow> i < length fm \<Longrightarrow> 0 \<le> fm ! i \<Longrightarrow> nat (fm ! i) < length bm \<and> bm ! nat (fm ! i) = int i"
  "inverse_maps fm bm \<Longrightarrow> j < length bm \<Longrightarrow> 0 \<le> bm ! j \<Longrightarrow> nat (bm ! j) < length fm \<and> fm ! nat (bm ! j) = int j"
  by (auto simp: inverse_maps_def list_all_iff)

lemma inj_mapI:
  assumes "\<And>i. i < length m \<Longrightarrow> 0 \<le> m ! i \<Longrightarrow> g (nat (m ! i)) = int i"
  shows "inj_map m"
  unfolding inj_map_def
proof (intro allI impI, rule ccontr)
  fix i j assume *: "i < j \<and> j < length m \<and> m ! i = m ! j" "\<not> m ! i < 0"
  have "g (nat (m ! i)) = int i" "g (nat (m ! j)) = int j" by (rule assms; use * in simp)+
  with * show False by simp
qed

lemma inverse_maps_inj:
  assumes "inverse_maps fm bm"
  shows "inj_map fm" "inj_map bm"
  by (rule inj_mapI [where g = "(!) bm"], use inverse_mapsD(1) [OF assms] in blast)
    (rule inj_mapI [where g = "(!) fm"], use inverse_mapsD(2) [OF assms] in blast)

text \<open>Two dimensions of a tensor are folded together just if the dimensions they are mapped to are.\<close>

definition agree :: "nat list \<Rightarrow> nat list \<Rightarrow> int list \<Rightarrow> bool" where
  "agree f g fm \<longleftrightarrow> list_all (\<lambda>j. list_all (\<lambda>i. 0 \<le> fm ! i \<longrightarrow> 0 \<le> fm ! j \<longrightarrow>
       (f ! i = f ! j \<longleftrightarrow> g ! nat (fm ! i) = g ! nat (fm ! j))) [0..<j]) [0..<length f]"

lemma settled_agree:
  assumes "commits_ok pl" "settled pl t k" "t < tensor_count pl" "k < length (succ_at pl t)"
    and r: "r = relation_at pl t k" "inverse_maps (forward_mapping r) (backward_mapping r)"
    and len: "length (forward_mapping r) = length (dims_at pl t)" "length (backward_mapping r) = length (dims_at pl (rel_to r))"
  shows "agree (dims_at pl t) (dims_at pl (rel_to r)) (forward_mapping r)"
proof -
  have ok: "commit_ok pl t r" using assms(1,3,4) by (simp add: commits_ok_def r(1))
  have "forward_commit r = update_at pl t" "backward_commit r = update_at pl (rel_to r)"
    using assms(2) by (simp_all add: settled_def r(1) Let_def)
  with ok inverse_maps_inj [OF r(2)]
  have maps: "maps_blocks (dims_at pl t) (dims_at pl (rel_to r)) (backward_mapping r)"
    "maps_blocks (dims_at pl (rel_to r)) (dims_at pl t) (forward_mapping r)" by (simp_all add: commit_ok_def)
  have "dims_at pl t ! i = dims_at pl t ! j \<longleftrightarrow> dims_at pl (rel_to r) ! nat (forward_mapping r ! i) = dims_at pl (rel_to r) ! nat (forward_mapping r ! j)"
    if ij: "i < j" "j < length (dims_at pl t)" and fm: "0 \<le> forward_mapping r ! i" "0 \<le> forward_mapping r ! j" for i j
  proof
    assume "dims_at pl t ! i = dims_at pl t ! j"
    with maps(2) ij fm show "dims_at pl (rel_to r) ! nat (forward_mapping r ! i) = dims_at pl (rel_to r) ! nat (forward_mapping r ! j)"
      unfolding maps_blocks_def by blast
  next
    define a b where "a = nat (forward_mapping r ! i)" and "b = nat (forward_mapping r ! j)"
    assume same: "dims_at pl (rel_to r) ! a = dims_at pl (rel_to r) ! b"
    have a: "a < length (dims_at pl (rel_to r))" "backward_mapping r ! a = int i"
      and b: "b < length (dims_at pl (rel_to r))" "backward_mapping r ! b = int j"
      using inverse_mapsD(1) [OF r(2), of i] inverse_mapsD(1) [OF r(2), of j] ij fm len by (simp_all add: a_def b_def)
    then have "a \<noteq> b" using ij(1) by auto
    then consider "a < b" | "b < a" by linarith
    then show "dims_at pl t ! i = dims_at pl t ! j"
    proof cases
      case 1
      with maps(1) a b same have "dims_at pl t ! nat (int i) = dims_at pl t ! nat (int j)" unfolding maps_blocks_def by (metis of_nat_0_le_iff)
      then show ?thesis by simp
    next
      case 2
      with maps(1) a b same have "dims_at pl t ! nat (int j) = dims_at pl t ! nat (int i)" unfolding maps_blocks_def by (metis of_nat_0_le_iff)
      then show ?thesis by simp
    qed
  qed
  then show ?thesis by (simp add: agree_def list_all_iff)
qed

text \<open>Every tensor that relations lead to from an input is settled.\<close>

lemma reaches_settled_step:
  assumes "reaches_settled pl t" "k < length (succ_at pl t)"
  shows "settled pl t k" "reaches_settled pl (rel_to (relation_at pl t k))"
  using assms by (auto simp: reaches_settled_def all_settled_def)

lemma all_reached:
  assumes "ranked rk pl" "plan_ok pl"
    and "\<And>t. t < tensor_count pl \<Longrightarrow> t \<in> set inputs \<or> (\<exists>s < tensor_count pl. \<exists>k < length (succ_at pl s). rel_to (relation_at pl s k) = t)"
    and "\<And>t. t \<in> set inputs \<Longrightarrow> reaches_settled pl t"
  shows "t < tensor_count pl \<Longrightarrow> reaches_settled pl t"
proof (induction "rk t" arbitrary: t rule: less_induct)
  case less
  from assms(3) [OF less.prems] show ?case
  proof
    assume "\<exists>s < tensor_count pl. \<exists>k < length (succ_at pl s). rel_to (relation_at pl s k) = t"
    then obtain s k where s: "s < tensor_count pl" "k < length (succ_at pl s)" "rel_to (relation_at pl s k) = t" by blast
    then have "rk s < rk t" using assms(1) by (auto simp: ranked_def)
    from reaches_settled_step(2) [OF less.hyps [OF this s(1)] s(2)] show ?thesis by (simp add: s(3))
  qed (rule assms(4))
qed

end
