(* ===== verification/Composite_Fold_Visit.thy ===== *)
theory Composite_Fold_Visit
  imports Composite_Fold_Plan
begin

text \<open>
  What the visit of a statement leaves for the propagation: tensors with the shapes of their uses, a
  relation from the inputs of every operator to its output, and the dimensions separated that
  cannot be folded for the operator itself.
\<close>

section \<open>Giving up\<close>

lemma UpdateFoldDim_give_up: "UpdateFoldDim t a b pl = Ok pl' \<Longrightarrow> give_up pl' = give_up pl"
  by (auto simp: UpdateFoldDim_def Let_def res_bind_Ok_conv split: prod.splits)

lemma fold_groups_Cons:
  assumes "fold_groups t r a (b # ns) pl = Ok pl'"
  obtains pl1 pl2 where "UpdateFoldDim t a (b - 1) pl = Ok pl1" "nat a < length (forward_mapping r)" "nat (b - 1) < length (forward_mapping r)"
    "(if forward_mapping r ! nat a \<noteq> - 1 \<and> forward_mapping r ! nat (b - 1) \<noteq> - 1
      then UpdateFoldDim (rel_to r) (forward_mapping r ! nat a) (forward_mapping r ! nat (b - 1)) pl1 else Ok pl1) = Ok pl2"
    "fold_groups t r b ns pl2 = Ok pl'"
  using assms by (auto simp: Let_def res_bind_Ok_conv vec_at_Ok_conv)

lemma fold_groups_give_up: "fold_groups t r a ns pl = Ok pl' \<Longrightarrow> give_up pl' = give_up pl"
proof (induction ns arbitrary: a pl)
  case (Cons b ns)
  from Cons.prems obtain pl1 pl2 where run: "UpdateFoldDim t a (b - 1) pl = Ok pl1"
    "(if forward_mapping r ! nat a \<noteq> - 1 \<and> forward_mapping r ! nat (b - 1) \<noteq> - 1
      then UpdateFoldDim (rel_to r) (forward_mapping r ! nat a) (forward_mapping r ! nat (b - 1)) pl1 else Ok pl1) = Ok pl2"
    "fold_groups t r b ns pl2 = Ok pl'" by (rule fold_groups_Cons)
  have "give_up pl' = give_up pl2" by (rule Cons.IH [OF run(3)])
  also have "\<dots> = give_up pl1" using run(2) by (auto dest: UpdateFoldDim_give_up split: if_split_asm)
  also have "\<dots> = give_up pl" by (rule UpdateFoldDim_give_up [OF run(1)])
  finally show ?case .
qed simp

lemma FoldRelation_give_up: "FoldRelation t r ds pl = Ok pl' \<Longrightarrow> give_up pl' = give_up pl"
  by (auto simp: FoldRelation_def res_bind_Ok_conv dest: fold_groups_give_up)

lemma add_succ_simps [simp]:
  "give_up (add_succ t r pl) = give_up pl" "fold_map (add_succ t r pl) = fold_map pl" "fold_inputs (add_succ t r pl) = fold_inputs pl"
  "tensor_count (add_succ t r pl) = tensor_count pl" "folded_dims (add_succ t r pl) = folded_dims pl"
  "total_dims (add_succ t r pl) = total_dims pl" "forward_visited (add_succ t r pl) = forward_visited pl"
  by (simp_all add: add_succ_def)

lemma AddElem_give_up: "Fold_AddElemBroadRelation i out pl = Ok pl' \<Longrightarrow> give_up pl \<Longrightarrow> give_up pl'"
  by (auto simp: Fold_AddElemBroadRelation_def Let_def res_bind_Ok_conv dest: FoldRelation_give_up split: if_splits)

lemma AddReduce_give_up: "Fold_AddReduceRelation i out axis pl = Ok pl' \<Longrightarrow> give_up pl' = give_up pl"
  by (auto simp: Fold_AddReduceRelation_def Let_def res_bind_Ok_conv dest: FoldRelation_give_up)

lemma AddTranspose_give_up: "Fold_AddTransposeRelation i out perm pl = Ok pl' \<Longrightarrow> give_up pl' = give_up pl"
  by (auto simp: Fold_AddTransposeRelation_def Let_def res_bind_Ok_conv dest: FoldRelation_give_up)

lemma GetTensor_give_up: "GetTensor fn sh b pl = Ok (t, pl') \<Longrightarrow> give_up pl' = give_up pl"
  by (auto simp: GetTensor_def Let_def res_bind_Ok_conv split: option.splits)

lemma fold_call_inputs_give_up: "fold_call_inputs args pl = Ok (ts, pl') \<Longrightarrow> give_up pl' = give_up pl"
proof (induction args pl arbitrary: ts pl' rule: fold_call_inputs.induct)
  case (2 ty ct n args fn i es pl)
  from "2.prems" obtain t pl1 us where run: "GetTensor fn args True pl = Ok (t, pl1)" "fold_call_inputs es pl1 = Ok (us, pl')"
    by (auto simp: res_bind_Ok_conv)
  from "2.IH" [OF run(1) refl run(2)] GetTensor_give_up [OF run(1)] show ?case by simp
qed auto

lemma fold_relations_give_up:
  assumes "fold_relations op inputs out pl = Ok pl'" "give_up pl"
  shows "give_up pl'"
proof -
  have "for_each (\<lambda>i. Fold_AddElemBroadRelation i out) inputs pl = Ok pl' \<Longrightarrow> give_up pl'"
    by (rule for_each_invariant [where P = give_up and f = "\<lambda>i. Fold_AddElemBroadRelation i out" and xs = inputs, OF _ assms(2)])
      (auto intro: AddElem_give_up)
  with assms show ?thesis
    by (auto simp: fold_relations_def res_bind_Ok_conv dest: AddElem_give_up AddReduce_give_up AddTranspose_give_up split: if_splits)
qed

lemma fold_visit_provide_give_up: "fold_visit_provide fn v sh pl = Ok pl' \<Longrightarrow> give_up pl \<Longrightarrow> give_up pl'"
  by (cases v) (auto simp: fold_visit_provide_def res_bind_Ok_conv
      dest!: GetTensor_give_up fold_call_inputs_give_up fold_relations_give_up split: if_splits)

lemma fold_visit_attrs_give_up: "fold_visit_attrs m pl = Ok pl' \<Longrightarrow> give_up pl' = give_up pl"
  by (auto simp: fold_visit_attrs_def res_bind_Ok_conv split: option.splits)

lemma fold_visit_give_up: "fold_visit map_node s pl = Ok pl' \<Longrightarrow> give_up pl \<Longrightarrow> give_up pl'"
proof (induction map_node s pl arbitrary: pl' rule: fold_visit.induct)
  case (1 map_node n k e b pl)
  then show ?case
    by (auto simp: res_bind_Ok_conv dest: fold_visit_attrs_give_up split: if_splits option.splits)
next
  case (2 map_node fn i v shape pl)
  then show ?case using fold_visit_provide_give_up by auto
next
  case (9 map_node a b pl)
  from "9.prems"(1) obtain pl1 where run: "fold_visit map_node a pl = Ok pl1" "fold_visit map_node b pl1 = Ok pl'"
    by (auto simp: res_bind_Ok_conv)
  from "9.IH"(2) [OF run(1,2)] "9.IH"(1) [OF run(1) "9.prems"(2)] show ?case by blast
next
  case (10 map_node c t e pl)
  from "10.prems"(1) obtain pl1 where run: "fold_visit map_node t pl = Ok pl1"
    "case e of Some s \<Rightarrow> fold_visit map_node s pl1 = Ok pl' | None \<Rightarrow> pl' = pl1"
    by (auto simp: res_bind_Ok_conv split: option.splits)
  have up: "give_up pl1" by (rule "10.IH"(1) [OF run(1) "10.prems"(2)])
  show ?case
  proof (cases e)
    case None
    with run(2) up show ?thesis by simp
  next
    case (Some s)
    with run(2) have "fold_visit map_node s pl1 = Ok pl'" by simp
    from "10.IH"(2) [OF run(1) Some this up] show ?thesis .
  qed
qed simp_all

section \<open>Growing plans\<close>

definition extended :: "DimensionFolderPlan \<Rightarrow> DimensionFolderPlan \<Rightarrow> bool" where
  "extended pl pl' \<longleftrightarrow> tensor_count pl \<le> tensor_count pl' \<and> fold_map pl \<subseteq>\<^sub>m fold_map pl' \<and> set (fold_inputs pl) \<subseteq> set (fold_inputs pl') \<and>
     (\<forall>t < tensor_count pl. fold_shape (fold_tensor pl' t) = fold_shape (fold_tensor pl t) \<and>
        starts (dims_at pl t) \<subseteq> starts (dims_at pl' t) \<and> bare ` set (succ_at pl t) \<subseteq> bare ` set (succ_at pl' t))"

lemma extended_refl [simp]: "extended pl pl"
  by (simp add: extended_def)

lemma extended_trans: "extended a b \<Longrightarrow> extended b c \<Longrightarrow> extended a c"
  unfolding extended_def using map_le_trans by (smt (verit, best) order_less_le_trans order_trans)

lemma map_le_Some: "m \<subseteq>\<^sub>m m' \<Longrightarrow> m x = Some y \<Longrightarrow> m' x = Some y"
proof -
  assume le: "m \<subseteq>\<^sub>m m'" and x: "m x = Some y"
  have "x \<in> dom m" using x by (rule domI)
  with le have "m x = m' x" unfolding map_le_def by (rule bspec)
  with x show "m' x = Some y" by simp
qed

lemma extendedD:
  assumes "extended pl pl'"
  shows "fold_map pl fn = Some t \<Longrightarrow> fold_map pl' fn = Some t" "fn \<in> set (fold_inputs pl) \<Longrightarrow> fn \<in> set (fold_inputs pl')"
    "tensor_count pl \<le> tensor_count pl'"
    and "t < tensor_count pl \<Longrightarrow> fold_shape (fold_tensor pl' t) = fold_shape (fold_tensor pl t)"
    "t < tensor_count pl \<Longrightarrow> starts (dims_at pl t) \<subseteq> starts (dims_at pl' t)"
    "t < tensor_count pl \<Longrightarrow> r \<in> set (succ_at pl t) \<Longrightarrow> \<exists>r' \<in> set (succ_at pl' t). bare r' = bare r"
proof -
  have "fold_map pl \<subseteq>\<^sub>m fold_map pl'" using assms unfolding extended_def by (elim conjE) assumption
  then show "fold_map pl fn = Some t \<Longrightarrow> fold_map pl' fn = Some t" by (rule map_le_Some)
  have "set (fold_inputs pl) \<subseteq> set (fold_inputs pl')" using assms unfolding extended_def by (elim conjE) assumption
  then show "fn \<in> set (fold_inputs pl) \<Longrightarrow> fn \<in> set (fold_inputs pl')" by (rule subsetD)
  show "tensor_count pl \<le> tensor_count pl'" using assms unfolding extended_def by (rule conjunct1)
  have rest: "\<forall>t < tensor_count pl. fold_shape (fold_tensor pl' t) = fold_shape (fold_tensor pl t) \<and>
        starts (dims_at pl t) \<subseteq> starts (dims_at pl' t) \<and> bare ` set (succ_at pl t) \<subseteq> bare ` set (succ_at pl' t)"
    using assms unfolding extended_def by (elim conjE) assumption
  show "t < tensor_count pl \<Longrightarrow> fold_shape (fold_tensor pl' t) = fold_shape (fold_tensor pl t)"
    "t < tensor_count pl \<Longrightarrow> starts (dims_at pl t) \<subseteq> starts (dims_at pl' t)"
    using rest by blast+
  assume t: "t < tensor_count pl" and r: "r \<in> set (succ_at pl t)"
  have "bare ` set (succ_at pl t) \<subseteq> bare ` set (succ_at pl' t)" using rest t by blast
  moreover have "bare r \<in> bare ` set (succ_at pl t)" using r by (rule imageI)
  ultimately have "bare r \<in> bare ` set (succ_at pl' t)" by (rule subsetD)
  then obtain r' where "bare r = bare r'" "r' \<in> set (succ_at pl' t)" by (rule imageE)
  then show "\<exists>r' \<in> set (succ_at pl' t). bare r' = bare r" by (intro bexI [of _ r']) simp_all
qed

lemma refined_extended: "refined pl pl' \<Longrightarrow> extended pl pl'"
  unfolding extended_def
proof (intro conjI allI impI)
  assume ref: "refined pl pl'"
  fix t assume t: "t < tensor_count pl"
  have "set (map bare (succ_at pl' t)) = set (map bare (succ_at pl t))" by (simp only: refinedD(10) [OF ref t])
  then show "bare ` set (succ_at pl t) \<subseteq> bare ` set (succ_at pl' t)" by simp
qed (use refinedD in \<open>simp_all\<close>)

section \<open>The state of the visit\<close>

text \<open>Nothing has been committed, the tensors are those of the functions met, with the shape of one of
  the uses in \<open>U\<close>, and \<open>folded_dims\<close> counts the blocks.\<close>

definition visit_ok :: "(Func \<times> Expr list) set \<Rightarrow> DimensionFolderPlan \<Rightarrow> bool" where
  "visit_ok U pl \<longleftrightarrow> plan_ok pl \<and> forward_visited pl = {} \<and> \<not> give_up pl \<and> 0 \<le> folded_dims pl \<and>
     (\<forall>t < tensor_count pl. 0 \<le> update_at pl t \<and> (\<forall>r \<in> set (succ_at pl t). forward_commit r = - 1 \<and> backward_commit r = - 1)) \<and>
     (\<forall>fn t. fold_map pl fn = Some t \<longrightarrow> t < tensor_count pl \<and> (\<exists>sh. (fn, sh) \<in> U \<and> ExtractIntVector sh = Ok (fold_shape (fold_tensor pl t)))) \<and>
     (\<forall>fn fn' t. fold_map pl fn = Some t \<and> fold_map pl fn' = Some t \<longrightarrow> fn = fn') \<and>
     (\<forall>t < tensor_count pl. \<exists>fn. fold_map pl fn = Some t) \<and> (\<forall>fn \<in> set (fold_inputs pl). fold_map pl fn \<noteq> None) \<and>
     total_dims pl = (\<Sum>t < tensor_count pl. int (length (dims_at pl t))) \<and>
     ((\<forall>u \<in> U. snd u \<noteq> []) \<longrightarrow> folded_dims pl = block_count pl)"

lemma visit_okD:
  assumes "visit_ok U pl"
  shows "plan_ok pl" "forward_visited pl = {}" "\<not> give_up pl" "0 \<le> folded_dims pl"
    and "t < tensor_count pl \<Longrightarrow> 0 \<le> update_at pl t"
    "t < tensor_count pl \<Longrightarrow> r \<in> set (succ_at pl t) \<Longrightarrow> forward_commit r = - 1 \<and> backward_commit r = - 1"
    and "fold_map pl fn = Some t \<Longrightarrow> t < tensor_count pl"
    "fold_map pl fn = Some t \<Longrightarrow> \<exists>sh. (fn, sh) \<in> U \<and> ExtractIntVector sh = Ok (fold_shape (fold_tensor pl t))"
    "fold_map pl fn = Some t \<Longrightarrow> fold_map pl fn' = Some t \<Longrightarrow> fn = fn'"
    "t < tensor_count pl \<Longrightarrow> \<exists>fn. fold_map pl fn = Some t" "fn \<in> set (fold_inputs pl) \<Longrightarrow> fold_map pl fn \<noteq> None"
    and "total_dims pl = (\<Sum>t < tensor_count pl. int (length (dims_at pl t)))" "\<forall>u \<in> U. snd u \<noteq> [] \<Longrightarrow> folded_dims pl = block_count pl"
  using assms unfolding visit_ok_def by blast+

lemma visit_ok_commits: "visit_ok U pl \<Longrightarrow> commits_ok pl"
  unfolding commits_ok_def
proof (intro allI impI)
  fix t k assume ok: "visit_ok U pl" and t: "t < tensor_count pl" "k < length (succ_at pl t)"
  have "0 \<le> update_at pl t" "0 \<le> update_at pl (rel_to (relation_at pl t k))"
    using visit_okD(5) [OF ok] t plan_okD(3) [OF visit_okD(1) [OF ok] t] by blast+
  moreover have "relation_at pl t k \<in> set (succ_at pl t)" using t by (simp add: relation_at_def)
  then have "forward_commit (relation_at pl t k) = - 1 \<and> backward_commit (relation_at pl t k) = - 1" by (rule visit_okD(6) [OF ok t(1)])
  ultimately show "commit_ok pl t (relation_at pl t k)" by (simp add: commit_ok_def)
qed

lemma visit_ok_updated:
  assumes "visit_ok U pl" "updated pl pl'"
  shows "visit_ok U pl'"
proof -
  have ref: "refined pl pl'" "plan_ok pl'" "forward_visited pl' = {}" and succ: "\<And>t. t < tensor_count pl \<Longrightarrow> succ_at pl' t = succ_at pl t"
    using assms visit_okD(2) [OF assms(1)] by (simp_all add: updated_def)
  note D = refinedD [OF ref(1)] and V = visit_okD [OF assms(1)]
  have "(\<Sum>t < tensor_count pl'. int (length (dims_at pl' t))) = (\<Sum>t < tensor_count pl. int (length (dims_at pl t)))"
    using D(1,9) by (intro sum.cong) simp_all
  moreover have "0 \<le> update_at pl' t" if "t < tensor_count pl" for t using V(5) [OF that] D(12) [OF that] by simp
  moreover have "(\<forall>u \<in> U. snd u \<noteq> []) \<longrightarrow> folded_dims pl' = block_count pl'"
  proof
    assume "\<forall>u \<in> U. snd u \<noteq> []"
    then have "folded_dims pl = block_count pl" by (rule V(13))
    with D(7) show "folded_dims pl' = block_count pl'" by simp
  qed
  ultimately show ?thesis
    unfolding visit_ok_def using ref V(3-12) D(1-6,8) succ by simp
qed

lemma succ_add_succ: "s < tensor_count pl \<Longrightarrow> succ_at (add_succ t r pl) s = succ_at pl s @ (if s = t then [r] else [])"
  by (auto simp: add_succ_def fold_tensor_set)

lemma add_succ_tensor:
  "s < tensor_count pl \<Longrightarrow> dims_at (add_succ t r pl) s = dims_at pl s"
  "s < tensor_count pl \<Longrightarrow> update_at (add_succ t r pl) s = update_at pl s"
  "s < tensor_count pl \<Longrightarrow> fold_shape (fold_tensor (add_succ t r pl) s) = fold_shape (fold_tensor pl s)"
  by (auto simp: add_succ_def fold_tensor_set)

lemma visit_ok_add_succ:
  assumes "visit_ok U pl" "rel_to r < tensor_count pl" "forward_commit r = - 1" "backward_commit r = - 1"
  shows "visit_ok U (add_succ t r pl)"
proof -
  note V = visit_okD [OF assms(1)]
  have "plan_ok (add_succ t r pl)"
    using V(1) assms(2) by (auto simp: plan_ok_def add_succ_tensor succ_add_succ)
  moreover have "block_count (add_succ t r pl) = block_count pl" by (simp add: block_count_def add_succ_tensor)
  ultimately show ?thesis
    unfolding visit_ok_def using V assms(3,4) by (auto simp: add_succ_tensor succ_add_succ)
qed

lemma extended_add_succ: "extended pl (add_succ t r pl)"
  by (auto simp: extended_def add_succ_tensor succ_add_succ)

lemma GetTensor_ok:
  assumes "GetTensor fn sh is_input pl = Ok (t, pl')" "visit_ok U pl" "(fn, sh) \<in> U"
  shows "visit_ok U pl'" "extended pl pl'" "fold_map pl' fn = Some t"
    and "\<And>s. s < tensor_count pl' \<Longrightarrow> s < tensor_count pl \<and> fold_tensor pl' s = fold_tensor pl s \<or>
      s = t \<and> succ_at pl' s = [] \<and> (is_input \<longrightarrow> fn \<in> set (fold_inputs pl'))"
proof -
  note V = visit_okD [OF assms(2)]
  have "visit_ok U pl' \<and> extended pl pl' \<and> fold_map pl' fn = Some t \<and> (\<forall>s < tensor_count pl'. s < tensor_count pl \<and> fold_tensor pl' s = fold_tensor pl s \<or>
      s = t \<and> succ_at pl' s = [] \<and> (is_input \<longrightarrow> fn \<in> set (fold_inputs pl')))"
  proof (cases "fold_map pl fn")
    case (Some u)
    with assms show ?thesis by (auto simp: GetTensor_def)
  next
    case None
    then obtain dims where dims: "ExtractIntVector sh = Ok dims" using assms(1) by (auto simp: GetTensor_def res_bind_Ok_conv)
    define x where "x = \<lparr>fold_update = 0, fold_shape = dims, fold_dims = replicate (length dims) 0, fold_succ = []\<rparr>"
    have pl': "t = tensor_count pl" "fold_tensors pl' = fold_tensors pl @ [x]" "fold_map pl' = (fold_map pl)(fn := Some t)"
      "total_dims pl' = total_dims pl + int (length dims)" "folded_dims pl' = folded_dims pl + 1"
      "fold_inputs pl' = fold_inputs pl @ (if is_input then [fn] else [])" "forward_visited pl' = forward_visited pl" "give_up pl' = give_up pl"
      using assms(1) None dims by (auto simp: GetTensor_def Let_def x_def)
    have tensor: "fold_tensor pl' s = (if s = t then x else fold_tensor pl s)" if "s < Suc (tensor_count pl)" for s
      using that by (auto simp: fold_tensor_def pl'(1,2) nth_append)
    have count: "tensor_count pl' = Suc (tensor_count pl)" by (simp add: pl'(2))
    have new: "fold_map pl f \<noteq> Some t" for f using V(7) [of f t] by (auto simp: pl'(1))
    have "plan_ok pl'"
      using V(1) tensor count by (auto simp: plan_ok_def x_def less_Suc_eq pl'(1) list_all_iff)
    moreover have "extended pl pl'"
      using None tensor pl'(1) by (auto simp: extended_def map_le_def count pl'(3,6))
    moreover have "total_dims pl' = (\<Sum>s < tensor_count pl'. int (length (dims_at pl' s)))"
      using V(12) tensor by (simp add: pl'(4) count x_def pl'(1) [symmetric])
    moreover have "folded_dims pl' = block_count pl'" if ne: "\<forall>u \<in> U. snd u \<noteq> []"
    proof -
      have "sh \<noteq> []" using ne assms(3) by fastforce
      then have "dims \<noteq> []" using dims by (auto simp: ExtractIntVector_iff)
      then have "card (starts (fold_dims x)) = 1" by (simp add: x_def starts_replicate)
      then show ?thesis using V(13) [OF ne] tensor by (simp add: block_count_def count pl'(5) pl'(1) [symmetric])
    qed
    moreover have "\<exists>sh. (f, sh) \<in> U \<and> ExtractIntVector sh = Ok (fold_shape (fold_tensor pl' s))" if "fold_map pl' f = Some s" for f s
    proof (cases "f = fn")
      case True
      with that have "s = t" by (simp add: pl'(3))
      with True assms(3) dims tensor [of t] show ?thesis by (auto simp: x_def pl'(1))
    next
      case False
      with that have old: "fold_map pl f = Some s" by (simp add: pl'(3))
      with V(7) [OF old] V(8) [OF old] tensor [of s] show ?thesis by (simp add: pl'(1))
    qed
    moreover have "\<exists>f. fold_map pl' f = Some s" if s: "s < tensor_count pl'" for s
    proof (cases "s = t")
      case False
      then have "s < tensor_count pl" using s by (simp add: count pl'(1))
      then obtain f where "fold_map pl f = Some s" using V(10) by blast
      moreover from this None have "f \<noteq> fn" by auto
      ultimately have "fold_map pl' f = Some s" by (simp add: pl'(3))
      then show ?thesis by blast
    qed (auto simp: pl'(3))
    moreover have "fold_map pl' f = Some s \<Longrightarrow> s < tensor_count pl'" for f s
      using V(7) [of f s] by (auto simp: pl'(1,3) count split: if_splits)
    moreover have "fold_map pl' f = Some s \<Longrightarrow> fold_map pl' f' = Some s \<Longrightarrow> f = f'" for f f' s
      using V(9) [of f s f'] new by (auto simp: pl'(3) split: if_splits)
    moreover have "\<forall>f \<in> set (fold_inputs pl'). fold_map pl' f \<noteq> None" using V(11) by (auto simp: pl'(3,6))
    moreover have "\<forall>s < tensor_count pl'. 0 \<le> update_at pl' s \<and> (\<forall>r \<in> set (succ_at pl' s). forward_commit r = - 1 \<and> backward_commit r = - 1)"
    proof (intro allI impI)
      fix s assume "s < tensor_count pl'"
      then consider "s = t" | "s < tensor_count pl" "s \<noteq> t" by (auto simp: count pl'(1) less_Suc_eq)
      then show "0 \<le> update_at pl' s \<and> (\<forall>r \<in> set (succ_at pl' s). forward_commit r = - 1 \<and> backward_commit r = - 1)"
      proof cases
        case 1
        then show ?thesis using tensor [of t] by (simp add: pl'(1) x_def)
      next
        case 2
        then show ?thesis using tensor [of s] V(5,6) [of s] by simp
      qed
    qed
    moreover have "forward_visited pl' = {}" "\<not> give_up pl'" "0 \<le> folded_dims pl'" using V(2-4) by (simp_all add: pl'(5,7,8))
    ultimately have "visit_ok U pl'" unfolding visit_ok_def by blast
    with \<open>extended pl pl'\<close> show ?thesis using tensor by (auto simp: pl'(3,6) count x_def less_Suc_eq pl'(1))
  qed
  then show "visit_ok U pl'" "extended pl pl'" "fold_map pl' fn = Some t"
    "\<And>s. s < tensor_count pl' \<Longrightarrow> s < tensor_count pl \<and> fold_tensor pl' s = fold_tensor pl s \<or>
      s = t \<and> succ_at pl' s = [] \<and> (is_input \<longrightarrow> fn \<in> set (fold_inputs pl'))" by blast+
qed

end
