(* ===== verification/Composite_Fold_Relations.thy ===== *)
theory Composite_Fold_Relations
  imports Composite_Fold_Visit
begin

text \<open>
  The relations the visit adds: each separates the groups of dimensions it cannot fold, leads to the
  tensor the operator writes, and leaves no tensor that is neither an input nor the end of a relation.
\<close>

section \<open>Separating the groups of a relation\<close>

lemma fold_groups_ok:
  "fold_groups t r a ns pl = Ok pl' \<Longrightarrow> plan_ok pl \<Longrightarrow> t < tensor_count pl \<Longrightarrow> rel_to r < tensor_count pl \<Longrightarrow>
     updated pl pl' \<and> (\<forall>(a, b) \<in> set (zip (a # ns) ns). nat a \<in> starts (dims_at pl' t) \<and>
       (forward_mapping r ! nat a \<noteq> - 1 \<and> forward_mapping r ! nat (b - 1) \<noteq> - 1 \<longrightarrow>
          nat (forward_mapping r ! nat a) \<in> starts (dims_at pl' (rel_to r))))"
proof (induction ns arbitrary: a pl)
  case (Cons b ns)
  let ?m = "forward_mapping r ! nat a" and ?n = "forward_mapping r ! nat (b - 1)"
  from Cons.prems(1) obtain pl1 pl2 where run: "UpdateFoldDim t a (b - 1) pl = Ok pl1"
    "(if ?m \<noteq> - 1 \<and> ?n \<noteq> - 1 then UpdateFoldDim (rel_to r) ?m ?n pl1 else Ok pl1) = Ok pl2"
    "fold_groups t r b ns pl2 = Ok pl'" by (rule fold_groups_Cons)
  note U = UpdateFoldDim_Ok [OF run(1) Cons.prems(2,3)]
  have pl1: "plan_ok pl1" "tensor_count pl1 = tensor_count pl"
    using updatedD(2) [OF U(1)] refinedD(1) [OF updatedD(1) [OF U(1)]] .
  have a: "nat a \<in> starts (dims_at pl1 t)" using U(2-5) by auto
  have "updated pl1 pl2 \<and> (?m \<noteq> - 1 \<and> ?n \<noteq> - 1 \<longrightarrow> nat ?m \<in> starts (dims_at pl2 (rel_to r)))"
  proof (cases "?m \<noteq> - 1 \<and> ?n \<noteq> - 1")
    case True
    with run(2) have "UpdateFoldDim (rel_to r) ?m ?n pl1 = Ok pl2" by simp
    from UpdateFoldDim_Ok [OF this pl1(1)] Cons.prems(4) pl1(2) show ?thesis by auto
  qed (use run(2) pl1 in auto)
  then have up: "updated pl1 pl2" and m: "?m \<noteq> - 1 \<and> ?n \<noteq> - 1 \<Longrightarrow> nat ?m \<in> starts (dims_at pl2 (rel_to r))" by simp_all
  have pl2: "plan_ok pl2" "tensor_count pl2 = tensor_count pl"
    using updatedD(2) [OF up] refinedD(1) [OF updatedD(1) [OF up]] pl1(2) by simp_all
  have IH: "updated pl2 pl'" "\<forall>(a, b) \<in> set (zip (b # ns) ns). nat a \<in> starts (dims_at pl' t) \<and>
       (forward_mapping r ! nat a \<noteq> - 1 \<and> forward_mapping r ! nat (b - 1) \<noteq> - 1 \<longrightarrow>
          nat (forward_mapping r ! nat a) \<in> starts (dims_at pl' (rel_to r)))"
    using Cons.IH [OF run(3) pl2(1)] Cons.prems(3,4) pl2(2) by simp_all
  have grow: "starts (dims_at pl1 t) \<subseteq> starts (dims_at pl' t)" "starts (dims_at pl2 (rel_to r)) \<subseteq> starts (dims_at pl' (rel_to r))"
    using refinedD(11) [OF updatedD(1) [OF updated_trans [OF up IH(1) pl1(1)]]] refinedD(11) [OF updatedD(1) [OF IH(1)]]
      Cons.prems(3,4) pl1(2) pl2(2) by simp_all
  have "updated pl pl'" by (rule updated_trans [OF U(1) updated_trans [OF up IH(1) pl1(1)] Cons.prems(2)])
  with IH(2) a m grow show ?case by auto
qed simp

lemma FoldRelation_ok:
  assumes "FoldRelation t r ds pl = Ok pl'" "plan_ok pl" "t < tensor_count pl" "rel_to r < tensor_count pl"
  shows "updated pl pl'"
    and "Suc k < length ds \<Longrightarrow> ds ! k \<in> starts (dims_at pl' t)"
    and "Suc k < length ds \<Longrightarrow> forward_mapping r ! (ds ! k) \<noteq> - 1 \<Longrightarrow> forward_mapping r ! (nat (int (ds ! Suc k) - 1)) \<noteq> - 1 \<Longrightarrow>
      nat (forward_mapping r ! (ds ! k)) \<in> starts (dims_at pl' (rel_to r))"
proof -
  have ds: "2 \<le> length ds" and run: "fold_groups t r (int (hd ds)) (map int (tl ds)) pl = Ok pl'"
    using assms(1) by (auto simp: FoldRelation_def res_bind_Ok_conv)
  note G = fold_groups_ok [OF run assms(2-4)]
  then show "updated pl pl'" by simp
  have all: "int (hd ds) # map int (tl ds) = map int ds" using ds by (cases ds) auto
  have mem: "(int (ds ! k), int (ds ! Suc k)) \<in> set (zip (int (hd ds) # map int (tl ds)) (map int (tl ds)))" if "Suc k < length ds" for k
    using that by (auto simp: all set_zip nth_tl intro!: exI [of _ k])
  show "Suc k < length ds \<Longrightarrow> ds ! k \<in> starts (dims_at pl' t)"
    using G mem [of k] by auto
  show "Suc k < length ds \<Longrightarrow> forward_mapping r ! (ds ! k) \<noteq> - 1 \<Longrightarrow> forward_mapping r ! (nat (int (ds ! Suc k) - 1)) \<noteq> - 1 \<Longrightarrow>
      nat (forward_mapping r ! (ds ! k)) \<in> starts (dims_at pl' (rel_to r))"
    using G mem [of k] by fastforce
qed

section \<open>Covered tensors and fed relations\<close>

definition covered :: "DimensionFolderPlan \<Rightarrow> nat \<Rightarrow> bool" where
  "covered pl t \<longleftrightarrow> (\<exists>fn \<in> set (fold_inputs pl). fold_map pl fn = Some t) \<or>
     (\<exists>s < tensor_count pl. \<exists>r \<in> set (succ_at pl s). rel_to r = t)"

definition fed :: "(Func \<times> Func) set \<Rightarrow> DimensionFolderPlan \<Rightarrow> bool" where
  "fed F pl \<longleftrightarrow> (\<forall>t < tensor_count pl. \<forall>r \<in> set (succ_at pl t).
     \<exists>(fn, fn') \<in> F. fold_map pl fn = Some t \<and> fold_map pl fn' = Some (rel_to r))"

definition visited :: "(Func \<times> Expr list) set \<Rightarrow> (Func \<times> Func) set \<Rightarrow> nat set \<Rightarrow> DimensionFolderPlan \<Rightarrow> bool" where
  "visited U F X pl \<longleftrightarrow> visit_ok U pl \<and> fed F pl \<and> (\<forall>t < tensor_count pl. t \<in> X \<or> covered pl t)"

lemma covered_extended:
  assumes "covered pl t" "extended pl pl'"
  shows "covered pl' t"
  using assms(1) unfolding covered_def
proof (elim disjE bexE exE conjE)
  fix fn assume "fn \<in> set (fold_inputs pl)" "fold_map pl fn = Some t"
  with extendedD(1,2) [OF assms(2)] show "(\<exists>fn \<in> set (fold_inputs pl'). fold_map pl' fn = Some t) \<or>
     (\<exists>s < tensor_count pl'. \<exists>r \<in> set (succ_at pl' s). rel_to r = t)" by blast
next
  fix s r assume r: "s < tensor_count pl" "r \<in> set (succ_at pl s)" "rel_to r = t"
  obtain r' where "r' \<in> set (succ_at pl' s)" "bare r' = bare r" using extendedD(6) [OF assms(2) r(1,2)] by blast
  moreover have "s < tensor_count pl'" using extendedD(3) [OF assms(2)] r(1) by simp
  ultimately show "(\<exists>fn \<in> set (fold_inputs pl'). fold_map pl' fn = Some t) \<or>
     (\<exists>s < tensor_count pl'. \<exists>r \<in> set (succ_at pl' s). rel_to r = t)" using r(3) by (auto simp: bare_simps)
qed

lemma updated_extended: "updated pl pl' \<Longrightarrow> extended pl pl'"
  by (rule refined_extended) (rule updatedD)

lemma visited_updated:
  assumes "visited U F X pl" "updated pl pl'"
  shows "visited U F X pl'"
proof -
  have D: "tensor_count pl' = tensor_count pl" "fold_map pl' = fold_map pl"
    using refinedD(1,2) [OF updatedD(1) [OF assms(2)]] .
  have "visit_ok U pl'" using assms visit_ok_updated unfolding visited_def by blast
  moreover have "fed F pl'" using assms(1) updatedD(5) [OF assms(2)] by (simp add: visited_def fed_def D)
  moreover have "\<forall>t < tensor_count pl'. t \<in> X \<or> covered pl' t"
    using assms(1) covered_extended [OF _ updated_extended [OF assms(2)]] by (auto simp: visited_def D)
  ultimately show ?thesis by (simp add: visited_def)
qed

lemma visitedD:
  assumes "visited U F X pl"
  shows "visit_ok U pl" "fed F pl" "t < tensor_count pl \<Longrightarrow> t \<in> X \<or> covered pl t"
  using assms by (simp_all add: visited_def)

lemma visited_add_succ:
  assumes "visited U F X pl" "t < tensor_count pl" "forward_commit r = - 1" "backward_commit r = - 1"
    and "(fn, fn') \<in> F" "fold_map pl fn = Some t" "fold_map pl fn' = Some (rel_to r)"
  shows "visited U F (X - {rel_to r}) (add_succ t r pl)" "r \<in> set (succ_at (add_succ t r pl) t)"
proof -
  note V = visitedD [OF assms(1)]
  have to: "rel_to r < tensor_count pl" by (rule visit_okD(7) [OF V(1) assms(7)])
  show new: "r \<in> set (succ_at (add_succ t r pl) t)" using assms(2) by (simp add: succ_add_succ)
  have "covered (add_succ t r pl) (rel_to r)" using new assms(2) by (auto simp: covered_def)
  moreover have "fed F (add_succ t r pl)" using V(2) assms(5-7) by (auto simp: fed_def succ_add_succ)
  moreover have "visit_ok U (add_succ t r pl)" by (rule visit_ok_add_succ [OF V(1) to assms(3,4)])
  moreover have "s \<in> X - {rel_to r} \<or> covered (add_succ t r pl) s" if "s < tensor_count pl" for s
    using V(3) [OF that] covered_extended [OF _ extended_add_succ] calculation(1) by blast
  ultimately show "visited U F (X - {rel_to r}) (add_succ t r pl)" by (simp add: visited_def)
qed

lemma visited_mono: "visited U F X pl \<Longrightarrow> X \<subseteq> Y \<Longrightarrow> visited U F Y pl"
  by (auto simp: visited_def)

lemma GetTensor_visited:
  assumes "GetTensor fn sh is_input pl = Ok (t, pl')" "visited U F X pl" "(fn, sh) \<in> U"
  shows "visited U F (if is_input then X else insert t X) pl'" "extended pl pl'" "fold_map pl' fn = Some t"
proof -
  note V = visitedD [OF assms(2)]
  note G = GetTensor_ok [OF assms(1) V(1) assms(3)]
  show ext: "extended pl pl'" and t: "fold_map pl' fn = Some t" by (rule G)+
  have "fed F pl'"
    unfolding fed_def
  proof (intro allI impI ballI)
    fix s r assume s: "s < tensor_count pl'" and r: "r \<in> set (succ_at pl' s)"
    from G(4) [OF s] r have old: "s < tensor_count pl" "r \<in> set (succ_at pl s)" by auto
    with V(2) obtain f f' where "(f, f') \<in> F" "fold_map pl f = Some s" "fold_map pl f' = Some (rel_to r)"
      unfolding fed_def by blast
    then show "\<exists>(fn, fn') \<in> F. fold_map pl' fn = Some s \<and> fold_map pl' fn' = Some (rel_to r)"
      using extendedD(1) [OF ext] by blast
  qed
  moreover have "s \<in> (if is_input then X else insert t X) \<or> covered pl' s" if s: "s < tensor_count pl'" for s
    using G(4) [OF s]
  proof
    assume "s < tensor_count pl \<and> fold_tensor pl' s = fold_tensor pl s"
    then show ?thesis using V(3) [of s] covered_extended [OF _ ext] by auto
  qed (use t in \<open>auto simp: covered_def\<close>)
  ultimately show "visited U F (if is_input then X else insert t X) pl'" using G(1) by (simp add: visited_def)
qed

lemma fold_call_inputs_visited:
  "fold_call_inputs args pl = Ok (ts, pl') \<Longrightarrow> visited U F X pl \<Longrightarrow> set (concat (map arg_uses args)) \<subseteq> U \<Longrightarrow>
     visited U F X pl' \<and> extended pl pl' \<and> list_all2 (\<lambda>t u. fold_map pl' (fst u) = Some t) ts (concat (map arg_uses args))"
proof (induction args pl arbitrary: ts pl' rule: fold_call_inputs.induct)
  case (2 ty ct n args fn i es pl)
  from "2.prems"(1) obtain t pl1 us where run: "GetTensor fn args True pl = Ok (t, pl1)" "fold_call_inputs es pl1 = Ok (us, pl')"
    and ts: "ts = t # us" by (auto simp: res_bind_Ok_conv)
  have "(fn, args) \<in> U" using "2.prems"(3) by simp
  note G = GetTensor_visited [OF run(1) "2.prems"(2) this, simplified]
  have IH: "visited U F X pl'" "extended pl1 pl'" "list_all2 (\<lambda>t u. fold_map pl' (fst u) = Some t) us (concat (map arg_uses es))"
    using "2.IH" [OF run(1) refl run(2) G(1)] "2.prems"(3) by simp_all
  then show ?case using extended_trans [OF G(2) IH(2)] extendedD(1) [OF IH(2) G(3)] by (simp add: ts)
qed auto

section \<open>The relations of the operators\<close>

lemma add_relation_visited:
  assumes "FoldRelation t r ds pl = Ok pl1" "visited U F X pl" "forward_commit r = - 1" "backward_commit r = - 1"
    and "(fn, fn') \<in> F" "fold_map pl fn = Some t" "fold_map pl fn' = Some (rel_to r)"
  shows "visited U F (X - {rel_to r}) (add_succ t r pl1)" "extended pl (add_succ t r pl1)" "r \<in> set (succ_at (add_succ t r pl1) t)"
    and "fold_map (add_succ t r pl1) = fold_map pl"
    and "Suc k < length ds \<Longrightarrow> ds ! k \<in> starts (dims_at (add_succ t r pl1) t)"
    and "Suc k < length ds \<Longrightarrow> forward_mapping r ! (ds ! k) \<noteq> - 1 \<Longrightarrow> forward_mapping r ! (nat (int (ds ! Suc k) - 1)) \<noteq> - 1 \<Longrightarrow>
      nat (forward_mapping r ! (ds ! k)) \<in> starts (dims_at (add_succ t r pl1) (rel_to r))"
proof -
  note V = visitedD(1) [OF assms(2)]
  have t: "t < tensor_count pl" "rel_to r < tensor_count pl" using visit_okD(7) [OF V] assms(6,7) by blast+
  note R = FoldRelation_ok [OF assms(1) visit_okD(1) [OF V] t]
  have D: "tensor_count pl1 = tensor_count pl" "fold_map pl1 = fold_map pl"
    using refinedD(1,2) [OF updatedD(1) [OF R(1)]] .
  have "visited U F X pl1" by (rule visited_updated [OF assms(2) R(1)])
  from visited_add_succ [OF this _ assms(3-5)] t D assms(6,7)
  show "visited U F (X - {rel_to r}) (add_succ t r pl1)" "r \<in> set (succ_at (add_succ t r pl1) t)" by simp_all
  show "extended pl (add_succ t r pl1)" by (rule extended_trans [OF updated_extended [OF R(1)] extended_add_succ])
  show "fold_map (add_succ t r pl1) = fold_map pl" by (simp add: D)
  show "Suc k < length ds \<Longrightarrow> ds ! k \<in> starts (dims_at (add_succ t r pl1) t)"
    "Suc k < length ds \<Longrightarrow> forward_mapping r ! (ds ! k) \<noteq> - 1 \<Longrightarrow> forward_mapping r ! (nat (int (ds ! Suc k) - 1)) \<noteq> - 1 \<Longrightarrow>
      nat (forward_mapping r ! (ds ! k)) \<in> starts (dims_at (add_succ t r pl1) (rel_to r))"
    using R(2,3) t D(1) by (simp_all add: add_succ_tensor)
qed

lemma group_starts_nth:
  assumes "g \<in> set (group_starts f n)" "g < n"
  obtains k where "Suc k < length (group_starts f n)" "group_starts f n ! k = g" "g < group_starts f n ! Suc k" "group_starts f n ! Suc k \<le> n"
proof -
  let ?xs = "filter (\<lambda>i. i = 0 \<or> f i \<noteq> f (i - 1)) [0..<n]"
  have "g \<in> set ?xs" using assms by (auto simp: group_starts_def)
  then obtain k where k: "k < length ?xs" "?xs ! k = g" unfolding in_set_conv_nth by blast
  have sorted: "sorted_wrt (<) (group_starts f n)"
    by (auto simp: group_starts_def sorted_wrt_append intro: sorted_wrt_filter)
  have "Suc k < length (group_starts f n)" "group_starts f n ! k = g" using k by (simp_all add: group_starts_def nth_append)
  moreover from this have "g < group_starts f n ! Suc k" using sorted by (auto simp: sorted_wrt_iff_nth_less)
  moreover have "x \<le> n" if "x \<in> set (group_starts f n)" for x using that by (auto simp: group_starts_def)
  then have "group_starts f n ! Suc k \<le> n" using calculation(1) nth_mem by blast
  ultimately show ?thesis by (rule that)
qed

definition elem_related :: "DimensionFolderPlan \<Rightarrow> nat \<Rightarrow> nat \<Rightarrow> bool" where
  "elem_related pl i out \<longleftrightarrow> (let ish = fold_shape (fold_tensor pl i); osh = fold_shape (fold_tensor pl out) in
     ish \<noteq> [] \<and> length ish \<le> length osh \<and> (\<exists>r \<in> set (succ_at pl i). bare r = bare (elem_relation out ish osh)) \<and>
     (\<forall>g \<in> set (elem_groups ish osh). g < length ish \<longrightarrow> g \<in> starts (dims_at pl i) \<and>
        (broadcast_prefix ish osh \<le> g \<longrightarrow> g + (length osh - length ish) \<in> starts (dims_at pl out))))"

lemma elem_related_extended:
  assumes "elem_related pl i out" "extended pl pl'" "i < tensor_count pl" "out < tensor_count pl"
  shows "elem_related pl' i out"
proof -
  note D = extendedD [OF assms(2)]
  have shape: "fold_shape (fold_tensor pl' i) = fold_shape (fold_tensor pl i)" "fold_shape (fold_tensor pl' out) = fold_shape (fold_tensor pl out)"
    using D(4) assms(3,4) by simp_all
  have succ: "\<exists>r' \<in> set (succ_at pl' i). bare r' = b" if "\<exists>r \<in> set (succ_at pl i). bare r = b" for b
    using that D(6) [OF assms(3)] by fastforce
  show ?thesis
    using assms(1) D(5) [OF assms(3)] D(5) [OF assms(4)] succ unfolding elem_related_def shape Let_def by blast
qed

lemma elem_relation_nth:
  assumes "i < length ish"
  shows "forward_mapping (elem_relation out ish osh) ! i = (if i < broadcast_prefix ish osh then - 1 else int (i + (length osh - length ish)))"
  using assms by (simp add: elem_relation_def Let_def)

lemma elem_relation_simps [simp]:
  "rel_to (elem_relation out ish osh) = out" "forward_commit (elem_relation out ish osh) = - 1" "backward_commit (elem_relation out ish osh) = - 1"
  by (simp_all add: elem_relation_def Let_def new_relation_def)

lemma AddElem_visited:
  assumes "Fold_AddElemBroadRelation i out pl = Ok pl'" "\<not> give_up pl'" "visited U F X pl"
    and "(fn, fn') \<in> F" "fold_map pl fn = Some i" "fold_map pl fn' = Some out"
  shows "visited U F (X - {out}) pl'" "extended pl pl'" "elem_related pl' i out" "fold_map pl' = fold_map pl"
proof -
  define ish osh where "ish = fold_shape (fold_tensor pl i)" and "osh = fold_shape (fold_tensor pl out)"
  define r where "r = elem_relation out ish osh"
  obtain pl1 where run: "FoldRelation i r (elem_groups ish osh) pl = Ok pl1" and pl': "pl' = add_succ i r pl1"
    and len: "length ish \<le> length osh" "ish \<noteq> []"
    using assms(1,2) unfolding Fold_AddElemBroadRelation_def Let_def r_def ish_def [symmetric] osh_def [symmetric]
    by (auto simp: res_bind_Ok_conv not_less split: if_splits)
  have "forward_commit r = - 1" "backward_commit r = - 1" "fold_map pl fn' = Some (rel_to r)" by (simp_all add: r_def assms(6))
  note A = add_relation_visited [OF run assms(3) this(1,2) assms(4,5) this(3)]
  show "visited U F (X - {out}) pl'" "extended pl pl'" "fold_map pl' = fold_map pl"
    using A(1,2,4) by (simp_all add: pl' r_def)
  have t: "i < tensor_count pl" "out < tensor_count pl"
    using visit_okD(7) [OF visitedD(1) [OF assms(3)]] assms(5,6) by blast+
  have shape: "fold_shape (fold_tensor pl' i) = ish" "fold_shape (fold_tensor pl' out) = osh"
    using extendedD(4) [OF \<open>extended pl pl'\<close>] t by (simp_all add: ish_def osh_def)
  have "g \<in> starts (dims_at pl' i) \<and> (broadcast_prefix ish osh \<le> g \<longrightarrow> g + (length osh - length ish) \<in> starts (dims_at pl' out))"
    if g: "g \<in> set (elem_groups ish osh)" "g < length ish" for g
  proof -
    obtain k where k: "Suc k < length (elem_groups ish osh)" "elem_groups ish osh ! k = g"
      "g < elem_groups ish osh ! Suc k" "elem_groups ish osh ! Suc k \<le> length ish"
      using g unfolding elem_groups_def by (rule group_starts_nth)
    have "nat (int (elem_groups ish osh ! Suc k) - 1) < length ish" "g \<le> nat (int (elem_groups ish osh ! Suc k) - 1)"
      using k(3,4) by linarith+
    then have m: "broadcast_prefix ish osh \<le> g \<Longrightarrow> forward_mapping r ! nat (int (elem_groups ish osh ! Suc k) - 1) \<noteq> - 1"
      unfolding r_def by (subst elem_relation_nth) auto
    show ?thesis
    proof (intro conjI impI)
      show "g \<in> starts (dims_at pl' i)" using A(5) [OF k(1)] by (simp add: k(2) pl')
      assume le: "broadcast_prefix ish osh \<le> g"
      then have "forward_mapping r ! g = int (g + (length osh - length ish))" unfolding r_def by (subst elem_relation_nth [OF g(2)]) simp
      with A(6) [OF k(1) _ m [OF le]] show "g + (length osh - length ish) \<in> starts (dims_at pl' out)"
        unfolding k(2) pl' r_def elem_relation_simps by (metis nat_int of_nat_0_le_iff neg_0_le_iff_le not_one_le_zero)
    qed
  qed
  moreover have "\<exists>r \<in> set (succ_at pl' i). bare r = bare (elem_relation out ish osh)" using A(3) unfolding pl' r_def by blast
  ultimately show "elem_related pl' i out" using len unfolding elem_related_def Let_def shape by blast
qed

lemma AddReduce_visited:
  assumes "Fold_AddReduceRelation i out axis pl = Ok pl'" "visited U F X pl"
    and "(fn, fn') \<in> F" "fold_map pl fn = Some i" "fold_map pl fn' = Some out"
  shows "visited U F (X - {out}) pl'" "extended pl pl'"
proof -
  obtain r ds pl1 where run: "FoldRelation i r ds pl = Ok pl1" and pl': "pl' = add_succ i r pl1"
    and r: "rel_to r = out" "forward_commit r = - 1" "backward_commit r = - 1"
    using assms(1) by (auto simp: Fold_AddReduceRelation_def reduce_relation_def new_relation_def Let_def res_bind_Ok_conv)
  from add_relation_visited [OF run assms(2) r(2,3) assms(3,4)] assms(5)
  show "visited U F (X - {out}) pl'" "extended pl pl'" by (simp_all add: pl' r(1))
qed

lemma AddTranspose_visited:
  assumes "Fold_AddTransposeRelation i out perm pl = Ok pl'" "visited U F X pl"
    and "(fn, fn') \<in> F" "fold_map pl fn = Some i" "fold_map pl fn' = Some out"
  shows "visited U F (X - {out}) pl'" "extended pl pl'"
proof -
  obtain r ds pl1 where run: "FoldRelation i r ds pl = Ok pl1" and pl': "pl' = add_succ i r pl1"
    and r: "rel_to r = out" "forward_commit r = - 1" "backward_commit r = - 1"
    using assms(1) by (auto simp: Fold_AddTransposeRelation_def new_relation_def Let_def res_bind_Ok_conv)
  from add_relation_visited [OF run assms(2) r(2,3) assms(3,4)] assms(5)
  show "visited U F (X - {out}) pl'" "extended pl pl'" by (simp_all add: pl' r(1))
qed

text \<open>What an operator reads for what it writes.\<close>

fun feeds :: "Func \<times> Expr \<times> Expr list \<Rightarrow> (Func \<times> Func) list" where
  "feeds (fn, CallE ty ct op args f i, sh) =
     (let ins = map fst (concat (map arg_uses args)) in
      if op = ''InplaceAssign'' then (case ins of [a, b, c] \<Rightarrow> [(b, a), (c, fn)] | _ \<Rightarrow> [])
      else map (\<lambda>x. (x, fn)) ins)"
| "feeds (fn, v, sh) = []"

lemma for_each_elem:
  assumes "for_each (\<lambda>i. Fold_AddElemBroadRelation i out) inputs pl = Ok pl'" "\<not> give_up pl'" "visited U F X pl"
    and "fold_map pl fn' = Some out" "\<forall>t \<in> set inputs. \<exists>fn. (fn, fn') \<in> F \<and> fold_map pl fn = Some t"
  shows "visited U F (if inputs = [] then X else X - {out}) pl' \<and> extended pl pl' \<and> (\<forall>t \<in> set inputs. elem_related pl' t out)"
  using assms
proof (induction inputs arbitrary: pl X)
  case (Cons t inputs)
  obtain pl1 where run: "Fold_AddElemBroadRelation t out pl = Ok pl1" "for_each (\<lambda>i. Fold_AddElemBroadRelation i out) inputs pl1 = Ok pl'"
    using Cons.prems(1) by (auto simp: res_bind_Ok_conv)
  have no: "\<not> give_up pl1"
    using for_each_invariant [where P = give_up and f = "\<lambda>i. Fold_AddElemBroadRelation i out", OF _ _ run(2)] Cons.prems(2) AddElem_give_up by blast
  obtain fn where fn: "(fn, fn') \<in> F" "fold_map pl fn = Some t" using Cons.prems(5) by auto
  note A = AddElem_visited [OF run(1) no Cons.prems(3) fn Cons.prems(4)]
  have IH: "visited U F (if inputs = [] then X - {out} else X - {out} - {out}) pl'" "extended pl1 pl'" "\<forall>t \<in> set inputs. elem_related pl' t out"
    using Cons.IH [OF run(2) Cons.prems(2) A(1)] Cons.prems(4,5) by (simp_all add: A(4))
  have "visited U F (X - {out}) pl'" using IH(1) by (cases "inputs = []") simp_all
  moreover have "t < tensor_count pl1" "out < tensor_count pl1"
    using visit_okD(7) [OF visitedD(1) [OF A(1)]] fn(2) Cons.prems(4) A(4) by metis+
  then have "elem_related pl' t out" by (rule elem_related_extended [OF A(3) IH(2)])
  ultimately show ?case using IH(3) extended_trans [OF A(2) IH(2)] by simp
qed simp

lemma visited_perm [simp]: "visited U F X (pl\<lparr>transpose_perm := xs\<rparr>) = visited U F X pl" "visited U F X (pl\<lparr>reduce_axis := xs\<rparr>) = visited U F X pl"
  by (simp_all add: visited_def visit_ok_def fed_def covered_def plan_ok_def block_count_def)

lemma extended_perm [simp]: "extended pl (pl'\<lparr>transpose_perm := xs\<rparr>) = extended pl pl'" "extended pl (pl'\<lparr>reduce_axis := xs\<rparr>) = extended pl pl'"
  by (simp_all add: extended_def)

definition related_inputs :: "DimensionFolderPlan \<Rightarrow> string \<Rightarrow> nat list \<Rightarrow> nat \<Rightarrow> bool" where
  "related_inputs pl op inputs out \<longleftrightarrow> (IsElemwise op \<or> op = ''BroadcastTo'' \<longrightarrow> (\<forall>t \<in> set inputs. elem_related pl t out))"

lemma other_ops [simp]:
  "\<not> IsElemwise ''InplaceAssign''" "\<not> IsElemwise ''Transpose''" "\<not> IsElemwise ''ElemAny''"
  "\<not> IsReduce_op ''InplaceAssign''" "\<not> IsReduce_op ''Transpose''" "\<not> IsReduce_op ''ElemAny''" "\<not> IsReduce_op ''BroadcastTo''"
  by (simp_all add: IsElemwise_def IsOtherOp_def IsReduce_op_def)

lemma fold_relations_visited:
  assumes "fold_relations op inputs out pl = Ok pl'" "\<not> give_up pl'" "visited U F X pl"
    and "fold_map pl fn' = Some out" "list_all2 (\<lambda>t u. fold_map pl (fst u) = Some t) inputs (concat (map arg_uses args))"
    and "set (feeds (fn', CallE ty ct op args f i, sh)) \<subseteq> F"
  shows "visited U F (if inputs = [] then X else X - {out}) pl' \<and> extended pl pl' \<and> related_inputs pl' op inputs out"
proof -
  define ins where "ins = map fst (concat (map arg_uses args))"
  have ins: "list_all2 (\<lambda>t x. fold_map pl x = Some t) inputs ins" using assms(5) by (simp add: ins_def list.rel_map)
  have F: "set (if op = ''InplaceAssign'' then (case ins of [a, b, c] \<Rightarrow> [(b, a), (c, fn')] | _ \<Rightarrow> []) else map (\<lambda>x. (x, fn')) ins) \<subseteq> F"
    using assms(6) unfolding feeds.simps Let_def ins_def [symmetric] .
  have input: "\<exists>fn. (fn, fn') \<in> F \<and> fold_map pl fn = Some t" if t: "t \<in> set inputs" "op \<noteq> ''InplaceAssign''" for t
  proof -
    obtain j where "j < length inputs" "inputs ! j = t" using t(1) by (auto simp: in_set_conv_nth)
    with ins have "ins ! j \<in> set ins" "fold_map pl (ins ! j) = Some t" by (auto simp: list_all2_conv_all_nth)
    then obtain x where "x \<in> set ins" "fold_map pl x = Some t" by blast
    with F t(2) show ?thesis by auto
  qed
  have first: "\<exists>fn. (fn, fn') \<in> F \<and> fold_map pl fn = Some (inputs ! 0)" if "inputs \<noteq> []" "op \<noteq> ''InplaceAssign''"
    using input [OF _ that(2)] that(1) by simp
  consider (elem) "IsElemwise op \<or> op = ''BroadcastTo''" | (reduce) "\<not> (IsElemwise op \<or> op = ''BroadcastTo'')" "IsReduce_op op"
    | (inplace) "op = ''InplaceAssign''" "\<not> (IsElemwise op \<or> op = ''BroadcastTo'')" "\<not> IsReduce_op op"
    | (transpose) "op = ''Transpose''" | (any) "op = ''ElemAny''"
    | (other) "\<not> (IsElemwise op \<or> op = ''BroadcastTo'')" "\<not> IsReduce_op op" "op \<noteq> ''InplaceAssign''" "op \<noteq> ''Transpose''" "op \<noteq> ''ElemAny''" by blast
  then show ?thesis
  proof cases
    case elem
    then have ne: "op \<noteq> ''InplaceAssign''" by auto
    have "for_each (\<lambda>i. Fold_AddElemBroadRelation i out) inputs pl = Ok pl'" using assms(1) elem by (simp add: fold_relations_def)
    from for_each_elem [OF this assms(2-4)] input ne show ?thesis by (simp add: related_inputs_def)
  next
    case reduce
    then have ne: "op \<noteq> ''InplaceAssign''" by auto
    have run: "length inputs = 1" "Fold_AddReduceRelation (inputs ! 0) out (reduce_axis pl) pl = Ok pl'"
      using assms(1) reduce by (auto simp: fold_relations_def res_bind_Ok_conv)
    then obtain fn where fn: "(fn, fn') \<in> F" "fold_map pl fn = Some (inputs ! 0)" using first [OF _ ne] by fastforce
    from AddReduce_visited [OF run(2) assms(3) fn assms(4)] run(1) reduce show ?thesis by (auto simp: related_inputs_def)
  next
    case inplace
    then obtain pl1 where run: "length inputs = 3" "Fold_AddElemBroadRelation (inputs ! 1) (inputs ! 0) pl = Ok pl1"
      "Fold_AddElemBroadRelation (inputs ! 2) out pl1 = Ok pl'"
      using assms(1) by (auto simp: fold_relations_def res_bind_Ok_conv)
    have "length ins = 3" using run(1) list_all2_lengthD [OF ins] by simp
    then obtain a b c where abc: "ins = [a, b, c]" by (auto simp: numeral_3_eq_3 length_Suc_conv)
    have maps: "fold_map pl a = Some (inputs ! 0)" "fold_map pl b = Some (inputs ! 1)" "fold_map pl c = Some (inputs ! 2)"
      using ins by (auto simp: abc list_all2_Cons2)
    have fed: "(b, a) \<in> F" "(c, fn') \<in> F" using F inplace(1) by (simp_all add: abc)
    have no: "\<not> give_up pl1" using AddElem_give_up [OF run(3)] assms(2) by blast
    note A = AddElem_visited [OF run(2) no assms(3) fed(1) maps(2,1)]
    note B = AddElem_visited [OF run(3) assms(2) A(1) fed(2), unfolded A(4), OF maps(3) assms(4)]
    have "visited U F (X - {out}) pl'" using B(1) by (rule visited_mono) auto
    moreover have "inputs \<noteq> []" using run(1) by auto
    ultimately show ?thesis using extended_trans [OF A(2) B(2)] inplace(2) by (simp add: related_inputs_def)
  next
    case transpose
    then obtain pl1 where run: "inputs \<noteq> []" "Fold_AddTransposeRelation (inputs ! 0) out (transpose_perm pl) pl = Ok pl1"
      "pl' = pl1\<lparr>transpose_perm := []\<rparr>"
      using assms(1) by (auto simp: fold_relations_def res_bind_Ok_conv vec_at_Ok_conv)
    then obtain fn where fn: "(fn, fn') \<in> F" "fold_map pl fn = Some (inputs ! 0)" using first transpose by auto
    from AddTranspose_visited [OF run(2) assms(3) fn assms(4)] run(1,3) transpose show ?thesis
      by (simp add: related_inputs_def)
  next
    case any
    then obtain axis where run: "inputs \<noteq> []" "Fold_AddReduceRelation (inputs ! 0) out axis pl = Ok pl'"
      using assms(1) by (auto simp: fold_relations_def res_bind_Ok_conv vec_at_Ok_conv)
    then obtain fn where fn: "(fn, fn') \<in> F" "fold_map pl fn = Some (inputs ! 0)" using first any by auto
    from AddReduce_visited [OF run(2) assms(3) fn assms(4)] run(1) any show ?thesis by (simp add: related_inputs_def)
  next
    case other
    then have "give_up pl'" using assms(1) by (auto simp: fold_relations_def)
    with assms(2) show ?thesis by simp
  qed
qed

end
