(* ===== verification/Composite_Fold_Statement.thy ===== *)
theory Composite_Fold_Statement
  imports Composite_Fold_Relations
begin

text \<open>
  The plan of a statement: what the visit leaves for all its operators, and what the rounds make of it.
\<close>

section \<open>The operators of a statement\<close>

definition flow :: "Stmt \<Rightarrow> (Func \<times> Func) list" where
  "flow s = concat (map feeds (provides s))"

text \<open>Nothing is read for what it is computed from: \<open>rf\<close> orders the tensors.\<close>

definition well_fed :: "(Func \<Rightarrow> nat) \<Rightarrow> Stmt \<Rightarrow> bool" where
  "well_fed rf s \<longleftrightarrow> list_all (\<lambda>(x, y). rf x < rf y) (flow s)"

fun elementwise :: "Expr \<Rightarrow> bool" where
  "elementwise (CallE ty ct op args f i) \<longleftrightarrow> IsElemwise op \<or> op = ''BroadcastTo''"
| "elementwise e \<longleftrightarrow> False"

fun elem_provide :: "DimensionFolderPlan \<Rightarrow> Func \<times> Expr \<times> Expr list \<Rightarrow> bool" where
  "elem_provide pl (fn, v, sh) \<longleftrightarrow> (elementwise v \<longrightarrow> (\<forall>u \<in> set (provide_uses v).
     \<exists>i out. fold_map pl (fst u) = Some i \<and> fold_map pl fn = Some out \<and> elem_related pl i out))"

lemma elem_provide_extended:
  assumes "elem_provide pl p" "extended pl pl'" "visited U F X pl"
  shows "elem_provide pl' p"
proof (cases p)
  case (fields fn v sh)
  have "\<exists>i out. fold_map pl' (fst u) = Some i \<and> fold_map pl' fn = Some out \<and> elem_related pl' i out"
    if u: "elementwise v" "u \<in> set (provide_uses v)" for u
  proof -
    obtain i out where t: "fold_map pl (fst u) = Some i" "fold_map pl fn = Some out" "elem_related pl i out"
      using assms(1) u unfolding fields elem_provide.simps by blast
    have "i < tensor_count pl" "out < tensor_count pl" using visit_okD(7) [OF visitedD(1) [OF assms(3)]] t by blast+
    from elem_related_extended [OF t(3) assms(2) this] extendedD(1) [OF assms(2)] t(1,2) show ?thesis by blast
  qed
  then show ?thesis by (simp add: fields)
qed

lemma visited_inputs:
  assumes "visited U F X pl" "fold_map pl fn = Some out"
  shows "visited U F (X - {out}) (pl\<lparr>fold_inputs := fold_inputs pl @ [fn]\<rparr>)"
  using assms visit_okD(11) [OF visitedD(1) [OF assms(1)]]
  by (auto simp: visited_def visit_ok_def fed_def covered_def plan_ok_def block_count_def)

lemma extended_inputs: "extended pl (pl\<lparr>fold_inputs := fold_inputs pl @ fs\<rparr>)"
  by (simp add: extended_def)

lemma fold_visit_provide_visited:
  assumes "fold_visit_provide fn v sh pl = Ok pl'" "\<not> give_up pl'" "visited U F {} pl"
    and "set (provide_uses v @ [(fn, sh)]) \<subseteq> U" "set (feeds (fn, v, sh)) \<subseteq> F"
  shows "visited U F {} pl' \<and> extended pl pl' \<and> elem_provide pl' (fn, v, sh)"
proof -
  obtain out pl1 ty ct op args f i inputs pl2 where run: "GetTensor fn sh False pl = Ok (out, pl1)"
    "fold_call_inputs args pl1 = Ok (inputs, pl2)"
    "fold_relations op inputs out (if inputs = [] then pl2\<lparr>fold_inputs := fold_inputs pl2 @ [fn]\<rparr> else pl2) = Ok pl'"
    and v: "v = CallE ty ct op args f i"
    using assms(1) by (cases v) (auto simp: fold_visit_provide_def res_bind_Ok_conv)
  have "(fn, sh) \<in> U" using assms(4) by simp
  note G = GetTensor_visited [OF run(1) assms(3) this, simplified]
  have I: "visited U F {out} pl2" "extended pl1 pl2" "list_all2 (\<lambda>t u. fold_map pl2 (fst u) = Some t) inputs (concat (map arg_uses args))"
    using fold_call_inputs_visited [OF run(2) G(1)] assms(4) by (auto simp: v)
  have out: "fold_map pl2 fn = Some out" by (rule extendedD(1) [OF I(2) G(3)])
  have sub: "set (feeds (fn, CallE ty ct op args f i, sh)) \<subseteq> F" using assms(5) by (simp only: v)
  have ext: "extended pl pl2" by (rule extended_trans [OF G(2) I(2)])
  have "visited U F {} pl' \<and> extended pl pl' \<and> related_inputs pl' op inputs out \<and> extended pl2 pl'"
  proof (cases "inputs = []")
    case True
    define pl3 where "pl3 = pl2\<lparr>fold_inputs := fold_inputs pl2 @ [fn]\<rparr>"
    have pl3: "visited U F {} pl3" "extended pl2 pl3" "fold_map pl3 fn = Some out"
      "list_all2 (\<lambda>t u. fold_map pl3 (fst u) = Some t) inputs (concat (map arg_uses args))"
      using visited_inputs [OF I(1) out] extended_inputs out I(3) by (simp_all add: pl3_def)
    have "fold_relations op inputs out pl3 = Ok pl'" using run(3) True by (simp add: pl3_def)
    from fold_relations_visited [OF this assms(2) pl3(1,3,4) sub] True
    show ?thesis using extended_trans [OF ext] extended_trans [OF pl3(2)] pl3(2) by auto
  next
    case False
    then have "fold_relations op inputs out pl2 = Ok pl'" using run(3) by simp
    from fold_relations_visited [OF this assms(2) I(1) out I(3) sub] False
    show ?thesis using extended_trans [OF ext] by auto
  qed
  moreover from this have "elem_provide pl' (fn, v, sh)"
  proof -
    assume *: "visited U F {} pl' \<and> extended pl pl' \<and> related_inputs pl' op inputs out \<and> extended pl2 pl'"
    have maps: "fold_map pl2 x = Some t \<Longrightarrow> fold_map pl' x = Some t" for x t using * extendedD(1) by blast
    have "\<exists>i out. fold_map pl' (fst u) = Some i \<and> fold_map pl' fn = Some out \<and> elem_related pl' i out"
      if el: "elementwise v" and u: "u \<in> set (provide_uses v)" for u
    proof -
      obtain j where "j < length (concat (map arg_uses args))" "concat (map arg_uses args) ! j = u"
        using u by (auto simp: v in_set_conv_nth simp del: set_concat)
      with I(3) have j: "inputs ! j \<in> set inputs" "fold_map pl2 (fst u) = Some (inputs ! j)"
        by (auto simp: list_all2_conv_all_nth simp del: length_concat)
      have "elem_related pl' (inputs ! j) out" using * el j(1) unfolding related_inputs_def v elementwise.simps by blast
      with maps [OF j(2)] maps [OF out] show ?thesis by blast
    qed
    then show ?thesis by simp
  qed
  ultimately show ?thesis by blast
qed

lemma fold_visit_attrs_visited:
  "fold_visit_attrs m pl = Ok pl' \<Longrightarrow> visited U F X pl \<Longrightarrow> visited U F X pl' \<and> extended pl pl'"
  by (auto simp: fold_visit_attrs_def res_bind_Ok_conv split: option.splits)

lemma flow_simps [simp]: "flow (Block a b) = flow a @ flow b" "flow (Provide fn i v sh) = feeds (fn, v, sh)"
  by (simp_all add: flow_def)

text \<open>What the visit does with a statement and leaves of one before it.\<close>

definition visits :: "(Func \<times> Expr list) set \<Rightarrow> (Func \<times> Func) set \<Rightarrow> Stmt \<Rightarrow> DimensionFolderPlan \<Rightarrow> DimensionFolderPlan \<Rightarrow> bool" where
  "visits U F s pl pl' \<longleftrightarrow> visited U F {} pl' \<and> extended pl pl' \<and> (\<forall>p \<in> set (provides s). elem_provide pl' p)"

lemma visits_Block:
  "visits U F a pl pl1 \<Longrightarrow> visits U F b pl1 pl' \<Longrightarrow> visits U F (Block a b) pl pl'"
  unfolding visits_def using extended_trans elem_provide_extended by auto

lemma fold_visit_visited:
  "fold_visit map_node s pl = Ok pl' \<Longrightarrow> \<not> give_up pl' \<Longrightarrow> visited U F {} pl \<Longrightarrow> set (tensor_uses s) \<subseteq> U \<Longrightarrow> set (flow s) \<subseteq> F \<Longrightarrow>
     visits U F s pl pl'"
proof (induction map_node s pl arbitrary: pl' rule: fold_visit.induct)
  case (1 map_node n k e b pl)
  show ?case
  proof (cases "k = ''attrs''")
    case True
    with "1.prems"(1) obtain m pl1 where run: "map_node n = Some m" "fold_visit_attrs m pl = Ok pl1" "fold_visit map_node b pl1 = Ok pl'"
      by (auto simp: res_bind_Ok_conv split: option.splits)
    have pl1: "visited U F {} pl1" "extended pl pl1" using fold_visit_attrs_visited [OF run(2) "1.prems"(3)] by simp_all
    have "visits U F b pl1 pl'" using "1.IH"(1) [OF True run(1,2,3) "1.prems"(2) pl1(1)] "1.prems"(4,5) by (simp add: flow_def)
    then show ?thesis using extended_trans [OF pl1(2)] by (simp add: visits_def)
  next
    case False
    with "1" show ?thesis by (simp add: visits_def flow_def)
  qed
next
  case (2 map_node fn i v shape pl)
  then show ?case using fold_visit_provide_visited [of fn v shape pl pl' U F] by (simp add: visits_def)
next
  case (9 map_node a b pl)
  from "9.prems"(1) obtain pl1 where run: "fold_visit map_node a pl = Ok pl1" "fold_visit map_node b pl1 = Ok pl'"
    by (auto simp: res_bind_Ok_conv)
  have no: "\<not> give_up pl1" using fold_visit_give_up [OF run(2)] "9.prems"(2) by blast
  have a: "visits U F a pl pl1" using "9.IH"(1) [OF run(1) no "9.prems"(3)] "9.prems"(4,5) by simp
  then have "visits U F b pl1 pl'" using "9.IH"(2) [OF run(1,2) "9.prems"(2)] "9.prems"(4,5) by (simp add: visits_def)
  with a show ?case by (rule visits_Block)
next
  case (10 map_node c t e pl)
  from "10.prems"(1) obtain pl1 where run: "fold_visit map_node t pl = Ok pl1"
    "case e of Some s \<Rightarrow> fold_visit map_node s pl1 = Ok pl' | None \<Rightarrow> pl' = pl1"
    by (auto simp: res_bind_Ok_conv split: option.splits)
  show ?case
  proof (cases e)
    case None
    with run(2) have "pl1 = pl'" by simp
    with "10.IH"(1) [OF run(1)] "10.prems"(2-5) None show ?thesis by (simp add: visits_def flow_def)
  next
    case (Some s)
    with run(2) have s: "fold_visit map_node s pl1 = Ok pl'" by simp
    have no: "\<not> give_up pl1" using fold_visit_give_up [OF s] "10.prems"(2) by blast
    have t: "visits U F t pl pl1" using "10.IH"(1) [OF run(1) no "10.prems"(3)] "10.prems"(4,5) Some by (simp add: flow_def)
    then have "visits U F s pl1 pl'" using "10.IH"(2) [OF run(1) Some s "10.prems"(2)] "10.prems"(4,5) Some by (simp add: visits_def flow_def)
    with t have "visits U F (Block t s) pl pl'" by (rule visits_Block)
    then show ?thesis by (simp add: visits_def Some)
  qed
qed (simp_all add: visits_def flow_def)

lemma visited_empty: "visited U F {} empty_plan"
  by (simp add: visited_def visit_ok_def empty_plan_def plan_ok_def fed_def block_count_def)

section \<open>Errors of the visit\<close>

text \<open>Results that are not the end of the fuel.\<close>

abbreviation bounded :: "'a res \<Rightarrow> bool" where
  "bounded r \<equiv> ends_in (\<lambda>_. True) r"

lemma bounded_bind: "bounded r \<Longrightarrow> (\<And>x. r = Ok x \<Longrightarrow> bounded (f x)) \<Longrightarrow> bounded (res_bind r f)"
  by (rule ends_in_bind)

lemma bounded_if: "bounded a \<Longrightarrow> bounded b \<Longrightarrow> bounded (if c then a else b)"
  by simp

lemma bounded_for_each: "(\<And>x s. x \<in> set xs \<Longrightarrow> bounded (f x s)) \<Longrightarrow> bounded (for_each f xs s)"
  by (induction xs arbitrary: s) (simp_all add: bounded_bind)

lemma bounded_basic [simp]:
  "bounded (guard b e) \<longleftrightarrow> b \<or> e \<noteq> Out_of_fuel" "bounded (vec_at xs i)" "bounded (ExtractIntVector sh)"
proof -
  show "bounded (ExtractIntVector sh)" by (induction sh) (auto intro: bounded_bind split: option.splits)
qed (simp_all add: guard_def vec_at_def)

lemma bounded_UpdateFoldDim [simp]: "bounded (UpdateFoldDim t a b pl)"
  by (cases "UpdateFoldDim t a b pl") (auto dest: UpdateFoldDim_Err)

lemma bounded_fold_groups [simp]: "bounded (fold_groups t r a ns pl)"
  by (induction ns arbitrary: a pl) (auto simp: Let_def intro!: bounded_bind)

lemma bounded_relations [simp]:
  "bounded (FoldRelation t r ds pl)" "bounded (Fold_AddElemBroadRelation i out pl)" "bounded (Fold_AddReduceRelation i out axis pl)"
  "bounded (Fold_AddTransposeRelation i out perm pl)"
proof -
  show *: "bounded (FoldRelation t r ds pl)" for t r ds pl by (auto simp: FoldRelation_def intro!: bounded_bind)
  show "bounded (Fold_AddElemBroadRelation i out pl)" "bounded (Fold_AddReduceRelation i out axis pl)"
    using * by (auto simp: Fold_AddElemBroadRelation_def Fold_AddReduceRelation_def Let_def intro!: bounded_bind)
  show "bounded (Fold_AddTransposeRelation i out perm pl)"
    using * by (auto simp: Fold_AddTransposeRelation_def Let_def intro!: bounded_bind bounded_for_each)
qed

lemma bounded_GetTensor [simp]: "bounded (GetTensor fn sh b pl)"
  by (auto simp: GetTensor_def Let_def intro!: bounded_bind split: option.splits)

lemma bounded_fold_call_inputs [simp]: "bounded (fold_call_inputs args pl)"
  by (induction args pl rule: fold_call_inputs.induct) (auto intro!: bounded_bind)

lemma bounded_fold_relations [simp]: "bounded (fold_relations op inputs out pl)"
  unfolding fold_relations_def by (intro bounded_if bounded_bind bounded_for_each) simp_all

lemma bounded_fold_visit_attrs [simp]: "bounded (fold_visit_attrs m pl)"
  by (auto simp: fold_visit_attrs_def intro!: bounded_bind split: option.splits)

lemma bounded_fold_visit_provide [simp]: "bounded (fold_visit_provide fn v sh pl)"
  by (cases v) (auto simp: fold_visit_provide_def intro!: bounded_bind)

lemma bounded_fold_visit [simp]: "bounded (fold_visit map_node s pl)"
proof (induction map_node s pl rule: fold_visit.induct)
  case (1 map_node n k e b pl)
  then show ?case by (auto intro!: bounded_bind split: option.splits)
next
  case (9 map_node a b pl)
  then show ?case by (auto intro!: bounded_bind)
next
  case (10 map_node c t e pl)
  then show ?case by (auto intro!: bounded_bind split: option.splits)
qed simp_all

section \<open>The plan\<close>

definition input_tensors :: "DimensionFolderPlan \<Rightarrow> nat list res" where
  "input_tensors pl = for_each (\<lambda>fn ts. case fold_map pl fn of None \<Rightarrow> Err Fatal | Some t \<Rightarrow> Ok (ts @ [t])) (fold_inputs pl) []"

lemma input_tensors_Ok:
  assumes "input_tensors pl = Ok ts"
  shows "set ts = {t. \<exists>fn \<in> set (fold_inputs pl). fold_map pl fn = Some t}"
proof -
  have "for_each (\<lambda>fn ts. case fold_map pl fn of None \<Rightarrow> Err Fatal | Some t \<Rightarrow> Ok (ts @ [t])) fns us = Ok ts \<Longrightarrow>
      set ts = set us \<union> {t. \<exists>fn \<in> set fns. fold_map pl fn = Some t}" for fns us
    by (induction fns arbitrary: us) (auto simp: res_bind_Ok_conv split: option.splits)
  from this [OF assms [unfolded input_tensors_def]] show ?thesis by simp
qed

lemma bounded_input_tensors [simp]: "bounded (input_tensors pl)"
  by (auto simp: input_tensors_def intro!: bounded_for_each split: option.splits)

lemma Plan_unfold:
  "Plan map_node s =
     res_bind (fold_visit map_node s empty_plan) (\<lambda>pl.
       if give_up pl then Ok pl
       else
         res_bind (input_tensors pl) (\<lambda>inputs.
         res_bind (plan_loop inputs (Suc (nat (total_dims pl))) pl) (\<lambda>pl.
           Ok (if folded_dims pl = total_dims pl then pl\<lparr>give_up := True\<rparr> else pl))))"
  by (simp add: Plan_def input_tensors_def cong: if_cong)

abbreviation visited_stmt :: "Stmt \<Rightarrow> DimensionFolderPlan \<Rightarrow> bool" where
  "visited_stmt s pl \<equiv> visited (set (tensor_uses s)) (set (flow s)) {} pl"

lemma visit_Ok:
  assumes "fold_visit map_node s empty_plan = Ok pl" "\<not> give_up pl"
  shows "visited_stmt s pl" "\<forall>p \<in> set (provides s). elem_provide pl p"
  using fold_visit_visited [OF assms visited_empty subset_refl subset_refl] by (simp_all add: visits_def)

lemma plan_loop_visited:
  assumes "visited_stmt s pl" "input_tensors pl = Ok inputs"
  shows "ends_in (loop_done rk inputs pl) (plan_loop inputs (Suc (nat (total_dims pl))) pl)"
proof (rule plan_loop_ends)
  note V = visit_okD [OF visitedD(1) [OF assms(1)]]
  show "plan_ok pl" "forward_visited pl = {}" by (rule V)+
  show "set inputs \<subseteq> {..<tensor_count pl}" using V(7) by (auto simp: input_tensors_Ok [OF assms(2)])
  show "nat (total_dims pl - folded_dims pl) < Suc (nat (total_dims pl))" using V(4) by simp
qed

lemma bounded_Plan: "bounded (Plan map_node s)"
  unfolding Plan_unfold
proof (rule bounded_bind)
  fix pl assume run: "fold_visit map_node s empty_plan = Ok pl"
  show "bounded (if give_up pl then Ok pl
       else
         res_bind (input_tensors pl) (\<lambda>inputs.
         res_bind (plan_loop inputs (Suc (nat (total_dims pl))) pl) (\<lambda>pl.
           Ok (if folded_dims pl = total_dims pl then pl\<lparr>give_up := True\<rparr> else pl))))"
  proof (cases "give_up pl")
    case False
    have "bounded (plan_loop inputs (Suc (nat (total_dims pl))) pl)" if "input_tensors pl = Ok inputs" for inputs
      using plan_loop_visited [OF visit_Ok(1) [OF run False] that, of "\<lambda>_. 0"]
      by (cases "plan_loop inputs (Suc (nat (total_dims pl))) pl") simp_all
    then have "bounded (res_bind (input_tensors pl) (\<lambda>inputs.
         res_bind (plan_loop inputs (Suc (nat (total_dims pl))) pl) (\<lambda>pl.
           Ok (if folded_dims pl = total_dims pl then pl\<lparr>give_up := True\<rparr> else pl))))"
      by (intro bounded_bind bounded_input_tensors) (simp_all del: plan_loop.simps)
    with False show ?thesis by (simp only: if_False)
  qed simp
qed simp

text \<open>A plan that was not given up is what the rounds made of what the visit left.\<close>

lemma Plan_Ok:
  assumes "Plan map_node s = Ok pl" "\<not> give_up pl"
  obtains pl0 inputs where "visited_stmt s pl0" "\<forall>p \<in> set (provides s). elem_provide pl0 p" "input_tensors pl0 = Ok inputs"
    "\<And>rk. loop_done rk inputs pl0 pl" "folded_dims pl \<noteq> total_dims pl"
proof -
  obtain pl0 where visit: "fold_visit map_node s empty_plan = Ok pl0" and no: "\<not> give_up pl0"
    and rest: "res_bind (input_tensors pl0) (\<lambda>inputs. res_bind (plan_loop inputs (Suc (nat (total_dims pl0))) pl0) (\<lambda>pl.
           Ok (if folded_dims pl = total_dims pl then pl\<lparr>give_up := True\<rparr> else pl))) = Ok pl"
  proof -
    obtain pl0 where visit: "fold_visit map_node s empty_plan = Ok pl0"
      and rest: "(if give_up pl0 then Ok pl0 else res_bind (input_tensors pl0) (\<lambda>inputs. res_bind (plan_loop inputs (Suc (nat (total_dims pl0))) pl0) (\<lambda>pl.
           Ok (if folded_dims pl = total_dims pl then pl\<lparr>give_up := True\<rparr> else pl)))) = Ok pl"
      using assms(1) unfolding Plan_unfold res_bind_Ok_conv [of "fold_visit map_node s empty_plan"] by (elim exE conjE)
    show ?thesis
    proof (cases "give_up pl0")
      case True
      with rest assms(2) show ?thesis by simp
    next
      case False
      with rest show ?thesis by (intro that [OF visit]) (simp_all only: if_False not_False_eq_True)
    qed
  qed
  from rest obtain inputs pl1 where loop: "input_tensors pl0 = Ok inputs" "plan_loop inputs (Suc (nat (total_dims pl0))) pl0 = Ok pl1"
    and pl: "pl = (if folded_dims pl1 = total_dims pl1 then pl1\<lparr>give_up := True\<rparr> else pl1)"
    unfolding res_bind_Ok_conv by (elim exE conjE) (simp del: plan_loop.simps)
  have "pl1 = pl" "folded_dims pl \<noteq> total_dims pl" using assms(2) by (simp_all add: pl split: if_splits)
  note run = visit no loop [unfolded this(1)] this(2)
  note V = visit_Ok [OF run(1,2)]
  have "loop_done rk inputs pl0 pl" for rk using plan_loop_visited [OF V(1) run(3), of rk] run(4) by simp
  from that [OF V run(3) this run(5)] show ?thesis .
qed

end
