(* ===== verification/Composite_Fold_Shapes.thy ===== *)
theory Composite_Fold_Shapes
  imports Composite_Fold_Statement
begin

text \<open>
  The folded shapes: what the plan has made of related tensors agrees, so that an operand that is
  broadcast still is after the dimensions of both are folded.
\<close>

section \<open>Related tensors agree\<close>

definition nonempty_shapes :: "Stmt \<Rightarrow> bool" where
  "nonempty_shapes s \<longleftrightarrow> list_all (\<lambda>u. snd u \<noteq> []) (tensor_uses s)"

definition relations_agree :: "DimensionFolderPlan \<Rightarrow> nat \<Rightarrow> bool" where
  "relations_agree pl t \<longleftrightarrow> list_all (\<lambda>r.
     inverse_maps (forward_mapping r) (backward_mapping r) \<and> length (forward_mapping r) = length (dims_at pl t) \<and>
     length (backward_mapping r) = length (dims_at pl (rel_to r)) \<longrightarrow>
       agree (dims_at pl t) (dims_at pl (rel_to r)) (forward_mapping r)) (succ_at pl t)"

lemma visited_ranked:
  assumes "visited_stmt s pl" "well_fed rf s"
  obtains rk where "ranked rk pl"
proof -
  note V = visitedD(1,2) [OF assms(1)]
  define name where "name t = (SOME fn. fold_map pl fn = Some t)" for t
  have name: "name t = fn" if "fold_map pl fn = Some t" for fn t
    unfolding name_def by (rule some_equality) (use that visit_okD(9) [OF V(1)] in blast)+
  have "rf (name t) < rf (name (rel_to (relation_at pl t k)))" if t: "t < tensor_count pl" "k < length (succ_at pl t)" for t k
  proof -
    have "relation_at pl t k \<in> set (succ_at pl t)" using t(2) by (simp add: relation_at_def)
    with V(2) t(1) obtain fn fn' where fn: "(fn, fn') \<in> set (flow s)" "fold_map pl fn = Some t" "fold_map pl fn' = Some (rel_to (relation_at pl t k))"
      unfolding fed_def by blast
    have "rf fn < rf fn'" using assms(2) fn(1) by (auto simp: well_fed_def list_all_iff)
    then show ?thesis by (simp add: name [OF fn(2)] name [OF fn(3)])
  qed
  then have "ranked (\<lambda>t. rf (name t)) pl" by (simp add: ranked_def)
  then show ?thesis by (rule that)
qed

lemma block_count_le: "plan_ok pl \<Longrightarrow> total_dims pl = (\<Sum>t < tensor_count pl. int (length (dims_at pl t))) \<Longrightarrow> block_count pl \<le> total_dims pl"
  unfolding block_count_def by (simp add: sum_mono card_starts_le)

lemma Plan_settled:
  assumes "Plan map_node s = Ok pl" "\<not> give_up pl" "well_fed rf s" "nonempty_shapes s"
  shows "plan_ok pl" "commits_ok pl" "t < tensor_count pl \<Longrightarrow> reaches_settled pl t"
proof -
  obtain pl0 inputs where P: "visited_stmt s pl0" "input_tensors pl0 = Ok inputs" "\<And>rk. loop_done rk inputs pl0 pl"
    "folded_dims pl \<noteq> total_dims pl" using Plan_Ok [OF assms(1,2)] by metis
  obtain rk where rk: "ranked rk pl0" by (rule visited_ranked [OF P(1) assms(3)])
  note V = visitedD(1) [OF P(1)] and L = P(3) [of rk, unfolded loop_done_def]
  have ref: "refined pl0 pl" and ok: "plan_ok pl" using L by simp_all
  note D = refinedD [OF ref]
  show "plan_ok pl" by (rule ok)
  show "commits_ok pl" using L rk visit_ok_commits [OF V] by simp
  have "\<forall>u \<in> set (tensor_uses s). snd u \<noteq> []" using assms(4) by (simp add: nonempty_shapes_def list_all_iff)
  from visit_okD(13) [OF V this] D(7) have count: "folded_dims pl = block_count pl" by simp
  have "total_dims pl = (\<Sum>t < tensor_count pl. int (length (dims_at pl t)))"
    using visit_okD(12) [OF V] D(1,5,9) by simp
  from block_count_le [OF ok this] P(4) count have "folded_dims pl < total_dims pl" by simp
  then have settled: "reaches_settled pl t" if "t \<in> set inputs" for t
    using L rk visit_ok_commits [OF V] that by simp
  have cover: "t \<in> set inputs \<or> (\<exists>s < tensor_count pl. \<exists>k < length (succ_at pl s). rel_to (relation_at pl s k) = t)"
    if t: "t < tensor_count pl" for t
  proof -
    have "covered pl0 t" using visitedD(3) [OF P(1)] t D(1) by simp
    then have "covered pl t" by (rule covered_extended [OF _ refined_extended [OF ref]])
    then show ?thesis unfolding covered_def
    proof (elim disjE exE bexE conjE)
      fix q r assume r: "q < tensor_count pl" "r \<in> set (succ_at pl q)" "rel_to r = t"
      then obtain k where "k < length (succ_at pl q)" "relation_at pl q k = r" by (auto simp: relation_at_def in_set_conv_nth)
      with r(1,3) show ?thesis by blast
    qed (auto simp: input_tensors_Ok [OF P(2)] D(2,4))
  qed
  show "t < tensor_count pl \<Longrightarrow> reaches_settled pl t"
    by (rule all_reached [OF ranked_refined [OF ref rk] ok cover settled])
qed

lemma Plan_agrees:
  assumes "Plan map_node s = Ok pl" "\<not> give_up pl" "well_fed rf s" "nonempty_shapes s" "t < tensor_count pl"
  shows "relations_agree pl t"
  unfolding relations_agree_def list_all_length
proof (intro allI impI)
  fix k assume k: "k < length (succ_at pl t)"
  define r where "r = relation_at pl t k"
  assume *: "inverse_maps (forward_mapping (succ_at pl t ! k)) (backward_mapping (succ_at pl t ! k)) \<and>
     length (forward_mapping (succ_at pl t ! k)) = length (dims_at pl t) \<and>
     length (backward_mapping (succ_at pl t ! k)) = length (dims_at pl (rel_to (succ_at pl t ! k)))"
  note S = Plan_settled [OF assms(1-4)]
  have "settled pl t k" by (rule reaches_settled_step(1) [OF S(3) [OF assms(5)] k])
  from settled_agree [OF S(2) this assms(5) k r_def] * 
  show "agree (dims_at pl t) (dims_at pl (rel_to (succ_at pl t ! k))) (forward_mapping (succ_at pl t ! k))"
    by (simp add: relation_at_in [OF k] r_def)
qed

lemma elem_inverse:
  assumes "length ish \<le> length osh"
  shows "inverse_maps (forward_mapping (elem_relation out ish osh)) (backward_mapping (elem_relation out ish osh))"
    "length (forward_mapping (elem_relation out ish osh)) = length ish" "length (backward_mapping (elem_relation out ish osh)) = length osh"
proof -
  define p off where "p = broadcast_prefix ish osh" and "off = length osh - length ish"
  have maps: "forward_mapping (elem_relation out ish osh) = map (\<lambda>i. if i < p then - 1 else int (i + off)) [0..<length ish]"
    "backward_mapping (elem_relation out ish osh) = replicate off (- 1) @ map (\<lambda>i. if i < p then - 1 else int i) [0..<length ish]"
    by (simp_all add: elem_relation_def Let_def p_def off_def)
  show "inverse_maps (forward_mapping (elem_relation out ish osh)) (backward_mapping (elem_relation out ish osh))"
    unfolding inverse_maps_def maps list_all_iff
    by (auto simp: nth_append not_less nat_add_distrib split: if_splits)
  show "length (forward_mapping (elem_relation out ish osh)) = length ish" "length (backward_mapping (elem_relation out ish osh)) = length osh"
    using assms by (simp_all add: maps off_def)
qed

section \<open>Products of blocks\<close>

fun block_prods :: "nat list \<Rightarrow> int list \<Rightarrow> nat list \<Rightarrow> int \<Rightarrow> int list" where
  "block_prods fd sh [] v = [v]"
| "block_prods fd sh (i # ns) v = (if i = fd ! i then v # block_prods fd sh ns (sh ! i) else block_prods fd sh ns (v * sh ! i))"

definition folded_shape :: "nat list \<Rightarrow> int list \<Rightarrow> int list" where
  "folded_shape fd sh = block_prods fd sh [1..<length fd] (sh ! 0)"

lemma block_prods_append:
  "c = fd ! c \<Longrightarrow> block_prods fd sh (xs @ c # ys) v = block_prods fd sh xs v @ block_prods fd sh ys (sh ! c)"
  by (induction xs arbitrary: v) auto

lemma block_prods_ones: "\<forall>i \<in> set xs. sh ! i = 1 \<Longrightarrow> \<exists>k. block_prods fd sh xs 1 = replicate k 1"
proof (induction xs)
  case Nil
  have "block_prods fd sh [] 1 = replicate 1 1" by simp
  then show ?case by blast
next
  case (Cons i xs)
  then obtain k where k: "block_prods fd sh xs 1 = replicate k 1" by auto
  show ?case
  proof (cases "i = fd ! i")
    case True
    with k Cons.prems have "block_prods fd sh (i # xs) 1 = replicate (Suc k) 1" by simp
    then show ?thesis by blast
  next
    case False
    with k Cons.prems have "block_prods fd sh (i # xs) 1 = replicate k 1" by simp
    then show ?thesis by blast
  qed
qed

text \<open>The shape with one dimension for each block, which is the product of the dimensions of the block.\<close>

definition block_shape :: "nat list \<Rightarrow> int list \<Rightarrow> int list" where
  "block_shape fd sh =
     map (\<lambda>b. prod_list (map ((!) sh) (filter (\<lambda>i. fd ! i = b) [0..<length fd]))) (filter (\<lambda>b. fd ! b = b) [0..<length fd])"

lemma block_prods_snoc:
  "block_prods fd sh (ns @ [i]) v =
     (if i = fd ! i then block_prods fd sh ns v @ [sh ! i]
      else butlast (block_prods fd sh ns v) @ [last (block_prods fd sh ns v) * sh ! i])"
proof (induction ns arbitrary: v)
  case (Cons n ns)
  have "block_prods fd sh ns w \<noteq> []" for w by (induction ns arbitrary: w) auto
  with Cons show ?case by simp
qed simp

lemma blocks_prefix:
  assumes "blocks fd"
  shows "n < length fd \<Longrightarrow>
    block_prods fd sh [1..<Suc n] (sh ! 0) =
      map (\<lambda>b. prod_list (map ((!) sh) (filter (\<lambda>i. fd ! i = b) [0..<Suc n]))) (filter (\<lambda>b. fd ! b = b) [0..<Suc n]) \<and>
    (\<exists>bs. filter (\<lambda>b. fd ! b = b) [0..<Suc n] = bs @ [fd ! n] \<and> fd ! n \<notin> set bs)"
proof (induction n)
  case 0
  then have "fd ! 0 = 0" using blocksD [OF assms, of 0] by auto
  then show ?case by simp
next
  case (Suc n)
  then obtain bs where IH: "block_prods fd sh [1..<Suc n] (sh ! 0) =
      map (\<lambda>b. prod_list (map ((!) sh) (filter (\<lambda>i. fd ! i = b) [0..<Suc n]))) (filter (\<lambda>b. fd ! b = b) [0..<Suc n])"
    "filter (\<lambda>b. fd ! b = b) [0..<Suc n] = bs @ [fd ! n]" "fd ! n \<notin> set bs" by auto
  have upt: "[1..<Suc (Suc n)] = [1..<Suc n] @ [Suc n]" "[0..<Suc (Suc n)] = [0..<Suc n] @ [Suc n]" by simp_all
  have bs: "b < Suc n" if "b \<in> set (bs @ [fd ! n])" for b
  proof -
    have "b \<in> set (filter (\<lambda>b. fd ! b = b) [0..<Suc n])" using that unfolding IH(2) .
    then show ?thesis by (auto split: if_splits)
  qed
  show ?case
  proof (cases "fd ! Suc n = Suc n")
    case True
    have none: "filter (\<lambda>i. fd ! i = Suc n) [0..<Suc n] = []"
    proof (rule filter_False, rule ballI)
      fix i assume "i \<in> set [0..<Suc n]"
      with blocks_le [OF assms, of i] Suc.prems show "fd ! i \<noteq> Suc n" by (simp del: upt_Suc)
    qed
    have old: "filter (\<lambda>i. fd ! i = b) [0..<Suc (Suc n)] = filter (\<lambda>i. fd ! i = b) [0..<Suc n]" if "b \<in> set (bs @ [fd ! n])" for b
      using True bs [OF that] unfolding upt by simp
    have new: "filter (\<lambda>b. fd ! b = b) [0..<Suc (Suc n)] = (bs @ [fd ! n]) @ [Suc n]"
      unfolding upt filter_append IH(2) using True by simp
    have "block_prods fd sh [1..<Suc (Suc n)] (sh ! 0) =
        map (\<lambda>b. prod_list (map ((!) sh) (filter (\<lambda>i. fd ! i = b) [0..<Suc n]))) (bs @ [fd ! n]) @ [sh ! Suc n]"
      unfolding upt block_prods_snoc IH(1,2) using True by simp
    moreover have "prod_list (map ((!) sh) (filter (\<lambda>i. fd ! i = Suc n) [0..<Suc (Suc n)])) = sh ! Suc n"
      unfolding upt filter_append none using True by simp
    moreover have "Suc n \<notin> set (bs @ [fd ! n])" using bs by blast
    ultimately show ?thesis unfolding new using old True
      by (intro conjI exI [of _ "bs @ [fd ! n]"]) (simp_all cong: map_cong del: upt_Suc)
  next
    case False
    then have n: "fd ! Suc n = fd ! n" using blocksD [OF assms Suc.prems] by simp
    have new: "filter (\<lambda>b. fd ! b = b) [0..<Suc (Suc n)] = bs @ [fd ! n]"
      unfolding upt filter_append IH(2) using False by simp
    have old: "filter (\<lambda>i. fd ! i = b) [0..<Suc (Suc n)] = filter (\<lambda>i. fd ! i = b) [0..<Suc n]" if "b \<in> set bs" for b
      using IH(3) that n unfolding upt by auto
    have "block_prods fd sh [1..<Suc (Suc n)] (sh ! 0) =
        map (\<lambda>b. prod_list (map ((!) sh) (filter (\<lambda>i. fd ! i = b) [0..<Suc n]))) bs @
        [prod_list (map ((!) sh) (filter (\<lambda>i. fd ! i = fd ! n) [0..<Suc n])) * sh ! Suc n]"
      unfolding upt block_prods_snoc IH(1,2) using False by simp
    moreover have "prod_list (map ((!) sh) (filter (\<lambda>i. fd ! i = fd ! n) [0..<Suc (Suc n)])) =
        prod_list (map ((!) sh) (filter (\<lambda>i. fd ! i = fd ! n) [0..<Suc n])) * sh ! Suc n"
      unfolding upt filter_append using n by simp
    ultimately show ?thesis unfolding new using old n IH(3)
      by (intro conjI exI [of _ bs]) (simp_all cong: map_cong del: upt_Suc)
  qed
qed

lemma folded_block_shape:
  assumes "blocks fd" "fd \<noteq> []"
  shows "folded_shape fd sh = block_shape fd sh"
proof -
  obtain n where n: "length fd = Suc n" using assms(2) by (cases fd) auto
  with blocks_prefix [OF assms(1), of n sh] show ?thesis unfolding folded_shape_def block_shape_def n by simp
qed

lemma folded_shape_cut:
  assumes "c \<in> starts fd" "0 < c"
  shows "folded_shape fd sh = block_prods fd sh [1..<c] (sh ! 0) @ block_prods fd sh [c + 1..<length fd] (sh ! c)"
proof -
  have c: "c < length fd" "c = fd ! c" using assms(1) by (auto simp: starts_def)
  have "[1..<length fd] = [1..<c] @ c # [c + 1..<length fd]"
    using c(1) assms(2) by (metis Suc_eq_plus1 Suc_leI le_add_diff_inverse less_imp_le_nat upt_add_eq_append upt_conv_Cons One_nat_def)
  then show ?thesis by (simp only: folded_shape_def block_prods_append [OF c(2)])
qed

text \<open>Shapes whose dimensions are equal or one, with the same blocks from \<open>a\<close> on.\<close>

lemma block_prods_aligned:
  assumes "\<And>i. a \<le> i \<Longrightarrow> i < n \<Longrightarrow> i = f ! i \<longleftrightarrow> i + off = g ! (i + off)"
    and "\<And>i. a \<le> i \<Longrightarrow> i < n \<Longrightarrow> i \<noteq> f ! i \<Longrightarrow> (ish ! i = osh ! (i + off) \<longleftrightarrow> ish ! (i - 1) = osh ! (i - 1 + off))"
    and "\<And>i. a \<le> i \<Longrightarrow> i < n \<Longrightarrow> ish ! i = osh ! (i + off) \<or> ish ! i = 1"
  shows "a \<le> i \<Longrightarrow> i \<le> n \<Longrightarrow> (if ish ! (i - 1) = osh ! (i - 1 + off) then v = w else v = 1) \<Longrightarrow>
    list_all2 (\<lambda>x y. x = y \<or> x = 1) (block_prods f ish [i..<n] v) (block_prods g osh [i + off..<n + off] w)"
proof (induction "n - i" arbitrary: i v w)
  case 0
  then show ?case by (auto split: if_splits)
next
  case (Suc k)
  have i: "i < n" "[i..<n] = i # [Suc i..<n]" "[i + off..<n + off] = (i + off) # [Suc i + off..<n + off]"
    using Suc.hyps(2) by (simp_all add: upt_conv_Cons)
  have IH: "list_all2 (\<lambda>x y. x = y \<or> x = 1) (block_prods f ish [Suc i..<n] v') (block_prods g osh [Suc i + off..<n + off] w')"
    if "if ish ! i = osh ! (i + off) then v' = w' else v' = 1" for v' w'
    using Suc.hyps(2) Suc.prems(1) i(1) that by (intro Suc.hyps(1)) simp_all
  note at = assms [OF Suc.prems(1) i(1)]
  show ?case
  proof (cases "i = f ! i")
    case True
    with at(1) have "i + off = g ! (i + off)" by simp
    with True have eq: "block_prods f ish [i..<n] v = v # block_prods f ish [Suc i..<n] (ish ! i)"
      "block_prods g osh [i + off..<n + off] w = w # block_prods g osh [Suc i + off..<n + off] (osh ! (i + off))"
      unfolding i(2,3) block_prods.simps by (simp_all only: if_True refl)
    have "list_all2 (\<lambda>x y. x = y \<or> x = 1) (block_prods f ish [Suc i..<n] (ish ! i)) (block_prods g osh [Suc i + off..<n + off] (osh ! (i + off)))"
      using at(3) by (intro IH) auto
    with Suc.prems(3) show ?thesis unfolding eq by (auto split: if_splits)
  next
    case False
    with at(1) have "i + off \<noteq> g ! (i + off)" by simp
    with False have eq: "block_prods f ish [i..<n] v = block_prods f ish [Suc i..<n] (v * ish ! i)"
      "block_prods g osh [i + off..<n + off] w = block_prods g osh [Suc i + off..<n + off] (w * osh ! (i + off))"
      unfolding i(2,3) block_prods.simps by (simp_all only: if_False)
    show ?thesis
      unfolding eq using at(2) [OF False] at(3) Suc.prems(3) by (intro IH) (auto split: if_splits)
  qed
qed

section \<open>Broadcasts\<close>

text \<open>From the last dimension on, a dimension of \<open>xs\<close> is the one of \<open>ys\<close> or one. This is what folding keeps of
  \<open>ShapeCanBroadcast\<close>, which also asks that \<open>xs\<close> has no more dimensions than \<open>ys\<close>.\<close>

definition dims_aligned :: "int list \<Rightarrow> int list \<Rightarrow> bool" where
  "dims_aligned xs ys \<longleftrightarrow> list_all (\<lambda>i. i < length ys \<and> rev xs ! i = rev ys ! i \<or> rev xs ! i = 1) [0..<length xs]"

lemma dims_alignedD:
  assumes "dims_aligned xs ys" "length xs \<le> length ys" "i < length xs"
  shows "xs ! i = ys ! (i + (length ys - length xs)) \<or> xs ! i = 1"
proof -
  have i: "length xs - 1 - i < length xs" "length xs - 1 - (length xs - 1 - i) = i"
    "length ys - 1 - (length xs - 1 - i) = i + (length ys - length xs)" using assms(2,3) by linarith+
  then have "length xs - 1 - i \<in> set [0..<length xs]" by simp
  with assms(1) have "rev xs ! (length xs - 1 - i) = rev ys ! (length xs - 1 - i) \<or> rev xs ! (length xs - 1 - i) = 1"
    unfolding dims_aligned_def list_all_iff by blast
  with i assms(2) show ?thesis by (simp add: rev_nth)
qed

lemma dims_alignedI:
  assumes "list_all2 (\<lambda>x y. x = y \<or> x = 1) A B"
  shows "dims_aligned (replicate k 1 @ A) (C @ B)"
  unfolding dims_aligned_def list_all_iff
proof
  fix i assume "i \<in> set [0..<length (replicate k 1 @ A)]"
  note len = list_all2_lengthD [OF assms]
  show "i < length (C @ B) \<and> rev (replicate k 1 @ A) ! i = rev (C @ B) ! i \<or> rev (replicate k 1 @ A) ! i = (1 :: int)"
  proof (cases "i < length A")
    case True
    then have "A ! (length A - 1 - i) = B ! (length A - 1 - i) \<or> A ! (length A - 1 - i) = 1"
      using assms by (auto simp: list_all2_conv_all_nth)
    with True len show ?thesis by (auto simp: nth_append rev_nth)
  next
    case False
    with \<open>i \<in> _\<close> show ?thesis by (auto simp: nth_append)
  qed
qed

lemma broadcast_prefix_le: "broadcast_prefix ish osh \<le> length ish"
  unfolding broadcast_prefix_def using length_takeWhile_le [of _ "zip ish (drop (length osh - length ish) osh)"] by (rule order_trans) simp

lemma broadcast_prefix_nth:
  assumes "length ish \<le> length osh"
  shows "i < broadcast_prefix ish osh \<Longrightarrow> ish ! i \<noteq> osh ! (i + (length osh - length ish))"
    "broadcast_prefix ish osh < length ish \<Longrightarrow>
      ish ! broadcast_prefix ish osh = osh ! (broadcast_prefix ish osh + (length osh - length ish))"
proof -
  let ?z = "zip ish (drop (length osh - length ish) osh)"
  have z: "length ?z = length ish" "\<And>i. i < length ish \<Longrightarrow> ?z ! i = (ish ! i, osh ! (i + (length osh - length ish)))"
    using assms by (simp_all add: add.commute)
  show "ish ! i \<noteq> osh ! (i + (length osh - length ish))" if i: "i < broadcast_prefix ish osh"
  proof -
    have "i < length ish" using i broadcast_prefix_le [of ish osh] by simp
    moreover have "case ?z ! i of (x, y) \<Rightarrow> x \<noteq> y"
      using i nth_mem [of i "takeWhile (\<lambda>(x, y). x \<noteq> y) ?z"] takeWhile_nth [of i "\<lambda>(x, y). x \<noteq> y" ?z] set_takeWhileD
      unfolding broadcast_prefix_def by metis
    ultimately show ?thesis using z(2) by simp
  qed
  show "ish ! broadcast_prefix ish osh = osh ! (broadcast_prefix ish osh + (length osh - length ish))" if p: "broadcast_prefix ish osh < length ish"
    using nth_length_takeWhile [of "\<lambda>(x, y). x \<noteq> y" ?z] p z unfolding broadcast_prefix_def by simp
qed

lemma elem_groups_flip:
  "i \<in> set (elem_groups ish osh) \<longleftrightarrow> i = length ish \<or> i < length ish \<and> (i = 0 \<or>
     (ish ! i = osh ! (i + (length osh - length ish))) \<noteq> (ish ! (i - 1) = osh ! (i - 1 + (length osh - length ish))))"
  by (auto simp: elem_groups_def group_starts_def)

text \<open>The relation of an operator that goes over elements, with blocks that agree.\<close>

lemma folded_aligned:
  assumes "blocks f" "blocks g" "length f = length ish" "length g = length osh" "ish \<noteq> []" "length ish \<le> length osh"
    and sep: "\<And>i. i \<in> set (elem_groups ish osh) \<Longrightarrow> i < length ish \<Longrightarrow>
      i \<in> starts f \<and> (broadcast_prefix ish osh \<le> i \<longrightarrow> i + (length osh - length ish) \<in> starts g)"
    and agree: "agree f g (forward_mapping (elem_relation out ish osh))" and ones: "dims_aligned ish osh"
  shows "dims_aligned (folded_shape f ish) (folded_shape g osh)"
proof -
  define p off n where "p = broadcast_prefix ish osh" and "off = length osh - length ish" and "n = length ish"
  have n: "length f = n" "length g = n + off" "length osh = n + off" "0 < n" "p \<le> n"
    using assms(3-6) broadcast_prefix_le [of ish osh] by (simp_all add: n_def off_def p_def)
  have one: "ish ! i = osh ! (i + off) \<or> ish ! i = 1" if "i < n" for i
    using dims_alignedD [OF ones assms(6)] that by (simp add: n_def off_def)
  have prefix: "ish ! i = 1" if "i < p" for i
    using broadcast_prefix_nth(1) [OF assms(6), of i] one [of i] that n(5) by (simp add: p_def off_def)
  have at_p: "ish ! p = osh ! (p + off)" if "p < n"
    using broadcast_prefix_nth(2) [OF assms(6)] that by (simp add: p_def off_def n_def)
  have groups: "i \<in> set (elem_groups ish osh) \<longleftrightarrow> i = n \<or> i < n \<and> (i = 0 \<or>
      (ish ! i = osh ! (i + off)) \<noteq> (ish ! (i - 1) = osh ! (i - 1 + off)))" for i
    by (simp only: elem_groups_flip n_def off_def)
  have p_group: "p \<in> starts f" "p + off \<in> starts g" if "p < n"
  proof -
    have "p \<in> set (elem_groups ish osh)"
    proof (cases "p = 0")
      case False
      then have "ish ! (p - 1) \<noteq> osh ! (p - 1 + off)"
        using broadcast_prefix_nth(1) [OF assms(6), of "p - 1"] by (simp add: p_def off_def)
      with at_p [OF that] that show ?thesis unfolding groups by blast
    qed (use n(4) in \<open>simp add: groups\<close>)
    from sep [OF this] that show "p \<in> starts f" "p + off \<in> starts g" by (simp_all add: n_def p_def off_def)
  qed
  have head: "\<exists>k. block_prods f ish [1..<p] (ish ! 0) = replicate k 1" if "0 < p"
    using block_prods_ones [of "[1..<p]" ish f] prefix that by simp
  show ?thesis
  proof (cases "p < n")
    case False
    then have "p = n" using n(5) by simp
    then obtain k where "folded_shape f ish = replicate k 1" using head n(4) by (auto simp: folded_shape_def n(1))
    then show ?thesis using dims_alignedI [of "[]" "[]" k "folded_shape g osh"] by simp
  next
    case True
    have same: "i = f ! i \<longleftrightarrow> i + off = g ! (i + off)" if i: "p + 1 \<le> i" "i < n" for i
    proof -
      have "f ! (i - 1) = f ! i \<longleftrightarrow> g ! (i - 1 + off) = g ! (i + off)"
      proof -
        have m: "forward_mapping (elem_relation out ish osh) ! j = int (j + off)" if "p \<le> j" "j < n" for j
          using that elem_relation_nth [of j ish out osh] by (simp add: n_def p_def off_def)
        have "i - 1 < i" "p \<le> i - 1" "i - 1 < n" using i by simp_all
        let ?m = "forward_mapping (elem_relation out ish osh)"
        have "i \<in> set [0..<length f]" "i - 1 \<in> set [0..<i]" using i n(1) by simp_all
        with agree have "0 \<le> ?m ! (i - 1) \<longrightarrow> 0 \<le> ?m ! i \<longrightarrow> (f ! (i - 1) = f ! i \<longleftrightarrow> g ! nat (?m ! (i - 1)) = g ! nat (?m ! i))"
          unfolding agree_def list_all_iff by blast
        moreover have "?m ! (i - 1) = int (i - 1 + off)" "?m ! i = int (i + off)"
          using m [of "i - 1"] m [of i] i \<open>p \<le> i - 1\<close> by simp_all
        ultimately show ?thesis by (simp only: nat_int of_nat_0_le_iff simp_thms)
      qed
      moreover have "i = f ! i \<longleftrightarrow> f ! (i - 1) \<noteq> f ! i"
        using blocksD [OF assms(1), of i] blocks_le [OF assms(1), of "i - 1"] i n(1) by fastforce
      moreover have "i + off = g ! (i + off) \<longleftrightarrow> g ! (i - 1 + off) \<noteq> g ! (i + off)"
        using blocksD [OF assms(2), of "i + off"] blocks_le [OF assms(2), of "i - 1 + off"] i n(2) by fastforce
      ultimately show ?thesis by blast
    qed
    have flip: "ish ! i = osh ! (i + off) \<longleftrightarrow> ish ! (i - 1) = osh ! (i - 1 + off)" if i: "p + 1 \<le> i" "i < n" "i \<noteq> f ! i" for i
    proof (rule ccontr)
      assume "\<not> ?thesis"
      then have "i \<in> set (elem_groups ish osh)" using i(2) unfolding groups by blast
      from sep [OF this] i show False by (simp add: n_def starts_def)
    qed
    have "list_all2 (\<lambda>x y. x = y \<or> x = 1) (block_prods f ish [p + 1..<n] (ish ! p)) (block_prods g osh [p + 1 + off..<n + off] (osh ! (p + off)))"
      by (rule block_prods_aligned [where a = "p + 1", OF same flip one]) (use True at_p in simp_all)
    moreover have "\<exists>k. folded_shape f ish = replicate k 1 @ block_prods f ish [p + 1..<n] (ish ! p)"
    proof (cases "p = 0")
      case True
      then have "folded_shape f ish = replicate 0 1 @ block_prods f ish [p + 1..<n] (ish ! p)" by (simp add: folded_shape_def n(1))
      then show ?thesis by blast
    next
      case False
      with folded_shape_cut [OF p_group(1) [OF True], of ish] head n(1) show ?thesis by auto
    qed
    moreover have "\<exists>C. folded_shape g osh = C @ block_prods g osh [p + 1 + off..<n + off] (osh ! (p + off))"
    proof (cases "p + off = 0")
      case True
      then have "folded_shape g osh = [] @ block_prods g osh [p + 1 + off..<n + off] (osh ! (p + off))" by (simp add: folded_shape_def n(2))
      then show ?thesis by blast
    next
      case False
      with folded_shape_cut [OF p_group(2) [OF True], of osh] n(2) show ?thesis by (auto simp: add.commute add.left_commute)
    qed
    ultimately obtain A B k C where AB: "list_all2 (\<lambda>x y. x = y \<or> x = 1) A B"
      and eq: "folded_shape f ish = replicate k 1 @ A" "folded_shape g osh = C @ B" by blast
    show ?thesis unfolding eq by (rule dims_alignedI [OF AB])
  qed
qed

end
