(* ===== verification/Composite_Fold_Correct.thy ===== *)
theory Composite_Fold_Correct
  imports Composite_Fold_Shapes
begin

text \<open>
  The properties of the folding: separations are unions of sets of block starts, the planning
  ends, what it makes of related tensors agrees, and folded shapes have the products of the blocks for
  dimensions and broadcast as before up to leading ones.
\<close>

section \<open>Folded shapes\<close>

abbreviation int_dims :: "int list \<Rightarrow> Expr list" where
  "int_dims \<equiv> map (IntImm (Int_type 32))"

lemma int_dims_broadcast:
  "ShapeCanBroadcast (int_dims xs) (int_dims ys) \<longleftrightarrow>
     length xs \<le> length ys \<and> (\<forall>i < length xs. xs ! i = ys ! (length ys - length xs + i) \<or> xs ! i = 1)"
  by (auto simp: ShapeCanBroadcast_def list_all_length)

lemma broadcast_aligned:
  assumes "ShapeCanBroadcast (int_dims xs) (int_dims ys)"
  shows "dims_aligned xs ys"
  unfolding dims_aligned_def list_all_iff
proof
  fix i assume "i \<in> set [0..<length xs]"
  then have i: "i < length xs" "length xs - Suc i < length xs" by simp_all
  with assms have "length xs \<le> length ys" "xs ! (length xs - Suc i) = ys ! (length ys - length xs + (length xs - Suc i)) \<or> xs ! (length xs - Suc i) = 1"
    unfolding int_dims_broadcast by blast+
  moreover from this(1) i have "length ys - length xs + (length xs - Suc i) = length ys - Suc i" by simp
  ultimately show "i < length ys \<and> rev xs ! i = rev ys ! i \<or> rev xs ! i = 1"
    using i by (auto simp: rev_nth)
qed

text \<open>What is left of the dimensions that \<open>xs\<close> has more than \<open>ys\<close>.\<close>

lemma aligned_broadcast:
  assumes "dims_aligned us vs"
  defines "k \<equiv> length us - length vs"
  shows "list_all (\<lambda>u. u = 1) (take k us) \<and> ShapeCanBroadcast (int_dims (drop k us)) (int_dims vs)"
proof -
  have at: "length us - Suc i < length vs \<and> us ! i = vs ! (length vs - Suc (length us - Suc i)) \<or> us ! i = 1" if i: "i < length us" for i
  proof -
    have j: "length us - Suc i \<in> set [0..<length us]" using i by simp
    with assms(1) have "length us - Suc i < length vs \<and> rev us ! (length us - Suc i) = rev vs ! (length us - Suc i) \<or> rev us ! (length us - Suc i) = 1"
      unfolding dims_aligned_def list_all_iff by blast
    then show ?thesis using i j by (auto simp: rev_nth)
  qed
  have "us ! i = 1" if "i < k" for i using at [of i] that unfolding k_def by (auto simp: less_diff_conv)
  then have "list_all (\<lambda>u. u = 1) (take k us)" by (simp add: list_all_length k_def)
  moreover have "us ! (k + i) = vs ! (length vs - (length us - k) + i) \<or> us ! (k + i) = 1" if "i < length us - k" for i
  proof -
    have "length vs - Suc (length us - Suc (k + i)) = length vs - (length us - k) + i" using that by (simp add: k_def)
    with at [of "k + i"] that show ?thesis by (metis add.commute less_diff_conv)
  qed
  ultimately show ?thesis unfolding int_dims_broadcast by (simp add: k_def)
qed

lemma dim_mul_int: "dim_mul other (IntImm ty i) (IntImm ty j) = Ok e \<Longrightarrow> e = IntImm ty (i * j)"
  by (auto simp: dim_mul_def res_bind_Ok_conv int64_ret_def split: if_splits)

lemma fold_shape_loop_Ok:
  assumes "\<And>n. simplify_dim c (IntImm (Int_type 32) n) = IntImm (Int_type 32) n"
  shows "fold_shape_loop c fd (int_dims sh) ns (IntImm (Int_type 32) v) = Ok es \<Longrightarrow> \<forall>i \<in> set ns. i < length sh \<Longrightarrow>
    es = int_dims (block_prods fd sh ns v)"
proof (induction ns arbitrary: v es)
  case (Cons i ns)
  show ?case
  proof (cases "i = fd ! i")
    case True
    from Cons.prems True obtain fs where "fold_shape_loop c fd (int_dims sh) ns (IntImm (Int_type 32) (sh ! i)) = Ok fs"
      "es = IntImm (Int_type 32) v # fs" by (auto simp: res_bind_Ok_conv assms)
    with Cons.IH Cons.prems(2) True show ?thesis by simp
  next
    case False
    from Cons.prems False obtain e where e: "dim_mul (mul_other c) (IntImm (Int_type 32) v) (IntImm (Int_type 32) (sh ! i)) = Ok e"
      "fold_shape_loop c fd (int_dims sh) ns e = Ok es" by (auto simp: res_bind_Ok_conv)
    from Cons.IH [OF e(2) [unfolded dim_mul_int [OF e(1)]]] Cons.prems(2) False show ?thesis by simp
  qed
qed (simp add: assms)

lemma FoldShape_Ok:
  assumes "FoldShape c dims fn (int_dims sh) = Ok es" "\<And>n. simplify_dim c (IntImm (Int_type 32) n) = IntImm (Int_type 32) n"
  obtains fd where "dims fn = Some fd" "length fd = length sh" "sh \<noteq> []" "es = int_dims (folded_shape fd sh)"
proof (cases "dims fn")
  case None
  with assms(1) show ?thesis by (auto simp: FoldShape_def res_bind_Ok_conv vec_at_Ok_conv)
next
  case (Some fd)
  with assms(1) have fd: "length fd = length sh" "sh \<noteq> []"
    and loop: "fold_shape_loop c fd (int_dims sh) [1..<length fd] (int_dims sh ! 0) = Ok es"
    by (auto simp: FoldShape_def res_bind_Ok_conv vec_at_Ok_conv)
  then have run: "fold_shape_loop c fd (int_dims sh) [1..<length fd] (IntImm (Int_type 32) (sh ! 0)) = Ok es" by simp
  have "es = int_dims (folded_shape fd sh)"
    using fold_shape_loop_Ok [OF assms(2) run] fd(1) by (simp add: folded_shape_def)
  with Some fd show ?thesis by (rule that)
qed

lemma block_prods_prod: "prod_list (block_prods fd sh ns v) = v * prod_list (map ((!) sh) ns)"
  by (induction ns arbitrary: v) (auto simp: mult.assoc)

lemma folded_shape_prod:
  assumes "length fd = length sh" "sh \<noteq> []"
  shows "prod_list (folded_shape fd sh) = prod_list sh"
proof -
  have "map ((!) sh) (0 # [1..<length fd]) = map ((!) sh) [0..<length sh]"
    using assms by (simp add: upt_conv_Cons)
  also have "\<dots> = sh" by (rule map_nth)
  finally have "prod_list (map ((!) sh) (0 # [1..<length fd])) = prod_list sh" by simp
  then show ?thesis by (simp add: folded_shape_def block_prods_prod)
qed

section \<open>Statements\<close>

lemma provides_uses: "(fn, v, sh) \<in> set (provides s) \<Longrightarrow> set (provide_uses v @ [(fn, sh)]) \<subseteq> set (tensor_uses s)"
proof (induction s rule: provides.induct)
  case (10 c t e)
  then show ?case by (auto split: option.splits)
qed auto

text \<open>Every tensor has one shape, of constants.\<close>

definition const_shapes :: "Stmt \<Rightarrow> bool" where
  "const_shapes s \<longleftrightarrow> list_all (\<lambda>(fn, sh). sh \<noteq> [] \<and> sh = int_dims (map (\<lambda>e. the (const_value e)) sh) \<and>
     list_all (\<lambda>(fn', sh'). fn' = fn \<longrightarrow> sh' = sh) (tensor_uses s)) (tensor_uses s)"

lemma const_shapesD:
  assumes "const_shapes s" "(fn, sh) \<in> set (tensor_uses s)"
  shows "sh \<noteq> []" "sh = int_dims (map (\<lambda>e. the (const_value e)) sh)" "(fn, sh') \<in> set (tensor_uses s) \<Longrightarrow> sh' = sh"
  using assms unfolding const_shapes_def list_all_iff by blast+

lemma const_shapes_nonempty: "const_shapes s \<Longrightarrow> nonempty_shapes s"
  unfolding nonempty_shapes_def list_all_iff using const_shapesD(1) by auto

lemma ExtractIntVector_dims [simp]: "ExtractIntVector (int_dims ns) = Ok ns"
  by (simp add: ExtractIntVector_iff const_value_def comp_def)

lemma tensor_shape:
  assumes "visited_stmt s pl" "const_shapes s" "(fn, int_dims sh) \<in> set (tensor_uses s)" "fold_map pl fn = Some t"
  shows "fold_shape (fold_tensor pl t) = sh"
proof -
  obtain sh' where sh': "(fn, sh') \<in> set (tensor_uses s)" "ExtractIntVector sh' = Ok (fold_shape (fold_tensor pl t))"
    using visit_okD(8) [OF visitedD(1) [OF assms(1)] assms(4)] by blast
  from sh'(2) show ?thesis unfolding const_shapesD(3) [OF assms(2,3) sh'(1)] by simp
qed

lemma refined_loop: "loop_done rk inputs pl0 pl \<Longrightarrow> refined pl0 pl"
  by (simp add: loop_done_def)

text \<open>Both operands of an operator that goes over elements.\<close>

lemma folded_operand:
  assumes plan: "Plan map_node s = Ok pl" "\<not> give_up pl" "well_fed rf s" "const_shapes s"
    and prov: "(fn, v, int_dims ys) \<in> set (provides s)" "elementwise v" "(x, int_dims xs) \<in> set (provide_uses v)"
    and ones: "dims_aligned xs ys"
  shows "\<exists>f g. plan_dims pl x = Some f \<and> plan_dims pl fn = Some g \<and> dims_aligned (folded_shape f xs) (folded_shape g ys)"
proof -
  obtain pl0 inputs where P: "visited_stmt s pl0" "\<forall>p \<in> set (provides s). elem_provide pl0 p" "\<And>rk. loop_done rk inputs pl0 pl"
    using Plan_Ok [OF plan(1,2)] by metis
  have ref: "refined pl0 pl" by (rule refined_loop [OF P(3)])
  note D = refinedD [OF ref] and ext = refined_extended [OF ref]
  have uses: "(x, int_dims xs) \<in> set (tensor_uses s)" "(fn, int_dims ys) \<in> set (tensor_uses s)"
    using provides_uses [OF prov(1)] prov(3) by auto
  have "elem_provide pl0 (fn, v, int_dims ys)" using P(2) prov(1) by blast
  then obtain i out where t: "fold_map pl0 x = Some i" "fold_map pl0 fn = Some out" "elem_related pl0 i out"
    using prov(2,3) by fastforce
  note V = visitedD(1) [OF P(1)]
  have len: "i < tensor_count pl0" "out < tensor_count pl0" using visit_okD(7) [OF V] t by blast+
  have len': "i < tensor_count pl" "out < tensor_count pl" using len D(1) by simp_all
  have shape: "fold_shape (fold_tensor pl i) = xs" "fold_shape (fold_tensor pl out) = ys"
    using D(8) [OF len(1)] D(8) [OF len(2)] tensor_shape [OF P(1) plan(4)] uses t by simp_all
  have el: "elem_related pl i out" by (rule elem_related_extended [OF t(3) ext len])
  note S = Plan_settled [OF plan(1-3) const_shapes_nonempty [OF plan(4)]]
  define f g where "f = dims_at pl i" and "g = dims_at pl out"
  have fg: "blocks f" "blocks g" "length f = length xs" "length g = length ys"
    using plan_okD(1,2) [OF S(1) len'(1)] plan_okD(1,2) [OF S(1) len'(2)] shape by (simp_all add: f_def g_def)
  have E: "xs \<noteq> []" "length xs \<le> length ys" "\<exists>r \<in> set (succ_at pl i). bare r = bare (elem_relation out xs ys)"
    and sep: "\<And>j. j \<in> set (elem_groups xs ys) \<Longrightarrow> j < length xs \<Longrightarrow>
      j \<in> starts f \<and> (broadcast_prefix xs ys \<le> j \<longrightarrow> j + (length ys - length xs) \<in> starts g)"
    using el unfolding elem_related_def Let_def shape f_def g_def by blast+
  obtain r where r: "r \<in> set (succ_at pl i)" "rel_to r = out" "forward_mapping r = forward_mapping (elem_relation out xs ys)"
    "backward_mapping r = backward_mapping (elem_relation out xs ys)" using E(3) by (auto simp: bare_simps)
  have "relations_agree pl i" by (rule Plan_agrees [OF plan(1-3) const_shapes_nonempty [OF plan(4)] len'(1)])
  then have "agree f g (forward_mapping (elem_relation out xs ys))"
    using r fg(3,4) elem_inverse [OF E(2), of out] unfolding relations_agree_def list_all_iff f_def g_def by metis
  then have "dims_aligned (folded_shape f xs) (folded_shape g ys)"
    using folded_aligned [OF fg E(1,2), of out] sep ones by blast
  moreover have "plan_dims pl x = Some f" "plan_dims pl fn = Some g" using t(1,2) D(2) by (simp_all add: plan_dims_def f_def g_def)
  ultimately show ?thesis by blast
qed

text \<open>What \<open>FoldShape\<close> makes of the uses of tensors.\<close>

definition FoldShape_use :: "Folding \<Rightarrow> FoldDims \<Rightarrow> Func \<times> Expr list \<Rightarrow> Func \<times> Expr list \<Rightarrow> bool" where
  "FoldShape_use c dims u u' \<longleftrightarrow> fst u' = fst u \<and> FoldShape c dims (fst u) (snd u) = Ok (snd u')"

abbreviation FoldShape_uses :: "Folding \<Rightarrow> FoldDims \<Rightarrow> (Func \<times> Expr list) list \<Rightarrow> (Func \<times> Expr list) list \<Rightarrow> bool" where
  "FoldShape_uses c dims \<equiv> list_all2 (FoldShape_use c dims)"

lemma make_expr_same: "make_expr e = Ok e' \<Longrightarrow> e' = e"
  by (auto simp: make_expr_def split: if_splits)

lemma fold_args_uses:
  "fold_args c dims upd args u = Ok (args', u') \<Longrightarrow> FoldShape_uses c dims (concat (map arg_uses args)) (concat (map arg_uses args'))"
proof (induction c dims upd args u arbitrary: args' u' rule: fold_args.induct)
  case (2 c dims upd ty ct n shape fn i es u)
  then obtain sh e fs w where run: "FoldShape c dims fn shape = Ok sh" "make_expr (CallE ty ct n sh fn 0) = Ok e"
    "fold_args c dims upd es (case upd of Some a \<Rightarrow> Some (a, fn) | None \<Rightarrow> u) = Ok (fs, w)" "args' = e # fs"
    by (auto simp: res_bind_Ok_conv)
  have "e = CallE ty ct n sh fn 0" by (rule make_expr_same [OF run(2)])
  with "2.IH" [OF run(1,2,3)] run(1,4) show ?case by (simp add: FoldShape_use_def)
qed (auto simp: res_bind_Ok_conv)

lemma fold_provide_uses:
  assumes "fold_provide c dims fn i v sh u = Ok (s', u')"
  shows "FoldShape_uses c dims (tensor_uses (Provide fn i v sh)) (tensor_uses s')"
proof (cases v)
  case (CallE ty ct op args f j)
  with assms obtain args' w e sh' where run: "fold_args c dims (if IsReduce_op op then Some ''axis'' else if op = ''Transpose'' then Some ''perm'' else None) args u = Ok (args', w)"
    "make_expr (CallE ty ct op args' f 0) = Ok e" "FoldShape c dims fn sh = Ok sh'" "s' = Provide fn i e sh'"
    by (auto simp: fold_provide_def res_bind_Ok_conv)
  have "e = CallE ty ct op args' f 0" by (rule make_expr_same [OF run(2)])
  with fold_args_uses [OF run(1)] run(3,4) CallE show ?thesis by (simp add: FoldShape_use_def list_all2_appendI)
qed (use assms in \<open>simp_all add: fold_provide_def\<close>)

lemma fold_stmt_uses: "fold_stmt map_node c dims s u = Ok (s', u') \<Longrightarrow> FoldShape_uses c dims (tensor_uses s) (tensor_uses s')"
proof (induction map_node c dims s u arbitrary: s' u' rule: fold_stmt.induct)
  case (1 map_node c dims n k e b u)
  show ?case
  proof (cases "k = ''attrs''")
    case True
    with "1.prems" obtain b' w where b: "fold_stmt map_node c dims b None = Ok (b', w)"
      and w: "(case w of None \<Rightarrow> Ok (AttrStmt n k e b', w)
        | Some (key, fn) \<Rightarrow> (case map_node n of None \<Rightarrow> Err Fatal
             | Some m \<Rightarrow> res_bind (fold_attrs c dims key fn m) (\<lambda>m. Ok (AttrStmt (attrs_node c m) k e b', w)))) = Ok (s', u')"
      by (auto simp: res_bind_Ok_conv)
    have "tensor_uses s' = tensor_uses b'"
    proof (cases w)
      case (Some a)
      with w show ?thesis by (cases a) (auto simp: res_bind_Ok_conv split: option.splits)
    qed (use w in auto)
    with "1.IH"(1) [OF True b] show ?thesis by simp
  next
    case False
    with 1 show ?thesis by (auto simp: res_bind_Ok_conv)
  qed
next
  case (2 map_node c dims fn i v shape u)
  then show ?case using fold_provide_uses by simp
next
  case (9 map_node c dims a b u)
  then show ?case by (auto simp: res_bind_Ok_conv intro!: list_all2_appendI)
next
  case (10 map_node c dims p t e u)
  then show ?case by (auto simp: res_bind_Ok_conv intro!: list_all2_appendI split: option.splits)
qed (auto simp: res_bind_Ok_conv)

text \<open>The shapes that the pass makes of constant shapes: the dimensions of \<open>f\<close> are cut into blocks, each dimension
  the start of one or in the block of the dimension before it, and each block has one dimension left, the product
  of its dimensions. Tensors keep their names.\<close>

fun folded_use :: "FoldDims \<Rightarrow> Func \<times> Expr list \<Rightarrow> Func \<times> Expr list \<Rightarrow> bool" where
  "folded_use dims (fn, sh) (fn', sh') \<longleftrightarrow> fn' = fn \<and>
     (\<exists>f ns. dims fn = Some f \<and> blocks f \<and> length f = length ns \<and> sh = int_dims ns \<and> sh' = int_dims (block_shape f ns))"

lemma Plan_blocks:
  assumes "Plan map_node s = Ok pl" "\<not> give_up pl" "plan_dims pl fn = Some f"
  shows "blocks f"
proof -
  obtain pl0 inputs where P: "visited_stmt s pl0" "\<And>rk. loop_done rk inputs pl0 pl"
    using Plan_Ok [OF assms(1,2)] by metis
  have ref: "refined pl0 pl" by (rule refined_loop [OF P(2)])
  have ok: "plan_ok pl" using P(2) by (simp add: loop_done_def)
  from assms(3) obtain t where t: "fold_map pl fn = Some t" "f = dims_at pl t" by (auto simp: plan_dims_def split: option.splits)
  then have "t < tensor_count pl" using visit_okD(7) [OF visitedD(1) [OF P(1)]] refinedD(1,2) [OF ref] by simp
  with plan_okD(1) [OF ok] t(2) show ?thesis by simp
qed

lemma FoldShape_folds:
  assumes "Plan map_node s = Ok pl" "\<not> give_up pl" "const_shapes s" "u \<in> set (tensor_uses s)"
    and "FoldShape_use c (plan_dims pl) u u'" "\<And>n. simplify_dim c (IntImm (Int_type 32) n) = IntImm (Int_type 32) n"
  shows "folded_use (plan_dims pl) u u'"
proof -
  obtain fn sh fn' sh' where u: "u = (fn, sh)" "u' = (fn', sh')" by (cases u, cases u')
  define ns where "ns = map (\<lambda>e. the (const_value e)) sh"
  have sh: "sh = int_dims ns" unfolding ns_def using const_shapesD(2) [OF assms(3)] assms(4) u(1) by blast
  from assms(5) have run: "FoldShape c (plan_dims pl) fn (int_dims ns) = Ok sh'" "fn' = fn"
    by (simp_all add: u sh FoldShape_use_def)
  obtain f where f: "plan_dims pl fn = Some f" "length f = length ns" "ns \<noteq> []" "sh' = int_dims (folded_shape f ns)"
    by (rule FoldShape_Ok [OF run(1) assms(6)])
  have "blocks f" by (rule Plan_blocks [OF assms(1,2) f(1)])
  moreover from this f(2,3) have "folded_shape f ns = block_shape f ns" by (intro folded_block_shape) auto
  ultimately show ?thesis using f run(2) sh u by auto
qed

section \<open>An example\<close>

text \<open>\<open>d = a + b\<close> and \<open>e = d * f\<close>; the first two dimensions are folded.\<close>

definition fold_example :: Stmt where
  "fold_example =
     Block (op_out ''d'' (op_call ''Add'' [op_tensor ''a'' [2, 3, 4], op_tensor ''b'' [1, 1, 4]]) [2, 3, 4])
       (op_out ''e'' (op_call ''Mul'' [op_tensor ''d'' [2, 3, 4], op_tensor ''f'' [2, 3, 1]]) [2, 3, 4])"

definition example_rank :: "Func \<Rightarrow> nat" where
  "example_rank fn = (if func_name fn = ''d'' then 1 else if func_name fn = ''e'' then 2 else 0)"

definition example_folding :: Folding where
  "example_folding = \<lparr>mul_other = (\<lambda>a b. a), simplify_dim = (\<lambda>e. e), attrs_node = (\<lambda>m. Node_Other 0)\<rparr>"

definition example_plan :: DimensionFolderPlan where
  "example_plan = (case Plan (\<lambda>_. None) fold_example of Ok pl \<Rightarrow> pl | Err e \<Rightarrow> empty_plan)"

definition unfolded_plan :: DimensionFolderPlan where
  "unfolded_plan = empty_plan\<lparr>fold_tensors := [\<lparr>fold_update = 0, fold_shape = [2, 3, 4], fold_dims = [0, 0, 0], fold_succ = []\<rparr>],
     total_dims := 3, folded_dims := 1\<rparr>"

lemma example_plan_Ok: "Plan (\<lambda>_. None) fold_example = Ok example_plan"
proof -
  have "case Plan (\<lambda>_. None) fold_example of Ok pl \<Rightarrow> True | Err e \<Rightarrow> False" by code_simp
  then show ?thesis by (auto simp: example_plan_def split: res.splits)
qed

lemma example_plan_facts:
  "\<not> give_up example_plan" "length (fold_tensors example_plan) = 5" "well_fed example_rank fold_example" "const_shapes fold_example"
  by code_simp+

text \<open>\<open>b = a + x\<close> needs the first two dimensions of \<open>a\<close> apart, \<open>c = a + y\<close> does not, and does not separate
  those of \<open>c\<close>: dimensions that are broadcast have no place in the maps. \<open>a\<close> keeps more dimensions than
  \<open>c\<close> has, and the operand of the second operator cannot be broadcast to what it computes.\<close>

definition outgrown_example :: Stmt where
  "outgrown_example =
     Block (op_out ''b'' (op_call ''Add'' [op_tensor ''a'' [1, 1, 4], op_tensor ''x'' [1, 5, 4]]) [1, 5, 4])
       (op_out ''c'' (op_call ''Add'' [op_tensor ''a'' [1, 1, 4], op_tensor ''y'' [2, 3, 4]]) [2, 3, 4])"

lemma fold_operand_outgrows:
  "case FoldDimension (\<lambda>_. None) example_folding outgrown_example of
     Ok (s', dims) \<Rightarrow> map snd (tensor_uses s') = map int_dims [[1, 1, 4], [1, 5, 4], [1, 5, 4], [1, 1, 4], [6, 4], [6, 4]]
   | Err e \<Rightarrow> False"
  by code_simp

text \<open>A reduction of all dimensions has the empty array as its axes, since \<open>axis_attr_normalize.cc\<close> makes it
  so. The plan takes it for the reduction of the first dimension; the two dimensions that this would keep
  are then looked up in a result that has one.\<close>

definition all_reduce :: Stmt where
  "all_reduce = AttrStmt (Node_Other 0) ''attrs'' (IntImm (Int_type 32) 1)
     (op_out ''b'' (op_call ''ReduceSum'' [op_tensor ''a'' [2, 3, 4]]) [1])"

lemma all_reduce_reads_out:
  "case Plan (\<lambda>n. Some [''axis'' \<mapsto> []]) all_reduce of Err e \<Rightarrow> e = Out_of_bounds | Ok pl \<Rightarrow> False"
  by code_simp

text \<open>A cycle: \<open>t1\<close> is assigned in place from the sum \<open>t3\<close> of its transposition \<open>t2\<close>. The propagation that comes
  back to a tensor it started from stops there, and the plan that it leaves folds dimensions of one
  tensor whose images it keeps apart.\<close>

definition cycle_attrs :: "AttrNode \<Rightarrow> Attrs option" where
  "cycle_attrs n = Some (if n = Node_Other 0 then [''perm'' \<mapsto> int_dims [2, 3, 1, 0]] else [''axis'' \<mapsto> int_dims [0, 1]])"

definition cycle_example :: Stmt where
  "cycle_example =
     Block (AttrStmt (Node_Other 0) ''attrs'' (IntImm (Int_type 32) 1)
       (op_out ''t2'' (op_call ''Transpose'' [op_tensor ''t1'' [2, 2, 2, 2]]) [2, 2, 2, 2]))
     (Block (AttrStmt (Node_Other 1) ''attrs'' (IntImm (Int_type 32) 1)
       (op_out ''t3'' (op_call ''ReduceSum'' [op_tensor ''t2'' [2, 2, 2, 2]]) [1, 1, 2, 2]))
     (Block (op_out ''t4'' (op_call ''InplaceAssign''
         [op_tensor ''t1'' [2, 2, 2, 2], op_tensor ''t3'' [1, 1, 2, 2], op_tensor ''t3'' [1, 1, 2, 2]]) [2, 2, 2, 2])
       (op_out ''t5'' (op_call ''Add'' [op_tensor ''t2'' [2, 2, 2, 2], op_tensor ''t4'' [2, 2, 2, 2]]) [2, 2, 2, 2])))"

lemma cycle_disagrees:
  "case Plan cycle_attrs cycle_example of
     Ok pl \<Rightarrow> \<not> give_up pl \<and> \<not> list_all (relations_agree pl) [0..<length (fold_tensors pl)]
   | Err e \<Rightarrow> False"
  by code_simp

section \<open>Properties\<close>

text \<open>C36: \<open>UpdateFoldDim\<close>, which rewrites blocks in place, does to the set of the places where blocks begin
  just what separating the dimensions from \<open>a\<close> to \<open>b\<close> means: \<open>a\<close> and \<open>b + 1\<close> are added. The counter
  of dimensions grows by the number of new blocks, and no other tensor changes.\<close>

theorem fold_splits_refine:
  assumes "UpdateFoldDim t a b pl = Ok pl'" "plan_ok pl" "t < length (fold_tensors pl)"
  shows "plan_ok pl' \<and>
    starts (dims_at pl' t) = starts (dims_at pl t) \<union> ({nat a, nat b + 1} \<inter> {..<length (dims_at pl t)}) \<and>
    folded_dims pl' - folded_dims pl = int (card (starts (dims_at pl' t))) - int (card (starts (dims_at pl t))) \<and>
    (\<forall>u \<in> {..<length (fold_tensors pl)} - {t}. fold_tensor pl' u = fold_tensor pl u)"
  using UpdateFoldDim_Ok [OF assms] updatedD(2) by simp

theorem fold_splits_refine_witness:
  "\<exists>pl'. UpdateFoldDim 0 1 1 unfolded_plan = Ok pl' \<and> starts (dims_at pl' 0) = {0, 1, 2} \<and> folded_dims pl' = 3"
proof -
  have "case UpdateFoldDim 0 1 1 unfolded_plan of Ok pl' \<Rightarrow> folded_dims pl' = 3 | Err e \<Rightarrow> False" by code_simp
  then obtain pl' where pl': "UpdateFoldDim 0 1 1 unfolded_plan = Ok pl'" "folded_dims pl' = 3" by (auto split: res.splits)
  have "blocks [0, 0, 0]" using blocks_replicate [of 3] by (simp add: numeral_3_eq_3)
  then have "plan_ok unfolded_plan" "0 < length (fold_tensors unfolded_plan)" "dims_at unfolded_plan 0 = replicate 3 0"
    by (simp_all add: unfolded_plan_def plan_ok_def fold_tensor_def numeral_3_eq_3)
  with fold_splits_refine [OF pl'(1)] have "starts (dims_at pl' 0) = {0} \<union> ({1, 2} \<inter> {..<3})"
    by (simp add: starts_replicate numeral_2_eq_2)
  also have "\<dots> = {0, 1, 2}" by auto
  finally show ?thesis using pl' by blast
qed

text \<open>C33: the planning ends for every statement, with a plan, a failed check or a read past the end of a vector
  (\<open>all_reduce_reads_out\<close>), and never for want of steps: the calls of \<open>Propagation\<close> that lead to a tensor on
  the way to them stop there, and the rounds end because all but the last separate dimensions.\<close>

theorem fold_plan_returns: "Plan map_node s \<noteq> Err Out_of_fuel"
  using bounded_Plan [of map_node s] by (cases "Plan map_node s") auto

text \<open>C34: where tensors are read only for what comes after them (\<open>well_fed\<close>) and none is without dimensions,
  a plan that is not given up has no unfinished business: for every relation of every tensor whose
  maps are inverse to each other, two dimensions of the tensor are folded together just if the
  dimensions they are mapped to are. Relations without inverse maps are not spoken of. A tensor that is
  assigned in place from what is computed from it is not \<open>well_fed\<close>, and there the relations may disagree:
  \<open>cycle_disagrees\<close>.\<close>

theorem fold_plan_consistent:
  assumes "Plan map_node s = Ok pl" "\<not> give_up pl" "well_fed rf s" "nonempty_shapes s" "t < length (fold_tensors pl)"
  shows "relations_agree pl t"
  using assms by (rule Plan_agrees)

theorem fold_plan_consistent_witness: "relations_agree example_plan 0"
proof -
  have "0 < length (fold_tensors example_plan)" by (simp add: example_plan_facts)
  from fold_plan_consistent [OF example_plan_Ok example_plan_facts(1,3) const_shapes_nonempty [OF example_plan_facts(4)] this]
  show ?thesis .
qed

text \<open>C35: in a program with constant shapes, one for each tensor, the pass gives every use of a tensor the shape
  with one dimension for each block of dimensions that the plan folds together in the tensor, in their
  order, the product of the dimensions of the block; the uses are the same as before, in the same order, and
  no tensor is renamed. Simplifying a constant dimension has to give it back.\<close>

theorem fold_pass_uses:
  assumes "FoldDimension map_node c s = Ok (s', Some dims)" "const_shapes s"
    and "\<And>n. simplify_dim c (IntImm (Int_type 32) n) = IntImm (Int_type 32) n"
  shows "\<exists>pl. Plan map_node s = Ok pl \<and> \<not> give_up pl \<and> dims = plan_dims pl \<and>
    list_all2 (folded_use dims) (tensor_uses s) (tensor_uses s')"
proof -
  obtain pl u where run: "Plan map_node s = Ok pl" "\<not> give_up pl" "fold_stmt map_node c (plan_dims pl) s None = Ok (s', u)" "dims = plan_dims pl"
    using assms(1) by (auto simp: FoldDimension_def res_bind_Ok_conv split: if_splits)
  have "list_all2 (folded_use (plan_dims pl)) (tensor_uses s) (tensor_uses s')"
    using fold_stmt_uses [OF run(3)] FoldShape_folds [OF run(1,2) assms(2) _ _ assms(3)] by (rule list.rel_mono_strong)
  with run show ?thesis by blast
qed

theorem fold_pass_uses_witness:
  "\<exists>s' dims. FoldDimension (\<lambda>_. None) example_folding fold_example = Ok (s', Some dims) \<and>
    list_all2 (folded_use dims) (tensor_uses fold_example) (tensor_uses s')"
proof -
  have "case FoldDimension (\<lambda>_. None) example_folding fold_example of Ok (s', d) \<Rightarrow> d \<noteq> None | Err e \<Rightarrow> False" by code_simp
  then obtain s' dims where "FoldDimension (\<lambda>_. None) example_folding fold_example = Ok (s', Some dims)" by (auto split: res.splits)
  from fold_pass_uses [OF this example_plan_facts(4)] this show ?thesis by (auto simp: example_folding_def)
qed

text \<open>C32: an operand of an operator that goes over elements, which can be broadcast to what the operator computes
  (\<open>ShapeCanBroadcast\<close>), holds as many elements as before when its shape is folded, as does the result, and
  can be broadcast to the folded result when the dimensions are taken away that it has more than the result;
  those come first and are ones. That there can be such dimensions, which \<open>ShapeCanBroadcast\<close> itself
  refuses, is shown by \<open>fold_operand_outgrows\<close>. The program has constant shapes, one for each
  tensor, and tensors are read only for what comes after them (\<open>well_fed\<close>).\<close>

theorem fold_keeps_broadcast:
  assumes "Plan map_node s = Ok pl" "\<not> give_up pl" "well_fed rf s" "const_shapes s"
    and "(fn, v, int_dims ys) \<in> set (provides s)" "elementwise v" "(x, int_dims xs) \<in> set (provide_uses v)"
    and "ShapeCanBroadcast (int_dims xs) (int_dims ys)"
    and "FoldShape c (plan_dims pl) x (int_dims xs) = Ok xs'" "FoldShape c (plan_dims pl) fn (int_dims ys) = Ok ys'"
    and "\<And>n. simplify_dim c (IntImm (Int_type 32) n) = IntImm (Int_type 32) n"
  shows "\<exists>us vs. xs' = int_dims us \<and> ys' = int_dims vs \<and> prod_list us = prod_list xs \<and> prod_list vs = prod_list ys \<and>
    list_all (\<lambda>u. u = 1) (take (length us - length vs) us) \<and>
    ShapeCanBroadcast (drop (length us - length vs) xs') ys'"
proof -
  obtain f where f: "plan_dims pl x = Some f" "length f = length xs" "xs \<noteq> []" "xs' = int_dims (folded_shape f xs)"
    by (rule FoldShape_Ok [OF assms(9,11)])
  obtain g where g: "plan_dims pl fn = Some g" "length g = length ys" "ys \<noteq> []" "ys' = int_dims (folded_shape g ys)"
    by (rule FoldShape_Ok [OF assms(10,11)])
  have "dims_aligned (folded_shape f xs) (folded_shape g ys)"
    using folded_operand [OF assms(1-7) broadcast_aligned [OF assms(8)]] f(1) g(1) by simp
  from aligned_broadcast [OF this] f g show ?thesis using folded_shape_prod by (metis drop_map)
qed

theorem fold_keeps_broadcast_witness:
  "FoldShape example_folding (plan_dims example_plan) (Func 0 ''b'' None) (int_dims [1, 1, 4]) = Ok (int_dims [1, 4]) \<and>
   FoldShape example_folding (plan_dims example_plan) (Func 0 ''d'' None) (int_dims [2, 3, 4]) = Ok (int_dims [6, 4]) \<and>
   ShapeCanBroadcast (int_dims [1, 4]) (int_dims [6, 4])"
proof -
  have shapes: "FoldShape example_folding (plan_dims example_plan) (Func 0 ''b'' None) (int_dims [1, 1, 4]) = Ok (int_dims [1, 4])"
    "FoldShape example_folding (plan_dims example_plan) (Func 0 ''d'' None) (int_dims [2, 3, 4]) = Ok (int_dims [6, 4])"
    "ShapeCanBroadcast (int_dims [1, 1, 4]) (int_dims [2, 3, 4])" by code_simp+
  define v where "v = op_call ''Add'' [op_tensor ''a'' [2, 3, 4], op_tensor ''b'' [1, 1, 4]]"
  have prov: "(Func 0 ''d'' None, v, int_dims [2, 3, 4]) \<in> set (provides fold_example)"
    "(Func 0 ''b'' None, int_dims [1, 1, 4]) \<in> set (provide_uses v)"
    by (simp_all add: fold_example_def v_def op_out_def op_call_def op_tensor_def)
  have el: "elementwise v" unfolding v_def by code_simp
  have "simplify_dim example_folding (IntImm (Int_type 32) n) = IntImm (Int_type 32) n" for n by (simp add: example_folding_def)
  from fold_keeps_broadcast [OF example_plan_Ok example_plan_facts(1,3,4) prov(1) el prov(2) shapes(3,1,2) this]
  obtain us vs where us: "int_dims [1, 4] = int_dims us" "int_dims [6, 4] = int_dims vs"
    "ShapeCanBroadcast (drop (length us - length vs) (int_dims [1, 4])) (int_dims [6, 4])" by blast
  from us(1,2) have "length us = 2" "length vs = 2" by (metis length_map length_Cons list.size(3) numeral_2_eq_2)+
  with us(3) shapes show ?thesis by simp
qed

end
