(* ===== verification/Composite_Tensors.thy ===== *)
theory Composite_Tensors
  imports Composite_Util
begin

text \<open>
  What a statement of composite operators computes. Between the description it is read from and its
  lowering, such a statement is a sequence of operators: a \<open>Provide\<close> whose value is a call with the
  name of the operator, whose arguments are calls of tensors or constants, and whose indices are
  the shape; attributes of the operator are around it. A tensor has a value of any type, and what
  operators and constants mean is a parameter.
\<close>

section \<open>The operators of a statement\<close>

text \<open>An attribute is an expression or an array of them.\<close>

datatype AttrVal = Attr_Expr Expr | Attr_Array "Expr list"

type_synonym Operator = "AttrNode option \<times> Func \<times> Expr"

fun operators :: "AttrNode option \<Rightarrow> Stmt \<Rightarrow> Operator list" where
  "operators at (AttrStmt n k e b) = operators (if k = ''attrs'' then Some n else at) b"
| "operators at (Provide fn i v shape) = [(at, fn, v)]"
| "operators at (Block a b) = operators at a @ operators at b"
| "operators at s = []"

lemma operators_make_block [simp]: "operators at (make_block a b) = operators at a @ operators at b"
  by (induction a b rule: make_block.induct) auto

text \<open>Tensors that an argument, or the value of an operator, is or reads.\<close>

fun arg_func :: "Expr \<Rightarrow> Func list" where
  "arg_func (CallE ty ct n shape fn i) = [fn]"
| "arg_func e = []"

fun op_reads :: "Expr \<Rightarrow> Func list" where
  "op_reads (CallE ty ct n args f i) = concat (map arg_func args)"
| "op_reads e = []"

text \<open>No tensor is written twice, or read before it is written.\<close>

fun single_assignment :: "Func list \<Rightarrow> Operator list \<Rightarrow> bool" where
  "single_assignment seen [] \<longleftrightarrow> True"
| "single_assignment seen ((at, fn, v) # ps) \<longleftrightarrow>
     fn \<notin> set seen \<and> fn \<notin> set (op_reads v) \<and> single_assignment (fn # op_reads v @ seen) ps"

section \<open>Values\<close>

type_synonym 'v Meaning = "AttrNode option \<Rightarrow> string \<Rightarrow> 'v list \<Rightarrow> 'v"

fun arg_value :: "(Expr \<Rightarrow> 'v) \<Rightarrow> (Func \<Rightarrow> 'v) \<Rightarrow> Expr \<Rightarrow> 'v" where
  "arg_value konst env (CallE ty ct n shape fn i) = env fn"
| "arg_value konst env e = konst e"

fun op_value :: "'v Meaning \<Rightarrow> (Expr \<Rightarrow> 'v) \<Rightarrow> AttrNode option \<Rightarrow> Expr \<Rightarrow> (Func \<Rightarrow> 'v) \<Rightarrow> 'v" where
  "op_value I konst at (CallE ty ct n args f i) env = I at n (map (arg_value konst env) args)"
| "op_value I konst at e env = konst e"

fun run_ops :: "'v Meaning \<Rightarrow> (Expr \<Rightarrow> 'v) \<Rightarrow> Operator list \<Rightarrow> (Func \<Rightarrow> 'v) \<Rightarrow> Func \<Rightarrow> 'v" where
  "run_ops I konst [] env = env"
| "run_ops I konst ((at, fn, v) # ps) env = run_ops I konst ps (env(fn := op_value I konst at v env))"

definition run_stmt :: "'v Meaning \<Rightarrow> (Expr \<Rightarrow> 'v) \<Rightarrow> Stmt \<Rightarrow> (Func \<Rightarrow> 'v) \<Rightarrow> Func \<Rightarrow> 'v" where
  "run_stmt I konst s = run_ops I konst (operators None s)"

lemma run_ops_append: "run_ops I konst (ps @ qs) env = run_ops I konst qs (run_ops I konst ps env)"
proof (induction ps arbitrary: env)
  case (Cons p ps)
  then show ?case by (cases p) (simp del: fun_upd_apply)
qed simp

lemma arg_value_cong: "\<forall>fn \<in> set (arg_func e). env fn = env' fn \<Longrightarrow> arg_value konst env e = arg_value konst env' e"
  by (cases e) auto

lemma args_value_cong:
  "\<forall>fn \<in> set (concat (map arg_func args)). env fn = env' fn \<Longrightarrow> map (arg_value konst env) args = map (arg_value konst env') args"
  by (rule map_cong [OF refl], rule arg_value_cong) auto

lemma op_value_cong: "\<forall>fn \<in> set (op_reads v). env fn = env' fn \<Longrightarrow> op_value I konst at v env = op_value I konst at v env'"
  by (cases v) (simp_all add: args_value_cong [of _ env env'])

end
