(* ===== verification/Composite_Select.thy ===== *)
theory Composite_Select
  imports Composite_Tensors Pass_Index
begin

text \<open>
  \<open>composite/optimize/ops_combine.cc\<close>: a \<open>Select\<close> whose condition is computed by a comparison becomes one
  operator that takes the operands of the comparison, and comparisons that nothing else reads are
  removed.
\<close>

section \<open>The comparisons and how often they are read\<close>

definition cmp_funcs :: "string \<Rightarrow> string option" where
  "cmp_funcs = map_of
     [(''GreaterEqual'', ''GE''), (''Greater'', ''GT''), (''LessEqual'', ''LE''), (''Less'', ''LT''),
      (''Equal'', ''EQ''), (''NotEqual'', ''NE'')]"

record CmpSel =
  condition_with_inputs :: "Func \<Rightarrow> (string \<times> Expr list) option"
  output_ref_cnt :: "Func \<Rightarrow> int option"

definition count_call :: "Func \<Rightarrow> CmpSel \<Rightarrow> CmpSel" where
  "count_call fn st = st\<lparr>output_ref_cnt := (output_ref_cnt st)(fn := map_option (\<lambda>n. n + 1) (output_ref_cnt st fn))\<rparr>"

fun count_expr :: "Expr \<Rightarrow> CmpSel \<Rightarrow> CmpSel" where
  "count_expr (Cast t e) st = count_expr e st"
| "count_expr (Binary p a b) st = count_expr b (count_expr a st)"
| "count_expr (NotE a) st = count_expr a st"
| "count_expr (Select c t e) st = count_expr e (count_expr t (count_expr c st))"
| "count_expr (LoadE ty v i p) st = count_expr p (count_expr i st)"
| "count_expr (LetE v e b) st = count_expr b (count_expr e st)"
| "count_expr (CallE ty ct n args fn i) st = fold count_expr args (count_call fn st)"
| "count_expr e st = st"

text \<open>What is done for the value of a \<open>Provide\<close> before it is visited.\<close>

definition cmp_enter :: "Func \<Rightarrow> Expr \<Rightarrow> CmpSel \<Rightarrow> CmpSel res" where
  "cmp_enter fn v st =
     (case v of
        CallE ty ct n args f i \<Rightarrow>
          (case cmp_funcs n of
             Some code \<Rightarrow>
               Ok (st\<lparr>condition_with_inputs := (condition_with_inputs st)(fn := Some (case condition_with_inputs st fn of Some x \<Rightarrow> x | None \<Rightarrow> (code, args))),
                     output_ref_cnt := (output_ref_cnt st)(fn := Some (case output_ref_cnt st fn of Some n \<Rightarrow> n | None \<Rightarrow> 0))\<rparr>)
           | None \<Rightarrow>
               if n = ''Select'' then
                 res_bind (vec_at args 0) (\<lambda>a.
                   case a of
                     CallE ty ct n args c i \<Rightarrow>
                       Ok (if condition_with_inputs st c \<noteq> None then
                             st\<lparr>output_ref_cnt := (output_ref_cnt st)(c := Some ((case output_ref_cnt st c of Some n \<Rightarrow> n | None \<Rightarrow> 0) - 1))\<rparr>
                           else st)
                   | _ \<Rightarrow> Ok st)
               else Ok st)
      | _ \<Rightarrow> Ok st)"

definition count_range :: "Expr \<times> Expr \<Rightarrow> CmpSel \<Rightarrow> CmpSel" where
  "count_range r st = count_expr (snd r) (count_expr (fst r) st)"

fun cmp_visit :: "Stmt \<Rightarrow> CmpSel \<Rightarrow> CmpSel res" where
  "cmp_visit (LetStmt v e b) st = cmp_visit b (count_expr e st)"
| "cmp_visit (AttrStmt n k e b) st = cmp_visit b (count_expr e st)"
| "cmp_visit (AssertStmt c m b) st = cmp_visit b (count_expr m (count_expr c st))"
| "cmp_visit (ProducerConsumer fn p b) st = cmp_visit b st"
| "cmp_visit (For v m x t b) st = cmp_visit b (count_expr x (count_expr m st))"
| "cmp_visit (Store v e i p) st = Ok (count_expr p (count_expr i (count_expr e st)))"
| "cmp_visit (Provide fn i v shape) st = res_bind (cmp_enter fn v st) (\<lambda>st. Ok (count_expr v (fold count_expr shape st)))"
| "cmp_visit (Allocate v t xs c b n) st =
     res_bind (cmp_visit b (fold count_expr xs st)) (\<lambda>st.
       Ok (case n of None \<Rightarrow> count_expr c st | Some e \<Rightarrow> count_expr e (count_expr c st)))"
| "cmp_visit (FreeStmt v) st = Ok st"
| "cmp_visit (Realize fn i ty bs c b) st = res_bind (cmp_visit b (fold count_range bs st)) (\<lambda>st. Ok (count_expr c st))"
| "cmp_visit (Prefetch fn i ty bs) st = Ok (fold count_range bs st)"
| "cmp_visit (Block a b) st = res_bind (cmp_visit a st) (cmp_visit b)"
| "cmp_visit (IfThenElse c t e) st =
     res_bind (cmp_visit t (count_expr c st)) (\<lambda>st. case e of Some s \<Rightarrow> cmp_visit s st | None \<Rightarrow> Ok st)"
| "cmp_visit (Evaluate e) st = Ok (count_expr e st)"

section \<open>The combined operators\<close>

definition IsIsolated :: "CmpSel \<Rightarrow> string list \<Rightarrow> Func \<Rightarrow> bool" where
  "IsIsolated st outs fn =
     (case output_ref_cnt st fn of Some n \<Rightarrow> n < 1 \<and> func_name fn \<notin> set outs | None \<Rightarrow> False)"

fun fusion_input :: "CmpSel \<Rightarrow> Expr \<Rightarrow> Expr list" where
  "fusion_input st (CallE ty ct n args c i) =
     (case condition_with_inputs st c of Some (code, inputs) \<Rightarrow> inputs | None \<Rightarrow> [CallE ty ct n args c i])"
| "fusion_input st e = [e]"

definition GetFusionOpInputs :: "CmpSel \<Rightarrow> Expr list \<Rightarrow> Expr list" where
  "GetFusionOpInputs st inputs = concat (map (fusion_input st) inputs)"

text \<open>\<open>args[0]\<close> of a \<open>Select\<close> exists, since the visitor has read it.\<close>

definition combine_value :: "CmpSel \<Rightarrow> Expr \<Rightarrow> Expr" where
  "combine_value st v =
     (case v of
        CallE ty ct n args f i \<Rightarrow>
          if n = ''Select'' then
            (case args of
               CallE ty' ct' n' args' c i' # _ \<Rightarrow>
                 (case condition_with_inputs st c of
                    Some (code, inputs) \<Rightarrow> CallE (Int_type 32) CT_PureIntrinsic (''Select'' @ code) (GetFusionOpInputs st args) no_func 0
                  | None \<Rightarrow> v)
             | _ \<Rightarrow> v)
          else v
      | _ \<Rightarrow> v)"

function combine_stmt :: "CmpSel \<Rightarrow> string list \<Rightarrow> Stmt \<Rightarrow> Stmt" where
  "combine_stmt st outs s =
     (case s of
        Provide fn i v shape \<Rightarrow>
          if IsIsolated st outs fn then Evaluate (IntImm (Int_type 32) 0) else Provide fn i (combine_value st v) shape
      | _ \<Rightarrow> smap (\<lambda>e. e) (combine_stmt st outs) s)"
  by pat_completeness auto
termination by (relation "measure (\<lambda>(st, outs, s). size s)") auto

declare combine_stmt.simps [simp del]

definition OpsCombine :: "string list \<Rightarrow> Stmt \<Rightarrow> Stmt res" where
  "OpsCombine output_names s =
     res_bind (cmp_visit s \<lparr>condition_with_inputs = (\<lambda>_. None), output_ref_cnt = (\<lambda>_. None)\<rparr>) (\<lambda>st.
       Ok (combine_stmt st output_names s))"

end
