(* ===== verification/Composite_Select_Correct.thy ===== *)
theory Composite_Select_Correct
  imports Composite_Select
begin

text \<open>
  The combined statement computes what the statement did, for every tensor but the comparisons it
  does without.
\<close>

section \<open>Programs of tensors\<close>

text \<open>Shapes are constants, operators have no function of their own, and a comparison has two operands.\<close>

fun plain :: "Expr \<Rightarrow> bool" where
  "plain (IntImm ty i) \<longleftrightarrow> True"
| "plain (UIntImm ty i) \<longleftrightarrow> True"
| "plain (FloatImm ty i) \<longleftrightarrow> True"
| "plain (StringImm i) \<longleftrightarrow> True"
| "plain e \<longleftrightarrow> False"

fun tensor_arg :: "Expr \<Rightarrow> bool" where
  "tensor_arg (CallE ty ct n shape fn i) \<longleftrightarrow> list_all plain shape"
| "tensor_arg e \<longleftrightarrow> plain e"

fun tensor_op :: "Expr \<Rightarrow> bool" where
  "tensor_op (CallE ty ct n args f i) \<longleftrightarrow> f = no_func \<and> args \<noteq> [] \<and> list_all tensor_arg args \<and> (cmp_funcs n \<noteq> None \<longrightarrow> length args = 2)"
| "tensor_op e \<longleftrightarrow> False"

fun tensor_program :: "Stmt \<Rightarrow> bool" where
  "tensor_program (AttrStmt n k e b) \<longleftrightarrow> plain e \<and> tensor_program b"
| "tensor_program (Provide fn i v shape) \<longleftrightarrow> fn \<noteq> no_func \<and> list_all plain shape \<and> tensor_op v"
| "tensor_program (Block a b) \<longleftrightarrow> tensor_program a \<and> tensor_program b"
| "tensor_program (Evaluate e) \<longleftrightarrow> plain e"
| "tensor_program s \<longleftrightarrow> False"

section \<open>What the visitor counts\<close>

lemma count_plain [simp]: "plain e \<Longrightarrow> count_expr e st = st"
  by (cases e) auto

lemma fold_count_plain [simp]: "list_all plain es \<Longrightarrow> fold count_expr es st = st"
  by (induction es arbitrary: st) auto

lemma count_arg: "tensor_arg e \<Longrightarrow> count_expr e st = fold count_call (arg_func e) st"
  by (cases e) auto

lemma count_args: "list_all tensor_arg es \<Longrightarrow> fold count_expr es st = fold count_call (concat (map arg_func es)) st"
  by (induction es arbitrary: st) (auto simp: count_arg)

lemma count_op: "tensor_op v \<Longrightarrow> count_expr v st = fold count_call (no_func # op_reads v) st"
  by (cases v) (auto simp: count_args)

lemma fold_count_call:
  "condition_with_inputs (fold count_call fs st) = condition_with_inputs st"
  "output_ref_cnt (fold count_call fs st) x = map_option (\<lambda>n. n + int (count_list fs x)) (output_ref_cnt st x)"
  by (induction fs arbitrary: st) (auto simp: count_call_def option.map_comp comp_def option.map_ident ac_simps)

definition visit_op :: "Operator \<Rightarrow> CmpSel \<Rightarrow> CmpSel res" where
  "visit_op p st = (case p of (at, fn, v) \<Rightarrow> res_bind (cmp_enter fn v st) (\<lambda>st. Ok (count_expr v st)))"

lemma cmp_visit_ops: "tensor_program s \<Longrightarrow> cmp_visit s st = for_each visit_op (operators at s) st"
proof (induction s arbitrary: st at rule: tensor_program.induct)
  case (2 fn i v shape)
  then show ?case by (cases "cmp_enter fn v st") (simp_all add: visit_op_def)
next
  case (3 a b)
  then have "cmp_visit b = for_each visit_op (operators at b)" by (intro ext) simp
  with 3 show ?case by (simp add: for_each_append)
qed simp_all

text \<open>The comparison an operator is, as the visitor records it, and what it reads other than as the
  condition of a \<open>Select\<close>.\<close>

fun cmp_of :: "Expr \<Rightarrow> (string \<times> Expr list) option" where
  "cmp_of (CallE ty ct n args f i) = map_option (\<lambda>code. (code, args)) (cmp_funcs n)"
| "cmp_of e = None"

fun cond_func :: "Expr \<Rightarrow> Func option" where
  "cond_func (CallE ty ct n (CallE ty' ct' n' sh c i' # args) f i) = (if n = ''Select'' then Some c else None)"
| "cond_func e = None"

definition other_reads :: "Expr \<Rightarrow> Func list" where
  "other_reads v = (if cond_func v = None then op_reads v else tl (op_reads v))"

lemma cond_func_reads: "cond_func v = Some c \<Longrightarrow> op_reads v = c # other_reads v"
  by (cases v rule: cond_func.cases) (auto simp: other_reads_def split: if_splits)

lemma cond_func_cmp: "cond_func v = Some c \<Longrightarrow> cmp_of v = None"
  by (cases v rule: cond_func.cases) (auto simp: cmp_funcs_def split: if_splits)

definition known :: "CmpSel \<Rightarrow> bool" where
  "known st \<longleftrightarrow> (\<forall>x. condition_with_inputs st x = None \<longleftrightarrow> output_ref_cnt st x = None) \<and> output_ref_cnt st no_func = None"

lemma cmp_enter_cases:
  assumes "tensor_op v"
  shows "cmp_enter fn v st = Ok (case cmp_of v of
      Some x \<Rightarrow> st\<lparr>condition_with_inputs := (condition_with_inputs st)(fn := Some (case condition_with_inputs st fn of Some y \<Rightarrow> y | None \<Rightarrow> x)),
                  output_ref_cnt := (output_ref_cnt st)(fn := Some (case output_ref_cnt st fn of Some n \<Rightarrow> n | None \<Rightarrow> 0))\<rparr>
    | None \<Rightarrow> (case cond_func v of
        Some c \<Rightarrow> if condition_with_inputs st c \<noteq> None then
                    st\<lparr>output_ref_cnt := (output_ref_cnt st)(c := Some ((case output_ref_cnt st c of Some n \<Rightarrow> n | None \<Rightarrow> 0) - 1))\<rparr> else st
      | None \<Rightarrow> st))"
  using assms
proof (cases v)
  case (CallE ty ct n args f i)
  with assms obtain a as where args: "args = a # as" by (cases args) auto
  show ?thesis
    by (cases a) (auto simp: CallE args cmp_enter_def vec_at_def cmp_funcs_def split: option.splits)
qed auto

text \<open>One operator, the first to write its tensor.\<close>

lemma visit_op_Ok:
  assumes "tensor_op v" "known st" "condition_with_inputs st fn = None" "fn \<noteq> no_func" "fn \<notin> set (op_reads v)"
  obtains st' where "visit_op (at, fn, v) st = Ok st'" "known st'" "condition_with_inputs st' = (condition_with_inputs st)(fn := cmp_of v)"
    "\<And>x. x \<noteq> fn \<Longrightarrow> output_ref_cnt st' x = map_option (\<lambda>n. n + int (count_list (other_reads v) x)) (output_ref_cnt st x)"
    "output_ref_cnt st' fn = map_option (\<lambda>y. 0) (cmp_of v)"
proof -
  obtain st1 where st1: "cmp_enter fn v st = Ok st1" using cmp_enter_cases [OF assms(1)] by blast
  define st' where "st' = fold count_call (no_func # op_reads v) st1"
  have run: "visit_op (at, fn, v) st = Ok st'" by (simp add: visit_op_def st1 count_op [OF assms(1)] st'_def)
  have none: "output_ref_cnt st fn = None" "output_ref_cnt st no_func = None" using assms(2,3) by (simp_all add: known_def)
  have unread: "count_list (op_reads v) fn = 0" using assms(5) by (simp add: count_list_0_iff)
  note enter = cmp_enter_cases [OF assms(1), of fn st, unfolded st1 res.inject]
  have conds: "condition_with_inputs st' = (condition_with_inputs st)(fn := cmp_of v)"
    using assms(3) unfolding st'_def fold_count_call(1) enter by (auto split: option.splits)
  have cnt: "output_ref_cnt st' x = map_option (\<lambda>n. n + int (count_list (op_reads v) x)) (output_ref_cnt st1 x)" if "x \<noteq> no_func" for x
    unfolding st'_def fold_count_call(2) using that by simp
  have own: "output_ref_cnt st' fn = map_option (\<lambda>y. 0) (cmp_of v)"
  proof (cases "cmp_of v")
    case (Some y)
    then show ?thesis using cnt [OF assms(4)] none unread by (simp add: enter)
  next
    case None
    have "cond_func v = Some c \<Longrightarrow> c \<noteq> fn" for c using cond_func_reads [of v c] assms(5) by auto
    then show ?thesis using cnt [OF assms(4)] none None by (auto simp: enter split: option.splits)
  qed
  have other: "output_ref_cnt st' x = map_option (\<lambda>n. n + int (count_list (other_reads v) x)) (output_ref_cnt st x)" if x: "x \<noteq> fn" for x
  proof (cases "x = no_func")
    case True
    have "output_ref_cnt st1 no_func = None"
      using none(2) assms(2,4) unfolding known_def by (auto simp: enter split: option.splits)
    then show ?thesis unfolding st'_def fold_count_call(2) using True none(2) by simp
  next
    case False
    show ?thesis
    proof (cases "cond_func v")
      case None
      then have "output_ref_cnt st1 x = output_ref_cnt st x" using x by (simp add: enter split: option.splits)
      then show ?thesis using cnt [OF False] None by (simp add: other_reads_def)
    next
      case (Some c)
      have cmp: "cmp_of v = None" by (rule cond_func_cmp [OF Some])
      show ?thesis
      proof (cases "x = c \<and> output_ref_cnt st c \<noteq> None")
        case True
        then obtain n where n: "output_ref_cnt st c = Some n" by auto
        then have "condition_with_inputs st c \<noteq> None" using assms(2) by (auto simp: known_def)
        then show ?thesis using cnt [OF False] True n Some cmp cond_func_reads [OF Some] by (auto simp: enter)
      next
        case no: False
        then have "output_ref_cnt st1 x = output_ref_cnt st x" using assms(2) Some cmp unfolding known_def by (auto simp: enter)
        moreover have "map_option (\<lambda>n. n + int (count_list (op_reads v) x)) (output_ref_cnt st x) =
          map_option (\<lambda>n. n + int (count_list (other_reads v) x)) (output_ref_cnt st x)"
          using no cond_func_reads [OF Some] by (auto split: option.splits)
        ultimately show ?thesis using cnt [OF False] by simp
      qed
    qed
  qed
  have "known st'"
    unfolding known_def
  proof (intro conjI allI)
    fix x
    show "condition_with_inputs st' x = None \<longleftrightarrow> output_ref_cnt st' x = None"
      using conds own other [of x] assms(2) by (cases "x = fn") (auto simp: known_def)
    show "output_ref_cnt st' no_func = None" using other [of no_func] assms(4) none(2) by simp
  qed
  from that [OF run this conds other own] show ?thesis by blast
qed

abbreviation written :: "Operator list \<Rightarrow> Func set" where
  "written ps \<equiv> (\<lambda>(at, fn, v). fn) ` set ps"

definition reads_of :: "Operator list \<Rightarrow> Func \<Rightarrow> nat" where
  "reads_of ps x = sum_list (map (\<lambda>(at, fn, v). count_list (other_reads v) x) ps)"

lemma single_assignment_seen: "single_assignment seen ps \<Longrightarrow> x \<in> set seen \<Longrightarrow> x \<notin> written ps"
  by (induction seen ps rule: single_assignment.induct) auto

lemma other_reads_subset: "set (other_reads v) \<subseteq> set (op_reads v)"
  by (cases "op_reads v") (auto simp: other_reads_def)

definition counted :: "Operator list \<Rightarrow> CmpSel \<Rightarrow> CmpSel \<Rightarrow> bool" where
  "counted ps st st' \<longleftrightarrow> known st' \<and> (\<forall>x. x \<notin> written ps \<longrightarrow> condition_with_inputs st' x = condition_with_inputs st x) \<and>
     (\<forall>(at, fn, v) \<in> set ps. condition_with_inputs st' fn = cmp_of v) \<and>
     (\<forall>x n. output_ref_cnt st x = Some n \<longrightarrow> output_ref_cnt st' x = Some (n + int (reads_of ps x))) \<and>
     (\<forall>x n. output_ref_cnt st x = None \<and> output_ref_cnt st' x = Some n \<longrightarrow> n = int (reads_of ps x))"

lemma visit_ops_Ok:
  "list_all (\<lambda>(at, fn, v). tensor_op v \<and> fn \<noteq> no_func) ps \<Longrightarrow> single_assignment seen ps \<Longrightarrow> known st \<Longrightarrow>
     (\<forall>x. condition_with_inputs st x \<noteq> None \<longrightarrow> x \<in> set seen) \<Longrightarrow>
     \<exists>st'. for_each visit_op ps st = Ok st' \<and> counted ps st st'"
proof (induction seen ps arbitrary: st rule: single_assignment.induct)
  case (1 seen)
  then show ?case by (auto simp: counted_def reads_of_def)
next
  case (2 seen at fn v ps)
  have p: "tensor_op v" "fn \<noteq> no_func" "fn \<notin> set seen" "fn \<notin> set (op_reads v)" "single_assignment (fn # op_reads v @ seen) ps"
    using "2.prems"(1,2) by simp_all
  have fresh: "condition_with_inputs st fn = None" using "2.prems"(4) p(3) by blast
  from visit_op_Ok [OF p(1) "2.prems"(3) fresh p(2,4)] obtain st1 where st1: "visit_op (at, fn, v) st = Ok st1" "known st1"
    "condition_with_inputs st1 = (condition_with_inputs st)(fn := cmp_of v)"
    "\<And>x. x \<noteq> fn \<Longrightarrow> output_ref_cnt st1 x = map_option (\<lambda>n. n + int (count_list (other_reads v) x)) (output_ref_cnt st x)"
    "output_ref_cnt st1 fn = map_option (\<lambda>y. 0) (cmp_of v)" by metis
  have "\<forall>x. condition_with_inputs st1 x \<noteq> None \<longrightarrow> x \<in> set (fn # op_reads v @ seen)" using "2.prems"(4) by (auto simp: st1(3))
  with "2.IH" [OF _ p(5) st1(2)] "2.prems"(1) obtain st' where st': "for_each visit_op ps st1 = Ok st'" "counted ps st1 st'" by auto
  have later: "x \<notin> written ps" if "x \<in> set (fn # op_reads v @ seen)" for x by (rule single_assignment_seen [OF p(5) that])
  have C: "known st'" "\<And>x. x \<notin> written ps \<Longrightarrow> condition_with_inputs st' x = condition_with_inputs st1 x"
    "\<forall>(at, fn, v) \<in> set ps. condition_with_inputs st' fn = cmp_of v"
    "\<And>x n. output_ref_cnt st1 x = Some n \<Longrightarrow> output_ref_cnt st' x = Some (n + int (reads_of ps x))"
    "\<And>x n. output_ref_cnt st1 x = None \<Longrightarrow> output_ref_cnt st' x = Some n \<Longrightarrow> n = int (reads_of ps x)"
    using st'(2) unfolding counted_def by blast+
  have sum: "reads_of ((at, fn, v) # ps) x = count_list (other_reads v) x + reads_of ps x" for x by (simp add: reads_of_def)
  have none: "output_ref_cnt st fn = None" using "2.prems"(3) fresh by (simp add: known_def)
  have unread: "count_list (other_reads v) fn = 0" using p(4) other_reads_subset by (auto simp: count_list_0_iff)
  have "counted ((at, fn, v) # ps) st st'"
    unfolding counted_def
  proof (intro conjI allI impI)
    show "known st'" by (rule C(1))
    show "condition_with_inputs st' x = condition_with_inputs st x" if "x \<notin> written ((at, fn, v) # ps)" for x
      using that C(2) [of x] by (auto simp: st1(3))
    have "condition_with_inputs st' fn = cmp_of v" using C(2) [OF later [of fn]] by (simp add: st1(3))
    then show "\<forall>(at, fn, v) \<in> set ((at, fn, v) # ps). condition_with_inputs st' fn = cmp_of v" using C(3) by simp
    show "output_ref_cnt st' x = Some (n + int (reads_of ((at, fn, v) # ps) x))" if "output_ref_cnt st x = Some n" for x n
      using that none C(4) [of x] st1(4) [of x] by (cases "x = fn") (simp_all add: sum)
    show "n = int (reads_of ((at, fn, v) # ps) x)" if x: "output_ref_cnt st x = None \<and> output_ref_cnt st' x = Some n" for x n
    proof (cases "x = fn")
      case True
      then show ?thesis using x unread C(4) [of fn 0] C(5) [of fn n] st1(5) by (cases "cmp_of v") (simp_all add: sum)
    next
      case False
      have none1: "output_ref_cnt st1 x = None" using st1(4) [OF False] x by simp
      have "x \<notin> set (op_reads v)"
      proof
        assume "x \<in> set (op_reads v)"
        then have "condition_with_inputs st' x = condition_with_inputs st1 x" by (intro C(2) later) simp
        with none1 C(1) st1(2) x show False unfolding known_def by (metis option.distinct(1))
      qed
      then have "count_list (other_reads v) x = 0" using other_reads_subset by (auto simp: count_list_0_iff)
      then show ?thesis using C(5) [OF none1] x by (simp add: sum)
    qed
  qed
  with st' st1(1) show ?case by auto
qed

lemma reads_of_0: "reads_of ps x = 0 \<Longrightarrow> (at, fn, v) \<in> set ps \<Longrightarrow> x \<notin> set (other_reads v)"
  by (induction ps) (auto simp: reads_of_def count_list_0_iff)

section \<open>What the combined operators compute\<close>

text \<open>The values that a \<open>Select\<close> chooses from are not the results of comparisons; they would be replaced by the
  operands of the comparison, too.\<close>

definition plain_selects :: "Stmt \<Rightarrow> bool" where
  "plain_selects s \<longleftrightarrow> (let ps = operators None s in
     list_all (\<lambda>(at, fn, v). cond_func v \<noteq> None \<longrightarrow>
       list_all (\<lambda>x. list_all (\<lambda>(at', fn', v'). fn' = x \<longrightarrow> cmp_of v' = None) ps) (other_reads v)) ps)"

text \<open>A combined operator selects as the comparison with its first two operands says.\<close>

definition selects :: "'v Meaning \<Rightarrow> bool" where
  "selects I \<longleftrightarrow> (\<forall>at at' n code xs ys. cmp_funcs n = Some code \<and> length xs = 2 \<longrightarrow>
     I at (''Select'' @ code) (xs @ ys) = I at ''Select'' (I at' n xs # ys))"

fun combine_op :: "CmpSel \<Rightarrow> string list \<Rightarrow> Operator \<Rightarrow> Operator list" where
  "combine_op st outs (at, fn, v) = (if IsIsolated st outs fn then [] else [(at, fn, combine_value st v)])"

lemma combine_operators: "tensor_program s \<Longrightarrow> operators at (combine_stmt st outs s) = concat (map (combine_op st outs) (operators at s))"
proof (induction s arbitrary: at rule: tensor_program.induct)
  case (2 fn i v shape)
  then show ?case by (simp add: combine_stmt.simps [of st outs "Provide fn i v shape"])
qed (simp_all add: combine_stmt.simps [of st outs "AttrStmt _ _ _ _"] combine_stmt.simps [of st outs "Block _ _"]
  combine_stmt.simps [of st outs "Evaluate _"])

lemma combine_cond:
  assumes "cond_func v = Some c" "condition_with_inputs st c = Some (code, inputs)" "\<forall>x \<in> set (other_reads v). condition_with_inputs st x = None"
  obtains ty ct n a as f i where "v = CallE ty ct n (a # as) f i" "n = ''Select''" "arg_func a = [c]"
    "other_reads v = concat (map arg_func as)"
    "combine_value st v = CallE (Int_type 32) CT_PureIntrinsic (''Select'' @ code) (inputs @ as) no_func 0"
proof -
  obtain ty ct ty' ct' n' sh i' as f i where v: "v = CallE ty ct ''Select'' (CallE ty' ct' n' sh c i' # as) f i"
    using assms(1) by (cases v rule: cond_func.cases) (auto split: if_splits)
  have other: "other_reads v = concat (map arg_func as)" by (simp add: v other_reads_def)
  have "fusion_input st a = [a]" if "a \<in> set as" for a
    using assms(3) that unfolding other by (cases a) auto
  then have "GetFusionOpInputs st as = as" unfolding GetFusionOpInputs_def by (induction as) auto
  then have "combine_value st v = CallE (Int_type 32) CT_PureIntrinsic (''Select'' @ code) (inputs @ as) no_func 0"
    using assms(2) by (simp add: combine_value_def v GetFusionOpInputs_def)
  from that [OF v refl _ other this] show ?thesis by simp
qed

lemma combine_same: "cond_func v = None \<or> condition_with_inputs st (the (cond_func v)) = None \<Longrightarrow> combine_value st v = v"
  by (cases v rule: cond_func.cases) (auto simp: combine_value_def split: if_splits)

text \<open>What is known when the operators before \<open>qs\<close> have run.\<close>

definition cond_values :: "'v Meaning \<Rightarrow> (Expr \<Rightarrow> 'v) \<Rightarrow> CmpSel \<Rightarrow> Func list \<Rightarrow> (Func \<Rightarrow> 'v) \<Rightarrow> bool" where
  "cond_values I konst st seen env \<longleftrightarrow> (\<forall>c \<in> set seen. \<forall>code args. condition_with_inputs st c = Some (code, args) \<longrightarrow>
     set (concat (map arg_func args)) \<subseteq> set seen \<and>
     (\<exists>at n. cmp_funcs n = Some code \<and> env c = I at n (map (arg_value konst env) args)))"

lemma cond_values_step:
  assumes "cond_values I konst st seen env" "condition_with_inputs st fn = cmp_of v" "fn \<notin> set seen" "fn \<notin> set (op_reads v)"
    and "\<And>c. c \<in> set (op_reads v) \<Longrightarrow> condition_with_inputs st c \<noteq> None \<Longrightarrow> c \<in> set seen"
  shows "cond_values I konst st (fn # op_reads v @ seen) (env(fn := op_value I konst at v env))"
  unfolding cond_values_def
proof (intro ballI allI impI)
  fix c code args
  assume c: "c \<in> set (fn # op_reads v @ seen)" "condition_with_inputs st c = Some (code, args)"
  let ?env = "env(fn := op_value I konst at v env)"
  have upd: "map (arg_value konst ?env) args = map (arg_value konst env) args" if "fn \<notin> set (concat (map arg_func args))"
    by (rule args_value_cong) (use that in auto)
  show "set (concat (map arg_func args)) \<subseteq> set (fn # op_reads v @ seen) \<and>
     (\<exists>at n. cmp_funcs n = Some code \<and> ?env c = I at n (map (arg_value konst ?env) args))"
  proof (cases "c = fn")
    case True
    then have "cmp_of v = Some (code, args)" using assms(2) c(2) by simp
    then obtain ty ct n f i where v: "v = CallE ty ct n args f i" "cmp_funcs n = Some code" by (cases v) auto
    from assms(4) have "fn \<notin> set (concat (map arg_func args))" by (simp add: v(1))
    note same = upd [OF this]
    have "?env c = I at n (map (arg_value konst env) args)" by (simp add: True v(1))
    also have "\<dots> = I at n (map (arg_value konst ?env) args)" by (simp only: same)
    finally have "\<exists>at n. cmp_funcs n = Some code \<and> ?env c = I at n (map (arg_value konst ?env) args)" using v(2) by blast
    then show ?thesis by (auto simp: v(1))
  next
    case False
    then have "c \<in> set seen" using c assms(5) by auto
    with assms(1) c(2) obtain at' n where n: "set (concat (map arg_func args)) \<subseteq> set seen" "cmp_funcs n = Some code"
      "env c = I at' n (map (arg_value konst env) args)" unfolding cond_values_def by blast
    then have "fn \<notin> set (concat (map arg_func args))" using assms(3) by blast
    note same = upd [OF this]
    have "?env c = I at' n (map (arg_value konst ?env) args)" using n(3) False by (simp only: same fun_upd_apply if_False)
    with n(1,2) show ?thesis by auto
  qed
qed

lemma combine_value_correct:
  assumes "cond_values I konst st seen env" "selects I"
    and reads: "\<And>x. x \<in> set (other_reads v) \<Longrightarrow> env' x = env x"
    and cond: "\<And>c code inputs. cond_func v = Some c \<Longrightarrow> condition_with_inputs st c = Some (code, inputs) \<Longrightarrow>
      c \<in> set seen \<and> (\<forall>x \<in> set (other_reads v). condition_with_inputs st x = None) \<and> length inputs = 2 \<and>
      (\<forall>x \<in> set (concat (map arg_func inputs)). env' x = env x)"
    and none: "\<And>c. cond_func v = Some c \<Longrightarrow> condition_with_inputs st c = None \<Longrightarrow> env' c = env c"
  shows "op_value I konst at (combine_value st v) env' = op_value I konst at v env"
proof (cases "cond_func v = None \<or> condition_with_inputs st (the (cond_func v)) = None")
  case True
  have "\<forall>x \<in> set (op_reads v). env' x = env x"
  proof (cases "cond_func v")
    case None
    then show ?thesis using reads by (simp add: other_reads_def)
  next
    case (Some c)
    then show ?thesis using reads none [OF Some] True cond_func_reads [OF Some] by simp
  qed
  then show ?thesis unfolding combine_same [OF True] by (rule op_value_cong)
next
  case False
  then obtain c code inputs where c: "cond_func v = Some c" "condition_with_inputs st c = Some (code, inputs)" by auto
  note C = cond [OF c]
  obtain ty ct n a as f i where v: "v = CallE ty ct n (a # as) f i" "n = ''Select''" "arg_func a = [c]"
    "other_reads v = concat (map arg_func as)"
    "combine_value st v = CallE (Int_type 32) CT_PureIntrinsic (''Select'' @ code) (inputs @ as) no_func 0"
    using combine_cond [OF c] C by metis
  have a: "arg_value konst env a = env c" using v(3) by (cases a) auto
  have inputs: "map (arg_value konst env') inputs = map (arg_value konst env) inputs"
    and others: "map (arg_value konst env') as = map (arg_value konst env) as"
    using C reads unfolding v(4) by (intro args_value_cong; blast)+
  obtain at' m where m: "cmp_funcs m = Some code" "env c = I at' m (map (arg_value konst env) inputs)"
    using assms(1) c(2) C unfolding cond_values_def by blast
  have "op_value I konst at (combine_value st v) env' = I at (''Select'' @ code) (map (arg_value konst env) inputs @ map (arg_value konst env) as)"
    by (simp add: v(5) inputs others)
  also have "\<dots> = I at ''Select'' (I at' m (map (arg_value konst env) inputs) # map (arg_value konst env) as)"
    using assms(2) m(1) C unfolding selects_def by (metis length_map)
  also have "\<dots> = op_value I konst at v env" by (simp add: v(1,2) a m(2))
  finally show ?thesis .
qed

lemma combine_ops_correct:
  assumes "selects I" and ops: "\<And>at fn v. (at, fn, v) \<in> set ps \<Longrightarrow> tensor_op v"
    and comps: "\<And>at fn v. (at, fn, v) \<in> set ps \<Longrightarrow> condition_with_inputs st fn = cmp_of v"
    and dom: "\<And>x. condition_with_inputs st x \<noteq> None \<Longrightarrow> x \<in> written ps"
    and unread: "\<And>x at fn v. IsIsolated st outs x \<Longrightarrow> (at, fn, v) \<in> set ps \<Longrightarrow> x \<notin> set (other_reads v)"
    and isolated: "\<And>x. IsIsolated st outs x \<Longrightarrow> condition_with_inputs st x \<noteq> None"
    and plain: "\<And>at fn v x. (at, fn, v) \<in> set ps \<Longrightarrow> cond_func v \<noteq> None \<Longrightarrow> x \<in> set (other_reads v) \<Longrightarrow> condition_with_inputs st x = None"
  shows "set qs \<subseteq> set ps \<Longrightarrow> written ps \<subseteq> set seen \<union> written qs \<Longrightarrow> single_assignment seen qs \<Longrightarrow> cond_values I konst st seen env \<Longrightarrow>
    (\<And>x. \<not> IsIsolated st outs x \<Longrightarrow> env' x = env x) \<Longrightarrow> \<not> IsIsolated st outs x \<Longrightarrow>
    run_ops I konst (concat (map (combine_op st outs) qs)) env' x = run_ops I konst qs env x"
proof (induction seen qs arbitrary: env env' rule: single_assignment.induct)
  case (2 seen at fn v qs)
  have p: "(at, fn, v) \<in> set ps" "fn \<notin> set seen" "fn \<notin> set (op_reads v)" "single_assignment (fn # op_reads v @ seen) qs"
    using "2.prems"(1,3) by simp_all
  have read: "c \<in> set seen" if c: "c \<in> set (op_reads v)" "condition_with_inputs st c \<noteq> None" for c
  proof -
    have "c \<in> set seen \<union> written ((at, fn, v) # qs)" using dom [OF c(2)] "2.prems"(2) by blast
    moreover have "c \<noteq> fn" using c(1) p(3) by blast
    moreover have "c \<notin> written qs" using single_assignment_seen [OF p(4)] c(1) by simp
    ultimately show ?thesis by auto
  qed
  define env1 where "env1 = env(fn := op_value I konst at v env)"
  have vals: "cond_values I konst st (fn # op_reads v @ seen) env1"
    unfolding env1_def by (rule cond_values_step [OF "2.prems"(4) comps [OF p(1)] p(2,3) read])
  have sub: "set qs \<subseteq> set ps" "written ps \<subseteq> set (fn # op_reads v @ seen) \<union> written qs" using "2.prems"(1,2) by auto
  show ?case
  proof (cases "IsIsolated st outs fn")
    case True
    have "env' y = env1 y" if "\<not> IsIsolated st outs y" for y
      using "2.prems"(5) [OF that] that True by (auto simp: env1_def)
    from "2.IH" [OF sub p(4) vals this "2.prems"(6)] True show ?thesis by (simp add: env1_def del: fun_upd_apply)
  next
    case False
    have "op_value I konst at (combine_value st v) env' = op_value I konst at v env"
    proof (rule combine_value_correct [OF "2.prems"(4) assms(1)])
      show "env' y = env y" if "y \<in> set (other_reads v)" for y using "2.prems"(5) unread p(1) that by blast
      show "env' c = env c" if "cond_func v = Some c" "condition_with_inputs st c = None" for c
        using "2.prems"(5) isolated that(2) by blast
      fix c code inputs assume c: "cond_func v = Some c" "condition_with_inputs st c = Some (code, inputs)"
      have "c \<in> set seen" using read [of c] cond_func_reads [OF c(1)] c(2) by simp
      moreover have "\<forall>x \<in> set (other_reads v). condition_with_inputs st x = None" using plain [OF p(1)] c(1) by simp
      moreover have "env' y = env y" if y: "y \<in> set (concat (map arg_func inputs))" for y
      proof -
        obtain at' v' where v': "(at', c, v') \<in> set ps" using dom [of c] c(2) by auto
        then have "cmp_of v' = Some (code, inputs)" using comps c(2) by simp
        then obtain ty ct n f i where "v' = CallE ty ct n inputs f i" by (cases v') auto
        moreover have "cond_func v' = None" using cond_func_cmp [of v'] \<open>cmp_of v' = _\<close> by (cases "cond_func v'") auto
        ultimately have "y \<in> set (other_reads v')" using y by (simp add: other_reads_def)
        then show ?thesis using "2.prems"(5) unread v' by blast
      qed
      moreover have "length inputs = 2"
      proof -
        obtain at' v' where v': "(at', c, v') \<in> set ps" using dom [of c] c(2) by auto
        then have "cmp_of v' = Some (code, inputs)" using comps c(2) by simp
        with ops [OF v'] show ?thesis by (cases v') auto
      qed
      ultimately show "c \<in> set seen \<and> (\<forall>x \<in> set (other_reads v). condition_with_inputs st x = None) \<and> length inputs = 2 \<and>
        (\<forall>x \<in> set (concat (map arg_func inputs)). env' x = env x)" by blast
    qed
    then have "(env'(fn := op_value I konst at (combine_value st v) env')) y = env1 y" if "\<not> IsIsolated st outs y" for y
      using "2.prems"(5) [OF that] by (simp add: env1_def)
    from "2.IH" [OF sub p(4) vals this "2.prems"(6)] False show ?thesis by (simp add: env1_def del: fun_upd_apply)
  qed
qed simp

lemma tensor_program_ops: "tensor_program s \<Longrightarrow> list_all (\<lambda>(at, fn, v). tensor_op v \<and> fn \<noteq> no_func) (operators at s)"
  by (induction s arbitrary: at rule: tensor_program.induct) auto

definition is_comparison_of :: "Stmt \<Rightarrow> Func \<Rightarrow> bool" where
  "is_comparison_of s x \<longleftrightarrow> list_ex (\<lambda>(at, fn, v). fn = x \<and> cmp_of v \<noteq> None) (operators None s)"

section \<open>Examples\<close>

text \<open>Numbers instead of tensors: a comparison is one or zero.\<close>

definition compare_as :: "string \<Rightarrow> int \<Rightarrow> int \<Rightarrow> bool" where
  "compare_as code a b =
     (if code = ''GE'' then a \<ge> b else if code = ''GT'' then a > b else if code = ''LE'' then a \<le> b
      else if code = ''LT'' then a < b else if code = ''EQ'' then a = b else a \<noteq> b)"

definition number_ops :: "int Meaning" where
  "number_ops at n xs =
     (case cmp_funcs n of
        Some code \<Rightarrow> (if compare_as code (xs ! 0) (xs ! 1) then 1 else 0)
      | None \<Rightarrow>
          if n = ''Select'' then (if xs ! 0 \<noteq> 0 then xs ! 1 else xs ! 2)
          else if take 6 n = ''Select'' then (if compare_as (drop 6 n) (xs ! 0) (xs ! 1) then xs ! 2 else xs ! 3)
          else sum_list xs)"

lemma selects_numbers: "selects number_ops"
  unfolding selects_def
proof (intro allI impI)
  fix at at' n code and xs ys :: "int list"
  assume *: "cmp_funcs n = Some code \<and> length xs = 2"
  then obtain a b where xs: "xs = [a, b]" by (auto simp: numeral_2_eq_2 length_Suc_conv)
  have "code \<in> {''GE'', ''GT'', ''LE'', ''LT'', ''EQ'', ''NE''}" using * by (auto simp: cmp_funcs_def split: if_splits)
  then have "cmp_funcs (''Select'' @ code) = None" "code \<noteq> []" by (auto simp: cmp_funcs_def)
  moreover have "cmp_funcs ''Select'' = None" by (simp add: cmp_funcs_def)
  ultimately show "number_ops at (''Select'' @ code) (xs @ ys) = number_ops at ''Select'' (number_ops at' n xs # ys)"
    using * by (simp add: number_ops_def xs)
qed

definition cmp_op :: "string \<Rightarrow> Expr list \<Rightarrow> Expr" where
  "cmp_op n args = CallE (Int_type 32) CT_PureIntrinsic n args no_func 0"

text \<open>\<open>e\<close> is \<open>x\<close> where \<open>a\<close> is greater than \<open>b\<close> and \<open>y\<close> elsewhere.\<close>

definition select_example :: Stmt where
  "select_example =
     Block (op_out ''c'' (cmp_op ''Greater'' [op_tensor ''a'' [4], op_tensor ''b'' [4]]) [4])
       (op_out ''e'' (cmp_op ''Select'' [op_tensor ''c'' [4], op_tensor ''x'' [4], op_tensor ''y'' [4]]) [4])"

definition example_env :: "Func \<Rightarrow> int" where
  "example_env fn = (if func_name fn = ''a'' then 5 else if func_name fn = ''b'' then 3 else if func_name fn = ''x'' then 7 else 0)"

text \<open>Where the value that is selected is itself the result of a comparison, its operands take its place, and
  the operator has one operand more than it should.\<close>

definition nested_select :: Stmt where
  "nested_select =
     Block (op_out ''c'' (cmp_op ''Greater'' [op_tensor ''a'' [4], op_tensor ''b'' [4]]) [4])
       (Block (op_out ''d'' (cmp_op ''Less'' [op_tensor ''a'' [4], op_tensor ''x'' [4]]) [4])
         (op_out ''e'' (cmp_op ''Select'' [op_tensor ''c'' [4], op_tensor ''d'' [4], op_tensor ''y'' [4]]) [4]))"

lemma nested_select_spliced:
  "case OpsCombine [''e''] nested_select of
     Ok (Block _ (Block _ (Provide fn i (CallE ty ct n args f j) shape))) \<Rightarrow>
       n = ''SelectGT'' \<and> map (\<lambda>e. map func_name (arg_func e)) args = [[''a''], [''b''], [''a''], [''x''], [''y'']]
   | _ \<Rightarrow> False"
  by code_simp

section \<open>The property\<close>

text \<open>C37: when a selection and the comparison it depends on are combined, every tensor that is not itself the
  result of a comparison, and every result of the program, keeps its value, if the combined operators
  select as the comparison says (\<open>selects\<close>): no comparison is removed that something still reads. It
  holds for a program of tensor operators that writes each tensor once, where the values a selection
  chooses from are not results of comparisons (\<open>plain_selects\<close>): those the code replaces, too, by the operands
  of their comparison, and the selection gets too many operands (\<open>nested_select_spliced\<close>).\<close>

theorem ops_combine_correct:
  assumes "tensor_program s" "single_assignment [] (operators None s)" "plain_selects s" "selects I"
    and "func_name x \<in> set outs \<or> \<not> is_comparison_of s x"
  shows "\<exists>s'. OpsCombine outs s = Ok s' \<and> run_stmt I konst s' env x = run_stmt I konst s env x"
proof -
  let ?ps = "operators None s"
  define st0 :: CmpSel where "st0 = \<lparr>condition_with_inputs = (\<lambda>_. None), output_ref_cnt = (\<lambda>_. None)\<rparr>"
  have st0: "known st0" "\<forall>x. condition_with_inputs st0 x \<noteq> None \<longrightarrow> x \<in> set []" by (simp_all add: st0_def known_def)
  obtain st where st: "for_each visit_op ?ps st0 = Ok st" "counted ?ps st0 st"
    using visit_ops_Ok [OF tensor_program_ops [OF assms(1)] assms(2) st0] by blast
  have run: "OpsCombine outs s = Ok (combine_stmt st outs s)"
    using st(1) by (simp add: OpsCombine_def st0_def [symmetric] cmp_visit_ops [OF assms(1), of _ None])
  have C: "known st" "\<And>x. x \<notin> written ?ps \<Longrightarrow> condition_with_inputs st x = None"
    "\<And>at fn v. (at, fn, v) \<in> set ?ps \<Longrightarrow> condition_with_inputs st fn = cmp_of v"
    "\<And>x n. output_ref_cnt st x = Some n \<Longrightarrow> n = int (reads_of ?ps x)"
    using st(2) unfolding counted_def st0_def by auto
  have isolated: "condition_with_inputs st y \<noteq> None" if "IsIsolated st outs y" for y
    using that C(1) by (auto simp: IsIsolated_def known_def split: option.splits)
  have unread: "y \<notin> set (other_reads v)" if y: "IsIsolated st outs y" "(at, fn, v) \<in> set ?ps" for y at fn v
  proof -
    obtain n where "output_ref_cnt st y = Some n" "n < 1" using y(1) by (auto simp: IsIsolated_def split: option.splits)
    then have "reads_of ?ps y = 0" using C(4) by fastforce
    from reads_of_0 [OF this y(2)] show ?thesis .
  qed
  have plain: "condition_with_inputs st y = None" if y: "(at, fn, v) \<in> set ?ps" "cond_func v \<noteq> None" "y \<in> set (other_reads v)" for at fn v y
  proof (cases "y \<in> written ?ps")
    case True
    then obtain at' v' where v': "(at', y, v') \<in> set ?ps" by auto
    with assms(3) y have "cmp_of v' = None" unfolding plain_selects_def Let_def list_all_iff by fastforce
    with C(3) [OF v'] show ?thesis by simp
  qed (rule C(2))
  have ops: "tensor_op v" if "(at, fn, v) \<in> set ?ps" for at fn v
    using tensor_program_ops [OF assms(1), of None] that unfolding list_all_iff by blast
  have dom: "y \<in> written ?ps" if "condition_with_inputs st y \<noteq> None" for y
    using that by (rule contrapos_np) (rule C(2))
  have "\<not> IsIsolated st outs x"
  proof
    assume iso: "IsIsolated st outs x"
    then have "condition_with_inputs st x \<noteq> None" by (rule isolated)
    then obtain at v where "(at, x, v) \<in> set ?ps" "cmp_of v \<noteq> None" using C(2,3) by fastforce
    then have "is_comparison_of s x" unfolding is_comparison_of_def list_ex_iff by fastforce
    moreover have "func_name x \<notin> set outs" using iso by (auto simp: IsIsolated_def split: option.splits)
    ultimately show False using assms(5) by blast
  qed
  then have "run_stmt I konst (combine_stmt st outs s) env x = run_stmt I konst s env x"
    unfolding run_stmt_def combine_operators [OF assms(1)]
    by (intro combine_ops_correct [where ps = ?ps and seen = "[]", OF assms(4) ops C(3) dom unread isolated plain])
      (use assms(2) in \<open>simp_all add: cond_values_def\<close>)
  with run show ?thesis by blast
qed

theorem ops_combine_correct_witness:
  "\<exists>s'. OpsCombine [''e''] select_example = Ok s' \<and> run_stmt number_ops (\<lambda>_. 0) s' example_env (Func 0 ''e'' None) = 7"
proof -
  have facts: "tensor_program select_example" "single_assignment [] (operators None select_example)" "plain_selects select_example"
    by code_simp+
  have "run_stmt number_ops (\<lambda>_. 0) select_example example_env (Func 0 ''e'' None) = 7" by code_simp
  moreover have "func_name (Func 0 ''e'' None) \<in> set [''e''] \<or> \<not> is_comparison_of select_example (Func 0 ''e'' None)" by simp
  ultimately show ?thesis
    using ops_combine_correct [OF facts selects_numbers, of "Func 0 ''e'' None" "[''e'']" "\<lambda>_. 0" example_env] by metis
qed

end
