(* ===== verification/Composite_Axis.thy ===== *)
theory Composite_Axis
  imports Composite_Tensors
begin

text \<open>
  \<open>composite/optimize/axis_attr_normalize.cc\<close>: the attribute \<open>axis\<close> of an operator becomes an array in
  ascending order that counts from the first dimension. What an attribute node maps names to, and
  the node with other attributes, are parameters.
\<close>

section \<open>The pass\<close>

record AxisAttrNormalizer =
  axis_rank :: int
  is_allreduce :: bool
  is_csr :: bool

definition ShapeIsOne :: "Expr list \<Rightarrow> bool" where
  "ShapeIsOne shape \<longleftrightarrow> shape = [IntImm (Int_type 32) 1]"

definition CalIndex :: "int \<Rightarrow> int \<Rightarrow> int res" where
  "CalIndex rank x =
     (if rank = 0 then Ok x
      else res_bind (CHECK (x \<ge> - rank)) (\<lambda>_. res_bind (CHECK (x \<le> rank - 1)) (\<lambda>_. Ok (if x \<ge> 0 then x else x + rank))))"

definition int_imm :: "Expr \<Rightarrow> int option" where
  "int_imm e = (case e of IntImm ty i \<Rightarrow> Some i | _ \<Rightarrow> None)"

definition axis_rank_of :: "string \<Rightarrow> Expr list \<Rightarrow> bool \<Rightarrow> int" where
  "axis_rank_of op shape csr =
     (if csr then 2
      else (if shape = [] then 1 else int (length shape)) + (if op = ''ExpandDims'' \<or> op = ''OneHot'' then 1 else 0))"

definition axis_provide :: "Expr \<Rightarrow> Expr list \<Rightarrow> AxisAttrNormalizer \<Rightarrow> AxisAttrNormalizer res" where
  "axis_provide v shape st =
     (case v of
        CallE ty ct op args f i \<Rightarrow>
          res_bind (CHECK (args \<noteq> [])) (\<lambda>_.
            let st = (case hd args of
                        CallE ty' ct' n sh f' i' \<Rightarrow> st\<lparr>axis_rank := axis_rank_of op sh (is_csr st)\<rparr>
                      | _ \<Rightarrow> st)
            in Ok (if IsReduce_op op \<and> ShapeIsOne shape then st\<lparr>is_allreduce := True\<rparr> else st))
      | _ \<Rightarrow> Err Fatal)"

fun axis_values :: "int \<Rightarrow> Expr list \<Rightarrow> int list res" where
  "axis_values rank [] = Ok []"
| "axis_values rank (e # es) =
     (case int_imm e of
        None \<Rightarrow> Err Fatal
      | Some x \<Rightarrow> res_bind (CalIndex rank x) (\<lambda>x. res_bind (axis_values rank es) (\<lambda>xs. Ok (x # xs))))"

definition normal_axis :: "int \<Rightarrow> AttrVal \<Rightarrow> Expr list res" where
  "normal_axis rank a =
     (case a of
        Attr_Expr e \<Rightarrow>
          (case int_imm e of
             Some x \<Rightarrow> res_bind (CalIndex rank x) (\<lambda>x. Ok [IntImm (Int_type 32) x])
           | None \<Rightarrow> Err Fatal)
      | Attr_Array axis \<Rightarrow>
          if axis = [] then Ok (map (IntImm (Int_type 32)) [0..rank - 1])
          else
            res_bind (axis_values rank axis) (\<lambda>xs. Ok (map (IntImm (Int_type 32)) (sort xs))))"

fun axis_stmt ::
    "(AttrNode \<Rightarrow> (string \<Rightarrow> AttrVal option) option) \<Rightarrow> ((string \<Rightarrow> AttrVal option) \<Rightarrow> AttrNode) \<Rightarrow> Stmt \<Rightarrow> AxisAttrNormalizer \<Rightarrow>
     (Stmt \<times> AxisAttrNormalizer) res" where
  "axis_stmt map_node mk_node (AttrStmt n k e b) st =
     (if k = ''attrs'' then
        (case map_node n of
           None \<Rightarrow> Err Fatal
         | Some m \<Rightarrow>
             let st = (if m ''is_csr'' \<noteq> None then st\<lparr>is_csr := True\<rparr> else st) in
             (case m ''axis'' of
                None \<Rightarrow> Ok (AttrStmt n k e b, st\<lparr>is_csr := False\<rparr>)
              | Some a \<Rightarrow>
                  res_bind (axis_stmt map_node mk_node b (st\<lparr>axis_rank := 0, is_allreduce := False\<rparr>)) (\<lambda>(b, st).
                    if is_allreduce st then Ok (AttrStmt (mk_node (m(''axis'' \<mapsto> Attr_Array []))) k e b, st)
                    else
                      res_bind (normal_axis (axis_rank st) a) (\<lambda>axis.
                        Ok (AttrStmt (mk_node (m(''axis'' \<mapsto> Attr_Array axis))) k e b, st\<lparr>is_csr := False\<rparr>)))))
      else Ok (AttrStmt n k e b, st\<lparr>is_csr := False\<rparr>))"
| "axis_stmt map_node mk_node (Provide fn i v shape) st = res_bind (axis_provide v shape st) (\<lambda>st. Ok (Provide fn i v shape, st))"
| "axis_stmt map_node mk_node (LetStmt v e b) st =
     res_bind (axis_stmt map_node mk_node b st) (\<lambda>(b, st). Ok (LetStmt v e b, st))"
| "axis_stmt map_node mk_node (AssertStmt p m b) st =
     res_bind (axis_stmt map_node mk_node b st) (\<lambda>(b, st). Ok (AssertStmt p m b, st))"
| "axis_stmt map_node mk_node (ProducerConsumer fn p b) st =
     res_bind (axis_stmt map_node mk_node b st) (\<lambda>(b, st). Ok (ProducerConsumer fn p b, st))"
| "axis_stmt map_node mk_node (For v m x t b) st =
     res_bind (axis_stmt map_node mk_node b st) (\<lambda>(b, st). Ok (For v m x t b, st))"
| "axis_stmt map_node mk_node (Allocate v t xs p b n) st =
     res_bind (axis_stmt map_node mk_node b st) (\<lambda>(b, st). Ok (Allocate v t xs p b n, st))"
| "axis_stmt map_node mk_node (Realize fn i ty bs p b) st =
     res_bind (axis_stmt map_node mk_node b st) (\<lambda>(b, st). Ok (Realize fn i ty bs p b, st))"
| "axis_stmt map_node mk_node (Block a b) st =
     res_bind (axis_stmt map_node mk_node a st) (\<lambda>(a, st).
     res_bind (axis_stmt map_node mk_node b st) (\<lambda>(b, st). Ok (make_block a b, st)))"
| "axis_stmt map_node mk_node (IfThenElse p t e) st =
     res_bind (axis_stmt map_node mk_node t st) (\<lambda>(t, st).
       case e of
         None \<Rightarrow> Ok (IfThenElse p t None, st)
       | Some s \<Rightarrow> res_bind (axis_stmt map_node mk_node s st) (\<lambda>(s, st). Ok (IfThenElse p t (Some s), st)))"
| "axis_stmt map_node mk_node s st = Ok (s, st)"

definition AxisAttrNormalize ::
    "(AttrNode \<Rightarrow> (string \<Rightarrow> AttrVal option) option) \<Rightarrow> ((string \<Rightarrow> AttrVal option) \<Rightarrow> AttrNode) \<Rightarrow> Stmt \<Rightarrow> Stmt res" where
  "AxisAttrNormalize map_node mk_node s =
     res_bind (axis_stmt map_node mk_node s \<lparr>axis_rank = 0, is_allreduce = False, is_csr = False\<rparr>) (\<lambda>(s, st). Ok s)"

section \<open>What it makes of an axis\<close>

lemma CalIndex_mod:
  assumes "0 < rank"
  shows "CalIndex rank x = (if - rank \<le> x \<and> x < rank then Ok (x mod rank) else Err Fatal)"
proof -
  have "x mod rank = x" if "0 \<le> x" "x < rank" using that by simp
  moreover have "x mod rank = x + rank" if "- rank \<le> x" "x < 0"
  proof -
    have "x mod rank = (x + rank) mod rank" by simp
    also have "\<dots> = x + rank" using that assms by (intro mod_pos_pos_trivial) simp_all
    finally show ?thesis .
  qed
  ultimately show ?thesis using assms by (auto simp: CalIndex_def guard_def)
qed

section \<open>Operators by themselves\<close>

text \<open>The axes that an attribute lists for an operator with an operand of rank \<open>rank\<close>: one, all of them or several.\<close>

fun listed_axes :: "int \<Rightarrow> AttrVal \<Rightarrow> int list option" where
  "listed_axes rank (Attr_Expr e) = map_option (\<lambda>x. [x]) (int_imm e)"
| "listed_axes rank (Attr_Array es) = (if es = [] then Some [0..rank - 1] else those (map int_imm es))"

text \<open>The axes of an operator in ascending order, counted from the first dimension, if all of them are in range: the
  rank is the one of the first operand, a scalar counting as a vector, and one more where the operator adds a
  dimension; for a sparse matrix it is two. For a reduction to a single element there are none.\<close>

fun op_axes :: "bool \<Rightarrow> AttrVal \<Rightarrow> Stmt \<Rightarrow> int list option" where
  "op_axes csr a (Provide fn i (CallE ty ct op (CallE ty' ct' n ish f' i' # args) f j) shape) =
     (if IsReduce_op op \<and> shape = [IntImm (Int_type 32) 1] then Some []
      else
        let rank = (if csr then 2 else max 1 (int (length ish)) + (if op \<in> {''ExpandDims'', ''OneHot''} then 1 else 0)) in
        (case listed_axes rank a of
           None \<Rightarrow> None
         | Some xs \<Rightarrow> if list_all (\<lambda>x. - rank \<le> x \<and> x < rank) xs then Some (sort (map (\<lambda>x. x mod rank) xs)) else None))"
| "op_axes csr a s = None"

text \<open>A program in which each operator has its axes as an array, and the failed check if one of them has axes that
  are out of range or no integers.\<close>

fun normal_axes ::
    "(AttrNode \<Rightarrow> (string \<Rightarrow> AttrVal option) option) \<Rightarrow> ((string \<Rightarrow> AttrVal option) \<Rightarrow> AttrNode) \<Rightarrow> Stmt \<Rightarrow> Stmt res" where
  "normal_axes map_node mk_node (Block a b) =
     res_bind (normal_axes map_node mk_node a) (\<lambda>a. res_bind (normal_axes map_node mk_node b) (\<lambda>b. Ok (make_block a b)))"
| "normal_axes map_node mk_node (AttrStmt n k e b) =
     (if k \<noteq> ''attrs'' then Ok (AttrStmt n k e b)
      else
        (case map_node n of
           None \<Rightarrow> Err Fatal
         | Some m \<Rightarrow>
             (case m ''axis'' of
                None \<Rightarrow> Ok (AttrStmt n k e b)
              | Some a \<Rightarrow>
                  (case op_axes (m ''is_csr'' \<noteq> None) a b of
                     None \<Rightarrow> Err Fatal
                   | Some xs \<Rightarrow> Ok (AttrStmt (mk_node (m(''axis'' \<mapsto> Attr_Array (map (IntImm (Int_type 32)) xs)))) k e b)))))"
| "normal_axes map_node mk_node s = Ok s"

text \<open>Programs: sequences of operators, alone or under their attributes. An operator with axes reads a tensor first
  and, if it is one of a sparse matrix, is no reduction to a single element.\<close>

fun axis_program :: "(AttrNode \<Rightarrow> (string \<Rightarrow> AttrVal option) option) \<Rightarrow> Stmt \<Rightarrow> bool" where
  "axis_program map_node (Block a b) \<longleftrightarrow> axis_program map_node a \<and> axis_program map_node b"
| "axis_program map_node (Provide fn i (CallE ty ct op args f j) shape) \<longleftrightarrow> args \<noteq> []"
| "axis_program map_node (AttrStmt n k e b) \<longleftrightarrow>
     (k = ''attrs'' \<longrightarrow>
       (case map_node n of
          None \<Rightarrow> True
        | Some m \<Rightarrow> m ''axis'' = None \<or>
            (case b of
               Provide fn i (CallE ty ct op (CallE ty' ct' nm ish f' i' # args) f j) shape \<Rightarrow>
                 m ''is_csr'' = None \<or> \<not> (IsReduce_op op \<and> ShapeIsOne shape)
             | _ \<Rightarrow> False)))"
| "axis_program map_node (Evaluate e) \<longleftrightarrow> True"
| "axis_program map_node s \<longleftrightarrow> False"

lemma axis_values_listed:
  assumes "0 < rank"
  shows "axis_values rank es =
    (case those (map int_imm es) of
       None \<Rightarrow> Err Fatal
     | Some xs \<Rightarrow> if list_all (\<lambda>x. - rank \<le> x \<and> x < rank) xs then Ok (map (\<lambda>x. x mod rank) xs) else Err Fatal)"
  by (induction es) (auto simp: CalIndex_mod [OF assms] split: option.splits)

lemma normal_axis_listed:
  assumes "0 < rank"
  shows "normal_axis rank a =
    (case listed_axes rank a of
       None \<Rightarrow> Err Fatal
     | Some xs \<Rightarrow> if list_all (\<lambda>x. - rank \<le> x \<and> x < rank) xs
         then Ok (map (IntImm (Int_type 32)) (sort (map (\<lambda>x. x mod rank) xs))) else Err Fatal)"
proof (cases a)
  case (Attr_Expr e)
  then show ?thesis by (auto simp: normal_axis_def CalIndex_mod [OF assms] split: option.splits)
next
  case (Attr_Array es)
  have all: "map (\<lambda>x. x mod rank) [0..rank - 1] = [0..rank - 1]" by (rule map_idI) simp
  have "list_all (\<lambda>x. - rank \<le> x \<and> x < rank) [0..rank - 1]" by (simp add: list_all_iff)
  moreover have "sorted [0..rank - 1]" by simp
  then have "sort [0..rank - 1] = [0..rank - 1]" by (rule sorted_sort_id)
  ultimately show ?thesis
    by (auto simp: Attr_Array normal_axis_def axis_values_listed [OF assms] all split: option.splits)
qed

lemma axis_op:
  assumes "axis_program map_node (AttrStmt n ''attrs'' e b)" "map_node n = Some m" "m ''axis'' = Some a" "\<not> is_csr st"
  obtains st' where "axis_stmt map_node mk_node b (st\<lparr>is_csr := m ''is_csr'' \<noteq> None, axis_rank := 0, is_allreduce := False\<rparr>) = Ok (b, st')"
    "\<not> is_allreduce st' \<or> \<not> is_csr st'"
    "if is_allreduce st' then op_axes (m ''is_csr'' \<noteq> None) a b = Some []
     else normal_axis (axis_rank st') a = (case op_axes (m ''is_csr'' \<noteq> None) a b of None \<Rightarrow> Err Fatal | Some xs \<Rightarrow> Ok (map (IntImm (Int_type 32)) xs))"
proof -
  from assms(1-3) obtain fn i ty ct op ty' ct' nm ish f' i' args f j shape where
    b: "b = Provide fn i (CallE ty ct op (CallE ty' ct' nm ish f' i' # args) f j) shape"
    and csr: "m ''is_csr'' = None \<or> \<not> (IsReduce_op op \<and> ShapeIsOne shape)"
    by (auto split: Stmt.split_asm Expr.split_asm list.split_asm)
  define rank where "rank = axis_rank_of op ish (m ''is_csr'' \<noteq> None)"
  have rank: "0 < rank" "rank = (if m ''is_csr'' \<noteq> None then 2 else max 1 (int (length ish)) + (if op \<in> {''ExpandDims'', ''OneHot''} then 1 else 0))"
    by (auto simp: rank_def axis_rank_of_def Suc_leI)
  show ?thesis
  proof (rule that)
    show "axis_stmt map_node mk_node b (st\<lparr>is_csr := m ''is_csr'' \<noteq> None, axis_rank := 0, is_allreduce := False\<rparr>) =
        Ok (b, st\<lparr>is_csr := m ''is_csr'' \<noteq> None, axis_rank := rank, is_allreduce := IsReduce_op op \<and> ShapeIsOne shape\<rparr>)"
      by (simp add: b axis_provide_def guard_def Let_def rank_def)
  next
    show "if is_allreduce (st\<lparr>is_csr := m ''is_csr'' \<noteq> None, axis_rank := rank, is_allreduce := IsReduce_op op \<and> ShapeIsOne shape\<rparr>)
      then op_axes (m ''is_csr'' \<noteq> None) a b = Some []
      else normal_axis (axis_rank (st\<lparr>is_csr := m ''is_csr'' \<noteq> None, axis_rank := rank, is_allreduce := IsReduce_op op \<and> ShapeIsOne shape\<rparr>)) a =
        (case op_axes (m ''is_csr'' \<noteq> None) a b of None \<Rightarrow> Err Fatal | Some xs \<Rightarrow> Ok (map (IntImm (Int_type 32)) xs))"
    proof (cases "IsReduce_op op \<and> ShapeIsOne shape")
      case True
      then show ?thesis by (simp add: b ShapeIsOne_def)
    next
      case False
      then have "op_axes (m ''is_csr'' \<noteq> None) a b = (case listed_axes rank a of
           None \<Rightarrow> None
         | Some xs \<Rightarrow> if list_all (\<lambda>x. - rank \<le> x \<and> x < rank) xs then Some (sort (map (\<lambda>x. x mod rank) xs)) else None)"
        unfolding b op_axes.simps rank(2) [symmetric] Let_def by (auto simp: ShapeIsOne_def)
      with False show ?thesis by (auto simp: normal_axis_listed [OF rank(1)] split: option.splits)
    qed
  qed (use csr in auto)
qed

lemma axis_provide_csr:
  assumes "args \<noteq> []"
  shows "\<exists>st'. axis_provide (CallE ty ct op args f j) shape st = Ok st' \<and> is_csr st' = is_csr st"
proof -
  have "is_csr (case hd args of CallE ty' ct' n sh f' i' \<Rightarrow> st\<lparr>axis_rank := axis_rank_of op sh (is_csr st)\<rparr> | _ \<Rightarrow> st) = is_csr st"
    by (cases "hd args") simp_all
  with assms show ?thesis by (simp add: axis_provide_def guard_def Let_def)
qed

lemma axis_stmt_normal:
  "axis_program map_node s \<Longrightarrow> \<not> is_csr st \<Longrightarrow>
    (case normal_axes map_node mk_node s of
       Err e \<Rightarrow> axis_stmt map_node mk_node s st = Err e
     | Ok s' \<Rightarrow> \<exists>st'. axis_stmt map_node mk_node s st = Ok (s', st') \<and> \<not> is_csr st')"
proof (induction map_node s arbitrary: st rule: axis_program.induct)
  case (1 map_node a b)
  show ?case
  proof (cases "normal_axes map_node mk_node a")
    case (Ok a')
    with 1 obtain st1 where "axis_stmt map_node mk_node a st = Ok (a', st1)" "\<not> is_csr st1" by fastforce
    with Ok 1(2) [of st1] 1(3) show ?thesis by (auto split: res.splits)
  qed (use 1 in \<open>auto split: res.splits\<close>)
next
  case (2 map_node fn i ty ct op args f j shape)
  with axis_provide_csr [of args ty ct op f j shape st] show ?case by auto
next
  case (3 map_node n k e b)
  show ?case
  proof (cases "k = ''attrs'' \<and> map_node n \<noteq> None \<and> the (map_node n) ''axis'' \<noteq> None")
    case True
    then obtain m a where m: "k = ''attrs''" "map_node n = Some m" "m ''axis'' = Some a" by auto
    obtain st' where st': "axis_stmt map_node mk_node b (st\<lparr>is_csr := m ''is_csr'' \<noteq> None, axis_rank := 0, is_allreduce := False\<rparr>) = Ok (b, st')"
      "\<not> is_allreduce st' \<or> \<not> is_csr st'"
      "if is_allreduce st' then op_axes (m ''is_csr'' \<noteq> None) a b = Some []
       else normal_axis (axis_rank st') a = (case op_axes (m ''is_csr'' \<noteq> None) a b of None \<Rightarrow> Err Fatal | Some xs \<Rightarrow> Ok (map (IntImm (Int_type 32)) xs))"
      by (rule axis_op [OF 3(1) [unfolded m(1)] m(2,3) 3(2)])
    have "(if m ''is_csr'' \<noteq> None then st\<lparr>is_csr := True\<rparr> else st)\<lparr>axis_rank := 0, is_allreduce := False\<rparr> =
        st\<lparr>is_csr := m ''is_csr'' \<noteq> None, axis_rank := 0, is_allreduce := False\<rparr>"
      using 3(2) by (cases st) auto
    then have run: "axis_stmt map_node mk_node (AttrStmt n k e b) st =
        (if is_allreduce st' then Ok (AttrStmt (mk_node (m(''axis'' \<mapsto> Attr_Array []))) k e b, st')
         else res_bind (normal_axis (axis_rank st') a) (\<lambda>axis.
           Ok (AttrStmt (mk_node (m(''axis'' \<mapsto> Attr_Array axis))) k e b, st'\<lparr>is_csr := False\<rparr>)))"
      unfolding axis_stmt.simps m Let_def option.case st'(1) by (simp only: simp_thms if_True option.case st'(1) res_bind_simps prod.case)
    show ?thesis
    proof (cases "is_allreduce st'")
      case True
      with st'(2,3) m show ?thesis unfolding run by simp
    next
      case False
      with st'(3) have "normal_axis (axis_rank st') a = (case op_axes (m ''is_csr'' \<noteq> None) a b of None \<Rightarrow> Err Fatal | Some xs \<Rightarrow> Ok (map (IntImm (Int_type 32)) xs))"
        by simp
      with False m show ?thesis unfolding run by (cases "op_axes (m ''is_csr'' \<noteq> None) a b") simp_all
    qed
  next
    case False
    then show ?thesis by (auto split: option.splits)
  qed
qed auto

section \<open>An example\<close>

text \<open>Nodes are the numbers of maps of attributes; the new node is the first axis.\<close>

definition axis_nodes :: "AttrNode \<Rightarrow> (string \<Rightarrow> AttrVal option) option" where
  "axis_nodes n =
     (if n = Node_Other 0 then Some [''axis'' \<mapsto> Attr_Array [IntImm (Int_type 32) 2, IntImm (Int_type 32) (- 3)]]
      else if n = Node_Other 1 then Some [''axis'' \<mapsto> Attr_Array [IntImm (Int_type 32) 1], ''is_csr'' \<mapsto> Attr_Expr (IntImm (Int_type 32) 1)]
      else None)"

definition first_axis :: "(string \<Rightarrow> AttrVal option) \<Rightarrow> AttrNode" where
  "first_axis m = (case m ''axis'' of Some (Attr_Array (e # es)) \<Rightarrow> Node_Expr e | _ \<Rightarrow> Node_Other 2)"

text \<open>An operator of a sparse matrix that reduces everything leaves \<open>is_csr\<close> set, and the axis 2 of the next
  operator, whose operand has three dimensions, is rejected; alone it is not.\<close>

definition row_sum :: Stmt where
  "row_sum = AttrStmt (Node_Other 0) ''attrs'' (IntImm (Int_type 32) 1)
     (op_out ''d'' (op_call ''ReduceSum'' [op_tensor ''c'' [2, 3, 4]]) [3])"

definition csr_sum :: Stmt where
  "csr_sum = AttrStmt (Node_Other 1) ''attrs'' (IntImm (Int_type 32) 1)
     (op_out ''b'' (op_call ''ReduceSum'' [op_tensor ''a'' [5, 6]]) [1])"

lemma is_csr_leaks:
  "AxisAttrNormalize axis_nodes first_axis (Block csr_sum row_sum) = Err Fatal \<and>
   (case AxisAttrNormalize axis_nodes first_axis row_sum of Ok s \<Rightarrow> True | Err e \<Rightarrow> False)"
  by code_simp

section \<open>The property\<close>

text \<open>C38: over a sequence of operators the visitor, which carries the rank, the kind of reduction and the kind of
  matrix from one operator to the next, does what each operator by itself asks for: an operator without axes
  stays, a reduction to a single element gets the empty array whatever its axes are, and any other
  gets its axes, one, several or all, in ascending order and counted from the first dimension, each the
  remainder modulo the rank. The pass fails just if such an operator has an axis out of range or no
  integer, or a node has no attributes. An operator with axes has to read a tensor first, and
  no reduction of a sparse matrix to a single element may occur: it would disturb the next operator
  (\<open>is_csr_leaks\<close>).\<close>

theorem axis_normalize_spec:
  assumes "axis_program map_node s"
  shows "AxisAttrNormalize map_node mk_node s = normal_axes map_node mk_node s"
  using axis_stmt_normal [OF assms, of "\<lparr>axis_rank = 0, is_allreduce = False, is_csr = False\<rparr>" mk_node]
  by (auto simp: AxisAttrNormalize_def split: res.splits)

theorem axis_normalize_spec_witness:
  "AxisAttrNormalize axis_nodes first_axis (Block (op_out ''e'' (op_call ''Abs'' [op_tensor ''c'' [2, 3, 4]]) [2, 3, 4]) row_sum) =
     Ok (Block (op_out ''e'' (op_call ''Abs'' [op_tensor ''c'' [2, 3, 4]]) [2, 3, 4])
       (AttrStmt (Node_Expr (IntImm (Int_type 32) 0)) ''attrs'' (IntImm (Int_type 32) 1)
         (op_out ''d'' (op_call ''ReduceSum'' [op_tensor ''c'' [2, 3, 4]]) [3])))"
proof -
  let ?s = "Block (op_out ''e'' (op_call ''Abs'' [op_tensor ''c'' [2, 3, 4]]) [2, 3, 4]) row_sum"
  have "axis_program axis_nodes ?s" by code_simp
  moreover have "normal_axes axis_nodes first_axis ?s = Ok (Block (op_out ''e'' (op_call ''Abs'' [op_tensor ''c'' [2, 3, 4]]) [2, 3, 4])
       (AttrStmt (Node_Expr (IntImm (Int_type 32) 0)) ''attrs'' (IntImm (Int_type 32) 1)
         (op_out ''d'' (op_call ''ReduceSum'' [op_tensor ''c'' [2, 3, 4]]) [3])))"
    by code_simp
  ultimately show ?thesis using axis_normalize_spec [of axis_nodes ?s first_axis] by simp
qed

end
