(* ===== verification/Composite_Same.thy ===== *)
theory Composite_Same
  imports Composite_Tensors Pass_Index "HOL-Library.AList"
begin

text \<open>
  \<open>composite/optimize/inplace_assign_mutator.cc\<close> removes the assignments in place and records which
  tensors are the same; \<open>composite/optimize/broadcast_for_ssa.cc\<close> then lets every output of the
  program be written. The hash maps are lists of pairs in the order in which they are traversed, and
  sets lists of their elements; nothing depends on that order but which output of a set is taken.
\<close>

section \<open>InplaceAssignOpt\<close>

record BuildOpt =
  sames :: "(Func \<times> Func) list"
  inplaces :: "(Func \<times> Expr) list"
  fakeout :: "Func set"

text \<open>\<open>op_attrs_\<close> is empty outside of an operator.\<close>

definition inplace_provide :: "(string \<Rightarrow> AttrVal option) \<Rightarrow> Func \<Rightarrow> nat \<Rightarrow> Expr \<Rightarrow> Expr list \<Rightarrow> BuildOpt \<Rightarrow> (Stmt \<times> BuildOpt) res" where
  "inplace_provide attrs fn i v shape opt =
     (case v of
        CallE ty ct op inputs f j \<Rightarrow>
          if op = ''InplaceAssign'' then
            let opt = (case attrs ''fake_output'' of
                         Some (Attr_Expr (IntImm ty n)) \<Rightarrow> if n > 0 then opt\<lparr>fakeout := insert fn (fakeout opt)\<rparr> else opt
                       | _ \<Rightarrow> opt)
            in res_bind (vec_at inputs 2) (\<lambda>c.
               case c of
                 CallE ty' ct' n' sh' fc i' \<Rightarrow>
                   let opt = opt\<lparr>sames := AList.update fn fc (sames opt)\<rparr> in
                   (case inputs ! 1 of
                      CallE ty1 ct1 n1 sh1 f1 i1 \<Rightarrow>
                        Ok (Evaluate (IntImm (Int_type 32) 0), opt\<lparr>inplaces := AList.update f1 (inputs ! 0) (inplaces opt)\<rparr>)
                    | _ \<Rightarrow>
                        res_bind (make_expr (CallE ty ct ''Assign'' [inputs ! 0, inputs ! 1] no_func 0)) (\<lambda>e.
                          Ok (Provide fn i e shape, opt)))
               | _ \<Rightarrow> Err Null_pointer)
          else Ok (Provide fn i v shape, opt)
      | _ \<Rightarrow> Err Fatal)"

type_synonym InplaceState = "(string \<Rightarrow> AttrVal option) \<times> BuildOpt"

fun inplace_stmt :: "(AttrNode \<Rightarrow> (string \<Rightarrow> AttrVal option) option) \<Rightarrow> Stmt \<Rightarrow> InplaceState \<Rightarrow> (Stmt \<times> InplaceState) res" where
  "inplace_stmt map_node (AttrStmt n k e b) (attrs, opt) =
     (if k = ''attrs'' then
        (case map_node n of
           None \<Rightarrow> Err Fatal
         | Some m \<Rightarrow> res_bind (inplace_stmt map_node b (m, opt)) (\<lambda>(b, attrs, opt). Ok (AttrStmt n k e b, Map.empty, opt)))
      else res_bind (inplace_stmt map_node b (attrs, opt)) (\<lambda>(b, st). Ok (AttrStmt n k e b, st)))"
| "inplace_stmt map_node (Provide fn i v shape) (attrs, opt) =
     res_bind (inplace_provide attrs fn i v shape opt) (\<lambda>(s, opt). Ok (s, attrs, opt))"
| "inplace_stmt map_node (LetStmt v e b) st = res_bind (inplace_stmt map_node b st) (\<lambda>(b, st). Ok (LetStmt v e b, st))"
| "inplace_stmt map_node (AssertStmt p m b) st = res_bind (inplace_stmt map_node b st) (\<lambda>(b, st). Ok (AssertStmt p m b, st))"
| "inplace_stmt map_node (ProducerConsumer fn p b) st =
     res_bind (inplace_stmt map_node b st) (\<lambda>(b, st). Ok (ProducerConsumer fn p b, st))"
| "inplace_stmt map_node (For v m x t b) st = res_bind (inplace_stmt map_node b st) (\<lambda>(b, st). Ok (For v m x t b, st))"
| "inplace_stmt map_node (Allocate v t xs p b n) st =
     res_bind (inplace_stmt map_node b st) (\<lambda>(b, st). Ok (Allocate v t xs p b n, st))"
| "inplace_stmt map_node (Realize fn i ty bs p b) st =
     res_bind (inplace_stmt map_node b st) (\<lambda>(b, st). Ok (Realize fn i ty bs p b, st))"
| "inplace_stmt map_node (Block a b) st =
     res_bind (inplace_stmt map_node a st) (\<lambda>(a, st).
     res_bind (inplace_stmt map_node b st) (\<lambda>(b, st). Ok (make_block a b, st)))"
| "inplace_stmt map_node (IfThenElse p t e) st =
     res_bind (inplace_stmt map_node t st) (\<lambda>(t, st).
       case e of
         None \<Rightarrow> Ok (IfThenElse p t None, st)
       | Some s \<Rightarrow> res_bind (inplace_stmt map_node s st) (\<lambda>(s, st). Ok (IfThenElse p t (Some s), st)))"
| "inplace_stmt map_node s st = Ok (s, st)"

definition InplaceAssignOpt ::
    "(AttrNode \<Rightarrow> (string \<Rightarrow> AttrVal option) option) \<Rightarrow> Stmt \<Rightarrow> BuildOpt \<Rightarrow> (Stmt \<times> BuildOpt) res" where
  "InplaceAssignOpt map_node s opt = res_bind (inplace_stmt map_node s (Map.empty, opt)) (\<lambda>(s, attrs, opt). Ok (s, opt))"

section \<open>NormalizeSames\<close>

text \<open>One pass over the pairs that are left: the set, the pairs that stay, and whether one went.\<close>

fun same_pass :: "Func list \<Rightarrow> (Func \<times> Func) list \<Rightarrow> Func list \<times> (Func \<times> Func) list \<times> bool" where
  "same_pass fset [] = (fset, [], False)"
| "same_pass fset ((a, b) # ps) =
     (if a \<in> set fset \<or> b \<in> set fset then
        (case same_pass (List.insert b (List.insert a fset)) ps of (fset, rest, changed) \<Rightarrow> (fset, rest, True))
      else (case same_pass fset ps of (fset, rest, changed) \<Rightarrow> (fset, (a, b) # rest, changed)))"

lemma same_pass_length: "same_pass fset ps = (fset', rest, changed) \<Longrightarrow> length rest \<le> length ps \<and> (changed \<longrightarrow> length rest < length ps)"
  by (induction fset ps arbitrary: fset' rest changed rule: same_pass.induct) (force split: if_splits prod.splits)+

function absorb_sames :: "Func list \<Rightarrow> (Func \<times> Func) list \<Rightarrow> Func list \<times> (Func \<times> Func) list" where
  "absorb_sames fset ps =
     (case same_pass fset ps of (fset, rest, changed) \<Rightarrow> if changed then absorb_sames fset rest else (fset, rest))"
  by pat_completeness auto
termination by (relation "measure (\<lambda>(fset, ps). length ps)") (auto dest: same_pass_length [OF sym])

declare absorb_sames.simps [simp del]

lemma absorb_sames_length: "length (snd (absorb_sames fset ps)) \<le> length ps"
proof (induction fset ps rule: absorb_sames.induct)
  case (1 fset ps)
  obtain fset' rest changed where pass: "same_pass fset ps = (fset', rest, changed)" by (cases "same_pass fset ps")
  then show ?case
    using "1.IH" [OF pass [symmetric] refl] same_pass_length [OF pass] by (auto simp: absorb_sames.simps [of fset ps])
qed

lemma absorb_sames_first: "a \<in> set fset \<Longrightarrow> length (snd (absorb_sames fset ((a, b) # ps))) \<le> length ps"
proof -
  assume "a \<in> set fset"
  obtain fset' rest changed where pass: "same_pass (List.insert b (List.insert a fset)) ps = (fset', rest, changed)"
    by (cases "same_pass (List.insert b (List.insert a fset)) ps")
  have "absorb_sames fset ((a, b) # ps) = absorb_sames fset' rest"
    using \<open>a \<in> set fset\<close> pass by (simp add: absorb_sames.simps [of fset "(a, b) # ps"])
  with absorb_sames_length [of fset' rest] same_pass_length [OF pass] show ?thesis by simp
qed

function NormalizeSames :: "(Func \<times> Func) list \<Rightarrow> Func list list" where
  "NormalizeSames [] = []"
| "NormalizeSames ((a, b) # ps) =
     (case absorb_sames (List.insert b [a]) ((a, b) # ps) of (fset, rest) \<Rightarrow> fset # NormalizeSames rest)"
  by pat_completeness auto
termination
proof (relation "measure length", goal_cases)
  case (2 a b ps fset rest)
  then have "rest = snd (absorb_sames (List.insert b [a]) ((a, b) # ps))" by (metis snd_conv)
  moreover have "length (snd (absorb_sames (List.insert b [a]) ((a, b) # ps))) \<le> length ps" by (rule absorb_sames_first) simp
  ultimately show ?case by simp
qed simp

declare NormalizeSames.simps(2) [simp del]

section \<open>BroadcastForSSA\<close>

record NormalizeOutput =
  norm_inplaces :: "(Func \<times> Expr) list"
  replaces :: "Func \<Rightarrow> Func option"

definition norm_arg :: "(Func \<Rightarrow> Func option) \<Rightarrow> Expr \<Rightarrow> Expr" where
  "norm_arg rep e =
     (case e of
        CallE ty ct n args f i \<Rightarrow> (case rep f of Some g \<Rightarrow> CallE ty ct (func_name g) args g i | None \<Rightarrow> e)
      | _ \<Rightarrow> e)"

function norm_expr :: "(Func \<Rightarrow> Func option) \<Rightarrow> Expr \<Rightarrow> Expr" where
  "norm_expr rep e =
     (case e of
        CallE ty ct n args f i \<Rightarrow> CallE ty ct n (map (norm_arg rep) args) f 0
      | _ \<Rightarrow> emap (norm_expr rep) e)"
  by pat_completeness auto
termination by (relation "measure (\<lambda>(rep, e). size e)") auto

declare norm_expr.simps [simp del]

text \<open>The output that stands for a tensor which is not one: the first in the first set with the tensor that has one.\<close>

definition same_output :: "Func list list \<Rightarrow> Func list \<Rightarrow> Func \<Rightarrow> Func option" where
  "same_output sames_vec outputs fn =
     (if fn \<in> set outputs then None
      else List.find (\<lambda>j. j \<in> set outputs) (concat (filter (\<lambda>c. fn \<in> set c) sames_vec)))"

definition norm_provide ::
    "Func list list \<Rightarrow> Func list \<Rightarrow> Func \<Rightarrow> nat \<Rightarrow> Expr \<Rightarrow> Expr list \<Rightarrow> NormalizeOutput \<Rightarrow> Stmt \<times> NormalizeOutput" where
  "norm_provide sames_vec outputs fn i v shape st =
     (case same_output sames_vec outputs fn of
        Some j \<Rightarrow>
          let rep = (replaces st)(fn \<mapsto> j);
              inp = (case map_of (norm_inplaces st) fn of
                       Some e \<Rightarrow> AList.delete fn (AList.update j e (norm_inplaces st))
                     | None \<Rightarrow> norm_inplaces st)
          in (Provide j i (norm_expr rep v) shape, \<lparr>norm_inplaces = inp, replaces = rep\<rparr>)
      | None \<Rightarrow> (Provide fn i (norm_expr (replaces st) v) (map (norm_expr (replaces st)) shape), st))"

fun norm_stmt :: "Func list list \<Rightarrow> Func list \<Rightarrow> Stmt \<Rightarrow> NormalizeOutput \<Rightarrow> Stmt \<times> NormalizeOutput" where
  "norm_stmt sv os (Provide fn i v shape) st = norm_provide sv os fn i v shape st"
| "norm_stmt sv os (LetStmt v e b) st = (case norm_stmt sv os b st of (b, st') \<Rightarrow> (LetStmt v (norm_expr (replaces st) e) b, st'))"
| "norm_stmt sv os (AttrStmt n k e b) st = (case norm_stmt sv os b st of (b, st') \<Rightarrow> (AttrStmt n k (norm_expr (replaces st) e) b, st'))"
| "norm_stmt sv os (AssertStmt c m b) st =
     (case norm_stmt sv os b st of (b, st') \<Rightarrow> (AssertStmt (norm_expr (replaces st) c) (norm_expr (replaces st) m) b, st'))"
| "norm_stmt sv os (ProducerConsumer fn p b) st = (case norm_stmt sv os b st of (b, st) \<Rightarrow> (ProducerConsumer fn p b, st))"
| "norm_stmt sv os (For v m x t b) st =
     (case norm_stmt sv os b st of (b, st') \<Rightarrow> (For v (norm_expr (replaces st) m) (norm_expr (replaces st) x) t b, st'))"
| "norm_stmt sv os (Allocate v t xs c b n) st =
     (case norm_stmt sv os b st of (b, st') \<Rightarrow>
        (Allocate v t (map (norm_expr (replaces st)) xs) (norm_expr (replaces st') c) b (map_option (norm_expr (replaces st')) n), st'))"
| "norm_stmt sv os (Realize fn i ty bs c b) st =
     (case norm_stmt sv os b st of (b, st') \<Rightarrow>
        (Realize fn i ty (map (map_prod (norm_expr (replaces st)) (norm_expr (replaces st))) bs) (norm_expr (replaces st') c) b, st'))"
| "norm_stmt sv os (Block a b) st =
     (case norm_stmt sv os a st of (a, st) \<Rightarrow> case norm_stmt sv os b st of (b, st) \<Rightarrow> (make_block a b, st))"
| "norm_stmt sv os (IfThenElse c t e) st =
     (case norm_stmt sv os t st of (t, st') \<Rightarrow>
        case e of
          None \<Rightarrow> (IfThenElse (norm_expr (replaces st) c) t None, st')
        | Some s \<Rightarrow> (case norm_stmt sv os s st' of (s, st') \<Rightarrow> (IfThenElse (norm_expr (replaces st) c) t (Some s), st')))"
| "norm_stmt sv os s st = (smap (norm_expr (replaces st)) (\<lambda>s. s) s, st)"

text \<open>\<open>FindProvide\<close>: the last statement that writes a tensor.\<close>

definition find_provide :: "Stmt \<Rightarrow> Func \<Rightarrow> (Expr \<times> Expr list) option" where
  "find_provide s fn = map_option snd (List.find (\<lambda>p. fst p = fn) (rev (provides s)))"

definition broadcast_stmt :: "(Expr list \<Rightarrow> AttrNode) \<Rightarrow> Expr \<times> Expr list \<Rightarrow> Func \<Rightarrow> Func \<Rightarrow> Stmt res" where
  "broadcast_stmt mk_node p j k =
     (case fst p of
        CallE type ct n args f i \<Rightarrow>
          res_bind (make_expr (CallE type CT_Halide (func_name j) (snd p) j 0)) (\<lambda>input_call.
            Ok (AttrStmt (mk_node (snd p)) ''attrs'' (IntImm (Int_type 32) 1)
                 (Provide k 0 (CallE type CT_PureIntrinsic ''BroadcastTo'' [input_call] no_func 0) (snd p))))
      | _ \<Rightarrow> Err Fatal)"

definition class_broadcasts :: "(Expr list \<Rightarrow> AttrNode) \<Rightarrow> Func list \<Rightarrow> Stmt \<Rightarrow> Func list \<Rightarrow> Stmt list \<Rightarrow> Stmt list res" where
  "class_broadcasts mk_node outputs s c =
     for_each (\<lambda>j stmts.
       case find_provide s j of
         Some p \<Rightarrow>
           if j \<in> set outputs then
             for_each (\<lambda>k stmts.
               if j \<noteq> k \<and> k \<in> set outputs then res_bind (broadcast_stmt mk_node p j k) (\<lambda>b. Ok (stmts @ [b])) else Ok stmts) c stmts
           else Ok stmts
       | None \<Rightarrow> Ok stmts) c"

definition BroadcastForSSA :: "(Expr list \<Rightarrow> AttrNode) \<Rightarrow> Func list \<Rightarrow> Stmt \<Rightarrow> BuildOpt \<Rightarrow> (Stmt \<times> BuildOpt) res" where
  "BroadcastForSSA mk_node outputs s opt =
     (let sames_vec = NormalizeSames (sames opt) in
      case norm_stmt sames_vec outputs s \<lparr>norm_inplaces = inplaces opt, replaces = Map.empty\<rparr> of (s, st) \<Rightarrow>
        res_bind (for_each (class_broadcasts mk_node outputs s) sames_vec [s]) (\<lambda>stmts.
        case make_blocks stmts of
          None \<Rightarrow> Err Fatal
        | Some s \<Rightarrow> Ok (s, opt\<lparr>inplaces := norm_inplaces st\<rparr>)))"

end
