(* ===== verification/Composite_Same_Correct.thy ===== *)
theory Composite_Same_Correct
  imports Composite_Same
begin

text \<open>
  The sets that \<open>NormalizeSames\<close> builds are the classes of the tensors that the recorded pairs
  connect, and after \<open>BroadcastForSSA\<close> every output that is the same as a written tensor is written.
\<close>

section \<open>Tensors that are the same\<close>

definition same_tensors :: "(Func \<times> Func) list \<Rightarrow> (Func \<times> Func) set" where
  "same_tensors ps = (set ps \<union> (set ps)\<inverse>)\<^sup>*"

lemma same_tensors_equiv: "equiv UNIV (same_tensors ps)"
proof -
  have "sym (same_tensors ps)" by (simp add: same_tensors_def sym_Un_converse sym_rtrancl)
  then show ?thesis by (auto simp: equiv_def same_tensors_def refl_rtrancl trans_rtrancl)
qed

lemma same_tensors_mono: "set ps \<subseteq> set qs \<Longrightarrow> same_tensors ps \<subseteq> same_tensors qs"
  unfolding same_tensors_def by (intro rtrancl_mono Un_mono) auto

lemma same_tensors_pair: "(a, b) \<in> set ps \<Longrightarrow> (a, b) \<in> same_tensors ps \<and> (b, a) \<in> same_tensors ps"
  by (auto simp: same_tensors_def)

lemma same_tensors_trans: "(a, b) \<in> same_tensors ps \<Longrightarrow> (b, c) \<in> same_tensors ps \<Longrightarrow> (a, c) \<in> same_tensors ps"
  by (simp add: same_tensors_def)

lemma same_tensors_sym: "(a, b) \<in> same_tensors ps \<Longrightarrow> (b, a) \<in> same_tensors ps"
  using same_tensors_equiv equivE symD by metis

lemma same_tensors_closed:
  assumes "(x, y) \<in> same_tensors ps" "x \<in> F" "\<And>a b. (a, b) \<in> set ps \<Longrightarrow> a \<in> F \<longleftrightarrow> b \<in> F"
  shows "y \<in> F"
  using assms(1) unfolding same_tensors_def by (induction rule: rtrancl_induct) (use assms(2,3) in auto)

lemma same_tensors_outside:
  assumes "(x, y) \<in> same_tensors ps" "x \<notin> F" "\<And>a b. (a, b) \<in> set ps \<Longrightarrow> (a, b) \<in> set rest \<or> a \<in> F \<and> b \<in> F"
    and "\<And>a b. (a, b) \<in> set rest \<Longrightarrow> a \<notin> F \<and> b \<notin> F"
  shows "(x, y) \<in> same_tensors rest \<and> y \<notin> F"
  using assms(1) unfolding same_tensors_def
proof (induction rule: rtrancl_induct)
  case (step y z)
  have "(y, z) \<in> set rest \<union> (set rest)\<inverse>" using step.hyps(2) step.IH assms(3) by blast
  with step.IH assms(4) show ?case by (blast intro: rtrancl_into_rtrancl)
qed (use assms(2) in simp)

section \<open>One set\<close>

definition absorbs :: "Func list \<Rightarrow> (Func \<times> Func) list \<Rightarrow> Func list \<Rightarrow> (Func \<times> Func) list \<Rightarrow> bool" where
  "absorbs f ps f' rest \<longleftrightarrow>
     set f \<subseteq> set f' \<and> set rest \<subseteq> set ps \<and> set f' \<subseteq> same_tensors ps `` set f \<and>
     (\<forall>(a, b) \<in> set ps. (a, b) \<in> set rest \<or> a \<in> set f' \<and> b \<in> set f')"

lemma absorbsD:
  assumes "absorbs f ps f' rest"
  shows "set f \<subseteq> set f'" "set rest \<subseteq> set ps" "set f' \<subseteq> same_tensors ps `` set f"
    and "(a, b) \<in> set ps \<Longrightarrow> (a, b) \<in> set rest \<or> a \<in> set f' \<and> b \<in> set f'"
  using assms by (auto simp: absorbs_def)

lemma absorbs_mono:
  assumes "absorbs f ps f' rest" "(a, b) \<in> set qs \<and> a \<in> set f' \<and> b \<in> set f' \<or> (a, b) \<in> set rest'"
    and "set ps \<subseteq> set qs" "set qs \<subseteq> insert (a, b) (set ps)" "set rest \<subseteq> set rest'" "set rest' \<subseteq> insert (a, b) (set rest)"
    and "(a, b) \<in> set qs"
    and "set g \<subseteq> set f" "set f \<subseteq> same_tensors qs `` set g"
  shows "absorbs g qs f' rest'"
proof -
  have "set f' \<subseteq> same_tensors qs `` set g"
  proof
    fix y
    assume "y \<in> set f'"
    then obtain x where "x \<in> set f" "(x, y) \<in> same_tensors qs"
      using assms(1) same_tensors_mono [OF assms(3)] unfolding absorbs_def by blast
    then show "y \<in> same_tensors qs `` set g" using assms(9) same_tensors_trans by blast
  qed
  moreover have "\<forall>(c, d) \<in> set qs. (c, d) \<in> set rest' \<or> c \<in> set f' \<and> d \<in> set f'"
    using assms unfolding absorbs_def by blast
  moreover have "set g \<subseteq> set f'" using assms(1,8) unfolding absorbs_def by blast
  moreover have "set rest' \<subseteq> set qs" using assms(1,3,6,7) unfolding absorbs_def by blast
  ultimately show ?thesis by (simp add: absorbs_def)
qed

lemma same_pass_absorbs:
  "same_pass f ps = (f', rest, changed) \<Longrightarrow>
     absorbs f ps f' rest \<and> (\<not> changed \<longrightarrow> f' = f \<and> rest = ps \<and> (\<forall>(a, b) \<in> set ps. a \<notin> set f \<and> b \<notin> set f))"
proof (induction f ps arbitrary: f' rest changed rule: same_pass.induct)
  case (1 f)
  then show ?case by (auto simp: absorbs_def same_tensors_def)
next
  case (2 f a b ps)
  show ?case
  proof (cases "a \<in> set f \<or> b \<in> set f")
    case True
    let ?g = "List.insert b (List.insert a f)"
    obtain r c where pass: "same_pass ?g ps = (f', r, c)" "rest = r" "changed"
      using "2.prems" True by (auto split: prod.splits)
    have ih: "absorbs ?g ps f' r" using "2.IH"(1) [OF True pass(1)] by blast
    have "absorbs f ((a, b) # ps) f' r"
    proof (rule absorbs_mono [OF ih, of a b])
      show "(a, b) \<in> set ((a, b) # ps) \<and> a \<in> set f' \<and> b \<in> set f' \<or> (a, b) \<in> set r"
        using ih by (simp add: absorbs_def)
      have refl: "x \<in> set f \<Longrightarrow> x \<in> same_tensors ((a, b) # ps) `` set f" for x
        by (auto simp: same_tensors_def)
      have "(a, b) \<in> same_tensors ((a, b) # ps)" "(b, a) \<in> same_tensors ((a, b) # ps)"
        using same_tensors_pair [of a b "(a, b) # ps"] by simp_all
      then have "a \<in> same_tensors ((a, b) # ps) `` set f" "b \<in> same_tensors ((a, b) # ps) `` set f"
        using True refl by blast+
      with refl show "set ?g \<subseteq> same_tensors ((a, b) # ps) `` set f" by auto
    qed auto
    with pass show ?thesis by simp
  next
    case False
    obtain r where pass: "same_pass f ps = (f', r, changed)" "rest = (a, b) # r"
      using "2.prems" False by (auto split: prod.splits)
    have ih: "absorbs f ps f' r" using "2.IH"(2) [OF False pass(1)] by blast
    have "absorbs f ((a, b) # ps) f' ((a, b) # r)"
      by (rule absorbs_mono [OF ih, of a b]) (auto simp: same_tensors_def)
    moreover have "\<not> changed \<longrightarrow> f' = f \<and> r = ps \<and> (\<forall>(a, b) \<in> set ps. a \<notin> set f \<and> b \<notin> set f)"
      using "2.IH"(2) [OF False pass(1)] by blast
    ultimately show ?thesis using pass(2) False by simp
  qed
qed

lemma absorbs_trans:
  assumes "absorbs f ps f' rest" "absorbs f' rest f'' rest'"
  shows "absorbs f ps f'' rest'"
proof -
  have "set f'' \<subseteq> same_tensors ps `` set f"
  proof
    fix z
    assume "z \<in> set f''"
    then obtain y where y: "y \<in> set f'" "(y, z) \<in> same_tensors rest" using assms(2) unfolding absorbs_def by blast
    then obtain x where "x \<in> set f" "(x, y) \<in> same_tensors ps" using assms(1) unfolding absorbs_def by blast
    moreover have "(y, z) \<in> same_tensors ps"
      using y(2) same_tensors_mono [of rest ps] assms(1) unfolding absorbs_def by blast
    ultimately show "z \<in> same_tensors ps `` set f" using same_tensors_trans by blast
  qed
  moreover have "(a, b) \<in> set rest' \<or> a \<in> set f'' \<and> b \<in> set f''" if "(a, b) \<in> set ps" for a b
    using absorbsD(4) [OF assms(1) that] absorbsD(4) [OF assms(2)] absorbsD(1) [OF assms(2)] by blast
  moreover have "set f \<subseteq> set f''" "set rest' \<subseteq> set ps" using absorbsD(1,2) [OF assms(1)] absorbsD(1,2) [OF assms(2)] by blast+
  ultimately show ?thesis unfolding absorbs_def by blast
qed

lemma absorb_sames_absorbs:
  "absorb_sames f ps = (f', rest) \<Longrightarrow> absorbs f ps f' rest \<and> (\<forall>(a, b) \<in> set rest. a \<notin> set f' \<and> b \<notin> set f')"
proof (induction f ps rule: absorb_sames.induct)
  case (1 f ps)
  obtain g r changed where pass: "same_pass f ps = (g, r, changed)" by (cases "same_pass f ps")
  show ?case
  proof (cases changed)
    case True
    then have "absorb_sames g r = (f', rest)" using "1.prems" pass by (simp add: absorb_sames.simps [of f ps])
    with "1.IH" [OF pass [symmetric] refl True]
    have ih: "absorbs g r f' rest" "\<forall>(a, b) \<in> set rest. a \<notin> set f' \<and> b \<notin> set f'" by blast+
    show ?thesis using absorbs_trans [OF _ ih(1)] same_pass_absorbs [OF pass] ih(2) by blast
  next
    case False
    then have "f' = g \<and> rest = r" using "1.prems" pass by (simp add: absorb_sames.simps [of f ps])
    with same_pass_absorbs [OF pass] False show ?thesis by auto
  qed
qed

lemma absorb_sames_class:
  assumes "absorb_sames (List.insert b [a]) ps = (f, rest)" "(a, b) \<in> set ps"
  shows "set f = same_tensors ps `` {a}"
    and "set ps = set rest \<union> {(x, y) \<in> set ps. x \<in> set f \<and> y \<in> set f}"
    and "\<And>x y. (x, y) \<in> set rest \<Longrightarrow> x \<notin> set f \<and> y \<notin> set f"
proof -
  from absorb_sames_absorbs [OF assms(1)]
  have abs: "absorbs (List.insert b [a]) ps f rest" and out: "\<And>x y. (x, y) \<in> set rest \<Longrightarrow> x \<notin> set f \<and> y \<notin> set f" by blast+
  have sub: "set f \<subseteq> same_tensors ps `` {a}"
  proof
    fix y
    assume "y \<in> set f"
    then have "(a, y) \<in> same_tensors ps \<or> (b, y) \<in> same_tensors ps" using abs by (auto simp: absorbs_def)
    then show "y \<in> same_tensors ps `` {a}" using same_tensors_trans same_tensors_pair [OF assms(2)] by blast
  qed
  have iff: "x \<in> set f \<longleftrightarrow> y \<in> set f" if "(x, y) \<in> set ps" for x y
    using abs out that unfolding absorbs_def by blast
  have "a \<in> set f" using abs by (simp add: absorbs_def)
  then have "same_tensors ps `` {a} \<subseteq> set f" using same_tensors_closed [OF _ _ iff] by blast
  with sub show "set f = same_tensors ps `` {a}" by blast
  show "set ps = set rest \<union> {(x, y) \<in> set ps. x \<in> set f \<and> y \<in> set f}" using abs unfolding absorbs_def by blast
  show "\<And>x y. (x, y) \<in> set rest \<Longrightarrow> x \<notin> set f \<and> y \<notin> set f" by (rule out)
qed

section \<open>All sets\<close>

lemma NormalizeSames_step:
  assumes "absorb_sames (List.insert b [a]) ps = (f, rest)" "(a, b) \<in> set ps"
    and "x \<in> Field (set rest)"
  shows "same_tensors ps `` {x} = same_tensors rest `` {x}" "x \<notin> set f"
proof -
  note cls = absorb_sames_class [OF assms(1,2)]
  show x: "x \<notin> set f" using assms(3) cls(3) by (auto simp: Field_def)
  have sub: "set rest \<subseteq> set ps" using cls(2) by blast
  have split: "(u, v) \<in> set rest \<or> u \<in> set f \<and> v \<in> set f" if "(u, v) \<in> set ps" for u v
    using cls(2) that by blast
  show "same_tensors ps `` {x} = same_tensors rest `` {x}"
    using same_tensors_outside [OF _ x split cls(3)] same_tensors_mono [OF sub] by blast
qed

lemma Field_absorbed:
  assumes "absorb_sames (List.insert b [a]) ps = (f, rest)" "(a, b) \<in> set ps"
  shows "Field (set ps) = set f \<union> Field (set rest)"
proof -
  note cls = absorb_sames_class [OF assms]
  have "set f \<subseteq> Field (set ps)"
  proof
    fix x
    assume x: "x \<in> set f"
    have "x \<in> Field (set ps)" if "(x, y) \<in> set ps \<union> (set ps)\<inverse>" for y using that by (auto simp: Field_def)
    moreover have "(a, x) \<in> (set ps \<union> (set ps)\<inverse>)\<^sup>*" using x cls(1) by (simp add: same_tensors_def)
    then have "x = a \<or> (\<exists>y. (x, y) \<in> set ps \<union> (set ps)\<inverse>)" by (cases rule: rtranclE) auto
    ultimately show "x \<in> Field (set ps)" using assms(2) by (auto simp: Field_def)
  qed
  moreover have "Field (set rest) \<subseteq> Field (set ps)" using cls(2) by (intro mono_Field) blast
  moreover have "Field (set ps) \<subseteq> set f \<union> Field (set rest)"
  proof
    fix x
    assume "x \<in> Field (set ps)"
    then obtain y where "(x, y) \<in> set ps \<or> (y, x) \<in> set ps" by (auto simp: Field_def)
    with cls(2) show "x \<in> set f \<union> Field (set rest)" by (auto simp: Field_def)
  qed
  ultimately show ?thesis by blast
qed

lemma NormalizeSames_classes:
  "set ` set (NormalizeSames ps) = Field (set ps) // same_tensors ps \<and> distinct (map set (NormalizeSames ps))"
proof (induction ps rule: NormalizeSames.induct)
  case 1
  show ?case by (simp add: quotient_def)
next
  case (2 a b ps)
  let ?ps = "(a, b) # ps"
  obtain f rest where absorb: "absorb_sames (List.insert b [a]) ?ps = (f, rest)" by (cases "absorb_sames (List.insert b [a]) ?ps")
  have ab: "(a, b) \<in> set ?ps" by simp
  note cls = absorb_sames_class [OF absorb ab] and step = NormalizeSames_step [OF absorb ab]
  have ih: "set ` set (NormalizeSames rest) = Field (set rest) // same_tensors rest" "distinct (map set (NormalizeSames rest))"
    using "2.IH" [OF absorb [symmetric]] by blast+
  have "same_tensors ?ps `` {x} = set f" if "x \<in> set f" for x
    using that cls(1) equiv_class_eq [OF same_tensors_equiv, of a x ?ps] by auto
  moreover have "a \<in> set f" using cls(1) by (simp add: same_tensors_def)
  ultimately have "(\<lambda>x. same_tensors ?ps `` {x}) ` set f = {set f}" by blast
  moreover have "(\<lambda>x. same_tensors ?ps `` {x}) ` Field (set rest) = Field (set rest) // same_tensors rest"
    using step(1) by (auto simp: quotient_def)
  ultimately have quot: "Field (set ?ps) // same_tensors ?ps = insert (set f) (Field (set rest) // same_tensors rest)"
    unfolding Field_absorbed [OF absorb ab] by (simp add: quotient_def image_Un UNION_singleton_eq_range)
  have "set f \<notin> Field (set rest) // same_tensors rest"
  proof
    assume "set f \<in> Field (set rest) // same_tensors rest"
    then obtain x where "x \<in> Field (set rest)" "x \<in> set f" by (auto simp: quotient_def same_tensors_def)
    with step(2) show False by blast
  qed
  with ih quot show ?case by (simp add: NormalizeSames.simps(2) absorb)
qed

section \<open>What is written\<close>

definition tensors_written :: "Stmt \<Rightarrow> Func list" where
  "tensors_written s = map fst (provides s)"

definition renamed :: "Func list list \<Rightarrow> Func list \<Rightarrow> Func \<Rightarrow> Func" where
  "renamed sv outs fn = (case same_output sv outs fn of Some j \<Rightarrow> j | None \<Rightarrow> fn)"

lemma tensors_written_simps [simp]:
  "tensors_written (Provide fn i v shape) = [fn]" "tensors_written (LetStmt w e b) = tensors_written b" "tensors_written (AttrStmt n k e b) = tensors_written b"
  "tensors_written (AssertStmt c m b) = tensors_written b" "tensors_written (ProducerConsumer fn ip b) = tensors_written b" "tensors_written (For w m x t b) = tensors_written b"
  "tensors_written (Allocate w ty xs c b ne) = tensors_written b" "tensors_written (Realize fn i ty bs c b) = tensors_written b"
  "tensors_written (Block a b) = tensors_written a @ tensors_written b"
  "tensors_written (IfThenElse c a None) = tensors_written a" "tensors_written (IfThenElse c a (Some b)) = tensors_written a @ tensors_written b"
  "tensors_written (Evaluate e) = []" "tensors_written (FreeStmt w) = []" "tensors_written (Store w e ix pe) = []" "tensors_written (Prefetch fn i ty bs) = []"
  by (simp_all add: tensors_written_def)

lemma tensors_written_make_block [simp]: "tensors_written (make_block a b) = tensors_written a @ tensors_written b"
  by (induction a b rule: make_block.induct) simp_all

lemma tensors_written_make_blocks: "make_blocks ss = Some s \<Longrightarrow> tensors_written s = concat (map tensors_written ss)"
  by (induction ss arbitrary: s rule: make_blocks.induct) auto

lemma tensors_written_norm_stmt: "tensors_written (fst (norm_stmt sv outs s st)) = map (renamed sv outs) (tensors_written s)"
proof (induction sv outs s st rule: norm_stmt.induct)
  case (1 sv os fn i v shape st)
  show ?case by (simp add: norm_provide_def renamed_def Let_def split: option.split)
next
  case (9 sv os a b st)
  obtain a' st' where a: "norm_stmt sv os a st = (a', st')" by (cases "norm_stmt sv os a st")
  with "9.IH"(1) "9.IH"(2) [OF a [symmetric]] show ?case by (simp add: split_beta)
next
  case (10 sv os c t e st)
  obtain t' st' where t: "norm_stmt sv os t st = (t', st')" by (cases "norm_stmt sv os t st")
  with "10.IH"(1) "10.IH"(2) [OF t [symmetric]] show ?case by (cases e) (simp_all add: split_beta)
qed (simp_all add: split_beta)

lemma same_output_cases:
  assumes "fn \<in> set c" "c \<in> set sv" "k \<in> set c" "k \<in> set outs"
  shows "renamed sv outs fn \<in> set outs \<and> (renamed sv outs fn = fn \<or> (\<exists>d \<in> set sv. fn \<in> set d \<and> renamed sv outs fn \<in> set d))"
proof (cases "fn \<in> set outs")
  case False
  have "\<exists>j. List.find (\<lambda>j. j \<in> set outs) (concat (filter (\<lambda>c. fn \<in> set c) sv)) = Some j"
    using assms by (subst not_None_eq [symmetric]) (auto simp: find_None_iff)
  then obtain j where j: "same_output sv outs fn = Some j" using False by (auto simp: same_output_def)
  then have "List.find (\<lambda>j. j \<in> set outs) (concat (filter (\<lambda>c. fn \<in> set c) sv)) = Some j"
    using False by (simp add: same_output_def)
  then have "j \<in> set outs \<and> j \<in> set (concat (filter (\<lambda>c. fn \<in> set c) sv))"
    unfolding find_Some_iff using nth_mem by metis
  with j show ?thesis by (auto simp: renamed_def)
qed (simp add: renamed_def same_output_def)

lemma find_provide_written: "fn \<in> set (tensors_written s) \<Longrightarrow> \<exists>p. find_provide s fn = Some p"
proof -
  assume "fn \<in> set (tensors_written s)"
  then obtain p where "p \<in> set (provides s)" "fst p = fn" by (auto simp: tensors_written_def)
  then have "List.find (\<lambda>p. fst p = fn) (rev (provides s)) \<noteq> None" by (auto simp only: find_None_iff set_rev)
  then show ?thesis by (auto simp: find_provide_def)
qed

section \<open>The broadcasts\<close>

lemma for_each_reaches:
  assumes "for_each f xs st = Ok st'" "x \<in> set xs"
    and "\<And>u v. f x u = Ok v \<Longrightarrow> P v" "\<And>y u v. P u \<Longrightarrow> f y u = Ok v \<Longrightarrow> P v"
  shows "P st'"
  using assms(1,2)
proof (induction xs arbitrary: st)
  case (Cons y xs)
  then obtain u where u: "f y st = Ok u" "for_each f xs u = Ok st'" by (auto simp: res_bind_Ok_conv)
  show ?case
  proof (cases "x = y")
    case True
    then have "P u" using assms(3) u(1) by blast
    with u(2) show ?thesis using for_each_invariant [where f = f and P = P] assms(4) by blast
  next
    case False
    with Cons u show ?thesis by auto
  qed
qed simp

lemma for_each_grows:
  assumes "\<And>x u v. f x u = Ok v \<Longrightarrow> set u \<subseteq> set v" "for_each f xs st = Ok st'"
  shows "set st \<subseteq> set st'"
  using for_each_invariant [where f = f and P = "\<lambda>u. set st \<subseteq> set u", OF _ subset_refl assms(2)] assms(1) by blast

definition pair_broadcast :: "(Expr list \<Rightarrow> AttrNode) \<Rightarrow> Func list \<Rightarrow> Expr \<times> Expr list \<Rightarrow> Func \<Rightarrow> Func \<Rightarrow> Stmt list \<Rightarrow> Stmt list res" where
  "pair_broadcast mk_node outs p j k stmts =
     (if j \<noteq> k \<and> k \<in> set outs then res_bind (broadcast_stmt mk_node p j k) (\<lambda>b. Ok (stmts @ [b])) else Ok stmts)"

lemma pair_broadcast_grows: "pair_broadcast mk_node outs p j k u = Ok v \<Longrightarrow> set u \<subseteq> set v"
  by (auto simp: pair_broadcast_def res_bind_Ok_conv split: if_splits)

lemma broadcast_writes: "broadcast_stmt mk_node p j k = Ok b \<Longrightarrow> tensors_written b = [k]"
  by (auto simp: broadcast_stmt_def res_bind_Ok_conv split: Expr.splits)

definition source_broadcasts :: "(Expr list \<Rightarrow> AttrNode) \<Rightarrow> Func list \<Rightarrow> Stmt \<Rightarrow> Func list \<Rightarrow> Func \<Rightarrow> Stmt list \<Rightarrow> Stmt list res" where
  "source_broadcasts mk_node outs s c j stmts =
     (case find_provide s j of
        Some p \<Rightarrow> if j \<in> set outs then for_each (pair_broadcast mk_node outs p j) c stmts else Ok stmts
      | None \<Rightarrow> Ok stmts)"

lemma class_broadcasts_alt: "class_broadcasts mk_node outs s c = for_each (source_broadcasts mk_node outs s c) c"
  unfolding class_broadcasts_def source_broadcasts_def pair_broadcast_def by (rule refl)

lemma source_broadcasts_grows: "source_broadcasts mk_node outs s c j u = Ok v \<Longrightarrow> set u \<subseteq> set v"
  using for_each_grows [where f = "pair_broadcast mk_node outs p j" for p, OF pair_broadcast_grows]
  by (auto simp: source_broadcasts_def split: option.splits if_splits)

lemma class_broadcasts_grows: "class_broadcasts mk_node outs s c u = Ok v \<Longrightarrow> set u \<subseteq> set v"
  unfolding class_broadcasts_alt
  by (rule for_each_grows [where f = "source_broadcasts mk_node outs s c"]) (auto dest: source_broadcasts_grows)

lemma class_broadcasts_writes:
  assumes "class_broadcasts mk_node outs s c u = Ok v" "j \<in> set c" "k \<in> set c" "j \<in> set (tensors_written s)"
    and "j \<in> set outs" "k \<in> set outs" "j \<noteq> k"
  shows "\<exists>b \<in> set v. tensors_written b = [k]"
  using assms(1) unfolding class_broadcasts_alt
proof (rule for_each_reaches [OF _ assms(2)])
  fix u v
  assume source: "source_broadcasts mk_node outs s c j u = Ok v"
  obtain p where "find_provide s j = Some p" using find_provide_written [OF assms(4)] by blast
  with source assms(5) have "for_each (pair_broadcast mk_node outs p j) c u = Ok v" by (simp add: source_broadcasts_def)
  then show "\<exists>b \<in> set v. tensors_written b = [k]"
  proof (rule for_each_reaches [OF _ assms(3)])
    fix u v
    assume "pair_broadcast mk_node outs p j k u = Ok v"
    with assms(6,7) show "\<exists>b \<in> set v. tensors_written b = [k]"
      using broadcast_writes by (fastforce simp: pair_broadcast_def res_bind_Ok_conv)
  next
    fix y u v
    assume "\<exists>b \<in> set u. tensors_written b = [k]" "pair_broadcast mk_node outs p j y u = Ok v"
    then show "\<exists>b \<in> set v. tensors_written b = [k]" using pair_broadcast_grows by blast
  qed
next
  fix y u v
  assume "\<exists>b \<in> set u. tensors_written b = [k]" "source_broadcasts mk_node outs s c y u = Ok v"
  then show "\<exists>b \<in> set v. tensors_written b = [k]" using source_broadcasts_grows by blast
qed

lemma all_broadcasts_write:
  assumes "for_each (class_broadcasts mk_node outs s) sv [s] = Ok stmts" "c \<in> set sv" "j \<in> set c" "k \<in> set c"
    and "j \<in> set (tensors_written s)" "j \<in> set outs" "k \<in> set outs"
  shows "\<exists>b \<in> set stmts. k \<in> set (tensors_written b)"
proof (cases "j = k")
  case True
  have "set [s] \<subseteq> set stmts" using for_each_grows [OF class_broadcasts_grows assms(1)] .
  with True assms(5) show ?thesis by auto
next
  case False
  from assms(1) have "\<exists>b \<in> set stmts. tensors_written b = [k]"
  proof (rule for_each_reaches [OF _ assms(2)])
    fix u v
    assume "class_broadcasts mk_node outs s c u = Ok v"
    then show "\<exists>b \<in> set v. tensors_written b = [k]" by (rule class_broadcasts_writes [OF _ assms(3-7) False])
  next
    fix y u v
    assume "\<exists>b \<in> set u. tensors_written b = [k]" "class_broadcasts mk_node outs s y u = Ok v"
    then show "\<exists>b \<in> set v. tensors_written b = [k]" using class_broadcasts_grows by blast
  qed
  then obtain b where "b \<in> set stmts" "tensors_written b = [k]" by blast
  then have "k \<in> set (tensors_written b)" by simp
  with \<open>b \<in> set stmts\<close> show ?thesis by blast
qed

section \<open>The properties\<close>

text \<open>C39: the sets that are built are the classes of the tensors that the recorded pairs connect, each
  of them once; so every tensor of a pair is in exactly one set.\<close>

theorem same_classes:
  "set ` set (NormalizeSames ps) = Field (set ps) // same_tensors ps \<and> distinct (map set (NormalizeSames ps))"
  by (rule NormalizeSames_classes)

lemma same_class:
  assumes "(x, k) \<in> same_tensors ps" "x \<noteq> k"
  obtains c where "c \<in> set (NormalizeSames ps)" "x \<in> set c" "k \<in> set c"
proof -
  have "x \<in> Field (set ps)"
    using assms unfolding same_tensors_def by (cases rule: converse_rtranclE) (auto simp: Field_def)
  then have "same_tensors ps `` {x} \<in> set ` set (NormalizeSames ps)"
    unfolding NormalizeSames_classes [THEN conjunct1] by (rule quotientI)
  then obtain c where "c \<in> set (NormalizeSames ps)" "set c = same_tensors ps `` {x}" by auto
  moreover have "x \<in> same_tensors ps `` {x}" by (simp add: same_tensors_def)
  ultimately show thesis using that assms(1) by auto
qed

lemma class_members:
  assumes "c \<in> set (NormalizeSames ps)" "x \<in> set c"
  shows "set c = same_tensors ps `` {x}"
proof -
  have "set c \<in> Field (set ps) // same_tensors ps" using NormalizeSames_classes [THEN conjunct1, of ps] assms(1) by blast
  then obtain y where y: "set c = same_tensors ps `` {y}" by (rule quotientE)
  with assms(2) equiv_class_eq [OF same_tensors_equiv, of y x ps] show ?thesis by auto
qed

text \<open>If a statement writes a tensor and an output of the program is recorded as the same, then the
  statement that the pass makes writes that output, however many pairs are between them.\<close>

theorem ssa_outputs_written:
  assumes "BroadcastForSSA mk_node outputs s opt = Ok (s', opt')"
    and "x \<in> set (tensors_written s)" "(x, k) \<in> same_tensors (sames opt)" "k \<in> set outputs"
  shows "k \<in> set (tensors_written s')"
proof -
  let ?sv = "NormalizeSames (sames opt)"
  obtain t st where norm: "norm_stmt ?sv outputs s \<lparr>norm_inplaces = inplaces opt, replaces = Map.empty\<rparr> = (t, st)"
    by (cases "norm_stmt ?sv outputs s \<lparr>norm_inplaces = inplaces opt, replaces = Map.empty\<rparr>")
  with assms(1) obtain stmts where run: "for_each (class_broadcasts mk_node outputs t) ?sv [t] = Ok stmts"
      "(case make_blocks stmts of None \<Rightarrow> Err Fatal | Some s \<Rightarrow> Ok (s, opt\<lparr>inplaces := norm_inplaces st\<rparr>)) = Ok (s', opt')"
    by (auto simp: BroadcastForSSA_def res_bind_Ok_conv)
  have stmts: "make_blocks stmts = Some s'" using run(2) by (cases "make_blocks stmts") simp_all
  have t: "renamed ?sv outputs x \<in> set (tensors_written t)"
    using tensors_written_norm_stmt [of ?sv outputs s "\<lparr>norm_inplaces = inplaces opt, replaces = Map.empty\<rparr>"] norm assms(2) by simp
  have "\<exists>b \<in> set stmts. k \<in> set (tensors_written b)"
  proof (cases "x = k")
    case True
    then have "renamed ?sv outputs x = k" using assms(4) by (simp add: renamed_def same_output_def)
    then show ?thesis using t for_each_grows [OF class_broadcasts_grows run(1)] by auto
  next
    case False
    obtain c where c: "c \<in> set ?sv" "x \<in> set c" "k \<in> set c" by (rule same_class [OF assms(3) False])
    from same_output_cases [OF c(2,1,3) assms(4)]
    have j: "renamed ?sv outputs x \<in> set outputs" "renamed ?sv outputs x \<in> set c"
      using class_members c(1,2) by metis+
    show ?thesis by (rule all_broadcasts_write [OF run(1) c(1) j(2) c(3) t j(1) assms(4)])
  qed
  then show ?thesis by (simp add: tensors_written_make_blocks [OF stmts])
qed

text \<open>Two outputs that are the same as one tensor: the operator writes one of them and the other is
  made from it.\<close>

definition tensor_fn :: "string \<Rightarrow> Func" where
  "tensor_fn name = Func 0 name None"

definition two_outputs :: BuildOpt where
  "two_outputs = \<lparr>sames = [(tensor_fn ''d'', tensor_fn ''t''), (tensor_fn ''e'', tensor_fn ''t'')], inplaces = [], fakeout = {}\<rparr>"

definition shape_node :: "Expr list \<Rightarrow> AttrNode" where
  "shape_node shape = Node_Other (length shape)"

lemma two_outputs_run:
  "BroadcastForSSA shape_node [tensor_fn ''d'', tensor_fn ''e''] (op_out ''t'' (op_call ''Abs'' [op_tensor ''a'' [4]]) [4]) two_outputs =
     Ok (Block (op_out ''e'' (op_call ''Abs'' [op_tensor ''a'' [4]]) [4])
          (AttrStmt (Node_Other 1) ''attrs'' (IntImm (Int_type 32) 1)
            (op_out ''d'' (CallE (Float_type 32) CT_PureIntrinsic ''BroadcastTo'' [op_tensor ''e'' [4]] no_func 0) [4])), two_outputs)"
  by code_simp

theorem ssa_outputs_written_witness:
  "tensor_fn ''d'' \<in> set (tensors_written
     (Block (op_out ''e'' (op_call ''Abs'' [op_tensor ''a'' [4]]) [4])
          (AttrStmt (Node_Other 1) ''attrs'' (IntImm (Int_type 32) 1)
            (op_out ''d'' (CallE (Float_type 32) CT_PureIntrinsic ''BroadcastTo'' [op_tensor ''e'' [4]] no_func 0) [4]))))"
proof (rule ssa_outputs_written [OF two_outputs_run])
  show "tensor_fn ''t'' \<in> set (tensors_written (op_out ''t'' (op_call ''Abs'' [op_tensor ''a'' [4]]) [4]))"
    by (simp add: op_out_def tensor_fn_def)
  show "(tensor_fn ''t'', tensor_fn ''d'') \<in> same_tensors (sames two_outputs)"
    by (rule same_tensors_sym, rule same_tensors_pair [THEN conjunct1]) (simp add: two_outputs_def)
qed simp

text \<open>Where two outputs that are the same are both written, each is overwritten with the other: the
  result has two statements for each of them.\<close>

lemma both_written_twice:
  "map_res (\<lambda>r. map func_name (tensors_written (fst r)))
     (BroadcastForSSA shape_node [tensor_fn ''c'', tensor_fn ''d'']
       (Block (op_out ''c'' (op_call ''Abs'' [op_tensor ''a'' [4]]) [4]) (op_out ''d'' (op_call ''Assign'' [op_tensor ''b'' [4]]) [4]))
       \<lparr>sames = [(tensor_fn ''d'', tensor_fn ''c'')], inplaces = [], fakeout = {}\<rparr>) =
   Ok [''c'', ''d'', ''d'', ''c'']"
  by code_simp

end
