(* ===== verification/Composite_Passes.thy ===== *)
theory Composite_Passes
  imports Composite_Same_Correct
begin

text \<open>
  Passes of \<open>composite/optimize\<close> that rename operators, change shapes and add attributes, and the end
  of \<open>composite/optimize/optimize.cc\<close>, which runs them after the assignments in place are removed.
\<close>

section \<open>RenameMatmul\<close>

function RenameMatmul :: "Stmt \<Rightarrow> Stmt" where
  "RenameMatmul s =
     (case s of
        Provide fn i v shape \<Rightarrow>
          (case v of
             CallE ty ct n args f j \<Rightarrow>
               if n = ''MatMul'' then Provide fn 0 (CallE ty CT_PureIntrinsic ''BatchMatMul'' args no_func 0) shape else s
           | _ \<Rightarrow> s)
      | _ \<Rightarrow> smap (\<lambda>e. e) RenameMatmul s)"
  by pat_completeness auto
termination by (relation "measure size") auto

declare RenameMatmul.simps [simp del]

section \<open>ComplexExpander\<close>

definition ExpandShape :: "Expr list \<Rightarrow> Expr list" where
  "ExpandShape shape = shape @ [IntImm (Int_type 32) 2]"

definition complex_provide :: "Func \<Rightarrow> nat \<Rightarrow> Expr \<Rightarrow> Expr list \<Rightarrow> Stmt res" where
  "complex_provide fn i v shape =
     (case v of
        CallE ty ct n args f j \<Rightarrow>
          if n = ''CReal'' \<or> n = ''CImag'' then
            res_bind (CHECK (length args = 1)) (\<lambda>_.
              case hd args of
                CallE cty cct cn csh cf ci \<Rightarrow>
                  Ok (Provide fn i
                       (CallE ty ct n [CallE \<lparr>ty_code = ty_code cty, ty_bits = ty_bits cty, ty_lanes = 1\<rparr> cct cn (ExpandShape csh) cf 0] f 0)
                       shape)
              | _ \<Rightarrow> Err Null_pointer)
          else if n = ''Complex'' then Ok (Provide fn i v (ExpandShape shape))
          else Ok (Provide fn i v shape)
      | _ \<Rightarrow> Err Fatal)"

fun complex_stmt :: "Stmt \<Rightarrow> Stmt res" where
  "complex_stmt (Provide fn i v shape) = complex_provide fn i v shape"
| "complex_stmt (LetStmt v e b) = res_bind (complex_stmt b) (\<lambda>b. Ok (LetStmt v e b))"
| "complex_stmt (AttrStmt n k e b) = res_bind (complex_stmt b) (\<lambda>b. Ok (AttrStmt n k e b))"
| "complex_stmt (AssertStmt c m b) = res_bind (complex_stmt b) (\<lambda>b. Ok (AssertStmt c m b))"
| "complex_stmt (ProducerConsumer fn p b) = res_bind (complex_stmt b) (\<lambda>b. Ok (ProducerConsumer fn p b))"
| "complex_stmt (For v m x t b) = res_bind (complex_stmt b) (\<lambda>b. Ok (For v m x t b))"
| "complex_stmt (Allocate v t xs c b n) = res_bind (complex_stmt b) (\<lambda>b. Ok (Allocate v t xs c b n))"
| "complex_stmt (Realize fn i ty bs c b) = res_bind (complex_stmt b) (\<lambda>b. Ok (Realize fn i ty bs c b))"
| "complex_stmt (Block a b) = res_bind (complex_stmt a) (\<lambda>a. res_bind (complex_stmt b) (\<lambda>b. Ok (make_block a b)))"
| "complex_stmt (IfThenElse c t e) =
     res_bind (complex_stmt t) (\<lambda>t.
       case e of None \<Rightarrow> Ok (IfThenElse c t None) | Some s \<Rightarrow> res_bind (complex_stmt s) (\<lambda>s. Ok (IfThenElse c t (Some s))))"
| "complex_stmt s = Ok s"

definition ComplexExpander :: "Stmt \<Rightarrow> Stmt res" where
  "ComplexExpander s = complex_stmt s"

section \<open>AddAttrsForOp\<close>

definition type_mapping :: "(string \<times> TvmType) list" where
  "type_mapping =
     [(''float64'', Float_type 64), (''float32'', Float_type 32), (''float16'', Float_type 16), (''bool'', Bool_type 1),
      (''int64'', Int_type 64), (''int32'', Int_type 32), (''int16'', Int_type 16), (''int8'', Int_type 8),
      (''uint64'', UInt_type 64), (''uint32'', UInt_type 32), (''uint16'', UInt_type 16), (''uint8'', UInt_type 8),
      (''complex128'', make_type 2 64 2), (''complex64'', make_type 2 32 2)]"

definition type2string :: "TvmType \<Rightarrow> string" where
  "type2string ty = (case List.find (\<lambda>it. snd it = ty) type_mapping of Some it \<Rightarrow> fst it | None \<Rightarrow> '''')"

text \<open>The name of the last operator visited, and its value and shape: \<open>op_name_\<close> and \<open>provide_\<close>.\<close>

type_synonym LastOp = "string \<times> (Expr \<times> Expr list) option"

definition op_attrs :: "LastOp \<Rightarrow> (string \<Rightarrow> AttrVal option) \<Rightarrow> (string \<Rightarrow> AttrVal option) res" where
  "op_attrs st m =
     (case st of (op_name, prov) \<Rightarrow>
        if op_name = ''Reshape'' then
          (case prov of Some (v, shape) \<Rightarrow> Ok (m(''shape'' \<mapsto> Attr_Array shape)) | None \<Rightarrow> Err Null_pointer)
        else if op_name = ''OneHot'' then
          (case prov of
             Some (CallE ty ct n args f i, shape) \<Rightarrow> Ok (m(''dst_type'' \<mapsto> Attr_Expr (StringImm (type2string ty))))
           | Some _ \<Rightarrow> Err Fatal
           | None \<Rightarrow> Err Null_pointer)
        else Ok m)"

fun add_attrs_stmt ::
    "(AttrNode \<Rightarrow> (string \<Rightarrow> AttrVal option) option) \<Rightarrow> ((string \<Rightarrow> AttrVal option) \<Rightarrow> AttrNode) \<Rightarrow> Stmt \<Rightarrow> LastOp \<Rightarrow> (Stmt \<times> LastOp) res" where
  "add_attrs_stmt map_node mk_node (AttrStmt n k e b) st =
     res_bind (add_attrs_stmt map_node mk_node b st) (\<lambda>(b, st).
     res_bind (CHECK (k = ''attrs'')) (\<lambda>_.
       case map_node n of
         None \<Rightarrow> Err Fatal
       | Some m \<Rightarrow> res_bind (op_attrs st m) (\<lambda>m. Ok (AttrStmt (mk_node m) k e b, st))))"
| "add_attrs_stmt map_node mk_node (Provide fn i v shape) st =
     (case v of
        CallE ty ct n args f j \<Rightarrow> Ok (Provide fn i v shape, n, Some (v, shape))
      | _ \<Rightarrow> Err Fatal)"
| "add_attrs_stmt map_node mk_node (LetStmt v e b) st =
     res_bind (add_attrs_stmt map_node mk_node b st) (\<lambda>(b, st). Ok (LetStmt v e b, st))"
| "add_attrs_stmt map_node mk_node (AssertStmt p m b) st =
     res_bind (add_attrs_stmt map_node mk_node b st) (\<lambda>(b, st). Ok (AssertStmt p m b, st))"
| "add_attrs_stmt map_node mk_node (ProducerConsumer fn p b) st =
     res_bind (add_attrs_stmt map_node mk_node b st) (\<lambda>(b, st). Ok (ProducerConsumer fn p b, st))"
| "add_attrs_stmt map_node mk_node (For v m x t b) st =
     res_bind (add_attrs_stmt map_node mk_node b st) (\<lambda>(b, st). Ok (For v m x t b, st))"
| "add_attrs_stmt map_node mk_node (Allocate v t xs p b n) st =
     res_bind (add_attrs_stmt map_node mk_node b st) (\<lambda>(b, st). Ok (Allocate v t xs p b n, st))"
| "add_attrs_stmt map_node mk_node (Realize fn i ty bs p b) st =
     res_bind (add_attrs_stmt map_node mk_node b st) (\<lambda>(b, st). Ok (Realize fn i ty bs p b, st))"
| "add_attrs_stmt map_node mk_node (Block a b) st =
     res_bind (add_attrs_stmt map_node mk_node a st) (\<lambda>(a, st).
     res_bind (add_attrs_stmt map_node mk_node b st) (\<lambda>(b, st). Ok (make_block a b, st)))"
| "add_attrs_stmt map_node mk_node (IfThenElse p t e) st =
     res_bind (add_attrs_stmt map_node mk_node t st) (\<lambda>(t, st).
       case e of
         None \<Rightarrow> Ok (IfThenElse p t None, st)
       | Some s \<Rightarrow> res_bind (add_attrs_stmt map_node mk_node s st) (\<lambda>(s, st). Ok (IfThenElse p t (Some s), st)))"
| "add_attrs_stmt map_node mk_node s st = Ok (s, st)"

definition AddAttrsForOp ::
    "(AttrNode \<Rightarrow> (string \<Rightarrow> AttrVal option) option) \<Rightarrow> ((string \<Rightarrow> AttrVal option) \<Rightarrow> AttrNode) \<Rightarrow> Stmt \<Rightarrow> Stmt res" where
  "AddAttrsForOp map_node mk_node s = res_bind (add_attrs_stmt map_node mk_node s ('''', None)) (\<lambda>(s, st). Ok s)"

section \<open>LogicalOrToAdd\<close>

function logical_or_expr :: "Expr \<Rightarrow> Expr" where
  "logical_or_expr e =
     (case e of
        CallE ty ct n args f i \<Rightarrow>
          if n = ''LogicalOr'' then CallE ty CT_PureIntrinsic ''Add'' args no_func 0 else emap logical_or_expr e
      | _ \<Rightarrow> emap logical_or_expr e)"
  by pat_completeness auto
termination by (relation "measure size") auto

declare logical_or_expr.simps [simp del]

function LogicalOrToAdd :: "Stmt \<Rightarrow> Stmt" where
  "LogicalOrToAdd s = smap logical_or_expr LogicalOrToAdd s"
  by pat_completeness auto
termination by (relation "measure size") auto

declare LogicalOrToAdd.simps [simp del]

section \<open>The end of Optimize\<close>

text \<open>The passes that follow the folding of dimensions, for another target than \<open>aicore\<close> and \<open>cuda\<close>.\<close>

definition optimize_end ::
    "(AttrNode \<Rightarrow> (string \<Rightarrow> AttrVal option) option) \<Rightarrow> ((string \<Rightarrow> AttrVal option) \<Rightarrow> AttrNode) \<Rightarrow> Func list \<Rightarrow> Stmt \<Rightarrow> BuildOpt \<Rightarrow>
     (Stmt \<times> BuildOpt) res" where
  "optimize_end map_node mk_node outputs s opt =
     res_bind (InplaceAssignOpt map_node s opt) (\<lambda>(s, opt).
     res_bind (ComplexExpander (RenameMatmul s)) (\<lambda>s.
     res_bind (AddAttrsForOp map_node mk_node s) (\<lambda>s.
       BroadcastForSSA (\<lambda>shape. mk_node [''shape'' \<mapsto> Attr_Array shape]) outputs s opt)))"

end
