(* ===== verification/Composite_Passes_Correct.thy ===== *)
theory Composite_Passes_Correct
  imports Composite_Passes
begin

text \<open>
  The end of the optimisation of composite operators as a whole: on a statement of operators it
  succeeds, and although assignments in place are removed on the way and outputs change their names,
  every output that the program writes is written at the end.
\<close>

section \<open>Statements of operators\<close>

definition dim_imm :: "Expr \<Rightarrow> bool" where
  "dim_imm e \<longleftrightarrow> (case e of IntImm ty n \<Rightarrow> is_int ty | _ \<Rightarrow> False)"

text \<open>What the passes ask of an operator: an assignment in place has three operands of which the last is
  a tensor, and the parts of a complex tensor are taken of one tensor.\<close>

definition well_formed_op :: "Expr \<Rightarrow> bool" where
  "well_formed_op v \<longleftrightarrow>
     (case v of
        CallE ty ct op args f i \<Rightarrow>
          (op = ''InplaceAssign'' \<longrightarrow> ct \<noteq> CT_Halide \<and> (\<exists>a b ty ct n sh fc i. args = [a, b, CallE ty ct n sh fc i])) \<and>
          (op \<in> {''CReal'', ''CImag''} \<longrightarrow> (\<exists>ty ct n sh fc i. args = [CallE ty ct n sh fc i]))
      | _ \<Rightarrow> False)"

fun operator_program :: "(AttrNode \<Rightarrow> (string \<Rightarrow> AttrVal option) option) \<Rightarrow> Stmt \<Rightarrow> bool" where
  "operator_program map_node (AttrStmt n k e b) \<longleftrightarrow> k = ''attrs'' \<and> map_node n \<noteq> None \<and> operator_program map_node b"
| "operator_program map_node (Provide fn i v shape) \<longleftrightarrow> well_formed_op v \<and> list_all dim_imm shape"
| "operator_program map_node (Block a b) \<longleftrightarrow> operator_program map_node a \<and> operator_program map_node b"
| "operator_program map_node (Evaluate e) \<longleftrightarrow> True"
| "operator_program map_node s \<longleftrightarrow> False"

lemma operator_program_make_block [simp]:
  "operator_program map_node (make_block a b) \<longleftrightarrow> operator_program map_node a \<and> operator_program map_node b"
  by (induction a b rule: make_block.induct) auto

lemma operator_program_induct [consumes 1, case_names attr provide block evaluate]:
  assumes "operator_program map_node s"
    and "\<And>n m e b. map_node n = Some m \<Longrightarrow> operator_program map_node b \<Longrightarrow> P b \<Longrightarrow> P (AttrStmt n ''attrs'' e b)"
    and "\<And>fn i v shape. well_formed_op v \<Longrightarrow> list_all dim_imm shape \<Longrightarrow> P (Provide fn i v shape)"
    and "\<And>a b. operator_program map_node a \<Longrightarrow> operator_program map_node b \<Longrightarrow> P a \<Longrightarrow> P b \<Longrightarrow> P (Block a b)"
    and "\<And>e. P (Evaluate e)"
  shows "P s"
  using assms(1) by (induction s) (use assms(2-5) in auto)

lemma well_formed_opE:
  assumes "well_formed_op v"
  obtains ty ct op args f i where "v = CallE ty ct op args f i"
  using assms by (auto simp: well_formed_op_def split: Expr.splits)

text \<open>The pairs that assignments in place record, and the tensors that are still written after them.\<close>

fun assigned :: "Expr \<Rightarrow> (bool \<times> Func) option" where
  "assigned (CallE ty ct op [a, b, CallE ty' ct' n sh fc i'] f i) =
     (if op = ''InplaceAssign'' then Some ((case b of CallE ty ct n sh f i \<Rightarrow> True | _ \<Rightarrow> False), fc) else None)"
| "assigned e = None"

fun recorded :: "(Func \<times> Expr \<times> Expr list) list \<Rightarrow> (Func \<times> Func) list" where
  "recorded [] = []"
| "recorded ((fn, v, sh) # ps) = (case assigned v of Some (moved, fc) \<Rightarrow> [(fn, fc)] | None \<Rightarrow> []) @ recorded ps"

fun still_written :: "(Func \<times> Expr \<times> Expr list) list \<Rightarrow> Func list" where
  "still_written [] = []"
| "still_written ((fn, v, sh) # ps) = (case assigned v of Some (True, fc) \<Rightarrow> still_written ps | _ \<Rightarrow> fn # still_written ps)"

lemma recorded_append [simp]: "recorded (ps @ qs) = recorded ps @ recorded qs"
  by (induction ps rule: recorded.induct) auto

lemma still_written_append [simp]: "still_written (ps @ qs) = still_written ps @ still_written qs"
  by (induction ps rule: still_written.induct) (auto split: option.splits bool.splits)

text \<open>Each tensor that an assignment in place stands for has been written before it.\<close>

fun assigned_after :: "Func set \<Rightarrow> (Func \<times> Expr \<times> Expr list) list \<Rightarrow> bool" where
  "assigned_after W [] \<longleftrightarrow> True"
| "assigned_after W ((fn, v, sh) # ps) \<longleftrightarrow>
     (case assigned v of Some (moved, fc) \<Rightarrow> fc \<in> W | None \<Rightarrow> True) \<and> assigned_after (insert fn W) ps"

section \<open>InplaceAssignOpt\<close>

lemma inplace_provide_total:
  assumes "well_formed_op v" "list_all dim_imm shape"
  shows "\<exists>s opt'. inplace_provide attrs fn i v shape opt = Ok (s, opt') \<and> operator_program map_node s \<and>
     tensors_written s = still_written [(fn, v, shape)] \<and> sames opt' = fold (\<lambda>(a, b). AList.update a b) (recorded [(fn, v, shape)]) (sames opt)"
proof -
  obtain ty ct op args f j where v: "v = CallE ty ct op args f j" by (rule well_formed_opE [OF assms(1)])
  show ?thesis
  proof (cases "op = ''InplaceAssign''")
    case True
    then obtain a b ty' ct' n sh fc i' where args: "args = [a, b, CallE ty' ct' n sh fc i']" and ct: "ct \<noteq> CT_Halide"
      using assms(1) v by (auto simp: well_formed_op_def)
    have "well_formed_op (CallE ty ct ''Assign'' [a, b] no_func 0)" by (simp add: well_formed_op_def)
    then show ?thesis
      using v True args ct assms(2)
      by (cases b) (auto simp: inplace_provide_def make_expr_def vec_at_def Let_def split: option.split AttrVal.split Expr.split)
  next
    case False
    then have "assigned v = None" by (cases v rule: assigned.cases) (auto simp: v)
    with False v assms show ?thesis by (simp add: inplace_provide_def)
  qed
qed

lemma inplace_stmt_total:
  "operator_program map_node s \<Longrightarrow>
     \<exists>s' attrs' opt'. inplace_stmt map_node s (attrs, opt) = Ok (s', attrs', opt') \<and> operator_program map_node s' \<and>
       tensors_written s' = still_written (provides s) \<and> sames opt' = fold (\<lambda>(a, b). AList.update a b) (recorded (provides s)) (sames opt)"
proof (induction arbitrary: attrs opt rule: operator_program_induct)
  case (attr n m e b)
  from attr.IH [of m opt] attr.hyps(1) show ?case by auto
next
  case (provide fn i v shape)
  from inplace_provide_total [OF provide, of attrs fn i opt map_node] show ?case by auto
next
  case (block a b)
  from block.IH(1) [of attrs opt] obtain a' attrs1 opt1 where a: "inplace_stmt map_node a (attrs, opt) = Ok (a', attrs1, opt1)"
    "operator_program map_node a'" "tensors_written a' = still_written (provides a)"
    "sames opt1 = fold (\<lambda>(a, b). AList.update a b) (recorded (provides a)) (sames opt)" by blast
  from block.IH(2) [of attrs1 opt1] a show ?case by auto
qed auto

section \<open>The passes in between\<close>

lemma RenameMatmul_simps [simp]:
  "RenameMatmul (AttrStmt n k e b) = AttrStmt n k e (RenameMatmul b)" "RenameMatmul (Evaluate e) = Evaluate e"
  "RenameMatmul (LetStmt w e b) = LetStmt w e (RenameMatmul b)" "RenameMatmul (AssertStmt c m b) = AssertStmt c m (RenameMatmul b)"
  "RenameMatmul (ProducerConsumer fn p b) = ProducerConsumer fn p (RenameMatmul b)" "RenameMatmul (For w m x t b) = For w m x t (RenameMatmul b)"
  "RenameMatmul (Allocate w ty xs c b ne) = Allocate w ty xs c (RenameMatmul b) ne"
  "RenameMatmul (Realize fn i ty bs c b) = Realize fn i ty bs c (RenameMatmul b)"
  "RenameMatmul (IfThenElse c b d) = IfThenElse c (RenameMatmul b) (map_option RenameMatmul d)"
  "RenameMatmul (FreeStmt w) = FreeStmt w" "RenameMatmul (Store w e ix pe) = Store w e ix pe" "RenameMatmul (Prefetch fn i ty bs) = Prefetch fn i ty bs"
  "RenameMatmul (Block a b) = make_block (RenameMatmul a) (RenameMatmul b)"
  "RenameMatmul (Provide fn i (CallE ty ct op args f j) shape) =
     (if op = ''MatMul'' then Provide fn 0 (CallE ty CT_PureIntrinsic ''BatchMatMul'' args no_func 0) shape
      else Provide fn i (CallE ty ct op args f j) shape)"
  by (simp_all add: RenameMatmul.simps option.map_id0 [unfolded id_def] prod.map_id0 [unfolded id_def])

lemma RenameMatmul_total:
  "operator_program map_node s \<Longrightarrow> operator_program map_node (RenameMatmul s) \<and> tensors_written (RenameMatmul s) = tensors_written s"
proof (induction rule: operator_program_induct)
  case (provide fn i v shape)
  then obtain ty ct op args f j where v: "v = CallE ty ct op args f j" by (auto elim: well_formed_opE)
  show ?case using provide v by (simp add: well_formed_op_def)
qed auto

lemma complex_total:
  "operator_program map_node s \<Longrightarrow>
     \<exists>s'. complex_stmt s = Ok s' \<and> operator_program map_node s' \<and> tensors_written s' = tensors_written s"
proof (induction rule: operator_program_induct)
  case (provide fn i v shape)
  then obtain ty ct op args f j where v: "v = CallE ty ct op args f j" by (auto elim: well_formed_opE)
  have two: "dim_imm (IntImm (Int_type 32) 2)" by code_simp
  show ?case
  proof (cases "op = ''CReal'' \<or> op = ''CImag''")
    case True
    then obtain ty' ct' n sh fc i' where args: "args = [CallE ty' ct' n sh fc i']"
      using provide(1) v by (auto simp: well_formed_op_def)
    have "well_formed_op (CallE ty ct op [CallE ty'' ct' n (ExpandShape sh) fc 0] f 0)" for ty''
      using True by (auto simp: well_formed_op_def)
    with True v args provide(2) show ?thesis by (simp add: complex_provide_def)
  next
    case False
    then show ?thesis using provide two v by (cases "op = ''Complex''") (simp_all add: complex_provide_def ExpandShape_def)
  qed
qed auto

definition op_called :: "LastOp \<Rightarrow> bool" where
  "op_called st \<longleftrightarrow> (case st of (op, None) \<Rightarrow> op = '''' | (op, Some (v, sh)) \<Rightarrow> \<exists>ty ct op args f i. v = CallE ty ct op args f i)"

lemma op_attrs_total: "op_called st \<Longrightarrow> \<exists>m'. op_attrs st m = Ok m'"
  by (auto simp: op_called_def op_attrs_def split: prod.splits option.splits)

text \<open>After this pass the nodes of attributes are others.\<close>

definition call_provides :: "Stmt \<Rightarrow> bool" where
  "call_provides s \<longleftrightarrow> (\<forall>(fn, v, sh) \<in> set (provides s). (\<exists>ty ct op args f i. v = CallE ty ct op args f i) \<and> list_all dim_imm sh)"

lemma provides_make_block [simp]: "provides (make_block a b) = provides a @ provides b"
  by (induction a b rule: make_block.induct) simp_all

lemma add_attrs_total:
  "operator_program map_node s \<Longrightarrow> op_called st \<Longrightarrow>
     \<exists>s' st'. add_attrs_stmt map_node mk_node s st = Ok (s', st') \<and> op_called st' \<and> call_provides s' \<and> tensors_written s' = tensors_written s"
proof (induction arbitrary: st rule: operator_program_induct)
  case (attr n m e b)
  from attr.IH [OF attr.prems] obtain b' st' where b: "add_attrs_stmt map_node mk_node b st = Ok (b', st')" "op_called st'"
    "call_provides b'" "tensors_written b' = tensors_written b" by blast
  moreover from op_attrs_total [OF b(2), of m] obtain m' where "op_attrs st' m = Ok m'" ..
  ultimately show ?case using attr.hyps(1) by (simp add: guard_def call_provides_def)
next
  case (provide fn i v shape)
  then obtain ty ct op args f j where v: "v = CallE ty ct op args f j" by (auto elim: well_formed_opE)
  with provide show ?case by (simp add: op_called_def call_provides_def)
next
  case (block a b)
  from block.IH(1) [OF block.prems] obtain a' st1 where a: "add_attrs_stmt map_node mk_node a st = Ok (a', st1)" "op_called st1"
    "call_provides a'" "tensors_written a' = tensors_written a" by blast
  with block.IH(2) [OF a(2)] show ?case by (auto simp: call_provides_def ball_Un)
qed (simp add: call_provides_def)

section \<open>What the renamed operators compute\<close>

lemma operators_RenameMatmul:
  assumes "\<And>at vs. I at ''BatchMatMul'' vs = I at ''MatMul'' vs"
  shows "run_ops I konst (operators at (RenameMatmul s)) env = run_ops I konst (operators at s) env"
proof (induction at s arbitrary: env rule: operators.induct)
  case (2 at fn i v shape)
  show ?case
    by (cases v) (auto simp: assms RenameMatmul.simps [of "Provide fn i w shape" for w] cong: if_cong)
qed (simp_all add: run_ops_append)

lemma RenameMatmul_run:
  "(\<And>at vs. I at ''BatchMatMul'' vs = I at ''MatMul'' vs) \<Longrightarrow> run_stmt I konst (RenameMatmul s) env = run_stmt I konst s env"
  unfolding run_stmt_def by (rule operators_RenameMatmul)

lemma LogicalOrToAdd_operators [simp]:
  "operators at (LogicalOrToAdd (AttrStmt n k e b)) = operators (if k = ''attrs'' then Some n else at) (LogicalOrToAdd b)"
  "operators at (LogicalOrToAdd (Block a b)) = operators at (LogicalOrToAdd a) @ operators at (LogicalOrToAdd b)"
  "operators at (LogicalOrToAdd (Provide fn i v sh)) = [(at, fn, logical_or_expr v)]"
  "operators at (LogicalOrToAdd (Evaluate e)) = []" "operators at (LogicalOrToAdd (LetStmt w e b)) = []"
  "operators at (LogicalOrToAdd (AssertStmt c m b)) = []" "operators at (LogicalOrToAdd (ProducerConsumer fn p b)) = []"
  "operators at (LogicalOrToAdd (For w m x t b)) = []" "operators at (LogicalOrToAdd (Allocate w ty xs c b ne)) = []"
  "operators at (LogicalOrToAdd (Realize fn i ty bs c b)) = []" "operators at (LogicalOrToAdd (IfThenElse c b d)) = []"
  "operators at (LogicalOrToAdd (FreeStmt w)) = []" "operators at (LogicalOrToAdd (Store w e ix pe)) = []"
  "operators at (LogicalOrToAdd (Prefetch fn i ty bs)) = []"
  by (simp_all add: LogicalOrToAdd.simps)

text \<open>The other pass also renames tensors and constants that are calls of \<open>LogicalOr\<close>, which there are not.\<close>

definition or_free :: "Expr \<Rightarrow> bool" where
  "or_free v \<longleftrightarrow> (case v of CallE ty ct n args f i \<Rightarrow> map logical_or_expr args = args | _ \<Rightarrow> logical_or_expr v = v)"

lemma operators_LogicalOrToAdd:
  assumes "\<And>at vs. I at ''Add'' vs = I at ''LogicalOr'' vs" "list_all (\<lambda>(at, fn, v). or_free v) (operators at s)"
  shows "run_ops I konst (operators at (LogicalOrToAdd s)) env = run_ops I konst (operators at s) env"
  using assms(2)
proof (induction at s arbitrary: env rule: operators.induct)
  case (2 at fn i v shape)
  then show ?case
    by (cases v) (auto simp: assms(1) or_free_def logical_or_expr.simps [of "CallE ty ct n args f j" for ty ct n args f j] cong: if_cong)
qed (simp_all add: run_ops_append)

lemma LogicalOrToAdd_run:
  assumes "\<And>at vs. I at ''Add'' vs = I at ''LogicalOr'' vs" "list_all (\<lambda>(at, fn, v). or_free v) (operators None s)"
  shows "run_stmt I konst (LogicalOrToAdd s) env = run_stmt I konst s env"
  unfolding run_stmt_def using assms by (rule operators_LogicalOrToAdd)

section \<open>BroadcastForSSA\<close>

lemma call_provides_simps [simp]:
  "call_provides (LetStmt w e b) = call_provides b" "call_provides (AttrStmt n k e b) = call_provides b"
  "call_provides (AssertStmt c m b) = call_provides b" "call_provides (ProducerConsumer fn ip b) = call_provides b"
  "call_provides (For w m x t b) = call_provides b" "call_provides (Allocate w ty xs c b ne) = call_provides b"
  "call_provides (Realize fn i ty bs c b) = call_provides b"
  "call_provides (Block a b) \<longleftrightarrow> call_provides a \<and> call_provides b"
  "call_provides (make_block a b) \<longleftrightarrow> call_provides a \<and> call_provides b"
  "call_provides (IfThenElse c a None) = call_provides a"
  "call_provides (IfThenElse c a (Some b)) \<longleftrightarrow> call_provides a \<and> call_provides b"
  "call_provides (Evaluate e)" "call_provides (FreeStmt w)" "call_provides (Store w e ix pe)" "call_provides (Prefetch fn i ty bs)"
  by (simp_all add: call_provides_def ball_Un)

lemma norm_dims: "list_all dim_imm sh \<Longrightarrow> map (norm_expr rep) sh = sh"
  by (induction sh) (auto simp: dim_imm_def norm_expr.simps [of rep "IntImm ty i" for ty i] split: Expr.splits)

lemma norm_stmt_calls: "call_provides s \<Longrightarrow> call_provides (fst (norm_stmt sv outs s st))"
proof (induction sv outs s st rule: norm_stmt.induct)
  case (1 sv os fn i v shape st)
  then obtain ty ct op args f j where v: "v = CallE ty ct op args f j" and dims: "list_all dim_imm shape"
    by (auto simp: call_provides_def)
  have "norm_expr rep v = CallE ty ct op (map (norm_arg rep) args) f 0" for rep by (simp add: v norm_expr.simps)
  with dims show ?case by (simp add: norm_provide_def Let_def call_provides_def norm_dims split: option.split)
next
  case (9 sv os a b st)
  obtain a' st' where a: "norm_stmt sv os a st = (a', st')" by (cases "norm_stmt sv os a st")
  with "9.prems" "9.IH"(1) "9.IH"(2) [OF a [symmetric]] show ?case by (simp add: split_beta)
next
  case (10 sv os c t e st)
  obtain t' st' where t: "norm_stmt sv os t st = (t', st')" by (cases "norm_stmt sv os t st")
  with "10.prems" "10.IH"(1) "10.IH"(2) [OF t [symmetric]] show ?case by (cases e) (simp_all add: split_beta)
qed (simp_all add: split_beta)

lemma broadcast_total:
  assumes "call_provides s" "find_provide s j = Some p"
  shows "\<exists>b. broadcast_stmt mk_node p j k = Ok b"
proof -
  obtain q where q: "List.find (\<lambda>p. fst p = j) (rev (provides s)) = Some q" "p = snd q"
    using assms(2) by (auto simp: find_provide_def)
  then have "q \<in> set (provides s)" by (metis find_Some_iff nth_mem set_rev)
  then have "(fst q, p) \<in> set (provides s)" using q(2) by simp
  with assms(1) obtain ty ct op args f i where call: "fst p = CallE ty ct op args f i" and dims: "list_all dim_imm (snd p)"
    by (cases p) (auto simp: call_provides_def)
  have "list_all (\<lambda>a. is_int (type_of a)) (snd p)"
    using dims by (rule list.pred_mono_strong) (auto simp: dim_imm_def split: Expr.splits)
  with call show ?thesis by (simp add: broadcast_stmt_def make_expr_def)
qed

lemma class_broadcasts_total: "call_provides s \<Longrightarrow> \<exists>v. class_broadcasts mk_node outs s c u = Ok v"
proof -
  assume calls: "call_provides s"
  have pair: "\<exists>v. pair_broadcast mk_node outs p j k u = Ok v" if "find_provide s j = Some p" for p j k u
    using broadcast_total [OF calls that, of mk_node k] by (auto simp: pair_broadcast_def)
  have "\<exists>v. source_broadcasts mk_node outs s c j u = Ok v" for j u
  proof (cases "find_provide s j")
    case (Some p)
    have "\<exists>v. for_each (pair_broadcast mk_node outs p j) c u = Ok v"
      using for_each_total [where P = "\<lambda>u. True" and f = "pair_broadcast mk_node outs p j"] pair [OF Some] by simp
    with Some show ?thesis by (simp add: source_broadcasts_def)
  qed (simp add: source_broadcasts_def)
  then show ?thesis
    unfolding class_broadcasts_alt
    using for_each_total [where P = "\<lambda>u. True" and f = "source_broadcasts mk_node outs s c"] by simp
qed

lemma BroadcastForSSA_total:
  assumes "call_provides s"
  shows "\<exists>s' opt'. BroadcastForSSA mk_node outs s opt = Ok (s', opt')"
proof -
  let ?sv = "NormalizeSames (sames opt)"
  obtain t st where norm: "norm_stmt ?sv outs s \<lparr>norm_inplaces = inplaces opt, replaces = Map.empty\<rparr> = (t, st)"
    by (cases "norm_stmt ?sv outs s \<lparr>norm_inplaces = inplaces opt, replaces = Map.empty\<rparr>")
  then have "call_provides t"
    using norm_stmt_calls [OF assms, of ?sv outs "\<lparr>norm_inplaces = inplaces opt, replaces = Map.empty\<rparr>"] by simp
  then obtain stmts where run: "for_each (class_broadcasts mk_node outs t) ?sv [t] = Ok stmts"
    using for_each_total [where P = "\<lambda>u. True" and f = "class_broadcasts mk_node outs t"] class_broadcasts_total by metis
  then have "stmts \<noteq> []" using for_each_grows [OF class_broadcasts_grows run] by auto
  then obtain s' where "make_blocks stmts = Some s'" using make_blocks_None [of stmts] by (cases "make_blocks stmts") auto
  with norm run show ?thesis by (simp add: BroadcastForSSA_def)
qed

section \<open>No output is lost\<close>

lemma update_all_new:
  "distinct (map fst rs) \<Longrightarrow> fst ` set rs \<inter> fst ` set al = {} \<Longrightarrow> fold (\<lambda>(a, b). AList.update a b) rs al = al @ rs"
proof (induction rs arbitrary: al)
  case (Cons r rs)
  obtain a b where r: "r = (a, b)" by (cases r)
  have "a \<notin> fst ` set al" using Cons.prems(2) r by auto
  then have "AList.update a b al = al @ [(a, b)]" by (induction al) auto
  with Cons.IH [of "al @ [(a, b)]"] Cons.prems r show ?case by auto
qed simp

lemma recorded_keys: "set (map fst (recorded ps)) \<subseteq> fst ` set ps"
  by (induction ps rule: recorded.induct) (auto split: option.splits)

lemma recorded_distinct: "distinct (map fst ps) \<Longrightarrow> distinct (map fst (recorded ps))"
proof (induction ps rule: recorded.induct)
  case (2 fn v sh ps)
  moreover have "fn \<notin> set (map fst (recorded ps))" using 2(2) recorded_keys [of ps] by auto
  ultimately show ?case by (auto split: option.splits)
qed simp

lemma assigned_reach:
  assumes "assigned_after W ps" "\<And>x. x \<in> W \<Longrightarrow> \<exists>y \<in> K. (x, y) \<in> same_tensors rs"
    and "set (still_written ps) \<subseteq> K" "set (recorded ps) \<subseteq> set rs" "x \<in> W \<union> fst ` set ps"
  shows "\<exists>y \<in> K. (x, y) \<in> same_tensors rs"
  using assms
proof (induction ps arbitrary: W)
  case (Cons p ps)
  obtain fn v sh where p: "p = (fn, v, sh)" by (cases p)
  have "\<exists>y \<in> K. (fn, y) \<in> same_tensors rs"
  proof (cases "assigned v")
    case None
    then have "fn \<in> K" using Cons.prems(3) p by simp
    then show ?thesis by (auto simp: same_tensors_def)
  next
    case (Some r)
    then obtain moved fc where r: "assigned v = Some (moved, fc)" by (cases r) auto
    then have "fc \<in> W" "(fn, fc) \<in> set rs" using Cons.prems(1,4) p by auto
    with Cons.prems(2) same_tensors_pair same_tensors_trans show ?thesis by blast
  qed
  moreover have "set (still_written ps) \<subseteq> K" "set (recorded ps) \<subseteq> set rs"
    using Cons.prems(3,4) p by (auto split: option.splits if_splits bool.splits)
  moreover have "assigned_after (insert fn W) ps" using Cons.prems(1) p by simp
  moreover have "\<exists>y \<in> K. (x, y) \<in> same_tensors rs" if "x \<in> insert fn W" for x
    using that calculation(1) Cons.prems(2) by blast
  ultimately show ?case using Cons.IH [of "insert fn W"] Cons.prems(5) p by simp
qed simp

text \<open>C40: the passes at the end of the optimisation succeed on a program of operators, and every output
  that an operator of the program writes is written by the result: also if it was assigned in place,
  so that its operator is removed and another tensor, or another output, stands for it.\<close>

theorem outputs_survive:
  assumes "operator_program map_node s" "distinct (tensors_written s)" "assigned_after {} (provides s)" "sames opt = []"
  shows "\<exists>s' opt'. optimize_end map_node mk_node outputs s opt = Ok (s', opt') \<and>
    set outputs \<inter> set (tensors_written s) \<subseteq> set (tensors_written s')"
proof -
  obtain s1 attrs opt1 where s1: "inplace_stmt map_node s (Map.empty, opt) = Ok (s1, attrs, opt1)" "operator_program map_node s1"
    "tensors_written s1 = still_written (provides s)" "sames opt1 = fold (\<lambda>(a, b). AList.update a b) (recorded (provides s)) (sames opt)"
    using inplace_stmt_total [OF assms(1)] by blast
  have sames: "sames opt1 = recorded (provides s)"
    using s1(4) update_all_new [OF recorded_distinct, of "provides s" "[]"] assms(2,4) by (simp add: tensors_written_def)
  obtain s2 where s2: "complex_stmt (RenameMatmul s1) = Ok s2" "operator_program map_node s2" "tensors_written s2 = tensors_written s1"
    using complex_total RenameMatmul_total [OF s1(2)] by metis
  have "op_called ('''', None)" by (simp add: op_called_def)
  from add_attrs_total [OF s2(2) this] obtain s3 st where s3: "add_attrs_stmt map_node mk_node s2 ('''', None) = Ok (s3, st)"
    "call_provides s3" "tensors_written s3 = tensors_written s2" by metis
  let ?mk = "\<lambda>shape. mk_node [''shape'' \<mapsto> Attr_Array shape]"
  obtain s' opt' where s': "BroadcastForSSA ?mk outputs s3 opt1 = Ok (s', opt')"
    using BroadcastForSSA_total [OF s3(2)] by metis
  have "k \<in> set (tensors_written s')" if "k \<in> set outputs" "k \<in> set (tensors_written s)" for k
  proof -
    from that(2) have "k \<in> {} \<union> fst ` set (provides s)" by (simp add: tensors_written_def)
    then obtain y where y: "y \<in> set (still_written (provides s))" "(k, y) \<in> same_tensors (sames opt1)"
      using assigned_reach [OF assms(3), of "set (still_written (provides s))" "sames opt1" k] sames by auto
    then have "y \<in> set (tensors_written s3)" using s1(3) s2(3) s3(3) by simp
    from ssa_outputs_written [OF s' this same_tensors_sym [OF y(2)] that(1)] show ?thesis .
  qed
  moreover have "optimize_end map_node mk_node outputs s opt = Ok (s', opt')"
    using s1(1) s2(1) s3(1) s' by (simp add: optimize_end_def InplaceAssignOpt_def ComplexExpander_def AddAttrsForOp_def)
  ultimately show ?thesis by blast
qed

text \<open>A product is assigned in place to an input; the output that stands for it afterwards is written in
  its place.\<close>

definition assign_in_place :: Stmt where
  "assign_in_place =
     Block
       (op_out ''t'' (op_call ''MatMul'' [op_tensor ''a'' [4, 4], op_tensor ''b'' [4, 4]]) [4, 4])
       (AttrStmt (Node_Other 0) ''attrs'' (IntImm (Int_type 32) 1)
         (op_out ''d'' (op_call ''InplaceAssign'' [op_tensor ''x'' [4, 4], op_tensor ''t'' [4, 4], op_tensor ''t'' [4, 4]]) [4, 4]))"

definition no_opt :: BuildOpt where
  "no_opt = \<lparr>sames = [], inplaces = [], fakeout = {}\<rparr>"

lemma assign_in_place_ok:
  "operator_program (\<lambda>n. Some Map.empty) assign_in_place" "distinct (tensors_written assign_in_place)"
  "assigned_after {} (provides assign_in_place)" "sames no_opt = []"
  by (simp_all add: assign_in_place_def no_opt_def op_out_def op_call_def op_tensor_def well_formed_op_def dim_imm_def
    tensors_written_def is_int_def Int_type_def make_type_def)

theorem outputs_survive_witness:
  "\<exists>s' opt'. optimize_end (\<lambda>n. Some Map.empty) (\<lambda>m. Node_Other 1) [tensor_fn ''d''] assign_in_place no_opt = Ok (s', opt') \<and>
    tensor_fn ''d'' \<in> set (tensors_written s')"
proof -
  have "tensor_fn ''d'' \<in> set (tensors_written assign_in_place)"
    by (simp add: assign_in_place_def op_out_def tensor_fn_def)
  with outputs_survive [OF assign_in_place_ok, of "\<lambda>m. Node_Other 1" "[tensor_fn ''d'']"] show ?thesis by fastforce
qed

end
