(* ===== verification/Spec2Isabelle.thy ===== *)
theory Spec2Isabelle
  imports Halide_Codegen_Names Hermes_Tiling_Bounds Ascend_Memory Thread_Pool_Progress Pass_Index Pass_Sink_If Pass_Unify_Vars Pass_Promote_If_Correct
    Composite_Peel_Correct Composite_Fold_Correct Composite_Select_Correct Composite_Axis Composite_Passes_Correct
begin

text \<open>
  A model of parts of AKG, the auto kernel generator, with the theorems that make them correct.
  AKG compiles tensor programs to kernels: operators become TVM statements, a polyhedral
  scheduler chooses tiles and loop orders, passes rewrite the statements, a runtime executes the
  kernels. Modelled are the textual front end with the generator of its statements, the splitting
  of composite operators and the folding of their dimensions, passes that rewrite statements, the Hermes heuristics that choose tile sizes, and two parts of the runtime.
  Paths are below \<open>src/src\<close> of the repository.

  \<^bold>\<open>Shared.\<close> \<open>Akg_Prelude\<close>: outcomes (\<open>Ok\<close>, or \<open>Err\<close> with a failed \<open>CHECK\<close> or the undefined
  behaviour the program runs into), loops over containers, the number conversions of the C
  library. \<open>Cxx_Int\<close>: \<open>size_t\<close> as a \<open>64 word\<close> that wraps, \<open>int\<close> and \<open>int64_t\<close> as integers whose
  operations stop at an overflow, the conversions between them, the integer square root.
  \<open>Cxx_Float\<close> and \<open>Cxx_Float32\<close>: the floating-point numbers the sources read, print and
  compute with.

  \<^bold>\<open>Textual Halide IR\<close> (\<open>contrib/parser\<close>). \<open>Halide_Token\<close> is \<open>token.cc\<close>: the state of the
  tokenizer, \<open>GetNextToken\<close> by the kind of its first character, and the safety of its positions.
  \<open>Halide_Ast\<close> is \<open>ast.h\<close> and \<open>ast.cc\<close>: the tree and its printer. \<open>Halide_Grammar\<close> is
  \<open>grammar.cc\<close>: the token queue \<open>TokHandler\<close> and one parser for each function; their mutual
  recursion is tied by fuel. \<open>Halide_Progress\<close> shows that fuel of the number of tokens suffices:
  every parser consumes tokens, and no pop finds the queue empty. \<open>Halide_Reads\<close>,
  \<open>Halide_Expr_Roundtrip\<close>, \<open>Halide_Stmt_Reads\<close> and \<open>Halide_Roundtrip\<close> lead to the round trip: a
  program of the printable fragment, printed and parsed, is the same program. Calls and
  asserts are outside the fragment, since what the code prints for them it cannot parse.
  \<open>Halide_Codegen\<close> is \<open>codegen.cc\<close> and the entry points of \<open>parser.cc\<close>: the tree becomes a TVM
  statement, with two tables that map names to the variables and buffers in scope.
  \<open>Halide_Codegen_Typed\<close> shows that the statement passes every check of the constructors and that
  every object in it is declared: the very variable of a loop around it, an input, or what an
  allocate or realize before it introduced. \<open>Halide_Codegen_Names\<close> shows that it can be read back as
  the tree, calls and nodes of attributes included, up to the few things the generator drops, and that
  every binder is an object of its own, and joins this with the round trip: from printed text to
  the generated statement. To be read back, the inputs of the caller have to be named as the buffers they
  stand for. \<open>GetCceAxis\<close>, which the sources declare and nowhere define, is the parameter
  \<open>cce_axis\<close>.

  \<^bold>\<open>TVM statements.\<close> \<open>Tvm_Ir\<close> has the nodes, the types of expressions, the checks of their
  constructors and the default traversal of a mutator; \<open>Tvm_Types\<close> the trees that satisfy the
  checks. \<open>Tvm_Semantics\<close> is the specification of the passes,
  and no code of the repository: what a statement does to tensors and buffers, over integers
  without a width, with a failing assertion as the only failure. What calls, casts and constants
  mean is a parameter of it.

  \<^bold>\<open>Passes\<close> (\<open>pass\<close>). \<open>Pass_Rewriting\<close> is the shared argument for passes that rewrite the
  expressions of a statement in place. \<open>Pass_Index\<close> is \<open>rewrite_floordiv.cc\<close>,
  \<open>convert_div_mod_to_shift.cc\<close> and \<open>remove_assert.cc\<close>; the hypotheses of its theorems exclude
  negative dividends, where the two roundings differ, and divisors beyond the 16 bits the code
  tests. \<open>Pass_Sink_If\<close> is \<open>sink_if.cc\<close>, \<open>Pass_Promote_If\<close> and \<open>Pass_Promote_If_Correct\<close> are
  \<open>promote_if.cc\<close>: conditions are moved inwards and outwards, correctly if no statement writes
  what a condition reads. The merging of blocks in \<open>promote_if.cc\<close> calls itself on what it has
  merged; it has fuel, one more than the depth to which conditions are nested, and that is proved
  to be enough. The simplifier of TVM, there applied to a negated condition, is a parameter which
  has to negate. \<open>Pass_Unify_Vars\<close> is \<open>unify_loop_vars.cc\<close>, which replaces each variable by
  the object that the binder of its name introduced and changes nothing else; the occurrences that the
  pass leaves as they are, data variables of buffers, names of the hardware and the arguments of
  \<open>cce_img2col_ub\<close>, are excepted.

  \<^bold>\<open>Composite operators\<close> (\<open>composite\<close>). \<open>Composite_Util\<close> has the kinds of operators and the test for broadcasts of
  \<open>utils/util.cc\<close> and the functions of the C library on strings. \<open>Composite_Peel\<close> is
  \<open>utils/dimension_peeling.cc\<close> with \<open>get_peeled_body\<close> of \<open>composite_peel.cc\<close>: which dimensions of
  which tensors go with an axis, the ways to split the axes, the split statement. Dimensions refer
  to each other; they are numbered, and the searches along the references have fuel, one more than
  the number of the dimensions. \<open>Composite_Peel_Map\<close> shows that it is never used up and that the
  searches stay within every set of dimensions closed under elementwise relations; both searches
  are instances of the locale \<open>walk_lists\<close>. \<open>Composite_Peel_Relations\<close> shows what the analyzer
  builds, \<open>Composite_Peel_Space\<close> what \<open>GetPeelSpace\<close> lists and that strings are read back,
  \<open>Composite_Peel_Apply\<close> and \<open>Composite_Peel_Correct\<close> that a split of the space applies to its
  statement if its axes are different dimensions of every tensor; for one that is not, a statement is given
  where a check fails. What an attribute maps names to is the parameter \<open>map_node\<close>.
  \<open>Composite_Fold\<close> is \<open>optimize/fold_dimension.cc\<close>: the plan of which adjacent dimensions of each
  tensor are folded into one, and the pass that folds shapes and axes. The tensors of the plan are
  numbered, and a relation is its tensor with its place in \<open>succ\<close>. \<open>Composite_Fold_Blocks\<close> shows that
  the loops that separate dimensions in place add to a set of block starts,
  \<open>Composite_Fold_Propagate\<close> that blocks only get smaller and that \<open>DoPropagate\<close> carries one tensor's
  blocks over to another, \<open>Composite_Fold_Plan\<close> that the mutually recursive propagation ends and
  what it settles: the depth of the calls is bounded by the tensors, the rounds by the
  dimensions. \<open>Composite_Fold_Visit\<close>, \<open>Composite_Fold_Relations\<close> and \<open>Composite_Fold_Statement\<close>
  follow the visit of a statement to its plan, \<open>Composite_Fold_Shapes\<close> and \<open>Composite_Fold_Correct\<close>
  show what the plan means for shapes. The pass leaves one dimension for each block, the product of its
  dimensions; where no tensor depends on itself, blocks of related tensors agree, and operands still
  broadcast, up to leading ones; for a tensor that depends on itself, a plan is given that does not agree.
  \<open>AddReshapeRelation\<close>, which nothing calls, and the dumps for debugging are not modelled; the
  simplifier of TVM, products of other operands than constants and the nodes of attributes are
  parameters.
  \<open>Composite_Tensors\<close> says what a statement of such operators computes, and is the specification of
  passes that change them. \<open>Composite_Select\<close> is \<open>optimize/ops_combine.cc\<close>, which combines
  selections with comparisons; \<open>Composite_Select_Correct\<close> shows that the tensors keep their values
  where no selection chooses between results of comparisons.
  \<open>Composite_Axis\<close> is \<open>optimize/axis_attr_normalize.cc\<close>, and shows that the state which the visitor carries
  from operator to operator has no effect unless a reduction of a sparse matrix to one element occurs. \<open>Composite_Same\<close> is
  \<open>optimize/inplace_assign_mutator.cc\<close>, which records tensors that are the same, and
  \<open>optimize/broadcast_for_ssa.cc\<close>, which writes the outputs among them; \<open>Composite_Same_Correct\<close> shows
  that the sets built there are the classes of the recorded pairs and that no output is missing.
  \<open>Composite_Passes\<close> has the short passes of \<open>optimize/rename_matmul.cc\<close>, \<open>complex_expander.cc\<close>,
  \<open>add_attrs_for_op.cc\<close> and \<open>logicalor_to_add.cc\<close>, and the end of \<open>optimize.cc\<close> for other targets than
  \<open>aicore\<close> and \<open>cuda\<close>, whose passes \<open>Composite_Passes_Correct\<close> takes together: they succeed on a
  program of operators and lose none of its outputs.

  \<^bold>\<open>Hermes tiling\<close> (\<open>poly/tiling/hermes\<close>). \<open>Hermes_Op\<close> is \<open>op.cc\<close>, the operators, their
  names and categories; the dominant category is a semilattice, interpreted once.
  \<open>Hermes_Tensor\<close> is \<open>tensor.cc\<close>. \<open>Hermes_Graph\<close> is \<open>axis.h\<close> and \<open>node.cc\<close>: nodes refer to each
  other, so they live in a heap indexed by addresses. \<open>Hermes_Init_Graph\<close> is
  \<open>init_graph.cc\<close>: inputs, outputs, removal of nameless nodes. \<open>Hermes_Model_Graph\<close> is
  \<open>model_graph.cc\<close>: critical nodes and the nodes a reduction adds. \<open>Hermes_Cube\<close> is
  \<open>cube_tiling.cc\<close>, \<open>hardware.cc\<close> and \<open>GetLargestDivisor\<close> of \<open>tiling_analyzer.cc\<close>, with the
  bounds on the tiles of a matrix multiplication in \<open>Hermes_Cube_Bounds\<close>. \<open>Hermes_Vector\<close> is
  \<open>vec_tiling.cc\<close>; its recursion has fuel, and \<open>Hermes_Tiling_Bounds\<close> shows that more fuel than
  the tile of the penultimate axis is never used up. \<open>Hermes_Tiling\<close> is \<open>classify_axis.cc\<close>,
  \<open>multicore_tiling.cc\<close>, \<open>tiling_algo.cc\<close> and \<open>HermesTiling\<close> of \<open>../tiling.cc\<close>, with the bounds
  on its tiles in \<open>Hermes_Tiling_Bounds\<close>. \<open>std::pow\<close> is a parameter; \<open>std::sqrt\<close> is exact on the
  range the model admits.

  \<^bold>\<open>Runtime\<close> (\<open>runtime\<close>). \<open>Ascend_Memory\<close> is \<open>ascend/ascend_memory_manager.cc\<close>: a pool that
  counts down from the end of one block of the driver, whose answers are parameters. It is
  an instance of the locale \<open>counting_allocator\<close>, which gives the disjointness of the blocks.
  \<open>Thread_Pool\<close> is \<open>thread_pool.cc\<close> as a step relation: the steps of a worker and of the client,
  calls, spurious wake-ups. \<open>Thread_Pool_Invariant\<close> shows what every reachable state satisfies,
  \<open>Thread_Pool_Progress\<close> that \<open>SyncRun\<close> is never stuck and that a measure bounds every run, so
  that it returns; when \<open>ClearThreadPool\<close> returns, and the schedule on which it does not.

  \<^bold>\<open>Not modelled.\<close> What talks to isl (scheduling, emission, the surveys that collect the graph),
  to the device or to the driver; the rest of the front end of composite operators, which
  reads JSON and calls registered operators; the other passes
  over TVM statements, most of which call the simplifiers of TVM or keep state of the target; the
  vector nodes and reductions of TVM, which the modelled passes do not meet; the naming of nodes
  in \<open>init_graph.cc\<close>, which nothing calls; Python, tests and third-party code.
\<close>

end
